(* ===== verification/Prelude.thy ===== *)
theory Prelude
  imports Main "HOL-Library.Word" "HOL-Library.Monad_Syntax"
begin

text \<open>
  Shared vocabulary of the development: the machine integer types of the Rust code, the two
  ways a Rust computation can fail, bounds-checked vector access, and the generic facts on
  lists and words that the component theories use.

  Integers.  \<open>u8\<close>, \<open>u16\<close>, \<open>u32\<close> and \<open>u64\<close> are words of HOL-Library.Word wherever the code
  packs bits, compares or stores them at their width.  \<open>usize\<close> values that only index or count
  (positions, lengths, block ids, stack sizes) are \<open>nat\<close>: the vectors they index live in memory,
  so they cannot reach \<open>2 ^ 64\<close>.  Arithmetic that the code lets overflow is written with the
  check of a build with overflow checks: an overflow is a panic.

  Failures.  A function that can only panic returns an \<open>option\<close>, with \<open>None\<close> for the panic.
  The regular expression engine also runs unsafe code, so its results are \<open>'a res\<close>, which
  tells a panic from undefined behaviour and from an exhausted step budget.
\<close>

unbundle bit_operations_syntax

type_synonym u8 = "8 word"
type_synonym u16 = "16 word"
type_synonym u32 = "32 word"
type_synonym u64 = "64 word"

named_theorems lexer_simps "evaluation of the lexer stream operations"
named_theorems emit_simps "effect of the bytecode builder operations on the builder"
named_theorems ext_intros "introduction rules for builder extension"

section \<open>Faults\<close>

datatype fault =
    UB        \<comment> \<open>an unsafe read outside the buffer, or of a byte that is no opcode\<close>
  | Panic     \<comment> \<open>a Rust panic\<close>
  | No_Fuel   \<comment> \<open>the step budget of the model is used up: not an outcome of the code\<close>

type_synonym 'a res = "fault + 'a"

fun res_bind :: "'a res \<Rightarrow> ('a \<Rightarrow> 'b res) \<Rightarrow> 'b res" where
  "res_bind (Inl e) f = Inl e"
| "res_bind (Inr x) f = f x"

definition or_panic :: "'a option \<Rightarrow> 'a res" where
  "or_panic x = (case x of None \<Rightarrow> Inl Panic | Some y \<Rightarrow> Inr y)"

lemma or_panic_simps [simp]:
  "or_panic None = Inl Panic"
  "or_panic (Some y) = Inr y"
  by (simp_all add: or_panic_def)

lemma or_panic_eq_iff [simp]:
  "or_panic x = Inr y \<longleftrightarrow> x = Some y"
  "or_panic x = Inl e \<longleftrightarrow> x = None \<and> e = Panic"
  by (auto simp: or_panic_def split: option.splits)

lemma res_bind_eq_Inr [simp]:
  "res_bind m f = Inr y \<longleftrightarrow> (\<exists>x. m = Inr x \<and> f x = Inr y)"
  by (cases m) auto

lemma res_bind_eq_Inl:
  "res_bind m f = Inl e \<longleftrightarrow> m = Inl e \<or> (\<exists>x. m = Inr x \<and> f x = Inl e)"
  by (cases m) auto

lemma res_bind_cong [fundef_cong]:
  "m = m' \<Longrightarrow> (\<And>x. m' = Inr x \<Longrightarrow> f x = g x) \<Longrightarrow> res_bind m f = res_bind m' g"
  by (cases m') auto

section \<open>Vectors\<close>

text \<open>\<open>v[i]\<close> and \<open>v[i] = x\<close> on a Rust vector panic when \<open>i\<close> is out of range.\<close>

definition vec_get :: "'a list \<Rightarrow> nat \<Rightarrow> 'a option" where
  "vec_get xs i = (if i < length xs then Some (xs ! i) else None)"

definition vec_set :: "'a list \<Rightarrow> nat \<Rightarrow> 'a \<Rightarrow> 'a list option" where
  "vec_set xs i x = (if i < length xs then Some (xs[i := x]) else None)"

text \<open>\<open>&v[start..end]\<close> panics when \<open>start > end\<close> or \<open>end > v.len()\<close>.\<close>

definition vec_slice :: "'a list \<Rightarrow> nat \<Rightarrow> nat \<Rightarrow> 'a list option" where
  "vec_slice xs i j = (if i \<le> j \<and> j \<le> length xs then Some (take (j - i) (drop i xs)) else None)"

lemma vec_get_Some_iff [simp]: "vec_get xs i = Some x \<longleftrightarrow> i < length xs \<and> xs ! i = x"
  by (auto simp: vec_get_def)

lemma vec_get_None_iff [simp]: "vec_get xs i = None \<longleftrightarrow> length xs \<le> i"
  by (auto simp: vec_get_def)

lemma vec_set_Some_iff [simp]: "vec_set xs i x = Some ys \<longleftrightarrow> i < length xs \<and> ys = xs[i := x]"
  by (auto simp: vec_set_def)

lemma vec_set_None_iff [simp]: "vec_set xs i x = None \<longleftrightarrow> length xs \<le> i"
  by (auto simp: vec_set_def)

lemma vec_slice_Some_iff:
  "vec_slice xs i j = Some ys \<longleftrightarrow> i \<le> j \<and> j \<le> length xs \<and> ys = take (j - i) (drop i xs)"
  by (auto simp: vec_slice_def)

lemma vec_slice_length: "vec_slice xs i j = Some ys \<Longrightarrow> length ys = j - i"
  by (auto simp: vec_slice_Some_iff)

section \<open>Checked arithmetic\<close>

definition checked_sub :: "nat \<Rightarrow> nat \<Rightarrow> nat option" where
  "checked_sub a b = (if b \<le> a then Some (a - b) else None)"

definition checked_add_u32 :: "u32 \<Rightarrow> u32 \<Rightarrow> u32 option" where
  "checked_add_u32 a b = (if uint a + uint b < 2 ^ 32 then Some (a + b) else None)"

definition checked_mul_u32 :: "u32 \<Rightarrow> u32 \<Rightarrow> u32 option" where
  "checked_mul_u32 a b = (if uint a * uint b < 2 ^ 32 then Some (a * b) else None)"

lemma int_less_2p32: "int n < 2 ^ 32 \<longleftrightarrow> n < 2 ^ 32"
  by (rule of_nat_less_numeral_power_cancel_iff)

lemma uint_nat: "uint w = int (unat w)" for w :: "'a::len word"
  by simp

lemma checked_u32_eq:
  "checked_add_u32 a b = (if unat a + unat b < 2 ^ 32 then Some (a + b) else None)"
  "checked_mul_u32 a b = (if unat a * unat b < 2 ^ 32 then Some (a * b) else None)"
proof -
  have "uint a + uint b < 2 ^ 32 \<longleftrightarrow> unat a + unat b < 2 ^ 32"
    by (simp only: int_less_2p32 [symmetric] of_nat_add uint_nat)
  then show "checked_add_u32 a b = (if unat a + unat b < 2 ^ 32 then Some (a + b) else None)"
    by (simp only: checked_add_u32_def)
  have "uint a * uint b < 2 ^ 32 \<longleftrightarrow> unat a * unat b < 2 ^ 32"
    by (simp only: int_less_2p32 [symmetric] of_nat_mult uint_nat)
  then show "checked_mul_u32 a b = (if unat a * unat b < 2 ^ 32 then Some (a * b) else None)"
    by (simp only: checked_mul_u32_def)
qed

lemma checked_sub_Some_iff [simp]: "checked_sub a b = Some c \<longleftrightarrow> b \<le> a \<and> c = a - b"
  by (auto simp: checked_sub_def)

lemma checked_sub_None_iff [simp]: "checked_sub a b = None \<longleftrightarrow> a < b"
  by (auto simp: checked_sub_def)

lemma checked_add_u32_Some:
  "checked_add_u32 a b = Some c \<Longrightarrow> unat c = unat a + unat b"
  by (auto simp: checked_u32_eq unat_word_ariths split: if_splits)

lemma checked_mul_u32_Some:
  "checked_mul_u32 a b = Some c \<Longrightarrow> unat c = unat a * unat b"
  by (auto simp: checked_u32_eq unat_word_ariths split: if_splits)

section \<open>Words\<close>

text \<open>
  Bit facts about numbers below a power of two, and the reading of masks and of the bitwise
  or of disjoint fields as remainder and sum.
\<close>

lemma nat_less_bit_False: "(k::nat) < 2 ^ n \<Longrightarrow> n \<le> m \<Longrightarrow> \<not> bit k m"
  by (metis bit_iff_odd div_less even_zero less_le_trans one_le_numeral power_increasing)

lemma word_less_bit_False:
  fixes w :: "'a::len word"
  assumes "unat w < 2 ^ n" and "n \<le> m"
  shows "\<not> bit w m"
  using nat_less_bit_False [OF assms] by (simp add: bit_unsigned_iff)

lemma nat_push_or: "(b::nat) < 2 ^ n \<Longrightarrow> (a * 2 ^ n) OR b = a * 2 ^ n + b"
proof -
  assume b: "b < 2 ^ n"
  have "\<not> bit (a * 2 ^ n) m \<or> \<not> bit b m" for m
    using nat_less_bit_False [OF b, of m]
    by (cases "n \<le> m") (auto simp: push_bit_eq_mult[symmetric] bit_push_bit_iff)
  then show ?thesis by (simp add: disjunctive_add)
qed

lemma unat_and_mask: "unat (w AND mask n) = unat w mod 2 ^ n"
  for w :: "'a::len word"
  by (metis take_bit_eq_mask take_bit_eq_mod unsigned_take_bit_eq)

lemma unat_drop_bit: "unat (drop_bit n w) = unat w div 2 ^ n"
  for w :: "'a::len word"
  by (metis drop_bit_eq_div unat_drop_bit_eq)

lemma unat_ucast_mod: "unat (ucast w :: 'b::len word) = unat w mod 2 ^ LENGTH('b)"
  for w :: "'a::len word"
  by (simp add: unsigned_ucast_eq take_bit_eq_mod)

lemma unat_or: "unat (v OR w) = unat v OR unat w"
  for v w :: "'a::len word"
  by (simp add: unsigned_or_eq)

lemma unat_push_bit_small:
  "unat w * 2 ^ n < 2 ^ LENGTH('a) \<Longrightarrow> unat (push_bit n w) = unat w * 2 ^ n"
  for w :: "'a::len word"
  by (subst unsigned_push_bit_eq) (simp add: take_bit_eq_mod push_bit_eq_mult)

lemma unat_push_or_small:
  fixes v w :: "'a::len word"
  assumes "unat w < 2 ^ n" and "unat v * 2 ^ n < 2 ^ LENGTH('a)"
  shows "unat (push_bit n v OR w) = unat v * 2 ^ n + unat w"
  using nat_push_or [OF assms(1)] by (simp add: unat_or unat_push_bit_small [OF assms(2)])

lemma unat_of_nat_small:
  "k < 2 ^ LENGTH('a) \<Longrightarrow> unat (word_of_nat k :: 'a::len word) = k"
  by (simp add: unsigned_of_nat take_bit_eq_mod)

lemma unat_word_of_nat_le: "unat (word_of_nat k :: u32) \<le> k"
  by (simp add: unsigned_of_nat take_bit_eq_mod)

lemma of_nat_unat [simp]: "word_of_nat (unat w) = (w :: 'a::len word)"
  by simp

lemma unat_ucast_up:
  "LENGTH('a) \<le> LENGTH('b) \<Longrightarrow> unat (ucast w :: 'b::len word) = unat w"
  for w :: "'a::len word"
  by (simp add: unsigned_ucast_eq take_bit_nat_eq_self_iff)
     (meson less_le_trans one_le_numeral power_increasing unsigned_less)

lemma unat_ucast_u8_u32 [simp]: "unat (ucast (b :: u8) :: u32) = unat b"
  by (rule unat_ucast_up) simp

text \<open>Masks of consecutive low bits and of consecutive high bits of a byte.\<close>

lemma low_mask:
  "unat (w AND 0x3FF :: 32 word) = unat w mod 1024"
  "unat (w AND 0x3F :: 32 word) = unat w mod 64"
  "unat (w AND 0x1F :: 32 word) = unat w mod 32"
  "unat (w AND 0x0F :: 32 word) = unat w mod 16"
  "unat (w AND 0x07 :: 32 word) = unat w mod 8"
  using unat_and_mask [of w 10] unat_and_mask [of w 6] unat_and_mask [of w 5]
    unat_and_mask [of w 4] unat_and_mask [of w 3]
  by (simp_all add: mask_numeral)

lemma high_mask: 
  "unat (b AND 0xC0 :: 8 word) = unat b div 64 * 64"
  "unat (b AND 0xE0 :: 8 word) = unat b div 32 * 32"
  "unat (b AND 0xF0 :: 8 word) = unat b div 16 * 16"
  "unat (b AND 0xF8 :: 8 word) = unat b div 8 * 8"
proof -
  have *: "unat (b AND push_bit n (mask (8 - n))) = unat b div 2 ^ n * 2 ^ n" if "n \<le> 8" for n
  proof -
    have "b AND push_bit n (mask (8 - n)) = push_bit n (drop_bit n b)"
      using that by (intro bit_word_eqI) (auto simp: bit_simps)
    moreover have "unat b div 2 ^ n * 2 ^ n < 2 ^ LENGTH(8)"
      using unsigned_less[of b] by (meson div_times_less_eq_dividend le_less_trans)
    ultimately show ?thesis by (simp only: unat_push_bit_small unat_drop_bit)
  qed
  show "unat (b AND 0xC0 :: 8 word) = unat b div 64 * 64" using *[of 6] by (simp add: mask_numeral)
  show "unat (b AND 0xE0 :: 8 word) = unat b div 32 * 32" using *[of 5] by (simp add: mask_numeral)
  show "unat (b AND 0xF0 :: 8 word) = unat b div 16 * 16" using *[of 4] by (simp add: mask_numeral)
  show "unat (b AND 0xF8 :: 8 word) = unat b div 8 * 8" using *[of 3] by (simp add: mask_numeral)
qed

section \<open>Lists and digits\<close>

lemma list_upto_cases:
  "length xs \<ge> 1 \<Longrightarrow> \<exists>a ys. xs = a # ys"
  "length xs \<ge> 2 \<Longrightarrow> \<exists>a b ys. xs = a # b # ys"
  "length xs \<ge> 3 \<Longrightarrow> \<exists>a b c ys. xs = a # b # c # ys"
  "length xs \<ge> 4 \<Longrightarrow> \<exists>a b c d ys. xs = a # b # c # d # ys"
  by (auto simp: numeral_eq_Suc Suc_le_length_iff)

lemma base64_digits:
  "n div 4096 * 4096 + n div 64 mod 64 * 64 + n mod 64 = (n::nat)"
  "n div 262144 * 262144 + n div 4096 mod 64 * 4096 + n div 64 mod 64 * 64 + n mod 64 = n"
proof -
  have d: "n div 4096 = n div 64 div 64" "n div 262144 = n div 4096 div 64"
    by (simp_all add: div_mult2_eq [symmetric])
  have q: "n div 64 * 64 + n mod 64 = n" "n div 64 div 64 * 64 + n div 64 mod 64 = n div 64"
    "n div 4096 div 64 * 64 + n div 4096 mod 64 = n div 4096"
    by (simp_all only: div_mult_mod_eq)
  show "n div 4096 * 4096 + n div 64 mod 64 * 64 + n mod 64 = n"
    using q d by linarith
  show "n div 262144 * 262144 + n div 4096 mod 64 * 4096 + n div 64 mod 64 * 64 + n mod 64 = n"
    using q d by linarith
qed

end
