(* ===== verification/Unicode.thy ===== *)
theory Unicode
  imports Prelude
begin

text \<open>
  \<open>common/unicode.rs\<close>: classification of code points, surrogate pairs, and the UTF-8 and
  UTF-16 codecs.  A code unit is a \<open>u16\<close> and a code point a \<open>u32\<close>, as in the source; the tests
  are the source's comparisons in its order.  The Unicode ID_Start and ID_Continue sets are
  read from ICU in the source, so they are arguments here.

  The lemmas show that surrogate pairs and both encodings round-trip for every code point up
  to 0x10FFFF, lone surrogates included, that the byte counts agree with the encoders, that
  the encoded bytes have the shape the decoder tests for, and that the two ASCII identifier
  tables hold what their comments say they were generated from.
\<close>

section \<open>Constants and classification\<close>

type_synonym code_unit = u16
type_synonym code_point = u32

definition MAX_CODE_POINT :: code_point where
  "MAX_CODE_POINT = 0x10FFFF"

definition BMP_END :: code_point where
  "BMP_END = 0xFFFF"

definition HIGH_SURROGATE_START :: code_unit where
  "HIGH_SURROGATE_START = 0xD800"

definition HIGH_SURROGATE_END :: code_unit where
  "HIGH_SURROGATE_END = 0xDBFF"

definition LOW_SURROGATE_START :: code_unit where
  "LOW_SURROGATE_START = 0xDC00"

definition LOW_SURROGATE_END :: code_unit where
  "LOW_SURROGATE_END = 0xDFFF"

lemmas surrogate_consts [simp] =
  HIGH_SURROGATE_START_def HIGH_SURROGATE_END_def LOW_SURROGATE_START_def LOW_SURROGATE_END_def

definition is_in_unicode_range :: "code_point \<Rightarrow> bool" where
  "is_in_unicode_range c \<longleftrightarrow> c \<le> MAX_CODE_POINT"

definition is_in_bmp_range :: "code_point \<Rightarrow> bool" where
  "is_in_bmp_range c \<longleftrightarrow> c \<le> BMP_END"

definition is_surrogate_code_point :: "code_point \<Rightarrow> bool" where
  "is_surrogate_code_point c \<longleftrightarrow>
     c \<ge> ucast HIGH_SURROGATE_START \<and> c \<le> ucast LOW_SURROGATE_END"

definition is_high_surrogate_code_point :: "code_point \<Rightarrow> bool" where
  "is_high_surrogate_code_point c \<longleftrightarrow>
     c \<ge> ucast HIGH_SURROGATE_START \<and> c \<le> ucast HIGH_SURROGATE_END"

definition is_low_surrogate_code_point :: "code_point \<Rightarrow> bool" where
  "is_low_surrogate_code_point c \<longleftrightarrow>
     c \<ge> ucast LOW_SURROGATE_START \<and> c \<le> ucast LOW_SURROGATE_END"

definition is_high_surrogate_code_unit :: "code_unit \<Rightarrow> bool" where
  "is_high_surrogate_code_unit u \<longleftrightarrow> HIGH_SURROGATE_START \<le> u \<and> u \<le> HIGH_SURROGATE_END"

definition is_low_surrogate_code_unit :: "code_unit \<Rightarrow> bool" where
  "is_low_surrogate_code_unit u \<longleftrightarrow> LOW_SURROGATE_START \<le> u \<and> u \<le> LOW_SURROGATE_END"

definition needs_surrogate_pair :: "code_point \<Rightarrow> bool" where
  "needs_surrogate_pair c \<longleftrightarrow> c \<ge> 0x10000"

definition is_continuation_byte :: "u8 \<Rightarrow> bool" where
  "is_continuation_byte b \<longleftrightarrow> b AND 0xC0 = 0x80"

definition is_ascii :: "code_point \<Rightarrow> bool" where
  "is_ascii c \<longleftrightarrow> c < 0x80"

definition is_latin1 :: "code_point \<Rightarrow> bool" where
  "is_latin1 c \<longleftrightarrow> c \<le> 0xFF"

definition is_decimal_digit :: "code_point \<Rightarrow> bool" where
  "is_decimal_digit c \<longleftrightarrow> 0x30 \<le> c \<and> c \<le> 0x39"

definition is_ascii_whitespace :: "code_point \<Rightarrow> bool" where
  "is_ascii_whitespace c \<longleftrightarrow> c = 0x20 \<or> c = 0x09 \<or> c = 0x0B \<or> c = 0x0C"

definition is_unicode_whitespace :: "code_point \<Rightarrow> bool" where
  "is_unicode_whitespace c \<longleftrightarrow>
     c = 0x00A0 \<or> c = 0x1680 \<or> (0x2000 \<le> c \<and> c \<le> 0x200A) \<or> c = 0x202F \<or> c = 0x205F
     \<or> c = 0x3000 \<or> c = 0xFEFF"

definition is_whitespace :: "code_point \<Rightarrow> bool" where
  "is_whitespace c \<longleftrightarrow> is_ascii_whitespace c \<or> is_unicode_whitespace c"

definition is_unicode_newline :: "code_point \<Rightarrow> bool" where
  "is_unicode_newline c \<longleftrightarrow> c = 0x2028 \<or> c = 0x2029"

definition is_ascii_newline :: "code_point \<Rightarrow> bool" where
  "is_ascii_newline c \<longleftrightarrow> c = 0x0A \<or> c = 0x0D"

definition is_newline :: "code_point \<Rightarrow> bool" where
  "is_newline c \<longleftrightarrow> is_ascii_newline c \<or> is_unicode_newline c"

definition is_ascii_alphabetic :: "code_point \<Rightarrow> bool" where
  "is_ascii_alphabetic c \<longleftrightarrow> (0x61 \<le> c \<and> c \<le> 0x7A) \<or> (0x41 \<le> c \<and> c \<le> 0x5A)"

definition get_binary_value :: "code_point \<Rightarrow> u32 option" where
  "get_binary_value c = (if c = 0x30 then Some 0 else if c = 0x31 then Some 1 else None)"

definition get_octal_value :: "code_point \<Rightarrow> u32 option" where
  "get_octal_value c = (if 0x30 \<le> c \<and> c \<le> 0x37 then Some (c - 0x30) else None)"

definition get_hex_value :: "code_point \<Rightarrow> u32 option" where
  "get_hex_value c =
     (if 0x30 \<le> c \<and> c \<le> 0x39 then Some (c - 0x30)
      else if 0x61 \<le> c \<and> c \<le> 0x66 then Some (c - 0x61 + 10)
      else if 0x41 \<le> c \<and> c \<le> 0x46 then Some (c - 0x41 + 10)
      else None)"

section \<open>Identifier code points\<close>

text \<open>The lookup tables, with 0 for \<open>false\<close> and 1 for \<open>true\<close>.\<close>

abbreviation table_of :: "nat list \<Rightarrow> bool list" where
  "table_of bits \<equiv> map (\<lambda>b. b = 1) bits"

definition ASCII_ID_START :: "bool list" where
  "ASCII_ID_START = table_of [
    0, 0, 0, 0, 0, 0, 0, 0, 0, 0, 0, 0, 0, 0, 0, 0,
    0, 0, 0, 0, 0, 0, 0, 0, 0, 0, 0, 0, 0, 0, 0, 0,
    0, 0, 0, 0, 1, 0, 0, 0, 0, 0, 0, 0, 0, 0, 0, 0,
    0, 0, 0, 0, 0, 0, 0, 0, 0, 0, 0, 0, 0, 0, 0, 0,
    0, 1, 1, 1, 1, 1, 1, 1, 1, 1, 1, 1, 1, 1, 1, 1,
    1, 1, 1, 1, 1, 1, 1, 1, 1, 1, 1, 0, 0, 0, 0, 1,
    0, 1, 1, 1, 1, 1, 1, 1, 1, 1, 1, 1, 1, 1, 1, 1,
    1, 1, 1, 1, 1, 1, 1, 1, 1, 1, 1, 0, 0, 0, 0, 0]"

definition ASCII_ID_PART :: "bool list" where
  "ASCII_ID_PART = table_of [
    0, 0, 0, 0, 0, 0, 0, 0, 0, 0, 0, 0, 0, 0, 0, 0,
    0, 0, 0, 0, 0, 0, 0, 0, 0, 0, 0, 0, 0, 0, 0, 0,
    0, 0, 0, 0, 1, 0, 0, 0, 0, 0, 0, 0, 0, 0, 0, 0,
    1, 1, 1, 1, 1, 1, 1, 1, 1, 1, 0, 0, 0, 0, 0, 0,
    0, 1, 1, 1, 1, 1, 1, 1, 1, 1, 1, 1, 1, 1, 1, 1,
    1, 1, 1, 1, 1, 1, 1, 1, 1, 1, 1, 0, 0, 0, 0, 1,
    0, 1, 1, 1, 1, 1, 1, 1, 1, 1, 1, 1, 1, 1, 1, 1,
    1, 1, 1, 1, 1, 1, 1, 1, 1, 1, 1, 0, 0, 0, 0, 0]"

text \<open>\<open>table.get(c as usize).copied().unwrap_or(false)\<close>\<close>

definition is_id_start_ascii :: "code_point \<Rightarrow> bool" where
  "is_id_start_ascii c =
     (if unat c < length ASCII_ID_START then ASCII_ID_START ! unat c else False)"

definition is_id_part_ascii :: "code_point \<Rightarrow> bool" where
  "is_id_part_ascii c =
     (if unat c < length ASCII_ID_PART then ASCII_ID_PART ! unat c else False)"

definition is_id_part_unicode :: "(code_point \<Rightarrow> bool) \<Rightarrow> code_point \<Rightarrow> bool" where
  "is_id_part_unicode id_continue c \<longleftrightarrow> id_continue c \<or> c = 0x200C \<or> c = 0x200D"

definition is_id_start :: "(code_point \<Rightarrow> bool) \<Rightarrow> code_point \<Rightarrow> bool" where
  "is_id_start id_start c \<longleftrightarrow> is_id_start_ascii c \<or> id_start c"

definition is_id_part :: "(code_point \<Rightarrow> bool) \<Rightarrow> code_point \<Rightarrow> bool" where
  "is_id_part id_continue c \<longleftrightarrow> is_id_part_ascii c \<or> is_id_part_unicode id_continue c"

definition as_id_start :: "(code_point \<Rightarrow> bool) \<Rightarrow> code_point \<Rightarrow> code_point option" where
  "as_id_start id_start c = (if is_id_start id_start c then Some c else None)"

definition as_id_part :: "(code_point \<Rightarrow> bool) \<Rightarrow> code_point \<Rightarrow> code_point option" where
  "as_id_part id_continue c = (if is_id_part id_continue c then Some c else None)"

definition as_id_part_ascii :: "code_point \<Rightarrow> code_point option" where
  "as_id_part_ascii c = (if is_id_part_ascii c then Some c else None)"

text \<open>\<open>char::from_u32\<close> of the standard library: \<open>None\<close> for surrogates and beyond 0x10FFFF.\<close>

definition char_from_u32 :: "u32 \<Rightarrow> code_point option" where
  "char_from_u32 c = (if is_surrogate_code_point c \<or> MAX_CODE_POINT < c then None else Some c)"

section \<open>Surrogate pairs\<close>

definition try_encode_surrogate_pair :: "code_point \<Rightarrow> (code_unit \<times> code_unit) option" where
  "try_encode_surrogate_pair c =
     (if \<not> needs_surrogate_pair c then None
      else let offset_code_point = c - 0x10000;
               high_bits = ucast (drop_bit 10 offset_code_point) :: u16;
               low_bits = ucast (offset_code_point AND 0x3FF) :: u16
           in Some (high_bits + HIGH_SURROGATE_START, low_bits + LOW_SURROGATE_START))"

definition code_point_from_surrogate_pair :: "code_unit \<Rightarrow> code_unit \<Rightarrow> code_point" where
  "code_point_from_surrogate_pair high low =
     (let high_bits = ucast (high - HIGH_SURROGATE_START) :: u32;
          low_bits = ucast (low - LOW_SURROGATE_START) :: u32
      in (push_bit 10 high_bits OR low_bits) + 0x10000)"

section \<open>UTF-8 and UTF-16\<close>

text \<open>
  \<open>encode_utf8_codepoint\<close> writes into the front of the caller's buffer and returns the number
  of bytes written; \<open>None\<close> is its panic.
\<close>

definition encode_utf8_codepoint :: "u8 list \<Rightarrow> code_point \<Rightarrow> (u8 list \<times> nat) option" where
  "encode_utf8_codepoint buf c =
     (if c < 0x80 \<and> buf \<noteq> [] then
        Some (buf[0 := ucast c], 1)
      else if c \<le> 0x7FF \<and> length buf \<ge> 2 then
        Some (buf[0 := 0xC0 OR ucast (drop_bit 6 c),
                  1 := 0x80 OR ucast (c AND 0x3F)], 2)
      else if c \<le> 0xFFFF \<and> length buf \<ge> 3 then
        Some (buf[0 := 0xE0 OR ucast (drop_bit 12 c),
                  1 := 0x80 OR ucast (drop_bit 6 c AND 0x3F),
                  2 := 0x80 OR ucast (c AND 0x3F)], 3)
      else if c \<le> 0x10FFFF \<and> length buf \<ge> 4 then
        Some (buf[0 := 0xF0 OR ucast (drop_bit 18 c),
                  1 := 0x80 OR ucast (drop_bit 12 c AND 0x3F),
                  2 := 0x80 OR ucast (drop_bit 6 c AND 0x3F),
                  3 := 0x80 OR ucast (c AND 0x3F)], 4)
      else None)"

definition utf8_byte_count :: "code_point \<Rightarrow> nat option" where
  "utf8_byte_count c =
     (if c < 0x80 then Some 1
      else if c \<le> 0x7FF then Some 2
      else if c \<le> 0xFFFF then Some 3
      else if c \<le> 0x10FFFF then Some 4
      else None)"

text \<open>
  The outer option is the panic of \<open>buf[0]\<close> on an empty buffer; inside, \<open>Inl n\<close> is the error
  with the number of invalid bytes and \<open>Inr (c, n)\<close> the code point with its length.
\<close>

definition decode_wtf8_codepoint :: "u8 list \<Rightarrow> (nat + code_point \<times> nat) option" where
  "decode_wtf8_codepoint buf =
     (if buf = [] then None
      else let b1 = buf ! 0 in
        if b1 AND 0xE0 = 0xC0 \<and> length buf \<ge> 2 then
          let b2 = buf ! 1 in
            if \<not> is_continuation_byte b2 then Some (Inl 2)
            else Some (Inr (push_bit 6 (ucast b1 AND 0x1F) OR (ucast b2 AND 0x3F), 2))
        else if b1 AND 0xF0 = 0xE0 \<and> length buf \<ge> 3 then
          let b2 = buf ! 1; b3 = buf ! 2 in
            if \<not> is_continuation_byte b2 \<or> \<not> is_continuation_byte b3 then Some (Inl 3)
            else Some (Inr (push_bit 12 (ucast b1 AND 0x0F) OR push_bit 6 (ucast b2 AND 0x3F)
                            OR (ucast b3 AND 0x3F), 3))
        else if b1 AND 0xF8 = 0xF0 \<and> length buf \<ge> 4 then
          let b2 = buf ! 1; b3 = buf ! 2; b4 = buf ! 3 in
            if \<not> is_continuation_byte b2 \<or> \<not> is_continuation_byte b3
               \<or> \<not> is_continuation_byte b4 then Some (Inl 4)
            else Some (Inr (push_bit 18 (ucast b1 AND 0x07) OR push_bit 12 (ucast b2 AND 0x3F)
                            OR push_bit 6 (ucast b3 AND 0x3F) OR (ucast b4 AND 0x3F), 4))
        else Some (Inl 1))"

text \<open>\<open>None\<close> is the panic of a write past the end of the buffer.\<close>

definition encode_utf16_codepoint :: "code_unit list \<Rightarrow> code_point \<Rightarrow> (code_unit list \<times> nat) option"
  where
  "encode_utf16_codepoint buf c =
     (if is_in_bmp_range c then do {
        buf \<leftarrow> vec_set buf 0 (ucast c);
        Some (buf, 1)
      } else do {
        let offset = c - 0x10000;
        let high_bits = (ucast (drop_bit 10 offset) :: u16);
        let low_bits = (ucast (offset AND 0x3FF) :: u16);
        buf \<leftarrow> vec_set buf 0 (high_bits + HIGH_SURROGATE_START);
        buf \<leftarrow> vec_set buf 1 (low_bits + LOW_SURROGATE_START);
        Some (buf, 2)
      })"

definition utf16_code_unit_count :: "code_point \<Rightarrow> nat" where
  "utf16_code_unit_count c = (if is_in_bmp_range c then 1 else 2)"

section \<open>Surrogate pair lemmas\<close>

lemma surrogate_ranges:
  "is_high_surrogate_code_unit u \<longleftrightarrow> 0xD800 \<le> unat u \<and> unat u \<le> 0xDBFF"
  "is_low_surrogate_code_unit u \<longleftrightarrow> 0xDC00 \<le> unat u \<and> unat u \<le> 0xDFFF"
  by (simp_all add: is_high_surrogate_code_unit_def is_low_surrogate_code_unit_def word_le_nat_alt)

lemma unat_code_point_from_surrogate_pair:
  assumes "is_high_surrogate_code_unit h" "is_low_surrogate_code_unit l"
  shows "unat (code_point_from_surrogate_pair h l)
           = (unat h - 0xD800) * 1024 + (unat l - 0xDC00) + 0x10000"
proof -
  let ?h = "ucast (h - 0xD800) :: u32" and ?l = "ucast (l - 0xDC00) :: u32"
  have h: "unat ?h = unat h - 0xD800" and l: "unat ?l = unat l - 0xDC00"
    using assms
    by (auto simp: surrogate_ranges unat_ucast_mod unat_sub word_le_nat_alt intro!: mod_less)
  have hb: "unat ?h < 1024" and lb: "unat ?l < 1024"
    using assms h l by (auto simp: surrogate_ranges)
  have p: "unat (push_bit 10 ?h OR ?l) = unat ?h * 1024 + unat ?l"
    using hb lb unat_push_or_small [of ?l 10 ?h] by simp
  then have "unat ((push_bit 10 ?h OR ?l) + 0x10000) = unat ?h * 1024 + unat ?l + 0x10000"
    using hb lb by (simp add: unat_word_ariths)
  then show ?thesis
    by (simp add: code_point_from_surrogate_pair_def h l)
qed

lemma try_encode_surrogate_pair_Some:
  assumes "try_encode_surrogate_pair c = Some (h, l)" and "c \<le> MAX_CODE_POINT"
  shows "unat h = 0xD800 + (unat c - 0x10000) div 1024"
    and "unat l = 0xDC00 + (unat c - 0x10000) mod 1024"
proof -
  have c: "0x10000 \<le> unat c" "unat c \<le> 0x10FFFF"
    using assms by (auto simp: try_encode_surrogate_pair_def needs_surrogate_pair_def
        MAX_CODE_POINT_def word_le_nat_alt split: if_splits)
  then have o: "unat (c - 0x10000) = unat c - 0x10000"
    by (simp add: unat_sub word_le_nat_alt)
  have d: "(unat c - 0x10000) div 1024 < 1024" using c by linarith
  have d2: "(unat c - 0x10000) mod 1024 < 1024"  by simp
  have hl: "h = ucast (drop_bit 10 (c - 0x10000)) + 0xD800" "l = ucast ((c - 0x10000) AND 0x3FF) + 0xDC00"
    using assms by (auto simp: try_encode_surrogate_pair_def Let_def split: if_splits)
  show "unat h = 0xD800 + (unat c - 0x10000) div 1024"
    unfolding hl using d by (simp add: unat_word_ariths unat_ucast_mod unat_drop_bit o)
  show "unat l = 0xDC00 + (unat c - 0x10000) mod 1024"
    unfolding hl using d2 by (simp add: unat_word_ariths unat_ucast_mod low_mask o del: mod_less_divisor)
qed


lemma surrogate_pair_roundtrip:
  assumes "needs_surrogate_pair c" and "c \<le> MAX_CODE_POINT"
  obtains h l where "try_encode_surrogate_pair c = Some (h, l)"
    and "is_high_surrogate_code_unit h" and "is_low_surrogate_code_unit l"
    and "code_point_from_surrogate_pair h l = c"
proof -
  from assms(1) obtain h l where e: "try_encode_surrogate_pair c = Some (h, l)"
    by (auto simp: try_encode_surrogate_pair_def Let_def)
  note hl = try_encode_surrogate_pair_Some [OF e assms(2)]
  have c: "0x10000 \<le> unat c" "unat c \<le> 0x10FFFF"
    using assms by (auto simp: needs_surrogate_pair_def MAX_CODE_POINT_def word_le_nat_alt)
  have hi: "is_high_surrogate_code_unit h" and lo: "is_low_surrogate_code_unit l"
    using c by (auto simp: surrogate_ranges hl)
  have "unat (code_point_from_surrogate_pair h l) = unat c"
    using c by (simp add: unat_code_point_from_surrogate_pair [OF hi lo] hl)
  then have "code_point_from_surrogate_pair h l = c"
    by (simp add: word_unat_eq_iff)
  with e hi lo show thesis by (rule that)
qed

lemma surrogate_pair_decode_encode:
  assumes "is_high_surrogate_code_unit h" and "is_low_surrogate_code_unit l"
  shows "try_encode_surrogate_pair (code_point_from_surrogate_pair h l) = Some (h, l)"
    and "0x10000 \<le> code_point_from_surrogate_pair h l"
    and "code_point_from_surrogate_pair h l \<le> MAX_CODE_POINT"
proof -
  let ?c = "code_point_from_surrogate_pair h l"
  note u = unat_code_point_from_surrogate_pair [OF assms]
  show lo: "0x10000 \<le> ?c" and hi: "?c \<le> MAX_CODE_POINT"
    using u assms by (auto simp: word_le_nat_alt MAX_CODE_POINT_def surrogate_ranges)
  then obtain h' l' where e: "try_encode_surrogate_pair ?c = Some (h', l')"
    by (auto simp: try_encode_surrogate_pair_def needs_surrogate_pair_def Let_def)
  note hl = try_encode_surrogate_pair_Some [OF e hi]
  obtain a b where "unat h = 0xD800 + a" "unat l = 0xDC00 + b" "b < 1024"
    using assms by (auto simp: surrogate_ranges le_iff_add)
  then have "unat h' = unat h" "unat l' = unat l"
    by (simp_all add: hl u)
  then have "h' = h \<and> l' = l" by (simp add: word_unat_eq_iff)
  with e show "try_encode_surrogate_pair ?c = Some (h, l)" by simp
qed


section \<open>UTF-8 lemmas\<close>

text \<open>The byte sequence the UTF-8 encoder writes for a code point.\<close>

definition utf8_bytes :: "code_point \<Rightarrow> u8 list" where
  "utf8_bytes c =
     (if c < 0x80 then [ucast c]
      else if c \<le> 0x7FF then [0xC0 OR ucast (drop_bit 6 c), 0x80 OR ucast (c AND 0x3F)]
      else if c \<le> 0xFFFF then
        [0xE0 OR ucast (drop_bit 12 c), 0x80 OR ucast (drop_bit 6 c AND 0x3F),
         0x80 OR ucast (c AND 0x3F)]
      else
        [0xF0 OR ucast (drop_bit 18 c), 0x80 OR ucast (drop_bit 12 c AND 0x3F),
         0x80 OR ucast (drop_bit 6 c AND 0x3F), 0x80 OR ucast (c AND 0x3F)])"

lemma tag_byte:
  "unat b < 64 \<Longrightarrow> unat (0x80 OR b :: 8 word) = 128 + unat b"
  "unat b < 32 \<Longrightarrow> unat (0xC0 OR b :: 8 word) = 192 + unat b"
  "unat b < 16 \<Longrightarrow> unat (0xE0 OR b :: 8 word) = 224 + unat b"
  "unat b < 8 \<Longrightarrow> unat (0xF0 OR b :: 8 word) = 240 + unat b"
  using nat_push_or [of "unat b" 6 2] nat_push_or [of "unat b" 5 6]
    nat_push_or [of "unat b" 4 14] nat_push_or [of "unat b" 3 30]
  by (simp_all add: unat_or)

lemma is_continuation_byte_iff: "is_continuation_byte b \<longleftrightarrow> unat b div 64 = 2"
proof -
  have "is_continuation_byte b \<longleftrightarrow> unat (b AND 0xC0) = 128"
    by (simp add: is_continuation_byte_def word_unat_eq_iff)
  then show ?thesis by (simp add: high_mask)
qed

lemma length_utf8_bytes: "utf8_byte_count c = Some n \<Longrightarrow> length (utf8_bytes c) = n"
  by (auto simp: utf8_bytes_def utf8_byte_count_def split: if_splits)

lemma utf8_byte_count_Some: "c \<le> MAX_CODE_POINT \<Longrightarrow> utf8_byte_count c = Some (length (utf8_bytes c))"
  by (auto simp: utf8_bytes_def utf8_byte_count_def MAX_CODE_POINT_def)

lemma encode_utf8_codepoint_eq:
  assumes "c \<le> MAX_CODE_POINT" and "length (utf8_bytes c) \<le> length buf"
  shows "encode_utf8_codepoint buf c
           = Some (utf8_bytes c @ drop (length (utf8_bytes c)) buf, length (utf8_bytes c))"
proof -
  have lt: "c < 0x80 \<Longrightarrow> c \<le> 0x7FF" "c \<le> 0x7FF \<Longrightarrow> c \<le> 0xFFFF" by (auto simp: word_le_nat_alt word_less_nat_alt)
  consider "c < 0x80" | "\<not> c < 0x80" "c \<le> 0x7FF" | "\<not> c < 0x80" "\<not> c \<le> 0x7FF" "c \<le> 0xFFFF" 
    | "\<not> c < 0x80" "\<not> c \<le> 0x7FF" "\<not> c \<le> 0xFFFF" by blast
  then show ?thesis
  proof cases
    case 1
    then obtain a ys where "buf = a # ys"
      using assms(2) list_upto_cases(1) [of buf] by (auto simp: utf8_bytes_def)
    then show ?thesis using 1 by (simp add: encode_utf8_codepoint_def utf8_bytes_def)
  next
    case 2
    then obtain a b ys where "buf = a # b # ys"
      using assms(2) list_upto_cases(2) [of buf] by (auto simp: utf8_bytes_def)
    then show ?thesis using 2 by (simp add: encode_utf8_codepoint_def utf8_bytes_def)
  next
    case 3
    then obtain a b d ys where "buf = a # b # d # ys"
      using assms(2) list_upto_cases(3) [of buf] by (auto simp: utf8_bytes_def)
    then show ?thesis using 3 by (simp add: encode_utf8_codepoint_def utf8_bytes_def)
  next
    case 4
    then obtain a b d e ys where "buf = a # b # d # e # ys"
      using assms(2) list_upto_cases(4) [of buf] by (auto simp: utf8_bytes_def)
    then show ?thesis using 4 assms(1)
      by (simp add: encode_utf8_codepoint_def utf8_bytes_def MAX_CODE_POINT_def)
  qed
qed

lemma lead_byte_iff:
  "b AND 0xE0 = (0xC0 :: u8) \<longleftrightarrow> unat b div 32 = 6"
  "b AND 0xF0 = (0xE0 :: u8) \<longleftrightarrow> unat b div 16 = 14"
  "b AND 0xF8 = (0xF0 :: u8) \<longleftrightarrow> unat b div 8 = 30"
  by (simp_all add: word_unat_eq_iff high_mask)

text \<open>What the decoder computes from bytes of the right shape, as numbers.\<close>

lemma decode_two:
  assumes "unat b1 div 32 = 6" and "unat b2 div 64 = 2"
  shows "decode_wtf8_codepoint (b1 # b2 # rest)
           = Some (Inr (word_of_nat (unat b1 mod 32 * 64 + unat b2 mod 64), 2))"
proof -
  have "unat (push_bit 6 (ucast b1 AND 0x1F) OR (ucast b2 AND 0x3F) :: u32)
          = unat b1 mod 32 * 64 + unat b2 mod 64"
    by (subst unat_push_or_small) (simp_all add: low_mask)
  then have "push_bit 6 (ucast b1 AND 0x1F) OR (ucast b2 AND 0x3F)
          = (word_of_nat (unat b1 mod 32 * 64 + unat b2 mod 64) :: u32)"
    by (metis of_nat_unat)
  then show ?thesis
    using assms by (simp add: decode_wtf8_codepoint_def is_continuation_byte_iff lead_byte_iff)
qed

lemma decode_three:
  assumes "unat b1 div 16 = 14" and "unat b2 div 64 = 2" and "unat b3 div 64 = 2"
  shows "decode_wtf8_codepoint (b1 # b2 # b3 # rest)
           = Some (Inr (word_of_nat (unat b1 mod 16 * 4096 + unat b2 mod 64 * 64 + unat b3 mod 64), 3))"
proof -
  have lo: "unat (push_bit 6 (ucast b2 AND 0x3F) OR (ucast b3 AND 0x3F) :: u32)
          = unat b2 mod 64 * 64 + unat b3 mod 64"
    by (subst unat_push_or_small) (simp_all add: low_mask)
  have "unat b2 mod 64 < 64" "unat b3 mod 64 < 64" by simp_all
  then have "unat b2 mod 64 * 64 + unat b3 mod 64 < 4096" by linarith
  then have "unat (push_bit 12 (ucast b1 AND 0x0F) OR push_bit 6 (ucast b2 AND 0x3F)
      OR (ucast b3 AND 0x3F) :: u32) = unat b1 mod 16 * 4096 + unat b2 mod 64 * 64 + unat b3 mod 64"
    by (subst unat_push_or_small) (simp_all add: lo low_mask del: push_bit_and)
  then have "push_bit 12 (ucast b1 AND 0x0F) OR push_bit 6 (ucast b2 AND 0x3F)
      OR (ucast b3 AND 0x3F)
          = (word_of_nat (unat b1 mod 16 * 4096 + unat b2 mod 64 * 64 + unat b3 mod 64) :: u32)"
    by (metis of_nat_unat)
  moreover have "unat b1 div 32 \<noteq> 6" using assms(1) by linarith
  ultimately show ?thesis
    using assms by (simp add: decode_wtf8_codepoint_def is_continuation_byte_iff lead_byte_iff)
qed

lemma decode_four:
  assumes "unat b1 div 8 = 30" and "unat b2 div 64 = 2" and "unat b3 div 64 = 2"
    and "unat b4 div 64 = 2"
  shows "decode_wtf8_codepoint (b1 # b2 # b3 # b4 # rest)
           = Some (Inr (word_of_nat (unat b1 mod 8 * 262144 + unat b2 mod 64 * 4096
               + unat b3 mod 64 * 64 + unat b4 mod 64), 4))"
proof -
  have lo: "unat (push_bit 6 (ucast b3 AND 0x3F) OR (ucast b4 AND 0x3F) :: u32)
          = unat b3 mod 64 * 64 + unat b4 mod 64"
    by (subst unat_push_or_small) (simp_all add: low_mask)
  have m: "unat b2 mod 64 < 64" "unat b3 mod 64 < 64" "unat b4 mod 64 < 64" by simp_all
  then have "unat b3 mod 64 * 64 + unat b4 mod 64 < 4096" by linarith
  then have mid: "unat (push_bit 12 (ucast b2 AND 0x3F) OR push_bit 6 (ucast b3 AND 0x3F)
      OR (ucast b4 AND 0x3F) :: u32)
        = unat b2 mod 64 * 4096 + unat b3 mod 64 * 64 + unat b4 mod 64"
    by (subst unat_push_or_small) (simp_all add: lo low_mask del: push_bit_and)
  have "unat b2 mod 64 * 4096 + unat b3 mod 64 * 64 + unat b4 mod 64 < 262144"
    using m by linarith
  then have "unat (push_bit 18 (ucast b1 AND 0x07) OR push_bit 12 (ucast b2 AND 0x3F)
      OR push_bit 6 (ucast b3 AND 0x3F) OR (ucast b4 AND 0x3F) :: u32)
        = unat b1 mod 8 * 262144 + unat b2 mod 64 * 4096 + unat b3 mod 64 * 64 + unat b4 mod 64"
    by (subst unat_push_or_small) (simp_all add: mid low_mask del: push_bit_and)
  then have "push_bit 18 (ucast b1 AND 0x07) OR push_bit 12 (ucast b2 AND 0x3F)
      OR push_bit 6 (ucast b3 AND 0x3F) OR (ucast b4 AND 0x3F)
        = (word_of_nat (unat b1 mod 8 * 262144 + unat b2 mod 64 * 4096 + unat b3 mod 64 * 64
             + unat b4 mod 64) :: u32)"
    by (metis of_nat_unat)
  moreover have "unat b1 div 32 \<noteq> 6" "unat b1 div 16 \<noteq> 14" using assms(1) by linarith+
  ultimately show ?thesis
    using assms by (simp add: decode_wtf8_codepoint_def is_continuation_byte_iff lead_byte_iff)
qed

lemma cont_byte_value: "unat (0x80 OR ucast (x AND 0x3F) :: u8) = 128 + unat x mod 64"
  for x :: u32
proof -
  have lt: "unat x mod 64 < 64" by simp
  then have "unat x mod 64 < 256" by linarith
  then have "unat (ucast (x AND 0x3F) :: u8) = unat x mod 64"
    by (simp add: unat_ucast_mod low_mask del: mod_less_divisor)
  then show ?thesis using tag_byte(1) [of "ucast (x AND 0x3F)"] lt by simp
qed

lemma lead_byte_value:
  fixes c :: u32
  shows "unat c < 0x800 \<Longrightarrow> unat (0xC0 OR ucast (drop_bit 6 c) :: u8) = 192 + unat c div 64"
    and "unat c < 0x10000 \<Longrightarrow> unat (0xE0 OR ucast (drop_bit 12 c) :: u8) = 224 + unat c div 4096"
    and "unat c < 0x200000 \<Longrightarrow> unat (0xF0 OR ucast (drop_bit 18 c) :: u8) = 240 + unat c div 262144"
proof -
  have u: "unat (ucast (drop_bit n c) :: u8) = unat c div 2 ^ n" if "unat c div 2 ^ n < 256" for n
    using that by (simp add: unat_ucast_mod unat_drop_bit)
  show "unat (0xC0 OR ucast (drop_bit 6 c) :: u8) = 192 + unat c div 64" if "unat c < 0x800"
    using that u [of 6] by (subst tag_byte) simp_all
  show "unat (0xE0 OR ucast (drop_bit 12 c) :: u8) = 224 + unat c div 4096" if "unat c < 0x10000"
    using that u [of 12] by (subst tag_byte) simp_all
  show "unat (0xF0 OR ucast (drop_bit 18 c) :: u8) = 240 + unat c div 262144" if "unat c < 0x200000"
    using that u [of 18] by (subst tag_byte) simp_all
qed

lemma tag_mod:
  "(k::nat) < 32 \<Longrightarrow> (192 + k) mod 32 = k"
  "k < 16 \<Longrightarrow> (224 + k) mod 16 = k"
  "k < 8 \<Longrightarrow> (240 + k) mod 8 = k"
  "k < 64 \<Longrightarrow> (128 + k) mod 64 = k"
  using mod_mult_self3 [of 6 32 k] mod_mult_self3 [of 14 16 k] mod_mult_self3 [of 30 8 k]
    mod_mult_self3 [of 2 64 k]
  by simp_all

lemma tag_div:
  "(k::nat) < 32 \<Longrightarrow> (192 + k) div 32 = 6"
  "k < 16 \<Longrightarrow> (224 + k) div 16 = 14"
  "k < 8 \<Longrightarrow> (240 + k) div 8 = 30"
  "k < 64 \<Longrightarrow> (128 + k) div 64 = 2"
  by (rule div_nat_eqI; simp)+

lemma decode_utf8_bytes:
  assumes "\<not> is_ascii c" and "c \<le> MAX_CODE_POINT"
  shows "decode_wtf8_codepoint (utf8_bytes c @ rest) = Some (Inr (c, length (utf8_bytes c)))"
proof -
  let ?n = "unat c"
  have c: "128 \<le> ?n" "?n \<le> 0x10FFFF"
    using assms by (simp_all add: is_ascii_def MAX_CODE_POINT_def word_le_nat_alt word_less_nat_alt)
  consider "?n \<le> 0x7FF" | "0x7FF < ?n" "?n \<le> 0xFFFF" | "0xFFFF < ?n" by linarith
  then show ?thesis
  proof cases
    case 1
    have eq: "utf8_bytes c = [0xC0 OR ucast (drop_bit 6 c), 0x80 OR ucast (c AND 0x3F)]"
      using c 1 by (simp add: utf8_bytes_def word_le_nat_alt word_less_nat_alt)
    have lead: "?n div 64 < 32" using 1 by simp
    then have "(192 + ?n div 64) mod 32 * 64 + (128 + ?n mod 64) mod 64 = ?n"
      by (simp add: tag_mod)
    then show ?thesis using 1 lead
      by (simp add: eq decode_two lead_byte_value cont_byte_value del: of_nat_add of_nat_mult)
  next
    case 2
    have eq: "utf8_bytes c = [0xE0 OR ucast (drop_bit 12 c), 0x80 OR ucast (drop_bit 6 c AND 0x3F),
        0x80 OR ucast (c AND 0x3F)]"
      using c 2 by (simp add: utf8_bytes_def word_le_nat_alt word_less_nat_alt)
    have lead: "?n div 4096 < 16" using 2 by simp
    then have "(224 + ?n div 4096) mod 16 * 4096 + (128 + ?n div 64 mod 64) mod 64 * 64
        + (128 + ?n mod 64) mod 64 = ?n"
      by (simp add: tag_mod base64_digits)
    then show ?thesis using 2 lead
      by (simp add: eq decode_three lead_byte_value cont_byte_value unat_drop_bit tag_div del: of_nat_add of_nat_mult)
  next
    case 3
    have eq: "utf8_bytes c = [0xF0 OR ucast (drop_bit 18 c), 0x80 OR ucast (drop_bit 12 c AND 0x3F),
        0x80 OR ucast (drop_bit 6 c AND 0x3F), 0x80 OR ucast (c AND 0x3F)]"
      using c 3 by (simp add: utf8_bytes_def word_le_nat_alt word_less_nat_alt)
    have lead: "?n div 262144 < 8" using c by simp
    then have "(240 + ?n div 262144) mod 8 * 262144 + (128 + ?n div 4096 mod 64) mod 64 * 4096
        + (128 + ?n div 64 mod 64) mod 64 * 64 + (128 + ?n mod 64) mod 64 = ?n"
      by (simp add: tag_mod base64_digits)
    then show ?thesis using 3 c lead
      by (simp add: eq decode_four lead_byte_value cont_byte_value unat_drop_bit tag_div del: of_nat_add of_nat_mult)
  qed
qed

lemma length_utf8_bytes_le: "length (utf8_bytes c) \<le> 4"
  by (simp add: utf8_bytes_def)

lemma hd_utf8_bytes_not_ascii:
  assumes "\<not> is_ascii c" and "c \<le> MAX_CODE_POINT"
  shows "\<not> is_ascii (ucast (hd (utf8_bytes c @ rest)))"
proof -
  have c: "128 \<le> unat c" "unat c < 0x200000"
    using assms by (simp_all add: is_ascii_def MAX_CODE_POINT_def word_le_nat_alt word_less_nat_alt)
  show ?thesis
    using c lead_byte_value [of c]
    by (simp add: utf8_bytes_def is_ascii_def word_less_nat_alt word_le_nat_alt)
qed

section \<open>The ASCII identifier tables\<close>

lemma length_ascii_tables: "length ASCII_ID_START = 128" "length ASCII_ID_PART = 128"
  by code_simp+

lemma ascii_tables_nth:
  "\<forall>n\<in>set [0..<128]. ASCII_ID_START ! n =
     ((97 \<le> n \<and> n \<le> 122) \<or> (65 \<le> n \<and> n \<le> 90) \<or> n = 95 \<or> n = (36::nat))"
  "\<forall>n\<in>set [0..<128]. ASCII_ID_PART ! n =
     ((97 \<le> n \<and> n \<le> 122) \<or> (65 \<le> n \<and> n \<le> 90) \<or> (48 \<le> n \<and> n \<le> 57) \<or> n = 95 \<or> n = (36::nat))"
  by code_simp+

lemma is_id_start_ascii_iff:
  "is_id_start_ascii c \<longleftrightarrow> is_ascii_alphabetic c \<or> c = 0x5F \<or> c = 0x24"
proof -
  have "is_ascii_alphabetic c \<or> c = 0x5F \<or> c = 0x24 \<longleftrightarrow>
      ((97 \<le> unat c \<and> unat c \<le> 122) \<or> (65 \<le> unat c \<and> unat c \<le> 90) \<or> unat c = 95 \<or> unat c = 36)"
    by (simp add: is_ascii_alphabetic_def word_le_nat_alt word_unat_eq_iff)
  moreover have "is_id_start_ascii c \<longleftrightarrow> unat c < 128 \<and> ASCII_ID_START ! unat c"
    by (simp add: is_id_start_ascii_def length_ascii_tables)
  ultimately show ?thesis
    using ascii_tables_nth(1) by (cases "unat c < 128") (simp_all, linarith?)
qed

lemma is_id_part_ascii_iff:
  "is_id_part_ascii c \<longleftrightarrow>
     is_ascii_alphabetic c \<or> is_decimal_digit c \<or> c = 0x5F \<or> c = 0x24"
proof -
  have "is_ascii_alphabetic c \<or> is_decimal_digit c \<or> c = 0x5F \<or> c = 0x24 \<longleftrightarrow>
      ((97 \<le> unat c \<and> unat c \<le> 122) \<or> (65 \<le> unat c \<and> unat c \<le> 90)
       \<or> (48 \<le> unat c \<and> unat c \<le> 57) \<or> unat c = 95 \<or> unat c = 36)"
    by (simp add: is_ascii_alphabetic_def is_decimal_digit_def word_le_nat_alt word_unat_eq_iff)
  moreover have "is_id_part_ascii c \<longleftrightarrow> unat c < 128 \<and> ASCII_ID_PART ! unat c"
    by (simp add: is_id_part_ascii_def length_ascii_tables)
  ultimately show ?thesis
    using ascii_tables_nth(2) by (cases "unat c < 128") (simp_all, linarith?)
qed

end
