(* ===== verification/String_Iterators.thy ===== *)
theory String_Iterators
  imports Unicode
begin

text \<open>
  \<open>common/string_iterators.rs\<close>: iterators over the code units and the code points of a heap
  string.  An iterator holds two raw pointers into the string's memory.  The model keeps the
  memory as its bytes and the pointers as byte offsets into it; a read outside the memory is
  undefined behaviour in the source and \<open>None\<close> here.  Two-byte units are stored little endian.

  The lemmas give the meaning of every step on the list of units between the two pointers,
  show that no read leaves the memory, and that forward iteration over code points decodes
  UTF-16.  For backward iteration they state what the step does at a surrogate pair.
\<close>

datatype string_width = OneByte | TwoByte

record code_unit_iterator =
  mem :: "u8 list"
  ptr :: nat
  ptr_end :: nat
  width :: string_width

section \<open>Memory\<close>

fun u16_to_bytes :: "u16 \<Rightarrow> u8 list" where
  "u16_to_bytes u = [ucast u, ucast (drop_bit 8 u)]"

definition u16s_to_bytes :: "u16 list \<Rightarrow> u8 list" where
  "u16s_to_bytes us = concat (map u16_to_bytes us)"

definition u16_from_bytes :: "u8 \<Rightarrow> u8 \<Rightarrow> u16" where
  "u16_from_bytes lo hi = ucast lo OR push_bit 8 (ucast hi)"

definition read_u8 :: "u8 list \<Rightarrow> nat \<Rightarrow> u8 option" where
  "read_u8 m p = (if p < length m then Some (m ! p) else None)"

definition read_u16 :: "u8 list \<Rightarrow> nat \<Rightarrow> u16 option" where
  "read_u16 m p =
     (if p + 1 < length m then Some (u16_from_bytes (m ! p) (m ! (p + 1))) else None)"

section \<open>Code unit iterators\<close>

definition from_raw_one_byte_slice :: "u8 list \<Rightarrow> code_unit_iterator" where
  "from_raw_one_byte_slice s =
     \<lparr>mem = s, ptr = 0, ptr_end = length s, width = OneByte\<rparr>"

definition from_raw_two_byte_slice :: "u16 list \<Rightarrow> code_unit_iterator" where
  "from_raw_two_byte_slice s =
     \<lparr>mem = u16s_to_bytes s, ptr = 0, ptr_end = 2 * length s, width = TwoByte\<rparr>"

definition is_end :: "code_unit_iterator \<Rightarrow> bool" where
  "is_end it \<longleftrightarrow> ptr it = ptr_end it"

definition peek_back :: "code_unit_iterator \<Rightarrow> u16 option option" where
  "peek_back it =
     (if is_end it then Some None
      else if width it = OneByte then do {
        b \<leftarrow> read_u8 (mem it) (ptr_end it - 1);
        Some (Some (ucast b))
      } else do {
        u \<leftarrow> read_u16 (mem it) (ptr_end it - 2);
        Some (Some u)
      })"

definition next_unit :: "code_unit_iterator \<Rightarrow> (u16 option \<times> code_unit_iterator) option" where
  "next_unit it =
     (if is_end it then Some (None, it)
      else if width it = OneByte then do {
        b \<leftarrow> read_u8 (mem it) (ptr it);
        Some (Some (ucast b), it\<lparr>ptr := ptr it + 1\<rparr>)
      } else do {
        u \<leftarrow> read_u16 (mem it) (ptr it);
        Some (Some u, it\<lparr>ptr := ptr it + 2\<rparr>)
      })"

definition next_unit_back :: "code_unit_iterator \<Rightarrow> (u16 option \<times> code_unit_iterator) option" where
  "next_unit_back it =
     (if is_end it then Some (None, it)
      else if width it = OneByte then do {
        let it' = it\<lparr>ptr_end := ptr_end it - 1\<rparr>;
        b \<leftarrow> read_u8 (mem it') (ptr_end it');
        Some (Some (ucast b), it')
      } else do {
        let it' = it\<lparr>ptr_end := ptr_end it - 2\<rparr>;
        u \<leftarrow> read_u16 (mem it') (ptr_end it');
        Some (Some u, it')
      })"

definition peek_unit :: "code_unit_iterator \<Rightarrow> u16 option option" where
  "peek_unit it =
     (if is_end it then Some None
      else if width it = OneByte then do {
        b \<leftarrow> read_u8 (mem it) (ptr it);
        Some (Some (ucast b))
      } else do {
        u \<leftarrow> read_u16 (mem it) (ptr it);
        Some (Some u)
      })"

text \<open>\<open>consume_equals\<close>: advance both iterators while their units agree.\<close>

partial_function (option) consume_equals ::
  "code_unit_iterator \<Rightarrow> code_unit_iterator \<Rightarrow> bool option" where
  "consume_equals a b =
     (case next_unit a of
        None \<Rightarrow> None
      | Some (u, a') \<Rightarrow>
          (case next_unit b of
             None \<Rightarrow> None
           | Some (v, b') \<Rightarrow>
               (case (u, v) of
                  (None, None) \<Rightarrow> Some True
                | (None, Some _) \<Rightarrow> Some False
                | (Some _, None) \<Rightarrow> Some False
                | (Some x, Some y) \<Rightarrow> if x \<noteq> y then Some False else consume_equals a' b')))"

section \<open>Code point iterators\<close>

definition cp_next :: "code_unit_iterator \<Rightarrow> (u32 option \<times> code_unit_iterator) option" where
  "cp_next it = do {
     (u, it) \<leftarrow> next_unit it;
     (case u of
        None \<Rightarrow> Some (None, it)
      | Some code_unit \<Rightarrow>
          if is_high_surrogate_code_unit code_unit then do {
            p \<leftarrow> peek_unit it;
            (case p of
               Some next_code_unit \<Rightarrow>
                 if is_low_surrogate_code_unit next_code_unit then do {
                   (_, it) \<leftarrow> next_unit it;
                   Some (Some (code_point_from_surrogate_pair code_unit next_code_unit), it)
                 } else Some (Some (ucast code_unit), it)
             | None \<Rightarrow> Some (Some (ucast code_unit), it))
          } else Some (Some (ucast code_unit), it))
   }"

text \<open>
  In the surrogate pair case the source calls \<open>self.iter.next()\<close>, the forward step, after
  peeking at the unit before the end.
\<close>

definition cp_next_back ::
  "code_unit_iterator \<Rightarrow> (u32 option \<times> code_unit_iterator) option" where
  "cp_next_back it = do {
     (u, it) \<leftarrow> next_unit_back it;
     (case u of
        None \<Rightarrow> Some (None, it)
      | Some code_unit \<Rightarrow>
          if is_low_surrogate_code_unit code_unit then do {
            p \<leftarrow> peek_back it;
            (case p of
               Some prev_code_unit \<Rightarrow>
                 if is_high_surrogate_code_unit prev_code_unit then do {
                   (_, it) \<leftarrow> next_unit it;
                   Some (Some (code_point_from_surrogate_pair prev_code_unit code_unit), it)
                 } else Some (Some (ucast code_unit), it)
             | None \<Rightarrow> Some (Some (ucast code_unit), it))
          } else Some (Some (ucast code_unit), it))
   }"

text \<open>
  Draining an iterator, as a \<open>for\<close> loop over it does, with either step.  \<open>None\<close> is undefined
  behaviour, or a loop that never ends.
\<close>

partial_function (option) drain ::
  "(code_unit_iterator \<Rightarrow> ('a option \<times> code_unit_iterator) option)
     \<Rightarrow> code_unit_iterator \<Rightarrow> 'a list option" where
  "drain step it =
     (case step it of
        None \<Rightarrow> None
      | Some (x, it') \<Rightarrow>
          (case x of
             None \<Rightarrow> Some []
           | Some y \<Rightarrow> do { ys \<leftarrow> drain step it'; Some (y # ys) }))"

declare consume_equals.simps [code] drain.simps [code]

section \<open>The units between the pointers\<close>

definition bytes_between :: "code_unit_iterator \<Rightarrow> u8 list" where
  "bytes_between it = take (ptr_end it - ptr it) (drop (ptr it) (mem it))"

fun u16s_from_bytes :: "u8 list \<Rightarrow> u16 list" where
  "u16s_from_bytes (lo # hi # bs) = u16_from_bytes lo hi # u16s_from_bytes bs"
| "u16s_from_bytes _ = []"

definition units :: "code_unit_iterator \<Rightarrow> u16 list" where
  "units it =
     (case width it of
        OneByte \<Rightarrow> map ucast (bytes_between it)
      | TwoByte \<Rightarrow> u16s_from_bytes (bytes_between it))"

text \<open>The pointers are ordered, inside the memory, and a whole number of units apart.\<close>

definition iter_ok :: "code_unit_iterator \<Rightarrow> bool" where
  "iter_ok it \<longleftrightarrow> ptr it \<le> ptr_end it \<and> ptr_end it \<le> length (mem it)
     \<and> (width it = TwoByte \<longrightarrow> even (ptr_end it - ptr it))"

lemma u16_bytes_roundtrip [simp]: "u16_from_bytes (ucast u) (ucast (drop_bit 8 u)) = u"
proof -
  have "unat u < 2 ^ LENGTH(16)"
    by (rule unsigned_less)
  then have "unat u div 256 < 256"
    by simp
  then have hi: "unat (ucast (ucast (drop_bit 8 u) :: u8) :: u16) = unat u div 256"
    by (simp add: unat_ucast_mod unat_drop_bit)
  have lo: "unat (ucast (ucast u :: u8) :: u16) = unat u mod 256"
    by (simp add: unat_ucast_mod)
  have "u16_from_bytes (ucast u) (ucast (drop_bit 8 u))
      = push_bit 8 (ucast (ucast (drop_bit 8 u) :: u8)) OR ucast (ucast u :: u8)"
    by (simp add: u16_from_bytes_def or.commute)
  then have "unat (u16_from_bytes (ucast u) (ucast (drop_bit 8 u))) = unat u div 256 * 256 + unat u mod 256"
    using \<open>unat u div 256 < 256\<close>
    by (simp add: unat_push_or_small hi lo)
  then show ?thesis by (simp add: word_unat_eq_iff)
qed

lemma length_u16s_to_bytes [simp]: "length (u16s_to_bytes us) = 2 * length us"
  by (induction us) (simp_all add: u16s_to_bytes_def)

lemma u16s_bytes_roundtrip [simp]: "u16s_from_bytes (u16s_to_bytes us) = us"
  by (induction us) (simp_all add: u16s_to_bytes_def)

lemma u16s_from_bytes_append:
  "even (length xs) \<Longrightarrow> u16s_from_bytes (xs @ ys) = u16s_from_bytes xs @ u16s_from_bytes ys"
  by (induction xs rule: u16s_from_bytes.induct) auto

lemma units_from_slice [simp]:
  "units (from_raw_one_byte_slice bs) = map ucast bs"
  "units (from_raw_two_byte_slice us) = us"
  by (simp_all add: units_def bytes_between_def from_raw_one_byte_slice_def
      from_raw_two_byte_slice_def)

lemma iter_ok_from_slice [simp]:
  "iter_ok (from_raw_one_byte_slice bs)" "iter_ok (from_raw_two_byte_slice us)"
  by (simp_all add: iter_ok_def from_raw_one_byte_slice_def from_raw_two_byte_slice_def)

lemma take_drop_Cons:
  "i < j \<Longrightarrow> j \<le> length xs \<Longrightarrow> take (j - i) (drop i xs) = xs ! i # take (j - Suc i) (drop (Suc i) xs)"
  by (simp add: Cons_nth_drop_Suc [symmetric] Suc_diff_Suc [symmetric])

lemma take_drop_snoc:
  "i < j \<Longrightarrow> j \<le> length xs \<Longrightarrow>
     take (j - i) (drop i xs) = take (j - 1 - i) (drop i xs) @ [xs ! (j - 1)]"
  by (cases j) (auto simp: take_Suc_conv_app_nth Suc_diff_le)

lemma two_byte_room: "(i::nat) < j \<Longrightarrow> even (j - i) \<Longrightarrow> i + 2 \<le> j"
  by presburger

lemma is_end_units: "iter_ok it \<Longrightarrow> is_end it \<longleftrightarrow> units it = []"
proof (cases "is_end it")
  case True
  then show ?thesis by (simp add: is_end_def units_def bytes_between_def split: string_width.splits)
next
  case False
  assume ok: "iter_ok it"
  with False have lt: "ptr it < ptr_end it" "ptr_end it \<le> length (mem it)"
    by (auto simp: is_end_def iter_ok_def)
  show ?thesis
  proof (cases "width it")
    case OneByte
    then show ?thesis using lt False by (simp add: units_def bytes_between_def)
  next
    case TwoByte
    with ok lt have "ptr it + 2 \<le> ptr_end it"
      using two_byte_room [of "ptr it" "ptr_end it"] by (simp add: iter_ok_def)
    then show ?thesis using lt False TwoByte
      by (simp add: units_def bytes_between_def take_drop_Cons)
  qed
qed

lemma next_unit_units:
  assumes "iter_ok it"
  shows "units it = [] \<Longrightarrow> next_unit it = Some (None, it)"
    and "units it = u # us \<Longrightarrow>
      \<exists>it'. next_unit it = Some (Some u, it') \<and> iter_ok it' \<and> units it' = us"
proof -
  show "units it = [] \<Longrightarrow> next_unit it = Some (None, it)"
    using is_end_units [OF assms] by (simp add: next_unit_def)
  assume u: "units it = u # us"
  then have ne: "\<not> is_end it" using is_end_units [OF assms] by simp
  then have lt: "ptr it < ptr_end it" "ptr_end it \<le> length (mem it)"
    using assms by (auto simp: is_end_def iter_ok_def)
  show "\<exists>it'. next_unit it = Some (Some u, it') \<and> iter_ok it' \<and> units it' = us"
  proof (cases "width it")
    case OneByte
    then show ?thesis using ne lt u assms
      by (auto simp: next_unit_def read_u8_def units_def bytes_between_def iter_ok_def take_drop_Cons)
  next
    case TwoByte
    with assms lt have "ptr it + 2 \<le> ptr_end it"
      using two_byte_room [of "ptr it" "ptr_end it"] by (simp add: iter_ok_def)
    then show ?thesis using ne lt u assms TwoByte
      by (auto simp: next_unit_def read_u16_def units_def bytes_between_def iter_ok_def take_drop_Cons
          even_diff_nat)
  qed
qed

lemma peek_unit_units:
  assumes "iter_ok it"
  shows "peek_unit it = Some (case units it of [] \<Rightarrow> None | u # us \<Rightarrow> Some u)"
proof (cases "units it")
  case Nil
  then show ?thesis using is_end_units [OF assms] by (simp add: peek_unit_def)
next
  case (Cons u us)
  from next_unit_units(2) [OF assms Cons] obtain it' where "next_unit it = Some (Some u, it')" by blast
  then show ?thesis using Cons
    by (auto simp: next_unit_def peek_unit_def bind_eq_Some_conv split: if_splits)
qed

lemma next_unit_back_units:
  assumes "iter_ok it"
  shows "units it = [] \<Longrightarrow> next_unit_back it = Some (None, it)"
    and "units it = us @ [u] \<Longrightarrow>
      \<exists>it'. next_unit_back it = Some (Some u, it') \<and> iter_ok it' \<and> units it' = us"
proof -
  show "units it = [] \<Longrightarrow> next_unit_back it = Some (None, it)"
    using is_end_units [OF assms] by (simp add: next_unit_back_def)
  assume u: "units it = us @ [u]"
  then have ne: "\<not> is_end it" using is_end_units [OF assms] by simp
  then have lt: "ptr it < ptr_end it" "ptr_end it \<le> length (mem it)"
    using assms by (auto simp: is_end_def iter_ok_def)
  show "\<exists>it'. next_unit_back it = Some (Some u, it') \<and> iter_ok it' \<and> units it' = us"
  proof (cases "width it")
    case OneByte
    then show ?thesis using ne lt u assms
      by (auto simp: next_unit_back_def read_u8_def units_def bytes_between_def iter_ok_def
          take_drop_snoc Let_def)
  next
    case TwoByte
    let ?m = "mem it" and ?i = "ptr it" and ?j = "ptr_end it"
    from TwoByte assms lt have two: "?i + 2 \<le> ?j" "even (?j - ?i)"
      using two_byte_room [of ?i ?j] by (simp_all add: iter_ok_def)
    then have ev: "even (?j - 2 - ?i)" by (simp add: even_diff_nat) 
    have "take (?j - ?i) (drop ?i ?m)
        = take (?j - 2 - ?i) (drop ?i ?m) @ [?m ! (?j - 2), ?m ! (?j - 1)]"
      using take_drop_snoc [of ?i ?j ?m] take_drop_snoc [of ?i "?j - 1" ?m] two lt
      by (simp add: numeral_2_eq_2)
    then have "units it = u16s_from_bytes (take (?j - 2 - ?i) (drop ?i ?m))
        @ [u16_from_bytes (?m ! (?j - 2)) (?m ! (?j - 1))]"
      using TwoByte ev two lt by (simp add: units_def bytes_between_def u16s_from_bytes_append)
    then show ?thesis using ne lt u assms TwoByte two ev
      by (auto simp: next_unit_back_def read_u16_def units_def bytes_between_def iter_ok_def Let_def
          Suc_diff_Suc numeral_2_eq_2)
  qed
qed

lemma peek_back_units:
  assumes "iter_ok it"
  shows "peek_back it = Some (if units it = [] then None else Some (last (units it)))"
proof (cases "units it" rule: rev_cases)
  case Nil
  then show ?thesis using is_end_units [OF assms] by (simp add: peek_back_def)
next
  case (snoc us u)
  from next_unit_back_units(2) [OF assms snoc] obtain it' where "next_unit_back it = Some (Some u, it')"
    by blast
  then show ?thesis using snoc
    by (auto simp: next_unit_back_def peek_back_def bind_eq_Some_conv Let_def split: if_splits)
qed

section \<open>Code points, forwards\<close>

text \<open>UTF-16: a high surrogate directly before a low one is a pair, any other unit is itself.\<close>

fun decode_utf16 :: "u16 list \<Rightarrow> u32 list" where
  "decode_utf16 [] = []"
| "decode_utf16 [u] = [ucast u]"
| "decode_utf16 (u # v # us) =
     (if is_high_surrogate_code_unit u \<and> is_low_surrogate_code_unit v
      then code_point_from_surrogate_pair u v # decode_utf16 us
      else ucast u # decode_utf16 (v # us))"

definition starts_with_pair :: "u16 list \<Rightarrow> bool" where
  "starts_with_pair us = (case us of u # v # _ \<Rightarrow>
     is_high_surrogate_code_unit u \<and> is_low_surrogate_code_unit v | _ \<Rightarrow> False)"

lemma cp_next_Nil: "iter_ok it \<Longrightarrow> units it = [] \<Longrightarrow> cp_next it = Some (None, it)"
  by (simp add: cp_next_def next_unit_units)

lemma cp_next_single:
  assumes "iter_ok it" and "units it = u # us" and "\<not> starts_with_pair (u # us)"
  shows "\<exists>it'. cp_next it = Some (Some (ucast u), it') \<and> iter_ok it' \<and> units it' = us"
proof -
  from next_unit_units(2) [OF assms(1,2)] obtain it' where
    it': "next_unit it = Some (Some u, it')" "iter_ok it'" "units it' = us" by blast
  then show ?thesis
    using assms(3) peek_unit_units [OF it'(2)]
    by (auto simp: cp_next_def starts_with_pair_def split: list.splits)
qed

lemma cp_next_pair:
  assumes "iter_ok it" and "units it = u # v # us"
    and "is_high_surrogate_code_unit u" and "is_low_surrogate_code_unit v"
  shows "\<exists>it'. cp_next it = Some (Some (code_point_from_surrogate_pair u v), it')
      \<and> iter_ok it' \<and> units it' = us"
proof -
  from next_unit_units(2) [OF assms(1,2)] obtain it' where
    it': "next_unit it = Some (Some u, it')" "iter_ok it'" "units it' = v # us" by blast
  from next_unit_units(2) [OF it'(2,3)] obtain it'' where
    it'': "next_unit it' = Some (Some v, it'')" "iter_ok it''" "units it'' = us" by blast
  show ?thesis
    using it' it'' assms(3,4) peek_unit_units [OF it'(2)] by (simp add: cp_next_def)
qed

lemma drain_Nil: "step it = Some (None, it') \<Longrightarrow> drain step it = Some []"
  by (simp add: drain.simps)

lemma drain_Cons:
  "step it = Some (Some y, it') \<Longrightarrow> drain step it' = Some ys \<Longrightarrow> drain step it = Some (y # ys)"
  by (simp add: drain.simps)

lemma drain_cp_next: "iter_ok it \<Longrightarrow> drain cp_next it = Some (decode_utf16 (units it))"
proof (induction "units it" arbitrary: it rule: decode_utf16.induct)
  case 1
  then show ?case using cp_next_Nil [OF 1(2) 1(1) [symmetric]] by (simp add: drain_Nil)
next
  case (2 u)
  from cp_next_single [OF 2(2) 2(1) [symmetric]] obtain it' where
    it': "cp_next it = Some (Some (ucast u), it')" "iter_ok it'" "units it' = []"
    by (auto simp: starts_with_pair_def)
  then have "drain cp_next it' = Some []"
    by (intro drain_Nil) (rule cp_next_Nil)
  from drain_Cons [where y = "ucast u", OF it'(1) this] show ?case using 2(1) [symmetric] by simp
next
  case (3 u v us)
  note u = 3(3) [symmetric]
  show ?case
  proof (cases "is_high_surrogate_code_unit u \<and> is_low_surrogate_code_unit v")
    case True
    then obtain it' where
      it': "cp_next it = Some (Some (code_point_from_surrogate_pair u v), it')"
        "iter_ok it'" "units it' = us"
      using cp_next_pair [OF 3(4) u] by blast
    from 3(1) [OF True it'(3) [symmetric] it'(2)]
    have "drain cp_next it' = Some (decode_utf16 us)" by (simp add: it'(3))
    from drain_Cons [OF it'(1) this] show ?thesis using True by (simp add: u)
  next
    case False
    then obtain it' where
      it': "cp_next it = Some (Some (ucast u), it')" "iter_ok it'" "units it' = v # us"
      using cp_next_single [OF 3(4) u] by (auto simp: starts_with_pair_def)
    from 3(2) [OF False it'(3) [symmetric] it'(2)]
    have "drain cp_next it' = Some (decode_utf16 (v # us))" by (simp add: it'(3))
    from drain_Cons [OF it'(1) this] show ?thesis using False by (auto simp: u)
  qed
qed

section \<open>Code points, backwards\<close>

lemma cp_next_back_Nil: "iter_ok it \<Longrightarrow> units it = [] \<Longrightarrow> cp_next_back it = Some (None, it)"
  by (simp add: cp_next_back_def next_unit_back_units)

definition ends_with_pair :: "u16 list \<Rightarrow> bool" where
  "ends_with_pair us = (case rev us of v # u # _ \<Rightarrow>
     is_high_surrogate_code_unit u \<and> is_low_surrogate_code_unit v | _ \<Rightarrow> False)"

lemma cp_next_back_single:
  assumes "iter_ok it" and "units it = us @ [u]" and "\<not> ends_with_pair (us @ [u])"
  shows "\<exists>it'. cp_next_back it = Some (Some (ucast u), it') \<and> iter_ok it' \<and> units it' = us"
proof -
  from next_unit_back_units(2) [OF assms(1,2)] obtain it' where
    it': "next_unit_back it = Some (Some u, it')" "iter_ok it'" "units it' = us" by blast
  then show ?thesis
    using assms(3) peek_back_units [OF it'(2)]
    by (cases us rule: rev_cases) (auto simp: cp_next_back_def ends_with_pair_def)
qed

text \<open>
  At a surrogate pair the backward step returns the pair's code point, but what it consumes
  beside the low surrogate is the unit at the front: the high surrogate stays.
\<close>

lemma cp_next_back_pair:
  assumes "iter_ok it" and "units it = us @ [u, v]"
    and "is_high_surrogate_code_unit u" and "is_low_surrogate_code_unit v"
  shows "\<exists>it'. cp_next_back it = Some (Some (code_point_from_surrogate_pair u v), it')
      \<and> iter_ok it' \<and> units it' = tl (us @ [u])"
proof -
  have "units it = (us @ [u]) @ [v]" using assms(2) by simp
  from next_unit_back_units(2) [OF assms(1) this] obtain it' where
    it': "next_unit_back it = Some (Some v, it')" "iter_ok it'" "units it' = us @ [u]" by blast
  from it'(3) obtain w ws where w: "units it' = w # ws" and tl: "ws = tl (us @ [u])"
    by (cases "us @ [u]") auto
  from next_unit_units(2) [OF it'(2) w] obtain it'' where
    it'': "next_unit it' = Some (Some w, it'')" "iter_ok it''" "units it'' = ws" by blast
  show ?thesis
    using it' it'' assms(3,4) tl peek_back_units [OF it'(2)] by (simp add: cp_next_back_def)
qed

lemma drain_cp_next_back_no_pairs:
  assumes "iter_ok it" and "\<forall>u \<in> set (units it). \<not> is_low_surrogate_code_unit u"
  shows "drain cp_next_back it = Some (map ucast (rev (units it)))"
  using assms
proof (induction "units it" arbitrary: it rule: rev_induct)
  case Nil
  then show ?case using cp_next_back_Nil [OF Nil(2) Nil(1) [symmetric]] by (simp add: drain_Nil)
next
  case (snoc u us)
  have "\<not> is_low_surrogate_code_unit u"
    using snoc(4) by (simp add: snoc(2) [symmetric])
  then have "\<not> ends_with_pair (us @ [u])"
    by (cases us rule: rev_cases) (simp_all add: ends_with_pair_def)
  then obtain it' where
    it': "cp_next_back it = Some (Some (ucast u), it')" "iter_ok it'" "units it' = us"
    using cp_next_back_single [OF snoc(3) snoc(2) [symmetric]] by blast
  from snoc(1) [OF it'(3) [symmetric] it'(2)] snoc(2,4) it'(3)
  have "drain cp_next_back it' = Some (map ucast (rev us))" by (metis UnI1 set_append)
  from drain_Cons [where y = "ucast u", OF it'(1) this] show ?case
    using snoc(2) [symmetric] by simp
qed

lemma drain_next_unit: "iter_ok it \<Longrightarrow> drain next_unit it = Some (units it)"
proof (induction "units it" arbitrary: it)
  case Nil
  then show ?case using next_unit_units(1) [OF Nil(2)] by (simp add: drain_Nil)
next
  case (Cons u us)
  then obtain it' where
    it': "next_unit it = Some (Some u, it')" "iter_ok it'" "units it' = us"
    using next_unit_units(2) [OF Cons(3) Cons(2) [symmetric]] by blast
  from drain_Cons [of next_unit it u it', OF it'(1)] Cons(1) [OF it'(3) [symmetric] it'(2)] it'(3)
  show ?case using Cons(2) by auto
qed

lemma drain_next_unit_back: "iter_ok it \<Longrightarrow> drain next_unit_back it = Some (rev (units it))"
proof (induction "units it" arbitrary: it rule: rev_induct)
  case Nil
  then show ?case using next_unit_back_units(1) [OF Nil(2)] by (simp add: drain_Nil)
next
  case (snoc u us)
  then obtain it' where
    it': "next_unit_back it = Some (Some u, it')" "iter_ok it'" "units it' = us"
    using next_unit_back_units(2) [OF snoc(3) snoc(2) [symmetric]] by blast
  from drain_Cons [of next_unit_back it u it', OF it'(1)] snoc(1) [OF it'(3) [symmetric] it'(2)] it'(3)
  show ?case using snoc(2) [symmetric] by auto
qed

lemma consume_equals_units:
  "iter_ok a \<Longrightarrow> iter_ok b \<Longrightarrow> consume_equals a b = Some (units a = units b)"
proof (induction "units a" arbitrary: a b)
  case Nil
  then have "next_unit a = Some (None, a)" by (simp add: next_unit_units)
  then show ?case using Nil next_unit_units [OF Nil(3)]
    by (cases "units b") (auto simp: consume_equals.simps)
next
  case (Cons u us)
  then obtain a' where
    a': "next_unit a = Some (Some u, a')" "iter_ok a'" "units a' = us"
    using next_unit_units(2) [OF Cons(3) Cons(2) [symmetric]] by blast
  show ?case
  proof (cases "units b")
    case Nil
    then show ?thesis using a' Cons(2) [symmetric] next_unit_units(1) [OF Cons(4)]
      by (simp add: consume_equals.simps)
  next
    case (Cons v vs)
    then obtain b' where
      b': "next_unit b = Some (Some v, b')" "iter_ok b'" "units b' = vs"
      using next_unit_units(2) [OF Cons.prems(2) Cons] by blast
    then show ?thesis
      using a' Cons Cons.hyps(1) [OF a'(3) [symmetric] a'(2) b'(2)] Cons.hyps(2) [symmetric]
      by (simp add: consume_equals.simps)
  qed
qed

section \<open>UTF-16 encoding\<close>

definition utf16_units :: "code_point \<Rightarrow> u16 list" where
  "utf16_units c = (case encode_utf16_codepoint [0, 0] c of None \<Rightarrow> [] | Some (buf, n) \<Rightarrow> take n buf)"

lemma utf16_units_bmp: "is_in_bmp_range c \<Longrightarrow> utf16_units c = [ucast c]"
  by (simp add: utf16_units_def encode_utf16_codepoint_def vec_set_def)

lemma utf16_units_pair:
  "\<not> is_in_bmp_range c \<Longrightarrow> try_encode_surrogate_pair c = Some (h, l) \<Longrightarrow> utf16_units c = [h, l]"
  by (auto simp: utf16_units_def encode_utf16_codepoint_def vec_set_def try_encode_surrogate_pair_def
      Let_def split: if_splits)

text \<open>No high surrogate code point directly before a low one: such a pair would be read as one.\<close>

fun no_split_pairs :: "u32 list \<Rightarrow> bool" where
  "no_split_pairs (c # d # cs) =
     (\<not> (is_high_surrogate_code_point c \<and> is_low_surrogate_code_point d) \<and> no_split_pairs (d # cs))"
| "no_split_pairs _ = True"

lemma surrogate_unit_code_point:
  assumes "is_in_bmp_range c"
  shows "is_high_surrogate_code_unit (ucast c) \<longleftrightarrow> is_high_surrogate_code_point c"
    and "is_low_surrogate_code_unit (ucast c) \<longleftrightarrow> is_low_surrogate_code_point c"
    and "ucast (ucast c :: u16) = c"
proof -
  have "unat c < 65536"
    using assms by (simp add: is_in_bmp_range_def BMP_END_def word_le_nat_alt)
  then have u: "unat (ucast c :: u16) = unat c"
    by (simp add: unat_ucast_mod)
  show "is_high_surrogate_code_unit (ucast c) \<longleftrightarrow> is_high_surrogate_code_point c"
    by (simp add: surrogate_ranges u is_high_surrogate_code_point_def word_le_nat_alt)
  show "is_low_surrogate_code_unit (ucast c) \<longleftrightarrow> is_low_surrogate_code_point c"
    by (simp add: surrogate_ranges u is_low_surrogate_code_point_def word_le_nat_alt)
  show "ucast (ucast c :: u16) = c"
    using \<open>unat c < 65536\<close> by (simp add: word_unat_eq_iff unat_ucast_mod u)
qed

lemma not_bmp_not_surrogate:
  "\<not> is_in_bmp_range c \<Longrightarrow> \<not> is_high_surrogate_code_point c \<and> \<not> is_low_surrogate_code_point c"
  by (simp add: is_in_bmp_range_def BMP_END_def is_high_surrogate_code_point_def
      is_low_surrogate_code_point_def word_le_nat_alt)

lemma utf16_units_cases:
  assumes "c \<le> MAX_CODE_POINT"
  obtains (bmp) "is_in_bmp_range c" and "utf16_units c = [ucast c]"
  | (pair) h l where "\<not> is_in_bmp_range c" and "utf16_units c = [h, l]"
    and "is_high_surrogate_code_unit h" and "is_low_surrogate_code_unit l"
    and "code_point_from_surrogate_pair h l = c"
proof (cases "is_in_bmp_range c")
  case True
  then show thesis by (intro bmp) (simp_all add: utf16_units_bmp)
next
  case False
  then have "needs_surrogate_pair c"
    by (simp add: is_in_bmp_range_def BMP_END_def needs_surrogate_pair_def word_le_nat_alt)
  then obtain h l where "try_encode_surrogate_pair c = Some (h, l)"
    "is_high_surrogate_code_unit h" "is_low_surrogate_code_unit l"
    "code_point_from_surrogate_pair h l = c"
    using assms by (rule surrogate_pair_roundtrip)
  with False show thesis by (intro pair) (simp_all add: utf16_units_pair)
qed

lemma high_not_low_surrogate: "is_high_surrogate_code_unit u \<Longrightarrow> \<not> is_low_surrogate_code_unit u"
  by (simp add: surrogate_ranges)

lemma decode_utf16_single:
  "\<not> starts_with_pair (u # us) \<Longrightarrow> decode_utf16 (u # us) = ucast u # decode_utf16 us"
  by (cases us) (auto simp: starts_with_pair_def)

lemma decode_utf16_units:
  "no_split_pairs cs \<Longrightarrow> \<forall>c \<in> set cs. c \<le> MAX_CODE_POINT \<Longrightarrow>
     decode_utf16 (concat (map utf16_units cs)) = cs"
proof (induction cs)
  case Nil
  then show ?case by simp
next
  case (Cons c cs)
  have "no_split_pairs cs" using Cons.prems(1) by (cases cs) auto
  with Cons have IH: "decode_utf16 (concat (map utf16_units cs)) = cs" by simp
  from Cons.prems(2) have "c \<le> MAX_CODE_POINT" by simp
  then show ?case
  proof (cases rule: utf16_units_cases)
    case bmp
    have "\<not> starts_with_pair (ucast c # concat (map utf16_units cs))"
    proof (cases cs)
      case Nil
      then show ?thesis by (simp add: starts_with_pair_def)
    next
      case (Cons d ds)
      then have "d \<le> MAX_CODE_POINT" using Cons.prems(2) by simp
      then show ?thesis
        using bmp(1) Cons Cons.prems(1)
        by (cases rule: utf16_units_cases)
          (auto simp: starts_with_pair_def surrogate_unit_code_point high_not_low_surrogate)
    qed
    then show ?thesis
      using bmp IH by (simp add: decode_utf16_single surrogate_unit_code_point)
  next
    case (pair h l)
    then show ?thesis using IH by simp
  qed
qed

end
