(* ===== verification/Lexer_Stream.thy ===== *)
theory Lexer_Stream
  imports String_Iterators
begin

text \<open>
  \<open>parser/lexer_stream.rs\<close>: the \<open>LexerStream\<close> trait and its four implementations.  The trait is
  the record \<open>lexer_ops\<close> of its methods, and each \<open>impl\<close> block is one value of that record, so
  that generic code (the regular expression matcher) takes the dictionary of the stream it runs
  on, as the monomorphised Rust function does.

  A method that can panic returns an \<open>option\<close>.  The methods of the one-byte stream and of the
  two-byte code unit stream have the same text up to the width of a unit; they are the
  polymorphic \<open>unit_...\<close> definitions here.

  The locales at the end state what the matcher relies on: every position is within the input,
  moving in a direction leaves the stream showing the code point on that side of the position,
  and restoring a saved state gives back the stream.  The one-byte and code unit streams keep
  the whole contract, the code point stream only its forward part.
\<close>

type_synonym pos = nat

record loc =
  loc_start :: pos
  loc_end :: pos

text \<open>The variants of \<open>ParseError\<close> that lexer streams and the regular expression parser raise.\<close>

datatype parse_error =
    InvalidUnicode
  | MalformedEscapeSeqence
  | UnexpectedRegExpEnd
  | UnexpectedRegExpToken
  | UnexpectedRegExpQuantifier
  | InvalidRegExpFlag
  | DuplicateRegExpFlag
  | MultipleUnicodeFlags
  | TooManyCaptureGroups
  | DuplicateCaptureGroupName
  | InvalidBackreferenceIndex
  | InvalidBackreferenceName
  | InvalidCharacterClassRange
  | RegExpCharacterClassInRange
  | InvalidUnicodeProperty
  | UnicodePropertyOfStringsDisallowedInMode
  | InvertedUnicodePropertyOfStrings
  | InvertedCharacterClassContainStrings
  | QuantifierBoundTooLarge
  | InvalidQuantifierBounds
  | NonQuantifiableAssertion
  | EmptyRegExpModifiers
  | DuplicateRegExpModifier
  | NamedCaptureGroupEncountered

record 'src localized_parse_error =
  error_kind :: parse_error
  source_loc :: "(loc \<times> 'src) option"

type_synonym ('a, 'src) parse_result = "'src localized_parse_error + 'a"

section \<open>The trait\<close>

definition EOF_CHAR :: u32 where
  "EOF_CHAR = 0x110000"

record saved_lexer_stream_state =
  saved_current :: u32
  saved_pos :: pos

record ('s, 'src) lexer_ops =
  op_pos :: "'s \<Rightarrow> pos"
  op_current :: "'s \<Rightarrow> u32"
  op_len :: "'s \<Rightarrow> nat"
  op_advance_n :: "'s \<Rightarrow> nat \<Rightarrow> 's option"
  op_advance_backwards_n :: "'s \<Rightarrow> nat \<Rightarrow> 's option"
  op_advance_code_point :: "'s \<Rightarrow> 's option"
  op_advance_backwards_code_point :: "'s \<Rightarrow> 's option"
  op_peek_prev_code_point :: "'s \<Rightarrow> u32 option"
  op_peek_next_code_point :: "'s \<Rightarrow> u32 option"
  op_peek_n :: "'s \<Rightarrow> nat \<Rightarrow> u32 option"
  op_parse_unicode_codepoint :: "'s \<Rightarrow> ((u32, 'src) parse_result \<times> 's) option"
  op_iter_slice :: "'s \<Rightarrow> pos \<Rightarrow> pos \<Rightarrow> code_unit_iterator option"
  op_iter_next :: "code_unit_iterator \<Rightarrow> (u32 option \<times> code_unit_iterator) option"
  op_iter_next_back :: "code_unit_iterator \<Rightarrow> (u32 option \<times> code_unit_iterator) option"
  op_slice :: "'s \<Rightarrow> pos \<Rightarrow> pos \<Rightarrow> u8 list option"
  op_slice_equals :: "'s \<Rightarrow> pos \<Rightarrow> u8 list \<Rightarrow> bool option"
  op_error :: "'s \<Rightarrow> pos \<Rightarrow> parse_error \<Rightarrow> 'src localized_parse_error"
  op_save :: "'s \<Rightarrow> saved_lexer_stream_state"
  op_restore :: "'s \<Rightarrow> saved_lexer_stream_state \<Rightarrow> 's"

definition lexer_is_start :: "('s, 'src) lexer_ops \<Rightarrow> 's \<Rightarrow> bool" where
  "lexer_is_start lx s \<longleftrightarrow> op_pos lx s = 0"

definition lexer_is_end :: "('s, 'src) lexer_ops \<Rightarrow> 's \<Rightarrow> bool" where
  "lexer_is_end lx s \<longleftrightarrow> op_pos lx s = op_len lx s"

definition lexer_has_current :: "('s, 'src) lexer_ops \<Rightarrow> 's \<Rightarrow> bool" where
  "lexer_has_current lx s \<longleftrightarrow> op_current lx s \<noteq> EOF_CHAR"

section \<open>Streams over a buffer of units\<close>

record 'u stream =
  buf :: "'u list"
  pos :: pos
  current :: u32

definition stream_save :: "('u, 'x) stream_scheme \<Rightarrow> saved_lexer_stream_state" where
  "stream_save s = \<lparr>saved_current = current s, saved_pos = pos s\<rparr>"

definition stream_restore ::
  "('u, 'x) stream_scheme \<Rightarrow> saved_lexer_stream_state \<Rightarrow> ('u, 'x) stream_scheme" where
  "stream_restore s saved = s\<lparr>current := saved_current saved, pos := saved_pos saved\<rparr>"

text \<open>
  \<open>HeapOneByteLexerStream\<close>, and with 16-bit units \<open>HeapTwoByteCodeUnitLexerStream\<close>.
\<close>

definition initial_current :: "'w::len word list \<Rightarrow> u32" where
  "initial_current b = (case b of [] \<Rightarrow> EOF_CHAR | u # _ \<Rightarrow> ucast u)"

definition one_byte_new :: "u8 list \<Rightarrow> u8 stream" where
  "one_byte_new b = \<lparr>buf = b, pos = 0, current = initial_current b\<rparr>"

definition unit_code_point_at :: "('w::len word, 'x) stream_scheme \<Rightarrow> nat \<Rightarrow> u32 option" where
  "unit_code_point_at s index = map_option ucast (vec_get (buf s) index)"

definition unit_code_point_before :: "('w::len word, 'x) stream_scheme \<Rightarrow> nat \<Rightarrow> u32 option" where
  "unit_code_point_before s index = do {
     i \<leftarrow> checked_sub index 1;
     map_option ucast (vec_get (buf s) i)
   }"

definition unit_advance_n ::
  "('w::len word, 'x) stream_scheme \<Rightarrow> nat \<Rightarrow> ('w word, 'x) stream_scheme option" where
  "unit_advance_n s n = do {
     let s = s\<lparr>pos := pos s + n\<rparr>;
     if pos s < length (buf s) then do {
       c \<leftarrow> unit_code_point_at s (pos s);
       Some (s\<lparr>current := c\<rparr>)
     } else Some (s\<lparr>current := EOF_CHAR, pos := length (buf s)\<rparr>)
   }"

definition unit_advance_backwards_n ::
  "('w::len word, 'x) stream_scheme \<Rightarrow> nat \<Rightarrow> ('w word, 'x) stream_scheme option" where
  "unit_advance_backwards_n s n =
     (case checked_sub (pos s) n of
        Some new_pos \<Rightarrow>
          if new_pos > 0 then do {
            c \<leftarrow> unit_code_point_before s new_pos;
            Some (s\<lparr>pos := new_pos, current := c\<rparr>)
          } else Some (s\<lparr>pos := 0, current := EOF_CHAR\<rparr>)
      | None \<Rightarrow> Some (s\<lparr>pos := 0, current := EOF_CHAR\<rparr>))"

definition unit_peek_prev_code_point :: "('w::len word, 'x) stream_scheme \<Rightarrow> u32 option" where
  "unit_peek_prev_code_point s =
     (if pos s = 0 then Some EOF_CHAR else unit_code_point_before s (pos s))"

definition unit_peek_next_code_point :: "('w::len word, 'x) stream_scheme \<Rightarrow> u32 option" where
  "unit_peek_next_code_point s =
     (if pos s = length (buf s) then Some EOF_CHAR else unit_code_point_at s (pos s))"

definition unit_peek_n :: "('w::len word, 'x) stream_scheme \<Rightarrow> nat \<Rightarrow> u32 option" where
  "unit_peek_n s n =
     (let next_pos = pos s + n in
      if next_pos < length (buf s) then unit_code_point_at s next_pos else Some EOF_CHAR)"

definition unit_parse_unicode_codepoint ::
  "(('w::len word, 'x) stream_scheme \<Rightarrow> pos \<Rightarrow> parse_error \<Rightarrow> 'src localized_parse_error)
     \<Rightarrow> ('w word, 'x) stream_scheme
     \<Rightarrow> ((u32, 'src) parse_result \<times> ('w word, 'x) stream_scheme) option" where
  "unit_parse_unicode_codepoint err s =
     (if current s = EOF_CHAR then Some (Inl (err s (pos s) UnexpectedRegExpEnd), s)
      else do {
        let code_point = current s;
        s \<leftarrow> unit_advance_n s 1;
        Some (Inr code_point, s)
      })"

text \<open>\<open>slice_equals\<close>: a comparison of \<open>buf[start..end]\<close> with a slice of units.\<close>

definition unit_slice_equals :: "('u, 'x) stream_scheme \<Rightarrow> pos \<Rightarrow> 'u list \<Rightarrow> bool option" where
  "unit_slice_equals s start sl =
     (let e = start + length sl in
      if e > length (buf s) then Some False
      else map_option (\<lambda>x. x = sl) (vec_slice (buf s) start e))"

definition one_byte_iter_slice :: "u8 stream \<Rightarrow> pos \<Rightarrow> pos \<Rightarrow> code_unit_iterator option" where
  "one_byte_iter_slice s start e = map_option from_raw_one_byte_slice (vec_slice (buf s) start e)"

definition one_byte_slice :: "u8 stream \<Rightarrow> pos \<Rightarrow> pos \<Rightarrow> u8 list option" where
  "one_byte_slice s start e = vec_slice (buf s) start e"

definition heap_error :: "'s \<Rightarrow> pos \<Rightarrow> parse_error \<Rightarrow> 'src localized_parse_error" where
  "heap_error s p e = \<lparr>error_kind = e, source_loc = None\<rparr>"

definition one_byte_ops :: "(u8 stream, 'src) lexer_ops" where
  "one_byte_ops =
     \<lparr>op_pos = pos,
      op_current = current,
      op_len = (\<lambda>s. length (buf s)),
      op_advance_n = unit_advance_n,
      op_advance_backwards_n = unit_advance_backwards_n,
      op_advance_code_point = (\<lambda>s. unit_advance_n s 1),
      op_advance_backwards_code_point = (\<lambda>s. unit_advance_backwards_n s 1),
      op_peek_prev_code_point = unit_peek_prev_code_point,
      op_peek_next_code_point = unit_peek_next_code_point,
      op_peek_n = unit_peek_n,
      op_parse_unicode_codepoint = unit_parse_unicode_codepoint heap_error,
      op_iter_slice = one_byte_iter_slice,
      op_iter_next = cp_next,
      op_iter_next_back = cp_next_back,
      op_slice = one_byte_slice,
      op_slice_equals = unit_slice_equals,
      op_error = heap_error,
      op_save = stream_save,
      op_restore = stream_restore\<rparr>"

section \<open>Two-byte streams\<close>

text \<open>
  \<open>slice\<close> hands out the bytes of the units, and \<open>slice_equals\<close> reads a byte slice as units
  again.
\<close>

definition two_byte_slice :: "(u16, 'x) stream_scheme \<Rightarrow> pos \<Rightarrow> pos \<Rightarrow> u8 list option" where
  "two_byte_slice s start e = map_option u16s_to_bytes (vec_slice (buf s) start e)"

definition two_byte_slice_equals :: "(u16, 'x) stream_scheme \<Rightarrow> pos \<Rightarrow> u8 list \<Rightarrow> bool option" where
  "two_byte_slice_equals s start sl = unit_slice_equals s start (u16s_from_bytes sl)"

subsection \<open>\<open>HeapTwoByteCodeUnitLexerStream\<close>\<close>

record 'src code_unit_stream = "u16 stream" +
  source :: "'src option"

definition code_unit_new :: "u16 list \<Rightarrow> 'src option \<Rightarrow> 'src code_unit_stream" where
  "code_unit_new b src = \<lparr>buf = b, pos = 0, current = initial_current b, source = src\<rparr>"

definition code_unit_iter_slice ::
  "'src code_unit_stream \<Rightarrow> pos \<Rightarrow> pos \<Rightarrow> code_unit_iterator option" where
  "code_unit_iter_slice s start e =
     map_option from_raw_two_byte_slice (vec_slice (buf s) start e)"

text \<open>\<open>CodeUnitIterator...map(|code_unit| code_unit as u32)\<close>\<close>

definition widen_step ::
  "(code_unit_iterator \<Rightarrow> (u16 option \<times> code_unit_iterator) option)
     \<Rightarrow> code_unit_iterator \<Rightarrow> (u32 option \<times> code_unit_iterator) option" where
  "widen_step step it = map_option (\<lambda>(u, it). (map_option ucast u, it)) (step it)"

definition code_unit_error ::
  "'src code_unit_stream \<Rightarrow> pos \<Rightarrow> parse_error \<Rightarrow> 'src localized_parse_error" where
  "code_unit_error s p e =
     \<lparr>error_kind = e,
      source_loc = (case source s of
        Some src \<Rightarrow> Some (\<lparr>loc_start = p, loc_end = p\<rparr>, src)
      | None \<Rightarrow> None)\<rparr>"

definition code_unit_ops :: "('src code_unit_stream, 'src) lexer_ops" where
  "code_unit_ops =
     \<lparr>op_pos = pos,
      op_current = current,
      op_len = (\<lambda>s. length (buf s)),
      op_advance_n = unit_advance_n,
      op_advance_backwards_n = unit_advance_backwards_n,
      op_advance_code_point = (\<lambda>s. unit_advance_n s 1),
      op_advance_backwards_code_point = (\<lambda>s. unit_advance_backwards_n s 1),
      op_peek_prev_code_point = unit_peek_prev_code_point,
      op_peek_next_code_point = unit_peek_next_code_point,
      op_peek_n = unit_peek_n,
      op_parse_unicode_codepoint = unit_parse_unicode_codepoint code_unit_error,
      op_iter_slice = code_unit_iter_slice,
      op_iter_next = widen_step next_unit,
      op_iter_next_back = widen_step next_unit_back,
      op_slice = two_byte_slice,
      op_slice_equals = two_byte_slice_equals,
      op_error = code_unit_error,
      op_save = stream_save,
      op_restore = stream_restore\<rparr>"

subsection \<open>\<open>HeapTwoByteCodePointLexerStream\<close>\<close>

definition code_point_new :: "u16 list \<Rightarrow> u16 stream" where
  "code_point_new b = \<lparr>buf = b, pos = 0, current = initial_current b\<rparr>"

definition code_point_at :: "u16 stream \<Rightarrow> nat \<Rightarrow> (u32 \<times> nat) option" where
  "code_point_at s index = do {
     code_unit \<leftarrow> vec_get (buf s) index;
     if is_high_surrogate_code_unit code_unit \<and> index + 1 < length (buf s) then do {
       next_code_unit \<leftarrow> vec_get (buf s) (index + 1);
       if is_low_surrogate_code_unit next_code_unit
       then Some (code_point_from_surrogate_pair code_unit next_code_unit, 2)
       else Some (ucast code_unit, 1)
     } else Some (ucast code_unit, 1)
   }"

definition code_point_before :: "u16 stream \<Rightarrow> nat \<Rightarrow> (u32 \<times> nat) option" where
  "code_point_before s index = do {
     i \<leftarrow> checked_sub index 1;
     code_unit \<leftarrow> vec_get (buf s) i;
     if is_low_surrogate_code_unit code_unit \<and> index \<ge> 2 then do {
       prev_code_unit \<leftarrow> vec_get (buf s) (index - 2);
       if is_high_surrogate_code_unit prev_code_unit
       then Some (code_point_from_surrogate_pair prev_code_unit code_unit, 2)
       else Some (ucast code_unit, 1)
     } else Some (ucast code_unit, 1)
   }"

definition code_point_advance_n :: "u16 stream \<Rightarrow> nat \<Rightarrow> u16 stream option" where
  "code_point_advance_n s n = do {
     let s = s\<lparr>pos := pos s + n\<rparr>;
     if pos s < length (buf s) then do {
       (code_point, _) \<leftarrow> code_point_at s (pos s);
       Some (s\<lparr>current := code_point\<rparr>)
     } else Some (s\<lparr>current := EOF_CHAR, pos := length (buf s)\<rparr>)
   }"

definition code_point_advance_backwards_n :: "u16 stream \<Rightarrow> nat \<Rightarrow> u16 stream option" where
  "code_point_advance_backwards_n s n =
     (case checked_sub (pos s) n of
        Some new_pos \<Rightarrow>
          if new_pos > 0 then do {
            (code_point, _) \<leftarrow> code_point_before s new_pos;
            Some (s\<lparr>pos := new_pos, current := code_point\<rparr>)
          } else Some (s\<lparr>pos := 0, current := EOF_CHAR\<rparr>)
      | None \<Rightarrow> Some (s\<lparr>pos := 0, current := EOF_CHAR\<rparr>))"

definition code_point_advance_code_point :: "u16 stream \<Rightarrow> u16 stream option" where
  "code_point_advance_code_point s =
     (if pos s = length (buf s) then Some s
      else if needs_surrogate_pair (current s) then code_point_advance_n s 2
      else code_point_advance_n s 1)"

definition code_point_advance_backwards_code_point :: "u16 stream \<Rightarrow> u16 stream option" where
  "code_point_advance_backwards_code_point s =
     (if pos s = 0 then Some s
      else do {
        s \<leftarrow> (if needs_surrogate_pair (current s) then code_point_advance_backwards_n s 2
              else code_point_advance_backwards_n s 1);
        i \<leftarrow> checked_sub (pos s) 1;
        prev_code_unit \<leftarrow> vec_get (buf s) i;
        let single = s\<lparr>pos := pos s - 1, current := ucast prev_code_unit\<rparr>;
        if is_low_surrogate_code_unit prev_code_unit \<and> pos s \<ge> 2 then do {
          prev_prev_code_unit \<leftarrow> vec_get (buf s) (pos s - 2);
          if is_high_surrogate_code_unit prev_prev_code_unit
          then Some (s\<lparr>pos := pos s - 2,
            current := code_point_from_surrogate_pair prev_prev_code_unit prev_code_unit\<rparr>)
          else Some single
        } else Some single
      })"

definition code_point_peek_prev_code_point :: "u16 stream \<Rightarrow> u32 option" where
  "code_point_peek_prev_code_point s =
     (if pos s = 0 then Some EOF_CHAR else map_option fst (code_point_before s (pos s)))"

definition code_point_peek_next_code_point :: "u16 stream \<Rightarrow> u32 option" where
  "code_point_peek_next_code_point s =
     (if pos s = length (buf s) then Some EOF_CHAR else map_option fst (code_point_at s (pos s)))"

text \<open>\<open>peek_n\<close> tests \<open>next_pos\<close> against the length but reads at \<open>self.pos\<close>.\<close>

definition code_point_peek_n :: "u16 stream \<Rightarrow> nat \<Rightarrow> u32 option" where
  "code_point_peek_n s n =
     (let next_pos = pos s + n in
      if next_pos < length (buf s) then map_option fst (code_point_at s (pos s))
      else Some EOF_CHAR)"

definition code_point_parse_unicode_codepoint ::
  "u16 stream \<Rightarrow> ((u32, 'src) parse_result \<times> u16 stream) option" where
  "code_point_parse_unicode_codepoint s =
     (if current s = EOF_CHAR then Some (Inl (heap_error s (pos s) UnexpectedRegExpEnd), s)
      else do {
        (code_point, num_code_units) \<leftarrow> code_point_at s (pos s);
        s \<leftarrow> code_point_advance_n s num_code_units;
        Some (Inr code_point, s)
      })"

definition code_point_iter_slice :: "u16 stream \<Rightarrow> pos \<Rightarrow> pos \<Rightarrow> code_unit_iterator option" where
  "code_point_iter_slice s start e =
     map_option from_raw_two_byte_slice (vec_slice (buf s) start e)"

definition code_point_ops :: "(u16 stream, 'src) lexer_ops" where
  "code_point_ops =
     \<lparr>op_pos = pos,
      op_current = current,
      op_len = (\<lambda>s. length (buf s)),
      op_advance_n = code_point_advance_n,
      op_advance_backwards_n = code_point_advance_backwards_n,
      op_advance_code_point = code_point_advance_code_point,
      op_advance_backwards_code_point = code_point_advance_backwards_code_point,
      op_peek_prev_code_point = code_point_peek_prev_code_point,
      op_peek_next_code_point = code_point_peek_next_code_point,
      op_peek_n = code_point_peek_n,
      op_parse_unicode_codepoint = code_point_parse_unicode_codepoint,
      op_iter_slice = code_point_iter_slice,
      op_iter_next = cp_next,
      op_iter_next_back = cp_next_back,
      op_slice = two_byte_slice,
      op_slice_equals = two_byte_slice_equals,
      op_error = heap_error,
      op_save = stream_save,
      op_restore = stream_restore\<rparr>"

section \<open>\<open>Utf8LexerStream\<close>\<close>

text \<open>
  The stream the regular expression parser reads literals from.  It walks bytes; the methods
  only the matcher needs are panics in the source.
\<close>

record 'src utf8_stream = "u8 stream" +
  buf_start_pos :: pos
  utf8_source :: 'src

definition utf8_new :: "pos \<Rightarrow> 'src \<Rightarrow> u8 list \<Rightarrow> 'src utf8_stream" where
  "utf8_new start src b =
     \<lparr>buf = b, pos = 0, current = initial_current b, buf_start_pos = start, utf8_source = src\<rparr>"

definition loc_from_start_pos :: "'src utf8_stream \<Rightarrow> pos \<Rightarrow> loc" where
  "loc_from_start_pos s start_pos =
     \<lparr>loc_start = buf_start_pos s + start_pos, loc_end = buf_start_pos s + pos s\<rparr>"

definition utf8_error :: "'src utf8_stream \<Rightarrow> pos \<Rightarrow> parse_error \<Rightarrow> 'src localized_parse_error" where
  "utf8_error s start_pos e =
     \<lparr>error_kind = e, source_loc = Some (loc_from_start_pos s start_pos, utf8_source s)\<rparr>"

definition utf8_parse_unicode_codepoint ::
  "'src utf8_stream \<Rightarrow> ((u32, 'src) parse_result \<times> 'src utf8_stream) option" where
  "utf8_parse_unicode_codepoint s =
     (if current s = EOF_CHAR then Some (Inl (utf8_error s (pos s) UnexpectedRegExpEnd), s)
      else if is_ascii (current s) then do {
        let code_point = current s;
        s \<leftarrow> unit_advance_n s 1;
        Some (Inr code_point, s)
      } else do {
        b \<leftarrow> vec_slice (buf s) (pos s) (length (buf s));
        d \<leftarrow> decode_wtf8_codepoint b;
        (case d of
           Inr (code_point, byte_length) \<Rightarrow> do {
             s \<leftarrow> unit_advance_n s byte_length;
             Some (Inr code_point, s)
           }
         | Inl byte_length \<Rightarrow> do {
             let start_pos = pos s;
             s \<leftarrow> unit_advance_n s byte_length;
             Some (Inl (utf8_error s start_pos InvalidUnicode), s)
           })
      })"

definition utf8_ops :: "('src utf8_stream, 'src) lexer_ops" where
  "utf8_ops =
     \<lparr>op_pos = pos,
      op_current = current,
      op_len = (\<lambda>s. length (buf s)),
      op_advance_n = unit_advance_n,
      op_advance_backwards_n = (\<lambda>_ _. None),
      op_advance_code_point = (\<lambda>_. None),
      op_advance_backwards_code_point = (\<lambda>_. None),
      op_peek_prev_code_point = (\<lambda>_. None),
      op_peek_next_code_point = (\<lambda>_. None),
      op_peek_n = unit_peek_n,
      op_parse_unicode_codepoint = utf8_parse_unicode_codepoint,
      op_iter_slice = (\<lambda>_ _ _. Some (from_raw_one_byte_slice [])),
      op_iter_next = cp_next,
      op_iter_next_back = cp_next_back,
      op_slice = (\<lambda>_ _ _. None),
      op_slice_equals = (\<lambda>_ _ _. None),
      op_error = utf8_error,
      op_save = stream_save,
      op_restore = stream_restore\<rparr>"


section \<open>What the matcher relies on\<close>

text \<open>
  A stream over the input \<open>inp\<close>, a list of units.  \<open>after p\<close> is the code point that starts at the
  position \<open>p\<close> and \<open>before p\<close> the one that ends there, \<open>EOF_CHAR\<close> at the ends of the input.
\<close>

locale lexer_stream_fwd =
  fixes lx :: "('s, 'src) lexer_ops"
    and ok :: "'s \<Rightarrow> bool"
    and inp :: "u32 list"
    and after before :: "nat \<Rightarrow> u32"
    and step_fwd :: "nat \<Rightarrow> nat"
  assumes len: "ok s \<Longrightarrow> op_len lx s = length inp"
    and pos_le: "ok s \<Longrightarrow> op_pos lx s \<le> length inp"
    and advance_n: "ok s \<Longrightarrow> \<exists>s'. op_advance_n lx s n = Some s' \<and> ok s'
      \<and> op_pos lx s' = min (length inp) (op_pos lx s + n)
      \<and> op_current lx s' = after (op_pos lx s')"
    and advance_backwards_n: "ok s \<Longrightarrow> \<exists>s'. op_advance_backwards_n lx s n = Some s' \<and> ok s'
      \<and> op_pos lx s' = op_pos lx s - n
      \<and> op_current lx s' = before (op_pos lx s')"
    and advance_code_point_ok: "ok s \<Longrightarrow> \<exists>s'. op_advance_code_point lx s = Some s' \<and> ok s'"
    and advance_backwards_keeps_ok:
      "ok s \<Longrightarrow> op_advance_backwards_code_point lx s = Some s' \<Longrightarrow> ok s'"
    and advance_code_point: "ok s \<Longrightarrow> op_current lx s = after (op_pos lx s) \<Longrightarrow>
      \<exists>s'. op_advance_code_point lx s = Some s' \<and> ok s'
      \<and> op_pos lx s' = (if op_pos lx s = length inp then length inp else step_fwd (op_pos lx s))
      \<and> op_current lx s' = after (op_pos lx s')"
    and peek_prev: "ok s \<Longrightarrow> op_peek_prev_code_point lx s = Some (before (op_pos lx s))"
    and peek_next: "ok s \<Longrightarrow> op_peek_next_code_point lx s = Some (after (op_pos lx s))"
    and slice: "ok s \<Longrightarrow> i \<le> j \<Longrightarrow> j \<le> length inp \<Longrightarrow> \<exists>b. op_slice lx s i j = Some b"
    and slice_equals: "ok s \<Longrightarrow> op_slice lx s i j = Some b \<Longrightarrow>
      op_slice_equals lx s p b = Some (p + (j - i) \<le> length inp
        \<and> take (j - i) (drop p inp) = take (j - i) (drop i inp))"
    and iter_slice: "ok s \<Longrightarrow> i \<le> j \<Longrightarrow> j \<le> length inp \<Longrightarrow>
      \<exists>it cs cs'. op_iter_slice lx s i j = Some it \<and> drain (op_iter_next lx) it = Some cs
        \<and> drain (op_iter_next_back lx) it = Some cs'"
    and restore_save: "ok s \<Longrightarrow> ok s' \<Longrightarrow> op_restore lx s' (op_save lx s) = s"
    and after_EOF: "p \<le> length inp \<Longrightarrow> after p = EOF_CHAR \<longleftrightarrow> p = length inp"
    and before_EOF: "p \<le> length inp \<Longrightarrow> before p = EOF_CHAR \<longleftrightarrow> p = 0"
    and step_fwd: "p < length inp \<Longrightarrow> p < step_fwd p \<and> step_fwd p \<le> length inp"

locale lexer_stream = lexer_stream_fwd +
  fixes step_back :: "nat \<Rightarrow> nat"
  assumes advance_backwards_code_point_ok:
      "ok s \<Longrightarrow> \<exists>s'. op_advance_backwards_code_point lx s = Some s' \<and> ok s'"
    and advance_backwards_code_point: "ok s \<Longrightarrow> op_current lx s = before (op_pos lx s) \<Longrightarrow>
      \<exists>s'. op_advance_backwards_code_point lx s = Some s' \<and> ok s'
      \<and> op_pos lx s' = (if op_pos lx s = 0 then 0 else step_back (op_pos lx s))
      \<and> op_current lx s' = before (op_pos lx s')"
    and step_back: "0 < p \<Longrightarrow> step_back p < p"

text \<open>A stream facing forwards shows the code point after its position.\<close>

definition lexer_facing ::
  "('s, 'src) lexer_ops \<Rightarrow> ('s \<Rightarrow> bool) \<Rightarrow> (nat \<Rightarrow> u32) \<Rightarrow> (nat \<Rightarrow> u32) \<Rightarrow> bool \<Rightarrow> 's \<Rightarrow> bool" where
  "lexer_facing lx ok after before d s \<longleftrightarrow>
     ok s \<and> op_current lx s = (if d then after (op_pos lx s) else before (op_pos lx s))"

context lexer_stream_fwd
begin

abbreviation facing :: "bool \<Rightarrow> 's \<Rightarrow> bool" where
  "facing \<equiv> lexer_facing lx ok after before"

lemmas facing_def = lexer_facing_def [of lx ok after before]

lemma facing_ok: "facing d s \<Longrightarrow> ok s"
  by (simp add: facing_def)

lemma facing_advance_n:
  "ok s \<Longrightarrow> \<exists>s'. op_advance_n lx s n = Some s' \<and> facing True s'
     \<and> op_pos lx s' = min (length inp) (op_pos lx s + n)"
  using advance_n by (fastforce simp: facing_def)

lemma facing_advance_backwards_n:
  "ok s \<Longrightarrow> \<exists>s'. op_advance_backwards_n lx s n = Some s' \<and> facing False s'
     \<and> op_pos lx s' = op_pos lx s - n"
  using advance_backwards_n by (fastforce simp: facing_def)

lemma facing_advance_code_point:
  "facing True s \<Longrightarrow> \<exists>s'. op_advance_code_point lx s = Some s' \<and> facing True s'
     \<and> (op_pos lx s < length inp \<longrightarrow> op_pos lx s' = step_fwd (op_pos lx s))"
  using advance_code_point [of s] pos_le [of s] by (auto simp: facing_def)

lemma has_current_iff:
  "facing d s \<Longrightarrow> lexer_has_current lx s
     \<longleftrightarrow> (if d then op_pos lx s < length inp else 0 < op_pos lx s)"
  using pos_le [of s] after_EOF [of "op_pos lx s"] before_EOF [of "op_pos lx s"]
  by (auto simp: facing_def lexer_has_current_def)

end

context lexer_stream
begin

lemma facing_advance_backwards_code_point:
  "facing False s \<Longrightarrow> \<exists>s'. op_advance_backwards_code_point lx s = Some s' \<and> facing False s'
     \<and> (0 < op_pos lx s \<longrightarrow> op_pos lx s' = step_back (op_pos lx s))"
  using advance_backwards_code_point [of s] by (auto simp: facing_def)

text \<open>One code point in either direction: the stream turns neither way and makes progress.\<close>

lemma facing_step:
  assumes "facing d s" and "lexer_has_current lx s"
  obtains s' where
    "(if d then op_advance_code_point lx s else op_advance_backwards_code_point lx s) = Some s'"
    and "facing d s'"
    and "if d then op_pos lx s < op_pos lx s' \<and> op_pos lx s' \<le> length inp
         else op_pos lx s' < op_pos lx s"
proof (cases d)
  case True
  then have "facing True s" "op_pos lx s < length inp"
    using assms has_current_iff [OF assms(1)] by simp_all
  then show thesis
    using facing_advance_code_point [of s] step_fwd [of "op_pos lx s"] True that by auto
next
  case False
  then have "facing False s" "0 < op_pos lx s"
    using assms has_current_iff [OF assms(1)] by simp_all
  then show thesis
    using facing_advance_backwards_code_point [of s] step_back [of "op_pos lx s"] False that by auto
qed

end

section \<open>The unit streams keep the contract\<close>

definition unit_after :: "'w::len word list \<Rightarrow> nat \<Rightarrow> u32" where
  "unit_after b p = (if p < length b then ucast (b ! p) else EOF_CHAR)"

definition unit_before :: "'w::len word list \<Rightarrow> nat \<Rightarrow> u32" where
  "unit_before b p = (if p = 0 then EOF_CHAR else ucast (b ! (p - 1)))"

definition stream_ok :: "'u list \<Rightarrow> ('u, 'x) stream_scheme \<Rightarrow> bool" where
  "stream_ok b s \<longleftrightarrow> buf s = b \<and> pos s \<le> length b"

lemma stream_ok_D: "stream_ok b s \<Longrightarrow> buf s = b" "stream_ok b s \<Longrightarrow> pos s \<le> length b"
  by (simp_all add: stream_ok_def)

lemma unit_advance_n_eq:
  "stream_ok b s \<Longrightarrow> unit_advance_n s n =
     Some (s\<lparr>pos := min (length b) (pos s + n),
             current := unit_after b (min (length b) (pos s + n))\<rparr>)"
  by (auto simp: unit_advance_n_def unit_code_point_at_def unit_after_def stream_ok_def vec_get_def
      Let_def)

lemma unit_advance_backwards_n_eq:
  "stream_ok b s \<Longrightarrow> unit_advance_backwards_n s n =
     Some (s\<lparr>pos := pos s - n, current := unit_before b (pos s - n)\<rparr>)"
  by (auto simp: unit_advance_backwards_n_def unit_code_point_before_def unit_before_def
      stream_ok_def checked_sub_def vec_get_def)

lemma unit_peek_eq:
  "stream_ok b s \<Longrightarrow> unit_peek_prev_code_point s = Some (unit_before b (pos s))"
  "stream_ok b s \<Longrightarrow> unit_peek_next_code_point s = Some (unit_after b (pos s))"
  by (auto simp: unit_peek_prev_code_point_def unit_peek_next_code_point_def
      unit_code_point_before_def unit_code_point_at_def unit_before_def unit_after_def
      stream_ok_def checked_sub_def vec_get_def)

lemma unit_slice_equals_eq:
  "stream_ok b s \<Longrightarrow> unit_slice_equals s p sl =
     Some (p + length sl \<le> length b \<and> take (length sl) (drop p b) = sl)"
  by (auto simp: unit_slice_equals_def stream_ok_def vec_slice_def Let_def)

lemma stream_restore_save:
  fixes s s' :: "('u, 'x) stream_scheme"
  shows "buf s' = buf s \<Longrightarrow> stream.more s' = stream.more s \<Longrightarrow> stream_restore s' (stream_save s) = s"
  by (cases s; cases s') (simp add: stream_restore_def stream_save_def)

lemma small_unit_not_EOF:
  "LENGTH('w) \<le> 16 \<Longrightarrow> (ucast (u :: 'w::len word) :: u32) \<noteq> EOF_CHAR"
proof -
  assume "LENGTH('w) \<le> 16"
  then have "unat u < 2 ^ 16"
    by (meson less_le_trans one_le_numeral power_increasing unsigned_less)
  moreover from this have "unat (ucast u :: u32) = unat u"
    by (simp add: unat_ucast_mod)
  ultimately show ?thesis by (auto simp: EOF_CHAR_def word_unat_eq_iff)
qed

lemma unit_after_EOF:
  "p \<le> length b \<Longrightarrow> unit_after (b :: u8 list) p = EOF_CHAR \<longleftrightarrow> p = length b"
  "p \<le> length c \<Longrightarrow> unit_after (c :: u16 list) p = EOF_CHAR \<longleftrightarrow> p = length c"
  by (auto simp: unit_after_def small_unit_not_EOF)

lemma unit_before_EOF:
  "unit_before (b :: u8 list) p = EOF_CHAR \<longleftrightarrow> p = 0"
  "unit_before (c :: u16 list) p = EOF_CHAR \<longleftrightarrow> p = 0"
  by (auto simp: unit_before_def small_unit_not_EOF)

lemma map_ucast_inject:
  assumes "LENGTH('w) \<le> 32"
  shows "map (ucast :: 'w::len word \<Rightarrow> u32) xs = map ucast ys \<longleftrightarrow> xs = ys"
proof -
  have "inj (ucast :: 'w word \<Rightarrow> u32)"
    using unat_ucast_up [where 'a = 'w and 'b = 32] assms
    by (intro injI) (simp add: word_unat_eq_iff)
  then show ?thesis by (simp add: inj_map_eq_map)
qed

text \<open>Iteration over a slice ends, in either direction.\<close>

lemma drain_cp_next_back_total: "iter_ok it \<Longrightarrow> \<exists>cs. drain cp_next_back it = Some cs"
proof (induction "length (units it)" arbitrary: it rule: less_induct)
  case less
  show ?case
  proof (cases "units it" rule: rev_cases)
    case Nil
    then show ?thesis using cp_next_back_Nil [OF less.prems] by (auto simp: drain_Nil)
  next
    case (snoc us v)
    obtain c it' where it': "cp_next_back it = Some (Some c, it')" "iter_ok it'"
      "length (units it') < length (units it)"
    proof (cases "ends_with_pair (us @ [v])")
      case True
      then obtain ws u where us: "us = ws @ [u]" "is_high_surrogate_code_unit u"
        "is_low_surrogate_code_unit v"
        by (cases us rule: rev_cases) (auto simp: ends_with_pair_def)
      then have "units it = ws @ [u, v]" using snoc by simp
      from cp_next_back_pair [OF less.prems this us(2,3)] show thesis
        using that snoc us(1) by auto
    next
      case False
      from cp_next_back_single [OF less.prems snoc False] show thesis using that snoc by auto
    qed
    with less.hyps [OF it'(3,2)] show ?thesis by (auto intro!: drain_Cons)
  qed
qed

lemma drain_widen_step:
  assumes "drain step it = Some us"
  shows "drain (widen_step step) it = Some (map ucast us)"
  using assms
proof (induction rule: drain.raw_induct [rotated 1, consumes 1])
  case (1 rec f it us)
  then show ?case
    by (subst drain.simps)
      (auto simp: widen_step_def [of f it] bind_eq_Some_conv split: option.splits prod.splits)
qed

text \<open>The laws of the contract that do not depend on the width of a unit.\<close>

lemma unit_stream_laws:
  fixes s s' :: "('w::len word, 'x) stream_scheme"
  assumes "stream_ok b s"
  shows "length (buf s) = length b" and "pos s \<le> length b"
    and "\<exists>s'. unit_advance_n s n = Some s' \<and> stream_ok b s' \<and> stream.more s' = stream.more s
      \<and> pos s' = min (length b) (pos s + n) \<and> current s' = unit_after b (pos s')"
    and "\<exists>s'. unit_advance_backwards_n s n = Some s' \<and> stream_ok b s' \<and> stream.more s' = stream.more s
      \<and> pos s' = pos s - n \<and> current s' = unit_before b (pos s')"
    and "\<exists>s'. unit_advance_n s 1 = Some s' \<and> stream_ok b s' \<and> stream.more s' = stream.more s
      \<and> pos s' = (if pos s = length b then length b else Suc (pos s))
      \<and> current s' = unit_after b (pos s')"
    and "\<exists>s'. unit_advance_backwards_n s 1 = Some s' \<and> stream_ok b s' \<and> stream.more s' = stream.more s
      \<and> pos s' = (if pos s = 0 then 0 else pos s - 1) \<and> current s' = unit_before b (pos s')"
    and "stream_ok b s' \<Longrightarrow> stream.more s' = stream.more s \<Longrightarrow> stream_restore s' (stream_save s) = s"
    and "i \<le> j \<Longrightarrow> j \<le> length b \<Longrightarrow> vec_slice (buf s) i j = Some (take (j - i) (drop i b))"
    and "LENGTH('w) \<le> 32 \<Longrightarrow> vec_slice (buf s) i j = Some bs \<Longrightarrow>
      unit_slice_equals s p bs = Some (p + (j - i) \<le> length b
        \<and> take (j - i) (drop p (map ucast b :: u32 list)) = take (j - i) (drop i (map ucast b)))"
proof -
  show "length (buf s) = length b" "pos s \<le> length b"
    using assms by (simp_all add: stream_ok_def)
  show fwd: "\<exists>s'. unit_advance_n s n = Some s' \<and> stream_ok b s' \<and> stream.more s' = stream.more s
      \<and> pos s' = min (length b) (pos s + n) \<and> current s' = unit_after b (pos s')" for n
    unfolding unit_advance_n_eq [OF assms] using assms by (simp add: stream_ok_def)
  show bwd: "\<exists>s'. unit_advance_backwards_n s n = Some s' \<and> stream_ok b s' \<and> stream.more s' = stream.more s
      \<and> pos s' = pos s - n \<and> current s' = unit_before b (pos s')" for n
    unfolding unit_advance_backwards_n_eq [OF assms] using assms by (auto simp: stream_ok_def)
  show "\<exists>s'. unit_advance_n s 1 = Some s' \<and> stream_ok b s' \<and> stream.more s' = stream.more s
      \<and> pos s' = (if pos s = length b then length b else Suc (pos s))
      \<and> current s' = unit_after b (pos s')"
    using fwd [of 1] \<open>pos s \<le> length b\<close> by auto
  show "\<exists>s'. unit_advance_backwards_n s 1 = Some s' \<and> stream_ok b s' \<and> stream.more s' = stream.more s
      \<and> pos s' = (if pos s = 0 then 0 else pos s - 1) \<and> current s' = unit_before b (pos s')"
    using bwd [of 1] by (cases "pos s = 0") auto
  show "stream_restore s' (stream_save s) = s" if "stream_ok b s'" "stream.more s' = stream.more s"
    using that assms by (simp add: stream_restore_save stream_ok_def)
  show "vec_slice (buf s) i j = Some (take (j - i) (drop i b))" if "i \<le> j" "j \<le> length b"
    using that assms by (simp add: vec_slice_def stream_ok_def)
  show "unit_slice_equals s p bs = Some (p + (j - i) \<le> length b
        \<and> take (j - i) (drop p (map ucast b :: u32 list)) = take (j - i) (drop i (map ucast b)))"
    if "LENGTH('w) \<le> 32" "vec_slice (buf s) i j = Some bs"
    using that assms
    by (auto simp: unit_slice_equals_eq vec_slice_Some_iff stream_ok_D drop_map take_map
        map_ucast_inject)
qed

lemma slice_iterators_end:
  "\<exists>it cs cs'. map_option from_raw_one_byte_slice (Some u8s) = Some it
     \<and> drain cp_next it = Some cs \<and> drain cp_next_back it = Some cs'"
  "\<exists>it cs cs'. map_option from_raw_two_byte_slice (Some u16s) = Some it
     \<and> drain cp_next it = Some cs \<and> drain cp_next_back it = Some cs'"
  "\<exists>it cs cs'. map_option from_raw_two_byte_slice (Some u16s) = Some it
     \<and> drain (widen_step next_unit) it = Some cs \<and> drain (widen_step next_unit_back) it = Some cs'"
  using drain_cp_next [OF iter_ok_from_slice(1)] drain_cp_next_back_total [OF iter_ok_from_slice(1)]
    drain_cp_next [OF iter_ok_from_slice(2)] drain_cp_next_back_total [OF iter_ok_from_slice(2)]
    drain_widen_step [OF drain_next_unit [OF iter_ok_from_slice(2)]]
    drain_widen_step [OF drain_next_unit_back [OF iter_ok_from_slice(2)]]
  by simp_all

interpretation one_byte: lexer_stream one_byte_ops "stream_ok b" "map ucast b"
    "unit_after b" "unit_before b" Suc "\<lambda>p. p - 1"
  for b :: "u8 list"
  apply (unfold_locales; simp only: one_byte_ops_def lexer_ops.select_convs length_map)
  subgoal by (rule unit_stream_laws)
  subgoal by (rule unit_stream_laws)
  subgoal using unit_stream_laws(3) by blast
  subgoal using unit_stream_laws(4) by blast
  subgoal using unit_stream_laws(5) by blast
  subgoal using unit_stream_laws(6) by fastforce
  subgoal using unit_stream_laws(5) by blast
  subgoal by (rule unit_peek_eq)
  subgoal by (rule unit_peek_eq)
  subgoal by (simp add: one_byte_slice_def unit_stream_laws)
  subgoal by (rule unit_stream_laws(9)) (simp_all add: one_byte_slice_def)
  subgoal by (simp only: one_byte_iter_slice_def unit_stream_laws(8) slice_iterators_end)
  subgoal by (rule unit_stream_laws(7)) simp_all
  subgoal by (rule unit_after_EOF)
  subgoal by (rule unit_before_EOF)
  subgoal by simp
  subgoal using unit_stream_laws(6) by blast
  subgoal using unit_stream_laws(6) by blast
  done

definition code_unit_ok :: "u16 list \<Rightarrow> 'src option \<Rightarrow> 'src code_unit_stream \<Rightarrow> bool" where
  "code_unit_ok b src s \<longleftrightarrow> stream_ok b s \<and> source s = src"

lemma source_more:
  fixes s s' :: "'src code_unit_stream"
  shows "source s = source s' \<longleftrightarrow> stream.more s = stream.more s'"
  by (cases s; cases s') simp

lemma two_byte_slice_laws:
  fixes s :: "(u16, 'x) stream_scheme"
  assumes "stream_ok b s"
  shows "i \<le> j \<Longrightarrow> j \<le> length b \<Longrightarrow> \<exists>bs. two_byte_slice s i j = Some bs"
    and "two_byte_slice s i j = Some bs \<Longrightarrow>
      two_byte_slice_equals s p bs = Some (p + (j - i) \<le> length b
        \<and> take (j - i) (drop p (map ucast b :: u32 list)) = take (j - i) (drop i (map ucast b)))"
  using unit_stream_laws(8,9) [OF assms, of i j]
  by (auto simp: two_byte_slice_def two_byte_slice_equals_def)

lemma code_unit_laws:
  fixes s :: "'src code_unit_stream"
  assumes "code_unit_ok b src s"
  shows "\<exists>s'. unit_advance_n s n = Some s' \<and> code_unit_ok b src s'
      \<and> pos s' = min (length b) (pos s + n) \<and> current s' = unit_after b (pos s')"
    and "\<exists>s'. unit_advance_backwards_n s n = Some s' \<and> code_unit_ok b src s'
      \<and> pos s' = pos s - n \<and> current s' = unit_before b (pos s')"
    and "\<exists>s'. unit_advance_n s 1 = Some s' \<and> code_unit_ok b src s'
      \<and> pos s' = (if pos s = length b then length b else Suc (pos s))
      \<and> current s' = unit_after b (pos s')"
    and "\<exists>s'. unit_advance_backwards_n s 1 = Some s' \<and> code_unit_ok b src s'
      \<and> pos s' = (if pos s = 0 then 0 else pos s - 1) \<and> current s' = unit_before b (pos s')"
proof -
  have ok: "stream_ok b s" using assms by (simp add: code_unit_ok_def)
  have src: "source s' = src" if "stream.more s' = stream.more s" for s' :: "'src code_unit_stream"
    using assms that source_more [of s' s] by (simp add: code_unit_ok_def)
  note laws = unit_stream_laws(3-6) [OF ok]
  show "\<exists>s'. unit_advance_n s n = Some s' \<and> code_unit_ok b src s'
      \<and> pos s' = min (length b) (pos s + n) \<and> current s' = unit_after b (pos s')"
    using laws(1) [of n] src by (auto simp: code_unit_ok_def)
  show "\<exists>s'. unit_advance_backwards_n s n = Some s' \<and> code_unit_ok b src s'
      \<and> pos s' = pos s - n \<and> current s' = unit_before b (pos s')"
    using laws(2) [of n] src by (auto simp: code_unit_ok_def)
  show "\<exists>s'. unit_advance_n s 1 = Some s' \<and> code_unit_ok b src s'
      \<and> pos s' = (if pos s = length b then length b else Suc (pos s))
      \<and> current s' = unit_after b (pos s')"
    using laws(3) src by (auto simp: code_unit_ok_def)
  show "\<exists>s'. unit_advance_backwards_n s 1 = Some s' \<and> code_unit_ok b src s'
      \<and> pos s' = (if pos s = 0 then 0 else pos s - 1) \<and> current s' = unit_before b (pos s')"
    using laws(4) src by (auto simp: code_unit_ok_def)
qed

interpretation code_unit: lexer_stream code_unit_ops "code_unit_ok b src" "map ucast b"
    "unit_after b" "unit_before b" Suc "\<lambda>p. p - 1"
  for b :: "u16 list" and src
  apply (unfold_locales;
      simp only: code_unit_ops_def lexer_ops.select_convs length_map)
  subgoal by (simp add: code_unit_ok_def unit_stream_laws)
  subgoal by (simp add: code_unit_ok_def unit_stream_laws)
  subgoal by (rule code_unit_laws)
  subgoal by (rule code_unit_laws)
  subgoal using code_unit_laws(3) by blast
  subgoal using code_unit_laws(4) by fastforce
  subgoal by (rule code_unit_laws) simp_all
  subgoal by (simp add: code_unit_ok_def unit_peek_eq)
  subgoal by (simp add: code_unit_ok_def unit_peek_eq)
  subgoal using two_byte_slice_laws(1) by (auto simp only: code_unit_ok_def)
  subgoal by (simp add: code_unit_ok_def two_byte_slice_laws(2))
  subgoal
    by (auto simp only: code_unit_ok_def code_unit_iter_slice_def unit_stream_laws(8)
        slice_iterators_end)
  subgoal for s s'
    by (rule unit_stream_laws(7) [of b]) (simp_all add: code_unit_ok_def source_more [symmetric])
  subgoal by (rule unit_after_EOF)
  subgoal by (rule unit_before_EOF)
  subgoal by simp
  subgoal using code_unit_laws(4) by blast
  subgoal by (rule code_unit_laws) simp_all
  done

section \<open>The code point stream keeps the forward contract\<close>

definition pair_at :: "u16 list \<Rightarrow> nat \<Rightarrow> bool" where
  "pair_at b p \<longleftrightarrow> p + 1 < length b \<and> is_high_surrogate_code_unit (b ! p)
     \<and> is_low_surrogate_code_unit (b ! (p + 1))"

definition cp_after :: "u16 list \<Rightarrow> nat \<Rightarrow> u32" where
  "cp_after b p =
     (if pair_at b p then code_point_from_surrogate_pair (b ! p) (b ! (p + 1))
      else unit_after b p)"

definition cp_before :: "u16 list \<Rightarrow> nat \<Rightarrow> u32" where
  "cp_before b p =
     (if 2 \<le> p \<and> pair_at b (p - 2)
      then code_point_from_surrogate_pair (b ! (p - 2)) (b ! (p - 1))
      else unit_before b p)"

definition cp_step :: "u16 list \<Rightarrow> nat \<Rightarrow> nat" where
  "cp_step b p = (if pair_at b p then p + 2 else p + 1)"

lemma code_point_at_eq:
  "buf s = b \<Longrightarrow> p < length b \<Longrightarrow>
     code_point_at s p = Some (cp_after b p, if pair_at b p then 2 else 1)"
  by (auto simp: code_point_at_def cp_after_def unit_after_def pair_at_def vec_get_def)

lemma code_point_before_eq:
  "buf s = b \<Longrightarrow> 0 < p \<Longrightarrow> p \<le> length b \<Longrightarrow>
     code_point_before s p = Some (cp_before b p, if 2 \<le> p \<and> pair_at b (p - 2) then 2 else 1)"
  by (auto simp: code_point_before_def cp_before_def unit_before_def pair_at_def vec_get_def
      checked_sub_def Suc_diff_Suc numeral_2_eq_2)

lemma pair_code_point_range:
  assumes "is_high_surrogate_code_unit h" and "is_low_surrogate_code_unit l"
  shows "needs_surrogate_pair (code_point_from_surrogate_pair h l)"
    and "code_point_from_surrogate_pair h l \<noteq> EOF_CHAR"
proof -
  have "unat (code_point_from_surrogate_pair h l)
      = (unat h - 0xD800) * 0x400 + (unat l - 0xDC00) + 0x10000"
    using assms by (simp add: unat_code_point_from_surrogate_pair)
  moreover have "unat h - 0xD800 < 0x400" "unat l - 0xDC00 < 0x400"
    using assms by (simp_all add: surrogate_ranges less_diff_conv2)
  ultimately have "0xFFFF < unat (code_point_from_surrogate_pair h l)"
    "unat (code_point_from_surrogate_pair h l) < 0x110000"
    by simp_all
  then show "needs_surrogate_pair (code_point_from_surrogate_pair h l)"
    "code_point_from_surrogate_pair h l \<noteq> EOF_CHAR"
    by (auto simp: needs_surrogate_pair_def EOF_CHAR_def word_less_nat_alt word_le_nat_alt
        word_unat_eq_iff)
qed

lemma unit_not_needs_pair: "\<not> needs_surrogate_pair (ucast (u :: u16))"
proof -
  have "unat u < 2 ^ LENGTH(16)" by (rule unsigned_less)
  then have "unat (ucast u :: u32) < unat (0x10000 :: u32)" by (simp add: unat_ucast_mod)
  then have "(ucast u :: u32) < 0x10000" by (simp only: word_less_nat_alt)
  then show ?thesis by (simp only: needs_surrogate_pair_def not_le)
qed

lemma cp_after_EOF: "p \<le> length b \<Longrightarrow> cp_after b p = EOF_CHAR \<longleftrightarrow> p = length b"
  using unit_after_EOF(2) [of p b] pair_code_point_range(2)
  by (auto simp: cp_after_def pair_at_def)

lemma cp_before_EOF: "p \<le> length b \<Longrightarrow> cp_before b p = EOF_CHAR \<longleftrightarrow> p = 0"
  using unit_before_EOF(2) [of b p] pair_code_point_range(2)
  by (auto simp: cp_before_def pair_at_def Suc_diff_Suc numeral_2_eq_2)

lemma cp_after_needs_pair:
  "p < length b \<Longrightarrow> needs_surrogate_pair (cp_after b p) \<longleftrightarrow> pair_at b p"
  by (auto simp: cp_after_def unit_after_def pair_at_def unit_not_needs_pair pair_code_point_range)

lemma code_point_advance_n_eq:
  "stream_ok b s \<Longrightarrow> code_point_advance_n s n =
     Some (s\<lparr>pos := min (length b) (pos s + n),
             current := cp_after b (min (length b) (pos s + n))\<rparr>)"
  by (auto simp: code_point_advance_n_def stream_ok_def Let_def code_point_at_eq [of _ b]
      cp_after_def unit_after_def pair_at_def)

lemma code_point_advance_backwards_n_eq:
  "stream_ok b s \<Longrightarrow> code_point_advance_backwards_n s n =
     Some (s\<lparr>pos := pos s - n, current := cp_before b (pos s - n)\<rparr>)"
  by (auto simp: code_point_advance_backwards_n_def stream_ok_def checked_sub_def
      code_point_before_eq [of _ b] cp_before_def unit_before_def)

lemma code_point_advance_code_point_eq:
  assumes "stream_ok b s" and "current s = cp_after b (pos s)" and "pos s < length b"
  shows "code_point_advance_code_point s =
     Some (s\<lparr>pos := cp_step b (pos s), current := cp_after b (cp_step b (pos s))\<rparr>)"
proof -
  have b: "buf s = b" using assms(1) by (simp add: stream_ok_def)
  show ?thesis
  proof (cases "pair_at b (pos s)")
    case True
    then have "min (length b) (pos s + 2) = pos s + 2" by (simp add: pair_at_def)
    with True show ?thesis
      using assms(2,3) code_point_advance_n_eq [OF assms(1), of 2] cp_after_needs_pair [OF assms(3)]
      by (simp add: code_point_advance_code_point_def b cp_step_def)
  next
    case False
    have "min (length b) (pos s + 1) = pos s + 1" using assms(3) by simp
    with False show ?thesis
      using assms(2,3) code_point_advance_n_eq [OF assms(1), of 1] cp_after_needs_pair [OF assms(3)]
      by (simp add: code_point_advance_code_point_def b cp_step_def)
  qed
qed

lemma code_point_peek_eq:
  "stream_ok b s \<Longrightarrow> code_point_peek_prev_code_point s = Some (cp_before b (pos s))"
  "stream_ok b s \<Longrightarrow> code_point_peek_next_code_point s = Some (cp_after b (pos s))"
  by (auto simp: code_point_peek_prev_code_point_def code_point_peek_next_code_point_def
      stream_ok_def code_point_before_eq [of _ b] code_point_at_eq [of _ b] cp_before_def
      unit_before_def cp_after_def unit_after_def pair_at_def)

lemma code_point_laws:
  assumes "stream_ok b s"
  shows "\<exists>s'. code_point_advance_n s n = Some s' \<and> stream_ok b s'
      \<and> pos s' = min (length b) (pos s + n) \<and> current s' = cp_after b (pos s')"
    and "\<exists>s'. code_point_advance_backwards_n s n = Some s' \<and> stream_ok b s'
      \<and> pos s' = pos s - n \<and> current s' = cp_before b (pos s')"
    and "current s = cp_after b (pos s) \<Longrightarrow>
      \<exists>s'. code_point_advance_code_point s = Some s' \<and> stream_ok b s'
      \<and> pos s' = (if pos s = length b then length b else cp_step b (pos s))
      \<and> current s' = cp_after b (pos s')"
proof -
  show "\<exists>s'. code_point_advance_n s n = Some s' \<and> stream_ok b s'
      \<and> pos s' = min (length b) (pos s + n) \<and> current s' = cp_after b (pos s')"
    unfolding code_point_advance_n_eq [OF assms] using assms by (simp add: stream_ok_def)
  show "\<exists>s'. code_point_advance_backwards_n s n = Some s' \<and> stream_ok b s'
      \<and> pos s' = pos s - n \<and> current s' = cp_before b (pos s')"
    unfolding code_point_advance_backwards_n_eq [OF assms] using assms by (auto simp: stream_ok_def)
  assume cur: "current s = cp_after b (pos s)"
  show "\<exists>s'. code_point_advance_code_point s = Some s' \<and> stream_ok b s'
      \<and> pos s' = (if pos s = length b then length b else cp_step b (pos s))
      \<and> current s' = cp_after b (pos s')"
  proof (cases "pos s = length b")
    case True
    then show ?thesis using assms cur by (simp add: code_point_advance_code_point_def stream_ok_def)
  next
    case False
    then have "pos s < length b" using stream_ok_D(2) [OF assms] by simp
    from code_point_advance_code_point_eq [OF assms cur this] this False show ?thesis
      using assms by (auto simp: stream_ok_def cp_step_def pair_at_def)
  qed
qed

lemma code_point_backwards_keeps_ok:
  assumes "stream_ok b s" and "code_point_advance_backwards_code_point s = Some s'"
  shows "stream_ok b s'"
proof (cases "pos s = 0")
  case True
  then show ?thesis using assms by (simp add: code_point_advance_backwards_code_point_def)
next
  case False
  define n where "n = (if needs_surrogate_pair (current s) then 2 else 1 :: nat)"
  obtain s1 where s1: "code_point_advance_backwards_n s n = Some s1" "stream_ok b s1"
    using code_point_laws(2) [OF assms(1), of n] by blast
  from assms(2) False s1(1) have "\<exists>m c. s' = s1\<lparr>pos := pos s1 - m, current := c\<rparr>"
    by (simp add: code_point_advance_backwards_code_point_def n_def bind_eq_Some_conv Let_def
        split: if_splits) blast+
  then show ?thesis using s1(2) by (auto simp: stream_ok_def)
qed

lemma code_point_advance_code_point_ok:
  assumes "stream_ok b s"
  shows "\<exists>s'. code_point_advance_code_point s = Some s' \<and> stream_ok b s'"
  using assms code_point_laws(1) [OF assms, of 1] code_point_laws(1) [OF assms, of 2]
  by (auto simp: code_point_advance_code_point_def)

interpretation code_point: lexer_stream_fwd code_point_ops "stream_ok b" "map ucast b"
    "cp_after b" "cp_before b" "cp_step b"
  for b :: "u16 list"
  apply (unfold_locales; simp only: code_point_ops_def lexer_ops.select_convs length_map)
  subgoal by (rule unit_stream_laws)
  subgoal by (rule unit_stream_laws)
  subgoal by (rule code_point_laws)
  subgoal by (rule code_point_laws)
  subgoal by (rule code_point_advance_code_point_ok)
  subgoal by (rule code_point_backwards_keeps_ok)
  subgoal by (rule code_point_laws)
  subgoal by (rule code_point_peek_eq)
  subgoal by (rule code_point_peek_eq)
  subgoal by (rule two_byte_slice_laws)
  subgoal by (rule two_byte_slice_laws)
  subgoal by (simp only: code_point_iter_slice_def unit_stream_laws(8) slice_iterators_end)
  subgoal by (rule unit_stream_laws(7)) simp_all
  subgoal by (rule cp_after_EOF)
  subgoal by (rule cp_before_EOF)
  subgoal by (auto simp: cp_step_def pair_at_def)
  done

text \<open>
  The backward law is not kept: \<open>advance_backwards_code_point\<close> moves with
  \<open>advance_backwards_n\<close> and then once more.  One code point from the start of the input it reads
  before the buffer.
\<close>

lemma code_point_backwards_panics:
  assumes "stream_ok b s" and "pos s = 1" and "\<not> needs_surrogate_pair (current s)"
  shows "code_point_advance_backwards_code_point s = None"
  using assms
  by (simp add: code_point_advance_backwards_code_point_def code_point_advance_backwards_n_eq
      checked_sub_def)

text \<open>Further in, it skips a code point: with no surrogates around, two units at a time.\<close>

lemma code_point_backwards_skips:
  assumes "stream_ok b s" and "2 \<le> pos s" and "\<not> needs_surrogate_pair (current s)"
    and "\<not> is_low_surrogate_code_unit (b ! (pos s - 2))"
  shows "code_point_advance_backwards_code_point s =
     Some (s\<lparr>pos := pos s - 2, current := ucast (b ! (pos s - 2))\<rparr>)"
  using assms code_point_advance_backwards_n_eq [OF assms(1), of 1]
  by (auto simp: code_point_advance_backwards_code_point_def checked_sub_def stream_ok_def
      vec_get_def Let_def numeral_2_eq_2)

section \<open>New streams\<close>

lemma new_facing:
  "lexer_facing one_byte_ops (stream_ok b) (unit_after b) (unit_before b) True (one_byte_new b)"
  "lexer_facing code_unit_ops (code_unit_ok c src) (unit_after c) (unit_before c) True
     (code_unit_new c src)"
  by (auto simp: lexer_facing_def one_byte_new_def code_unit_new_def stream_ok_def code_unit_ok_def
      one_byte_ops_def code_unit_ops_def unit_after_def initial_current_def split: list.splits)

lemma code_point_new_ok: "stream_ok c (code_point_new c)"
  by (simp add: stream_ok_def code_point_new_def)

end
