(* ===== verification/Wtf8.thy ===== *)
theory Wtf8
  imports Unicode
begin

text \<open>
  \<open>common/wtf_8.rs\<close>: strings in the WTF-8 encoding (UTF-8 that also admits lone surrogates).
  A \<open>Wtf8String\<close> and a \<open>Wtf8Str\<close> are their byte buffers, so both are \<open>u8 list\<close>; the allocator
  parameters carry no data and are dropped.  The code point iterator is the remaining slice.

  The lemmas show that what is pushed is what is iterated, that pushing never panics on a
  Unicode code point, that iteration terminates on every byte string (it returns or panics),
  and that a string is reported well formed exactly when its code points pair up their
  surrogates.
\<close>

type_synonym wtf8_string = "u8 list"

section \<open>Building strings\<close>

definition new :: wtf8_string where
  "new = []"

definition from_bytes_unchecked :: "u8 list \<Rightarrow> wtf8_string" where
  "from_bytes_unchecked bytes = bytes"

text \<open>\<open>push\<close>, with \<open>None\<close> for the panic of the encoder.\<close>

definition push :: "wtf8_string \<Rightarrow> u32 \<Rightarrow> wtf8_string option" where
  "push s c = do {
     (buf, byte_length) \<leftarrow> encode_utf8_codepoint [0, 0, 0, 0] c;
     Some (s @ take byte_length buf)
   }"

definition from_char_in :: "code_point \<Rightarrow> wtf8_string option" where
  "from_char_in c = do {
     (buf, byte_length) \<leftarrow> encode_utf8_codepoint [0, 0, 0, 0] c;
     Some (take byte_length buf)
   }"

definition from_code_point_in :: "u32 \<Rightarrow> wtf8_string option" where
  "from_code_point_in c = push new c"

definition push_wtf8_str :: "wtf8_string \<Rightarrow> wtf8_string \<Rightarrow> wtf8_string" where
  "push_wtf8_str s t = s @ t"

text \<open>\<open>Vec::truncate\<close>: no effect when the new length is not smaller.\<close>

definition truncate :: "wtf8_string \<Rightarrow> nat \<Rightarrow> wtf8_string" where
  "truncate s new_length = take new_length s"

fun push_all :: "wtf8_string \<Rightarrow> u32 list \<Rightarrow> wtf8_string option" where
  "push_all s [] = Some s"
| "push_all s (c # cs) = do { s' \<leftarrow> push s c; push_all s' cs }"

section \<open>Iterating\<close>

text \<open>
  \<open>Wtf8CodePointsIterator::next\<close>: the item and the iterator after it; \<open>None\<close> is the panic on
  bytes that are not WTF-8.
\<close>

definition wtf8_next :: "u8 list \<Rightarrow> (u32 option \<times> u8 list) option" where
  "wtf8_next buf =
     (if buf = [] then Some (None, buf)
      else let first_byte = hd buf in
        if is_ascii (ucast first_byte) then Some (Some (ucast first_byte), drop 1 buf)
        else case decode_wtf8_codepoint buf of
               None \<Rightarrow> None
             | Some (Inr (c, byte_length)) \<Rightarrow> Some (Some c, drop byte_length buf)
             | Some (Inl _) \<Rightarrow> None)"

lemma wtf8_next_shrinks:
  "wtf8_next buf = Some (Some c, rest) \<Longrightarrow> length rest < length buf"
  by (auto simp: wtf8_next_def decode_wtf8_codepoint_def Let_def
      split: if_splits option.splits sum.splits)

function iter_code_points :: "u8 list \<Rightarrow> u32 list option" where
  "iter_code_points buf =
     (case wtf8_next buf of
        None \<Rightarrow> None
      | Some (None, _) \<Rightarrow> Some []
      | Some (Some c, rest) \<Rightarrow> map_option (Cons c) (iter_code_points rest))"
  by pat_completeness auto
termination
  by (relation "measure length") (auto dest: wtf8_next_shrinks)

declare iter_code_points.simps [simp del]

text \<open>
  \<open>is_well_formed\<close>: the loop over the iterator, which stops at the first unpaired surrogate.
\<close>

function is_well_formed :: "wtf8_string \<Rightarrow> bool option" where
  "is_well_formed buf =
     (case wtf8_next buf of
        None \<Rightarrow> None
      | Some (None, _) \<Rightarrow> Some True
      | Some (Some c, rest) \<Rightarrow>
          if is_surrogate_code_point c then
            if is_high_surrogate_code_point c then
              (case wtf8_next rest of
                 None \<Rightarrow> None
               | Some (None, _) \<Rightarrow> Some False
               | Some (Some d, rest') \<Rightarrow>
                   if is_low_surrogate_code_point d then is_well_formed rest' else Some False)
            else Some False
          else is_well_formed rest)"
  by pat_completeness auto
termination
  by (relation "measure length") (auto dest!: wtf8_next_shrinks)

declare is_well_formed.simps [simp del]

section \<open>Pushing and iterating\<close>

lemma push_eq: "c \<le> MAX_CODE_POINT \<Longrightarrow> push s c = Some (s @ utf8_bytes c)"
  using length_utf8_bytes_le [of c] by (simp add: push_def encode_utf8_codepoint_eq)

lemma push_all_eq:
  "\<forall>c \<in> set cs. c \<le> MAX_CODE_POINT \<Longrightarrow> push_all s cs = Some (s @ concat (map utf8_bytes cs))"
  by (induction cs arbitrary: s) (simp_all add: push_eq)

lemma wtf8_next_utf8_bytes:
  assumes "c \<le> MAX_CODE_POINT"
  shows "wtf8_next (utf8_bytes c @ rest) = Some (Some c, rest)"
proof (cases "is_ascii c")
  case True
  then have "ucast (ucast c :: u8) = c"
    by (simp add: word_unat_eq_iff unat_ucast_mod is_ascii_def word_less_nat_alt)
  with True show ?thesis
    by (simp add: wtf8_next_def utf8_bytes_def is_ascii_def)
next
  case False
  have "\<not> is_ascii (ucast (hd (utf8_bytes c @ rest)))"
    by (rule hd_utf8_bytes_not_ascii [OF False assms])
  moreover have "utf8_bytes c \<noteq> []"
    by (simp add: utf8_bytes_def)
  ultimately show ?thesis
    by (simp add: wtf8_next_def decode_utf8_bytes [OF False assms] Let_def)
qed

lemma iter_code_points_utf8_bytes:
  assumes "\<forall>c \<in> set cs. c \<le> MAX_CODE_POINT"
  shows "iter_code_points (concat (map utf8_bytes cs) @ rest)
           = map_option ((@) cs) (iter_code_points rest)"
  using assms
proof (induction cs)
  case Nil
  then show ?case by (simp add: option.map_ident_strong)
next
  case (Cons c cs)
  then show ?case
    by (subst iter_code_points.simps)
      (simp add: wtf8_next_utf8_bytes option.map_comp comp_def, cases "iter_code_points rest", auto)
qed

lemma iter_code_points_Nil [simp]: "iter_code_points [] = Some []"
  by (subst iter_code_points.simps) (simp add: wtf8_next_def)

text \<open>The code points whose surrogates all come in pairs, a high one before a low one.\<close>

fun surrogates_paired :: "u32 list \<Rightarrow> bool" where
  "surrogates_paired [] = True"
| "surrogates_paired [c] = (\<not> is_surrogate_code_point c)"
| "surrogates_paired (c # d # cs) =
     (if is_surrogate_code_point c
      then is_high_surrogate_code_point c \<and> is_low_surrogate_code_point d \<and> surrogates_paired cs
      else surrogates_paired (d # cs))"

lemma is_well_formed_utf8_bytes:
  "\<forall>c \<in> set cs. c \<le> MAX_CODE_POINT \<Longrightarrow>
     is_well_formed (concat (map utf8_bytes cs)) = Some (surrogates_paired cs)"
proof (induction cs rule: surrogates_paired.induct)
  case 1
  show ?case by (subst is_well_formed.simps) (simp add: wtf8_next_def)
next
  case (2 c)
  then show ?case
    using wtf8_next_utf8_bytes [of c "[]"]
    by (subst is_well_formed.simps) (auto simp: wtf8_next_def is_well_formed.simps [of "[]"])
next
  case (3 c d cs)
  then show ?case
    by (subst is_well_formed.simps) (auto simp: wtf8_next_utf8_bytes)
qed

end
