(* ===== verification/Regexp_Ast.thy ===== *)
theory Regexp_Ast
  imports Wtf8
begin

text \<open>
  \<open>parser/regexp.rs\<close>: the syntax tree of a regular expression.  The structs of the source that
  contain terms are single-constructor datatypes over the type of terms, and \<open>regexp_term\<close> is
  nested through them.  Strings are WTF-8 byte sequences.  \<open>UnicodeProperty\<close> comes with the ICU
  tables and is the type parameter \<open>'p\<close>.  The bounds of a quantifier are \<open>u64\<close> values that the
  compiler only compares and subtracts under a check, so they are natural numbers.

  Lemmas: what setting and clearing modifier flags does to each flag.
\<close>

section \<open>Flags\<close>

type_synonym regexp_flags = u8

definition HAS_INDICES :: regexp_flags where "HAS_INDICES = push_bit 0 1"
definition GLOBAL :: regexp_flags where "GLOBAL = push_bit 1 1"
definition IGNORE_CASE :: regexp_flags where "IGNORE_CASE = push_bit 2 1"
definition MULTILINE :: regexp_flags where "MULTILINE = push_bit 3 1"
definition DOT_ALL :: regexp_flags where "DOT_ALL = push_bit 4 1"
definition UNICODE_AWARE :: regexp_flags where "UNICODE_AWARE = push_bit 5 1"
definition UNICODE_SETS :: regexp_flags where "UNICODE_SETS = push_bit 6 1"
definition STICKY :: regexp_flags where "STICKY = push_bit 7 1"

lemmas flag_defs = HAS_INDICES_def GLOBAL_def IGNORE_CASE_def MULTILINE_def DOT_ALL_def
  UNICODE_AWARE_def UNICODE_SETS_def STICKY_def

text \<open>\<open>bitflags\<close>: \<open>contains\<close> and \<open>is_empty\<close>.\<close>

definition flags_contains :: "regexp_flags \<Rightarrow> regexp_flags \<Rightarrow> bool" where
  "flags_contains fs f \<longleftrightarrow> fs AND f = f"

definition flags_is_empty :: "regexp_flags \<Rightarrow> bool" where
  "flags_is_empty fs \<longleftrightarrow> fs = 0"

definition has_indices :: "regexp_flags \<Rightarrow> bool" where
  "has_indices fs = flags_contains fs HAS_INDICES"

definition is_global :: "regexp_flags \<Rightarrow> bool" where
  "is_global fs = flags_contains fs GLOBAL"

definition is_case_insensitive :: "regexp_flags \<Rightarrow> bool" where
  "is_case_insensitive fs = flags_contains fs IGNORE_CASE"

definition is_multiline :: "regexp_flags \<Rightarrow> bool" where
  "is_multiline fs = flags_contains fs MULTILINE"

definition is_dot_all :: "regexp_flags \<Rightarrow> bool" where
  "is_dot_all fs = flags_contains fs DOT_ALL"

definition has_simple_unicode_flag :: "regexp_flags \<Rightarrow> bool" where
  "has_simple_unicode_flag fs = flags_contains fs UNICODE_AWARE"

definition has_unicode_sets_flag :: "regexp_flags \<Rightarrow> bool" where
  "has_unicode_sets_flag fs = flags_contains fs UNICODE_SETS"

definition has_any_unicode_flag :: "regexp_flags \<Rightarrow> bool" where
  "has_any_unicode_flag fs \<longleftrightarrow> flags_contains fs UNICODE_AWARE \<or> flags_contains fs UNICODE_SETS"

definition is_sticky :: "regexp_flags \<Rightarrow> bool" where
  "is_sticky fs = flags_contains fs STICKY"

lemma contains_bit:
  assumes "n < 8"
  shows "flags_contains fs (push_bit n 1) \<longleftrightarrow> bit fs n"
proof -
  have "fs AND push_bit n 1 = (if bit fs n then push_bit n 1 else 0)"
    by (intro bit_word_eqI) (auto simp: bit_simps)
  moreover have "bit (push_bit n 1 :: regexp_flags) n" using assms by (simp add: bit_simps)
  then have "push_bit n 1 \<noteq> (0 :: regexp_flags)" using assms by auto
  ultimately show ?thesis by (simp add: flags_contains_def)
qed

text \<open>The modifiers of a group, \<open>(current | positive) & !negative\<close>, on one flag.\<close>

lemma modified_flag:
  assumes "n < 8"
  shows "flags_contains ((fs OR pos) AND NOT neg) (push_bit n 1) \<longleftrightarrow>
     (flags_contains fs (push_bit n 1) \<or> flags_contains pos (push_bit n 1))
       \<and> \<not> flags_contains neg (push_bit n 1)"
  using assms by (simp only: contains_bit) (simp add: bit_simps)

section \<open>Terms\<close>

type_synonym capture_group_index = u32

datatype assertion = Start | End | WordBoundary | NotWordBoundary

datatype class_expression_type = Union | Intersection | Difference

datatype string_disjunction = StringDisjunction (string_alternatives: "wtf8_string list")

datatype 'r character_class =
  CharacterClass (expression_type: class_expression_type) (is_inverted: bool) (operands: "'r list")

datatype 'p class_range =
    Single u32
  | Range u32 u32
  | Digit
  | NotDigit
  | Word
  | NotWord
  | Whitespace
  | NotWhitespace
  | UnicodeProperty 'p
  | NotUnicodeProperty 'p
  | NestedClass "'p class_range character_class"
  | StringDisjunctionRange string_disjunction

datatype 't alternative = Alternative (terms: "'t list")

datatype 't disjunction = Disjunction (alternatives: "'t alternative list")

datatype 't quantifier =
  Quantifier (quantifier_term: 't) (min_count: nat) (max_count: "nat option") (is_greedy: bool)

datatype 't capture_group =
  CaptureGroup (group_name: "wtf8_string option") (group_index: capture_group_index)
    (group_disjunction: "'t disjunction")

datatype 't anonymous_group =
  AnonymousGroup (anonymous_disjunction: "'t disjunction") (positive_modifiers: regexp_flags)
    (negative_modifiers: regexp_flags)

datatype 't lookaround =
  Lookaround (lookaround_is_ahead: bool) (lookaround_is_positive: bool)
    (lookaround_disjunction: "'t disjunction")

text \<open>
  A back reference holds the type \<open>'r\<close>: the index of its group in a finished tree, the address of
  its node while the parser can still fill in the index.
\<close>

datatype ('p, 'r) raw_term =
    Literal wtf8_string
  | Wildcard
  | QuantifierTerm "('p, 'r) raw_term quantifier"
  | AssertionTerm assertion
  | LookaroundTerm "('p, 'r) raw_term lookaround"
  | CaptureGroupTerm "('p, 'r) raw_term capture_group"
  | AnonymousGroupTerm "('p, 'r) raw_term anonymous_group"
  | CharacterClassTerm "'p class_range character_class"
  | Backreference 'r

type_synonym 'p regexp_term = "('p, capture_group_index) raw_term"

record 'p regexp =
  regexp_disjunction :: "'p regexp_term disjunction"
  regexp_flags :: regexp_flags
  regexp_has_duplicate_named_capture_groups :: bool
  regexp_capture_groups :: "wtf8_string option list"

end
