(* ===== verification/Regexp_Instr.thy ===== *)
theory Regexp_Instr
  imports Prelude
begin

text \<open>
  \<open>runtime/regexp/instruction.rs\<close>: the bytecode of the regular expression engine.  An
  instruction is a sequence of 32-bit words; the low byte of the first word is the opcode, its
  upper bytes can hold packed operands.  \<open>opcode\<close> is the enumeration in the source's order,
  \<open>instr\<close> an instruction with its operands, \<open>encode\<close> what the \<open>write\<close> functions push and
  \<open>decode_instr\<close> what the opcode match with its casts and accessors reads.  The reads are unsafe
  in the source: \<open>None\<close> is undefined behaviour (a word past the buffer, or a byte that is no
  opcode).

  The lemmas show that decoding inverts encoding wherever the instruction lies in a buffer, and
  that the instruction iterator visits exactly the instructions that were written.
\<close>

datatype opcode =
    OpLiteral | OpWildcard | OpWildcardNoNewline | OpJump | OpBranch | OpAccept | OpFail
  | OpMarkCapturePoint | OpClearCapture | OpProgress | OpLoop | OpAssertStart | OpAssertEnd
  | OpAssertStartOrNewline | OpAssertEndOrNewline | OpWordBoundaryMoveToPrevious
  | OpAssertWordBoundary | OpAssertNotWordBoundary | OpBackreference | OpConsumeIfTrue
  | OpConsumeIfFalse | OpCompareEquals | OpCompareBetween | OpLookaround

definition all_opcodes :: "opcode list" where
  "all_opcodes =
     [OpLiteral, OpWildcard, OpWildcardNoNewline, OpJump, OpBranch, OpAccept, OpFail,
      OpMarkCapturePoint, OpClearCapture, OpProgress, OpLoop, OpAssertStart, OpAssertEnd,
      OpAssertStartOrNewline, OpAssertEndOrNewline, OpWordBoundaryMoveToPrevious,
      OpAssertWordBoundary, OpAssertNotWordBoundary, OpBackreference, OpConsumeIfTrue,
      OpConsumeIfFalse, OpCompareEquals, OpCompareBetween, OpLookaround]"

text \<open>\<open>#[repr(u8)]\<close>: the discriminant is the position in the enumeration.\<close>

fun opcode_index :: "opcode \<Rightarrow> nat" where
  "opcode_index OpLiteral = 0"
| "opcode_index OpWildcard = 1"
| "opcode_index OpWildcardNoNewline = 2"
| "opcode_index OpJump = 3"
| "opcode_index OpBranch = 4"
| "opcode_index OpAccept = 5"
| "opcode_index OpFail = 6"
| "opcode_index OpMarkCapturePoint = 7"
| "opcode_index OpClearCapture = 8"
| "opcode_index OpProgress = 9"
| "opcode_index OpLoop = 10"
| "opcode_index OpAssertStart = 11"
| "opcode_index OpAssertEnd = 12"
| "opcode_index OpAssertStartOrNewline = 13"
| "opcode_index OpAssertEndOrNewline = 14"
| "opcode_index OpWordBoundaryMoveToPrevious = 15"
| "opcode_index OpAssertWordBoundary = 16"
| "opcode_index OpAssertNotWordBoundary = 17"
| "opcode_index OpBackreference = 18"
| "opcode_index OpConsumeIfTrue = 19"
| "opcode_index OpConsumeIfFalse = 20"
| "opcode_index OpCompareEquals = 21"
| "opcode_index OpCompareBetween = 22"
| "opcode_index OpLookaround = 23"

definition opcode_from_byte :: "u8 \<Rightarrow> opcode option" where
  "opcode_from_byte b =
     (if unat b < length all_opcodes then Some (all_opcodes ! unat b) else None)"

definition opcode_word :: "opcode \<Rightarrow> u32" where
  "opcode_word op = word_of_nat (opcode_index op)"

text \<open>\<open>OpCode::size\<close>, in words.\<close>

fun opcode_size :: "opcode \<Rightarrow> nat" where
  "opcode_size OpJump = 2"
| "opcode_size OpBranch = 3"
| "opcode_size OpMarkCapturePoint = 2"
| "opcode_size OpClearCapture = 2"
| "opcode_size OpProgress = 2"
| "opcode_size OpLoop = 4"
| "opcode_size OpBackreference = 2"
| "opcode_size OpCompareBetween = 2"
| "opcode_size OpLookaround = 2"
| "opcode_size _ = 1"

section \<open>Instructions\<close>

datatype instr =
    ILiteral (code_point: u32)
  | IWildcard
  | IWildcardNoNewline
  | IJump (target: u32)
  | IBranch (first_branch: u32) (second_branch: u32)
  | IAccept
  | IFail
  | IMarkCapturePoint (capture_point_index: u32)
  | IClearCapture (clear_capture_index: u32)
  | IProgress (progress_index: u32)
  | ILoop (loop_register_index: u32) (loop_max_value: u32) (end_branch: u32)
  | IAssertStart
  | IAssertEnd
  | IAssertStartOrNewline
  | IAssertEndOrNewline
  | IWordBoundaryMoveToPrevious
  | IAssertWordBoundary
  | IAssertNotWordBoundary
  | IBackreference (is_case_insensitive_ref: bool) (capture_group_index: u32)
  | IConsumeIfTrue
  | IConsumeIfFalse
  | ICompareEquals (compare_code_point: u32)
  | ICompareBetween (start_code_point: u32) (end_code_point: u32)
  | ILookaround (is_ahead: bool) (is_positive: bool) (body_branch: u32)

fun opcode_of :: "instr \<Rightarrow> opcode" where
  "opcode_of (ILiteral _) = OpLiteral"
| "opcode_of IWildcard = OpWildcard"
| "opcode_of IWildcardNoNewline = OpWildcardNoNewline"
| "opcode_of (IJump _) = OpJump"
| "opcode_of (IBranch _ _) = OpBranch"
| "opcode_of IAccept = OpAccept"
| "opcode_of IFail = OpFail"
| "opcode_of (IMarkCapturePoint _) = OpMarkCapturePoint"
| "opcode_of (IClearCapture _) = OpClearCapture"
| "opcode_of (IProgress _) = OpProgress"
| "opcode_of (ILoop _ _ _) = OpLoop"
| "opcode_of IAssertStart = OpAssertStart"
| "opcode_of IAssertEnd = OpAssertEnd"
| "opcode_of IAssertStartOrNewline = OpAssertStartOrNewline"
| "opcode_of IAssertEndOrNewline = OpAssertEndOrNewline"
| "opcode_of IWordBoundaryMoveToPrevious = OpWordBoundaryMoveToPrevious"
| "opcode_of IAssertWordBoundary = OpAssertWordBoundary"
| "opcode_of IAssertNotWordBoundary = OpAssertNotWordBoundary"
| "opcode_of (IBackreference _ _) = OpBackreference"
| "opcode_of IConsumeIfTrue = OpConsumeIfTrue"
| "opcode_of IConsumeIfFalse = OpConsumeIfFalse"
| "opcode_of (ICompareEquals _) = OpCompareEquals"
| "opcode_of (ICompareBetween _ _) = OpCompareBetween"
| "opcode_of (ILookaround _ _ _) = OpLookaround"

abbreviation instr_size :: "instr \<Rightarrow> nat" where
  "instr_size i \<equiv> opcode_size (opcode_of i)"

text \<open>The words that the \<open>write\<close> functions push.\<close>

definition opcode_with_u24_operand :: "opcode \<Rightarrow> u32 \<Rightarrow> u32" where
  "opcode_with_u24_operand op operand = opcode_word op OR push_bit 8 operand"

fun encode :: "instr \<Rightarrow> u32 list" where
  "encode (ILiteral c) = [opcode_with_u24_operand OpLiteral c]"
| "encode (IJump t) = [opcode_word OpJump, t]"
| "encode (IBranch a b) = [opcode_word OpBranch, a, b]"
| "encode (IMarkCapturePoint i) = [opcode_word OpMarkCapturePoint, i]"
| "encode (IClearCapture i) = [opcode_word OpClearCapture, i]"
| "encode (IProgress i) = [opcode_word OpProgress, i]"
| "encode (ILoop r m e) = [opcode_word OpLoop, r, m, e]"
| "encode (IBackreference ci g) =
     [if ci then opcode_word OpBackreference OR push_bit 8 1 else opcode_word OpBackreference, g]"
| "encode (ICompareEquals c) = [opcode_with_u24_operand OpCompareEquals c]"
| "encode (ICompareBetween s e) = [opcode_with_u24_operand OpCompareBetween s, e]"
| "encode (ILookaround ahead positive b) =
     (let w = opcode_word OpLookaround;
          w = (if ahead then w OR push_bit 8 1 else w);
          w = (if positive then w OR push_bit 16 1 else w)
      in [w, b])"
| "encode i = [opcode_word (opcode_of i)]"

section \<open>Reading instructions\<close>

definition read_word :: "u32 list \<Rightarrow> nat \<Rightarrow> u32 option" where
  "read_word m p = (if p < length m then Some (m ! p) else None)"

definition opcode_at :: "u32 list \<Rightarrow> nat \<Rightarrow> opcode option" where
  "opcode_at m p = do { w \<leftarrow> read_word m p; opcode_from_byte (ucast w) }"

definition packed_u24 :: "u32 \<Rightarrow> u32" where
  "packed_u24 w = drop_bit 8 w"

definition packed_u8 :: "u32 \<Rightarrow> nat \<Rightarrow> u8" where
  "packed_u8 w index = ucast (drop_bit (8 * index) w)"

fun decode_operands :: "opcode \<Rightarrow> u32 list \<Rightarrow> nat \<Rightarrow> instr option" where
  "decode_operands OpLiteral m p = do { w \<leftarrow> read_word m p; Some (ILiteral (packed_u24 w)) }"
| "decode_operands OpWildcard m p = Some IWildcard"
| "decode_operands OpWildcardNoNewline m p = Some IWildcardNoNewline"
| "decode_operands OpJump m p = do { t \<leftarrow> read_word m (p + 1); Some (IJump t) }"
| "decode_operands OpBranch m p =
     do { a \<leftarrow> read_word m (p + 1); b \<leftarrow> read_word m (p + 2); Some (IBranch a b) }"
| "decode_operands OpAccept m p = Some IAccept"
| "decode_operands OpFail m p = Some IFail"
| "decode_operands OpMarkCapturePoint m p =
     do { i \<leftarrow> read_word m (p + 1); Some (IMarkCapturePoint i) }"
| "decode_operands OpClearCapture m p = do { i \<leftarrow> read_word m (p + 1); Some (IClearCapture i) }"
| "decode_operands OpProgress m p = do { i \<leftarrow> read_word m (p + 1); Some (IProgress i) }"
| "decode_operands OpLoop m p = do {
     r \<leftarrow> read_word m (p + 1);
     x \<leftarrow> read_word m (p + 2);
     e \<leftarrow> read_word m (p + 3);
     Some (ILoop r x e)
   }"
| "decode_operands OpAssertStart m p = Some IAssertStart"
| "decode_operands OpAssertEnd m p = Some IAssertEnd"
| "decode_operands OpAssertStartOrNewline m p = Some IAssertStartOrNewline"
| "decode_operands OpAssertEndOrNewline m p = Some IAssertEndOrNewline"
| "decode_operands OpWordBoundaryMoveToPrevious m p = Some IWordBoundaryMoveToPrevious"
| "decode_operands OpAssertWordBoundary m p = Some IAssertWordBoundary"
| "decode_operands OpAssertNotWordBoundary m p = Some IAssertNotWordBoundary"
| "decode_operands OpBackreference m p = do {
     w \<leftarrow> read_word m p;
     g \<leftarrow> read_word m (p + 1);
     Some (IBackreference (packed_u8 w 1 \<noteq> 0) g)
   }"
| "decode_operands OpConsumeIfTrue m p = Some IConsumeIfTrue"
| "decode_operands OpConsumeIfFalse m p = Some IConsumeIfFalse"
| "decode_operands OpCompareEquals m p =
     do { w \<leftarrow> read_word m p; Some (ICompareEquals (packed_u24 w)) }"
| "decode_operands OpCompareBetween m p = do {
     w \<leftarrow> read_word m p;
     e \<leftarrow> read_word m (p + 1);
     Some (ICompareBetween (packed_u24 w) e)
   }"
| "decode_operands OpLookaround m p = do {
     w \<leftarrow> read_word m p;
     b \<leftarrow> read_word m (p + 1);
     Some (ILookaround (packed_u8 w 1 \<noteq> 0) (packed_u8 w 2 \<noteq> 0) b)
   }"

definition decode_instr :: "u32 list \<Rightarrow> nat \<Rightarrow> instr option" where
  "decode_instr m p = do { op \<leftarrow> opcode_at m p; decode_operands op m p }"

lemma opcode_size_pos: "0 < opcode_size op"
  by (cases op) simp_all

text \<open>
  \<open>InstructionIterator\<close> and \<open>InstructionIteratorMut\<close>: the offsets of the instructions they hand
  out from \<open>p\<close> on.
\<close>

function iter_offsets :: "u32 list \<Rightarrow> nat \<Rightarrow> nat list option" where
  "iter_offsets m p =
     (if p \<ge> length m then Some []
      else case opcode_at m p of
        None \<Rightarrow> None
      | Some op \<Rightarrow> map_option ((#) p) (iter_offsets m (p + opcode_size op)))"
  by pat_completeness auto
termination
  using opcode_size_pos by (relation "measure (\<lambda>(m, p). length m - p)") (auto simp: diff_less_mono2)

declare iter_offsets.simps [simp del]

section \<open>Decoding inverts encoding\<close>

text \<open>Operands that share a word with the opcode must fit in 24 bits.\<close>

fun operands_fit :: "instr \<Rightarrow> bool" where
  "operands_fit (ILiteral c) \<longleftrightarrow> c < 0x1000000"
| "operands_fit (ICompareEquals c) \<longleftrightarrow> c < 0x1000000"
| "operands_fit (ICompareBetween s e) \<longleftrightarrow> s < 0x1000000"
| "operands_fit _ \<longleftrightarrow> True"

lemma length_encode [simp]: "length (encode i) = instr_size i"
  by (cases i) (simp_all add: Let_def)

lemma encode_nonempty [simp]: "encode i \<noteq> []"
  by (metis length_encode length_greater_0_conv opcode_size_pos)

lemma opcode_index_less: "opcode_index op < 24"
  by (cases op) simp_all

lemma all_opcodes_nth: "all_opcodes ! opcode_index op = op"
  by (cases op) (simp_all add: all_opcodes_def)

lemma unat_opcode_word: "unat (opcode_word op) = opcode_index op"
  using opcode_index_less [of op] by (simp add: opcode_word_def unat_of_nat_small)

lemma opcode_from_byte_word:
  assumes "unat (ucast w :: u8) = opcode_index op"
  shows "opcode_from_byte (ucast (w :: u32)) = Some op"
  using assms opcode_index_less [of op]
  by (simp add: opcode_from_byte_def all_opcodes_nth) (simp add: all_opcodes_def)

lemma u24_word:
  assumes "c < 0x1000000"
  shows "packed_u24 (opcode_with_u24_operand op c) = c"
    and "unat (ucast (opcode_with_u24_operand op c) :: u8) = opcode_index op"
proof -
  have c: "unat c < 2 ^ 24" using assms by (simp add: word_less_nat_alt)
  have "opcode_with_u24_operand op c = push_bit 8 c OR opcode_word op"
    by (simp add: opcode_with_u24_operand_def or.commute)
  then have u: "unat (opcode_with_u24_operand op c) = unat c * 256 + opcode_index op"
    using unat_push_or_small [of "opcode_word op" 8 c] c opcode_index_less [of op]
    by (simp add: unat_opcode_word)
  show "packed_u24 (opcode_with_u24_operand op c) = c"
    using opcode_index_less [of op]
    by (simp add: packed_u24_def word_unat_eq_iff unat_drop_bit u)
  show "unat (ucast (opcode_with_u24_operand op c) :: u8) = opcode_index op"
    using opcode_index_less [of op] by (simp add: unat_ucast_mod u)
qed

lemma opcode_word_byte: "unat (ucast (opcode_word op) :: u8) = opcode_index op"
  using opcode_index_less [of op] by (simp add: unat_ucast_mod unat_opcode_word)

lemma read_word_append:
  "read_word (xs @ ys) (length xs) = (case ys of [] \<Rightarrow> None | y # _ \<Rightarrow> Some y)"
  "k < length ys \<Longrightarrow> read_word (xs @ ys) (length xs + k) = Some (ys ! k)"
  by (auto simp: read_word_def nth_append split: list.splits)

lemma read_word_encode:
  "k < instr_size i \<Longrightarrow> read_word (xs @ encode i @ ys) (length xs + k) = Some (encode i ! k)"
  using read_word_append(2) [of k "encode i @ ys" xs] by (simp add: nth_append)

lemma encode_hd_byte:
  assumes "operands_fit i"
  shows "unat (ucast (hd (encode i)) :: u8) = opcode_index (opcode_of i)"
  using assms
  by (cases i) (simp_all add: opcode_word_byte u24_word opcode_word_def Let_def)

lemma opcode_at_encode:
  assumes "operands_fit i"
  shows "opcode_at (xs @ encode i @ ys) (length xs) = Some (opcode_of i)"
proof -
  have "read_word (xs @ encode i @ ys) (length xs) = Some (hd (encode i))"
    using read_word_encode [of 0 i xs ys] opcode_size_pos by (simp add: hd_conv_nth)
  then show ?thesis
    using opcode_from_byte_word [OF encode_hd_byte [OF assms]] by (simp add: opcode_at_def)
qed

lemma decode_encode:
  assumes "operands_fit i"
  shows "decode_instr (xs @ encode i @ ys) (length xs) = Some i"
proof -
  have "decode_operands (opcode_of i) (xs @ encode i @ ys) (length xs) = Some i"
    using assms read_word_encode [of 0 i xs ys] read_word_encode [of 1 i xs ys]
      read_word_encode [of 2 i xs ys] read_word_encode [of 3 i xs ys]
    by (cases i) (simp_all add: u24_word packed_u8_def Let_def opcode_word_def)
  then show ?thesis using opcode_at_encode [OF assms] by (simp add: decode_instr_def)
qed

section \<open>Programs\<close>

text \<open>A list of instructions, its words, and where its \<open>k\<close>-th instruction starts.\<close>

definition flat :: "instr list \<Rightarrow> u32 list" where
  "flat is = concat (map encode is)"

definition offset :: "instr list \<Rightarrow> nat \<Rightarrow> nat" where
  "offset is k = length (flat (take k is))"

lemma flat_simps [simp]:
  "flat [] = []"
  "flat (i # is) = encode i @ flat is"
  "flat (is @ js) = flat is @ flat js"
  by (simp_all add: flat_def)

lemma offset_0 [simp]: "offset is 0 = 0"
  by (simp add: offset_def)

lemma offset_Suc: "k < length is \<Longrightarrow> offset is (Suc k) = offset is k + instr_size (is ! k)"
  by (simp add: offset_def take_Suc_conv_app_nth)

lemma offset_length: "offset is (length is) = length (flat is)"
  by (simp add: offset_def)

lemma offset_append: "offset (is @ js) (length is + k) = length (flat is) + offset js k"
  by (simp add: offset_def)

lemma flat_split_at:
  "k < length is \<Longrightarrow> flat is = flat (take k is) @ encode (is ! k) @ flat (drop (Suc k) is)"
  by (metis append_Cons append_take_drop_id flat_simps(2,3) Cons_nth_drop_Suc)

lemma decode_at_offset:
  assumes "k < length is" and "operands_fit (is ! k)"
  shows "decode_instr (flat is) (offset is k) = Some (is ! k)"
  using decode_encode [OF assms(2), of "flat (take k is)" "flat (drop (Suc k) is)"]
  by (simp add: flat_split_at [OF assms(1)] offset_def)

lemma opcode_at_offset:
  assumes "k < length is" and "operands_fit (is ! k)"
  shows "opcode_at (flat is) (offset is k) = Some (opcode_of (is ! k))"
  using opcode_at_encode [OF assms(2), of "flat (take k is)" "flat (drop (Suc k) is)"]
  by (simp add: flat_split_at [OF assms(1)] offset_def)

lemma offset_less_length: "k < length is \<Longrightarrow> offset is k < length (flat is)"
  using opcode_size_pos [of "opcode_of (is ! k)"]
  by (subst flat_split_at) (auto simp: offset_def)

text \<open>The iterator visits the instructions that were written, and reads no other byte as one.\<close>

lemma iter_offsets_flat:
  assumes "\<forall>i \<in> set is. operands_fit i" and "k \<le> length is"
  shows "iter_offsets (flat is) (offset is k) = Some (map (offset is) [k..<length is])"
  using assms(2)
proof (induction "length is - k" arbitrary: k)
  case 0
  then have "k = length is" by simp
  then show ?case by (subst iter_offsets.simps) (simp add: offset_length)
next
  case (Suc n)
  then have k: "k < length is" by simp
  have "iter_offsets (flat is) (offset is (Suc k)) = Some (map (offset is) [Suc k..<length is])"
    using Suc k by simp
  then show ?case
    using k assms(1) offset_less_length [OF k] opcode_at_offset [OF k]
    by (subst iter_offsets.simps) (simp add: offset_Suc upt_conv_Cons)
qed

end
