(* ===== verification/Regexp_Matcher.thy ===== *)
theory Regexp_Matcher
  imports Lexer_Stream Regexp_Ast Regexp_Instr
begin

text \<open>
  \<open>runtime/regexp/matcher.rs\<close>: the backtracking engine that runs regular expression bytecode.
  \<open>engine\<close> is \<open>MatchEngine\<close>, without the compiled regular expression, which is constant and an
  argument here.  \<open>step\<close> is the body of the instruction loop for every instruction but
  \<open>Lookaround\<close>, which runs the loop itself on the engine; \<open>exec\<close> is the loop.  A regular expression
  can make the loop run forever, so \<open>exec\<close> has a budget of instructions; \<open>No_Fuel\<close> means the
  budget was used up.  The case mappings of ICU are parameters (\<open>icu_case\<close>).

  The direction of execution is a \<open>bool\<close>, \<open>True\<close> for forwards, as in the source.
\<close>

section \<open>The compiled regular expression\<close>

text \<open>The fields of \<open>CompiledRegExpObject\<close> that the engine reads.\<close>

record compiled_regexp =
  instructions :: "u32 list"
  compiled_flags :: regexp_flags
  has_named_capture_groups :: bool
  has_duplicate_named_capture_groups :: bool
  num_capture_groups :: nat
  compiled_num_progress_points :: nat
  compiled_num_loop_registers :: nat
  compiled_capture_groups :: "wtf8_string option list"

record icu_case =
  simple_fold :: "code_point \<Rightarrow> code_point"
  simple_uppercase :: "code_point \<Rightarrow> code_point"

section \<open>The engine\<close>

datatype backtrack_entry =
    RestoreState nat saved_lexer_stream_state
  | CapturePoint u32 u32
  | ProgressPoint u32 u32
  | LoopRegister u32 nat
  | RestoreBacktrackStack nat

text \<open>The top of the backtrack stack is the head of the list.\<close>

record 's engine =
  string_lexer :: 's
  instruction_index :: nat
  backtrack_stack :: "backtrack_entry list"
  capture_points :: "u32 list"
  progress_points :: "u32 list"
  loop_registers :: "nat list"
  compare_register :: bool
  word_boundary_register :: bool
  backtrack_stack_base :: nat

definition EMPTY_STRING_INDEX :: u32 where
  "EMPTY_STRING_INDEX = 0xFFFFFFFF"

definition new_engine :: "compiled_regexp \<Rightarrow> 's \<Rightarrow> 's engine" where
  "new_engine re s =
     \<lparr>string_lexer = s,
      instruction_index = 0,
      backtrack_stack = [],
      capture_points = replicate ((num_capture_groups re + 1) * 2) EMPTY_STRING_INDEX,
      progress_points = replicate (compiled_num_progress_points re) EMPTY_STRING_INDEX,
      loop_registers = replicate (compiled_num_loop_registers re) 0,
      compare_register = False,
      word_boundary_register = False,
      backtrack_stack_base = 0\<rparr>"

definition get_capture_point :: "'s engine \<Rightarrow> u32 \<Rightarrow> u32 option" where
  "get_capture_point e i = vec_get (capture_points e) (unat i)"

definition set_capture_point :: "'s engine \<Rightarrow> u32 \<Rightarrow> u32 \<Rightarrow> 's engine option" where
  "set_capture_point e i x =
     do { v \<leftarrow> vec_set (capture_points e) (unat i) x; Some (e\<lparr>capture_points := v\<rparr>) }"

definition get_progress_point :: "'s engine \<Rightarrow> u32 \<Rightarrow> u32 option" where
  "get_progress_point e i = vec_get (progress_points e) (unat i)"

definition set_progress_point :: "'s engine \<Rightarrow> u32 \<Rightarrow> u32 \<Rightarrow> 's engine option" where
  "set_progress_point e i x =
     do { v \<leftarrow> vec_set (progress_points e) (unat i) x; Some (e\<lparr>progress_points := v\<rparr>) }"

definition get_loop_register :: "'s engine \<Rightarrow> u32 \<Rightarrow> nat option" where
  "get_loop_register e i = vec_get (loop_registers e) (unat i)"

definition set_loop_register :: "'s engine \<Rightarrow> u32 \<Rightarrow> nat \<Rightarrow> 's engine option" where
  "set_loop_register e i x =
     do { v \<leftarrow> vec_set (loop_registers e) (unat i) x; Some (e\<lparr>loop_registers := v\<rparr>) }"

definition push_entry :: "backtrack_entry \<Rightarrow> 's engine \<Rightarrow> 's engine" where
  "push_entry b e = e\<lparr>backtrack_stack := b # backtrack_stack e\<rparr>"

definition push_backtrack_restore_state ::
  "('s, 'src) lexer_ops \<Rightarrow> 's engine \<Rightarrow> nat \<Rightarrow> 's engine" where
  "push_backtrack_restore_state lx e index =
     push_entry (RestoreState index (op_save lx (string_lexer e))) e"

definition push_capture_point :: "'s engine \<Rightarrow> u32 \<Rightarrow> u32 \<Rightarrow> 's engine option" where
  "push_capture_point e i x = do {
     old \<leftarrow> get_capture_point e i;
     set_capture_point (push_entry (CapturePoint i old) e) i x
   }"

definition push_progress_point :: "'s engine \<Rightarrow> u32 \<Rightarrow> u32 \<Rightarrow> 's engine option" where
  "push_progress_point e i x = do {
     old \<leftarrow> get_progress_point e i;
     set_progress_point (push_entry (ProgressPoint i old) e) i x
   }"

definition push_loop_register :: "'s engine \<Rightarrow> u32 \<Rightarrow> nat \<Rightarrow> 's engine option" where
  "push_loop_register e i x = do {
     old \<leftarrow> get_loop_register e i;
     set_loop_register (push_entry (LoopRegister i old) e) i x
   }"

section \<open>Backtracking\<close>

text \<open>\<open>backtrack_to_stack_size\<close>: pop down to a size, undoing register writes on the way.\<close>

definition undo_entry :: "backtrack_entry \<Rightarrow> 's engine \<Rightarrow> 's engine option" where
  "undo_entry b e =
     (case b of
        CapturePoint i x \<Rightarrow> set_capture_point e i x
      | ProgressPoint i x \<Rightarrow> set_progress_point e i x
      | LoopRegister i x \<Rightarrow> set_loop_register e i x
      | RestoreState _ _ \<Rightarrow> Some e
      | RestoreBacktrackStack _ \<Rightarrow> Some e)"

lemma undo_entry_stack:
  "undo_entry b e = Some e' \<Longrightarrow> backtrack_stack e' = backtrack_stack e"
  by (auto simp: undo_entry_def set_capture_point_def set_progress_point_def set_loop_register_def
      bind_eq_Some_conv split: backtrack_entry.splits)

function backtrack_to_stack_size :: "nat \<Rightarrow> 's engine \<Rightarrow> 's engine option" where
  "backtrack_to_stack_size n e =
     (case backtrack_stack e of
        [] \<Rightarrow> Some e
      | b # rest \<Rightarrow>
          if length (backtrack_stack e) > n
          then (case undo_entry b (e\<lparr>backtrack_stack := rest\<rparr>) of
            None \<Rightarrow> None
          | Some e' \<Rightarrow> backtrack_to_stack_size n e')
          else Some e)"
  by pat_completeness auto
termination
  by (relation "measure (\<lambda>(n, e). length (backtrack_stack e))") (auto dest: undo_entry_stack)

declare backtrack_to_stack_size.simps [simp del]

lemma backtrack_to_stack_size_length:
  "backtrack_to_stack_size n e = Some e' \<Longrightarrow> length (backtrack_stack e') \<le> length (backtrack_stack e)"
proof (induction n e rule: backtrack_to_stack_size.induct)
  case (1 n e)
  then show ?case
    by (subst (asm) (2) backtrack_to_stack_size.simps)
      (fastforce split: list.splits if_splits option.splits dest: undo_entry_stack)
qed

text \<open>
  \<open>backtrack\<close>: undo register writes until a saved state is found, which is restored (\<open>True\<close>), or
  the base of the current sub-execution is reached (\<open>False\<close>, the \<open>Err\<close> of the source).
\<close>

function backtrack :: "('s, 'src) lexer_ops \<Rightarrow> 's engine \<Rightarrow> (bool \<times> 's engine) option" where
  "backtrack lx e =
     (case backtrack_stack e of
        [] \<Rightarrow> Some (False, e)
      | b # rest \<Rightarrow>
          if length (backtrack_stack e) > backtrack_stack_base e
          then let e = e\<lparr>backtrack_stack := rest\<rparr> in
            (case b of
               RestoreState index saved \<Rightarrow>
                 Some (True, e\<lparr>instruction_index := index,
                   string_lexer := op_restore lx (string_lexer e) saved\<rparr>)
             | CapturePoint i x \<Rightarrow>
                 (case set_capture_point e i x of
                    None \<Rightarrow> None | Some e' \<Rightarrow> backtrack lx e')
             | ProgressPoint i x \<Rightarrow>
                 (case set_progress_point e i x of
                    None \<Rightarrow> None | Some e' \<Rightarrow> backtrack lx e')
             | LoopRegister i x \<Rightarrow>
                 (case set_loop_register e i x of
                    None \<Rightarrow> None | Some e' \<Rightarrow> backtrack lx e')
             | RestoreBacktrackStack n \<Rightarrow>
                 (case backtrack_to_stack_size n e of
                    None \<Rightarrow> None | Some e' \<Rightarrow> backtrack lx e'))
          else Some (False, e))"
  by pat_completeness auto
termination
  by (relation "measure (\<lambda>(lx, e). length (backtrack_stack e))")
    (auto simp: set_capture_point_def set_progress_point_def set_loop_register_def bind_eq_Some_conv
      dest: backtrack_to_stack_size_length)

declare backtrack.simps [simp del]

section \<open>Steps\<close>

datatype 's outcome =
    Stop bool "'s engine"   \<comment> \<open>return from the loop: \<open>Ok\<close> or \<open>Err\<close>\<close>
  | Next "'s engine"        \<comment> \<open>the next iteration of the loop\<close>

text \<open>\<open>self.backtrack()?\<close> followed by the rest of the match arm.\<close>

definition backtrack_or_stop ::
  "('s, 'src) lexer_ops \<Rightarrow> 's engine \<Rightarrow> ('s engine \<Rightarrow> 's engine) \<Rightarrow> 's outcome res" where
  "backtrack_or_stop lx e rest =
     res_bind (or_panic (backtrack lx e))
       (\<lambda>(found, e). Inr (if found then Next (rest e) else Stop False e))"

definition advance_instruction :: "instr \<Rightarrow> 's engine \<Rightarrow> 's engine" where
  "advance_instruction i e = e\<lparr>instruction_index := instruction_index e + instr_size i\<rparr>"

definition set_next_instruction :: "u32 \<Rightarrow> 's engine \<Rightarrow> 's engine" where
  "set_next_instruction t e = e\<lparr>instruction_index := unat t\<rparr>"

definition reset_compare_register :: "'s engine \<Rightarrow> 's engine" where
  "reset_compare_register e = e\<lparr>compare_register := False\<rparr>"

definition is_at_word_boundary :: "'s engine \<Rightarrow> bool" where
  "is_at_word_boundary e \<longleftrightarrow> compare_register e \<noteq> word_boundary_register e"

definition with_lexer :: "'s engine \<Rightarrow> 's option \<Rightarrow> 's engine res" where
  "with_lexer e s = res_bind (or_panic s) (\<lambda>s. Inr (e\<lparr>string_lexer := s\<rparr>))"

definition advance_code_point_in_direction ::
  "('s, 'src) lexer_ops \<Rightarrow> bool \<Rightarrow> 's engine \<Rightarrow> 's engine res" where
  "advance_code_point_in_direction lx d e =
     with_lexer e
       (if d then op_advance_code_point lx (string_lexer e)
        else op_advance_backwards_code_point lx (string_lexer e))"

definition code_point_before_current_pos ::
  "('s, 'src) lexer_ops \<Rightarrow> bool \<Rightarrow> 's engine \<Rightarrow> code_point option" where
  "code_point_before_current_pos lx d e =
     (if d then op_peek_prev_code_point lx (string_lexer e)
      else Some (op_current lx (string_lexer e)))"

definition code_point_after_current_pos ::
  "('s, 'src) lexer_ops \<Rightarrow> bool \<Rightarrow> 's engine \<Rightarrow> code_point option" where
  "code_point_after_current_pos lx d e =
     (if d then Some (op_current lx (string_lexer e))
      else op_peek_next_code_point lx (string_lexer e))"

definition no_advance_read_code_point_in_direction ::
  "('s, 'src) lexer_ops \<Rightarrow> bool \<Rightarrow> 's engine \<Rightarrow> 's engine res" where
  "no_advance_read_code_point_in_direction lx d e =
     with_lexer e
       (if d then op_advance_n lx (string_lexer e) 0
        else op_advance_backwards_n lx (string_lexer e) 0)"

text \<open>Consume a code point when the test holds, backtrack when it does not.\<close>

definition consume_if ::
  "('s, 'src) lexer_ops \<Rightarrow> bool \<Rightarrow> instr \<Rightarrow> bool \<Rightarrow> ('s engine \<Rightarrow> 's engine) \<Rightarrow> 's engine
     \<Rightarrow> 's outcome res" where
  "consume_if lx d i test rest e =
     (if test
      then res_bind (advance_code_point_in_direction lx d e)
        (\<lambda>e. Inr (Next (rest (advance_instruction i e))))
      else backtrack_or_stop lx e rest)"

definition advance_if ::
  "('s, 'src) lexer_ops \<Rightarrow> instr \<Rightarrow> bool \<Rightarrow> 's engine \<Rightarrow> 's outcome res" where
  "advance_if lx i test e =
     (if test then Inr (Next (advance_instruction i e)) else backtrack_or_stop lx e id)"

section \<open>Captures\<close>

definition get_valid_capture_bounds :: "'s engine \<Rightarrow> u32 \<Rightarrow> (u32 \<times> u32) option option" where
  "get_valid_capture_bounds e g = do {
     i \<leftarrow> checked_mul_u32 g 2;
     j \<leftarrow> checked_add_u32 i 1;
     s \<leftarrow> get_capture_point e i;
     t \<leftarrow> get_capture_point e j;
     Some (if s = EMPTY_STRING_INDEX \<or> t = EMPTY_STRING_INDEX then None else Some (s, t))
   }"

definition canonicalize :: "icu_case \<Rightarrow> code_point \<Rightarrow> bool \<Rightarrow> code_point" where
  "canonicalize icu c is_unicode_aware =
     (if is_unicode_aware then
        (case char_from_u32 c of None \<Rightarrow> c | Some ch \<Rightarrow> simple_fold icu ch)
      else
        (case char_from_u32 c of
           None \<Rightarrow> c
         | Some ch \<Rightarrow>
             (let uppercase_code_point = simple_uppercase icu ch in
              if uppercase_code_point < 128 \<and> c \<ge> 128 then c else uppercase_code_point)))"

text \<open>
  The most recent group with the given name that has a capture, looking at the groups
  \<open>i, i - 1, ..., 1\<close>.
\<close>

fun find_named_capture ::
  "compiled_regexp \<Rightarrow> 's engine \<Rightarrow> wtf8_string \<Rightarrow> nat \<Rightarrow> u32 option option" where
  "find_named_capture re e name 0 = Some None"
| "find_named_capture re e name (Suc i) = do {
     this_name \<leftarrow> vec_get (compiled_capture_groups re) i;
     if this_name = Some name then do {
       bounds \<leftarrow> get_valid_capture_bounds e (word_of_nat (Suc i));
       if bounds \<noteq> None then Some (Some (word_of_nat (Suc i)))
       else find_named_capture re e name i
     } else find_named_capture re e name i
   }"

definition resolve_capture_group :: "compiled_regexp \<Rightarrow> 's engine \<Rightarrow> u32 \<Rightarrow> u32 option" where
  "resolve_capture_group re e g =
     (if has_duplicate_named_capture_groups re then do {
        i \<leftarrow> checked_sub (unat g) 1;
        group_name \<leftarrow> vec_get (compiled_capture_groups re) i;
        (case group_name of
           Some name \<Rightarrow> do {
             found \<leftarrow> find_named_capture re e name (unat g);
             Some (case found of Some i \<Rightarrow> i | None \<Rightarrow> g)
           }
         | None \<Rightarrow> Some g)
      } else Some g)"

text \<open>
  The loop of a case insensitive back reference, over the code points of the captured slice in
  the direction of execution.
\<close>

fun match_canonicalized ::
  "('s, 'src) lexer_ops \<Rightarrow> icu_case \<Rightarrow> bool \<Rightarrow> bool \<Rightarrow> instr \<Rightarrow> code_point list \<Rightarrow> 's engine
     \<Rightarrow> 's outcome res" where
  "match_canonicalized lx icu unicode d i [] e = Inr (Next (advance_instruction i e))"
| "match_canonicalized lx icu unicode d i (c # cs) e =
     (if lexer_has_current lx (string_lexer e)
       \<and> canonicalize icu c unicode = canonicalize icu (op_current lx (string_lexer e)) unicode
      then res_bind (advance_code_point_in_direction lx d e)
        (\<lambda>e. match_canonicalized lx icu unicode d i cs e)
      else backtrack_or_stop lx e id)"

definition drain_slice ::
  "('s, 'src) lexer_ops \<Rightarrow> bool \<Rightarrow> code_unit_iterator \<Rightarrow> code_point list res" where
  "drain_slice lx d it =
     (case drain (if d then op_iter_next lx else op_iter_next_back lx) it of
        None \<Rightarrow> Inl UB | Some cs \<Rightarrow> Inr cs)"

definition execute_backreference ::
  "('s, 'src) lexer_ops \<Rightarrow> icu_case \<Rightarrow> compiled_regexp \<Rightarrow> bool \<Rightarrow> instr \<Rightarrow> bool \<Rightarrow> u32 \<Rightarrow> 's engine
     \<Rightarrow> 's outcome res" where
  "execute_backreference lx icu re d i is_ci g e =
     res_bind (or_panic (resolve_capture_group re e g)) (\<lambda>g.
     res_bind (or_panic (get_valid_capture_bounds e g)) (\<lambda>bounds.
     case bounds of
       None \<Rightarrow> Inr (Next (advance_instruction i e))
     | Some (start_index, end_index) \<Rightarrow>
         (let start_index = unat start_index; end_index = unat end_index; s = string_lexer e in
          res_bind (or_panic (checked_sub end_index start_index)) (\<lambda>captured_slice_len.
          if is_ci then
            res_bind (or_panic (op_iter_slice lx s start_index end_index)) (\<lambda>it.
            res_bind (drain_slice lx d it) (\<lambda>cs.
            match_canonicalized lx icu (has_any_unicode_flag (compiled_flags re)) d i cs e))
          else
            res_bind (or_panic (op_slice lx s start_index end_index)) (\<lambda>captured_slice.
            if d then
              res_bind (or_panic (op_slice_equals lx s (op_pos lx s) captured_slice)) (\<lambda>eq.
              if eq then
                res_bind (with_lexer e (op_advance_n lx s captured_slice_len)) (\<lambda>e.
                Inr (Next (advance_instruction i e)))
              else backtrack_or_stop lx e id)
            else
              (case checked_sub (op_pos lx s) captured_slice_len of
                 None \<Rightarrow> backtrack_or_stop lx e id
               | Some start_pos \<Rightarrow>
                   res_bind (or_panic (op_slice_equals lx s start_pos captured_slice)) (\<lambda>eq.
                   if eq then
                     res_bind (with_lexer e (op_advance_backwards_n lx s captured_slice_len)) (\<lambda>e.
                     Inr (Next (advance_instruction i e)))
                   else backtrack_or_stop lx e id)))))))"

section \<open>The instruction loop\<close>

text \<open>
  One iteration of \<open>execute_bytecode\<close>, for every instruction but \<open>Lookaround\<close>, for which \<open>exec\<close>
  below has its own case: the last equation is never used.
\<close>

fun step ::
  "('s, 'src) lexer_ops \<Rightarrow> icu_case \<Rightarrow> compiled_regexp \<Rightarrow> bool \<Rightarrow> instr \<Rightarrow> 's engine
     \<Rightarrow> 's outcome res" where
  "step lx icu re d IAccept e = Inr (Stop True e)"
| "step lx icu re d IFail e = backtrack_or_stop lx e id"
| "step lx icu re d (ILiteral c) e =
     consume_if lx d (ILiteral c) (op_current lx (string_lexer e) = c) id e"
| "step lx icu re d IWildcard e =
     consume_if lx d IWildcard (lexer_has_current lx (string_lexer e)) id e"
| "step lx icu re d IWildcardNoNewline e =
     consume_if lx d IWildcardNoNewline
       (lexer_has_current lx (string_lexer e) \<and> \<not> is_newline (op_current lx (string_lexer e))) id e"
| "step lx icu re d (IJump t) e = Inr (Next (set_next_instruction t e))"
| "step lx icu re d (IBranch t1 t2) e =
     Inr (Next (set_next_instruction t1 (push_backtrack_restore_state lx e (unat t2))))"
| "step lx icu re d (IMarkCapturePoint i) e =
     res_bind (or_panic (push_capture_point e i (word_of_nat (op_pos lx (string_lexer e)))))
       (\<lambda>e. Inr (Next (advance_instruction (IMarkCapturePoint i) e)))"
| "step lx icu re d (IClearCapture g) e =
     res_bind (or_panic (checked_mul_u32 g 2)) (\<lambda>i.
     res_bind (or_panic (checked_add_u32 i 1)) (\<lambda>i.
     res_bind (or_panic (push_capture_point e i EMPTY_STRING_INDEX)) (\<lambda>e.
     Inr (Next (advance_instruction (IClearCapture g) e)))))"
| "step lx icu re d (IProgress i) e =
     (let string_index = word_of_nat (op_pos lx (string_lexer e)) in
      res_bind (or_panic (get_progress_point e i)) (\<lambda>old.
      if old \<noteq> string_index then
        res_bind (or_panic (push_progress_point e i string_index)) (\<lambda>e.
        Inr (Next (advance_instruction (IProgress i) e)))
      else backtrack_or_stop lx e id))"
| "step lx icu re d (ILoop r m t) e =
     res_bind (or_panic (get_loop_register e r)) (\<lambda>v.
     if v < unat m then
       res_bind (or_panic (push_loop_register e r (v + 1))) (\<lambda>e.
       Inr (Next (advance_instruction (ILoop r m t) e)))
     else
       res_bind (or_panic (push_loop_register e r 0)) (\<lambda>e.
       Inr (Next (set_next_instruction t e))))"
| "step lx icu re d IAssertStart e =
     advance_if lx IAssertStart (lexer_is_start lx (string_lexer e)) e"
| "step lx icu re d IAssertEnd e =
     advance_if lx IAssertEnd (lexer_is_end lx (string_lexer e)) e"
| "step lx icu re d IAssertStartOrNewline e =
     (if lexer_is_start lx (string_lexer e)
      then Inr (Next (advance_instruction IAssertStartOrNewline e))
      else res_bind (or_panic (code_point_before_current_pos lx d e)) (\<lambda>c.
        advance_if lx IAssertStartOrNewline (is_newline c) e))"
| "step lx icu re d IAssertEndOrNewline e =
     (if lexer_is_end lx (string_lexer e)
      then Inr (Next (advance_instruction IAssertEndOrNewline e))
      else res_bind (or_panic (code_point_after_current_pos lx d e)) (\<lambda>c.
        advance_if lx IAssertEndOrNewline (is_newline c) e))"
| "step lx icu re d IWordBoundaryMoveToPrevious e =
     (let e = e\<lparr>word_boundary_register := compare_register e\<rparr> in
      res_bind (no_advance_read_code_point_in_direction lx (\<not> d) e) (\<lambda>e.
      Inr (Next (reset_compare_register (advance_instruction IWordBoundaryMoveToPrevious e)))))"
| "step lx icu re d IAssertWordBoundary e =
     (if is_at_word_boundary e then
        res_bind (no_advance_read_code_point_in_direction lx d e) (\<lambda>e.
        Inr (Next (reset_compare_register (advance_instruction IAssertWordBoundary e))))
      else backtrack_or_stop lx e reset_compare_register)"
| "step lx icu re d IAssertNotWordBoundary e =
     (if is_at_word_boundary e then backtrack_or_stop lx e reset_compare_register
      else
        res_bind (no_advance_read_code_point_in_direction lx d e) (\<lambda>e.
        Inr (Next (reset_compare_register (advance_instruction IAssertNotWordBoundary e)))))"
| "step lx icu re d (IBackreference is_ci g) e =
     execute_backreference lx icu re d (IBackreference is_ci g) is_ci g e"
| "step lx icu re d IConsumeIfTrue e =
     consume_if lx d IConsumeIfTrue
       (compare_register e \<and> lexer_has_current lx (string_lexer e)) reset_compare_register e"
| "step lx icu re d IConsumeIfFalse e =
     consume_if lx d IConsumeIfFalse
       (\<not> compare_register e \<and> lexer_has_current lx (string_lexer e)) reset_compare_register e"
| "step lx icu re d (ICompareEquals c) e =
     (let e = (if c = op_current lx (string_lexer e) then e\<lparr>compare_register := True\<rparr> else e) in
      Inr (Next (advance_instruction (ICompareEquals c) e)))"
| "step lx icu re d (ICompareBetween c1 c2) e =
     (let current = op_current lx (string_lexer e);
          e = (if current \<ge> c1 \<and> current < c2 then e\<lparr>compare_register := True\<rparr> else e) in
      Inr (Next (advance_instruction (ICompareBetween c1 c2) e)))"
| "step lx icu re d (ILookaround ahead positive body) e = Inr (Next e)"

text \<open>
  \<open>Lookaround\<close>.  The engine enters the sub-execution with the stack as its new base
  (\<open>enter_lookaround\<close>); when the sub-execution has returned, its outcome decides how the outer
  one goes on (\<open>leave_lookaround\<close>).
\<close>

definition enter_lookaround ::
  "('s, 'src) lexer_ops \<Rightarrow> bool \<Rightarrow> u32 \<Rightarrow> 's engine \<Rightarrow> 's engine res" where
  "enter_lookaround lx ahead body e =
     no_advance_read_code_point_in_direction lx ahead
       (set_next_instruction body (e\<lparr>backtrack_stack_base := length (backtrack_stack e)\<rparr>))"

text \<open>\<open>e\<close> is the engine before the lookaround, \<open>e'\<close> the engine the sub-execution returned.\<close>

definition leave_lookaround ::
  "('s, 'src) lexer_ops \<Rightarrow> instr \<Rightarrow> bool \<Rightarrow> 's engine \<Rightarrow> bool \<Rightarrow> 's engine \<Rightarrow> 's outcome res" where
  "leave_lookaround lx i positive e is_match e' =
     (let old_backtrack_stack_size = length (backtrack_stack e) in
      if \<not> is_match \<and> length (backtrack_stack e') \<noteq> old_backtrack_stack_size then Inl Panic
      else
        (let e' = (if is_match then push_entry (RestoreBacktrackStack old_backtrack_stack_size) e'
                   else e');
             e' = e'\<lparr>backtrack_stack_base := backtrack_stack_base e\<rparr> in
         if is_match = positive then
           Inr (Next (e'\<lparr>string_lexer :=
               op_restore lx (string_lexer e') (op_save lx (string_lexer e)),
             instruction_index := instruction_index e + instr_size i\<rparr>))
         else backtrack_or_stop lx e' id))"

text \<open>
  \<open>execute_bytecode\<close>, with a budget of iterations; an iteration of a lookaround body counts
  against the budget of the iteration that runs it.
\<close>

fun exec ::
  "('s, 'src) lexer_ops \<Rightarrow> icu_case \<Rightarrow> compiled_regexp \<Rightarrow> nat \<Rightarrow> bool \<Rightarrow> 's engine
     \<Rightarrow> (bool \<times> 's engine) res" where
  "exec lx icu re 0 d e = Inl No_Fuel"
| "exec lx icu re (Suc fuel) d e =
     (case decode_instr (instructions re) (instruction_index e) of
        None \<Rightarrow> Inl UB
      | Some i \<Rightarrow>
          res_bind
            (case i of
               ILookaround ahead positive body \<Rightarrow>
                 res_bind (enter_lookaround lx ahead body e) (\<lambda>e0.
                 res_bind (exec lx icu re fuel ahead e0) (\<lambda>(is_match, e').
                 leave_lookaround lx i positive e is_match e'))
             | _ \<Rightarrow> step lx icu re d i e)
            (\<lambda>outcome. case outcome of
               Stop ok e \<Rightarrow> Inr (ok, e)
             | Next e \<Rightarrow> exec lx icu re fuel d e))"

section \<open>Matches\<close>

text \<open>\<open>Match\<close> is the list of the bounds of the capture groups, group 0 first.\<close>

type_synonym regexp_match = "(u32 \<times> u32) option list"

definition build_match :: "compiled_regexp \<Rightarrow> 's engine \<Rightarrow> regexp_match option" where
  "build_match re e =
     those (map (\<lambda>i. get_valid_capture_bounds e (word_of_nat i)) [0..<num_capture_groups re + 1])"

definition run ::
  "('s, 'src) lexer_ops \<Rightarrow> icu_case \<Rightarrow> compiled_regexp \<Rightarrow> nat \<Rightarrow> 's engine
     \<Rightarrow> regexp_match option res" where
  "run lx icu re fuel e =
     res_bind (exec lx icu re fuel True e) (\<lambda>(ok, e').
     if ok then res_bind (or_panic (build_match re e')) (\<lambda>m. Inr (Some m)) else Inr None)"

definition match_lexer_stream ::
  "('s, 'src) lexer_ops \<Rightarrow> icu_case \<Rightarrow> compiled_regexp \<Rightarrow> nat \<Rightarrow> 's \<Rightarrow> nat
     \<Rightarrow> regexp_match option res" where
  "match_lexer_stream lx icu re fuel s start_index =
     res_bind (or_panic (op_advance_n lx s start_index)) (\<lambda>s.
     run lx icu re fuel (new_engine re s))"

datatype flat_string = OneByteString "u8 list" | TwoByteString "u16 list"

definition run_matcher ::
  "icu_case \<Rightarrow> nat \<Rightarrow> compiled_regexp \<Rightarrow> flat_string \<Rightarrow> nat \<Rightarrow> regexp_match option res" where
  "run_matcher icu fuel re target_string start_index =
     (case target_string of
        OneByteString b \<Rightarrow>
          match_lexer_stream (one_byte_ops :: (u8 stream, unit) lexer_ops) icu re fuel
            (one_byte_new b) start_index
      | TwoByteString b \<Rightarrow>
          if has_any_unicode_flag (compiled_flags re) then
            match_lexer_stream (code_point_ops :: (u16 stream, unit) lexer_ops) icu re fuel
              (code_point_new b) start_index
          else
            match_lexer_stream (code_unit_ops :: (unit code_unit_stream, unit) lexer_ops) icu re fuel
              (code_unit_new b None) start_index)"

end
