(* ===== verification/Regexp_Compiler.thy ===== *)
theory Regexp_Compiler
  imports Regexp_Matcher "HOL-Library.List_Lexorder" "HOL-Library.Product_Lexorder"
begin

text \<open>
  \<open>runtime/regexp/compiler.rs\<close>: from the syntax tree to bytecode.  \<open>builder\<close> is
  \<open>CompiledRegExpBuilder\<close>; every method is a function from the builder to an option of its result
  and the new builder, \<open>None\<close> being a panic.  Stacks have their top at the head.

  The methods that recurse through the tree take the emitters of the subterms: \<open>emitter\<close> is the
  type of "emit this term", and \<open>emit_term\<close> maps itself over the parts of a term.  Block ids are
  \<open>usize\<close> in the source and become \<open>u32\<close> operands when they are written.

  The code point sets (\<open>CodePointInversionList\<close> and its builder), the case tables and the Unicode
  properties come from the ICU libraries: they are the record \<open>icu\<close> of the operations that the
  compiler calls.
\<close>

section \<open>ICU\<close>

record ('b, 's, 'p) icu =
  new_set_builder :: 'b
  add32 :: "'b \<Rightarrow> u32 \<Rightarrow> 'b"
  add_range32 :: "'b \<Rightarrow> u32 \<Rightarrow> u32 \<Rightarrow> 'b"   \<comment> \<open>both bounds inclusive\<close>
  add_set :: "'b \<Rightarrow> 's \<Rightarrow> 'b"
  retain_set :: "'b \<Rightarrow> 's \<Rightarrow> 'b"
  remove_set :: "'b \<Rightarrow> 's \<Rightarrow> 'b"
  complement_builder :: "'b \<Rightarrow> 'b"
  build_set :: "'b \<Rightarrow> 's"
  all_code_points :: 's
  all_case_folded_set :: 's
  iter_ranges :: "'s \<Rightarrow> (u32 \<times> u32) list"   \<comment> \<open>inclusive ranges\<close>
  iter_chars :: "'s \<Rightarrow> u32 list"
  set_size :: "'s \<Rightarrow> nat"
  add_case_closure_to :: "u32 \<Rightarrow> 'b \<Rightarrow> 'b"
  get_case_closure_override :: "u32 \<Rightarrow> 's option"
  fold_char :: "u32 \<Rightarrow> u32"
  property_add_to_set :: "'p \<Rightarrow> 'b \<Rightarrow> 'b"
  property_strings :: "'p \<Rightarrow> u8 list list"   \<comment> \<open>empty but for properties of strings\<close>

section \<open>The builder\<close>

record builder =
  blocks :: "u32 list list"
  flag_stack :: "regexp_flags list"
  current_block_id :: nat
  num_progress_points :: u32
  num_loop_registers :: u32
  direction_stack :: "bool list"   \<comment> \<open>\<open>True\<close> is \<open>Forward\<close>\<close>
  repitition_depth :: nat

record sub_info =
  always_consumes :: bool
  captures :: "capture_group_index list"

type_synonym emitter = "builder \<Rightarrow> (sub_info \<times> builder) option"

definition no_captures :: "bool \<Rightarrow> sub_info" where
  "no_captures c = \<lparr>always_consumes = c, captures = []\<rparr>"

definition MAX_INLINED_REPITITIONS :: nat where
  "MAX_INLINED_REPITITIONS = 10"

definition U32_MAX :: int where
  "U32_MAX = 0xFFFFFFFF"

definition new_builder :: "regexp_flags \<Rightarrow> builder" where
  "new_builder fl =
     \<lparr>blocks = [], flag_stack = [fl], current_block_id = 0, num_progress_points = 0,
      num_loop_registers = 0, direction_stack = [True], repitition_depth = 0\<rparr>"

definition new_block :: "builder \<Rightarrow> nat \<times> builder" where
  "new_block b = (length (blocks b), b\<lparr>blocks := blocks b @ [[]]\<rparr>)"

fun new_blocks :: "nat \<Rightarrow> builder \<Rightarrow> nat list \<times> builder" where
  "new_blocks 0 b = ([], b)"
| "new_blocks (Suc n) b =
     (let (block_id, b) = new_block b; (ids, b) = new_blocks n b in (block_id # ids, b))"

definition set_current_block :: "nat \<Rightarrow> builder \<Rightarrow> builder" where
  "set_current_block block_id b = b\<lparr>current_block_id := block_id\<rparr>"

definition enter_direction_context :: "bool \<Rightarrow> builder \<Rightarrow> builder" where
  "enter_direction_context d b = b\<lparr>direction_stack := d # direction_stack b\<rparr>"

definition exit_direction_context :: "builder \<Rightarrow> builder" where
  "exit_direction_context b = b\<lparr>direction_stack := tl (direction_stack b)\<rparr>"

definition is_forwards :: "builder \<Rightarrow> bool option" where
  "is_forwards b = (case direction_stack b of [] \<Rightarrow> None | d # _ \<Rightarrow> Some d)"

definition enter_repitition_context :: "builder \<Rightarrow> builder" where
  "enter_repitition_context b = b\<lparr>repitition_depth := repitition_depth b + 1\<rparr>"

definition exit_repitition_context :: "builder \<Rightarrow> builder option" where
  "exit_repitition_context b =
     do { n \<leftarrow> checked_sub (repitition_depth b) 1; Some (b\<lparr>repitition_depth := n\<rparr>) }"

definition is_in_repitition :: "builder \<Rightarrow> bool" where
  "is_in_repitition b \<longleftrightarrow> repitition_depth b > 0"

definition current_flags :: "builder \<Rightarrow> regexp_flags option" where
  "current_flags b = (case flag_stack b of [] \<Rightarrow> None | fl # _ \<Rightarrow> Some fl)"

definition is_case_insensitive_unicode_sets :: "regexp_flags \<Rightarrow> bool" where
  "is_case_insensitive_unicode_sets fl \<longleftrightarrow> has_unicode_sets_flag fl \<and> is_case_insensitive fl"

text \<open>The \<open>emit_..._instruction\<close> methods: append an instruction to the current block.\<close>

definition emit_instr :: "instr \<Rightarrow> builder \<Rightarrow> builder option" where
  "emit_instr i b = do {
     blk \<leftarrow> vec_get (blocks b) (current_block_id b);
     bs \<leftarrow> vec_set (blocks b) (current_block_id b) (blk @ encode i);
     Some (b\<lparr>blocks := bs\<rparr>)
   }"

definition emit_jump :: "nat \<Rightarrow> builder \<Rightarrow> builder option" where
  "emit_jump block_id = emit_instr (IJump (word_of_nat block_id))"

definition emit_branch :: "nat \<Rightarrow> nat \<Rightarrow> builder \<Rightarrow> builder option" where
  "emit_branch first_block_id second_block_id =
     emit_instr (IBranch (word_of_nat first_block_id) (word_of_nat second_block_id))"

definition new_progress_point :: "builder \<Rightarrow> (u32 \<times> builder) option" where
  "new_progress_point b = do {
     n \<leftarrow> checked_add_u32 (num_progress_points b) 1;
     Some (num_progress_points b, b\<lparr>num_progress_points := n\<rparr>)
   }"

definition next_loop_register :: "builder \<Rightarrow> (u32 \<times> builder) option" where
  "next_loop_register b = do {
     n \<leftarrow> checked_add_u32 (num_loop_registers b) 1;
     Some (num_loop_registers b, b\<lparr>num_loop_registers := n\<rparr>)
   }"

text \<open>A loop over a list, and \<open>in_block\<close>: run in another block, then come back.\<close>

fun for_each :: "('a \<Rightarrow> builder \<Rightarrow> builder option) \<Rightarrow> 'a list \<Rightarrow> builder \<Rightarrow> builder option" where
  "for_each f [] b = Some b"
| "for_each f (x # xs) b = do { b \<leftarrow> f x b; for_each f xs b }"

definition in_block :: "nat \<Rightarrow> (builder \<Rightarrow> ('r \<times> builder) option) \<Rightarrow> builder \<Rightarrow> ('r \<times> builder) option" where
  "in_block block_id f b = do {
     let previous = current_block_id b;
     (r, b) \<leftarrow> f (set_current_block block_id b);
     Some (r, set_current_block previous b)
   }"

abbreviation no_result :: "builder option \<Rightarrow> (unit \<times> builder) option" where
  "no_result \<equiv> map_option (Pair ())"

definition emit_clear_captures :: "capture_group_index list \<Rightarrow> builder \<Rightarrow> builder option" where
  "emit_clear_captures gs = for_each (\<lambda>g. emit_instr (IClearCapture g)) gs"

definition emit_preamble :: "builder \<Rightarrow> builder option" where
  "emit_preamble b = do {
     let (wildcard_block, b) = new_block b;
     let (join_block, b) = new_block b;
     b \<leftarrow> emit_branch join_block wildcard_block b;
     let b = set_current_block wildcard_block b;
     b \<leftarrow> emit_instr IWildcard b;
     b \<leftarrow> emit_branch join_block wildcard_block b;
     Some (set_current_block join_block b)
   }"

section \<open>Alternatives and disjunctions\<close>

fun emit_alternative_terms :: "emitter list \<Rightarrow> sub_info \<Rightarrow> emitter" where
  "emit_alternative_terms [] acc b = Some (acc, b)"
| "emit_alternative_terms (emit # emits) acc b = do {
     (info, b) \<leftarrow> emit b;
     emit_alternative_terms emits
       \<lparr>always_consumes = always_consumes acc \<or> always_consumes info,
        captures = captures acc @ captures info\<rparr> b
   }"

definition emit_alternative :: "emitter alternative \<Rightarrow> emitter" where
  "emit_alternative alt b = do {
     forwards \<leftarrow> is_forwards b;
     emit_alternative_terms (if forwards then terms alt else rev (terms alt)) (no_captures False) b
   }"

record alternative_block =
  entry_block :: nat
  exit_block :: nat
  block_captures :: "capture_group_index list"

fun emit_alternative_blocks ::
  "emitter alternative list \<Rightarrow> builder \<Rightarrow> (alternative_block list \<times> sub_info \<times> builder) option" where
  "emit_alternative_blocks [] b = Some ([], no_captures True, b)"
| "emit_alternative_blocks (alt # alts) b = do {
     let (alternative_block_id, b) = new_block b;
     (info, b) \<leftarrow> emit_alternative alt (set_current_block alternative_block_id b);
     let ab = \<lparr>entry_block = alternative_block_id, exit_block = current_block_id b,
               block_captures = captures info\<rparr>;
     (ablocks, rest, b) \<leftarrow> emit_alternative_blocks alts b;
     Some (ab # ablocks,
       \<lparr>always_consumes = always_consumes info \<and> always_consumes rest,
        captures = captures info @ captures rest\<rparr>, b)
   }"

text \<open>
  In a repetition: clear the captures of the alternatives that were skipped, all but the last two
  in the branch blocks, the second to last at the end of the last alternative.
\<close>

definition clear_skipped_captures ::
  "nat list \<Rightarrow> alternative_block list \<Rightarrow> builder \<Rightarrow> builder option" where
  "clear_skipped_captures branch_block_ids ablocks b = do {
     b \<leftarrow> for_each (\<lambda>i b.
       if block_captures (ablocks ! (i - 1)) \<noteq> [] then do {
         block_id \<leftarrow> vec_get branch_block_ids i;
         emit_clear_captures (block_captures (ablocks ! (i - 1))) (set_current_block block_id b)
       } else Some b) [1..<length ablocks - 1] b;
     for_each (\<lambda>g b.
       emit_instr (IClearCapture g)
         (set_current_block (exit_block (ablocks ! (length ablocks - 1))) b))
       (block_captures (ablocks ! (length ablocks - 2))) b
   }"

text \<open>
  The join block of each alternative but the last, in reverse order on top of the join block: in
  a repetition a chain of blocks that clear the captures of the later alternatives.  The list
  argument is the alternatives from the last to the second.
\<close>

fun emit_clear_chain ::
  "alternative_block list \<Rightarrow> nat list \<Rightarrow> builder \<Rightarrow> (nat list \<times> builder) option" where
  "emit_clear_chain [] join_blocks b = Some (join_blocks, b)"
| "emit_clear_chain (ab # ablocks) join_blocks b =
     (if is_in_repitition b \<and> block_captures ab \<noteq> [] then do {
        let (clear_capture_block_id, b) = new_block b;
        b \<leftarrow> emit_clear_captures (block_captures ab) (set_current_block clear_capture_block_id b);
        b \<leftarrow> emit_jump (hd join_blocks) b;
        emit_clear_chain ablocks (clear_capture_block_id # join_blocks) b
      } else emit_clear_chain ablocks (hd join_blocks # join_blocks) b)"

definition link_alternatives ::
  "alternative_block list \<Rightarrow> nat list \<Rightarrow> builder \<Rightarrow> builder option" where
  "link_alternatives ablocks join_blocks =
     for_each (\<lambda>(ab, join_block) b. emit_jump join_block (set_current_block (exit_block ab) b))
       (zip ablocks join_blocks)"

definition emit_branch_chain ::
  "nat list \<Rightarrow> alternative_block list \<Rightarrow> builder \<Rightarrow> builder option" where
  "emit_branch_chain branch_block_ids ablocks b = do {
     b \<leftarrow> for_each (\<lambda>i b. do {
       block_id \<leftarrow> vec_get branch_block_ids i;
       next_block_id \<leftarrow> vec_get branch_block_ids (i + 1);
       emit_branch (entry_block (ablocks ! i)) next_block_id (set_current_block block_id b)
     }) [0..<length ablocks - 2] b;
     emit_branch (entry_block (ablocks ! (length ablocks - 2))) (entry_block (ablocks ! (length ablocks - 1)))
       (set_current_block (last branch_block_ids) b)
   }"

definition emit_disjunction :: "emitter disjunction \<Rightarrow> emitter" where
  "emit_disjunction d b =
     (if length (alternatives d) = 1 then emit_alternative (alternatives d ! 0) b
      else do {
        n \<leftarrow> checked_sub (length (alternatives d)) 2;
        let (new_ids, b') = new_blocks n b;
        let branch_block_ids = current_block_id b # new_ids;
        let (join_block_id, b) = new_block b';
        (ablocks, info, b) \<leftarrow> emit_alternative_blocks (alternatives d) b;
        b \<leftarrow> (if is_in_repitition b then clear_skipped_captures branch_block_ids ablocks b else Some b);
        (join_blocks, b) \<leftarrow> emit_clear_chain (rev (tl ablocks)) [join_block_id] b;
        b \<leftarrow> link_alternatives ablocks join_blocks b;
        b \<leftarrow> emit_branch_chain branch_block_ids ablocks b;
        Some (info, set_current_block join_block_id b)
      })"

section \<open>Code point sets\<close>

definition char_range :: "('b, 's, 'p) icu \<Rightarrow> 'b \<Rightarrow> u32 \<Rightarrow> u32 \<Rightarrow> 'b" where
  "char_range icu b lo hi = add_range32 icu b lo hi"

definition create_word_set_builder :: "('b, 's, 'p) icu \<Rightarrow> 'b" where
  "create_word_set_builder icu =
     (let b = new_set_builder icu;
          b = char_range icu b 0x61 0x7A;
          b = char_range icu b 0x41 0x5A;
          b = char_range icu b 0x30 0x39
      in add32 icu b 0x5F)"

definition create_whitespace_set_builder :: "('b, 's, 'p) icu \<Rightarrow> 'b" where
  "create_whitespace_set_builder icu =
     (let b = new_set_builder icu;
          b = char_range icu b 0x0009 0x000D;
          b = add32 icu b 0x0020;
          b = add32 icu b 0x00A0;
          b = add32 icu b 0x1680;
          b = char_range icu b 0x2000 0x200A;
          b = char_range icu b 0x2028 0x2029;
          b = add32 icu b 0x202F;
          b = add32 icu b 0x205F;
          b = add32 icu b 0x3000
      in add32 icu b 0xFEFF)"

definition WORD_SET :: "('b, 's, 'p) icu \<Rightarrow> 's" where
  "WORD_SET icu = build_set icu (create_word_set_builder icu)"

definition word_case_insensitive_builder :: "('b, 's, 'p) icu \<Rightarrow> 'b" where
  "word_case_insensitive_builder icu =
     add32 icu (add32 icu (create_word_set_builder icu) 0x017F) 0x212A"

definition WORD_CASE_INSENSITIVE_UNICODE_SET :: "('b, 's, 'p) icu \<Rightarrow> 's" where
  "WORD_CASE_INSENSITIVE_UNICODE_SET icu = build_set icu (word_case_insensitive_builder icu)"

definition NOT_WORD_SET :: "('b, 's, 'p) icu \<Rightarrow> 's" where
  "NOT_WORD_SET icu = build_set icu (complement_builder icu (create_word_set_builder icu))"

definition NOT_WORD_CASE_INSENSITIVE_UNICODE_SET :: "('b, 's, 'p) icu \<Rightarrow> 's" where
  "NOT_WORD_CASE_INSENSITIVE_UNICODE_SET icu =
     build_set icu (complement_builder icu (word_case_insensitive_builder icu))"

definition WHITESPACE_SET :: "('b, 's, 'p) icu \<Rightarrow> 's" where
  "WHITESPACE_SET icu = build_set icu (create_whitespace_set_builder icu)"

definition NOT_WHITESPACE_SET :: "('b, 's, 'p) icu \<Rightarrow> 's" where
  "NOT_WHITESPACE_SET icu = build_set icu (complement_builder icu (create_whitespace_set_builder icu))"

definition add_case_closure :: "('b, 's, 'p) icu \<Rightarrow> regexp_flags \<Rightarrow> 'b \<Rightarrow> u32 \<Rightarrow> 'b" where
  "add_case_closure icu fl b c =
     (let b = add32 icu b c in
      if has_any_unicode_flag fl \<or> get_case_closure_override icu c = None
      then add_case_closure_to icu c b
      else (case get_case_closure_override icu c of
              Some case_closure_override \<Rightarrow> add_set icu b case_closure_override
            | None \<Rightarrow> b))"

definition case_close_over :: "('b, 's, 'p) icu \<Rightarrow> regexp_flags \<Rightarrow> 's \<Rightarrow> 's" where
  "case_close_over icu fl cps =
     build_set icu (foldl (add_case_closure icu fl) (new_set_builder icu) (iter_chars icu cps))"

definition complement_set :: "('b, 's, 'p) icu \<Rightarrow> regexp_flags \<Rightarrow> 's \<Rightarrow> 's" where
  "complement_set icu fl cps =
     (let b = new_set_builder icu;
          b = add_set icu b
            (if is_case_insensitive fl then all_case_folded_set icu else all_code_points icu)
      in build_set icu (remove_set icu b cps))"

definition maybe_simple_case_folding :: "('b, 's, 'p) icu \<Rightarrow> regexp_flags \<Rightarrow> 's \<Rightarrow> 's" where
  "maybe_simple_case_folding icu fl cps =
     (if \<not> is_case_insensitive_unicode_sets fl then cps
      else build_set icu
        (foldl (\<lambda>b c. add32 icu b (fold_char icu c)) (new_set_builder icu) (iter_chars icu cps)))"

subsection \<open>Strings of a class\<close>

text \<open>
  \<open>AnyStr\<close> and \<open>HashSet<AnyStr>\<close>: strings are equal when their bytes are, inserting a string that is
  there keeps the old one.  The order of the list is immaterial: the strings are sorted before use.
\<close>

datatype any_str = Str "u8 list" | Wtf8Str wtf8_string

fun as_bytes :: "any_str \<Rightarrow> u8 list" where
  "as_bytes (Str s) = s"
| "as_bytes (Wtf8Str s) = s"

definition strings_contain :: "any_str list \<Rightarrow> any_str \<Rightarrow> bool" where
  "strings_contain ss s \<longleftrightarrow> as_bytes s \<in> set (map as_bytes ss)"

definition strings_insert :: "any_str list \<Rightarrow> any_str \<Rightarrow> any_str list" where
  "strings_insert ss s = (if strings_contain ss s then ss else ss @ [s])"

definition strings_remove :: "any_str list \<Rightarrow> any_str \<Rightarrow> any_str list" where
  "strings_remove ss s = filter (\<lambda>t. as_bytes t \<noteq> as_bytes s) ss"

definition strings_extend :: "any_str list \<Rightarrow> any_str list \<Rightarrow> any_str list" where
  "strings_extend ss ts = foldl strings_insert ss ts"

text \<open>Longest first, ties broken by the bytes.\<close>

definition sort_strings :: "any_str list \<Rightarrow> any_str list" where
  "sort_strings ss =
     sort_key (\<lambda>s. (- int (length (as_bytes s)), map unat (as_bytes s))) ss"

section \<open>Character classes\<close>

type_synonym 'b range_adder = "'b \<times> any_str list \<Rightarrow> ('b \<times> any_str list) option"

fun add_ranges :: "'b range_adder list \<Rightarrow> 'b range_adder" where
  "add_ranges [] acc = Some acc"
| "add_ranges (r # rs) acc = do { acc \<leftarrow> r acc; add_ranges rs acc }"

definition character_class_range_to_set ::
  "('b, 's, 'p) icu \<Rightarrow> regexp_flags \<Rightarrow> 'b range_adder \<Rightarrow> ('s \<times> any_str list) option" where
  "character_class_range_to_set icu fl class_range = do {
     (b, strings) \<leftarrow> class_range (new_set_builder icu, []);
     Some (maybe_simple_case_folding icu fl (build_set icu b), strings)
   }"

fun intersect_ranges ::
  "('b, 's, 'p) icu \<Rightarrow> regexp_flags \<Rightarrow> 'b range_adder list \<Rightarrow> 'b range_adder" where
  "intersect_ranges icu fl [] acc = Some acc"
| "intersect_ranges icu fl (r # rs) (b, strings) = do {
     (other_set, other_strings) \<leftarrow> character_class_range_to_set icu fl r;
     intersect_ranges icu fl rs
       (retain_set icu b other_set, filter (strings_contain other_strings) strings)
   }"

fun subtract_ranges ::
  "('b, 's, 'p) icu \<Rightarrow> regexp_flags \<Rightarrow> 'b range_adder list \<Rightarrow> 'b range_adder" where
  "subtract_ranges icu fl [] acc = Some acc"
| "subtract_ranges icu fl (r # rs) (b, strings) = do {
     (other_set, other_strings) \<leftarrow> character_class_range_to_set icu fl r;
     subtract_ranges icu fl rs
       (remove_set icu b other_set, foldl strings_remove strings other_strings)
   }"

definition character_class_to_set ::
  "('b, 's, 'p) icu \<Rightarrow> regexp_flags \<Rightarrow> 'b range_adder character_class
     \<Rightarrow> ('s \<times> any_str list) option" where
  "character_class_to_set icu fl cc = do {
     (cps, strings) \<leftarrow>
       (case expression_type cc of
          Union \<Rightarrow> do {
            (b, strings) \<leftarrow> add_ranges (operands cc) (new_set_builder icu, []);
            Some (maybe_simple_case_folding icu fl (build_set icu b), strings)
          }
        | Intersection \<Rightarrow> do {
            r \<leftarrow> vec_get (operands cc) 0;
            (first_set, first_strings) \<leftarrow> character_class_range_to_set icu fl r;
            (b, strings) \<leftarrow> intersect_ranges icu fl (tl (operands cc))
              (add_set icu (new_set_builder icu) first_set, first_strings);
            Some (build_set icu b, strings)
          }
        | Difference \<Rightarrow> do {
            r \<leftarrow> vec_get (operands cc) 0;
            (first_set, first_strings) \<leftarrow> character_class_range_to_set icu fl r;
            (b, strings) \<leftarrow> subtract_ranges icu fl (tl (operands cc))
              (add_set icu (new_set_builder icu) first_set, first_strings);
            Some (build_set icu b, strings)
          });
     Some (if is_inverted cc \<and> has_unicode_sets_flag fl then complement_set icu fl cps else cps,
       strings)
   }"

text \<open>A string of exactly one code point counts as that code point.\<close>

fun add_class_strings ::
  "('b, 's, 'p) icu \<Rightarrow> wtf8_string list \<Rightarrow> 'b range_adder" where
  "add_class_strings icu [] acc = Some acc"
| "add_class_strings icu (s # ss) (b, strings) = do {
     cs \<leftarrow> iter_code_points s;
     add_class_strings icu ss
       (case cs of
          [c] \<Rightarrow> (add32 icu b c, strings)
        | _ \<Rightarrow> (b, strings_insert strings (Wtf8Str s)))
   }"

primrec add_character_class_range_to_set ::
  "('b, 's, 'p) icu \<Rightarrow> regexp_flags \<Rightarrow> 'p class_range \<Rightarrow> 'b range_adder" where
  "add_character_class_range_to_set icu fl (Single c) = (\<lambda>(b, ss). Some (add32 icu b c, ss))"
| "add_character_class_range_to_set icu fl (Range lo hi) =
     (\<lambda>(b, ss). Some (add_range32 icu b lo hi, ss))"
| "add_character_class_range_to_set icu fl Word = (\<lambda>(b, ss). Some (add_set icu b (WORD_SET icu), ss))"
| "add_character_class_range_to_set icu fl NotWord = (\<lambda>(b, ss). Some
     (if is_case_insensitive fl \<and> has_any_unicode_flag fl then
        if has_unicode_sets_flag fl
        then add_set icu b (complement_set icu fl (WORD_CASE_INSENSITIVE_UNICODE_SET icu))
        else add_set icu b (NOT_WORD_CASE_INSENSITIVE_UNICODE_SET icu)
      else add_set icu b (NOT_WORD_SET icu), ss))"
| "add_character_class_range_to_set icu fl Whitespace =
     (\<lambda>(b, ss). Some (add_set icu b (WHITESPACE_SET icu), ss))"
| "add_character_class_range_to_set icu fl NotWhitespace = (\<lambda>(b, ss). Some
     (if is_case_insensitive_unicode_sets fl
      then add_set icu b (complement_set icu fl (WHITESPACE_SET icu))
      else add_set icu b (NOT_WHITESPACE_SET icu), ss))"
| "add_character_class_range_to_set icu fl Digit =
     (\<lambda>(b, ss). Some (char_range icu b 0x30 0x39, ss))"
| "add_character_class_range_to_set icu fl NotDigit = (\<lambda>(b, ss). Some
     (if is_case_insensitive_unicode_sets fl
      then add_set icu b (complement_set icu fl
        (build_set icu (char_range icu (new_set_builder icu) 0x30 0x39)))
      else add_range32 icu (add_range32 icu b 0 0x2F) 0x3A MAX_CODE_POINT, ss))"
| "add_character_class_range_to_set icu fl (UnicodeProperty p) = (\<lambda>(b, ss). Some
     (property_add_to_set icu p b, foldl strings_insert ss (map Str (property_strings icu p))))"
| "add_character_class_range_to_set icu fl (NotUnicodeProperty p) = (\<lambda>(b, ss). Some
     (let property_builder = property_add_to_set icu p (new_set_builder icu) in
      if is_case_insensitive_unicode_sets fl
      then add_set icu b (complement_set icu fl
        (maybe_simple_case_folding icu fl (build_set icu property_builder)))
      else add_set icu b (build_set icu (complement_builder icu property_builder)), ss))"
| "add_character_class_range_to_set icu fl (NestedClass nested_class) = (\<lambda>(b, ss). do {
     (code_points_set, string_set) \<leftarrow> character_class_to_set icu fl
       (map_character_class (add_character_class_range_to_set icu fl) nested_class);
     Some (add_set icu b code_points_set, strings_extend ss string_set)
   })"
| "add_character_class_range_to_set icu fl (StringDisjunctionRange d) =
     add_class_strings icu (string_alternatives d)"

section \<open>Literals and classes\<close>

definition emit_set_comparisons :: "('b, 's, 'p) icu \<Rightarrow> 's \<Rightarrow> builder \<Rightarrow> builder option" where
  "emit_set_comparisons icu cps =
     for_each (\<lambda>(range_start, range_end) b.
       if range_start = range_end then emit_instr (ICompareEquals range_start) b
       else do {
         e \<leftarrow> checked_add_u32 range_end 1;
         emit_instr (ICompareBetween range_start e) b
       }) (iter_ranges icu cps)"

definition emit_code_point_set :: "('b, 's, 'p) icu \<Rightarrow> 's \<Rightarrow> bool \<Rightarrow> builder \<Rightarrow> builder option" where
  "emit_code_point_set icu cps inverted b =
     (if set_size icu cps = 1 \<and> \<not> inverted then
        (case iter_chars icu cps of
           [] \<Rightarrow> None
         | single_code_point # _ \<Rightarrow> emit_instr (ILiteral single_code_point) b)
      else do {
        b \<leftarrow> emit_set_comparisons icu cps b;
        emit_instr (if inverted then IConsumeIfFalse else IConsumeIfTrue) b
      })"

definition emit_code_point_literal :: "('b, 's, 'p) icu \<Rightarrow> u32 \<Rightarrow> builder \<Rightarrow> builder option" where
  "emit_code_point_literal icu c b = do {
     fl \<leftarrow> current_flags b;
     if is_case_insensitive fl \<and> \<not> is_surrogate_code_point c then do {
       ch \<leftarrow> char_from_u32 c;
       emit_code_point_set icu (build_set icu (add_case_closure icu fl (new_set_builder icu) ch))
         False b
     } else emit_instr (ILiteral c) b
   }"

text \<open>\<open>emit_literal\<close> and \<open>emit_str_literal\<close>: the code points of the string, reversed when matching
  backwards.\<close>

definition emit_literal :: "('b, 's, 'p) icu \<Rightarrow> wtf8_string \<Rightarrow> builder \<Rightarrow> builder option" where
  "emit_literal icu s b = do {
     forwards \<leftarrow> is_forwards b;
     cs \<leftarrow> iter_code_points s;
     for_each (emit_code_point_literal icu) (if forwards then cs else rev cs) b
   }"

definition emit_class_string_disjunction ::
  "('b, 's, 'p) icu \<Rightarrow> any_str list \<Rightarrow> nat \<Rightarrow> builder \<Rightarrow> builder option" where
  "emit_class_string_disjunction icu ss success_block b = do {
     let strings = sort_strings ss;
     n \<leftarrow> checked_sub (length strings) 1;
     let (new_ids, b') = new_blocks n b;
     let branch_block_ids = current_block_id b # new_ids;
     let (alternative_block_ids, b) = new_blocks (length strings) b';
     let (join_block_id, b) = new_block b;
     b \<leftarrow> for_each (\<lambda>i b. do {
       block_id \<leftarrow> vec_get branch_block_ids i;
       alternative_block_id \<leftarrow> vec_get alternative_block_ids i;
       next_block_id \<leftarrow> vec_get branch_block_ids (i + 1);
       emit_branch alternative_block_id next_block_id (set_current_block block_id b)
     }) [0..<n] b;
     b \<leftarrow> emit_branch (last alternative_block_ids) join_block_id
       (set_current_block (last branch_block_ids) b);
     b \<leftarrow> for_each (\<lambda>(alternative_block_id, string) b. do {
       b \<leftarrow> emit_literal icu (as_bytes string) (set_current_block alternative_block_id b);
       emit_jump success_block b
     }) (zip alternative_block_ids strings) b;
     Some (set_current_block join_block_id b)
   }"

definition emit_character_class ::
  "('b, 's, 'p) icu \<Rightarrow> 'p class_range character_class \<Rightarrow> builder \<Rightarrow> builder option" where
  "emit_character_class icu cc b = do {
     fl \<leftarrow> current_flags b;
     (cps, strings) \<leftarrow> character_class_to_set icu fl
       (map_character_class (add_character_class_range_to_set icu fl) cc);
     (join_block, b) \<leftarrow>
       (if strings \<noteq> [] then do {
          let (join_block_id, b) = new_block b;
          b \<leftarrow> emit_class_string_disjunction icu strings join_block_id b;
          Some (Some join_block_id, b)
        } else Some (None, b));
     let cps = (if is_case_insensitive fl then case_close_over icu fl cps else cps);
     b \<leftarrow> emit_code_point_set icu cps (is_inverted cc \<and> \<not> has_unicode_sets_flag fl) b;
     (case join_block of
        Some join_block \<Rightarrow> do {
          b \<leftarrow> emit_jump join_block b;
          Some (set_current_block join_block b)
        }
      | None \<Rightarrow> Some b)
   }"

section \<open>Assertions\<close>

definition emit_word_comparison :: "('b, 's, 'p) icu \<Rightarrow> builder \<Rightarrow> builder option" where
  "emit_word_comparison icu b = do {
     fl \<leftarrow> current_flags b;
     emit_set_comparisons icu
       (if is_case_insensitive fl \<and> has_any_unicode_flag fl
        then WORD_CASE_INSENSITIVE_UNICODE_SET icu else WORD_SET icu) b
   }"

definition emit_word_boundary ::
  "('b, 's, 'p) icu \<Rightarrow> instr \<Rightarrow> builder \<Rightarrow> builder option" where
  "emit_word_boundary icu check b = do {
     b \<leftarrow> emit_word_comparison icu b;
     b \<leftarrow> emit_instr IWordBoundaryMoveToPrevious b;
     b \<leftarrow> emit_word_comparison icu b;
     emit_instr check b
   }"

definition emit_assertion :: "('b, 's, 'p) icu \<Rightarrow> assertion \<Rightarrow> builder \<Rightarrow> builder option" where
  "emit_assertion icu a b = do {
     fl \<leftarrow> current_flags b;
     (case a of
        Start \<Rightarrow> emit_instr (if is_multiline fl then IAssertStartOrNewline else IAssertStart) b
      | End \<Rightarrow> emit_instr (if is_multiline fl then IAssertEndOrNewline else IAssertEnd) b
      | WordBoundary \<Rightarrow> emit_word_boundary icu IAssertWordBoundary b
      | NotWordBoundary \<Rightarrow> emit_word_boundary icu IAssertNotWordBoundary b)
   }"

definition emit_wildcard :: "builder \<Rightarrow> builder option" where
  "emit_wildcard b = do {
     fl \<leftarrow> current_flags b;
     emit_instr (if is_dot_all fl then IWildcard else IWildcardNoNewline) b
   }"

section \<open>Quantifiers\<close>

definition is_repitition :: "'t quantifier \<Rightarrow> bool" where
  "is_repitition q = (case max_count q of None \<Rightarrow> True | Some m \<Rightarrow> m > 1)"

definition emit_quantifier_branch :: "'t quantifier \<Rightarrow> nat \<Rightarrow> nat \<Rightarrow> builder \<Rightarrow> builder option" where
  "emit_quantifier_branch q term_block_id join_block_id =
     (if is_greedy q then emit_branch term_block_id join_block_id
      else emit_branch join_block_id term_block_id)"

definition emit_quantifier_clear_captures_branch ::
  "'t quantifier \<Rightarrow> sub_info \<Rightarrow> nat \<Rightarrow> nat \<Rightarrow> builder \<Rightarrow> builder option" where
  "emit_quantifier_clear_captures_branch q info term_block_id join_block_id b = do {
     let (clear_block_id, b) = new_block b;
     b \<leftarrow> emit_quantifier_branch q term_block_id clear_block_id b;
     b \<leftarrow> emit_clear_captures (captures info) (set_current_block clear_block_id b);
     emit_jump join_block_id b
   }"

text \<open>The branch into the first optional term: the edge past it clears the term's captures.\<close>

definition emit_enter_branch ::
  "'t quantifier \<Rightarrow> bool \<Rightarrow> sub_info \<Rightarrow> nat \<Rightarrow> nat \<Rightarrow> builder \<Rightarrow> builder option" where
  "emit_enter_branch q clears info term_block_id join_block_id =
     (if clears \<and> captures info \<noteq> []
      then emit_quantifier_clear_captures_branch q info term_block_id join_block_id
      else emit_quantifier_branch q term_block_id join_block_id)"

text \<open>A progress instruction on a new progress point, unless the term always consumes.\<close>

definition emit_progress_unless_consumes :: "sub_info \<Rightarrow> builder \<Rightarrow> builder option" where
  "emit_progress_unless_consumes info b =
     (if \<not> always_consumes info then do {
        (p, b) \<leftarrow> new_progress_point b;
        emit_instr (IProgress p) b
      } else Some b)"

fun emit_times :: "nat \<Rightarrow> emitter \<Rightarrow> sub_info \<Rightarrow> emitter" where
  "emit_times 0 emit info b = Some (info, b)"
| "emit_times (Suc n) emit info b = do { (info, b) \<leftarrow> emit b; emit_times n emit info b }"

text \<open>The minimum repetitions: inlined, impossible, or a loop.\<close>

definition emit_min_repititions :: "emitter quantifier \<Rightarrow> emitter" where
  "emit_min_repititions q b =
     (if min_count q \<noteq> 0 \<and> min_count q \<le> MAX_INLINED_REPITITIONS then
        emit_times (min_count q) (quantifier_term q) (no_captures False) b
      else if int (min_count q) > U32_MAX then do {
        b \<leftarrow> emit_instr IFail b;
        Some (no_captures False, b)
      } else if min_count q \<noteq> 0 then do {
        let (loop_block_id, b) = new_block b;
        let (loop_end_block_id, b) = new_block b;
        b \<leftarrow> emit_jump loop_block_id b;
        (info, b) \<leftarrow> in_block loop_block_id (\<lambda>b. do {
          (loop_register_index, b) \<leftarrow> next_loop_register b;
          b \<leftarrow> emit_instr (ILoop loop_register_index (word_of_nat (min_count q))
            (word_of_nat loop_end_block_id)) b;
          (info, b) \<leftarrow> quantifier_term q b;
          b \<leftarrow> emit_jump loop_block_id b;
          Some (info, b)
        }) b;
        Some (info, set_current_block loop_end_block_id b)
      } else Some (no_captures False, b))"

text \<open>
  The inlined optional repetitions \<open>is\<close>.  All of them share one progress point, made when the
  first term that may not consume asks for it.
\<close>

fun emit_optional_terms ::
  "emitter quantifier \<Rightarrow> bool \<Rightarrow> nat \<Rightarrow> nat list \<Rightarrow> u32 option \<Rightarrow> sub_info \<Rightarrow> emitter" where
  "emit_optional_terms q inside join_block_id [] progress quantifier_info b =
     Some (quantifier_info, b)"
| "emit_optional_terms q inside join_block_id (i # is) progress quantifier_info b = do {
     let pred_block_id = current_block_id b;
     let (term_block_id, b) = new_block b;
     (info, b) \<leftarrow> quantifier_term q (set_current_block term_block_id b);
     (progress, b) \<leftarrow>
       (if \<not> always_consumes info then do {
          (p, b) \<leftarrow> (case progress of Some p \<Rightarrow> Some (p, b) | None \<Rightarrow> new_progress_point b);
          b \<leftarrow> emit_instr (IProgress p) b;
          Some (Some p, b)
        } else Some (progress, b));
     (_, b) \<leftarrow> in_block pred_block_id (\<lambda>b. no_result
       (emit_enter_branch q (i = 0 \<and> inside) info term_block_id join_block_id b)) b;
     emit_optional_terms q inside join_block_id is progress
       (quantifier_info\<lparr>captures := captures info\<rparr>) b
   }"

text \<open>The loop of more than ten optional repetitions.\<close>

definition emit_optional_loop ::
  "emitter quantifier \<Rightarrow> bool \<Rightarrow> nat \<Rightarrow> nat \<Rightarrow> sub_info \<Rightarrow> emitter" where
  "emit_optional_loop q inside num_remaining join_block_id quantifier_info b = do {
     let predecessor_block_id = current_block_id b;
     let (loop_block_id, b) = new_block b;
     (info, b) \<leftarrow> in_block loop_block_id (\<lambda>b. do {
       (loop_register_index, b) \<leftarrow> next_loop_register b;
       b \<leftarrow> emit_instr (ILoop loop_register_index (word_of_nat num_remaining)
         (word_of_nat join_block_id)) b;
       (info, b) \<leftarrow> quantifier_term q b;
       b \<leftarrow> emit_progress_unless_consumes info b;
       b \<leftarrow> emit_quantifier_branch q loop_block_id join_block_id b;
       Some (info, b)
     }) b;
     b \<leftarrow> emit_enter_branch q (min_count q = 0 \<and> inside) info loop_block_id join_block_id
       (set_current_block predecessor_block_id b);
     Some (quantifier_info\<lparr>captures := captures info\<rparr>, b)
   }"

text \<open>Any number of further repetitions: a term block that may loop back to itself.\<close>

definition emit_unbounded :: "emitter quantifier \<Rightarrow> bool \<Rightarrow> sub_info \<Rightarrow> emitter" where
  "emit_unbounded q inside quantifier_info b = do {
     let (term_block_id, b) = new_block b;
     let (join_block_id, b) = new_block b;
     let pred_block_id = current_block_id b;
     (info, b) \<leftarrow> quantifier_term q (set_current_block term_block_id b);
     (_, b) \<leftarrow> in_block pred_block_id (\<lambda>b. no_result
       (emit_enter_branch q inside info term_block_id join_block_id b)) b;
     b \<leftarrow> emit_progress_unless_consumes info b;
     b \<leftarrow> emit_quantifier_branch q term_block_id join_block_id b;
     Some (quantifier_info\<lparr>captures := captures info\<rparr>, set_current_block join_block_id b)
   }"

text \<open>
  When a quantifier with minimum 0 matched nothing its captures are cleared: progress is marked
  in the patch block before the quantifier and checked after it.
\<close>

definition emit_empty_check ::
  "'t quantifier \<Rightarrow> nat \<Rightarrow> sub_info \<Rightarrow> emitter" where
  "emit_empty_check q quantifier_patch_block quantifier_info b =
     (if min_count q = 0 \<and> \<not> always_consumes quantifier_info \<and> captures quantifier_info \<noteq> []
      then do {
        (p, b) \<leftarrow> new_progress_point b;
        (_, b) \<leftarrow> in_block quantifier_patch_block (\<lambda>b. no_result (emit_instr (IProgress p) b)) b;
        let (check_progress_and_continue_block, b) = new_block b;
        let (clear_captures_block, b) = new_block b;
        let (join_block, b) = new_block b;
        b \<leftarrow> emit_branch check_progress_and_continue_block clear_captures_block b;
        (_, b) \<leftarrow> in_block check_progress_and_continue_block (\<lambda>b. do {
          b \<leftarrow> emit_instr (IProgress p) b;
          no_result (emit_jump join_block b)
        }) b;
        (_, b) \<leftarrow> in_block clear_captures_block (\<lambda>b. do {
          b \<leftarrow> emit_clear_captures (captures quantifier_info) b;
          no_result (emit_jump join_block b)
        }) b;
        Some (quantifier_info, set_current_block join_block b)
      } else Some (quantifier_info, b))"

definition leave_repitition :: "'t quantifier \<Rightarrow> builder \<Rightarrow> builder option" where
  "leave_repitition q b = (if is_repitition q then exit_repitition_context b else Some b)"

definition emit_quantifier :: "emitter quantifier \<Rightarrow> emitter" where
  "emit_quantifier q b = do {
     let inside = is_in_repitition b;
     let b = (if is_repitition q then enter_repitition_context b else b);
     let (quantifier_patch_block, b) = new_block b;
     let (quantifier_start_block, b) = new_block b;
     b \<leftarrow> emit_jump quantifier_patch_block b;
     (quantifier_info, b) \<leftarrow> emit_min_repititions q (set_current_block quantifier_start_block b);
     (case max_count q of
        Some max_repititions \<Rightarrow> do {
          num_remaining \<leftarrow> checked_sub max_repititions (min_count q);
          if num_remaining = 0 then do {
            b \<leftarrow> leave_repitition q b;
            Some (quantifier_info, b)
          } else do {
            let (join_block_id, b) = new_block b;
            (quantifier_info, b) \<leftarrow>
              (if num_remaining \<le> MAX_INLINED_REPITITIONS then do {
                 (quantifier_info, b) \<leftarrow> emit_optional_terms q inside join_block_id
                   [min_count q..<max_repititions] None quantifier_info b;
                 b \<leftarrow> emit_jump join_block_id b;
                 Some (quantifier_info, b)
               } else if int num_remaining > U32_MAX then do {
                 b \<leftarrow> emit_instr IFail b;
                 Some (quantifier_info, b)
               } else emit_optional_loop q inside num_remaining join_block_id quantifier_info b);
            b \<leftarrow> leave_repitition q (set_current_block join_block_id b);
            emit_empty_check q quantifier_patch_block quantifier_info b
          }
        }
      | None \<Rightarrow> do {
          (quantifier_info, b) \<leftarrow> emit_unbounded q inside quantifier_info b;
          b \<leftarrow> leave_repitition q b;
          emit_empty_check q quantifier_patch_block quantifier_info b
        })
   }"

section \<open>Groups and lookarounds\<close>

definition emit_capture_group :: "emitter capture_group \<Rightarrow> emitter" where
  "emit_capture_group g b = do {
     capture_start_index \<leftarrow> checked_mul_u32 (group_index g) 2;
     capture_end_index \<leftarrow> checked_add_u32 capture_start_index 1;
     forwards \<leftarrow> is_forwards b;
     let (capture_start_index, capture_end_index) =
       (if forwards then (capture_start_index, capture_end_index)
        else (capture_end_index, capture_start_index));
     b \<leftarrow> emit_instr (IMarkCapturePoint capture_start_index) b;
     (info, b) \<leftarrow> emit_disjunction (group_disjunction g) b;
     b \<leftarrow> emit_instr (IMarkCapturePoint capture_end_index) b;
     Some (info\<lparr>captures := captures info @ [group_index g]\<rparr>, b)
   }"

definition emit_anonymous_group :: "emitter anonymous_group \<Rightarrow> emitter" where
  "emit_anonymous_group g b = do {
     let has_modifiers =
       (\<not> flags_is_empty (positive_modifiers g) \<or> \<not> flags_is_empty (negative_modifiers g));
     b \<leftarrow> (if has_modifiers then do {
        fl \<leftarrow> current_flags b;
        let new_flags = (fl OR positive_modifiers g) AND NOT (negative_modifiers g);
        Some (b\<lparr>flag_stack := new_flags # flag_stack b\<rparr>)
      } else Some b);
     (info, b) \<leftarrow> emit_disjunction (anonymous_disjunction g) b;
     Some (info, if has_modifiers then b\<lparr>flag_stack := tl (flag_stack b)\<rparr> else b)
   }"

definition emit_lookaround :: "emitter lookaround \<Rightarrow> emitter" where
  "emit_lookaround l b = do {
     let (body_block_id, b) = new_block b;
     b \<leftarrow> emit_instr (ILookaround (lookaround_is_ahead l) (lookaround_is_positive l)
       (word_of_nat body_block_id)) b;
     let b = enter_direction_context (lookaround_is_ahead l) b;
     let previous_block_id = current_block_id b;
     (info, b) \<leftarrow> emit_disjunction (lookaround_disjunction l) (set_current_block body_block_id b);
     b \<leftarrow> emit_instr IAccept b;
     let b = exit_direction_context b;
     Some (info\<lparr>always_consumes := False\<rparr>, set_current_block previous_block_id b)
   }"

section \<open>Terms\<close>

text \<open>A term without subterms, with whether it always consumes.\<close>

definition leaf :: "bool \<Rightarrow> (builder \<Rightarrow> builder option) \<Rightarrow> emitter" where
  "leaf consumes f b = do { b \<leftarrow> f b; Some (no_captures consumes, b) }"

definition emit_backreference :: "capture_group_index \<Rightarrow> builder \<Rightarrow> builder option" where
  "emit_backreference index b = do {
     fl \<leftarrow> current_flags b;
     emit_instr (IBackreference (is_case_insensitive fl) index) b
   }"

primrec emit_term :: "('b, 's, 'p) icu \<Rightarrow> 'p regexp_term \<Rightarrow> emitter" where
  "emit_term icu (Literal string) = leaf True (emit_literal icu string)"
| "emit_term icu Wildcard = leaf True emit_wildcard"
| "emit_term icu (QuantifierTerm q) = emit_quantifier (map_quantifier (emit_term icu) q)"
| "emit_term icu (AssertionTerm a) = leaf False (emit_assertion icu a)"
| "emit_term icu (LookaroundTerm l) = emit_lookaround (map_lookaround (emit_term icu) l)"
| "emit_term icu (CaptureGroupTerm g) = emit_capture_group (map_capture_group (emit_term icu) g)"
| "emit_term icu (AnonymousGroupTerm g) =
     emit_anonymous_group (map_anonymous_group (emit_term icu) g)"
| "emit_term icu (CharacterClassTerm cc) = leaf True (emit_character_class icu cc)"
| "emit_term icu (Backreference index) = leaf False (emit_backreference index)"

section \<open>Flattening\<close>

text \<open>Where each block starts in the flat array.\<close>

fun block_starts :: "u32 list list \<Rightarrow> nat \<Rightarrow> nat list" where
  "block_starts [] n = []"
| "block_starts (blk # blks) n = n # block_starts blks (n + length blk)"

definition id_map :: "u32 list list \<Rightarrow> u32 list" where
  "id_map blks = map word_of_nat (block_starts blks 0)"

text \<open>Replace the block id in the word \<open>p\<close> by the start of the block.\<close>

definition fix_word :: "u32 list \<Rightarrow> nat \<Rightarrow> u32 list \<Rightarrow> u32 list option" where
  "fix_word ids p code = do {
     block_id \<leftarrow> vec_get code p;
     start \<leftarrow> vec_get ids (unat block_id);
     vec_set code p start
   }"

definition fix_instr :: "u32 list \<Rightarrow> nat \<Rightarrow> u32 list \<Rightarrow> u32 list option" where
  "fix_instr ids p code = do {
     op \<leftarrow> opcode_at code p;
     (case op of
        OpBranch \<Rightarrow> do { code \<leftarrow> fix_word ids (p + 1) code; fix_word ids (p + 2) code }
      | OpJump \<Rightarrow> fix_word ids (p + 1) code
      | OpLookaround \<Rightarrow> fix_word ids (p + 1) code
      | OpLoop \<Rightarrow> fix_word ids (p + 3) code
      | _ \<Rightarrow> Some code)
   }"

fun fix_instrs :: "u32 list \<Rightarrow> nat list \<Rightarrow> u32 list \<Rightarrow> u32 list option" where
  "fix_instrs ids [] code = Some code"
| "fix_instrs ids (p # ps) code = do { code \<leftarrow> fix_instr ids p code; fix_instrs ids ps code }"

text \<open>
  \<open>flatten_and_fix_indices\<close>.  The loop writes operand words only, so the offsets of the
  instructions can be read off the array before it starts.
\<close>

definition flatten_and_fix_indices :: "u32 list list \<Rightarrow> u32 list option" where
  "flatten_and_fix_indices blks = do {
     let code = concat blks;
     ps \<leftarrow> iter_offsets code 0;
     fix_instrs (id_map blks) ps code
   }"

section \<open>Compiling\<close>

definition compile_blocks :: "('b, 's, 'p) icu \<Rightarrow> 'p regexp \<Rightarrow> builder option" where
  "compile_blocks icu re = do {
     let b = new_builder (regexp_flags re);
     let (_, b) = new_block b;
     fl \<leftarrow> current_flags b;
     b \<leftarrow> (if \<not> is_sticky fl then emit_preamble b else Some b);
     b \<leftarrow> emit_instr (IMarkCapturePoint 0) b;
     (_, b) \<leftarrow> emit_disjunction (map_disjunction (emit_term icu) (regexp_disjunction re)) b;
     b \<leftarrow> emit_instr (IMarkCapturePoint 1) b;
     emit_instr IAccept b
   }"

definition compile_regexp :: "('b, 's, 'p) icu \<Rightarrow> 'p regexp \<Rightarrow> compiled_regexp option" where
  "compile_regexp icu re = do {
     b \<leftarrow> compile_blocks icu re;
     flat_instrs \<leftarrow> flatten_and_fix_indices (blocks b);
     Some \<lparr>instructions = flat_instrs,
           compiled_flags = regexp_flags re,
           has_named_capture_groups = (\<exists>g \<in> set (regexp_capture_groups re). g \<noteq> None),
           has_duplicate_named_capture_groups = regexp_has_duplicate_named_capture_groups re,
           num_capture_groups = length (regexp_capture_groups re),
           compiled_num_progress_points = unat (num_progress_points b),
           compiled_num_loop_registers = unat (num_loop_registers b),
           compiled_capture_groups = regexp_capture_groups re\<rparr>
   }"

end
