(* ===== verification/Regexp_Safety.thy ===== *)
theory Regexp_Safety
  imports Regexp_Matcher
begin

text \<open>
  What the engine of \<open>runtime/regexp/matcher.rs\<close> guarantees for well-formed bytecode, on every
  input.  \<open>program_ok\<close> is the contract between the compiler and the matcher: the words are a list
  of instructions, every target is the start of one, the last one does not fall through, and every
  register index is in range.

  The central lemmas say that an iteration keeps the engine well formed (\<open>engine_ok\<close>) and its
  frame (\<open>same_frame\<close>): the part of the backtrack stack below the base is untouched, and undoing
  the entries above the base gives the same registers as before.
\<close>

section \<open>Well-formed programs\<close>

fun ends_flow :: "instr \<Rightarrow> bool" where
  "ends_flow (IJump _) = True"
| "ends_flow (IBranch _ _) = True"
| "ends_flow IAccept = True"
| "ends_flow IFail = True"
| "ends_flow _ = False"

definition offsets :: "instr list \<Rightarrow> nat list" where
  "offsets is = map (offset is) [0..<length is]"

text \<open>The operands of an instruction are in range: block starts, registers and groups.\<close>

fun operands_ok :: "nat list \<Rightarrow> nat \<Rightarrow> nat \<Rightarrow> nat \<Rightarrow> instr \<Rightarrow> bool" where
  "operands_ok starts nc np nl (IJump t) \<longleftrightarrow> unat t \<in> set starts"
| "operands_ok starts nc np nl (IBranch a b) \<longleftrightarrow> unat a \<in> set starts \<and> unat b \<in> set starts"
| "operands_ok starts nc np nl (IMarkCapturePoint i) \<longleftrightarrow> unat i < 2 * (nc + 1)"
| "operands_ok starts nc np nl (IClearCapture g) \<longleftrightarrow> unat g \<le> nc"
| "operands_ok starts nc np nl (IProgress i) \<longleftrightarrow> unat i < np"
| "operands_ok starts nc np nl (ILoop r m t) \<longleftrightarrow> unat r < nl \<and> unat t \<in> set starts"
| "operands_ok starts nc np nl (IBackreference ci g) \<longleftrightarrow> 0 < unat g \<and> unat g \<le> nc"
| "operands_ok starts nc np nl (ILookaround ahead positive b) \<longleftrightarrow> unat b \<in> set starts"
| "operands_ok starts nc np nl _ \<longleftrightarrow> True"

definition program_ok :: "compiled_regexp \<Rightarrow> instr list \<Rightarrow> bool" where
  "program_ok re is \<longleftrightarrow>
     instructions re = flat is \<and> is \<noteq> [] \<and> ends_flow (last is)
     \<and> (\<forall>i \<in> set is. operands_fit i \<and> operands_ok (offsets is) (num_capture_groups re)
          (compiled_num_progress_points re) (compiled_num_loop_registers re) i)
     \<and> int (2 * (num_capture_groups re + 1)) < 2 ^ 32
     \<and> length (compiled_capture_groups re) = num_capture_groups re"

lemma program_ok_size: "program_ok re is \<Longrightarrow> 2 * (num_capture_groups re + 1) < 2 ^ 32"
  unfolding program_ok_def int_less_2p32 by blast

fun is_backreference :: "instr \<Rightarrow> bool" where
  "is_backreference (IBackreference _ _) = True"
| "is_backreference _ = False"

fun is_lookaround :: "instr \<Rightarrow> bool" where
  "is_lookaround (ILookaround _ _ _) = True"
| "is_lookaround _ = False"

section \<open>Frames\<close>

text \<open>
  The registers that backtracking restores, and what undoing a list of entries does to them.
\<close>

type_synonym registers = "u32 list \<times> u32 list \<times> nat list"

definition regs :: "'s engine \<Rightarrow> registers" where
  "regs e = (capture_points e, progress_points e, loop_registers e)"

fun undo :: "backtrack_entry \<Rightarrow> registers \<Rightarrow> registers" where
  "undo (CapturePoint i x) (c, p, l) = (c[unat i := x], p, l)"
| "undo (ProgressPoint i x) (c, p, l) = (c, p[unat i := x], l)"
| "undo (LoopRegister i x) (c, p, l) = (c, p, l[unat i := x])"
| "undo _ r = r"

fun unwind :: "backtrack_entry list \<Rightarrow> registers \<Rightarrow> registers" where
  "unwind [] r = r"
| "unwind (b # bs) r = unwind bs (undo b r)"

lemma undo_other [simp]:
  "undo (RestoreState index saved) r = r" "undo (RestoreBacktrackStack k) r = r"
  by (cases r; simp)+

lemma unwind_append [simp]: "unwind (bs @ bs') r = unwind bs' (unwind bs r)"
  by (induction bs arbitrary: r) simp_all

text \<open>The entries above the base, the entries below it, and the registers once the frame is undone.\<close>

definition frame_entries :: "'s engine \<Rightarrow> backtrack_entry list" where
  "frame_entries e =
     take (length (backtrack_stack e) - backtrack_stack_base e) (backtrack_stack e)"

definition below_frame :: "'s engine \<Rightarrow> backtrack_entry list" where
  "below_frame e =
     drop (length (backtrack_stack e) - backtrack_stack_base e) (backtrack_stack e)"

definition frame_regs :: "'s engine \<Rightarrow> registers" where
  "frame_regs e = unwind (frame_entries e) (regs e)"

definition same_frame :: "'s engine \<Rightarrow> 's engine \<Rightarrow> bool" where
  "same_frame e e' \<longleftrightarrow>
     backtrack_stack_base e' = backtrack_stack_base e \<and> below_frame e' = below_frame e
     \<and> frame_regs e' = frame_regs e"

lemma same_frame_refl [simp]: "same_frame e e"
  by (simp add: same_frame_def)

lemma same_frame_trans: "same_frame e e' \<Longrightarrow> same_frame e' e'' \<Longrightarrow> same_frame e e''"
  by (simp add: same_frame_def)

lemma same_frame_same:
  "regs e' = regs e \<Longrightarrow> backtrack_stack e' = backtrack_stack e \<Longrightarrow>
     backtrack_stack_base e' = backtrack_stack_base e \<Longrightarrow> same_frame e e'"
  by (simp add: same_frame_def below_frame_def frame_regs_def frame_entries_def)

lemma same_frame_push:
  assumes "backtrack_stack_base e \<le> length (backtrack_stack e)"
    and "backtrack_stack e' = b # backtrack_stack e"
    and "backtrack_stack_base e' = backtrack_stack_base e"
    and "undo b (regs e') = regs e"
  shows "same_frame e e'"
  using assms by (simp add: same_frame_def below_frame_def frame_regs_def frame_entries_def Suc_diff_le)

lemma same_frame_pop:
  assumes "backtrack_stack_base e < length (backtrack_stack e)"
    and "backtrack_stack e = b # backtrack_stack e'"
    and "backtrack_stack_base e' = backtrack_stack_base e"
    and "regs e' = undo b (regs e)"
  shows "same_frame e e'"
  using assms by (simp add: same_frame_def below_frame_def frame_regs_def frame_entries_def Suc_diff_le)

section \<open>Well-formed engines\<close>

definition valid_index :: "nat \<Rightarrow> u32 \<Rightarrow> bool" where
  "valid_index n x \<longleftrightarrow> x = EMPTY_STRING_INDEX \<or> unat x \<le> n"

definition regs_ok :: "nat \<Rightarrow> compiled_regexp \<Rightarrow> registers \<Rightarrow> bool" where
  "regs_ok n re r \<longleftrightarrow>
     (case r of (c, p, l) \<Rightarrow>
       length c = 2 * (num_capture_groups re + 1) \<and> (\<forall>x \<in> set c. valid_index n x)
       \<and> length p = compiled_num_progress_points re \<and> length l = compiled_num_loop_registers re)"

text \<open>
  The entries of a backtrack stack.  A restore entry points below itself, and inside the frame it
  does not point below the base.
\<close>

fun stack_ok ::
  "(nat \<Rightarrow> saved_lexer_stream_state \<Rightarrow> bool) \<Rightarrow> nat \<Rightarrow> compiled_regexp \<Rightarrow> nat
     \<Rightarrow> backtrack_entry list \<Rightarrow> bool" where
  "stack_ok saved_ok n re base [] = True"
| "stack_ok saved_ok n re base (b # rest) =
     ((case b of
         RestoreState index saved \<Rightarrow> saved_ok index saved
       | CapturePoint i x \<Rightarrow> unat i < 2 * (num_capture_groups re + 1) \<and> valid_index n x
       | ProgressPoint i x \<Rightarrow> unat i < compiled_num_progress_points re
       | LoopRegister i x \<Rightarrow> unat i < compiled_num_loop_registers re
       | RestoreBacktrackStack k \<Rightarrow> k \<le> length rest \<and> (base \<le> length rest \<longrightarrow> base \<le> k))
      \<and> stack_ok saved_ok n re base rest)"

lemma stack_ok_enter: "stack_ok so n re base st \<Longrightarrow> stack_ok so n re (length st) st"
proof -
  have "stack_ok so n re base st \<Longrightarrow> length st \<le> k \<Longrightarrow> stack_ok so n re k st" for k
    by (induction st) (auto split: backtrack_entry.splits)
  then show "stack_ok so n re base st \<Longrightarrow> ?thesis" by simp
qed

lemma stack_ok_leave:
  "stack_ok so n re (length st) (pre @ st) \<Longrightarrow> base \<le> length st \<Longrightarrow> stack_ok so n re base st \<Longrightarrow>
     stack_ok so n re base (pre @ st)"
  by (induction pre) (auto split: backtrack_entry.splits)

lemma stack_ok_drop: "stack_ok so n re base st \<Longrightarrow> stack_ok so n re base (drop k st)"
  by (induction st arbitrary: k) (auto simp: drop_Cons split: nat.splits)

lemma regs_ok_undo:
  "regs_ok n re r \<Longrightarrow> stack_ok so n re base (b # rest) \<Longrightarrow> regs_ok n re (undo b r)"
  by (cases r; cases b) (auto simp: regs_ok_def dest!: set_update_subset_insert [THEN subsetD])

lemma regs_ok_unwind:
  "regs_ok n re r \<Longrightarrow> stack_ok so n re base (bs @ bs') \<Longrightarrow> regs_ok n re (unwind bs r)"
proof (induction bs arbitrary: r)
  case (Cons b bs)
  then show ?case using regs_ok_undo [of n re r so base b "bs @ bs'"] by simp
qed simp

definition at_instr :: "instr list \<Rightarrow> nat \<Rightarrow> bool" where
  "at_instr is p \<longleftrightarrow> p \<in> set (offsets is)"

definition engine_ok ::
  "('s, 'src) lexer_ops \<Rightarrow> ('s \<Rightarrow> bool) \<Rightarrow> nat \<Rightarrow> compiled_regexp \<Rightarrow> instr list \<Rightarrow> 's engine \<Rightarrow> bool" where
  "engine_ok lx ok n re is e \<longleftrightarrow>
     ok (string_lexer e) \<and> at_instr is (instruction_index e) \<and> regs_ok n re (regs e)
     \<and> backtrack_stack_base e \<le> length (backtrack_stack e)
     \<and> stack_ok (\<lambda>index saved. at_instr is index \<and> (\<exists>s. ok s \<and> saved = op_save lx s)) n re
         (backtrack_stack_base e) (backtrack_stack e)"

lemma engine_ok_D:
  assumes "engine_ok lx ok n re is e"
  shows "ok (string_lexer e)" and "at_instr is (instruction_index e)" and "regs_ok n re (regs e)"
    and "backtrack_stack_base e \<le> length (backtrack_stack e)"
  using assms by (simp_all add: engine_ok_def)

section \<open>Backtracking\<close>

definition with_regs :: "'s engine \<Rightarrow> registers \<Rightarrow> 's engine" where
  "with_regs e r =
     e\<lparr>capture_points := fst r, progress_points := fst (snd r), loop_registers := snd (snd r)\<rparr>"

lemma with_regs_simps [simp]:
  "regs (with_regs e r) = r"
  "string_lexer (with_regs e r) = string_lexer e"
  "instruction_index (with_regs e r) = instruction_index e"
  "backtrack_stack (with_regs e r) = backtrack_stack e"
  "backtrack_stack_base (with_regs e r) = backtrack_stack_base e"
  "compare_register (with_regs e r) = compare_register e"
  "word_boundary_register (with_regs e r) = word_boundary_register e"
  "with_regs e (regs e) = e"
  "with_regs (with_regs e r) r' = with_regs e r'"
  "(with_regs e r)\<lparr>backtrack_stack := st\<rparr> = with_regs (e\<lparr>backtrack_stack := st\<rparr>) r"
  by (simp_all add: with_regs_def regs_def)

lemma regs_update [simp]:
  "regs (e\<lparr>backtrack_stack := st\<rparr>) = regs e"
  "regs (e\<lparr>string_lexer := s\<rparr>) = regs e"
  "regs (e\<lparr>instruction_index := i\<rparr>) = regs e"
  "regs (e\<lparr>compare_register := c\<rparr>) = regs e"
  "regs (e\<lparr>word_boundary_register := c\<rparr>) = regs e"
  "regs (e\<lparr>backtrack_stack_base := k\<rparr>) = regs e"
  by (simp_all add: regs_def)

lemma same_stack: "backtrack_stack e = st \<Longrightarrow> e\<lparr>backtrack_stack := st\<rparr> = e"
  by (cases e) simp

lemma undo_entry_eq:
  "regs_ok n re (regs e) \<Longrightarrow> stack_ok so n re base (b # rest) \<Longrightarrow>
     undo_entry b e = Some (with_regs e (undo b (regs e)))"
  by (cases b)
    (auto simp: undo_entry_def set_capture_point_def set_progress_point_def set_loop_register_def
      vec_set_def regs_ok_def regs_def with_regs_def)

lemma backtrack_to_stack_size_eq:
  assumes "regs_ok n re (regs e)" and "stack_ok so n re base (backtrack_stack e)"
    and "k \<le> length (backtrack_stack e)"
  shows "backtrack_to_stack_size k e =
     Some (with_regs (e\<lparr>backtrack_stack := drop (length (backtrack_stack e) - k) (backtrack_stack e)\<rparr>)
       (unwind (take (length (backtrack_stack e) - k) (backtrack_stack e)) (regs e)))"
  using assms
proof (induction "backtrack_stack e" arbitrary: e)
  case Nil
  then show ?case
    by (subst backtrack_to_stack_size.simps) (simp add: Nil(1) [symmetric] same_stack)
next
  case (Cons b rest)
  note st = Cons.hyps(2) [symmetric]
  show ?case
  proof (cases "length (b # rest) > k")
    case False
    then have "k = length (b # rest)" using Cons.prems(3) st by simp
    then show ?thesis
      by (subst backtrack_to_stack_size.simps) (simp add: st same_stack)
  next
    case True
    let ?e = "with_regs (e\<lparr>backtrack_stack := rest\<rparr>) (undo b (regs e))"
    have ok: "stack_ok so n re base (b # rest)" using Cons.prems(2) st by simp
    have u: "undo_entry b (e\<lparr>backtrack_stack := rest\<rparr>) = Some ?e"
      using undo_entry_eq [OF _ ok, of "e\<lparr>backtrack_stack := rest\<rparr>"] Cons.prems(1) by simp
    have "backtrack_to_stack_size k ?e =
       Some (with_regs (?e\<lparr>backtrack_stack := drop (length (backtrack_stack ?e) - k) (backtrack_stack ?e)\<rparr>)
         (unwind (take (length (backtrack_stack ?e) - k) (backtrack_stack ?e)) (regs ?e)))"
      using Cons.prems ok True regs_ok_undo [OF Cons.prems(1) ok]
      by (intro Cons.hyps(1)) (simp_all add: less_Suc_eq_le)
    then show ?thesis
      using True u st
      by (subst backtrack_to_stack_size.simps) (simp add: less_Suc_eq_le Suc_diff_le)
  qed
qed

text \<open>One iteration of \<open>backtrack\<close>: a saved state is restored, any other entry undone.\<close>

lemma backtrack_restore_state:
  assumes "engine_ok lx ok n re is e" and "backtrack_stack_base e < length (backtrack_stack e)"
    and st: "backtrack_stack e = RestoreState index saved # rest"
    and restore: "\<And>s s'. ok s \<Longrightarrow> ok s' \<Longrightarrow> op_restore lx s' (op_save lx s) = s"
  shows "\<exists>e'. backtrack lx e = Some (True, e') \<and> engine_ok lx ok n re is e' \<and> same_frame e e'"
proof -
  obtain s where s: "saved = op_save lx s" "at_instr is index" "ok s"
    using assms(1) st by (auto simp: engine_ok_def)
  let ?e' = "e\<lparr>backtrack_stack := rest, instruction_index := index, string_lexer := s\<rparr>"
  have "backtrack lx e = Some (True, ?e')"
    using st assms(2) restore [OF s(3) engine_ok_D(1) [OF assms(1)]] s(1)
    by (subst backtrack.simps) simp
  moreover have "engine_ok lx ok n re is ?e'"
    using assms(1,2) st s(2,3) by (simp add: engine_ok_def)
  moreover have "same_frame e ?e'"
    by (rule same_frame_pop [OF assms(2)], simp add: st) simp_all
  ultimately show ?thesis by blast
qed

lemma backtrack_shrink:
  assumes ok: "engine_ok lx ok n re is e"
    and st: "backtrack_stack e = RestoreBacktrackStack k # rest"
    and base: "backtrack_stack_base e \<le> length rest"
  defines "d \<equiv> length rest - k"
  defines "e' \<equiv> with_regs (e\<lparr>backtrack_stack := drop d rest\<rparr>) (unwind (take d rest) (regs e))"
  shows "backtrack lx e = backtrack lx e'" and "engine_ok lx ok n re is e'"
    and "same_frame e e'" and "length (backtrack_stack e') < length (backtrack_stack e)"
proof -
  let ?so = "\<lambda>index saved. at_instr is index \<and> (\<exists>s. ok s \<and> saved = op_save lx s)"
  have sok: "stack_ok ?so n re (backtrack_stack_base e) rest"
    and k: "k \<le> length rest" "backtrack_stack_base e \<le> k"
    using ok st base by (auto simp: engine_ok_def)
  note rok = engine_ok_D(3) [OF ok]
  have "backtrack_to_stack_size k (e\<lparr>backtrack_stack := rest\<rparr>) = Some e'"
    using backtrack_to_stack_size_eq [of n re "e\<lparr>backtrack_stack := rest\<rparr>" ?so] rok sok k
    by (simp add: e'_def d_def)
  then show "backtrack lx e = backtrack lx e'"
    using st base by (subst backtrack.simps) simp
  have "regs_ok n re (unwind (take d rest) (regs e))"
    by (rule regs_ok_unwind [OF rok, of ?so "backtrack_stack_base e" _ "drop d rest"]) (simp add: sok)
  then show "engine_ok lx ok n re is e'"
    using ok k stack_ok_drop [OF sok, of d] by (simp add: engine_ok_def e'_def d_def)
  have "take (length rest - backtrack_stack_base e) rest
      = take d rest @ take (k - backtrack_stack_base e) (drop d rest)"
    using k by (simp add: d_def take_add [symmetric])
  moreover have "length rest - backtrack_stack_base e = k - backtrack_stack_base e + d"
    "length rest - d = k"
    using k by (simp_all add: d_def)
  ultimately show "same_frame e e'"
    using k base st
    by (simp add: e'_def same_frame_def below_frame_def frame_regs_def frame_entries_def Suc_diff_le)
  show "length (backtrack_stack e') < length (backtrack_stack e)"
    using st by (simp add: e'_def)
qed

lemma backtrack_register:
  assumes ok: "engine_ok lx ok n re is e"
    and base: "backtrack_stack_base e < length (backtrack_stack e)"
    and st: "backtrack_stack e = b # rest"
    and b: "\<And>index saved. b \<noteq> RestoreState index saved" "\<And>k. b \<noteq> RestoreBacktrackStack k"
  defines "e' \<equiv> with_regs (e\<lparr>backtrack_stack := rest\<rparr>) (undo b (regs e))"
  shows "backtrack lx e = backtrack lx e'" and "engine_ok lx ok n re is e'"
    and "same_frame e e'" and "length (backtrack_stack e') < length (backtrack_stack e)"
proof -
  let ?so = "\<lambda>index saved. at_instr is index \<and> (\<exists>s. ok s \<and> saved = op_save lx s)"
  have sok: "stack_ok ?so n re (backtrack_stack_base e) (b # rest)"
    using ok st by (simp add: engine_ok_def)
  have rok: "regs_ok n re (regs (e\<lparr>backtrack_stack := rest\<rparr>))"
    using engine_ok_D(3) [OF ok] by simp
  have "undo_entry b (e\<lparr>backtrack_stack := rest\<rparr>) = Some e'"
    using undo_entry_eq [OF rok sok] by (simp add: e'_def)
  then show "backtrack lx e = backtrack lx e'"
    using st base b by (subst backtrack.simps) (cases b; auto simp: undo_entry_def)
  show "engine_ok lx ok n re is e'"
    using ok sok base st regs_ok_undo [OF engine_ok_D(3) [OF ok] sok]
    by (simp add: engine_ok_def e'_def)
  show "same_frame e e'"
    by (rule same_frame_pop [OF base], simp add: st e'_def) (simp_all add: e'_def)
  show "length (backtrack_stack e') < length (backtrack_stack e)"
    using st by (simp add: e'_def)
qed

lemma backtrack_ok:
  assumes "engine_ok lx ok n re is e"
    and restore: "\<And>s s'. ok s \<Longrightarrow> ok s' \<Longrightarrow> op_restore lx s' (op_save lx s) = s"
  shows "\<exists>found e'. backtrack lx e = Some (found, e') \<and> engine_ok lx ok n re is e' \<and> same_frame e e'
     \<and> (\<not> found \<longrightarrow> length (backtrack_stack e') = backtrack_stack_base e')"
  using assms(1)
proof (induction "length (backtrack_stack e)" arbitrary: e rule: less_induct)
  case less
  show ?case
  proof (cases "backtrack_stack_base e < length (backtrack_stack e)")
    case False
    then have "backtrack lx e = Some (False, e)"
      by (subst backtrack.simps) (auto split: list.splits)
    then show ?thesis using less.prems engine_ok_D(4) [OF less.prems] False by auto
  next
    case True
    then obtain b rest where st: "backtrack_stack e = b # rest"
      by (cases "backtrack_stack e") auto
    show ?thesis
    proof (cases "\<exists>index saved. b = RestoreState index saved")
      case found: True
      then show ?thesis
        using backtrack_restore_state [OF less.prems True _ restore] st by blast
    next
      case False
      obtain e' where "backtrack lx e = backtrack lx e'" "engine_ok lx ok n re is e'"
        "same_frame e e'" "length (backtrack_stack e') < length (backtrack_stack e)"
      proof (cases "\<exists>k. b = RestoreBacktrackStack k")
        case shrink: True
        then obtain k where b: "backtrack_stack e = RestoreBacktrackStack k # rest"
          using st by blast
        have "backtrack_stack_base e \<le> length rest" using True st by simp
        from backtrack_shrink [OF less.prems b this] show thesis by (rule that)
      next
        case register: False
        show thesis
          by (rule that, (rule backtrack_register [OF less.prems True st]; use False register in blast)+)
      qed
      with less.hyps show ?thesis by (metis same_frame_trans)
    qed
  qed
qed

section \<open>Fetching and moving\<close>

text \<open>The instruction \<open>i\<close> starts at the word \<open>p\<close>.\<close>

definition fetches :: "instr list \<Rightarrow> nat \<Rightarrow> instr \<Rightarrow> bool" where
  "fetches is p i \<longleftrightarrow> (\<exists>k < length is. p = offset is k \<and> i = is ! k)"

lemma at_instr_fetches: "at_instr is p \<longleftrightarrow> (\<exists>i. fetches is p i)"
  by (auto simp: at_instr_def offsets_def fetches_def)

lemma fetches_decode:
  assumes "program_ok re is" and "fetches is p i"
  shows "decode_instr (instructions re) p = Some i"
  using assms decode_at_offset by (force simp: program_ok_def fetches_def)

lemma fetches_in_set: "fetches is p i \<Longrightarrow> i \<in> set is"
  by (auto simp: fetches_def)

lemma fetches_operands:
  "program_ok re is \<Longrightarrow> fetches is p i \<Longrightarrow>
     operands_ok (offsets is) (num_capture_groups re) (compiled_num_progress_points re)
       (compiled_num_loop_registers re) i"
  using fetches_in_set by (fastforce simp: program_ok_def)

lemma fetches_next:
  assumes "program_ok re is" and "fetches is p i" and "\<not> ends_flow i"
  shows "at_instr is (p + instr_size i)"
proof -
  obtain k where k: "k < length is" "p = offset is k" "i = is ! k"
    using assms(2) by (auto simp: fetches_def)
  have "last is = is ! (length is - 1)" "ends_flow (last is)"
    using assms(1) by (auto simp: program_ok_def last_conv_nth)
  then have "k \<noteq> length is - 1" using k(3) assms(3) by auto
  then have "Suc k < length is" using k(1) by simp
  moreover have "offset is (Suc k) = p + instr_size i" using k by (simp add: offset_Suc)
  ultimately show ?thesis by (force simp: at_instr_def offsets_def)
qed

lemma engine_ok_moves:
  assumes "engine_ok lx ok n re is e"
  shows "ok s \<Longrightarrow> engine_ok lx ok n re is (e\<lparr>string_lexer := s\<rparr>)"
    and "at_instr is p \<Longrightarrow> engine_ok lx ok n re is (e\<lparr>instruction_index := p\<rparr>)"
    and "engine_ok lx ok n re is (e\<lparr>compare_register := c\<rparr>)"
    and "engine_ok lx ok n re is (e\<lparr>word_boundary_register := c\<rparr>)"
  using assms by (simp_all add: engine_ok_def)

lemma same_frame_moves:
  "same_frame e (e'\<lparr>string_lexer := s\<rparr>) \<longleftrightarrow> same_frame e e'"
  "same_frame e (e'\<lparr>instruction_index := p\<rparr>) \<longleftrightarrow> same_frame e e'"
  "same_frame e (e'\<lparr>compare_register := c\<rparr>) \<longleftrightarrow> same_frame e e'"
  "same_frame e (e'\<lparr>word_boundary_register := c\<rparr>) \<longleftrightarrow> same_frame e e'"
  by (simp_all add: same_frame_def below_frame_def frame_regs_def frame_entries_def)

text \<open>Pushing an entry for a register write.\<close>

lemma engine_ok_push:
  assumes "engine_ok lx ok n re is e"
    and "backtrack_stack e' = b # backtrack_stack e"
    and "stack_ok (\<lambda>index saved. at_instr is index \<and> (\<exists>s. ok s \<and> saved = op_save lx s)) n re
      (backtrack_stack_base e) (b # backtrack_stack e)"
    and "backtrack_stack_base e' = backtrack_stack_base e"
    and "string_lexer e' = string_lexer e" and "instruction_index e' = instruction_index e"
    and "regs_ok n re (regs e')"
  shows "engine_ok lx ok n re is e'"
  using assms by (simp add: engine_ok_def)

lemma push_capture_point_ok:
  assumes "engine_ok lx ok n re is e"
    and "unat i < 2 * (num_capture_groups re + 1)" and "valid_index n x"
  shows "\<exists>e'. push_capture_point e i x = Some e' \<and> engine_ok lx ok n re is e' \<and> same_frame e e'
     \<and> instruction_index e' = instruction_index e"
proof -
  let ?e' = "(push_entry (CapturePoint i (capture_points e ! unat i)) e)
      \<lparr>capture_points := (capture_points e)[unat i := x]\<rparr>"
  note rok = engine_ok_D(3) [OF assms(1)]
  have len: "unat i < length (capture_points e)"
    using rok assms(2) by (simp add: regs_ok_def regs_def)
  have "push_capture_point e i x = Some ?e'"
    using len by (simp add: push_capture_point_def get_capture_point_def set_capture_point_def
        push_entry_def vec_get_def vec_set_def)
  moreover have "regs_ok n re (regs ?e')"
    using rok assms(3) by (auto simp: regs_ok_def regs_def push_entry_def
        dest!: set_update_subset_insert [THEN subsetD])
  then have "engine_ok lx ok n re is ?e'"
    using assms rok len
    by (intro engine_ok_push [OF assms(1), where b = "CapturePoint i (capture_points e ! unat i)"]) (simp_all add: push_entry_def engine_ok_def regs_ok_def regs_def)
  moreover have "same_frame e ?e'"
    using engine_ok_D(4) [OF assms(1)]
    by (rule same_frame_push [where b = "CapturePoint i (capture_points e ! unat i)"])
      (simp_all add: push_entry_def regs_def)
  ultimately show ?thesis by (auto simp: push_entry_def)
qed

lemma push_progress_point_ok:
  assumes "engine_ok lx ok n re is e" and "unat i < compiled_num_progress_points re"
  shows "\<exists>e'. push_progress_point e i x = Some e' \<and> engine_ok lx ok n re is e' \<and> same_frame e e'
     \<and> instruction_index e' = instruction_index e"
proof -
  let ?e' = "(push_entry (ProgressPoint i (progress_points e ! unat i)) e)
      \<lparr>progress_points := (progress_points e)[unat i := x]\<rparr>"
  note rok = engine_ok_D(3) [OF assms(1)]
  have len: "unat i < length (progress_points e)"
    using rok assms(2) by (simp add: regs_ok_def regs_def)
  have "push_progress_point e i x = Some ?e'"
    using len by (simp add: push_progress_point_def get_progress_point_def set_progress_point_def
        push_entry_def vec_get_def vec_set_def)
  moreover have "engine_ok lx ok n re is ?e'"
    using assms rok len
    by (intro engine_ok_push [OF assms(1), where b = "ProgressPoint i (progress_points e ! unat i)"]) (simp_all add: push_entry_def engine_ok_def regs_ok_def regs_def)
  moreover have "same_frame e ?e'"
    using engine_ok_D(4) [OF assms(1)]
    by (rule same_frame_push [where b = "ProgressPoint i (progress_points e ! unat i)"])
      (simp_all add: push_entry_def regs_def)
  ultimately show ?thesis by (auto simp: push_entry_def)
qed

lemma push_loop_register_ok:
  assumes "engine_ok lx ok n re is e" and "unat i < compiled_num_loop_registers re"
  shows "\<exists>e'. push_loop_register e i x = Some e' \<and> engine_ok lx ok n re is e' \<and> same_frame e e'
     \<and> instruction_index e' = instruction_index e"
proof -
  let ?e' = "(push_entry (LoopRegister i (loop_registers e ! unat i)) e)
      \<lparr>loop_registers := (loop_registers e)[unat i := x]\<rparr>"
  note rok = engine_ok_D(3) [OF assms(1)]
  have len: "unat i < length (loop_registers e)"
    using rok assms(2) by (simp add: regs_ok_def regs_def)
  have "push_loop_register e i x = Some ?e'"
    using len by (simp add: push_loop_register_def get_loop_register_def set_loop_register_def
        push_entry_def vec_get_def vec_set_def)
  moreover have "engine_ok lx ok n re is ?e'"
    using assms rok len
    by (intro engine_ok_push [OF assms(1), where b = "LoopRegister i (loop_registers e ! unat i)"]) (simp_all add: push_entry_def engine_ok_def regs_ok_def regs_def)
  moreover have "same_frame e ?e'"
    using engine_ok_D(4) [OF assms(1)]
    by (rule same_frame_push [where b = "LoopRegister i (loop_registers e ! unat i)"])
      (simp_all add: push_entry_def regs_def)
  ultimately show ?thesis by (auto simp: push_entry_def)
qed

text \<open>A stack that grew by entries whose undoing gives back the registers.\<close>

lemma same_frame_grown:
  assumes "backtrack_stack e' = pre @ backtrack_stack e" and "unwind pre (regs e') = regs e"
    and "backtrack_stack_base e' = backtrack_stack_base e"
    and "backtrack_stack_base e \<le> length (backtrack_stack e)"
  shows "same_frame e e'"
  using assms by (simp add: same_frame_def below_frame_def frame_regs_def frame_entries_def)

section \<open>One iteration\<close>

text \<open>
  What an iteration from the engine \<open>e\<close> may produce: a well-formed engine with the same frame; on
  failure the frame is empty.  \<open>panics\<close> tells whether it may panic.
\<close>

definition outcome_ok ::
  "('s, 'src) lexer_ops \<Rightarrow> ('s \<Rightarrow> bool) \<Rightarrow> nat \<Rightarrow> compiled_regexp \<Rightarrow> instr list \<Rightarrow> bool \<Rightarrow> 's engine
     \<Rightarrow> 's outcome res \<Rightarrow> bool" where
  "outcome_ok lx ok n re is panics e r \<longleftrightarrow>
     (case r of
        Inl f \<Rightarrow> f = Panic \<and> panics
      | Inr (Next e') \<Rightarrow> engine_ok lx ok n re is e' \<and> same_frame e e'
      | Inr (Stop found e') \<Rightarrow> engine_ok lx ok n re is e' \<and> same_frame e e'
          \<and> (\<not> found \<longrightarrow> length (backtrack_stack e') = backtrack_stack_base e'))"

lemma outcome_ok_simps [simp]:
  "outcome_ok lx ok n re is panics e (Inl f) \<longleftrightarrow> f = Panic \<and> panics"
  "outcome_ok lx ok n re is panics e (Inr (Next e')) \<longleftrightarrow> engine_ok lx ok n re is e' \<and> same_frame e e'"
  "outcome_ok lx ok n re is panics e (Inr (Stop found e')) \<longleftrightarrow>
     engine_ok lx ok n re is e' \<and> same_frame e e'
       \<and> (\<not> found \<longrightarrow> length (backtrack_stack e') = backtrack_stack_base e')"
  by (simp_all add: outcome_ok_def)

lemma outcome_ok_mono:
  "outcome_ok lx ok n re is p e r \<Longrightarrow> (p \<Longrightarrow> q) \<Longrightarrow> outcome_ok lx ok n re is q e r"
  by (auto simp: outcome_ok_def split: sum.splits)

context lexer_stream_fwd
begin

text \<open>A backwards step can panic on the code point stream.\<close>

definition backwards_panics :: bool where
  "backwards_panics \<longleftrightarrow> (\<exists>s. ok s \<and> op_advance_backwards_code_point lx s = None)"

abbreviation good :: "compiled_regexp \<Rightarrow> instr list \<Rightarrow> 's engine \<Rightarrow> bool" where
  "good re is e \<equiv> engine_ok lx ok (length inp) re is e"

abbreviation good_outcome ::
  "compiled_regexp \<Rightarrow> instr list \<Rightarrow> bool \<Rightarrow> 's engine \<Rightarrow> 's outcome res \<Rightarrow> bool" where
  "good_outcome re is panics e r \<equiv> outcome_ok lx ok (length inp) re is panics e r"

lemma good_backtrack_or_stop:
  assumes "good re is e" and "same_frame e0 e" and "rest = id \<or> rest = reset_compare_register"
  shows "good_outcome re is panics e0 (backtrack_or_stop lx e rest)"
proof -
  obtain found e' where e': "backtrack lx e = Some (found, e')" "good re is e'" "same_frame e e'"
    "\<not> found \<longrightarrow> length (backtrack_stack e') = backtrack_stack_base e'"
    using backtrack_ok [OF assms(1) restore_save] by blast
  then show ?thesis
    using assms(3) same_frame_trans [OF assms(2) e'(3)]
    by (auto simp: backtrack_or_stop_def reset_compare_register_def engine_ok_moves same_frame_moves)
qed

lemma good_advance:
  assumes "program_ok re is" and "fetches is (instruction_index e) i" and "\<not> ends_flow i"
    and "good re is e"
  shows "good re is (advance_instruction i e)" and "same_frame e0 (advance_instruction i e) \<longleftrightarrow> same_frame e0 e"
  using engine_ok_moves(2) [OF assms(4) fetches_next [OF assms(1-3)]]
  by (simp_all add: advance_instruction_def same_frame_moves)

lemma good_set_next:
  "good re is e \<Longrightarrow> unat t \<in> set (offsets is) \<Longrightarrow> good re is (set_next_instruction t e)"
  "same_frame e0 (set_next_instruction t e) \<longleftrightarrow> same_frame e0 e"
  by (simp_all add: set_next_instruction_def engine_ok_moves at_instr_def same_frame_moves)

lemma advance_code_point_cases:
  assumes "good re is e"
  shows "(\<exists>s. advance_code_point_in_direction lx d e = Inr (e\<lparr>string_lexer := s\<rparr>) \<and> ok s)
     \<or> advance_code_point_in_direction lx d e = Inl Panic \<and> \<not> d \<and> backwards_panics"
proof -
  note s = engine_ok_D(1) [OF assms]
  show ?thesis
    using advance_code_point_ok [OF s] advance_backwards_keeps_ok [OF s] s
    by (cases d; cases "op_advance_backwards_code_point lx (string_lexer e)")
      (auto simp: advance_code_point_in_direction_def with_lexer_def backwards_panics_def)
qed

lemma no_advance_read:
  assumes "good re is e"
  shows "\<exists>s. no_advance_read_code_point_in_direction lx d e = Inr (e\<lparr>string_lexer := s\<rparr>) \<and> ok s"
  using advance_n [OF engine_ok_D(1) [OF assms], of 0]
    advance_backwards_n [OF engine_ok_D(1) [OF assms], of 0]
  by (cases d) (auto simp: no_advance_read_code_point_in_direction_def with_lexer_def)

lemma good_consume_if:
  assumes "program_ok re is" and "fetches is (instruction_index e) i" and "\<not> ends_flow i"
    and "good re is e" and "rest = id \<or> rest = reset_compare_register"
  shows "good_outcome re is (\<not> d \<and> backwards_panics) e (consume_if lx d i test rest e)"
proof (cases test)
  case False
  then show ?thesis using good_backtrack_or_stop [OF assms(4) same_frame_refl assms(5)]
    by (simp add: consume_if_def)
next
  case True
  from advance_code_point_cases [OF assms(4), of d] show ?thesis
  proof
    assume "\<exists>s. advance_code_point_in_direction lx d e = Inr (e\<lparr>string_lexer := s\<rparr>) \<and> ok s"
    then obtain s where s: "advance_code_point_in_direction lx d e = Inr (e\<lparr>string_lexer := s\<rparr>)" "ok s"
      by blast
    have "good re is (advance_instruction i (e\<lparr>string_lexer := s\<rparr>))"
      using assms(1-3) engine_ok_moves(1) [OF assms(4) s(2)] by (intro good_advance(1)) simp_all
    then show ?thesis using s(1) True assms(5)
      by (auto simp: consume_if_def reset_compare_register_def engine_ok_moves same_frame_moves
          advance_instruction_def)
  qed (use True in \<open>auto simp: consume_if_def\<close>)
qed

lemma good_advance_if:
  assumes "program_ok re is" and "fetches is (instruction_index e) i" and "\<not> ends_flow i"
    and "good re is e"
  shows "good_outcome re is panics e (advance_if lx i test e)"
  using good_advance [OF assms] good_backtrack_or_stop [OF assms(4) same_frame_refl, of id]
  by (simp add: advance_if_def)

lemma good_match_canonicalized:
  assumes "program_ok re is" and "\<not> ends_flow i"
  shows "fetches is (instruction_index e) i \<Longrightarrow> good re is e \<Longrightarrow> same_frame e0 e \<Longrightarrow>
     good_outcome re is (\<not> d \<and> backwards_panics) e0 (match_canonicalized lx icu u d i cs e)"
proof (induction cs arbitrary: e)
  case Nil
  then show ?case using good_advance [OF assms(1) Nil(1) assms(2) Nil(2)] by simp
next
  case (Cons c cs)
  show ?case
  proof (cases "lexer_has_current lx (string_lexer e)
      \<and> canonicalize icu c u = canonicalize icu (op_current lx (string_lexer e)) u")
    case False
    then show ?thesis using good_backtrack_or_stop [OF Cons.prems(2,3), of id] by auto
  next
    case True
    from advance_code_point_cases [OF Cons.prems(2), of d] show ?thesis
    proof
      assume "\<exists>s. advance_code_point_in_direction lx d e = Inr (e\<lparr>string_lexer := s\<rparr>) \<and> ok s"
      then obtain s where "advance_code_point_in_direction lx d e = Inr (e\<lparr>string_lexer := s\<rparr>)" "ok s"
        by blast
      then show ?thesis
        using True Cons.IH [of "e\<lparr>string_lexer := s\<rparr>"] Cons.prems
        by (simp add: engine_ok_moves same_frame_moves)
    qed (use True in auto)
  qed
qed

lemma valid_pos: "ok s \<Longrightarrow> valid_index (length inp) (word_of_nat (op_pos lx s))"
  using pos_le [of s] unat_word_of_nat_le [of "op_pos lx s"] by (simp add: valid_index_def)

lemma checked_group_points:
  assumes "2 * (n + 1) < 2 ^ 32" and "unat g \<le> n"
  shows "\<exists>i j. checked_mul_u32 g 2 = Some i \<and> checked_add_u32 i 1 = Some j
     \<and> unat i = 2 * unat g \<and> unat j = 2 * unat g + 1"
proof -
  have i: "checked_mul_u32 g 2 = Some (g * 2)" using assms by (simp add: checked_u32_eq)
  then have u: "unat (g * 2) = 2 * unat g" using checked_mul_u32_Some by fastforce
  have j: "checked_add_u32 (g * 2) 1 = Some (g * 2 + 1)"
    using assms u by (simp add: checked_u32_eq)
  then have "unat (g * 2 + 1) = 2 * unat g + 1" using checked_add_u32_Some [OF j] u by simp
  with i j u show ?thesis by blast
qed

lemma capture_bounds_ok:
  assumes "program_ok re is" and "good re is e" and "unat g \<le> num_capture_groups re"
  shows "\<exists>bounds. get_valid_capture_bounds e g = Some bounds
     \<and> (\<forall>s t. bounds = Some (s, t) \<longrightarrow> unat s \<le> length inp \<and> unat t \<le> length inp)"
proof -
  obtain i j where ij: "checked_mul_u32 g 2 = Some i" "checked_add_u32 i 1 = Some j"
    "unat i = 2 * unat g" "unat j = 2 * unat g + 1"
    using checked_group_points [OF program_ok_size [OF assms(1)] assms(3)] by blast
  have cs: "length (capture_points e) = 2 * (num_capture_groups re + 1)"
    "\<forall>x \<in> set (capture_points e). valid_index (length inp) x"
    using engine_ok_D(3) [OF assms(2)] by (simp_all add: regs_ok_def regs_def)
  then have "valid_index (length inp) (capture_points e ! unat i)"
    "valid_index (length inp) (capture_points e ! unat j)"
    using assms(3) ij by simp_all
  then show ?thesis
    using ij cs(1) assms(3)
    by (auto simp: get_valid_capture_bounds_def get_capture_point_def vec_get_def valid_index_def)
qed

lemma find_named_capture_ok:
  assumes "program_ok re is" and "good re is e"
  shows "k \<le> num_capture_groups re \<Longrightarrow> \<exists>r. find_named_capture re e name k = Some r
     \<and> (\<forall>g. r = Some g \<longrightarrow> unat g \<le> num_capture_groups re)"
proof (induction k)
  case (Suc k)
  have n: "length (compiled_capture_groups re) = num_capture_groups re"
    using assms(1) by (simp add: program_ok_def)
  have g: "unat (word_of_nat (Suc k) :: u32) \<le> num_capture_groups re"
    using unat_word_of_nat_le [of "Suc k"] Suc.prems by simp
  from capture_bounds_ok [OF assms g] obtain bounds where
    "get_valid_capture_bounds e (word_of_nat (Suc k)) = Some bounds" by blast
  with Suc n g show ?case by (auto simp: vec_get_def simp del: of_nat_Suc)
qed simp

lemma resolve_capture_group_ok:
  assumes "program_ok re is" and "good re is e"
    and "0 < unat g" and "unat g \<le> num_capture_groups re"
  shows "\<exists>g'. resolve_capture_group re e g = Some g' \<and> unat g' \<le> num_capture_groups re"
proof -
  have i: "checked_sub (unat g) 1 = Some (unat g - 1)"
    "vec_get (compiled_capture_groups re) (unat g - 1) = Some (compiled_capture_groups re ! (unat g - 1))"
    using assms(1,3,4) by (auto simp: program_ok_def)
  show ?thesis
  proof (cases "has_duplicate_named_capture_groups re \<and> compiled_capture_groups re ! (unat g - 1) \<noteq> None")
    case True
    then obtain name where name: "compiled_capture_groups re ! (unat g - 1) = Some name" by blast
    obtain r where "find_named_capture re e name (unat g) = Some r"
      "\<forall>g. r = Some g \<longrightarrow> unat g \<le> num_capture_groups re"
      using find_named_capture_ok [OF assms(1,2,4), of name] by blast
    then show ?thesis
      using True i name assms(4) unfolding resolve_capture_group_def
      by (auto simp del: checked_sub_Some_iff vec_get_Some_iff split: option.splits)
  next
    case False
    then show ?thesis using i assms(4) unfolding resolve_capture_group_def
      by (auto simp del: checked_sub_Some_iff vec_get_Some_iff)
  qed
qed

lemma drain_slice_ok:
  assumes "ok s" and "op_iter_slice lx s i j = Some it" and "i \<le> j" and "j \<le> length inp"
  shows "\<exists>cs. drain_slice lx d it = Inr cs"
  using iter_slice [OF assms(1,3,4)] assms(2) by (cases d) (auto simp: drain_slice_def)

lemma good_execute_backreference:
  assumes "program_ok re is" and "fetches is (instruction_index e) i"
    and "i = IBackreference ci g" and "good re is e"
  shows "good_outcome re is True e (execute_backreference lx icu re d i ci g e)"
proof -
  have "\<not> ends_flow i" "0 < unat g \<and> unat g \<le> num_capture_groups re"
    using fetches_operands [OF assms(1,2)] assms(3) by simp_all
  then obtain g' where g': "resolve_capture_group re e g = Some g'"
      "unat g' \<le> num_capture_groups re"
    using resolve_capture_group_ok [OF assms(1,4)] by blast
  obtain bounds where b: "get_valid_capture_bounds e g' = Some bounds"
    "\<And>s t. bounds = Some (s, t) \<Longrightarrow> unat s \<le> length inp \<and> unat t \<le> length inp"
    using capture_bounds_ok [OF assms(1,4) g'(2)] by blast
  note adv = good_advance [OF assms(1,2) \<open>\<not> ends_flow i\<close>]
  note s = engine_ok_D(1) [OF assms(4)]
  have bt: "good_outcome re is True e (backtrack_or_stop lx e id)"
    by (rule good_backtrack_or_stop [OF assms(4)]) simp_all
  show ?thesis
  proof (cases bounds)
    case None
    then show ?thesis using g' b(1) adv(1) [OF assms(4)] adv(2) [OF assms(4), of e]
      by (simp add: execute_backreference_def)
  next
    case (Some st)
    then obtain i1 i2 where st: "bounds = Some (i1, i2)" by (cases st) auto
    show ?thesis
    proof (cases "unat i1 \<le> unat i2")
      case False
      then show ?thesis using g' b(1) st
        by (simp add: execute_backreference_def checked_sub_def or_panic_def)
    next
      case True
      have le: "unat i2 \<le> length inp" using b(2) [OF st] by simp
      define m where "m = unat i2 - unat i1"
      have sub: "checked_sub (unat i2) (unat i1) = Some m" using True by (simp add: m_def)
      have ci: ?thesis if "ci"
      proof -
        obtain it where it: "op_iter_slice lx (string_lexer e) (unat i1) (unat i2) = Some it"
          using iter_slice [OF s True le] by blast
        obtain cs where cs: "drain_slice lx d it = Inr cs"
          using drain_slice_ok [OF s it True le] by blast
        have "good_outcome re is True e
            (match_canonicalized lx icu (has_any_unicode_flag (compiled_flags re)) d i cs e)"
          by (rule outcome_ok_mono [OF good_match_canonicalized
              [OF assms(1) \<open>\<not> ends_flow i\<close> assms(2,4) same_frame_refl]]) simp
        then show ?thesis using that g' b(1) st sub it cs
          by (simp add: execute_backreference_def Let_def del: checked_sub_Some_iff)
      qed
      have sl: ?thesis if "\<not> ci"
      proof -
        obtain sl where sl: "op_slice lx (string_lexer e) (unat i1) (unat i2) = Some sl"
          using slice [OF s True le] by blast
        have fin: "good_outcome re is True e
            (res_bind (with_lexer e s') (\<lambda>e. Inr (Next (advance_instruction i e))))"
          if "\<exists>s''. s' = Some s'' \<and> ok s''" for s'
          using that adv(1) engine_ok_moves(1) [OF assms(4)]
          by (auto simp: with_lexer_def advance_instruction_def same_frame_moves engine_ok_moves
              intro!: engine_ok_moves(2) fetches_next [OF assms(1,2) \<open>\<not> ends_flow i\<close>])
        have "\<exists>s''. op_advance_n lx (string_lexer e) m = Some s'' \<and> ok s''"
          "\<exists>s''. op_advance_backwards_n lx (string_lexer e) m = Some s'' \<and> ok s''"
          using advance_n [OF s] advance_backwards_n [OF s] by blast+
        note fin = this [THEN fin]
        show ?thesis
        proof (cases d)
          case True
          then show ?thesis using that g' b(1) st sub sl slice_equals [OF s sl] bt fin(1)
            by (auto simp: execute_backreference_def Let_def simp del: checked_sub_Some_iff)
        next
          case False
          then show ?thesis using that g' b(1) st sub sl slice_equals [OF s sl] bt fin(2)
            by (auto simp: execute_backreference_def Let_def simp del: checked_sub_Some_iff
                split: option.splits)
        qed
      qed
      from ci sl show ?thesis by blast
    qed
  qed
qed

text \<open>One iteration on any instruction but a lookaround.\<close>

definition may_panic :: "bool \<Rightarrow> instr \<Rightarrow> bool" where
  "may_panic d i \<longleftrightarrow> is_backreference i \<or> \<not> d \<and> backwards_panics"

lemma good_step:
  assumes "program_ok re is" and "fetches is (instruction_index e) i" and "good re is e"
    and "\<not> is_lookaround i"
  shows "good_outcome re is (may_panic d i) e (step lx icu re d i e)"
proof -
  note adv = good_advance [OF assms(1,2)]
  note s = engine_ok_D(1) [OF assms(3)]
  note ops = fetches_operands [OF assms(1,2)]
  note consume = outcome_ok_mono [OF good_consume_if [OF assms(1,2) _ assms(3)]]
  note bt = good_backtrack_or_stop [OF assms(3) same_frame_refl]
  note adv_if = good_advance_if [OF assms(1,2) _ assms(3)]
  note adv_e = adv(1) [OF _ assms(3)] adv(2) [OF _ assms(3), of e]
  note nxt = fetches_next [OF assms(1,2)] assms(3)
  show ?thesis
  proof (cases i)
    case (IMarkCapturePoint k)
    then obtain e' where e': "push_capture_point e k (word_of_nat (op_pos lx (string_lexer e))) = Some e'"
      "good re is e'" "same_frame e e'" "instruction_index e' = instruction_index e"
      using push_capture_point_ok [OF assms(3) _ valid_pos [OF s]] ops by auto
    then show ?thesis using good_advance [OF assms(1) _ _ e'(2)] assms(2) IMarkCapturePoint by simp
  next
    case (IClearCapture g)
    then have "unat g \<le> num_capture_groups re" using ops by simp
    then obtain j k where jk: "checked_mul_u32 g 2 = Some j" "checked_add_u32 j 1 = Some k"
      "unat k < 2 * (num_capture_groups re + 1)"
      using checked_group_points [OF program_ok_size [OF assms(1)], of g] by auto
    then obtain e' where e': "push_capture_point e k EMPTY_STRING_INDEX = Some e'"
      "good re is e'" "same_frame e e'" "instruction_index e' = instruction_index e"
      using push_capture_point_ok [OF assms(3) jk(3)] by (auto simp: valid_index_def)
    then show ?thesis
      using good_advance [OF assms(1) _ _ e'(2)] assms(2) IClearCapture jk by simp
  next
    case (IProgress k)
    then have k: "unat k < compiled_num_progress_points re" using ops by simp
    then have "get_progress_point e k = Some (progress_points e ! unat k)"
      using engine_ok_D(3) [OF assms(3)]
      by (simp add: get_progress_point_def vec_get_def regs_ok_def regs_def)
    moreover obtain e' where e': "push_progress_point e k (word_of_nat (op_pos lx (string_lexer e))) = Some e'"
      "good re is e'" "same_frame e e'" "instruction_index e' = instruction_index e"
      using push_progress_point_ok [OF assms(3) k] by blast
    ultimately show ?thesis
      using good_advance [OF assms(1) _ _ e'(2)] assms(2) IProgress bt by (simp add: Let_def)
  next
    case (ILoop r m t)
    then have r: "unat r < compiled_num_loop_registers re" "unat t \<in> set (offsets is)"
      using ops by simp_all
    then have get: "get_loop_register e r = Some (loop_registers e ! unat r)"
      using engine_ok_D(3) [OF assms(3)]
      by (simp add: get_loop_register_def vec_get_def regs_ok_def regs_def)
    have push: "\<exists>e'. push_loop_register e r v = Some e' \<and> good re is (advance_instruction i e')
        \<and> same_frame e (advance_instruction i e') \<and> good re is (set_next_instruction t e')
        \<and> same_frame e (set_next_instruction t e')" for v
    proof -
      obtain e' where e': "push_loop_register e r v = Some e'"
        "good re is e'" "same_frame e e'" "instruction_index e' = instruction_index e"
        using push_loop_register_ok [OF assms(3) r(1)] by blast
      then show ?thesis
        using good_advance [OF assms(1) _ _ e'(2)] good_set_next(1) [OF e'(2) r(2)] good_set_next(2)
          assms(2) ILoop by auto
    qed
    obtain e1 e2 where "push_loop_register e r (loop_registers e ! unat r + 1) = Some e1"
      "good re is (advance_instruction i e1)" "same_frame e (advance_instruction i e1)"
      "push_loop_register e r 0 = Some e2"
      "good re is (set_next_instruction t e2)" "same_frame e (set_next_instruction t e2)"
      using push by metis
    then show ?thesis using ILoop get by simp
  next
    case (IBranch a b)
    then have "good re is (push_backtrack_restore_state lx e (unat b))"
      using ops s assms(3) engine_ok_D(4) [OF assms(3)]
      by (auto simp: push_backtrack_restore_state_def push_entry_def engine_ok_def at_instr_def)
    moreover have "same_frame e (push_backtrack_restore_state lx e (unat b))"
      using engine_ok_D(4) [OF assms(3)]
      by (intro same_frame_push [where b = "RestoreState (unat b) (op_save lx (string_lexer e))"])
        (simp_all add: push_backtrack_restore_state_def push_entry_def)
    ultimately show ?thesis using IBranch ops good_set_next by simp
  next
    case IAssertStartOrNewline
    then show ?thesis
      using adv_e adv_if peek_prev [OF s] by (cases d) (simp_all add: code_point_before_current_pos_def)
  next
    case IAssertEndOrNewline
    then show ?thesis
      using adv_e adv_if peek_next [OF s] by (cases d) (simp_all add: code_point_after_current_pos_def)
  next
    case IWordBoundaryMoveToPrevious
    let ?e = "e\<lparr>word_boundary_register := compare_register e\<rparr>"
    have "good re is ?e" by (rule engine_ok_moves(4) [OF assms(3)])
    then obtain s' where s': "no_advance_read_code_point_in_direction lx (\<not> d) ?e = Inr (?e\<lparr>string_lexer := s'\<rparr>)"
      "ok s'" using no_advance_read by blast
    then show ?thesis using IWordBoundaryMoveToPrevious nxt
      by (simp add: reset_compare_register_def advance_instruction_def engine_ok_moves same_frame_moves)
  next
    case IAssertWordBoundary
    obtain s' where s': "no_advance_read_code_point_in_direction lx d e = Inr (e\<lparr>string_lexer := s'\<rparr>)"
      "ok s'" using no_advance_read [OF assms(3)] by blast
    then show ?thesis using IAssertWordBoundary nxt bt
      by (simp add: reset_compare_register_def advance_instruction_def engine_ok_moves same_frame_moves)
  next
    case IAssertNotWordBoundary
    obtain s' where s': "no_advance_read_code_point_in_direction lx d e = Inr (e\<lparr>string_lexer := s'\<rparr>)"
      "ok s'" using no_advance_read [OF assms(3)] by blast
    then show ?thesis using IAssertNotWordBoundary nxt bt
      by (simp add: reset_compare_register_def advance_instruction_def engine_ok_moves same_frame_moves)
  next
    case (IBackreference ci g)
    then show ?thesis
      using good_execute_backreference [OF assms(1,2) _ assms(3)] by (simp add: may_panic_def)
  next
    case (ICompareEquals c)
    then show ?thesis using nxt
      by (simp add: advance_instruction_def engine_ok_moves same_frame_moves)
  next
    case (ICompareBetween c c')
    then show ?thesis using nxt
      by (simp add: advance_instruction_def engine_ok_moves same_frame_moves Let_def)
  qed (use assms ops good_set_next consume bt adv_if in \<open>simp_all add: may_panic_def\<close>)
qed

section \<open>Lookarounds\<close>

lemma good_enter_lookaround:
  assumes "program_ok re is" and "fetches is (instruction_index e) (ILookaround ahead positive body)"
    and "good re is e"
  shows "\<exists>e0. enter_lookaround lx ahead body e = Inr e0 \<and> good re is e0
     \<and> backtrack_stack e0 = backtrack_stack e
     \<and> backtrack_stack_base e0 = length (backtrack_stack e) \<and> regs e0 = regs e"
proof -
  let ?e = "e\<lparr>backtrack_stack_base := length (backtrack_stack e)\<rparr>"
  have "good re is ?e"
    using assms(3) stack_ok_enter by (auto simp: engine_ok_def)
  moreover have "unat body \<in> set (offsets is)"
    using fetches_operands [OF assms(1,2)] by simp
  ultimately have g: "good re is (set_next_instruction body ?e)"
    by (intro good_set_next(1))
  from no_advance_read [OF g, of ahead] obtain s where
    "no_advance_read_code_point_in_direction lx ahead (set_next_instruction body ?e)
       = Inr ((set_next_instruction body ?e)\<lparr>string_lexer := s\<rparr>)" "ok s" by blast
  then show ?thesis
    using engine_ok_moves(1) [OF g] by (simp add: enter_lookaround_def set_next_instruction_def)
qed

lemma same_frame_entered:
  assumes "same_frame e0 e'" and "backtrack_stack e0 = st" and "backtrack_stack_base e0 = length st"
  shows "backtrack_stack_base e' = length st" and "below_frame e' = st"
    and "unwind (frame_entries e') (regs e') = regs e0"
proof -
  have "below_frame e0 = st" "frame_regs e0 = regs e0"
    using assms(2,3) by (simp_all add: below_frame_def frame_regs_def frame_entries_def)
  then show "backtrack_stack_base e' = length st" "below_frame e' = st"
    "unwind (frame_entries e') (regs e') = regs e0"
    using assms(1,3) by (auto simp only: same_frame_def frame_regs_def [symmetric])
qed

lemma good_leave_lookaround:
  assumes "program_ok re is" and "fetches is (instruction_index e) i" and "\<not> ends_flow i"
    and "good re is e" and "good re is e'"
    and e0: "backtrack_stack e0 = backtrack_stack e"
      "backtrack_stack_base e0 = length (backtrack_stack e)" "regs e0 = regs e"
    and "same_frame e0 e'"
    and "\<not> is_match \<longrightarrow> length (backtrack_stack e') = backtrack_stack_base e'"
  shows "good_outcome re is False e (leave_lookaround lx i positive e is_match e')"
proof -
  have frame: "backtrack_stack_base e' = length (backtrack_stack e)"
    "below_frame e' = backtrack_stack e" "unwind (frame_entries e') (regs e') = regs e"
    using same_frame_entered [OF assms(9) e0(1,2)] e0(3) by simp_all
  define pre where "pre = frame_entries e'"
  have st: "backtrack_stack e' = pre @ backtrack_stack e"
    using frame(2) by (metis pre_def frame_entries_def below_frame_def append_take_drop_id)
  define e1 where "e1 =
     (if is_match then push_entry (RestoreBacktrackStack (length (backtrack_stack e))) e' else e')
       \<lparr>backtrack_stack_base := backtrack_stack_base e\<rparr>"
  let ?so = "\<lambda>index saved. at_instr is index \<and> (\<exists>s. ok s \<and> saved = op_save lx s)"
  have "stack_ok ?so (length inp) re (backtrack_stack_base e) (pre @ backtrack_stack e)"
  proof (rule stack_ok_leave)
    show "stack_ok ?so (length inp) re (length (backtrack_stack e)) (pre @ backtrack_stack e)"
      using assms(5) unfolding engine_ok_def st frame(1) by blast
    show "backtrack_stack_base e \<le> length (backtrack_stack e)"
      by (rule engine_ok_D(4) [OF assms(4)])
    show "stack_ok ?so (length inp) re (backtrack_stack_base e) (backtrack_stack e)"
      using assms(4) unfolding engine_ok_def by blast
  qed
  then have g1: "good re is e1"
    using assms(4,5) st by (simp add: e1_def push_entry_def engine_ok_def)
  have sf1: "same_frame e e1"
  proof (cases is_match)
    case True
    then show ?thesis
      using st frame(3) engine_ok_D(4) [OF assms(4)]
      by (intro same_frame_grown [where pre = "RestoreBacktrackStack (length (backtrack_stack e)) # pre"])
        (simp_all add: e1_def push_entry_def pre_def)
  next
    case False
    then show ?thesis
      using st frame(3) engine_ok_D(4) [OF assms(4)]
      by (intro same_frame_grown [where pre = pre]) (simp_all add: e1_def pre_def)
  qed
  have ok: "op_restore lx (string_lexer e1) (op_save lx (string_lexer e)) = string_lexer e"
    by (rule restore_save [OF engine_ok_D(1) [OF assms(4)] engine_ok_D(1) [OF g1]])
  have sz: "\<not> (\<not> is_match \<and> length (backtrack_stack e') \<noteq> length (backtrack_stack e))"
    using assms(10) frame(1) by auto
  have "leave_lookaround lx i positive e is_match e' =
      (if is_match = positive
       then Inr (Next (e1\<lparr>string_lexer := string_lexer e,
         instruction_index := instruction_index e + instr_size i\<rparr>))
       else backtrack_or_stop lx e1 id)"
    using sz ok by (cases is_match) (simp_all add: leave_lookaround_def Let_def e1_def)
  moreover have "good re is (e1\<lparr>string_lexer := string_lexer e,
         instruction_index := instruction_index e + instr_size i\<rparr>)"
    by (intro engine_ok_moves(1,2) g1 engine_ok_D(1) [OF assms(4)] fetches_next [OF assms(1-3)])
  ultimately show ?thesis
    using sf1 good_backtrack_or_stop [OF g1 sf1, of id] by (simp add: same_frame_moves)
qed

section \<open>Whole executions\<close>

definition program_panics :: "instr list \<Rightarrow> bool" where
  "program_panics is \<longleftrightarrow> (\<exists>i \<in> set is. is_backreference i) \<or> backwards_panics"

lemma may_panic_program: "fetches is p i \<Longrightarrow> may_panic d i \<Longrightarrow> program_panics is"
  using fetches_in_set by (auto simp: may_panic_def program_panics_def)

definition result_ok ::
  "compiled_regexp \<Rightarrow> instr list \<Rightarrow> 's engine \<Rightarrow> (bool \<times> 's engine) res \<Rightarrow> bool" where
  "result_ok re is e r \<longleftrightarrow>
     (case r of
        Inl f \<Rightarrow> f = No_Fuel \<or> f = Panic \<and> program_panics is
      | Inr (found, e') \<Rightarrow> good re is e' \<and> same_frame e e'
          \<and> (\<not> found \<longrightarrow> length (backtrack_stack e') = backtrack_stack_base e'))"

lemma result_ok_simps [simp]:
  "result_ok re is e (Inl f) \<longleftrightarrow> f = No_Fuel \<or> f = Panic \<and> program_panics is"
  "result_ok re is e (Inr (found, e')) \<longleftrightarrow> good re is e' \<and> same_frame e e'
     \<and> (\<not> found \<longrightarrow> length (backtrack_stack e') = backtrack_stack_base e')"
  by (simp_all add: result_ok_def)

lemma exec_continue:
  assumes "good_outcome re is panics e r" and "panics \<Longrightarrow> program_panics is"
    and "\<And>e'. good re is e' \<Longrightarrow> result_ok re is e' (exec lx icu re fuel d e')"
  shows "result_ok re is e (res_bind r (\<lambda>outcome. case outcome of
     Stop found e \<Rightarrow> Inr (found, e) | Next e \<Rightarrow> exec lx icu re fuel d e))"
proof (cases r)
  case (Inl f)
  then show ?thesis using assms(1,2) by simp
next
  case (Inr out)
  show ?thesis
  proof (cases out)
    case (Stop found e')
    then show ?thesis using assms(1) Inr by simp
  next
    case (Next e')
    then have e': "good re is e'" "same_frame e e'" using assms(1) Inr by simp_all
    from assms(3) [OF e'(1)] show ?thesis
      using Next Inr same_frame_trans [OF e'(2)]
      by (auto simp: result_ok_def split: sum.splits)
  qed
qed

lemma exec_ok:
  assumes "program_ok re is"
  shows "good re is e \<Longrightarrow> result_ok re is e (exec lx icu re fuel d e)"
proof (induction fuel arbitrary: d e)
  case 0
  then show ?case by simp
next
  case (Suc fuel)
  note continue = exec_continue [OF _ _ Suc.IH]
  from engine_ok_D(2) [OF Suc.prems] obtain i where f: "fetches is (instruction_index e) i"
    by (auto simp: at_instr_fetches)
  note dec = fetches_decode [OF assms f]
  show ?case
  proof (cases "is_lookaround i")
    case False
    then have "exec lx icu re (Suc fuel) d e =
       res_bind (step lx icu re d i e) (\<lambda>outcome. case outcome of
         Stop found e \<Rightarrow> Inr (found, e) | Next e \<Rightarrow> exec lx icu re fuel d e)"
      using dec by (cases i) simp_all
    then show ?thesis
      using continue [OF good_step [OF assms f Suc.prems False] may_panic_program [OF f]] by simp
  next
    case True
    then obtain ahead positive body where i: "i = ILookaround ahead positive body"
      by (cases i) auto
    obtain e0 where e0: "enter_lookaround lx ahead body e = Inr e0" "good re is e0"
      "backtrack_stack e0 = backtrack_stack e" "backtrack_stack_base e0 = length (backtrack_stack e)"
      "regs e0 = regs e"
      using good_enter_lookaround [OF assms _ Suc.prems] f i by blast
    note sub = Suc.IH [OF e0(2), of ahead]
    show ?thesis
    proof (cases "exec lx icu re fuel ahead e0")
      case (Inl x)
      then show ?thesis using sub dec i e0(1) by simp
    next
      case (Inr r)
      obtain is_match e' where r: "r = (is_match, e')" by (cases r)
      have "good_outcome re is False e (leave_lookaround lx i positive e is_match e')"
        using sub Inr r i
        by (intro good_leave_lookaround [OF assms f _ Suc.prems _ e0(3-5)]) simp_all
      from continue [OF this, of d] show ?thesis using dec i e0(1) Inr r by simp
    qed
  qed
qed

text \<open>Running out of alternatives undoes the whole frame.\<close>

lemma exec_fail_restores:
  assumes "program_ok re is" and "good re is e"
    and "exec lx icu re fuel d e = Inr (False, e')"
  shows "regs e' = frame_regs e" and "backtrack_stack e' = below_frame e"
proof -
  have r: "same_frame e e'" "length (backtrack_stack e') = backtrack_stack_base e'"
    using exec_ok [OF assms(1,2), of icu fuel d] assms(3) by simp_all
  then have "frame_entries e' = []" "below_frame e' = backtrack_stack e'"
    by (simp_all add: frame_entries_def below_frame_def)
  then show "regs e' = frame_regs e" "backtrack_stack e' = below_frame e"
    using r(1) by (auto simp: same_frame_def frame_regs_def)
qed

text \<open>A lookaround whose body does not match leaves the registers and the stack as they were.\<close>

lemma failed_lookaround_restores:
  assumes "program_ok re is" and "good re is e"
    and "fetches is (instruction_index e) (ILookaround ahead positive body)"
    and "enter_lookaround lx ahead body e = Inr e0"
    and "exec lx icu re fuel ahead e0 = Inr (False, e')"
  shows "regs e' = regs e" and "backtrack_stack e' = backtrack_stack e"
proof -
  have e0: "good re is e0" "backtrack_stack e0 = backtrack_stack e"
    "backtrack_stack_base e0 = length (backtrack_stack e)" "regs e0 = regs e"
    using good_enter_lookaround [OF assms(1,3,2)] assms(4) by auto
  then have "frame_regs e0 = regs e" "below_frame e0 = backtrack_stack e"
    by (simp_all add: frame_regs_def frame_entries_def below_frame_def)
  then show "regs e' = regs e" "backtrack_stack e' = backtrack_stack e"
    using exec_fail_restores [OF assms(1) e0(1) assms(5)] by simp_all
qed

text \<open>A lookaround that succeeds goes on where it started: it consumes nothing.\<close>

lemma lookaround_zero_width:
  assumes "good re is e" and "ok (string_lexer e')"
    and "leave_lookaround lx i positive e is_match e' = Inr (Next e'')" and "is_match = positive"
  shows "string_lexer e'' = string_lexer e" and "instruction_index e'' = instruction_index e + instr_size i"
  using assms restore_save [OF engine_ok_D(1) [OF assms(1)], of "string_lexer e'"]
  by (auto simp: leave_lookaround_def Let_def push_entry_def split: if_splits)

section \<open>Matching\<close>

lemma good_new_engine:
  assumes "program_ok re is" and "ok s"
  shows "good re is (new_engine re s)"
proof -
  have "offset is 0 \<in> set (offsets is)" using assms(1) by (force simp: offsets_def program_ok_def)
  then show ?thesis
    using assms by (simp add: engine_ok_def new_engine_def at_instr_def regs_ok_def regs_def
        valid_index_def)
qed

definition match_ok :: "compiled_regexp \<Rightarrow> regexp_match \<Rightarrow> bool" where
  "match_ok re m \<longleftrightarrow> length m = num_capture_groups re + 1
     \<and> (\<forall>s t. Some (s, t) \<in> set m \<longrightarrow> unat s \<le> length inp \<and> unat t \<le> length inp)"

lemma build_match_ok:
  assumes "program_ok re is" and "good re is e"
  shows "\<exists>m. build_match re e = Some m \<and> match_ok re m"
proof -
  let ?bounds = "\<lambda>i. get_valid_capture_bounds e (word_of_nat i)"
  have b: "\<exists>r. ?bounds i = Some r
      \<and> (\<forall>s t. r = Some (s, t) \<longrightarrow> unat s \<le> length inp \<and> unat t \<le> length inp)"
    if "i < num_capture_groups re + 1" for i
    using capture_bounds_ok [OF assms, of "word_of_nat i"] unat_word_of_nat_le [of i] that
    by (auto intro: le_trans)
  have "\<forall>i \<in> set is. i < num_capture_groups re + 1 \<Longrightarrow>
      \<exists>m. those (map ?bounds is) = Some m \<and> length m = length is
        \<and> (\<forall>s t. Some (s, t) \<in> set m \<longrightarrow> unat s \<le> length inp \<and> unat t \<le> length inp)" for "is"
  proof (induction "is")
    case (Cons i "is")
    then obtain r m where "?bounds i = Some r"
      "\<forall>s t. r = Some (s, t) \<longrightarrow> unat s \<le> length inp \<and> unat t \<le> length inp"
      "those (map ?bounds is) = Some m" "length m = length is"
      "\<forall>s t. Some (s, t) \<in> set m \<longrightarrow> unat s \<le> length inp \<and> unat t \<le> length inp"
      using b [of i] by auto
    then show ?case by auto
  qed simp
  from this [of "[0..<num_capture_groups re + 1]"] show ?thesis
    by (auto simp: build_match_def match_ok_def)
qed

lemma match_lexer_stream_ok:
  assumes "program_ok re is" and "ok s"
  shows "case match_lexer_stream lx icu re fuel s start_index of
      Inl f \<Rightarrow> f = No_Fuel \<or> f = Panic \<and> program_panics is
    | Inr None \<Rightarrow> True
    | Inr (Some m) \<Rightarrow> match_ok re m"
proof -
  obtain s' where s': "op_advance_n lx s start_index = Some s'" "ok s'"
    using advance_n [OF assms(2)] by blast
  note r = exec_ok [OF assms(1) good_new_engine [OF assms(1) s'(2)], of icu fuel True]
  show ?thesis
  proof (cases "exec lx icu re fuel True (new_engine re s')")
    case (Inl f)
    then show ?thesis using r s'(1) by (simp add: match_lexer_stream_def run_def)
  next
    case (Inr res)
    obtain found e' where res: "res = (found, e')" by (cases res)
    then have "good re is e'" using r Inr by simp
    from build_match_ok [OF assms(1) this] show ?thesis
      using Inr res s'(1) by (auto simp: match_lexer_stream_def run_def)
  qed
qed

end

context lexer_stream
begin

lemma no_backwards_panic: "\<not> backwards_panics"
  using advance_backwards_code_point_ok by (fastforce simp: backwards_panics_def)

end

section \<open>More fuel\<close>

lemma exec_more_fuel:
  "exec lx icu re n d e = r \<Longrightarrow> r \<noteq> Inl No_Fuel \<Longrightarrow> exec lx icu re (n + k) d e = r"
proof (induction n arbitrary: d e r)
  case 0
  then show ?case by simp
next
  case (Suc n)
  let ?next = "\<lambda>m d outcome. case outcome of
     Stop found e \<Rightarrow> Inr (found, e) | Next e \<Rightarrow> exec lx icu re m d e"
  have cont: "res_bind x (?next (n + k) d) = res_bind x (?next n d)"
    if "res_bind x (?next n d) \<noteq> Inl No_Fuel" for x d
    using that Suc.IH by (cases x) (auto split: outcome.splits)
  show ?case
  proof (cases "decode_instr (instructions re) (instruction_index e)")
    case None
    then show ?thesis using Suc.prems by simp
  next
    case (Some i)
    show ?thesis
    proof (cases "is_lookaround i")
      case False
      then show ?thesis using Suc.prems Some cont [of "step lx icu re d i e" d]
        by (cases i) simp_all
    next
      case True
      then obtain ahead positive body where i: "i = ILookaround ahead positive body"
        by (cases i) auto
      let ?sub = "\<lambda>m. res_bind (enter_lookaround lx ahead body e) (\<lambda>e0.
         res_bind (exec lx icu re m ahead e0) (\<lambda>(is_match, e').
         leave_lookaround lx i positive e is_match e'))"
      have "?sub (n + k) = ?sub n" if "?sub n \<noteq> Inl No_Fuel"
      proof (cases "enter_lookaround lx ahead body e")
        case (Inr e0)
        then have "exec lx icu re n ahead e0 \<noteq> Inl No_Fuel" using that by auto
        then show ?thesis using Suc.IH [of ahead e0] Inr by simp
      qed simp
      moreover have "?sub n \<noteq> Inl No_Fuel"
        using Suc.prems Some i by auto
      ultimately show ?thesis
        using Suc.prems Some i cont [of "?sub n" d] by simp
    qed
  qed
qed

end
