(* ===== verification/Regexp_Compiler_Safety.thy ===== *)
theory Regexp_Compiler_Safety
  imports Regexp_Compiler Regexp_Safety
begin

text \<open>
  What \<open>runtime/regexp/compiler.rs\<close> guarantees for every syntax tree: the bytecode it writes is
  the well-formed program (\<open>program_ok\<close>) that the engine relies on.

  The first part is \<open>flatten_and_fix_indices\<close>: on blocks that are lists of instructions it writes
  the instructions one after the other, with each block id replaced by the start of the block.  The
  second part is an invariant of the builder that every emitter keeps.
\<close>

section \<open>Flattening\<close>

fun relocate :: "u32 list \<Rightarrow> instr \<Rightarrow> instr" where
  "relocate ids (IJump t) = IJump (ids ! unat t)"
| "relocate ids (IBranch a b) = IBranch (ids ! unat a) (ids ! unat b)"
| "relocate ids (ILoop r m t) = ILoop r m (ids ! unat t)"
| "relocate ids (ILookaround ahead positive t) = ILookaround ahead positive (ids ! unat t)"
| "relocate ids i = i"

text \<open>The block ids that an instruction refers to.\<close>

fun block_refs :: "instr \<Rightarrow> nat list" where
  "block_refs (IJump t) = [unat t]"
| "block_refs (IBranch a b) = [unat a, unat b]"
| "block_refs (ILoop r m t) = [unat t]"
| "block_refs (ILookaround ahead positive t) = [unat t]"
| "block_refs i = []"

lemma relocate_simps [simp]:
  "opcode_of (relocate ids i) = opcode_of i"
  "operands_fit (relocate ids i) = operands_fit i"
  "ends_flow (relocate ids i) = ends_flow i"
  by (cases i; simp)+

lemma flat_relocate [simp]: "length (flat (map (relocate ids) is)) = length (flat is)"
  by (induction "is") simp_all

lemma offset_relocate [simp]: "offset (map (relocate ids) is) k = offset is k"
  by (simp add: offset_def take_map)

lemma fix_word_append:
  assumes "k < length zs" and "unat (zs ! k) < length ids"
  shows "fix_word ids (length xs + k) (xs @ zs) = Some (xs @ zs[k := ids ! unat (zs ! k)])"
  using assms by (simp add: fix_word_def nth_append list_update_append vec_get_def vec_set_def)

lemma fix_instr_relocates:
  assumes "operands_fit i" and "\<forall>t \<in> set (block_refs i). t < length ids"
  shows "fix_instr ids (length xs) (xs @ encode i @ ys) = Some (xs @ encode (relocate ids i) @ ys)"
  using assms(2) opcode_at_encode [OF assms(1), of xs ys]
    fix_word_append [of 1 "encode i @ ys" ids xs] fix_word_append [of 3 "encode i @ ys" ids xs]
  by (cases i)
     (simp_all add: fix_instr_def fix_word_append [of "Suc 0" _ ids xs, simplified]
        fix_word_append [of "Suc (Suc 0)" _ ids xs, simplified] Let_def)

lemma fix_instrs_relocates:
  assumes "\<forall>i \<in> set is. operands_fit i \<and> (\<forall>t \<in> set (block_refs i). t < length ids)"
    and "k \<le> length is"
  shows "fix_instrs ids (map (offset is) [k..<length is])
      (flat (map (relocate ids) (take k is) @ drop k is)) = Some (flat (map (relocate ids) is))"
  using assms(2)
proof (induction "length is - k" arbitrary: k)
  case 0
  then have "k = length is" by simp
  then show ?case by simp
next
  case (Suc n)
  then have k: "k < length is" by simp
  let ?xs = "flat (map (relocate ids) (take k is))" and ?ys = "flat (drop (Suc k) is)"
  have split: "flat (map (relocate ids) (take k is) @ drop k is) = ?xs @ encode (is ! k) @ ?ys"
    using k by (simp add: Cons_nth_drop_Suc [symmetric])
  have off: "offset is k = length ?xs" by (simp add: offset_def)
  have "fix_instr ids (offset is k) (flat (map (relocate ids) (take k is) @ drop k is))
      = Some (?xs @ encode (relocate ids (is ! k)) @ ?ys)"
    unfolding split off using assms(1) k by (intro fix_instr_relocates) auto
  moreover have "?xs @ encode (relocate ids (is ! k)) @ ?ys
      = flat (map (relocate ids) (take (Suc k) is) @ drop (Suc k) is)"
    using k by (simp add: take_Suc_conv_app_nth)
  ultimately show ?case
    using Suc k by (simp add: upt_conv_Cons)
qed

lemma length_block_starts [simp]: "length (block_starts blks n) = length blks"
  by (induction blks arbitrary: n) simp_all

lemma block_starts_nth:
  "k < length blks \<Longrightarrow> block_starts blks n ! k = n + length (concat (take k blks))"
  by (induction blks arbitrary: n k) (auto simp: nth_Cons split: nat.splits)

lemma length_id_map [simp]: "length (id_map blks) = length blks"
  by (simp add: id_map_def)

text \<open>Blocks of instructions, flattened: every instruction in order, every block id resolved.\<close>

lemma concat_flat: "concat (map flat iss) = flat (concat iss)"
  by (induction iss) simp_all

lemma flatten_relocates:
  assumes "\<forall>i \<in> set (concat iss). operands_fit i \<and> (\<forall>t \<in> set (block_refs i). t < length iss)"
  shows "flatten_and_fix_indices (map flat iss)
    = Some (flat (map (relocate (id_map (map flat iss))) (concat iss)))"
proof -
  have "iter_offsets (concat (map flat iss)) 0
      = Some (map (offset (concat iss)) [0..<length (concat iss)])"
    using iter_offsets_flat [of "concat iss" 0] assms by (simp add: concat_flat)
  moreover have "fix_instrs (id_map (map flat iss))
      (map (offset (concat iss)) [0..<length (concat iss)]) (flat (concat iss))
    = Some (flat (map (relocate (id_map (map flat iss))) (concat iss)))"
    using fix_instrs_relocates [of "concat iss" "id_map (map flat iss)" 0] assms by simp
  ultimately show ?thesis by (simp add: flatten_and_fix_indices_def concat_flat)
qed

text \<open>The start of a block is the start of an instruction, unless only empty blocks follow.\<close>

lemma block_start_offset:
  assumes "k < length iss" and "last iss \<noteq> []" and "length (flat (concat iss)) < 2 ^ 32"
  shows "unat (id_map (map flat iss) ! k) \<in> set (offsets (concat iss))"
proof -
  let ?m = "length (concat (take k iss))"
  have split: "concat iss = concat (take k iss) @ concat (drop k iss)"
    by (metis append_take_drop_id concat_append)
  have "last iss \<in> set (drop k iss)"
    using assms(1) by (metis last_drop last_in_set drop_eq_Nil not_le)
  then have "concat (drop k iss) \<noteq> []" using assms(2) by auto
  then have m: "?m < length (concat iss)" by (subst split) simp
  have "concat (take k (map flat iss)) = flat (concat (take k iss))"
    by (simp add: take_map concat_flat)
  also have "\<dots> = flat (take ?m (concat iss))" by (subst split) simp
  finally have "length (concat (take k (map flat iss))) = offset (concat iss) ?m"
    by (simp add: offset_def)
  moreover have "offset (concat iss) ?m < 2 ^ 32"
    using offset_less_length [OF m] assms(3) by linarith
  ultimately have "unat (id_map (map flat iss) ! k) = offset (concat iss) ?m"
    using assms(1) by (simp add: id_map_def block_starts_nth unat_of_nat_small)
  then show ?thesis using m by (auto simp: offsets_def)
qed

section \<open>The builder's invariant\<close>

text \<open>
  \<open>builder_ok nc S b\<close>: every block is a list of instructions whose block ids, registers and groups
  (of \<open>nc\<close>) exist, and every block outside \<open>S\<close> is settled: it ends in a jump, a branch, an accept
  or a fail, or it is the patch block of a quantifier, which falls through to the block behind it.
  \<open>S\<close> is the set of the blocks that are still open.
\<close>

definition instr_ok :: "nat \<Rightarrow> builder \<Rightarrow> instr \<Rightarrow> bool" where
  "instr_ok nc b i \<longleftrightarrow> operands_fit i
     \<and> operands_ok [0..<length (blocks b)] nc (unat (num_progress_points b))
         (unat (num_loop_registers b)) i"

definition code_ok :: "nat \<Rightarrow> builder \<Rightarrow> u32 list \<Rightarrow> bool" where
  "code_ok nc b blk \<longleftrightarrow> (\<exists>is. blk = flat is \<and> (\<forall>i \<in> set is. instr_ok nc b i))"

definition closed_code :: "nat \<Rightarrow> builder \<Rightarrow> u32 list \<Rightarrow> bool" where
  "closed_code nc b blk \<longleftrightarrow>
     (\<exists>is i. blk = flat is @ encode i \<and> (\<forall>j \<in> set is. instr_ok nc b j) \<and> instr_ok nc b i \<and> ends_flow i)"

definition patch_code :: "u32 list \<Rightarrow> bool" where
  "patch_code blk \<longleftrightarrow> blk = [] \<or> (\<exists>p. blk = encode (IProgress p))"

definition settled :: "nat \<Rightarrow> builder \<Rightarrow> nat \<Rightarrow> bool" where
  "settled nc b k \<longleftrightarrow> closed_code nc b (blocks b ! k)
     \<or> Suc k < length (blocks b) \<and> patch_code (blocks b ! k)"

definition builder_ok :: "nat \<Rightarrow> nat set \<Rightarrow> builder \<Rightarrow> bool" where
  "builder_ok nc S b \<longleftrightarrow> S \<subseteq> {..<length (blocks b)}
     \<and> (\<forall>k < length (blocks b). code_ok nc b (blocks b ! k) \<and> (k \<notin> S \<longrightarrow> settled nc b k))"

text \<open>\<open>ext F b b'\<close>: blocks and registers were added, the blocks \<open>F\<close> and the context stacks are as
  before.\<close>

definition ext :: "nat set \<Rightarrow> builder \<Rightarrow> builder \<Rightarrow> bool" where
  "ext F b b' \<longleftrightarrow> length (blocks b) \<le> length (blocks b')
     \<and> unat (num_progress_points b) \<le> unat (num_progress_points b')
     \<and> unat (num_loop_registers b) \<le> unat (num_loop_registers b')
     \<and> (\<forall>k \<in> F. blocks b' ! k = blocks b ! k)
     \<and> flag_stack b' = flag_stack b \<and> direction_stack b' = direction_stack b
     \<and> repitition_depth b' = repitition_depth b"

lemma ext_refl [simp]: "ext F b b"
  by (simp add: ext_def)

lemma ext_trans [trans]: "ext F b b' \<Longrightarrow> ext F b' b'' \<Longrightarrow> ext F b b''"
  by (auto simp: ext_def)

lemma ext_mono: "ext F b b' \<Longrightarrow> G \<subseteq> F \<Longrightarrow> ext G b b'"
  by (auto simp: ext_def)

lemma ext_length: "ext F b b' \<Longrightarrow> length (blocks b) \<le> length (blocks b')"
  by (simp add: ext_def)

lemma ext_block: "ext F b b' \<Longrightarrow> k \<in> F \<Longrightarrow> blocks b' ! k = blocks b ! k"
  by (simp add: ext_def)

lemma instr_ok_mono:
  assumes "instr_ok nc b i" and "ext F b b'"
  shows "instr_ok nc b' i"
  using assms by (cases i) (auto simp: instr_ok_def ext_def)

lemma code_ok_mono: "code_ok nc b blk \<Longrightarrow> ext F b b' \<Longrightarrow> code_ok nc b' blk"
  unfolding code_ok_def using instr_ok_mono by blast

lemma closed_code_mono: "closed_code nc b blk \<Longrightarrow> ext F b b' \<Longrightarrow> closed_code nc b' blk"
  unfolding closed_code_def using instr_ok_mono by metis

lemma settled_mono:
  "settled nc b k \<Longrightarrow> ext F b b' \<Longrightarrow> blocks b' ! k = blocks b ! k \<Longrightarrow> settled nc b' k"
  unfolding settled_def using closed_code_mono ext_length by (metis order_less_le_trans)

lemma closed_code_ok: "closed_code nc b blk \<Longrightarrow> code_ok nc b blk"
proof -
  assume "closed_code nc b blk"
  then obtain "is" i where "blk = flat (is @ [i])" "\<forall>j \<in> set (is @ [i]). instr_ok nc b j"
    by (auto simp: closed_code_def)
  then show ?thesis unfolding code_ok_def by blast
qed

lemma builder_ok_block: "builder_ok nc S b \<Longrightarrow> k \<in> S \<Longrightarrow> k < length (blocks b)"
  by (auto simp: builder_ok_def)

lemma builder_ok_fresh: "builder_ok nc S b \<Longrightarrow> length (blocks b) \<notin> S"
  by (auto simp: builder_ok_def)

text \<open>Only the blocks and the counters matter.\<close>

lemma builder_ok_cong:
  assumes "blocks b' = blocks b" and "num_progress_points b' = num_progress_points b"
    and "num_loop_registers b' = num_loop_registers b"
  shows "builder_ok nc S b' = builder_ok nc S b"
  using assms
  by (simp add: builder_ok_def settled_def code_ok_def closed_code_def instr_ok_def)

lemma set_current_simps [simp]:
  "blocks (set_current_block k b) = blocks b"
  "current_block_id (set_current_block k b) = k"
  "num_progress_points (set_current_block k b) = num_progress_points b"
  "num_loop_registers (set_current_block k b) = num_loop_registers b"
  "flag_stack (set_current_block k b) = flag_stack b"
  "direction_stack (set_current_block k b) = direction_stack b"
  "repitition_depth (set_current_block k b) = repitition_depth b"
  by (simp_all add: set_current_block_def)

lemma set_current_ok [simp]:
  "builder_ok nc S (set_current_block k b) = builder_ok nc S b"
  "ext F (set_current_block k b) b' = ext F b b'"
  "ext F b (set_current_block k b') = ext F b b'"
  "is_in_repitition (set_current_block k b) = is_in_repitition b"
  by (rule builder_ok_cong) (simp_all add: ext_def is_in_repitition_def)

subsection \<open>Primitive operations\<close>

lemma new_block_ok:
  assumes "builder_ok nc S b" and "new_block b = (k, b')"
  shows "builder_ok nc (insert k S) b'" and "k = length (blocks b)" and "k \<notin> S"
    and "ext S b b'" and "blocks b' ! k = []" and "current_block_id b' = current_block_id b"
    and "length (blocks b') = Suc k"
proof -
  have b': "b' = b\<lparr>blocks := blocks b @ [[]]\<rparr>" and k: "k = length (blocks b)"
    using assms(2) by (auto simp: new_block_def)
  show e: "ext S b b'"
    using assms(1) by (auto simp: ext_def b' nth_append builder_ok_def)
  have old: "blocks b' ! j = blocks b ! j" if "j < length (blocks b)" for j
    using that by (simp add: b' nth_append)
  have new: "blocks b' ! k = []" by (simp add: b' k)
  have "code_ok nc b' []" unfolding code_ok_def by (rule exI [of _ "[]"]) simp
  then show "builder_ok nc (insert k S) b'"
    using assms(1) old new e code_ok_mono [OF _ e] settled_mono [OF _ e]
    by (auto simp: builder_ok_def b' k less_Suc_eq)
  show "k = length (blocks b)" "k \<notin> S" "blocks b' ! k = []"
    "current_block_id b' = current_block_id b" "length (blocks b') = Suc k"
    using assms(1) new k builder_ok_fresh by (auto simp: b')
qed

lemma emit_instr_blocks:
  assumes "emit_instr i b = Some b'"
  shows "b' = b\<lparr>blocks := (blocks b)[current_block_id b := blocks b ! current_block_id b @ encode i]\<rparr>"
    and "current_block_id b < length (blocks b)"
  using assms by (auto simp: emit_instr_def bind_eq_Some_conv)

lemma emit_instr_ext:
  assumes "emit_instr i b = Some b'" and "current_block_id b \<notin> F"
  shows "ext F b b'"
  using assms(2) emit_instr_blocks [OF assms(1)] by (auto simp: ext_def nth_list_update)

lemma emit_instr_current: "emit_instr i b = Some b' \<Longrightarrow> current_block_id b' = current_block_id b"
  by (drule emit_instr_blocks(1)) simp

lemma builder_ok_change:
  assumes "builder_ok nc S b" and e: "ext F b b'" and "length (blocks b') = length (blocks b)"
    and old: "\<And>k. k \<noteq> c \<Longrightarrow> blocks b' ! k = blocks b ! k" and "code_ok nc b' (blocks b' ! c)"
    and "S' \<subseteq> S" and "S - {c} \<subseteq> S'" and "c \<notin> S' \<Longrightarrow> settled nc b' c"
  shows "builder_ok nc S' b'"
  unfolding builder_ok_def
proof (intro conjI allI impI)
  show "S' \<subseteq> {..<length (blocks b')}" using assms(1,3,6) by (auto simp: builder_ok_def)
  fix k assume k: "k < length (blocks b')"
  show "code_ok nc b' (blocks b' ! k)"
    using assms(1,3,5) k old code_ok_mono [OF _ e] by (cases "k = c") (auto simp: builder_ok_def)
  assume "k \<notin> S'"
  show "settled nc b' k"
  proof (cases "k = c")
    case False
    then have "settled nc b k" using assms(1,3,7) k \<open>k \<notin> S'\<close> by (auto simp: builder_ok_def)
    then show ?thesis by (rule settled_mono [OF _ e old [OF False]])
  qed (use assms(8) \<open>k \<notin> S'\<close> in simp)
qed

lemma emit_instr_ok:
  assumes "builder_ok nc S b" and "emit_instr i b = Some b'" and "current_block_id b \<in> S"
    and "instr_ok nc b i"
  shows "builder_ok nc S b'"
    and "ends_flow i \<Longrightarrow> builder_ok nc (S - {current_block_id b}) b'"
proof -
  let ?c = "current_block_id b"
  note b' = emit_instr_blocks(1) [OF assms(2)]
  have c: "?c < length (blocks b)" by (rule emit_instr_blocks(2) [OF assms(2)])
  have e: "ext (- {?c}) b b'" by (rule emit_instr_ext [OF assms(2)]) simp
  have i: "instr_ok nc b' i" by (rule instr_ok_mono [OF assms(4) e])
  have len: "length (blocks b') = length (blocks b)" by (simp add: b')
  have old: "blocks b' ! k = blocks b ! k" if "k \<noteq> ?c" for k
    using that by (simp add: b')
  have new: "blocks b' ! ?c = blocks b ! ?c @ encode i" using c by (simp add: b')
  obtain "is" where code: "blocks b ! ?c = flat is" "\<forall>j \<in> set is. instr_ok nc b' j"
    using assms(1) c code_ok_mono [OF _ e] unfolding builder_ok_def code_ok_def by metis
  have "blocks b' ! ?c = flat (is @ [i])" by (simp add: new code)
  then have ok: "code_ok nc b' (blocks b' ! ?c)"
    unfolding code_ok_def using code(2) i by (intro exI [of _ "is @ [i]"]) auto
  show "builder_ok nc S b'"
    by (rule builder_ok_change [OF assms(1) e len old ok]) (use assms(3) in auto)
  assume "ends_flow i"
  then have "closed_code nc b' (blocks b' ! ?c)"
    using code i unfolding closed_code_def new by auto
  then show "builder_ok nc (S - {?c}) b'"
    by (intro builder_ok_change [OF assms(1) e len old ok]) (auto simp: settled_def)
qed

text \<open>A patch block is settled once a block lies behind it.\<close>

lemma builder_ok_patch:
  assumes "builder_ok nc (insert k S) b" and "patch_code (blocks b ! k)" and "Suc k < length (blocks b)"
  shows "builder_ok nc S b"
  using assms by (auto simp: builder_ok_def settled_def)

section \<open>Contracts of emitters\<close>

text \<open>
  \<open>open_at nc S b\<close>: the current block is open, and so are the blocks \<open>S\<close>, which it is not one of.
  An emitter keeps this and leaves the blocks \<open>S\<close> alone.
\<close>

definition open_at :: "nat \<Rightarrow> nat set \<Rightarrow> builder \<Rightarrow> bool" where
  "open_at nc S b \<longleftrightarrow> builder_ok nc (insert (current_block_id b) S) b \<and> current_block_id b \<notin> S"

definition groups_ok :: "nat \<Rightarrow> capture_group_index list \<Rightarrow> bool" where
  "groups_ok nc gs \<longleftrightarrow> (\<forall>g \<in> set gs. unat g \<le> nc)"

definition writes :: "nat \<Rightarrow> (builder \<Rightarrow> builder option) \<Rightarrow> bool" where
  "writes nc f \<longleftrightarrow>
     (\<forall>S b b'. open_at nc S b \<longrightarrow> f b = Some b' \<longrightarrow> open_at nc S b' \<and> ext S b b')"

definition emits :: "nat \<Rightarrow> emitter \<Rightarrow> bool" where
  "emits nc e \<longleftrightarrow>
     (\<forall>S b info b'. open_at nc S b \<longrightarrow> e b = Some (info, b') \<longrightarrow>
        open_at nc S b' \<and> ext S b b' \<and> groups_ok nc (captures info))"

lemma groups_ok_simps [simp]:
  "groups_ok nc []" "groups_ok nc (g # gs) \<longleftrightarrow> unat g \<le> nc \<and> groups_ok nc gs"
  "groups_ok nc (gs @ hs) \<longleftrightarrow> groups_ok nc gs \<and> groups_ok nc hs"
  by (auto simp: groups_ok_def)

lemma no_captures_simps [simp]:
  "captures (no_captures c) = []" "always_consumes (no_captures c) = c"
  by (simp_all add: no_captures_def)

lemma writesD:
  "writes nc f \<Longrightarrow> open_at nc S b \<Longrightarrow> f b = Some b' \<Longrightarrow> open_at nc S b' \<and> ext S b b'"
  by (simp add: writes_def)

lemma emitsD:
  "emits nc e \<Longrightarrow> open_at nc S b \<Longrightarrow> e b = Some (info, b') \<Longrightarrow>
     open_at nc S b' \<and> ext S b b' \<and> groups_ok nc (captures info)"
  unfolding emits_def by blast

named_theorems writes_intros "what keeps the builder's invariant"

lemma writes_Some [writes_intros]: "writes nc Some"
  by (simp add: writes_def)

lemma writes_bind [writes_intros]:
  assumes "writes nc f" and "writes nc g"
  shows "writes nc (\<lambda>b. Option.bind (f b) g)"
  using assms unfolding writes_def bind_eq_Some_conv by (metis ext_trans)

lemma writes_read:
  assumes "\<And>x. writes nc (f x)"
  shows "writes nc (\<lambda>b. Option.bind (r b) (\<lambda>x. f x b))"
  using assms unfolding writes_def bind_eq_Some_conv by blast

lemma writes_for_each [writes_intros]:
  assumes "\<And>x. x \<in> set xs \<Longrightarrow> writes nc (f x)"
  shows "writes nc (for_each f xs)"
  using assms
proof (induction xs)
  case (Cons x xs)
  then have "writes nc (\<lambda>b. Option.bind (f x b) (for_each f xs))"
    by (intro writes_bind) auto
  then show ?case by (simp add: writes_def)
qed (simp add: writes_def)

lemma open_at_emit:
  assumes "open_at nc S b" and "emit_instr i b = Some b'" and "instr_ok nc b i"
  shows "open_at nc S b'" and "ext S b b'"
  using assms emit_instr_ok(1) [OF _ assms(2) _ assms(3)] emit_instr_ext [OF assms(2)]
    emit_instr_current [OF assms(2)]
  by (auto simp: open_at_def)

text \<open>Instructions without block ids and counters.\<close>

fun plain_ok :: "nat \<Rightarrow> instr \<Rightarrow> bool" where
  "plain_ok nc (IJump _) = False"
| "plain_ok nc (IBranch _ _) = False"
| "plain_ok nc (ILoop _ _ _) = False"
| "plain_ok nc (ILookaround _ _ _) = False"
| "plain_ok nc (IProgress _) = False"
| "plain_ok nc i \<longleftrightarrow> operands_fit i \<and> operands_ok [] nc 0 0 i"

lemma plain_instr_ok: "plain_ok nc i \<Longrightarrow> instr_ok nc b i"
  by (cases i) (auto simp: instr_ok_def)

lemma writes_emit [writes_intros]: "plain_ok nc i \<Longrightarrow> writes nc (emit_instr i)"
  using open_at_emit plain_instr_ok unfolding writes_def by blast

lemma emits_leaf:
  assumes "writes nc f"
  shows "emits nc (leaf c f)"
  using assms unfolding emits_def leaf_def bind_eq_Some_conv by (auto dest: writesD)

lemma writes_clear_captures:
  "groups_ok nc gs \<Longrightarrow> writes nc (emit_clear_captures gs)"
  unfolding emit_clear_captures_def
  by (intro writes_intros) (auto simp: groups_ok_def)

section \<open>Literals, classes and assertions\<close>

text \<open>The ICU libraries deal in code points.\<close>

definition icu_ok :: "('b, 's, 'p) icu \<Rightarrow> bool" where
  "icu_ok icu \<longleftrightarrow>
     (\<forall>s. \<forall>(lo, hi) \<in> set (iter_ranges icu s). lo \<le> MAX_CODE_POINT \<and> hi \<le> MAX_CODE_POINT)
     \<and> (\<forall>s. \<forall>c \<in> set (iter_chars icu s). c \<le> MAX_CODE_POINT)"

lemma code_point_fits: "c \<le> MAX_CODE_POINT \<Longrightarrow> c < 0x1000000"
  by (erule order_le_less_trans) (simp add: MAX_CODE_POINT_def)

definition low_bits24 :: "u32 \<Rightarrow> bool" where
  "low_bits24 w \<longleftrightarrow> (\<forall>m \<ge> 24. \<not> bit w m)"

lemma low_bits24_less:
  assumes "low_bits24 w"
  shows "w < 0x1000000"
proof -
  have "take_bit 24 w = w"
    using assms by (intro bit_word_eqI) (auto simp: low_bits24_def bit_simps intro: leI)
  then have "unat w = unat w mod 2 ^ 24" by (metis take_bit_eq_mod unsigned_take_bit_eq)
  then have "unat w < 2 ^ 24" by (metis mod_less_divisor zero_less_numeral zero_less_power)
  then show ?thesis by (simp add: word_less_nat_alt)
qed

lemma low_bits24_push:
  assumes "unat w < 2 ^ k" and "n + k \<le> 24"
  shows "low_bits24 (push_bit n w)"
  using assms word_less_bit_False [OF assms(1)] by (auto simp: low_bits24_def bit_push_bit_iff)

lemma low_bits24_or: "low_bits24 v \<Longrightarrow> low_bits24 w \<Longrightarrow> low_bits24 (v OR w)"
  by (simp add: low_bits24_def bit_or_iff)

lemma decode_fits:
  assumes "decode_wtf8_codepoint bytes = Some (Inr (c, n))"
  shows "c < 0x1000000"
proof (rule low_bits24_less)
  have m3: "unat (w AND 0x07) < 2 ^ 3" and m4: "unat (w AND 0x0F) < 2 ^ 4"
    and m5: "unat (w AND 0x1F) < 2 ^ 5" and m6: "unat (w AND 0x3F) < 2 ^ 6" for w :: u32
    by (simp_all add: low_mask)
  have b0: "low_bits24 (w AND 0x3F)" for w
    using low_bits24_push [OF m6, of 0 w] by simp
  show "low_bits24 c"
    using assms unfolding decode_wtf8_codepoint_def Let_def
    by (auto split: if_splits simp del: push_bit_and
        intro!: low_bits24_or b0 low_bits24_push [OF m3] low_bits24_push [OF m4]
          low_bits24_push [OF m5] low_bits24_push [OF m6])
qed

lemma wtf8_next_fits:
  assumes "wtf8_next bytes = Some (Some c, rest)"
  shows "c < 0x1000000"
  using assms decode_fits
  by (auto simp: wtf8_next_def Let_def is_ascii_def word_less_nat_alt
      split: if_splits option.splits sum.splits)

lemma iter_code_points_fit:
  "iter_code_points bytes = Some cs \<Longrightarrow> \<forall>c \<in> set cs. c < 0x1000000"
proof (induction bytes arbitrary: cs rule: iter_code_points.induct)
  case (1 bytes)
  show ?case
    using "1.prems" "1.IH" wtf8_next_fits
    by (subst (asm) iter_code_points.simps) (fastforce split: option.splits prod.splits)
qed

lemma writes_set_comparisons [writes_intros]:
  assumes "icu_ok icu"
  shows "writes nc (emit_set_comparisons icu cps)"
  unfolding emit_set_comparisons_def
proof (rule writes_for_each, clarify)
  fix lo hi assume "(lo, hi) \<in> set (iter_ranges icu cps)"
  then have "lo \<le> MAX_CODE_POINT" using assms unfolding icu_ok_def by blast
  then have "lo < 0x1000000" by (rule code_point_fits)
  then show "writes nc (\<lambda>b. if lo = hi then emit_instr (ICompareEquals lo) b
      else Option.bind (checked_add_u32 hi 1) (\<lambda>e. emit_instr (ICompareBetween lo e) b))"
    by (cases "lo = hi") (auto intro!: writes_read writes_emit)
qed

lemma writes_code_point_set [writes_intros]:
  assumes "icu_ok icu"
  shows "writes nc (emit_code_point_set icu cps inverted)"
proof (cases "set_size icu cps = 1 \<and> \<not> inverted")
  case True
  have "c < 0x1000000" if "iter_chars icu cps = c # cs" for c cs
    using assms code_point_fits that unfolding icu_ok_def by (metis list.set_intros(1))
  then have "writes nc (\<lambda>b. case iter_chars icu cps of [] \<Rightarrow> None
      | c # cs \<Rightarrow> emit_instr (ILiteral c) b)"
  proof (cases "iter_chars icu cps")
    case (Cons c cs)
    then have "writes nc (emit_instr (ILiteral c))"
      using \<open>\<And>cs c. iter_chars icu cps = c # cs \<Longrightarrow> c < 0x1000000\<close> by (intro writes_emit) simp
    then show ?thesis using Cons by simp
  qed (simp add: writes_def)
  then show ?thesis using True by (simp add: emit_code_point_set_def [abs_def])
next
  case False
  then have "emit_code_point_set icu cps inverted = (\<lambda>b. Option.bind (emit_set_comparisons icu cps b)
      (emit_instr (if inverted then IConsumeIfFalse else IConsumeIfTrue)))"
    by (auto simp: emit_code_point_set_def fun_eq_iff)
  then show ?thesis using assms by (auto intro!: writes_intros)
qed

lemma writes_code_point_literal [writes_intros]:
  assumes "icu_ok icu" and "c < 0x1000000"
  shows "writes nc (emit_code_point_literal icu c)"
  unfolding emit_code_point_literal_def [abs_def]
proof (rule writes_read)
  fix fl
  show "writes nc (\<lambda>b. if is_case_insensitive fl \<and> \<not> is_surrogate_code_point c
      then Option.bind (char_from_u32 c) (\<lambda>ch. emit_code_point_set icu
        (build_set icu (add_case_closure icu fl (new_set_builder icu) ch)) False b)
      else emit_instr (ILiteral c) b)"
    using assms by (cases "is_case_insensitive fl \<and> \<not> is_surrogate_code_point c")
      (auto intro!: writes_read writes_code_point_set writes_emit)
qed

lemma writes_literal [writes_intros]:
  assumes "icu_ok icu"
  shows "writes nc (emit_literal icu s)"
proof -
  have "writes nc (for_each (emit_code_point_literal icu) (if d then cs else rev cs))"
    if "iter_code_points s = Some cs" for cs d
    using assms iter_code_points_fit [OF that] by (auto intro!: writes_intros)
  then have "writes nc (\<lambda>b. Option.bind (iter_code_points s)
      (\<lambda>cs. for_each (emit_code_point_literal icu) (if d then cs else rev cs) b))" for d
    unfolding writes_def bind_eq_Some_conv by blast
  then show ?thesis
    unfolding emit_literal_def [abs_def] by (rule writes_read)
qed

lemma writes_wildcard [writes_intros]: "writes nc emit_wildcard"
  unfolding emit_wildcard_def [abs_def] by (intro writes_read writes_emit) simp

lemma writes_word_comparison [writes_intros]:
  "icu_ok icu \<Longrightarrow> writes nc (emit_word_comparison icu)"
  unfolding emit_word_comparison_def [abs_def] by (intro writes_read writes_set_comparisons)

lemma writes_word_boundary [writes_intros]:
  "icu_ok icu \<Longrightarrow> plain_ok nc i \<Longrightarrow> writes nc (emit_word_boundary icu i)"
  unfolding emit_word_boundary_def [abs_def] by (intro writes_intros) simp_all

lemma writes_assertion [writes_intros]:
  assumes "icu_ok icu"
  shows "writes nc (emit_assertion icu a)"
  unfolding emit_assertion_def [abs_def]
  by (intro writes_read, cases a) (auto intro!: writes_intros assms)

lemma writes_backreference:
  "0 < unat g \<Longrightarrow> unat g \<le> nc \<Longrightarrow> writes nc (emit_backreference g)"
  unfolding emit_backreference_def [abs_def] by (intro writes_read writes_emit) simp

section \<open>Loops over blocks\<close>

lemma for_each_append:
  "for_each f (xs @ ys) b = Option.bind (for_each f xs b) (for_each f ys)"
  by (induction xs arbitrary: b) (auto split: bind_split)

lemma for_each_invariant:
  assumes "for_each f xs b = Some b'" and "I b"
    and "\<And>x b b'. x \<in> set xs \<Longrightarrow> I b \<Longrightarrow> f x b = Some b' \<Longrightarrow> I b'"
  shows "I b'"
  using assms
proof (induction xs arbitrary: b)
  case (Cons x xs)
  from Cons.prems(1) obtain b1 where b1: "f x b = Some b1" "for_each f xs b1 = Some b'"
    by (auto simp: bind_eq_Some_conv)
  show ?case by (rule Cons.IH [OF b1(2)]) (use Cons.prems b1(1) in auto)
qed simp

lemma clear_captures_current:
  assumes "emit_clear_captures gs b = Some b'"
  shows "current_block_id b' = current_block_id b"
  using assms unfolding emit_clear_captures_def
  by (rule for_each_invariant) (simp_all add: emit_instr_current)

text \<open>Emitting in a given open block: the block stays open, or is closed by the instruction.\<close>

lemma clear_captures_at:
  assumes "builder_ok nc S b" and "k \<in> S" and "groups_ok nc gs"
    and "emit_clear_captures gs (set_current_block k b) = Some b'"
  shows "builder_ok nc S b'" and "ext (S - {k}) b b'" and "current_block_id b' = k"
proof -
  have "open_at nc (S - {k}) (set_current_block k b)"
    using assms(1,2) by (simp add: open_at_def insert_absorb)
  from writesD [OF writes_clear_captures [OF assms(3)] this assms(4)]
  show "builder_ok nc S b'" and "ext (S - {k}) b b'" and "current_block_id b' = k"
    using clear_captures_current [OF assms(4)] assms(2) by (auto simp: open_at_def insert_absorb)
qed

lemma emit_end_at:
  assumes "builder_ok nc S b" and "k \<in> S" and "emit_instr i (set_current_block k b) = Some b'"
    and "instr_ok nc b i" and "ends_flow i"
  shows "builder_ok nc (S - {k}) b'" and "ext (- {k}) b b'" and "current_block_id b' = k"
proof -
  have "instr_ok nc (set_current_block k b) i" using assms(4) by (simp add: instr_ok_def)
  from emit_instr_ok(2) [OF _ assms(3) _ this assms(5), of S] show "builder_ok nc (S - {k}) b'"
    using assms(1,2) by simp
  show "ext (- {k}) b b'" using emit_instr_ext [OF assms(3), of "- {k}"] by simp
  show "current_block_id b' = k" using emit_instr_current [OF assms(3)] by simp
qed

lemma jump_instr_ok: "t < length (blocks b) \<Longrightarrow> instr_ok nc b (IJump (word_of_nat t))"
  using unat_word_of_nat_le [of t] by (auto simp: instr_ok_def intro: order_le_less_trans)

lemma branch_instr_ok:
  "t < length (blocks b) \<Longrightarrow> u < length (blocks b) \<Longrightarrow>
     instr_ok nc b (IBranch (word_of_nat t) (word_of_nat u))"
  using unat_word_of_nat_le [of t] unat_word_of_nat_le [of u]
  by (auto simp: instr_ok_def intro: order_le_less_trans)

lemma jump_at:
  assumes "builder_ok nc S b" and "k \<in> S" and "emit_jump t (set_current_block k b) = Some b'"
    and "t < length (blocks b)"
  shows "builder_ok nc (S - {k}) b'" and "ext (- {k}) b b'" and "current_block_id b' = k"
  using emit_end_at [OF assms(1,2) assms(3) [unfolded emit_jump_def] jump_instr_ok [OF assms(4)]]
  by simp_all

lemma branch_at:
  assumes "builder_ok nc S b" and "k \<in> S" and "emit_branch t u (set_current_block k b) = Some b'"
    and "t < length (blocks b)" and "u < length (blocks b)"
  shows "builder_ok nc (S - {k}) b'" and "ext (- {k}) b b'" and "current_block_id b' = k"
  using emit_end_at [OF assms(1,2) assms(3) [unfolded emit_branch_def] branch_instr_ok [OF assms(4,5)]]
  by simp_all

lemma set_current_same: "set_current_block (current_block_id b) b = b"
  by (simp add: set_current_block_def)

text \<open>The same in the current block.\<close>

lemma jump_here:
  assumes "builder_ok nc (insert (current_block_id b) S) b" and "current_block_id b \<notin> S"
    and "emit_jump t b = Some b'" and "t < length (blocks b)"
  shows "builder_ok nc S b'" and "ext S b b'"
  using jump_at [OF assms(1), of "current_block_id b" t b'] assms(2-4)
    ext_mono [of "- {current_block_id b}" b b' S]
  by (auto simp: set_current_same)

lemma branch_here:
  assumes "builder_ok nc (insert (current_block_id b) S) b" and "current_block_id b \<notin> S"
    and "emit_branch t u b = Some b'" and "t < length (blocks b)" and "u < length (blocks b)"
  shows "builder_ok nc S b'" and "ext S b b'"
  using branch_at [OF assms(1), of "current_block_id b" t u b'] assms(2-5)
    ext_mono [of "- {current_block_id b}" b b' S]
  by (auto simp: set_current_same)

lemma new_blocks_ok:
  assumes "builder_ok nc S b" and "new_blocks m b = (ids, b')"
  shows "builder_ok nc (S \<union> set ids) b' \<and> length ids = m \<and> distinct ids \<and> set ids \<inter> S = {}
    \<and> ext S b b' \<and> current_block_id b' = current_block_id b"
  using assms
proof (induction m arbitrary: S b ids b')
  case (Suc m)
  obtain k b1 where b1: "new_block b = (k, b1)" by fastforce
  obtain ks b2 where b2: "new_blocks m b1 = (ks, b2)" by fastforce
  have ids: "ids = k # ks" and b': "b' = b2" using Suc.prems(2) b1 b2 by auto
  note n = new_block_ok [OF Suc.prems(1) b1]
  from Suc.IH [OF n(1) b2] show ?case
    using n ids b' ext_trans [OF n(4)] ext_mono [of "insert k S" b1 b2 S] by auto
qed simp

text \<open>A loop that closes the blocks \<open>ids\<close> one after the other.\<close>

lemma close_chain:
  assumes "builder_ok nc (S \<union> set ids) b" and "distinct ids" and "set ids \<inter> S = {}"
    and "m \<le> length ids" and "for_each f [0..<m] b = Some b'"
    and step: "\<And>i b1 b2. i < m \<Longrightarrow> length (blocks b) \<le> length (blocks b1) \<Longrightarrow> f i b1 = Some b2 \<Longrightarrow>
      \<exists>j. emit_instr j (set_current_block (ids ! i) b1) = Some b2 \<and> ends_flow j \<and> instr_ok nc b1 j"
  shows "builder_ok nc (S \<union> set (drop m ids)) b' \<and> ext S b b'"
  using assms(4-6)
proof (induction m arbitrary: b')
  case 0
  then show ?case using assms(1) by simp
next
  case (Suc m)
  then obtain b1 where b1: "for_each f [0..<m] b = Some b1" and b2: "f m b1 = Some b'"
    by (auto simp: for_each_append bind_eq_Some_conv)
  have IH: "builder_ok nc (S \<union> set (drop m ids)) b1" "ext S b b1"
    using Suc.IH [OF _ b1] Suc.prems by auto
  obtain j where j: "emit_instr j (set_current_block (ids ! m) b1) = Some b'" "ends_flow j"
    "instr_ok nc b1 j"
    using Suc.prems(3) [OF _ ext_length [OF IH(2)] b2] by blast
  have m: "m < length ids" using Suc.prems(1) by simp
  then have split: "drop m ids = ids ! m # drop (Suc m) ids" by (simp add: Cons_nth_drop_Suc)
  have "ids ! m \<in> set ids" using m by simp
  then have "ids ! m \<notin> S" "ids ! m \<notin> set (drop (Suc m) ids)"
    using split assms(2,3) distinct_drop [OF assms(2), of m] by auto
  then have "S \<union> set (drop m ids) - {ids ! m} = S \<union> set (drop (Suc m) ids)" using split by auto
  then show ?case
    using emit_end_at [OF IH(1) _ j(1,3,2)] split \<open>ids ! m \<notin> S\<close>
      ext_trans [OF IH(2) ext_mono [of "- {ids ! m}" b1 b' S]] by auto
qed

section \<open>Alternatives and disjunctions\<close>

lemma emits_alternative_terms:
  assumes "\<forall>e \<in> set es. emits nc e" and "groups_ok nc (captures acc)"
  shows "emits nc (emit_alternative_terms es acc)"
  using assms
proof (induction es arbitrary: acc)
  case (Cons e es)
  show ?case
    unfolding emits_def
  proof (intro allI impI)
    fix S b info b'
    assume at: "open_at nc S b" and run: "emit_alternative_terms (e # es) acc b = Some (info, b')"
    obtain i1 b1 where b1: "e b = Some (i1, b1)"
      "emit_alternative_terms es \<lparr>always_consumes = always_consumes acc \<or> always_consumes i1,
         captures = captures acc @ captures i1\<rparr> b1 = Some (info, b')"
      using run by (auto simp: bind_eq_Some_conv)
    have "emits nc e" using Cons.prems(1) by simp
    from emitsD [OF this at b1(1)]
    have e: "open_at nc S b1 \<and> ext S b b1 \<and> groups_ok nc (captures i1)" .
    have "emits nc (emit_alternative_terms es \<lparr>always_consumes = always_consumes acc \<or> always_consumes i1,
        captures = captures acc @ captures i1\<rparr>)"
      using Cons.prems e by (intro Cons.IH) auto
    from emitsD [OF this _ b1(2)] e
    show "open_at nc S b' \<and> ext S b b' \<and> groups_ok nc (captures info)"
      using ext_trans by blast
  qed
qed (simp add: emits_def)

lemma emits_alternative:
  assumes "\<forall>e \<in> set (terms alt). emits nc e"
  shows "emits nc (emit_alternative alt)"
proof -
  have "emits nc (emit_alternative_terms (if d then terms alt else rev (terms alt)) (no_captures False))"
    for d
    using assms by (intro emits_alternative_terms) auto
  then show ?thesis
    unfolding emits_def emit_alternative_def bind_eq_Some_conv by blast
qed

definition exits :: "alternative_block list \<Rightarrow> nat set" where
  "exits ablocks = exit_block ` set ablocks"

lemma exits_simps [simp]:
  "exits [] = {}" "exits (ab # ablocks) = insert (exit_block ab) (exits ablocks)"
  by (simp_all add: exits_def)

lemma alternative_blocks_ok:
  assumes "\<forall>alt \<in> set alts. emits nc (emit_alternative alt)" and "builder_ok nc S b"
    and "emit_alternative_blocks alts b = Some (ablocks, info, b')"
  shows "builder_ok nc (S \<union> exits ablocks) b' \<and> ext S b b' \<and> length ablocks = length alts
    \<and> distinct (map exit_block ablocks) \<and> exits ablocks \<inter> S = {}
    \<and> (\<forall>ab \<in> set ablocks. entry_block ab < length (blocks b') \<and> groups_ok nc (block_captures ab))
    \<and> groups_ok nc (captures info)"
  using assms
proof (induction alts arbitrary: S b ablocks info b')
  case (Cons alt alts)
  obtain a b1 where b1: "new_block b = (a, b1)" by fastforce
  obtain i2 b2 abs3 i3 b3 where
    b2: "emit_alternative alt (set_current_block a b1) = Some (i2, b2)"
    and b3: "emit_alternative_blocks alts b2 = Some (abs3, i3, b3)"
    and res: "ablocks = \<lparr>entry_block = a, exit_block = current_block_id b2, block_captures = captures i2\<rparr>
        # abs3" "info = \<lparr>always_consumes = always_consumes i2 \<and> always_consumes i3,
          captures = captures i2 @ captures i3\<rparr>" "b' = b3"
    using Cons.prems(3) b1 by (auto simp: bind_eq_Some_conv)
  note n = new_block_ok [OF Cons.prems(2) b1]
  let ?e = "current_block_id b2"
  have at: "open_at nc S (set_current_block a b1)" using n by (simp add: open_at_def)
  have "emits nc (emit_alternative alt)" using Cons.prems(1) by simp
  from emitsD [OF this at b2] have e: "builder_ok nc (insert ?e S) b2" "?e \<notin> S" "ext S b1 b2"
    "groups_ok nc (captures i2)"
    by (auto simp: open_at_def)
  have a: "a < length (blocks b2)" using n(7) ext_length [OF e(3)] by simp
  have IH: "builder_ok nc (insert ?e S \<union> exits abs3) b3" "ext (insert ?e S) b2 b3"
    "length abs3 = length alts" "distinct (map exit_block abs3)" "exits abs3 \<inter> insert ?e S = {}"
    "\<forall>ab \<in> set abs3. entry_block ab < length (blocks b3) \<and> groups_ok nc (block_captures ab)"
    "groups_ok nc (captures i3)"
    using Cons.IH [OF _ e(1) b3] Cons.prems(1) by auto
  have "ext S b b3"
    using ext_trans [OF n(4) ext_trans [OF e(3) ext_mono [OF IH(2)]]] by auto
  moreover have "a < length (blocks b3)" using a ext_length [OF IH(2)] by simp
  moreover have "?e \<notin> exit_block ` set abs3" using IH(5) by (auto simp: exits_def)
  ultimately show ?case
    using IH e(2,4) by (simp add: res)
qed simp

lemma clear_at:
  assumes "builder_ok nc S b" and "k \<in> S" and "unat g \<le> nc"
    and "emit_instr (IClearCapture g) (set_current_block k b) = Some b'"
  shows "builder_ok nc S b' \<and> ext (S - {k}) b b'"
proof -
  have "emit_clear_captures [g] (set_current_block k b) = Some b'"
    using assms(4) by (simp add: emit_clear_captures_def)
  from clear_captures_at [OF assms(1,2) _ this] show ?thesis using assms(3) by simp
qed

lemma clear_skipped_ok:
  assumes "builder_ok nc S b" and "set ids \<subseteq> S - F" and "exits ablocks \<subseteq> S - F" and "F \<subseteq> S"
    and "\<forall>ab \<in> set ablocks. groups_ok nc (block_captures ab)" and "2 \<le> length ablocks"
    and "clear_skipped_captures ids ablocks b = Some b'"
  shows "builder_ok nc S b' \<and> ext F b b'"
proof -
  let ?f = "\<lambda>i b. if block_captures (ablocks ! (i - 1)) \<noteq> [] then Option.bind (vec_get ids i)
    (\<lambda>block_id. emit_clear_captures (block_captures (ablocks ! (i - 1))) (set_current_block block_id b))
    else Some b"
  let ?g = "\<lambda>g b. emit_instr (IClearCapture g)
    (set_current_block (exit_block (ablocks ! (length ablocks - 1))) b)"
  obtain b1 where b1: "for_each ?f [1..<length ablocks - 1] b = Some b1"
    and b2: "for_each ?g (block_captures (ablocks ! (length ablocks - 2))) b1 = Some b'"
    using assms(7) unfolding clear_skipped_captures_def bind_eq_Some_conv by blast
  have clear: "builder_ok nc S b'' \<and> ext F b0 b''"
    if "builder_ok nc S b0" "k \<in> S - F" "groups_ok nc gs"
      "emit_clear_captures gs (set_current_block k b0) = Some b''" for b0 b'' gs k
    using clear_captures_at [OF that(1) _ that(3,4)] that(2) assms(4)
      ext_mono [of "S - {k}" b0 b'' F] by blast
  have 1: "builder_ok nc S b1 \<and> ext F b b1"
  proof (rule for_each_invariant [OF b1])
    fix i b0 b''
    assume i: "i \<in> set [1..<length ablocks - 1]" and I: "builder_ok nc S b0 \<and> ext F b b0"
      and f: "?f i b0 = Some b''"
    have "groups_ok nc (block_captures (ablocks ! (i - 1)))" using assms(5) i by auto
    then have "builder_ok nc S b'' \<and> ext F b0 b''"
      using I f clear [of b0 "ids ! i"] assms(2) nth_mem [of i ids]
      by (auto simp: bind_eq_Some_conv subset_iff simp del: nth_mem split: if_splits)
    then show "builder_ok nc S b'' \<and> ext F b b''" using I ext_trans by blast
  qed (use assms(1) in simp)
  show ?thesis
  proof (rule for_each_invariant [OF b2])
    fix g b0 b''
    assume g: "g \<in> set (block_captures (ablocks ! (length ablocks - 2)))"
      and I: "builder_ok nc S b0 \<and> ext F b b0" and f: "?g g b0 = Some b''"
    have "ablocks ! (length ablocks - 2) \<in> set ablocks" using assms(6) by simp
    then have "unat g \<le> nc" using assms(5) g by (auto simp: groups_ok_def)
    moreover have "exit_block (ablocks ! (length ablocks - 1)) \<in> exits ablocks"
      unfolding exits_def using assms(6) by (intro imageI nth_mem) linarith
    then have "exit_block (ablocks ! (length ablocks - 1)) \<in> S - F" using assms(3) by blast
    ultimately show "builder_ok nc S b'' \<and> ext F b b''"
      using clear_at [OF conjunct1 [OF I] _ _ f] I assms(4)
        ext_trans [OF conjunct2 [OF I] ext_mono [of "S - {exit_block (ablocks ! (length ablocks - 1))}" b0 b'' F]]
      by blast
  qed (use 1 in simp)
qed

lemma clear_chain_ok:
  assumes "builder_ok nc S b" and "\<forall>ab \<in> set ablocks. groups_ok nc (block_captures ab)"
    and "jbs \<noteq> []" and "set jbs \<subseteq> {..<length (blocks b)}"
    and "emit_clear_chain ablocks jbs b = Some (jbs', b')"
  shows "builder_ok nc S b' \<and> ext S b b' \<and> length jbs' = length ablocks + length jbs
    \<and> set jbs' \<subseteq> {..<length (blocks b')}"
  using assms
proof (induction ablocks arbitrary: jbs b)
  case (Cons ab ablocks)
  have hd: "hd jbs < length (blocks b)" using Cons.prems(3,4) by (auto dest!: hd_in_set)
  show ?case
  proof (cases "is_in_repitition b \<and> block_captures ab \<noteq> []")
    case True
    obtain k b1 where b1: "new_block b = (k, b1)" by fastforce
    obtain b2 b3 where
      b2: "emit_clear_captures (block_captures ab) (set_current_block k b1) = Some b2"
      and b3: "emit_jump (hd jbs) b2 = Some b3"
      and b4: "emit_clear_chain ablocks (k # jbs) b3 = Some (jbs', b')"
      using Cons.prems(5) True b1 by (auto simp: bind_eq_Some_conv)
    note n = new_block_ok [OF Cons.prems(1) b1]
    have c: "builder_ok nc (insert k S) b2" "ext S b1 b2" "current_block_id b2 = k"
      using clear_captures_at [OF n(1) _ _ b2] Cons.prems(2) n(3) by auto
    have "hd jbs < length (blocks b2)" using hd n(2,7) ext_length [OF c(2)] by linarith
    then have j: "builder_ok nc S b3" "ext S b2 b3"
      using jump_here [of nc b2 S _ b3] c b3 n(3) by auto
    have e: "ext S b b3" by (rule ext_trans [OF n(4) ext_trans [OF c(2) j(2)]])
    have k: "k < length (blocks b3)" using n(7) ext_length [OF c(2)] ext_length [OF j(2)] by linarith
    have "set (k # jbs) \<subseteq> {..<length (blocks b3)}"
      using Cons.prems(4) k ext_length [OF e] by auto
    from Cons.IH [OF j(1) _ _ this b4] Cons.prems(2) show ?thesis
      using ext_trans [OF e] by auto
  next
    case False
    then have "emit_clear_chain ablocks (hd jbs # jbs) b = Some (jbs', b')"
      using Cons.prems(5) by (auto simp del: not_gr_zero)
    from Cons.IH [OF Cons.prems(1) _ _ _ this] Cons.prems(2,4) hd show ?thesis by auto
  qed
qed auto

lemma link_alternatives_ok:
  assumes "builder_ok nc (S \<union> exits ablocks) b" and "distinct (map exit_block ablocks)"
    and "exits ablocks \<inter> S = {}" and "length ablocks \<le> length jbs"
    and "set jbs \<subseteq> {..<length (blocks b)}" and "link_alternatives ablocks jbs b = Some b'"
  shows "builder_ok nc S b' \<and> ext S b b'"
  using assms
proof (induction ablocks arbitrary: jbs b)
  case (Cons ab ablocks)
  obtain j js where jbs: "jbs = j # js" using Cons.prems(4) by (cases jbs) auto
  let ?e = "exit_block ab"
  obtain b1 where b1: "emit_jump j (set_current_block ?e b) = Some b1"
    and b2: "link_alternatives ablocks js b1 = Some b'"
    using Cons.prems(6) jbs by (auto simp: link_alternatives_def bind_eq_Some_conv)
  have j: "j < length (blocks b)" using Cons.prems(5) jbs by simp
  note e = jump_at [OF Cons.prems(1) _ b1 j]
  have "S \<union> exits (ab # ablocks) - {?e} = S \<union> exits ablocks"
    using Cons.prems(2,3) by (auto simp: exits_def)
  then have ok: "builder_ok nc (S \<union> exits ablocks) b1" using e(1) by simp
  have ext: "ext S b b1" using ext_mono [OF e(2), of S] Cons.prems(3) by auto
  have "set js \<subseteq> {..<length (blocks b1)}" using Cons.prems(5) jbs ext_length [OF ext] by auto
  from Cons.IH [OF ok _ _ _ this b2] Cons.prems(2-4) jbs show ?case
    using ext_trans [OF ext] by auto
qed (simp add: link_alternatives_def)

lemma branch_chain_ok:
  assumes "builder_ok nc (S \<union> set ids) b" and "distinct ids" and "set ids \<inter> S = {}"
    and "Suc (length ids) = length ablocks" and "ids \<noteq> []" and "set ids \<subseteq> {..<length (blocks b)}"
    and entries: "\<forall>ab \<in> set ablocks. entry_block ab < length (blocks b)"
    and "emit_branch_chain ids ablocks b = Some b'"
  shows "builder_ok nc S b' \<and> ext S b b'"
proof -
  let ?n = "length ablocks - 2"
  let ?f = "\<lambda>i b. Option.bind (vec_get ids i) (\<lambda>block_id. Option.bind (vec_get ids (i + 1))
    (\<lambda>next_block_id. emit_branch (entry_block (ablocks ! i)) next_block_id (set_current_block block_id b)))"
  obtain b1 where b1: "for_each ?f [0..<?n] b = Some b1"
    and b2: "emit_branch (entry_block (ablocks ! ?n)) (entry_block (ablocks ! (length ablocks - 1)))
       (set_current_block (last ids) b1) = Some b'"
    using assms(8) unfolding emit_branch_chain_def bind_eq_Some_conv by blast
  have len: "?n = length ids - 1" and lt: "?n < length ids" using assms(4,5) by (cases ids; simp)+
  have "\<exists>j. emit_instr j (set_current_block (ids ! i) c1) = Some c2 \<and> ends_flow j \<and> instr_ok nc c1 j"
    if i: "i < ?n" and c: "length (blocks b) \<le> length (blocks c1)" and f: "?f i c1 = Some c2" for i c1 c2
  proof -
    have "entry_block (ablocks ! i) < length (blocks c1)" "ids ! (i + 1) < length (blocks c1)"
      using entries assms(4,6) i c lt nth_mem [of i ablocks] nth_mem [of "i + 1" ids] by fastforce+
    then show ?thesis
      using f branch_instr_ok by (auto simp: bind_eq_Some_conv emit_branch_def)
  qed
  then have c: "builder_ok nc (S \<union> set (drop ?n ids)) b1" "ext S b b1"
    using close_chain [OF assms(1-3) _ b1] lt by auto
  have "drop ?n ids = [last ids]"
    using assms(5) lt len by (metis Cons_nth_drop_Suc Suc_diff_1 drop_all last_conv_nth le_refl length_greater_0_conv)
  then have l: "builder_ok nc (S \<union> {last ids}) b1" using c(1) by simp
  have "last ids \<notin> S" using assms(3,5) last_in_set by blast
  moreover have "entry_block (ablocks ! ?n) < length (blocks b1)"
    "entry_block (ablocks ! (length ablocks - 1)) < length (blocks b1)"
    using entries assms(4) ext_length [OF c(2)] nth_mem [of ?n ablocks]
      nth_mem [of "length ablocks - 1" ablocks] lt by (fastforce intro: order_less_le_trans)+
  ultimately show ?thesis
    using branch_at [OF l _ b2] ext_trans [OF c(2) ext_mono [of "- {last ids}" b1 b' S]] by auto
qed

lemma emits_disjunction:
  assumes alts: "\<forall>alt \<in> set (alternatives d). emits nc (emit_alternative alt)"
  shows "emits nc (emit_disjunction d)"
  unfolding emits_def
proof (intro allI impI)
  fix S b info b'
  assume at: "open_at nc S b" and run: "emit_disjunction d b = Some (info, b')"
  show "open_at nc S b' \<and> ext S b b' \<and> groups_ok nc (captures info)"
  proof (cases "length (alternatives d) = 1")
    case True
    then have "alternatives d ! 0 \<in> set (alternatives d)" by simp
    then have "emits nc (emit_alternative (alternatives d ! 0))" using alts by blast
    from emitsD [OF this at] show ?thesis using run True by (simp add: emit_disjunction_def)
  next
    case False
    let ?c = "current_block_id b" and ?n = "length (alternatives d) - 2"
    obtain ids b1 where b1: "new_blocks ?n b = (ids, b1)" by fastforce
    obtain j b2 where b2: "new_block b1 = (j, b2)" by fastforce
    obtain ablocks b3 b4 jbs b5 b6 b7 where
      len: "2 \<le> length (alternatives d)"
      and b3: "emit_alternative_blocks (alternatives d) b2 = Some (ablocks, info, b3)"
      and b4: "(if is_in_repitition b3 then clear_skipped_captures (?c # ids) ablocks b3
                else Some b3) = Some b4"
      and b5: "emit_clear_chain (rev (tl ablocks)) [j] b4 = Some (jbs, b5)"
      and b6: "link_alternatives ablocks jbs b5 = Some b6"
      and b7: "emit_branch_chain (?c # ids) ablocks b6 = Some b7"
      and b': "b' = set_current_block j b7"
      using run False b1 b2 by (auto simp: emit_disjunction_def bind_eq_Some_conv Let_def)
    have c: "?c \<notin> S" "builder_ok nc (insert ?c S) b" using at by (simp_all add: open_at_def)
    have 1: "builder_ok nc (insert ?c S \<union> set ids) b1" "length ids = ?n" "distinct ids"
      "set ids \<inter> insert ?c S = {}" "ext (insert ?c S) b b1"
      using new_blocks_ok [OF c(2) b1] by auto
    note 2 = new_block_ok [OF 1(1) b2]
    let ?S0 = "insert j (insert ?c S \<union> set ids)"
    have 3: "builder_ok nc (?S0 \<union> exits ablocks) b3" "ext ?S0 b2 b3"
      "length ablocks = length (alternatives d)" "distinct (map exit_block ablocks)"
      "exits ablocks \<inter> ?S0 = {}"
      "\<forall>ab \<in> set ablocks. entry_block ab < length (blocks b3) \<and> groups_ok nc (block_captures ab)"
      "groups_ok nc (captures info)"
      using alternative_blocks_ok [OF alts 2(1) b3] by auto
    have 4: "builder_ok nc (?S0 \<union> exits ablocks) b4" "ext (insert j S) b3 b4"
    proof -
      have "set (?c # ids) \<subseteq> ?S0 \<union> exits ablocks - insert j S" using c(1) 1(4) 2(3) by auto
      moreover have "exits ablocks \<subseteq> ?S0 \<union> exits ablocks - insert j S" using 3(5) by auto
      ultimately have "is_in_repitition b3 \<Longrightarrow>
          builder_ok nc (?S0 \<union> exits ablocks) b4 \<and> ext (insert j S) b3 b4"
        using b4 len 3(3,6) by (intro clear_skipped_ok [OF 3(1)]) auto
      then show "builder_ok nc (?S0 \<union> exits ablocks) b4" "ext (insert j S) b3 b4"
        using b4 3(1) by (cases "is_in_repitition b3"; simp)+
    qed
    have j: "j < length (blocks b4)" using 2(7) ext_length [OF 3(2)] ext_length [OF 4(2)] by simp
    have caps: "\<forall>ab \<in> set (rev (tl ablocks)). groups_ok nc (block_captures ab)"
      using 3(6) by (cases ablocks) auto
    have 5: "builder_ok nc (?S0 \<union> exits ablocks) b5" "ext (?S0 \<union> exits ablocks) b4 b5"
      "length ablocks \<le> length jbs" "set jbs \<subseteq> {..<length (blocks b5)}"
      using clear_chain_ok [OF 4(1) caps _ _ b5] j len 3(3) by auto
    have 6: "builder_ok nc ?S0 b6" "ext ?S0 b5 b6"
      using link_alternatives_ok [OF 5(1) 3(4,5) 5(3,4) b6] by auto
    have len36: "length (blocks b3) \<le> length (blocks b6)"
      using ext_length [OF 4(2)] ext_length [OF 5(2)] ext_length [OF 6(2)] by linarith
    have "?S0 = insert j S \<union> set (?c # ids)" by auto
    then have ok: "builder_ok nc (insert j S \<union> set (?c # ids)) b6" using 6(1) by simp
    have 7: "builder_ok nc (insert j S) b7 \<and> ext (insert j S) b6 b7"
    proof (rule branch_chain_ok [OF ok _ _ _ _ _ _ b7])
      show "distinct (?c # ids)" "set (?c # ids) \<inter> insert j S = {}"
        using c(1) 1(3,4) 2(3) by auto
      show "Suc (length (?c # ids)) = length ablocks" using 1(2) 3(3) len by simp
      show "set (?c # ids) \<subseteq> {..<length (blocks b6)}" using ok by (auto simp: builder_ok_def)
      show "\<forall>ab \<in> set ablocks. entry_block ab < length (blocks b6)"
        using 3(6) len36 order_less_le_trans by blast
    qed simp
    have "ext S b b7"
    proof -
      have "ext S b b2" by (rule ext_trans [OF ext_mono [OF 1(5)] ext_mono [OF 2(4)]]) auto
      also have "ext S b2 b3" by (rule ext_mono [OF 3(2)]) auto
      also have "ext S b3 b4" by (rule ext_mono [OF 4(2)]) auto
      also have "ext S b4 b5" by (rule ext_mono [OF 5(2)]) auto
      also have "ext S b5 b6" by (rule ext_mono [OF 6(2)]) auto
      also have "ext S b6 b7" by (rule ext_mono [OF conjunct2 [OF 7]]) auto
      finally show ?thesis .
    qed
    then show ?thesis using 7 2(3) 3(7) b' by (auto simp: open_at_def)
  qed
qed

section \<open>Character classes\<close>

text \<open>The strings of a class: every alternative is closed by a jump to the block that follows the class.\<close>

lemma string_alternatives_ok:
  assumes "builder_ok nc (S \<union> set ids) b" and "distinct ids" and "set ids \<inter> S = {}"
    and "length ids \<le> length ss" and "t < length (blocks b)" and "icu_ok icu"
    and "for_each (\<lambda>(k, s) b. do {
        b \<leftarrow> emit_literal icu (as_bytes s) (set_current_block k b);
        emit_jump t b
      }) (zip ids ss) b = Some b'"
  shows "builder_ok nc S b' \<and> ext S b b'"
  using assms
proof (induction ids arbitrary: ss b)
  case (Cons k ids)
  obtain s ss' where ss: "ss = s # ss'" using Cons.prems(4) by (cases ss) auto
  obtain b1 b2 where b1: "emit_literal icu (as_bytes s) (set_current_block k b) = Some b1"
    and b2: "emit_jump t b1 = Some b2"
    and b3: "for_each (\<lambda>(k, s) b. do {
        b \<leftarrow> emit_literal icu (as_bytes s) (set_current_block k b);
        emit_jump t b
      }) (zip ids ss') b2 = Some b'"
    using Cons.prems(7) ss by (auto simp: bind_eq_Some_conv)
  let ?S = "S \<union> set ids"
  have "open_at nc ?S (set_current_block k b)"
    using Cons.prems(1-3) by (simp add: open_at_def)
  from writesD [OF writes_literal [OF Cons.prems(6)] this b1]
  have 1: "builder_ok nc (insert (current_block_id b1) ?S) b1" "current_block_id b1 \<notin> ?S"
    "ext ?S b b1" by (auto simp: open_at_def)
  have t: "t < length (blocks b1)" using Cons.prems(5) ext_length [OF 1(3)] by simp
  note 2 = jump_here [OF 1(1,2) b2 t]
  have e: "ext ?S b b2" by (rule ext_trans [OF 1(3) 2(2)])
  have "t < length (blocks b2)" using Cons.prems(5) ext_length [OF e] by simp
  from Cons.IH [OF 2(1) _ _ _ this Cons.prems(6) b3] Cons.prems(2-4) ss
  show ?case using ext_trans [OF ext_mono [OF e, of S]] by auto
qed simp

lemma class_string_disjunction_ok:
  assumes at: "open_at nc S b" and t: "t \<in> S" and icu: "icu_ok icu"
    and run: "emit_class_string_disjunction icu ss t b = Some b'"
  shows "open_at nc S b' \<and> ext S b b'"
proof -
  let ?c = "current_block_id b" and ?ss = "sort_strings ss"
  obtain n where n: "checked_sub (length ?ss) 1 = Some n"
    using run by (auto simp: emit_class_string_disjunction_def bind_eq_Some_conv Let_def)
  obtain ids b1 where b1: "new_blocks n b = (ids, b1)" by fastforce
  obtain alts b2 where b2: "new_blocks (length ?ss) b1 = (alts, b2)" by fastforce
  obtain j b3 where b3: "new_block b2 = (j, b3)" by fastforce
  let ?ids = "?c # ids"
  let ?f = "\<lambda>i b. Option.bind (vec_get ?ids i) (\<lambda>block_id. Option.bind (vec_get alts i)
    (\<lambda>alternative_block_id. Option.bind (vec_get ?ids (i + 1)) (\<lambda>next_block_id.
       emit_branch alternative_block_id next_block_id (set_current_block block_id b))))"
  obtain b4 b5 b6 where b4: "for_each ?f [0..<n] b3 = Some b4"
    and b5: "emit_branch (last alts) j (set_current_block (last ?ids) b4) = Some b5"
    and b6: "for_each (\<lambda>(k, s) b. do {
        b \<leftarrow> emit_literal icu (as_bytes s) (set_current_block k b);
        emit_jump t b
      }) (zip alts ?ss) b5 = Some b6"
    and b': "b' = set_current_block j b6"
    using run n b1 b2 b3
    by (auto simp: emit_class_string_disjunction_def Let_def bind_eq_Some_conv simp del: last.simps)
  have c: "?c \<notin> S" "builder_ok nc (insert ?c S) b" using at by (simp_all add: open_at_def)
  have 1: "builder_ok nc (insert ?c S \<union> set ids) b1" "length ids = n" "distinct ids"
    "set ids \<inter> insert ?c S = {}" "ext (insert ?c S) b b1"
    using new_blocks_ok [OF c(2) b1] by auto
  have 2: "builder_ok nc (insert ?c S \<union> set ids \<union> set alts) b2" "length alts = length ?ss"
    "distinct alts" "set alts \<inter> (insert ?c S \<union> set ids) = {}" "ext (insert ?c S \<union> set ids) b1 b2"
    using new_blocks_ok [OF 1(1) b2] by auto
  note 3 = new_block_ok [OF 2(1) b3]
  have len: "Suc n = length ?ss" using n by auto
  let ?S = "insert j S \<union> set alts"
  have "insert j (insert ?c S \<union> set ids \<union> set alts) = ?S \<union> set ?ids" by auto
  then have ok: "builder_ok nc (?S \<union> set ?ids) b3" using 3(1) by simp
  have ids: "distinct ?ids" "set ?ids \<inter> ?S = {}" using c(1) 1(3,4) 2(4) 3(3) by auto
  have bound: "\<forall>k \<in> set alts \<union> set ?ids \<union> {j, t}. k < length (blocks b3)"
    using ok t by (auto simp: builder_ok_def)
  have "\<exists>i'. emit_instr i' (set_current_block (?ids ! i) c1) = Some c2 \<and> ends_flow i' \<and> instr_ok nc c1 i'"
    if i: "i < n" and le: "length (blocks b3) \<le> length (blocks c1)" and f: "?f i c1 = Some c2" for i c1 c2
  proof -
    have "alts ! i < length (blocks c1)" "?ids ! (i + 1) < length (blocks c1)"
      using bound i len le 1(2) 2(2) nth_mem [of i alts] nth_mem [of "i + 1" ?ids]
      by (auto intro: order_less_le_trans)
    then show ?thesis using f branch_instr_ok by (auto simp: bind_eq_Some_conv emit_branch_def)
  qed
  then have 4: "builder_ok nc (?S \<union> set (drop n ?ids)) b4" "ext ?S b3 b4"
    using close_chain [OF ok ids _ b4] 1(2) by auto
  have "drop n ?ids = [last ?ids]"
    using 1(2) by (metis append_butlast_last_id append_eq_conv_conj diff_Suc_1 length_Cons length_butlast list.distinct(1))
  then have l: "builder_ok nc (?S \<union> {last ?ids}) b4" using 4(1) by simp
  have lS: "last ?ids \<notin> ?S" using ids(2) last_in_set [of ?ids] by blast
  have "alts \<noteq> []" using 2(2) len by auto
  then have la: "last alts < length (blocks b4)" "j < length (blocks b4)"
    using bound last_in_set [of alts] ext_length [OF 4(2)] by (auto intro: order_less_le_trans)
  have 5: "builder_ok nc ?S b5" "ext ?S b4 b5"
    using branch_at [OF l _ b5 la] lS ext_mono [of "- {last ?ids}" b4 b5 ?S] by auto
  have t5: "t < length (blocks b5)"
    using bound ext_length [OF 4(2)] ext_length [OF 5(2)] by simp
  have 6: "builder_ok nc (insert j S) b6 \<and> ext (insert j S) b5 b6"
    using string_alternatives_ok [OF 5(1) 2(3) _ _ t5 icu b6] 2(2,4) 3(3) by auto
  have "ext S b b3"
    by (rule ext_trans [OF ext_mono [OF 1(5)] ext_trans [OF ext_mono [OF 2(5)] ext_mono [OF 3(4)]]]) auto
  then have "ext S b b6"
    using ext_mono [OF 4(2), of S] ext_mono [OF 5(2), of S] ext_mono [OF conjunct2 [OF 6], of S]
    by (auto intro: ext_trans)
  then show ?thesis using 6 3(3) b' by (auto simp: open_at_def)
qed

lemma open_at_insert:
  "open_at nc S b \<Longrightarrow> builder_ok nc (insert (current_block_id b) S) b"
  by (simp add: open_at_def)

lemma writes_character_class:
  assumes icu: "icu_ok icu"
  shows "writes nc (emit_character_class icu cc)"
  unfolding writes_def
proof (intro allI impI)
  fix S b b'
  assume at: "open_at nc S b" and run: "emit_character_class icu cc b = Some b'"
  obtain fl cps strings join b1 b2 where
    "current_flags b = Some fl"
    and b1: "(if strings \<noteq> [] then
        let (join_block_id, b) = new_block b in
        Option.bind (emit_class_string_disjunction icu strings join_block_id b)
          (\<lambda>b. Some (Some join_block_id, b)) else Some (None, b)) = Some (join, b1)"
    and b2: "emit_code_point_set icu (if is_case_insensitive fl then case_close_over icu fl cps else cps)
       (is_inverted cc \<and> \<not> has_unicode_sets_flag fl) b1 = Some b2"
    and b3: "(case join of Some t \<Rightarrow> Option.bind (emit_jump t b2) (\<lambda>b. Some (set_current_block t b))
       | None \<Rightarrow> Some b2) = Some b'"
    using run unfolding emit_character_class_def
    by (auto simp: bind_eq_Some_conv Let_def split: option.splits)
  note set_writes = writesD [OF writes_code_point_set [OF icu] _ b2]
  show "open_at nc S b' \<and> ext S b b'"
  proof (cases "strings = []")
    case True
    then have "join = None" "b1 = b" using b1 by auto
    then show ?thesis using set_writes at b3 by simp
  next
    case False
    obtain t c where c: "new_block b = (t, c)" by fastforce
    have b1': "emit_class_string_disjunction icu strings t c = Some b1" and join: "join = Some t"
      using b1 False c by (auto simp: bind_eq_Some_conv)
    note n = new_block_ok [OF open_at_insert [OF at] c]
    have "open_at nc (insert t S) c"
      using at n by (auto simp: open_at_def insert_commute)
    from class_string_disjunction_ok [OF this _ icu b1']
    have 1: "open_at nc (insert t S) b1" "ext (insert t S) c b1" by simp_all
    have 2: "open_at nc (insert t S) b2" "ext (insert t S) b1 b2" using set_writes [OF 1(1)] by simp_all
    obtain b4 where b4: "emit_jump t b2 = Some b4" and b': "b' = set_current_block t b4"
      using b3 join by (auto simp: bind_eq_Some_conv)
    have "builder_ok nc (insert (current_block_id b2) (insert t S)) b2"
      "current_block_id b2 \<notin> insert t S" using 2(1) by (simp_all add: open_at_def)
    from jump_here [OF this b4] have 3: "builder_ok nc (insert t S) b4" "ext (insert t S) b2 b4"
      using builder_ok_block [OF open_at_insert [OF 2(1)], of t] by simp_all
    have "ext S b c" by (rule ext_mono [OF n(4)]) auto
    then have "ext S b b4"
      using ext_mono [OF 1(2), of S] ext_mono [OF 2(2), of S] ext_mono [OF 3(2), of S]
      by (auto intro: ext_trans)
    then show ?thesis using 3(1) n(3) b' by (auto simp: open_at_def)
  qed
qed

section \<open>Quantifiers\<close>

lemma quantifier_branch_here:
  assumes "builder_ok nc (insert (current_block_id b) S) b" and "current_block_id b \<notin> S"
    and "emit_quantifier_branch q t j b = Some b'" and "t < length (blocks b)" and "j < length (blocks b)"
  shows "builder_ok nc S b' \<and> ext S b b'"
  using branch_here [OF assms(1,2), of t j b'] branch_here [OF assms(1,2), of j t b'] assms(3-5)
  by (cases "is_greedy q") (auto simp: emit_quantifier_branch_def)

lemma enter_branch_here:
  assumes "builder_ok nc (insert (current_block_id b) S) b" and "current_block_id b \<notin> S"
    and "emit_enter_branch q clears info t j b = Some b'"
    and "t < length (blocks b)" and "j < length (blocks b)" and "groups_ok nc (captures info)"
  shows "builder_ok nc S b' \<and> ext S b b'"
proof (cases "clears \<and> captures info \<noteq> []")
  case False
  then show ?thesis
    using quantifier_branch_here [OF assms(1,2) _ assms(4,5)] assms(3)
    by (auto simp: emit_enter_branch_def split: if_splits)
next
  case True
  obtain k b1 where b1: "new_block b = (k, b1)" by fastforce
  obtain b2 b3 where b2: "emit_quantifier_branch q t k b1 = Some b2"
    and b3: "emit_clear_captures (captures info) (set_current_block k b2) = Some b3"
    and b4: "emit_jump j b3 = Some b'"
    using assms(3) True b1
    by (auto simp: emit_enter_branch_def emit_quantifier_clear_captures_branch_def bind_eq_Some_conv)
  note n = new_block_ok [OF assms(1) b1]
  have "builder_ok nc (insert (current_block_id b1) (insert k S)) b1"
    "current_block_id b1 \<notin> insert k S"
    using n(1,3,6) assms(2) by (auto simp: insert_commute)
  from quantifier_branch_here [OF this b2] have 2: "builder_ok nc (insert k S) b2" "ext (insert k S) b1 b2"
    using assms(4) n(2,7) by auto
  have kS: "k \<notin> S" using n(3) by simp
  have 3: "builder_ok nc (insert k S) b3" "ext S b2 b3" "current_block_id b3 = k"
    using clear_captures_at [OF 2(1) _ assms(6) b3] kS by auto
  have "j < length (blocks b3)"
    using assms(5) n(2,7) ext_length [OF 2(2)] ext_length [OF 3(2)] by linarith
  then have 4: "builder_ok nc S b'" "ext S b3 b'"
    using jump_here [of nc b3 S j b'] 3 kS b4 by auto
  have "ext S b b2" by (rule ext_trans [OF ext_mono [OF n(4)] ext_mono [OF 2(2)]]) auto
  then show ?thesis using 4 ext_trans [OF _ ext_trans [OF 3(2) 4(2)]] by blast
qed

text \<open>New registers.\<close>

lemma ext_counters:
  assumes "blocks b' = blocks b" and "unat (num_progress_points b) \<le> unat (num_progress_points b')"
    and "unat (num_loop_registers b) \<le> unat (num_loop_registers b')"
    and "flag_stack b' = flag_stack b" and "direction_stack b' = direction_stack b"
    and "repitition_depth b' = repitition_depth b"
  shows "ext F b b'"
  using assms by (simp add: ext_def)

lemma builder_ok_ext:
  assumes "builder_ok nc S b" and "blocks b' = blocks b" and "ext F b b'"
  shows "builder_ok nc S b'"
  using assms(1,2) code_ok_mono [OF _ assms(3)] settled_mono [OF _ assms(3)]
  by (simp add: builder_ok_def)

lemma new_progress_point_ok:
  assumes "new_progress_point b = Some (p, b')"
  shows "blocks b' = blocks b" and "current_block_id b' = current_block_id b"
    and "unat p < unat (num_progress_points b')" and "ext F b b'"
    and "unat (num_progress_points b) \<le> unat (num_progress_points b')"
  using assms checked_add_u32_Some [of "num_progress_points b" 1]
  by (auto simp: new_progress_point_def bind_eq_Some_conv ext_def)

lemma next_loop_register_ok:
  assumes "next_loop_register b = Some (r, b')"
  shows "blocks b' = blocks b" and "current_block_id b' = current_block_id b"
    and "unat r < unat (num_loop_registers b')" and "ext F b b'"
  using assms checked_add_u32_Some [of "num_loop_registers b" 1]
  by (auto simp: next_loop_register_def bind_eq_Some_conv ext_def)

lemma open_at_ext:
  assumes "open_at nc S b" and "blocks b' = blocks b" and "current_block_id b' = current_block_id b"
    and "ext F b b'"
  shows "open_at nc S b'"
  using assms builder_ok_ext [OF _ assms(2,4)] by (simp add: open_at_def)

lemma progress_instr_ok: "unat p < unat (num_progress_points b) \<Longrightarrow> instr_ok nc b (IProgress p)"
  by (simp add: instr_ok_def)

lemma writes_progress [writes_intros]: "writes nc (emit_progress_unless_consumes info)"
  unfolding writes_def
proof (intro allI impI)
  fix S b b'
  assume at: "open_at nc S b" and run: "emit_progress_unless_consumes info b = Some b'"
  show "open_at nc S b' \<and> ext S b b'"
  proof (cases "always_consumes info")
    case False
    then obtain p b1 where b1: "new_progress_point b = Some (p, b1)"
      and b2: "emit_instr (IProgress p) b1 = Some b'"
      using run by (auto simp: emit_progress_unless_consumes_def bind_eq_Some_conv)
    note n = new_progress_point_ok [OF b1]
    have "open_at nc S b1" by (rule open_at_ext [OF at n(1,2,4)])
    then show ?thesis
      using open_at_emit [OF _ b2 progress_instr_ok [OF n(3)]] ext_trans [OF n(4)] by blast
  qed (use at run in \<open>simp add: emit_progress_unless_consumes_def\<close>)
qed

lemma emits_times:
  assumes "emits nc e" and "groups_ok nc (captures info)"
  shows "emits nc (emit_times n e info)"
  using assms(2)
proof (induction n arbitrary: info)
  case (Suc n)
  show ?case
    unfolding emits_def
  proof (intro allI impI)
    fix S b i b'
    assume at: "open_at nc S b" and run: "emit_times (Suc n) e info b = Some (i, b')"
    obtain i1 b1 where b1: "e b = Some (i1, b1)" "emit_times n e i1 b1 = Some (i, b')"
      using run by (auto simp: bind_eq_Some_conv)
    note 1 = emitsD [OF assms(1) at b1(1)]
    have "emits nc (emit_times n e i1)" using 1 by (intro Suc.IH) simp
    from emitsD [OF this _ b1(2)] 1
    show "open_at nc S b' \<and> ext S b b' \<and> groups_ok nc (captures i)" using ext_trans by blast
  qed
qed (simp add: emits_def)

text \<open>The start of a loop block: the loop instruction on a new register.\<close>

lemma loop_header_ok:
  assumes "open_at nc S b" and "next_loop_register b = Some (r, b1)"
    and "emit_instr (ILoop r m (word_of_nat t)) b1 = Some b2" and "t < length (blocks b)"
  shows "open_at nc S b2 \<and> ext S b b2"
proof -
  note n = next_loop_register_ok [OF assms(2)]
  have "instr_ok nc b1 (ILoop r m (word_of_nat t))"
    using n(1,3) assms(4) unat_word_of_nat_le [of t]
    by (auto simp: instr_ok_def intro: order_le_less_trans)
  from open_at_emit [OF open_at_ext [OF assms(1) n(1,2,4)] assms(3) this]
  show ?thesis using ext_trans [OF n(4)] by blast
qed

lemma emits_min_repititions:
  assumes e: "emits nc (quantifier_term q)"
  shows "emits nc (emit_min_repititions q)"
  unfolding emits_def
proof (intro allI impI)
  fix S b info b'
  assume at: "open_at nc S b" and run: "emit_min_repititions q b = Some (info, b')"
  let ?goal = "open_at nc S b' \<and> ext S b b' \<and> groups_ok nc (captures info)"
  consider (inline) "min_count q \<noteq> 0 \<and> min_count q \<le> MAX_INLINED_REPITITIONS"
    | (impossible) "\<not> (min_count q \<noteq> 0 \<and> min_count q \<le> MAX_INLINED_REPITITIONS)"
        "int (min_count q) > U32_MAX"
    | (loop) "\<not> (min_count q \<noteq> 0 \<and> min_count q \<le> MAX_INLINED_REPITITIONS)"
        "\<not> int (min_count q) > U32_MAX" "min_count q \<noteq> 0"
    | (zero) "min_count q = 0"
    by blast
  then show ?goal
  proof cases
    case inline
    have "emits nc (emit_times (min_count q) (quantifier_term q) (no_captures False))"
      by (rule emits_times [OF e]) simp
    from emitsD [OF this at] show ?thesis
      using run inline by (simp add: emit_min_repititions_def)
  next
    case impossible
    have "writes nc (emit_instr IFail)" by (rule writes_emit) simp
    from writesD [OF this at] show ?thesis
      using run impossible by (auto simp: emit_min_repititions_def bind_eq_Some_conv)
  next
    case zero
    then show ?thesis
      using at run by (auto simp: emit_min_repititions_def U32_MAX_def bind_eq_Some_conv)
  next
    case loop
    let ?c = "current_block_id b"
    obtain l b1 where b1: "new_block b = (l, b1)" by fastforce
    obtain en b2 where b2: "new_block b1 = (en, b2)" by fastforce
    obtain b3 r b4 b5 b6 b7 where b3: "emit_jump l b2 = Some b3"
      and b4: "next_loop_register (set_current_block l b3) = Some (r, b4)"
      and b5: "emit_instr (ILoop r (word_of_nat (min_count q)) (word_of_nat en)) b4 = Some b5"
      and b6: "quantifier_term q b5 = Some (info, b6)"
      and b7: "emit_jump l b6 = Some b7" and b': "b' = set_current_block en (set_current_block (current_block_id b3) b7)"
      using run loop b1 b2 unfolding emit_min_repititions_def in_block_def
      by (auto simp: bind_eq_Some_conv Let_def)
    note 1 = new_block_ok [OF open_at_insert [OF at] b1]
    note 2 = new_block_ok [OF 1(1) b2]
    have "builder_ok nc (insert (current_block_id b2) (insert en (insert l S))) b2"
      "current_block_id b2 \<notin> insert en (insert l S)"
      using at 1(3,6) 2(1,3,6) by (auto simp: open_at_def insert_commute)
    from jump_here [OF this b3] 2(2,7) have 3: "builder_ok nc (insert en (insert l S)) b3"
      "ext (insert en (insert l S)) b2 b3" using 1(7) by simp_all
    have "open_at nc (insert en S) (set_current_block l b3)"
      using 3(1) 1(3) 2(3) by (auto simp: open_at_def insert_commute)
    moreover have en: "en < length (blocks b3)" using 2(7) ext_length [OF 3(2)] by simp
    ultimately have 5: "open_at nc (insert en S) b5" "ext (insert en S) b3 b5"
      using loop_header_ok [OF _ b4 b5] by auto
    have 6: "open_at nc (insert en S) b6" "ext (insert en S) b5 b6" "groups_ok nc (captures info)"
      using emitsD [OF e 5(1) b6] by simp_all
    have "l < length (blocks b6)"
      using 1(7) 2(2,7) ext_length [OF 3(2)] ext_length [OF 5(2)] ext_length [OF 6(2)] by linarith
    then have 7: "builder_ok nc (insert en S) b7" "ext (insert en S) b6 b7"
      using jump_here [of nc b6 "insert en S" l b7] 6(1) b7 by (auto simp: open_at_def)
    have "ext S b b2" by (rule ext_trans [OF ext_mono [OF 1(4)] ext_mono [OF 2(4)]]) auto
    also have "ext S b2 b3" by (rule ext_mono [OF 3(2)]) auto
    also have "ext S b3 b5" by (rule ext_mono [OF 5(2)]) auto
    also have "ext S b5 b6" by (rule ext_mono [OF 6(2)]) auto
    also have "ext S b6 b7" by (rule ext_mono [OF 7(2)]) auto
    finally show ?thesis using 7(1) 6(3) 2(3) b' by (auto simp: open_at_def)
  qed
qed

lemma emits_optional_terms:
  assumes e: "emits nc (quantifier_term q)" and "groups_ok nc (captures qi)"
    and "\<forall>p. progress = Some p \<longrightarrow> unat p < unat (num_progress_points b)"
    and "open_at nc S b" and "j \<in> S"
    and "emit_optional_terms q inside j is progress qi b = Some (info, b')"
  shows "open_at nc S b' \<and> ext S b b' \<and> groups_ok nc (captures info)"
  using assms(2-6)
proof (induction "is" arbitrary: progress qi b)
  case (Cons i "is")
  let ?c = "current_block_id b"
  obtain t b1 where b1: "new_block b = (t, b1)" by fastforce
  obtain i2 b2 progress' b3 b5 where
    b2: "quantifier_term q (set_current_block t b1) = Some (i2, b2)"
    and b3: "(if \<not> always_consumes i2 then
        Option.bind (case progress of None \<Rightarrow> new_progress_point b2 | Some p \<Rightarrow> Some (p, b2))
          (\<lambda>(p, b). Option.bind (emit_instr (IProgress p) b) (\<lambda>b. Some (Some p, b)))
      else Some (progress, b2)) = Some (progress', b3)"
    and b4: "emit_enter_branch q (i = 0 \<and> inside) i2 t j (set_current_block ?c b3) = Some b5"
    and b6: "emit_optional_terms q inside j is progress' (qi\<lparr>captures := captures i2\<rparr>)
       (set_current_block (current_block_id b3) b5) = Some (info, b')"
    using Cons.prems(5) b1 by (auto simp: in_block_def bind_eq_Some_conv Let_def)
  note 1 = new_block_ok [OF open_at_insert [OF Cons.prems(3)] b1]
  have c: "?c \<notin> S" using Cons.prems(3) by (simp add: open_at_def)
  have at1: "open_at nc (insert ?c S) (set_current_block t b1)"
    using 1(1,3) by (simp add: open_at_def)
  have 2: "open_at nc (insert ?c S) b2" "ext (insert ?c S) b1 b2" "groups_ok nc (captures i2)"
    using emitsD [OF e at1 b2] by simp_all
  have 3: "open_at nc (insert ?c S) b3 \<and> ext (insert ?c S) b2 b3
    \<and> (\<forall>p. progress' = Some p \<longrightarrow> unat p < unat (num_progress_points b3))"
  proof (cases "always_consumes i2")
    case True
    then show ?thesis
      using b3 2(1) Cons.prems(2) 1(4) ext_trans [OF ext_mono [OF 1(4), of "{}"] ext_mono [OF 2(2), of "{}"]]
      by (auto simp: ext_def)
  next
    case False
    then obtain p b4 where p: "(case progress of None \<Rightarrow> new_progress_point b2 | Some p \<Rightarrow> Some (p, b2))
        = Some (p, b4)" and emit: "emit_instr (IProgress p) b4 = Some b3" "progress' = Some p"
      using b3 by (auto simp: bind_eq_Some_conv)
    have "blocks b4 = blocks b2" "current_block_id b4 = current_block_id b2"
      "unat p < unat (num_progress_points b4)" "ext (insert ?c S) b2 b4"
      using p new_progress_point_ok [of b2 p b4] Cons.prems(2)
        ext_trans [OF ext_mono [OF 1(4), of "{}"] ext_mono [OF 2(2), of "{}"]]
      by (auto simp: ext_def split: option.splits)
    then show ?thesis
      using open_at_emit [OF open_at_ext [OF 2(1)] emit(1) progress_instr_ok] emit
        ext_trans [of "insert ?c S" b2 b4 b3] by (auto simp: ext_def)
  qed
  have len: "t < length (blocks b3)" "j < length (blocks b3)"
    using 1(7) ext_length [OF 2(2)] 3 builder_ok_block [OF open_at_insert, of nc "insert ?c S" b3 j]
      Cons.prems(4) by (auto simp: ext_def)
  have "builder_ok nc (insert ?c (insert (current_block_id b3) S)) (set_current_block ?c b3)"
    "?c \<notin> insert (current_block_id b3) S"
    using 3 c by (auto simp: open_at_def insert_commute)
  with enter_branch_here [of nc "set_current_block ?c b3" "insert (current_block_id b3) S",
      OF _ _ b4 _ _ 2(3)] len
  have 5: "builder_ok nc (insert (current_block_id b3) S) b5" "ext (insert (current_block_id b3) S) b3 b5"
    by simp_all
  have at5: "open_at nc S (set_current_block (current_block_id b3) b5)"
    using 5(1) 3 by (auto simp: open_at_def)
  have "\<forall>p. progress' = Some p \<longrightarrow>
      unat p < unat (num_progress_points (set_current_block (current_block_id b3) b5))"
    using 3 5(2) by (auto simp: ext_def)
  from Cons.IH [OF _ this at5 Cons.prems(4) b6] 2(3)
  have 6: "open_at nc S b'" "ext S b5 b'" "groups_ok nc (captures info)" by simp_all
  have "ext S b b1" by (rule ext_mono [OF 1(4)]) auto
  also have "ext S b1 b2" by (rule ext_mono [OF 2(2)]) auto
  also have "ext S b2 b3" by (rule ext_mono [OF conjunct1 [OF conjunct2 [OF 3]]]) auto
  also have "ext S b3 b5" by (rule ext_mono [OF 5(2)]) auto
  also note 6(2)
  finally show ?case using 6 by simp
qed simp

lemma optional_loop_ok:
  assumes e: "emits nc (quantifier_term q)" and "groups_ok nc (captures qi)"
    and at: "open_at nc S b" and j: "j \<in> S"
    and run: "emit_optional_loop q inside n j qi b = Some (info, b')"
  shows "builder_ok nc S b' \<and> ext S b b' \<and> groups_ok nc (captures info)"
proof -
  let ?c = "current_block_id b"
  obtain l b1 where b1: "new_block b = (l, b1)" by fastforce
  obtain r b2 b3 i4 b4 b5 b6 where
    b2: "next_loop_register (set_current_block l b1) = Some (r, b2)"
    and b3: "emit_instr (ILoop r (word_of_nat n) (word_of_nat j)) b2 = Some b3"
    and b4: "quantifier_term q b3 = Some (i4, b4)"
    and b5: "emit_progress_unless_consumes i4 b4 = Some b5"
    and b6: "emit_quantifier_branch q l j b5 = Some b6"
    and b7: "emit_enter_branch q (min_count q = 0 \<and> inside) i4 l j
       (set_current_block ?c (set_current_block (current_block_id b1) b6)) = Some b'"
    and info: "info = qi\<lparr>captures := captures i4\<rparr>"
    using run b1 unfolding emit_optional_loop_def in_block_def
    by (auto simp: bind_eq_Some_conv Let_def)
  have c: "?c \<notin> S" using at by (simp add: open_at_def)
  note 1 = new_block_ok [OF open_at_insert [OF at] b1]
  have at1: "open_at nc (insert ?c S) (set_current_block l b1)" using 1(1,3) by (simp add: open_at_def)
  have "j < length (blocks (set_current_block l b1))"
    using builder_ok_block [OF 1(1), of j] j by simp
  from loop_header_ok [OF at1 b2 b3 this]
  have 3: "open_at nc (insert ?c S) b3" "ext (insert ?c S) b1 b3" by simp_all
  have 4: "open_at nc (insert ?c S) b4" "ext (insert ?c S) b3 b4" "groups_ok nc (captures i4)"
    using emitsD [OF e 3(1) b4] by simp_all
  have 5: "open_at nc (insert ?c S) b5" "ext (insert ?c S) b4 b5"
    using writesD [OF writes_progress 4(1) b5] by simp_all
  have len: "l < length (blocks b5)" "j < length (blocks b5)"
    using 1(7) ext_length [OF 3(2)] ext_length [OF 4(2)] ext_length [OF 5(2)]
      builder_ok_block [OF open_at_insert [OF 5(1)], of j] j by auto
  have 6: "builder_ok nc (insert ?c S) b6" "ext (insert ?c S) b5 b6"
    using quantifier_branch_here [OF _ _ b6 len, of nc "insert ?c S"] 5(1) by (auto simp: open_at_def)
  have b7': "emit_enter_branch q (min_count q = 0 \<and> inside) i4 l j (set_current_block ?c b6) = Some b'"
    using b7 by (simp add: set_current_block_def)
  have 7: "builder_ok nc S b' \<and> ext S b6 b'"
    using enter_branch_here [OF _ _ b7' _ _ 4(3), of S] 6(1) c len ext_length [OF 6(2)] by auto
  have "ext S b b1" by (rule ext_mono [OF 1(4)]) auto
  also have "ext S b1 b3" by (rule ext_mono [OF 3(2)]) auto
  also have "ext S b3 b4" by (rule ext_mono [OF 4(2)]) auto
  also have "ext S b4 b5" by (rule ext_mono [OF 5(2)]) auto
  also have "ext S b5 b6" by (rule ext_mono [OF 6(2)]) auto
  also have "ext S b6 b'" using 7 by simp
  finally show ?thesis using 7 4(3) info by simp
qed

lemma emits_unbounded:
  assumes e: "emits nc (quantifier_term q)" and "groups_ok nc (captures qi)"
  shows "emits nc (emit_unbounded q inside qi)"
  unfolding emits_def
proof (intro allI impI)
  fix S b info b'
  assume at: "open_at nc S b" and run: "emit_unbounded q inside qi b = Some (info, b')"
  let ?c = "current_block_id b"
  obtain t b1 where b1: "new_block b = (t, b1)" by fastforce
  obtain j b2 where b2: "new_block b1 = (j, b2)" by fastforce
  obtain i3 b3 b4 b5 b6 where
    b3: "quantifier_term q (set_current_block t b2) = Some (i3, b3)"
    and b4: "emit_enter_branch q inside i3 t j (set_current_block (current_block_id b2) b3) = Some b4"
    and b5: "emit_progress_unless_consumes i3 (set_current_block (current_block_id b3) b4) = Some b5"
    and b6: "emit_quantifier_branch q t j b5 = Some b6"
    and b': "info = qi\<lparr>captures := captures i3\<rparr>" "b' = set_current_block j b6"
    using run b1 b2 unfolding emit_unbounded_def in_block_def
    by (auto simp: bind_eq_Some_conv Let_def)
  have c: "?c \<notin> S" using at by (simp add: open_at_def)
  note 1 = new_block_ok [OF open_at_insert [OF at] b1]
  note 2 = new_block_ok [OF 1(1) b2]
  have c2: "current_block_id b2 = ?c" using 1(6) 2(6) by simp
  let ?S = "insert j S"
  have "open_at nc (insert ?c ?S) (set_current_block t b2)"
    using 2(1,3) 1(3) by (auto simp: open_at_def insert_commute)
  from emitsD [OF e this b3]
  have 3: "open_at nc (insert ?c ?S) b3" "ext (insert ?c ?S) b2 b3" "groups_ok nc (captures i3)"
    by simp_all
  have len: "t < length (blocks b3)" "j < length (blocks b3)"
    using 1(7) 2(2,7) ext_length [OF 3(2)] by auto
  have "builder_ok nc (insert ?c (insert (current_block_id b3) ?S)) (set_current_block ?c b3)"
    "?c \<notin> insert (current_block_id b3) ?S"
    using 3(1) 2(3) c by (auto simp: open_at_def insert_commute)
  with enter_branch_here [of nc "set_current_block ?c b3" "insert (current_block_id b3) ?S",
      OF _ _ b4 [unfolded c2] _ _ 3(3)] len
  have 4: "builder_ok nc (insert (current_block_id b3) ?S) b4" "ext (insert (current_block_id b3) ?S) b3 b4"
    by simp_all
  have at4: "open_at nc ?S (set_current_block (current_block_id b3) b4)"
    using 4(1) 3(1) by (simp add: open_at_def)
  have 5: "open_at nc ?S b5" "ext ?S b4 b5"
    using writesD [OF writes_progress at4 b5] by simp_all
  have 6: "builder_ok nc ?S b6" "ext ?S b5 b6"
    using quantifier_branch_here [OF _ _ b6, of nc ?S] 5(1) len ext_length [OF 4(2)] ext_length [OF 5(2)]
    by (auto simp: open_at_def)
  have "ext S b b2" by (rule ext_trans [OF ext_mono [OF 1(4)] ext_mono [OF 2(4)]]) auto
  also have "ext S b2 b3" by (rule ext_mono [OF 3(2)]) auto
  also have "ext S b3 b4" by (rule ext_mono [OF 4(2)]) auto
  also have "ext S b4 b5" by (rule ext_mono [OF 5(2)]) auto
  also have "ext S b5 b6" by (rule ext_mono [OF 6(2)]) auto
  finally show "open_at nc S b' \<and> ext S b b' \<and> groups_ok nc (captures info)"
    using 6(1) 2(3) 3(3) b' by (auto simp: open_at_def)
qed

lemma open_at_patch:
  assumes "open_at nc (insert k S) b" and "blocks b ! k = []" and "Suc k < length (blocks b)"
  shows "builder_ok nc (insert (current_block_id b) S) b"
proof -
  have "insert (current_block_id b) (insert k S) = insert k (insert (current_block_id b) S)" by blast
  then have "builder_ok nc (insert k (insert (current_block_id b) S)) b"
    using assms(1) by (simp add: open_at_def)
  from builder_ok_patch [OF this _ assms(3)] show ?thesis using assms(2) by (simp add: patch_code_def)
qed

text \<open>The patch block is settled at the end, with or without the progress instruction in it.\<close>

lemma empty_check_ok:
  assumes at: "open_at nc (insert k S) b" and k: "k \<notin> S" "blocks b ! k = []" "Suc k < length (blocks b)"
    and caps: "groups_ok nc (captures qi)"
    and run: "emit_empty_check q k qi b = Some (info, b')"
  shows "open_at nc S b' \<and> ext S b b' \<and> groups_ok nc (captures info)"
proof (cases "min_count q = 0 \<and> \<not> always_consumes qi \<and> captures qi \<noteq> []")
  case False
  then have "b' = b" "info = qi" using run by (auto simp: emit_empty_check_def split: if_splits)
  moreover have "builder_ok nc (insert (current_block_id b) S) b"
    by (rule open_at_patch [OF at k(2,3)])
  ultimately show ?thesis using at caps by (simp add: open_at_def)
next
  case True
  let ?c = "current_block_id b"
  obtain p b1 where b1: "new_progress_point b = Some (p, b1)"
    using run True by (auto simp: emit_empty_check_def bind_eq_Some_conv split: if_splits)
  obtain b2 where b2: "emit_instr (IProgress p) (set_current_block k b1) = Some b2"
    using run True b1 by (auto simp: emit_empty_check_def in_block_def bind_eq_Some_conv split: if_splits)
  let ?b2 = "set_current_block (current_block_id b1) b2"
  obtain x b3 where b3: "new_block ?b2 = (x, b3)" by fastforce
  obtain y b4 where b4: "new_block b3 = (y, b4)" by fastforce
  obtain j b5 where b5: "new_block b4 = (j, b5)" by fastforce
  obtain b6 b7 b8 b9 b10 where b6: "emit_branch x y b5 = Some b6"
    and b7: "emit_instr (IProgress p) (set_current_block x b6) = Some b7"
    and b8: "emit_jump j b7 = Some b8"
    and b9: "emit_clear_captures (captures qi)
       (set_current_block y (set_current_block (current_block_id b6) b8)) = Some b9"
    and b10: "emit_jump j b9 = Some b10"
    and b': "info = qi" "b' = set_current_block j b10"
    using run True b1 b2 b3 b4 b5
    by (auto simp: emit_empty_check_def in_block_def bind_eq_Some_conv Let_def set_current_block_def)
  note 1 = new_progress_point_ok [OF b1]
  have at1: "open_at nc (insert k S) b1" by (rule open_at_ext [OF at 1(1,2,4)])
  have c: "?c \<notin> insert k S" using at by (simp add: open_at_def)
  have "builder_ok nc (insert ?c (insert k S)) (set_current_block k b1)"
    using at1 1(2) by (simp add: open_at_def)
  from emit_instr_ok(1) [OF this b2] have 2: "builder_ok nc (insert ?c (insert k S)) b2"
    using 1(3) by (simp add: instr_ok_def)
  have e2: "ext (- {k}) b1 b2" using emit_instr_ext [OF b2, of "- {k}"] by simp
  have "blocks b2 ! k = encode (IProgress p)"
    using emit_instr_blocks [OF b2] k(2) 1(1) by simp
  then have "patch_code (blocks b2 ! k)" unfolding patch_code_def by blast
  moreover have "insert ?c (insert k S) = insert k (insert ?c S)" by blast
  ultimately have 3: "builder_ok nc (insert ?c S) ?b2"
    using 2 k(3) 1(1) ext_length [OF e2] builder_ok_patch [of nc k "insert ?c S" b2] by simp
  note n3 = new_block_ok [OF 3 b3]
  note n4 = new_block_ok [OF n3(1) b4]
  note n5 = new_block_ok [OF n4(1) b5]
  have c5: "current_block_id b5 = ?c" using n3(6) n4(6) n5(6) 1(2) by simp
  let ?S = "insert x (insert y (insert j S))"
  have "builder_ok nc (insert (current_block_id b5) ?S) b5" "current_block_id b5 \<notin> ?S"
    using n5(1,3) n4(3) n3(3) c by (auto simp: c5 insert_commute)
  from branch_here [OF this b6] n4(2,7) n5(2,7) n3(7)
  have 6: "builder_ok nc ?S b6" "ext ?S b5 b6" by simp_all
  have dist: "x \<notin> insert y (insert j S)" "y \<notin> insert j S" "j \<notin> S"
    using n3(3) n4(3) n5(3) by auto
  have at6: "open_at nc (insert y (insert j S)) (set_current_block x b6)"
    using 6(1) dist by (simp add: open_at_def)
  have "instr_ok nc (set_current_block x b6) (IProgress p)"
  proof -
    have "ext {} b1 b6"
      using ext_mono [OF e2, of "{}"] ext_mono [OF n3(4), of "{}"] ext_mono [OF n4(4), of "{}"]
        ext_mono [OF n5(4), of "{}"] ext_mono [OF 6(2), of "{}"] by (simp, blast intro: ext_trans)
    then show ?thesis using 1(3) by (intro progress_instr_ok) (auto simp: ext_def)
  qed
  from open_at_emit [OF at6 b7 this]
  have 7: "open_at nc (insert y (insert j S)) b7" "ext (insert y (insert j S)) b6 b7" by simp_all
  have j7: "j < length (blocks b7)" using n5(7) ext_length [OF 6(2)] ext_length [OF 7(2)] by simp
  have 8: "builder_ok nc (insert y (insert j S)) b8" "ext (insert y (insert j S)) b7 b8"
    using jump_here [OF open_at_insert [OF 7(1)] _ b8 j7] 7(1) by (simp_all add: open_at_def)
  have b9': "emit_clear_captures (captures qi) (set_current_block y b8) = Some b9"
    using b9 by (simp add: set_current_block_def)
  have 9: "builder_ok nc (insert y (insert j S)) b9" "ext (insert j S) b8 b9" "current_block_id b9 = y"
    using clear_captures_at [OF 8(1) _ caps b9'] dist by auto
  have j9: "j < length (blocks b9)" using j7 ext_length [OF 8(2)] ext_length [OF 9(2)] by simp
  have 10: "builder_ok nc (insert j S) b10" "ext (insert j S) b9 b10"
    using jump_here [of nc b9 "insert j S" j b10] 9 dist j9 b10 by auto
  have "ext S b b2" by (rule ext_trans [OF 1(4) ext_mono [OF e2]]) (use k(1) in auto)
  also have "ext S b2 b3" using ext_mono [OF n3(4), of S] by auto
  also have "ext S b3 b4" by (rule ext_mono [OF n4(4)]) auto
  also have "ext S b4 b5" by (rule ext_mono [OF n5(4)]) auto
  also have "ext S b5 b6" by (rule ext_mono [OF 6(2)]) auto
  also have "ext S b6 b7" by (rule ext_mono [OF 7(2)]) auto
  also have "ext S b7 b8" by (rule ext_mono [OF 8(2)]) auto
  also have "ext S b8 b9" by (rule ext_mono [OF 9(2)]) auto
  also have "ext S b9 b10" by (rule ext_mono [OF 10(2)]) auto
  finally show ?thesis using 10(1) dist caps b' by (auto simp: open_at_def)
qed

lemma enter_repitition_ok:
  "blocks (enter_repitition_context b) = blocks b"
  "current_block_id (enter_repitition_context b) = current_block_id b"
  "open_at nc S (enter_repitition_context b) = open_at nc S b"
  by (simp_all add: enter_repitition_context_def open_at_def builder_ok_cong [of "b\<lparr>repitition_depth := Suc (repitition_depth b)\<rparr>" b])

lemma leave_repitition_ok:
  assumes "leave_repitition q b' = Some b''"
    and "ext F (if is_repitition q then enter_repitition_context b else b) b'"
  shows "ext F b b''" and "blocks b'' = blocks b'" and "current_block_id b'' = current_block_id b'"
    and "open_at nc S b'' = open_at nc S b'"
  using assms builder_ok_cong [of "b'\<lparr>repitition_depth := repitition_depth b' - 1\<rparr>" b']
  by (auto simp: leave_repitition_def exit_repitition_context_def enter_repitition_context_def
      bind_eq_Some_conv ext_def open_at_def split: if_splits)

lemma emits_quantifier:
  assumes e: "emits nc (quantifier_term q)"
  shows "emits nc (emit_quantifier q)"
  unfolding emits_def
proof (intro allI impI)
  fix S b info b'
  assume at: "open_at nc S b" and run: "emit_quantifier q b = Some (info, b')"
  let ?inside = "is_in_repitition b"
  define b0 where "b0 = (if is_repitition q then enter_repitition_context b else b)"
  have at0: "open_at nc S b0" using at by (simp add: b0_def enter_repitition_ok)
  obtain k b1 where b1: "new_block b0 = (k, b1)" by fastforce
  obtain s b2 where b2: "new_block b1 = (s, b2)" by fastforce
  obtain b3 qi b4 where b3: "emit_jump k b2 = Some b3"
    and b4: "emit_min_repititions q (set_current_block s b3) = Some (qi, b4)"
    and rest: "(case max_count q of
        Some max_repititions \<Rightarrow> Option.bind (checked_sub max_repititions (min_count q)) (\<lambda>n.
          if n = 0 then Option.bind (leave_repitition q b4) (\<lambda>b. Some (qi, b))
          else let (j, b) = new_block b4 in
            Option.bind
              (if n \<le> MAX_INLINED_REPITITIONS then
                 Option.bind (emit_optional_terms q ?inside j [min_count q..<max_repititions] None qi b)
                   (\<lambda>(qi, b). Option.bind (emit_jump j b) (\<lambda>b. Some (qi, b)))
               else if int n > U32_MAX then Option.bind (emit_instr IFail b) (\<lambda>b. Some (qi, b))
               else emit_optional_loop q ?inside n j qi b)
              (\<lambda>(qi, b). Option.bind (leave_repitition q (set_current_block j b))
                 (emit_empty_check q k qi)))
      | None \<Rightarrow> Option.bind (emit_unbounded q ?inside qi b4) (\<lambda>(qi, b).
          Option.bind (leave_repitition q b) (emit_empty_check q k qi))) = Some (info, b')"
    using run b1 b2 unfolding emit_quantifier_def b0_def
    by (auto simp: bind_eq_Some_conv Let_def)
  note 1 = new_block_ok [OF open_at_insert [OF at0] b1]
  note 2 = new_block_ok [OF 1(1) b2]
  have "builder_ok nc (insert (current_block_id b2) (insert s (insert k S))) b2"
    "current_block_id b2 \<notin> insert s (insert k S)"
    using at0 1(3,6) 2(1,3,6) by (auto simp: open_at_def insert_commute)
  from jump_here [OF this b3] 1(7) 2(2,7)
  have 3: "builder_ok nc (insert s (insert k S)) b3" "ext (insert s (insert k S)) b2 b3" by simp_all
  have ks: "k \<notin> S" "s \<notin> insert k S" "s = Suc k" using 1(3,7) 2(2,3) by auto
  let ?S = "insert k S"
  have at3: "open_at nc ?S (set_current_block s b3)" using 3(1) ks by (simp add: open_at_def)
  from emitsD [OF emits_min_repititions [OF e] at3 b4]
  have 4: "open_at nc ?S b4" "ext ?S b3 b4" "groups_ok nc (captures qi)" by simp_all
  have empty4: "blocks b4 ! k = []"
    using 1(5,7) 2(4) ext_block [OF 2(4), of k] ext_block [OF 3(2), of k] ext_block [OF 4(2), of k] by simp
  have len4: "Suc k < length (blocks b4)" using 2(7) ks(3) ext_length [OF 3(2)] ext_length [OF 4(2)] by simp
  have "ext S b0 b2" by (rule ext_trans [OF ext_mono [OF 1(4)] ext_mono [OF 2(4)]]) auto
  also have "ext S b2 b3" by (rule ext_mono [OF 3(2)]) auto
  also have "ext S b3 b4" by (rule ext_mono [OF 4(2)]) auto
  finally have ext04: "ext S b0 b4" .
  have finish: "open_at nc S b' \<and> ext S b b' \<and> groups_ok nc (captures info)"
    if at5: "open_at nc ?S b5" and e5: "ext ?S b4 b5" and leave: "leave_repitition q b5 = Some b6"
      and check: "emit_empty_check q k qi5 b6 = Some (info, b')" and g: "groups_ok nc (captures qi5)"
    for b5 b6 qi5
  proof -
    have "ext S b0 b5" using ext_trans [OF ext04 ext_mono [OF e5]] by blast
    note 6 = leave_repitition_ok [OF leave this [unfolded b0_def]]
    have "blocks b6 ! k = []" using empty4 ext_block [OF e5, of k] 6(2) by simp
    moreover have "Suc k < length (blocks b6)" using len4 ext_length [OF e5] 6(2) by simp
    ultimately show ?thesis
      using empty_check_ok [OF _ ks(1) _ _ g check] at5 6(1,4) ext_trans by blast
  qed
  show "open_at nc S b' \<and> ext S b b' \<and> groups_ok nc (captures info)"
  proof (cases "max_count q")
    case None
    then obtain qi5 b5 b6 where b5: "emit_unbounded q ?inside qi b4 = Some (qi5, b5)"
      and b6: "leave_repitition q b5 = Some b6" "emit_empty_check q k qi5 b6 = Some (info, b')"
      using rest by (auto simp: bind_eq_Some_conv)
    from emitsD [OF emits_unbounded [OF e 4(3)] 4(1) b5] show ?thesis using finish b6 by blast
  next
    case (Some m)
    then obtain n where n: "checked_sub m (min_count q) = Some n" using rest by (auto simp: bind_eq_Some_conv)
    show ?thesis
    proof (cases "n = 0")
      case True
      then have b': "leave_repitition q b4 = Some b'" "info = qi"
        using rest Some n by (auto simp: bind_eq_Some_conv)
      note 5 = leave_repitition_ok [OF b'(1) ext04 [unfolded b0_def]]
      have "builder_ok nc (insert (current_block_id b') S) b'"
        by (rule open_at_patch [of nc k]) (use 4(1) 5 empty4 len4 in simp_all)
      then show ?thesis using 4 5 b' by (auto simp: open_at_def)
    next
      case False
      obtain j b5 where b5: "new_block b4 = (j, b5)" by fastforce
      obtain qi6 b6 b7 where
        b6: "(if n \<le> MAX_INLINED_REPITITIONS then
                 Option.bind (emit_optional_terms q ?inside j [min_count q..<m] None qi b5)
                   (\<lambda>(qi, b). Option.bind (emit_jump j b) (\<lambda>b. Some (qi, b)))
               else if int n > U32_MAX then Option.bind (emit_instr IFail b5) (\<lambda>b. Some (qi, b))
               else emit_optional_loop q ?inside n j qi b5) = Some (qi6, b6)"
        and b7: "leave_repitition q (set_current_block j b6) = Some b7"
          "emit_empty_check q k qi6 b7 = Some (info, b')"
        using rest Some n False b5 by (auto simp: bind_eq_Some_conv)
      note 5 = new_block_ok [OF open_at_insert [OF 4(1)] b5]
      have at5: "open_at nc (insert j ?S) b5"
        using 4(1) 5(1,3,6) by (auto simp: open_at_def insert_commute)
      have j5: "j < length (blocks b5)" using 5(7) by simp
      have "builder_ok nc (insert j ?S) b6 \<and> ext (insert j ?S) b5 b6 \<and> groups_ok nc (captures qi6)"
      proof -
        consider (terms) "n \<le> MAX_INLINED_REPITITIONS"
          | (fail) "\<not> n \<le> MAX_INLINED_REPITITIONS" "int n > U32_MAX"
          | (loop) "\<not> n \<le> MAX_INLINED_REPITITIONS" "\<not> int n > U32_MAX"
          by blast
        then show ?thesis
        proof cases
          case terms
          then obtain c where c: "emit_optional_terms q ?inside j [min_count q..<m] None qi b5 = Some (qi6, c)"
            and jump: "emit_jump j c = Some b6"
            using b6 by (auto simp: bind_eq_Some_conv)
          have t: "open_at nc (insert j ?S) c" "ext (insert j ?S) b5 c" "groups_ok nc (captures qi6)"
            using emits_optional_terms [OF e 4(3) _ at5 _ c] by simp_all
          have "j < length (blocks c)" using j5 ext_length [OF t(2)] by simp
          from jump_here [OF open_at_insert [OF t(1)] _ jump this] t show ?thesis
            using ext_trans by (auto simp: open_at_def)
        next
          case fail
          then have f: "emit_instr IFail b5 = Some b6" "qi6 = qi"
            using b6 by (auto simp: bind_eq_Some_conv)
          have "instr_ok nc b5 IFail" by (simp add: instr_ok_def)
          from emit_instr_ok(2) [OF open_at_insert [OF at5] f(1) _ this] emit_instr_ext [OF f(1)]
          show ?thesis using at5 4(3) f(2) by (auto simp: open_at_def)
        next
          case loop
          then have "emit_optional_loop q ?inside n j qi b5 = Some (qi6, b6)" using b6 by simp
          from optional_loop_ok [OF e 4(3) at5 _ this] show ?thesis by simp
        qed
      qed
      then have 6: "builder_ok nc (insert j ?S) b6" "ext (insert j ?S) b5 b6" "groups_ok nc (captures qi6)"
        by simp_all
      have "open_at nc ?S (set_current_block j b6)" using 6(1) 5(3) by (simp add: open_at_def)
      moreover have "ext ?S b4 (set_current_block j b6)"
        using ext_trans [OF ext_mono [OF 5(4), of ?S] ext_mono [OF 6(2), of ?S]] by auto
      ultimately show ?thesis using finish b7 6(3) by blast
    qed
  qed
qed

section \<open>Groups and lookarounds\<close>

lemma emits_capture_group:
  assumes d: "emits nc (emit_disjunction (group_disjunction g))" and g: "unat (group_index g) \<le> nc"
  shows "emits nc (emit_capture_group g)"
  unfolding emits_def
proof (intro allI impI)
  fix S b info b'
  assume at: "open_at nc S b" and run: "emit_capture_group g b = Some (info, b')"
  obtain s e d' where s: "checked_mul_u32 (group_index g) 2 = Some s"
    and e: "checked_add_u32 s 1 = Some e" and d': "is_forwards b = Some d'"
    using run unfolding emit_capture_group_def by (auto simp: bind_eq_Some_conv)
  define i j where "i = (if d' then s else e)" and "j = (if d' then e else s)"
  note ij = i_def j_def
  obtain b1 i2 b2 where b1: "emit_instr (IMarkCapturePoint i) b = Some b1"
    and b2: "emit_disjunction (group_disjunction g) b1 = Some (i2, b2)"
    and b3: "emit_instr (IMarkCapturePoint j) b2 = Some b'"
    and info: "info = i2\<lparr>captures := captures i2 @ [group_index g]\<rparr>"
    using run s e d' unfolding emit_capture_group_def ij
    by (cases d') (auto simp: bind_eq_Some_conv Let_def)
  have "unat s < 2 * (nc + 1)" "unat e < 2 * (nc + 1)"
    using checked_mul_u32_Some [OF s] checked_add_u32_Some [OF e] g by auto
  then have w: "writes nc (emit_instr (IMarkCapturePoint i))"
    "writes nc (emit_instr (IMarkCapturePoint j))"
    by (auto simp: ij intro!: writes_emit)
  note 1 = writesD [OF w(1) at b1]
  note 2 = emitsD [OF d conjunct1 [OF 1] b2]
  note 3 = writesD [OF w(2) conjunct1 [OF 2] b3]
  have "ext S b b'"
    using 1 2 3 ext_trans by blast
  then show "open_at nc S b' \<and> ext S b b' \<and> groups_ok nc (captures info)"
    using 2 3 g info by simp
qed

lemma flag_stack_ok:
  "blocks (b\<lparr>flag_stack := fs\<rparr>) = blocks b"
  "open_at nc S (b\<lparr>flag_stack := fs\<rparr>) = open_at nc S b"
  by (simp_all add: open_at_def builder_ok_cong [of "b\<lparr>flag_stack := fs\<rparr>" b])

lemma direction_ok:
  "open_at nc S (enter_direction_context d b) = open_at nc S b"
  "builder_ok nc S (exit_direction_context b) = builder_ok nc S b"
  "ext F (enter_direction_context d b) b' \<Longrightarrow> ext F b (exit_direction_context b')"
  "current_block_id (enter_direction_context d b) = current_block_id b"
  by (simp_all add: open_at_def enter_direction_context_def exit_direction_context_def ext_def
      builder_ok_cong [of "b\<lparr>direction_stack := d # direction_stack b\<rparr>" b]
      builder_ok_cong [of "b\<lparr>direction_stack := tl (direction_stack b)\<rparr>" b])

lemma emits_anonymous_group:
  assumes d: "emits nc (emit_disjunction (anonymous_disjunction g))"
  shows "emits nc (emit_anonymous_group g)"
  unfolding emits_def
proof (intro allI impI)
  fix S b info b'
  assume at: "open_at nc S b" and run: "emit_anonymous_group g b = Some (info, b')"
  let ?m = "\<not> flags_is_empty (positive_modifiers g) \<or> \<not> flags_is_empty (negative_modifiers g)"
  obtain b1 b2 where b1: "b1 = b \<and> \<not> ?m \<or> ?m \<and> (\<exists>fl. b1 = b\<lparr>flag_stack := fl # flag_stack b\<rparr>)"
    and b2: "emit_disjunction (anonymous_disjunction g) b1 = Some (info, b2)"
    and b': "b' = (if ?m then b2\<lparr>flag_stack := tl (flag_stack b2)\<rparr> else b2)"
    using run unfolding emit_anonymous_group_def
    by (cases ?m) (auto simp: bind_eq_Some_conv Let_def simp del: de_Morgan_conj)
  have "open_at nc S b1" using at b1 flag_stack_ok by auto
  from emitsD [OF d this b2] show "open_at nc S b' \<and> ext S b b' \<and> groups_ok nc (captures info)"
    using b1 b' by (cases ?m) (auto simp: flag_stack_ok ext_def)
qed

lemma emits_lookaround:
  assumes d: "emits nc (emit_disjunction (lookaround_disjunction l))"
  shows "emits nc (emit_lookaround l)"
  unfolding emits_def
proof (intro allI impI)
  fix S b info b'
  assume at: "open_at nc S b" and run: "emit_lookaround l b = Some (info, b')"
  obtain k b1 where b1: "new_block b = (k, b1)" by fastforce
  obtain b2 i3 b3 b4 where
    b2: "emit_instr (ILookaround (lookaround_is_ahead l) (lookaround_is_positive l) (word_of_nat k)) b1 = Some b2"
    and b3: "emit_disjunction (lookaround_disjunction l) (set_current_block k
        (enter_direction_context (lookaround_is_ahead l) b2)) = Some (i3, b3)"
    and b4: "emit_instr IAccept b3 = Some b4"
    and b': "info = i3\<lparr>always_consumes := False\<rparr>"
      "b' = set_current_block (current_block_id b2) (exit_direction_context b4)"
    using run b1 unfolding emit_lookaround_def
    by (auto simp: bind_eq_Some_conv Let_def direction_ok)
  let ?c = "current_block_id b"
  note 1 = new_block_ok [OF open_at_insert [OF at] b1]
  have c: "?c \<notin> S" using at by (simp add: open_at_def)
  have "open_at nc (insert k S) b1" using 1(1,3,6) c by (auto simp: open_at_def insert_commute)
  moreover have "instr_ok nc b1 (ILookaround (lookaround_is_ahead l) (lookaround_is_positive l) (word_of_nat k))"
    using 1(7) unat_word_of_nat_le [of k] by (auto simp: instr_ok_def)
  ultimately have 2: "open_at nc (insert k S) b2" "ext (insert k S) b1 b2"
    using open_at_emit [OF _ b2] by blast+
  have c2: "current_block_id b2 = ?c" using emit_instr_current [OF b2] 1(6) by simp
  have "open_at nc (insert ?c S) (set_current_block k b2)"
    using 2(1) 1(3) c c2 by (auto simp: open_at_def insert_commute)
  then have "open_at nc (insert ?c S) (enter_direction_context (lookaround_is_ahead l) (set_current_block k b2))"
    by (simp add: direction_ok)
  then have at3: "open_at nc (insert ?c S) (set_current_block k (enter_direction_context (lookaround_is_ahead l) b2))"
    by (cases b2) (simp add: enter_direction_context_def set_current_block_def)
  from emitsD [OF d this b3]
  have 3: "open_at nc (insert ?c S) b3" "ext (insert ?c S) (enter_direction_context (lookaround_is_ahead l) b2) b3"
    "groups_ok nc (captures i3)" by simp_all
  have "instr_ok nc b3 IAccept" by (simp add: instr_ok_def)
  from emit_instr_ok(2) [OF open_at_insert [OF 3(1)] b4 _ this] emit_instr_ext [OF b4, of "insert ?c S"]
  have 4: "builder_ok nc (insert ?c S) b4" "ext (insert ?c S) b3 b4" using 3(1) by (auto simp: open_at_def)
  have e: "ext S b2 (exit_direction_context b4)"
    by (rule direction_ok(3) [OF ext_trans [OF ext_mono [OF 3(2)] ext_mono [OF 4(2)]]]) auto
  have "ext S b b1" by (rule ext_mono [OF 1(4)]) auto
  also have "ext S b1 b2" by (rule ext_mono [OF 2(2)]) auto
  also note e
  finally show "open_at nc S b' \<and> ext S b b' \<and> groups_ok nc (captures info)"
    using 4(1) 3(3) c c2 b' by (auto simp: open_at_def direction_ok)
qed

section \<open>Terms\<close>

text \<open>
  What the parser guarantees: group indices are within the number of groups, and a back reference
  is to a group of the pattern.
\<close>

definition disjunction_all :: "('t \<Rightarrow> bool) \<Rightarrow> 't disjunction \<Rightarrow> bool" where
  "disjunction_all P d \<longleftrightarrow> list_all (\<lambda>alt. list_all P (terms alt)) (alternatives d)"

primrec term_ok :: "nat \<Rightarrow> 'p regexp_term \<Rightarrow> bool" where
  "term_ok nc (Literal s) = True"
| "term_ok nc Wildcard = True"
| "term_ok nc (QuantifierTerm q) = quantifier_term (map_quantifier (term_ok nc) q)"
| "term_ok nc (AssertionTerm a) = True"
| "term_ok nc (LookaroundTerm l) =
     disjunction_all (\<lambda>ok. ok) (lookaround_disjunction (map_lookaround (term_ok nc) l))"
| "term_ok nc (CaptureGroupTerm g) =
     (unat (group_index g) \<le> nc
      \<and> disjunction_all (\<lambda>ok. ok) (group_disjunction (map_capture_group (term_ok nc) g)))"
| "term_ok nc (AnonymousGroupTerm g) =
     disjunction_all (\<lambda>ok. ok) (anonymous_disjunction (map_anonymous_group (term_ok nc) g))"
| "term_ok nc (CharacterClassTerm cc) = True"
| "term_ok nc (Backreference g) = (0 < unat g \<and> unat g \<le> nc)"

definition regexp_ok :: "'p regexp \<Rightarrow> bool" where
  "regexp_ok re \<longleftrightarrow>
     disjunction_all (term_ok (length (regexp_capture_groups re))) (regexp_disjunction re)
     \<and> int (2 * (length (regexp_capture_groups re) + 1)) < 2 ^ 32"

lemma disjunction_all_map:
  "disjunction_all P (map_disjunction f d) = disjunction_all (\<lambda>t. P (f t)) d"
  by (simp add: disjunction_all_def disjunction.map_sel alternative.map_sel list_all_iff)

lemma emits_mapped_disjunction:
  assumes "disjunction_all P d" and "\<And>t. t \<in> set_disjunction d \<Longrightarrow> P t \<Longrightarrow> emits nc (f t)"
  shows "emits nc (emit_disjunction (map_disjunction f d))"
proof (rule emits_disjunction, clarify)
  fix alt assume "alt \<in> set (alternatives (map_disjunction f d))"
  then obtain a where a: "a \<in> set (alternatives d)" and alt: "alt = map_alternative f a"
    by (auto simp: disjunction.map_sel)
  have "t \<in> set_disjunction d" if "t \<in> set (terms a)" for t
  proof -
    have "t \<in> set_alternative a" using that by (cases a) simp
    then show ?thesis using a by (cases d) auto
  qed
  moreover have "\<forall>t \<in> set (terms a). P t"
    using assms(1) a by (simp add: disjunction_all_def list_all_iff)
  ultimately have "\<forall>t \<in> set (terms a). emits nc (f t)" using assms(2) by blast
  then show "emits nc (emit_alternative alt)"
    by (intro emits_alternative) (auto simp: alt alternative.map_sel)
qed

lemma emits_term:
  assumes icu: "icu_ok icu" and "term_ok nc t"
  shows "emits nc (emit_term icu t)"
  using assms(2)
proof (induction t)
  case (QuantifierTerm q)
  then show ?case by (cases q) (auto intro!: emits_quantifier)
next
  case (LookaroundTerm l)
  then show ?case
    by (cases l) (auto intro!: emits_lookaround emits_mapped_disjunction [where P = "term_ok nc"]
        simp: disjunction_all_map)
next
  case (CaptureGroupTerm g)
  then show ?case
    by (cases g) (auto intro!: emits_capture_group emits_mapped_disjunction [where P = "term_ok nc"]
        simp: disjunction_all_map)
next
  case (AnonymousGroupTerm g)
  then show ?case
    by (cases g) (auto intro!: emits_anonymous_group emits_mapped_disjunction [where P = "term_ok nc"]
        simp: disjunction_all_map)
next
  case (Backreference g)
  then show ?case by (auto intro!: emits_leaf writes_backreference)
qed (auto intro!: emits_leaf writes_intros writes_character_class icu)

section \<open>Whole programs\<close>

lemma preamble_ok:
  assumes "open_at nc {} b" and "emit_preamble b = Some b'"
  shows "open_at nc {} b' \<and> ext {} b b'"
proof -
  let ?c = "current_block_id b"
  obtain w b1 where b1: "new_block b = (w, b1)" by fastforce
  obtain j b2 where b2: "new_block b1 = (j, b2)" by fastforce
  obtain b3 b4 b5 where b3: "emit_branch j w b2 = Some b3"
    and b4: "emit_instr IWildcard (set_current_block w b3) = Some b4"
    and b5: "emit_branch j w b4 = Some b5" and b': "b' = set_current_block j b5"
    using assms(2) b1 b2 by (auto simp: emit_preamble_def bind_eq_Some_conv Let_def)
  note 1 = new_block_ok [OF open_at_insert [OF assms(1)] b1]
  note 2 = new_block_ok [OF 1(1) b2]
  have "builder_ok nc (insert (current_block_id b2) {w, j}) b2" "current_block_id b2 \<notin> {w, j}"
    using 1(3,6) 2(1,3,6) by (auto simp: insert_commute)
  from branch_here [OF this b3] 1(7) 2(2,7)
  have 3: "builder_ok nc {w, j} b3" "ext {w, j} b2 b3" by simp_all
  have at3: "open_at nc {j} (set_current_block w b3)"
    using 3(1) 2(3) by (auto simp: open_at_def)
  have w4: "writes nc (emit_instr IWildcard)" by (rule writes_emit) simp
  from writesD [OF w4 at3 b4] have 4: "open_at nc {j} b4" "ext {j} b3 b4" by simp_all
  have "j < length (blocks b4)" "w < length (blocks b4)"
    using 1(7) 2(2,7) ext_length [OF 3(2)] ext_length [OF 4(2)] by auto
  from branch_here [OF open_at_insert [OF 4(1)] _ b5 this] 4(1)
  have 5: "builder_ok nc {j} b5" "ext {j} b4 b5" by (simp_all add: open_at_def)
  have "ext {} b b2" by (rule ext_trans [OF ext_mono [OF 1(4)] ext_mono [OF 2(4)]]) auto
  also have "ext {} b2 b3" by (rule ext_mono [OF 3(2)]) auto
  also have "ext {} b3 b4" by (rule ext_mono [OF 4(2)]) auto
  also have "ext {} b4 b5" by (rule ext_mono [OF 5(2)]) auto
  finally show ?thesis using 5(1) b' by (simp add: open_at_def)
qed

text \<open>After compilation no block is open, and the context stacks are back where they started.\<close>

lemma compile_blocks_ok:
  assumes icu: "icu_ok icu" and re: "regexp_ok re" and run: "compile_blocks icu re = Some b"
  defines "nc \<equiv> length (regexp_capture_groups re)"
  shows "builder_ok nc {} b" and "0 < length (blocks b)" and "flag_stack b = [regexp_flags re]"
    and "direction_stack b = [True]" and "repitition_depth b = 0"
proof -
  let ?b0 = "snd (new_block (new_builder (regexp_flags re)))"
  have fl: "current_flags ?b0 = Some (regexp_flags re)"
    by (simp add: current_flags_def new_block_def new_builder_def)
  obtain b1 b2 info b3 b4 where
    b1: "(if \<not> is_sticky (regexp_flags re) then emit_preamble ?b0 else Some ?b0) = Some b1"
    and b2: "emit_instr (IMarkCapturePoint 0) b1 = Some b2"
    and b3: "emit_disjunction (map_disjunction (emit_term icu) (regexp_disjunction re)) b2 = Some (info, b3)"
    and b4: "emit_instr (IMarkCapturePoint 1) b3 = Some b4"
    and b5: "emit_instr IAccept b4 = Some b"
    using run fl unfolding compile_blocks_def
    by (auto simp: bind_eq_Some_conv Let_def split_def)
  have nil: "builder_ok nc {} (new_builder (regexp_flags re))"
    by (simp add: builder_ok_def new_builder_def)
  from new_block_ok [OF this prod.collapse [symmetric]]
  have at0: "open_at nc {} ?b0" by (simp add: open_at_def new_block_def new_builder_def)
  have 1: "open_at nc {} b1 \<and> ext {} ?b0 b1"
    using preamble_ok [OF at0] at0 b1 by (auto split: if_splits)
  have w: "writes nc (emit_instr (IMarkCapturePoint 0))" "writes nc (emit_instr (IMarkCapturePoint 1))"
    by (intro writes_emit; simp)+
  note 2 = writesD [OF w(1) conjunct1 [OF 1] b2]
  have d: "emits nc (emit_disjunction (map_disjunction (emit_term icu) (regexp_disjunction re)))"
    using re emits_term [OF icu] unfolding regexp_ok_def nc_def
    by (intro emits_mapped_disjunction [where P = "term_ok nc"]) (auto simp: nc_def)
  note 3 = emitsD [OF d conjunct1 [OF 2] b3]
  note 4 = writesD [OF w(2) conjunct1 [OF 3] b4]
  have "instr_ok nc b4 IAccept" by (simp add: instr_ok_def)
  from emit_instr_ok(2) [OF open_at_insert [OF conjunct1 [OF 4]] b5 _ this] emit_instr_ext [OF b5, of "{}"]
  show ok: "builder_ok nc {} b" by simp
  have "ext {} b4 b" using emit_instr_ext [OF b5, of "{}"] by simp
  then have "ext {} ?b0 b" using 1 2 3 4 by (meson ext_trans)
  then show "0 < length (blocks b)" "flag_stack b = [regexp_flags re]" "direction_stack b = [True]"
    "repitition_depth b = 0"
    by (auto simp: ext_def new_block_def new_builder_def)
qed

text \<open>The instructions of a block.\<close>

definition block_instrs :: "nat \<Rightarrow> builder \<Rightarrow> nat \<Rightarrow> instr list" where
  "block_instrs nc b k =
     (SOME is. blocks b ! k = flat is \<and> (\<forall>i \<in> set is. instr_ok nc b i)
        \<and> (closed_code nc b (blocks b ! k) \<longrightarrow> is \<noteq> [] \<and> ends_flow (last is)))"

lemma block_instrs:
  assumes "code_ok nc b (blocks b ! k)"
  shows "blocks b ! k = flat (block_instrs nc b k) \<and> (\<forall>i \<in> set (block_instrs nc b k). instr_ok nc b i)
    \<and> (closed_code nc b (blocks b ! k) \<longrightarrow>
         block_instrs nc b k \<noteq> [] \<and> ends_flow (last (block_instrs nc b k)))"
  unfolding block_instrs_def
proof (rule someI_ex, cases "closed_code nc b (blocks b ! k)")
  case True
  then obtain "is" i where "blocks b ! k = flat (is @ [i])" "\<forall>j \<in> set (is @ [i]). instr_ok nc b j" "ends_flow i"
    by (auto simp: closed_code_def)
  then show "\<exists>is. blocks b ! k = flat is \<and> (\<forall>i \<in> set is. instr_ok nc b i)
      \<and> (closed_code nc b (blocks b ! k) \<longrightarrow> is \<noteq> [] \<and> ends_flow (last is))"
    by (intro exI [of _ "is @ [i]"]) simp
next
  case False
  then show "\<exists>is. blocks b ! k = flat is \<and> (\<forall>i \<in> set is. instr_ok nc b i)
      \<and> (closed_code nc b (blocks b ! k) \<longrightarrow> is \<noteq> [] \<and> ends_flow (last is))"
    using assms by (auto simp: code_ok_def)
qed

lemma block_refs_ok: "instr_ok nc b i \<Longrightarrow> t \<in> set (block_refs i) \<Longrightarrow> t < length (blocks b)"
  by (cases i) (auto simp: instr_ok_def)

lemma relocate_operands_ok:
  assumes "instr_ok nc b i" and "\<forall>t < length (blocks b). unat (ids ! t) \<in> set starts"
  shows "operands_fit (relocate ids i) \<and> operands_ok starts nc (unat (num_progress_points b))
    (unat (num_loop_registers b)) (relocate ids i)"
  using assms by (cases i) (auto simp: instr_ok_def)

lemma compile_program_ok:
  assumes icu: "icu_ok icu" and re: "regexp_ok re" and run: "compile_regexp icu re = Some prog"
    and size: "length (instructions prog) < 2 ^ 32"
  shows "\<exists>is. program_ok prog is"
proof -
  let ?nc = "length (regexp_capture_groups re)"
  obtain b instrs where b: "compile_blocks icu re = Some b"
    and instrs: "flatten_and_fix_indices (blocks b) = Some instrs"
    and prog: "instructions prog = instrs" "num_capture_groups prog = ?nc"
      "compiled_num_progress_points prog = unat (num_progress_points b)"
      "compiled_num_loop_registers prog = unat (num_loop_registers b)"
      "compiled_capture_groups prog = regexp_capture_groups re"
    using run unfolding compile_regexp_def by (auto simp: bind_eq_Some_conv)
  note ok = compile_blocks_ok [OF icu re b]
  let ?n = "length (blocks b)"
  define iss where "iss = map (block_instrs ?nc b) [0..<?n]"
  have inst: "blocks b ! k = flat (iss ! k)" "\<forall>i \<in> set (iss ! k). instr_ok ?nc b i"
    "closed_code ?nc b (blocks b ! k) \<Longrightarrow> iss ! k \<noteq> [] \<and> ends_flow (last (iss ! k))"
    if "k < ?n" for k
    using block_instrs [of ?nc b k] ok(1) that by (auto simp: builder_ok_def iss_def)
  have blocks: "blocks b = map flat iss"
    by (rule nth_equalityI) (use inst in \<open>auto simp: iss_def\<close>)
  have len: "length iss = ?n" by (simp add: iss_def)
  have valid: "\<forall>i \<in> set (concat iss). instr_ok ?nc b i"
    using inst(2) len by (fastforce simp: in_set_conv_nth)
  have "settled ?nc b (?n - 1)" using ok(1,2) by (auto simp: builder_ok_def)
  then have "closed_code ?nc b (blocks b ! (?n - 1))" using ok(2) by (auto simp: settled_def)
  moreover have "last iss = iss ! (?n - 1)" using ok(2) len by (simp add: last_conv_nth flip: length_greater_0_conv)
  ultimately have last: "last iss \<noteq> []" "ends_flow (last (last iss))" using inst(3) [of "?n - 1"] ok(2) by auto
  have "iss \<noteq> []" using ok(2) len by auto
  then have split: "concat iss = concat (butlast iss) @ last iss"
    by (metis append_butlast_last_id concat.simps concat_append append_Nil2)
  let ?ids = "id_map (map flat iss)"
  have flat: "instrs = flat (map (relocate ?ids) (concat iss))"
  proof -
    have "operands_fit i \<and> (\<forall>t \<in> set (block_refs i). t < length iss)" if "i \<in> set (concat iss)" for i
    proof -
      have i: "instr_ok ?nc b i" using valid that by blast
      then have "operands_fit i" by (simp add: instr_ok_def)
      then show ?thesis using block_refs_ok [OF i] len by simp
    qed
    then have "flatten_and_fix_indices (map flat iss) = Some (flat (map (relocate ?ids) (concat iss)))"
      by (intro flatten_relocates) blast
    then show ?thesis using instrs by (simp only: blocks option.inject)
  qed
  have size': "length (flat (concat iss)) < 2 ^ 32" using size by (simp add: prog flat)
  have starts: "\<forall>t < ?n. unat (?ids ! t) \<in> set (offsets (map (relocate ?ids) (concat iss)))"
    using block_start_offset [OF _ last(1) size'] len by (simp add: offsets_def)
  have "program_ok prog (map (relocate ?ids) (concat iss))"
    unfolding program_ok_def
  proof (intro conjI ballI)
    show "instructions prog = flat (map (relocate ?ids) (concat iss))" by (simp add: prog flat)
    show "map (relocate ?ids) (concat iss) \<noteq> []" using last(1) split by simp
    show "ends_flow (last (map (relocate ?ids) (concat iss)))" using last split by (simp add: last_map)
    show "int (2 * (num_capture_groups prog + 1)) < 2 ^ 32" using re by (simp add: regexp_ok_def prog)
    show "length (compiled_capture_groups prog) = num_capture_groups prog" by (simp add: prog)
    fix i assume "i \<in> set (map (relocate ?ids) (concat iss))"
    then obtain j where j: "i = relocate ?ids j" "instr_ok ?nc b j" using valid by auto
    from relocate_operands_ok [OF j(2) starts]
    show "operands_fit i" "operands_ok (offsets (map (relocate ?ids) (concat iss)))
        (num_capture_groups prog) (compiled_num_progress_points prog) (compiled_num_loop_registers prog) i"
      by (simp_all add: j(1) prog)
  qed
  then show ?thesis by blast
qed

end
