(* ===== verification/Regexp_Matcher_Properties.thy ===== *)
theory Regexp_Matcher_Properties
  imports Regexp_Safety
begin

text \<open>
  The guarantees of \<open>Regexp_Safety\<close> for \<open>run_matcher\<close>, the entry point of
  \<open>runtime/regexp/matcher.rs\<close>, on every heap string, with concrete runs that witness them.
\<close>

section \<open>A sample program\<close>

text \<open>\<open>/(?!b)a/y\<close>: a negative lookahead, then a literal.\<close>

definition sample_instrs :: "instr list" where
  "sample_instrs =
     [IMarkCapturePoint 0, ILookaround True False 8, ILiteral 97, IMarkCapturePoint 1, IAccept,
      ILiteral 98, IAccept]"

definition sample_regexp :: compiled_regexp where
  "sample_regexp =
     \<lparr>instructions = flat sample_instrs, compiled_flags = STICKY, has_named_capture_groups = False,
      has_duplicate_named_capture_groups = False, num_capture_groups = 0,
      compiled_num_progress_points = 0, compiled_num_loop_registers = 0,
      compiled_capture_groups = []\<rparr>"

definition identity_case :: icu_case where
  "identity_case = \<lparr>simple_fold = (\<lambda>c. c), simple_uppercase = (\<lambda>c. c)\<rparr>"

lemma sample_program_ok: "program_ok sample_regexp sample_instrs"
  by code_simp

lemma sample_no_backreference: "\<forall>i \<in> set sample_instrs. \<not> is_backreference i"
  by code_simp

section \<open>Every run\<close>

definition string_units :: "flat_string \<Rightarrow> nat" where
  "string_units str = (case str of OneByteString b \<Rightarrow> length b | TwoByteString b \<Rightarrow> length b)"

text \<open>The streams that keep the whole contract: all but the code point stream.\<close>

definition backwards_safe :: "compiled_regexp \<Rightarrow> flat_string \<Rightarrow> bool" where
  "backwards_safe re str \<longleftrightarrow>
     (case str of OneByteString b \<Rightarrow> True
      | TwoByteString b \<Rightarrow> \<not> has_any_unicode_flag (compiled_flags re))"

definition bounds_within :: "nat \<Rightarrow> compiled_regexp \<Rightarrow> regexp_match \<Rightarrow> bool" where
  "bounds_within n re m \<longleftrightarrow> length m = num_capture_groups re + 1
     \<and> (\<forall>s t. Some (s, t) \<in> set m \<longrightarrow> unat s \<le> n \<and> unat t \<le> n)"

lemma run_matcher_outcome:
  assumes "program_ok re is"
  shows "case run_matcher icu fuel re str start_index of
      Inl f \<Rightarrow> f = No_Fuel \<or> f = Panic \<and> ((\<exists>i \<in> set is. is_backreference i) \<or> \<not> backwards_safe re str)
    | Inr None \<Rightarrow> True
    | Inr (Some m) \<Rightarrow> bounds_within (string_units str) re m"
proof (cases str)
  case (OneByteString b)
  have "stream_ok b (one_byte_new b)" by (simp add: stream_ok_def one_byte_new_def)
  from one_byte.match_lexer_stream_ok [OF assms this] show ?thesis
    using one_byte.no_backwards_panic OneByteString
    by (fastforce simp: run_matcher_def one_byte.program_panics_def one_byte.match_ok_def
        bounds_within_def string_units_def split: sum.splits option.splits)
next
  case (TwoByteString b)
  show ?thesis
  proof (cases "has_any_unicode_flag (compiled_flags re)")
    case True
    from code_point.match_lexer_stream_ok [OF assms code_point_new_ok] show ?thesis
      using True TwoByteString
      by (fastforce simp: run_matcher_def code_point.match_ok_def bounds_within_def
          string_units_def backwards_safe_def split: sum.splits option.splits)
  next
    case False
    have "code_unit_ok b None (code_unit_new b None)"
      by (simp add: stream_ok_def code_unit_ok_def code_unit_new_def)
    from code_unit.match_lexer_stream_ok [OF assms this] show ?thesis
      using False code_unit.no_backwards_panic TwoByteString
      by (fastforce simp: run_matcher_def code_unit.program_panics_def code_unit.match_ok_def
          bounds_within_def string_units_def split: sum.splits option.splits)
  qed
qed

text \<open>C1: A run of well-formed bytecode on any string never reads outside the bytecode or the string
  and never interprets a byte that is no opcode: the outcome is not undefined behaviour.\<close>

theorem run_matcher_no_ub:
  assumes "program_ok re is"
  shows "run_matcher icu fuel re str start_index \<noteq> Inl UB"
  using run_matcher_outcome [OF assms, where icu = icu and fuel = fuel and str = str and start_index = start_index] by auto

theorem run_matcher_no_ub_witness:
  "run_matcher identity_case 20 sample_regexp (OneByteString [98, 97]) 0 \<noteq> Inl UB"
  by (rule run_matcher_no_ub [OF sample_program_ok])

text \<open>C2: Without back references, and on every stream but the code point stream, a run of
  well-formed bytecode does not panic: register indices are in range, lexer positions stay in the
  string, and the assertion on the backtrack stack after a failed lookaround holds.\<close>

theorem run_matcher_no_panic:
  assumes "program_ok re is" and "\<forall>i \<in> set is. \<not> is_backreference i" and "backwards_safe re str"
  shows "run_matcher icu fuel re str start_index \<noteq> Inl Panic"
  using run_matcher_outcome [OF assms(1), where icu = icu and fuel = fuel and str = str
      and start_index = start_index] assms(2,3) by auto

theorem run_matcher_no_panic_witness:
  "run_matcher identity_case 20 sample_regexp (TwoByteString [98, 97]) 0 \<noteq> Inl Panic"
proof (rule run_matcher_no_panic [OF sample_program_ok sample_no_backreference])
  show "backwards_safe sample_regexp (TwoByteString [98, 97])" by code_simp
qed

text \<open>C7: A match that the engine reports has one entry per capture group and the whole match, and
  every bound of a captured group is a position of the string.\<close>

theorem run_matcher_bounds:
  assumes "program_ok re is" and "run_matcher icu fuel re str start_index = Inr (Some m)"
  shows "length m = num_capture_groups re + 1
    \<and> (\<forall>s t. Some (s, t) \<in> set m \<longrightarrow>
          unat s \<le> string_units str \<and> unat t \<le> string_units str)"
  using run_matcher_outcome [OF assms(1), where icu = icu and fuel = fuel and str = str
      and start_index = start_index] assms(2)
  by (auto simp: bounds_within_def)

theorem run_matcher_bounds_witness:
  "length [Some (0 :: u32, 1 :: u32)] = num_capture_groups sample_regexp + 1
   \<and> unat (0 :: u32) \<le> string_units (OneByteString [97])
   \<and> unat (1 :: u32) \<le> string_units (OneByteString [97])"
proof -
  have run: "run_matcher identity_case 20 sample_regexp (OneByteString [97]) 0 = Inr (Some [Some (0, 1)])"
    by code_simp
  show ?thesis
    using run_matcher_bounds [OF sample_program_ok run] by simp
qed

lemma match_lexer_stream_more_fuel:
  assumes "match_lexer_stream lx icu re fuel s start_index \<noteq> Inl No_Fuel"
  shows "match_lexer_stream lx icu re (fuel + k) s start_index
    = match_lexer_stream lx icu re fuel s start_index"
proof (cases "op_advance_n lx s start_index")
  case (Some s')
  have "exec lx icu re fuel True (new_engine re s') \<noteq> Inl No_Fuel"
    using assms Some by (auto simp: match_lexer_stream_def run_def)
  from exec_more_fuel [OF refl this] show ?thesis
    using Some by (simp add: match_lexer_stream_def run_def)
qed (simp add: match_lexer_stream_def)

text \<open>The step budget is only a budget: once a run ends within it, every larger budget gives the same
  outcome.\<close>

lemma run_matcher_more_fuel:
  assumes "run_matcher icu fuel re str start_index = r" and "r \<noteq> Inl No_Fuel" and "fuel \<le> fuel'"
  shows "run_matcher icu fuel' re str start_index = r"
proof -
  obtain k where "fuel' = fuel + k" using assms(3) by (auto simp: le_iff_add)
  then show ?thesis
    using assms(1,2)
    by (auto simp: run_matcher_def match_lexer_stream_more_fuel split: flat_string.splits)
qed

section \<open>Lookarounds and backtracking\<close>

text \<open>The operations of two streams do not depend on the type of the source that errors refer to.\<close>

abbreviation one_byte_lexer :: "(u8 stream, unit) lexer_ops" where
  "one_byte_lexer \<equiv> one_byte_ops"

abbreviation code_point_lexer :: "(u16 stream, unit) lexer_ops" where
  "code_point_lexer \<equiv> code_point_ops"

text \<open>A lookaround that the engine is at, whose body is run and does not match.\<close>

definition lookaround_fails ::
    "('s, 'sl) lexer_ops \<Rightarrow> icu_case \<Rightarrow> compiled_regexp \<Rightarrow> instr list \<Rightarrow> 's engine \<Rightarrow> 's engine \<Rightarrow> bool" where
  "lookaround_fails lx icu re is e e' \<longleftrightarrow>
     (\<exists>ahead positive body fuel e0. fetches is (instruction_index e) (ILookaround ahead positive body)
        \<and> enter_lookaround lx ahead body e = Inr e0 \<and> exec lx icu re fuel ahead e0 = Inr (False, e'))"

definition same_registers :: "'s engine \<Rightarrow> 's engine \<Rightarrow> bool" where
  "same_registers e e' \<longleftrightarrow> capture_points e' = capture_points e \<and> progress_points e' = progress_points e
     \<and> loop_registers e' = loop_registers e \<and> backtrack_stack e' = backtrack_stack e"

definition frame_undone :: "'s engine \<Rightarrow> 's engine \<Rightarrow> bool" where
  "frame_undone e e' \<longleftrightarrow> regs e' = frame_regs e \<and> backtrack_stack e' = below_frame e"

context lexer_stream_fwd
begin

lemma failed_lookaround_same:
  assumes "program_ok re is" and "good re is e" and "lookaround_fails lx icu re is e e'"
  shows "same_registers e e'"
proof -
  obtain ahead positive body fuel e0 where "fetches is (instruction_index e) (ILookaround ahead positive body)"
    "enter_lookaround lx ahead body e = Inr e0" "exec lx icu re fuel ahead e0 = Inr (False, e')"
    using assms(3) unfolding lookaround_fails_def by (elim exE conjE)
  from failed_lookaround_restores [OF assms(1,2) this] show ?thesis by (simp add: same_registers_def regs_def)
qed

lemma failed_execution_undone:
  assumes "program_ok re is" and "good re is e" and "exec lx icu re fuel d e = Inr (False, e')"
  shows "frame_undone e e'"
  using exec_fail_restores [OF assms] by (simp add: frame_undone_def)

end

lemmas one_byte_failures = one_byte.failed_lookaround_same [unfolded length_map]
  one_byte.failed_execution_undone [unfolded length_map]
lemmas code_unit_failures = code_unit.failed_lookaround_same [unfolded length_map]
  code_unit.failed_execution_undone [unfolded length_map]
lemmas code_point_failures = code_point.failed_lookaround_same [unfolded length_map]
  code_point.failed_execution_undone [unfolded length_map]

text \<open>C3: A lookaround of well-formed bytecode whose body fails to match leaves the capture points, the
  progress points, the loop registers and the backtrack stack exactly as they were when it was entered, on each
  of the three streams that the matcher runs on (one byte strings, code units and code points of two byte
  strings), in every state that meets the invariant of a running engine.\<close>

theorem failed_lookaround_keeps_registers:
  assumes "program_ok re is"
  shows "(engine_ok one_byte_lexer (stream_ok b) (length b) re is e \<and> lookaround_fails one_byte_lexer icu re is e e'
      \<longrightarrow> same_registers e e')
    \<and> (engine_ok code_unit_ops (code_unit_ok c src) (length c) re is f \<and> lookaround_fails code_unit_ops icu re is f f'
      \<longrightarrow> same_registers f f')
    \<and> (engine_ok code_point_lexer (stream_ok c) (length c) re is g \<and> lookaround_fails code_point_lexer icu re is g g'
      \<longrightarrow> same_registers g g')"
  using one_byte_failures(1) [OF assms] code_unit_failures(1) [OF assms] code_point_failures(1) [OF assms] by blast

text \<open>The engine at the lookahead of the sample program, on the string \<open>"a"\<close>.\<close>

definition sample_engine :: "unit code_unit_stream engine" where
  "sample_engine =
     (new_engine sample_regexp (code_unit_new [97] None))\<lparr>instruction_index := 2,
        capture_points := [0, EMPTY_STRING_INDEX],
        backtrack_stack := [CapturePoint 0 EMPTY_STRING_INDEX]\<rparr>"

definition sample_lookaround :: instr where
  "sample_lookaround = ILookaround True False 8"

lemma sample_engine_ok:
  "engine_ok code_unit_ops (code_unit_ok [97] None) (length [97 :: u16]) sample_regexp sample_instrs
     sample_engine"
proof -
  have "at_instr sample_instrs 2" "regs_ok 1 sample_regexp (regs sample_engine)"
    by code_simp+
  moreover have "num_capture_groups sample_regexp = 0" by code_simp
  ultimately show ?thesis
    by (simp add: engine_ok_def sample_engine_def new_engine_def code_unit_ok_def stream_ok_def
        code_unit_new_def valid_index_def)
qed

lemma sample_fetches:
  "fetches sample_instrs (instruction_index sample_engine) (ILookaround True False 8)"
proof -
  have "2 = offset sample_instrs 1" "ILookaround True False 8 = sample_instrs ! 1"
    "1 < length sample_instrs" by code_simp+
  moreover have "instruction_index sample_engine = 2" by (simp add: sample_engine_def)
  ultimately show ?thesis unfolding fetches_def by metis
qed

definition sample_entered :: "unit code_unit_stream engine" where
  "sample_entered = (case enter_lookaround code_unit_ops True 8 sample_engine of
     Inr e0 \<Rightarrow> e0 | Inl _ \<Rightarrow> sample_engine)"

lemma sample_enter: "enter_lookaround code_unit_ops True 8 sample_engine = Inr sample_entered"
proof -
  have "case enter_lookaround code_unit_ops True 8 sample_engine of Inl _ \<Rightarrow> False | Inr _ \<Rightarrow> True"
    by code_simp
  then show ?thesis by (auto simp: sample_entered_def split: sum.splits)
qed

lemma sample_body_fails:
  "\<exists>e'. exec code_unit_ops identity_case sample_regexp 5 True sample_entered = Inr (False, e')"
proof -
  have "case exec code_unit_ops identity_case sample_regexp 5 True sample_entered of
      Inl _ \<Rightarrow> False | Inr (found, _) \<Rightarrow> \<not> found"
    by code_simp
  then show ?thesis by (auto split: sum.splits)
qed

theorem failed_lookaround_keeps_registers_witness:
  "\<exists>e'. exec code_unit_ops identity_case sample_regexp 5 True sample_entered = Inr (False, e')
     \<and> capture_points e' = [0, EMPTY_STRING_INDEX]"
proof -
  obtain e' where e': "exec code_unit_ops identity_case sample_regexp 5 True sample_entered = Inr (False, e')"
    using sample_body_fails by blast
  have "lookaround_fails code_unit_ops identity_case sample_regexp sample_instrs sample_engine e'"
    unfolding lookaround_fails_def using sample_fetches sample_enter e' by blast
  then have "same_registers sample_engine e'"
    using failed_lookaround_keeps_registers [OF sample_program_ok] sample_engine_ok by blast
  then show ?thesis using e' by (simp add: sample_engine_def same_registers_def)
qed

text \<open>A lookaround that lets the match go on consumes nothing: the stream is as it was before the
  lookaround, and execution goes on behind it.\<close>

theorem lookaround_consumes_nothing:
  assumes "engine_ok code_unit_ops (code_unit_ok b src) (length b) re is e"
    and "code_unit_ok b src (string_lexer e')"
    and "leave_lookaround code_unit_ops i positive e is_match e' = Inr (Next e'')"
    and "is_match = positive"
  shows "string_lexer e'' = string_lexer e
    \<and> instruction_index e'' = instruction_index e + instr_size i"
proof -
  have "engine_ok code_unit_ops (code_unit_ok b src) (length (map ucast b :: u32 list)) re is e"
    using assms(1) by simp
  from code_unit.lookaround_zero_width [OF this assms(2-4)] show ?thesis by simp
qed

theorem lookaround_consumes_nothing_witness:
  "\<exists>e' e''. exec code_unit_ops identity_case sample_regexp 5 True sample_entered = Inr (False, e')
     \<and> leave_lookaround code_unit_ops sample_lookaround False sample_engine False e' = Inr (Next e'')
     \<and> string_lexer e'' = string_lexer sample_engine \<and> instruction_index e'' = 4"
proof -
  obtain e' where e': "exec code_unit_ops identity_case sample_regexp 5 True sample_entered = Inr (False, e')"
    using sample_body_fails by blast
  have "case exec code_unit_ops identity_case sample_regexp 5 True sample_entered of
      Inr (_, e') \<Rightarrow> buf (string_lexer e') = [97] \<and> pos (string_lexer e') \<le> 1
        \<and> source (string_lexer e') = None
        \<and> (case leave_lookaround code_unit_ops sample_lookaround False sample_engine False e' of
             Inr (Next _) \<Rightarrow> True | _ \<Rightarrow> False)
    | Inl _ \<Rightarrow> False"
    by code_simp
  then obtain e'' where
    leave: "leave_lookaround code_unit_ops sample_lookaround False sample_engine False e' = Inr (Next e'')"
    and ok: "code_unit_ok [97] None (string_lexer e')"
    using e' by (auto simp: code_unit_ok_def stream_ok_def split: sum.splits outcome.splits)
  from lookaround_consumes_nothing [OF sample_engine_ok ok leave refl] e' leave show ?thesis
    by (auto simp: sample_engine_def sample_lookaround_def)
qed

text \<open>C6: When the alternatives of an execution of well-formed bytecode run out, its whole frame has been
  undone: the registers have the values they get by undoing the entries above the base one by one, and the
  stack is what lay below the base, on each of the three streams that the matcher runs on (one byte strings,
  code units and code points of two byte strings), in every state that meets the invariant of a running
  engine.\<close>

theorem failed_execution_undoes_frame:
  assumes "program_ok re is"
  shows "(engine_ok one_byte_lexer (stream_ok b) (length b) re is e \<and> exec one_byte_lexer icu re fuel d e = Inr (False, e')
      \<longrightarrow> frame_undone e e')
    \<and> (engine_ok code_unit_ops (code_unit_ok c src) (length c) re is f
        \<and> exec code_unit_ops icu re fuel d f = Inr (False, f') \<longrightarrow> frame_undone f f')
    \<and> (engine_ok code_point_lexer (stream_ok c) (length c) re is g
        \<and> exec code_point_lexer icu re fuel d g = Inr (False, g') \<longrightarrow> frame_undone g g')"
  using one_byte_failures(2) [OF assms] code_unit_failures(2) [OF assms] code_point_failures(2) [OF assms] by blast

theorem failed_execution_undoes_frame_witness:
  "\<exists>e'. exec one_byte_lexer identity_case sample_regexp 9 True (new_engine sample_regexp (one_byte_new [98]))
       = Inr (False, e') \<and> capture_points e' = [EMPTY_STRING_INDEX, EMPTY_STRING_INDEX]"
proof -
  let ?e = "new_engine sample_regexp (one_byte_new [98])"
  have "case exec one_byte_lexer identity_case sample_regexp 9 True ?e of
      Inl _ \<Rightarrow> False | Inr (found, _) \<Rightarrow> \<not> found"
    by code_simp
  then obtain e' where e': "exec one_byte_lexer identity_case sample_regexp 9 True ?e = Inr (False, e')"
    by (auto split: sum.splits)
  have "stream_ok [98] (one_byte_new [98])" by (simp add: stream_ok_def one_byte_new_def)
  from one_byte.good_new_engine [OF sample_program_ok this]
  have "engine_ok one_byte_lexer (stream_ok [98]) (length [98 :: u8]) sample_regexp sample_instrs ?e"
    by simp
  with e' have "frame_undone ?e e'" using failed_execution_undoes_frame [OF sample_program_ok] by blast
  then have "capture_points e' = capture_points ?e"
    by (simp add: frame_undone_def regs_def frame_regs_def frame_entries_def new_engine_def)
  moreover have "capture_points ?e = [EMPTY_STRING_INDEX, EMPTY_STRING_INDEX]" by code_simp
  ultimately show ?thesis using e' by metis
qed

end
