(* ===== verification/Icu_Ranges.thy ===== *)
theory Icu_Ranges
  imports Regexp_Compiler
begin

text \<open>
  An instance of the ICU operations that the compiler calls, for concrete runs: a set of code
  points is a list of disjoint inclusive ranges in ascending order, and so is a set under
  construction.  Case mapping is ASCII only, and the sets of Unicode properties are empty.

  \<open>CodePointInversionList::iter_chars\<close> hands out \<open>char\<close>s, so it skips the surrogates;
  \<open>size\<close> counts them.
\<close>

type_synonym ranges = "(int \<times> int) list"

fun insert_range :: "int \<Rightarrow> int \<Rightarrow> ranges \<Rightarrow> ranges" where
  "insert_range a b [] = [(a, b)]"
| "insert_range a b ((c, d) # rs) =
     (if b + 1 < c then (a, b) # (c, d) # rs
      else if d + 1 < a then (c, d) # insert_range a b rs
      else insert_range (min a c) (max b d) rs)"

fun complement_from :: "int \<Rightarrow> ranges \<Rightarrow> ranges" where
  "complement_from n [] = (if n \<le> 0x10FFFF then [(n, 0x10FFFF)] else [])"
| "complement_from n ((a, b) # rs) =
     (if n < a then (n, a - 1) # complement_from (b + 1) rs else complement_from (b + 1) rs)"

definition complement_ranges :: "ranges \<Rightarrow> ranges" where
  "complement_ranges = complement_from 0"

definition union_ranges :: "ranges \<Rightarrow> ranges \<Rightarrow> ranges" where
  "union_ranges rs ss = foldl (\<lambda>acc (a, b). insert_range a b acc) rs ss"

definition intersect_range_sets :: "ranges \<Rightarrow> ranges \<Rightarrow> ranges" where
  "intersect_range_sets rs ss =
     complement_ranges (union_ranges (complement_ranges rs) (complement_ranges ss))"

text \<open>Only code points: what is out of range is not in any set.\<close>

definition clip :: "int \<Rightarrow> int" where
  "clip n = max 0 (min n 0x10FFFF)"

definition code_points_of :: "ranges \<Rightarrow> int list" where
  "code_points_of rs = concat (map (\<lambda>(a, b). [clip a..clip b]) rs)"

definition is_char :: "int \<Rightarrow> bool" where
  "is_char n \<longleftrightarrow> \<not> (0xD800 \<le> n \<and> n \<le> 0xDFFF)"

definition ascii_fold :: "int \<Rightarrow> int" where
  "ascii_fold n = (if 0x41 \<le> n \<and> n \<le> 0x5A then n + 0x20 else n)"

definition ascii_other_case :: "int \<Rightarrow> int option" where
  "ascii_other_case n =
     (if 0x41 \<le> n \<and> n \<le> 0x5A then Some (n + 0x20)
      else if 0x61 \<le> n \<and> n \<le> 0x7A then Some (n - 0x20) else None)"

definition range_icu :: "(ranges, ranges, 'p) icu" where
  "range_icu =
     \<lparr>new_set_builder = [],
      add32 = (\<lambda>b c. insert_range (uint c) (uint c) b),
      add_range32 = (\<lambda>b lo hi. if lo \<le> hi then insert_range (uint lo) (uint hi) b else b),
      add_set = union_ranges,
      retain_set = intersect_range_sets,
      remove_set = (\<lambda>b s. intersect_range_sets b (complement_ranges s)),
      complement_builder = complement_ranges,
      build_set = (\<lambda>b. b),
      all_code_points = [(0, 0x10FFFF)],
      all_case_folded_set = complement_ranges [(0x41, 0x5A)],
      iter_ranges = map (\<lambda>(a, b). (word_of_int (clip a), word_of_int (clip b))),
      iter_chars = (\<lambda>s. map word_of_int (filter is_char (code_points_of s))),
      set_size = (\<lambda>s. nat (sum_list (map (\<lambda>(a, b). b - a + 1) s))),
      add_case_closure_to = (\<lambda>c b. case ascii_other_case (uint c) of
        Some n \<Rightarrow> insert_range n n b | None \<Rightarrow> b),
      get_case_closure_override = (\<lambda>c. None),
      fold_char = (\<lambda>c. word_of_int (ascii_fold (uint c))),
      property_add_to_set = (\<lambda>_ b. b),
      property_strings = (\<lambda>_. [])\<rparr>"

text \<open>Whatever the set, the instance hands out code points only.\<close>

lemma clip_code_point: "(word_of_int (clip n) :: u32) \<le> MAX_CODE_POINT"
  by (simp add: clip_def MAX_CODE_POINT_def word_le_def uint_word_of_int)

lemma code_point_of:
  assumes "n \<in> set (code_points_of rs)"
  shows "(word_of_int n :: u32) \<le> MAX_CODE_POINT"
proof -
  obtain a b where "clip a \<le> n" "n \<le> clip b" using assms by (auto simp: code_points_of_def)
  then have "clip n = n" by (simp add: clip_def)
  then show ?thesis using clip_code_point [of n] by simp
qed

end
