(* ===== verification/Regexp_Compiler_Properties.thy ===== *)
theory Regexp_Compiler_Properties
  imports Regexp_Compiler_Safety Regexp_Matcher_Properties Icu_Ranges
begin

text \<open>
  Properties of \<open>runtime/regexp/compiler.rs\<close> and of compiled programs when they run, with concrete
  compilations (over the ICU instance of \<open>Icu_Ranges\<close>) that witness them, and the runs that show
  where compiled programs do not behave as regular expressions should.
\<close>

section \<open>Sample patterns\<close>

definition ascii :: "string \<Rightarrow> u8 list" where
  "ascii s = map (\<lambda>c. word_of_nat (of_char c)) s"

definition pattern :: "regexp_flags \<Rightarrow> nat \<Rightarrow> unit regexp_term list \<Rightarrow> unit regexp" where
  "pattern fl n ts =
     \<lparr>regexp_disjunction = Disjunction [Alternative ts], regexp_flags = fl,
      regexp_has_duplicate_named_capture_groups = False, regexp_capture_groups = replicate n None\<rparr>"

definition literal :: "string \<Rightarrow> unit regexp_term" where
  "literal s = Literal (ascii s)"

definition group :: "u32 \<Rightarrow> unit regexp_term list list \<Rightarrow> unit regexp_term" where
  "group i alts = CaptureGroupTerm (CaptureGroup None i (Disjunction (map Alternative alts)))"

definition plain_group :: "unit regexp_term list \<Rightarrow> unit regexp_term" where
  "plain_group ts = AnonymousGroupTerm (AnonymousGroup (Disjunction [Alternative ts]) 0 0)"

definition repeat :: "unit regexp_term \<Rightarrow> nat \<Rightarrow> nat option \<Rightarrow> unit regexp_term" where
  "repeat t lo hi = QuantifierTerm (Quantifier t lo hi True)"

definition negative_lookahead :: "unit regexp_term \<Rightarrow> unit regexp_term" where
  "negative_lookahead t = LookaroundTerm (Lookaround True False (Disjunction [Alternative [t]]))"

definition char_class :: "bool \<Rightarrow> unit class_range list \<Rightarrow> unit regexp_term" where
  "char_class inverted rs = CharacterClassTerm (CharacterClass Union inverted rs)"

definition compile_and_run :: "nat \<Rightarrow> unit regexp \<Rightarrow> string \<Rightarrow> regexp_match option res option" where
  "compile_and_run fuel re s =
     map_option (\<lambda>prog. run_matcher identity_case fuel prog (OneByteString (ascii s)) 0)
       (compile_regexp range_icu re)"

text \<open>\<open>/(a|b)*c/\<close>.\<close>

definition sample_pattern :: "unit regexp" where
  "sample_pattern = pattern 0 1 [repeat (group 1 [[literal ''a''], [literal ''b'']]) 0 None, literal ''c'']"

lemma range_icu_ok: "icu_ok range_icu"
  unfolding icu_ok_def using clip_code_point code_point_of by (auto simp: range_icu_def)

lemma sample_pattern_ok: "regexp_ok sample_pattern"
  by code_simp

definition sample_compiled :: compiled_regexp where
  "sample_compiled = the (compile_regexp range_icu sample_pattern)"

lemma sample_compiles: "compile_regexp range_icu sample_pattern = Some sample_compiled"
proof -
  have "compile_regexp range_icu sample_pattern \<noteq> None" by code_simp
  then show ?thesis by (auto simp: sample_compiled_def)
qed

lemma sample_small: "length (instructions sample_compiled) < 2 ^ 32"
proof -
  have "length (instructions sample_compiled) \<le> 100" by code_simp
  then show ?thesis by (rule order_le_less_trans) simp
qed

section \<open>Compiled programs\<close>

text \<open>C9: For every well-formed syntax tree, whose groups and back references are in range, the bytecode
  that the compiler writes, if it has fewer than 2 to the 32 words, is a well-formed program: a list of
  instructions whose jump targets are the starts of instructions, whose register and group
  indices are in range, and which does not run off its end.\<close>

theorem compiled_program_ok:
  assumes "icu_ok icu" and "regexp_ok re" and "compile_regexp icu re = Some prog"
    and "length (instructions prog) < 2 ^ 32"
  shows "\<exists>is. program_ok prog is"
  using assms by (rule compile_program_ok)

theorem compiled_program_ok_witness: "\<exists>is. program_ok sample_compiled is"
  by (rule compiled_program_ok [OF range_icu_ok sample_pattern_ok sample_compiles sample_small])

text \<open>C10: Running what the compiler writes for a well-formed pattern, if it has fewer than 2 to the 32
  words, on any string never causes undefined behaviour, although the engine reads the bytecode without
  checks.\<close>

theorem compile_and_run_no_ub:
  assumes "icu_ok icu" and "regexp_ok re" and "compile_regexp icu re = Some prog"
    and "length (instructions prog) < 2 ^ 32"
  shows "run_matcher case_tables fuel prog str start_index \<noteq> Inl UB"
proof -
  obtain "is" where "program_ok prog is" using compile_program_ok [OF assms] by blast
  from run_matcher_outcome [OF this, where icu = case_tables and fuel = fuel and str = str
      and start_index = start_index]
  show ?thesis by auto
qed

theorem compile_and_run_no_ub_witness:
  "run_matcher identity_case 100 sample_compiled (TwoByteString [97, 99]) 0 \<noteq> Inl UB"
  by (rule compile_and_run_no_ub [OF range_icu_ok sample_pattern_ok sample_compiles sample_small])

text \<open>When compilation is done, every block ends in a jump, a branch, an accept or a fail; the only
  blocks that fall through to the next one are the patch blocks of quantifiers, which hold at most
  one progress instruction and are not the last block.\<close>

theorem compiled_blocks_settled:
  assumes "icu_ok icu" and "regexp_ok re" and "compile_blocks icu re = Some b"
    and "k < length (blocks b)"
  shows "(\<exists>is i. blocks b ! k = flat is @ encode i \<and> ends_flow i)
    \<or> Suc k < length (blocks b) \<and> (blocks b ! k = [] \<or> (\<exists>p. blocks b ! k = encode (IProgress p)))"
proof -
  have "settled (length (regexp_capture_groups re)) b k"
    using compile_blocks_ok(1) [OF assms(1-3)] assms(4) by (auto simp: builder_ok_def)
  then show ?thesis by (auto simp: settled_def closed_code_def patch_code_def)
qed

theorem compiled_blocks_settled_witness:
  "\<exists>b. compile_blocks range_icu sample_pattern = Some b \<and> 4 < length (blocks b)
     \<and> ((\<exists>is i. blocks b ! 4 = flat is @ encode i \<and> ends_flow i)
        \<or> Suc 4 < length (blocks b) \<and> (blocks b ! 4 = [] \<or> (\<exists>p. blocks b ! 4 = encode (IProgress p))))"
proof -
  have "case compile_blocks range_icu sample_pattern of None \<Rightarrow> False | Some b \<Rightarrow> 4 < length (blocks b)"
    by code_simp
  then obtain b where "compile_blocks range_icu sample_pattern = Some b" "4 < length (blocks b)"
    by (auto split: option.splits)
  then show ?thesis
    using compiled_blocks_settled [OF range_icu_ok sample_pattern_ok] by blast
qed

text \<open>Compilation leaves the context stacks as it found them: the modifiers and the directions that
  groups and lookarounds push are popped again, and the repetition depth is back at zero.\<close>

theorem compile_restores_contexts:
  assumes "icu_ok icu" and "regexp_ok re" and "compile_blocks icu re = Some b"
  shows "flag_stack b = [regexp_flags re] \<and> direction_stack b = [True] \<and> repitition_depth b = 0"
  using compile_blocks_ok(3-5) [OF assms] by simp

text \<open>\<open>/(?:(?i:a)(?<=b)){2}/\<close>.\<close>

definition nested_pattern :: "unit regexp" where
  "nested_pattern = pattern STICKY 0
     [repeat (plain_group
        [AnonymousGroupTerm (AnonymousGroup (Disjunction [Alternative [literal ''a'']]) IGNORE_CASE 0),
         LookaroundTerm (Lookaround False True (Disjunction [Alternative [literal ''b'']]))]) 2 (Some 2)]"

theorem compile_restores_contexts_witness:
  "\<exists>b. compile_blocks range_icu nested_pattern = Some b \<and> flag_stack b = [STICKY]
     \<and> direction_stack b = [True] \<and> repitition_depth b = 0"
proof -
  have "compile_blocks range_icu nested_pattern \<noteq> None" "regexp_ok nested_pattern" by code_simp+
  moreover have "regexp_flags nested_pattern = STICKY" by (simp add: nested_pattern_def pattern_def)
  ultimately show ?thesis
    using compile_restores_contexts [OF range_icu_ok, of nested_pattern] by fastforce
qed

text \<open>C16: Flattening blocks that refer to existing blocks only writes their instructions one after the other
  and replaces each block id by the offset at which the block starts; nothing else changes.\<close>

theorem flatten_resolves_blocks:
  assumes "\<forall>i \<in> set (concat iss). operands_fit i \<and> (\<forall>t \<in> set (block_refs i). t < length iss)"
  shows "flatten_and_fix_indices (map flat iss)
    = Some (flat (map (relocate (map (\<lambda>k. word_of_nat (length (flat (concat (take k iss)))))
        [0..<length iss])) (concat iss)))"
proof -
  have "id_map (map flat iss)
      = map (\<lambda>k. word_of_nat (length (flat (concat (take k iss))))) [0..<length iss]"
    by (rule nth_equalityI)
       (simp_all add: id_map_def block_starts_nth take_map concat_flat)
  then show ?thesis using flatten_relocates [OF assms] by simp
qed

theorem flatten_resolves_blocks_witness:
  "flatten_and_fix_indices (map flat [[ILiteral 97, IJump 2], [], [IBranch 0 2]])
     = Some (flat [ILiteral 97, IJump 3, IBranch 0 3])"
proof -
  have "\<forall>i \<in> set (concat [[ILiteral 97, IJump 2], [], [IBranch 0 2]]).
      operands_fit i \<and> (\<forall>t \<in> set (block_refs i). t < length [[ILiteral 97, IJump 2], [], [IBranch 0 2]])"
    by code_simp
  from flatten_resolves_blocks [OF this] show ?thesis by code_simp
qed

end
