(* ===== verification/Regexp_Findings.thy ===== *)
theory Regexp_Findings
  imports Regexp_Compiler_Properties
begin

text \<open>
  Patterns that the code gets wrong, compiled and run in the model.  Each theorem is about the
  bytecode that \<open>runtime/regexp/compiler.rs\<close> writes and what \<open>runtime/regexp/matcher.rs\<close> does with
  it; the text in front says what the regular expression should do.
\<close>

section \<open>The compare register leaks\<close>

text \<open>
  A failing \<open>ConsumeIfFalse\<close> or \<open>AssertWordBoundary\<close> returns through \<open>backtrack()?\<close> before it
  resets the compare register.  When it is the last alternative of a lookaround body, the register
  is still set when the next class is tested.

  \<open>/(?![^a])[0-9]/\<close> on \<open>"a"\<close> should not match: \<open>a\<close> is no digit.  It matches \<open>"a"\<close>.
\<close>

lemma class_after_failed_lookahead:
  "compile_and_run 100
     (pattern 0 0 [negative_lookahead (char_class True [Single 97]), char_class False [Digit]]) ''a''
   = Some (Inr (Some [Some (0, 1)]))"
  by code_simp

text \<open>\<open>/(?!\b)[0-9]/\<close> on \<open>"ab"\<close> should not match either.  It matches \<open>"b"\<close>.\<close>

lemma class_after_failed_word_boundary:
  "compile_and_run 100
     (pattern 0 0 [negative_lookahead (AssertionTerm WordBoundary), char_class False [Digit]]) ''ab''
   = Some (Inr (Some [Some (1, 2)]))"
  by code_simp

section \<open>A loop register keeps its count\<close>

text \<open>
  The loop register of an optional loop is reset only when the loop runs into its bound.  A loop
  that is left early and entered again goes on counting from the old value.

  \<open>/^(?:a{0,11}b)*$/\<close> on \<open>"aaaaaabaaaaaab"\<close> should match: both runs of \<open>a\<close> are shorter than 12.
  It does not; with the bound 10, for which the repetitions are inlined, it does.
\<close>

definition counted_runs :: "nat \<Rightarrow> unit regexp" where
  "counted_runs m = pattern 0 0
     [AssertionTerm Start, repeat (plain_group [repeat (literal ''a'') 0 (Some m), literal ''b'']) 0 None,
      AssertionTerm End]"

lemma loop_register_keeps_count:
  "compile_and_run 1000 (counted_runs 11) ''aaaaaabaaaaaab'' = Some (Inr None)
   \<and> compile_and_run 1000 (counted_runs 10) ''aaaaaabaaaaaab'' = Some (Inr (Some [Some (0, 14)]))"
proof
  show "compile_and_run 1000 (counted_runs 11) ''aaaaaabaaaaaab'' = Some (Inr None)" by code_simp
  show "compile_and_run 1000 (counted_runs 10) ''aaaaaabaaaaaab'' = Some (Inr (Some [Some (0, 14)]))"
    by code_simp
qed

section \<open>Back references to half a capture\<close>

text \<open>
  A group that is open when it is matched again has its new start and its old end.  A back
  reference to it inside the group takes the slice between them, which panics when the start lies
  behind the end: \<open>/(?:(a|b\1)c?)+/\<close> on \<open>"acb"\<close>.
\<close>

lemma backreference_inside_group_panics:
  "compile_and_run 100
     (pattern 0 1 [repeat (plain_group [group 1 [[literal ''a''], [literal ''b'', Backreference 1]],
        repeat (literal ''c'') 0 (Some 1)]) 1 None]) ''acb''
   = Some (Inl Panic)"
  by code_simp

section \<open>Classes of one surrogate\<close>

text \<open>
  \<open>emit_code_point_set\<close> takes the only element of a set of size 1 from \<open>iter_chars\<close>, which skips
  surrogates: compiling \<open>/[\uD800]/\<close> panics.
\<close>

lemma single_surrogate_class_panics:
  "compile_regexp range_icu (pattern 0 0 [char_class False [Single 0xD800]]) = None"
proof -
  have "case compile_regexp range_icu (pattern 0 0 [char_class False [Single 0xD800]]) of
      None \<Rightarrow> True | Some _ \<Rightarrow> False"
    by code_simp
  then show ?thesis by (simp split: option.splits)
qed

section \<open>Very large bounds\<close>

text \<open>
  When the optional repetitions are more than \<open>u32::MAX\<close> the compiler emits a \<open>Fail\<close>, with a
  comment on the minimum.  But the minimum may be 0: \<open>/a{0,4294967296}/y\<close> should match the empty
  string, and for no string does it match.
\<close>

definition fail_after_quantifier :: emitter where
  "fail_after_quantifier b = do {
     let (patch_block, b) = new_block (enter_repitition_context b);
     let (start_block, b) = new_block b;
     b \<leftarrow> emit_jump patch_block b;
     let (join_block, b) = new_block (set_current_block start_block b);
     b \<leftarrow> emit_instr IFail b;
     b \<leftarrow> exit_repitition_context (set_current_block join_block b);
     Some (no_captures False, b)
   }"

lemma no_empty_check: "emit_empty_check q k (no_captures c) = (\<lambda>b. Some (no_captures c, b))"
  by (auto simp: emit_empty_check_def fun_eq_iff)

lemma large_bound_emits_fail:
  assumes "int m > U32_MAX"
  shows "emit_quantifier (Quantifier e 0 (Some m) g) = fail_after_quantifier"
proof
  fix b
  have m: "m \<noteq> 0" "\<not> m \<le> MAX_INLINED_REPITITIONS" "1 < m"
    using assms by (auto simp: U32_MAX_def MAX_INLINED_REPITITIONS_def)
  show "emit_quantifier (Quantifier e 0 (Some m) g) b = fail_after_quantifier b"
    using assms m
    by (simp add: emit_quantifier_def fail_after_quantifier_def emit_min_repititions_def U32_MAX_def
        is_repitition_def leave_repitition_def no_empty_check checked_sub_def split_def Let_def
        cong: option.case_cong)
qed

definition large_bound_instrs :: "instr list" where
  "large_bound_instrs =
     [IMarkCapturePoint 0, IJump 4, IFail, IMarkCapturePoint 1, IAccept]"

lemma large_bound_compiled:
  assumes "int m > U32_MAX"
  shows "map_option instructions
      (compile_regexp range_icu (pattern STICKY 0 [repeat (literal ''a'') 0 (Some m)]))
    = Some (flat large_bound_instrs)"
  unfolding compile_regexp_def compile_blocks_def pattern_def repeat_def regexp.select_convs
    disjunction.map alternative.map list.map emit_term.simps quantifier.map
    large_bound_emits_fail [OF assms]
  by code_simp

lemma large_bound_fetch:
  "decode_instr (flat large_bound_instrs) 0 = Some (IMarkCapturePoint 0)"
  "decode_instr (flat large_bound_instrs) (Suc (Suc 0)) = Some (IJump 4)"
  "decode_instr (flat large_bound_instrs) 4 = Some IFail"
  by code_simp+

lemma one_byte_start: "\<exists>s. unit_advance_n (one_byte_new b) 0 = Some s"
  by (cases b)
     (simp_all add: unit_advance_n_def unit_code_point_at_def one_byte_new_def Let_def vec_get_def)

text \<open>An optional quantifier whose bound exceeds the largest 32-bit number compiles to a program that
  fails on every string, the empty repetition included.\<close>

theorem large_bound_never_matches:
  assumes "int m > U32_MAX"
    and "compile_regexp range_icu (pattern STICKY 0 [repeat (literal ''a'') 0 (Some m)]) = Some prog"
  shows "run_matcher icu (3 + fuel) prog (OneByteString b) 0 = Inr None"
proof -
  have re: "instructions prog = flat large_bound_instrs"
    using large_bound_compiled [OF assms(1)] assms(2) by simp
  have exec: "\<exists>e'. exec lx icu prog (Suc (Suc (Suc fuel))) True e = Inr (False, e')"
    if "instruction_index e = 0" "0 < length (capture_points e)" "backtrack_stack e = []"
      "backtrack_stack_base e = 0" for lx :: "('s, 'src) lexer_ops" and e
    using that
    by (simp add: re large_bound_fetch push_capture_point_def get_capture_point_def
        set_capture_point_def push_entry_def vec_get_def vec_set_def advance_instruction_def
        set_next_instruction_def backtrack_or_stop_def backtrack.simps)
  obtain s where s: "unit_advance_n (one_byte_new b) 0 = Some s"
    using one_byte_start by blast
  have "\<exists>e'. exec (one_byte_ops :: (u8 stream, unit) lexer_ops) icu prog (Suc (Suc (Suc fuel))) True
      (new_engine prog s) = Inr (False, e')"
    by (rule exec) (simp_all add: new_engine_def)
  then show ?thesis
    by (auto simp: numeral_3_eq_3 run_matcher_def match_lexer_stream_def run_def s one_byte_ops_def)
qed

theorem large_bound_never_matches_witness:
  "\<exists>prog. compile_regexp range_icu (pattern STICKY 0 [repeat (literal ''a'') 0 (Some 4294967296)])
       = Some prog
     \<and> run_matcher identity_case (3 + 7) prog (OneByteString []) 0 = Inr None"
proof -
  have large: "int 4294967296 > U32_MAX" by (simp add: U32_MAX_def)
  obtain prog where
    "compile_regexp range_icu (pattern STICKY 0 [repeat (literal ''a'') 0 (Some 4294967296)]) = Some prog"
    using large_bound_compiled [OF large] by auto
  from this large_bound_never_matches [OF large this] show ?thesis by blast
qed

end
