(* ===== verification/String_Properties.thy ===== *)
theory String_Properties
  imports Wtf8 Lexer_Stream
begin

text \<open>
  What \<open>common/unicode.rs\<close>, \<open>common/wtf_8.rs\<close>, \<open>common/string_iterators.rs\<close> and
  \<open>parser/lexer_stream.rs\<close> promise, stated for all inputs, with a concrete input for each.
\<close>

section \<open>Encodings\<close>

text \<open>Encoding a supplementary code point as a surrogate pair gives a high and a low surrogate,
  from which the code point is read back.\<close>

theorem surrogate_pair_code_point_roundtrip:
  assumes "needs_surrogate_pair c" and "c \<le> MAX_CODE_POINT"
  shows "\<exists>h l. try_encode_surrogate_pair c = Some (h, l) \<and> is_high_surrogate_code_unit h
    \<and> is_low_surrogate_code_unit l \<and> code_point_from_surrogate_pair h l = c"
  using assms by (rule surrogate_pair_roundtrip) blast

theorem surrogate_pair_code_point_roundtrip_witness:
  "\<exists>h l. try_encode_surrogate_pair 0x1F600 = Some (h, l) \<and> code_point_from_surrogate_pair h l = 0x1F600"
proof -
  have "needs_surrogate_pair 0x1F600" "0x1F600 \<le> MAX_CODE_POINT" by code_simp+
  from surrogate_pair_code_point_roundtrip [OF this] show ?thesis by blast
qed

text \<open>C18: Decoding at the start of a buffer inverts the UTF-8 encoding of code points that are not ASCII,
  surrogate code points included (WTF-8), whatever follows in the buffer: the decoder returns the code
  point and the length the encoder wrote.\<close>

theorem utf8_decode_encode:
  assumes "c \<le> MAX_CODE_POINT" and "\<not> is_ascii c" and "4 \<le> length b"
  shows "\<exists>buf' n. encode_utf8_codepoint b c = Some (buf', n)
    \<and> utf8_byte_count c = Some n \<and> decode_wtf8_codepoint (take n buf' @ rest) = Some (Inr (c, n))"
proof -
  let ?n = "length (utf8_bytes c)"
  have "?n \<le> length b" using length_utf8_bytes_le [of c] assms(3) by simp
  from encode_utf8_codepoint_eq [OF assms(1) this] show ?thesis
    using decode_utf8_bytes [OF assms(2,1), of rest] utf8_byte_count_Some [OF assms(1)] by simp
qed

theorem utf8_decode_encode_witness:
  "\<exists>buf' n. encode_utf8_codepoint [0, 0, 0, 0] 0xD83D = Some (buf', n)
     \<and> decode_wtf8_codepoint (take n buf' @ [0x61]) = Some (Inr (0xD83D, n))"
proof -
  have "0xD83D \<le> MAX_CODE_POINT" "\<not> is_ascii 0xD83D" by code_simp+
  from utf8_decode_encode [OF this, of "[0, 0, 0, 0]" "[0x61]"] show ?thesis by auto
qed

text \<open>Iterating over a WTF-8 string built by pushing code points gives back those code points, and
  pushing never panics.\<close>

theorem wtf8_push_iterate:
  assumes "\<forall>c \<in> set cs. c \<le> MAX_CODE_POINT"
  shows "\<exists>s. push_all new cs = Some s \<and> iter_code_points s = Some cs"
  using push_all_eq [OF assms, of new] iter_code_points_utf8_bytes [OF assms, of "[]"]
  by (simp add: new_def)

theorem wtf8_push_iterate_witness:
  "\<exists>s. push_all new [0x61, 0xDC00, 0x1F600] = Some s \<and> iter_code_points s = Some [0x61, 0xDC00, 0x1F600]"
proof (rule wtf8_push_iterate)
  show "\<forall>c \<in> set [0x61, 0xDC00, 0x1F600]. c \<le> MAX_CODE_POINT" by code_simp
qed

text \<open>A WTF-8 string is reported well formed exactly when its surrogate code points come in pairs
  of a high and a low one.\<close>

theorem wtf8_well_formed_iff:
  assumes "\<forall>c \<in> set cs. c \<le> MAX_CODE_POINT"
  shows "is_well_formed (concat (map utf8_bytes cs)) = Some (surrogates_paired cs)"
  by (rule is_well_formed_utf8_bytes [OF assms])

theorem wtf8_well_formed_iff_witness:
  "is_well_formed (concat (map utf8_bytes [0xD83D, 0x61])) = Some False"
proof -
  have "\<forall>c \<in> set [0xD83D, 0x61]. c \<le> MAX_CODE_POINT" "\<not> surrogates_paired [0xD83D, 0x61]"
    by code_simp+
  from wtf8_well_formed_iff [OF this(1)] this(2) show ?thesis by simp
qed

section \<open>Iterators\<close>

text \<open>C17: Forward iteration over the code points of a two-byte string ends, reads only the string's
  memory, and yields the UTF-16 decoding of its units: on the UTF-16 encoding of code points
  without a split pair, those code points.\<close>

theorem code_point_iteration_decodes_utf16:
  assumes "no_split_pairs cs" and "\<forall>c \<in> set cs. c \<le> MAX_CODE_POINT"
  shows "drain cp_next (from_raw_two_byte_slice (concat (map utf16_units cs))) = Some cs"
  using drain_cp_next [OF iter_ok_from_slice(2)] decode_utf16_units [OF assms] by simp

theorem code_point_iteration_decodes_utf16_witness:
  "drain cp_next (from_raw_two_byte_slice (concat (map utf16_units [0x1F600, 0xDC00, 0x61])))
     = Some [0x1F600, 0xDC00, 0x61]"
proof (rule code_point_iteration_decodes_utf16)
  show "no_split_pairs [0x1F600, 0xDC00, 0x61]" "\<forall>c \<in> set [0x1F600, 0xDC00, 0x61]. c \<le> MAX_CODE_POINT"
    by code_simp+
qed

text \<open>Two string iterators are reported equal exactly when the strings have the same units, also
  when one is a one-byte and the other a two-byte string.\<close>

theorem consume_equals_compares_units:
  "consume_equals (from_raw_one_byte_slice b) (from_raw_two_byte_slice c) = Some (map ucast b = c)"
  using consume_equals_units [OF iter_ok_from_slice] by simp

text \<open>Backward iteration does not read a surrogate pair as one code point: at a pair, the step
  returns the pair's code point but consumes the first unit of the string instead of the pair's
  high surrogate, which is then read again.\<close>

theorem backward_iteration_at_pair:
  assumes "is_high_surrogate_code_unit h" and "is_low_surrogate_code_unit l"
  shows "\<exists>it. cp_next_back (from_raw_two_byte_slice (us @ [h, l]))
      = Some (Some (code_point_from_surrogate_pair h l), it) \<and> units it = tl (us @ [h])"
  using cp_next_back_pair [OF iter_ok_from_slice(2) _ assms, of "us @ [h, l]" us] by auto

theorem backward_iteration_at_pair_witness:
  "\<exists>it. cp_next_back (from_raw_two_byte_slice [0x61, 0xD83D, 0xDE00])
      = Some (Some (code_point_from_surrogate_pair 0xD83D 0xDE00), it) \<and> units it = [0xD83D]"
proof -
  have "is_high_surrogate_code_unit 0xD83D" "is_low_surrogate_code_unit 0xDE00" by code_simp+
  from backward_iteration_at_pair [OF this, of "[0x61]"] show ?thesis by simp
qed

section \<open>Lexer streams\<close>

text \<open>Walking a code unit stream: after any forward move the stream shows the unit at its
  position, after any backward move the unit before it, and neither leaves the string.\<close>

theorem code_unit_stream_moves:
  assumes "code_unit_ok b src s"
  shows "\<exists>s' s''. unit_advance_n s n = Some s' \<and> unit_advance_backwards_n s n = Some s''
    \<and> pos s' = min (length b) (pos s + n) \<and> current s' = unit_after b (pos s')
    \<and> pos s'' = pos s - n \<and> current s'' = unit_before b (pos s'')"
  using code_unit_laws(1,2) [OF assms, of n] by blast

theorem code_unit_stream_moves_witness:
  "\<exists>s' s''. unit_advance_n (code_unit_new [0x61, 0x62] (None :: unit option)) 1 = Some s'
     \<and> unit_advance_backwards_n (code_unit_new [0x61, 0x62] (None :: unit option)) 1 = Some s''
     \<and> current s' = 0x62 \<and> pos s'' = 0"
proof -
  have "code_unit_ok [0x61, 0x62] None (code_unit_new [0x61, 0x62] (None :: unit option))"
    by (simp add: code_unit_ok_def stream_ok_def code_unit_new_def)
  from code_unit_stream_moves [OF this, of 1] show ?thesis
    by (fastforce simp: code_unit_new_def unit_after_def)
qed

text \<open>Stepping forwards, the code point stream reads a surrogate pair as one code point and every
  other unit as itself.\<close>

theorem code_point_stream_steps:
  assumes "stream_ok b s" and "pos s < length b" and "current s = cp_after b (pos s)"
  shows "\<exists>s'. code_point_advance_code_point s = Some s'
    \<and> pos s' = pos s + (if pair_at b (pos s) then 2 else 1) \<and> current s' = cp_after b (pos s')"
  using code_point_advance_code_point_eq [OF assms(1,3,2)] by (simp add: cp_step_def)

theorem code_point_stream_steps_witness:
  "\<exists>s'. code_point_advance_code_point
       \<lparr>buf = [0xD83D, 0xDE00, 0x61], pos = 0, current = cp_after [0xD83D, 0xDE00, 0x61] 0\<rparr> = Some s'
     \<and> pos s' = 2"
proof -
  let ?b = "[0xD83D, 0xDE00, 0x61] :: u16 list"
  have "pair_at ?b 0" by code_simp
  then show ?thesis
    using code_point_stream_steps [of ?b "\<lparr>buf = ?b, pos = 0, current = cp_after ?b 0\<rparr>"]
    by (auto simp: stream_ok_def)
qed

text \<open>Stepping backwards, the code point stream moves twice: one code point from the start of the
  string it panics.\<close>

theorem code_point_stream_backwards_panics:
  assumes "stream_ok b s" and "pos s = 1" and "\<not> needs_surrogate_pair (current s)"
  shows "code_point_advance_backwards_code_point s = None"
  by (rule code_point_backwards_panics [OF assms])

theorem code_point_stream_backwards_panics_witness:
  "code_point_advance_backwards_code_point \<lparr>buf = [0x61, 0x62], pos = 1, current = 0x61\<rparr> = None"
proof -
  have "stream_ok [0x61, 0x62] \<lparr>buf = [0x61, 0x62 :: u16], pos = 1, current = 0x61\<rparr>"
    by (simp add: stream_ok_def)
  from code_point_stream_backwards_panics [OF this] show ?thesis
    by (simp add: needs_surrogate_pair_def)
qed

end
