(* ===== verification/Unicode_Property.thy ===== *)
theory Unicode_Property
  imports Regexp_Compiler
begin

text \<open>
  \<open>common/unicode_property.rs\<close>: the Unicode properties that a regular expression can name, the
  names they are parsed from, and the sets of code points they add to a class.  The sets themselves
  are tables of the ICU libraries: the record \<open>icu_properties\<close>, with one entry per table that the
  source reads.  Scripts are values of ICU, of the type \<open>'c\<close>.
\<close>

section \<open>Properties\<close>

datatype binary_unicode_property =
    ASCII | ASCIIHexDigit | Alphabetic | Any | Assigned | BidiControl | BidiMirrored
  | CaseIgnorable | Cased | ChangesWhenCasefolded | ChangesWhenCasemapped | ChangesWhenLowercased
  | ChangesWhenNFKCCasefolded | ChangesWhenTitlecased | ChangesWhenUppercased | Dash
  | DefaultIgnorableCodePoint | Deprecated | Diacritic | Emoji | EmojiComponent | EmojiModifier
  | EmojiModifierBase | EmojiPresentation | ExtendedPictographic | Extender | GraphemeBase
  | GraphemeExtend | HexDigit | IDSBinaryOperator | IDSTrinaryOperator | IDContinue | IDStart
  | Ideographic | JoinControl | LogicalOrderException | Lowercase | Math | NoncharacterCodePoint
  | PatternSyntax | PatternWhiteSpace | QuotationMark | Radical | RegionalIndicator
  | SentenceTerminal | SoftDotted | TerminalPunctuation | UnifiedIdeograph | Uppercase
  | VariationSelector | WhiteSpace | XIDContinue | XIDStart

datatype binary_unicode_property_of_strings =
    BasicEmoji | EmojiKeycapSequence | RgiEmojiFlagSequence | RgiEmojiModifierSequence
  | RgiEmojiTagSequence | RgiEmojiZwjSequence | RgiEmoji

datatype general_category_property =
    Other | Control | Format | Unassigned | PrivateUse | Surrogate | Letter | CasedLetter
  | LowercaseLetter | ModifierLetter | OtherLetter | TitlecaseLetter | UppercaseLetter | Mark
  | SpacingMark | EnclosingMark | NonspacingMark | Number | DecimalNumber | LetterNumber
  | OtherNumber | Punctuation | ConnectorPunctuation | DashPunctuation | ClosePunctuation
  | FinalPunctuation | InitialPunctuation | OtherPunctuation | OpenPunctuation | Symbol
  | CurrencySymbol | ModifierSymbol | MathSymbol | OtherSymbol | Separator | LineSeparator
  | ParagraphSeparator | SpaceSeparator

record 'c script_property =
  script :: 'c
  with_extensions :: bool

datatype 'c unicode_property =
    BinaryProperty binary_unicode_property
  | BinaryPropertyOfStrings binary_unicode_property_of_strings
  | GeneralCategory general_category_property
  | Script "'c script_property"

section \<open>Names\<close>

text \<open>The arms of the three \<open>parse\<close> functions, in their order.\<close>

definition BINARY_PROPERTY_NAMES :: "(string \<times> binary_unicode_property) list" where
  "BINARY_PROPERTY_NAMES =
     [(''ASCII'', ASCII), (''ASCII_Hex_Digit'', ASCIIHexDigit), (''AHex'', ASCIIHexDigit),
      (''Alphabetic'', Alphabetic), (''Alpha'', Alphabetic), (''Any'', Any),
      (''Assigned'', Assigned), (''Bidi_Control'', BidiControl), (''Bidi_C'', BidiControl),
      (''Bidi_Mirrored'', BidiMirrored), (''Bidi_M'', BidiMirrored),
      (''Case_Ignorable'', CaseIgnorable), (''CI'', CaseIgnorable), (''Cased'', Cased),
      (''Changes_When_Casefolded'', ChangesWhenCasefolded), (''CWCF'', ChangesWhenCasefolded),
      (''Changes_When_Casemapped'', ChangesWhenCasemapped), (''CWCM'', ChangesWhenCasemapped),
      (''Changes_When_Lowercased'', ChangesWhenLowercased), (''CWL'', ChangesWhenLowercased),
      (''Changes_When_NFKC_Casefolded'', ChangesWhenNFKCCasefolded),
      (''CWKCF'', ChangesWhenNFKCCasefolded), (''Changes_When_Titlecased'', ChangesWhenTitlecased),
      (''CWT'', ChangesWhenTitlecased), (''Changes_When_Uppercased'', ChangesWhenUppercased),
      (''CWU'', ChangesWhenUppercased), (''Dash'', Dash),
      (''Default_Ignorable_Code_Point'', DefaultIgnorableCodePoint),
      (''DI'', DefaultIgnorableCodePoint), (''Deprecated'', Deprecated), (''Dep'', Deprecated),
      (''Diacritic'', Diacritic), (''Dia'', Diacritic), (''Emoji'', Emoji),
      (''Emoji_Component'', EmojiComponent), (''EComp'', EmojiComponent),
      (''Emoji_Modifier'', EmojiModifier), (''EMod'', EmojiModifier),
      (''Emoji_Modifier_Base'', EmojiModifierBase), (''EBase'', EmojiModifierBase),
      (''Emoji_Presentation'', EmojiPresentation), (''EPres'', EmojiPresentation),
      (''Extended_Pictographic'', ExtendedPictographic), (''ExtPict'', ExtendedPictographic),
      (''Extender'', Extender), (''Ext'', Extender), (''Grapheme_Base'', GraphemeBase),
      (''Gr_Base'', GraphemeBase), (''Grapheme_Extend'', GraphemeExtend),
      (''Gr_Ext'', GraphemeExtend), (''Hex_Digit'', HexDigit), (''Hex'', HexDigit),
      (''IDS_Binary_Operator'', IDSBinaryOperator), (''IDSB'', IDSBinaryOperator),
      (''IDS_Trinary_Operator'', IDSTrinaryOperator), (''IDST'', IDSTrinaryOperator),
      (''ID_Continue'', IDContinue), (''IDC'', IDContinue), (''ID_Start'', IDStart),
      (''IDS'', IDStart), (''Ideographic'', Ideographic), (''Ideo'', Ideographic),
      (''Join_Control'', JoinControl), (''Join_C'', JoinControl),
      (''Logical_Order_Exception'', LogicalOrderException), (''LOE'', LogicalOrderException),
      (''Lowercase'', Lowercase), (''Lower'', Lowercase), (''Math'', Math),
      (''Noncharacter_Code_Point'', NoncharacterCodePoint), (''NChar'', NoncharacterCodePoint),
      (''Pattern_Syntax'', PatternSyntax), (''Pat_Syn'', PatternSyntax),
      (''Pattern_White_Space'', PatternWhiteSpace), (''Pat_WS'', PatternWhiteSpace),
      (''Quotation_Mark'', QuotationMark), (''QMark'', QuotationMark), (''Radical'', Radical),
      (''Regional_Indicator'', RegionalIndicator), (''RI'', RegionalIndicator),
      (''Sentence_Terminal'', SentenceTerminal), (''STerm'', SentenceTerminal),
      (''Soft_Dotted'', SoftDotted), (''SD'', SoftDotted),
      (''Terminal_Punctuation'', TerminalPunctuation), (''Term'', TerminalPunctuation),
      (''Unified_Ideograph'', UnifiedIdeograph), (''UIdeo'', UnifiedIdeograph),
      (''Uppercase'', Uppercase), (''Upper'', Uppercase),
      (''Variation_Selector'', VariationSelector), (''VS'', VariationSelector),
      (''White_Space'', WhiteSpace), (''space'', WhiteSpace), (''XID_Continue'', XIDContinue),
      (''XIDC'', XIDContinue), (''XID_Start'', XIDStart), (''XIDS'', XIDStart)]"

definition STRING_PROPERTY_NAMES :: "(string \<times> binary_unicode_property_of_strings) list" where
  "STRING_PROPERTY_NAMES =
     [(''Basic_Emoji'', BasicEmoji), (''Emoji_Keycap_Sequence'', EmojiKeycapSequence),
      (''RGI_Emoji_Flag_Sequence'', RgiEmojiFlagSequence),
      (''RGI_Emoji_Modifier_Sequence'', RgiEmojiModifierSequence),
      (''RGI_Emoji_Tag_Sequence'', RgiEmojiTagSequence),
      (''RGI_Emoji_ZWJ_Sequence'', RgiEmojiZwjSequence), (''RGI_Emoji'', RgiEmoji)]"

definition GENERAL_CATEGORY_NAMES :: "(string \<times> general_category_property) list" where
  "GENERAL_CATEGORY_NAMES =
     [(''C'', Other), (''Other'', Other), (''Cc'', Control), (''Control'', Control),
      (''cntrl'', Control), (''Cf'', Format), (''Format'', Format), (''Cn'', Unassigned),
      (''Unassigned'', Unassigned), (''Co'', PrivateUse), (''Private_Use'', PrivateUse),
      (''Cs'', Surrogate), (''Surrogate'', Surrogate), (''L'', Letter), (''Letter'', Letter),
      (''LC'', CasedLetter), (''Cased_Letter'', CasedLetter), (''Ll'', LowercaseLetter),
      (''Lowercase_Letter'', LowercaseLetter), (''Lm'', ModifierLetter),
      (''Modifier_Letter'', ModifierLetter), (''Lo'', OtherLetter),
      (''Other_Letter'', OtherLetter), (''Lt'', TitlecaseLetter),
      (''Titlecase_Letter'', TitlecaseLetter), (''Lu'', UppercaseLetter),
      (''Uppercase_Letter'', UppercaseLetter), (''M'', Mark), (''Mark'', Mark),
      (''Combining_Mark'', Mark), (''Mc'', SpacingMark), (''Spacing_Mark'', SpacingMark),
      (''Me'', EnclosingMark), (''Enclosing_Mark'', EnclosingMark), (''Mn'', NonspacingMark),
      (''Nonspacing_Mark'', NonspacingMark), (''N'', Number), (''Number'', Number),
      (''Nd'', DecimalNumber), (''Decimal_Number'', DecimalNumber), (''digit'', DecimalNumber),
      (''Nl'', LetterNumber), (''Letter_Number'', LetterNumber), (''No'', OtherNumber),
      (''Other_Number'', OtherNumber), (''P'', Punctuation), (''Punctuation'', Punctuation),
      (''punct'', Punctuation), (''Pc'', ConnectorPunctuation),
      (''Connector_Punctuation'', ConnectorPunctuation), (''Pd'', DashPunctuation),
      (''Dash_Punctuation'', DashPunctuation), (''Pe'', ClosePunctuation),
      (''Close_Punctuation'', ClosePunctuation), (''Pf'', FinalPunctuation),
      (''Final_Punctuation'', FinalPunctuation), (''Pi'', InitialPunctuation),
      (''Initial_Punctuation'', InitialPunctuation), (''Po'', OtherPunctuation),
      (''Other_Punctuation'', OtherPunctuation), (''Ps'', OpenPunctuation),
      (''Open_Punctuation'', OpenPunctuation), (''S'', Symbol), (''Symbol'', Symbol),
      (''Sc'', CurrencySymbol), (''Currency_Symbol'', CurrencySymbol), (''Sk'', ModifierSymbol),
      (''Modifier_Symbol'', ModifierSymbol), (''Sm'', MathSymbol), (''Math_Symbol'', MathSymbol),
      (''So'', OtherSymbol), (''Other_Symbol'', OtherSymbol), (''Z'', Separator),
      (''Separator'', Separator), (''Zl'', LineSeparator), (''Line_Separator'', LineSeparator),
      (''Zp'', ParagraphSeparator), (''Paragraph_Separator'', ParagraphSeparator),
      (''Zs'', SpaceSeparator), (''Space_Separator'', SpaceSeparator)]"

definition parse_binary_property :: "string \<Rightarrow> binary_unicode_property option" where
  "parse_binary_property str = map_of BINARY_PROPERTY_NAMES str"

definition parse_property_of_strings :: "string \<Rightarrow> binary_unicode_property_of_strings option" where
  "parse_property_of_strings str = map_of STRING_PROPERTY_NAMES str"

definition parse_general_category :: "string \<Rightarrow> general_category_property option" where
  "parse_general_category str = map_of GENERAL_CATEGORY_NAMES str"

text \<open>The names of scripts are looked up in an ICU table, \<open>script_names\<close>.\<close>

definition parse_script_property ::
  "(string \<Rightarrow> 'c option) \<Rightarrow> string \<Rightarrow> bool \<Rightarrow> 'c script_property option" where
  "parse_script_property script_names str ext =
     map_option (\<lambda>c. \<lparr>script = c, with_extensions = ext\<rparr>) (script_names str)"

section \<open>Sets\<close>

record ('s, 'c) icu_properties =
  binary_property_set :: "binary_unicode_property \<Rightarrow> 's"
  strings_property_code_points :: "binary_unicode_property_of_strings \<Rightarrow> 's"
  strings_property_strings :: "binary_unicode_property_of_strings \<Rightarrow> u8 list list"
  general_category_group_set :: "general_category_property \<Rightarrow> 's"
  script_set :: "'c \<Rightarrow> 's"
  script_extensions_set :: "'c \<Rightarrow> 's"

text \<open>
  Every binary property but three adds the table of its own name; \<open>Assigned\<close> is the complement of
  a general category.
\<close>

definition binary_property_add_to_set ::
  "('s, 'c) icu_properties \<Rightarrow> ('b, 's, 'p) icu \<Rightarrow> binary_unicode_property \<Rightarrow> 'b \<Rightarrow> 'b" where
  "binary_property_add_to_set tab icu p b =
     (if p = ASCII then add_range32 icu b 0x00 0x7F
      else if p = Any then add_range32 icu b 0 MAX_CODE_POINT
      else if p = Assigned then
        (let assigned_set =
               add_set icu (new_set_builder icu) (general_category_group_set tab Unassigned);
             assigned_set = complement_builder icu assigned_set
         in add_set icu b (build_set icu assigned_set))
      else add_set icu b (binary_property_set tab p))"

definition script_property_add_to_set ::
  "('s, 'c) icu_properties \<Rightarrow> ('b, 's, 'p) icu \<Rightarrow> 'c script_property \<Rightarrow> 'b \<Rightarrow> 'b" where
  "script_property_add_to_set tab icu p b =
     (if with_extensions p then add_set icu b (script_extensions_set tab (script p))
      else add_set icu b (script_set tab (script p)))"

fun unicode_property_add_to_set ::
  "('s, 'c) icu_properties \<Rightarrow> ('b, 's, 'p) icu \<Rightarrow> 'c unicode_property \<Rightarrow> 'b \<Rightarrow> 'b" where
  "unicode_property_add_to_set tab icu (BinaryProperty p) b = binary_property_add_to_set tab icu p b"
| "unicode_property_add_to_set tab icu (BinaryPropertyOfStrings p) b =
     add_set icu b (strings_property_code_points tab p)"
| "unicode_property_add_to_set tab icu (GeneralCategory p) b =
     add_set icu b (general_category_group_set tab p)"
| "unicode_property_add_to_set tab icu (Script p) b = script_property_add_to_set tab icu p b"

text \<open>The strings that a class gets from a property: only properties of strings have any.\<close>

fun unicode_property_strings :: "('s, 'c) icu_properties \<Rightarrow> 'c unicode_property \<Rightarrow> u8 list list" where
  "unicode_property_strings tab (BinaryPropertyOfStrings p) = strings_property_strings tab p"
| "unicode_property_strings tab _ = []"

text \<open>The operations of the compiler with the properties of this file.\<close>

definition icu_with_properties ::
  "('s, 'c) icu_properties \<Rightarrow> ('b, 's, 'c unicode_property) icu \<Rightarrow> ('b, 's, 'c unicode_property) icu"
  where
  "icu_with_properties tab icu =
     icu\<lparr>property_add_to_set := unicode_property_add_to_set tab icu,
         property_strings := unicode_property_strings tab\<rparr>"

section \<open>Every property has a name\<close>

lemma every_property_named:
  "p \<in> set (map snd BINARY_PROPERTY_NAMES)"
  "q \<in> set (map snd STRING_PROPERTY_NAMES)"
  "r \<in> set (map snd GENERAL_CATEGORY_NAMES)"
  unfolding BINARY_PROPERTY_NAMES_def STRING_PROPERTY_NAMES_def GENERAL_CATEGORY_NAMES_def
    list.map snd_conv
  subgoal by (cases p; simp only: list.set insert_iff simp_thms)
  subgoal by (cases q; simp only: list.set insert_iff simp_thms)
  subgoal by (cases r; simp only: list.set insert_iff simp_thms)
  done

end
