(* ===== verification/Regexp_Parser_State.thy ===== *)
theory Regexp_Parser_State
  imports Unicode_Property Lexer_Stream
begin

text \<open>
  \<open>parser/regexp_parser.rs\<close>, the \<open>RegExpParser\<close> struct and the methods by which everything else
  reads its stream.

  A method takes the parser and returns its \<open>ParseResult\<close> with the parser after it, also when the
  result is an error, since a caller may recover from an error and go on.  Around that, a run can
  panic or run out of the step budget of the model.  \<open>and_then\<close> is the \<open>?\<close> operator.

  The trees of the source hold a pointer to every back reference node, so that the index of a named
  one is filled in after the whole pattern is read.  Here the nodes are the list
  \<open>backreference_nodes\<close> and a term holds an index into it.
\<close>

section \<open>The parser\<close>

record 's regexp_parser =
  lexer_state :: 's
  parser_flags :: regexp_flags
  capture_group_count :: nat
  capture_groups :: "wtf8_string option list"
  capture_group_names :: "wtf8_string \<rightharpoonup> capture_group_index"
  current_capture_group_names :: "wtf8_string set"
  current_capture_group_name_scope :: "wtf8_string list"
  has_duplicate_named_capture_groups :: bool
  parse_named_capture_groups :: bool
  in_annex_b_mode :: bool
  named_backreferences :: "(wtf8_string \<times> pos \<times> nat) list"
  indexed_backreferences :: "(capture_group_index \<times> pos) list"
  group_depth :: nat
  backreference_nodes :: "capture_group_index list"

text \<open>
  What a parser is run with: the implementation of the stream, the ICU tables it asks for, and the
  step budget, which bounds every loop and the nesting of groups and of classes.
\<close>

record ('s, 'src, 'c) parser_env =
  env_lexer :: "('s, 'src) lexer_ops"
  env_fuel :: nat
  is_id_start_unicode :: "code_point \<Rightarrow> bool"
  is_id_continue_unicode :: "code_point \<Rightarrow> bool"
  script_names :: "string \<Rightarrow> 'c option"

type_synonym ('a, 's, 'src) parsing = "(('a, 'src) parse_result \<times> 's regexp_parser) res"

definition new_regexp_parser :: "'s \<Rightarrow> regexp_flags \<Rightarrow> bool \<Rightarrow> bool \<Rightarrow> 's regexp_parser" where
  "new_regexp_parser s flags named annex_b =
     \<lparr>lexer_state = s, parser_flags = flags, capture_group_count = 0, capture_groups = [],
      capture_group_names = Map.empty, current_capture_group_names = {},
      current_capture_group_name_scope = [], has_duplicate_named_capture_groups = False,
      parse_named_capture_groups = named, in_annex_b_mode = annex_b, named_backreferences = [],
      indexed_backreferences = [], group_depth = 0, backreference_nodes = []\<rparr>"

section \<open>Results\<close>

definition returns :: "'a \<Rightarrow> 's regexp_parser \<Rightarrow> ('a, 's, 'src) parsing" where
  "returns x p = Inr (Inr x, p)"

definition and_then ::
  "('a, 's, 'src) parsing \<Rightarrow> ('a \<Rightarrow> 's regexp_parser \<Rightarrow> ('b, 's, 'src) parsing)
     \<Rightarrow> ('b, 's, 'src) parsing" where
  "and_then r f =
     (case r of
        Inl fault \<Rightarrow> Inl fault
      | Inr (Inl e, p) \<Rightarrow> Inr (Inl e, p)
      | Inr (Inr x, p) \<Rightarrow> f x p)"

text \<open>A call that can panic: \<open>None\<close> is the panic.\<close>

definition unless_panic :: "'a option \<Rightarrow> 's regexp_parser \<Rightarrow> ('a, 's, 'src) parsing" where
  "unless_panic x p = (case x of None \<Rightarrow> Inl Panic | Some y \<Rightarrow> returns y p)"

text \<open>
  A \<open>loop\<close> with its local variables \<open>x\<close>: the body goes round again with new values or leaves the
  loop with a result.
\<close>

datatype ('x, 'y) flow = Continue 'x | Break 'y

primrec loop ::
  "nat \<Rightarrow> ('x \<Rightarrow> 's regexp_parser \<Rightarrow> (('x, 'y) flow, 's, 'src) parsing)
     \<Rightarrow> 'x \<Rightarrow> 's regexp_parser \<Rightarrow> ('y, 's, 'src) parsing" where
  "loop 0 body x p = Inl No_Fuel"
| "loop (Suc n) body x p =
     and_then (body x p) (\<lambda>f p. case f of Continue x \<Rightarrow> loop n body x p | Break y \<Rightarrow> returns y p)"

section \<open>The stream\<close>

abbreviation ch :: "char \<Rightarrow> u32" where
  "ch c \<equiv> of_char c"

definition one_of :: "string \<Rightarrow> u32 \<Rightarrow> bool" where
  "one_of cs c \<longleftrightarrow> list_ex (\<lambda>x. ch x = c) cs"

definition parser_pos :: "('s, 'src, 'c) parser_env \<Rightarrow> 's regexp_parser \<Rightarrow> pos" where
  "parser_pos px p = op_pos (env_lexer px) (lexer_state p)"

definition parser_current :: "('s, 'src, 'c) parser_env \<Rightarrow> 's regexp_parser \<Rightarrow> u32" where
  "parser_current px p = op_current (env_lexer px) (lexer_state p)"

definition parser_is_end :: "('s, 'src, 'c) parser_env \<Rightarrow> 's regexp_parser \<Rightarrow> bool" where
  "parser_is_end px p = lexer_is_end (env_lexer px) (lexer_state p)"

definition advance_n ::
  "('s, 'src, 'c) parser_env \<Rightarrow> nat \<Rightarrow> 's regexp_parser \<Rightarrow> (unit, 's, 'src) parsing" where
  "advance_n px n p =
     and_then (unless_panic (op_advance_n (env_lexer px) (lexer_state p) n) p)
       (\<lambda>s p. returns () (p\<lparr>lexer_state := s\<rparr>))"

definition advance :: "('s, 'src, 'c) parser_env \<Rightarrow> 's regexp_parser \<Rightarrow> (unit, 's, 'src) parsing" where
  "advance px = advance_n px 1"

definition advance2 :: "('s, 'src, 'c) parser_env \<Rightarrow> 's regexp_parser \<Rightarrow> (unit, 's, 'src) parsing" where
  "advance2 px = advance_n px 2"

definition advance3 :: "('s, 'src, 'c) parser_env \<Rightarrow> 's regexp_parser \<Rightarrow> (unit, 's, 'src) parsing" where
  "advance3 px = advance_n px 3"

definition peek_n ::
  "('s, 'src, 'c) parser_env \<Rightarrow> nat \<Rightarrow> 's regexp_parser \<Rightarrow> (u32, 's, 'src) parsing" where
  "peek_n px n p = unless_panic (op_peek_n (env_lexer px) (lexer_state p) n) p"

definition peek :: "('s, 'src, 'c) parser_env \<Rightarrow> 's regexp_parser \<Rightarrow> (u32, 's, 'src) parsing" where
  "peek px = peek_n px 1"

definition peek2 :: "('s, 'src, 'c) parser_env \<Rightarrow> 's regexp_parser \<Rightarrow> (u32, 's, 'src) parsing" where
  "peek2 px = peek_n px 2"

definition parse_unicode_codepoint ::
  "('s, 'src, 'c) parser_env \<Rightarrow> 's regexp_parser \<Rightarrow> (u32, 's, 'src) parsing" where
  "parse_unicode_codepoint px p =
     (case op_parse_unicode_codepoint (env_lexer px) (lexer_state p) of
        None \<Rightarrow> Inl Panic
      | Some (r, s) \<Rightarrow> Inr (r, p\<lparr>lexer_state := s\<rparr>))"

definition error ::
  "('s, 'src, 'c) parser_env \<Rightarrow> pos \<Rightarrow> parse_error \<Rightarrow> 's regexp_parser \<Rightarrow> ('a, 's, 'src) parsing" where
  "error px start_pos e p = Inr (Inl (op_error (env_lexer px) (lexer_state p) start_pos e), p)"

definition error_unexpected_token ::
  "('s, 'src, 'c) parser_env \<Rightarrow> pos \<Rightarrow> 's regexp_parser \<Rightarrow> ('a, 's, 'src) parsing" where
  "error_unexpected_token px start_pos = error px start_pos UnexpectedRegExpToken"

definition save :: "('s, 'src, 'c) parser_env \<Rightarrow> 's regexp_parser \<Rightarrow> saved_lexer_stream_state" where
  "save px p = op_save (env_lexer px) (lexer_state p)"

definition restore ::
  "('s, 'src, 'c) parser_env \<Rightarrow> saved_lexer_stream_state \<Rightarrow> 's regexp_parser \<Rightarrow> 's regexp_parser" where
  "restore px save_state p = p\<lparr>lexer_state := op_restore (env_lexer px) (lexer_state p) save_state\<rparr>"

definition expect ::
  "('s, 'src, 'c) parser_env \<Rightarrow> char \<Rightarrow> 's regexp_parser \<Rightarrow> (unit, 's, 'src) parsing" where
  "expect px c p =
     (if parser_current px p \<noteq> ch c then error_unexpected_token px (parser_pos px p) p
      else advance px p)"

definition eat ::
  "('s, 'src, 'c) parser_env \<Rightarrow> char \<Rightarrow> 's regexp_parser \<Rightarrow> (bool, 's, 'src) parsing" where
  "eat px c p =
     (if parser_current px p = ch c then and_then (advance px p) (\<lambda>_. returns True)
      else returns False p)"

definition is_unicode_aware :: "'s regexp_parser \<Rightarrow> bool" where
  "is_unicode_aware p = has_any_unicode_flag (parser_flags p)"

text \<open>Indices are 1-based; only up to \<open>2 ^ 31 - 2\<close> groups are allowed.\<close>

definition next_capture_group_index ::
  "('s, 'src, 'c) parser_env \<Rightarrow> pos \<Rightarrow> 's regexp_parser \<Rightarrow> (capture_group_index, 's, 'src) parsing" where
  "next_capture_group_index px error_pos p =
     (let index = capture_group_count p + 1 in
      if int index \<ge> 0x7FFFFFFF then error px error_pos TooManyCaptureGroups p
      else returns (word_of_nat index) (p\<lparr>capture_group_count := capture_group_count p + 1\<rparr>))"

end
