(* ===== verification/Regexp_Parser_Lexing.thy ===== *)
theory Regexp_Parser_Lexing
  imports Regexp_Parser_State
begin

text \<open>
  The methods of \<open>RegExpParser\<close> that read characters: numbers, escape sequences, group names, and
  the names of Unicode properties.  They change nothing but the stream.
\<close>

section \<open>Numbers\<close>

text \<open>The checked operations on \<open>u64\<close> values.\<close>

definition checked_mul_u64 :: "u64 \<Rightarrow> u64 \<Rightarrow> u64 option" where
  "checked_mul_u64 a b = (if uint a * uint b < 2 ^ 64 then Some (a * b) else None)"

definition checked_add_u64 :: "u64 \<Rightarrow> u64 \<Rightarrow> u64 option" where
  "checked_add_u64 a b = (if uint a + uint b < 2 ^ 64 then Some (a + b) else None)"

text \<open>One digit more: the value, and whether it has overflowed.\<close>

definition push_decimal_digit :: "u64 \<times> bool \<Rightarrow> u32 \<Rightarrow> u64 \<times> bool" where
  "push_decimal_digit acc c =
     (let (value, has_overflowed) = acc;
          (value, has_overflowed) =
            (case checked_mul_u64 value 10 of
               Some new_value \<Rightarrow> (new_value, has_overflowed)
             | None \<Rightarrow> (value, True))
      in case checked_add_u64 value (ucast c - ucast (ch CHR ''0'')) of
           Some new_value \<Rightarrow> (new_value, has_overflowed)
         | None \<Rightarrow> (value, True))"

definition parse_decimal_digits ::
  "('s, 'src, 'c) parser_env \<Rightarrow> 's regexp_parser \<Rightarrow> (u64 option, 's, 'src) parsing" where
  "parse_decimal_digits px p =
     (if \<not> is_decimal_digit (parser_current px p) then error_unexpected_token px (parser_pos px p) p
      else and_then
        (loop (env_fuel px)
          (\<lambda>acc p.
            let c = parser_current px p in
            if is_decimal_digit c
            then and_then (advance px p) (\<lambda>_. returns (Continue (push_decimal_digit acc c)))
            else returns (Break acc) p)
          (0, False) p)
        (\<lambda>(value, has_overflowed). returns (if has_overflowed then None else Some value)))"

text \<open>
  \<open>parse_hex2_digits\<close> and \<open>parse_hex4_digits\<close> have the same text but for the number of digits and
  the width of the value.
\<close>

primrec parse_hex_digits ::
  "('s, 'src, 'c) parser_env \<Rightarrow> pos \<Rightarrow> nat \<Rightarrow> 'w::len word \<Rightarrow> 's regexp_parser
     \<Rightarrow> ('w word, 's, 'src) parsing" where
  "parse_hex_digits px start_pos 0 value p = returns value p"
| "parse_hex_digits px start_pos (Suc k) value p =
     (case get_hex_value (parser_current px p) of
        Some hex_value \<Rightarrow>
          and_then (advance px p)
            (\<lambda>_. parse_hex_digits px start_pos k (push_bit 4 value + ucast hex_value))
      | None \<Rightarrow> error px start_pos MalformedEscapeSeqence p)"

definition parse_hex2_digits ::
  "('s, 'src, 'c) parser_env \<Rightarrow> pos \<Rightarrow> 's regexp_parser \<Rightarrow> (u32, 's, 'src) parsing" where
  "parse_hex2_digits px start_pos = parse_hex_digits px start_pos 2 0"

definition parse_hex4_digits ::
  "('s, 'src, 'c) parser_env \<Rightarrow> pos \<Rightarrow> 's regexp_parser \<Rightarrow> (u16, 's, 'src) parsing" where
  "parse_hex4_digits px start_pos = parse_hex_digits px start_pos 4 0"

section \<open>Escape sequences\<close>

text \<open>The digits of \<open>\u{...}\<close>, up to the closing brace.\<close>

definition parse_code_point_digits ::
  "('s, 'src, 'c) parser_env \<Rightarrow> pos \<Rightarrow> 's regexp_parser \<Rightarrow> (u32, 's, 'src) parsing" where
  "parse_code_point_digits px start_pos =
     loop (env_fuel px)
       (\<lambda>value p.
         if parser_current px p \<noteq> ch CHR ''}'' then
           (case get_hex_value (parser_current px p) of
              Some hex_value \<Rightarrow>
                and_then (advance px p) (\<lambda>_ p.
                let value = push_bit 4 value + hex_value in
                if value > 0x10FFFF then error px start_pos MalformedEscapeSeqence p
                else returns (Continue value) p)
            | None \<Rightarrow> error px start_pos MalformedEscapeSeqence p)
         else returns (Break value) p)
       0"

text \<open>The second half of a surrogate pair that is written as two escape sequences.\<close>

definition parse_low_surrogate_escape ::
  "('s, 'src, 'c) parser_env \<Rightarrow> pos \<Rightarrow> u16 \<Rightarrow> 's regexp_parser \<Rightarrow> (u32, 's, 'src) parsing" where
  "parse_low_surrogate_escape px start_pos code_unit p =
     and_then (peek px p) (\<lambda>next_char p.
     if is_high_surrogate_code_unit code_unit \<and> parser_current px p = ch CHR 0x5C
       \<and> next_char = ch CHR ''u''
     then
       (let save_state = save px p in
        and_then (advance2 px p) (\<lambda>_ p.
        and_then (parse_hex4_digits px start_pos p) (\<lambda>next_code_unit p.
        if is_low_surrogate_code_unit next_code_unit
        then returns (code_point_from_surrogate_pair code_unit next_code_unit) p
        else returns (ucast code_unit) (restore px save_state p))))
     else returns (ucast code_unit) p)"

definition parse_regex_unicode_escape_sequence ::
  "('s, 'src, 'c) parser_env \<Rightarrow> bool \<Rightarrow> 's regexp_parser \<Rightarrow> (u32, 's, 'src) parsing" where
  "parse_regex_unicode_escape_sequence px unicode_aware p =
     (let start_pos = parser_pos px p in
      and_then (advance px p) (\<lambda>_ p.
      let after_slash_state = save px p in
      and_then (expect px CHR ''u'' p) (\<lambda>_ p.
      and_then (eat px CHR ''{'' p) (\<lambda>braced p.
      if braced then
        (if \<not> unicode_aware then returns (ch CHR ''u'') (restore px after_slash_state p)
         else
           and_then (eat px CHR ''}'' p) (\<lambda>empty p.
           if empty then error px start_pos MalformedEscapeSeqence p
           else
             and_then (parse_code_point_digits px start_pos p) (\<lambda>value p.
             and_then (expect px CHR ''}'' p) (\<lambda>_. returns value))))
      else
        and_then (parse_hex4_digits px start_pos p) (\<lambda>code_unit p.
        if \<not> unicode_aware then returns (ucast code_unit) p
        else parse_low_surrogate_escape px start_pos code_unit p)))))"

text \<open>
  The last arm: in unicode-aware mode only special characters can be escaped, otherwise whatever
  does not continue an identifier.
\<close>

definition parse_identity_escape ::
  "('s, 'src, 'c) parser_env \<Rightarrow> 's regexp_parser \<Rightarrow> (u32, 's, 'src) parsing" where
  "parse_identity_escape px p =
     (let start_pos = parser_pos px p in
      and_then (advance px p) (\<lambda>_ p.
      if is_unicode_aware p then
        (if one_of (CHR 0x5C # ''/^$.*+?()[]{}|'') (parser_current px p)
         then (let code_point = parser_current px p in
               and_then (advance px p) (\<lambda>_. returns code_point))
         else error px start_pos MalformedEscapeSeqence p)
      else
        (let save_state = save px p in
         and_then (parse_unicode_codepoint px p) (\<lambda>code_point p.
         if \<not> is_id_continue_unicode px code_point then returns code_point p
         else returns (ch CHR 0x5C) (restore px save_state p)))))"

definition parse_regexp_escape_sequence ::
  "('s, 'src, 'c) parser_env \<Rightarrow> 's regexp_parser \<Rightarrow> (u32, 's, 'src) parsing" where
  "parse_regexp_escape_sequence px p =
     and_then (peek px p) (\<lambda>c p.
     and_then (peek2 px p) (\<lambda>c2 p.
     let control = (\<lambda>value. and_then (advance2 px p) (\<lambda>_. returns value)) in
     if c = ch CHR ''u'' then parse_regex_unicode_escape_sequence px (is_unicode_aware p) p
     else if c = ch CHR ''f'' then control 0x0C
     else if c = ch CHR ''n'' then control 0x0A
     else if c = ch CHR ''r'' then control 0x0D
     else if c = ch CHR ''t'' then control 0x09
     else if c = ch CHR ''v'' then control 0x0B
     else if c = ch CHR ''c'' \<and> is_ascii_alphabetic c2 then
       and_then (advance3 px p) (\<lambda>_. returns (c2 mod 32))
     else if c = ch CHR ''x'' then
       (let start_pos = parser_pos px p in
        and_then (advance2 px p) (\<lambda>_. parse_hex2_digits px start_pos))
     else if c = ch CHR ''0'' \<and> \<not> is_decimal_digit c2 then control 0
     else parse_identity_escape px p))"

section \<open>Group names\<close>

text \<open>A code point of a name; outside of unicode-aware mode a surrogate pair counts as one.\<close>

definition parse_identifier_code_point ::
  "('s, 'src, 'c) parser_env \<Rightarrow> 's regexp_parser \<Rightarrow> (u32, 's, 'src) parsing" where
  "parse_identifier_code_point px p =
     and_then (parse_unicode_codepoint px p) (\<lambda>code_point p.
     if \<not> has_any_unicode_flag (parser_flags p) \<and> is_high_surrogate_code_point code_point then
       and_then (parse_unicode_codepoint px p) (\<lambda>next_code_point p.
       if is_low_surrogate_code_point next_code_point
       then returns (code_point_from_surrogate_pair (ucast code_point) (ucast next_code_point)) p
       else returns code_point p)
     else returns code_point p)"

definition parse_identifier_start ::
  "('s, 'src, 'c) parser_env \<Rightarrow> 's regexp_parser \<Rightarrow> (wtf8_string, 's, 'src) parsing" where
  "parse_identifier_start px p =
     and_then
       (if parser_current px p = ch CHR 0x5C then parse_regex_unicode_escape_sequence px True p
        else parse_identifier_code_point px p)
       (\<lambda>code_point p.
     case as_id_start (is_id_start_unicode px) code_point of
       Some c \<Rightarrow> unless_panic (push [] c) p
     | None \<Rightarrow> error_unexpected_token px (parser_pos px p) p)"

definition parse_identifier_part ::
  "('s, 'src, 'c) parser_env \<Rightarrow> wtf8_string \<Rightarrow> 's regexp_parser
     \<Rightarrow> ((wtf8_string, wtf8_string) flow, 's, 'src) parsing" where
  "parse_identifier_part px name p =
     (if parser_current px p = ch CHR 0x5C then
        and_then (parse_regex_unicode_escape_sequence px True p) (\<lambda>code_point p.
        case as_id_part (is_id_continue_unicode px) code_point of
          Some c \<Rightarrow> unless_panic (map_option Continue (push name c)) p
        | None \<Rightarrow> error_unexpected_token px (parser_pos px p) p)
      else
        (let save_state = save px p in
         and_then (parse_identifier_code_point px p) (\<lambda>code_point p.
         case as_id_part (is_id_continue_unicode px) code_point of
           Some c \<Rightarrow> unless_panic (map_option Continue (push name c)) p
         | None \<Rightarrow> returns (Break name) (restore px save_state p))))"

definition parse_identifier ::
  "('s, 'src, 'c) parser_env \<Rightarrow> 's regexp_parser \<Rightarrow> (wtf8_string, 's, 'src) parsing" where
  "parse_identifier px p =
     and_then (parse_identifier_start px p) (loop (env_fuel px) (parse_identifier_part px))"

section \<open>Unicode properties\<close>

definition parse_unicode_property_name ::
  "('s, 'src, 'c) parser_env \<Rightarrow> 's regexp_parser \<Rightarrow> (string, 's, 'src) parsing" where
  "parse_unicode_property_name px =
     loop (env_fuel px)
       (\<lambda>name p.
         let c = parser_current px p in
         if is_ascii_alphabetic c \<or> is_decimal_digit c \<or> c = ch CHR ''_''
         then and_then (advance px p) (\<lambda>_. returns (Continue (name @ [char_of (unat (ucast c :: u8))])))
         else returns (Break name) p)
       []"

definition named_property_value ::
  "(string \<Rightarrow> 'c option) \<Rightarrow> string \<Rightarrow> string \<Rightarrow> 'c unicode_property option" where
  "named_property_value scripts property_name property_value =
     (let general_category =
            (if property_name \<in> {''General_Category'', ''gc''}
             then map_option GeneralCategory (parse_general_category property_value) else None);
          script =
            (if property_name \<in> {''Script'', ''sc''}
             then map_option Script (parse_script_property scripts property_value False) else None);
          script_extensions =
            (if property_name \<in> {''Script_Extensions'', ''scx''}
             then map_option Script (parse_script_property scripts property_value True) else None)
      in case general_category of
           Some p \<Rightarrow> Some p
         | None \<Rightarrow> (case script of Some p \<Rightarrow> Some p | None \<Rightarrow> script_extensions))"

definition lone_property :: "string \<Rightarrow> 'c unicode_property option" where
  "lone_property property_name =
     (case parse_binary_property property_name of
        Some p \<Rightarrow> Some (BinaryProperty p)
      | None \<Rightarrow> (case parse_property_of_strings property_name of
          Some p \<Rightarrow> Some (BinaryPropertyOfStrings p)
        | None \<Rightarrow> map_option GeneralCategory (parse_general_category property_name)))"

definition parse_unicode_property ::
  "('s, 'src, 'c) parser_env \<Rightarrow> 's regexp_parser \<Rightarrow> ('c unicode_property, 's, 'src) parsing" where
  "parse_unicode_property px p =
     (let start_pos = parser_pos px p in
      and_then (parse_unicode_property_name px p) (\<lambda>property_name p.
      and_then (eat px CHR ''='' p) (\<lambda>has_value p.
      if has_value then
        and_then (parse_unicode_property_name px p) (\<lambda>property_value p.
        case named_property_value (script_names px) property_name property_value of
          Some property \<Rightarrow> returns property p
        | None \<Rightarrow> error px start_pos InvalidUnicodeProperty p)
      else
        (case lone_property property_name of
           Some property \<Rightarrow> returns property p
         | None \<Rightarrow> error px start_pos InvalidUnicodeProperty p))))"

definition is_property_of_strings :: "'c unicode_property \<Rightarrow> bool" where
  "is_property_of_strings property =
     (case property of BinaryPropertyOfStrings _ \<Rightarrow> True | _ \<Rightarrow> False)"

definition error_if_property_not_allowed ::
  "('s, 'src, 'c) parser_env \<Rightarrow> 'c unicode_property \<Rightarrow> pos \<Rightarrow> 's regexp_parser
     \<Rightarrow> (unit, 's, 'src) parsing" where
  "error_if_property_not_allowed px property error_pos p =
     (if is_property_of_strings property \<and> \<not> has_unicode_sets_flag (parser_flags p)
      then error px error_pos UnicodePropertyOfStringsDisallowedInMode p
      else returns () p)"

definition error_if_property_cannot_be_inverted ::
  "('s, 'src, 'c) parser_env \<Rightarrow> 'c unicode_property \<Rightarrow> pos \<Rightarrow> 's regexp_parser
     \<Rightarrow> (unit, 's, 'src) parsing" where
  "error_if_property_cannot_be_inverted px property error_pos p =
     (if is_property_of_strings property then error px error_pos InvertedUnicodePropertyOfStrings p
      else returns () p)"

text \<open>
  \<open>\p{...}\<close> and \<open>\P{...}\<close>: the arms of \<open>parse_term\<close> and of \<open>parse_class_atom\<close>, which have the
  same text.
\<close>

definition parse_property_escape ::
  "('s, 'src, 'c) parser_env \<Rightarrow> 's regexp_parser \<Rightarrow> ('c unicode_property class_range, 's, 'src) parsing"
  where
  "parse_property_escape px p =
     and_then (advance2 px p) (\<lambda>_ p.
     and_then (expect px CHR ''{'' p) (\<lambda>_ p.
     let property_pos = parser_pos px p in
     and_then (parse_unicode_property px p) (\<lambda>property p.
     and_then (error_if_property_not_allowed px property property_pos p) (\<lambda>_ p.
     and_then (expect px CHR ''}'' p) (\<lambda>_. returns (UnicodeProperty property))))))"

definition parse_inverted_property_escape ::
  "('s, 'src, 'c) parser_env \<Rightarrow> 's regexp_parser \<Rightarrow> ('c unicode_property class_range, 's, 'src) parsing"
  where
  "parse_inverted_property_escape px p =
     and_then (advance2 px p) (\<lambda>_ p.
     and_then (expect px CHR ''{'' p) (\<lambda>_ p.
     let property_pos = parser_pos px p in
     and_then (parse_unicode_property px p) (\<lambda>property p.
     and_then (error_if_property_cannot_be_inverted px property property_pos p) (\<lambda>_ p.
     and_then (expect px CHR ''}'' p) (\<lambda>_. returns (NotUnicodeProperty property))))))"

end
