(* ===== verification/Regexp_Class_Parser.thy ===== *)
theory Regexp_Class_Parser
  imports Regexp_Parser_Lexing
begin

text \<open>
  The methods of \<open>RegExpParser\<close> for character classes: the standard ones, and those of \<open>v\<close> mode
  with set operations, nested classes and strings.  A class of \<open>v\<close> mode comes with the flag
  MayContainStrings.  They change nothing but the stream.
\<close>

section \<open>Atoms\<close>

definition parse_class_atom ::
  "('s, 'src, 'c) parser_env \<Rightarrow> 's regexp_parser \<Rightarrow> ('c unicode_property class_range, 's, 'src) parsing"
  where
  "parse_class_atom px p =
     (if parser_current px p = ch CHR 0x5C then
        and_then (peek px p) (\<lambda>c p.
        let shorthand = (\<lambda>range. and_then (advance2 px p) (\<lambda>_. returns range)) in
        if c = ch CHR ''w'' then shorthand Word
        else if c = ch CHR ''W'' then shorthand NotWord
        else if c = ch CHR ''d'' then shorthand Digit
        else if c = ch CHR ''D'' then shorthand NotDigit
        else if c = ch CHR ''s'' then shorthand Whitespace
        else if c = ch CHR ''S'' then shorthand NotWhitespace
        else if c = ch CHR ''b'' then shorthand (Single 0x08)
        else if c = ch CHR ''-'' \<and> is_unicode_aware p then shorthand (Single (ch CHR ''-''))
        else if c = ch CHR ''p'' \<and> is_unicode_aware p then parse_property_escape px p
        else if c = ch CHR ''P'' \<and> is_unicode_aware p then parse_inverted_property_escape px p
        else and_then (parse_regexp_escape_sequence px p) (\<lambda>code_point. returns (Single code_point)))
      else and_then (parse_unicode_codepoint px p) (\<lambda>code_point. returns (Single code_point)))"

text \<open>Class atoms are never ranges: that arm is \<open>unreachable!\<close>.\<close>

definition class_atom_to_range_bound ::
  "('s, 'src, 'c) parser_env \<Rightarrow> 'c unicode_property class_range \<Rightarrow> 's regexp_parser
     \<Rightarrow> (u32, 's, 'src) parsing" where
  "class_atom_to_range_bound px atom p =
     (case atom of
        Single c \<Rightarrow> returns c p
      | Range _ _ \<Rightarrow> Inl Panic
      | _ \<Rightarrow> error px (parser_pos px p) RegExpCharacterClassInRange p)"

definition class_range_between ::
  "('s, 'src, 'c) parser_env \<Rightarrow> 'c unicode_property class_range \<Rightarrow> 'c unicode_property class_range
     \<Rightarrow> pos \<Rightarrow> 's regexp_parser \<Rightarrow> ('c unicode_property class_range, 's, 'src) parsing" where
  "class_range_between px start_atom end_atom start_pos p =
     and_then (class_atom_to_range_bound px start_atom p) (\<lambda>lo p.
     and_then (class_atom_to_range_bound px end_atom p) (\<lambda>hi p.
     if hi < lo then error px start_pos InvalidCharacterClassRange p
     else returns (Range lo hi) p))"

section \<open>Classes without the \<open>v\<close> flag\<close>

definition standard_class_element ::
  "('s, 'src, 'c) parser_env \<Rightarrow> 'c unicode_property class_range list \<Rightarrow> 's regexp_parser
     \<Rightarrow> (('c unicode_property class_range list, 'c unicode_property class_range list) flow, 's, 'src)
          parsing" where
  "standard_class_element px ranges p =
     and_then (eat px CHR '']'' p) (\<lambda>closed p.
     if closed then returns (Break ranges) p
     else
       (let atom_start_pos = parser_pos px p in
        and_then (parse_class_atom px p) (\<lambda>atom p.
        and_then (eat px CHR ''-'' p) (\<lambda>dash p.
        if dash then
          and_then (eat px CHR '']'' p) (\<lambda>trailing p.
          if trailing then returns (Break (ranges @ [atom, Single (ch CHR ''-'')])) p
          else
            and_then (parse_class_atom px p) (\<lambda>end_atom p.
            and_then (class_range_between px atom end_atom atom_start_pos p) (\<lambda>range.
            returns (Continue (ranges @ [range])))))
        else returns (Continue (ranges @ [atom])) p))))"

definition parse_standard_character_class ::
  "('s, 'src, 'c) parser_env \<Rightarrow> 's regexp_parser
     \<Rightarrow> ('c unicode_property class_range character_class, 's, 'src) parsing" where
  "parse_standard_character_class px p =
     and_then (advance px p) (\<lambda>_ p.
     and_then (eat px CHR ''^'' p) (\<lambda>inverted p.
     and_then (loop (env_fuel px) (standard_class_element px) [] p) (\<lambda>ranges.
     returns (CharacterClass Union inverted ranges))))"

section \<open>Classes with the \<open>v\<close> flag\<close>

definition is_at_class_intersection_operator ::
  "('s, 'src, 'c) parser_env \<Rightarrow> 's regexp_parser \<Rightarrow> (bool, 's, 'src) parsing" where
  "is_at_class_intersection_operator px p =
     and_then (peek px p) (\<lambda>c p.
     and_then (peek2 px p) (\<lambda>c2.
     returns (parser_current px p = ch CHR ''&'' \<and> c = ch CHR ''&'' \<and> c2 \<noteq> ch CHR ''&'')))"

definition is_at_class_difference_operator ::
  "('s, 'src, 'c) parser_env \<Rightarrow> 's regexp_parser \<Rightarrow> (bool, 's, 'src) parsing" where
  "is_at_class_difference_operator px p =
     and_then (peek px p) (\<lambda>c.
     returns (parser_current px p = ch CHR ''-'' \<and> c = ch CHR ''-''))"

definition is_at_class_set_reserved_double_punctuator ::
  "('s, 'src, 'c) parser_env \<Rightarrow> 's regexp_parser \<Rightarrow> (bool, 's, 'src) parsing" where
  "is_at_class_set_reserved_double_punctuator px p =
     (let punctuator = parser_current px p in
      if one_of ''&!#$%*+,.:;<=>?@^`~'' punctuator
      then and_then (peek px p) (\<lambda>c. returns (c = punctuator))
      else returns False p)"

definition parse_class_set_character_reserved_syntax ::
  "('s, 'src, 'c) parser_env \<Rightarrow> 's regexp_parser \<Rightarrow> (u32 option, 's, 'src) parsing" where
  "parse_class_set_character_reserved_syntax px p =
     (if parser_current px p = ch CHR 0x5C then
        and_then (peek px p) (\<lambda>code_point p.
        if one_of ''&-!#%,:;<=>@`~'' code_point
        then and_then (advance2 px p) (\<lambda>_. returns (Some code_point))
        else returns None p)
      else if one_of ''()[]{}/-|'' (parser_current px p) then
        error_unexpected_token px (parser_pos px p) p
      else
        and_then (is_at_class_set_reserved_double_punctuator px p) (\<lambda>double p.
        if double then
          and_then (advance px p) (\<lambda>_ p. error_unexpected_token px (parser_pos px p) p)
        else returns None p))"

definition parse_class_set_character ::
  "('s, 'src, 'c) parser_env \<Rightarrow> 's regexp_parser \<Rightarrow> (u32, 's, 'src) parsing" where
  "parse_class_set_character px p =
     and_then (parse_class_set_character_reserved_syntax px p) (\<lambda>reserved p.
     case reserved of
       Some c \<Rightarrow> returns c p
     | None \<Rightarrow>
         if parser_current px p = ch CHR 0x5C then
           and_then (peek px p) (\<lambda>c p.
           if c = ch CHR ''b'' then and_then (advance2 px p) (\<lambda>_. returns 0x08)
           else parse_regexp_escape_sequence px p)
         else parse_unicode_codepoint px p)"

subsection \<open>Strings\<close>

definition parse_string_disjunction_alternative ::
  "('s, 'src, 'c) parser_env \<Rightarrow> 's regexp_parser \<Rightarrow> (wtf8_string \<times> nat, 's, 'src) parsing" where
  "parse_string_disjunction_alternative px =
     loop (env_fuel px)
       (\<lambda>(string, num_code_points) p.
         if parser_current px p \<noteq> ch CHR ''|'' \<and> parser_current px p \<noteq> ch CHR ''}'' then
           and_then (parse_class_set_character px p) (\<lambda>code_point p.
           and_then (unless_panic (push string code_point) p) (\<lambda>string.
           returns (Continue (string, num_code_points + 1))))
         else returns (Break (string, num_code_points)) p)
       ([], 0)"

definition string_disjunction_element ::
  "('s, 'src, 'c) parser_env \<Rightarrow> wtf8_string list \<times> bool \<Rightarrow> 's regexp_parser
     \<Rightarrow> ((wtf8_string list \<times> bool, wtf8_string list \<times> bool) flow, 's, 'src) parsing" where
  "string_disjunction_element px acc p =
     (let (alternatives, may_contain_strings) = acc in
      if parser_current px p \<noteq> ch CHR ''}'' then
        and_then (parse_string_disjunction_alternative px p) (\<lambda>(alternative, len) p.
        let alternatives = (if alternative \<noteq> [] then alternatives @ [alternative] else alternatives);
            may_contain_strings = (if len \<noteq> 1 then True else may_contain_strings) in
        and_then (eat px CHR ''|'' p) (\<lambda>bar p.
        if \<not> bar then returns (Break (alternatives, may_contain_strings)) p
        else if parser_current px p = ch CHR ''}'' then returns (Break (alternatives, True)) p
        else returns (Continue (alternatives, may_contain_strings)) p))
      else returns (Break (alternatives, may_contain_strings)) p)"

definition parse_string_disjunction ::
  "('s, 'src, 'c) parser_env \<Rightarrow> 's regexp_parser \<Rightarrow> (string_disjunction \<times> bool, 's, 'src) parsing" where
  "parse_string_disjunction px p =
     and_then (advance2 px p) (\<lambda>_ p.
     and_then (expect px CHR ''{'' p) (\<lambda>_ p.
     and_then
       (loop (env_fuel px) (string_disjunction_element px) ([], parser_current px p = ch CHR ''}'') p)
       (\<lambda>(alternatives, may_contain_strings) p.
     and_then (expect px CHR ''}'' p) (\<lambda>_.
     returns (StringDisjunction alternatives, may_contain_strings)))))"

subsection \<open>Set operations\<close>

text \<open>The operands take the parser of nested classes as the argument \<open>nested\<close>.\<close>

type_synonym ('c, 's, 'src) class_parser =
  "'s regexp_parser \<Rightarrow> ('c unicode_property class_range character_class \<times> bool, 's, 'src) parsing"

definition parse_class_set_operand ::
  "('s, 'src, 'c) parser_env \<Rightarrow> ('c, 's, 'src) class_parser \<Rightarrow> 's regexp_parser
     \<Rightarrow> ('c unicode_property class_range \<times> bool, 's, 'src) parsing" where
  "parse_class_set_operand px nested p =
     (if parser_current px p = ch CHR ''['' then
        and_then (nested p) (\<lambda>(nested_class, may_contain_strings).
        returns (NestedClass nested_class, may_contain_strings))
      else
        and_then (parse_class_set_character_reserved_syntax px p) (\<lambda>reserved p.
        case reserved of
          Some c \<Rightarrow> returns (Single c, False) p
        | None \<Rightarrow>
            and_then (peek px p) (\<lambda>c p.
            if parser_current px p = ch CHR 0x5C \<and> c = ch CHR ''q'' then
              and_then (parse_string_disjunction px p) (\<lambda>(string_disjunction, may_contain_strings).
              returns (StringDisjunctionRange string_disjunction, may_contain_strings))
            else
              and_then (parse_class_atom px p) (\<lambda>atom.
              returns (atom,
                case atom of UnicodeProperty property \<Rightarrow> is_property_of_strings property | _ \<Rightarrow> False)))))"

definition parse_unicode_sets_character_class_range ::
  "('s, 'src, 'c) parser_env \<Rightarrow> ('c, 's, 'src) class_parser \<Rightarrow> 'c unicode_property class_range \<Rightarrow> pos
     \<Rightarrow> 's regexp_parser \<Rightarrow> ('c unicode_property class_range, 's, 'src) parsing" where
  "parse_unicode_sets_character_class_range px nested start_operand operand_start_pos p =
     and_then (advance px p) (\<lambda>_ p.
     and_then (parse_class_set_operand px nested p) (\<lambda>(end_operand, _).
     class_range_between px start_operand end_operand operand_start_pos))"

text \<open>The three loops over further operands.\<close>

definition intersection_operand ::
  "('s, 'src, 'c) parser_env \<Rightarrow> ('c, 's, 'src) class_parser
     \<Rightarrow> 'c unicode_property class_range list \<times> bool \<Rightarrow> 's regexp_parser
     \<Rightarrow> (('c unicode_property class_range list \<times> bool, 'c unicode_property class_range list \<times> bool) flow,
          's, 'src) parsing" where
  "intersection_operand px nested acc p =
     (let (operands, may_contain_strings) = acc in
      and_then (is_at_class_intersection_operator px p) (\<lambda>at_operator p.
      if at_operator then
        and_then (advance2 px p) (\<lambda>_ p.
        and_then (parse_class_set_operand px nested p) (\<lambda>(operand, operand_may_contain_strings).
        let may_contain_strings =
              (if \<not> operand_may_contain_strings then False else may_contain_strings)
        in returns (Continue (operands @ [operand], may_contain_strings))))
      else returns (Break (operands, may_contain_strings)) p))"

definition difference_operand ::
  "('s, 'src, 'c) parser_env \<Rightarrow> ('c, 's, 'src) class_parser
     \<Rightarrow> 'c unicode_property class_range list \<Rightarrow> 's regexp_parser
     \<Rightarrow> (('c unicode_property class_range list, 'c unicode_property class_range list) flow,
          's, 'src) parsing" where
  "difference_operand px nested ranges p =
     and_then (is_at_class_difference_operator px p) (\<lambda>at_operator p.
     if at_operator then
       and_then (advance2 px p) (\<lambda>_ p.
       and_then (parse_class_set_operand px nested p) (\<lambda>(operand, _).
       returns (Continue (ranges @ [operand]))))
     else returns (Break ranges) p)"

definition union_operand ::
  "('s, 'src, 'c) parser_env \<Rightarrow> ('c, 's, 'src) class_parser
     \<Rightarrow> 'c unicode_property class_range list \<times> bool \<Rightarrow> 's regexp_parser
     \<Rightarrow> (('c unicode_property class_range list \<times> bool, 'c unicode_property class_range list \<times> bool) flow,
          's, 'src) parsing" where
  "union_operand px nested acc p =
     (let (operands, may_contain_strings) = acc in
      if parser_current px p \<noteq> ch CHR '']'' then
        (let operand_start_pos = parser_pos px p in
         and_then (parse_class_set_operand px nested p) (\<lambda>(operand, operand_has_strings) p.
         let may_contain_strings = (if operand_has_strings then True else may_contain_strings) in
         if parser_current px p = ch CHR ''-'' then
           and_then (parse_unicode_sets_character_class_range px nested operand operand_start_pos p)
             (\<lambda>range. returns (Continue (operands @ [range], may_contain_strings)))
         else returns (Continue (operands @ [operand], may_contain_strings)) p))
      else returns (Break (operands, may_contain_strings)) p)"

definition parse_class_operands ::
  "('s, 'src, 'c) parser_env \<Rightarrow> ('c, 's, 'src) class_parser
     \<Rightarrow> 'c unicode_property class_range \<Rightarrow> bool \<Rightarrow> pos \<Rightarrow> 's regexp_parser
     \<Rightarrow> (class_expression_type \<times> 'c unicode_property class_range list \<times> bool, 's, 'src) parsing" where
  "parse_class_operands px nested first_operand first_operand_may_contain_strings first_operand_pos p =
     and_then (is_at_class_intersection_operator px p) (\<lambda>at_intersection p.
     if at_intersection then
       and_then (loop (env_fuel px) (intersection_operand px nested) ([first_operand], True) p)
         (\<lambda>result. returns (Intersection, result))
     else
       and_then (is_at_class_difference_operator px p) (\<lambda>at_difference p.
       if at_difference then
         and_then (loop (env_fuel px) (difference_operand px nested) [first_operand] p)
           (\<lambda>operands. returns (Difference, operands, first_operand_may_contain_strings))
       else if parser_current px p = ch CHR '']'' then
         returns (Union, [first_operand], first_operand_may_contain_strings) p
       else
         and_then
           (if parser_current px p = ch CHR ''-''
            then parse_unicode_sets_character_class_range px nested first_operand first_operand_pos p
            else returns first_operand p)
           (\<lambda>first p.
         and_then (loop (env_fuel px) (union_operand px nested) ([first], False) p)
           (\<lambda>result. returns (Union, result)))))"

definition unicode_sets_class ::
  "('s, 'src, 'c) parser_env \<Rightarrow> ('c, 's, 'src) class_parser \<Rightarrow> ('c, 's, 'src) class_parser" where
  "unicode_sets_class px nested p =
     and_then (advance px p) (\<lambda>_ p.
     and_then (eat px CHR ''^'' p) (\<lambda>inverted p.
     and_then (eat px CHR '']'' p) (\<lambda>empty p.
     if empty then returns (CharacterClass Union inverted [], False) p
     else
       (let first_operand_pos = parser_pos px p in
        and_then (parse_class_set_operand px nested p) (\<lambda>(first_operand, first_has_strings) p.
        and_then (parse_class_operands px nested first_operand first_has_strings first_operand_pos p)
          (\<lambda>(expression_type, operands, may_contain_strings) p.
        and_then (expect px CHR '']'' p) (\<lambda>_ p.
        if may_contain_strings \<and> inverted
        then error px first_operand_pos InvertedCharacterClassContainStrings p
        else returns (CharacterClass expression_type inverted operands, may_contain_strings) p)))))))"

primrec parse_unicode_sets_character_class ::
  "('s, 'src, 'c) parser_env \<Rightarrow> nat \<Rightarrow> ('c, 's, 'src) class_parser" where
  "parse_unicode_sets_character_class px 0 p = Inl No_Fuel"
| "parse_unicode_sets_character_class px (Suc n) p =
     unicode_sets_class px (parse_unicode_sets_character_class px n) p"

end
