(* ===== verification/Regexp_Parser.thy ===== *)
theory Regexp_Parser
  imports Regexp_Class_Parser
begin

text \<open>
  The methods of \<open>RegExpParser\<close> for the pattern itself: flags, quantifiers, groups, terms,
  alternatives and disjunctions, the resolution of back references, and the entry point
  \<open>parse_regexp\<close>.

  The methods from \<open>parse_group\<close> to \<open>parse_alternative\<close> take the parser of nested disjunctions as
  the argument \<open>nested\<close>; \<open>parse_disjunction\<close> ties the knot, with a nesting budget.
\<close>

type_synonym 'c parsed_term = "('c unicode_property, nat) raw_term"

type_synonym ('c, 's, 'src) disjunction_parser =
  "'s regexp_parser \<Rightarrow> ('c parsed_term disjunction, 's, 'src) parsing"

section \<open>Flags\<close>

definition flag_of_char :: "u32 \<Rightarrow> regexp_flags option" where
  "flag_of_char c =
     (if c = ch CHR ''d'' then Some HAS_INDICES
      else if c = ch CHR ''g'' then Some GLOBAL
      else if c = ch CHR ''i'' then Some IGNORE_CASE
      else if c = ch CHR ''m'' then Some MULTILINE
      else if c = ch CHR ''s'' then Some DOT_ALL
      else if c = ch CHR ''u'' then Some UNICODE_AWARE
      else if c = ch CHR ''v'' then Some UNICODE_SETS
      else if c = ch CHR ''y'' then Some STICKY
      else None)"

definition parse_flag ::
  "('s, 'src, 'c) parser_env \<Rightarrow> regexp_flags \<Rightarrow> 's regexp_parser
     \<Rightarrow> ((regexp_flags, regexp_flags) flow, 's, 'src) parsing" where
  "parse_flag px flags p =
     (if \<not> parser_is_end px p then
        (case flag_of_char (parser_current px p) of
           Some flag \<Rightarrow>
             if \<not> flags_contains flags flag
             then and_then (advance px p) (\<lambda>_. returns (Continue (flags OR flag)))
             else error px (parser_pos px p) DuplicateRegExpFlag p
         | None \<Rightarrow> error px (parser_pos px p) InvalidRegExpFlag p)
      else returns (Break flags) p)"

text \<open>\<open>parse_flags\<close> has only a stream, not a parser around it.\<close>

definition parse_flags_of ::
  "('s, 'src, 'c) parser_env \<Rightarrow> 's regexp_parser \<Rightarrow> (regexp_flags, 's, 'src) parsing" where
  "parse_flags_of px p =
     and_then (loop (env_fuel px) (parse_flag px) 0 p) (\<lambda>flags p.
     if has_simple_unicode_flag flags \<and> has_unicode_sets_flag flags
     then error px (parser_pos px p) MultipleUnicodeFlags p
     else returns flags p)"

definition parse_flags :: "('s, 'src, 'c) parser_env \<Rightarrow> 's \<Rightarrow> (regexp_flags, 'src) parse_result res" where
  "parse_flags px s =
     (case parse_flags_of px (new_regexp_parser s 0 True False) of
        Inl fault \<Rightarrow> Inl fault
      | Inr (r, p) \<Rightarrow> Inr r)"

section \<open>Quantifiers\<close>

definition parse_braced_quantifier ::
  "('s, 'src, 'c) parser_env \<Rightarrow> 's regexp_parser \<Rightarrow> (u64 \<times> u64 option, 's, 'src) parsing" where
  "parse_braced_quantifier px p =
     and_then (advance px p) (\<lambda>_ p.
     let lower_bound_pos = parser_pos px p in
     and_then (parse_decimal_digits px p) (\<lambda>lower_bound p.
     case lower_bound of
       None \<Rightarrow> error px lower_bound_pos QuantifierBoundTooLarge p
     | Some lower_bound \<Rightarrow>
         and_then (eat px CHR '','' p) (\<lambda>comma p.
         and_then
           (if comma then
              (if parser_current px p = ch CHR ''}'' then returns None p
               else parse_decimal_digits px p)
            else returns (Some lower_bound) p)
           (\<lambda>upper_bound p.
         and_then (expect px CHR ''}'' p) (\<lambda>_. returns (lower_bound, upper_bound))))))"

text \<open>
  The bounds of a quantifier, and \<open>None\<close> when there is none or, in Annex B mode, when a brace turns
  out not to start one.
\<close>

definition parse_quantifier_bounds ::
  "('s, 'src, 'c) parser_env \<Rightarrow> 's regexp_parser \<Rightarrow> ((u64 \<times> u64 option) option, 's, 'src) parsing"
  where
  "parse_quantifier_bounds px p =
     (let quantifier_pos = parser_pos px p;
          c = parser_current px p;
          checked = (\<lambda>(lower_bound, upper_bound) p.
            case upper_bound of
              Some u \<Rightarrow>
                if lower_bound > u then error px quantifier_pos InvalidQuantifierBounds p
                else returns (Some (lower_bound, upper_bound)) p
            | None \<Rightarrow> returns (Some (lower_bound, upper_bound)) p)
      in if c = ch CHR ''*'' then and_then (advance px p) (\<lambda>_. returns (Some (0, None)))
         else if c = ch CHR ''+'' then and_then (advance px p) (\<lambda>_. returns (Some (1, None)))
         else if c = ch CHR ''?'' then and_then (advance px p) (\<lambda>_. returns (Some (0, Some 1)))
         else if c = ch CHR ''{'' then
           (if in_annex_b_mode p then
              (let save_state = save px p in
               case parse_braced_quantifier px p of
                 Inl fault \<Rightarrow> Inl fault
               | Inr (Inr bounds, p) \<Rightarrow> checked bounds p
               | Inr (Inl _, p) \<Rightarrow> returns None (restore px save_state p))
            else and_then (parse_braced_quantifier px p) checked)
         else returns None p)"

fun quantifiable :: "bool \<Rightarrow> ('p, 'r) raw_term \<Rightarrow> bool" where
  "quantifiable unicode_aware (LookaroundTerm (Lookaround ahead positive d)) =
     (ahead \<and> \<not> unicode_aware)"
| "quantifiable unicode_aware (AssertionTerm _) = False"
| "quantifiable unicode_aware _ = True"

definition parse_quantifier ::
  "('s, 'src, 'c) parser_env \<Rightarrow> 'c parsed_term \<Rightarrow> 's regexp_parser \<Rightarrow> ('c parsed_term, 's, 'src) parsing"
  where
  "parse_quantifier px atom p =
     (let quantifier_pos = parser_pos px p in
      and_then (parse_quantifier_bounds px p) (\<lambda>bounds_opt p.
      case bounds_opt of
        Some (lower, upper) \<Rightarrow>
          and_then (eat px CHR ''?'' p) (\<lambda>lazy p.
          if quantifiable (is_unicode_aware p) atom
          then returns (QuantifierTerm (Quantifier atom (unat lower) (map_option unat upper) (\<not> lazy))) p
          else error px quantifier_pos NonQuantifiableAssertion p)
      | None \<Rightarrow> returns atom p))"

section \<open>Groups\<close>

definition modifier_of_char :: "u32 \<Rightarrow> regexp_flags option" where
  "modifier_of_char c =
     (if c = ch CHR ''i'' then Some IGNORE_CASE
      else if c = ch CHR ''m'' then Some MULTILINE
      else if c = ch CHR ''s'' then Some DOT_ALL
      else None)"

definition parse_modifiers ::
  "('s, 'src, 'c) parser_env \<Rightarrow> 's regexp_parser \<Rightarrow> (regexp_flags, 's, 'src) parsing" where
  "parse_modifiers px =
     loop (env_fuel px)
       (\<lambda>modifiers p.
         case modifier_of_char (parser_current px p) of
           Some flag \<Rightarrow>
             if flags_contains modifiers flag
             then error px (parser_pos px p) DuplicateRegExpModifier p
             else and_then (advance px p) (\<lambda>_. returns (Continue (modifiers OR flag)))
         | None \<Rightarrow> returns (Break modifiers) p)
       0"

text \<open>A disjunction and the closing parenthesis.\<close>

definition parse_group_body ::
  "('s, 'src, 'c) parser_env \<Rightarrow> ('c, 's, 'src) disjunction_parser \<Rightarrow> ('c, 's, 'src) disjunction_parser"
  where
  "parse_group_body px nested p =
     and_then (nested p) (\<lambda>disjunction p.
     and_then (expect px CHR '')'' p) (\<lambda>_. returns disjunction))"

definition parse_lookaround ::
  "('s, 'src, 'c) parser_env \<Rightarrow> ('c, 's, 'src) disjunction_parser \<Rightarrow> bool \<Rightarrow> bool \<Rightarrow> 's regexp_parser
     \<Rightarrow> ('c parsed_term, 's, 'src) parsing" where
  "parse_lookaround px nested ahead positive p =
     and_then (advance px p) (\<lambda>_ p.
     and_then (parse_group_body px nested p) (\<lambda>disjunction.
     returns (LookaroundTerm (Lookaround ahead positive disjunction))))"

text \<open>A new group of the name, which may not be in scope already.\<close>

definition add_named_group ::
  "('s, 'src, 'c) parser_env \<Rightarrow> wtf8_string \<Rightarrow> pos \<Rightarrow> pos \<Rightarrow> 's regexp_parser
     \<Rightarrow> (capture_group_index, 's, 'src) parsing" where
  "add_named_group px name name_start_pos left_paren_pos p =
     and_then (next_capture_group_index px left_paren_pos p) (\<lambda>index p.
     let p = p\<lparr>capture_groups := capture_groups p @ [Some name]\<rparr>;
         previous = capture_group_names p name;
         p = p\<lparr>capture_group_names := (capture_group_names p)(name \<mapsto> index)\<rparr>;
         p = (if previous \<noteq> None then p\<lparr>has_duplicate_named_capture_groups := True\<rparr> else p)
     in if name \<in> current_capture_group_names p
        then error px name_start_pos DuplicateCaptureGroupName p
        else returns index
          (p\<lparr>current_capture_group_names := insert name (current_capture_group_names p),
             current_capture_group_name_scope := current_capture_group_name_scope p @ [name]\<rparr>))"

definition parse_named_group ::
  "('s, 'src, 'c) parser_env \<Rightarrow> ('c, 's, 'src) disjunction_parser \<Rightarrow> pos \<Rightarrow> 's regexp_parser
     \<Rightarrow> ('c parsed_term, 's, 'src) parsing" where
  "parse_named_group px nested left_paren_pos p =
     (let name_start_pos = parser_pos px p in
      and_then (parse_identifier px p) (\<lambda>name p.
      and_then (expect px CHR ''>'' p) (\<lambda>_ p.
      and_then (add_named_group px name name_start_pos left_paren_pos p) (\<lambda>index p.
      and_then (parse_group_body px nested p) (\<lambda>disjunction p.
      if \<not> parse_named_capture_groups p
      then error px (parser_pos px p) NamedCaptureGroupEncountered p
      else returns (CaptureGroupTerm (CaptureGroup (Some name) index disjunction)) p)))))"

definition parse_unnamed_group ::
  "('s, 'src, 'c) parser_env \<Rightarrow> ('c, 's, 'src) disjunction_parser \<Rightarrow> pos \<Rightarrow> 's regexp_parser
     \<Rightarrow> ('c parsed_term, 's, 'src) parsing" where
  "parse_unnamed_group px nested left_paren_pos p =
     and_then (next_capture_group_index px left_paren_pos p) (\<lambda>index p.
     and_then (parse_group_body px nested (p\<lparr>capture_groups := capture_groups p @ [None]\<rparr>))
       (\<lambda>disjunction. returns (CaptureGroupTerm (CaptureGroup None index disjunction))))"

text \<open>The modifiers of a group and the colon behind them.\<close>

definition parse_group_modifiers ::
  "('s, 'src, 'c) parser_env \<Rightarrow> 's regexp_parser \<Rightarrow> (regexp_flags \<times> regexp_flags, 's, 'src) parsing"
  where
  "parse_group_modifiers px p =
     (let modifier_start_pos = parser_pos px p in
      and_then (parse_modifiers px p) (\<lambda>positive_modifiers p.
      and_then (eat px CHR ''-'' p) (\<lambda>dash p.
      and_then
        (if dash then
           and_then (parse_modifiers px p) (\<lambda>negative_modifiers p.
           if flags_is_empty positive_modifiers \<and> flags_is_empty negative_modifiers
           then error px modifier_start_pos EmptyRegExpModifiers p
           else returns negative_modifiers p)
         else returns 0 p)
        (\<lambda>negative_modifiers p.
      if \<not> flags_is_empty (positive_modifiers AND negative_modifiers)
      then error px modifier_start_pos DuplicateRegExpModifier p
      else
        and_then (expect px CHR '':'' p) (\<lambda>_.
        returns (positive_modifiers, negative_modifiers))))))"

definition parse_modifier_group ::
  "('s, 'src, 'c) parser_env \<Rightarrow> ('c, 's, 'src) disjunction_parser \<Rightarrow> 's regexp_parser
     \<Rightarrow> ('c parsed_term, 's, 'src) parsing" where
  "parse_modifier_group px nested p =
     and_then (parse_group_modifiers px p) (\<lambda>(positive_modifiers, negative_modifiers) p.
     and_then (parse_group_body px nested p) (\<lambda>disjunction.
     returns (AnonymousGroupTerm
       (AnonymousGroup disjunction positive_modifiers negative_modifiers))))"

definition parse_group ::
  "('s, 'src, 'c) parser_env \<Rightarrow> ('c, 's, 'src) disjunction_parser \<Rightarrow> 's regexp_parser
     \<Rightarrow> ('c parsed_term, 's, 'src) parsing" where
  "parse_group px nested p =
     and_then (advance px p) (\<lambda>_ p.
     let left_paren_pos = parser_pos px p in
     and_then (eat px CHR ''?'' p) (\<lambda>question p.
     if question then
       (let c = parser_current px p in
        if c = ch CHR '':'' then
          and_then (advance px p) (\<lambda>_ p.
          and_then (parse_group_body px nested p) (\<lambda>disjunction.
          returns (AnonymousGroupTerm (AnonymousGroup disjunction 0 0))))
        else if c = ch CHR ''='' then parse_lookaround px nested True True p
        else if c = ch CHR ''!'' then parse_lookaround px nested True False p
        else if c = ch CHR ''<'' then
          and_then (advance px p) (\<lambda>_ p.
          if parser_current px p = ch CHR ''='' then parse_lookaround px nested False True p
          else if parser_current px p = ch CHR ''!'' then parse_lookaround px nested False False p
          else parse_named_group px nested left_paren_pos p)
        else if one_of ''ism-'' c then parse_modifier_group px nested p
        else error_unexpected_token px (parser_pos px p) p)
     else parse_unnamed_group px nested left_paren_pos p))"

section \<open>Terms\<close>

definition character_class_from_shorthand :: "'r \<Rightarrow> 'r character_class" where
  "character_class_from_shorthand shorthand = CharacterClass Union False [shorthand]"

definition alloc_backreference ::
  "capture_group_index \<Rightarrow> 's regexp_parser \<Rightarrow> (nat, 's, 'src) parsing" where
  "alloc_backreference index p =
     returns (length (backreference_nodes p))
       (p\<lparr>backreference_nodes := backreference_nodes p @ [index]\<rparr>)"

definition parse_indexed_backreference ::
  "('s, 'src, 'c) parser_env \<Rightarrow> 's regexp_parser \<Rightarrow> ('c parsed_term, 's, 'src) parsing" where
  "parse_indexed_backreference px p =
     (let start_pos = parser_pos px p in
      and_then (advance px p) (\<lambda>_ p.
      and_then (parse_decimal_digits px p) (\<lambda>index p.
      case index of
        Some n \<Rightarrow>
          if n \<le> 0xFFFFFFFF then
            and_then
              (alloc_backreference (ucast n)
                (p\<lparr>indexed_backreferences := indexed_backreferences p @ [(ucast n, start_pos)]\<rparr>))
              (\<lambda>node. returns (Backreference node))
          else error px start_pos InvalidBackreferenceIndex p
      | None \<Rightarrow> error px start_pos InvalidBackreferenceIndex p)))"

definition parse_named_backreference ::
  "('s, 'src, 'c) parser_env \<Rightarrow> 's regexp_parser \<Rightarrow> ('c parsed_term, 's, 'src) parsing" where
  "parse_named_backreference px p =
     (let start_pos = parser_pos px p in
      and_then (advance2 px p) (\<lambda>_ p.
      and_then (expect px CHR ''<'' p) (\<lambda>_ p.
      and_then (parse_identifier px p) (\<lambda>name p.
      and_then (expect px CHR ''>'' p) (\<lambda>_ p.
      and_then (alloc_backreference 0 p) (\<lambda>node p.
      returns (Backreference node)
        (p\<lparr>named_backreferences := named_backreferences p @ [(name, start_pos, node)]\<rparr>)))))))"

definition parse_literal_code_point ::
  "('s, 'src, 'c) parser_env \<Rightarrow> (u32, 's, 'src) parsing \<Rightarrow> ('c parsed_term, 's, 'src) parsing" where
  "parse_literal_code_point px r =
     and_then r (\<lambda>code_point p.
     and_then (unless_panic (from_code_point_in code_point) p) (\<lambda>string. returns (Literal string)))"

definition parse_escaped_term ::
  "('s, 'src, 'c) parser_env \<Rightarrow> 's regexp_parser \<Rightarrow> ('c parsed_term, 's, 'src) parsing" where
  "parse_escaped_term px p =
     and_then (peek px p) (\<lambda>c p.
     let skip = (\<lambda>t. and_then (advance2 px p) (\<lambda>_. returns t));
         shorthand = (\<lambda>range. CharacterClassTerm (character_class_from_shorthand range))
     in if c = ch CHR ''w'' then skip (shorthand Word)
        else if c = ch CHR ''W'' then skip (shorthand NotWord)
        else if c = ch CHR ''d'' then skip (shorthand Digit)
        else if c = ch CHR ''D'' then skip (shorthand NotDigit)
        else if c = ch CHR ''s'' then skip (shorthand Whitespace)
        else if c = ch CHR ''S'' then skip (shorthand NotWhitespace)
        else if c = ch CHR ''b'' then skip (AssertionTerm WordBoundary)
        else if c = ch CHR ''B'' then skip (AssertionTerm NotWordBoundary)
        else if one_of ''123456789'' c then parse_indexed_backreference px p
        else if c = ch CHR ''k'' \<and> parse_named_capture_groups p then parse_named_backreference px p
        else if c = ch CHR ''p'' \<and> is_unicode_aware p then
          and_then (parse_property_escape px p) (\<lambda>range. returns (shorthand range))
        else if c = ch CHR ''P'' \<and> is_unicode_aware p then
          and_then (parse_inverted_property_escape px p) (\<lambda>range. returns (shorthand range))
        else parse_literal_code_point px (parse_regexp_escape_sequence px p))"

definition parse_atom ::
  "('s, 'src, 'c) parser_env \<Rightarrow> ('c, 's, 'src) disjunction_parser \<Rightarrow> 's regexp_parser
     \<Rightarrow> ('c parsed_term, 's, 'src) parsing" where
  "parse_atom px nested p =
     (let c = parser_current px p;
          skip = (\<lambda>t. and_then (advance px p) (\<lambda>_. returns t))
      in if c = ch CHR ''.'' then skip Wildcard
         else if c = ch CHR ''('' then
           and_then (parse_group px nested (p\<lparr>group_depth := group_depth p + 1\<rparr>)) (\<lambda>group p.
           and_then (unless_panic (checked_sub (group_depth p) 1) p) (\<lambda>depth p.
           returns group (p\<lparr>group_depth := depth\<rparr>)))
         else if c = ch CHR ''['' then
           (if has_unicode_sets_flag (parser_flags p) then
              and_then (parse_unicode_sets_character_class px (env_fuel px) p)
                (\<lambda>(character_class, _). returns (CharacterClassTerm character_class))
            else
              and_then (parse_standard_character_class px p)
                (\<lambda>character_class. returns (CharacterClassTerm character_class)))
         else if c = ch CHR ''^'' then skip (AssertionTerm Start)
         else if c = ch CHR ''$'' then skip (AssertionTerm End)
         else if c = ch CHR 0x5C then parse_escaped_term px p
         else parse_literal_code_point px (parse_unicode_codepoint px p))"

definition parse_term ::
  "('s, 'src, 'c) parser_env \<Rightarrow> ('c, 's, 'src) disjunction_parser \<Rightarrow> 's regexp_parser
     \<Rightarrow> ('c parsed_term, 's, 'src) parsing" where
  "parse_term px nested p = and_then (parse_atom px nested p) (parse_quantifier px)"

section \<open>Alternatives and disjunctions\<close>

text \<open>Adjacent literals are accumulated into one term.\<close>

fun push_term :: "'c parsed_term list \<times> wtf8_string \<Rightarrow> 'c parsed_term
    \<Rightarrow> 'c parsed_term list \<times> wtf8_string" where
  "push_term (ts, current_literal) (Literal next_string) =
     (ts, push_wtf8_str current_literal next_string)"
| "push_term (ts, current_literal) t =
     (if current_literal \<noteq> [] then (ts @ [Literal current_literal, t], [])
      else (ts @ [t], current_literal))"

definition finish_terms :: "'c parsed_term list \<times> wtf8_string \<Rightarrow> 'c parsed_term list" where
  "finish_terms acc =
     (let (ts, current_literal) = acc in
      if current_literal \<noteq> [] then ts @ [Literal current_literal] else ts)"

definition parse_alternative_term ::
  "('s, 'src, 'c) parser_env \<Rightarrow> ('c, 's, 'src) disjunction_parser \<Rightarrow> 'c parsed_term list \<times> wtf8_string
     \<Rightarrow> 's regexp_parser
     \<Rightarrow> (('c parsed_term list \<times> wtf8_string, 'c parsed_term list \<times> wtf8_string) flow, 's, 'src) parsing"
  where
  "parse_alternative_term px nested acc p =
     (let c = parser_current px p in
      if parser_is_end px p then returns (Break acc) p
      else if one_of ''*+?'' c then error px (parser_pos px p) UnexpectedRegExpQuantifier p
      else if c = ch CHR ''{'' \<and> \<not> in_annex_b_mode p then
        error px (parser_pos px p) UnexpectedRegExpQuantifier p
      else if one_of ''}]'' c \<and> \<not> in_annex_b_mode p then
        error_unexpected_token px (parser_pos px p) p
      else if c = ch CHR ''|'' then returns (Break acc) p
      else if c = ch CHR '')'' then
        (if group_depth p > 0 then returns (Break acc) p
         else error_unexpected_token px (parser_pos px p) p)
      else
        and_then (parse_term px nested p) (\<lambda>t. returns (Continue (push_term acc t))))"

definition parse_alternative ::
  "('s, 'src, 'c) parser_env \<Rightarrow> ('c, 's, 'src) disjunction_parser \<Rightarrow> 's regexp_parser
     \<Rightarrow> ('c parsed_term alternative, 's, 'src) parsing" where
  "parse_alternative px nested p =
     and_then (loop (env_fuel px) (parse_alternative_term px nested) ([], []) p) (\<lambda>acc.
     returns (Alternative (finish_terms acc)))"

text \<open>
  An alternative in a scope of group names of its own: its names go out of scope behind it, so that
  another alternative can use them again.
\<close>

definition enter_name_scope :: "'s regexp_parser \<Rightarrow> wtf8_string list \<times> 's regexp_parser" where
  "enter_name_scope p =
     (current_capture_group_name_scope p, p\<lparr>current_capture_group_name_scope := []\<rparr>)"

definition leave_name_scope :: "wtf8_string list \<Rightarrow> 's regexp_parser \<Rightarrow> 's regexp_parser" where
  "leave_name_scope previous_scope p =
     p\<lparr>current_capture_group_names :=
          fold (\<lambda>name names. names - {name}) (current_capture_group_name_scope p)
            (current_capture_group_names p),
       current_capture_group_name_scope := previous_scope\<rparr>"

definition parse_disjunction_alternative ::
  "('s, 'src, 'c) parser_env \<Rightarrow> ('c, 's, 'src) disjunction_parser \<Rightarrow> 'c parsed_term alternative list
     \<Rightarrow> 's regexp_parser
     \<Rightarrow> (('c parsed_term alternative list, 'c parsed_term alternative list) flow, 's, 'src) parsing"
  where
  "parse_disjunction_alternative px nested alts p =
     (let (previous_scope, p) = enter_name_scope p in
      and_then (parse_alternative px nested p) (\<lambda>alternative p.
      let alts = alts @ [alternative]; p = leave_name_scope previous_scope p in
      and_then (eat px CHR ''|'' p) (\<lambda>bar p.
      if \<not> bar then returns (Break alts) p
      else if parser_is_end px p then returns (Break (alts @ [Alternative []])) p
      else returns (Continue alts) p)))"

primrec parse_disjunction ::
  "('s, 'src, 'c) parser_env \<Rightarrow> nat \<Rightarrow> ('c, 's, 'src) disjunction_parser" where
  "parse_disjunction px 0 p = Inl No_Fuel"
| "parse_disjunction px (Suc n) p =
     and_then
       (loop (env_fuel px) (parse_disjunction_alternative px (parse_disjunction px n)) [] p)
       (\<lambda>alts. returns (Disjunction alts))"

section \<open>Back references\<close>

text \<open>The error at the first position wins.\<close>

definition update_first_error ::
  "(pos \<times> parse_error) option \<Rightarrow> pos \<Rightarrow> parse_error \<Rightarrow> (pos \<times> parse_error) option" where
  "update_first_error first_error error_pos e =
     (case first_error of
        Some (first_error_pos, _) \<Rightarrow>
          if error_pos < first_error_pos then Some (error_pos, e) else first_error
      | None \<Rightarrow> Some (error_pos, e))"

definition check_indexed_backreference ::
  "nat \<Rightarrow> capture_group_index \<times> pos \<Rightarrow> (pos \<times> parse_error) option \<Rightarrow> (pos \<times> parse_error) option"
  where
  "check_indexed_backreference num_groups ref first_error =
     (let (index, error_pos) = ref in
      if uint index > int num_groups then update_first_error first_error error_pos InvalidBackreferenceIndex
      else first_error)"

definition resolve_named_backreference ::
  "(wtf8_string \<rightharpoonup> capture_group_index) \<Rightarrow> wtf8_string \<times> pos \<times> nat
     \<Rightarrow> (pos \<times> parse_error) option \<times> capture_group_index list
     \<Rightarrow> (pos \<times> parse_error) option \<times> capture_group_index list" where
  "resolve_named_backreference names ref acc =
     (let (name, error_pos, node) = ref; (first_error, nodes) = acc in
      case names name of
        Some index \<Rightarrow> (first_error, nodes[node := index])
      | None \<Rightarrow> (update_first_error first_error error_pos InvalidBackreferenceName, nodes))"

definition resolve_backreferences ::
  "('s, 'src, 'c) parser_env \<Rightarrow> 's regexp_parser \<Rightarrow> (unit, 's, 'src) parsing" where
  "resolve_backreferences px p =
     (let first_error =
            fold (check_indexed_backreference (length (capture_groups p)))
              (indexed_backreferences p) None;
          (first_error, nodes) =
            fold (resolve_named_backreference (capture_group_names p)) (named_backreferences p)
              (first_error, backreference_nodes p);
          p = p\<lparr>backreference_nodes := nodes\<rparr>
      in case first_error of
           None \<Rightarrow> returns () p
         | Some (error_pos, e) \<Rightarrow> error px error_pos e p)"

text \<open>The finished tree: every back reference with the index in its node.\<close>

definition read_disjunction ::
  "capture_group_index list \<Rightarrow> ('p, nat) raw_term disjunction \<Rightarrow> 'p regexp_term disjunction" where
  "read_disjunction nodes = map_disjunction (map_raw_term id ((!) nodes))"

section \<open>Patterns\<close>

definition parse_pattern_with ::
  "('s, 'src, 'c) parser_env \<Rightarrow> 's \<Rightarrow> regexp_flags \<Rightarrow> bool \<Rightarrow> bool
     \<Rightarrow> ('c parsed_term disjunction, 's, 'src) parsing" where
  "parse_pattern_with px s flags named annex_b =
     parse_disjunction px (env_fuel px) (new_regexp_parser s flags named annex_b)"

text \<open>
  In Annex B mode named groups are not recognised at first; a pattern that has one is parsed again
  from the start.
\<close>

definition parse_pattern_disjunction ::
  "('s, 'src, 'c) parser_env \<Rightarrow> 's \<Rightarrow> regexp_flags \<Rightarrow> bool
     \<Rightarrow> ('c parsed_term disjunction, 's, 'src) parsing" where
  "parse_pattern_disjunction px s flags annex_b =
     (if \<not> annex_b then parse_pattern_with px s flags True annex_b
      else case parse_pattern_with px s flags False annex_b of
        Inl fault \<Rightarrow> Inl fault
      | Inr (Inr d, p) \<Rightarrow> Inr (Inr d, p)
      | Inr (Inl e, p) \<Rightarrow>
          if error_kind e = NamedCaptureGroupEncountered
          then parse_pattern_with px s flags True annex_b
          else Inr (Inl e, p))"

definition parse_regexp ::
  "('s, 'src, 'c) parser_env \<Rightarrow> 's \<Rightarrow> regexp_flags \<Rightarrow> bool
     \<Rightarrow> ('c unicode_property regexp, 'src) parse_result res" where
  "parse_regexp px s flags annex_b =
     (case and_then (parse_pattern_disjunction px s flags annex_b) (\<lambda>disjunction p.
           and_then (resolve_backreferences px p) (\<lambda>_ p.
           returns
             \<lparr>regexp_disjunction = read_disjunction (backreference_nodes p) disjunction,
              regexp_flags = flags,
              regexp_has_duplicate_named_capture_groups = has_duplicate_named_capture_groups p,
              regexp_capture_groups = capture_groups p\<rparr> p)) of
        Inl fault \<Rightarrow> Inl fault
      | Inr (r, p) \<Rightarrow> Inr r)"

end
