(* ===== verification/Regexp_Parser_Rules.thy ===== *)
theory Regexp_Parser_Rules
  imports Regexp_Parser
begin

text \<open>
  How runs of the regular expression parser are reasoned about.

  \<open>holds r E Q\<close> says of the result \<open>r\<close> of a method that it is no fault (neither a panic nor an
  exhausted step budget), that the parser is left in \<open>E\<close> when the result is an error, and that value
  and parser are in \<open>Q\<close> otherwise.  It distributes over \<open>and_then\<close>, so that a method is verified by
  one rule per call.

  The locale \<open>parser_stream\<close> is what the parser relies on in its stream, and \<open>parser_run\<close> adds a step
  budget above the length of the input.  Methods that only read characters leave the parser in the
  relation \<open>lexed\<close> to what it was: nothing but the stream has changed.
\<close>

section \<open>Outcomes\<close>

definition holds ::
  "('a, 's, 'src) parsing \<Rightarrow> ('s regexp_parser \<Rightarrow> bool) \<Rightarrow> ('a \<Rightarrow> 's regexp_parser \<Rightarrow> bool) \<Rightarrow> bool"
  where
  "holds r E Q \<longleftrightarrow>
     (case r of
        Inl fault \<Rightarrow> False
      | Inr (Inl e, p) \<Rightarrow> E p
      | Inr (Inr x, p) \<Rightarrow> Q x p)"

lemma holds_simps [simp]:
  "holds (Inl fault) E Q = False"
  "holds (Inr (Inl e, p)) E Q = E p"
  "holds (Inr (Inr x, p)) E Q = Q x p"
  "holds (returns x p) E Q = Q x p"
  "holds (error px start_pos err p) E Q = E p"
  "holds (error_unexpected_token px start_pos p) E Q = E p"
  by (simp_all add: holds_def returns_def error_def error_unexpected_token_def)

lemma holds_and_then [simp]:
  "holds (and_then r f) E Q \<longleftrightarrow> holds r E (\<lambda>x p. holds (f x p) E Q)"
  by (auto simp: holds_def and_then_def split: sum.splits prod.splits)

lemma holds_unless_panic [simp]:
  "holds (unless_panic x p) E Q \<longleftrightarrow> (\<exists>y. x = Some y \<and> Q y p)"
  by (cases x) (simp_all add: unless_panic_def)

lemma holds_mono:
  assumes "holds r E Q" and "\<And>p. E p \<Longrightarrow> E' p" and "\<And>x p. Q x p \<Longrightarrow> Q' x p"
  shows "holds r E' Q'"
  using assms by (auto simp: holds_def split: sum.splits prod.splits)

lemma holds_if:
  assumes "c \<Longrightarrow> holds r E Q" and "\<not> c \<Longrightarrow> holds r' E Q"
  shows "holds (if c then r else r') E Q"
  using assms by simp

lemma holds_cases:
  assumes "holds r E Q"
  obtains (Error) e p where "r = Inr (Inl e, p)" "E p" | (Value) x p where "r = Inr (Inr x, p)" "Q x p"
proof (cases r)
  case (Inr rp)
  then show ?thesis using assms that by (cases rp; cases "fst rp") auto
qed (use assms in simp)

text \<open>A loop whose body makes progress, measured by \<open>m\<close>, ends within the budget.\<close>

lemma holds_loop:
  assumes "I x p" and "m p < n"
    and "\<And>x p. I x p \<Longrightarrow>
      holds (body x p) E (\<lambda>f p'. case f of Continue y \<Rightarrow> I y p' \<and> m p' < m p | Break y \<Rightarrow> Q y p')"
  shows "holds (loop n body x p) E Q"
  using assms(1,2)
proof (induction n arbitrary: x p)
  case (Suc n)
  show ?case
    by (simp, rule holds_mono [OF assms(3) [OF Suc.prems(1)]])
       (use Suc in \<open>auto split: flow.splits\<close>)
qed simp

section \<open>Characters\<close>

text \<open>An ASCII character is not the end of the input.\<close>

lemma unat_ch: "unat (ch c :: u32) = of_char c"
proof -
  have "(of_char c :: nat) < 2 ^ LENGTH(32)" by (rule order.strict_trans [OF nat_of_char_less_256]) simp
  then have "unat (word_of_nat (of_char c) :: u32) = of_char c" by (rule unat_of_nat_small)
  then show ?thesis by (simp only: of_nat_of_char)
qed

lemma ch_not_EOF: "ch c \<noteq> EOF_CHAR" "EOF_CHAR \<noteq> ch c"
proof -
  have "of_char c \<noteq> (0x110000 :: nat)" using nat_of_char_less_256 [of c] by linarith
  then have "unat (ch c) \<noteq> unat EOF_CHAR" by (simp add: unat_ch EOF_CHAR_def)
  then show "ch c \<noteq> EOF_CHAR" "EOF_CHAR \<noteq> ch c" by auto
qed

section \<open>The stream of the parser\<close>

locale parser_stream =
  fixes lx :: "('s, 'src) lexer_ops"
    and ok :: "'s \<Rightarrow> bool"
    and len :: nat
  assumes op_len: "ok s \<Longrightarrow> op_len lx s = len"
    and op_pos_le: "ok s \<Longrightarrow> op_pos lx s \<le> len"
    and op_current_EOF: "ok s \<Longrightarrow> op_current lx s = EOF_CHAR \<longleftrightarrow> op_pos lx s = len"
    and op_advance_n: "ok s \<Longrightarrow> \<exists>s'. op_advance_n lx s n = Some s' \<and> ok s'
      \<and> op_pos lx s' = min len (op_pos lx s + n)"
    and op_peek_n: "ok s \<Longrightarrow> \<exists>c. op_peek_n lx s n = Some c"
    and op_peek_1: "ok s \<Longrightarrow> op_peek_n lx s 1 = Some c \<Longrightarrow> c \<noteq> op_current lx s \<Longrightarrow> is_ascii c \<Longrightarrow>
      op_advance_n lx s 1 = Some s' \<Longrightarrow> op_current lx s' = c"
    and op_parse_unicode_codepoint:
      "ok s \<Longrightarrow> \<exists>r s'. op_parse_unicode_codepoint lx s = Some (r, s') \<and> ok s'
        \<and> (\<forall>c. r = Inr c \<longrightarrow> op_pos lx s < op_pos lx s' \<and> c \<le> MAX_CODE_POINT)"
    and op_restore_save: "ok s \<Longrightarrow> ok s' \<Longrightarrow> op_restore lx s' (op_save lx s) = s"

locale parser_run = parser_stream "env_lexer px" ok len
  for px :: "('s, 'src, 'c) parser_env" and ok :: "'s \<Rightarrow> bool" and len :: nat +
  assumes enough_fuel: "len < env_fuel px"
begin

definition lexed :: "'s regexp_parser \<Rightarrow> 's regexp_parser \<Rightarrow> bool" where
  "lexed p p' \<longleftrightarrow>
     ok (lexer_state p) \<and> ok (lexer_state p') \<and> p' = p\<lparr>lexer_state := lexer_state p'\<rparr>"

abbreviation lexing :: "'s regexp_parser \<Rightarrow> bool" where
  "lexing p \<equiv> ok (lexer_state p)"

abbreviation at :: "'s regexp_parser \<Rightarrow> nat" where
  "at p \<equiv> parser_pos px p"

lemma lexed_refl: "lexing p \<Longrightarrow> lexed p p"
  by (simp add: lexed_def)

lemma lexed_trans [trans]: "lexed p q \<Longrightarrow> lexed q r \<Longrightarrow> lexed p r"
  by (cases p; cases q; cases r) (auto simp: lexed_def)

lemma lexed_lexing: "lexed p q \<Longrightarrow> lexing p" "lexed p q \<Longrightarrow> lexing q"
  by (simp_all add: lexed_def)

lemma lexed_update: "lexing p \<Longrightarrow> ok s \<Longrightarrow> lexed p (p\<lparr>lexer_state := s\<rparr>)"
  by (simp add: lexed_def)

lemma lexed_eq: "lexed p q \<Longrightarrow> q = p\<lparr>lexer_state := lexer_state q\<rparr>"
  by (simp add: lexed_def)

lemma at_le: "lexing p \<Longrightarrow> at p \<le> len"
  by (simp add: parser_pos_def op_pos_le)

lemma at_less: "lexing p \<Longrightarrow> parser_current px p \<noteq> EOF_CHAR \<Longrightarrow> at p < len"
  using op_current_EOF [of "lexer_state p"] op_pos_le [of "lexer_state p"]
  by (auto simp: parser_pos_def parser_current_def)

lemma parser_is_end_iff: "lexing p \<Longrightarrow> parser_is_end px p \<longleftrightarrow> at p = len"
  by (simp add: parser_is_end_def lexer_is_end_def parser_pos_def op_len)

subsection \<open>Characters\<close>

text \<open>
  The rules are relative to an earlier state \<open>orig\<close> of the parser, so that the facts about every
  later state refer to one and the same.
\<close>

lemma rule_advance_n:
  assumes "lexed orig p" and "\<And>p'. lexed orig p' \<Longrightarrow> at p' = min len (at p + n) \<Longrightarrow> Q () p'"
  shows "holds (advance_n px n p) E Q"
proof -
  have lexing: "lexing p" using assms(1) by (rule lexed_lexing)
  obtain s where s: "op_advance_n (env_lexer px) (lexer_state p) n = Some s" "ok s"
    "op_pos (env_lexer px) s = min len (at p + n)"
    using op_advance_n [OF lexing] by (auto simp: parser_pos_def)
  have "Q () (p\<lparr>lexer_state := s\<rparr>)"
    by (rule assms(2) [OF lexed_trans [OF assms(1) lexed_update [OF lexing s(2)]]])
       (simp add: parser_pos_def s(3) min_def)
  then show ?thesis by (simp add: advance_n_def s(1))
qed

text \<open>Advancing past a character that is there makes progress.\<close>

lemma rule_advance:
  assumes "lexed orig p" and "parser_current px p \<noteq> EOF_CHAR"
    and "\<And>p'. lexed orig p' \<Longrightarrow> at p < at p' \<Longrightarrow> Q () p'"
  shows "holds (advance px p) E Q" and "holds (advance2 px p) E Q" and "holds (advance3 px p) E Q"
  unfolding advance_def advance2_def advance3_def
  using at_less [OF lexed_lexing(2) [OF assms(1)] assms(2)]
  by (auto intro!: rule_advance_n [where orig = orig] assms(1,3))

lemma rule_peek:
  assumes "lexed orig p" and "\<And>c. Q c p"
  shows "holds (peek px p) E Q" and "holds (peek2 px p) E Q"
proof -
  have "holds (peek_n px n p) E Q" for n
    using op_peek_n [OF lexed_lexing(2) [OF assms(1)], of n] assms(2) by (auto simp: peek_n_def)
  then show "holds (peek px p) E Q" "holds (peek2 px p) E Q" by (simp_all add: peek_def peek2_def)
qed

text \<open>
  What is peeked at comes next.  The stream of code points peeks at the wrong place, but then it
  sees the code point it is at, which is not an ASCII character unless it is the current one.
\<close>

definition peeked :: "'s regexp_parser \<Rightarrow> u32 \<Rightarrow> bool" where
  "peeked p c \<longleftrightarrow> op_peek_n (env_lexer px) (lexer_state p) 1 = Some c"

lemma rule_peek_ahead:
  assumes "lexed orig p" and "\<And>c. peeked p c \<Longrightarrow> Q c p"
  shows "holds (peek px p) E Q"
  using op_peek_n [OF lexed_lexing(2) [OF assms(1)], of 1] assms(2)
  by (auto simp: peek_def peek_n_def peeked_def)

lemma rule_advance_peeked:
  assumes "lexed orig p" and "peeked p c" and "c \<noteq> parser_current px p" and "is_ascii c"
    and "parser_current px p \<noteq> EOF_CHAR"
    and "\<And>p'. lexed orig p' \<Longrightarrow> at p < at p' \<Longrightarrow> parser_current px p' = c \<Longrightarrow> Q () p'"
  shows "holds (advance px p) E Q"
proof -
  have lexing: "lexing p" using assms(1) by (rule lexed_lexing)
  obtain s where s: "op_advance_n (env_lexer px) (lexer_state p) 1 = Some s" "ok s"
    "op_pos (env_lexer px) s = min len (at p + 1)"
    using op_advance_n [OF lexing, of 1] by (auto simp: parser_pos_def)
  have "at p < at (p\<lparr>lexer_state := s\<rparr>)"
    using at_less [OF lexing assms(5)] by (simp add: parser_pos_def s(3) min_def)
  moreover have "parser_current px (p\<lparr>lexer_state := s\<rparr>) = c"
    using op_peek_1 [OF lexing _ _ assms(4) s(1)] assms(2,3)
    by (simp add: peeked_def parser_current_def)
  ultimately show ?thesis
    using assms(6) [OF lexed_trans [OF assms(1) lexed_update [OF lexing s(2)]]]
    by (simp add: advance_def advance_n_def s(1) del: One_nat_def)
qed

lemma rule_parse_unicode_codepoint:
  assumes "lexed orig p" and "\<And>p'. lexed orig p' \<Longrightarrow> E p'"
    and "\<And>c p'. lexed orig p' \<Longrightarrow> at p < at p' \<Longrightarrow> c \<le> MAX_CODE_POINT \<Longrightarrow> Q c p'"
  shows "holds (parse_unicode_codepoint px p) E Q"
proof -
  have lexing: "lexing p" using assms(1) by (rule lexed_lexing)
  obtain r s where s: "op_parse_unicode_codepoint (env_lexer px) (lexer_state p) = Some (r, s)" "ok s"
    and c: "\<And>c. r = Inr c \<Longrightarrow> at p < op_pos (env_lexer px) s \<and> c \<le> MAX_CODE_POINT"
    using op_parse_unicode_codepoint [OF lexing] by (auto simp: parser_pos_def)
  have lexed: "lexed orig (p\<lparr>lexer_state := s\<rparr>)"
    by (rule lexed_trans [OF assms(1) lexed_update [OF lexing s(2)]])
  show ?thesis
  proof (cases r)
    case (Inl e)
    then show ?thesis by (simp add: parse_unicode_codepoint_def s(1) assms(2) [OF lexed])
  next
    case (Inr x)
    then show ?thesis
      using c [OF Inr] assms(3) [OF lexed, of x]
      by (simp add: parse_unicode_codepoint_def s(1)) (simp add: parser_pos_def)
  qed
qed

lemma rule_expect:
  assumes "lexed orig p" and "E p" and "\<And>p'. lexed orig p' \<Longrightarrow> at p < at p' \<Longrightarrow> Q () p'"
  shows "holds (expect px c p) E Q"
  unfolding expect_def
  by (rule holds_if) (use assms ch_not_EOF in \<open>auto intro!: rule_advance(1) [where orig = orig]\<close>)

lemma rule_eat:
  assumes "lexed orig p"
    and "\<And>p'. lexed orig p' \<Longrightarrow> at p < at p' \<Longrightarrow> parser_current px p = ch c \<Longrightarrow> Q True p'"
    and "parser_current px p \<noteq> ch c \<Longrightarrow> Q False p"
  shows "holds (eat px c p) E Q"
  unfolding eat_def
  by (rule holds_if) (use assms ch_not_EOF in \<open>auto intro!: rule_advance(1) [where orig = orig]\<close>)

lemmas char_rules = rule_advance rule_peek rule_parse_unicode_codepoint rule_expect rule_eat

text \<open>Going back to a saved place undoes whatever was lexed since.\<close>

lemma restore_saved:
  assumes "lexed orig q" and "lexed orig r"
  shows "restore px (save px q) r = q"
  using assms op_restore_save [of "lexer_state q" "lexer_state r"]
  by (cases orig; cases q; cases r) (auto simp: lexed_def restore_def save_def)

subsection \<open>Loops\<close>

text \<open>The budget is enough for a loop that moves forward in every round.\<close>

lemma rule_loop:
  assumes "I x p" and lexing: "\<And>x p. I x p \<Longrightarrow> lexing p"
    and body: "\<And>x p. I x p \<Longrightarrow>
      holds (body x p) E (\<lambda>f p'. case f of Continue y \<Rightarrow> I y p' \<and> at p < at p' | Break y \<Rightarrow> Q y p')"
  shows "holds (loop (env_fuel px) body x p) E Q"
proof (rule holds_loop [where I = I and m = "\<lambda>p. len - at p"])
  show "I x p" by fact
  show "len - at p < env_fuel px" using enough_fuel by simp
  fix x p assume I: "I x p"
  show "holds (body x p) E
      (\<lambda>f p'. case f of Continue y \<Rightarrow> I y p' \<and> len - at p' < len - at p | Break y \<Rightarrow> Q y p')"
  proof (rule holds_mono [OF body [OF I]])
    fix f p'
    assume "case f of Continue y \<Rightarrow> I y p' \<and> at p < at p' | Break y \<Rightarrow> Q y p'"
    then show "case f of Continue y \<Rightarrow> I y p' \<and> len - at p' < len - at p | Break y \<Rightarrow> Q y p'"
      using lexing at_le by (fastforce split: flow.splits)
  qed
qed

end

end
