(* ===== verification/Regexp_Parser_Safety.thy ===== *)
theory Regexp_Parser_Safety
  imports Regexp_Parser_Rules
begin

text \<open>
  The methods of the parser that read characters, verified: they never panic, they end within the
  budget, they leave everything but the stream alone, they move forward, and the code points they
  return are code points.
\<close>

section \<open>Characters and code points\<close>

lemma class_not_EOF [simp]:
  "\<not> is_decimal_digit EOF_CHAR"
  "\<not> is_ascii_alphabetic EOF_CHAR"
  "get_hex_value EOF_CHAR = None"
  "flag_of_char EOF_CHAR = None"
  "modifier_of_char EOF_CHAR = None"
  by (simp_all add: is_decimal_digit_def is_ascii_alphabetic_def get_hex_value_def EOF_CHAR_def
      flag_of_char_def modifier_of_char_def)

lemma one_of_not_EOF [simp]: "\<not> one_of cs EOF_CHAR"
  using ch_not_EOF by (auto simp: one_of_def list_ex_iff)

lemma not_EOF:
  "is_decimal_digit c \<Longrightarrow> c \<noteq> EOF_CHAR"
  "is_ascii_alphabetic c \<Longrightarrow> c \<noteq> EOF_CHAR"
  "get_hex_value c = Some v \<Longrightarrow> c \<noteq> EOF_CHAR"
  "flag_of_char c = Some f \<Longrightarrow> c \<noteq> EOF_CHAR"
  "modifier_of_char c = Some f \<Longrightarrow> c \<noteq> EOF_CHAR"
  "one_of cs c \<Longrightarrow> c \<noteq> EOF_CHAR"
  "c = ch x \<Longrightarrow> c \<noteq> EOF_CHAR"
  using ch_not_EOF by auto

lemma hex_value_less: "get_hex_value c = Some v \<Longrightarrow> unat v < 16"
  by (auto simp: get_hex_value_def word_le_nat_alt unat_word_ariths unat_sub split: if_splits)

lemma push_hex_digit:
  fixes v :: "'w::len word"
  assumes "unat v < 16 ^ j" and "4 * Suc j \<le> LENGTH('w)" and "unat (h :: u32) < 16"
  shows "unat (push_bit 4 v + ucast h) = unat v * 16 + unat h"
    and "unat v * 16 + unat h < 16 ^ Suc j"
proof -
  show less: "unat v * 16 + unat h < 16 ^ Suc j" using assms(1,3) by simp
  have "(16 :: nat) ^ Suc j = 2 ^ (4 * Suc j)" by (simp only: power_mult) simp
  also have "\<dots> \<le> 2 ^ LENGTH('w)" using assms(2) by (intro power_increasing) auto
  finally have fits: "unat v * 16 + unat h < 2 ^ LENGTH('w)" using less by linarith
  have "unat (push_bit 4 v) = unat v * 16"
    using unat_push_bit_small [of v 4] fits by simp
  moreover have "unat (ucast h :: 'w word) = unat h"
    using fits by (simp add: unat_ucast_mod)
  ultimately show "unat (push_bit 4 v + ucast h) = unat v * 16 + unat h"
    using fits by (simp add: unat_word_ariths)
qed

lemma code_point_le_iff: "c \<le> MAX_CODE_POINT \<longleftrightarrow> unat c \<le> 0x10FFFF"
  by (simp add: MAX_CODE_POINT_def word_le_nat_alt)

lemma ch_code_point [simp]: "ch c \<le> MAX_CODE_POINT"
  unfolding code_point_le_iff unat_ch
  by (rule order.trans [OF less_imp_le [OF nat_of_char_less_256]]) simp

lemma ucast_u16_code_point [simp]: "(ucast (u :: u16) :: u32) \<le> MAX_CODE_POINT"
proof -
  have "unat u < 65536" using unsigned_less [of u] by simp
  then show ?thesis by (simp add: code_point_le_iff unat_ucast_up)
qed

lemma surrogate_code_unit_of_point:
  "is_high_surrogate_code_point c \<Longrightarrow> is_high_surrogate_code_unit (ucast c)"
  "is_low_surrogate_code_point c \<Longrightarrow> is_low_surrogate_code_unit (ucast c)"
  by (auto simp: is_high_surrogate_code_point_def is_high_surrogate_code_unit_def
      is_low_surrogate_code_point_def is_low_surrogate_code_unit_def word_le_nat_alt unat_ucast_mod)

lemma surrogate_point_pair:
  "is_high_surrogate_code_point c \<Longrightarrow> is_low_surrogate_code_point d \<Longrightarrow>
     code_point_from_surrogate_pair (ucast c) (ucast d) \<le> MAX_CODE_POINT"
  by (intro surrogate_pair_decode_encode(3) surrogate_code_unit_of_point)

section \<open>Decimal numbers\<close>

text \<open>
  \<open>n\<close> is the number that the digits read so far denote: the accumulator is exact, or the number does
  not fit in 64 bits.
\<close>

definition accumulates :: "nat \<Rightarrow> u64 \<times> bool \<Rightarrow> bool" where
  "accumulates n acc \<longleftrightarrow> (if snd acc then 2 ^ 64 \<le> n else unat (fst acc) = n)"

definition digit_value :: "u32 \<Rightarrow> nat" where
  "digit_value c = unat c - 48"

lemma checked_u64_eq:
  "checked_add_u64 a b = (if unat a + unat b < 2 ^ 64 then Some (a + b) else None)"
  "checked_mul_u64 a b = (if unat a * unat b < 2 ^ 64 then Some (a * b) else None)"
proof -
  have "int n < 2 ^ 64 \<longleftrightarrow> n < 2 ^ 64" for n by (rule of_nat_less_numeral_power_cancel_iff)
  note less = this [symmetric]
  show "checked_add_u64 a b = (if unat a + unat b < 2 ^ 64 then Some (a + b) else None)"
    by (simp only: checked_add_u64_def less of_nat_add uint_nat)
  show "checked_mul_u64 a b = (if unat a * unat b < 2 ^ 64 then Some (a * b) else None)"
    by (simp only: checked_mul_u64_def less of_nat_mult uint_nat)
qed

lemma unat_digit:
  assumes "is_decimal_digit c"
  shows "unat (ucast c - ucast (ch CHR ''0'') :: u64) = digit_value c"
proof -
  have zero: "ch CHR ''0'' = 48" by simp
  have c: "48 \<le> unat c" using assms by (simp add: is_decimal_digit_def word_le_nat_alt)
  have "unat (ucast c :: u64) = unat c" by (rule unat_ucast_up) simp
  moreover from this c have "(48 :: u64) \<le> ucast c" by (simp add: word_le_nat_alt)
  ultimately show ?thesis by (simp add: zero digit_value_def unat_sub)
qed

lemma accumulates_digit:
  assumes "accumulates n acc" and "is_decimal_digit c"
  shows "accumulates (n * 10 + digit_value c) (push_decimal_digit acc c)"
proof -
  obtain v ov where acc: "acc = (v, ov)" by fastforce
  have mul: "unat (v * 10) = unat v * 10" if "unat v * 10 < 2 ^ 64"
    using that by (simp add: unat_word_ariths)
  have add: "unat (a + b) = unat a + unat b" if "unat a + unat b < 2 ^ 64" for a b :: u64
    using that by (simp add: unat_word_ariths)
  show ?thesis
    using assms(1) unat_digit [OF assms(2)]
    by (auto simp: acc push_decimal_digit_def checked_u64_eq accumulates_def mul add split: if_splits)
qed

section \<open>Characters of the input\<close>

declare of_char_Char [simp del]
declare ch_not_EOF [simp]

context parser_run
begin

subsection \<open>Numbers\<close>

text \<open>A number that starts with a digit other than 0 is positive.\<close>

lemma digit_value_pos: "one_of ''123456789'' c \<Longrightarrow> 0 < digit_value c"
  by (auto simp: one_of_def digit_value_def of_char_Char)

lemma rule_parse_decimal_digits:
  assumes "lexed orig p" and "E p"
    and "\<And>x p'. lexed orig p' \<Longrightarrow> at p < at p' \<Longrightarrow>
      (\<And>v. one_of ''123456789'' (parser_current px p) \<Longrightarrow> x = Some v \<Longrightarrow> 0 < v) \<Longrightarrow> Q x p'"
  shows "holds (parse_decimal_digits px p) E Q"
  unfolding parse_decimal_digits_def
proof (rule holds_if)
  let ?I = "\<lambda>acc q. lexed orig q \<and> (\<exists>n. accumulates n acc
    \<and> (q = p \<or> at p < at q \<and> (one_of ''123456789'' (parser_current px p) \<longrightarrow> 0 < n)))"
  assume digit: "\<not> \<not> is_decimal_digit (parser_current px p)"
  show "holds (and_then (loop (env_fuel px)
      (\<lambda>acc p. let c = parser_current px p in
         if is_decimal_digit c
         then and_then (advance px p) (\<lambda>_. returns (Continue (push_decimal_digit acc c)))
         else returns (Break acc) p) (0, False) p)
      (\<lambda>(value, has_overflowed). returns (if has_overflowed then None else Some value))) E Q"
    unfolding holds_and_then
  proof (rule rule_loop [where I = ?I])
    show "?I (0, False) p" using assms(1) by (auto simp: accumulates_def)
    fix acc q assume I: "?I acc q"
    then show "lexing q" by (auto dest: lexed_lexing)
    from I obtain n where n: "lexed orig q" "accumulates n acc"
      "q = p \<or> at p < at q \<and> (one_of ''123456789'' (parser_current px p) \<longrightarrow> 0 < n)" by blast
    show "holds (let c = parser_current px q in
         if is_decimal_digit c
         then and_then (advance px q) (\<lambda>_. returns (Continue (push_decimal_digit acc c)))
         else returns (Break acc) q) E
      (\<lambda>f p'. case f of Continue y \<Rightarrow> ?I y p' \<and> at q < at p'
        | Break y \<Rightarrow> holds ((case y of (value, has_overflowed) \<Rightarrow>
            returns (if has_overflowed then None else Some value)) p') E Q)"
      unfolding Let_def
    proof (rule holds_if)
      assume d: "is_decimal_digit (parser_current px q)"
      have "0 < n * 10 + digit_value (parser_current px q)" if "one_of ''123456789'' (parser_current px p)"
        using n(3) that digit_value_pos [OF that] by auto
      then show "holds (and_then (advance px q)
          (\<lambda>_. returns (Continue (push_decimal_digit acc (parser_current px q))))) E
        (\<lambda>f p'. case f of Continue y \<Rightarrow> ?I y p' \<and> at q < at p'
          | Break y \<Rightarrow> holds ((case y of (value, has_overflowed) \<Rightarrow>
              returns (if has_overflowed then None else Some value)) p') E Q)"
        using n(1,3) d accumulates_digit [OF n(2) d]
        by (auto simp: not_EOF intro!: char_rules [where orig = orig]
            exI [of _ "n * 10 + digit_value (parser_current px q)"])
    next
      assume "\<not> is_decimal_digit (parser_current px q)"
      then have "at p < at q" "one_of ''123456789'' (parser_current px p) \<Longrightarrow> 0 < n"
        using digit n(3) by auto
      then show "holds (returns (Break acc) q) E
        (\<lambda>f p'. case f of Continue y \<Rightarrow> ?I y p' \<and> at q < at p'
          | Break y \<Rightarrow> holds ((case y of (value, has_overflowed) \<Rightarrow>
              returns (if has_overflowed then None else Some value)) p') E Q)"
        using n(1,2)
        by (cases acc) (auto simp: accumulates_def word_less_nat_alt intro!: assms(3))
    qed
  qed
qed (simp add: assms)

lemma rule_parse_hex_digits:
  fixes v :: "'w::len word"
  assumes "lexed orig p" and "unat v < 16 ^ j" and "4 * (j + k) \<le> LENGTH('w)"
    and "\<And>p'. lexed orig p' \<Longrightarrow> E p'"
    and "\<And>x p'. lexed orig p' \<Longrightarrow> at p \<le> at p' \<Longrightarrow> unat x < 16 ^ (j + k) \<Longrightarrow> Q x p'"
  shows "holds (parse_hex_digits px start_pos k v p) E Q"
  using assms
proof (induction k arbitrary: p v j)
  case (Suc k)
  show ?case
  proof (cases "get_hex_value (parser_current px p)")
    case (Some h)
    have h: "unat h < 16" by (rule hex_value_less [OF Some])
    have v: "unat (push_bit 4 v + ucast h) < 16 ^ Suc j"
      using push_hex_digit [OF Suc.prems(2) _ h] Suc.prems(3) by simp
    have Q: "Q x q" if "lexed orig q" "at p \<le> at q" "unat x < 16 ^ (Suc j + k)" for x q
      using that Suc.prems(5) by simp
    show ?thesis
      using Suc.prems(1,3,4) Q not_EOF(3) [OF Some]
      by (auto simp: Some v [unfolded power_Suc] intro!: Suc.IH [where j = "Suc j"] char_rules [where orig = orig])
  qed (simp add: Suc.prems)
qed simp

lemma rule_parse_hex2_digits:
  assumes "lexed orig p" and "\<And>p'. lexed orig p' \<Longrightarrow> E p'"
    and "\<And>x p'. lexed orig p' \<Longrightarrow> at p \<le> at p' \<Longrightarrow> x \<le> MAX_CODE_POINT \<Longrightarrow> Q x p'"
  shows "holds (parse_hex2_digits px start_pos p) E Q"
  unfolding parse_hex2_digits_def
  by (rule rule_parse_hex_digits [where j = 0 and orig = orig])
    (use assms in \<open>simp_all add: code_point_le_iff\<close>)

lemma rule_parse_hex4_digits:
  assumes "lexed orig p" and "\<And>p'. lexed orig p' \<Longrightarrow> E p'"
    and "\<And>x p'. lexed orig p' \<Longrightarrow> at p \<le> at p' \<Longrightarrow> Q x p'"
  shows "holds (parse_hex4_digits px start_pos p) E Q"
  unfolding parse_hex4_digits_def
  by (rule rule_parse_hex_digits [where j = 0 and orig = orig]) (use assms in simp_all)

subsection \<open>Escape sequences\<close>

lemma rule_parse_code_point_digits:
  assumes "lexed orig p" and "\<And>p'. lexed orig p' \<Longrightarrow> E p'"
    and "\<And>x p'. lexed orig p' \<Longrightarrow> at p \<le> at p' \<Longrightarrow> x \<le> MAX_CODE_POINT \<Longrightarrow> Q x p'"
  shows "holds (parse_code_point_digits px start_pos p) E Q"
  unfolding parse_code_point_digits_def
  by (rule rule_loop [where I = "\<lambda>v q. lexed orig q \<and> at p \<le> at q \<and> v \<le> MAX_CODE_POINT"])
    (use assms in \<open>auto simp: Let_def MAX_CODE_POINT_def lexed_lexing not_EOF split: option.split
       intro!: char_rules [where orig = orig]\<close>)

lemmas number_rules =
  rule_parse_decimal_digits rule_parse_hex2_digits rule_parse_hex4_digits rule_parse_code_point_digits

lemma rule_parse_low_surrogate_escape:
  assumes "lexed orig p" and "\<And>p'. lexed orig p' \<Longrightarrow> E p'"
    and "\<And>x p'. lexed orig p' \<Longrightarrow> at p \<le> at p' \<Longrightarrow> x \<le> MAX_CODE_POINT \<Longrightarrow> Q x p'"
  shows "holds (parse_low_surrogate_escape px start_pos u p) E Q"
  unfolding parse_low_surrogate_escape_def
  using assms
  by (auto simp: Let_def restore_saved [where orig = orig] surrogate_pair_decode_encode(3)
      intro!: char_rules [where orig = orig] number_rules [where orig = orig])

lemma rule_parse_regex_unicode_escape_sequence:
  assumes "lexed orig p" and "parser_current px p \<noteq> EOF_CHAR" and "\<And>p'. lexed orig p' \<Longrightarrow> E p'"
    and "\<And>x p'. lexed orig p' \<Longrightarrow> at p < at p' \<Longrightarrow> x \<le> MAX_CODE_POINT \<Longrightarrow> Q x p'"
  shows "holds (parse_regex_unicode_escape_sequence px unicode_aware p) E Q"
  unfolding parse_regex_unicode_escape_sequence_def
  using assms
  by (auto simp: Let_def restore_saved [where orig = orig]
      intro!: char_rules [where orig = orig] number_rules [where orig = orig]
        rule_parse_low_surrogate_escape [where orig = orig])

lemma rule_parse_identity_escape:
  assumes "lexed orig p" and "parser_current px p \<noteq> EOF_CHAR" and "\<And>p'. lexed orig p' \<Longrightarrow> E p'"
    and "\<And>x p'. lexed orig p' \<Longrightarrow> at p < at p' \<Longrightarrow> x \<le> MAX_CODE_POINT \<Longrightarrow> Q x p'"
  shows "holds (parse_identity_escape px p) E Q"
proof -
  have special: "c \<le> MAX_CODE_POINT" if "one_of cs c" for cs c
    using that by (auto simp: one_of_def list_ex_iff)
  show ?thesis
    unfolding parse_identity_escape_def
    using assms
    by (auto simp: Let_def restore_saved [where orig = orig] special not_EOF(6)
        intro!: char_rules [where orig = orig])
qed

lemma mod_code_point: "c mod 32 \<le> MAX_CODE_POINT"
proof -
  have "unat (c mod 32) < 32" by (simp add: unat_mod)
  then show ?thesis by (simp add: code_point_le_iff)
qed

lemma control_code_point: "numeral n \<le> MAX_CODE_POINT" if "numeral n \<le> (0xFF :: u32)"
  using that by (rule order.trans) (simp add: MAX_CODE_POINT_def)

lemma rule_parse_regexp_escape_sequence:
  assumes "lexed orig p" and "parser_current px p \<noteq> EOF_CHAR" and "\<And>p'. lexed orig p' \<Longrightarrow> E p'"
    and "\<And>x p'. lexed orig p' \<Longrightarrow> at p < at p' \<Longrightarrow> x \<le> MAX_CODE_POINT \<Longrightarrow> Q x p'"
  shows "holds (parse_regexp_escape_sequence px p) E Q"
  unfolding parse_regexp_escape_sequence_def holds_and_then Let_def
proof (rule rule_peek [where orig = orig], fact assms(1), rule rule_peek [where orig = orig], fact assms(1),
    intro holds_if)
qed (use assms in \<open>auto simp: mod_code_point control_code_point
    intro!: char_rules [where orig = orig] number_rules [where orig = orig]
      rule_parse_regex_unicode_escape_sequence [where orig = orig]
      rule_parse_identity_escape [where orig = orig]\<close>)

lemmas escape_rules = rule_parse_regex_unicode_escape_sequence rule_parse_regexp_escape_sequence

subsection \<open>Group names\<close>

lemma as_id_Some:
  "as_id_start f c = Some d \<longleftrightarrow> d = c \<and> is_id_start f c"
  "as_id_part f c = Some d \<longleftrightarrow> d = c \<and> is_id_part f c"
  by (auto simp: as_id_start_def as_id_part_def)

lemma rule_parse_identifier_code_point:
  assumes "lexed orig p" and "\<And>p'. lexed orig p' \<Longrightarrow> E p'"
    and "\<And>x p'. lexed orig p' \<Longrightarrow> at p < at p' \<Longrightarrow> x \<le> MAX_CODE_POINT \<Longrightarrow> Q x p'"
  shows "holds (parse_identifier_code_point px p) E Q"
  unfolding parse_identifier_code_point_def
  using assms
  by (auto simp: surrogate_point_pair intro!: char_rules [where orig = orig])

lemma rule_parse_identifier_start:
  assumes "lexed orig p" and "\<And>p'. lexed orig p' \<Longrightarrow> E p'"
    and "\<And>x p'. lexed orig p' \<Longrightarrow> at p < at p' \<Longrightarrow> Q x p'"
  shows "holds (parse_identifier_start px p) E Q"
  unfolding parse_identifier_start_def
  using assms
  by (auto simp: push_eq as_id_Some split: option.split
      intro!: escape_rules [where orig = orig] rule_parse_identifier_code_point [where orig = orig])

lemma rule_parse_identifier:
  assumes "lexed orig p" and "\<And>p'. lexed orig p' \<Longrightarrow> E p'"
    and "\<And>x p'. lexed orig p' \<Longrightarrow> at p < at p' \<Longrightarrow> Q x p'"
  shows "holds (parse_identifier px p) E Q"
  unfolding parse_identifier_def holds_and_then
proof (rule rule_parse_identifier_start [where orig = orig])
  fix name p'
  assume "lexed orig p'" and "at p < at p'"
  then show "holds (loop (env_fuel px) (parse_identifier_part px) name p') E Q"
    by (intro rule_loop [where I = "\<lambda>_ q. lexed orig q \<and> at p < at q"])
      (use assms(2,3) in \<open>auto simp: parse_identifier_part_def Let_def push_eq as_id_Some lexed_lexing
         restore_saved [where orig = orig] split: option.split
       intro!: escape_rules [where orig = orig] rule_parse_identifier_code_point [where orig = orig]\<close>)
qed (use assms in auto)

subsection \<open>Unicode properties\<close>

lemma rule_parse_unicode_property_name:
  assumes "lexed orig p" and "\<And>x p'. lexed orig p' \<Longrightarrow> at p \<le> at p' \<Longrightarrow> Q x p'"
  shows "holds (parse_unicode_property_name px p) E Q"
  unfolding parse_unicode_property_name_def
  by (rule rule_loop [where I = "\<lambda>_ q. lexed orig q \<and> at p \<le> at q"])
    (use assms in \<open>auto simp: Let_def lexed_lexing not_EOF intro!: char_rules [where orig = orig]\<close>)

lemma rule_parse_unicode_property:
  assumes "lexed orig p" and "\<And>p'. lexed orig p' \<Longrightarrow> E p'"
    and "\<And>x p'. lexed orig p' \<Longrightarrow> at p \<le> at p' \<Longrightarrow> Q x p'"
  shows "holds (parse_unicode_property px p) E Q"
  unfolding parse_unicode_property_def
  using assms
  by (auto simp: Let_def split: option.split
      intro!: char_rules [where orig = orig] rule_parse_unicode_property_name [where orig = orig])

definition not_range :: "'p class_range \<Rightarrow> bool" where
  "not_range r \<longleftrightarrow> (\<forall>lo hi. r \<noteq> Range lo hi)"

lemma rule_parse_property_escape:
  assumes "lexed orig p" and "parser_current px p \<noteq> EOF_CHAR" and "\<And>p'. lexed orig p' \<Longrightarrow> E p'"
    and "\<And>x p'. lexed orig p' \<Longrightarrow> at p < at p' \<Longrightarrow> not_range x \<Longrightarrow> Q x p'"
  shows "holds (parse_property_escape px p) E Q"
    and "holds (parse_inverted_property_escape px p) E Q"
  unfolding parse_property_escape_def parse_inverted_property_escape_def
  using assms
  by (auto simp: Let_def error_if_property_not_allowed_def error_if_property_cannot_be_inverted_def
      not_range_def
      intro!: char_rules [where orig = orig] rule_parse_unicode_property [where orig = orig])

section \<open>Classes\<close>

lemma rule_parse_class_atom:
  assumes "lexed orig p" and "\<And>p'. lexed orig p' \<Longrightarrow> E p'"
    and "\<And>x p'. lexed orig p' \<Longrightarrow> at p < at p' \<Longrightarrow> not_range x \<Longrightarrow> Q x p'"
  shows "holds (parse_class_atom px p) E Q"
  unfolding parse_class_atom_def Let_def
proof (rule holds_if, unfold holds_and_then, rule rule_peek [where orig = orig], rule assms(1),
    intro holds_if)
qed (use assms in \<open>auto simp: not_range_def
    intro!: char_rules [where orig = orig] escape_rules [where orig = orig]
      rule_parse_property_escape [where orig = orig]\<close>)

lemma rule_class_range_between:
  assumes "lexed orig p" and "E p" and "not_range lo" and "not_range hi" and "\<And>x. Q x p"
  shows "holds (class_range_between px lo hi start_pos p) E Q"
  unfolding class_range_between_def
  using assms
  by (cases lo; cases hi) (auto simp: class_atom_to_range_bound_def not_range_def)

lemmas class_rules = rule_parse_class_atom rule_class_range_between

lemma rule_parse_standard_character_class:
  assumes "lexed orig p" and "parser_current px p \<noteq> EOF_CHAR" and "\<And>p'. lexed orig p' \<Longrightarrow> E p'"
    and "\<And>x p'. lexed orig p' \<Longrightarrow> at p < at p' \<Longrightarrow> Q x p'"
  shows "holds (parse_standard_character_class px p) E Q"
proof -
  have elements: "holds (loop (env_fuel px) (standard_class_element px) [] q) E R"
    if "lexed orig q" "\<And>x r. lexed orig r \<Longrightarrow> at q \<le> at r \<Longrightarrow> R x r" for q R
    by (rule rule_loop [where I = "\<lambda>_ r. lexed orig r \<and> at q \<le> at r"])
      (use assms(3) that in \<open>auto simp: standard_class_element_def Let_def lexed_lexing
         intro!: char_rules [where orig = orig] class_rules [where orig = orig]\<close>)
  show ?thesis
    unfolding parse_standard_character_class_def
    using assms by (auto intro!: char_rules [where orig = orig] elements)
qed

subsection \<open>Strings and reserved characters\<close>

lemma rule_class_operators:
  assumes "lexed orig p" and "\<And>x. (x \<Longrightarrow> parser_current px p \<noteq> EOF_CHAR) \<Longrightarrow> Q x p"
  shows "holds (is_at_class_intersection_operator px p) E Q"
    and "holds (is_at_class_difference_operator px p) E Q"
    and "holds (is_at_class_set_reserved_double_punctuator px p) E Q"
  unfolding is_at_class_intersection_operator_def is_at_class_difference_operator_def
    is_at_class_set_reserved_double_punctuator_def Let_def holds_and_then
  subgoal
    by (rule rule_peek [OF assms(1)], rule rule_peek [OF assms(1)], unfold holds_simps, rule assms(2)) simp
  subgoal by (rule rule_peek [OF assms(1)], unfold holds_simps, rule assms(2)) simp
  subgoal
    by (rule holds_if; (unfold holds_and_then, rule rule_peek [OF assms(1)])?; unfold holds_simps, rule assms(2))
       (simp_all add: not_EOF(6))
  done

lemma one_of_code_point: "one_of cs c \<Longrightarrow> c \<le> MAX_CODE_POINT"
  by (auto simp: one_of_def list_ex_iff)

lemma rule_parse_class_set_character_reserved_syntax:
  assumes "lexed orig p" and "\<And>p'. lexed orig p' \<Longrightarrow> E p'"
    and "\<And>c p'. lexed orig p' \<Longrightarrow> at p < at p' \<Longrightarrow> c \<le> MAX_CODE_POINT \<Longrightarrow> Q (Some c) p'"
    and "Q None p"
  shows "holds (parse_class_set_character_reserved_syntax px p) E Q"
  unfolding parse_class_set_character_reserved_syntax_def
  using assms
  by (auto simp: one_of_code_point
      intro!: char_rules [where orig = orig] rule_class_operators [where orig = orig])

lemma rule_parse_class_set_character:
  assumes "lexed orig p" and "\<And>p'. lexed orig p' \<Longrightarrow> E p'"
    and "\<And>x p'. lexed orig p' \<Longrightarrow> at p < at p' \<Longrightarrow> x \<le> MAX_CODE_POINT \<Longrightarrow> Q x p'"
  shows "holds (parse_class_set_character px p) E Q"
  unfolding parse_class_set_character_def
  using assms
  by (auto simp: control_code_point intro!: char_rules [where orig = orig]
      escape_rules [where orig = orig] rule_parse_class_set_character_reserved_syntax [where orig = orig])

lemma rule_parse_string_disjunction_alternative:
  assumes "lexed orig p" and "\<And>p'. lexed orig p' \<Longrightarrow> E p'"
    and "\<And>x p'. lexed orig p' \<Longrightarrow> at p \<le> at p' \<Longrightarrow> Q x p'"
  shows "holds (parse_string_disjunction_alternative px p) E Q"
  unfolding parse_string_disjunction_alternative_def
  by (rule rule_loop [where I = "\<lambda>_ q. lexed orig q \<and> at p \<le> at q"])
    (use assms in \<open>auto simp: lexed_lexing push_eq intro!: rule_parse_class_set_character [where orig = orig]\<close>)

lemma rule_parse_string_disjunction:
  assumes "lexed orig p" and "parser_current px p \<noteq> EOF_CHAR" and "\<And>p'. lexed orig p' \<Longrightarrow> E p'"
    and "\<And>x p'. lexed orig p' \<Longrightarrow> at p < at p' \<Longrightarrow> Q x p'"
  shows "holds (parse_string_disjunction px p) E Q"
proof -
  have elements: "holds (loop (env_fuel px) (string_disjunction_element px) acc q) E R"
    if "lexed orig q" "\<And>x r. lexed orig r \<Longrightarrow> at q \<le> at r \<Longrightarrow> R x r" for q acc R
    by (rule rule_loop [where I = "\<lambda>_ r. lexed orig r \<and> at q \<le> at r"])
      (use assms(3) that in \<open>auto simp: string_disjunction_element_def Let_def lexed_lexing
         intro!: char_rules [where orig = orig]
           rule_parse_string_disjunction_alternative [where orig = orig]\<close>)
  show ?thesis
    unfolding parse_string_disjunction_def
    using assms by (auto intro!: char_rules [where orig = orig] elements)
qed

subsection \<open>Set operations\<close>

text \<open>
  What is asked of the parser of nested classes: it works on inputs with fewer than \<open>n\<close> units left.
\<close>

definition nested_class_ok :: "nat \<Rightarrow> ('c, 's, 'src) class_parser \<Rightarrow> bool" where
  "nested_class_ok n nested \<longleftrightarrow>
     (\<forall>orig p. lexed orig p \<longrightarrow> len - at p < n \<longrightarrow> parser_current px p \<noteq> EOF_CHAR \<longrightarrow>
        holds (nested p) (lexed orig) (\<lambda>x p'. lexed orig p' \<and> at p < at p'))"

lemma rule_nested_class:
  assumes "nested_class_ok n nested" and "lexed orig p" and "len - at p < n"
    and "parser_current px p \<noteq> EOF_CHAR" and "\<And>p'. lexed orig p' \<Longrightarrow> E p'"
    and "\<And>x p'. lexed orig p' \<Longrightarrow> at p < at p' \<Longrightarrow> Q x p'"
  shows "holds (nested p) E Q"
  by (rule holds_mono [where E = "lexed orig" and Q = "\<lambda>x p'. lexed orig p' \<and> at p < at p'"])
    (use assms in \<open>auto simp: nested_class_ok_def\<close>)

lemma rule_parse_class_set_operand:
  assumes "nested_class_ok n nested" and "lexed orig p" and "len - at p < n"
    and "\<And>p'. lexed orig p' \<Longrightarrow> E p'"
    and "\<And>r may p'. lexed orig p' \<Longrightarrow> at p < at p' \<Longrightarrow> not_range r \<Longrightarrow> Q (r, may) p'"
  shows "holds (parse_class_set_operand px nested p) E Q"
  unfolding parse_class_set_operand_def
  using assms
  by (auto simp: not_range_def intro!: char_rules [where orig = orig]
      rule_nested_class [where orig = orig and n = n] rule_parse_class_atom [where orig = orig]
      rule_parse_class_set_character_reserved_syntax [where orig = orig]
      rule_parse_string_disjunction [where orig = orig])

lemma rule_parse_unicode_sets_character_class_range:
  assumes "nested_class_ok n nested" and "lexed orig p" and "len - at p < n"
    and "parser_current px p \<noteq> EOF_CHAR" and "not_range r" and "\<And>p'. lexed orig p' \<Longrightarrow> E p'"
    and "\<And>x p'. lexed orig p' \<Longrightarrow> at p < at p' \<Longrightarrow> Q x p'"
  shows "holds (parse_unicode_sets_character_class_range px nested r start_pos p) E Q"
  unfolding parse_unicode_sets_character_class_range_def
  using assms
  by (auto intro!: char_rules [where orig = orig] rule_class_range_between [where orig = orig]
      rule_parse_class_set_operand [where orig = orig and n = n])

lemmas operand_rules =
  rule_parse_class_set_operand rule_parse_unicode_sets_character_class_range

lemma rule_operand_loops:
  assumes nested: "nested_class_ok n nested" and "lexed orig p" and left: "len - at p < n"
    and E: "\<And>p'. lexed orig p' \<Longrightarrow> E p'"
  shows "(\<And>x p'. lexed orig p' \<Longrightarrow> at p \<le> at p' \<Longrightarrow> Q x p') \<Longrightarrow>
      holds (loop (env_fuel px) (intersection_operand px nested) acc p) E Q"
    and "(\<And>x p'. lexed orig p' \<Longrightarrow> at p \<le> at p' \<Longrightarrow> R x p') \<Longrightarrow>
      holds (loop (env_fuel px) (difference_operand px nested) acc' p) E R"
    and "(\<And>x p'. lexed orig p' \<Longrightarrow> at p \<le> at p' \<Longrightarrow> Q x p') \<Longrightarrow>
      holds (loop (env_fuel px) (union_operand px nested) acc p) E Q"
proof -
  have left: "len - at q < n" if "at p \<le> at q" for q using left that by simp
  show "holds (loop (env_fuel px) (intersection_operand px nested) acc p) E Q"
    if "\<And>x p'. lexed orig p' \<Longrightarrow> at p \<le> at p' \<Longrightarrow> Q x p'"
    by (rule rule_loop [where I = "\<lambda>_ q. lexed orig q \<and> at p \<le> at q"])
      (use assms(2) E left that in \<open>auto simp: intersection_operand_def lexed_lexing
         intro!: char_rules [where orig = orig] rule_class_operators [where orig = orig]
           operand_rules [OF nested, where orig = orig]\<close>)
  show "holds (loop (env_fuel px) (difference_operand px nested) acc' p) E R"
    if "\<And>x p'. lexed orig p' \<Longrightarrow> at p \<le> at p' \<Longrightarrow> R x p'"
    by (rule rule_loop [where I = "\<lambda>_ q. lexed orig q \<and> at p \<le> at q"])
      (use assms(2) E left that in \<open>auto simp: difference_operand_def lexed_lexing
         intro!: char_rules [where orig = orig] rule_class_operators [where orig = orig]
           operand_rules [OF nested, where orig = orig]\<close>)
  show "holds (loop (env_fuel px) (union_operand px nested) acc p) E Q"
    if "\<And>x p'. lexed orig p' \<Longrightarrow> at p \<le> at p' \<Longrightarrow> Q x p'"
    by (rule rule_loop [where I = "\<lambda>_ q. lexed orig q \<and> at p \<le> at q"])
      (use assms(2) E left that in \<open>auto simp: union_operand_def lexed_lexing Let_def
         intro!: char_rules [where orig = orig] operand_rules [OF nested, where orig = orig]\<close>)
qed

lemma rule_parse_class_operands:
  assumes "nested_class_ok n nested" and "lexed orig p" and "len - at p < n" and "not_range r"
    and "\<And>p'. lexed orig p' \<Longrightarrow> E p'"
    and "\<And>x p'. lexed orig p' \<Longrightarrow> at p \<le> at p' \<Longrightarrow> Q x p'"
  shows "holds (parse_class_operands px nested r may start_pos p) E Q"
  unfolding parse_class_operands_def
  using assms
  by (auto intro!: rule_class_operators [where orig = orig]
      operand_rules [OF assms(1), where orig = orig]
      rule_operand_loops [OF assms(1), where orig = orig])

lemma nested_class_ok_Suc:
  assumes "nested_class_ok n nested"
  shows "nested_class_ok (Suc n) (unicode_sets_class px nested)"
  unfolding nested_class_ok_def
proof (intro allI impI)
  fix orig p
  assume p: "lexed orig p" "len - at p < Suc n" "parser_current px p \<noteq> EOF_CHAR"
  have left: "len - at q < n" if "at p < at q" for q
    using p(2) at_less [OF lexed_lexing(2) [OF p(1)] p(3)] that by linarith
  show "holds (unicode_sets_class px nested p) (lexed orig) (\<lambda>x p'. lexed orig p' \<and> at p < at p')"
    unfolding unicode_sets_class_def Let_def
    using p(1,3)
    by (auto intro!: char_rules [where orig = orig] operand_rules [OF assms, where orig = orig]
        rule_parse_class_operands [OF assms, where orig = orig] left)
qed

lemma nested_class_ok_parser: "nested_class_ok n (parse_unicode_sets_character_class px n)"
proof (induction n)
  case (Suc n)
  have "parse_unicode_sets_character_class px (Suc n)
      = unicode_sets_class px (parse_unicode_sets_character_class px n)" by (rule ext) simp
  then show ?case using nested_class_ok_Suc [OF Suc] by simp
qed (simp add: nested_class_ok_def)

lemma rule_parse_unicode_sets_character_class:
  assumes "lexed orig p" and "parser_current px p \<noteq> EOF_CHAR" and "\<And>p'. lexed orig p' \<Longrightarrow> E p'"
    and "\<And>x p'. lexed orig p' \<Longrightarrow> at p < at p' \<Longrightarrow> Q x p'"
  shows "holds (parse_unicode_sets_character_class px (env_fuel px) p) E Q"
  using enough_fuel
  by (intro rule_nested_class [OF nested_class_ok_parser assms(1) _ assms(2-)]) auto

end

end
