(* ===== verification/Regexp_Parser_Groups.thy ===== *)
theory Regexp_Parser_Groups
  imports Regexp_Parser_Safety Regexp_Compiler_Safety
begin

text \<open>
  The parser numbers its groups and resolves its back references.  The groups of a term are listed
  in the order of their opening parentheses; \<open>grown p gs p'\<close> says that a parser has gone on from \<open>p\<close>
  to \<open>p'\<close> and has found the groups \<open>gs\<close>, numbered from where it stood.  The invariant
  \<open>parser_ok\<close> ties every back reference node to the list from which it is checked or filled in.
\<close>

declare of_char_Char [simp del]

section \<open>The groups of a tree\<close>

type_synonym group_entry = "capture_group_index \<times> wtf8_string option"

definition disjunction_concat :: "'x list disjunction \<Rightarrow> 'x list" where
  "disjunction_concat d = concat (map (\<lambda>a. concat (terms a)) (alternatives d))"

primrec term_groups :: "('p, 'r) raw_term \<Rightarrow> group_entry list" where
  "term_groups (Literal s) = []"
| "term_groups Wildcard = []"
| "term_groups (QuantifierTerm q) = quantifier_term (map_quantifier term_groups q)"
| "term_groups (AssertionTerm a) = []"
| "term_groups (LookaroundTerm l) =
     disjunction_concat (lookaround_disjunction (map_lookaround term_groups l))"
| "term_groups (CaptureGroupTerm g) =
     (group_index g, group_name g)
       # disjunction_concat (group_disjunction (map_capture_group term_groups g))"
| "term_groups (AnonymousGroupTerm g) =
     disjunction_concat (anonymous_disjunction (map_anonymous_group term_groups g))"
| "term_groups (CharacterClassTerm cc) = []"
| "term_groups (Backreference r) = []"

definition alternative_groups :: "('p, 'r) raw_term alternative \<Rightarrow> group_entry list" where
  "alternative_groups a = concat (map term_groups (terms a))"

definition disjunction_groups :: "('p, 'r) raw_term disjunction \<Rightarrow> group_entry list" where
  "disjunction_groups d = concat (map alternative_groups (alternatives d))"

lemma disjunction_concat_map [simp]:
  "disjunction_concat (map_disjunction term_groups d) = disjunction_groups d"
  by (simp add: disjunction_concat_def disjunction_groups_def alternative_groups_def [abs_def]
      disjunction.map_sel alternative.map_sel comp_def)

definition disjunction_nodes :: "('p, nat) raw_term disjunction \<Rightarrow> nat set" where
  "disjunction_nodes d = (\<Union>t \<in> set_disjunction d. set2_raw_term t)"

section \<open>The invariant\<close>

context parser_run
begin

definition nodes_ok :: "'s regexp_parser \<Rightarrow> bool" where
  "nodes_ok p \<longleftrightarrow>
     (\<forall>k < length (backreference_nodes p).
        (\<exists>pos. (backreference_nodes p ! k, pos) \<in> set (indexed_backreferences p)
           \<and> 0 < backreference_nodes p ! k)
        \<or> (\<exists>name pos. (name, pos, k) \<in> set (named_backreferences p)))
     \<and> (\<forall>(name, pos, k) \<in> set (named_backreferences p). k < length (backreference_nodes p))"

definition parser_ok :: "'s regexp_parser \<Rightarrow> bool" where
  "parser_ok p \<longleftrightarrow>
     lexing p
     \<and> capture_group_count p = length (capture_groups p)
     \<and> capture_group_count p < 0x7FFFFFFF
     \<and> (\<forall>name i. capture_group_names p name = Some i \<longrightarrow> 0 < i \<and> unat i \<le> capture_group_count p)
     \<and> nodes_ok p"

definition grown :: "'s regexp_parser \<Rightarrow> group_entry list \<Rightarrow> 's regexp_parser \<Rightarrow> bool" where
  "grown p gs p' \<longleftrightarrow>
     parser_ok p \<and> parser_ok p'
     \<and> capture_groups p' = capture_groups p @ map snd gs
     \<and> map fst gs = map word_of_nat [Suc (capture_group_count p)..<Suc (capture_group_count p')]
     \<and> length (backreference_nodes p) \<le> length (backreference_nodes p')
     \<and> group_depth p' = group_depth p"

lemma parser_ok_lexing: "parser_ok p \<Longrightarrow> lexing p"
  by (simp add: parser_ok_def)

lemma grown_refl: "parser_ok p \<Longrightarrow> grown p [] p"
  by (simp add: grown_def)

lemma grown_count: "grown p gs q \<Longrightarrow> capture_group_count q = capture_group_count p + length gs"
  by (auto simp: grown_def parser_ok_def)

lemma grown_trans:
  assumes "grown p gs q" and "grown q hs r"
  shows "grown p (gs @ hs) r"
proof -
  have le: "capture_group_count p \<le> capture_group_count q" "capture_group_count q \<le> capture_group_count r"
    using grown_count [OF assms(1)] grown_count [OF assms(2)] by simp_all
  then have "[Suc (capture_group_count p)..<Suc (capture_group_count r)] =
      [Suc (capture_group_count p)..<Suc (capture_group_count q)]
        @ [Suc (capture_group_count q)..<Suc (capture_group_count r)]"
    by (metis Suc_le_mono le_Suc_ex upt_add_eq_append)
  then show ?thesis using assms by (auto simp: grown_def)
qed

lemma lexed_fields:
  assumes "lexed p q"
  shows "capture_group_count q = capture_group_count p" and "capture_groups q = capture_groups p"
    and "capture_group_names q = capture_group_names p"
    and "backreference_nodes q = backreference_nodes p"
    and "indexed_backreferences q = indexed_backreferences p"
    and "named_backreferences q = named_backreferences p" and "group_depth q = group_depth p"
  using assms by (cases p; cases q; simp add: lexed_def)+

lemma parser_ok_lexed: "parser_ok p \<Longrightarrow> lexed p q \<Longrightarrow> parser_ok q"
  using lexed_fields [of p q] lexed_lexing [of p q] unfolding parser_ok_def nodes_ok_def by metis

lemma grown_lexed: "grown p gs q \<Longrightarrow> lexed q r \<Longrightarrow> grown p gs r"
  using parser_ok_lexed by (auto simp: grown_def lexed_fields)

lemma lexed_grown: "parser_ok p \<Longrightarrow> lexed p q \<Longrightarrow> grown q gs r \<Longrightarrow> grown p gs r"
  using grown_trans [OF grown_lexed [OF grown_refl]] by fastforce

lemma grown_ok: "grown p gs q \<Longrightarrow> parser_ok q" "grown p gs q \<Longrightarrow> parser_ok p"
  by (simp_all add: grown_def)

lemma grown_nodes: "grown p gs q \<Longrightarrow> length (backreference_nodes p) \<le> length (backreference_nodes q)"
  by (simp add: grown_def)

section \<open>New groups and back references\<close>

text \<open>One more group, with its name.\<close>

lemma grown_group:
  assumes "parser_ok p" and "Suc (capture_group_count p) < 0x7FFFFFFF"
    and "i = word_of_nat (Suc (capture_group_count p))"
    and "lexer_state q = lexer_state p" and "capture_group_count q = Suc (capture_group_count p)"
    and "capture_groups q = capture_groups p @ [name]"
    and names: "\<And>n j. capture_group_names q n = Some j \<Longrightarrow> capture_group_names p n = Some j \<or> j = i"
    and "backreference_nodes q = backreference_nodes p"
    and "indexed_backreferences q = indexed_backreferences p"
    and "named_backreferences q = named_backreferences p" and "group_depth q = group_depth p"
  shows "grown p [(i, name)] q"
proof -
  have i: "unat i = Suc (capture_group_count p)"
    using assms(2) unfolding assms(3) by (intro unat_of_nat_small) simp
  have "0 < j \<and> unat j \<le> capture_group_count q" if "capture_group_names q n = Some j" for n j
    using names [OF that]
  proof
    assume "capture_group_names p n = Some j"
    then have "0 < j \<and> unat j \<le> capture_group_count p"
      using assms(1) unfolding parser_ok_def by blast
    then show ?thesis unfolding assms(5) by linarith
  next
    assume "j = i"
    then show ?thesis using i assms(5) by (simp add: word_less_nat_alt)
  qed
  then have "parser_ok q"
    using assms by (auto simp: parser_ok_def nodes_ok_def)
  then show ?thesis using assms by (simp add: grown_def)
qed

lemma rule_next_capture_group_index:
  assumes "parser_ok p" and "\<And>p'. E p'"
    and "Suc (capture_group_count p) < 0x7FFFFFFF \<Longrightarrow>
      Q (word_of_nat (Suc (capture_group_count p)))
        (p\<lparr>capture_group_count := Suc (capture_group_count p)\<rparr>)"
  shows "holds (next_capture_group_index px error_pos p) E Q"
proof -
  have "int (capture_group_count p + 1) \<ge> 0x7FFFFFFF \<longleftrightarrow> \<not> Suc (capture_group_count p) < 0x7FFFFFFF"
    by linarith
  then show ?thesis using assms by (auto simp: next_capture_group_index_def Let_def)
qed

lemma at_eq: "lexer_state p' = lexer_state p \<Longrightarrow> at p' = at p"
  by (simp add: parser_pos_def)

lemma rule_add_named_group:
  assumes "parser_ok p" and "\<And>p'. E p'"
    and "\<And>i p'. grown p [(i, Some name)] p' \<Longrightarrow> at p' = at p \<Longrightarrow> Q i p'"
  shows "holds (add_named_group px name name_start_pos left_paren_pos p) E Q"
  unfolding add_named_group_def Let_def holds_and_then
  by (rule rule_next_capture_group_index [OF assms(1,2)], rule holds_if)
    (auto simp: assms(2) intro!: assms(3) grown_group [OF assms(1)] at_eq split: if_splits)

text \<open>A new node, with the entry by which it is checked or resolved.\<close>

lemma grown_backreference:
  assumes "parser_ok p"
  shows "0 < n \<Longrightarrow> grown p []
      (p\<lparr>indexed_backreferences := indexed_backreferences p @ [(n, start_pos)],
         backreference_nodes := backreference_nodes p @ [n]\<rparr>)"
    and "grown p []
      (p\<lparr>backreference_nodes := backreference_nodes p @ [0],
         named_backreferences := named_backreferences p
           @ [(name, start_pos, length (backreference_nodes p))]\<rparr>)"
proof -
  have "nodes_ok p" using assms by (simp add: parser_ok_def)
  then have "0 < n \<Longrightarrow> nodes_ok
      (p\<lparr>indexed_backreferences := indexed_backreferences p @ [(n, start_pos)],
         backreference_nodes := backreference_nodes p @ [n]\<rparr>)"
    and "nodes_ok
      (p\<lparr>backreference_nodes := backreference_nodes p @ [0],
         named_backreferences := named_backreferences p
           @ [(name, start_pos, length (backreference_nodes p))]\<rparr>)"
    by (auto simp: nodes_ok_def nth_append less_Suc_eq)
  then show "0 < n \<Longrightarrow> grown p []
      (p\<lparr>indexed_backreferences := indexed_backreferences p @ [(n, start_pos)],
         backreference_nodes := backreference_nodes p @ [n]\<rparr>)"
    and "grown p []
      (p\<lparr>backreference_nodes := backreference_nodes p @ [0],
         named_backreferences := named_backreferences p
           @ [(name, start_pos, length (backreference_nodes p))]\<rparr>)"
    using assms by (auto simp: grown_def parser_ok_def)
qed

lemma rule_parse_indexed_backreference:
  assumes p: "parser_ok p" "parser_current px p = ch CHR 0x5C"
    and c: "peeked p c" "one_of ''123456789'' c"
    and E: "\<And>p'. E p'"
    and Q: "\<And>k p'. grown p [] p' \<Longrightarrow> at p < at p' \<Longrightarrow> k < length (backreference_nodes p')
      \<Longrightarrow> Q (Backreference k) p'"
  shows "holds (parse_indexed_backreference px p) E Q"
proof -
  have refl: "lexed p p" by (rule lexed_refl [OF parser_ok_lexing [OF p(1)]])
  have c': "c \<noteq> ch CHR 0x5C" "is_ascii c"
    using c(2) by (auto simp: one_of_def of_char_Char is_ascii_def)
  have found: "holds
      (and_then (alloc_backreference (ucast v)
          (q\<lparr>indexed_backreferences := indexed_backreferences q @ [(ucast v, start_pos)]\<rparr>))
        (\<lambda>node. returns (Backreference node)) :: (_, 's, 'src) parsing) E Q"
    if "lexed p q" "at p < at q" "0 < v" "v \<le> 0xFFFFFFFF" for q start_pos and v :: u64
  proof -
    have "unat (ucast v :: u32) = unat v"
      using that(4) by (simp add: unat_ucast_mod word_le_nat_alt)
    then have pos: "0 < (ucast v :: u32)" using that(3) by (simp add: word_less_nat_alt)
    show ?thesis
      using lexed_grown [OF p(1) that(1) grown_backreference(1) [OF parser_ok_lexed [OF p(1) that(1)] pos]]
        that(2)
      by (auto simp: alloc_backreference_def parser_pos_def intro!: Q)
  qed
  show ?thesis
    unfolding parse_indexed_backreference_def Let_def holds_and_then
  proof (rule rule_advance_peeked [OF refl c(1)])
    fix q assume q: "lexed p q" "at p < at q" "parser_current px q = c"
    show "holds (parse_decimal_digits px q) E
       (\<lambda>index p'. holds (case index of
            None \<Rightarrow> error px (at p) InvalidBackreferenceIndex p'
          | Some n \<Rightarrow> if n \<le> 0xFFFFFFFF then
              and_then (alloc_backreference (ucast n)
                (p'\<lparr>indexed_backreferences := indexed_backreferences p' @ [(ucast n, at p)]\<rparr>))
                (\<lambda>node. returns (Backreference node))
            else error px (at p) InvalidBackreferenceIndex p') E Q)"
      proof (rule rule_parse_decimal_digits [OF q(1) E])
      fix x :: "u64 option" and p'
      assume p': "lexed p p'" "at q < at p'"
        and pos: "\<And>v. one_of ''123456789'' (parser_current px q) \<Longrightarrow> x = Some v \<Longrightarrow> 0 < v"
      show "holds (case x of
            None \<Rightarrow> error px (at p) InvalidBackreferenceIndex p'
          | Some n \<Rightarrow> if n \<le> 0xFFFFFFFF then
              and_then (alloc_backreference (ucast n)
                (p'\<lparr>indexed_backreferences := indexed_backreferences p' @ [(ucast n, at p)]\<rparr>))
                (\<lambda>node. returns (Backreference node))
            else error px (at p) InvalidBackreferenceIndex p') E Q"
      proof (cases x)
        case (Some v)
        have "0 < v" using pos [OF _ Some] q(3) c(2) by simp
        then show ?thesis
          using found [OF p'(1), of v "at p"] q(2) p'(2) by (simp only: Some option.case) (simp add: E)
      qed (simp add: E)
    qed
  qed (use p(2) c' in auto)
qed

lemma rule_parse_named_backreference:
  assumes p: "parser_ok p" "parser_current px p = ch CHR 0x5C"
    and E: "\<And>p'. E p'"
    and Q: "\<And>k p'. grown p [] p' \<Longrightarrow> at p < at p' \<Longrightarrow> k < length (backreference_nodes p')
      \<Longrightarrow> Q (Backreference k) p'"
  shows "holds (parse_named_backreference px p) E Q"
proof -
  have refl: "lexed p p" by (rule lexed_refl [OF parser_ok_lexing [OF p(1)]])
  have found: "Q (Backreference (length (backreference_nodes q)))
      (q\<lparr>backreference_nodes := backreference_nodes q @ [0],
         named_backreferences := named_backreferences q
           @ [(name, start_pos, length (backreference_nodes q))]\<rparr>)"
    if "lexed p q" "at p < at q" for q name start_pos
    using lexed_grown [OF p(1) that(1) grown_backreference(2) [OF parser_ok_lexed [OF p(1) that(1)]]]
      that(2)
    by (auto simp: parser_pos_def intro!: Q)
  show ?thesis
    unfolding parse_named_backreference_def Let_def holds_and_then
    by (rule rule_advance(2) [OF refl], simp add: p(2), rule rule_expect [where orig = p], assumption,
        rule E, rule rule_parse_identifier [where orig = p], assumption, rule E,
        rule rule_expect [where orig = p], assumption, rule E, simp add: alloc_backreference_def)
      (rule found; simp)
qed

section \<open>Groups\<close>

text \<open>
  A term or a disjunction was read between \<open>p\<close> and \<open>p'\<close>: the new groups are those of the tree, and
  the nodes it refers to exist.
\<close>

definition nodes_below :: "nat set \<Rightarrow> 's regexp_parser \<Rightarrow> bool" where
  "nodes_below ks p \<longleftrightarrow> (\<forall>k \<in> ks. k < length (backreference_nodes p))"

definition term_found :: "'s regexp_parser \<Rightarrow> 'c parsed_term \<Rightarrow> 's regexp_parser \<Rightarrow> bool" where
  "term_found p t p' \<longleftrightarrow>
     grown p (term_groups t) p' \<and> at p < at p' \<and> nodes_below (set2_raw_term t) p'"

definition disjunction_found ::
  "'s regexp_parser \<Rightarrow> 'c parsed_term disjunction \<Rightarrow> 's regexp_parser \<Rightarrow> bool" where
  "disjunction_found p d p' \<longleftrightarrow>
     grown p (disjunction_groups d) p' \<and> at p \<le> at p' \<and> nodes_below (disjunction_nodes d) p'"

definition nested_ok :: "nat \<Rightarrow> ('c, 's, 'src) disjunction_parser \<Rightarrow> bool" where
  "nested_ok n nested \<longleftrightarrow>
     (\<forall>p. parser_ok p \<longrightarrow> len - at p < n \<longrightarrow> holds (nested p) (\<lambda>_. True) (\<lambda>d p'. disjunction_found p d p'))"

lemma nodes_below_mono:
  "nodes_below ks p \<Longrightarrow> length (backreference_nodes p) \<le> length (backreference_nodes q) \<Longrightarrow> nodes_below ks q"
  by (auto simp: nodes_below_def)

lemma nodes_below_lexed: "nodes_below ks p \<Longrightarrow> lexed p q \<Longrightarrow> nodes_below ks q"
  by (simp add: nodes_below_def lexed_fields)

lemma disjunction_found_later:
  assumes "grown p gs q" and "at p < at q" and "disjunction_found q d r"
  shows "grown p (gs @ disjunction_groups d) r \<and> at p < at r \<and> nodes_below (disjunction_nodes d) r"
  using assms grown_trans by (auto simp: disjunction_found_def)

lemma rule_parse_group_body:
  assumes nested: "nested_ok n nested" and p: "parser_ok p" and left: "len - at p < n"
    and E: "\<And>p'. E p'" and Q: "\<And>d p'. disjunction_found p d p' \<Longrightarrow> Q d p'"
  shows "holds (parse_group_body px nested p) E Q"
  unfolding parse_group_body_def holds_and_then
proof (rule holds_mono [where E = "\<lambda>_. True" and Q = "disjunction_found p"])
  show "holds (nested p) (\<lambda>_. True) (disjunction_found p)"
    using nested p left by (simp add: nested_ok_def)
  fix d q assume d: "disjunction_found p d q"
  have "lexed q q"
    using d grown_ok(1) lexed_refl parser_ok_lexing unfolding disjunction_found_def by blast
  then show "holds (expect px CHR '')'' q) E (\<lambda>x r. holds (returns d r) E Q)"
  proof (rule rule_expect)
    fix r assume r: "lexed q r" "at q < at r"
    have "disjunction_found p d r"
      using d r grown_lexed nodes_below_lexed unfolding disjunction_found_def by fastforce
    then show "holds (returns d r) E Q" by (simp add: Q)
  qed (rule E)
qed (rule E)

lemma found_wrapped:
  assumes "at p < at q" and "nodes_below (disjunction_nodes d) q"
  shows "grown p (disjunction_groups d) q \<Longrightarrow> term_found p (LookaroundTerm (Lookaround ahead positive d)) q"
    and "grown p (disjunction_groups d) q \<Longrightarrow> term_found p (AnonymousGroupTerm (AnonymousGroup d add del)) q"
    and "grown p ((i, name) # disjunction_groups d) q \<Longrightarrow>
      term_found p (CaptureGroupTerm (CaptureGroup name i d)) q"
  using assms by (simp_all add: term_found_def disjunction_nodes_def)

text \<open>A group body behind its prefix, which was read from \<open>p\<close> to \<open>q\<close>.\<close>

lemma rule_prefixed_group:
  assumes nested: "nested_ok n nested" and q: "grown p gs q" "at p < at q" and left: "len - at p < Suc n"
    and bound: "at p < len" and E: "\<And>p'. E p'"
    and Q: "\<And>d p'. grown p (gs @ disjunction_groups d) p' \<Longrightarrow> at p < at p' \<Longrightarrow>
      nodes_below (disjunction_nodes d) p' \<Longrightarrow> Q d p'"
  shows "holds (parse_group_body px nested q) E Q"
proof (rule rule_parse_group_body [OF nested grown_ok(1) [OF q(1)] _ E])
  show "len - at q < n" using q(2) left bound by linarith
qed (use disjunction_found_later [OF q] Q in blast)

lemma grown_later: "parser_ok p \<Longrightarrow> lexed p q \<Longrightarrow> grown p [] q"
  by (rule grown_lexed [OF grown_refl])

lemma rule_parse_lookaround:
  assumes nested: "nested_ok n nested" and p: "parser_ok p" "lexed p q" and left: "len - at p < Suc n"
    and current: "parser_current px q \<noteq> EOF_CHAR" and le: "at p \<le> at q" and E: "\<And>p'. E p'"
    and Q: "\<And>t p'. term_found p t p' \<Longrightarrow> Q t p'"
  shows "holds (parse_lookaround px nested ahead positive q) E Q"
  unfolding parse_lookaround_def holds_and_then
proof (rule rule_advance [OF p(2) current])
  fix r assume r: "lexed p r" "at q < at r"
  have bound: "at p < len" using at_less [OF lexed_lexing(2) [OF p(2)] current] le by linarith
  show "holds (parse_group_body px nested r) E
      (\<lambda>d p'. holds (returns (LookaroundTerm (Lookaround ahead positive d)) p') E Q)"
    by (rule rule_prefixed_group [OF nested grown_later [OF p(1) r(1)] _ left bound E])
      (use r(2) le in \<open>auto intro!: Q found_wrapped\<close>)
qed

lemma rule_parse_modifiers:
  assumes "lexed orig p" and "\<And>p'. lexed orig p' \<Longrightarrow> E p'"
    and "\<And>x p'. lexed orig p' \<Longrightarrow> at p \<le> at p' \<Longrightarrow> Q x p'"
  shows "holds (parse_modifiers px p) E Q"
  unfolding parse_modifiers_def
  by (rule rule_loop [where I = "\<lambda>_ q. lexed orig q \<and> at p \<le> at q"])
    (use assms in \<open>auto simp: lexed_lexing not_EOF(5) split: option.split
       intro!: char_rules [where orig = orig]\<close>)

lemma rule_parse_group_modifiers:
  assumes "lexed orig p" and "\<And>p'. lexed orig p' \<Longrightarrow> E p'"
    and "\<And>x p'. lexed orig p' \<Longrightarrow> at p < at p' \<Longrightarrow> Q x p'"
  shows "holds (parse_group_modifiers px p) E Q"
  unfolding parse_group_modifiers_def
  using assms
  by (auto simp: Let_def intro!: char_rules [where orig = orig] rule_parse_modifiers [where orig = orig])

lemma rule_parse_modifier_group:
  assumes nested: "nested_ok n nested" and p: "parser_ok p" "lexed p q" and left: "len - at p < Suc n"
    and bound: "at p < len" and le: "at p \<le> at q" and E: "\<And>p'. E p'"
    and Q: "\<And>t p'. term_found p t p' \<Longrightarrow> Q t p'"
  shows "holds (parse_modifier_group px nested q) E Q"
  unfolding parse_modifier_group_def holds_and_then
proof (rule rule_parse_group_modifiers [OF p(2) E], clarsimp)
  fix positive negative r assume r: "lexed p r" "at q < at r"
  show "holds (parse_group_body px nested r) E
      (\<lambda>d p'. Q (AnonymousGroupTerm (AnonymousGroup d positive negative)) p')"
    by (rule rule_prefixed_group [OF nested grown_later [OF p(1) r(1)] _ left bound E])
      (use r(2) le in \<open>auto intro!: Q found_wrapped\<close>)
qed

lemma rule_parse_unnamed_group:
  assumes nested: "nested_ok n nested" and p: "parser_ok p" "lexed p q" and left: "len - at p < Suc n"
    and bound: "at p < len" and le: "at p < at q" and E: "\<And>p'. E p'"
    and Q: "\<And>t p'. term_found p t p' \<Longrightarrow> Q t p'"
  shows "holds (parse_unnamed_group px nested left_paren_pos q) E Q"
  unfolding parse_unnamed_group_def holds_and_then
proof (rule rule_next_capture_group_index [OF parser_ok_lexed [OF p] E])
  let ?i = "word_of_nat (Suc (capture_group_count q))"
  let ?q = "q\<lparr>capture_group_count := Suc (capture_group_count q),
    capture_groups := capture_groups q @ [None]\<rparr>"
  assume small: "Suc (capture_group_count q) < 0x7FFFFFFF"
  have "grown q [(?i, None)] ?q"
    by (rule grown_group [OF parser_ok_lexed [OF p] small]) simp_all
  then have new: "grown p [(?i, None)] ?q" by (rule lexed_grown [OF p])
  have "holds (parse_group_body px nested ?q) E
      (\<lambda>d p'. holds (returns (CaptureGroupTerm (CaptureGroup None ?i d)) p') E Q)"
    by (rule rule_prefixed_group [OF nested new _ left bound E])
      (use le in \<open>auto simp: parser_pos_def intro!: Q found_wrapped(3)\<close>)
  then show "holds
      (parse_group_body px nested
        (q\<lparr>capture_group_count := Suc (capture_group_count q)\<rparr>
          \<lparr>capture_groups := capture_groups (q\<lparr>capture_group_count := Suc (capture_group_count q)\<rparr>)
             @ [None]\<rparr>)) E
      (\<lambda>d p'. holds (returns (CaptureGroupTerm (CaptureGroup None ?i d)) p') E Q)"
    by simp
qed

lemma rule_parse_named_group:
  assumes nested: "nested_ok n nested" and p: "parser_ok p" "lexed p q" and left: "len - at p < Suc n"
    and bound: "at p < len" and le: "at p < at q" and E: "\<And>p'. E p'"
    and Q: "\<And>t p'. term_found p t p' \<Longrightarrow> Q t p'"
  shows "holds (parse_named_group px nested left_paren_pos q) E Q"
  unfolding parse_named_group_def Let_def holds_and_then
proof (rule rule_parse_identifier [OF p(2) E], rule rule_expect [where orig = p], assumption, rule E)
  fix name r v assume v: "lexed p v" "at q < at r" "at r < at v"
  show "holds (add_named_group px name (at q) left_paren_pos v) E
     (\<lambda>i p'. holds (parse_group_body px nested p') E
        (\<lambda>d p'. holds (if \<not> parse_named_capture_groups p'
            then error px (at p') NamedCaptureGroupEncountered p'
            else returns (CaptureGroupTerm (CaptureGroup (Some name) i d)) p') E Q))"
  proof (rule rule_add_named_group [OF parser_ok_lexed [OF p(1) v(1)] E])
    fix i w assume w: "grown v [(i, Some name)] w" "at w = at v"
    show "holds (parse_group_body px nested w) E
        (\<lambda>d p'. holds (if \<not> parse_named_capture_groups p'
            then error px (at p') NamedCaptureGroupEncountered p'
            else returns (CaptureGroupTerm (CaptureGroup (Some name) i d)) p') E Q)"
      by (rule rule_prefixed_group [OF nested lexed_grown [OF p(1) v(1) w(1)] _ left bound E])
        (use w(2) v le E in \<open>auto intro!: Q found_wrapped(3)\<close>)
  qed
qed

lemma rule_parse_group:
  assumes nested: "nested_ok n nested" and p: "parser_ok p" and left: "len - at p < Suc n"
    and current: "parser_current px p \<noteq> EOF_CHAR" and E: "\<And>p'. E p'"
    and Q: "\<And>t p'. term_found p t p' \<Longrightarrow> Q t p'"
  shows "holds (parse_group px nested p) E Q"
proof -
  have refl: "lexed p p" by (rule lexed_refl [OF parser_ok_lexing [OF p]])
  have bound: "at p < len" by (rule at_less [OF parser_ok_lexing [OF p] current])
  have group: "holds (parse_group_body px nested q) E
      (\<lambda>d p'. Q (AnonymousGroupTerm (AnonymousGroup d 0 0)) p')"
    if q: "lexed p q" "at p < at q" for q
    by (rule rule_prefixed_group [OF nested grown_later [OF p q(1)] q(2) left bound E], rule Q)
      (auto intro: found_wrapped(2))
  show ?thesis
    unfolding parse_group_def Let_def
    by (auto simp: E refl current not_EOF(6) intro!: char_rules [where orig = p] group
        rule_parse_lookaround [OF nested p _ left _ _ E Q]
        rule_parse_modifier_group [OF nested p _ left bound _ E Q]
        rule_parse_named_group [OF nested p _ left bound _ E Q]
        rule_parse_unnamed_group [OF nested p _ left bound _ E Q])
qed

section \<open>Terms\<close>

text \<open>Terms without groups and without back references.\<close>

lemma found_plain:
  assumes "parser_ok p" and "lexed p q" and "at p < at q"
  shows "term_groups t = [] \<Longrightarrow> set2_raw_term t = {} \<Longrightarrow> term_found p t q"
  using grown_later [OF assms(1,2)] assms(3) by (simp add: term_found_def nodes_below_def)

lemma rule_parse_literal_code_point:
  assumes "holds r E (\<lambda>c p. c \<le> MAX_CODE_POINT \<and> (\<forall>s. Q (Literal s) p))"
  shows "holds (parse_literal_code_point px r) E Q"
  unfolding parse_literal_code_point_def holds_and_then
  by (rule holds_mono [OF assms]) (auto simp: from_code_point_in_def push_eq)

lemma rule_parse_escaped_term:
  assumes p: "parser_ok p" and current: "parser_current px p = ch CHR 0x5C"
    and E: "\<And>p'. E p'" and Q: "\<And>t p'. term_found p t p' \<Longrightarrow> Q t p'"
  shows "holds (parse_escaped_term px p) E Q"
proof -
  have refl: "lexed p p" by (rule lexed_refl [OF parser_ok_lexing [OF p]])
  have not_EOF: "parser_current px p \<noteq> EOF_CHAR" by (simp add: current)
  have Q_plain: "Q t q" if "lexed p q" "at p < at q" "term_groups t = []" "set2_raw_term t = {}" for t q
    using found_plain [OF p] that by (intro Q) auto
  have Q_reference: "Q (Backreference k) q"
    if "grown p [] q" "at p < at q" "k < length (backreference_nodes q)" for k q
    using that by (intro Q) (simp add: term_found_def nodes_below_def)
  have skip: "holds (and_then (advance2 px p) (\<lambda>_. returns t)) E Q"
    if "term_groups t = []" "set2_raw_term t = {}" for t
    using that by (auto simp: refl not_EOF intro!: char_rules [where orig = p] Q_plain)
  have property: "holds (and_then (parse_property_escape px p) (\<lambda>range. returns
      (CharacterClassTerm (character_class_from_shorthand range)))) E Q"
    and inverted: "holds (and_then (parse_inverted_property_escape px p) (\<lambda>range. returns
      (CharacterClassTerm (character_class_from_shorthand range)))) E Q"
    by (auto simp: refl not_EOF intro!: rule_parse_property_escape [where orig = p] Q_plain E)
  have escape: "holds (parse_literal_code_point px (parse_regexp_escape_sequence px p)) E Q"
    by (rule rule_parse_literal_code_point, rule rule_parse_regexp_escape_sequence [OF refl not_EOF])
      (auto intro!: Q_plain E)
  show ?thesis
    unfolding parse_escaped_term_def Let_def holds_and_then [of "peek px p"]
    by (rule rule_peek_ahead [OF refl], intro holds_if skip escape property inverted)
      (auto intro!: rule_parse_indexed_backreference [OF p current _ _ E] Q_reference
        rule_parse_named_backreference [OF p current E])
qed

lemma parser_ok_depth [simp]: "parser_ok (p\<lparr>group_depth := d\<rparr>) \<longleftrightarrow> parser_ok p"
  by (simp add: parser_ok_def nodes_ok_def)

lemma grown_depth:
  assumes "grown (p\<lparr>group_depth := Suc d\<rparr>) gs q" and "group_depth p = d"
  shows "group_depth q = Suc d" and "grown p gs (q\<lparr>group_depth := d\<rparr>)"
  using assms by (simp_all add: grown_def)

lemma found_depth:
  assumes "term_found (p\<lparr>group_depth := Suc (group_depth p)\<rparr>) t q"
  shows "group_depth q = Suc (group_depth p)"
    and "term_found p t (q\<lparr>group_depth := group_depth p\<rparr>)"
  using assms grown_depth [where p = p and d = "group_depth p"]
  by (auto simp: term_found_def nodes_below_def parser_pos_def)

lemma rule_parse_atom:
  assumes nested: "nested_ok n nested" and p: "parser_ok p" and left: "len - at p < Suc n"
    and E: "\<And>p'. E p'" and Q: "\<And>t p'. term_found p t p' \<Longrightarrow> Q t p'"
  shows "holds (parse_atom px nested p) E Q"
proof -
  have refl: "lexed p p" by (rule lexed_refl [OF parser_ok_lexing [OF p]])
  have Q_plain: "Q t q" if "lexed p q" "at p < at q" "term_groups t = []" "set2_raw_term t = {}" for t q
    using found_plain [OF p] that by (intro Q) auto
  have skip: "holds (and_then (advance px p) (\<lambda>_. returns t)) E Q"
    if "parser_current px p = ch c" "term_groups t = []" "set2_raw_term t = {}" for t c
    using that by (auto simp: refl intro!: char_rules [where orig = p] Q_plain)
  let ?p = "p\<lparr>group_depth := Suc (group_depth p)\<rparr>"
  have ok: "parser_ok ?p" using p by simp
  have group: "holds (parse_group px nested ?p) E
      (\<lambda>t q. \<exists>d. checked_sub (group_depth q) 1 = Some d \<and> Q t (q\<lparr>group_depth := d\<rparr>))"
    if "parser_current px p = ch CHR ''(''"
    by (rule rule_parse_group [OF nested ok _ _ E])
      (use left that found_depth in \<open>auto simp: parser_pos_def parser_current_def intro!: Q\<close>)
  have character: "holds (parse_literal_code_point px (parse_unicode_codepoint px p)) E Q"
    by (rule rule_parse_literal_code_point, rule rule_parse_unicode_codepoint [OF refl])
      (auto intro!: Q_plain E)
  show ?thesis
    unfolding parse_atom_def Let_def
  proof (intro holds_if character skip)
  qed (use group in \<open>auto simp: refl intro!: E Q_plain rule_parse_unicode_sets_character_class [where orig = p]
       rule_parse_standard_character_class [where orig = p] rule_parse_escaped_term [OF p _ E Q]\<close>)
qed

section \<open>Quantifiers\<close>

lemma rule_parse_braced_quantifier:
  assumes "lexed orig p" and "parser_current px p \<noteq> EOF_CHAR" and "\<And>p'. lexed orig p' \<Longrightarrow> E p'"
    and "\<And>x p'. lexed orig p' \<Longrightarrow> at p < at p' \<Longrightarrow> Q x p'"
  shows "holds (parse_braced_quantifier px p) E Q"
  unfolding parse_braced_quantifier_def Let_def
  using assms
  by (auto split: option.split intro!: char_rules [where orig = orig]
      rule_parse_decimal_digits [where orig = orig])

lemma rule_parse_quantifier_bounds:
  assumes p: "lexed orig p" and E: "\<And>p'. E p'"
    and Q: "\<And>x p'. lexed orig p' \<Longrightarrow> at p \<le> at p' \<Longrightarrow> Q x p'"
  shows "holds (parse_quantifier_bounds px p) E Q"
proof -
  let ?checked = "\<lambda>(lower_bound, upper_bound) q.
    case upper_bound of
      Some u \<Rightarrow>
        if lower_bound > u then error px (at p) InvalidQuantifierBounds q
        else returns (Some (lower_bound, upper_bound)) q
    | None \<Rightarrow> returns (Some (lower_bound, upper_bound)) q"
  have checked: "holds (?checked bounds q) E Q" if "lexed orig q" "at p < at q" for bounds q
    using that by (cases bounds; cases "snd bounds") (auto simp: E intro!: Q)
  have braced: "holds (case parse_braced_quantifier px p of
        Inl fault \<Rightarrow> Inl fault
      | Inr (Inr bounds, q) \<Rightarrow> ?checked bounds q
      | Inr (Inl _, q) \<Rightarrow> returns None (restore px (save px p) q)) E Q"
    if "parser_current px p = ch CHR ''{''"
  proof -
    have "holds (parse_braced_quantifier px p) (lexed orig) (\<lambda>_ q. lexed orig q \<and> at p < at q)"
      by (rule rule_parse_braced_quantifier [OF p]) (auto simp: that)
    then show ?thesis
    proof (cases rule: holds_cases)
      case (Error e q)
      then show ?thesis by (simp add: restore_saved [OF p] Q p)
    next
      case (Value x q)
      then show ?thesis using checked by simp
    qed
  qed
  have brace: "holds (and_then (parse_braced_quantifier px p) ?checked) E Q"
    if "parser_current px p = ch CHR ''{''"
    unfolding holds_and_then
    by (rule rule_parse_braced_quantifier [OF p _ E checked]) (simp_all add: that)
  show ?thesis
    unfolding parse_quantifier_bounds_def Let_def
    by (intro holds_if braced brace) (auto intro!: Q rule_advance [OF p] simp: p)
qed

lemma found_lexed: "term_found p t q \<Longrightarrow> lexed q r \<Longrightarrow> at q \<le> at r \<Longrightarrow> term_found p t r"
  using grown_lexed nodes_below_lexed unfolding term_found_def by fastforce

lemma rule_parse_quantifier:
  assumes t: "term_found p t q" and E: "\<And>p'. E p'" and Q: "\<And>t p'. term_found p t p' \<Longrightarrow> Q t p'"
  shows "holds (parse_quantifier px t q) E Q"
proof -
  have refl: "lexed q q"
    using t grown_ok(1) lexed_refl parser_ok_lexing unfolding term_found_def by blast
  have Q': "Q t r" "Q (QuantifierTerm (Quantifier t lo hi greedy)) r"
    if "lexed q r" "at q \<le> at r" for r lo hi greedy
    using found_lexed [OF t that] by (auto intro!: Q simp: term_found_def)
  show ?thesis
    unfolding parse_quantifier_def Let_def holds_and_then
  proof (rule rule_parse_quantifier_bounds [OF refl E])
    fix bounds r assume r: "lexed q r" "at q \<le> at r"
    show "holds (case bounds of
         None \<Rightarrow> returns t r
       | Some (lower, upper) \<Rightarrow>
           and_then (eat px CHR ''?'' r) (\<lambda>lazy p.
           if quantifiable (is_unicode_aware p) t
           then returns (QuantifierTerm (Quantifier t (unat lower) (map_option unat upper) (\<not> lazy))) p
           else error px (at q) NonQuantifiableAssertion p)) E Q"
      using r by (auto simp: E split: option.split intro!: Q' rule_eat [where orig = q])
  qed
qed

lemma rule_parse_term:
  assumes "nested_ok n nested" and "parser_ok p" and "len - at p < Suc n"
    and "\<And>p'. E p'" and "\<And>t p'. term_found p t p' \<Longrightarrow> Q t p'"
  shows "holds (parse_term px nested p) E Q"
  unfolding parse_term_def holds_and_then
  by (rule rule_parse_atom [OF assms(1-4)]) (rule rule_parse_quantifier [OF _ assms(4,5)])

section \<open>Alternatives and disjunctions\<close>

definition terms_found :: "'s regexp_parser \<Rightarrow> 'c parsed_term list \<Rightarrow> 's regexp_parser \<Rightarrow> bool" where
  "terms_found p ts q \<longleftrightarrow>
     grown p (concat (map term_groups ts)) q \<and> at p \<le> at q
     \<and> nodes_below (\<Union>t \<in> set ts. set2_raw_term t) q"

lemma terms_found_push:
  assumes "terms_found p (fst acc) q" and "term_found q t r"
  shows "terms_found p (fst (push_term acc t)) r"
proof -
  have "concat (map term_groups (fst (push_term acc t))) = concat (map term_groups (fst acc)) @ term_groups t"
    by (cases acc; cases t) auto
  moreover have "(\<Union>t \<in> set (fst (push_term acc t)). set2_raw_term t)
      = (\<Union>t \<in> set (fst acc). set2_raw_term t) \<union> set2_raw_term t"
    by (cases acc; cases t) auto
  ultimately show ?thesis
    using assms grown_trans nodes_below_mono grown_nodes
    unfolding terms_found_def term_found_def by (fastforce simp: nodes_below_def)
qed

lemma terms_found_finish: "terms_found p (fst acc) q \<Longrightarrow> terms_found p (finish_terms acc) q"
  by (cases acc) (auto simp: terms_found_def finish_terms_def)

lemma rule_parse_alternative:
  assumes nested: "nested_ok n nested" and p: "parser_ok p" and left: "len - at p < Suc n"
    and E: "\<And>p'. E p'" and Q: "\<And>ts p'. terms_found p ts p' \<Longrightarrow> Q (Alternative ts) p'"
  shows "holds (parse_alternative px nested p) E Q"
  unfolding parse_alternative_def holds_and_then
proof (rule rule_loop [where I = "\<lambda>acc q. terms_found p (fst acc) q"])
  show "terms_found p (fst ([], [])) p"
    using grown_refl [OF p] by (simp add: terms_found_def nodes_below_def)
  fix acc :: "'c parsed_term list \<times> wtf8_string" and q
  assume acc: "terms_found p (fst acc) q"
  then have q: "parser_ok q" "at p \<le> at q" using grown_ok by (auto simp: terms_found_def)
  then show "lexing q" by (simp add: parser_ok_lexing)
  have left': "len - at q < Suc n" using left q(2) by linarith
  show "holds (parse_alternative_term px nested acc q) E
      (\<lambda>f p'. case f of Continue y \<Rightarrow> terms_found p (fst y) p' \<and> at q < at p'
        | Break y \<Rightarrow> holds (returns (Alternative (finish_terms y)) p') E Q)"
    unfolding parse_alternative_term_def Let_def holds_and_then
    using acc terms_found_push [OF acc]
    by (intro holds_if)
      (auto simp: E term_found_def intro!: Q terms_found_finish rule_parse_term [OF nested q(1) left' E])
qed

lemma parser_ok_scope [simp]:
  "parser_ok (p\<lparr>current_capture_group_names := ns, current_capture_group_name_scope := sc\<rparr>) \<longleftrightarrow> parser_ok p"
  "parser_ok (p\<lparr>current_capture_group_name_scope := sc\<rparr>) \<longleftrightarrow> parser_ok p"
  "parser_ok (p\<lparr>current_capture_group_names := ns\<rparr>) \<longleftrightarrow> parser_ok p"
  by (simp_all add: parser_ok_def nodes_ok_def)

text \<open>Names going in and out of scope change nothing of what is found.\<close>

lemma found_scope:
  "terms_found (snd (enter_name_scope p)) ts q \<Longrightarrow> terms_found p ts (leave_name_scope sc q)"
  by (simp add: terms_found_def grown_def nodes_below_def enter_name_scope_def leave_name_scope_def
      parser_pos_def)

definition alternatives_found ::
  "'s regexp_parser \<Rightarrow> 'c parsed_term alternative list \<Rightarrow> 's regexp_parser \<Rightarrow> bool" where
  "alternatives_found p alts q \<longleftrightarrow> disjunction_found p (Disjunction alts) q"

lemma alternatives_found_push:
  assumes "alternatives_found p alts q" and "terms_found q ts r"
  shows "alternatives_found p (alts @ [Alternative ts]) r"
  using assms grown_trans [of p _ q] grown_nodes [of q _ r]
  by (fastforce simp: alternatives_found_def disjunction_found_def terms_found_def disjunction_groups_def
      disjunction_nodes_def alternative_groups_def nodes_below_def)

lemma alternatives_found_lexed:
  "alternatives_found p alts q \<Longrightarrow> lexed q r \<Longrightarrow> at q \<le> at r \<Longrightarrow> alternatives_found p alts r"
  using grown_lexed nodes_below_lexed
  unfolding alternatives_found_def disjunction_found_def by fastforce

lemma alternatives_found_empty:
  "alternatives_found p alts q \<Longrightarrow> alternatives_found p (alts @ [Alternative []]) q"
  by (simp add: alternatives_found_def disjunction_found_def disjunction_groups_def
      disjunction_nodes_def alternative_groups_def)

lemma rule_parse_disjunction_alternative:
  assumes nested: "nested_ok n nested" and p: "parser_ok p" and left: "len - at p < Suc n"
    and alts: "alternatives_found orig alts p" and E: "\<And>p'. E p'"
  shows "holds (parse_disjunction_alternative px nested alts p) E
     (\<lambda>f p'. case f of Continue y \<Rightarrow> alternatives_found orig y p' \<and> at p < at p'
        | Break y \<Rightarrow> alternatives_found orig y p')"
proof -
  let ?p = "snd (enter_name_scope p)"
  have ok: "parser_ok ?p" and at: "at ?p = at p"
    using p by (simp_all add: enter_name_scope_def parser_pos_def)
  show ?thesis
    unfolding parse_disjunction_alternative_def Let_def case_prod_unfold holds_and_then
  proof (rule rule_parse_alternative [OF nested ok _ E])
    fix ts q assume "terms_found ?p ts q"
    then have found: "terms_found p ts (leave_name_scope sc q)" for sc by (rule found_scope)
    let ?q = "leave_name_scope (fst (enter_name_scope p)) q"
    have q: "alternatives_found orig (alts @ [Alternative ts]) ?q" "parser_ok ?q" "at p \<le> at ?q"
      using alternatives_found_push [OF alts found] found [of "fst (enter_name_scope p)"] grown_ok
      by (auto simp: terms_found_def)
    have refl: "lexed ?q ?q" by (rule lexed_refl [OF parser_ok_lexing [OF q(2)]])
    show "holds (eat px CHR ''|'' ?q) E (\<lambda>bar p'. holds
       (if \<not> bar then returns (Break (alts @ [Alternative ts])) p'
        else if parser_is_end px p'
        then returns (Break ((alts @ [Alternative ts]) @ [Alternative []])) p'
        else returns (Continue (alts @ [Alternative ts])) p') E
       (\<lambda>f p'. case f of Continue y \<Rightarrow> alternatives_found orig y p' \<and> at p < at p'
        | Break y \<Rightarrow> alternatives_found orig y p'))"
      using q alternatives_found_lexed [OF q(1)] alternatives_found_empty [of orig "alts @ [Alternative ts]"]
      by (intro rule_eat [OF refl]) auto
  qed (use left at in simp)
qed

lemma nested_ok_Suc:
  assumes "nested_ok n (parse_disjunction px n)"
  shows "nested_ok (Suc n) (parse_disjunction px (Suc n))"
  unfolding nested_ok_def
proof (intro allI impI)
  fix p assume p: "parser_ok p" "len - at p < Suc n"
  have start: "alternatives_found p [] p"
    using grown_refl [OF p(1)]
    by (simp add: alternatives_found_def disjunction_found_def disjunction_groups_def
        disjunction_nodes_def nodes_below_def)
  show "holds (parse_disjunction px (Suc n) p) (\<lambda>_. True) (disjunction_found p)"
    unfolding parse_disjunction.simps holds_and_then
  proof (rule rule_loop [where I = "alternatives_found p"], rule start)
    fix alts q assume alts: "alternatives_found p alts q"
    then have q: "parser_ok q" "at p \<le> at q"
      using grown_ok by (auto simp: alternatives_found_def disjunction_found_def)
    then show "lexing q" by (simp add: parser_ok_lexing)
    have "len - at q < Suc n" using p(2) q(2) by linarith
    then show "holds (parse_disjunction_alternative px (parse_disjunction px n) alts q) (\<lambda>_. True)
       (\<lambda>f p'. case f of Continue y \<Rightarrow> alternatives_found p y p' \<and> at q < at p'
          | Break y \<Rightarrow> holds (returns (Disjunction y) p') (\<lambda>_. True) (disjunction_found p))"
      unfolding holds_simps alternatives_found_def [symmetric]
      by (intro rule_parse_disjunction_alternative [OF assms q(1) _ alts]) auto
  qed
qed

lemma nested_ok_parse_disjunction: "nested_ok n (parse_disjunction px n)"
proof (induction n)
  case (Suc n)
  then show ?case by (rule nested_ok_Suc)
qed (simp add: nested_ok_def)

end

end
