(* ===== verification/Regexp_Parser_Correct.thy ===== *)
theory Regexp_Parser_Correct
  imports Regexp_Parser_Groups
begin

text \<open>
  The whole parser: what \<open>resolve_backreferences\<close> leaves in the nodes, and that every pattern that is
  accepted satisfies the hypothesis under which compiled bytecode is well-formed, with its groups numbered
  in the order of their opening parentheses.
\<close>

section \<open>Finished trees\<close>

lemma group_lists_read:
  "term_groups (map_raw_term id f t) = term_groups t"
proof (induction t)
  case (QuantifierTerm q)
  then show ?case by (cases q) simp
next
  case (LookaroundTerm l)
  then show ?case by (cases l) (simp add: disjunction.map_comp comp_def cong: disjunction.map_cong_simp)
next
  case (CaptureGroupTerm g)
  then show ?case by (cases g) (simp add: disjunction.map_comp comp_def cong: disjunction.map_cong_simp)
next
  case (AnonymousGroupTerm g)
  then show ?case by (cases g) (simp add: disjunction.map_comp comp_def cong: disjunction.map_cong_simp)
qed simp_all

lemma disjunction_groups_read:
  "disjunction_groups (read_disjunction nodes d) = disjunction_groups d"
  by (simp add: read_disjunction_def disjunction_groups_def alternative_groups_def [abs_def]
      disjunction.map_sel alternative.map_sel group_lists_read comp_def)

text \<open>A tree is well-formed (\<open>term_ok\<close>) if its groups and resolved back references are in range.\<close>

lemma set_alternative_terms: "set_alternative a = set (terms a)"
  by (cases a) simp

lemma disjunction_terms: "set_disjunction d = (\<Union>a \<in> set (alternatives d). set (terms a))"
  by (cases d) (simp add: set_alternative_terms)

lemma disjunction_all_iff: "disjunction_all P d \<longleftrightarrow> (\<forall>t \<in> set_disjunction d. P t)"
  by (auto simp: disjunction_all_def list_all_iff disjunction_terms)

lemma in_disjunction_groups:
  "g \<in> set (disjunction_groups d) \<longleftrightarrow> (\<exists>t \<in> set_disjunction d. g \<in> set (term_groups t))"
  by (auto simp: disjunction_groups_def alternative_groups_def disjunction_terms)

lemma term_ok_read:
  assumes "\<And>i name. (i, name) \<in> set (term_groups t) \<Longrightarrow> unat i \<le> nc"
    and "\<And>k. k \<in> set2_raw_term t \<Longrightarrow> 0 < unat (f k) \<and> unat (f k) \<le> nc"
  shows "term_ok nc (map_raw_term id f t)"
  using assms
proof (induction t)
  case (QuantifierTerm q)
  then show ?case by (cases q) auto
next
  case (LookaroundTerm l)
  then show ?case
    by (cases l, simp add: disjunction_all_iff disjunction.set_map in_disjunction_groups) blast
next
  case (CaptureGroupTerm g)
  then show ?case
    by (cases g, simp add: disjunction_all_iff disjunction.set_map in_disjunction_groups) blast
next
  case (AnonymousGroupTerm g)
  then show ?case
    by (cases g, simp add: disjunction_all_iff disjunction.set_map in_disjunction_groups) blast
qed auto

text \<open>Groups are numbered from one in the order in which they appear in the tree.\<close>

definition numbered :: "'p regexp \<Rightarrow> bool" where
  "numbered re \<longleftrightarrow>
     disjunction_groups (regexp_disjunction re) =
       zip (map word_of_nat [1..<Suc (length (regexp_capture_groups re))]) (regexp_capture_groups re)"

section \<open>Resolution\<close>

lemma update_first_error_Some [simp]: "update_first_error e error_pos x \<noteq> None"
  by (auto simp: update_first_error_def split: option.splits prod.splits)

lemma check_indexed_None:
  "check_indexed_backreference n (i, error_pos) e = None \<longleftrightarrow> e = None \<and> unat i \<le> n"
proof -
  have "uint i > int n \<longleftrightarrow> n < unat i" by (simp only: uint_nat of_nat_less_iff)
  then show ?thesis by (simp add: check_indexed_backreference_def linorder_not_less del: int_nat_eq)
qed

lemma fold_check_indexed:
  "fold (check_indexed_backreference n) refs e = None \<longleftrightarrow>
     e = None \<and> (\<forall>(i, error_pos) \<in> set refs. unat i \<le> n)"
proof (induction refs arbitrary: e)
  case (Cons ref refs)
  then show ?case by (cases ref) (auto simp: check_indexed_None)
qed simp

text \<open>When no error is left, every named node holds the index of its name and the others are as before.\<close>

lemma fold_resolve_named:
  assumes "fold (resolve_named_backreference names) refs (e, nodes) = (None, nodes')"
  shows "e = None" and "length nodes' = length nodes"
    and "\<And>k. k < length nodes \<Longrightarrow>
      (nodes' ! k = nodes ! k \<and> (\<forall>name error_pos. (name, error_pos, k) \<notin> set refs))
      \<or> (\<exists>name. names name = Some (nodes' ! k))"
proof -
  have "e = None \<and> length nodes' = length nodes \<and> (\<forall>k < length nodes.
      (nodes' ! k = nodes ! k \<and> (\<forall>name error_pos. (name, error_pos, k) \<notin> set refs))
      \<or> (\<exists>name. names name = Some (nodes' ! k)))"
    using assms
  proof (induction refs arbitrary: e nodes)
    case (Cons ref refs)
    obtain name error_pos node where ref: "ref = (name, error_pos, node)" by (cases ref) auto
    show ?case
    proof (cases "names name")
      case None
      then have "resolve_named_backreference names ref (e, nodes)
          = (update_first_error e error_pos InvalidBackreferenceName, nodes)"
        by (simp add: ref resolve_named_backreference_def)
      then have "update_first_error e error_pos InvalidBackreferenceName = None"
        using Cons.IH [of "update_first_error e error_pos InvalidBackreferenceName" nodes] Cons.prems by simp
      then show ?thesis by simp
    next
      case (Some i)
      then have "resolve_named_backreference names ref (e, nodes) = (e, nodes[node := i])"
        by (simp add: ref resolve_named_backreference_def)
      then have rest: "fold (resolve_named_backreference names) refs (e, nodes[node := i]) = (None, nodes')"
        using Cons.prems by simp
      have "(nodes' ! k = nodes ! k \<and> (\<forall>name error_pos. (name, error_pos, k) \<notin> set (ref # refs)))
          \<or> (\<exists>name. names name = Some (nodes' ! k))" if "k < length nodes" for k
        using Cons.IH [OF rest] that Some by (cases "k = node") (auto simp: ref)
      then show ?thesis using Cons.IH [OF rest] by simp
    qed
  qed simp
  then show "e = None" "length nodes' = length nodes"
    "\<And>k. k < length nodes \<Longrightarrow>
      (nodes' ! k = nodes ! k \<and> (\<forall>name error_pos. (name, error_pos, k) \<notin> set refs))
      \<or> (\<exists>name. names name = Some (nodes' ! k))"
    by auto
qed

context parser_run
begin

lemma rule_resolve_backreferences:
  assumes p: "parser_ok p" and E: "\<And>p'. E p'"
    and Q: "\<And>nodes. length nodes = length (backreference_nodes p) \<Longrightarrow>
      (\<And>k. k < length nodes \<Longrightarrow> 0 < unat (nodes ! k) \<and> unat (nodes ! k) \<le> length (capture_groups p)) \<Longrightarrow>
      Q () (p\<lparr>backreference_nodes := nodes\<rparr>)"
  shows "holds (resolve_backreferences px p) E Q"
proof -
  let ?e = "fold (check_indexed_backreference (length (capture_groups p))) (indexed_backreferences p) None"
  obtain e nodes where run: "fold (resolve_named_backreference (capture_group_names p))
      (named_backreferences p) (?e, backreference_nodes p) = (e, nodes)" by fastforce
  show ?thesis
  proof (cases e)
    case None
    note resolved = fold_resolve_named [OF run [unfolded None]]
    have indexed: "unat i \<le> length (capture_groups p)" if "(i, error_pos) \<in> set (indexed_backreferences p)"
      for i error_pos
      using resolved(1) that by (auto simp: fold_check_indexed)
    have named: "0 < unat i \<and> unat i \<le> length (capture_groups p)"
      if "capture_group_names p name = Some i" for name i
    proof -
      have "0 < i \<and> unat i \<le> capture_group_count p" using p that unfolding parser_ok_def by blast
      moreover have "capture_group_count p = length (capture_groups p)" using p by (simp add: parser_ok_def)
      ultimately show ?thesis by (simp add: word_less_nat_alt)
    qed
    have "0 < unat (nodes ! k) \<and> unat (nodes ! k) \<le> length (capture_groups p)" if k: "k < length nodes" for k
    proof -
      have "(nodes ! k = backreference_nodes p ! k
            \<and> (\<forall>name error_pos. (name, error_pos, k) \<notin> set (named_backreferences p)))
          \<or> (\<exists>name. capture_group_names p name = Some (nodes ! k))"
        using resolved(2) k by (intro resolved(3)) simp
      then show ?thesis
      proof
        assume same: "nodes ! k = backreference_nodes p ! k \<and>
          (\<forall>name error_pos. (name, error_pos, k) \<notin> set (named_backreferences p))"
        then obtain error_pos where "(nodes ! k, error_pos) \<in> set (indexed_backreferences p)" "0 < nodes ! k"
          using p k resolved(2) unfolding parser_ok_def nodes_ok_def by metis
        then show ?thesis using indexed by (simp add: word_less_nat_alt)
      qed (use named in blast)
    qed
    then show ?thesis
      using Q [of nodes] resolved(2) by (simp add: resolve_backreferences_def run None)
  qed (use E in \<open>auto simp: resolve_backreferences_def run\<close>)
qed

lemma parser_ok_new:
  assumes "ok s"
  shows "parser_ok (new_regexp_parser s flags named annex_b)"
  using assms by (simp add: parser_ok_def nodes_ok_def new_regexp_parser_def)

lemma rule_parse_pattern_disjunction:
  assumes s: "ok s"
    and Q: "\<And>d p named. disjunction_found (new_regexp_parser s flags named annex_b) d p \<Longrightarrow> Q d p"
    and E: "\<And>p'. E p'"
  shows "holds (parse_pattern_disjunction px s flags annex_b) E Q"
proof -
  have found: "holds (parse_pattern_with px s flags named annex_b) (\<lambda>_. True)
      (disjunction_found (new_regexp_parser s flags named annex_b))" for named
    using nested_ok_parse_disjunction [of "env_fuel px"] parser_ok_new [OF s] enough_fuel
    by (simp add: parse_pattern_with_def nested_ok_def)
  have result: "holds (parse_pattern_with px s flags named annex_b) E Q" for named
    by (rule holds_mono [OF found]) (use Q E in auto)
  show ?thesis
  proof (cases annex_b)
    case True
    from result [of False] show ?thesis
      by (cases rule: holds_cases)
        (use result [of True] E True in \<open>auto simp: parse_pattern_disjunction_def\<close>)
  next
    case False
    with result [of True] show ?thesis by (simp add: parse_pattern_disjunction_def)
  qed
qed

lemma parse_regexp_ok:
  assumes s: "ok s"
  shows "\<exists>r. parse_regexp px s flags annex_b = Inr r
    \<and> (\<forall>re. r = Inr re \<longrightarrow> regexp_ok re \<and> numbered re \<and> regexp_flags re = flags)"
proof -
  let ?re = "\<lambda>d p. \<lparr>regexp_disjunction = read_disjunction (backreference_nodes p) d,
    regexp_flags = flags,
    regexp_has_duplicate_named_capture_groups = has_duplicate_named_capture_groups p,
    regexp_capture_groups = capture_groups p\<rparr>"
  let ?good = "\<lambda>re. regexp_ok re \<and> numbered re \<and> regexp_flags re = flags"
  have "holds (and_then (parse_pattern_disjunction px s flags annex_b) (\<lambda>d p.
      and_then (resolve_backreferences px p) (\<lambda>_ p. returns (?re d p) p))) (\<lambda>_. True) (\<lambda>re _. ?good re)"
    unfolding holds_and_then
  proof (rule rule_parse_pattern_disjunction [OF s])
    fix d p named
    assume found: "disjunction_found (new_regexp_parser s flags named annex_b) d p"
    then have grown: "grown (new_regexp_parser s flags named annex_b) (disjunction_groups d) p"
      and nodes: "nodes_below (disjunction_nodes d) p"
      by (simp_all add: disjunction_found_def)
    let ?n = "length (capture_groups p)"
    from grown have p: "parser_ok p" and groups: "capture_groups p = map snd (disjunction_groups d)"
      and indices: "map fst (disjunction_groups d) = map word_of_nat [1..<Suc (capture_group_count p)]"
      by (simp_all add: grown_def new_regexp_parser_def)
    have count: "capture_group_count p = ?n" "?n < 0x7FFFFFFF" using p by (simp_all add: parser_ok_def)
    have range: "unat i \<le> ?n" if "(i, name) \<in> set (disjunction_groups d)" for i name
    proof -
      have "i \<in> set (map fst (disjunction_groups d))" using that by force
      then obtain m where "i = word_of_nat m" "m \<le> ?n" unfolding indices count(1) by auto
      then show ?thesis using unat_word_of_nat_le [of m] by simp
    qed
    show "holds (resolve_backreferences px p) (\<lambda>_. True)
        (\<lambda>_ p. holds (returns (?re d p) p) (\<lambda>_. True) (\<lambda>re _. ?good re))"
    proof (rule rule_resolve_backreferences [OF p])
      fix nodes' :: "capture_group_index list"
      assume len: "length nodes' = length (backreference_nodes p)"
        and ok: "\<And>k. k < length nodes' \<Longrightarrow> 0 < unat (nodes' ! k) \<and> unat (nodes' ! k) \<le> ?n"
      have "term_ok ?n (map_raw_term id ((!) nodes') t)" if t: "t \<in> set_disjunction d" for t
      proof (rule term_ok_read)
        fix i name assume "(i, name) \<in> set (term_groups t)"
        then show "unat i \<le> ?n" using t by (intro range) (auto simp: in_disjunction_groups)
      next
        fix k assume "k \<in> set2_raw_term t"
        then have "k < length nodes'" using t nodes len by (auto simp: disjunction_nodes_def nodes_below_def)
        then show "0 < unat (nodes' ! k) \<and> unat (nodes' ! k) \<le> ?n" by (rule ok)
      qed
      then have "disjunction_all (term_ok ?n) (read_disjunction nodes' d)"
        by (auto simp: disjunction_all_iff read_disjunction_def disjunction.set_map)
      moreover have "disjunction_groups d
          = zip (map fst (disjunction_groups d)) (map snd (disjunction_groups d))"
        by (simp add: zip_map_fst_snd)
      then have "disjunction_groups d = zip (map word_of_nat [1..<Suc ?n]) (capture_groups p)"
        by (simp only: indices groups [symmetric] count(1))
      ultimately show "holds (returns (?re d (p\<lparr>backreference_nodes := nodes'\<rparr>))
          (p\<lparr>backreference_nodes := nodes'\<rparr>)) (\<lambda>_. True) (\<lambda>re _. ?good re)"
        using count(2) by (simp add: regexp_ok_def numbered_def disjunction_groups_read)
    qed simp
  qed simp
  then show ?thesis
    by (cases rule: holds_cases) (auto simp: parse_regexp_def)
qed

end

end
