(* ===== verification/Regexp_Parser_Text.thy ===== *)
theory Regexp_Parser_Text
  imports Regexp_Parser_Correct
begin

text \<open>
  Parts of the parser against a reference definition on the text itself: \<open>parse_flags\<close> accepts what
  \<open>flags_of_text\<close> describes, and \<open>parse_decimal_digits\<close> computes the number that the longest run of
  digits denotes, or reports that it does not fit in 64 bits.
\<close>

section \<open>The text of a stream\<close>

locale parser_text = parser_run px ok len
  for px :: "('s, 'src, 'c) parser_env" and ok :: "'s \<Rightarrow> bool" and len :: nat +
  fixes after :: "nat \<Rightarrow> u32"
  assumes op_current: "ok s \<Longrightarrow> op_current (env_lexer px) s = after (op_pos (env_lexer px) s)"
begin

abbreviation characters :: "nat \<Rightarrow> nat \<Rightarrow> u32 list" where
  "characters i j \<equiv> map after [i..<j]"

lemma current_after: "lexing p \<Longrightarrow> parser_current px p = after (at p)"
  by (simp add: op_current parser_current_def parser_pos_def)

lemma rule_advance_text:
  assumes "lexed orig p" and "at p < len" and "\<And>p'. lexed orig p' \<Longrightarrow> at p' = Suc (at p) \<Longrightarrow> Q () p'"
  shows "holds (advance px p) E Q"
  unfolding advance_def by (rule rule_advance_n [OF assms(1)]) (use assms(2,3) in simp)

end

section \<open>Flags\<close>

text \<open>The flags that a text of distinct flag characters, not both \<open>u\<close> and \<open>v\<close>, stands for.\<close>

definition flags_of_text :: "u32 list \<Rightarrow> regexp_flags option" where
  "flags_of_text cs =
     (if list_all (\<lambda>c. flag_of_char c \<noteq> None) cs \<and> distinct cs
        \<and> \<not> (ch CHR ''u'' \<in> set cs \<and> ch CHR ''v'' \<in> set cs)
      then Some (foldl (OR) 0 (map (the \<circ> flag_of_char) cs))
      else None)"

lemma flag_bits:
  assumes "flag_of_char c = Some f"
  shows "\<exists>k < 8. f = push_bit k 1"
proof -
  have "f \<in> {HAS_INDICES, GLOBAL, IGNORE_CASE, MULTILINE, DOT_ALL, UNICODE_AWARE, UNICODE_SETS, STICKY}"
    using assms by (simp add: flag_of_char_def split: if_splits)
  then have "f \<in> (\<lambda>k. push_bit k 1) ` {0, 1, 2, 3, 4, 5, 6, 7}"
    by (simp only: flag_defs image_insert image_empty)
  then obtain k :: nat where "f = push_bit k 1" "k \<in> {0, 1, 2, 3, 4, 5, 6, 7}" by blast
  moreover from this have "k < 8" by auto
  ultimately show ?thesis by blast
qed

lemma flag_of_char_inject:
  "flag_of_char c = Some f \<Longrightarrow> flag_of_char d = Some f \<Longrightarrow> c = d"
  by (auto simp: flag_of_char_def flag_defs split: if_splits)

lemma flags_contains_or:
  assumes "flag_of_char c = Some f" and "flag_of_char d = Some g"
  shows "flags_contains (fs OR g) f \<longleftrightarrow> flags_contains fs f \<or> c = d"
proof -
  obtain j k where jk: "j < 8" "k < 8" "f = push_bit j 1" "g = push_bit k 1"
    using assms flag_bits by blast
  have "c = d \<longleftrightarrow> f = g" using assms flag_of_char_inject by auto
  also have "\<dots> \<longleftrightarrow> j = k"
  proof
    assume "f = g"
    then have "bit (push_bit j 1 :: regexp_flags) j = bit (push_bit k 1 :: regexp_flags) j"
      by (simp only: jk)
    then show "j = k" using jk(1) by (simp add: bit_simps)
  qed (simp add: jk)
  finally show ?thesis
    unfolding jk(3,4) contains_bit [OF jk(1)] using jk(1,2) by (auto simp: bit_simps)
qed

definition flags_read :: "regexp_flags \<Rightarrow> u32 list \<Rightarrow> bool" where
  "flags_read flags cs \<longleftrightarrow>
     (\<forall>c \<in> set cs. flag_of_char c \<noteq> None) \<and> distinct cs
     \<and> flags = foldl (OR) 0 (map (the \<circ> flag_of_char) cs)"

lemma flags_contains_read:
  "flags_read flags cs \<Longrightarrow> flag_of_char c = Some f \<Longrightarrow> flags_contains flags f \<longleftrightarrow> c \<in> set cs"
proof (induction cs arbitrary: flags rule: rev_induct)
  case Nil
  obtain k where "k < 8" "f = push_bit k 1" using Nil.prems(2) flag_bits by blast
  then show ?case using Nil.prems(1) contains_bit [of k 0] by (simp add: flags_read_def)
next
  case (snoc d cs)
  then obtain g where g: "flag_of_char d = Some g" by (auto simp: flags_read_def)
  have "flags_read (foldl (OR) 0 (map (the \<circ> flag_of_char) cs)) cs"
    using snoc.prems(1) by (simp add: flags_read_def)
  from snoc.IH [OF this snoc.prems(2)] snoc.prems(1) show ?case
    by (auto simp: flags_read_def g flags_contains_or [OF snoc.prems(2) g])
qed

lemma flags_read_snoc:
  "flags_read flags cs \<Longrightarrow> flag_of_char c = Some f \<Longrightarrow> c \<notin> set cs \<Longrightarrow>
     flags_read (flags OR f) (cs @ [c])"
  by (simp add: flags_read_def)

lemma flags_read_unicode:
  assumes "flags_read flags cs"
  shows "has_simple_unicode_flag flags \<longleftrightarrow> ch CHR ''u'' \<in> set cs"
    and "has_unicode_sets_flag flags \<longleftrightarrow> ch CHR ''v'' \<in> set cs"
  unfolding has_simple_unicode_flag_def has_unicode_sets_flag_def
  by (rule flags_contains_read [OF assms]; simp add: flag_of_char_def of_char_Char)+

context parser_text
begin

lemma rule_parse_flags:
  assumes p: "lexing p" "at p = 0"
  shows "holds (parse_flags_of px p) (\<lambda>_. flags_of_text (characters 0 len) = None)
    (\<lambda>flags _. flags_of_text (characters 0 len) = Some flags)"
proof -
  let ?I = "\<lambda>flags q. lexed p q \<and> flags_read flags (characters 0 (at q))"
  let ?E = "\<lambda>_. flags_of_text (characters 0 len) = None"
  have body: "holds (parse_flag px flags q) ?E
      (\<lambda>f q'. case f of Continue fs \<Rightarrow> ?I fs q' \<and> at q < at q'
        | Break fs \<Rightarrow> flags_read fs (characters 0 len))" if I: "?I flags q" for flags q
  proof (cases "at q = len")
    case True
    moreover have "lexing q" using I by (auto dest: lexed_lexing)
    ultimately show ?thesis using I by (simp add: parse_flag_def parser_is_end_iff)
  next
    case False
    have q: "lexing q" using I by (auto dest: lexed_lexing)
    then have less: "at q < len" using at_le [OF q] False by simp
    define c where "c = after (at q)"
    have "characters 0 len = characters 0 (at q) @ characters (at q) len"
      using upt_add_eq_append [of 0 "at q" "len - at q"] less by simp
    also have "characters (at q) len = c # characters (Suc (at q)) len"
      using less by (simp add: c_def upt_conv_Cons)
    finally have "characters 0 len = characters 0 (at q) @ c # characters (Suc (at q)) len" .
    note split_text = this [THEN arg_cong [of _ _ flags_of_text]]
    have upto: "characters 0 (Suc (at q)) = characters 0 (at q) @ [c]" by (simp add: c_def)
    show ?thesis
    proof (cases "flag_of_char c")
      case None
      then have "flags_of_text (characters 0 len) = None"
        unfolding split_text by (simp add: flags_of_text_def)
      then show ?thesis
        using False q None by (simp add: parse_flag_def parser_is_end_iff current_after c_def [symmetric])
    next
      case (Some f)
      have contains: "flags_contains flags f \<longleftrightarrow> c \<in> set (characters 0 (at q))"
        using I Some by (intro flags_contains_read) auto
      show ?thesis
      proof (cases "flags_contains flags f")
        case True
        then have "\<not> distinct (characters 0 (at q) @ c # characters (Suc (at q)) len)"
          unfolding contains by simp
        then have "flags_of_text (characters 0 len) = None"
          unfolding split_text by (simp only: flags_of_text_def if_False simp_thms)
        then show ?thesis
          using False q Some True
          by (simp add: parse_flag_def parser_is_end_iff current_after c_def [symmetric])
      next
        case new: False
        have "flags_read (flags OR f) (characters 0 (Suc (at q)))"
          unfolding upto by (rule flags_read_snoc) (use I Some new contains in auto)
        then show ?thesis
          using False q Some new I less
          by (auto simp: parse_flag_def parser_is_end_iff current_after c_def [symmetric]
              intro!: rule_advance_text [where orig = p])
      qed
    qed
  qed
  have loop: "holds (loop (env_fuel px) (parse_flag px) 0 p) ?E
      (\<lambda>flags _. flags_read flags (characters 0 len))"
    by (rule rule_loop [where I = ?I])
      (use p body in \<open>auto simp: flags_read_def lexed_refl dest: lexed_lexing\<close>)
  show ?thesis
    unfolding parse_flags_of_def holds_and_then
    by (rule holds_mono [OF loop])
      (auto simp: flags_read_unicode, auto simp: flags_of_text_def flags_read_def list_all_iff)
qed

lemma parse_flags_text:
  assumes "ok s" and "op_pos (env_lexer px) s = 0"
  shows "\<exists>r. parse_flags px s = Inr r
    \<and> flags_of_text (characters 0 len) = (case r of Inl e \<Rightarrow> None | Inr flags \<Rightarrow> Some flags)"
proof -
  have "holds (parse_flags_of px (new_regexp_parser s 0 True False))
      (\<lambda>_. flags_of_text (characters 0 len) = None)
      (\<lambda>flags _. flags_of_text (characters 0 len) = Some flags)"
    by (rule rule_parse_flags) (simp_all add: new_regexp_parser_def parser_pos_def assms)
  then show ?thesis by (cases rule: holds_cases) (auto simp: parse_flags_def)
qed

end

section \<open>Decimal numbers\<close>

definition decimal_number :: "u32 list \<Rightarrow> nat" where
  "decimal_number cs = foldl (\<lambda>n c. n * 10 + digit_value c) 0 cs"

text \<open>What a number of the pattern is worth: nothing when it does not fit in a \<open>u64\<close>.\<close>

definition decimal_value :: "u32 list \<Rightarrow> u64 option" where
  "decimal_value cs =
     (if decimal_number cs < 2 ^ 64 then Some (word_of_nat (decimal_number cs)) else None)"

lemma accumulates_value:
  "accumulates (decimal_number cs) (v, has_overflowed) \<Longrightarrow>
     decimal_value cs = (if has_overflowed then None else Some v)"
proof (cases has_overflowed)
  case False
  assume "accumulates (decimal_number cs) (v, has_overflowed)"
  then have v: "decimal_number cs = unat v" using False by (simp add: accumulates_def)
  have "unat v < 2 ^ LENGTH(64)" by (rule unsigned_less)
  then have "unat v < 2 ^ 64" by simp
  then show ?thesis unfolding decimal_value_def v using False by simp
next
  case True
  assume "accumulates (decimal_number cs) (v, has_overflowed)"
  then have "\<not> decimal_number cs < 2 ^ 64" using True by (simp add: accumulates_def)
  then show ?thesis unfolding decimal_value_def using True by simp
qed

context parser_text
begin

abbreviation digits_at :: "'s regexp_parser \<Rightarrow> u32 list" where
  "digits_at p \<equiv> takeWhile is_decimal_digit (characters (at p) len)"

lemma characters_snoc: "i \<le> j \<Longrightarrow> characters i (Suc j) = characters i j @ [after j]"
  by simp

lemma digits_between:
  assumes "at p \<le> j" and "j \<le> len" and "\<forall>c \<in> set (characters (at p) j). is_decimal_digit c"
    and "j = len \<or> \<not> is_decimal_digit (after j)"
  shows "digits_at p = characters (at p) j"
proof -
  have "[at p..<len] = [at p..<j] @ [j..<len]"
    using assms(1,2) upt_add_eq_append [of "at p" j "len - j"] by simp
  then have split: "characters (at p) len = characters (at p) j @ characters j len"
    by (simp only: map_append)
  have "takeWhile is_decimal_digit (characters j len) = []"
    using assms(2,4) by (cases "j = len") (simp_all add: upt_conv_Cons)
  then show ?thesis unfolding split using assms(3) by (simp add: takeWhile_append2 del: set_map set_upt)
qed

lemma rule_parse_decimal_digits_text:
  assumes p: "lexing p"
  shows "holds (parse_decimal_digits px p) (\<lambda>p'. p' = p \<and> digits_at p = [])
    (\<lambda>x p'. digits_at p \<noteq> [] \<and> lexed p p' \<and> at p' = at p + length (digits_at p)
      \<and> x = decimal_value (digits_at p))"
  unfolding parse_decimal_digits_def
proof (rule holds_if)
  assume "\<not> is_decimal_digit (parser_current px p)"
  then show "holds (error_unexpected_token px (at p) p) (\<lambda>p'. p' = p \<and> digits_at p = [])
      (\<lambda>x p'. digits_at p \<noteq> [] \<and> lexed p p' \<and> at p' = at p + length (digits_at p)
        \<and> x = decimal_value (digits_at p))"
    using at_le [OF p] digits_between [of p "at p"] by (simp add: current_after [OF p])
next
  assume "\<not> \<not> is_decimal_digit (parser_current px p)"
  then have some: "digits_at p \<noteq> []"
    using at_less [OF p] not_EOF(1) by (auto simp: current_after [OF p] upt_conv_Cons)
  let ?I = "\<lambda>acc q. lexed p q \<and> at p \<le> at q
    \<and> (\<forall>c \<in> set (characters (at p) (at q)). is_decimal_digit c)
    \<and> accumulates (decimal_number (characters (at p) (at q))) acc"
  let ?body = "\<lambda>acc q. let c = parser_current px q in
    if is_decimal_digit c
    then and_then (advance px q) (\<lambda>_. returns (Continue (push_decimal_digit acc c)))
    else returns (Break acc) q"
  let ?Q = "\<lambda>acc q. lexed p q \<and> at q = at p + length (digits_at p)
    \<and> accumulates (decimal_number (digits_at p)) acc"
  have body: "holds (?body acc q) E
      (\<lambda>f q'. case f of Continue acc \<Rightarrow> ?I acc q' \<and> at q < at q' | Break acc \<Rightarrow> ?Q acc q')"
    if I: "?I acc q" for acc q E
  proof -
    from I have lexed: "lexed p q" by blast
    then have q: "lexing q" by (rule lexed_lexing)
    show ?thesis
      unfolding Let_def
    proof (rule holds_if)
      assume digit: "is_decimal_digit (parser_current px q)"
      then have less: "at q < len" using at_less [OF q] not_EOF(1) by auto
      have "accumulates (decimal_number (characters (at p) (Suc (at q))))
          (push_decimal_digit acc (parser_current px q))"
        using accumulates_digit [OF _ digit] I
        by (simp add: characters_snoc decimal_number_def current_after [OF q])
      then show "holds (and_then (advance px q)
          (\<lambda>_. returns (Continue (push_decimal_digit acc (parser_current px q))))) E
          (\<lambda>f q'. case f of Continue acc \<Rightarrow> ?I acc q' \<and> at q < at q' | Break acc \<Rightarrow> ?Q acc q')"
        using I digit
        by (auto simp: current_after [OF q] less_Suc_eq intro!: rule_advance_text [OF lexed less])
    next
      assume "\<not> is_decimal_digit (parser_current px q)"
      then have "digits_at p = characters (at p) (at q)"
        using I at_le [OF q] by (intro digits_between) (auto simp: current_after [OF q])
      then show "holds (returns (Break acc) q) E
          (\<lambda>f q'. case f of Continue acc \<Rightarrow> ?I acc q' \<and> at q < at q' | Break acc \<Rightarrow> ?Q acc q')"
        using I by simp
    qed
  qed
  have loop: "holds (loop (env_fuel px) ?body (0, False) p) E ?Q" for E
    by (rule rule_loop [where I = ?I])
      (use body in \<open>auto simp: lexed_refl [OF p] accumulates_def decimal_number_def dest: lexed_lexing\<close>)
  show "holds (and_then (loop (env_fuel px) ?body (0, False) p)
      (\<lambda>(value, has_overflowed). returns (if has_overflowed then None else Some value)))
    (\<lambda>p'. p' = p \<and> digits_at p = [])
    (\<lambda>x p'. digits_at p \<noteq> [] \<and> lexed p p' \<and> at p' = at p + length (digits_at p)
      \<and> x = decimal_value (digits_at p))"
    unfolding holds_and_then
    by (rule holds_mono [OF loop]) (auto simp: some accumulates_value split: prod.splits)
qed

end

end
