(* ===== verification/Regexp_Pattern.thy ===== *)
theory Regexp_Pattern
  imports Regexp_Parser_Text Regexp_Matcher
begin

text \<open>
  Where patterns come from.  \<open>parse_pattern\<close> and \<open>parse_flags\<close> of
  \<open>runtime/intrinsics/regexp_constructor.rs\<close> run the parser on a heap string, with the stream for its
  width and flags, and \<open>parse_regexp_literal\<close> of \<open>parser/parser.rs\<close> runs it on the text of a literal.

  All four streams are what the parser relies on, so each of these calls is an instance of
  \<open>parser_run\<close>.  The budget is one more than the length of the input.
\<close>

section \<open>Calling the parser\<close>

text \<open>The ICU tables that the parser reads.\<close>

record 'c unicode_tables =
  id_start_table :: "code_point \<Rightarrow> bool"
  id_continue_table :: "code_point \<Rightarrow> bool"
  script_name_table :: "string \<Rightarrow> 'c option"

definition regexp_env ::
  "('s, 'src) lexer_ops \<Rightarrow> nat \<Rightarrow> 'c unicode_tables \<Rightarrow> ('s, 'src, 'c) parser_env" where
  "regexp_env lx len tables =
     \<lparr>env_lexer = lx, env_fuel = Suc len, is_id_start_unicode = id_start_table tables,
      is_id_continue_unicode = id_continue_table tables, script_names = script_name_table tables\<rparr>"

definition one_byte_env :: "'c unicode_tables \<Rightarrow> u8 list \<Rightarrow> (u8 stream, 'src, 'c) parser_env" where
  "one_byte_env tables b = regexp_env one_byte_ops (length b) tables"

definition code_unit_env ::
  "'c unicode_tables \<Rightarrow> u16 list \<Rightarrow> ('src code_unit_stream, 'src, 'c) parser_env" where
  "code_unit_env tables b = regexp_env code_unit_ops (length b) tables"

definition code_point_env :: "'c unicode_tables \<Rightarrow> u16 list \<Rightarrow> (u16 stream, 'src, 'c) parser_env" where
  "code_point_env tables b = regexp_env code_point_ops (length b) tables"

definition utf8_env :: "'c unicode_tables \<Rightarrow> u8 list \<Rightarrow> ('src utf8_stream, 'src, 'c) parser_env" where
  "utf8_env tables b = regexp_env utf8_ops (length b) tables"

text \<open>\<open>regexp_constructor.rs\<close>: flags and patterns that are heap strings.\<close>

definition parse_flags_string ::
  "'c unicode_tables \<Rightarrow> flat_string \<Rightarrow> (regexp_flags, 'src) parse_result res" where
  "parse_flags_string tables flags_string =
     (case flags_string of
        OneByteString b \<Rightarrow> parse_flags (one_byte_env tables b) (one_byte_new b)
      | TwoByteString b \<Rightarrow> parse_flags (code_unit_env tables b) (code_unit_new b None))"

definition parse_pattern ::
  "'c unicode_tables \<Rightarrow> bool \<Rightarrow> flat_string \<Rightarrow> regexp_flags
     \<Rightarrow> ('c unicode_property regexp, 'src) parse_result res" where
  "parse_pattern tables annex_b pattern_string flags =
     (case pattern_string of
        OneByteString b \<Rightarrow> parse_regexp (one_byte_env tables b) (one_byte_new b) flags annex_b
      | TwoByteString b \<Rightarrow>
          if has_any_unicode_flag flags
          then parse_regexp (code_point_env tables b) (code_point_new b) flags annex_b
          else parse_regexp (code_unit_env tables b) (code_unit_new b None) flags annex_b)"

text \<open>
  \<open>parser.rs\<close>: a literal, whose pattern is a slice of the source file.  Without a Unicode flag the
  pattern is translated to UTF-16 first.
\<close>

primrec extend_utf16 :: "code_point list \<Rightarrow> u16 list \<Rightarrow> u16 list \<Rightarrow> u16 list option" where
  "extend_utf16 [] unit_buf utf16_pattern = Some utf16_pattern"
| "extend_utf16 (c # code_points) unit_buf utf16_pattern = do {
     (unit_buf, unit_length) \<leftarrow> encode_utf16_codepoint unit_buf c;
     encoded \<leftarrow> vec_slice unit_buf 0 unit_length;
     extend_utf16 code_points unit_buf (utf16_pattern @ encoded)
   }"

text \<open>
  The position of an error in UTF-16 code units as an offset in UTF-8 bytes; \<open>None\<close> is a failed
  \<open>debug_assert!\<close>.
\<close>

primrec utf8_offset_of :: "nat \<Rightarrow> code_point list \<Rightarrow> nat \<Rightarrow> nat \<Rightarrow> nat option" where
  "utf8_offset_of target_utf16_offset [] utf8_offset utf16_offset = Some utf8_offset"
| "utf8_offset_of target_utf16_offset (c # code_points) utf8_offset utf16_offset =
     (if utf16_offset = target_utf16_offset then Some utf8_offset
      else do {
        byte_count \<leftarrow> utf8_byte_count c;
        let utf16_offset' = utf16_offset + utf16_code_unit_count c;
        if utf16_offset' \<le> target_utf16_offset
        then utf8_offset_of target_utf16_offset code_points (utf8_offset + byte_count) utf16_offset'
        else None
      })"

definition rewrite_error_loc ::
  "pos \<Rightarrow> code_point list \<Rightarrow> 'src localized_parse_error \<Rightarrow> 'src localized_parse_error option" where
  "rewrite_error_loc pattern_start_pos code_points err = do {
     (error_loc, file) \<leftarrow> source_loc err;
     utf8_offset \<leftarrow> utf8_offset_of (loc_start error_loc) code_points 0 0;
     let p = pattern_start_pos + utf8_offset;
     Some (err\<lparr>source_loc := Some (\<lparr>loc_start = p, loc_end = p\<rparr>, file)\<rparr>)
   }"

definition parse_regexp_literal ::
  "'c unicode_tables \<Rightarrow> bool \<Rightarrow> pos \<Rightarrow> 'src \<Rightarrow> wtf8_string \<Rightarrow> wtf8_string
     \<Rightarrow> ('c unicode_property regexp, 'src) parse_result res" where
  "parse_regexp_literal tables annex_b start_pos file pattern flags_string =
     (let pattern_start_pos = start_pos + 1;
          flags_start_pos = start_pos + 2 + length pattern
      in case parse_flags (utf8_env tables flags_string) (utf8_new flags_start_pos file flags_string) of
           Inl fault \<Rightarrow> Inl fault
         | Inr (Inl err) \<Rightarrow> Inr (Inl err)
         | Inr (Inr flags) \<Rightarrow>
             if has_any_unicode_flag flags
             then parse_regexp (utf8_env tables pattern) (utf8_new pattern_start_pos file pattern)
                    flags annex_b
             else
               (case iter_code_points pattern of
                  None \<Rightarrow> Inl Panic
                | Some code_points \<Rightarrow>
                    (case extend_utf16 code_points [0, 0] [] of
                       None \<Rightarrow> Inl Panic
                     | Some utf16_pattern \<Rightarrow>
                         (case parse_regexp (code_unit_env tables utf16_pattern)
                                (code_unit_new utf16_pattern (Some file)) flags annex_b of
                            Inr (Inl err) \<Rightarrow>
                              (case rewrite_error_loc pattern_start_pos code_points err of
                                 None \<Rightarrow> Inl Panic
                               | Some err \<Rightarrow> Inr (Inl err))
                          | r \<Rightarrow> r))))"

section \<open>The streams\<close>

text \<open>A stream in its normal state, over the buffer \<open>b\<close> and with the extra fields \<open>m\<close>.\<close>

definition stream_at :: "(nat \<Rightarrow> u32) \<Rightarrow> 'u list \<Rightarrow> 'x \<Rightarrow> ('u, 'x) stream_scheme \<Rightarrow> bool" where
  "stream_at after b m s \<longleftrightarrow>
     buf s = b \<and> pos s \<le> length b \<and> current s = after (pos s) \<and> stream.more s = m"

lemma stream_at_ok: "stream_at after b m s \<Longrightarrow> stream_ok b s"
  by (simp add: stream_at_def stream_ok_def)

lemma stream_at_moved:
  assumes "stream_at after b m s" and "q \<le> length b"
  shows "stream_at after b m (s\<lparr>pos := q, current := after q\<rparr>)"
  using assms by (cases s) (simp add: stream_at_def)

lemma stream_at_restore:
  "stream_at after b m s \<Longrightarrow> stream_at after b m s' \<Longrightarrow> stream_restore s' (stream_save s) = s"
  by (rule stream_restore_save) (simp_all add: stream_at_def)

lemma unit_stream_moves:
  fixes s :: "('w::len word, 'x) stream_scheme"
  assumes "stream_at (unit_after b) b m s"
  shows "\<exists>s'. unit_advance_n s n = Some s' \<and> stream_at (unit_after b) b m s'
      \<and> pos s' = min (length b) (pos s + n)"
    and "unit_peek_n s n = Some (unit_after b (pos s + n))"
proof -
  show "\<exists>s'. unit_advance_n s n = Some s' \<and> stream_at (unit_after b) b m s'
      \<and> pos s' = min (length b) (pos s + n)"
    using unit_advance_n_eq [OF stream_at_ok [OF assms], of n] stream_at_moved [OF assms]
    by (auto simp: min_def)
  show "unit_peek_n s n = Some (unit_after b (pos s + n))"
    using assms
    by (simp add: unit_peek_n_def unit_code_point_at_def unit_after_def stream_at_def vec_get_def Let_def)
qed

text \<open>What the next unit is: the law of \<open>peek_n\<close>.\<close>

lemma unit_peek_next:
  fixes s :: "('w::len word, 'x) stream_scheme"
  assumes "stream_at (unit_after b) b m s" and "unit_peek_n s 1 = Some c" and "is_ascii c"
    and "unit_advance_n s 1 = Some s'"
  shows "current s' = c"
proof -
  have "c = unit_after b (pos s + 1)" using unit_stream_moves(2) [OF assms(1), of 1] assms(2) by simp
  moreover from this have "pos s + 1 < length b"
    using assms(3) by (auto simp: unit_after_def EOF_CHAR_def is_ascii_def split: if_splits)
  ultimately show ?thesis
    using unit_advance_n_eq [OF stream_at_ok [OF assms(1)], of 1] assms(4) by (auto simp: min_def)
qed

lemma unit_parse_unicode_codepoint_law:
  fixes s :: "('w::len word, 'x) stream_scheme"
  assumes "stream_at (unit_after b) b m s" and "LENGTH('w) \<le> 16"
  shows "\<exists>r s'. unit_parse_unicode_codepoint err s = Some (r, s') \<and> stream_at (unit_after b) b m s'
    \<and> (\<forall>c. r = Inr c \<longrightarrow> pos s < pos s' \<and> c \<le> MAX_CODE_POINT)"
proof (cases "current s = EOF_CHAR")
  case False
  then have less: "pos s < length b" "current s = ucast (b ! pos s)"
    using assms(1) by (auto simp: stream_at_def unit_after_def split: if_splits)
  have "unat (b ! pos s) < 2 ^ 16"
    using assms(2) by (meson less_le_trans one_le_numeral power_increasing unsigned_less)
  then have "current s \<le> MAX_CODE_POINT"
    by (simp add: less(2) code_point_le_iff unat_ucast_mod)
  then show ?thesis
    using unit_stream_moves(1) [OF assms(1), of 1] less(1) False
    by (auto simp: unit_parse_unicode_codepoint_def)
qed (simp add: unit_parse_unicode_codepoint_def assms(1))

lemma stream_at_len: "stream_at after b m s \<Longrightarrow> length (buf s) = length b"
  "stream_at after b m s \<Longrightarrow> pos s \<le> length b"
  by (simp_all add: stream_at_def)

lemma unit_stream_at_EOF:
  "stream_at (unit_after (b :: u8 list)) b m s \<Longrightarrow> current s = EOF_CHAR \<longleftrightarrow> pos s = length b"
  "stream_at (unit_after (c :: u16 list)) c m' s' \<Longrightarrow> current s' = EOF_CHAR \<longleftrightarrow> pos s' = length c"
  by (simp_all add: stream_at_def unit_after_EOF)

subsection \<open>One-byte and code unit streams\<close>

interpretation one_byte_parser: parser_stream one_byte_ops "stream_at (unit_after b) b ()" "length b"
  for b :: "u8 list"
  apply (unfold_locales; simp only: one_byte_ops_def lexer_ops.select_convs)
  subgoal by (rule stream_at_len)
  subgoal by (rule stream_at_len)
  subgoal by (rule unit_stream_at_EOF)
  subgoal by (rule unit_stream_moves)
  subgoal by (simp add: unit_stream_moves(2))
  subgoal by (rule unit_peek_next)
  subgoal by (rule unit_parse_unicode_codepoint_law) simp_all
  subgoal by (rule stream_at_restore)
  done

interpretation code_unit_parser: parser_stream code_unit_ops "stream_at (unit_after b) b m" "length b"
  for b :: "u16 list" and m
  apply (unfold_locales; simp only: code_unit_ops_def lexer_ops.select_convs)
  subgoal by (rule stream_at_len)
  subgoal by (rule stream_at_len)
  subgoal by (rule unit_stream_at_EOF)
  subgoal by (rule unit_stream_moves)
  subgoal by (simp add: unit_stream_moves(2))
  subgoal by (rule unit_peek_next)
  subgoal by (rule unit_parse_unicode_codepoint_law) simp_all
  subgoal by (rule stream_at_restore)
  done

subsection \<open>The code point stream\<close>

text \<open>
  A new stream shows the first unit of its buffer, even if it is half of a pair; after a move it shows
  a code point.  Its \<open>peek_n\<close> gives the code point at the position it is at, or none in front of the
  last unit; this is all that safety needs.
\<close>

definition code_point_stream_at :: "u16 list \<Rightarrow> u16 stream \<Rightarrow> bool" where
  "code_point_stream_at b s \<longleftrightarrow>
     buf s = b \<and> pos s \<le> length b \<and> (current s = cp_after b (pos s) \<or> current s = unit_after b (pos s))"

lemma code_point_stream_at_ok: "code_point_stream_at b s \<Longrightarrow> stream_ok b s"
  by (simp add: code_point_stream_at_def stream_ok_def)

lemma code_point_stream_EOF:
  "code_point_stream_at b s \<Longrightarrow> current s = EOF_CHAR \<longleftrightarrow> pos s = length b"
  using cp_after_EOF [of "pos s" b] unit_after_EOF(2) [of "pos s" b]
  by (auto simp: code_point_stream_at_def)

lemma code_point_stream_moves:
  assumes "code_point_stream_at b s"
  shows "\<exists>s'. code_point_advance_n s n = Some s' \<and> code_point_stream_at b s'
      \<and> pos s' = min (length b) (pos s + n)"
    and "code_point_peek_n s n =
      Some (if pos s + n < length b then cp_after b (pos s) else EOF_CHAR)"
proof -
  show "\<exists>s'. code_point_advance_n s n = Some s' \<and> code_point_stream_at b s'
      \<and> pos s' = min (length b) (pos s + n)"
    unfolding code_point_advance_n_eq [OF code_point_stream_at_ok [OF assms], of n]
    using assms by (auto simp: code_point_stream_at_def)
  show "code_point_peek_n s n = Some (if pos s + n < length b then cp_after b (pos s) else EOF_CHAR)"
    using assms code_point_at_eq [of s b "pos s"]
    by (auto simp: code_point_peek_n_def code_point_stream_at_def Let_def)
qed

text \<open>An ASCII character in front is what the stream shows.\<close>

lemma code_point_stream_ascii:
  assumes "code_point_stream_at b s" and "is_ascii (cp_after b (pos s))"
  shows "current s = cp_after b (pos s)"
proof (cases "pair_at b (pos s)")
  case True
  then have "needs_surrogate_pair (cp_after b (pos s))"
    by (simp add: cp_after_def pair_at_def pair_code_point_range)
  then show ?thesis
    using assms(2) by (auto simp: needs_surrogate_pair_def is_ascii_def word_le_nat_alt word_less_nat_alt)
next
  case False
  then show ?thesis using assms(1) by (auto simp: code_point_stream_at_def cp_after_def)
qed

lemma pair_code_point_le:
  assumes "is_high_surrogate_code_unit h" and "is_low_surrogate_code_unit l"
  shows "code_point_from_surrogate_pair h l \<le> MAX_CODE_POINT"
proof -
  have "unat (code_point_from_surrogate_pair h l)
      = (unat h - 0xD800) * 0x400 + (unat l - 0xDC00) + 0x10000"
    using assms by (simp add: unat_code_point_from_surrogate_pair)
  moreover have "unat h - 0xD800 < 0x400" "unat l - 0xDC00 < 0x400"
    using assms by (simp_all add: surrogate_ranges less_diff_conv2)
  ultimately show ?thesis by (simp add: code_point_le_iff)
qed

lemma unit_code_point_le:
  assumes "LENGTH('w) \<le> 16"
  shows "(ucast (u :: 'w::len word) :: u32) \<le> MAX_CODE_POINT"
proof -
  have "unat u < 2 ^ 16"
    using assms by (meson less_le_trans one_le_numeral power_increasing unsigned_less)
  then show ?thesis by (simp add: code_point_le_iff unat_ucast_mod)
qed

lemma cp_after_le: "p < length b \<Longrightarrow> cp_after b p \<le> MAX_CODE_POINT"
  by (auto simp: cp_after_def pair_at_def unit_after_def pair_code_point_le unit_code_point_le)

lemma code_point_parse_law:
  assumes "code_point_stream_at b s"
  shows "\<exists>r s'. code_point_parse_unicode_codepoint s = Some (r, s') \<and> code_point_stream_at b s'
    \<and> (\<forall>c. r = Inr c \<longrightarrow> pos s < pos s' \<and> c \<le> MAX_CODE_POINT)"
proof (cases "current s = EOF_CHAR")
  case False
  then have less: "pos s < length b" "buf s = b"
    using assms code_point_stream_EOF [OF assms] by (auto simp: code_point_stream_at_def)
  show ?thesis
    using code_point_stream_moves(1) [OF assms, of 1] code_point_stream_moves(1) [OF assms, of 2]
      less False cp_after_le [OF less(1)]
    by (auto simp: code_point_parse_unicode_codepoint_def code_point_at_eq [of s b])
qed (simp add: code_point_parse_unicode_codepoint_def assms)

interpretation code_point_parser: parser_stream code_point_ops "code_point_stream_at b" "length b"
  for b :: "u16 list"
  apply (unfold_locales; simp only: code_point_ops_def lexer_ops.select_convs)
  subgoal by (simp add: code_point_stream_at_def)
  subgoal by (simp add: code_point_stream_at_def)
  subgoal by (rule code_point_stream_EOF)
  subgoal by (rule code_point_stream_moves)
  subgoal by (simp add: code_point_stream_moves(2))
  subgoal for s c s'
    using code_point_stream_ascii [of b s]
    by (auto simp: code_point_stream_moves(2) EOF_CHAR_def is_ascii_def split: if_splits)
  subgoal by (rule code_point_parse_law)
  subgoal by (rule stream_restore_save) (simp_all add: code_point_stream_at_def)
  done

subsection \<open>The UTF-8 stream\<close>

text \<open>
  Four bytes can encode numbers above the last code point.  Source text never contains them.
\<close>

definition utf8_in_range :: "u8 list \<Rightarrow> bool" where
  "utf8_in_range b \<longleftrightarrow>
     list_all (\<lambda>p. case decode_wtf8_codepoint (drop p b) of
        Some (Inr (c, n)) \<Rightarrow> c \<le> MAX_CODE_POINT
      | _ \<Rightarrow> True) [0..<length b]"

lemma decode_total:
  "b \<noteq> [] \<Longrightarrow> \<exists>r. decode_wtf8_codepoint b = Some r \<and> (\<forall>c n. r = Inr (c, n) \<longrightarrow> 0 < n)"
  by (simp add: decode_wtf8_codepoint_def Let_def)

lemma utf8_parse_law:
  assumes "stream_at (unit_after b) b m s" and range: "utf8_in_range b"
  shows "\<exists>r s'. utf8_parse_unicode_codepoint s = Some (r, s') \<and> stream_at (unit_after b) b m s'
    \<and> (\<forall>c. r = Inr c \<longrightarrow> pos s < pos s' \<and> c \<le> MAX_CODE_POINT)"
proof (cases "current s = EOF_CHAR")
  case False
  then have less: "pos s < length b" "current s = ucast (b ! pos s)"
    using assms(1) by (auto simp: stream_at_def unit_after_def split: if_splits)
  show ?thesis
  proof (cases "is_ascii (current s)")
    case True
    then show ?thesis
      using unit_stream_moves(1) [OF assms(1), of 1] less False unit_code_point_le [of "b ! pos s"]
      by (auto simp: utf8_parse_unicode_codepoint_def)
  next
    case ascii: False
    have slice: "vec_slice (buf s) (pos s) (length (buf s)) = Some (drop (pos s) b)"
      using assms(1) less(1) by (simp add: vec_slice_def stream_at_def)
    obtain d where d: "decode_wtf8_codepoint (drop (pos s) b) = Some d"
      "\<forall>c n. d = Inr (c, n) \<longrightarrow> 0 < n"
      using decode_total [of "drop (pos s) b"] less(1) by auto
    moreover have "\<forall>c n. d = Inr (c, n) \<longrightarrow> c \<le> MAX_CODE_POINT"
      using range less(1) d(1)
      by (auto simp: utf8_in_range_def list_all_iff dest!: bspec [of _ _ "pos s"])
    moreover obtain s' where "unit_advance_n s (case d of Inl n \<Rightarrow> n | Inr (c, n) \<Rightarrow> n) = Some s'"
      "stream_at (unit_after b) b m s'"
      "pos s' = min (length b) (pos s + (case d of Inl n \<Rightarrow> n | Inr (c, n) \<Rightarrow> n))"
      using unit_stream_moves(1) [OF assms(1)] by blast
    ultimately show ?thesis
      using False ascii slice less(1)
      by (auto simp: utf8_parse_unicode_codepoint_def split: sum.splits prod.splits)
  qed
qed (simp add: utf8_parse_unicode_codepoint_def assms(1))

lemma utf8_parser_stream:
  assumes "utf8_in_range b"
  shows "parser_stream utf8_ops (stream_at (unit_after b) b m) (length b)"
  apply (unfold_locales; simp only: utf8_ops_def lexer_ops.select_convs)
  subgoal by (rule stream_at_len)
  subgoal by (rule stream_at_len)
  subgoal by (rule unit_stream_at_EOF)
  subgoal by (rule unit_stream_moves)
  subgoal by (simp add: unit_stream_moves(2))
  subgoal by (rule unit_peek_next)
  subgoal by (rule utf8_parse_law [OF _ assms])
  subgoal by (rule stream_at_restore)
  done

section \<open>Runs of the parser\<close>

lemma env_fields [simp]:
  "env_lexer (one_byte_env tables b) = one_byte_ops" "env_fuel (one_byte_env tables b) = Suc (length b)"
  "env_lexer (code_unit_env tables c) = code_unit_ops" "env_fuel (code_unit_env tables c) = Suc (length c)"
  "env_lexer (code_point_env tables c) = code_point_ops" "env_fuel (code_point_env tables c) = Suc (length c)"
  "env_lexer (utf8_env tables b) = utf8_ops" "env_fuel (utf8_env tables b) = Suc (length b)"
  by (simp_all add: one_byte_env_def code_unit_env_def code_point_env_def utf8_env_def regexp_env_def)

lemma ops_fields [simp]:
  "op_pos one_byte_ops = pos" "op_current one_byte_ops = current"
  "op_pos code_unit_ops = pos" "op_current code_unit_ops = current"
  "op_pos code_point_ops = pos" "op_current code_point_ops = current"
  "op_pos utf8_ops = pos" "op_current utf8_ops = current"
  by (simp_all add: one_byte_ops_def code_unit_ops_def code_point_ops_def utf8_ops_def)

interpretation one_byte_run: parser_text "one_byte_env tables b" "stream_at (unit_after b) b ()"
    "length b" "unit_after b"
  for tables b
  using one_byte_parser.parser_stream_axioms
  by (simp add: parser_text_def parser_run_def parser_run_axioms_def parser_text_axioms_def stream_at_def)

interpretation code_unit_run: parser_text "code_unit_env tables b" "stream_at (unit_after b) b m"
    "length b" "unit_after b"
  for tables b m
  using code_unit_parser.parser_stream_axioms
  by (simp add: parser_text_def parser_run_def parser_run_axioms_def parser_text_axioms_def stream_at_def)

interpretation code_point_run: parser_run "code_point_env tables b" "code_point_stream_at b" "length b"
  for tables b
  using code_point_parser.parser_stream_axioms by (simp add: parser_run_def parser_run_axioms_def)

lemma utf8_run:
  "utf8_in_range b \<Longrightarrow>
     parser_text (utf8_env tables b) (stream_at (unit_after b) b m) (length b) (unit_after b)"
  using utf8_parser_stream
  by (simp add: parser_text_def parser_run_def parser_run_axioms_def parser_text_axioms_def stream_at_def)

subsection \<open>New streams\<close>

lemma new_streams_at:
  "stream_at (unit_after b) b () (one_byte_new b)"
  "stream_at (unit_after c) c (stream.more (code_unit_new c src)) (code_unit_new c src)"
  "stream_at (unit_after b) b (stream.more (utf8_new start file b)) (utf8_new start file b)"
  by (simp_all add: stream_at_def one_byte_new_def code_unit_new_def utf8_new_def unit_after_def
      initial_current_def split: list.splits)

lemma code_point_new_at: "code_point_stream_at b (code_point_new b)"
  by (auto simp: code_point_stream_at_def code_point_new_def unit_after_def initial_current_def
      split: list.splits)

lemma new_streams_pos [simp]:
  "pos (one_byte_new b) = 0" "pos (code_unit_new c src) = 0" "pos (code_point_new c) = 0"
  "pos (utf8_new start file b) = 0"
  by (simp_all add: one_byte_new_def code_unit_new_def code_point_new_def utf8_new_def)

end
