(* ===== verification/Regexp_Pattern_Properties.thy ===== *)
theory Regexp_Pattern_Properties
  imports Regexp_Pattern Regexp_Compiler_Properties
begin

text \<open>
  Properties of the regular expression parser as the constructor and literals call it, over every
  stream, and the patterns on which it does not do what ECMAScript, or its own comments, say.
\<close>

section \<open>Sample texts\<close>

definition sample_tables :: "unit unicode_tables" where
  "sample_tables =
     \<lparr>id_start_table = (\<lambda>_. False), id_continue_table = (\<lambda>_. False), script_name_table = (\<lambda>_. None)\<rparr>"

definition parse_ascii :: "string \<Rightarrow> regexp_flags \<Rightarrow> (unit unicode_property regexp, unit) parse_result res" where
  "parse_ascii s flags = parse_pattern sample_tables True (OneByteString (ascii s)) flags"

definition sample_parsed :: "unit unicode_property regexp" where
  "sample_parsed =
     (case parse_ascii ''(a|b)*(?<n>c)'' 0 of Inr (Inr re) \<Rightarrow> re)"

lemma sample_parses: "parse_ascii ''(a|b)*(?<n>c)'' 0 = Inr (Inr sample_parsed)"
  unfolding sample_parsed_def by code_simp

section \<open>Patterns\<close>

type_synonym ('c, 'src) parsed_pattern = "('c unicode_property regexp, 'src) parse_result res"

definition parsed_ok :: "regexp_flags \<Rightarrow> ('c, 'src) parsed_pattern \<Rightarrow> bool" where
  "parsed_ok flags x \<longleftrightarrow>
     (\<exists>r. x = Inr r \<and> (\<forall>re. r = Inr re \<longrightarrow> regexp_ok re \<and> numbered re \<and> regexp_flags re = flags))"

lemma parsed_okD:
  assumes "parsed_ok flags x" and "x = Inr (Inr re)"
  shows "regexp_ok re" and "numbered re" and "regexp_flags re = flags"
  using assms by (auto simp: parsed_ok_def)

lemma parsed_ok_outcome:
  "parsed_ok flags x \<Longrightarrow>
     case x of Inl fault \<Rightarrow> False | Inr (Inl err) \<Rightarrow> True
     | Inr (Inr re) \<Rightarrow> regexp_ok re \<and> regexp_flags re = flags"
  by (auto simp: parsed_ok_def split: sum.splits)

lemma parse_pattern_parsed_ok: "parsed_ok flags (parse_pattern tables annex_b pattern_string flags)"
proof (cases pattern_string)
  case (OneByteString b)
  show ?thesis
    unfolding parsed_ok_def OneByteString parse_pattern_def flat_string.case
    by (rule one_byte_run.parse_regexp_ok [OF new_streams_at(1)])
next
  case (TwoByteString b)
  show ?thesis
    unfolding parsed_ok_def TwoByteString parse_pattern_def flat_string.case
  proof (cases "has_any_unicode_flag flags", simp_all only: if_True if_False simp_thms)
    show "\<exists>r. parse_regexp (code_point_env tables b) (code_point_new b) flags annex_b = Inr r
        \<and> (\<forall>re. r = Inr re \<longrightarrow> regexp_ok re \<and> numbered re \<and> regexp_flags re = flags)"
      by (rule code_point_run.parse_regexp_ok [OF code_point_new_at])
    show "\<exists>r. parse_regexp (code_unit_env tables b) (code_unit_new b None) flags annex_b = Inr r
        \<and> (\<forall>re. r = Inr re \<longrightarrow> regexp_ok re \<and> numbered re \<and> regexp_flags re = flags)"
      by (rule code_unit_run.parse_regexp_ok [OF new_streams_at(2)])
  qed
qed

text \<open>C19: The parser of new RegExp is total: on every string, one-byte or two-byte, and every set of
  flags, it neither panics nor runs out of a step budget of the length of the string plus one; it
  reports a syntax error or returns a tree that carries the flags and is well-formed: the numbers of its
  groups and back references are in range, and there are fewer than 2 to the 31 groups.  This is the
  hypothesis under which compiled bytecode is well-formed; it does not exclude that the compiler panics,
  which it does on a class of a single surrogate.\<close>

theorem parse_pattern_total:
  "case parse_pattern tables annex_b pattern_string flags of
     Inl fault \<Rightarrow> False
   | Inr (Inl err) \<Rightarrow> True
   | Inr (Inr re) \<Rightarrow> regexp_ok re \<and> regexp_flags re = flags"
  by (rule parsed_ok_outcome [OF parse_pattern_parsed_ok])

text \<open>C21: Capture groups are numbered from one in the order of their opening parentheses, with no gap,
  and the list of group names has the name of each at its index.\<close>

theorem parse_pattern_numbers_groups:
  assumes "parse_pattern tables annex_b pattern_string flags = Inr (Inr re)"
  shows "disjunction_groups (regexp_disjunction re) =
    zip (map word_of_nat [1..<Suc (length (regexp_capture_groups re))]) (regexp_capture_groups re)"
  using parsed_okD(2) [OF parse_pattern_parsed_ok assms] by (simp only: numbered_def)

theorem parse_pattern_numbers_groups_witness:
  "disjunction_groups (regexp_disjunction sample_parsed) = [(1, None), (2, Some (ascii ''n''))]"
proof -
  have groups: "regexp_capture_groups sample_parsed = [None, Some (ascii ''n'')]" by code_simp
  show ?thesis
    using parse_pattern_numbers_groups [OF sample_parses [unfolded parse_ascii_def]]
    by (simp add: groups upt_rec)
qed

definition sample_program :: compiled_regexp where
  "sample_program = the (compile_regexp range_icu sample_parsed)"

lemma sample_program_compiles: "compile_regexp range_icu sample_parsed = Some sample_program"
proof -
  have "compile_regexp range_icu sample_parsed \<noteq> None" by code_simp
  then show ?thesis by (auto simp: sample_program_def)
qed

lemma sample_program_small: "length (instructions sample_program) < 2 ^ 32"
proof -
  have "length (instructions sample_program) \<le> 100" by code_simp
  then show ?thesis by (rule order_le_less_trans) simp
qed

text \<open>C20: From text to match: a string that the parser accepts as a pattern, if it compiles, to fewer than
  2 to the 32 words, and is run on any other string from any index, never causes undefined behaviour, although the engine reads bytecode
  without checks.\<close>

theorem pattern_to_match_no_ub:
  assumes "icu_ok icu" and "parse_pattern tables annex_b pattern_string flags = Inr (Inr re)"
    and "compile_regexp icu re = Some prog" and "length (instructions prog) < 2 ^ 32"
  shows "run_matcher case_tables fuel prog str start_index \<noteq> Inl UB"
proof -
  have "regexp_ok re"
    by (rule parsed_okD [OF parse_pattern_parsed_ok assms(2)])
  then obtain "is" where "program_ok prog is"
    using compile_program_ok [OF assms(1) _ assms(3,4)] by blast
  from run_matcher_outcome [OF this, where icu = case_tables and fuel = fuel and str = str
      and start_index = start_index]
  show ?thesis by auto
qed

theorem pattern_to_match_no_ub_witness:
  "run_matcher identity_case 500 sample_program (OneByteString (ascii ''abc'')) 0 \<noteq> Inl UB"
  by (rule pattern_to_match_no_ub [OF range_icu_ok sample_parses [unfolded parse_ascii_def]
        sample_program_compiles sample_program_small])

section \<open>Flags and numbers\<close>

fun string_units :: "flat_string \<Rightarrow> u32 list" where
  "string_units (OneByteString b) = map ucast b"
| "string_units (TwoByteString b) = map ucast b"

lemma unit_characters: "map (unit_after b) [i..<length b] = map ucast (drop i b)"
  by (auto simp: list_eq_iff_nth_eq unit_after_def)

text \<open>C22: parse_flags accepts exactly the strings of distinct flag letters that do not have both u
  and v, whatever their order, and returns the union of their flags; on every other string it
  reports an error, and it always returns.\<close>

theorem parse_flags_accepts:
  "\<exists>r. parse_flags_string tables flags_string = Inr r
     \<and> flags_of_text (string_units flags_string) = (case r of Inl err \<Rightarrow> None | Inr flags \<Rightarrow> Some flags)"
proof (cases flags_string)
  case (OneByteString b)
  then show ?thesis
    using one_byte_run.parse_flags_text [OF new_streams_at(1)]
    by (simp add: parse_flags_string_def unit_characters [of _ 0, simplified])
next
  case (TwoByteString b)
  then show ?thesis
    using code_unit_run.parse_flags_text [OF new_streams_at(2)]
    by (simp add: parse_flags_string_def unit_characters [of _ 0, simplified])
qed

text \<open>A decimal number in a pattern is read to the end of its digits and its value is exact: the
  number that the digits denote if that is below 2 ^ 64, and no value when it is not.  The
  checked operations of the source cannot lose an overflow in the middle of a long number.\<close>

theorem parse_decimal_digits_exact:
  assumes "stream_at (unit_after b) b m (lexer_state p)"
  shows "\<exists>r p'. parse_decimal_digits (code_unit_env tables b) p = Inr (r, p')
    \<and> (let digits = takeWhile is_decimal_digit (map ucast (drop (pos (lexer_state p)) b)) in
       case r of
         Inl err \<Rightarrow> digits = [] \<and> p' = p
       | Inr x \<Rightarrow> x = decimal_value digits \<and> digits \<noteq> []
           \<and> pos (lexer_state p') = pos (lexer_state p) + length digits)"
  by (cases rule: holds_cases [OF code_unit_run.rule_parse_decimal_digits_text [OF assms, of tables]])
    (auto simp: parser_pos_def unit_characters)

theorem parse_decimal_digits_exact_witness:
  "\<exists>r p'. parse_decimal_digits (code_unit_env sample_tables [0x34, 0x32, 0x78])
      (new_regexp_parser (code_unit_new [0x34, 0x32, 0x78] (None :: unit option)) 0 True False) = Inr (r, p')
    \<and> (r = Inr (Some 42) \<and> pos (lexer_state p') = 2)"
proof -
  let ?b = "[0x34, 0x32, 0x78] :: u16 list"
  let ?p = "new_regexp_parser (code_unit_new ?b (None :: unit option)) 0 True False"
  have at: "stream_at (unit_after ?b) ?b (stream.more (code_unit_new ?b (None :: unit option))) (lexer_state ?p)"
    by (simp only: new_regexp_parser_def regexp_parser.select_convs new_streams_at)
  have start: "pos (lexer_state ?p) = 0" by (simp add: new_regexp_parser_def)
  have digits: "takeWhile is_decimal_digit (map ucast (drop 0 ?b)) = [0x34, 0x32]" by code_simp
  have v: "decimal_value [0x34, 0x32] = Some 42"
    by (simp add: decimal_value_def decimal_number_def digit_value_def)
  from parse_decimal_digits_exact [OF at, of sample_tables, unfolded Let_def start digits v]
  obtain r p' where run: "parse_decimal_digits (code_unit_env sample_tables ?b) ?p = Inr (r, p')"
    and r: "case r of
         Inl err \<Rightarrow> [0x34, 0x32] = ([] :: u32 list) \<and> p' = ?p
       | Inr x \<Rightarrow> x = Some 42 \<and> [0x34, 0x32] \<noteq> ([] :: u32 list)
           \<and> pos (lexer_state p') = 0 + length ([0x34, 0x32] :: u32 list)"
    by (elim exE conjE) (rule that)
  from r have res: "r = Inr (Some 42) \<and> pos (lexer_state p') = 2"
    by (cases r) simp_all
  show ?thesis by (rule exI [of _ r], rule exI [of _ p'], rule conjI [OF run res])
qed

section \<open>Literals\<close>

lemma utf8_parsed_ok:
  assumes "utf8_in_range b"
  shows "parsed_ok flags (parse_regexp (utf8_env tables b) (utf8_new start origin b) flags annex_b)"
  unfolding parsed_ok_def
  by (rule parser_run.parse_regexp_ok [OF parser_text.axioms(1) [OF utf8_run [OF assms]] new_streams_at(3)])

lemma code_unit_parsed_ok:
  "parsed_ok flags (parse_regexp (code_unit_env tables b) (code_unit_new b src) flags annex_b)"
  unfolding parsed_ok_def by (rule code_unit_run.parse_regexp_ok [OF new_streams_at(2)])

lemma utf8_flags_read:
  assumes "utf8_in_range b"
  shows "\<exists>r. parse_flags (utf8_env tables b) (utf8_new start origin b) = Inr r
    \<and> flags_of_text (map ucast b) = (case r of Inl err \<Rightarrow> None | Inr flags \<Rightarrow> Some flags)"
  by (rule parser_text.parse_flags_text
      [OF utf8_run [OF assms] new_streams_at(3), simplified unit_characters drop_0]) simp

text \<open>What a literal gives: no step budget runs out, and an accepted tree fits the flags.\<close>

definition literal_ok :: "regexp_flags option \<Rightarrow> ('c, 'src) parsed_pattern \<Rightarrow> bool" where
  "literal_ok flags x \<longleftrightarrow>
     (case x of Inl fault \<Rightarrow> fault = Panic | Inr (Inl err) \<Rightarrow> True
      | Inr (Inr re) \<Rightarrow> regexp_ok re \<and> flags = Some (regexp_flags re))"

lemma parsed_ok_literal: "parsed_ok flags x \<Longrightarrow> literal_ok (Some flags) x"
  by (auto simp: parsed_ok_def literal_ok_def split: sum.splits)

lemma literal_ok_rewritten:
  "literal_ok flags x \<Longrightarrow>
     literal_ok flags (case x of
       Inr (Inl err) \<Rightarrow> (case f err of None \<Rightarrow> Inl Panic | Some err \<Rightarrow> Inr (Inl err))
     | r \<Rightarrow> r)"
  by (auto simp: literal_ok_def split: sum.splits option.splits)

text \<open>C23: A literal whose pattern and flags are WTF-8 text of code points in range is parsed within the
  step budget; if it is accepted, its tree is well-formed, with the numbers of groups and back references
  in range, and carries the flags it was written with.  Panics are not excluded: parsing can panic at the
  position of an error inside a surrogate pair, and the compiler on a class of a single surrogate.\<close>

theorem parse_regexp_literal_ok:
  assumes "utf8_in_range pattern_text" and "utf8_in_range flags_text"
  shows "literal_ok (flags_of_text (map ucast flags_text))
    (parse_regexp_literal tables annex_b start_pos origin pattern_text flags_text)"
proof -
  obtain r where r: "parse_flags (utf8_env tables flags_text)
      (utf8_new (start_pos + 2 + length pattern_text) origin flags_text) = Inr r"
    and flags: "flags_of_text (map ucast flags_text)
      = (case r of Inl err \<Rightarrow> None | Inr flags \<Rightarrow> Some flags)"
    using utf8_flags_read [OF assms(2), where tables = tables
        and start = "start_pos + 2 + length pattern_text" and origin = origin] by blast
  show ?thesis
  proof (cases r)
    case (Inl err)
    show ?thesis
      unfolding parse_regexp_literal_def Let_def r flags Inl sum.case by (simp add: literal_ok_def)
  next
    case (Inr fl)
    have panic: "literal_ok (Some fl) (Inl Panic)" by (simp add: literal_ok_def)
    show ?thesis
      unfolding parse_regexp_literal_def Let_def r flags Inr sum.case
      by (auto split: option.split intro!: panic parsed_ok_literal utf8_parsed_ok code_unit_parsed_ok
          literal_ok_rewritten assms(1))
  qed
qed

theorem parse_regexp_literal_ok_witness:
  "literal_ok (Some IGNORE_CASE) (parse_regexp_literal sample_tables True 0 () (ascii ''a+'') (ascii ''i''))"
proof -
  have "utf8_in_range (ascii ''a+'')" "utf8_in_range (ascii ''i'')"
    and "flags_of_text (map ucast (ascii ''i'')) = Some IGNORE_CASE"
    by code_simp+
  then show ?thesis
    using parse_regexp_literal_ok [of "ascii ''a+''" "ascii ''i''" sample_tables True 0 "()"] by simp
qed

section \<open>Patterns that are read wrongly\<close>

text \<open>In a pattern without a Unicode flag the escape \u{ is the letter u and a brace, so
  /\u{2}/ is u twice.  The parser goes back to the letter, not behind it, and reads it again: the
  tree is u followed by u{2}.\<close>

theorem unicode_escape_reads_letter_twice:
  "case parse_ascii (CHR 0x5C # ''u{2}'') 0 of
     Inr (Inr re) \<Rightarrow> regexp_disjunction re = Disjunction [Alternative
       [Literal (ascii ''u''), QuantifierTerm (Quantifier (Literal (ascii ''u'')) 2 (Some 2) True)]]
   | _ \<Rightarrow> False"
  by code_simp

text \<open>In v mode a negated class must not contain strings.  The check forgets the first operand of
  a union, so /[^\q{ab}c]/v is accepted, and of an intersection, so /[^a&&\q{ab}]/v, which
  contains no strings, is refused.\<close>

theorem negated_class_check_skips_first_operand:
  "(case parse_ascii (''[^'' @ CHR 0x5C # ''q{ab}c]'') UNICODE_SETS of
      Inr (Inr re) \<Rightarrow> True | _ \<Rightarrow> False)
   \<and> (case parse_ascii (''[^a&&'' @ CHR 0x5C # ''q{ab}]'') UNICODE_SETS of
      Inr (Inl err) \<Rightarrow> error_kind err = InvertedCharacterClassContainStrings | _ \<Rightarrow> False)"
  by code_simp

text \<open>On a two-byte string with a Unicode flag, peek_n reads the current code point instead of
  the next one: new RegExp("\\d\u0100", "u") is a syntax error, since the backslash of \d is
  taken for the character after it.\<close>

theorem code_point_peek_refuses_escape:
  "case parse_pattern sample_tables True (TwoByteString [0x5C, 0x64, 0x100]) UNICODE_AWARE of
     Inr (Inl err) \<Rightarrow> error_kind err = MalformedEscapeSeqence | _ \<Rightarrow> False"
  by code_simp

text \<open>A literal without a Unicode flag is read in UTF-16 code units, and an error may start inside
  a surrogate pair.  The conversion of its position asserts that this never happens:
  /[U+1F600-a]/ panics where checks are on.\<close>

theorem literal_error_inside_pair_panics:
  "parse_regexp_literal sample_tables True 0 () (ascii ''['' @ utf8_bytes 0x1F600 @ ascii ''-a]'') []
     = Inl Panic"
  by code_simp

end
