(* ===== verification/Map_Interface.thy ===== *)
theory Map_Interface
  imports Prelude
begin

text \<open>
  What the engine's hash tables promise.  The abstract value of a table is the list of its entries;
  \<open>put\<close> overwrites in place or appends, as \<open>Map.prototype.set\<close> of ECMAScript does.

  \<open>finite_map\<close> is the contract without an order, which tables need for lookup; \<open>ordered_map\<close> is the
  contract with one, from which the other follows.  A table has \<open>space\<close> for so many new keys.  What
  both tables do when they grow, inserting the entries of one into another, is verified here, once.
\<close>

section \<open>Association lists in insertion order\<close>

fun put :: "'k \<Rightarrow> 'v \<Rightarrow> ('k \<times> 'v) list \<Rightarrow> ('k \<times> 'v) list" where
  "put k v [] = [(k, v)]"
| "put k v ((k', v') # xs) = (if k = k' then (k, v) # xs else (k', v') # put k v xs)"

definition del :: "'k \<Rightarrow> ('k \<times> 'v) list \<Rightarrow> ('k \<times> 'v) list" where
  "del k = filter (\<lambda>(k', _). k' \<noteq> k)"

definition has_key :: "'k \<Rightarrow> ('k \<times> 'v) list \<Rightarrow> bool" where
  "has_key k xs \<longleftrightarrow> k \<in> fst ` set xs"

lemma map_of_put [simp]: "map_of (put k v xs) = (map_of xs)(k \<mapsto> v)"
  by (induction xs rule: put.induct) (auto simp: fun_eq_iff)

lemma map_of_del [simp]: "map_of (del k xs) = (map_of xs)(k := None)"
  by (induction xs) (auto simp: del_def fun_eq_iff)

lemma has_key_iff: "has_key k xs \<longleftrightarrow> map_of xs k \<noteq> None"
  by (simp add: has_key_def map_of_eq_None_iff)

lemma put_new: "\<not> has_key k xs \<Longrightarrow> put k v xs = xs @ [(k, v)]"
  by (induction xs rule: put.induct) (auto simp: has_key_def)

lemma put_split:
  "k \<notin> fst ` set xs \<Longrightarrow> put k v (xs @ (k, w) # ys) = xs @ (k, v) # ys"
  by (induction xs) auto

lemma distinct_put: "distinct (map fst xs) \<Longrightarrow> distinct (map fst (put k v xs))"
  and keys_put: "fst ` set (put k v xs) = insert k (fst ` set xs)"
  by (induction xs rule: put.induct) auto

lemma distinct_del: "distinct (map fst xs) \<Longrightarrow> distinct (map fst (del k xs))"
  by (simp add: del_def distinct_map_filter)

lemma del_absent: "k \<notin> fst ` set xs \<Longrightarrow> del k xs = xs"
  by (force simp: del_def filter_id_conv)

lemma del_split: "k \<notin> fst ` set xs \<Longrightarrow> k \<notin> fst ` set ys \<Longrightarrow> del k (xs @ (k, v) # ys) = xs @ ys"
  using del_absent [of k xs] del_absent [of k ys] by (simp add: del_def)

text \<open>The effect of \<open>put\<close> on part of a list: no new entry.\<close>

definition overwrite :: "'k \<Rightarrow> 'v \<Rightarrow> ('k \<times> 'v) list \<Rightarrow> ('k \<times> 'v) list" where
  "overwrite k v = map (\<lambda>(k', v'). if k' = k then (k, v) else (k', v'))"

lemma overwrite_absent: "k \<notin> fst ` set xs \<Longrightarrow> overwrite k v xs = xs"
  unfolding overwrite_def by (intro map_idI) (auto split: prod.split simp: image_iff)

lemma put_overwrite:
  "has_key k xs \<Longrightarrow> distinct (map fst xs) \<Longrightarrow> put k v xs = overwrite k v xs"
  using overwrite_absent [of k _ v]
  by (induction xs rule: put.induct) (auto simp: has_key_def overwrite_def)

lemma del_concat: "del k (concat xss) = concat (map (del k) xss)"
  by (simp add: del_def filter_concat)

lemma overwrite_concat: "overwrite k v (concat xss) = concat (map (overwrite k v) xss)"
  by (simp add: overwrite_def map_concat)

text \<open>A key occurs in one place.\<close>

lemma one_place:
  assumes "distinct (map fst (concat xss))" and "j < length xss" and "xss ! j = [(k, w)]"
  shows "map (del k) xss = xss[j := []]" and "map (overwrite k v) xss = xss[j := [(k, v)]]"
proof -
  define ys zs where "ys = take j xss" and "zs = drop (Suc j) xss"
  have split: "xss = ys @ [(k, w)] # zs"
    unfolding ys_def zs_def assms(3) [symmetric] by (rule id_take_nth_drop [OF assms(2)])
  have update: "xss[j := xs] = ys @ xs # zs" for xs
    unfolding ys_def zs_def by (rule upd_conv_take_nth_drop [OF assms(2)])
  have "distinct (map fst (concat ys) @ k # map fst (concat zs))"
    using assms(1) unfolding split by simp
  then have absent: "k \<notin> fst ` set xs" if "xs \<in> set (ys @ zs)" for xs
    using that by (auto simp: image_iff)
  have "map (del k) ys = ys" "map (del k) zs = zs"
    and "map (overwrite k v) ys = ys" "map (overwrite k v) zs = zs"
    by (rule map_idI, simp add: absent del_absent overwrite_absent)+
  then show "map (del k) xss = xss[j := []]" "map (overwrite k v) xss = xss[j := [(k, v)]]"
    unfolding update by (simp_all add: split del_def overwrite_def)
qed

lemma length_del:
  "distinct (map fst xs) \<Longrightarrow> has_key k xs \<Longrightarrow> length (del k xs) = length xs - 1"
proof (induction xs)
  case (Cons x xs)
  then show ?case
    using del_absent [of k xs]
    by (cases "fst x = k"; cases xs) (auto simp: has_key_def del_def)
qed (simp add: has_key_def)

lemma length_put: "length (put k v xs) = (if has_key k xs then length xs else Suc (length xs))"
  by (induction xs rule: put.induct) (auto simp: has_key_def)

section \<open>The contracts\<close>

text \<open>
  The result of an operation is an option: \<open>None\<close> is undefined behaviour or a loop without end.
\<close>

primrec insert_all ::
  "('k \<Rightarrow> 'v \<Rightarrow> 'm \<Rightarrow> (bool \<times> 'm) option) \<Rightarrow> ('k \<times> 'v) list \<Rightarrow> 'm \<Rightarrow> 'm option" where
  "insert_all ins [] m = Some m"
| "insert_all ins (kv # kvs) m = do {
     (_, m) \<leftarrow> ins (fst kv) (snd kv) m;
     insert_all ins kvs m
   }"

locale finite_map =
  fixes lookup :: "'m \<Rightarrow> 'k \<Rightarrow> 'v option option"
    and ins :: "'k \<Rightarrow> 'v \<Rightarrow> 'm \<Rightarrow> (bool \<times> 'm) option"
    and rem :: "'k \<Rightarrow> 'm \<Rightarrow> (bool \<times> 'm) option"
    and ok :: "'m \<Rightarrow> bool"
    and space :: "'m \<Rightarrow> nat"
    and al :: "'m \<Rightarrow> ('k \<times> 'v) list"
  assumes lookup: "ok m \<Longrightarrow> lookup m k = Some (map_of (al m) k)"
    and distinct: "ok m \<Longrightarrow> distinct (map fst (al m))"
    and ins: "ok m \<Longrightarrow> 0 < space m \<Longrightarrow> \<exists>m'. ins k v m = Some (has_key k (al m), m') \<and> ok m'
      \<and> map_of (al m') = (map_of (al m))(k \<mapsto> v) \<and> space m \<le> Suc (space m')"
    and rem: "ok m \<Longrightarrow> \<exists>m'. rem k m = Some (has_key k (al m), m') \<and> ok m'
      \<and> map_of (al m') = (map_of (al m))(k := None)"
begin

lemma insert_all_ok:
  "ok m \<Longrightarrow> length xs \<le> space m \<Longrightarrow>
     \<exists>m'. insert_all ins xs m = Some m' \<and> ok m' \<and> map_of (al m') = map_of (al m) ++ map_of (rev xs)
       \<and> space m \<le> length xs + space m'"
proof (induction xs arbitrary: m)
  case (Cons kv xs)
  obtain m1 where m1: "ins (fst kv) (snd kv) m = Some (has_key (fst kv) (al m), m1)" "ok m1"
    "map_of (al m1) = (map_of (al m))(fst kv \<mapsto> snd kv)" "space m \<le> Suc (space m1)"
    using ins [OF Cons.prems(1)] Cons.prems(2) by fastforce
  from Cons.IH [OF m1(2)] Cons.prems(2) m1(4)
  obtain m' where m': "insert_all ins xs m1 = Some m'" "ok m'"
    "map_of (al m') = map_of (al m1) ++ map_of (rev xs)" "space m1 \<le> length xs + space m'"
    by auto
  have "map_of (al m') = map_of (al m) ++ map_of (rev (kv # xs))"
    unfolding m'(3) m1(3) by (cases kv) (auto simp: map_add_def fun_eq_iff split: option.splits)
  then show ?case using m1(1,4) m'(1,2,4) by auto
qed auto

text \<open>A table into which all entries of another one are inserted has the same value.\<close>

lemma insert_all_copies:
  assumes "ok new" and "al new = []" and "distinct (map fst xs)" and "length xs \<le> space new"
  shows "\<exists>m'. insert_all ins xs new = Some m' \<and> ok m' \<and> map_of (al m') = map_of xs
    \<and> space new \<le> length xs + space m'"
  using insert_all_ok [OF assms(1,4)] assms(2,3) map_of_inject_set [of "rev xs" xs]
  by (fastforce simp: rev_map [symmetric])

lemma lookup_insert:
  assumes "ok m" and "0 < space m" and "ins k v m = Some (present, m')"
  shows "lookup m' j = (if j = k then Some (Some v) else lookup m j)"
  using ins [OF assms(1,2), of k v] assms(1,3) by (auto simp: lookup)

lemma lookup_remove:
  assumes "ok m" and "rem k m = Some (present, m')"
  shows "lookup m' j = (if j = k then Some None else lookup m j)"
  using rem [OF assms(1), of k] assms by (auto simp: lookup)

end

locale ordered_map =
  fixes lookup :: "'m \<Rightarrow> 'k \<Rightarrow> 'v option option"
    and ins :: "'k \<Rightarrow> 'v \<Rightarrow> 'm \<Rightarrow> (bool \<times> 'm) option"
    and rem :: "'k \<Rightarrow> 'm \<Rightarrow> (bool \<times> 'm) option"
    and ok :: "'m \<Rightarrow> bool"
    and space :: "'m \<Rightarrow> nat"
    and al :: "'m \<Rightarrow> ('k \<times> 'v) list"
  assumes ordered_lookup: "ok m \<Longrightarrow> lookup m k = Some (map_of (al m) k)"
    and ordered_distinct: "ok m \<Longrightarrow> distinct (map fst (al m))"
    and ordered_ins: "ok m \<Longrightarrow> 0 < space m \<Longrightarrow>
      \<exists>m'. ins k v m = Some (has_key k (al m), m') \<and> ok m' \<and> al m' = put k v (al m)
        \<and> space m \<le> Suc (space m')"
    and ordered_rem: "ok m \<Longrightarrow>
      \<exists>m'. rem k m = Some (has_key k (al m), m') \<and> ok m' \<and> al m' = del k (al m)"

sublocale ordered_map \<subseteq> finite_map lookup ins rem ok space al
proof
  fix m k v
  assume ok: "ok m"
  show "lookup m k = Some (map_of (al m) k)" using ok by (rule ordered_lookup)
  show "distinct (map fst (al m))" using ok by (rule ordered_distinct)
  show "\<exists>m'. rem k m = Some (has_key k (al m), m') \<and> ok m'
      \<and> map_of (al m') = (map_of (al m))(k := None)"
    using ordered_rem [OF ok, of k] by auto
  assume "0 < space m"
  then show "\<exists>m'. ins k v m = Some (has_key k (al m), m') \<and> ok m'
      \<and> map_of (al m') = (map_of (al m))(k \<mapsto> v) \<and> space m \<le> Suc (space m')"
    using ordered_ins [OF ok, of k v] by auto
qed

end
