(* ===== verification/Index_Map.thy ===== *)
theory Index_Map
  imports Map_Interface
begin

text \<open>
  \<open>runtime/collections/index_map.rs\<close>: \<open>BsIndexMap\<close>, the insertion-ordered hash table behind \<open>Map\<close>,
  \<open>Set\<close> and named properties, and \<open>runtime/intrinsics/map_object.rs\<close> and \<open>map_iterator.rs\<close>, which
  insert into it and iterate over it.

  A slot of the index array is a \<open>usize\<close> with three uses: the sentinel \<open>EMPTY_INDEX\<close>, the index of an
  entry, and in the first slot of a tombstone the address of the new map; \<open>index_slot\<close> tells them
  apart.  Entries that were never written are uninitialised memory, \<open>None\<close>.  Operations read memory
  without checks: a read out of range, of uninitialised memory or of a slot in the wrong use is
  undefined behaviour, and the operation is \<open>None\<close>, as it is for a cyclic chain, which is followed
  forever.  The hash function of a key is a parameter.

  Maps live on a heap, a list of maps whose addresses are positions in it.
\<close>

section \<open>The table\<close>

datatype index_slot = EMPTY_INDEX | EntryIndex nat | NewMap nat

datatype ('k, 'v) index_entry =
    DeletedEntry (entry_chain: index_slot)
  | OccupiedEntry (entry_key: 'k) (entry_value: 'v) (entry_chain: index_slot)

record ('k, 'v) index_map =
  is_tombstone :: bool
  num_occupied :: nat
  num_deleted :: nat
  map_indices :: "index_slot list"
  map_entries :: "('k, 'v) index_entry option list"

definition INDEX_MAP_MIN_CAPACITY :: nat where
  "INDEX_MAP_MIN_CAPACITY = 4"

definition new_index_map :: "nat \<Rightarrow> ('k, 'v) index_map" where
  "new_index_map capacity =
     \<lparr>is_tombstone = False, num_occupied = 0, num_deleted = 0,
      map_indices = replicate capacity EMPTY_INDEX, map_entries = replicate capacity None\<rparr>"

definition num_entries_used :: "('k, 'v) index_map \<Rightarrow> nat" where
  "num_entries_used m = num_occupied m + num_deleted m"

definition index_map_capacity :: "('k, 'v) index_map \<Rightarrow> nat" where
  "index_map_capacity m = length (map_indices m)"

definition get_entry_unchecked :: "('k, 'v) index_map \<Rightarrow> nat \<Rightarrow> ('k, 'v) index_entry option" where
  "get_entry_unchecked m entry_index =
     (if entry_index < length (map_entries m) then map_entries m ! entry_index else None)"

definition index_map_mask :: "('k, 'v) index_map \<Rightarrow> nat" where
  "index_map_mask m = index_map_capacity m - 1"

definition hash_index :: "('k, 'v) index_map \<Rightarrow> nat \<Rightarrow> nat" where
  "hash_index m hash_code = hash_code AND index_map_mask m"

section \<open>Operations\<close>

text \<open>The loop of \<open>find_index\<close>.\<close>

partial_function (option) find_in_chain ::
  "('k, 'v) index_map \<Rightarrow> 'k \<Rightarrow> index_slot \<Rightarrow> nat option option" where
  "find_in_chain m key current_entry_index =
     (case current_entry_index of
        EMPTY_INDEX \<Rightarrow> Some None
      | NewMap _ \<Rightarrow> None
      | EntryIndex i \<Rightarrow>
          (case get_entry_unchecked m i of
             None \<Rightarrow> None
           | Some (OccupiedEntry k v c) \<Rightarrow>
               if k = key then Some (Some i) else find_in_chain m key c
           | Some (DeletedEntry c) \<Rightarrow> find_in_chain m key c))"

definition index_map_find_index :: "('k \<Rightarrow> nat) \<Rightarrow> ('k, 'v) index_map \<Rightarrow> 'k \<Rightarrow> nat option option" where
  "index_map_find_index hash m key =
     (if index_map_capacity m = 0 then Some None
      else do {
        current_entry_index \<leftarrow> vec_get (map_indices m) (hash_index m (hash key));
        find_in_chain m key current_entry_index
      })"

definition index_map_contains_key :: "('k \<Rightarrow> nat) \<Rightarrow> ('k, 'v) index_map \<Rightarrow> 'k \<Rightarrow> bool option" where
  "index_map_contains_key hash m key =
     map_option (\<lambda>found. found \<noteq> None) (index_map_find_index hash m key)"

definition index_map_get :: "('k \<Rightarrow> nat) \<Rightarrow> ('k, 'v) index_map \<Rightarrow> 'k \<Rightarrow> 'v option option" where
  "index_map_get hash m key = do {
     found \<leftarrow> index_map_find_index hash m key;
     (case found of
        None \<Rightarrow> Some None
      | Some entry_index \<Rightarrow>
          (case get_entry_unchecked m entry_index of
             Some (OccupiedEntry k v c) \<Rightarrow> Some (Some v)
           | _ \<Rightarrow> None))
   }"

definition index_map_remove ::
  "('k \<Rightarrow> nat) \<Rightarrow> 'k \<Rightarrow> ('k, 'v) index_map \<Rightarrow> (bool \<times> ('k, 'v) index_map) option" where
  "index_map_remove hash key m = do {
     found \<leftarrow> index_map_find_index hash m key;
     (case found of
        None \<Rightarrow> Some (False, m)
      | Some entry_index \<Rightarrow>
          (case get_entry_unchecked m entry_index of
             Some (OccupiedEntry k v c) \<Rightarrow>
               Some (True, m\<lparr>map_entries := (map_entries m)[entry_index := Some (DeletedEntry c)],
                             num_occupied := num_occupied m - 1,
                             num_deleted := num_deleted m + 1\<rparr>)
           | _ \<Rightarrow> None))
   }"

definition index_map_clear :: "('k, 'v) index_map \<Rightarrow> ('k, 'v) index_map" where
  "index_map_clear m =
     m\<lparr>map_indices := replicate (index_map_capacity m) EMPTY_INDEX, num_occupied := 0, num_deleted := 0\<rparr>"

text \<open>
  The loop of \<open>insert_without_growing\<close> over a chain that is not empty: the entries after it, and
  whether the key was there.
\<close>

partial_function (option) insert_in_chain ::
  "('k, 'v) index_map \<Rightarrow> 'k \<Rightarrow> 'v \<Rightarrow> nat \<Rightarrow> nat
     \<Rightarrow> (bool \<times> ('k, 'v) index_map) option" where
  "insert_in_chain m key v next_empty_entry_index current_entry_index =
     (case get_entry_unchecked m current_entry_index of
        None \<Rightarrow> None
      | Some (DeletedEntry c) \<Rightarrow>
          (case c of
             EMPTY_INDEX \<Rightarrow>
               Some (False, m\<lparr>map_entries := (map_entries m)[current_entry_index :=
                 Some (DeletedEntry (EntryIndex next_empty_entry_index))]\<rparr>)
           | EntryIndex next_entry_index \<Rightarrow>
               insert_in_chain m key v next_empty_entry_index next_entry_index
           | NewMap _ \<Rightarrow> None)
      | Some (OccupiedEntry k w c) \<Rightarrow>
          if k = key then
            Some (True, m\<lparr>map_entries := (map_entries m)[current_entry_index :=
              Some (OccupiedEntry k v c)]\<rparr>)
          else
            (case c of
               EMPTY_INDEX \<Rightarrow>
                 Some (False, m\<lparr>map_entries := (map_entries m)[current_entry_index :=
                   Some (OccupiedEntry k w (EntryIndex next_empty_entry_index))]\<rparr>)
             | EntryIndex next_entry_index \<Rightarrow>
                 insert_in_chain m key v next_empty_entry_index next_entry_index
             | NewMap _ \<Rightarrow> None))"

definition add_entry ::
  "'k \<Rightarrow> 'v \<Rightarrow> nat \<Rightarrow> ('k, 'v) index_map \<Rightarrow> (bool \<times> ('k, 'v) index_map) option" where
  "add_entry key v next_empty_entry_index m = do {
     new_entries \<leftarrow> vec_set (map_entries m) next_empty_entry_index
       (Some (OccupiedEntry key v EMPTY_INDEX));
     Some (False, m\<lparr>map_entries := new_entries, num_occupied := num_occupied m + 1\<rparr>)
   }"

definition index_map_insert_without_growing ::
  "('k \<Rightarrow> nat) \<Rightarrow> 'k \<Rightarrow> 'v \<Rightarrow> ('k, 'v) index_map \<Rightarrow> (bool \<times> ('k, 'v) index_map) option" where
  "index_map_insert_without_growing hash key v m = do {
     let slot = hash_index m (hash key);
     let next_empty_entry_index = num_entries_used m;
     current_entry_index \<leftarrow> vec_get (map_indices m) slot;
     (case current_entry_index of
        EMPTY_INDEX \<Rightarrow>
          add_entry key v next_empty_entry_index
            (m\<lparr>map_indices := (map_indices m)[slot := EntryIndex next_empty_entry_index]\<rparr>)
      | EntryIndex i \<Rightarrow> do {
          (present, m) \<leftarrow> insert_in_chain m key v next_empty_entry_index i;
          if present then Some (True, m) else add_entry key v next_empty_entry_index m
        }
      | NewMap _ \<Rightarrow> None)
   }"

section \<open>Iteration\<close>

text \<open>The occupied ones of a list of initialised entries, in order.\<close>

fun occupied_entries :: "('k, 'v) index_entry option list \<Rightarrow> ('k \<times> 'v) list" where
  "occupied_entries [] = []"
| "occupied_entries (Some (OccupiedEntry k v c) # es) = (k, v) # occupied_entries es"
| "occupied_entries (_ # es) = occupied_entries es"

definition index_map_iter :: "('k, 'v) index_map \<Rightarrow> ('k \<times> 'v) list option" where
  "index_map_iter m = do {
     used \<leftarrow> vec_slice (map_entries m) 0 (num_entries_used m);
     if None \<in> set used then None else Some (occupied_entries used)
   }"

text \<open>
  \<open>GcSafeEntriesIter::next\<close>, an iterator that holds an index and may outlive changes of the map.  The
  index moves only when an entry is found.
\<close>

function next_occupied :: "('k, 'v) index_map \<Rightarrow> nat \<Rightarrow> (('k \<times> 'v) \<times> nat) option option" where
  "next_occupied m current_entry_index =
     (if current_entry_index < num_entries_used m then
        (case get_entry_unchecked m current_entry_index of
           None \<Rightarrow> None
         | Some (OccupiedEntry k v c) \<Rightarrow> Some (Some ((k, v), current_entry_index + 1))
         | Some (DeletedEntry c) \<Rightarrow> next_occupied m (current_entry_index + 1))
      else Some None)"
  by pat_completeness auto
termination
  by (relation "measure (\<lambda>(m, i). num_entries_used m - i)") auto

declare next_occupied.simps [simp del]

definition gc_safe_next :: "('k, 'v) index_map \<Rightarrow> nat \<Rightarrow> (('k \<times> 'v) option \<times> nat) option" where
  "gc_safe_next m next_entry_index =
     (case next_occupied m next_entry_index of
        None \<Rightarrow> None
      | Some None \<Rightarrow> Some (None, next_entry_index)
      | Some (Some (kv, i)) \<Rightarrow> Some (Some kv, i))"

section \<open>Maps on the heap\<close>

type_synonym ('k, 'v) map_heap = "('k, 'v) index_map list"

definition get_new_map_ptr :: "('k, 'v) index_map \<Rightarrow> nat option" where
  "get_new_map_ptr m =
     (case vec_get (map_indices m) 0 of Some (NewMap address) \<Rightarrow> Some address | _ \<Rightarrow> None)"

definition set_new_map_ptr :: "nat \<Rightarrow> ('k, 'v) index_map \<Rightarrow> ('k, 'v) index_map option" where
  "set_new_map_ptr new_map_ptr m = do {
     new_indices \<leftarrow> vec_set (map_indices m) 0 (NewMap new_map_ptr);
     Some (m\<lparr>map_indices := new_indices\<rparr>)
   }"

definition index_map_new_capacity :: "('k, 'v) index_map \<Rightarrow> nat" where
  "index_map_new_capacity old_map =
     (let capacity = index_map_capacity old_map in
      if capacity = 0 then INDEX_MAP_MIN_CAPACITY
      else if num_deleted old_map > capacity div 2 then capacity
      else capacity * 2)"

text \<open>
  \<open>maybe_grow_for_insertion\<close> of a field that holds the address of a map: the heap and the field
  after it.
\<close>

definition index_map_maybe_grow ::
  "('k \<Rightarrow> nat) \<Rightarrow> nat \<Rightarrow> ('k, 'v) map_heap \<Rightarrow> (nat \<times> ('k, 'v) map_heap) option" where
  "index_map_maybe_grow hash map_field heap = do {
     old_map \<leftarrow> vec_get heap map_field;
     let capacity = index_map_capacity old_map;
     if num_entries_used old_map < capacity then Some (map_field, heap)
     else do {
       let new_address = length heap;
       old_entries \<leftarrow> index_map_iter old_map;
       new_map \<leftarrow> insert_all (index_map_insert_without_growing hash) old_entries
         (new_index_map (index_map_new_capacity old_map));
       if capacity \<noteq> 0 then do {
         tombstone \<leftarrow> set_new_map_ptr new_address (old_map\<lparr>is_tombstone := True\<rparr>);
         Some (new_address, heap[map_field := tombstone] @ [new_map])
       } else Some (new_address, heap @ [new_map])
     }
   }"

text \<open>The \<open>insert\<close> of map objects.\<close>

definition map_object_insert ::
  "('k \<Rightarrow> nat) \<Rightarrow> 'k \<Rightarrow> 'v \<Rightarrow> nat \<Rightarrow> ('k, 'v) map_heap
     \<Rightarrow> (bool \<times> nat \<times> ('k, 'v) map_heap) option" where
  "map_object_insert hash key v map_field heap = do {
     (map_field, heap) \<leftarrow> index_map_maybe_grow hash map_field heap;
     m \<leftarrow> vec_get heap map_field;
     (present, m) \<leftarrow> index_map_insert_without_growing hash key v m;
     Some (present, map_field, heap[map_field := m])
   }"

text \<open>
  An iterator of a map object.  \<open>fix_iterator_for_resized_map\<close> moves it from a tombstone to the map
  that took its place.
\<close>

datatype map_iterator_kind = KeyKind | ValueKind | KeyAndValueKind

record map_iterator =
  iterator_map :: nat
  next_entry_index :: nat
  iterator_kind :: map_iterator_kind
  is_done :: bool

definition is_occupied :: "('k, 'v) index_entry option \<Rightarrow> bool" where
  "is_occupied e = (case e of Some (OccupiedEntry _ _ _) \<Rightarrow> True | _ \<Rightarrow> False)"

definition fix_iterator_for_resized_map :: "('k, 'v) index_map \<Rightarrow> nat \<Rightarrow> (nat \<times> nat) option" where
  "fix_iterator_for_resized_map tombstone_map i = do {
     let seen = take i (map_entries tombstone_map);
     if None \<in> set seen then None
     else do {
       address \<leftarrow> get_new_map_ptr tombstone_map;
       Some (address, length (filter is_occupied seen))
     }
   }"

partial_function (option) follow_tombstones ::
  "('k, 'v) map_heap \<Rightarrow> nat \<Rightarrow> nat \<Rightarrow> (nat \<times> nat) option" where
  "follow_tombstones heap address i = do {
     m \<leftarrow> vec_get heap address;
     if is_tombstone m then do {
       (address, i) \<leftarrow> fix_iterator_for_resized_map m i;
       follow_tombstones heap address i
     } else Some (address, i)
   }"

definition map_iterator_next ::
  "('k, 'v) map_heap \<Rightarrow> map_iterator \<Rightarrow> (('k \<times> 'v) option \<times> map_iterator) option" where
  "map_iterator_next heap it =
     (if is_done it then Some (None, it)
      else do {
        (address, i) \<leftarrow> follow_tombstones heap (iterator_map it) (next_entry_index it);
        m \<leftarrow> vec_get heap address;
        (iter_result, i) \<leftarrow> gc_safe_next m i;
        Some (iter_result,
          it\<lparr>iterator_map := address, next_entry_index := i, is_done := (iter_result = None)\<rparr>)
      })"

text \<open>The step of the loop of \<open>Map.prototype.forEach\<close>, which holds on to the map it started with.\<close>

definition for_each_next :: "('k, 'v) map_heap \<Rightarrow> nat \<Rightarrow> nat \<Rightarrow> (('k \<times> 'v) option \<times> nat) option" where
  "for_each_next heap address index = do {
     m \<leftarrow> vec_get heap address;
     gc_safe_next m index
   }"

section \<open>Calls of a script\<close>

text \<open>
  What a script does with a map and an iterator over it: the methods of \<open>Map.prototype\<close>, a new
  iterator, and its \<open>next\<close>.  A key stands for its class under \<open>SameValueZero\<close>, which the
  equality of collection keys is.
\<close>

datatype ('k, 'v) map_call =
    MapSet 'k 'v
  | MapDelete 'k
  | MapGet 'k
  | MapHas 'k
  | MapSize
  | MapEntries
  | MapKeys
  | MapValues
  | IteratorNext

text \<open>The value of an iteration result: a key, a value or an array of both.\<close>

datatype ('k, 'v) iter_item = KeyItem 'k | ValueItem 'v | PairItem 'k 'v

definition iter_result_value :: "map_iterator_kind \<Rightarrow> 'k \<times> 'v \<Rightarrow> ('k, 'v) iter_item" where
  "iter_result_value kind kv =
     (case kind of
        KeyKind \<Rightarrow> KeyItem (fst kv)
      | ValueKind \<Rightarrow> ValueItem (snd kv)
      | KeyAndValueKind \<Rightarrow> PairItem (fst kv) (snd kv))"

datatype ('k, 'v) map_result =
    ReturnThis
  | ReturnBool bool
  | ReturnValue "'v option"
  | ReturnSize nat
  | ReturnIterator
  | IterResult "('k, 'v) iter_item option"

record ('k, 'v) map_world =
  map_data :: nat
  world_heap :: "('k, 'v) map_heap"
  world_iterator :: map_iterator

definition new_map_iterator :: "nat \<Rightarrow> map_iterator_kind \<Rightarrow> map_iterator" where
  "new_map_iterator address kind =
     \<lparr>iterator_map = address, next_entry_index = 0, iterator_kind = kind, is_done = False\<rparr>"

text \<open>A new map object, and the iterator of a first call of \<open>entries\<close>.\<close>

definition new_map_world :: "('k, 'v) map_world" where
  "new_map_world = \<lparr>map_data = 0, world_heap = [new_index_map INDEX_MAP_MIN_CAPACITY],
     world_iterator = new_map_iterator 0 KeyAndValueKind\<rparr>"

definition map_prototype_set ::
  "('k \<Rightarrow> nat) \<Rightarrow> 'k \<Rightarrow> 'v \<Rightarrow> ('k, 'v) map_world \<Rightarrow> (('k, 'v) map_result \<times> ('k, 'v) map_world) option" where
  "map_prototype_set hash key v w = do {
     (present, field, heap) \<leftarrow> map_object_insert hash key v (map_data w) (world_heap w);
     Some (ReturnThis, w\<lparr>map_data := field, world_heap := heap\<rparr>)
   }"

definition map_prototype_delete ::
  "('k \<Rightarrow> nat) \<Rightarrow> 'k \<Rightarrow> ('k, 'v) map_world \<Rightarrow> (('k, 'v) map_result \<times> ('k, 'v) map_world) option" where
  "map_prototype_delete hash key w = do {
     m \<leftarrow> vec_get (world_heap w) (map_data w);
     (existed, m) \<leftarrow> index_map_remove hash key m;
     Some (ReturnBool existed, w\<lparr>world_heap := (world_heap w)[map_data w := m]\<rparr>)
   }"

definition map_prototype_get ::
  "('k \<Rightarrow> nat) \<Rightarrow> 'k \<Rightarrow> ('k, 'v) map_world \<Rightarrow> (('k, 'v) map_result \<times> ('k, 'v) map_world) option" where
  "map_prototype_get hash key w = do {
     m \<leftarrow> vec_get (world_heap w) (map_data w);
     v \<leftarrow> index_map_get hash m key;
     Some (ReturnValue v, w)
   }"

definition map_prototype_has ::
  "('k \<Rightarrow> nat) \<Rightarrow> 'k \<Rightarrow> ('k, 'v) map_world \<Rightarrow> (('k, 'v) map_result \<times> ('k, 'v) map_world) option" where
  "map_prototype_has hash key w = do {
     m \<leftarrow> vec_get (world_heap w) (map_data w);
     present \<leftarrow> index_map_contains_key hash m key;
     Some (ReturnBool present, w)
   }"

definition map_prototype_size ::
  "('k \<Rightarrow> nat) \<Rightarrow> ('k, 'v) map_world \<Rightarrow> (('k, 'v) map_result \<times> ('k, 'v) map_world) option" where
  "map_prototype_size hash w = do {
     m \<leftarrow> vec_get (world_heap w) (map_data w);
     Some (ReturnSize (num_occupied m), w)
   }"

definition map_prototype_entries ::
  "('k \<Rightarrow> nat) \<Rightarrow> ('k, 'v) map_world \<Rightarrow> (('k, 'v) map_result \<times> ('k, 'v) map_world) option" where
  "map_prototype_entries hash w =
     Some (ReturnIterator, w\<lparr>world_iterator := new_map_iterator (map_data w) KeyAndValueKind\<rparr>)"

definition map_prototype_keys ::
  "('k \<Rightarrow> nat) \<Rightarrow> ('k, 'v) map_world \<Rightarrow> (('k, 'v) map_result \<times> ('k, 'v) map_world) option" where
  "map_prototype_keys hash w =
     Some (ReturnIterator, w\<lparr>world_iterator := new_map_iterator (map_data w) KeyKind\<rparr>)"

definition map_prototype_values ::
  "('k \<Rightarrow> nat) \<Rightarrow> ('k, 'v) map_world \<Rightarrow> (('k, 'v) map_result \<times> ('k, 'v) map_world) option" where
  "map_prototype_values hash w =
     Some (ReturnIterator, w\<lparr>world_iterator := new_map_iterator (map_data w) ValueKind\<rparr>)"

definition map_iterator_prototype_next ::
  "('k \<Rightarrow> nat) \<Rightarrow> ('k, 'v) map_world \<Rightarrow> (('k, 'v) map_result \<times> ('k, 'v) map_world) option" where
  "map_iterator_prototype_next hash w = do {
     (item, it) \<leftarrow> map_iterator_next (world_heap w) (world_iterator w);
     Some (IterResult (map_option (iter_result_value (iterator_kind it)) item), w\<lparr>world_iterator := it\<rparr>)
   }"

fun map_call_step :: "('k \<Rightarrow> nat) \<Rightarrow> ('k, 'v) map_call \<Rightarrow> ('k, 'v) map_world
    \<Rightarrow> (('k, 'v) map_result \<times> ('k, 'v) map_world) option" where
  "map_call_step hash (MapSet key v) w = map_prototype_set hash key v w"
| "map_call_step hash (MapDelete key) w = map_prototype_delete hash key w"
| "map_call_step hash (MapGet key) w = map_prototype_get hash key w"
| "map_call_step hash (MapHas key) w = map_prototype_has hash key w"
| "map_call_step hash MapSize w = map_prototype_size hash w"
| "map_call_step hash MapEntries w = map_prototype_entries hash w"
| "map_call_step hash MapKeys w = map_prototype_keys hash w"
| "map_call_step hash MapValues w = map_prototype_values hash w"
| "map_call_step hash IteratorNext w = map_iterator_prototype_next hash w"

primrec map_calls :: "('k \<Rightarrow> nat) \<Rightarrow> ('k, 'v) map_call list \<Rightarrow> ('k, 'v) map_world
    \<Rightarrow> ('k, 'v) map_result list option" where
  "map_calls hash [] w = Some []"
| "map_calls hash (c # cs) w = do {
     (r, w) \<leftarrow> map_call_step hash c w;
     rs \<leftarrow> map_calls hash cs w;
     Some (r # rs)
   }"

end
