(* ===== verification/Index_Map_Correct.thy ===== *)
theory Index_Map_Correct
  imports Index_Map
begin

text \<open>
  \<open>BsIndexMap\<close> keeps the contract of an ordered map.  The invariant: the used entries are initialised and
  counted, their keys are distinct, and the chain of every slot of the index array passes, in
  ascending order, through the entries that were inserted for it, deleted ones included.
\<close>

section \<open>Entries\<close>

lemma occupied_entries_append [simp]:
  "occupied_entries (xs @ ys) = occupied_entries xs @ occupied_entries ys"
  by (induction xs rule: occupied_entries.induct) auto

lemma length_occupied_entries: "length (occupied_entries es) = length (filter is_occupied es)"
  by (induction es rule: occupied_entries.induct) (auto simp: is_occupied_def)

lemma in_occupied_entries:
  "(k, v) \<in> set (occupied_entries es) \<longleftrightarrow> (\<exists>c. Some (OccupiedEntry k v c) \<in> set es)"
  by (induction es rule: occupied_entries.induct) auto

fun occupied_entry :: "('k, 'v) index_entry option \<Rightarrow> ('k \<times> 'v) list" where
  "occupied_entry (Some (OccupiedEntry k v c)) = [(k, v)]"
| "occupied_entry _ = []"

lemma occupied_entries_Cons: "occupied_entries (e # es) = occupied_entry e @ occupied_entries es"
  by (cases e rule: occupied_entry.cases) simp_all

lemma occupied_entries_concat: "occupied_entries es = concat (map occupied_entry es)"
  by (induction es) (simp_all add: occupied_entries_Cons)

lemma occupied_entries_at:
  assumes "i < length es"
  shows "occupied_entries es =
    occupied_entries (take i es) @ occupied_entry (es ! i) @ occupied_entries (drop (Suc i) es)"
  using assms
  by (subst id_take_nth_drop [of i es]) (simp_all add: occupied_entries_Cons)

lemma occupied_entries_update:
  assumes "i < length es"
  shows "occupied_entries (es[i := e]) =
    occupied_entries (take i es) @ occupied_entry e @ occupied_entries (drop (Suc i) es)"
  using occupied_entries_at [of i "es[i := e]"] assms by simp

section \<open>Chains\<close>

primrec linked :: "('k, 'v) index_map \<Rightarrow> index_slot \<Rightarrow> nat list \<Rightarrow> bool" where
  "linked m slot [] \<longleftrightarrow> slot = EMPTY_INDEX"
| "linked m slot (j # js) \<longleftrightarrow> slot = EntryIndex j
     \<and> (\<exists>e. get_entry_unchecked m j = Some e \<and> linked m (entry_chain e) js)"

definition holds_key :: "('k, 'v) index_map \<Rightarrow> 'k \<Rightarrow> nat \<Rightarrow> bool" where
  "holds_key m key j \<longleftrightarrow> (\<exists>v c. get_entry_unchecked m j = Some (OccupiedEntry key v c))"

lemma holds_key_at:
  "get_entry_unchecked m j = Some (DeletedEntry c) \<Longrightarrow> \<not> holds_key m key j"
  "get_entry_unchecked m j = Some (OccupiedEntry k v c) \<Longrightarrow> holds_key m key j \<longleftrightarrow> k = key"
  by (auto simp: holds_key_def)

text \<open>Following a chain finds its first entry with the key.\<close>

lemma find_in_chain_linked:
  "linked m slot js \<Longrightarrow> find_in_chain m key slot = Some (find (holds_key m key) js)"
proof (induction js arbitrary: slot)
  case Nil
  then show ?case by (subst find_in_chain.simps) simp
next
  case (Cons j js)
  then obtain e where e: "slot = EntryIndex j" "get_entry_unchecked m j = Some e"
    "linked m (entry_chain e) js"
    by auto
  with Cons.IH [OF e(3)] show ?case
    by (subst find_in_chain.simps) (cases e; auto simp: holds_key_at)
qed

text \<open>Changes to entries that are not on it leave a chain alone.\<close>

definition same_chain :: "('k, 'v) index_map \<Rightarrow> ('k, 'v) index_map \<Rightarrow> nat \<Rightarrow> bool" where
  "same_chain m m' j \<longleftrightarrow>
     map_option entry_chain (get_entry_unchecked m' j) = map_option entry_chain (get_entry_unchecked m j)"

lemma linked_same:
  "linked m slot js \<Longrightarrow> (\<And>j. j \<in> set js \<Longrightarrow> same_chain m m' j) \<Longrightarrow> linked m' slot js"
proof (induction js arbitrary: slot)
  case (Cons j js)
  from Cons.prems(1) obtain e where e: "slot = EntryIndex j" "get_entry_unchecked m j = Some e"
    "linked m (entry_chain e) js"
    by auto
  moreover have "same_chain m m' j" using Cons.prems(2) by simp
  with e(2) obtain e' where "get_entry_unchecked m' j = Some e'" "entry_chain e' = entry_chain e"
    by (auto simp: same_chain_def)
  moreover have "linked m' (entry_chain e) js" using Cons.IH [OF e(3)] Cons.prems(2) by simp
  ultimately show ?case by auto
qed simp

definition with_chain :: "index_slot \<Rightarrow> ('k, 'v) index_entry \<Rightarrow> ('k, 'v) index_entry" where
  "with_chain c e =
     (case e of DeletedEntry _ \<Rightarrow> DeletedEntry c | OccupiedEntry k v _ \<Rightarrow> OccupiedEntry k v c)"

lemma entry_chain_with [simp]: "entry_chain (with_chain c e) = c"
  by (cases e) (simp_all add: with_chain_def)

text \<open>A chain grows at its end.\<close>

lemma linked_snoc:
  assumes "linked m slot (js @ [l])" and "l \<notin> set js" and "u \<notin> set js"
    and "\<And>j. j \<in> set js \<Longrightarrow> same_chain m m' j"
    and "map_option entry_chain (get_entry_unchecked m' l) = Some (EntryIndex u)"
    and "map_option entry_chain (get_entry_unchecked m' u) = Some EMPTY_INDEX"
  shows "linked m' slot (js @ [l, u])"
  using assms
proof (induction js arbitrary: slot)
  case (Cons j js)
  from Cons.prems(1) obtain e where e: "slot = EntryIndex j" "get_entry_unchecked m j = Some e"
    "linked m (entry_chain e) (js @ [l])"
    by auto
  moreover have "same_chain m m' j" using Cons.prems(4) by simp
  with e(2) obtain e' where "get_entry_unchecked m' j = Some e'" "entry_chain e' = entry_chain e"
    by (auto simp: same_chain_def)
  moreover have "linked m' (entry_chain e) (js @ [l, u])"
    using Cons.IH [OF e(3)] Cons.prems by simp
  ultimately show ?case by auto
qed auto

text \<open>
  What the loop of \<open>insert_without_growing\<close> does on a chain: overwrite the value at the first entry
  with the key, or link the last entry to the new one.
\<close>

lemma insert_in_chain_linked:
  assumes "linked m (EntryIndex i) js"
  shows "insert_in_chain m key v u i =
    (case find (holds_key m key) js of
       Some j \<Rightarrow> Some (True, m\<lparr>map_entries := (map_entries m)[j :=
         Some (OccupiedEntry key v (entry_chain (the (get_entry_unchecked m j))))]\<rparr>)
     | None \<Rightarrow> Some (False, m\<lparr>map_entries := (map_entries m)[last js :=
         map_option (with_chain (EntryIndex u)) (get_entry_unchecked m (last js))]\<rparr>))"
  using assms
proof (induction js arbitrary: i)
  case (Cons j js)
  then obtain e where e: "j = i" "get_entry_unchecked m i = Some e" "linked m (entry_chain e) js"
    by auto
  show ?case
  proof (cases js)
    case Nil
    then have "entry_chain e = EMPTY_INDEX" using e(3) by simp
    then show ?thesis
      using e(1,2) Nil by (subst insert_in_chain.simps) (cases e; auto simp: holds_key_at with_chain_def)
  next
    case (Cons j' js')
    then have chain: "entry_chain e = EntryIndex j'" using e(3) by simp
    from Cons.IH [of j'] e(3) chain have
      "insert_in_chain m key v u j' =
        (case find (holds_key m key) js of
           Some j \<Rightarrow> Some (True, m\<lparr>map_entries := (map_entries m)[j :=
             Some (OccupiedEntry key v (entry_chain (the (get_entry_unchecked m j))))]\<rparr>)
         | None \<Rightarrow> Some (False, m\<lparr>map_entries := (map_entries m)[last js :=
             map_option (with_chain (EntryIndex u)) (get_entry_unchecked m (last js))]\<rparr>))"
      by simp
    then show ?thesis
      using e(1,2) chain Cons
      by (subst insert_in_chain.simps) (cases e; auto simp: holds_key_at split: option.split)
  qed
qed simp

section \<open>The invariant\<close>

definition index_map_al :: "('k, 'v) index_map \<Rightarrow> ('k \<times> 'v) list" where
  "index_map_al m = occupied_entries (take (num_entries_used m) (map_entries m))"

text \<open>The same with the gaps of deleted entries.\<close>

definition index_map_shape :: "('k, 'v) index_map \<Rightarrow> ('k \<times> 'v) list list" where
  "index_map_shape m = map occupied_entry (take (num_entries_used m) (map_entries m))"

lemma index_map_al_shape: "index_map_al m = concat (index_map_shape m)"
  by (simp add: index_map_al_def index_map_shape_def occupied_entries_concat)

definition index_map_space :: "('k, 'v) index_map \<Rightarrow> nat" where
  "index_map_space m = index_map_capacity m - num_entries_used m"

lemma shape_update:
  assumes "num_entries_used m' = num_entries_used m" and "map_entries m' = (map_entries m)[j := e]"
    and "j < num_entries_used m"
  shows "index_map_shape m' = (index_map_shape m)[j := occupied_entry e]"
  using assms by (simp add: index_map_shape_def take_update_swap map_update)

text \<open>\<open>bucket i\<close> is the slot that the entry \<open>i\<close> was inserted for.\<close>

definition chains_ok :: "('k \<Rightarrow> nat) \<Rightarrow> ('k, 'v) index_map \<Rightarrow> (nat \<Rightarrow> nat) \<Rightarrow> bool" where
  "chains_ok hash m bucket \<longleftrightarrow>
     (\<forall>i < num_entries_used m. \<forall>k. holds_key m k i \<longrightarrow> bucket i = hash_index m (hash k))
     \<and> (\<forall>b < index_map_capacity m.
          linked m (map_indices m ! b) (filter (\<lambda>i. bucket i = b) [0..<num_entries_used m]))"

definition index_map_ok :: "('k \<Rightarrow> nat) \<Rightarrow> ('k, 'v) index_map \<Rightarrow> bool" where
  "index_map_ok hash m \<longleftrightarrow>
     \<not> is_tombstone m
     \<and> length (map_entries m) = index_map_capacity m
     \<and> (index_map_capacity m = 0 \<or> (\<exists>n. index_map_capacity m = 2 ^ n))
     \<and> num_entries_used m \<le> index_map_capacity m
     \<and> (\<forall>i < num_entries_used m. map_entries m ! i \<noteq> None)
     \<and> num_occupied m = length (index_map_al m)
     \<and> distinct (map fst (index_map_al m))
     \<and> (\<exists>bucket. chains_ok hash m bucket)"

lemma index_map_okD:
  assumes "index_map_ok hash m"
  shows "\<not> is_tombstone m" and "length (map_entries m) = index_map_capacity m"
    and "index_map_capacity m = 0 \<or> (\<exists>n. index_map_capacity m = 2 ^ n)"
    and "num_entries_used m \<le> index_map_capacity m"
    and "\<And>i. i < num_entries_used m \<Longrightarrow> map_entries m ! i \<noteq> None"
    and "num_occupied m = length (index_map_al m)"
    and "distinct (map fst (index_map_al m))"
    and "\<exists>bucket. chains_ok hash m bucket"
  using assms by (simp_all add: index_map_ok_def)

lemma hash_index_less:
  assumes "index_map_capacity m = 2 ^ n"
  shows "hash_index m h < index_map_capacity m"
proof -
  have "hash_index m h = take_bit n h"
    by (simp add: hash_index_def index_map_mask_def assms take_bit_eq_mask mask_eq_exp_minus_1)
  then show ?thesis by (simp add: assms)
qed

lemma hash_index_in_range:
  "index_map_ok hash m \<Longrightarrow> index_map_capacity m \<noteq> 0 \<Longrightarrow> hash_index m h < index_map_capacity m"
  using index_map_okD(3) [of hash m] hash_index_less [of m _ h] by auto

lemma find_filter:
  "(\<And>x. x \<in> set xs \<Longrightarrow> P x \<Longrightarrow> Q x) \<Longrightarrow> find P (filter Q xs) = find P xs"
  by (induction xs) auto

subsection \<open>Lookup\<close>

lemma chain_of_key:
  assumes "chains_ok hash m bucket" and "hash_index m (hash key) < index_map_capacity m"
  shows "linked m (map_indices m ! hash_index m (hash key))
      (filter (\<lambda>i. bucket i = hash_index m (hash key)) [0..<num_entries_used m])"
    and "find (holds_key m key) (filter (\<lambda>i. bucket i = hash_index m (hash key)) [0..<num_entries_used m])
      = find (holds_key m key) [0..<num_entries_used m]"
  using assms by (auto simp: chains_ok_def intro!: find_filter)

lemma find_index_eq:
  assumes ok: "index_map_ok hash m"
  shows "index_map_find_index hash m key = Some (find (holds_key m key) [0..<num_entries_used m])"
proof (cases "index_map_capacity m = 0")
  case True
  then show ?thesis using index_map_okD(4) [OF ok] by (simp add: index_map_find_index_def)
next
  case False
  obtain bucket where "chains_ok hash m bucket" using index_map_okD(8) [OF ok] by blast
  note chain = chain_of_key [OF this hash_index_in_range [OF ok False, of "hash key"]]
  have "vec_get (map_indices m) (hash_index m (hash key))
      = Some (map_indices m ! hash_index m (hash key))"
    using hash_index_in_range [OF ok False] by (simp add: index_map_capacity_def)
  then show ?thesis
    using find_in_chain_linked [OF chain(1), of key] chain(2) False
    by (simp add: index_map_find_index_def bind_eq_Some_conv)
qed

lemma get_entry_used:
  "index_map_ok hash m \<Longrightarrow> i < num_entries_used m \<Longrightarrow>
     get_entry_unchecked m i = map_entries m ! i \<and> i < length (map_entries m)"
  using index_map_okD(2,4) [of hash m] by (simp add: get_entry_unchecked_def)

lemma in_index_map_al:
  assumes "index_map_ok hash m"
  shows "(k, v) \<in> set (index_map_al m) \<longleftrightarrow>
    (\<exists>i < num_entries_used m. \<exists>c. get_entry_unchecked m i = Some (OccupiedEntry k v c))"
proof -
  have "num_entries_used m \<le> length (map_entries m)"
    using index_map_okD(2,4) [OF assms] by simp
  then have "set (take (num_entries_used m) (map_entries m))
      = {map_entries m ! i |i. i < num_entries_used m}"
    by (auto simp: nth_image [symmetric])
  then show ?thesis
    using get_entry_used [OF assms] by (auto simp: index_map_al_def in_occupied_entries) metis+
qed

lemma find_key_None:
  assumes "index_map_ok hash m" and "find (holds_key m key) [0..<num_entries_used m] = None"
  shows "\<not> has_key key (index_map_al m)"
  using assms(2) in_index_map_al [OF assms(1), of key]
  by (force simp: find_None_iff has_key_def holds_key_def)

lemma find_key_Some:
  assumes ok: "index_map_ok hash m" and "find (holds_key m key) [0..<num_entries_used m] = Some j"
  obtains v c where "j < num_entries_used m" and "get_entry_unchecked m j = Some (OccupiedEntry key v c)"
    and "map_of (index_map_al m) key = Some v" and "has_key key (index_map_al m)"
proof -
  from assms(2) have j: "j < num_entries_used m" "holds_key m key j"
    by (auto simp: find_Some_iff)
  then obtain v c where e: "get_entry_unchecked m j = Some (OccupiedEntry key v c)"
    by (auto simp: holds_key_def)
  with j(1) have "(key, v) \<in> set (index_map_al m)" by (auto simp: in_index_map_al [OF ok])
  then have "map_of (index_map_al m) key = Some v"
    using index_map_okD(7) [OF ok] by simp
  with j(1) e show ?thesis using that by (simp add: has_key_iff)
qed

lemma index_map_get_ok:
  assumes ok: "index_map_ok hash m"
  shows "index_map_get hash m key = Some (map_of (index_map_al m) key)"
proof (cases "find (holds_key m key) [0..<num_entries_used m]")
  case None
  have "map_of (index_map_al m) key = None"
    using find_key_None [OF ok None] by (simp only: has_key_iff not_not)
  then show ?thesis
    by (simp add: index_map_get_def find_index_eq [OF ok] None)
next
  case (Some j)
  obtain v c where "get_entry_unchecked m j = Some (OccupiedEntry key v c)"
    "map_of (index_map_al m) key = Some v"
    by (rule find_key_Some [OF ok Some])
  then show ?thesis by (simp add: index_map_get_def find_index_eq [OF ok] Some)
qed

lemma index_map_contains_key_ok:
  assumes ok: "index_map_ok hash m"
  shows "index_map_contains_key hash m key = Some (has_key key (index_map_al m))"
proof (cases "find (holds_key m key) [0..<num_entries_used m]")
  case None
  then show ?thesis
    using find_key_None [OF ok None] by (simp add: index_map_contains_key_def find_index_eq [OF ok])
next
  case (Some j)
  then show ?thesis
    using find_key_Some [OF ok Some] by (simp add: index_map_contains_key_def find_index_eq [OF ok]) blast
qed

subsection \<open>Entries of a map\<close>

lemma al_split:
  assumes ok: "index_map_ok hash m" and "j < num_entries_used m"
    and "get_entry_unchecked m j = Some (OccupiedEntry k v c)"
  shows "\<exists>xs ys. index_map_al m = xs @ (k, v) # ys \<and>
    (\<forall>e. occupied_entries (take (num_entries_used m) ((map_entries m)[j := e])) = xs @ occupied_entry e @ ys)"
proof -
  have j: "map_entries m ! j = Some (OccupiedEntry k v c)"
    "j < length (take (num_entries_used m) (map_entries m))"
    using get_entry_used [OF ok assms(2)] assms(2,3) by auto
  then show ?thesis
    using occupied_entries_at [OF j(2)] occupied_entries_update [OF j(2)] assms(2)
    by (auto simp: index_map_al_def take_update_swap)
qed

lemma shape_at:
  assumes "index_map_ok hash m" and "j < num_entries_used m"
    and "get_entry_unchecked m j = Some (OccupiedEntry k v c)"
  shows "j < length (index_map_shape m)" and "index_map_shape m ! j = [(k, v)]"
  using assms get_entry_used [OF assms(1,2)] by (simp_all add: index_map_shape_def)

lemma chains_ok_same:
  assumes "chains_ok hash m bucket" and "map_indices m' = map_indices m"
    and "num_entries_used m' = num_entries_used m"
    and "\<And>i. i < num_entries_used m \<Longrightarrow> same_chain m m' i"
    and "\<And>i k. holds_key m' k i \<Longrightarrow> holds_key m k i"
  shows "chains_ok hash m' bucket"
proof -
  have cap: "index_map_capacity m' = index_map_capacity m"
    by (simp add: index_map_capacity_def assms(2))
  then have "hash_index m' h = hash_index m h" for h by (simp add: hash_index_def index_map_mask_def)
  moreover have "linked m' slot (filter P [0..<num_entries_used m])"
    if "linked m slot (filter P [0..<num_entries_used m])" for slot P
    by (intro linked_same [OF that] assms(4)) auto
  ultimately show ?thesis
    using assms(1,5) unfolding chains_ok_def cap assms(2,3) by auto
qed

lemma occupied_entry_Nil: "occupied_entry (Some (DeletedEntry c)) = []"
  by simp

lemma index_map_remove_ok:
  assumes ok: "index_map_ok hash m"
  shows "\<exists>m'. index_map_remove hash key m = Some (has_key key (index_map_al m), m') \<and> index_map_ok hash m'
    \<and> index_map_al m' = del key (index_map_al m)
    \<and> index_map_shape m' = map (del key) (index_map_shape m)"
proof (cases "find (holds_key m key) [0..<num_entries_used m]")
  case None
  have absent: "\<not> has_key key (index_map_al m)" by (rule find_key_None [OF ok None])
  then have "del key (index_map_al m) = index_map_al m"
    by (simp add: del_absent has_key_def)
  moreover have "map (del key) (index_map_shape m) = index_map_shape m"
    using absent by (intro map_idI del_absent) (auto simp: has_key_def index_map_al_shape)
  ultimately show ?thesis
    using ok absent by (simp add: index_map_remove_def find_index_eq [OF ok] None)
next
  case (Some j)
  obtain v c where j: "j < num_entries_used m" "get_entry_unchecked m j = Some (OccupiedEntry key v c)"
    "has_key key (index_map_al m)"
    by (rule find_key_Some [OF ok Some])
  obtain xs ys where al: "index_map_al m = xs @ (key, v) # ys"
    and upd: "\<And>e. occupied_entries (take (num_entries_used m) ((map_entries m)[j := e]))
      = xs @ occupied_entry e @ ys"
    using al_split [OF ok j(1,2)] by blast
  define m' where "m' = m\<lparr>map_entries := (map_entries m)[j := Some (DeletedEntry c)],
    num_occupied := num_occupied m - 1, num_deleted := num_deleted m + 1\<rparr>"
  have occ: "num_occupied m = Suc (length (xs @ ys))" using index_map_okD(6) [OF ok] al by simp
  then have used: "num_entries_used m' = num_entries_used m" by (simp add: num_entries_used_def m'_def)
  have indices: "map_indices m' = map_indices m" by (simp add: m'_def)
  have al': "index_map_al m' = xs @ ys" unfolding index_map_al_def used by (simp add: upd m'_def)
  have distinct: "distinct (map fst (xs @ (key, v) # ys))"
    using index_map_okD(7) [OF ok] by (simp only: al)
  have entry: "get_entry_unchecked m' i
      = (if i = j then Some (DeletedEntry c) else get_entry_unchecked m i)" for i
    using get_entry_used [OF ok j(1)] by (simp add: get_entry_unchecked_def nth_list_update m'_def)
  obtain bucket where "chains_ok hash m bucket" using index_map_okD(8) [OF ok] by blast
  then have "chains_ok hash m' bucket"
    by (rule chains_ok_same) (auto simp: used same_chain_def entry j(2) holds_key_def indices split: if_splits)
  then have "index_map_ok hash m'"
    unfolding index_map_ok_def used al' using index_map_okD [OF ok] occ distinct get_entry_used [OF ok j(1)]
    by (auto simp: index_map_capacity_def nth_list_update m'_def)
  moreover have "del key (index_map_al m) = xs @ ys"
    unfolding al using distinct by (intro del_split) auto
  moreover have "index_map_shape m' = (index_map_shape m)[j := []]"
    using shape_update [OF used, where e = "Some (DeletedEntry c)"] j(1) by (simp add: m'_def)
  then have "index_map_shape m' = map (del key) (index_map_shape m)"
    using one_place(1) [OF _ shape_at [OF ok j(1,2)]] index_map_okD(7) [OF ok]
    by (simp add: index_map_al_shape)
  ultimately show ?thesis
    using j(2,3) al' by (simp add: index_map_remove_def find_index_eq [OF ok] Some m'_def)
qed

subsection \<open>Insertion\<close>

text \<open>The chain that a key belongs to.\<close>

lemma index_map_insert_cases:
  assumes ok: "index_map_ok hash m" and "0 < index_map_space m"
  obtains bucket js where "chains_ok hash m bucket"
    and "js = filter (\<lambda>i. bucket i = hash_index m (hash key)) [0..<num_entries_used m]"
    and "hash_index m (hash key) < length (map_indices m)"
    and "linked m (map_indices m ! hash_index m (hash key)) js"
    and "find (holds_key m key) js = find (holds_key m key) [0..<num_entries_used m]"
proof -
  have "index_map_capacity m \<noteq> 0" using assms(2) by (auto simp: index_map_space_def)
  note less = hash_index_in_range [OF ok this, of "hash key"]
  obtain bucket where bucket: "chains_ok hash m bucket" using index_map_okD(8) [OF ok] by blast
  from that [OF bucket refl _ chain_of_key [OF bucket less]] less show thesis
    by (simp add: index_map_capacity_def)
qed

lemma insert_overwrites:
  fixes m :: "('k, 'v) index_map" and v :: 'v
  assumes ok: "index_map_ok hash m" and found: "find (holds_key m key) [0..<num_entries_used m] = Some j"
  defines "m' \<equiv> m\<lparr>map_entries := (map_entries m)[j :=
    Some (OccupiedEntry key v (entry_chain (the (get_entry_unchecked m j))))]\<rparr>"
  shows "has_key key (index_map_al m)" and "index_map_ok hash m'"
    and "index_map_al m' = put key v (index_map_al m)" and "index_map_space m' = index_map_space m"
    and "index_map_shape m' = map (overwrite key v) (index_map_shape m)"
proof -
  obtain w c where j: "j < num_entries_used m" "get_entry_unchecked m j = Some (OccupiedEntry key w c)"
    and has: "has_key key (index_map_al m)"
    by (rule find_key_Some [OF ok found])
  show "has_key key (index_map_al m)" by (rule has)
  obtain xs ys where al: "index_map_al m = xs @ (key, w) # ys"
    and upd: "\<And>e. occupied_entries (take (num_entries_used m) ((map_entries m)[j := e]))
      = xs @ occupied_entry e @ ys"
    using al_split [OF ok j] by blast
  have used: "num_entries_used m' = num_entries_used m" by (simp add: m'_def num_entries_used_def)
  have indices: "map_indices m' = map_indices m" by (simp add: m'_def)
  have m': "m' = m\<lparr>map_entries := (map_entries m)[j := Some (OccupiedEntry key v c)]\<rparr>"
    by (simp add: m'_def j(2))
  have al': "index_map_al m' = xs @ (key, v) # ys"
    unfolding index_map_al_def used by (simp add: m' upd)
  have distinct: "distinct (map fst (xs @ (key, w) # ys))"
    using index_map_okD(7) [OF ok] by (simp only: al)
  then show put: "index_map_al m' = put key v (index_map_al m)"
    unfolding al' al by (intro put_split [symmetric]) auto
  have entry: "get_entry_unchecked m' i
      = (if i = j then Some (OccupiedEntry key v c) else get_entry_unchecked m i)" for i
    using get_entry_used [OF ok j(1)] by (simp add: m' get_entry_unchecked_def nth_list_update)
  obtain bucket where "chains_ok hash m bucket" using index_map_okD(8) [OF ok] by blast
  then have "chains_ok hash m' bucket"
    by (rule chains_ok_same)
      (auto simp: used same_chain_def entry j(2) holds_key_def indices split: if_splits)
  then show "index_map_ok hash m'"
    unfolding index_map_ok_def used al' using index_map_okD [OF ok] distinct get_entry_used [OF ok j(1)]
    by (auto simp: index_map_capacity_def nth_list_update m' al)
  show "index_map_space m' = index_map_space m"
    by (simp add: index_map_space_def used indices index_map_capacity_def)
  show "index_map_shape m' = map (overwrite key v) (index_map_shape m)"
    using one_place(2) [OF _ shape_at [OF ok j]] index_map_okD(7) [OF ok] j(1)
      shape_update [OF used, where e = "Some (OccupiedEntry key v c)" and j = j]
    by (simp add: m' index_map_al_shape)
qed

lemma occupied_entry_with_chain [simp]:
  "occupied_entry (map_option (with_chain c) e) = occupied_entry e"
  by (cases e rule: occupied_entry.cases) (simp_all add: with_chain_def)

lemma with_chain_occupied:
  "map_option (with_chain c) e = Some (OccupiedEntry k v c') \<longleftrightarrow>
     (\<exists>c''. e = Some (OccupiedEntry k v c'')) \<and> c' = c"
  by (cases e) (auto simp: with_chain_def split: index_entry.splits)

text \<open>
  A new entry at the end: \<open>link\<close> is the map after the new entry has been linked to its chain.
\<close>

lemma entry_added:
  fixes m link :: "('k, 'v) index_map"
  assumes ok: "index_map_ok hash m" and space: "0 < index_map_space m"
    and bucket: "chains_ok hash m bucket"
    and new: "\<not> has_key key (index_map_al m)"
    and link: "is_tombstone link = is_tombstone m" "num_occupied link = num_occupied m"
      "num_deleted link = num_deleted m" "length (map_indices link) = length (map_indices m)"
      "length (map_entries link) = length (map_entries m)"
      "\<And>i. i < num_entries_used m \<Longrightarrow> map_entries link ! i =
        (if i \<in> L then map_option (with_chain (EntryIndex (num_entries_used m))) (map_entries m ! i)
         else map_entries m ! i)"
      "\<And>b. b \<noteq> hash_index m (hash key) \<Longrightarrow> map_indices link ! b = map_indices m ! b"
    and m': "m' = link\<lparr>map_entries := (map_entries link)[num_entries_used m :=
        Some (OccupiedEntry key v EMPTY_INDEX)], num_occupied := num_occupied m + 1\<rparr>"
    and off: "\<And>i. i \<in> L \<Longrightarrow> bucket i = hash_index m (hash key)"
    and chain: "linked m' (map_indices link ! hash_index m (hash key))
      (filter (\<lambda>i. bucket i = hash_index m (hash key)) [0..<num_entries_used m] @ [num_entries_used m])"
  shows "index_map_ok hash m' \<and> index_map_al m' = put key v (index_map_al m)
    \<and> index_map_space m \<le> Suc (index_map_space m')
    \<and> index_map_shape m' = index_map_shape m @ [[(key, v)]]"
proof -
  let ?u = "num_entries_used m"
  note okD = index_map_okD [OF ok]
  have cap: "index_map_capacity m' = index_map_capacity m"
    by (simp add: index_map_capacity_def m' link)
  have u: "?u < length (map_entries link)"
    using space okD(2,4) link(5) by (simp add: index_map_space_def)
  have used: "num_entries_used m' = Suc ?u" by (simp add: num_entries_used_def m' link)
  have hash: "hash_index m' h = hash_index m h" for h
    by (simp add: hash_index_def index_map_mask_def cap)
  have entries: "map_entries m' ! i = (if i = ?u then Some (OccupiedEntry key v EMPTY_INDEX)
      else if i \<in> L then map_option (with_chain (EntryIndex ?u)) (map_entries m ! i)
      else map_entries m ! i)" if "i \<le> ?u" for i
    using that u link(6) [of i] by (auto simp: m' nth_list_update)
  have lengths: "length (map_entries m') = length (map_entries m)" by (simp add: m' link)
  have entry: "get_entry_unchecked m' i = (if i = ?u then Some (OccupiedEntry key v EMPTY_INDEX)
      else if i \<in> L then map_option (with_chain (EntryIndex ?u)) (get_entry_unchecked m i)
      else get_entry_unchecked m i)" if "i \<le> ?u" for i
    using that u entries [OF that] by (auto simp: get_entry_unchecked_def lengths link(5))
  have holds: "holds_key m' k i \<longleftrightarrow> (if i = ?u then k = key else holds_key m k i)" if "i \<le> ?u" for i k
    unfolding holds_key_def entry [OF that] by (simp add: with_chain_occupied del: map_option_eq_Some) blast
  have "take ?u (map_entries m') = map (\<lambda>i. map_entries m' ! i) [0..<?u]"
    using u lengths link(5) by (simp add: list_eq_iff_nth_eq)
  moreover have "take ?u (map_entries m) = map (\<lambda>i. map_entries m ! i) [0..<?u]"
    using u link(5) by (simp add: list_eq_iff_nth_eq)
  ultimately have "map occupied_entry (take ?u (map_entries m')) = index_map_shape m"
    by (simp add: index_map_shape_def entries)
  then have shape': "index_map_shape m' = index_map_shape m @ [[(key, v)]]"
    using u lengths link(5) entries [of ?u]
    by (simp add: index_map_shape_def used take_Suc_conv_app_nth)
  then have al': "index_map_al m' = index_map_al m @ [(key, v)]"
    by (simp add: index_map_al_shape)
  have "chains_ok hash m' (bucket(?u := hash_index m (hash key)))"
    unfolding chains_ok_def used cap hash
  proof (intro conjI allI impI)
    fix i k assume "i < Suc ?u" "holds_key m' k i"
    then show "(bucket(?u := hash_index m (hash key))) i = hash_index m (hash k)"
      using bucket holds [of i k] by (auto simp: chains_ok_def less_Suc_eq split: if_splits)
  next
    fix b assume b: "b < index_map_capacity m"
    have old: "filter (\<lambda>i. (bucket(?u := hash_index m (hash key))) i = b) [0..<?u]
        = filter (\<lambda>i. bucket i = b) [0..<?u]"
      by (intro filter_cong) auto
    show "linked m' (map_indices m' ! b)
        (filter (\<lambda>i. (bucket(?u := hash_index m (hash key))) i = b) [0..<Suc ?u])"
    proof (cases "b = hash_index m (hash key)")
      case True
      then show ?thesis using chain old by (simp add: m')
    next
      case False
      have "linked m' (map_indices m ! b) (filter (\<lambda>i. bucket i = b) [0..<?u])"
      proof (rule linked_same)
        show "linked m (map_indices m ! b) (filter (\<lambda>i. bucket i = b) [0..<?u])"
          using bucket b by (simp add: chains_ok_def)
        fix j assume "j \<in> set (filter (\<lambda>i. bucket i = b) [0..<?u])"
        then have "j < ?u" "j \<notin> L" using off False by auto
        then show "same_chain m m' j" by (simp add: same_chain_def entry)
      qed
      then show ?thesis using old False link(7) [OF False] by (simp add: m')
    qed
  qed
  moreover have "map_entries m' ! i \<noteq> None" if "i < Suc ?u" for i
    using entries [of i] okD(5) [of i] that by (cases "i = ?u") simp_all
  ultimately have "index_map_ok hash m'"
    unfolding index_map_ok_def cap used al'
    using okD new u lengths link(5)
    by (auto simp: m' link has_key_def index_map_al_def)
  then show ?thesis
    using al' new shape' by (auto simp: put_new index_map_space_def cap used)
qed

lemma vec_get_index:
  "i < length xs \<Longrightarrow> vec_get xs i = Some (xs ! i)"
  by simp

lemma index_map_insert_ok:
  fixes m :: "('k, 'v) index_map"
  assumes ok: "index_map_ok hash m" and space: "0 < index_map_space m"
  shows "\<exists>m'. index_map_insert_without_growing hash key v m = Some (has_key key (index_map_al m), m')
    \<and> index_map_ok hash m' \<and> index_map_al m' = put key v (index_map_al m)
    \<and> index_map_space m \<le> Suc (index_map_space m')
    \<and> index_map_shape m' = (if has_key key (index_map_al m) then map (overwrite key v) (index_map_shape m)
         else index_map_shape m @ [[(key, v)]])"
proof -
  let ?u = "num_entries_used m" and ?b = "hash_index m (hash key)"
  obtain bucket js where bucket: "chains_ok hash m bucket"
    and js: "js = filter (\<lambda>i. bucket i = ?b) [0..<?u]"
    and b: "?b < length (map_indices m)"
    and chain: "linked m (map_indices m ! ?b) js"
    and find: "find (holds_key m key) js = find (holds_key m key) [0..<?u]"
    by (rule index_map_insert_cases [OF ok space])
  have u: "?u < length (map_entries m)"
    using space index_map_okD(2,4) [OF ok] by (simp add: index_map_space_def)
  note get_slot = vec_get_index [OF b]
  show ?thesis
  proof (cases js rule: rev_cases)
    case Nil
    have absent: "\<not> has_key key (index_map_al m)"
      by (rule find_key_None [OF ok]) (simp add: find [symmetric] Nil)
    let ?link = "m\<lparr>map_indices := (map_indices m)[?b := EntryIndex ?u]\<rparr>"
    let ?m' = "?link\<lparr>map_entries := (map_entries ?link)[?u := Some (OccupiedEntry key v EMPTY_INDEX)],
      num_occupied := num_occupied m + 1\<rparr>"
    have "index_map_ok hash ?m' \<and> index_map_al ?m' = put key v (index_map_al m)
        \<and> index_map_space m \<le> Suc (index_map_space ?m')
        \<and> index_map_shape ?m' = index_map_shape m @ [[(key, v)]]"
      by (rule entry_added [OF ok space bucket absent, where L = "{}" and link = ?link])
        (use b u js Nil in \<open>auto simp: get_entry_unchecked_def\<close>)
    moreover have "index_map_insert_without_growing hash key v m = Some (False, ?m')"
      using chain u Nil get_slot
      by (simp add: index_map_insert_without_growing_def add_entry_def Let_def bind_eq_Some_conv)
    ultimately show ?thesis by (intro exI [of _ ?m']) (simp add: absent)
  next
    case (snoc ks l)
    then obtain i where slot: "map_indices m ! ?b = EntryIndex i"
      using chain by (cases ks) auto
    note loop = insert_in_chain_linked [OF chain [unfolded slot], of key v ?u]
    have insert: "index_map_insert_without_growing hash key v m =
        (case insert_in_chain m key v ?u i of
           None \<Rightarrow> None
         | Some (present, m) \<Rightarrow> if present then Some (True, m) else add_entry key v ?u m)"
      unfolding index_map_insert_without_growing_def Let_def get_slot
      by (simp add: slot split: option.split)
    show ?thesis
    proof (cases "find (holds_key m key) js")
      case (Some j)
      then have "find (holds_key m key) [0..<?u] = Some j" using find by simp
      note over = insert_overwrites(1) [OF ok this] insert_overwrites(2-5) [OF ok this, where v = v]
      show ?thesis using over unfolding insert loop by (simp add: Some)
    next
      case None
      have absent: "\<not> has_key key (index_map_al m)"
        by (rule find_key_None [OF ok]) (simp only: find [symmetric] None)
      have l: "l < ?u" "bucket l = ?b" and in_chain: "\<And>j. j \<in> set (ks @ [l]) \<Longrightarrow> j < ?u"
        and distinct: "distinct (ks @ [l])"
      proof -
        have set: "set (ks @ [l]) = {i. i < ?u \<and> bucket i = ?b}" unfolding snoc [symmetric] js by auto
        then show "l < ?u" "bucket l = ?b" "\<And>j. j \<in> set (ks @ [l]) \<Longrightarrow> j < ?u" by auto
        show "distinct (ks @ [l])" unfolding snoc [symmetric] js by simp
      qed
      let ?link = "m\<lparr>map_entries := (map_entries m)[l :=
        map_option (with_chain (EntryIndex ?u)) (map_entries m ! l)]\<rparr>"
      let ?m' = "?link\<lparr>map_entries := (map_entries ?link)[?u := Some (OccupiedEntry key v EMPTY_INDEX)],
        num_occupied := num_occupied m + 1\<rparr>"
      have entry_l: "get_entry_unchecked m l = map_entries m ! l" "map_entries m ! l \<noteq> None"
        using l(1) u index_map_okD(5) [OF ok] by (auto simp: get_entry_unchecked_def)
      have "linked ?m' (EntryIndex i) (ks @ [l, ?u])"
      proof (rule linked_snoc [of m])
        show "linked m (EntryIndex i) (ks @ [l])" using chain by (simp only: slot snoc)
        show "l \<notin> set ks" "?u \<notin> set ks" using distinct in_chain by auto
        show "same_chain m ?m' j" if "j \<in> set ks" for j
          using that in_chain [of j] distinct u
          by (cases "j = l") (auto simp: same_chain_def get_entry_unchecked_def)
        show "map_option entry_chain (get_entry_unchecked ?m' l) = Some (EntryIndex ?u)"
          using l(1) u entry_l by (auto simp: get_entry_unchecked_def)
        show "map_option entry_chain (get_entry_unchecked ?m' ?u) = Some EMPTY_INDEX"
          using u by (simp add: get_entry_unchecked_def)
      qed
      then have "linked ?m' (map_indices ?link ! ?b) (js @ [?u])" by (simp add: slot snoc)
      then have "index_map_ok hash ?m' \<and> index_map_al ?m' = put key v (index_map_al m)
          \<and> index_map_space m \<le> Suc (index_map_space ?m')
          \<and> index_map_shape ?m' = index_map_shape m @ [[(key, v)]]"
        by (intro entry_added [OF ok space bucket absent, where L = "{l}" and link = ?link])
          (use l u js in \<open>auto simp: nth_list_update\<close>)
      moreover have "index_map_insert_without_growing hash key v m = Some (False, ?m')"
        unfolding insert loop None using u entry_l by (simp add: snoc add_entry_def bind_eq_Some_conv)
      ultimately show ?thesis by (intro exI [of _ ?m']) (simp add: absent)
    qed
  qed
qed

subsection \<open>New and cleared maps\<close>

lemma chains_ok_empty:
  "num_entries_used m = 0 \<Longrightarrow> map_indices m = replicate n EMPTY_INDEX \<Longrightarrow> chains_ok hash m bucket"
  by (simp add: chains_ok_def index_map_capacity_def)

lemma new_index_map_ok:
  "capacity = 0 \<or> (\<exists>n. capacity = 2 ^ n) \<Longrightarrow> index_map_ok hash (new_index_map capacity)"
  "index_map_al (new_index_map capacity) = []"
  "index_map_space (new_index_map capacity) = capacity"
  using chains_ok_empty [of "new_index_map capacity"]
  by (auto simp: index_map_ok_def new_index_map_def num_entries_used_def index_map_capacity_def
      index_map_al_def index_map_space_def)

lemma index_map_clear_ok:
  assumes "index_map_ok hash m"
  shows "index_map_ok hash (index_map_clear m)" and "index_map_al (index_map_clear m) = []"
proof -
  have none: "num_entries_used (index_map_clear m) = 0"
    and al: "index_map_al (index_map_clear m) = []"
    and cap: "index_map_capacity (index_map_clear m) = index_map_capacity m"
    by (simp_all add: index_map_clear_def num_entries_used_def index_map_al_def index_map_capacity_def)
  have "chains_ok hash (index_map_clear m) (\<lambda>_. 0)"
    by (rule chains_ok_empty [OF none]) (simp add: index_map_clear_def)
  then show "index_map_ok hash (index_map_clear m)"
    unfolding index_map_ok_def none al cap
    using index_map_okD(1-3) [OF assms] by (auto simp: index_map_clear_def)
  show "index_map_al (index_map_clear m) = []" by (rule al)
qed

section \<open>The contract\<close>

lemma index_map_insert_law:
  assumes "index_map_ok hash m" and "0 < index_map_space m"
  shows "\<exists>m'. index_map_insert_without_growing hash key v m = Some (has_key key (index_map_al m), m')
    \<and> index_map_ok hash m' \<and> index_map_al m' = put key v (index_map_al m)
    \<and> index_map_space m \<le> Suc (index_map_space m')"
proof -
  obtain m' where "index_map_insert_without_growing hash key v m = Some (has_key key (index_map_al m), m')"
    "index_map_ok hash m'" "index_map_al m' = put key v (index_map_al m)"
    "index_map_space m \<le> Suc (index_map_space m')"
    using index_map_insert_ok [OF assms, of key v] by (elim exE conjE)
  then show ?thesis by (intro exI conjI)
qed

lemma index_map_remove_law:
  assumes "index_map_ok hash m"
  shows "\<exists>m'. index_map_remove hash key m = Some (has_key key (index_map_al m), m')
    \<and> index_map_ok hash m' \<and> index_map_al m' = del key (index_map_al m)"
  using index_map_remove_ok [OF assms, of key] by blast

interpretation index_map: ordered_map "index_map_get hash" "index_map_insert_without_growing hash"
    "index_map_remove hash" "index_map_ok hash" index_map_space index_map_al
  for hash :: "'k \<Rightarrow> nat"
  apply unfold_locales
  subgoal by (rule index_map_get_ok)
  subgoal by (rule index_map_okD(7))
  subgoal by (rule index_map_insert_law)
  subgoal by (rule index_map_remove_law)
  done

text \<open>New keys go behind all others, without gaps.\<close>

lemma insert_all_shape:
  "index_map_ok hash m \<Longrightarrow> distinct (map fst (index_map_al m @ xs)) \<Longrightarrow> length xs \<le> index_map_space m \<Longrightarrow>
     \<exists>m'. insert_all (index_map_insert_without_growing hash) xs m = Some m' \<and> index_map_ok hash m'
       \<and> index_map_shape m' = index_map_shape m @ map (\<lambda>kv. [kv]) xs
       \<and> index_map_space m \<le> length xs + index_map_space m'"
proof (induction xs arbitrary: m)
  case (Cons kv xs)
  obtain k v where kv: "kv = (k, v)" by fastforce
  have new: "\<not> has_key k (index_map_al m)" using Cons.prems(2) by (auto simp: kv has_key_def)
  have "0 < index_map_space m" using Cons.prems(3) by simp
  from index_map_insert_ok [OF Cons.prems(1) this, of k v] new
  obtain m1 where m1: "index_map_insert_without_growing hash k v m = Some (False, m1)"
    "index_map_ok hash m1" "index_map_space m \<le> Suc (index_map_space m1)"
    "index_map_shape m1 = index_map_shape m @ [[(k, v)]]"
    by auto
  have "distinct (map fst (index_map_al m1 @ xs))" "length xs \<le> index_map_space m1"
    using Cons.prems(2,3) m1(3,4) by (auto simp: index_map_al_shape kv)
  from Cons.IH [OF m1(2) this] m1 show ?case by (auto simp: kv)
qed simp

end
