(* ===== verification/Map_Objects.thy ===== *)
theory Map_Objects
  imports Index_Map_Correct
begin

text \<open>
  Map objects and their iterators, verified: insertion with growth, and iteration while the map
  changes and moves.
\<close>

section \<open>Growing\<close>

lemma index_map_iter_ok:
  assumes "index_map_ok hash m"
  shows "index_map_iter m = Some (index_map_al m)"
proof -
  have "num_entries_used m \<le> length (map_entries m)"
    using index_map_okD(2,4) [OF assms] by simp
  moreover from this have "None \<notin> set (take (num_entries_used m) (map_entries m))"
    using index_map_okD(5) [OF assms] by (fastforce simp: in_set_conv_nth)
  moreover from calculation(1) have "vec_slice (map_entries m) 0 (num_entries_used m)
      = Some (take (num_entries_used m) (map_entries m))"
    by (simp add: vec_slice_def)
  ultimately show ?thesis by (simp add: index_map_iter_def index_map_al_def)
qed

lemma grown_capacity:
  assumes ok: "index_map_ok hash m" and full: "\<not> num_entries_used m < index_map_capacity m"
  shows "index_map_new_capacity m = 0 \<or> (\<exists>n. index_map_new_capacity m = 2 ^ n)"
    and "num_occupied m < index_map_new_capacity m"
proof -
  have used: "num_occupied m + num_deleted m = index_map_capacity m"
    using index_map_okD(4) [OF ok] full by (simp add: num_entries_used_def)
  have four: "\<exists>n. (4 :: nat) = 2 ^ n" by (rule exI [of _ 2]) simp
  have double: "\<exists>k. 2 ^ n * 2 = (2 :: nat) ^ k" for n by (rule exI [of _ "Suc n"]) simp
  show "index_map_new_capacity m = 0 \<or> (\<exists>n. index_map_new_capacity m = 2 ^ n)"
    using index_map_okD(3) [OF ok] double four
    by (auto simp: index_map_new_capacity_def INDEX_MAP_MIN_CAPACITY_def Let_def)
  show "num_occupied m < index_map_new_capacity m"
    using used by (auto simp: index_map_new_capacity_def INDEX_MAP_MIN_CAPACITY_def Let_def)
qed

text \<open>The copy of a full map: the same entries, without the gaps, and room for another one.\<close>

lemma copied_map:
  assumes ok: "index_map_ok hash m" and full: "\<not> num_entries_used m < index_map_capacity m"
  shows "\<exists>m'. insert_all (index_map_insert_without_growing hash) (index_map_al m)
      (new_index_map (index_map_new_capacity m)) = Some m'
    \<and> index_map_ok hash m' \<and> index_map_shape m' = map (\<lambda>kv. [kv]) (index_map_al m)
    \<and> 0 < index_map_space m'"
proof -
  note cap = grown_capacity [OF ok full]
  have "index_map_shape (new_index_map c) = []" for c
    by (simp add: index_map_shape_def new_index_map_def num_entries_used_def)
  then show ?thesis
    using insert_all_shape [OF new_index_map_ok(1) [OF cap(1)], where hash = hash and xs = "index_map_al m"]
      index_map_okD(6,7) [OF ok] cap(2)
    by (auto simp: new_index_map_ok(2,3))
qed

definition live_map :: "('k \<Rightarrow> nat) \<Rightarrow> ('k, 'v) map_heap \<Rightarrow> nat \<Rightarrow> bool" where
  "live_map hash heap address \<longleftrightarrow> address < length heap \<and> index_map_ok hash (heap ! address)"

lemma maybe_grow_ok:
  assumes live: "live_map hash heap f"
  shows "\<exists>f' heap'. index_map_maybe_grow hash f heap = Some (f', heap') \<and> live_map hash heap' f'
    \<and> 0 < index_map_space (heap' ! f') \<and> index_map_al (heap' ! f') = index_map_al (heap ! f)
    \<and> length heap \<le> length heap'
    \<and> (\<forall>a < length heap. a \<noteq> f \<longrightarrow> a \<noteq> f' \<and> heap' ! a = heap ! a)
    \<and> (if num_entries_used (heap ! f) < index_map_capacity (heap ! f) then f' = f \<and> heap' = heap
       else f' = length heap \<and> index_map_shape (heap' ! f') = map (\<lambda>kv. [kv]) (index_map_al (heap ! f))
         \<and> (index_map_capacity (heap ! f) \<noteq> 0 \<longrightarrow> is_tombstone (heap' ! f)
           \<and> get_new_map_ptr (heap' ! f) = Some f' \<and> map_entries (heap' ! f) = map_entries (heap ! f)
           \<and> num_entries_used (heap' ! f) = num_entries_used (heap ! f)))"
proof -
  from live have f: "f < length heap" and ok: "index_map_ok hash (heap ! f)"
    by (simp_all add: live_map_def)
  show ?thesis
  proof (cases "num_entries_used (heap ! f) < index_map_capacity (heap ! f)")
    case True
    then show ?thesis
      using live f by (auto simp: index_map_maybe_grow_def vec_get_def index_map_space_def)
  next
    case False
    obtain m' where m': "insert_all (index_map_insert_without_growing hash) (index_map_al (heap ! f))
        (new_index_map (index_map_new_capacity (heap ! f))) = Some m'"
      "index_map_ok hash m'" "index_map_shape m' = map (\<lambda>kv. [kv]) (index_map_al (heap ! f))"
      "0 < index_map_space m'"
      using copied_map [OF ok False] by blast
    have al: "index_map_al m' = index_map_al (heap ! f)"
      by (simp add: index_map_al_shape [of m'] m'(3))
    show ?thesis
    proof (cases "index_map_capacity (heap ! f) = 0")
      case True
      then have "index_map_maybe_grow hash f heap = Some (length heap, heap @ [m'])"
        using False f m'(1) by (simp add: index_map_maybe_grow_def vec_get_def index_map_iter_ok [OF ok])
      then show ?thesis
        using False True f m' al by (auto simp: live_map_def nth_append)
    next
      case cap: False
      let ?t = "(heap ! f)\<lparr>is_tombstone := True, map_indices := (map_indices (heap ! f))[0 := NewMap (length heap)]\<rparr>"
      have "index_map_maybe_grow hash f heap = Some (length heap, heap[f := ?t] @ [m'])"
        using False cap f m'(1)
        by (simp add: index_map_maybe_grow_def vec_get_def index_map_iter_ok [OF ok]
            set_new_map_ptr_def vec_set_def index_map_capacity_def Let_def)
      then show ?thesis
        using False cap f m' al
        by (auto simp: live_map_def nth_append get_new_map_ptr_def vec_get_def index_map_capacity_def
            num_entries_used_def)
    qed
  qed
qed

section \<open>Insertion into a map object\<close>

lemma map_object_insert_ok:
  assumes live: "live_map hash heap f"
  shows "\<exists>f' heap'. map_object_insert hash k v f heap
      = Some (has_key k (index_map_al (heap ! f)), f', heap')
    \<and> live_map hash heap' f' \<and> index_map_al (heap' ! f') = put k v (index_map_al (heap ! f))
    \<and> (\<forall>a < length heap. a \<noteq> f \<longrightarrow> a \<noteq> f' \<and> heap' ! a = heap ! a)
    \<and> length heap \<le> length heap'
    \<and> index_map_shape (heap' ! f') =
        (if has_key k (index_map_al (heap ! f)) then map (overwrite k v) else (\<lambda>xs. xs @ [[(k, v)]]))
          (if f' = f then index_map_shape (heap ! f) else map (\<lambda>kv. [kv]) (index_map_al (heap ! f)))
    \<and> (f' \<noteq> f \<and> index_map_capacity (heap ! f) \<noteq> 0 \<longrightarrow> is_tombstone (heap' ! f)
         \<and> get_new_map_ptr (heap' ! f) = Some f' \<and> map_entries (heap' ! f) = map_entries (heap ! f)
           \<and> num_entries_used (heap' ! f) = num_entries_used (heap ! f))"
proof -
  obtain f' heap1 where grow: "index_map_maybe_grow hash f heap = Some (f', heap1)"
    "live_map hash heap1 f'" "0 < index_map_space (heap1 ! f')"
    "index_map_al (heap1 ! f') = index_map_al (heap ! f)"
    "length heap \<le> length heap1"
    "\<forall>a < length heap. a \<noteq> f \<longrightarrow> a \<noteq> f' \<and> heap1 ! a = heap ! a"
    and which: "if num_entries_used (heap ! f) < index_map_capacity (heap ! f) then f' = f \<and> heap1 = heap
       else f' = length heap \<and> index_map_shape (heap1 ! f') = map (\<lambda>kv. [kv]) (index_map_al (heap ! f))
         \<and> (index_map_capacity (heap ! f) \<noteq> 0 \<longrightarrow> is_tombstone (heap1 ! f)
           \<and> get_new_map_ptr (heap1 ! f) = Some f' \<and> map_entries (heap1 ! f) = map_entries (heap ! f)
           \<and> num_entries_used (heap1 ! f) = num_entries_used (heap ! f))"
    using maybe_grow_ok [OF live] by blast
  from grow(2) have f': "f' < length heap1" "index_map_ok hash (heap1 ! f')"
    by (simp_all add: live_map_def)
  obtain m' where m': "index_map_insert_without_growing hash k v (heap1 ! f')
      = Some (has_key k (index_map_al (heap ! f)), m')" "index_map_ok hash m'"
    "index_map_al m' = put k v (index_map_al (heap ! f))"
    "index_map_shape m' = (if has_key k (index_map_al (heap ! f))
       then map (overwrite k v) (index_map_shape (heap1 ! f'))
       else index_map_shape (heap1 ! f') @ [[(k, v)]])"
    using index_map_insert_ok [OF f'(2) grow(3), of k v] unfolding grow(4) by blast
  have f: "f < length heap" using live by (simp add: live_map_def)
  have "map_object_insert hash k v f heap
      = Some (has_key k (index_map_al (heap ! f)), f', heap1[f' := m'])"
    using f' m'(1) by (simp add: map_object_insert_def grow(1) vec_get_def)
  moreover have "live_map hash (heap1[f' := m']) f'" using f'(1) m'(2) by (simp add: live_map_def)
  moreover have "index_map_shape (heap1 ! f') =
      (if f' = f then index_map_shape (heap ! f) else map (\<lambda>kv. [kv]) (index_map_al (heap ! f)))"
    using which f by (auto split: if_splits)
  ultimately show ?thesis
    using f' m'(3,4) grow(5,6) which f
    by (intro exI [of _ f'] exI [of _ "heap1[f' := m']"]) (auto split: if_splits)
qed

lemma map_object_insert_grows:
  assumes "live_map hash heap f" and "num_entries_used (heap ! f) = index_map_capacity (heap ! f)"
    and "map_object_insert hash k v f heap = Some (p, f', heap')"
  shows "f' = length heap"
  using maybe_grow_ok [OF assms(1)] assms(2,3)
  by (auto simp: map_object_insert_def bind_eq_Some_conv)

section \<open>Iterating\<close>

text \<open>What an iterator at an index has still to visit.\<close>

definition entries_from :: "('k, 'v) index_map \<Rightarrow> nat \<Rightarrow> ('k \<times> 'v) list" where
  "entries_from m i = concat (drop i (index_map_shape m))"

lemma length_shape: "index_map_ok hash m \<Longrightarrow> length (index_map_shape m) = num_entries_used m"
  using index_map_okD(2,4) [of hash m] by (simp add: index_map_shape_def)

lemma entries_from_step:
  assumes "index_map_ok hash m" and "i < num_entries_used m"
  shows "entries_from m i = occupied_entry (get_entry_unchecked m i) @ entries_from m (Suc i)"
proof -
  have "i < length (index_map_shape m)" using assms by (simp add: length_shape)
  from Cons_nth_drop_Suc [OF this, symmetric] show ?thesis
    using get_entry_used [OF assms] assms(2) by (simp add: entries_from_def index_map_shape_def)
qed

lemma entries_from_changed:
  "index_map_shape m = map (del k) xss \<Longrightarrow> entries_from m i = del k (concat (drop i xss))"
  "index_map_shape m = map (overwrite k v) xss \<Longrightarrow> entries_from m i = overwrite k v (concat (drop i xss))"
  "index_map_shape m = xss @ [[kv]] \<Longrightarrow> i \<le> length xss \<Longrightarrow> entries_from m i = concat (drop i xss) @ [kv]"
  by (simp_all add: entries_from_def drop_map del_concat overwrite_concat)

lemma next_occupied_ok:
  assumes ok: "index_map_ok hash m"
  shows "i \<le> num_entries_used m \<Longrightarrow> \<exists>r. next_occupied m i = Some r \<and> (case r of
      None \<Rightarrow> entries_from m i = []
    | Some (kv, i') \<Rightarrow> i' \<le> num_entries_used m \<and> entries_from m i = kv # entries_from m i')"
proof (induction "num_entries_used m - i" arbitrary: i)
  case 0
  then show ?case
    using length_shape [OF ok] by (subst next_occupied.simps) (simp add: entries_from_def)
next
  case (Suc n)
  then have i: "i < num_entries_used m" by simp
  then obtain e where e: "get_entry_unchecked m i = Some e"
    using get_entry_used [OF ok i] index_map_okD(5) [OF ok i] by auto
  have rest: "\<exists>r. next_occupied m (Suc i) = Some r \<and> (case r of
      None \<Rightarrow> entries_from m (Suc i) = []
    | Some (kv, i') \<Rightarrow> i' \<le> num_entries_used m \<and> entries_from m (Suc i) = kv # entries_from m i')"
    using Suc i by simp
  have "entries_from m i = occupied_entry (Some e) @ entries_from m (Suc i)"
    using entries_from_step [OF ok i] by (simp only: e)
  then show ?case
    using i rest by (subst next_occupied.simps) (cases e; simp add: e cong: option.case_cong)
qed

lemma gc_safe_next_ok:
  assumes "index_map_ok hash m" and "i \<le> num_entries_used m"
  shows "\<exists>i'. gc_safe_next m i = Some (case entries_from m i of [] \<Rightarrow> None | kv # _ \<Rightarrow> Some kv, i')
    \<and> i' \<le> num_entries_used m \<and> entries_from m i' = tl (entries_from m i)"
proof -
  obtain r where "next_occupied m i = Some r" "case r of None \<Rightarrow> entries_from m i = []
      | Some (kv, i') \<Rightarrow> i' \<le> num_entries_used m \<and> entries_from m i = kv # entries_from m i'"
    using next_occupied_ok [OF assms] by blast
  then show ?thesis
    using assms(2) by (cases r) (auto simp: gc_safe_next_def)
qed

text \<open>A map without gaps, and the index of an iterator that moves to it.\<close>

lemma entries_from_moved:
  assumes "index_map_ok hash m" and "i \<le> num_entries_used m"
    and "map_entries t = map_entries m" and "get_new_map_ptr t = Some a"
  shows "\<exists>j. fix_iterator_for_resized_map t i = Some (a, j) \<and> j \<le> length (index_map_al m)
    \<and> concat (drop j (map (\<lambda>kv. [kv]) (index_map_al m))) = entries_from m i"
proof -
  let ?seen = "take i (map_entries m)" and ?j = "length (concat (take i (index_map_shape m)))"
  have "take i (index_map_shape m) = map occupied_entry ?seen"
    using assms(2) by (simp add: index_map_shape_def take_map min_def)
  then have "length (filter is_occupied ?seen) = ?j"
    by (simp add: length_occupied_entries [symmetric] occupied_entries_concat)
  moreover have "None \<notin> set ?seen"
    using index_map_okD(5) [OF assms(1)] assms(2) by (auto simp: in_set_conv_nth)
  ultimately have "fix_iterator_for_resized_map t i = Some (a, ?j)"
    by (simp add: fix_iterator_for_resized_map_def assms(3,4))
  moreover have al: "index_map_al m = concat (take i (index_map_shape m)) @ concat (drop i (index_map_shape m))"
    by (simp add: index_map_al_shape concat_append [symmetric])
  then have "concat (drop ?j (map (\<lambda>kv. [kv]) (index_map_al m))) = entries_from m i"
    by (simp add: entries_from_def drop_map)
  moreover have "?j \<le> length (index_map_al m)" by (simp add: al)
  ultimately show ?thesis by blast
qed

text \<open>A walk ends at a map that is none; a change there only makes the walk longer.\<close>

lemma follow_tombstones_walk:
  "follow_tombstones heap a i = Some r \<Longrightarrow> fst r < length heap \<and> \<not> is_tombstone (heap ! fst r)
    \<and> (\<forall>heap'. (\<forall>b < length heap. b \<noteq> fst r \<longrightarrow> heap' ! b = heap ! b) \<and> length heap \<le> length heap' \<longrightarrow>
         follow_tombstones heap' a i = follow_tombstones heap' (fst r) (snd r))"
proof (erule follow_tombstones.raw_induct [rotated], goal_cases)
  case (1 walk heap a i r)
  from 1(2) obtain m where m: "vec_get heap a = Some m" by (auto simp: bind_eq_Some_conv)
  then have a: "a < length heap" "heap ! a = m" by (auto simp: vec_get_def split: if_splits)
  show ?case
  proof (cases "is_tombstone m")
    case True
    with 1(2) m obtain a1 i1 where step: "fix_iterator_for_resized_map m i = Some (a1, i1)"
      "walk heap a1 i1 = Some r"
      by (auto simp: bind_eq_Some_conv)
    note IH = 1(1) [OF step(2)]
    have "follow_tombstones heap' a i = follow_tombstones heap' a1 i1"
      if "\<forall>b < length heap. b \<noteq> fst r \<longrightarrow> heap' ! b = heap ! b" "length heap \<le> length heap'" for heap'
    proof -
      have "heap' ! a = m" using that(1) IH True a by metis
      then show ?thesis
        using that(2) a(1) True step(1) by (subst follow_tombstones.simps) (simp add: vec_get_def)
    qed
    with IH show ?thesis by simp
  next
    case False
    with 1(2) m a show ?thesis by auto
  qed
qed

lemma follow_live:
  "a < length heap \<Longrightarrow> \<not> is_tombstone (heap ! a) \<Longrightarrow> follow_tombstones heap a i = Some (a, i)"
  by (subst follow_tombstones.simps) (simp add: vec_get_def)

lemma follow_tombstone:
  "a < length heap \<Longrightarrow> is_tombstone (heap ! a) \<Longrightarrow> fix_iterator_for_resized_map (heap ! a) i = Some (a', i')
     \<Longrightarrow> follow_tombstones heap a i = follow_tombstones heap a' i'"
  by (subst follow_tombstones.simps) (simp add: vec_get_def)

section \<open>What scripts observe\<close>

text \<open>
  The abstract map: its entries, and what the iterator has still to visit, \<open>None\<close> once it is done.
\<close>

record ('k, 'v) abstract_map =
  contents :: "('k \<times> 'v) list"
  pending :: "('k \<times> 'v) list option"
  kind :: map_iterator_kind

fun abstract_call :: "('k, 'v) map_call \<Rightarrow> ('k, 'v) abstract_map \<Rightarrow> ('k, 'v) map_result \<times> ('k, 'v) abstract_map" where
  "abstract_call (MapSet key v) a =
     (ReturnThis, a\<lparr>contents := put key v (contents a),
        pending := map_option (if has_key key (contents a) then overwrite key v else (\<lambda>xs. xs @ [(key, v)]))
          (pending a)\<rparr>)"
| "abstract_call (MapDelete key) a =
     (ReturnBool (has_key key (contents a)),
      a\<lparr>contents := del key (contents a), pending := map_option (del key) (pending a)\<rparr>)"
| "abstract_call (MapGet key) a = (ReturnValue (map_of (contents a) key), a)"
| "abstract_call (MapHas key) a = (ReturnBool (has_key key (contents a)), a)"
| "abstract_call MapSize a = (ReturnSize (length (contents a)), a)"
| "abstract_call MapEntries a =
     (ReturnIterator, a\<lparr>pending := Some (contents a), kind := KeyAndValueKind\<rparr>)"
| "abstract_call MapKeys a = (ReturnIterator, a\<lparr>pending := Some (contents a), kind := KeyKind\<rparr>)"
| "abstract_call MapValues a = (ReturnIterator, a\<lparr>pending := Some (contents a), kind := ValueKind\<rparr>)"
| "abstract_call IteratorNext a =
     (case pending a of
        Some (kv # kvs) \<Rightarrow> (IterResult (Some (iter_result_value (kind a) kv)), a\<lparr>pending := Some kvs\<rparr>)
      | _ \<Rightarrow> (IterResult None, a\<lparr>pending := None\<rparr>))"

primrec abstract_calls :: "('k, 'v) map_call list \<Rightarrow> ('k, 'v) abstract_map \<Rightarrow> ('k, 'v) map_result list" where
  "abstract_calls [] a = []"
| "abstract_calls (c # cs) a = (case abstract_call c a of (r, a) \<Rightarrow> r # abstract_calls cs a)"

text \<open>The iterator at \<open>it\<close> is to visit \<open>xs\<close> of the map at \<open>f\<close>.\<close>

definition visits :: "('k, 'v) map_heap \<Rightarrow> nat \<Rightarrow> map_iterator \<Rightarrow> ('k \<times> 'v) list \<Rightarrow> bool" where
  "visits heap f it xs \<longleftrightarrow> (\<exists>i. follow_tombstones heap (iterator_map it) (next_entry_index it) = Some (f, i)
     \<and> i \<le> num_entries_used (heap ! f) \<and> entries_from (heap ! f) i = xs)"

definition represents :: "('k \<Rightarrow> nat) \<Rightarrow> ('k, 'v) map_world \<Rightarrow> ('k, 'v) abstract_map \<Rightarrow> bool" where
  "represents hash w a \<longleftrightarrow>
     live_map hash (world_heap w) (map_data w)
     \<and> index_map_capacity (world_heap w ! map_data w) \<noteq> 0
     \<and> contents a = index_map_al (world_heap w ! map_data w)
     \<and> kind a = iterator_kind (world_iterator w)
     \<and> (case pending a of
          None \<Rightarrow> is_done (world_iterator w)
        | Some xs \<Rightarrow> \<not> is_done (world_iterator w) \<and> visits (world_heap w) (map_data w) (world_iterator w) xs)"

lemma visits_insert:
  assumes live: "live_map hash heap f" and cap: "index_map_capacity (heap ! f) \<noteq> 0"
    and insert: "map_object_insert hash k v f heap = Some (p, f', heap')"
    and visits: "visits heap f it xs"
  shows "visits heap' f' it
    ((if has_key k (index_map_al (heap ! f)) then overwrite k v else (\<lambda>xs. xs @ [(k, v)])) xs)"
proof -
  have f: "f < length heap" and ok: "index_map_ok hash (heap ! f)" using live by (simp_all add: live_map_def)
  from visits obtain i where i: "follow_tombstones heap (iterator_map it) (next_entry_index it) = Some (f, i)"
    "i \<le> num_entries_used (heap ! f)" "entries_from (heap ! f) i = xs"
    by (auto simp: visits_def)
  have live': "f' < length heap'" "index_map_ok hash (heap' ! f')"
    and same: "\<forall>a < length heap. a \<noteq> f \<longrightarrow> heap' ! a = heap ! a" "length heap \<le> length heap'"
    and shape: "index_map_shape (heap' ! f') =
        (if has_key k (index_map_al (heap ! f)) then map (overwrite k v) else (\<lambda>xs. xs @ [[(k, v)]]))
          (if f' = f then index_map_shape (heap ! f) else map (\<lambda>kv. [kv]) (index_map_al (heap ! f)))"
    and tomb: "f' \<noteq> f \<Longrightarrow> is_tombstone (heap' ! f) \<and> get_new_map_ptr (heap' ! f) = Some f'
         \<and> map_entries (heap' ! f) = map_entries (heap ! f)"
    using map_object_insert_ok [OF live, of k v] insert cap by (auto simp: live_map_def)
  have used: "num_entries_used (heap' ! f') = length (index_map_shape (heap' ! f'))"
    by (simp add: length_shape [OF live'(2)])
  have walk: "follow_tombstones heap' (iterator_map it) (next_entry_index it) = follow_tombstones heap' f i"
    using follow_tombstones_walk [OF i(1)] same by simp
  show ?thesis
  proof (cases "f' = f")
    case True
    have "follow_tombstones heap' f i = Some (f', i)"
      using follow_live [of f' heap' i] live' index_map_okD(1) [OF live'(2)] True by simp
    then show ?thesis
      using i(2,3) shape True length_shape [OF ok] used walk entries_from_def [of "heap ! f" i]
      by (auto simp: visits_def entries_from_changed)
  next
    case False
    from tomb [OF this] have t: "is_tombstone (heap' ! f)" "map_entries (heap' ! f) = map_entries (heap ! f)"
      "get_new_map_ptr (heap' ! f) = Some f'"
      by simp_all
    obtain j where j: "fix_iterator_for_resized_map (heap' ! f) i = Some (f', j)"
      "j \<le> length (index_map_al (heap ! f))"
      "concat (drop j (map (\<lambda>kv. [kv]) (index_map_al (heap ! f)))) = xs"
      using entries_from_moved [OF ok i(2) t(2,3)] unfolding i(3) by blast
    have "follow_tombstones heap' f i = follow_tombstones heap' f' j"
      using f same(2) by (intro follow_tombstone j(1) t(1)) simp
    also have "\<dots> = Some (f', j)"
      using live' index_map_okD(1) [OF live'(2)] by (intro follow_live)
    finally show ?thesis
      using j(2,3) shape False used walk by (auto simp: visits_def entries_from_changed)
  qed
qed

lemma visits_remove:
  assumes live: "live_map hash heap f" and visits: "visits heap f it xs"
    and remove: "index_map_remove hash k (heap ! f) = Some (p, m)"
  shows "visits (heap[f := m]) f it (del k xs)"
proof -
  have f: "f < length heap" and ok: "index_map_ok hash (heap ! f)" using live by (simp_all add: live_map_def)
  from visits obtain i where i: "follow_tombstones heap (iterator_map it) (next_entry_index it) = Some (f, i)"
    "i \<le> num_entries_used (heap ! f)" "entries_from (heap ! f) i = xs"
    by (auto simp: visits_def)
  from remove index_map_remove_ok [OF ok, of k] have ok': "index_map_ok hash m"
    and shape: "index_map_shape m = map (del k) (index_map_shape (heap ! f))"
    by auto
  have "follow_tombstones (heap[f := m]) (iterator_map it) (next_entry_index it)
      = follow_tombstones (heap[f := m]) f i"
    using follow_tombstones_walk [OF i(1)] by simp
  also have "\<dots> = Some (f, i)"
    using follow_live [of f "heap[f := m]" i] index_map_okD(1) [OF ok'] f by simp
  finally show ?thesis
    using i(2,3) shape f length_shape [OF ok] length_shape [OF ok'] entries_from_def [of "heap ! f" i]
    by (auto simp: visits_def entries_from_changed(1) [OF shape])
qed

lemma visits_next:
  assumes live: "live_map hash heap f" and visits: "visits heap f it xs" and "\<not> is_done it"
  shows "\<exists>it'. map_iterator_next heap it = Some (case xs of [] \<Rightarrow> None | kv # _ \<Rightarrow> Some kv, it')
    \<and> (is_done it' \<longleftrightarrow> xs = []) \<and> iterator_kind it' = iterator_kind it \<and> visits heap f it' (tl xs)"
proof -
  have f: "f < length heap" and ok: "index_map_ok hash (heap ! f)" using live by (simp_all add: live_map_def)
  from visits obtain i where i: "follow_tombstones heap (iterator_map it) (next_entry_index it) = Some (f, i)"
    "i \<le> num_entries_used (heap ! f)" "entries_from (heap ! f) i = xs"
    by (auto simp: visits_def)
  obtain i' where i': "gc_safe_next (heap ! f) i = Some (case xs of [] \<Rightarrow> None | kv # _ \<Rightarrow> Some kv, i')"
    "i' \<le> num_entries_used (heap ! f)" "entries_from (heap ! f) i' = tl xs"
    using gc_safe_next_ok [OF ok i(2)] unfolding i(3) by blast
  have "follow_tombstones heap f i' = Some (f, i')"
    using follow_live [OF f] index_map_okD(1) [OF ok] by simp
  then show ?thesis
    using assms(3) i(1) i' f
    by (auto simp: map_iterator_next_def visits_def vec_get_def split: list.splits)
qed

lemma capacity_pos: "index_map_ok hash m \<Longrightarrow> index_map_al m \<noteq> [] \<Longrightarrow> index_map_capacity m \<noteq> 0"
  using index_map_okD(4,6) [of hash m] by (cases "index_map_al m") (auto simp: num_entries_used_def)

lemma put_not_Nil [simp]: "put k v xs \<noteq> []"
  by (induction xs rule: put.induct) auto

lemma remove_capacity:
  "index_map_remove hash k m = Some (p, m') \<Longrightarrow> index_map_capacity m' = index_map_capacity m"
  unfolding index_map_remove_def bind_eq_Some_conv
  by (elim exE conjE) (auto simp: index_map_capacity_def split: option.splits index_entry.splits)

lemmas map_prototype_defs = map_prototype_set_def map_prototype_delete_def map_prototype_get_def
  map_prototype_has_def map_prototype_size_def map_prototype_entries_def
  map_prototype_keys_def map_prototype_values_def map_iterator_prototype_next_def

lemma map_call_refines:
  assumes "represents hash w a"
  shows "\<exists>w'. map_call_step hash c w = Some (fst (abstract_call c a), w')
    \<and> represents hash w' (snd (abstract_call c a))"
proof -
  let ?f = "map_data w" and ?heap = "world_heap w"
  have live: "live_map hash ?heap ?f" and cap: "index_map_capacity (?heap ! ?f) \<noteq> 0"
    and contents: "contents a = index_map_al (?heap ! ?f)"
    using assms by (simp_all add: represents_def)
  then have f: "?f < length ?heap" "index_map_ok hash (?heap ! ?f)" by (simp_all add: live_map_def)
  have started: "visits ?heap ?f (new_map_iterator ?f kd) (index_map_al (?heap ! ?f))" for kd
    using follow_live [OF f(1)] index_map_okD(1) [OF f(2)]
    by (simp add: visits_def new_map_iterator_def entries_from_def index_map_al_shape)
  show ?thesis
  proof (cases c)
    case (MapSet k v)
    obtain f' heap' where insert: "map_object_insert hash k v ?f ?heap
        = Some (has_key k (index_map_al (?heap ! ?f)), f', heap')"
      and live': "live_map hash heap' f'" and al: "index_map_al (heap' ! f') = put k v (index_map_al (?heap ! ?f))"
      using map_object_insert_ok [OF live, of k v] by blast
    have "index_map_capacity (heap' ! f') \<noteq> 0"
      using al capacity_pos [of hash "heap' ! f'"] live' by (auto simp: live_map_def)
    with MapSet insert live' al visits_insert [OF live cap insert] assms show ?thesis
      by (auto simp: map_prototype_defs represents_def contents split: option.splits)
  next
    case (MapDelete k)
    obtain m where remove: "index_map_remove hash k (?heap ! ?f)
        = Some (has_key k (index_map_al (?heap ! ?f)), m)"
      and m: "index_map_ok hash m" "index_map_al m = del k (index_map_al (?heap ! ?f))"
      using index_map_remove_ok [OF f(2), of k] by blast
    with remove_capacity [OF remove] cap f have "live_map hash (?heap[?f := m]) ?f"
      "index_map_capacity (?heap[?f := m] ! ?f) \<noteq> 0"
      by (simp_all add: live_map_def)
    with MapDelete remove m visits_remove [OF live _ remove] assms f show ?thesis
      by (auto simp: map_prototype_defs represents_def contents vec_get_def split: option.splits)
  next
    case (MapGet k)
    then show ?thesis
      using assms f contents by (simp add: map_prototype_defs vec_get_def index_map_get_ok)
  next
    case (MapHas k)
    then show ?thesis
      using assms f contents by (simp add: map_prototype_defs vec_get_def index_map_contains_key_ok)
  next
    case MapSize
    then show ?thesis
      using assms f contents index_map_okD(6) [OF f(2)] by (simp add: map_prototype_defs vec_get_def)
  next
    case MapEntries
    with started live cap contents show ?thesis
      by (simp add: map_prototype_defs represents_def) (simp add: new_map_iterator_def)
  next
    case MapKeys
    with started live cap contents show ?thesis
      by (simp add: map_prototype_defs represents_def) (simp add: new_map_iterator_def)
  next
    case MapValues
    with started live cap contents show ?thesis
      by (simp add: map_prototype_defs represents_def) (simp add: new_map_iterator_def)
  next
    case IteratorNext
    show ?thesis
    proof (cases "pending a")
      case None
      then show ?thesis
        using IteratorNext assms by (auto simp: map_prototype_defs represents_def map_iterator_next_def)
    next
      case (Some xs)
      then have visits: "visits ?heap ?f (world_iterator w) xs" "\<not> is_done (world_iterator w)"
        using assms by (auto simp: represents_def)
      obtain it where "map_iterator_next ?heap (world_iterator w)
          = Some (case xs of [] \<Rightarrow> None | kv # _ \<Rightarrow> Some kv, it)"
        "is_done it \<longleftrightarrow> xs = []" "iterator_kind it = iterator_kind (world_iterator w)" "visits ?heap ?f it (tl xs)"
        using visits_next [OF live visits] by blast
      then show ?thesis
        using IteratorNext Some assms by (auto simp: map_prototype_defs represents_def split: list.splits)
    qed
  qed
qed

lemma new_map_represents:
  fixes hash :: "'k \<Rightarrow> nat"
  shows "represents hash (new_map_world :: ('k, 'v) map_world) \<lparr>contents = [], pending = Some [], kind = KeyAndValueKind\<rparr>"
proof -
  define m :: "('k, 'v) index_map" where "m = new_index_map INDEX_MAP_MIN_CAPACITY"
  have ok: "index_map_ok hash m"
    unfolding m_def
    by (intro new_index_map_ok disjI2 exI [of _ 2]) (simp add: INDEX_MAP_MIN_CAPACITY_def)
  have al: "index_map_al m = []" and cap: "index_map_capacity m \<noteq> 0"
    by (simp_all add: m_def new_index_map_ok) (simp add: new_index_map_def index_map_capacity_def
      INDEX_MAP_MIN_CAPACITY_def)
  have "visits [m] 0 (new_map_iterator 0 KeyAndValueKind) []"
    using index_map_okD(1) [OF ok] al
    by (simp add: visits_def new_map_iterator_def follow_live entries_from_def index_map_al_shape)
  then show ?thesis
    using ok al cap
    by (simp add: represents_def new_map_world_def live_map_def m_def [symmetric])
      (simp add: new_map_iterator_def)
qed

lemma map_calls_represented:
  "represents hash w a \<Longrightarrow> map_calls hash cs w = Some (abstract_calls cs a)"
proof (induction cs arbitrary: w a)
  case (Cons c cs)
  obtain w' where "map_call_step hash c w = Some (fst (abstract_call c a), w')"
    "represents hash w' (snd (abstract_call c a))"
    using map_call_refines [OF Cons.prems] by blast
  with Cons.IH show ?case by (simp add: case_prod_unfold)
qed simp

end
