(* ===== verification/Hash_Map.thy ===== *)
theory Hash_Map
  imports Map_Interface
begin

text \<open>
  \<open>runtime/collections/hash_map.rs\<close> and \<open>hash_set.rs\<close>: \<open>BsHashMap\<close>, the open-addressing hash table
  behind \<open>WeakMap\<close>, sparse arrays, interned strings and the global scopes, with quadratic probing.
  The entries of a table are always initialised; an access out of range is undefined behaviour and
  \<open>None\<close>.  The hash function of a key is a parameter, and so is the memory that a table grows into:
  growing returns the new table.
\<close>

datatype ('k, 'v) hash_entry = Empty | Deleted | Occupied 'k 'v

record ('k, 'v) hash_map =
  hash_map_len :: nat
  hash_map_entries :: "('k, 'v) hash_entry list"

definition HASH_MAP_MIN_CAPACITY :: nat where
  "HASH_MAP_MIN_CAPACITY = 4"

definition new_hash_map :: "nat \<Rightarrow> ('k, 'v) hash_map" where
  "new_hash_map capacity = \<lparr>hash_map_len = 0, hash_map_entries = replicate capacity Empty\<rparr>"

definition hash_map_capacity :: "('k, 'v) hash_map \<Rightarrow> nat" where
  "hash_map_capacity m = length (hash_map_entries m)"

text \<open>\<open>usize::next_power_of_two\<close>: the smallest power of two that is not smaller.\<close>

function next_power_of_two_from :: "nat \<Rightarrow> nat \<Rightarrow> nat" where
  "next_power_of_two_from p n = (if 0 < p \<and> p < n then next_power_of_two_from (2 * p) n else p)"
  by pat_completeness auto
termination
  by (relation "measure (\<lambda>(p, n). n - p)") auto

declare next_power_of_two_from.simps [simp del]

definition next_power_of_two :: "nat \<Rightarrow> nat" where
  "next_power_of_two n = next_power_of_two_from 1 n"

definition min_capacity_needed :: "nat \<Rightarrow> nat" where
  "min_capacity_needed num_elements =
     (let capacity = next_power_of_two num_elements in
      if num_elements > capacity div 2 then capacity * 2 else capacity)"

definition hash_map_mask :: "('k, 'v) hash_map \<Rightarrow> nat" where
  "hash_map_mask m = hash_map_capacity m - 1"

definition initial_probe_index :: "('k, 'v) hash_map \<Rightarrow> nat \<Rightarrow> nat" where
  "initial_probe_index m key_hash_code = key_hash_code AND hash_map_mask m"

definition next_probe_index :: "('k, 'v) hash_map \<Rightarrow> nat \<Rightarrow> nat \<Rightarrow> nat" where
  "next_probe_index m prev_probe_index probe_stride =
     (prev_probe_index + probe_stride) AND hash_map_mask m"

section \<open>Operations\<close>

text \<open>The loop of \<open>find_index\<close> from a stride on.\<close>

function probe_for_key ::
  "('k, 'v) hash_map \<Rightarrow> 'k \<Rightarrow> nat \<Rightarrow> nat \<Rightarrow> nat option option" where
  "probe_for_key m key probe_index probe_stride =
     (if probe_stride \<le> hash_map_capacity m then
        (case vec_get (hash_map_entries m) probe_index of
           None \<Rightarrow> None
         | Some Empty \<Rightarrow> Some None
         | Some Deleted \<Rightarrow>
             probe_for_key m key (next_probe_index m probe_index probe_stride) (probe_stride + 1)
         | Some (Occupied k v) \<Rightarrow>
             if k = key then Some (Some probe_index)
             else probe_for_key m key (next_probe_index m probe_index probe_stride) (probe_stride + 1))
      else Some None)"
  by pat_completeness auto
termination
  by (relation "measure (\<lambda>(m, _, _, s). Suc (hash_map_capacity m) - s)") auto

declare probe_for_key.simps [simp del]

definition hash_map_find_index :: "('k \<Rightarrow> nat) \<Rightarrow> ('k, 'v) hash_map \<Rightarrow> 'k \<Rightarrow> nat option option" where
  "hash_map_find_index hash m key =
     probe_for_key m key (initial_probe_index m (hash key)) 1"

definition hash_map_contains_key :: "('k \<Rightarrow> nat) \<Rightarrow> ('k, 'v) hash_map \<Rightarrow> 'k \<Rightarrow> bool option" where
  "hash_map_contains_key hash m key =
     map_option (\<lambda>found. found \<noteq> None) (hash_map_find_index hash m key)"

definition hash_map_get_entry ::
  "('k \<Rightarrow> nat) \<Rightarrow> ('k, 'v) hash_map \<Rightarrow> 'k \<Rightarrow> ('k \<times> 'v) option option" where
  "hash_map_get_entry hash m key = do {
     found \<leftarrow> hash_map_find_index hash m key;
     (case found of
        None \<Rightarrow> Some None
      | Some index \<Rightarrow>
          (case vec_get (hash_map_entries m) index of
             Some (Occupied k v) \<Rightarrow> Some (Some (k, v))
           | _ \<Rightarrow> None))
   }"

definition hash_map_get :: "('k \<Rightarrow> nat) \<Rightarrow> ('k, 'v) hash_map \<Rightarrow> 'k \<Rightarrow> 'v option option" where
  "hash_map_get hash m key = do {
     found \<leftarrow> hash_map_find_index hash m key;
     (case found of
        None \<Rightarrow> Some None
      | Some index \<Rightarrow>
          (case vec_get (hash_map_entries m) index of
             Some (Occupied k v) \<Rightarrow> Some (Some v)
           | _ \<Rightarrow> None))
   }"

definition hash_map_remove ::
  "('k \<Rightarrow> nat) \<Rightarrow> 'k \<Rightarrow> ('k, 'v) hash_map \<Rightarrow> (bool \<times> ('k, 'v) hash_map) option" where
  "hash_map_remove hash key m = do {
     found \<leftarrow> hash_map_find_index hash m key;
     (case found of
        None \<Rightarrow> Some (False, m)
      | Some index \<Rightarrow> do {
          new_entries \<leftarrow> vec_set (hash_map_entries m) index Deleted;
          Some (True, m\<lparr>hash_map_entries := new_entries, hash_map_len := hash_map_len m - 1\<rparr>)
        })
   }"

text \<open>The loop of \<open>insert_without_growing\<close> from a stride on.\<close>

function probe_for_insert ::
  "('k, 'v) hash_map \<Rightarrow> 'k \<Rightarrow> 'v \<Rightarrow> nat \<Rightarrow> nat \<Rightarrow> (bool \<times> ('k, 'v) hash_map) option" where
  "probe_for_insert m key v probe_index probe_stride =
     (if probe_stride \<le> hash_map_capacity m then
        (case vec_get (hash_map_entries m) probe_index of
           None \<Rightarrow> None
         | Some (Occupied k w) \<Rightarrow>
             if k = key then
               Some (True, m\<lparr>hash_map_entries := (hash_map_entries m)[probe_index := Occupied k v]\<rparr>)
             else
               probe_for_insert m key v (next_probe_index m probe_index probe_stride) (probe_stride + 1)
         | Some _ \<Rightarrow>
             Some (False, m\<lparr>hash_map_entries := (hash_map_entries m)[probe_index := Occupied key v],
                            hash_map_len := hash_map_len m + 1\<rparr>))
      else Some (False, m))"
  by pat_completeness auto
termination
  by (relation "measure (\<lambda>(m, _, _, _, s). Suc (hash_map_capacity m) - s)") auto

declare probe_for_insert.simps [simp del]

definition hash_map_insert_without_growing ::
  "('k \<Rightarrow> nat) \<Rightarrow> 'k \<Rightarrow> 'v \<Rightarrow> ('k, 'v) hash_map \<Rightarrow> (bool \<times> ('k, 'v) hash_map) option" where
  "hash_map_insert_without_growing hash key v m =
     probe_for_insert m key v (initial_probe_index m (hash key)) 1"

fun slot_entry :: "('k, 'v) hash_entry \<Rightarrow> ('k \<times> 'v) list" where
  "slot_entry (Occupied k v) = [(k, v)]"
| "slot_entry _ = []"

definition hash_map_iter :: "('k, 'v) hash_map \<Rightarrow> ('k \<times> 'v) list" where
  "hash_map_iter m = concat (map slot_entry (hash_map_entries m))"

definition hash_map_keys :: "('k, 'v) hash_map \<Rightarrow> 'k list" where
  "hash_map_keys m = map fst (hash_map_iter m)"

definition hash_map_maybe_grow ::
  "('k \<Rightarrow> nat) \<Rightarrow> ('k, 'v) hash_map \<Rightarrow> ('k, 'v) hash_map option" where
  "hash_map_maybe_grow hash old_map =
     (let new_length = hash_map_len old_map + 1; capacity = hash_map_capacity old_map in
      if new_length \<le> capacity div 2 then Some old_map
      else insert_all (hash_map_insert_without_growing hash) (hash_map_iter old_map)
             (new_hash_map (capacity * 2)))"

text \<open>The insertion of the users of the table, such as \<open>WeakMap.prototype.set\<close>.\<close>

definition hash_map_insert ::
  "('k \<Rightarrow> nat) \<Rightarrow> 'k \<Rightarrow> 'v \<Rightarrow> ('k, 'v) hash_map \<Rightarrow> (bool \<times> ('k, 'v) hash_map) option" where
  "hash_map_insert hash key v m = do {
     m \<leftarrow> hash_map_maybe_grow hash m;
     hash_map_insert_without_growing hash key v m
   }"

section \<open>Sets\<close>

type_synonym 'k hash_set = "('k, unit) hash_map"

definition hash_set_contains :: "('k \<Rightarrow> nat) \<Rightarrow> 'k hash_set \<Rightarrow> 'k \<Rightarrow> bool option" where
  "hash_set_contains hash s element = hash_map_contains_key hash s element"

definition hash_set_get :: "('k \<Rightarrow> nat) \<Rightarrow> 'k hash_set \<Rightarrow> 'k \<Rightarrow> 'k option option" where
  "hash_set_get hash s key = map_option (map_option fst) (hash_map_get_entry hash s key)"

definition hash_set_remove ::
  "('k \<Rightarrow> nat) \<Rightarrow> 'k \<Rightarrow> 'k hash_set \<Rightarrow> (bool \<times> 'k hash_set) option" where
  "hash_set_remove hash element s = hash_map_remove hash element s"

definition hash_set_insert_without_growing ::
  "('k \<Rightarrow> nat) \<Rightarrow> 'k \<Rightarrow> 'k hash_set \<Rightarrow> (bool \<times> 'k hash_set) option" where
  "hash_set_insert_without_growing hash element s = hash_map_insert_without_growing hash element () s"

end
