(* ===== verification/Hash_Map_Correct.thy ===== *)
theory Hash_Map_Correct
  imports Hash_Map
begin

text \<open>
  \<open>BsHashMap\<close> keeps the contract of a finite map as long as nothing is removed from it.  Quadratic
  probing visits every slot of a table whose size is a power of two; the invariant says that no slot
  before an entry on its probe sequence is empty.  \<open>Hash_Map_Reachable\<close> treats removals.
\<close>

section \<open>The probe sequence\<close>

primrec triangle :: "nat \<Rightarrow> nat" where
  "triangle 0 = 0"
| "triangle (Suc t) = triangle t + Suc t"

lemma triangle_double: "2 * triangle t = t * Suc t"
  by (induction t) auto

lemma triangle_mono: "i \<le> j \<Longrightarrow> triangle i \<le> triangle j"
  by (induction j) (auto simp: le_Suc_eq)

lemma power_two_dvd_odd:
  assumes "(2 :: nat) ^ n dvd a * b" and "odd b"
  shows "2 ^ n dvd a"
proof -
  have "coprime ((2 :: nat) ^ n) b" using assms(2) by (simp add: coprime_left_2_iff_odd)
  then show ?thesis using assms(1) by (simp add: coprime_dvd_mult_left_iff)
qed

lemma triangles_differ:
  assumes "i < j" and "j < 2 ^ n"
  shows "(h + triangle i) mod 2 ^ n \<noteq> (h + triangle j) mod 2 ^ n"
proof
  assume "(h + triangle i) mod 2 ^ n = (h + triangle j) mod 2 ^ n"
  moreover have le: "triangle i \<le> triangle j" using assms(1) by (simp add: triangle_mono)
  ultimately have "2 ^ n dvd (h + triangle j) - (h + triangle i)"
    by (metis mod_eq_dvd_iff_nat add_le_cancel_left)
  then have "2 * 2 ^ n dvd 2 * (triangle j - triangle i)"
    by (simp only: add_diff_cancel_left nat_mult_dvd_cancel_disj) simp
  moreover have "2 * (triangle j - triangle i) = (j - i) * (i + j + 1)"
  proof -
    obtain d where d: "j = i + d" using assms(1) less_imp_add_positive by blast
    have "2 * (triangle j - triangle i) = j * Suc j - i * Suc i"
      using triangle_double [of i] triangle_double [of j] by (simp add: diff_mult_distrib2)
    then show ?thesis by (simp add: d algebra_simps)
  qed
  ultimately have dvd: "2 ^ Suc n dvd (j - i) * (i + j + 1)" by simp
  have "2 ^ Suc n dvd j - i \<or> 2 ^ Suc n dvd i + j + 1"
  proof (cases "odd (i + j + 1)")
    case True
    with dvd show ?thesis by (blast intro: power_two_dvd_odd)
  next
    case False
    then have "odd (j - i)" using assms(1) by (simp add: even_diff_nat)
    with dvd show ?thesis using power_two_dvd_odd [of "Suc n" "i + j + 1" "j - i"] by (simp add: mult.commute)
  qed
  then show False using assms by (auto dest!: dvd_imp_le)
qed

text \<open>The probe sequence passes through all slots.\<close>

lemma probes_cover:
  assumes "p < 2 ^ n"
  shows "\<exists>t < 2 ^ n. (h + triangle t) mod 2 ^ n = p"
proof -
  have "inj_on (\<lambda>t. (h + triangle t) mod 2 ^ n) {..< 2 ^ n}"
    by (rule linorder_inj_onI) (use triangles_differ in \<open>auto\<close>)
  then have "(\<lambda>t. (h + triangle t) mod 2 ^ n) ` {..< 2 ^ n} = {..< 2 ^ n}"
    by (intro endo_inj_surj) auto
  with assms show ?thesis by (metis (mono_tags, lifting) imageE lessThan_iff)
qed

definition probe :: "('k, 'v) hash_map \<Rightarrow> nat \<Rightarrow> nat \<Rightarrow> nat" where
  "probe m h t = (h + triangle t) mod hash_map_capacity m"

lemma mask_mod:
  assumes "hash_map_capacity m = 2 ^ n"
  shows "x AND hash_map_mask m = x mod hash_map_capacity m"
  by (simp add: hash_map_mask_def assms take_bit_eq_mod [symmetric] take_bit_eq_mask mask_eq_exp_minus_1)

lemma probe_steps:
  assumes "hash_map_capacity m = 2 ^ n"
  shows "initial_probe_index m h = probe m h 0"
    and "next_probe_index m (probe m h t) (Suc t) = probe m h (Suc t)"
    and "probe m h t < hash_map_capacity m"
    and "p < hash_map_capacity m \<Longrightarrow> \<exists>t < hash_map_capacity m. probe m h t = p"
proof -
  show "next_probe_index m (probe m h t) (Suc t) = probe m h (Suc t)"
    by (simp only: next_probe_index_def mask_mod [OF assms] probe_def triangle.simps mod_add_left_eq
        add.assoc [symmetric])
qed (use probes_cover [of p n h] in \<open>simp_all add: initial_probe_index_def mask_mod [OF assms] probe_def assms\<close>)

section \<open>The loops\<close>

text \<open>The slot at which a probe sequence stops, if it does.\<close>

definition slot_at :: "('k, 'v) hash_map \<Rightarrow> nat \<Rightarrow> nat \<Rightarrow> ('k, 'v) hash_entry" where
  "slot_at m h t = hash_map_entries m ! probe m h t"

definition slot_holds :: "'k \<Rightarrow> ('k, 'v) hash_entry \<Rightarrow> bool" where
  "slot_holds key e \<longleftrightarrow> (\<exists>v. e = Occupied key v)"

lemma slot_holds_simps [simp]:
  "\<not> slot_holds key Empty" "\<not> slot_holds key Deleted" "slot_holds key (Occupied k v) \<longleftrightarrow> k = key"
  by (auto simp: slot_holds_def)

lemma probe_for_key_finds:
  assumes "hash_map_capacity m = 2 ^ n"
  shows "t \<le> hash_map_capacity m \<Longrightarrow> probe_for_key m key (probe m h t) (Suc t) = Some
    (case find (\<lambda>t. slot_at m h t = Empty \<or> slot_holds key (slot_at m h t)) [t..<hash_map_capacity m] of
       None \<Rightarrow> None
     | Some t \<Rightarrow> if slot_at m h t = Empty then None else Some (probe m h t))"
proof (induction "hash_map_capacity m - t" arbitrary: t)
  case 0
  then show ?case by (subst probe_for_key.simps) simp
next
  case (Suc d)
  then have t: "t < hash_map_capacity m" by simp
  have slot: "probe m h t < length (hash_map_entries m)"
      "hash_map_entries m ! probe m h t = slot_at m h t"
    using probe_steps(3) [OF assms, of h t] by (simp_all add: slot_at_def hash_map_capacity_def)
  then show ?case
    using Suc t probe_steps(2) [OF assms, of h t]
    by (subst probe_for_key.simps) (cases "slot_at m h t"; auto simp: vec_get_def slot upt_conv_Cons)
qed

lemma probe_for_insert_finds:
  assumes "hash_map_capacity m = 2 ^ n"
  shows "t \<le> hash_map_capacity m \<Longrightarrow> probe_for_insert m key v (probe m h t) (Suc t) = Some
    (case find (\<lambda>t. slot_entry (slot_at m h t) = [] \<or> slot_holds key (slot_at m h t)) [t..<hash_map_capacity m] of
       None \<Rightarrow> (False, m)
     | Some t \<Rightarrow>
         if slot_entry (slot_at m h t) = [] then
           (False, m\<lparr>hash_map_entries := (hash_map_entries m)[probe m h t := Occupied key v],
                     hash_map_len := hash_map_len m + 1\<rparr>)
         else (True, m\<lparr>hash_map_entries := (hash_map_entries m)[probe m h t := Occupied key v]\<rparr>))"
proof (induction "hash_map_capacity m - t" arbitrary: t)
  case 0
  then show ?case by (subst probe_for_insert.simps) simp
next
  case (Suc d)
  then have t: "t < hash_map_capacity m" by simp
  have slot: "probe m h t < length (hash_map_entries m)"
      "hash_map_entries m ! probe m h t = slot_at m h t"
    using probe_steps(3) [OF assms, of h t] by (simp_all add: slot_at_def hash_map_capacity_def)
  then show ?case
    using Suc t probe_steps(2) [OF assms, of h t]
    by (subst probe_for_insert.simps) (cases "slot_at m h t"; auto simp: vec_get_def slot upt_conv_Cons)
qed

section \<open>The invariant\<close>

text \<open>\<open>reached hash es p\<close>: no slot before \<open>p\<close> on the probe sequence of its key is empty.\<close>

definition reached :: "('k \<Rightarrow> nat) \<Rightarrow> ('k, 'v) hash_map \<Rightarrow> nat \<Rightarrow> 'k \<Rightarrow> bool" where
  "reached hash m p k \<longleftrightarrow> (\<exists>t < hash_map_capacity m. probe m (hash k) t = p
     \<and> (\<forall>s < t. slot_at m (hash k) s \<noteq> Empty))"

definition hash_map_wf :: "('k \<Rightarrow> nat) \<Rightarrow> ('k, 'v) hash_map \<Rightarrow> bool" where
  "hash_map_wf hash m \<longleftrightarrow>
     (\<exists>n. hash_map_capacity m = 2 ^ n)
     \<and> hash_map_len m = length (hash_map_iter m)
     \<and> (\<forall>p < hash_map_capacity m. \<forall>k. slot_holds k (hash_map_entries m ! p) \<longrightarrow> reached hash m p k)"

lemma hash_map_wfD:
  assumes "hash_map_wf hash m"
  shows "\<exists>n. hash_map_capacity m = 2 ^ n" and "hash_map_len m = length (hash_map_iter m)"
    and "\<And>p k. p < hash_map_capacity m \<Longrightarrow> slot_holds k (hash_map_entries m ! p) \<Longrightarrow> reached hash m p k"
  using assms by (simp_all add: hash_map_wf_def)

text \<open>A table in which no key is stored twice.\<close>

definition hash_map_ok :: "('k \<Rightarrow> nat) \<Rightarrow> ('k, 'v) hash_map \<Rightarrow> bool" where
  "hash_map_ok hash m \<longleftrightarrow> hash_map_wf hash m \<and> distinct (map fst (hash_map_iter m))"

lemma hash_map_ok_wf: "hash_map_ok hash m \<Longrightarrow> hash_map_wf hash m"
  by (simp add: hash_map_ok_def)

lemma hash_map_okD:
  assumes "hash_map_ok hash m"
  shows "\<exists>n. hash_map_capacity m = 2 ^ n" and "hash_map_len m = length (hash_map_iter m)"
    and "distinct (map fst (hash_map_iter m))"
    and "\<And>p k. p < hash_map_capacity m \<Longrightarrow> slot_holds k (hash_map_entries m ! p) \<Longrightarrow> reached hash m p k"
  using assms by (simp_all add: hash_map_ok_def hash_map_wf_def)

lemma in_hash_map_iter:
  "(k, v) \<in> set (hash_map_iter m) \<longleftrightarrow> (\<exists>p < hash_map_capacity m. hash_map_entries m ! p = Occupied k v)"
proof -
  have "(k, v) \<in> set (slot_entry e) \<longleftrightarrow> e = Occupied k v" for e by (cases e) auto
  then show ?thesis by (auto simp: hash_map_iter_def hash_map_capacity_def in_set_conv_nth)
qed

lemma has_key_iter:
  "has_key k (hash_map_iter m) \<longleftrightarrow> (\<exists>p < hash_map_capacity m. slot_holds k (hash_map_entries m ! p))"
  using in_hash_map_iter [of k _ m] by (force simp: has_key_def slot_holds_def)

text \<open>A key is found where it is.\<close>

lemma find_index_present:
  assumes ok: "hash_map_ok hash m" and "has_key key (hash_map_iter m)"
  obtains p v where "hash_map_find_index hash m key = Some (Some p)" and "p < hash_map_capacity m"
    and "hash_map_entries m ! p = Occupied key v" and "map_of (hash_map_iter m) key = Some v"
proof -
  obtain n where n: "hash_map_capacity m = 2 ^ n" using hash_map_okD(1) [OF ok] by blast
  note distinct = hash_map_okD(3) [OF ok] and reach = hash_map_okD(4) [OF ok]
  let ?stop = "\<lambda>t. slot_at m (hash key) t = Empty \<or> slot_holds key (slot_at m (hash key) t)"
  obtain q where "q < hash_map_capacity m" "slot_holds key (hash_map_entries m ! q)"
    using assms(2) by (auto simp: has_key_iter)
  with reach [of q key] obtain t where t: "t < hash_map_capacity m" "slot_holds key (slot_at m (hash key) t)"
    "\<forall>s < t. slot_at m (hash key) s \<noteq> Empty"
    by (auto simp: reached_def slot_at_def)
  have "find ?stop [0..<hash_map_capacity m] \<noteq> None" using t(1,2) by (auto simp: find_None_iff)
  then obtain u where u: "find ?stop [0..<hash_map_capacity m] = Some u" by auto
  then have u': "u < hash_map_capacity m" "?stop u" "\<And>s. s < u \<Longrightarrow> \<not> ?stop s"
    by (auto simp: find_Some_iff)
  have "u \<le> t" using u'(3) [of t] t(2) by (meson leI)
  then have "slot_at m (hash key) u \<noteq> Empty" using t(2,3) by (cases "u = t") auto
  then obtain v where v: "slot_at m (hash key) u = Occupied key v" using u'(2) by (auto simp: slot_holds_def)
  have p: "probe m (hash key) u < hash_map_capacity m" by (rule probe_steps(3) [OF n])
  show thesis
  proof (rule that)
    show "hash_map_find_index hash m key = Some (Some (probe m (hash key) u))"
      using probe_for_key_finds [OF n, of 0 key "hash key"] u v
      by (simp add: hash_map_find_index_def probe_steps(1) [OF n])
    show "hash_map_entries m ! probe m (hash key) u = Occupied key v"
      using v by (simp add: slot_at_def)
    then show "map_of (hash_map_iter m) key = Some v"
      using p distinct by (auto simp: in_hash_map_iter)
  qed (rule p)
qed

lemma find_index_absent:
  assumes ok: "hash_map_ok hash m" and absent: "\<not> has_key key (hash_map_iter m)"
  shows "hash_map_find_index hash m key = Some None"
proof -
  obtain n where n: "hash_map_capacity m = 2 ^ n" using hash_map_okD(1) [OF ok] by blast
  have "\<not> slot_holds key (slot_at m (hash key) t)" for t
    using absent probe_steps(3) [OF n, of "hash key" t] by (auto simp: has_key_iter slot_at_def)
  then show ?thesis
    using probe_for_key_finds [OF n, of 0 key "hash key"]
    by (auto simp: hash_map_find_index_def probe_steps(1) [OF n] find_Some_iff split: option.splits)
qed

lemma hash_map_get_ok:
  assumes ok: "hash_map_ok hash m"
  shows "hash_map_get hash m key = Some (map_of (hash_map_iter m) key)"
proof (cases "has_key key (hash_map_iter m)")
  case True
  then obtain p v where "hash_map_find_index hash m key = Some (Some p)" "p < hash_map_capacity m"
    "hash_map_entries m ! p = Occupied key v" "map_of (hash_map_iter m) key = Some v"
    by (rule find_index_present [OF ok])
  then show ?thesis by (simp add: hash_map_get_def vec_get_def hash_map_capacity_def)
next
  case False
  then show ?thesis using find_index_absent [OF ok False] by (simp add: hash_map_get_def has_key_iff)
qed

lemma hash_map_contains_key_ok:
  assumes ok: "hash_map_ok hash m"
  shows "hash_map_contains_key hash m key = Some (has_key key (hash_map_iter m))"
proof (cases "has_key key (hash_map_iter m)")
  case True
  then obtain p v where "hash_map_find_index hash m key = Some (Some p)" "p < hash_map_capacity m"
    "hash_map_entries m ! p = Occupied key v" "map_of (hash_map_iter m) key = Some v"
    by (rule find_index_present [OF ok])
  then show ?thesis using True by (simp add: hash_map_contains_key_def)
next
  case False
  then show ?thesis using find_index_absent [OF ok False] by (simp add: hash_map_contains_key_def)
qed

section \<open>Changing one slot\<close>

lemma probe_unchanged:
  "hash_map_capacity m' = hash_map_capacity m \<Longrightarrow> probe m' h t = probe m h t"
  by (simp add: probe_def)

text \<open>A slot that is not emptied leaves every other entry reached.\<close>

lemma slot_changed_wf:
  assumes wf: "hash_map_wf hash m" and p: "p < hash_map_capacity m" and e: "e \<noteq> Empty"
    and entries: "hash_map_entries m' = (hash_map_entries m)[p := e]"
    and len: "hash_map_len m' = length (hash_map_iter m')"
    and "\<And>k. slot_holds k e \<Longrightarrow> reached hash m p k"
  shows "hash_map_wf hash m'"
proof -
  obtain n where n: "hash_map_capacity m = 2 ^ n" using hash_map_wfD(1) [OF wf] by blast
  note reach = hash_map_wfD(3) [OF wf]
  have cap: "hash_map_capacity m' = hash_map_capacity m" by (simp add: hash_map_capacity_def entries)
  have reached: "reached hash m' q k" if "reached hash m q k" for q k
  proof -
    have "slot_at m' h s \<noteq> Empty" if "slot_at m h s \<noteq> Empty" for h s
      using that e p
      by (auto simp: slot_at_def probe_unchanged [OF cap] entries nth_list_update hash_map_capacity_def)
    with that show ?thesis by (auto simp: reached_def cap probe_unchanged [OF cap])
  qed
  have "reached hash m' q k" if "q < hash_map_capacity m" "slot_holds k (hash_map_entries m' ! q)" for q k
    using that reach [of q k] assms(6) p
    by (intro reached) (auto simp: entries nth_list_update hash_map_capacity_def split: if_splits)
  then show ?thesis using n len by (auto simp: hash_map_wf_def cap)
qed

lemma slot_changed_ok:
  assumes "hash_map_ok hash m" and "p < hash_map_capacity m" and "e \<noteq> Empty"
    and "hash_map_entries m' = (hash_map_entries m)[p := e]"
    and "hash_map_len m' = length (hash_map_iter m')" and "distinct (map fst (hash_map_iter m'))"
    and "\<And>k. slot_holds k e \<Longrightarrow> reached hash m p k"
  shows "hash_map_ok hash m'"
  using slot_changed_wf [OF hash_map_ok_wf [OF assms(1)] assms(2-5,7)] assms(6) by (simp add: hash_map_ok_def)

definition hash_map_shape :: "('k, 'v) hash_map \<Rightarrow> ('k \<times> 'v) list list" where
  "hash_map_shape m = map slot_entry (hash_map_entries m)"

lemma hash_map_iter_shape: "hash_map_iter m = concat (hash_map_shape m)"
  by (simp add: hash_map_iter_def hash_map_shape_def)

text \<open>What the table slot_holds after slot \<open>p\<close> has changed.\<close>

lemma slot_changed_iter:
  assumes ok: "hash_map_ok hash m" and p: "p < hash_map_capacity m"
    and entries: "hash_map_entries m' = (hash_map_entries m)[p := e]"
  shows "hash_map_entries m ! p = Occupied k w \<Longrightarrow> e = Deleted \<Longrightarrow> hash_map_iter m' = del k (hash_map_iter m)"
    and "hash_map_entries m ! p = Occupied k w \<Longrightarrow> e = Occupied k v \<Longrightarrow>
      hash_map_iter m' = overwrite k v (hash_map_iter m)"
    and "slot_entry (hash_map_entries m ! p) = [] \<Longrightarrow> \<exists>xs ys. hash_map_iter m = xs @ ys
      \<and> hash_map_iter m' = xs @ slot_entry e @ ys"
proof -
  have distinct: "distinct (map fst (concat (hash_map_shape m)))"
    using hash_map_okD(3) [OF ok] by (simp add: hash_map_iter_shape)
  have shape: "hash_map_shape m' = (hash_map_shape m)[p := slot_entry e]"
    by (simp add: hash_map_shape_def entries map_update)
  have p': "p < length (hash_map_shape m)"
    using p by (simp add: hash_map_shape_def hash_map_capacity_def)
  have at: "hash_map_shape m ! p = slot_entry (hash_map_entries m ! p)"
    using p by (simp add: hash_map_shape_def hash_map_capacity_def)
  show "hash_map_entries m ! p = Occupied k w \<Longrightarrow> e = Deleted \<Longrightarrow> hash_map_iter m' = del k (hash_map_iter m)"
    and "hash_map_entries m ! p = Occupied k w \<Longrightarrow> e = Occupied k v \<Longrightarrow>
      hash_map_iter m' = overwrite k v (hash_map_iter m)"
    using one_place [OF distinct p', of k w] at
    by (simp_all add: hash_map_iter_shape shape del_concat overwrite_concat)
  assume "slot_entry (hash_map_entries m ! p) = []"
  with at have "hash_map_shape m = take p (hash_map_shape m) @ [] # drop (Suc p) (hash_map_shape m)"
    using id_take_nth_drop [OF p'] by simp
  from arg_cong [OF this, of concat]
  have "hash_map_iter m = concat (take p (hash_map_shape m)) @ concat (drop (Suc p) (hash_map_shape m))"
    by (simp add: hash_map_iter_shape del: append_take_drop_id)
  then show "\<exists>xs ys. hash_map_iter m = xs @ ys \<and> hash_map_iter m' = xs @ slot_entry e @ ys"
    by (intro exI [of _ "concat (take p (hash_map_shape m))"]
        exI [of _ "concat (drop (Suc p) (hash_map_shape m))"])
      (simp add: hash_map_iter_shape shape upd_conv_take_nth_drop [OF p'])
qed

section \<open>Removal and insertion\<close>

lemma hash_map_remove_ok:
  assumes ok: "hash_map_ok hash m"
  shows "\<exists>m'. hash_map_remove hash key m = Some (has_key key (hash_map_iter m), m') \<and> hash_map_ok hash m'
    \<and> hash_map_iter m' = del key (hash_map_iter m)"
proof (cases "has_key key (hash_map_iter m)")
  case True
  then obtain p v where p: "hash_map_find_index hash m key = Some (Some p)" "p < hash_map_capacity m"
    "hash_map_entries m ! p = Occupied key v"
    by (rule find_index_present [OF ok])
  define m' where "m' = m\<lparr>hash_map_entries := (hash_map_entries m)[p := Deleted],
    hash_map_len := hash_map_len m - 1\<rparr>"
  have entries: "hash_map_entries m' = (hash_map_entries m)[p := Deleted]" by (simp add: m'_def)
  have iter: "hash_map_iter m' = del key (hash_map_iter m)"
    by (rule slot_changed_iter(1) [OF ok p(2) entries p(3) refl])
  have "hash_map_ok hash m'"
  proof (rule slot_changed_ok [OF ok p(2) _ entries])
    have "length (del key (hash_map_iter m)) = length (hash_map_iter m) - 1"
      by (rule length_del [OF hash_map_okD(3) [OF ok] True])
    then show "hash_map_len m' = length (hash_map_iter m')"
      unfolding iter using hash_map_okD(2) [OF ok] by (simp add: m'_def)
    show "distinct (map fst (hash_map_iter m'))"
      unfolding iter by (rule distinct_del [OF hash_map_okD(3) [OF ok]])
  qed simp_all
  moreover have "hash_map_remove hash key m = Some (True, m')"
    using p(1,2) by (simp add: hash_map_remove_def vec_set_def hash_map_capacity_def m'_def)
  ultimately show ?thesis using True iter by simp
next
  case False
  then show ?thesis
    using ok find_index_absent [OF ok False] by (simp add: hash_map_remove_def del_absent has_key_def)
qed

text \<open>
  Insertion stops at the first slot that is free or slot_holds the key.  It is right if no slot free for
  an earlier key comes before the key.
\<close>

definition has_room :: "('k, 'v) hash_map \<Rightarrow> bool" where
  "has_room m \<longleftrightarrow> (\<exists>p < hash_map_capacity m. slot_entry (hash_map_entries m ! p) = [])"

lemma hash_map_insert_cases:
  assumes wf: "hash_map_wf hash m" and room: "has_room m"
  obtains p m' where "p < hash_map_capacity m" and "m' = m\<lparr>hash_map_entries := (hash_map_entries m)[p := Occupied key v],
      hash_map_len := hash_map_len m + (if slot_entry (hash_map_entries m ! p) = [] then 1 else 0)\<rparr>"
    and "hash_map_insert_without_growing hash key v m
      = Some (slot_entry (hash_map_entries m ! p) \<noteq> [], m')"
    and "slot_entry (hash_map_entries m ! p) = [] \<or> slot_holds key (hash_map_entries m ! p)"
    and "reached hash m p key"
    and "has_key key (hash_map_iter m) \<Longrightarrow> Deleted \<notin> set (hash_map_entries m) \<Longrightarrow>
      slot_holds key (hash_map_entries m ! p)"
    and "\<exists>u < hash_map_capacity m. probe m (hash key) u = p \<and> (\<forall>s < u. \<not> slot_holds key (slot_at m (hash key) s))"
proof -
  obtain n where n: "hash_map_capacity m = 2 ^ n" using hash_map_wfD(1) [OF wf] by blast
  let ?stop = "\<lambda>t. slot_entry (slot_at m (hash key) t) = [] \<or> slot_holds key (slot_at m (hash key) t)"
  obtain q where q: "q < hash_map_capacity m" "slot_entry (hash_map_entries m ! q) = []"
    using room by (auto simp: has_room_def)
  obtain t where "t < hash_map_capacity m" "probe m (hash key) t = q"
    using probe_steps(4) [OF n q(1)] by blast
  with q(2) have "find ?stop [0..<hash_map_capacity m] \<noteq> None"
    by (auto simp: find_None_iff slot_at_def)
  then obtain u where u: "find ?stop [0..<hash_map_capacity m] = Some u" by auto
  then have u': "u < hash_map_capacity m" "?stop u" "\<And>s. s < u \<Longrightarrow> \<not> ?stop s"
    by (auto simp: find_Some_iff)
  let ?p = "probe m (hash key) u"
  have slot: "slot_at m (hash key) u = hash_map_entries m ! ?p" by (simp add: slot_at_def)
  have "slot_at m (hash key) s \<noteq> Empty" if "s < u" for s using u'(3) [OF that] by auto
  then have reached: "reached hash m ?p key" using u'(1) by (auto simp: reached_def)
  have slot_holds: "slot_holds key (hash_map_entries m ! ?p)"
    if present: "has_key key (hash_map_iter m)" and no_gaps: "Deleted \<notin> set (hash_map_entries m)"
  proof -
    obtain q where q: "q < hash_map_capacity m" "slot_holds key (hash_map_entries m ! q)"
      using present unfolding has_key_iter by blast
    from hash_map_wfD(3) [OF wf this] obtain t where t: "slot_holds key (slot_at m (hash key) t)"
      "\<And>s. s < t \<Longrightarrow> slot_at m (hash key) s \<noteq> Empty"
      using q(2) by (auto simp: reached_def slot_at_def)
    have "u \<le> t" using u'(3) [of t] t(1) by (meson leI)
    moreover have "slot_at m (hash key) s \<noteq> Deleted" for s
      using no_gaps probe_steps(3) [OF n, of "hash key" s]
      by (auto simp: slot_at_def hash_map_capacity_def in_set_conv_nth)
    ultimately have "slot_entry (slot_at m (hash key) u) \<noteq> []"
      using t by (cases "slot_at m (hash key) u"; cases "u = t") auto
    then show ?thesis using u'(2) by (simp add: slot)
  qed
  have insert: "hash_map_insert_without_growing hash key v m = Some (slot_entry (hash_map_entries m ! ?p) \<noteq> [],
      m\<lparr>hash_map_entries := (hash_map_entries m)[?p := Occupied key v],
        hash_map_len := hash_map_len m + (if slot_entry (hash_map_entries m ! ?p) = [] then 1 else 0)\<rparr>)"
    using probe_for_insert_finds [OF n, of 0 key v "hash key"] u u'(2)
    by (auto simp: hash_map_insert_without_growing_def probe_steps(1) [OF n] slot)
  have first: "\<exists>u < hash_map_capacity m. probe m (hash key) u = ?p \<and> (\<forall>s < u. \<not> slot_holds key (slot_at m (hash key) s))"
    using u'(1,3) by blast
  show thesis
    by (rule that [OF probe_steps(3) [OF n] refl insert _ reached slot_holds first]) (use u'(2) in \<open>auto simp: slot\<close>)
qed

text \<open>A new key.\<close>

lemma hash_map_insert_new:
  assumes ok: "hash_map_ok hash m" and room: "has_room m" and new: "\<not> has_key key (hash_map_iter m)"
  shows "\<exists>m'. hash_map_insert_without_growing hash key v m = Some (False, m') \<and> hash_map_ok hash m'
    \<and> map_of (hash_map_iter m') = (map_of (hash_map_iter m))(key \<mapsto> v)
    \<and> length (hash_map_iter m') = Suc (length (hash_map_iter m))
    \<and> (Deleted \<notin> set (hash_map_entries m) \<longrightarrow> Deleted \<notin> set (hash_map_entries m'))
    \<and> hash_map_capacity m' = hash_map_capacity m"
proof -
  obtain p m' where p: "p < hash_map_capacity m" and m': "m' = m\<lparr>hash_map_entries := (hash_map_entries m)[p := Occupied key v],
      hash_map_len := hash_map_len m + (if slot_entry (hash_map_entries m ! p) = [] then 1 else 0)\<rparr>"
    and insert: "hash_map_insert_without_growing hash key v m = Some (slot_entry (hash_map_entries m ! p) \<noteq> [], m')"
    and stop: "slot_entry (hash_map_entries m ! p) = [] \<or> slot_holds key (hash_map_entries m ! p)"
    and reached: "reached hash m p key"
    by (rule hash_map_insert_cases [OF hash_map_ok_wf [OF ok] room, of key v])
  have free: "slot_entry (hash_map_entries m ! p) = []" using new p stop unfolding has_key_iter by blast
  have entries: "hash_map_entries m' = (hash_map_entries m)[p := Occupied key v]" by (simp add: m')
  obtain xs ys where iter: "hash_map_iter m = xs @ ys" "hash_map_iter m' = xs @ [(key, v)] @ ys"
    using slot_changed_iter(3) [OF ok p entries free] by auto
  have "hash_map_ok hash m'"
    using iter new hash_map_okD(2,3) [OF ok] reached
    by (intro slot_changed_ok [OF ok p _ entries]) (auto simp: m' free has_key_def)
  moreover have "map_of (hash_map_iter m') = (map_of (hash_map_iter m))(key \<mapsto> v)"
    using new unfolding has_key_iff iter by (auto simp: fun_eq_iff map_add_def split: option.splits)
  moreover have "Deleted \<notin> set (hash_map_entries m')" if "Deleted \<notin> set (hash_map_entries m)"
    using that set_update_subset_insert [of "hash_map_entries m" p] unfolding entries by auto
  ultimately show ?thesis using insert free iter by (auto simp: m' hash_map_capacity_def)
qed

text \<open>A key that is there, in a table from which nothing was removed.\<close>

lemma hash_map_insert_present:
  assumes ok: "hash_map_ok hash m" and room: "has_room m" and present: "has_key key (hash_map_iter m)"
    and no_gaps: "Deleted \<notin> set (hash_map_entries m)"
  shows "\<exists>m'. hash_map_insert_without_growing hash key v m = Some (True, m') \<and> hash_map_ok hash m'
    \<and> hash_map_iter m' = overwrite key v (hash_map_iter m) \<and> Deleted \<notin> set (hash_map_entries m')
    \<and> hash_map_capacity m' = hash_map_capacity m"
proof -
  obtain p m' where p: "p < hash_map_capacity m" and m': "m' = m\<lparr>hash_map_entries := (hash_map_entries m)[p := Occupied key v],
      hash_map_len := hash_map_len m + (if slot_entry (hash_map_entries m ! p) = [] then 1 else 0)\<rparr>"
    and insert: "hash_map_insert_without_growing hash key v m = Some (slot_entry (hash_map_entries m ! p) \<noteq> [], m')"
    and reached: "reached hash m p key" and slot_holds: "slot_holds key (hash_map_entries m ! p)"
    using present no_gaps by (rule_tac hash_map_insert_cases [OF hash_map_ok_wf [OF ok] room, of key v]) blast
  obtain w where w: "hash_map_entries m ! p = Occupied key w" using slot_holds by (auto simp: slot_holds_def)
  have entries: "hash_map_entries m' = (hash_map_entries m)[p := Occupied key v]" by (simp add: m')
  have iter: "hash_map_iter m' = overwrite key v (hash_map_iter m)"
    by (rule slot_changed_iter(2) [OF ok p entries w refl])
  have "map fst (overwrite key v xs) = map fst xs" for xs by (auto simp: overwrite_def)
  then have "hash_map_ok hash m'"
    using hash_map_okD(2,3) [OF ok] reached
    by (intro slot_changed_ok [OF ok p _ entries]) (simp_all add: iter, simp add: m' w overwrite_def)
  moreover have "Deleted \<notin> set (hash_map_entries m')"
    using no_gaps set_update_subset_insert [of "hash_map_entries m" p] unfolding entries by auto
  ultimately show ?thesis using insert w iter by (simp add: m' hash_map_capacity_def)
qed

section \<open>The contract\<close>

text \<open>
  Space for keys that may be there already: none once something was removed.
\<close>

definition hash_map_space :: "('k, 'v) hash_map \<Rightarrow> nat" where
  "hash_map_space m =
     (if Deleted \<in> set (hash_map_entries m) then 0
      else hash_map_capacity m - length (hash_map_iter m))"

lemma length_slot_entry: "length (slot_entry e) = (if slot_entry e = [] then 0 else 1)"
  by (cases e) auto

lemma length_iter: "length (hash_map_iter m) = length (filter (\<lambda>e. slot_entry e \<noteq> []) (hash_map_entries m))"
proof -
  have "length (concat (map slot_entry es)) = length (filter (\<lambda>e. slot_entry e \<noteq> []) es)"
    for es :: "('a, 'b) hash_entry list"
    by (induction es) (simp_all add: length_slot_entry)
  then show ?thesis by (simp add: hash_map_iter_def)
qed

lemma filter_shorter: "length (filter P xs) < length xs \<longleftrightarrow> (\<exists>p < length xs. \<not> P (xs ! p))"
  using length_filter_less [of _ xs P] filter_True [of xs P] by (metis in_set_conv_nth less_irrefl_nat)

lemma has_room_iff: "has_room m \<longleftrightarrow> length (hash_map_iter m) < hash_map_capacity m"
  unfolding has_room_def length_iter hash_map_capacity_def filter_shorter by simp

lemma hash_map_insert_law:
  assumes ok: "hash_map_ok hash m" and space: "0 < hash_map_space m"
  shows "\<exists>m'. hash_map_insert_without_growing hash k v m = Some (has_key k (hash_map_iter m), m')
    \<and> hash_map_ok hash m' \<and> map_of (hash_map_iter m') = (map_of (hash_map_iter m))(k \<mapsto> v)
    \<and> hash_map_space m \<le> Suc (hash_map_space m')"
proof -
  have room: "has_room m" and no_gaps: "Deleted \<notin> set (hash_map_entries m)"
    using space by (auto simp: has_room_iff hash_map_space_def split: if_splits)
  show ?thesis
  proof (cases "has_key k (hash_map_iter m)")
    case True
    have "map_of (overwrite k v (hash_map_iter m)) = (map_of (hash_map_iter m))(k \<mapsto> v)"
      by (simp only: put_overwrite [OF True hash_map_okD(3) [OF ok], symmetric] map_of_put)
    moreover have "length (overwrite k v xs) = length xs" for xs by (simp add: overwrite_def)
    moreover note hash_map_insert_present [OF ok room True no_gaps, of v]
    ultimately show ?thesis by (elim exE conjE) (simp add: hash_map_space_def True no_gaps)
  next
    case False
    show ?thesis
      using hash_map_insert_new [OF ok room False, of v]
      by (elim exE conjE) (simp add: hash_map_space_def no_gaps False)
  qed
qed

lemma hash_map_remove_law:
  assumes "hash_map_ok hash m"
  shows "\<exists>m'. hash_map_remove hash k m = Some (has_key k (hash_map_iter m), m')
    \<and> hash_map_ok hash m' \<and> map_of (hash_map_iter m') = (map_of (hash_map_iter m))(k := None)"
  using hash_map_remove_ok [OF assms, of k] by auto

interpretation hash_map: finite_map "hash_map_get hash" "hash_map_insert_without_growing hash"
    "hash_map_remove hash" "hash_map_ok hash" hash_map_space hash_map_iter
  for hash :: "'k \<Rightarrow> nat"
  apply unfold_locales
  subgoal by (rule hash_map_get_ok)
  subgoal by (rule hash_map_okD(3))
  subgoal by (rule hash_map_insert_law)
  subgoal by (rule hash_map_remove_law)
  done

section \<open>Growing\<close>

lemma new_hash_map_ok:
  assumes "capacity = 2 ^ n"
  shows "hash_map_ok hash (new_hash_map capacity)" and "hash_map_iter (new_hash_map capacity) = []"
    and "hash_map_space (new_hash_map capacity) = capacity"
    and "hash_map_capacity (new_hash_map capacity) = capacity"
proof -
  show iter: "hash_map_iter (new_hash_map capacity) = []"
    by (simp add: hash_map_iter_def new_hash_map_def)
  show cap: "hash_map_capacity (new_hash_map capacity) = capacity"
    by (simp add: hash_map_capacity_def new_hash_map_def)
  show "hash_map_ok hash (new_hash_map capacity)"
    unfolding hash_map_ok_def hash_map_wf_def iter cap by (simp add: new_hash_map_def assms)
  show "hash_map_space (new_hash_map capacity) = capacity"
    unfolding hash_map_space_def iter cap by (simp add: new_hash_map_def)
qed

lemma insert_keeps_capacity:
  assumes "hash_map_insert_without_growing hash k v m = Some (p, m')"
  shows "hash_map_capacity m' = hash_map_capacity m"
proof -
  have "hash_map_capacity m' = hash_map_capacity m"
    if "probe_for_insert m k v i s = Some (p, m')" for i s
    using that
  proof (induction "Suc (hash_map_capacity m) - s" arbitrary: i s)
    case 0
    then show ?case by (subst (asm) probe_for_insert.simps) (simp split: if_splits)
  next
    case (Suc d)
    show ?case
    proof (cases "i < length (hash_map_entries m)")
      case True
      then show ?thesis
        using Suc.prems Suc.hyps(2) Suc.hyps(1) [of "Suc s" "next_probe_index m i s"]
        by (subst (asm) probe_for_insert.simps)
          (cases "hash_map_entries m ! i"; auto simp: vec_get_def hash_map_capacity_def split: if_splits)
    next
      case False
      then show ?thesis
        using Suc.prems by (subst (asm) probe_for_insert.simps) (auto simp: vec_get_def split: if_splits)
    qed
  qed
  with assms show ?thesis by (simp add: hash_map_insert_without_growing_def)
qed

lemma insert_all_keeps_capacity:
  "insert_all (hash_map_insert_without_growing hash) xs m = Some m' \<Longrightarrow>
     hash_map_capacity m' = hash_map_capacity m"
  by (induction xs arbitrary: m)
    (auto simp: bind_eq_Some_conv dest: insert_keeps_capacity)

lemma same_length:
  assumes "distinct (map fst xs)" and "distinct (map fst ys)" and "map_of xs = map_of ys"
  shows "length xs = length ys"
proof -
  have "fst ` set xs = fst ` set ys" using assms(3) by (metis dom_map_of_conv_image_fst)
  then show ?thesis using assms(1,2) by (metis distinct_card length_map list.set_map)
qed

text \<open>At most half of a table is in use.\<close>

definition half_free :: "('k, 'v) hash_map \<Rightarrow> bool" where
  "half_free m \<longleftrightarrow> 2 * length (hash_map_iter m) \<le> hash_map_capacity m"

lemma hash_map_maybe_grow_ok:
  assumes ok: "hash_map_ok hash m" and half: "half_free m"
  shows "\<exists>m'. hash_map_maybe_grow hash m = Some m' \<and> hash_map_ok hash m'
    \<and> map_of (hash_map_iter m') = map_of (hash_map_iter m)
    \<and> 2 * (length (hash_map_iter m') + 1) \<le> hash_map_capacity m'
    \<and> (m' = m \<or> Deleted \<notin> set (hash_map_entries m'))"
proof (cases "hash_map_len m + 1 \<le> hash_map_capacity m div 2")
  case True
  then have "2 * (length (hash_map_iter m) + 1) \<le> hash_map_capacity m"
    unfolding hash_map_okD(2) [OF ok] by presburger
  with True ok show ?thesis by (simp add: hash_map_maybe_grow_def)
next
  case False
  obtain n where n: "hash_map_capacity m = 2 ^ n" using hash_map_okD(1) [OF ok] by blast
  then have cap: "hash_map_capacity m * 2 = 2 ^ Suc n" "0 < hash_map_capacity m" by simp_all
  note new = new_hash_map_ok [OF cap(1)]
  have enough: "length (hash_map_iter m) < hash_map_capacity m * 2"
    using half cap(2) by (simp add: half_free_def)
  obtain m' where m': "insert_all (hash_map_insert_without_growing hash) (hash_map_iter m)
      (new_hash_map (hash_map_capacity m * 2)) = Some m'"
    "hash_map_ok hash m'" "map_of (hash_map_iter m') = map_of (hash_map_iter m)"
    "hash_map_capacity m * 2 \<le> length (hash_map_iter m) + hash_map_space m'"
    using hash_map.insert_all_copies [OF new(1,2) hash_map_okD(3) [OF ok]] enough unfolding new(3) by auto
  have "length (hash_map_iter m') = length (hash_map_iter m)"
    by (rule same_length [OF hash_map_okD(3) [OF m'(2)] hash_map_okD(3) [OF ok] m'(3)])
  moreover have "hash_map_capacity m' = hash_map_capacity m * 2"
    using insert_all_keeps_capacity [OF m'(1)] new(4) by simp
  ultimately have "2 * (length (hash_map_iter m') + 1) \<le> hash_map_capacity m'"
    using half cap(2) unfolding half_free_def by presburger
  moreover have "Deleted \<notin> set (hash_map_entries m')"
    using m'(4) enough by (auto simp: hash_map_space_def split: if_splits)
  ultimately show ?thesis
    using False m'(1-3) by (auto simp: hash_map_maybe_grow_def Let_def)
qed

lemma hash_map_insert_new_ok:
  assumes ok: "hash_map_ok hash m" and half: "half_free m" and new: "\<not> has_key k (hash_map_iter m)"
  shows "\<exists>m'. hash_map_insert hash k v m = Some (False, m') \<and> hash_map_ok hash m' \<and> half_free m'
    \<and> map_of (hash_map_iter m') = (map_of (hash_map_iter m))(k \<mapsto> v)"
proof -
  obtain m1 where m1: "hash_map_maybe_grow hash m = Some m1" "hash_map_ok hash m1"
    "map_of (hash_map_iter m1) = map_of (hash_map_iter m)"
    "2 * (length (hash_map_iter m1) + 1) \<le> hash_map_capacity m1"
    using hash_map_maybe_grow_ok [OF ok half] by blast
  have "has_room m1" "\<not> has_key k (hash_map_iter m1)"
    using m1(3,4) new by (simp_all add: has_room_iff has_key_iff)
  from hash_map_insert_new [OF m1(2) this, of v] show ?thesis
    using m1 by (auto simp: hash_map_insert_def half_free_def)
qed

section \<open>Capacities\<close>

lemma next_power_of_two_from_ok:
  "p = 2 ^ k \<Longrightarrow> \<exists>j. next_power_of_two_from p n = 2 ^ j \<and> n \<le> 2 ^ j \<and> (k < j \<longrightarrow> 2 ^ j < 2 * n)"
proof (induction p n arbitrary: k rule: next_power_of_two_from.induct)
  case (1 p n)
  show ?case
  proof (cases "p < n")
    case True
    obtain j where "next_power_of_two_from (2 * p) n = 2 ^ j" "n \<le> 2 ^ j" "Suc k < j \<longrightarrow> 2 ^ j < 2 * n"
      using "1.IH" [of "Suc k"] "1.prems" True by auto
    moreover have "2 ^ j < 2 * n" if "k < j" "\<not> Suc k < j"
      using that True "1.prems" by (simp add: less_Suc_eq not_less_eq)
    ultimately show ?thesis
      using True "1.prems" by (subst next_power_of_two_from.simps) (auto intro!: exI [of _ j])
  next
    case False
    then show ?thesis using "1.prems" by (subst next_power_of_two_from.simps) auto
  qed
qed

text \<open>A table of the computed capacity takes so many entries with half of it free.\<close>

lemma min_capacity_needed_ok:
  "\<exists>k. min_capacity_needed n = 2 ^ k \<and> 2 * n \<le> 2 ^ k"
proof -
  obtain j where "next_power_of_two n = 2 ^ j" "n \<le> 2 ^ j"
    using next_power_of_two_from_ok [of 1 0 n] by (auto simp: next_power_of_two_def)
  then show ?thesis
    by (cases "n > 2 ^ j div 2") (auto simp: min_capacity_needed_def Let_def intro: exI [of _ "Suc j"] exI [of _ j])
qed

lemma min_capacity_needed_minimal:
  "0 < n \<Longrightarrow> min_capacity_needed n < 4 * n"
proof -
  assume "0 < n"
  obtain j where j: "next_power_of_two n = 2 ^ j" "n \<le> 2 ^ j" "0 < j \<longrightarrow> 2 ^ j < 2 * n"
    using next_power_of_two_from_ok [of 1 0 n] by (auto simp: next_power_of_two_def)
  then have "(2 :: nat) ^ j < 2 * n" using \<open>0 < n\<close> by (cases j) auto
  then show ?thesis by (auto simp: min_capacity_needed_def j(1) Let_def)
qed

end
