(* ===== verification/Hash_Map_Reachable.thy ===== *)
theory Hash_Map_Reachable
  imports Hash_Map_Correct
begin

text \<open>
  \<open>BsHashMap\<close> in every state that insertions and removals lead to.  Insertion writes to the first slot
  that is free, so after a removal a key can be stored in two slots: a lookup sees the first of them on the
  probe sequence, growth the last of them in the table.  The invariant \<open>hash_map_wf\<close> allows such tables;
  what holds for all keys, and what only for those that are stored once, is shown here.
\<close>

section \<open>The value of a key\<close>

text \<open>What a lookup sees: the first slot on the probe sequence that holds the key.\<close>

definition hash_map_value :: "('k \<Rightarrow> nat) \<Rightarrow> ('k, 'v) hash_map \<Rightarrow> 'k \<Rightarrow> 'v option" where
  "hash_map_value hash m k =
     (case find (\<lambda>t. slot_holds k (slot_at m (hash k) t)) [0..<hash_map_capacity m] of
        None \<Rightarrow> None
      | Some t \<Rightarrow> map_of (slot_entry (slot_at m (hash k) t)) k)"

text \<open>The number of slots that hold a key.\<close>

definition key_copies :: "'k \<Rightarrow> ('k, 'v) hash_map \<Rightarrow> nat" where
  "key_copies k m = length (filter (slot_holds k) (hash_map_entries m))"

lemma key_copies_iter: "key_copies k m = count_list (map fst (hash_map_iter m)) k"
proof -
  have "length (filter (slot_holds k) es) = count_list (map fst (concat (map slot_entry es))) k"
    for es :: "('a, 'b) hash_entry list"
  proof (induction es)
    case (Cons e es)
    then show ?case by (cases e) auto
  qed simp
  then show ?thesis by (simp add: key_copies_def hash_map_iter_def)
qed

lemma distinct_copies: "distinct (map fst (hash_map_iter m)) \<longleftrightarrow> (\<forall>k. key_copies k m \<le> 1)"
proof -
  have "distinct xs \<longleftrightarrow> (\<forall>k. count_list xs k \<le> 1)" for xs :: "'a list"
  proof (induction xs)
    case (Cons x xs)
    have "count_list (x # xs) k \<le> 1 \<longleftrightarrow> (k = x \<longrightarrow> count_list xs x = 0) \<and> count_list xs k \<le> 1" for k
      by (cases "k = x") auto
    then have "(\<forall>k. count_list (x # xs) k \<le> 1) \<longleftrightarrow> count_list xs x = 0 \<and> (\<forall>k. count_list xs k \<le> 1)"
      by blast
    moreover have "count_list xs x = 0 \<longleftrightarrow> x \<notin> set xs" by (rule count_list_0_iff)
    ultimately show ?case using Cons.IH by (simp only: distinct.simps)
  qed simp
  then show ?thesis by (simp add: key_copies_iter)
qed

lemma copies_differ:
  assumes "xs ! i = (k, v)" and "xs ! j = (k, w)" and "i < j" and "j < length xs"
  shows "2 \<le> count_list (map fst xs) k"
  using assms
proof (induction xs arbitrary: i j)
  case (Cons x xs)
  show ?case
  proof (cases i)
    case 0
    then have "(k, w) \<in> set xs" using Cons.prems by (cases j) (auto simp: in_set_conv_nth)
    then have "k \<in> set (map fst xs)" by force
    then have "count_list (map fst xs) k \<noteq> 0" by (simp only: count_list_0_iff) simp
    then show ?thesis using 0 Cons.prems(1) by simp
  next
    case (Suc i')
    then show ?thesis using Cons.prems Cons.IH [of i' "j - 1"] by (cases j) auto
  qed
qed simp

lemma stored_once_unique:
  assumes "count_list (map fst xs) k \<le> 1" and "(k, v) \<in> set xs" and "(k, w) \<in> set xs"
  shows "v = w"
proof -
  obtain i j where ij: "xs ! i = (k, v)" "i < length xs" "xs ! j = (k, w)" "j < length xs"
    using assms(2,3) by (auto simp: in_set_conv_nth)
  have "i = j"
    using copies_differ [OF ij(1,3) _ ij(4)] copies_differ [OF ij(3,1) _ ij(2)] assms(1)
    by (cases i j rule: linorder_cases) auto
  then show ?thesis using ij by simp
qed

section \<open>Lookup\<close>

lemma probe_inj:
  assumes "hash_map_capacity m = 2 ^ n" and "s < hash_map_capacity m" and "t < hash_map_capacity m"
    and "probe m h s = probe m h t"
  shows "s = t"
  using assms triangles_differ [of s t n h] triangles_differ [of t s n h]
  by (cases s t rule: linorder_cases) (simp_all add: probe_def)

text \<open>The first slot that holds a key comes before every empty one.\<close>

lemma reached_first:
  assumes wf: "hash_map_wf hash m" and t: "t < hash_map_capacity m" "slot_holds k (slot_at m (hash k) t)"
    and s: "s < t"
  shows "slot_at m (hash k) s \<noteq> Empty"
proof -
  obtain n where n: "hash_map_capacity m = 2 ^ n" using hash_map_wfD(1) [OF wf] by blast
  have "reached hash m (probe m (hash k) t) k"
    using hash_map_wfD(3) [OF wf probe_steps(3) [OF n]] t(2) by (simp add: slot_at_def)
  then obtain u where u: "u < hash_map_capacity m" "probe m (hash k) u = probe m (hash k) t"
    "\<And>s. s < u \<Longrightarrow> slot_at m (hash k) s \<noteq> Empty"
    by (auto simp: reached_def)
  have "u = t" by (rule probe_inj [OF n u(1) t(1) u(2)])
  then show ?thesis using u(3) s by blast
qed

lemma find_index_value:
  assumes wf: "hash_map_wf hash m"
  shows "(hash_map_find_index hash m k = Some None \<and> hash_map_value hash m k = None
      \<and> (\<forall>p < hash_map_capacity m. \<not> slot_holds k (hash_map_entries m ! p)))
    \<or> (\<exists>t v. hash_map_find_index hash m k = Some (Some (probe m (hash k) t)) \<and> t < hash_map_capacity m
      \<and> slot_at m (hash k) t = Occupied k v \<and> hash_map_value hash m k = Some v
      \<and> (\<forall>s < t. \<not> slot_holds k (slot_at m (hash k) s)))"
proof -
  obtain n where n: "hash_map_capacity m = 2 ^ n" using hash_map_wfD(1) [OF wf] by blast
  let ?stop = "\<lambda>t. slot_at m (hash k) t = Empty \<or> slot_holds k (slot_at m (hash k) t)"
  let ?holds = "\<lambda>t. slot_holds k (slot_at m (hash k) t)"
  have index: "hash_map_find_index hash m k = Some
      (case find ?stop [0..<hash_map_capacity m] of
         None \<Rightarrow> None
       | Some t \<Rightarrow> if slot_at m (hash k) t = Empty then None else Some (probe m (hash k) t))"
    using probe_for_key_finds [OF n, of 0 k "hash k"] by (simp add: hash_map_find_index_def probe_steps(1) [OF n])
  show ?thesis
  proof (cases "find ?holds [0..<hash_map_capacity m]")
    case None
    then have no: "\<not> ?holds t" if "t < hash_map_capacity m" for t
      using that by (auto simp: find_None_iff)
    have "\<not> slot_holds k (hash_map_entries m ! p)" if "p < hash_map_capacity m" for p
      using probe_steps(4) [OF n that, of "hash k"] no by (auto simp: slot_at_def)
    moreover have "hash_map_find_index hash m k = Some None"
      unfolding index using no by (auto simp: find_Some_iff split: option.split)
    ultimately show ?thesis using None by (simp add: hash_map_value_def)
  next
    case (Some t)
    then have t: "t < hash_map_capacity m" "?holds t" "\<forall>s < t. \<not> ?holds s" by (auto simp: find_Some_iff)
    have "\<not> ?stop s" if "s < t" for s using reached_first [OF wf t(1,2) that] t(3) that by blast
    then have "find ?stop [0..<hash_map_capacity m] = Some t"
      using t by (auto simp: find_Some_iff intro!: exI [of _ t])
    moreover obtain v where v: "slot_at m (hash k) t = Occupied k v" using t(2) by (auto simp: slot_holds_def)
    ultimately show ?thesis using t Some by (auto simp: index hash_map_value_def)
  qed
qed

lemma hash_map_get_value:
  assumes wf: "hash_map_wf hash m"
  shows "hash_map_get hash m k = Some (hash_map_value hash m k)"
proof -
  obtain n where n: "hash_map_capacity m = 2 ^ n" using hash_map_wfD(1) [OF wf] by blast
  show ?thesis
    using find_index_value [OF wf, of k] probe_steps(3) [OF n, of "hash k"]
    by (auto simp: hash_map_get_def vec_get_def hash_map_capacity_def slot_at_def)
qed

lemma value_stored: "hash_map_wf hash m \<Longrightarrow> hash_map_value hash m k = Some v \<Longrightarrow> (k, v) \<in> set (hash_map_iter m)"
proof -
  assume wf: "hash_map_wf hash m" and v: "hash_map_value hash m k = Some v"
  obtain n where n: "hash_map_capacity m = 2 ^ n" using hash_map_wfD(1) [OF wf] by blast
  show ?thesis
    using find_index_value [OF wf, of k] v probe_steps(3) [OF n, of "hash k"]
    by (auto simp: in_hash_map_iter slot_at_def)
qed

lemma value_None:
  assumes "hash_map_wf hash m"
  shows "hash_map_value hash m k = None \<longleftrightarrow> \<not> has_key k (hash_map_iter m)"
proof (cases "hash_map_value hash m k")
  case None
  then show ?thesis using find_index_value [OF assms, of k] by (auto simp: has_key_iter)
next
  case (Some v)
  then show ?thesis using value_stored [OF assms Some] by (force simp: has_key_def)
qed

lemma value_once:
  assumes "hash_map_wf hash m" and "key_copies k m \<le> 1"
  shows "hash_map_value hash m k = Some v \<longleftrightarrow> (k, v) \<in> set (hash_map_iter m)"
proof
  assume "(k, v) \<in> set (hash_map_iter m)"
  then have "has_key k (hash_map_iter m)" by (force simp: has_key_def)
  then obtain w where w: "hash_map_value hash m k = Some w" using value_None [OF assms(1), of k] by auto
  then show "hash_map_value hash m k = Some v"
    using stored_once_unique [OF assms(2) [unfolded key_copies_iter] value_stored [OF assms(1) w]]
      \<open>(k, v) \<in> set (hash_map_iter m)\<close> by auto
qed (use value_stored [OF assms(1)] in blast)

lemma value_distinct:
  assumes "hash_map_ok hash m"
  shows "hash_map_value hash m k = map_of (hash_map_iter m) k"
  using hash_map_get_value [OF hash_map_ok_wf [OF assms], of k] hash_map_get_ok [OF assms, of k] by simp

section \<open>Insertion and removal\<close>

text \<open>A slot that changes only what is stored for one key.\<close>

lemma filter_update:
  "\<not> P (xs ! i) \<Longrightarrow> \<not> P x \<Longrightarrow> filter P (xs[i := x]) = filter P xs"
proof (cases "i < length xs")
  case True
  assume "\<not> P (xs ! i)" "\<not> P x"
  then show ?thesis
    using id_take_nth_drop [OF True] True by (metis (no_types, lifting) filter.simps(2) filter_append upd_conv_take_nth_drop)
qed (simp add: list_update_beyond)

lemma other_key_kept:
  assumes p: "p < hash_map_capacity m" and entries: "hash_map_entries m' = (hash_map_entries m)[p := e]"
    and "\<not> slot_holds j (hash_map_entries m ! p)" and "\<not> slot_holds j e"
  shows "hash_map_value hash m' j = hash_map_value hash m j" and "key_copies j m' = key_copies j m"
proof -
  have cap: "hash_map_capacity m' = hash_map_capacity m" by (simp add: hash_map_capacity_def entries)
  have slot: "slot_at m' h t = (if probe m h t = p then e else slot_at m h t)" for h t
    using p by (simp add: slot_at_def probe_unchanged [OF cap] entries nth_list_update hash_map_capacity_def)
  have holds: "slot_holds j (slot_at m' h t) = slot_holds j (slot_at m h t)" for h t
    using assms(3,4) by (simp add: slot) (simp add: slot_at_def)
  have same: "slot_at m' h t = slot_at m h t" if "slot_holds j (slot_at m h t)" for h t
    using that assms(3) by (simp add: slot) (auto simp: slot_at_def)
  show "hash_map_value hash m' j = hash_map_value hash m j"
  proof (cases "find (\<lambda>t. slot_holds j (slot_at m (hash j) t)) [0..<hash_map_capacity m]")
    case (Some t)
    then have "slot_holds j (slot_at m (hash j) t)" by (auto simp: find_Some_iff)
    then show ?thesis using Some by (simp add: hash_map_value_def cap holds same)
  qed (simp add: hash_map_value_def cap holds)
  show "key_copies j m' = key_copies j m"
    using filter_update [of "slot_holds j", OF assms(3,4)] by (simp add: key_copies_def entries)
qed

lemma length_iter_update:
  assumes "p < hash_map_capacity m" and "hash_map_entries m' = (hash_map_entries m)[p := e]"
  shows "length (hash_map_iter m') + length (slot_entry (hash_map_entries m ! p))
    = length (hash_map_iter m) + length (slot_entry e)"
proof -
  have "length (concat (map slot_entry (es[p := e]))) + length (slot_entry (es ! p))
      = length (concat (map slot_entry es)) + length (slot_entry e)"
    if "p < length es" for es
    using that
  proof (induction es arbitrary: p)
    case (Cons x es)
    then show ?case by (cases p) (auto simp: length_concat)
  qed simp
  then show ?thesis using assms by (simp add: hash_map_iter_def hash_map_capacity_def)
qed

lemma iter_update_subset:
  assumes "p < hash_map_capacity m" and "hash_map_entries m' = (hash_map_entries m)[p := e]"
  shows "set (hash_map_iter m') \<subseteq> set (slot_entry e) \<union> set (hash_map_iter m)"
  using set_update_subset_insert [of "hash_map_entries m" p e] assms(2)
  by (auto simp: hash_map_iter_def)

lemma insert_without_growing_value:
  assumes wf: "hash_map_wf hash m" and room: "has_room m"
  shows "\<exists>present m'. hash_map_insert_without_growing hash k v m = Some (present, m') \<and> hash_map_wf hash m'
    \<and> hash_map_value hash m' k = Some v \<and> (present \<longrightarrow> has_key k (hash_map_iter m))
    \<and> (\<forall>j. j \<noteq> k \<longrightarrow> hash_map_value hash m' j = hash_map_value hash m j \<and> key_copies j m' = key_copies j m)
    \<and> set (hash_map_iter m') \<subseteq> insert (k, v) (set (hash_map_iter m))
    \<and> length (hash_map_iter m') \<le> Suc (length (hash_map_iter m))
    \<and> hash_map_capacity m' = hash_map_capacity m"
proof -
  obtain n where n: "hash_map_capacity m = 2 ^ n" using hash_map_wfD(1) [OF wf] by blast
  obtain p m' where p: "p < hash_map_capacity m" and m': "m' = m\<lparr>hash_map_entries := (hash_map_entries m)[p := Occupied k v],
      hash_map_len := hash_map_len m + (if slot_entry (hash_map_entries m ! p) = [] then 1 else 0)\<rparr>"
    and insert: "hash_map_insert_without_growing hash k v m = Some (slot_entry (hash_map_entries m ! p) \<noteq> [], m')"
    and stop: "slot_entry (hash_map_entries m ! p) = [] \<or> slot_holds k (hash_map_entries m ! p)"
    and reached: "reached hash m p k"
    and first: "\<exists>u < hash_map_capacity m. probe m (hash k) u = p \<and> (\<forall>s < u. \<not> slot_holds k (slot_at m (hash k) s))"
    by (rule hash_map_insert_cases [OF wf room, of k v])
  have entries: "hash_map_entries m' = (hash_map_entries m)[p := Occupied k v]" by (simp add: m')
  have cap: "hash_map_capacity m' = hash_map_capacity m" by (simp add: hash_map_capacity_def entries)
  have len: "length (hash_map_iter m') = length (hash_map_iter m) + (if slot_entry (hash_map_entries m ! p) = [] then 1 else 0)"
    using length_iter_update [OF p entries] by (simp add: length_slot_entry split: if_splits)
  have wf': "hash_map_wf hash m'"
    using reached len hash_map_wfD(2) [OF wf] by (intro slot_changed_wf [OF wf p _ entries]) (auto simp: m')
  have others: "hash_map_value hash m' j = hash_map_value hash m j \<and> key_copies j m' = key_copies j m" if "j \<noteq> k" for j
    using stop that by (intro conjI other_key_kept [OF p entries]) (auto simp: slot_holds_def)
  obtain u where u: "u < hash_map_capacity m" "probe m (hash k) u = p" "\<And>s. s < u \<Longrightarrow> \<not> slot_holds k (slot_at m (hash k) s)"
    using first by blast
  have slot: "slot_at m' (hash k) t = (if probe m (hash k) t = p then Occupied k v else slot_at m (hash k) t)" for t
    using p by (simp add: slot_at_def probe_unchanged [OF cap] entries nth_list_update hash_map_capacity_def)
  have "\<not> slot_holds k (slot_at m' (hash k) s)" if "s < u" for s
    using u(3) [OF that] probe_inj [OF n _ u(1), of s "hash k"] that u(1,2) by (auto simp: slot)
  then have "find (\<lambda>t. slot_holds k (slot_at m' (hash k) t)) [0..<hash_map_capacity m'] = Some u"
    unfolding find_Some_iff using u(1,2) by (intro exI [of _ u]) (simp add: cap, simp add: slot)
  then have "hash_map_value hash m' k = Some v" using u(2) by (simp add: hash_map_value_def slot)
  moreover have "set (hash_map_iter m') \<subseteq> insert (k, v) (set (hash_map_iter m))"
    using iter_update_subset [OF p entries] by simp
  moreover have "slot_entry (hash_map_entries m ! p) \<noteq> [] \<Longrightarrow> has_key k (hash_map_iter m)"
    using stop p by (auto simp: has_key_iter)
  ultimately show ?thesis using insert wf' others len cap by auto
qed

lemma remove_value:
  assumes wf: "hash_map_wf hash m"
  shows "\<exists>m'. hash_map_remove hash k m = Some (has_key k (hash_map_iter m), m') \<and> hash_map_wf hash m'
    \<and> (\<forall>j. j \<noteq> k \<longrightarrow> hash_map_value hash m' j = hash_map_value hash m j)
    \<and> (\<forall>j. key_copies j m' = (if j = k then key_copies k m - 1 else key_copies j m))
    \<and> set (hash_map_iter m') \<subseteq> set (hash_map_iter m)
    \<and> length (hash_map_iter m') \<le> length (hash_map_iter m)
    \<and> hash_map_capacity m' = hash_map_capacity m"
proof (cases "hash_map_value hash m k")
  case None
  have absent: "\<not> has_key k (hash_map_iter m)" using None value_None [OF wf] by blast
  then have "k \<notin> set (map fst (hash_map_iter m))" by (auto simp: has_key_def)
  then have "key_copies k m = 0" unfolding key_copies_iter count_list_0_iff .
  moreover have "hash_map_remove hash k m = Some (False, m)"
    using find_index_value [OF wf, of k] None by (simp add: hash_map_remove_def)
  ultimately show ?thesis using wf absent by auto
next
  case (Some v)
  obtain n where n: "hash_map_capacity m = 2 ^ n" using hash_map_wfD(1) [OF wf] by blast
  obtain t where t: "hash_map_find_index hash m k = Some (Some (probe m (hash k) t))"
    "slot_at m (hash k) t = Occupied k v"
    using find_index_value [OF wf, of k] Some by auto
  define p where "p = probe m (hash k) t"
  have p: "p < hash_map_capacity m" unfolding p_def by (rule probe_steps(3) [OF n])
  have old: "hash_map_entries m ! p = Occupied k v" using t(2) by (simp add: slot_at_def p_def)
  define m' where "m' = m\<lparr>hash_map_entries := (hash_map_entries m)[p := Deleted], hash_map_len := hash_map_len m - 1\<rparr>"
  have entries: "hash_map_entries m' = (hash_map_entries m)[p := Deleted]" by (simp add: m'_def)
  have len: "length (hash_map_iter m') = length (hash_map_iter m) - 1" "length (hash_map_iter m) \<noteq> 0"
    using length_iter_update [OF p entries] by (auto simp: old)
  have "hash_map_wf hash m'"
    using len hash_map_wfD(2) [OF wf] by (intro slot_changed_wf [OF wf p _ entries]) (auto simp: m'_def)
  moreover have "hash_map_value hash m' j = hash_map_value hash m j" "key_copies j m' = key_copies j m" if "j \<noteq> k" for j
    using that by (intro other_key_kept [OF p entries]; simp add: old)+
  moreover have "key_copies k m' = key_copies k m - 1"
  proof -
    have split: "hash_map_entries m = take p (hash_map_entries m) @ Occupied k v # drop (Suc p) (hash_map_entries m)"
      using p id_take_nth_drop [of p "hash_map_entries m"] by (simp add: old hash_map_capacity_def)
    have "hash_map_entries m' = take p (hash_map_entries m) @ Deleted # drop (Suc p) (hash_map_entries m)"
      using p upd_conv_take_nth_drop [of p "hash_map_entries m"] by (simp add: entries hash_map_capacity_def)
    then show ?thesis using arg_cong [OF split, of "\<lambda>es. length (filter (slot_holds k) es)"]
      by (simp add: key_copies_def)
  qed
  moreover have "hash_map_remove hash k m = Some (True, m')"
    using t(1) p by (simp add: hash_map_remove_def p_def [symmetric] vec_set_def hash_map_capacity_def m'_def)
  moreover have "has_key k (hash_map_iter m)" using Some value_None [OF wf, of k] by auto
  moreover have "set (hash_map_iter m') \<subseteq> set (hash_map_iter m)" using iter_update_subset [OF p entries] by simp
  moreover have "hash_map_capacity m' = hash_map_capacity m" by (simp add: hash_map_capacity_def entries)
  ultimately show ?thesis using len by auto
qed

section \<open>Growing\<close>

lemma map_of_once:
  assumes "count_list (map fst xs) k \<le> 1"
  shows "map_of (rev xs) k = Some v \<longleftrightarrow> (k, v) \<in> set xs"
proof
  assume kv: "(k, v) \<in> set xs"
  then obtain w where w: "map_of (rev xs) k = Some w"
    by (cases "map_of (rev xs) k") (force simp: map_of_eq_None_iff)+
  then have "(k, w) \<in> set xs" using map_of_SomeD [OF w] by simp
  then show "map_of (rev xs) k = Some v" using stored_once_unique [OF assms kv] w by simp
qed (use map_of_SomeD [of "rev xs" k v] in simp)

text \<open>A table into which entries are copied, the last one for each key.\<close>

lemma copied_table:
  assumes cap: "capacity = 2 ^ n" and enough: "length xs < capacity"
  shows "\<exists>m. insert_all (hash_map_insert_without_growing hash) xs (new_hash_map capacity) = Some m
    \<and> hash_map_ok hash m \<and> hash_map_capacity m = capacity \<and> length (hash_map_iter m) \<le> length xs
    \<and> hash_map_value hash m = map_of (rev xs) \<and> set (hash_map_iter m) \<subseteq> set xs"
proof -
  note new = new_hash_map_ok [OF cap]
  obtain m where m: "insert_all (hash_map_insert_without_growing hash) xs (new_hash_map capacity) = Some m"
    "hash_map_ok hash m" "map_of (hash_map_iter m) = map_of (rev xs)"
    using hash_map.insert_all_ok [OF new(1), of xs] enough unfolding new(2,3) by auto
  have fst: "fst ` set (hash_map_iter m) = fst ` set xs"
    using m(3) by (metis dom_map_of_conv_image_fst set_rev)
  have "length (hash_map_iter m) = card (fst ` set (hash_map_iter m))"
    using hash_map_okD(3) [OF m(2)] by (metis distinct_card length_map list.set_map)
  also have "\<dots> \<le> length xs" unfolding fst using card_image_le [of "set xs" fst] card_length [of xs] by (simp add: le_trans)
  finally have "length (hash_map_iter m) \<le> length xs" .
  moreover have "hash_map_value hash m = map_of (rev xs)"
    using value_distinct [OF m(2)] by (simp add: m(3) [symmetric] fun_eq_iff)
  moreover have "(k, v) \<in> set xs" if "(k, v) \<in> set (hash_map_iter m)" for k v
  proof -
    have "map_of (rev xs) k = Some v" using that hash_map_okD(3) [OF m(2)] by (simp add: m(3) [symmetric])
    then show ?thesis using map_of_SomeD [of "rev xs" k v] by simp
  qed
  ultimately show ?thesis using m(1,2) insert_all_keeps_capacity [OF m(1)] new(4) by auto
qed

lemma maybe_grow_value:
  assumes wf: "hash_map_wf hash m" and half: "half_free m"
  shows "\<exists>m'. hash_map_maybe_grow hash m = Some m' \<and> hash_map_wf hash m'
    \<and> 2 * (length (hash_map_iter m') + 1) \<le> hash_map_capacity m'
    \<and> set (hash_map_iter m') \<subseteq> set (hash_map_iter m)
    \<and> (\<forall>k. has_key k (hash_map_iter m') = has_key k (hash_map_iter m))
    \<and> (\<forall>k. key_copies k m \<le> 1 \<longrightarrow> hash_map_value hash m' k = hash_map_value hash m k)
    \<and> (m' = m \<or> hash_map_ok hash m' \<and> hash_map_capacity m < hash_map_capacity m')"
proof (cases "hash_map_len m + 1 \<le> hash_map_capacity m div 2")
  case True
  then have "2 * (length (hash_map_iter m) + 1) \<le> hash_map_capacity m"
    unfolding hash_map_wfD(2) [OF wf] by presburger
  with True wf show ?thesis by (simp add: hash_map_maybe_grow_def)
next
  case False
  obtain n where n: "hash_map_capacity m = 2 ^ n" using hash_map_wfD(1) [OF wf] by blast
  then have cap: "hash_map_capacity m * 2 = 2 ^ Suc n" "0 < hash_map_capacity m" by simp_all
  have "length (hash_map_iter m) < hash_map_capacity m * 2" using half cap(2) by (simp add: half_free_def)
  from copied_table [OF cap(1) this, of hash]
  obtain m' where m': "insert_all (hash_map_insert_without_growing hash) (hash_map_iter m)
      (new_hash_map (hash_map_capacity m * 2)) = Some m'" "hash_map_ok hash m'"
    "hash_map_capacity m' = hash_map_capacity m * 2" "length (hash_map_iter m') \<le> length (hash_map_iter m)"
    "hash_map_value hash m' = map_of (rev (hash_map_iter m))" "set (hash_map_iter m') \<subseteq> set (hash_map_iter m)"
    by (elim exE conjE)
  have wf': "hash_map_wf hash m'" by (rule hash_map_ok_wf [OF m'(2)])
  have "2 * (length (hash_map_iter m') + 1) \<le> hash_map_capacity m'"
    using half cap(2) m'(3,4) unfolding half_free_def by presburger
  moreover have "has_key k (hash_map_iter m') = has_key k (hash_map_iter m)" for k
    using value_None [OF wf', of k] by (simp add: m'(5) map_of_eq_None_iff has_key_def)
  moreover have "hash_map_value hash m' k = hash_map_value hash m k" if "key_copies k m \<le> 1" for k
    using value_once [OF wf that] map_of_once [OF that [unfolded key_copies_iter]] unfolding m'(5)
    by (metis not_None_eq)
  ultimately show ?thesis using False m'(1-3,6) wf' cap(2) by (auto simp: hash_map_maybe_grow_def Let_def)
qed

lemma copies_ok: "hash_map_ok hash m \<Longrightarrow> key_copies k m \<le> 1"
  using hash_map_okD(3) [of hash m] by (simp add: distinct_copies)

lemma insert_value:
  assumes wf: "hash_map_wf hash m" and half: "half_free m"
  shows "\<exists>present m'. hash_map_insert hash k v m = Some (present, m') \<and> hash_map_wf hash m' \<and> half_free m'
    \<and> hash_map_value hash m' k = Some v \<and> (present \<longrightarrow> has_key k (hash_map_iter m))
    \<and> (\<forall>j. j \<noteq> k \<longrightarrow> key_copies j m \<le> 1 \<longrightarrow>
        hash_map_value hash m' j = hash_map_value hash m j \<and> key_copies j m' \<le> 1)
    \<and> (\<forall>j. j \<noteq> k \<longrightarrow> hash_map_capacity m' = hash_map_capacity m \<longrightarrow>
        hash_map_value hash m' j = hash_map_value hash m j)
    \<and> (\<forall>j. j \<noteq> k \<longrightarrow> has_key j (hash_map_iter m') = has_key j (hash_map_iter m))
    \<and> set (hash_map_iter m') \<subseteq> insert (k, v) (set (hash_map_iter m))"
proof -
  obtain m1 where m1: "hash_map_maybe_grow hash m = Some m1" "hash_map_wf hash m1"
    "2 * (length (hash_map_iter m1) + 1) \<le> hash_map_capacity m1"
    "set (hash_map_iter m1) \<subseteq> set (hash_map_iter m)"
    "\<And>k. has_key k (hash_map_iter m1) = has_key k (hash_map_iter m)"
    "\<And>k. key_copies k m \<le> 1 \<Longrightarrow> hash_map_value hash m1 k = hash_map_value hash m k"
    "m1 = m \<or> hash_map_ok hash m1 \<and> hash_map_capacity m < hash_map_capacity m1"
    using maybe_grow_value [OF wf half] by (elim exE conjE) blast
  have copies: "key_copies j m1 \<le> 1" if "key_copies j m \<le> 1" for j
    using m1(7) that copies_ok [of hash m1 j] by blast
  have "has_room m1" using m1(3) by (simp add: has_room_iff)
  from insert_without_growing_value [OF m1(2) this, of k v]
  obtain present m' where m': "hash_map_insert_without_growing hash k v m1 = Some (present, m')" "hash_map_wf hash m'"
    "hash_map_value hash m' k = Some v" "present \<Longrightarrow> has_key k (hash_map_iter m1)"
    "\<And>j. j \<noteq> k \<Longrightarrow> hash_map_value hash m' j = hash_map_value hash m1 j \<and> key_copies j m' = key_copies j m1"
    "set (hash_map_iter m') \<subseteq> insert (k, v) (set (hash_map_iter m1))"
    "length (hash_map_iter m') \<le> Suc (length (hash_map_iter m1))" "hash_map_capacity m' = hash_map_capacity m1"
    by (elim exE conjE) blast
  have insert: "hash_map_insert hash k v m = Some (present, m')" using m1(1) m'(1) by (simp add: hash_map_insert_def)
  have "half_free m'" using m1(3) m'(7,8) by (simp add: half_free_def)
  moreover have "has_key j (hash_map_iter m') = has_key j (hash_map_iter m)" if "j \<noteq> k" for j
    using m'(5) [OF that] value_None [OF m'(2), of j] value_None [OF m1(2), of j] m1(5) by simp
  moreover have "hash_map_value hash m' j = hash_map_value hash m j"
    if "j \<noteq> k" "hash_map_capacity m' = hash_map_capacity m" for j
    using m'(5) [OF that(1)] m1(7) that(2) m'(8) by auto
  moreover have "set (hash_map_iter m') \<subseteq> insert (k, v) (set (hash_map_iter m))" using m1(4) m'(6) by blast
  ultimately show ?thesis using insert m'(2,3,4,5) m1(5,6) copies by auto
qed

section \<open>Reachable tables\<close>

inductive hash_map_reachable :: "('k \<Rightarrow> nat) \<Rightarrow> ('k, 'v) hash_map \<Rightarrow> bool" for hash where
  reachable_new: "hash_map_reachable hash (new_hash_map (2 ^ n))"
| reachable_insert: "hash_map_reachable hash m \<Longrightarrow> hash_map_insert hash k v m = Some (present, m') \<Longrightarrow>
    hash_map_reachable hash m'"
| reachable_remove: "hash_map_reachable hash m \<Longrightarrow> hash_map_remove hash k m = Some (present, m') \<Longrightarrow>
    hash_map_reachable hash m'"

lemma reachable_wf: "hash_map_reachable hash m \<Longrightarrow> hash_map_wf hash m \<and> half_free m"
proof (induction rule: hash_map_reachable.induct)
  case (reachable_new n)
  note new = new_hash_map_ok [OF refl]
  show ?case by (simp add: hash_map_ok_wf [OF new(1)] half_free_def new(2))
next
  case (reachable_insert m k v present m')
  then show ?case using insert_value [of hash m k v] by auto
next
  case (reachable_remove m k present m')
  then show ?case
    using remove_value [of hash m k] by (auto simp: half_free_def intro: order_trans [OF mult_le_mono2])
qed

end
