(* ===== verification/Map_Properties.thy ===== *)
theory Map_Properties
  imports Map_Objects Hash_Map_Reachable
begin

text \<open>The properties of the engine's hash tables.\<close>

section \<open>Maps of scripts\<close>

text \<open>C24: A Map behaves as ECMAScript says, whatever its hash function does: any sequence of set,
  delete, get, has, size, entries, keys and values, interleaved with steps of an iterator, gives the
  results of a list of entries in insertion order, from a new map on.  The iterator visits every entry
  once, skips the deleted ones and visits the ones added behind it, also when the table has moved, once
  or several times, since its last step.  No operation reads outside of the table or loops.  The two
  other methods, clear and forEach, are not among the operations: they do not behave so, as the
  two lemmas that follow show.\<close>

theorem map_calls_refine:
  "map_calls hash calls new_map_world = Some (abstract_calls calls \<lparr>contents = [], pending = Some [], kind = KeyAndValueKind\<rparr>)"
  by (rule map_calls_represented [OF new_map_represents])

text \<open>After clear an iterator that has visited an entry does not see the next entry that is
  inserted: its index counts entries of the table before it was cleared.  The entry is in the map,
  and ECMAScript visits it.\<close>

theorem clear_strands_iterators:
  assumes "index_map_ok hash m" and "index_map_capacity m \<noteq> 0" and "0 < i"
  shows "\<exists>m'. index_map_insert_without_growing hash k v (index_map_clear m) = Some (False, m')
    \<and> index_map_get hash m' k = Some (Some v) \<and> gc_safe_next m' i = Some (None, i)"
proof -
  let ?c = "index_map_clear m"
  note cleared = index_map_clear_ok [OF assms(1)]
  have none: "num_entries_used ?c = 0" by (simp add: index_map_clear_def num_entries_used_def)
  moreover have "index_map_capacity ?c = index_map_capacity m"
    by (simp add: index_map_clear_def index_map_capacity_def)
  ultimately have "0 < index_map_space ?c" using assms(2) by (simp add: index_map_space_def)
  from index_map_insert_ok [OF cleared(1) this, of k v] obtain m'
    where m': "index_map_insert_without_growing hash k v ?c = Some (False, m')" "index_map_ok hash m'"
      "index_map_al m' = [(k, v)]" "index_map_shape m' = index_map_shape ?c @ [[(k, v)]]"
    by (auto simp: cleared(2) has_key_def)
  have "index_map_shape ?c = []" using length_shape [OF cleared(1)] none by simp
  then have "num_entries_used m' = 1" using length_shape [OF m'(2)] m'(4) by simp
  then have "gc_safe_next m' i = Some (None, i)"
    using assms(3) by (subst gc_safe_next_def, subst next_occupied.simps) simp
  then show ?thesis using m'(1,3) index_map_get_ok [OF m'(2), of k] by simp
qed

lemma clear_strands_iterators_witness:
  "\<exists>m'. index_map_insert_without_growing id (7 :: nat) True (index_map_clear (new_index_map 4)) = Some (False, m')
    \<and> index_map_get id m' 7 = Some (Some True) \<and> gc_safe_next m' 1 = Some (None, 1)"
proof (rule clear_strands_iterators)
  show "index_map_ok id (new_index_map 4)" by (intro new_index_map_ok disjI2 exI [of _ 2]) simp
  show "index_map_capacity (new_index_map 4) \<noteq> 0" by (simp add: index_map_capacity_def new_index_map_def)
qed simp

text \<open>
  \<open>forEach\<close> does not follow tombstones: when its callback makes a full map grow, it ends without
  visiting the new entry, which an iterator object visits.
\<close>

lemma for_each_misses_growth:
  assumes live: "live_map hash heap f" and full: "num_entries_used (heap ! f) = index_map_capacity (heap ! f)"
    and cap: "index_map_capacity (heap ! f) \<noteq> 0" and new: "\<not> has_key k (index_map_al (heap ! f))"
    and insert: "map_object_insert hash k v f heap = Some (p, f', heap')"
  defines "i \<equiv> num_entries_used (heap ! f)"
  shows "for_each_next heap' f i = Some (None, i)"
    and "\<exists>it. map_iterator_next heap' \<lparr>iterator_map = f, next_entry_index = i, iterator_kind = kd, is_done = False\<rparr> = Some (Some (k, v), it)"
proof -
  let ?it = "\<lparr>iterator_map = f, next_entry_index = i, iterator_kind = kd, is_done = False\<rparr>"
  have ok: "f < length heap" "index_map_ok hash (heap ! f)" using live by (simp_all add: live_map_def)
  have visits: "visits heap f ?it []"
    using follow_live [OF ok(1)] index_map_okD(1) [OF ok(2)] length_shape [OF ok(2)]
    by (simp add: visits_def i_def entries_from_def)
  have live': "live_map hash heap' f'" and used: "num_entries_used (heap' ! f) = i" "f < length heap'"
    using map_object_insert_ok [OF live, of k v] insert cap ok(1) full map_object_insert_grows [OF live full insert]
    by (auto simp: i_def)
  show "for_each_next heap' f i = Some (None, i)"
    using used by (simp add: for_each_next_def vec_get_def gc_safe_next_def) (subst next_occupied.simps, simp)
  have "visits heap' f' ?it [(k, v)]"
    using visits_insert [OF live cap insert visits] new by simp
  from visits_next [OF live' this] show "\<exists>it. map_iterator_next heap' ?it = Some (Some (k, v), it)"
    by auto
qed

section \<open>Hash maps\<close>

text \<open>The steps of the loops, one per kind of slot.\<close>

lemma insert_steps:
  assumes "s \<le> hash_map_capacity m" and "i < hash_map_capacity m"
  shows "slot_entry (hash_map_entries m ! i) = [] \<Longrightarrow> probe_for_insert m key v i s
      = Some (False, m\<lparr>hash_map_entries := (hash_map_entries m)[i := Occupied key v],
                        hash_map_len := hash_map_len m + 1\<rparr>)"
    and "hash_map_entries m ! i = Occupied k w \<Longrightarrow> k \<noteq> key \<Longrightarrow> probe_for_insert m key v i s
      = probe_for_insert m key v (next_probe_index m i s) (s + 1)"
  using assms unfolding hash_map_capacity_def
  by (subst probe_for_insert.simps; cases "hash_map_entries m ! i";
      simp add: vec_get_def hash_map_capacity_def)+

lemma find_steps:
  assumes "s \<le> hash_map_capacity m" and "i < hash_map_capacity m"
  shows "hash_map_entries m ! i = Occupied key w \<Longrightarrow> probe_for_key m key i s = Some (Some i)"
    and "hash_map_entries m ! i = Deleted \<Longrightarrow> probe_for_key m key i s
      = probe_for_key m key (next_probe_index m i s) (s + 1)"
  using assms unfolding hash_map_capacity_def
  by (subst probe_for_key.simps; simp add: vec_get_def hash_map_capacity_def)+

text \<open>A table in which the keys 0 and 4 share their first slot, and 0 was removed.\<close>

definition removed_map :: "(nat, bool) hash_map" where
  "removed_map = \<lparr>hash_map_len = Suc 0, hash_map_entries = [Deleted, Occupied 4 True, Empty, Empty]\<rparr>"

lemma mask_four: "n AND 3 = n mod 4" "n AND Suc (Suc (Suc 0)) = n mod 4" for n :: nat
proof -
  show "n AND 3 = n mod 4"
    using take_bit_eq_mask [of 2 n] by (simp add: take_bit_eq_mod mask_eq_exp_minus_1)
  then show "n AND Suc (Suc (Suc 0)) = n mod 4" by (simp only: numeral_3_eq_3)
qed

lemmas small_table_simps = hash_map_insert_without_growing_def hash_map_remove_def hash_map_find_index_def
  hash_map_get_def initial_probe_index_def next_probe_index_def hash_map_mask_def mask_four
  hash_map_capacity_def vec_get_def vec_set_def hash_map_insert_def hash_map_maybe_grow_def

lemma removed_map_reachable: "hash_map_reachable id removed_map"
proof -
  note steps = small_table_simps insert_steps(1) insert_steps(2) [where k = 0 and w = False]
    find_steps(1) [where w = False]
  define m0 m1 m2 :: "(nat, bool) hash_map" where
    "m0 = new_hash_map (2 ^ 2)"
    and "m1 = \<lparr>hash_map_len = Suc 0, hash_map_entries = [Occupied 0 False, Empty, Empty, Empty]\<rparr>"
    and "m2 = \<lparr>hash_map_len = Suc (Suc 0), hash_map_entries = [Occupied 0 False, Occupied 4 True, Empty, Empty]\<rparr>"
  have "hash_map_reachable id m0" unfolding m0_def by (rule reachable_new)
  moreover have "m0 = \<lparr>hash_map_len = 0, hash_map_entries = [Empty, Empty, Empty, Empty]\<rparr>"
    by (simp add: m0_def new_hash_map_def numeral_eq_Suc)
  then have "hash_map_insert id 0 False m0 = Some (False, m1)" by (simp add: m1_def steps)
  ultimately have "hash_map_reachable id m1" by (rule reachable_insert)
  moreover have "hash_map_insert id 4 True m1 = Some (False, m2)" by (simp add: m1_def m2_def steps)
  ultimately have "hash_map_reachable id m2" by (rule reachable_insert)
  moreover have "hash_map_remove id 0 m2 = Some (True, removed_map)" by (simp add: m2_def removed_map_def steps)
  ultimately show ?thesis by (rule reachable_remove)
qed

text \<open>C25: Inserting a key into a hash map that is reached from an empty one by insertions and
  removals, in any order, always succeeds and keeps half of the table free; a lookup then returns the
  value for the key, no key gets lost or appears, and every other key keeps its value, whatever was
  removed before, as long as it is stored in one slot only or the table does not grow.  (A key that was
  set again after a removal can be stored in two slots; growth may bring back its old value.)\<close>

theorem hash_map_insert_keeps_entries:
  assumes "hash_map_reachable hash m"
  shows "\<exists>present m'. hash_map_insert hash k v m = Some (present, m') \<and> hash_map_reachable hash m'
    \<and> 2 * hash_map_len m' \<le> hash_map_capacity m' \<and> (present \<longrightarrow> hash_map_get hash m k \<noteq> Some None)
    \<and> hash_map_get hash m' k = Some (Some v)
    \<and> (\<forall>j. hash_map_get hash m' j = Some None \<longleftrightarrow> j \<noteq> k \<and> hash_map_get hash m j = Some None)
    \<and> (\<forall>j. j \<noteq> k \<longrightarrow> key_copies j m \<le> 1 \<or> hash_map_capacity m' = hash_map_capacity m \<longrightarrow>
        hash_map_get hash m' j = hash_map_get hash m j)"
proof -
  have wf: "hash_map_wf hash m" "half_free m" using reachable_wf [OF assms] by simp_all
  obtain present m' where m': "hash_map_insert hash k v m = Some (present, m')" "hash_map_wf hash m'" "half_free m'"
    "hash_map_value hash m' k = Some v" "present \<Longrightarrow> has_key k (hash_map_iter m)"
    "\<And>j. j \<noteq> k \<Longrightarrow> key_copies j m \<le> 1 \<or> hash_map_capacity m' = hash_map_capacity m \<Longrightarrow>
       hash_map_value hash m' j = hash_map_value hash m j"
    "\<And>j. j \<noteq> k \<Longrightarrow> has_key j (hash_map_iter m') = has_key j (hash_map_iter m)"
    using insert_value [OF wf, of k v] by (elim exE conjE) blast
  have "hash_map_reachable hash m'" by (rule reachable_insert [OF assms m'(1)])
  moreover have "hash_map_get hash m' j = Some None \<longleftrightarrow> j \<noteq> k \<and> hash_map_get hash m j = Some None" for j
    using m'(4,7) by (cases "j = k") (simp_all add: hash_map_get_value m'(2) wf(1) value_None)
  ultimately show ?thesis
    using m'(1,3-6) value_None [OF wf(1), of k] hash_map_wfD(2) [OF m'(2)]
    by (simp add: hash_map_get_value m'(2) wf(1) half_free_def)
qed

lemma hash_map_insert_keeps_entries_witness:
  "\<exists>present m'. hash_map_insert id 5 False removed_map = Some (present, m') \<and> hash_map_get id m' 5 = Some (Some False)
    \<and> hash_map_get id m' 4 = Some (Some True)"
proof -
  have "key_copies 4 removed_map \<le> 1" by (simp add: key_copies_def removed_map_def)
  moreover have "hash_map_get id removed_map 4 = Some (Some True)"
    by (simp add: removed_map_def small_table_simps find_steps(1) [where w = True] find_steps(2))
  ultimately show ?thesis
    using hash_map_insert_keeps_entries [OF removed_map_reachable, of 5 False] by auto
qed

text \<open>A key that is set again after the removal of another one can be there twice: insertion takes
  the first slot that is free, deleted ones included, without looking for the key behind it.  When two
  keys start at the same slot, setting both, deleting the first, setting the second again and deleting
  it leaves the second key in the map, with its old value.\<close>

theorem hash_map_key_survives_removal:
  fixes hash :: "'k \<Rightarrow> nat" and x y z :: 'v
  assumes "a \<noteq> b" and "hash a mod 4 = hash b mod 4"
  shows "do {
    (_, m) \<leftarrow> hash_map_insert hash a x (new_hash_map HASH_MAP_MIN_CAPACITY);
    (_, m) \<leftarrow> hash_map_insert hash b y m;
    (_, m) \<leftarrow> hash_map_remove hash a m;
    (_, m) \<leftarrow> hash_map_insert hash b z m;
    (_, m) \<leftarrow> hash_map_remove hash b m;
    hash_map_get hash m b
  } = Some (Some y)"
proof -
  define h j where "h = hash a mod 4" and "j = Suc h mod 4"
  have h: "hash a mod 4 = h" "hash b mod 4 = h" "Suc h mod 4 = j" "h < 4" "j < 4" "j \<noteq> h" "h \<noteq> j"
  proof -
    have "Suc n mod 4 \<noteq> n" if "n < 4" for n :: nat
      using that by (simp add: mod_Suc)
    from this [of h] show "j \<noteq> h" "h \<noteq> j" by (simp_all add: h_def j_def)
  qed (simp_all add: h_def j_def assms(2))
  note probes = small_table_simps h insert_steps find_steps
  define es where "es = replicate 4 (Empty :: ('k, 'v) hash_entry)"
  have es: "length es = 4" "es ! h = Empty" "es ! j = Empty" by (simp_all add: es_def h)
  let ?m1 = "\<lparr>hash_map_len = 1, hash_map_entries = es[h := Occupied a x]\<rparr>"
    and ?m2 = "\<lparr>hash_map_len = 2, hash_map_entries = es[h := Occupied a x, j := Occupied b y]\<rparr>"
    and ?m3 = "\<lparr>hash_map_len = 1, hash_map_entries = es[h := Occupied a x, j := Occupied b y, h := Deleted]\<rparr>"
    and ?m4 = "\<lparr>hash_map_len = 2, hash_map_entries = es[h := Occupied a x, j := Occupied b y, h := Occupied b z]\<rparr>"
    and ?m5 = "\<lparr>hash_map_len = 1, hash_map_entries = es[h := Occupied a x, j := Occupied b y, h := Deleted]\<rparr>"
  have "hash_map_insert hash a x (new_hash_map HASH_MAP_MIN_CAPACITY) = Some (False, ?m1)"
    using es by (simp add: new_hash_map_def HASH_MAP_MIN_CAPACITY_def es_def [symmetric] probes)
  moreover have "hash_map_insert hash b y ?m1 = Some (False, ?m2)"
    using es assms(1) by (simp add: probes)
  moreover have "hash_map_remove hash a ?m2 = Some (True, ?m3)"
    using es by (simp add: probes)
  moreover have "hash_map_insert hash b z ?m3 = Some (False, ?m4)"
    using es by (simp add: probes)
  moreover have "hash_map_remove hash b ?m4 = Some (True, ?m5)"
    using es by (simp add: probes)
  moreover have "hash_map_get hash ?m5 b = Some (Some y)"
    using es by (simp add: probes)
  ultimately show ?thesis by simp
qed

lemma hash_map_key_survives_removal_witness:
  "(1 :: nat) \<noteq> 5 \<and> do {
    (_, m) \<leftarrow> hash_map_insert id 1 False (new_hash_map HASH_MAP_MIN_CAPACITY);
    (_, m) \<leftarrow> hash_map_insert id 5 True m;
    (_, m) \<leftarrow> hash_map_remove id 1 m;
    (_, m) \<leftarrow> hash_map_insert id 5 False m;
    (_, m) \<leftarrow> hash_map_remove id 5 m;
    hash_map_get id m (5 :: nat)
  } = Some (Some True)"
  using hash_map_key_survives_removal [of "1 :: nat" 5 id False True False] by simp

text \<open>Growth copies both of them, the newer one first: it brings back the old value.\<close>

lemma growth_restores_old_value:
  "do {
    (_, m) \<leftarrow> hash_map_insert id (0 :: nat) (10 :: nat) (new_hash_map HASH_MAP_MIN_CAPACITY);
    (_, m) \<leftarrow> hash_map_insert id 4 20 m;
    (_, m) \<leftarrow> hash_map_remove id 0 m;
    (_, m) \<leftarrow> hash_map_insert id 4 30 m;
    before \<leftarrow> hash_map_get id m 4;
    (_, m) \<leftarrow> hash_map_insert id 1 40 m;
    afterwards \<leftarrow> hash_map_get id m 4;
    Some (before, afterwards)
  } = Some (Some 30, Some 20)"
  by code_simp

end
