(* ===== verification/Array_Properties.thy ===== *)
theory Array_Properties
  imports Hash_Map
begin

text \<open>
  \<open>runtime/property.rs\<close> and \<open>runtime/array_properties.rs\<close>: properties with their attributes, and the
  properties of an object that are keyed by array indices, kept in a dense array or, once there are
  large gaps or unusual attributes, in a hash map.

  Values are a parameter; \<open>Value::empty()\<close>, the hole of a dense array, is not one of them.  A cell of a
  dense array that was never written is uninitialised memory.  \<open>None\<close> is a panic or undefined
  behaviour: an overflow of \<open>u32\<close>, or a cell that is out of range or not initialised.  The hash
  function of an index is a parameter.
\<close>

section \<open>Properties\<close>

type_synonym property_flags = u8

definition IS_WRITABLE :: property_flags where "IS_WRITABLE = 1"
definition IS_ENUMERABLE :: property_flags where "IS_ENUMERABLE = 2"
definition IS_CONFIGURABLE :: property_flags where "IS_CONFIGURABLE = 4"
definition IS_PRIVATE_FIELD :: property_flags where "IS_PRIVATE_FIELD = 8"
definition IS_PRIVATE_METHOD :: property_flags where "IS_PRIVATE_METHOD = 16"
definition IS_PRIVATE_ACCESSOR :: property_flags where "IS_PRIVATE_ACCESSOR = 32"

definition DENSE_ARRAY_PROPERTY_FLAGS :: property_flags where
  "DENSE_ARRAY_PROPERTY_FLAGS = IS_WRITABLE OR IS_ENUMERABLE OR IS_CONFIGURABLE"

text \<open>\<open>contains\<close>, \<open>intersects\<close>, \<open>insert\<close> and \<open>remove\<close> of the flag type.\<close>

definition flags_contain :: "property_flags \<Rightarrow> property_flags \<Rightarrow> bool" where
  "flags_contain flags other \<longleftrightarrow> flags AND other = other"

definition set_flag :: "property_flags \<Rightarrow> bool \<Rightarrow> property_flags \<Rightarrow> property_flags" where
  "set_flag flag b flags = (if b then flags OR flag else flags AND NOT flag)"

record 'v property =
  property_value :: 'v
  property_flags :: property_flags

definition data_property :: "'v \<Rightarrow> bool \<Rightarrow> bool \<Rightarrow> bool \<Rightarrow> 'v property" where
  "data_property v writable enumerable configurable =
     \<lparr>property_value = v,
      property_flags = (if writable then IS_WRITABLE else 0) OR (if enumerable then IS_ENUMERABLE else 0)
        OR (if configurable then IS_CONFIGURABLE else 0)\<rparr>"

definition accessor_property :: "'v \<Rightarrow> bool \<Rightarrow> bool \<Rightarrow> 'v property" where
  "accessor_property accessor_value enumerable configurable =
     \<lparr>property_value = accessor_value,
      property_flags = (if enumerable then IS_ENUMERABLE else 0)
        OR (if configurable then IS_CONFIGURABLE else 0)\<rparr>"

definition private_field :: "'v \<Rightarrow> 'v property" where
  "private_field v = \<lparr>property_value = v, property_flags = IS_PRIVATE_FIELD\<rparr>"

definition private_method :: "'v \<Rightarrow> 'v property" where
  "private_method v = \<lparr>property_value = v, property_flags = IS_PRIVATE_METHOD\<rparr>"

definition private_accessor :: "'v \<Rightarrow> 'v property" where
  "private_accessor v = \<lparr>property_value = v, property_flags = IS_PRIVATE_ACCESSOR\<rparr>"

definition is_enumerable :: "'v property \<Rightarrow> bool" where
  "is_enumerable p = flags_contain (property_flags p) IS_ENUMERABLE"

definition is_configurable :: "'v property \<Rightarrow> bool" where
  "is_configurable p = flags_contain (property_flags p) IS_CONFIGURABLE"

definition is_writable :: "'v property \<Rightarrow> bool" where
  "is_writable p = flags_contain (property_flags p) IS_WRITABLE"

definition is_allowed_as_dense_array_property :: "'v property \<Rightarrow> bool" where
  "is_allowed_as_dense_array_property p = flags_contain (property_flags p) DENSE_ARRAY_PROPERTY_FLAGS"

definition set_is_enumerable :: "bool \<Rightarrow> 'v property \<Rightarrow> 'v property" where
  "set_is_enumerable b p = p\<lparr>property_flags := set_flag IS_ENUMERABLE b (property_flags p)\<rparr>"

definition set_is_configurable :: "bool \<Rightarrow> 'v property \<Rightarrow> 'v property" where
  "set_is_configurable b p = p\<lparr>property_flags := set_flag IS_CONFIGURABLE b (property_flags p)\<rparr>"

definition set_is_writable :: "bool \<Rightarrow> 'v property \<Rightarrow> 'v property" where
  "set_is_writable b p = p\<lparr>property_flags := set_flag IS_WRITABLE b (property_flags p)\<rparr>"

definition is_private :: "'v property \<Rightarrow> bool" where
  "is_private p \<longleftrightarrow>
     property_flags p AND (IS_PRIVATE_FIELD OR IS_PRIVATE_METHOD OR IS_PRIVATE_ACCESSOR) \<noteq> 0"

section \<open>Dense and sparse arrays\<close>

datatype 'v cell = Uninit | Hole | Cell 'v

datatype 'v array_properties =
    DenseArray (dense_len: nat) (dense_cells: "'v cell list")
  | SparseArray (sparse_length: nat) (sparse_map: "(nat, 'v property) hash_map")

definition SPARSE_ARRAY_THRESHOLD :: nat where
  "SPARSE_ARRAY_THRESHOLD = 100"

definition MAX_U32 :: nat where
  "MAX_U32 = 2 ^ 32 - 1"

definition add_u32 :: "nat \<Rightarrow> nat \<Rightarrow> nat option" where
  "add_u32 a b = (if a + b \<le> MAX_U32 then Some (a + b) else None)"

definition saturating_mul_u32 :: "nat \<Rightarrow> nat \<Rightarrow> nat" where
  "saturating_mul_u32 a b = min (a * b) MAX_U32"

definition new_dense_array :: "nat \<Rightarrow> 'v cell list" where
  "new_dense_array capacity = replicate capacity Uninit"

definition array_length :: "'v array_properties \<Rightarrow> nat" where
  "array_length a = (case a of DenseArray len _ \<Rightarrow> len | SparseArray len _ \<Rightarrow> len)"

definition get_property ::
  "(nat \<Rightarrow> nat) \<Rightarrow> 'v array_properties \<Rightarrow> nat \<Rightarrow> 'v property option option" where
  "get_property hash a array_index =
     (case a of
        DenseArray len cells \<Rightarrow>
          if array_index \<ge> len then Some None
          else
            (case vec_get cells array_index of
               Some (Cell v) \<Rightarrow> Some (Some (data_property v True True True))
             | Some Hole \<Rightarrow> Some None
             | _ \<Rightarrow> None)
      | SparseArray len m \<Rightarrow> hash_map_get hash m array_index)"

definition remove_property ::
  "(nat \<Rightarrow> nat) \<Rightarrow> nat \<Rightarrow> 'v array_properties \<Rightarrow> 'v array_properties option" where
  "remove_property hash array_index a =
     (case a of
        DenseArray len cells \<Rightarrow> map_option (DenseArray len) (vec_set cells array_index Hole)
      | SparseArray len m \<Rightarrow> map_option (\<lambda>(_, m). SparseArray len m) (hash_map_remove hash array_index m))"

text \<open>\<open>set_empty_range\<close> writes without a bounds check.\<close>

definition set_empty_range :: "nat \<Rightarrow> nat \<Rightarrow> 'v cell list \<Rightarrow> 'v cell list option" where
  "set_empty_range start_index end_index cells =
     (if start_index \<le> end_index \<and> end_index \<le> length cells then
        Some (take start_index cells @ replicate (end_index - start_index) Hole @ drop end_index cells)
      else None)"

text \<open>\<open>copy_nonoverlapping\<close> of the first cells of one array to another one.\<close>

definition copy_cells :: "'v cell list \<Rightarrow> nat \<Rightarrow> 'v cell list \<Rightarrow> 'v cell list option" where
  "copy_cells old count new =
     (if count \<le> length old \<and> count \<le> length new then Some (take count old @ drop count new) else None)"

definition grow_dense_properties :: "nat \<Rightarrow> nat \<Rightarrow> 'v cell list \<Rightarrow> 'v array_properties option" where
  "grow_dense_properties new_length old_length cells =
     (let old_capacity = length cells in
      if new_length \<le> old_capacity then do {
        cells \<leftarrow> set_empty_range old_length new_length cells;
        Some (DenseArray new_length cells)
      }
      else do {
        let new_capacity = max (saturating_mul_u32 old_capacity 2) new_length;
        new_cells \<leftarrow> copy_cells cells old_length (new_dense_array new_capacity);
        new_cells \<leftarrow> set_empty_range old_length new_capacity new_cells;
        Some (DenseArray new_length new_cells)
      })"

definition shrink_dense_properties :: "nat \<Rightarrow> 'v cell list \<Rightarrow> 'v array_properties option" where
  "shrink_dense_properties new_length cells =
     (if new_length \<ge> length cells div 2 then Some (DenseArray new_length cells)
      else do {
        new_cells \<leftarrow> copy_cells cells new_length (new_dense_array new_length);
        Some (DenseArray new_length new_cells)
      })"

text \<open>The values of the holes and of the others, each with its index; no cell may be uninitialised.\<close>

definition filled_cells :: "'v cell list \<Rightarrow> (nat \<times> 'v property) list" where
  "filled_cells cells = concat (map (\<lambda>(i, c). case c of
     Cell v \<Rightarrow> [(i, data_property v True True True)] | _ \<Rightarrow> []) (enumerate 0 cells))"

definition transition_to_sparse_properties ::
  "(nat \<Rightarrow> nat) \<Rightarrow> nat \<Rightarrow> 'v cell list \<Rightarrow> 'v array_properties option" where
  "transition_to_sparse_properties hash len cells = do {
     cells \<leftarrow> vec_slice cells 0 len;
     if Uninit \<in> set cells then None
     else do {
       let num_non_empty_properties = length (filled_cells cells);
       let new_capacity = min_capacity_needed num_non_empty_properties;
       m \<leftarrow> insert_all (hash_map_insert_without_growing hash) (filled_cells cells)
         (new_hash_map new_capacity);
       Some (SparseArray len m)
     }
   }"

text \<open>The loop of \<open>set_len\<close> over the entries of the sparse map.\<close>

fun last_non_configurable_index ::
  "nat \<Rightarrow> (nat \<times> 'v property) list \<Rightarrow> nat option \<Rightarrow> nat option" where
  "last_non_configurable_index new_length [] found = found"
| "last_non_configurable_index new_length ((index, stored_property) # entries) found =
     last_non_configurable_index new_length entries
       (if index < new_length then found
        else if \<not> is_configurable stored_property then
          (if index \<le> (case found of None \<Rightarrow> index | Some i \<Rightarrow> i) then Some index else found)
        else found)"

definition set_len_sparse ::
  "(nat \<Rightarrow> nat) \<Rightarrow> nat \<Rightarrow> nat \<Rightarrow> (nat, 'v property) hash_map
     \<Rightarrow> (bool \<times> 'v array_properties) option" where
  "set_len_sparse hash new_length len m =
     (if new_length \<ge> len then Some (True, SparseArray new_length m)
      else do {
        let last = last_non_configurable_index new_length (hash_map_iter m) None;
        new_length \<leftarrow> (case last of Some last_index \<Rightarrow> add_u32 last_index 1 | None \<Rightarrow> Some new_length);
        let kept = filter (\<lambda>(index, _). index < new_length) (hash_map_iter m);
        let new_capacity = min_capacity_needed (length kept);
        new_map \<leftarrow> insert_all (hash_map_insert_without_growing hash) kept (new_hash_map new_capacity);
        Some (last = None, SparseArray new_length new_map)
      })"

definition set_len ::
  "(nat \<Rightarrow> nat) \<Rightarrow> nat \<Rightarrow> 'v array_properties \<Rightarrow> (bool \<times> 'v array_properties) option" where
  "set_len hash new_length a =
     (case a of
        DenseArray len cells \<Rightarrow>
          if new_length > len then do {
            limit \<leftarrow> add_u32 len SPARSE_ARRAY_THRESHOLD;
            if new_length \<ge> limit then do {
              sparse \<leftarrow> transition_to_sparse_properties hash len cells;
              (case sparse of
                 SparseArray len m \<Rightarrow> set_len_sparse hash new_length len m
               | DenseArray _ _ \<Rightarrow> None)
            }
            else map_option (Pair True) (grow_dense_properties new_length len cells)
          }
          else if new_length < len then map_option (Pair True) (shrink_dense_properties new_length cells)
          else Some (True, a)
      | SparseArray len m \<Rightarrow> set_len_sparse hash new_length len m)"

partial_function (option) set_property ::
  "(nat \<Rightarrow> nat) \<Rightarrow> nat \<Rightarrow> 'v property \<Rightarrow> 'v array_properties \<Rightarrow> 'v array_properties option" where
  "set_property hash array_index property a =
     (case a of
        DenseArray len cells \<Rightarrow>
          if \<not> is_allowed_as_dense_array_property property then do {
            a \<leftarrow> transition_to_sparse_properties hash len cells;
            set_property hash array_index property a
          }
          else if array_index \<ge> len then do {
            limit \<leftarrow> add_u32 len SPARSE_ARRAY_THRESHOLD;
            a \<leftarrow> (if array_index \<ge> limit then transition_to_sparse_properties hash len cells
                  else do {
                    new_length \<leftarrow> add_u32 array_index 1;
                    grow_dense_properties new_length len cells
                  });
            set_property hash array_index property a
          }
          else map_option (DenseArray len) (vec_set cells array_index (Cell (property_value property)))
      | SparseArray len m \<Rightarrow> do {
          len \<leftarrow> (if array_index \<ge> len then add_u32 array_index 1 else Some len);
          (_, m) \<leftarrow> hash_map_insert hash array_index property m;
          Some (SparseArray len m)
        })"

definition ordered_keys :: "(nat, 'v property) hash_map \<Rightarrow> nat list" where
  "ordered_keys m = sort (hash_map_keys m)"

end
