(* ===== verification/Array_Correct.thy ===== *)
theory Array_Correct
  imports Array_Properties Hash_Map_Reachable
begin

text \<open>
  Arrays refine a length and a finite map from indices to properties, whether they are dense or sparse.
\<close>

section \<open>The abstract array\<close>

definition cell_property :: "'v cell \<Rightarrow> 'v property option" where
  "cell_property c = (case c of Cell v \<Rightarrow> Some (data_property v True True True) | _ \<Rightarrow> None)"

definition array_map :: "(nat \<Rightarrow> nat) \<Rightarrow> 'v array_properties \<Rightarrow> nat \<Rightarrow> 'v property option" where
  "array_map hash a i =
     (case a of
        DenseArray len cells \<Rightarrow> if i < len then cell_property (cells ! i) else None
      | SparseArray len m \<Rightarrow> hash_map_value hash m i)"

text \<open>
  The hash map of a sparse array from which a property was removed may hold an index twice.  A lookup
  returns one of the properties that are stored for an index; an index is stable if there is only one.
\<close>

definition array_stores :: "'v array_properties \<Rightarrow> nat \<Rightarrow> 'v property \<Rightarrow> bool" where
  "array_stores a i p \<longleftrightarrow>
     (case a of
        DenseArray len cells \<Rightarrow> i < len \<and> cell_property (cells ! i) = Some p
      | SparseArray len m \<Rightarrow> (i, p) \<in> set (hash_map_iter m))"

definition index_stable :: "'v array_properties \<Rightarrow> nat \<Rightarrow> bool" where
  "index_stable a i \<longleftrightarrow> (case a of DenseArray len cells \<Rightarrow> True | SparseArray len m \<Rightarrow> key_copies i m \<le> 1)"

lemma index_stable_simps [simp]:
  "index_stable (DenseArray len cells) i" "index_stable (SparseArray len m) i \<longleftrightarrow> key_copies i m \<le> 1"
  by (simp_all add: index_stable_def)

lemma array_stores_simps:
  "array_stores (DenseArray len cells) i p \<longleftrightarrow> array_map hash (DenseArray len cells) i = Some p"
  "array_stores (SparseArray len m) i p \<longleftrightarrow> (i, p) \<in> set (hash_map_iter m)"
  by (auto simp: array_stores_def array_map_def)

text \<open>The invariant, which every operation keeps, removal included.\<close>

definition array_ok :: "(nat \<Rightarrow> nat) \<Rightarrow> 'v array_properties \<Rightarrow> bool" where
  "array_ok hash a \<longleftrightarrow> array_length a \<le> MAX_U32 \<and>
     (case a of
        DenseArray len cells \<Rightarrow> len \<le> length cells \<and> length cells \<le> MAX_U32 \<and> Uninit \<notin> set (take len cells)
      | SparseArray len m \<Rightarrow> hash_map_wf hash m \<and> half_free m \<and> (\<forall>(i, p) \<in> set (hash_map_iter m). i < len))"

lemma array_okD:
  "array_ok hash (DenseArray len cells) \<longleftrightarrow>
     len \<le> length cells \<and> length cells \<le> MAX_U32 \<and> Uninit \<notin> set (take len cells)"
  "array_ok hash (SparseArray len m) \<longleftrightarrow> len \<le> MAX_U32 \<and> hash_map_wf hash m \<and> half_free m
     \<and> (\<forall>(i, p) \<in> set (hash_map_iter m). i < len)"
  by (auto simp: array_ok_def array_length_def)

lemma get_property_ok:
  assumes "array_ok hash a"
  shows "get_property hash a i = Some (array_map hash a i)"
proof (cases a)
  case (DenseArray len cells)
  then show ?thesis
    using assms by (auto simp: get_property_def array_map_def array_okD cell_property_def vec_get_def
        in_set_conv_nth split: cell.splits intro: leI)
next
  case (SparseArray len m)
  then show ?thesis
    using assms by (simp add: get_property_def array_map_def array_okD hash_map_get_value)
qed

lemma array_map_stored: "array_ok hash a \<Longrightarrow> array_map hash a i = Some p \<Longrightarrow> array_stores a i p"
  by (cases a) (auto simp: array_map_def array_stores_def array_okD value_stored split: if_splits)

lemma stable_stored:
  "array_ok hash a \<Longrightarrow> index_stable a i \<Longrightarrow> array_stores a i p \<longleftrightarrow> array_map hash a i = Some p"
  by (cases a) (auto simp: array_map_def array_stores_def array_okD value_once split: if_splits)

lemma array_map_present: "array_ok hash a \<Longrightarrow> array_map hash a i \<noteq> None \<longleftrightarrow> (\<exists>p. array_stores a i p)"
proof (cases a)
  case (SparseArray len m)
  then show "array_ok hash a \<Longrightarrow> array_map hash a i \<noteq> None \<longleftrightarrow> (\<exists>p. array_stores a i p)"
    using value_None [of hash m i] by (force simp: array_map_def array_stores_def array_okD has_key_def)
qed (auto simp: array_map_def array_stores_def)

lemma array_stores_length: "array_ok hash a \<Longrightarrow> array_stores a i p \<Longrightarrow> i < array_length a"
  by (cases a) (auto simp: array_stores_def array_okD array_length_def)

section \<open>Growing and shrinking dense arrays\<close>

lemma set_empty_range_ok:
  "start \<le> end \<Longrightarrow> end \<le> length cells \<Longrightarrow> set_empty_range start end cells
     = Some (take start cells @ replicate (end - start) Hole @ drop end cells)"
  by (simp add: set_empty_range_def)

lemma nth_grown:
  "i < end \<Longrightarrow> start \<le> end \<Longrightarrow> start \<le> length cells \<Longrightarrow>
     (take start cells @ replicate (end - start) Hole @ ys) ! i = (if i < start then cells ! i else Hole)"
  by (auto simp: nth_append min_def)

lemma take_grown:
  "start \<le> end \<Longrightarrow> start \<le> length cells \<Longrightarrow>
     take end (take start cells @ replicate (end - start) Hole @ ys) = take start cells @ replicate (end - start) Hole"
  by simp

lemma grow_dense_ok:
  assumes ok: "array_ok hash (DenseArray len cells)" and n: "len \<le> n" "n \<le> MAX_U32"
  shows "\<exists>cells'. grow_dense_properties n len cells = Some (DenseArray n cells')
    \<and> array_ok hash (DenseArray n cells') \<and> array_map hash (DenseArray n cells') = array_map hash (DenseArray len cells)"
proof -
  have cells: "len \<le> length cells" "length cells \<le> MAX_U32" "Uninit \<notin> set (take len cells)"
    using ok by (simp_all add: array_okD)
  show ?thesis
  proof (cases "n \<le> length cells")
    case True
    let ?cells = "take len cells @ replicate (n - len) Hole @ drop n cells"
    have "grow_dense_properties n len cells = Some (DenseArray n ?cells)"
      using True n by (simp add: grow_dense_properties_def set_empty_range_ok Let_def)
    moreover have "array_ok hash (DenseArray n ?cells)"
      using True n cells by (simp add: array_okD take_grown)
    moreover have "array_map hash (DenseArray n ?cells) = array_map hash (DenseArray len cells)"
      using n cells by (auto simp: array_map_def fun_eq_iff nth_grown cell_property_def)
    ultimately show ?thesis by blast
  next
    case False
    define c where "c = max (saturating_mul_u32 (length cells) 2) n"
    have c: "n \<le> c" "c \<le> MAX_U32" using n by (auto simp: c_def saturating_mul_u32_def)
    let ?new = "take len cells @ replicate (c - len) Hole"
    have "grow_dense_properties n len cells = Some (DenseArray n ?new)"
      using False n c cells
      by (simp add: grow_dense_properties_def c_def [symmetric] copy_cells_def new_dense_array_def
          set_empty_range_ok Let_def)
    moreover have "take n ?new = take len cells @ replicate (n - len) Hole"
      using n c cells by (simp add: min_def)
    then have "array_ok hash (DenseArray n ?new)"
      using n c cells by (simp add: array_okD)
    moreover have "array_map hash (DenseArray n ?new) = array_map hash (DenseArray len cells)"
      using n c cells nth_grown [of _ c len cells "[]"] by (auto simp: array_map_def fun_eq_iff cell_property_def)
    ultimately show ?thesis by blast
  qed
qed

lemma shrink_dense_ok:
  assumes ok: "array_ok hash (DenseArray len cells)" and n: "n \<le> len"
  shows "\<exists>cells'. shrink_dense_properties n cells = Some (DenseArray n cells')
    \<and> array_ok hash (DenseArray n cells')
    \<and> array_map hash (DenseArray n cells') = (\<lambda>i. if i < n then array_map hash (DenseArray len cells) i else None)"
proof -
  have cells: "len \<le> length cells" "length cells \<le> MAX_U32" "Uninit \<notin> set (take len cells)"
    using ok by (simp_all add: array_okD)
  have taken: "Uninit \<notin> set (take n cells)"
    using cells(3) n set_take_subset_set_take [of n len cells] by blast
  show ?thesis
  proof (cases "n \<ge> length cells div 2")
    case True
    then show ?thesis
      using n cells taken
      by (auto simp: shrink_dense_properties_def array_okD array_map_def fun_eq_iff)
  next
    case False
    have "shrink_dense_properties n cells = Some (DenseArray n (take n cells))"
      using False n cells by (simp add: shrink_dense_properties_def copy_cells_def new_dense_array_def)
    then show ?thesis
      using n cells taken by (auto simp: array_okD array_map_def fun_eq_iff)
  qed
qed

section \<open>From dense to sparse\<close>

text \<open>A table made for a list of entries.\<close>

lemma copied_sparse:
  "\<exists>m. insert_all (hash_map_insert_without_growing hash) kvs (new_hash_map (min_capacity_needed (length kvs))) = Some m
    \<and> hash_map_ok hash m \<and> half_free m \<and> hash_map_value hash m = map_of (rev kvs)
    \<and> set (hash_map_iter m) \<subseteq> set kvs"
proof -
  obtain k where k: "min_capacity_needed (length kvs) = 2 ^ k" "2 * length kvs \<le> 2 ^ k"
    using min_capacity_needed_ok by blast
  have "length kvs < min_capacity_needed (length kvs)" unfolding k(1) using k(2) by (cases kvs) auto
  from copied_table [OF k(1) this, of hash]
  obtain m where m: "insert_all (hash_map_insert_without_growing hash) kvs
      (new_hash_map (min_capacity_needed (length kvs))) = Some m" "hash_map_ok hash m"
    "hash_map_capacity m = min_capacity_needed (length kvs)" "length (hash_map_iter m) \<le> length kvs"
    "hash_map_value hash m = map_of (rev kvs)" "set (hash_map_iter m) \<subseteq> set kvs"
    by (elim exE conjE)
  have "half_free m" using m(3,4) k by (simp add: half_free_def)
  with m(1,2,5,6) show ?thesis by blast
qed

definition filled_from :: "nat \<Rightarrow> 'v cell list \<Rightarrow> (nat \<times> 'v property) list" where
  "filled_from n cells = concat (map (\<lambda>(i, c). case c of
     Cell v \<Rightarrow> [(i, data_property v True True True)] | _ \<Rightarrow> []) (enumerate n cells))"

lemma filled_from_simps [simp]:
  "filled_from n [] = []"
  "filled_from n (c # cs) = (case cell_property c of None \<Rightarrow> [] | Some p \<Rightarrow> [(n, p)]) @ filled_from (Suc n) cs"
  by (simp_all add: filled_from_def cell_property_def split: cell.split)

lemma filled_cells_from: "filled_cells cells = filled_from 0 cells"
  by (simp add: filled_cells_def filled_from_def)

lemma filled_from_keys: "fst ` set (filled_from n cells) \<subseteq> {n..<n + length cells}"
  by (induction cells arbitrary: n) (force split: option.splits)+

lemma distinct_filled: "distinct (map fst (filled_from n cells))"
proof (induction cells arbitrary: n)
  case (Cons c cs)
  have "n \<notin> fst ` set (filled_from (Suc n) cs)" using filled_from_keys [of "Suc n" cs] by auto
  with Cons show ?case by (auto split: option.splits)
qed simp

lemma map_of_filled:
  "map_of (filled_from n cells) i =
     (if n \<le> i \<and> i < n + length cells then cell_property (cells ! (i - n)) else None)"
proof (induction cells arbitrary: n)
  case (Cons c cs)
  then show ?case
    by (cases "i = n") (auto simp: map_add_def nth_Cons' split: option.splits)
qed auto

lemma transition_ok:
  assumes ok: "array_ok hash (DenseArray len cells)"
  shows "\<exists>m. transition_to_sparse_properties hash len cells = Some (SparseArray len m)
    \<and> array_ok hash (SparseArray len m) \<and> (\<forall>i. index_stable (SparseArray len m) i)
    \<and> array_map hash (SparseArray len m) = array_map hash (DenseArray len cells)"
proof -
  have cells: "len \<le> length cells" "length cells \<le> MAX_U32" "Uninit \<notin> set (take len cells)"
    using ok by (simp_all add: array_okD)
  let ?kvs = "filled_cells (take len cells)"
  obtain m where m: "insert_all (hash_map_insert_without_growing hash) ?kvs
      (new_hash_map (min_capacity_needed (length ?kvs))) = Some m"
    "hash_map_ok hash m" "half_free m" "hash_map_value hash m = map_of (rev ?kvs)"
    "set (hash_map_iter m) \<subseteq> set ?kvs"
    using copied_sparse [of hash ?kvs] by (elim exE conjE)
  have "map_of (rev ?kvs) = map_of ?kvs"
    using distinct_filled [of 0 "take len cells"]
    by (subst map_of_inject_set) (simp_all add: filled_cells_from rev_map [symmetric])
  moreover have "map_of ?kvs i = array_map hash (DenseArray len cells) i" for i
    using cells(1) by (simp add: filled_cells_from map_of_filled array_map_def min_def)
  ultimately have same: "hash_map_value hash m = array_map hash (DenseArray len cells)"
    by (simp add: m(4) fun_eq_iff)
  have "transition_to_sparse_properties hash len cells = Some (SparseArray len m)"
    using cells m(1) by (simp add: transition_to_sparse_properties_def vec_slice_def Let_def)
  moreover have "i < len" if "(i, p) \<in> set (hash_map_iter m)" for i p
    using that m(5) filled_from_keys [of 0 "take len cells"] by (force simp: filled_cells_from)
  then have "array_ok hash (SparseArray len m)"
    using m(3) cells hash_map_ok_wf [OF m(2)] by (auto simp: array_okD)
  moreover have "array_map hash (SparseArray len m) = array_map hash (DenseArray len cells)"
    by (simp add: fun_eq_iff array_map_def [of hash "SparseArray len m"] same)
  ultimately show ?thesis using copies_ok [OF m(2)] by auto
qed

section \<open>Setting a property\<close>

text \<open>
  The effect of storing a property: what is read for every other stable index stays as it is, no index
  gets lost, and nothing else is stored.
\<close>

definition index_written ::
    "(nat \<Rightarrow> nat) \<Rightarrow> nat \<Rightarrow> 'v property \<Rightarrow> 'v array_properties \<Rightarrow> 'v array_properties \<Rightarrow> bool" where
  "index_written hash i p a a' \<longleftrightarrow>
     array_map hash a' i = Some p
     \<and> (\<forall>j. j \<noteq> i \<longrightarrow> index_stable a j \<longrightarrow> array_map hash a' j = array_map hash a j \<and> index_stable a' j)
     \<and> (\<forall>j. j \<noteq> i \<longrightarrow> (array_map hash a' j = None) = (array_map hash a j = None))
     \<and> (\<forall>j q. array_stores a' j q \<longrightarrow> j = i \<and> q = p \<or> array_stores a j q)"

text \<open>A dense array is rebuilt first.\<close>

lemma index_written_rebuilt:
  assumes "index_written hash i p b a'" and "array_ok hash b" and "\<And>j. index_stable b j"
    and "array_map hash b = array_map hash (DenseArray len cells)"
  shows "index_written hash i p (DenseArray len cells) a'"
  using assms stable_stored [of hash b]
  by (auto simp: index_written_def array_stores_simps(1) [where hash = hash])

lemma set_property_sparse_ok:
  assumes ok: "array_ok hash (SparseArray len m)" and i: "i < MAX_U32"
  shows "\<exists>a'. set_property hash i p (SparseArray len m) = Some a' \<and> array_ok hash a'
    \<and> array_length a' = max len (i + 1) \<and> index_written hash i p (SparseArray len m) a'"
proof -
  have sparse: "hash_map_wf hash m" "half_free m" "len \<le> MAX_U32" "\<forall>(i, p) \<in> set (hash_map_iter m). i < len"
    using ok by (simp_all add: array_okD)
  obtain b m' where m': "hash_map_insert hash i p m = Some (b, m')" "hash_map_wf hash m'" "half_free m'"
    "hash_map_value hash m' i = Some p"
    "\<And>j. j \<noteq> i \<Longrightarrow> key_copies j m \<le> 1 \<Longrightarrow> hash_map_value hash m' j = hash_map_value hash m j \<and> key_copies j m' \<le> 1"
    "\<And>j. j \<noteq> i \<Longrightarrow> has_key j (hash_map_iter m') = has_key j (hash_map_iter m)"
    "set (hash_map_iter m') \<subseteq> insert (i, p) (set (hash_map_iter m))"
    using insert_value [OF sparse(1,2), of i p] by (elim exE conjE) blast
  have "(if i \<ge> len then add_u32 i 1 else Some len) = Some (max len (i + 1))"
    using i by (auto simp: add_u32_def)
  then have "set_property hash i p (SparseArray len m) = Some (SparseArray (max len (i + 1)) m')"
    using m'(1) by (subst set_property.simps) simp
  moreover have "array_ok hash (SparseArray (max len (i + 1)) m')"
    using m'(2,3,7) sparse(3,4) i by (fastforce simp: array_okD)
  moreover have "index_written hash i p (SparseArray len m) (SparseArray (max len (i + 1)) m')"
    using m'(4-7) value_None [OF m'(2)] value_None [OF sparse(1)]
    by (auto simp: index_written_def array_map_def array_stores_simps)
  ultimately show ?thesis by (auto simp: array_length_def)
qed

lemma set_property_dense_ok:
  assumes ok: "array_ok hash (DenseArray len cells)" and i: "i < len"
    and allowed: "is_allowed_as_dense_array_property p" and flags: "property_flags p = DENSE_ARRAY_PROPERTY_FLAGS"
  shows "\<exists>a'. set_property hash i p (DenseArray len cells) = Some a' \<and> array_ok hash a'
    \<and> array_length a' = max len (i + 1) \<and> index_written hash i p (DenseArray len cells) a'"
proof -
  let ?cells = "cells[i := Cell (property_value p)]"
  have cells: "len \<le> length cells" "length cells \<le> MAX_U32" "Uninit \<notin> set (take len cells)"
    using ok by (simp_all add: array_okD)
  have "set_property hash i p (DenseArray len cells) = Some (DenseArray len ?cells)"
    using allowed i cells(1) by (subst set_property.simps) (simp add: vec_set_def)
  moreover have "array_ok hash (DenseArray len ?cells)"
    using cells i set_update_subset_insert [of "take len cells" i "Cell (property_value p)"]
    by (auto simp: array_okD take_update_swap)
  moreover have "p = data_property (property_value p) True True True"
    using flags by (cases p) (simp add: data_property_def DENSE_ARRAY_PROPERTY_FLAGS_def or.assoc)
  then have "array_map hash (DenseArray len ?cells) = (array_map hash (DenseArray len cells))(i \<mapsto> p)"
    using cells(1) i by (auto simp: array_map_def fun_eq_iff cell_property_def nth_list_update)
  then have "index_written hash i p (DenseArray len cells) (DenseArray len ?cells)"
    by (auto simp: index_written_def array_stores_simps(1) [where hash = hash] split: if_splits)
  ultimately show ?thesis using i by (auto simp: array_length_def)
qed

text \<open>The length of a dense array leaves room for the threshold.\<close>

definition length_fits :: "'v array_properties \<Rightarrow> bool" where
  "length_fits a = (case a of DenseArray len _ \<Rightarrow> len + SPARSE_ARRAY_THRESHOLD \<le> MAX_U32 | _ \<Rightarrow> True)"

lemma set_property_ok:
  assumes ok: "array_ok hash a" and i: "i < MAX_U32" and fits: "length_fits a"
    and public: "property_flags p \<le> DENSE_ARRAY_PROPERTY_FLAGS"
  shows "\<exists>a'. set_property hash i p a = Some a' \<and> array_ok hash a'
    \<and> array_length a' = max (array_length a) (i + 1) \<and> index_written hash i p a a'"
proof (cases a)
  case (SparseArray len m)
  then show ?thesis
    using set_property_sparse_ok [of hash len m i p] ok i by (simp add: array_length_def)
next
  case a: (DenseArray len cells)
  have ok': "array_ok hash (DenseArray len cells)" using ok a by simp
  obtain m where sparse: "transition_to_sparse_properties hash len cells = Some (SparseArray len m)"
    "array_ok hash (SparseArray len m)" "\<And>i. index_stable (SparseArray len m) i"
    "array_map hash (SparseArray len m) = array_map hash (DenseArray len cells)"
    using transition_ok [OF ok'] by blast
  have moved: ?thesis if "set_property hash i p a = set_property hash i p (SparseArray len m)"
    using set_property_sparse_ok [OF sparse(2) i, of p] index_written_rebuilt [OF _ sparse(2,3,4), of i p] that
    by (auto simp: a array_length_def)
  show ?thesis
  proof (cases "is_allowed_as_dense_array_property p")
    case False
    then show ?thesis by (intro moved) (subst set_property.simps, simp add: a sparse(1))
  next
    case True
    have "property_flags p AND 7 = 7"
      using True by (simp add: is_allowed_as_dense_array_property_def flags_contain_def
          DENSE_ARRAY_PROPERTY_FLAGS_def IS_WRITABLE_def IS_ENUMERABLE_def IS_CONFIGURABLE_def)
    then have "7 \<le> property_flags p" using word_and_le1 [of 7 "property_flags p"] by (simp add: and.commute)
    then have flags: "property_flags p = DENSE_ARRAY_PROPERTY_FLAGS"
      using public by (simp add: DENSE_ARRAY_PROPERTY_FLAGS_def IS_WRITABLE_def IS_ENUMERABLE_def
          IS_CONFIGURABLE_def)
    have limit: "add_u32 len SPARSE_ARRAY_THRESHOLD = Some (len + SPARSE_ARRAY_THRESHOLD)"
      using fits by (simp add: add_u32_def length_fits_def a)
    consider "i < len" | "len \<le> i" "i < len + SPARSE_ARRAY_THRESHOLD" | "len + SPARSE_ARRAY_THRESHOLD \<le> i"
      by linarith
    then show ?thesis
    proof cases
      case 1
      then show ?thesis
        using set_property_dense_ok [OF ok' _ True flags] a by (simp add: array_length_def)
    next
      case 2
      obtain cells' where grown: "grow_dense_properties (i + 1) len cells = Some (DenseArray (i + 1) cells')"
        "array_ok hash (DenseArray (i + 1) cells')"
        "array_map hash (DenseArray (i + 1) cells') = array_map hash (DenseArray len cells)"
        using grow_dense_ok [OF ok', of "i + 1"] 2 i by auto
      have "set_property hash i p a = set_property hash i p (DenseArray (i + 1) cells')"
        using True 2 i limit grown(1)
        by (subst set_property.simps) (simp add: a add_u32_def [of i])
      then show ?thesis
        using set_property_dense_ok [OF grown(2) _ True flags, of i] 2
          index_written_rebuilt [OF _ grown(2) _ grown(3), of i p]
        by (auto simp: a array_length_def)
    next
      case 3
      then show ?thesis
        using True limit
        by (intro moved) (subst set_property.simps, simp add: a sparse(1) SPARSE_ARRAY_THRESHOLD_def)
    qed
  qed
qed

section \<open>Setting the length\<close>

text \<open>The indices that cannot be deleted when the length is set to \<open>n\<close>.\<close>

definition fixed_indices :: "nat \<Rightarrow> 'v array_properties \<Rightarrow> nat set" where
  "fixed_indices n a = {i. n \<le> i \<and> (\<exists>p. array_stores a i p \<and> \<not> is_configurable p)}"

text \<open>
  The effect of cutting an array off at \<open>n\<close>: what is read for the stable indices below stays as it is, no
  index below gets lost, and nothing else is stored.
\<close>

definition array_cut :: "(nat \<Rightarrow> nat) \<Rightarrow> nat \<Rightarrow> 'v array_properties \<Rightarrow> 'v array_properties \<Rightarrow> bool" where
  "array_cut hash n a a' \<longleftrightarrow>
     (\<forall>i. index_stable a i \<longrightarrow> array_map hash a' i = (if i < n then array_map hash a i else None) \<and> index_stable a' i)
     \<and> (\<forall>i. (array_map hash a' i = None) = (n \<le> i \<or> array_map hash a i = None))
     \<and> (\<forall>i p. array_stores a' i p \<longrightarrow> array_stores a i p)"

lemma array_cut_refl: "array_ok hash a \<Longrightarrow> array_length a \<le> n \<Longrightarrow> array_cut hash n a a"
  using array_map_stored [of hash a] array_stores_length [of hash a]
  unfolding array_cut_def by (metis le_trans not_le not_None_eq)

text \<open>A dense array is rebuilt first, or cut off.\<close>

lemma array_cut_rebuilt:
  assumes "array_cut hash n b a'" and "array_ok hash b" and "\<And>j. index_stable b j"
    and "array_map hash b = array_map hash (DenseArray len cells)"
  shows "array_cut hash n (DenseArray len cells) a'"
  using assms stable_stored [of hash b]
  by (auto simp: array_cut_def array_stores_simps(1) [where hash = hash])

lemma dense_cut:
  assumes "array_map hash (DenseArray n cells') = (\<lambda>i. if i < n then array_map hash (DenseArray len cells) i else None)"
  shows "array_cut hash n (DenseArray len cells) (DenseArray n cells')"
  using assms by (auto simp: array_cut_def array_stores_simps(1) [where hash = hash] split: if_splits)

text \<open>The loop finds the smallest of them.\<close>

lemma Min_insert_both:
  "finite B \<Longrightarrow> Min (insert j (insert i B)) = Min (insert (min i j) B)" for i j :: nat
  by (cases "B = {}") (simp_all add: ac_simps)

lemma last_non_configurable_index_Some:
  "last_non_configurable_index n es (Some j) =
     Some (Min (insert j {i. \<exists>p. (i, p) \<in> set es \<and> n \<le> i \<and> \<not> is_configurable p}))"
proof (induction es arbitrary: j)
  case (Cons e es)
  obtain i p where e: "e = (i, p)" by fastforce
  let ?B = "\<lambda>es. {i. \<exists>p. (i, p) \<in> set es \<and> n \<le> i \<and> \<not> is_configurable p}"
  have fin: "finite (?B es)" by (rule finite_subset [of _ "fst ` set es"]) force+
  show ?case
  proof (cases "n \<le> i \<and> \<not> is_configurable p")
    case True
    have B: "?B (e # es) = insert i (?B es)" using True e by auto
    have step: "last_non_configurable_index n (e # es) (Some j)
        = last_non_configurable_index n es (Some (min i j))"
      using True by (simp add: e min_def)
    show ?thesis unfolding step B Cons.IH Min_insert_both [OF fin] by (rule refl)
  next
    case False
    have B: "?B (e # es) = ?B es" using False e by auto
    have step: "last_non_configurable_index n (e # es) (Some j) = last_non_configurable_index n es (Some j)"
      using False by (auto simp: e)
    show ?thesis unfolding step B Cons.IH by simp
  qed
qed simp

lemma last_non_configurable_index_None:
  "last_non_configurable_index n es None =
     (let B = {i. \<exists>p. (i, p) \<in> set es \<and> n \<le> i \<and> \<not> is_configurable p} in
      if B = {} then None else Some (Min B))"
proof (induction es)
  case (Cons e es)
  obtain i p where e: "e = (i, p)" by fastforce
  let ?B = "\<lambda>es. {i. \<exists>p. (i, p) \<in> set es \<and> n \<le> i \<and> \<not> is_configurable p}"
  show ?case
  proof (cases "n \<le> i \<and> \<not> is_configurable p")
    case True
    have B: "?B (e # es) = insert i (?B es)" using True e by auto
    show ?thesis unfolding B using True by (simp add: e last_non_configurable_index_Some)
  next
    case False
    have B: "?B (e # es) = ?B es" using False e by auto
    have step: "last_non_configurable_index n (e # es) None = last_non_configurable_index n es None"
      using False by (auto simp: e)
    show ?thesis unfolding step B by (rule Cons.IH)
  qed
qed simp

lemma last_fixed_index:
  "last_non_configurable_index n (hash_map_iter m) None =
    (let B = fixed_indices n (SparseArray len m) in if B = {} then None else Some (Min B))"
proof -
  have "{i. \<exists>p. (i, p) \<in> set (hash_map_iter m) \<and> n \<le> i \<and> \<not> is_configurable p} = fixed_indices n (SparseArray len m)"
    by (auto simp: fixed_indices_def array_stores_simps)
  then show ?thesis unfolding last_non_configurable_index_None by simp
qed

lemma fixed_indices_bounded: "array_ok hash a \<Longrightarrow> fixed_indices n a \<subseteq> {n..<array_length a}"
  using array_stores_length [of hash a] by (auto simp: fixed_indices_def)

lemma count_kept: "count_list (map fst (filter (\<lambda>(i, _). i < k) es)) i \<le> count_list (map fst es) i"
  by (induction es) auto

lemma set_len_sparse_ok:
  assumes ok: "array_ok hash (SparseArray len m)" and n: "n \<le> MAX_U32"
  defines "B \<equiv> fixed_indices n (SparseArray len m)"
  defines "k \<equiv> if B = {} then n else Suc (Min B)"
  shows "\<exists>a'. set_len_sparse hash n len m = Some (B = {}, a') \<and> array_ok hash a'
    \<and> array_length a' = k \<and> array_cut hash k (SparseArray len m) a'"
proof -
  have sparse: "hash_map_wf hash m" "half_free m" "len \<le> MAX_U32" "\<forall>(i, p) \<in> set (hash_map_iter m). i < len"
    using ok by (auto simp: array_okD)
  have B: "B \<subseteq> {n..<len}" using fixed_indices_bounded [OF ok, of n] by (simp add: B_def array_length_def)
  show ?thesis
  proof (cases "n \<ge> len")
    case True
    have "B = {}" using B True by auto
    then have "k = n" by (simp add: k_def)
    moreover have "array_ok hash (SparseArray n m)"
      using ok True n by (auto simp: array_okD intro: less_le_trans)
    moreover have "array_cut hash n (SparseArray len m) (SparseArray n m)"
      using array_cut_refl [OF ok, of n] True
      by (simp add: array_cut_def array_map_def array_stores_simps array_length_def)
    ultimately show ?thesis
      using True \<open>B = {}\<close> by (auto simp: set_len_sparse_def array_length_def)
  next
    case False
    let ?kept = "filter (\<lambda>(i, _). i < k) (hash_map_iter m)"
    have fin: "finite B" using B finite_subset by blast
    have k: "k \<le> MAX_U32"
    proof (cases "B = {}")
      case False
      then have "Min B < len" using B Min_in [OF fin] by auto
      then show ?thesis using False sparse(3) by (simp add: k_def)
    qed (simp add: k_def n)
    have "(case last_non_configurable_index n (hash_map_iter m) None of
        Some i \<Rightarrow> add_u32 i 1 | None \<Rightarrow> Some n) = Some k"
      unfolding last_fixed_index [of n m len] Let_def B_def [symmetric] using k
      by (simp add: add_u32_def k_def split: if_splits)
    moreover obtain m' where m': "insert_all (hash_map_insert_without_growing hash) ?kept
        (new_hash_map (min_capacity_needed (length ?kept))) = Some m'"
      "hash_map_ok hash m'" "half_free m'" "hash_map_value hash m' = map_of (rev ?kept)"
      "set (hash_map_iter m') \<subseteq> set ?kept"
      using copied_sparse [of hash ?kept] by (elim exE conjE)
    moreover have "last_non_configurable_index n (hash_map_iter m) None = None \<longleftrightarrow> B = {}"
      unfolding last_fixed_index [of n m len] Let_def B_def [symmetric] by simp
    ultimately have "set_len_sparse hash n len m = Some (B = {}, SparseArray k m')"
      using False by (simp add: set_len_sparse_def Let_def)
    moreover have "array_ok hash (SparseArray k m')"
      using m'(3,5) k hash_map_ok_wf [OF m'(2)] by (auto simp: array_okD)
    moreover have "array_cut hash k (SparseArray len m) (SparseArray k m')"
    proof -
      have "hash_map_value hash m' i = (if i < k then hash_map_value hash m i else None)"
        if "key_copies i m \<le> 1" for i
      proof -
        have "count_list (map fst ?kept) i \<le> 1"
          using that count_kept [of k "hash_map_iter m" i] by (simp add: key_copies_iter)
        then show ?thesis
          using map_of_once [of ?kept i] value_once [OF sparse(1) that] unfolding m'(4)
          by (cases "i < k"; cases "hash_map_value hash m i") (auto simp: map_of_eq_None_iff)
      qed
      moreover have "hash_map_value hash m' i = None \<longleftrightarrow> k \<le> i \<or> hash_map_value hash m i = None" for i
        unfolding m'(4) value_None [OF sparse(1)] by (force simp: map_of_eq_None_iff has_key_def)
      moreover have "key_copies i m' \<le> 1" for i by (rule copies_ok [OF m'(2)])
      ultimately show ?thesis using m'(5) by (auto simp: array_cut_def array_map_def array_stores_simps)
    qed
    ultimately show ?thesis by (auto simp: array_length_def)
  qed
qed

lemma dense_not_fixed: "fixed_indices n (DenseArray len cells) = {}"
  by (auto simp: fixed_indices_def array_stores_def cell_property_def is_configurable_def data_property_def
      flags_contain_def IS_WRITABLE_def IS_ENUMERABLE_def IS_CONFIGURABLE_def split: if_splits cell.splits)

lemma set_len_ok:
  assumes ok: "array_ok hash a" and n: "n \<le> MAX_U32" and fits: "length_fits a"
  defines "B \<equiv> fixed_indices n a"
  defines "k \<equiv> if B = {} then n else Suc (Min B)"
  shows "\<exists>a'. set_len hash n a = Some (B = {}, a') \<and> array_ok hash a' \<and> array_length a' = k \<and> array_cut hash k a a'"
proof (cases a)
  case (SparseArray len m)
  then have "set_len hash n a = set_len_sparse hash n len m" by (simp add: set_len_def)
  then show ?thesis
    using ok n unfolding k_def B_def SparseArray by (simp only: set_len_sparse_ok)
next
  case a: (DenseArray len cells)
  have ok': "array_ok hash (DenseArray len cells)" using ok a by simp
  have k: "k = n" "B = {}" by (simp_all add: k_def B_def a dense_not_fixed)
  have limit: "add_u32 len SPARSE_ARRAY_THRESHOLD = Some (len + SPARSE_ARRAY_THRESHOLD)"
    using fits by (simp add: add_u32_def length_fits_def a)
  consider "n = len" | "n < len" | "len < n" "n < len + SPARSE_ARRAY_THRESHOLD"
    | "len < n" "len + SPARSE_ARRAY_THRESHOLD \<le> n"
    by linarith
  then show ?thesis
  proof cases
    case 1
    then show ?thesis
      using ok array_cut_refl [OF ok, of n] k by (simp add: set_len_def a array_length_def)
  next
    case 2
    obtain cells' where cells': "shrink_dense_properties n cells = Some (DenseArray n cells')"
      "array_ok hash (DenseArray n cells')"
      "array_map hash (DenseArray n cells') = (\<lambda>i. if i < n then array_map hash (DenseArray len cells) i else None)"
      using shrink_dense_ok [OF ok', of n] 2 by auto
    then show ?thesis
      using 2 k dense_cut [OF cells'(3)] by (simp add: set_len_def a array_length_def)
  next
    case 3
    obtain cells' where cells': "grow_dense_properties n len cells = Some (DenseArray n cells')"
      "array_ok hash (DenseArray n cells')"
      "array_map hash (DenseArray n cells') = array_map hash (DenseArray len cells)"
      using grow_dense_ok [OF ok', of n] 3 n by auto
    then show ?thesis
      using 3 k limit array_cut_rebuilt [OF array_cut_refl [OF cells'(2)] cells'(2) _ cells'(3)]
      by (simp add: set_len_def a array_length_def)
  next
    case 4
    obtain m where sparse: "transition_to_sparse_properties hash len cells = Some (SparseArray len m)"
      "array_ok hash (SparseArray len m)" "\<And>i. index_stable (SparseArray len m) i"
      "array_map hash (SparseArray len m) = array_map hash (DenseArray len cells)"
      using transition_ok [OF ok'] by blast
    have "set_len hash n a = set_len_sparse hash n len m"
      using 4 limit sparse(1) by (simp add: set_len_def a)
    moreover have "fixed_indices n (SparseArray len m) = {}"
      using fixed_indices_bounded [OF sparse(2), of n] 4 by (auto simp: array_length_def)
    ultimately show ?thesis
      using set_len_sparse_ok [OF sparse(2) n] array_cut_rebuilt [OF _ sparse(2,3,4)] k
      by (auto simp: a array_length_def)
  qed
qed

section \<open>Removing a property\<close>

lemma remove_property_ok:
  assumes ok: "array_ok hash a" and present: "array_map hash a i \<noteq> None"
  shows "\<exists>a'. remove_property hash i a = Some a' \<and> array_ok hash a' \<and> array_length a' = array_length a
    \<and> (\<forall>j. j \<noteq> i \<longrightarrow> array_map hash a' j = array_map hash a j)
    \<and> (index_stable a i \<longrightarrow> array_map hash a' i = None)
    \<and> (\<forall>j. index_stable a j \<longrightarrow> index_stable a' j) \<and> (\<forall>j q. array_stores a' j q \<longrightarrow> array_stores a j q)"
proof (cases a)
  case (DenseArray len cells)
  let ?a = "DenseArray len (cells[i := Hole])"
  have i: "i < len" using present by (simp add: DenseArray array_map_def split: if_splits)
  have cells: "len \<le> length cells" "length cells \<le> MAX_U32" "Uninit \<notin> set (take len cells)"
    using ok by (simp_all add: DenseArray array_okD)
  have map: "array_map hash ?a j = (if j = i then None else array_map hash a j)" for j
    using i cells(1) by (simp add: DenseArray array_map_def cell_property_def)
  have "remove_property hash i a = Some ?a" using i cells(1) by (simp add: DenseArray remove_property_def vec_set_def)
  moreover have "array_ok hash ?a"
    using cells i set_update_subset_insert [of "take len cells" i Hole] by (auto simp: array_okD take_update_swap)
  moreover have "array_stores a j q" if "array_stores ?a j q" for j q
    using that map [of j] unfolding DenseArray array_stores_simps(1) [where hash = hash] by (simp split: if_splits)
  ultimately show ?thesis using map by (auto simp: DenseArray array_length_def)
next
  case (SparseArray len m)
  have sparse: "hash_map_wf hash m" "half_free m" using ok by (simp_all add: SparseArray array_okD)
  obtain b m' where m': "hash_map_remove hash i m = Some (b, m')" "hash_map_wf hash m'"
    "\<And>j. j \<noteq> i \<Longrightarrow> hash_map_value hash m' j = hash_map_value hash m j"
    "\<And>j. key_copies j m' = (if j = i then key_copies i m - 1 else key_copies j m)"
    "set (hash_map_iter m') \<subseteq> set (hash_map_iter m)" "length (hash_map_iter m') \<le> length (hash_map_iter m)"
    "hash_map_capacity m' = hash_map_capacity m"
    using remove_value [OF sparse(1), of i] by (elim exE conjE) blast
  have "hash_map_value hash m' i = None" if "key_copies i m \<le> 1"
  proof -
    have "key_copies i m' = 0" using that m'(4) [of i] by simp
    then have "i \<notin> set (map fst (hash_map_iter m'))" unfolding key_copies_iter count_list_0_iff .
    then show ?thesis by (simp add: value_None [OF m'(2)] has_key_def)
  qed
  moreover have "half_free m'" using sparse(2) m'(6,7) by (simp add: half_free_def)
  ultimately show ?thesis
    using ok m'(1-5) by (auto simp: SparseArray remove_property_def array_okD array_length_def array_map_def array_stores_simps)
qed

section \<open>Reachable arrays\<close>

inductive array_reachable :: "(nat \<Rightarrow> nat) \<Rightarrow> 'v array_properties \<Rightarrow> bool" for hash where
  reachable_empty: "array_reachable hash (DenseArray 0 [])"
| reachable_set: "array_reachable hash a \<Longrightarrow> i < MAX_U32 \<Longrightarrow> length_fits a \<Longrightarrow>
    property_flags p \<le> DENSE_ARRAY_PROPERTY_FLAGS \<Longrightarrow> set_property hash i p a = Some a' \<Longrightarrow> array_reachable hash a'"
| reachable_delete: "array_reachable hash a \<Longrightarrow> get_property hash a i \<noteq> Some None \<Longrightarrow>
    remove_property hash i a = Some a' \<Longrightarrow> array_reachable hash a'"
| reachable_set_len: "array_reachable hash a \<Longrightarrow> n \<le> MAX_U32 \<Longrightarrow> length_fits a \<Longrightarrow>
    set_len hash n a = Some (b, a') \<Longrightarrow> array_reachable hash a'"

lemma array_reachable_ok: "array_reachable hash a \<Longrightarrow> array_ok hash a"
proof (induction rule: array_reachable.induct)
  case (reachable_set a i p a')
  then show ?case using set_property_ok [of hash a i p] by auto
next
  case (reachable_delete a i a')
  then show ?case using remove_property_ok [of hash a i] by (auto simp: get_property_ok)
next
  case (reachable_set_len a n b a')
  then show ?case using set_len_ok [of hash a n] by auto
qed (simp add: array_okD)

section \<open>The properties\<close>

text \<open>C26: Setting a property of an array, in every state that setting, removing and changing the length
  lead to, always succeeds and has the effect it has on a length and a map from indices to properties,
  whether it is stored in a dense array, makes one grow, or turns it into a sparse one because of a gap or
  unusual attributes: the index has the property, no other index gets lost or appears, and every other
  index keeps its property if the hash map of the array stores it only once, which is so in a dense array
  and unless it was set again after a removal.  It writes inside of the array and leaves no element
  uninitialised.  The index is an array index, the property is not private, and the length of a dense array
  is at least 100 below the largest one.\<close>

theorem set_property_refines:
  assumes "array_ok hash a" and "length_fits a" and "i < MAX_U32"
    and "property_flags p \<le> DENSE_ARRAY_PROPERTY_FLAGS"
  shows "\<exists>a'. set_property hash i p a = Some a' \<and> array_ok hash a'
    \<and> array_length a' = max (array_length a) (i + 1) \<and> get_property hash a' i = Some (Some p)
    \<and> (\<forall>j. j \<noteq> i \<longrightarrow> (get_property hash a' j = Some None \<longleftrightarrow> get_property hash a j = Some None))
    \<and> (\<forall>j. j \<noteq> i \<longrightarrow> index_stable a j \<longrightarrow> get_property hash a' j = get_property hash a j \<and> index_stable a' j)"
proof -
  obtain a' where a': "set_property hash i p a = Some a'" "array_ok hash a'"
    "array_length a' = max (array_length a) (i + 1)" "index_written hash i p a a'"
    using set_property_ok [OF assms(1,3,2,4)] by blast
  then show ?thesis by (simp add: get_property_ok [OF a'(2)] get_property_ok [OF assms(1)] index_written_def)
qed

lemma small_array_ok: "array_ok hash (DenseArray 1 [Cell False])" "length_fits (DenseArray 1 [Cell False])"
  by (simp_all add: array_okD length_fits_def MAX_U32_def SPARSE_ARRAY_THRESHOLD_def)

lemma set_property_refines_witness:
  "\<exists>a'. set_property id 500 (data_property True True True True) (DenseArray 1 [Cell False]) = Some a'
    \<and> array_ok id a' \<and> array_length a' = 501 \<and> get_property id a' 500 = Some (Some (data_property True True True True))
    \<and> get_property id a' 0 = Some (Some (data_property False True True True))"
proof -
  have "get_property id (DenseArray 1 [Cell False]) 0 = Some (Some (data_property False True True True))"
    by (simp add: get_property_def vec_get_def)
  then show ?thesis
    using set_property_refines [OF small_array_ok, where i = 500 and p = "data_property True True True True" and hash = id]
    by (force simp: MAX_U32_def data_property_def DENSE_ARRAY_PROPERTY_FLAGS_def or.assoc array_length_def)
qed

text \<open>C27: Setting the length of an array, in every state that setting, removing and changing the length
  lead to, keeps the properties below the new length and removes the others, for dense arrays, for sparse
  ones and on the way from one to the other, as ECMAScript describes it: it stops above an index that is not
  configurable and reports so.  This holds if there is at most one such index; no index below gets lost, and
  it keeps its property if the hash map of the array stores it only once, which is so in a dense array and
  unless it was set again after a removal.  The length of a dense array is at least 100 below the largest
  one.\<close>

theorem set_len_refines:
  assumes "array_ok hash a" and "length_fits a" and "n \<le> MAX_U32"
    and "\<And>i j. i \<in> fixed_indices n a \<Longrightarrow> j \<in> fixed_indices n a \<Longrightarrow> i = j"
  defines "done \<equiv> fixed_indices n a = {}"
  defines "k \<equiv> if done then n else Suc (Max (fixed_indices n a))"
  shows "\<exists>a'. set_len hash n a = Some (done, a') \<and> array_ok hash a' \<and> array_length a' = k
    \<and> (\<forall>i. get_property hash a' i = Some None \<longleftrightarrow> k \<le> i \<or> get_property hash a i = Some None)
    \<and> (\<forall>i < k. index_stable a i \<longrightarrow> get_property hash a' i = get_property hash a i)"
proof -
  have "Min (fixed_indices n a) = Max (fixed_indices n a)" if not_done: "\<not> done"
  proof -
    obtain i where "i \<in> fixed_indices n a" using not_done by (auto simp: done_def)
    then have "fixed_indices n a = {i}" using assms(4) by blast
    then show ?thesis by simp
  qed
  then have k: "(if fixed_indices n a = {} then n else Suc (Min (fixed_indices n a))) = k"
    by (simp add: k_def done_def)
  obtain a' where a': "set_len hash n a = Some (done, a')" "array_ok hash a'" "array_length a' = k"
    "array_cut hash k a a'"
    using set_len_ok [OF assms(1,3,2)] unfolding k done_def by blast
  then show ?thesis
    by (simp add: get_property_ok [OF a'(2)] get_property_ok [OF assms(1)] array_cut_def)
qed

lemma set_len_refines_witness:
  "\<exists>a'. set_len id 0 (DenseArray 1 [Cell False]) = Some (True, a') \<and> array_length a' = 0 \<and> get_property id a' 0 = Some None"
  using set_len_refines [OF small_array_ok, where n = 0 and hash = id]
  by (auto simp: dense_not_fixed)







end
