(* ===== verification/Float64.thy ===== *)
theory Float64
  imports Complex_Main Prelude
begin

text \<open>
  The double precision numbers of the engine, \<open>f64\<close> of Rust, as the bits of the IEEE 754 format: what
  the conversions of \<open>runtime/value.rs\<close> and \<open>runtime/type_utilities.rs\<close> use of them.  Everything is
  defined on the fields of the format and evaluates; \<open>f64_real\<close> says which number the bits stand for.
\<close>

type_synonym f64 = "64 word"

section \<open>Fields\<close>

definition f64_negative :: "f64 \<Rightarrow> bool" where
  "f64_negative b \<longleftrightarrow> 2 ^ 63 \<le> unat b"

definition f64_exponent :: "f64 \<Rightarrow> nat" where
  "f64_exponent b = unat b div 2 ^ 52 mod 2 ^ 11"

definition f64_mantissa :: "f64 \<Rightarrow> nat" where
  "f64_mantissa b = unat b mod 2 ^ 52"

definition f64_bits :: "bool \<Rightarrow> nat \<Rightarrow> nat \<Rightarrow> f64" where
  "f64_bits negative exponent mantissa =
     of_nat ((if negative then 2 ^ 63 else 0) + exponent * 2 ^ 52 + mantissa)"

definition f64_is_nan :: "f64 \<Rightarrow> bool" where
  "f64_is_nan b \<longleftrightarrow> f64_exponent b = 2047 \<and> f64_mantissa b \<noteq> 0"

definition f64_is_infinite :: "f64 \<Rightarrow> bool" where
  "f64_is_infinite b \<longleftrightarrow> f64_exponent b = 2047 \<and> f64_mantissa b = 0"

definition f64_is_finite :: "f64 \<Rightarrow> bool" where
  "f64_is_finite b \<longleftrightarrow> f64_exponent b \<noteq> 2047"

definition f64_is_zero :: "f64 \<Rightarrow> bool" where
  "f64_is_zero b \<longleftrightarrow> f64_exponent b = 0 \<and> f64_mantissa b = 0"

text \<open>A finite number has the absolute value \<open>significand * 2 ^ scale / 2 ^ 1075\<close>.\<close>

definition f64_significand :: "f64 \<Rightarrow> nat" where
  "f64_significand b = (if f64_exponent b = 0 then f64_mantissa b else 2 ^ 52 + f64_mantissa b)"

definition f64_scale :: "f64 \<Rightarrow> nat" where
  "f64_scale b = (if f64_exponent b = 0 then 1 else f64_exponent b)"

definition f64_real :: "f64 \<Rightarrow> real" where
  "f64_real b = (if f64_negative b then - 1 else 1) * (real (f64_significand b) * 2 ^ f64_scale b / 2 ^ 1075)"

section \<open>Integers\<close>

text \<open>\<open>abs().floor()\<close> of a finite number.\<close>

definition f64_abs_floor :: "f64 \<Rightarrow> nat" where
  "f64_abs_floor b =
     (if 1075 \<le> f64_scale b then f64_significand b * 2 ^ (f64_scale b - 1075)
      else f64_significand b div 2 ^ (1075 - f64_scale b))"

definition f64_is_integral :: "f64 \<Rightarrow> bool" where
  "f64_is_integral b \<longleftrightarrow> f64_is_finite b \<and>
     (1075 \<le> f64_scale b \<or> f64_significand b mod 2 ^ (1075 - f64_scale b) = 0)"

definition f64_truncated :: "f64 \<Rightarrow> int" where
  "f64_truncated b = (if f64_negative b then - int (f64_abs_floor b) else int (f64_abs_floor b))"

text \<open>The conversion of an integer that needs at most 53 bits.\<close>

fun log2_floor :: "nat \<Rightarrow> nat" where
  "log2_floor n = (if n < 2 then 0 else Suc (log2_floor (n div 2)))"

declare log2_floor.simps [simp del]

definition f64_of_int :: "int \<Rightarrow> f64" where
  "f64_of_int n =
     (if n = 0 then 0
      else (let a = nat \<bar>n\<bar>; k = log2_floor a in
        f64_bits (n < 0) (1023 + k) ((a - 2 ^ k) * 2 ^ (52 - k))))"

text \<open>IEEE equality and order, where they are used: zeros are equal, NaN is not equal to itself.\<close>

definition f64_eq :: "f64 \<Rightarrow> f64 \<Rightarrow> bool" where
  "f64_eq a b \<longleftrightarrow> \<not> f64_is_nan a \<and> \<not> f64_is_nan b \<and> (a = b \<or> f64_is_zero a \<and> f64_is_zero b)"

definition f64_magnitude :: "f64 \<Rightarrow> int" where
  "f64_magnitude b = (if f64_negative b then - int (unat b mod 2 ^ 63) else int (unat b mod 2 ^ 63))"

definition f64_lt :: "f64 \<Rightarrow> f64 \<Rightarrow> bool" where
  "f64_lt a b \<longleftrightarrow> \<not> f64_is_nan a \<and> \<not> f64_is_nan b \<and> f64_magnitude a < f64_magnitude b"

section \<open>Their meaning\<close>

lemma real_abs_floor: "real (f64_significand b) * 2 ^ f64_scale b / 2 ^ 1075 =
    (if 1075 \<le> f64_scale b then real (f64_significand b * 2 ^ (f64_scale b - 1075))
     else real (f64_significand b) / real (2 ^ (1075 - f64_scale b)))"
proof (cases "1075 \<le> f64_scale b")
  case True
  then have "(2 :: real) ^ f64_scale b = 2 ^ (f64_scale b - 1075) * 2 ^ 1075"
    by (simp only: power_add [symmetric] le_add_diff_inverse2)
  with True show ?thesis by simp
next
  case False
  then have "(2 :: real) ^ 1075 = 2 ^ (1075 - f64_scale b) * 2 ^ f64_scale b"
    by (simp only: power_add [symmetric]) simp
  with False show ?thesis by (simp only: if_False) (simp add: field_simps)
qed

lemma f64_abs_floor_real: "int (f64_abs_floor b) = \<lfloor>\<bar>f64_real b\<bar>\<rfloor>"
proof -
  have "\<bar>f64_real b\<bar> = real (f64_significand b) * 2 ^ f64_scale b / 2 ^ 1075"
    by (simp add: f64_real_def abs_mult)
  then show ?thesis
    unfolding real_abs_floor f64_abs_floor_def
    by (cases "1075 \<le> f64_scale b") (simp_all only: if_True if_False floor_of_nat floor_divide_of_nat_eq)
qed

lemma f64_is_integral_real:
  assumes "f64_is_finite b"
  shows "f64_is_integral b \<longleftrightarrow> real (f64_abs_floor b) = \<bar>f64_real b\<bar>"
proof -
  have abs: "\<bar>f64_real b\<bar> = real (f64_significand b) * 2 ^ f64_scale b / 2 ^ 1075"
    by (simp add: f64_real_def abs_mult)
  show ?thesis
  proof (cases "1075 \<le> f64_scale b")
    case True
    then show ?thesis using assms unfolding abs real_abs_floor f64_is_integral_def f64_abs_floor_def by simp
  next
    case False
    define m d where "m = f64_significand b" and "d = (2 :: nat) ^ (1075 - f64_scale b)"
    have "real (m div d) = real m / real d \<longleftrightarrow> m mod d = 0"
    proof
      assume eq: "real (m div d) = real m / real d"
      have "0 < d" by (simp add: d_def)
      then have "real (m div d * d) = real m" using eq by simp
      then have "m div d * d = m" by (simp only: of_nat_eq_iff)
      then show "m mod d = 0" by (metis mod_mult_self2_is_0)
    qed (auto simp: real_of_nat_div)
    with False show ?thesis
      using assms unfolding abs real_abs_floor f64_is_integral_def f64_abs_floor_def m_def d_def by simp
  qed
qed

section \<open>Putting numbers together\<close>

lemma split_fields:
  fixes n A B :: nat
  assumes "n < 2 * (A * B)" and "0 < A" and "0 < B"
  shows "n = (if A * B \<le> n then A * B else 0) + n div A mod B * A + n mod A"
proof -
  define q where "q = n div A"
  have n: "n = q * A + n mod A" by (simp add: q_def)
  have q: "q < 2 * B" using assms(1,2) by (simp add: q_def less_mult_imp_div_less ac_simps)
  have "A * B \<le> n \<longleftrightarrow> B \<le> q" using assms(2) by (simp add: q_def less_eq_div_iff_mult_less_eq ac_simps)
  moreover have "q mod B = (if B \<le> q then q - B else q)"
    using q by (simp add: mod_if [of q B])
  moreover have "q * A = B * A + (q - B) * A" if "B \<le> q" using that by (simp add: add_mult_distrib [symmetric])
  ultimately show ?thesis using n by (auto simp: q_def [symmetric] ac_simps)
qed

lemma join_fields:
  fixes e m A B :: nat
  assumes "e < B" and "m < A"
  shows "e * A + m < A * B" and "(s * (A * B) + e * A + m) div A mod B = e" and "(s * (A * B) + e * A + m) mod A = m"
proof -
  have "e * A + m < Suc e * A" using assms(2) by simp
  also have "\<dots> \<le> B * A" using assms(1) by (intro mult_le_mono1) simp
  finally show "e * A + m < A * B" by (simp add: ac_simps)
  have split: "s * (A * B) + e * A + m = m + (s * B + e) * A" by (simp add: algebra_simps)
  show "(s * (A * B) + e * A + m) mod A = m" unfolding split using assms(2) by simp
  show "(s * (A * B) + e * A + m) div A mod B = e" unfolding split using assms by simp
qed

lemma fields_63: "(2 :: nat) ^ 63 = 2 ^ 52 * 2 ^ 11" and fields_64: "(2 :: nat) ^ 64 = 2 * (2 ^ 52 * 2 ^ 11)"
  by simp_all

lemma unat_f64: "unat b = (if f64_negative b then 2 ^ 63 else 0) + f64_exponent b * 2 ^ 52 + f64_mantissa b"
proof -
  have "unat b < 2 * (2 ^ 52 * 2 ^ 11)" using unsigned_less [of b] by simp
  from split_fields [OF this] show ?thesis
    unfolding f64_negative_def f64_exponent_def f64_mantissa_def fields_63 by simp
qed

lemma f64_bits_fields:
  assumes "e < 2 ^ 11" and "m < 2 ^ 52"
  shows "f64_negative (f64_bits s e m) \<longleftrightarrow> s" and "f64_exponent (f64_bits s e m) = e"
    and "f64_mantissa (f64_bits s e m) = m"
proof -
  define k :: nat where "k = (if s then 1 else 0)"
  have n: "(if s then 2 ^ 63 else 0) + e * 2 ^ 52 + m = k * (2 ^ 52 * 2 ^ 11) + e * 2 ^ 52 + m"
    by (simp add: k_def fields_63)
  note fields = join_fields [OF assms]
  have "k * (2 ^ 52 * 2 ^ 11) + e * 2 ^ 52 + m < 2 ^ 64"
    unfolding fields_64 using fields(1) by (simp add: k_def)
  then have unat: "unat (f64_bits s e m) = k * (2 ^ 52 * 2 ^ 11) + e * 2 ^ 52 + m"
    unfolding f64_bits_def n by (intro unat_of_nat_small) simp
  show "f64_exponent (f64_bits s e m) = e" "f64_mantissa (f64_bits s e m) = m"
    unfolding f64_exponent_def f64_mantissa_def unat by (rule fields)+
  show "f64_negative (f64_bits s e m) \<longleftrightarrow> s"
    unfolding f64_negative_def unat fields_63 using fields(1) by (auto simp: k_def)
qed

lemma f64_bits_of_fields: "f64_bits (f64_negative b) (f64_exponent b) (f64_mantissa b) = b"
  unfolding f64_bits_def unat_f64 [symmetric] by simp

lemma log2_floor_bounds: "0 < n \<Longrightarrow> 2 ^ log2_floor n \<le> n \<and> n < 2 ^ Suc (log2_floor n)"
proof (induction n rule: log2_floor.induct)
  case (1 n)
  show ?case
  proof (cases "n < 2")
    case True
    then show ?thesis using "1.prems" log2_floor.simps [of n] by simp
  next
    case False
    then have "2 ^ log2_floor (n div 2) \<le> n div 2 \<and> n div 2 < 2 ^ Suc (log2_floor (n div 2))"
      using "1.IH" by simp
    moreover have "log2_floor n = Suc (log2_floor (n div 2))" using False by (subst log2_floor.simps) simp
    ultimately show ?thesis by auto
  qed
qed

lemma log2_floor_unique: "2 ^ k \<le> n \<Longrightarrow> n < 2 ^ Suc k \<Longrightarrow> log2_floor n = k"
proof -
  assume n: "2 ^ k \<le> n" "n < 2 ^ Suc k"
  then have "0 < n" using zero_less_power [of "2 :: nat" k] by linarith
  from log2_floor_bounds [OF this] n have "2 ^ k < (2 :: nat) ^ Suc (log2_floor n)"
    "2 ^ log2_floor n < (2 :: nat) ^ Suc k"
    by auto
  then have "k < Suc (log2_floor n)" "log2_floor n < Suc k"
    by (simp_all only: power_strict_increasing_iff [of "2 :: nat"] one_less_numeral_iff semiring_norm)
  then show ?thesis by simp
qed

text \<open>An integral number of up to 53 bits is the conversion of its value, unless it is \<open>-0\<close>.\<close>

lemma integral_fields:
  assumes integral: "f64_is_integral b" and small: "f64_abs_floor b < 2 ^ 53" and pos: "0 < f64_abs_floor b"
  defines "k \<equiv> f64_exponent b - 1023"
  shows "f64_exponent b = 1023 + k" and "k \<le> 52" and "f64_abs_floor b * 2 ^ (52 - k) = 2 ^ 52 + f64_mantissa b"
proof -
  let ?a = "f64_abs_floor b" and ?m = "f64_mantissa b" and ?e = "f64_exponent b"
  have m: "?m < 2 ^ 52" by (simp add: f64_mantissa_def)
  have nonzero: "?e \<noteq> 0"
  proof
    assume "?e = 0"
    then have "?a = ?m div 2 ^ 1074"
      by (simp only: f64_abs_floor_def f64_scale_def f64_significand_def if_True) simp
    moreover have "(2 :: nat) ^ 52 \<le> 2 ^ 1074" by (rule power_increasing) simp_all
    then have "?m < 2 ^ 1074" using m by (rule less_le_trans [rotated])
    ultimately show False using pos by simp
  qed
  then have sig: "f64_significand b = 2 ^ 52 + ?m" "f64_scale b = ?e"
    by (simp_all only: f64_significand_def f64_scale_def if_False)
  have "?e = 1023 + k \<and> k \<le> 52 \<and> ?a * 2 ^ (52 - k) = 2 ^ 52 + ?m"
  proof (cases "1075 \<le> ?e")
    case True
    then have a: "?a = (2 ^ 52 + ?m) * 2 ^ (?e - 1075)" by (simp only: f64_abs_floor_def sig if_True)
    have "?e - 1075 = 0"
    proof (rule ccontr)
      assume "?e - 1075 \<noteq> 0"
      then have "(2 :: nat) ^ 1 \<le> 2 ^ (?e - 1075)" by (intro power_increasing) simp_all
      then have "(2 ^ 52 + ?m) * 2 \<le> ?a" unfolding a by (intro mult_le_mono2) simp
      with small show False by simp
    qed
    with True a show ?thesis by (simp add: k_def)
  next
    case False
    define d where "d = 1075 - ?e"
    have a: "?a = (2 ^ 52 + ?m) div 2 ^ d" and exact: "(2 ^ 52 + ?m) mod 2 ^ d = 0"
      using False integral by (simp_all only: f64_abs_floor_def f64_is_integral_def sig d_def if_False simp_thms)
    then have whole: "?a * 2 ^ d = 2 ^ 52 + ?m" by (metis add.right_neutral div_mult_mod_eq)
    have "d \<le> 52"
    proof (rule ccontr)
      assume "\<not> d \<le> 52"
      then have "(2 :: nat) ^ 53 \<le> 2 ^ d" by (intro power_increasing) simp_all
      also have "\<dots> \<le> ?a * 2 ^ d" using pos by simp
      finally show False using m whole by simp
    qed
    then show ?thesis using whole False by (simp add: k_def d_def)
  qed
  then show "f64_exponent b = 1023 + k" "k \<le> 52" "f64_abs_floor b * 2 ^ (52 - k) = 2 ^ 52 + f64_mantissa b"
    by blast+
qed

lemma f64_of_truncated:
  assumes integral: "f64_is_integral b" and small: "f64_abs_floor b < 2 ^ 53"
    and not_zero: "\<not> (f64_negative b \<and> f64_is_zero b)"
  shows "f64_of_int (f64_truncated b) = b"
proof (cases "f64_abs_floor b = 0")
  case True
  have "f64_significand b = 0"
  proof (cases "1075 \<le> f64_scale b")
    case False
    then have "f64_significand b div 2 ^ (1075 - f64_scale b) = 0" "f64_significand b mod 2 ^ (1075 - f64_scale b) = 0"
      using True integral by (simp_all only: f64_abs_floor_def f64_is_integral_def if_False simp_thms)
    then show ?thesis by (metis div_mult_mod_eq add.right_neutral mult_zero_left)
  qed (use True in \<open>simp add: f64_abs_floor_def\<close>)
  then have "f64_is_zero b" by (simp add: f64_significand_def f64_is_zero_def split: if_splits)
  then have "b = f64_bits False 0 0"
    using f64_bits_of_fields [of b] not_zero by (simp add: f64_is_zero_def)
  then show ?thesis using True by (simp add: f64_of_int_def f64_truncated_def f64_bits_def)
next
  case False
  define k where "k = f64_exponent b - 1023"
  let ?a = "f64_abs_floor b"
  from False have pos: "0 < ?a" by simp
  note fields = integral_fields [OF integral small pos, folded k_def]
  have m: "f64_mantissa b < 2 ^ 52" by (simp add: f64_mantissa_def)
  have split: "(2 :: nat) ^ 52 = 2 ^ k * 2 ^ (52 - k)" "(2 :: nat) ^ 53 = 2 ^ Suc k * 2 ^ (52 - k)"
    using fields(2) by (simp_all only: power_add [symmetric]) simp_all
  have "2 ^ k * 2 ^ (52 - k) \<le> ?a * 2 ^ (52 - k)" "?a * 2 ^ (52 - k) < 2 ^ Suc k * 2 ^ (52 - k)"
    unfolding split [symmetric] fields(3) using m by simp_all
  then have "log2_floor ?a = k" by (intro log2_floor_unique) simp_all
  moreover have "(?a - 2 ^ k) * 2 ^ (52 - k) = f64_mantissa b"
    unfolding diff_mult_distrib split(1) [symmetric] fields(3) by simp
  moreover have "nat \<bar>f64_truncated b\<bar> = ?a" "f64_truncated b \<noteq> 0" "f64_truncated b < 0 \<longleftrightarrow> f64_negative b"
    using pos by (simp_all add: f64_truncated_def)
  ultimately have "f64_of_int (f64_truncated b) = f64_bits (f64_negative b) (1023 + k) (f64_mantissa b)"
    by (simp only: f64_of_int_def Let_def if_False)
  then show ?thesis using f64_bits_of_fields [of b] by (simp only: fields(1))
qed

section \<open>Order\<close>

lemma magnitude_fields: "unat b mod 2 ^ 63 = f64_exponent b * 2 ^ 52 + f64_mantissa b"
proof -
  have "unat b mod (2 ^ 52 * 2 ^ 11) = 2 ^ 52 * (unat b div 2 ^ 52 mod 2 ^ 11) + unat b mod 2 ^ 52"
    by (rule mod_mult2_eq)
  then show ?thesis by (simp add: f64_exponent_def f64_mantissa_def)
qed

text \<open>The absolute value, scaled by \<open>2 ^ 1075\<close>.\<close>

definition f64_scaled :: "f64 \<Rightarrow> nat" where
  "f64_scaled b = f64_significand b * 2 ^ f64_scale b"

lemma mantissa_bound: "f64_mantissa b < 2 ^ 52"
  by (simp add: f64_mantissa_def)

lemma scaled_less:
  assumes "unat a mod 2 ^ 63 < unat b mod 2 ^ 63"
  shows "f64_scaled a < f64_scaled b"
proof (cases "f64_exponent a = f64_exponent b")
  case True
  then have "f64_mantissa a < f64_mantissa b" using assms unfolding magnitude_fields by simp
  with True show ?thesis by (simp add: f64_scaled_def f64_significand_def f64_scale_def)
next
  case False
  have less: "f64_exponent a < f64_exponent b"
  proof (rule ccontr)
    assume "\<not> f64_exponent a < f64_exponent b"
    with False have "Suc (f64_exponent b) \<le> f64_exponent a" by simp
    then have "Suc (f64_exponent b) * 2 ^ 52 \<le> f64_exponent a * 2 ^ 52" by (rule mult_le_mono1)
    then show False using assms mantissa_bound [of b] unfolding magnitude_fields by simp
  qed
  have "f64_significand a < 2 ^ 53" "f64_exponent a = 0 \<Longrightarrow> f64_significand a < 2 ^ 52"
    using mantissa_bound [of a] by (simp_all add: f64_significand_def)
  have b: "2 ^ 52 * 2 ^ f64_exponent b \<le> f64_scaled b"
    using less by (simp add: f64_scaled_def f64_significand_def f64_scale_def)
  have "f64_scaled a < 2 ^ 52 * 2 ^ Suc (f64_exponent a)"
    using mantissa_bound [of a] by (simp add: f64_scaled_def f64_significand_def f64_scale_def)
  also have "\<dots> \<le> 2 ^ 52 * 2 ^ f64_exponent b"
    using less by (intro mult_le_mono2 power_increasing) simp_all
  finally show ?thesis using b by simp
qed

lemma scaled_less_iff: "f64_scaled a < f64_scaled b \<longleftrightarrow> unat a mod 2 ^ 63 < unat b mod 2 ^ 63"
proof
  assume less: "f64_scaled a < f64_scaled b"
  show "unat a mod 2 ^ 63 < unat b mod 2 ^ 63"
  proof (rule ccontr)
    assume "\<not> unat a mod 2 ^ 63 < unat b mod 2 ^ 63"
    then consider "unat b mod 2 ^ 63 < unat a mod 2 ^ 63" | "unat a mod 2 ^ 63 = unat b mod 2 ^ 63" by linarith
    then show False
    proof cases
      case 1
      from scaled_less [OF this] less show False by simp
    next
      case 2
      then have "f64_exponent a * 2 ^ 52 + f64_mantissa a = f64_exponent b * 2 ^ 52 + f64_mantissa b"
        by (simp only: magnitude_fields)
      then have "(f64_exponent a * 2 ^ 52 + f64_mantissa a) div 2 ^ 52 = (f64_exponent b * 2 ^ 52 + f64_mantissa b) div 2 ^ 52"
        and "(f64_exponent a * 2 ^ 52 + f64_mantissa a) mod 2 ^ 52 = (f64_exponent b * 2 ^ 52 + f64_mantissa b) mod 2 ^ 52"
        by (simp_all only:)
      then have "f64_exponent a = f64_exponent b" "f64_mantissa a = f64_mantissa b"
        using mantissa_bound [of a] mantissa_bound [of b] by simp_all
      then have "f64_scaled a = f64_scaled b" by (simp only: f64_scaled_def f64_significand_def f64_scale_def)
      with less show False by simp
    qed
  qed
qed (rule scaled_less)

lemma f64_real_scaled: "f64_real b = (if f64_negative b then - real (f64_scaled b) else real (f64_scaled b)) / 2 ^ 1075"
  by (simp add: f64_real_def f64_scaled_def)

lemma scaled_zero_iff: "f64_scaled b = 0 \<longleftrightarrow> unat b mod 2 ^ 63 = 0"
  unfolding magnitude_fields by (auto simp: f64_scaled_def f64_significand_def)

lemma f64_lt_real:
  assumes "f64_is_finite a" and "f64_is_finite b"
  shows "f64_lt a b \<longleftrightarrow> f64_real a < f64_real b"
proof -
  define p where "p = (2 :: real) ^ 1075"
  have p: "0 < p" by (simp add: p_def)
  have "f64_real a < f64_real b \<longleftrightarrow>
      (if f64_negative a then - int (f64_scaled a) else int (f64_scaled a))
        < (if f64_negative b then - int (f64_scaled b) else int (f64_scaled b))"
    unfolding f64_real_scaled p_def [symmetric] using p by (simp add: divide_less_cancel) linarith
  also have "\<dots> \<longleftrightarrow> f64_magnitude a < f64_magnitude b"
    using scaled_less_iff [of a b] scaled_less_iff [of b a] scaled_zero_iff [of a] scaled_zero_iff [of b]
    unfolding f64_magnitude_def by (auto simp del: of_nat_mod)
  finally show ?thesis using assms by (simp add: f64_lt_def f64_is_nan_def f64_is_finite_def)
qed

section \<open>Comparison with integers\<close>

lemma f64_real_sign: "f64_negative b \<Longrightarrow> f64_real b \<le> 0" "\<not> f64_negative b \<Longrightarrow> 0 \<le> f64_real b"
  by (simp_all add: f64_real_scaled)

lemma f64_truncated_real:
  "f64_truncated b = (if f64_negative b then \<lceil>f64_real b\<rceil> else \<lfloor>f64_real b\<rfloor>)"
  using f64_real_sign [of b] by (simp add: f64_truncated_def f64_abs_floor_real ceiling_def)

lemma f64_is_integral_truncated:
  assumes "f64_is_finite b"
  shows "f64_is_integral b \<longleftrightarrow> real_of_int (f64_truncated b) = f64_real b"
proof -
  have "real (f64_abs_floor b) = real_of_int \<bar>f64_truncated b\<bar>" by (simp add: f64_truncated_def)
  moreover have "real_of_int \<bar>f64_truncated b\<bar> = \<bar>f64_real b\<bar> \<longleftrightarrow> real_of_int (f64_truncated b) = f64_real b"
    using f64_real_sign [of b] by (auto simp: f64_truncated_def)
  ultimately show ?thesis using f64_is_integral_real [OF assms] by simp
qed

lemma below_floor:
  fixes r :: real
  shows "real_of_int n < r \<longleftrightarrow> n < \<lfloor>r\<rfloor> \<or> n = \<lfloor>r\<rfloor> \<and> real_of_int \<lfloor>r\<rfloor> \<noteq> r"
proof (cases n "\<lfloor>r\<rfloor>" rule: linorder_cases)
  case less
  then have "real_of_int n < real_of_int \<lfloor>r\<rfloor>" by simp
  with of_int_floor_le [of r] have "real_of_int n < r" by linarith
  with less show ?thesis by blast
next
  case equal
  with of_int_floor_le [of r] show ?thesis by (metis less_irrefl order.not_eq_order_implies_strict)
next
  case greater
  then have "r < real_of_int n" by (simp only: floor_less_iff)
  with greater show ?thesis by simp
qed

lemma above_floor: "r < real_of_int n \<longleftrightarrow> \<lfloor>r\<rfloor> < n"
  by (simp only: floor_less_iff)

lemma integer_compared:
  fixes n :: int
  shows integer_equal: "real_of_int (f64_truncated b) = f64_real b \<and> f64_truncated b = n \<longleftrightarrow> f64_real b = real_of_int n"
    and integer_less: "real_of_int n < f64_real b \<longleftrightarrow> n < f64_truncated b
      \<or> n = f64_truncated b \<and> real_of_int (f64_truncated b) \<noteq> f64_real b \<and> 0 < f64_real b"
    and integer_greater: "f64_real b < real_of_int n \<longleftrightarrow> f64_truncated b < n
      \<or> f64_truncated b = n \<and> real_of_int (f64_truncated b) \<noteq> f64_real b \<and> f64_real b < 0"
proof -
  show "real_of_int (f64_truncated b) = f64_real b \<and> f64_truncated b = n \<longleftrightarrow> f64_real b = real_of_int n"
    by (auto simp: f64_truncated_real)
  show "real_of_int n < f64_real b \<longleftrightarrow> n < f64_truncated b
      \<or> n = f64_truncated b \<and> real_of_int (f64_truncated b) \<noteq> f64_real b \<and> 0 < f64_real b"
  proof (cases "f64_negative b")
    case True
    then show ?thesis
      using f64_real_sign(1) [of b] by (simp add: f64_truncated_real less_ceiling_iff)
  next
    case False
    with f64_real_sign(2) [of b] below_floor [of n "f64_real b"] show ?thesis
      unfolding f64_truncated_real if_False by (metis less_eq_real_def floor_zero of_int_0)
  qed
  show "f64_real b < real_of_int n \<longleftrightarrow> f64_truncated b < n
      \<or> f64_truncated b = n \<and> real_of_int (f64_truncated b) \<noteq> f64_real b \<and> f64_real b < 0"
  proof (cases "f64_negative b")
    case True
    with f64_real_sign(1) [of b] below_floor [of "- n" "- f64_real b"] show ?thesis
      unfolding f64_truncated_real if_True ceiling_def
      by (cases "f64_real b = 0") (auto simp: minus_less_iff)
  next
    case False
    then show ?thesis using f64_real_sign(2) [of b] by (simp add: f64_truncated_real floor_less_iff)
  qed
qed

section \<open>Infinities\<close>

text \<open>The sign of an infinity and 0, or 0 and the number: ordered lexicographically.\<close>

definition f64_extended :: "f64 \<Rightarrow> int \<times> real" where
  "f64_extended b =
     (if f64_is_infinite b then (if f64_negative b then - 1 else 1, 0) else (0, f64_real b))"

definition extended_less :: "int \<times> real \<Rightarrow> int \<times> real \<Rightarrow> bool" where
  "extended_less a b \<longleftrightarrow> fst a < fst b \<or> fst a = fst b \<and> snd a < snd b"

lemma magnitude_infinite: "f64_is_infinite b \<Longrightarrow> unat b mod 2 ^ 63 = 2047 * 2 ^ 52"
  unfolding magnitude_fields by (simp add: f64_is_infinite_def)

lemma magnitude_finite: "f64_is_finite b \<Longrightarrow> unat b mod 2 ^ 63 < 2047 * 2 ^ 52"
proof -
  assume "f64_is_finite b"
  moreover have "f64_exponent b < 2 ^ 11" by (simp add: f64_exponent_def)
  ultimately have "f64_exponent b \<le> 2046" by (simp add: f64_is_finite_def)
  then have "f64_exponent b * 2 ^ 52 \<le> 2046 * 2 ^ 52" by (rule mult_le_mono1)
  with mantissa_bound [of b] show ?thesis unfolding magnitude_fields by simp
qed

lemma f64_lt_extended:
  assumes "\<not> f64_is_nan a" and "\<not> f64_is_nan b"
  shows "f64_lt a b \<longleftrightarrow> extended_less (f64_extended a) (f64_extended b)"
proof -
  have finite: "f64_is_infinite c \<or> f64_is_finite c" if "\<not> f64_is_nan c" for c
    using that by (auto simp: f64_is_nan_def f64_is_infinite_def f64_is_finite_def)
  have magnitudes: "f64_magnitude c = (if f64_negative c then - int (2047 * 2 ^ 52) else int (2047 * 2 ^ 52))"
    if "f64_is_infinite c" for c
    unfolding f64_magnitude_def magnitude_infinite [OF that] ..
  have bounds: "- int (2047 * 2 ^ 52) < f64_magnitude c \<and> f64_magnitude c < int (2047 * 2 ^ 52)"
    if "f64_is_finite c" for c
    using magnitude_finite [OF that] unfolding f64_magnitude_def by (simp del: of_nat_mod)
  consider "f64_is_infinite a" "f64_is_infinite b" | "f64_is_infinite a" "\<not> f64_is_infinite b" "f64_is_finite b"
    | "\<not> f64_is_infinite a" "f64_is_finite a" "f64_is_infinite b"
    | "\<not> f64_is_infinite a" "f64_is_finite a" "\<not> f64_is_infinite b" "f64_is_finite b"
    using finite [OF assms(1)] finite [OF assms(2)] by blast
  then show ?thesis
  proof cases
    case 4
    then show ?thesis by (simp add: f64_lt_real extended_less_def f64_extended_def)
  next
    case 2
    then show ?thesis
      using assms bounds [of b] magnitudes [of a] by (simp add: f64_lt_def extended_less_def f64_extended_def)
  next
    case 3
    then show ?thesis
      using assms bounds [of a] magnitudes [of b] by (simp add: f64_lt_def extended_less_def f64_extended_def)
  qed (use assms in \<open>simp add: f64_lt_def extended_less_def f64_extended_def magnitudes\<close>)
qed

lemma f64_infinite_values:
  "f64_is_infinite b \<longleftrightarrow> b = 0x7FF0000000000000 \<or> b = 0xFFF0000000000000"
  "f64_negative 0xFFF0000000000000" "\<not> f64_negative 0x7FF0000000000000"
proof -
  have bits: "f64_bits False 2047 0 = 0x7FF0000000000000" "f64_bits True 2047 0 = 0xFFF0000000000000"
    by (simp_all add: f64_bits_def)
  have "b = f64_bits (f64_negative b) 2047 0" if "f64_is_infinite b"
    using f64_bits_of_fields [of b] that by (simp add: f64_is_infinite_def)
  moreover have "f64_is_infinite (f64_bits s 2047 0)" for s by (simp add: f64_is_infinite_def f64_bits_fields)
  ultimately show "f64_is_infinite b \<longleftrightarrow> b = 0x7FF0000000000000 \<or> b = 0xFFF0000000000000"
    by (cases "f64_negative b") (auto simp: bits [symmetric])
  show "f64_negative 0xFFF0000000000000" "\<not> f64_negative 0x7FF0000000000000" by (simp_all add: f64_negative_def)
qed

end
