(* ===== verification/Value.thy ===== *)
theory Value
  imports Float64
begin

text \<open>
  \<open>runtime/value.rs\<close>: JavaScript values in 64 bits, by NaN boxing.  Doubles are stored negated, small
  integers, booleans, \<open>undefined\<close>, \<open>null\<close> and the empty value in the negated patterns of other NaNs, and
  pointers directly.  A pointer is its address.
\<close>

type_synonym value_bits = "64 word"

section \<open>Tags\<close>

definition TAG_SHIFT :: nat where "TAG_SHIFT = 48"

definition NAN_TAG :: u16 where "NAN_TAG = 0x7FF8"
definition POINTER_TAG :: u16 where "POINTER_TAG = 0"
definition UNDEFINED_TAG :: u16 where "UNDEFINED_TAG = NOT (1 OR NAN_TAG)"
definition NULL_TAG :: u16 where "NULL_TAG = NOT (3 OR NAN_TAG)"
definition EMPTY_TAG :: u16 where "EMPTY_TAG = NOT (2 OR NAN_TAG)"
definition BOOL_TAG :: u16 where "BOOL_TAG = NOT (4 OR NAN_TAG)"
definition SMI_TAG :: u16 where "SMI_TAG = NOT (6 OR NAN_TAG)"
definition NULLISH_TAG_MASK :: u16 where "NULLISH_TAG_MASK = 0xFFFD"

definition with_tag :: "u16 \<Rightarrow> value_bits" where
  "with_tag tag = push_bit TAG_SHIFT (ucast tag)"

definition get_tag :: "value_bits \<Rightarrow> u16" where
  "get_tag v = ucast (drop_bit TAG_SHIFT v)"

definition has_tag :: "value_bits \<Rightarrow> u16 \<Rightarrow> bool" where
  "has_tag v tag \<longleftrightarrow> get_tag v = tag"

section \<open>Constructors\<close>

definition CANONICAL_NAN :: value_bits where
  "CANONICAL_NAN = NOT (with_tag NAN_TAG)"

definition value_double :: "f64 \<Rightarrow> value_bits" where
  "value_double b = NOT b"

definition value_undefined :: value_bits where
  "value_undefined = with_tag UNDEFINED_TAG"

definition value_null :: value_bits where
  "value_null = with_tag NULL_TAG"

definition value_empty :: value_bits where
  "value_empty = with_tag EMPTY_TAG"

definition value_bool :: "bool \<Rightarrow> value_bits" where
  "value_bool b = with_tag BOOL_TAG OR (if b then 1 else 0)"

definition value_smi :: "u32 \<Rightarrow> value_bits" where
  "value_smi i = with_tag SMI_TAG OR ucast i"

definition value_nan :: value_bits where
  "value_nan = CANONICAL_NAN"

definition heap_item :: "u64 \<Rightarrow> value_bits" where
  "heap_item address = address"

definition DOUBLE_POSITIVE_ZERO :: value_bits where
  "DOUBLE_POSITIVE_ZERO = value_double 0"

definition F64_NEGATIVE_ZERO :: f64 where
  "F64_NEGATIVE_ZERO = 0x8000000000000000"

definition DOUBLE_NEGATIVE_ZERO :: value_bits where
  "DOUBLE_NEGATIVE_ZERO = value_double F64_NEGATIVE_ZERO"

definition POSITIVE_INFINITY :: value_bits where
  "POSITIVE_INFINITY = value_double 0x7FF0000000000000"

definition SMI_MIN :: int where "SMI_MIN = - (2 ^ 31)"
definition SMI_MAX :: int where "SMI_MAX = 2 ^ 31 - 1"
definition SMI_ZERO :: value_bits where "SMI_ZERO = value_smi 0"

text \<open>
  A number that equals its truncation is an integer or infinite, and infinite ones are out of range.
\<close>

definition value_number :: "f64 \<Rightarrow> value_bits" where
  "value_number b =
     (if f64_is_integral b \<and> SMI_MIN \<le> f64_truncated b \<and> f64_truncated b \<le> SMI_MAX
         \<and> b \<noteq> F64_NEGATIVE_ZERO
      then value_smi (word_of_int (f64_truncated b))
      else if f64_is_nan b then value_nan
      else value_double b)"

section \<open>Type checks\<close>

definition is_pointer :: "value_bits \<Rightarrow> bool" where "is_pointer v = has_tag v POINTER_TAG"
definition is_undefined :: "value_bits \<Rightarrow> bool" where "is_undefined v = has_tag v UNDEFINED_TAG"
definition is_null :: "value_bits \<Rightarrow> bool" where "is_null v = has_tag v NULL_TAG"
definition is_empty :: "value_bits \<Rightarrow> bool" where "is_empty v = has_tag v EMPTY_TAG"
definition is_bool :: "value_bits \<Rightarrow> bool" where "is_bool v = has_tag v BOOL_TAG"
definition is_smi :: "value_bits \<Rightarrow> bool" where "is_smi v = has_tag v SMI_TAG"

definition is_nullish :: "value_bits \<Rightarrow> bool" where
  "is_nullish v \<longleftrightarrow> get_tag v AND NULLISH_TAG_MASK = NULL_TAG"

definition is_nan :: "value_bits \<Rightarrow> bool" where
  "is_nan v \<longleftrightarrow> v = CANONICAL_NAN"

definition is_double :: "value_bits \<Rightarrow> bool" where
  "is_double v \<longleftrightarrow> NOT v AND NOT CANONICAL_NAN \<noteq> NOT CANONICAL_NAN \<or> is_nan v"

definition is_number :: "value_bits \<Rightarrow> bool" where
  "is_number v \<longleftrightarrow> is_smi v \<or> is_double v"

definition is_infinity :: "value_bits \<Rightarrow> bool" where
  "is_infinity v \<longleftrightarrow> v OR 0x8000000000000000 = POSITIVE_INFINITY"

definition is_positive_zero :: "value_bits \<Rightarrow> bool" where
  "is_positive_zero v \<longleftrightarrow> v = DOUBLE_POSITIVE_ZERO \<or> is_smi v \<and> v = SMI_ZERO"

definition is_negative_zero :: "value_bits \<Rightarrow> bool" where
  "is_negative_zero v \<longleftrightarrow> v = DOUBLE_NEGATIVE_ZERO"

definition is_zero :: "value_bits \<Rightarrow> bool" where
  "is_zero v \<longleftrightarrow> v OR 0x8000000000000000 = DOUBLE_POSITIVE_ZERO"

definition is_true :: "value_bits \<Rightarrow> bool" where "is_true v \<longleftrightarrow> v = value_bool True"
definition is_false :: "value_bits \<Rightarrow> bool" where "is_false v \<longleftrightarrow> v = value_bool False"

section \<open>Casts\<close>

definition as_double :: "value_bits \<Rightarrow> f64" where
  "as_double v = NOT v"

definition as_bool :: "value_bits \<Rightarrow> bool" where
  "as_bool v \<longleftrightarrow> v AND 1 \<noteq> 0"

definition as_smi :: "value_bits \<Rightarrow> u32" where
  "as_smi v = ucast v"

definition as_number :: "value_bits \<Rightarrow> f64" where
  "as_number v = (if is_smi v then f64_of_int (sint (as_smi v)) else as_double v)"

text \<open>Conversions from integers.\<close>

definition value_of_u32 :: "u32 \<Rightarrow> value_bits" where
  "value_of_u32 n =
     (if int (unat n) > SMI_MAX then value_double (f64_of_int (int (unat n))) else value_smi n)"

section \<open>Which value it is\<close>

datatype js_value =
    JsUndefined | JsNull | JsEmpty | JsBool bool | JsSmi u32 | JsDouble f64 | JsPointer u64

fun encode_value :: "js_value \<Rightarrow> value_bits" where
  "encode_value JsUndefined = value_undefined"
| "encode_value JsNull = value_null"
| "encode_value JsEmpty = value_empty"
| "encode_value (JsBool b) = value_bool b"
| "encode_value (JsSmi i) = value_smi i"
| "encode_value (JsDouble b) = value_double b"
| "encode_value (JsPointer a) = heap_item a"

text \<open>Canonical doubles and addresses of 48 bits.\<close>

fun well_formed_value :: "js_value \<Rightarrow> bool" where
  "well_formed_value (JsDouble b) \<longleftrightarrow> f64_is_nan b \<longrightarrow> b = NOT CANONICAL_NAN"
| "well_formed_value (JsPointer a) \<longleftrightarrow> unat a < 2 ^ 48"
| "well_formed_value _ \<longleftrightarrow> True"

text \<open>All type checks on a value, with the cast of its type.\<close>

definition type_checks :: "value_bits \<Rightarrow> js_value list" where
  "type_checks v =
     (if is_undefined v then [JsUndefined] else []) @ (if is_null v then [JsNull] else [])
     @ (if is_empty v then [JsEmpty] else []) @ (if is_bool v then [JsBool (as_bool v)] else [])
     @ (if is_smi v then [JsSmi (as_smi v)] else []) @ (if is_double v then [JsDouble (as_double v)] else [])
     @ (if is_pointer v then [JsPointer v] else [])"

lemma tag_values:
  "UNDEFINED_TAG = 0x8006" "NULL_TAG = 0x8004" "EMPTY_TAG = 0x8005" "BOOL_TAG = 0x8003" "SMI_TAG = 0x8001"
  by (simp_all add: UNDEFINED_TAG_def NULL_TAG_def EMPTY_TAG_def BOOL_TAG_def SMI_TAG_def NAN_TAG_def)

end
