(* ===== verification/Value_Correct.thy ===== *)
theory Value_Correct
  imports Value
begin

text \<open>
  The encoding of values: every value passes exactly the check of its own type, and numbers keep their
  value whether they are stored as small integers or as doubles.
\<close>

section \<open>Tags\<close>

lemma bit_with_tag [simp]: "bit (with_tag t) n \<longleftrightarrow> 48 \<le> n \<and> n < 64 \<and> bit t (n - 48)"
  by (auto simp: with_tag_def TAG_SHIFT_def bit_simps)

lemma bit_get_tag [simp]: "bit (get_tag v) n \<longleftrightarrow> n < 16 \<and> bit v (48 + n)"
  by (auto simp: get_tag_def TAG_SHIFT_def bit_simps)

lemma get_tag_with [simp]:
  "get_tag (with_tag t) = t"
  "get_tag (with_tag t OR ucast (i :: u32)) = t"
  "get_tag (with_tag t OR 1) = t"
  "get_tag (NOT v) = NOT (get_tag v)"
  by (rule bit_word_eqI; auto simp: bit_simps dest: bit_imp_le_length)+

lemma even_with_tag [simp]: "even (with_tag t)"
  using bit_with_tag [of t 0] by (simp add: bit_0)

lemma and_with_tag: "v AND with_tag t = with_tag (get_tag v AND t)"
  by (rule bit_word_eqI) (auto simp: bit_simps)

lemma with_tag_inject [simp]: "with_tag s = with_tag t \<longleftrightarrow> s = t"
  by (metis get_tag_with(1))

lemma not_and_eq: "NOT t AND n = n \<longleftrightarrow> t AND n = 0" for t n :: u16
proof -
  have split: "n = (t AND n) OR (NOT t AND n)" "(t AND n) AND (NOT t AND n) = 0"
    by (simp_all add: bit_eq_iff bit_simps, blast+)
  show ?thesis
  proof
    assume "NOT t AND n = n"
    with split(2) show "t AND n = 0" by (simp add: and.assoc)
  next
    assume "t AND n = 0"
    with split(1) show "NOT t AND n = n" by simp
  qed
qed

lemma is_double_tag: "is_double v \<longleftrightarrow> get_tag v AND NAN_TAG \<noteq> 0 \<or> is_nan v"
  by (simp add: is_double_def CANONICAL_NAN_def and_with_tag not_and_eq)

lemma nan_tag: "get_tag CANONICAL_NAN = 0x8007"
  by (simp add: CANONICAL_NAN_def NAN_TAG_def)

lemma even_quotient: "u mod (2 * A) = 0 \<Longrightarrow> 0 < A \<Longrightarrow> even (u div A)" for u A :: nat
proof -
  assume "u mod (2 * A) = 0" "0 < A"
  then obtain k where "u = 2 * A * k" by (metis mod_0_imp_dvd dvdE)
  with \<open>0 < A\<close> show ?thesis by (simp add: mult.assoc mult.left_commute)
qed

lemma quiet_tag:
  assumes "get_tag b AND NAN_TAG = NAN_TAG"
  shows "unat b div 2 ^ 48 mod 2 ^ 16 div 2 ^ 3 mod 2 ^ 12 = 4095"
proof -
  have "drop_bit 3 (get_tag b) AND 0xFFF = 0xFFF"
    using arg_cong [OF assms, of "drop_bit 3"] by (simp add: NAN_TAG_def)
  moreover have "mask 12 = (0xFFF :: u16)" by (simp add: mask_eq_exp_minus_1)
  ultimately have "unat (drop_bit 3 (get_tag b) AND mask 12) = 4095" by (simp only:) simp
  then show ?thesis
    by (simp only: unat_and_mask unat_drop_bit get_tag_def TAG_SHIFT_def unat_ucast_mod) simp
qed

lemma shifted_twice: "u < 2 ^ 48 * 2 ^ 16 \<Longrightarrow> u div 2 ^ 48 mod 2 ^ 16 div 2 ^ 3 = u div 2 ^ 51" for u :: nat
proof -
  assume "u < 2 ^ 48 * 2 ^ 16"
  then have "u div 2 ^ 48 < 2 ^ 16" by (simp only: less_mult_imp_div_less mult.commute)
  then have "u div 2 ^ 48 mod 2 ^ 16 div 2 ^ 3 = u div (2 ^ 48 * 2 ^ 3)"
    by (simp only: mod_less div_mult2_eq)
  then show ?thesis by (simp only: power_add [symmetric]) simp
qed

lemma all_ones: "q mod 4096 = 4095 \<Longrightarrow> q div 2 mod 2048 = 2047 \<and> odd q" for q :: nat
proof -
  assume "q mod 4096 = 4095"
  then have "2 * (q div 2 mod 2048) + q mod 2 = 4095" using mod_mult2_eq [of q 2 2048] by simp
  moreover have "q mod 2 < 2" by simp
  moreover have "x = 2047 \<and> y = 1" if "2 * x + y = 4095" "y < 2" for x y :: nat
    using that by arith
  ultimately have "q div 2 mod 2048 = 2047 \<and> q mod 2 = 1" by blast
  then show ?thesis by (simp add: odd_iff_mod_2_eq_one)
qed

lemma quiet_bits:
  assumes "get_tag b AND NAN_TAG = NAN_TAG"
  shows "f64_is_nan b"
proof -
  define u where "u = unat b"
  have "u < 2 ^ 48 * 2 ^ 16" using unsigned_less [of b, where ?'a = nat] by (simp add: u_def)
  then have "u div 2 ^ 51 mod 4096 = 4095"
    using quiet_tag [OF assms] shifted_twice [of u] by (simp add: u_def)
  note ones = all_ones [OF this]
  have "f64_exponent b = 2047"
    using ones by (simp add: f64_exponent_def u_def [symmetric] div_mult2_eq [symmetric])
  moreover have "f64_mantissa b \<noteq> 0"
    using ones even_quotient [of u "2 ^ 51"] by (auto simp: f64_mantissa_def u_def [symmetric])
  ultimately show ?thesis by (simp add: f64_is_nan_def)
qed

section \<open>Type checks\<close>

lemmas check_defs = is_undefined_def is_null_def is_empty_def is_bool_def is_smi_def is_pointer_def has_tag_def
  tag_values POINTER_TAG_def

lemma checks_of_tag:
  assumes "get_tag v \<noteq> 0x8007" and "get_tag v AND NAN_TAG = 0"
  shows "type_checks v =
    (if get_tag v = 0x8006 then [JsUndefined] else []) @ (if get_tag v = 0x8004 then [JsNull] else [])
    @ (if get_tag v = 0x8005 then [JsEmpty] else []) @ (if get_tag v = 0x8003 then [JsBool (as_bool v)] else [])
    @ (if get_tag v = 0x8001 then [JsSmi (as_smi v)] else []) @ (if get_tag v = 0 then [JsPointer v] else [])"
proof -
  have "\<not> is_double v" using assms nan_tag by (auto simp: is_double_tag is_nan_def)
  then show ?thesis by (simp add: type_checks_def check_defs)
qed

lemma checks_of_double:
  assumes "is_double v"
  shows "type_checks v = [JsDouble (as_double v)]"
proof -
  have "get_tag v \<notin> {0x8006, 0x8004, 0x8005, 0x8003, 0x8001, 0}"
    using assms nan_tag by (auto simp: is_double_tag is_nan_def NAN_TAG_def)
  then show ?thesis using assms by (simp add: type_checks_def check_defs)
qed

lemma as_bool_odd: "as_bool v \<longleftrightarrow> odd v"
  by (simp add: as_bool_def and_one_eq mod2_eq_if)

lemma double_is_double: "f64_is_nan b \<longrightarrow> b = NOT CANONICAL_NAN \<Longrightarrow> is_double (value_double b)"
  using quiet_bits [of b] by (auto simp: is_double_tag value_double_def is_nan_def not_and_eq [symmetric])

lemma encoded_checks:
  assumes "well_formed_value v"
  shows "type_checks (encode_value v) = [v]"
proof (cases v)
  case (JsDouble b)
  then show ?thesis
    using assms checks_of_double [OF double_is_double] by (simp add: as_double_def value_double_def)
next
  case (JsPointer a)
  have "get_tag a = 0"
    using assms JsPointer unat_drop_bit [of 48 a] unat_ucast_mod [of "drop_bit 48 a", where ?'b = 16]
    by (simp add: get_tag_def TAG_SHIFT_def unat_eq_zero [symmetric])
  then show ?thesis by (simp add: JsPointer heap_item_def checks_of_tag)
next
  case (JsBool b)
  then show ?thesis
    by (cases b) (simp_all add: value_bool_def checks_of_tag tag_values as_bool_odd NAN_TAG_def even_or_iff)
next
  case (JsSmi i)
  have "ucast (with_tag SMI_TAG OR ucast i) = i"
    by (rule bit_word_eqI) (auto simp: bit_simps)
  then show ?thesis
    by (simp add: JsSmi value_smi_def checks_of_tag tag_values as_smi_def NAN_TAG_def)
qed (simp_all add: value_undefined_def value_null_def value_empty_def checks_of_tag tag_values NAN_TAG_def)

section \<open>Numbers\<close>

lemma f64_is_zero_iff: "f64_is_zero b \<longleftrightarrow> b = 0 \<or> b = F64_NEGATIVE_ZERO"
proof -
  have "f64_bits False 0 0 = 0" "f64_bits True 0 0 = F64_NEGATIVE_ZERO"
    by (simp_all add: f64_bits_def F64_NEGATIVE_ZERO_def)
  moreover have "f64_is_zero (f64_bits s 0 0)" for s by (simp add: f64_is_zero_def f64_bits_fields)
  ultimately show ?thesis
    using f64_bits_of_fields [of b] by (cases "f64_negative b") (auto simp: f64_is_zero_def, metis+)
qed

lemma negative_zero: "b \<noteq> F64_NEGATIVE_ZERO \<Longrightarrow> \<not> (f64_negative b \<and> f64_is_zero b)"
proof -
  have "\<not> f64_negative 0" by (simp add: f64_negative_def)
  then show "b \<noteq> F64_NEGATIVE_ZERO \<Longrightarrow> \<not> (f64_negative b \<and> f64_is_zero b)"
    by (auto simp: f64_is_zero_iff)
qed

lemma smi_value:
  "is_smi (value_smi i)" "as_smi (value_smi i) = i" "\<not> is_double (value_smi i)"
proof -
  have "type_checks (value_smi i) = [JsSmi i]" using encoded_checks [of "JsSmi i"] by simp
  then show "is_smi (value_smi i)" "as_smi (value_smi i) = i" "\<not> is_double (value_smi i)"
    by (auto simp: type_checks_def split: if_splits)
qed

lemma double_not_smi: "is_double v \<Longrightarrow> \<not> is_smi v"
  using checks_of_double [of v] by (auto simp: type_checks_def split: if_splits)

lemma as_number_smi: "as_number (value_smi i) = f64_of_int (sint i)"
  by (simp add: as_number_def smi_value)

lemma as_number_double: "is_double v \<Longrightarrow> as_number v = NOT v"
  by (simp add: as_number_def double_not_smi as_double_def)

lemma sint_smi:
  assumes "SMI_MIN \<le> n" and "n \<le> SMI_MAX"
  shows "sint (word_of_int n :: u32) = n"
  using assms by (simp add: signed_of_int SMI_MIN_def SMI_MAX_def signed_take_bit_int_eq_self)

text \<open>The cases of a number.\<close>

lemma value_number_cases:
  obtains (smi) i where "value_number b = value_smi i" and "f64_of_int (sint i) = b" and "\<not> f64_is_nan b"
    | (nan) "value_number b = CANONICAL_NAN" and "f64_is_nan b"
    | (double) "value_number b = value_double b" and "\<not> f64_is_nan b"
        and "\<not> (f64_is_integral b \<and> SMI_MIN \<le> f64_truncated b \<and> f64_truncated b \<le> SMI_MAX \<and> b \<noteq> F64_NEGATIVE_ZERO)"
proof (cases "f64_is_integral b \<and> SMI_MIN \<le> f64_truncated b \<and> f64_truncated b \<le> SMI_MAX \<and> b \<noteq> F64_NEGATIVE_ZERO")
  case True
  then have "f64_abs_floor b < 2 ^ 53"
    by (auto simp: f64_truncated_def SMI_MIN_def SMI_MAX_def split: if_splits)
  then have "f64_of_int (f64_truncated b) = b"
    using True by (intro f64_of_truncated) (simp_all add: negative_zero)
  moreover have "\<not> f64_is_nan b"
    using True by (auto simp: f64_is_integral_def f64_is_finite_def f64_is_nan_def)
  ultimately show thesis
    using True smi [of "word_of_int (f64_truncated b)"] by (simp add: value_number_def sint_smi)
next
  case False
  then show thesis
    using nan double by (cases "f64_is_nan b") (auto simp: value_number_def value_nan_def)
qed

lemma as_number_value_number:
  "as_number (value_number b) = (if f64_is_nan b then NOT CANONICAL_NAN else b)"
proof (cases b rule: value_number_cases)
  case (smi i)
  then show ?thesis by (simp add: as_number_smi)
next
  case nan
  then have "is_double (value_number b)" by (simp add: is_double_def is_nan_def)
  then show ?thesis using nan by (simp add: as_number_double)
next
  case double
  then have "is_double (value_number b)" by (simp add: double_is_double)
  then show ?thesis using double by (simp add: as_number_double value_double_def)
qed

text \<open>An integer of up to 53 bits is the truncation of its conversion.\<close>

lemma f64_of_int_truncated:
  assumes "\<bar>n\<bar> < 2 ^ 53"
  shows "f64_truncated (f64_of_int n) = n" and "f64_is_finite (f64_of_int n)"
proof -
  have "f64_truncated (f64_of_int n) = n \<and> f64_is_finite (f64_of_int n)"
  proof (cases "n = 0")
    case True
    then show ?thesis
      by (simp add: f64_of_int_def f64_truncated_def f64_abs_floor_def f64_scale_def f64_significand_def
          f64_exponent_def f64_mantissa_def f64_is_finite_def)
  next
    case False
    define a k where "a = nat \<bar>n\<bar>" and "k = log2_floor a"
    have a: "0 < a" "a < 2 ^ 53" using False assms by (simp_all add: a_def nat_less_iff)
    note bounds = log2_floor_bounds [OF a(1), folded k_def]
    have k: "k \<le> 52"
    proof (rule ccontr)
      assume "\<not> k \<le> 52"
      then have "(2 :: nat) ^ 53 \<le> 2 ^ k" by (intro power_increasing) simp_all
      with bounds a(2) show False by linarith
    qed
    have split: "(2 :: nat) ^ 52 = 2 ^ k * 2 ^ (52 - k)" using k by (simp only: power_add [symmetric]) simp
    have m: "(a - 2 ^ k) * 2 ^ (52 - k) < 2 ^ 52"
    proof -
      have "a - 2 ^ k < 2 ^ k" using bounds by (simp add: less_diff_conv2)
      then show ?thesis unfolding split by simp
    qed
    let ?b = "f64_bits (n < 0) (1023 + k) ((a - 2 ^ k) * 2 ^ (52 - k))"
    have b: "f64_of_int n = ?b" using False by (simp only: f64_of_int_def Let_def a_def k_def if_False)
    have "1023 + k < 2 ^ 11" using k by simp
    note fields = f64_bits_fields [OF this m, of "n < 0"]
    have sig: "f64_significand ?b = a * 2 ^ (52 - k)" "f64_scale ?b = 1023 + k"
      using bounds unfolding f64_significand_def f64_scale_def fields split
      by (simp_all add: diff_mult_distrib)
    have "f64_abs_floor ?b = a"
      using k unfolding f64_abs_floor_def sig by (cases "k = 52") simp_all
    then have "f64_truncated ?b = (if n < 0 then - int a else int a)"
      by (simp only: f64_truncated_def fields(1))
    then have "f64_truncated ?b = n" by (simp add: a_def)
    moreover have "f64_is_finite ?b" using k by (simp only: f64_is_finite_def fields(2))
    ultimately show ?thesis by (simp only: b)
  qed
  then show "f64_truncated (f64_of_int n) = n" "f64_is_finite (f64_of_int n)" by blast+
qed

end
