(* ===== verification/Number_Conversion.thy ===== *)
theory Number_Conversion
  imports Value
begin

text \<open>
  \<open>runtime/type_utilities.rs\<close>: primitive values, truth values, the conversions to numbers and to
  integers of fixed width, and the equalities without conversions.

  Converting an object calls its methods, that is, runs a script: the operations pass an explicit state
  \<open>'s\<close> along, on which the parameters of the record \<open>environment\<close> act: getting a property, calling a
  function.  Strings, big integers and symbols do not change, so \<open>contents\<close>, what is behind a pointer, is
  not part of the state.  A string is its code units; how it is read as a number or as a big integer is a
  parameter.  An error is a thrown value, or a panic.
\<close>

section \<open>Heap items and effects\<close>

datatype heap_item_kind = StringItem "u16 list" | BigIntItem int | SymbolItem | ObjectItem

datatype 'e failure = Throw 'e | Panic

datatype preferred_type = PreferNone | PreferString | PreferNumber

datatype method_name = ToStringMethod | ValueOfMethod

type_synonym ('s, 'e, 'a) effect = "'s \<Rightarrow> ('e failure + 'a) \<times> 's"

record ('s, 'e) environment =
  contents :: "u64 \<Rightarrow> heap_item_kind"
  get_to_primitive_method :: "u64 \<Rightarrow> ('s, 'e, value_bits option) effect"
  get_named :: "u64 \<Rightarrow> method_name \<Rightarrow> ('s, 'e, value_bits) effect"
  callable :: "value_bits \<Rightarrow> bool"
  call_object :: "value_bits \<Rightarrow> value_bits \<Rightarrow> value_bits list \<Rightarrow> ('s, 'e, value_bits) effect"
  hint_string :: "preferred_type \<Rightarrow> value_bits"
  type_error :: 'e
  range_error :: 'e
  new_bigint :: "int \<Rightarrow> value_bits"
  parse_string_to_number :: "u16 list \<Rightarrow> f64 option"
  parse_string_to_bigint :: "u16 list \<Rightarrow> int option"

definition is_object :: "('s, 'e) environment \<Rightarrow> value_bits \<Rightarrow> bool" where
  "is_object env v \<longleftrightarrow> is_pointer v \<and> contents env v = ObjectItem"

definition is_bigint :: "('s, 'e) environment \<Rightarrow> value_bits \<Rightarrow> bool" where
  "is_bigint env v \<longleftrightarrow> is_pointer v \<and> (case contents env v of BigIntItem _ \<Rightarrow> True | _ \<Rightarrow> False)"

definition is_string :: "('s, 'e) environment \<Rightarrow> value_bits \<Rightarrow> bool" where
  "is_string env v \<longleftrightarrow> is_pointer v \<and> (case contents env v of StringItem _ \<Rightarrow> True | _ \<Rightarrow> False)"

definition is_symbol :: "('s, 'e) environment \<Rightarrow> value_bits \<Rightarrow> bool" where
  "is_symbol env v \<longleftrightarrow> is_pointer v \<and> contents env v = SymbolItem"

definition as_bigint :: "('s, 'e) environment \<Rightarrow> value_bits \<Rightarrow> int" where
  "as_bigint env v = (case contents env v of BigIntItem n \<Rightarrow> n | _ \<Rightarrow> 0)"

definition as_string :: "('s, 'e) environment \<Rightarrow> value_bits \<Rightarrow> u16 list" where
  "as_string env v = (case contents env v of StringItem units \<Rightarrow> units | _ \<Rightarrow> [])"

section \<open>Primitive values\<close>

text \<open>The methods are tried in turn; the next one is tried when one is not callable or returns an object.\<close>

fun call_methods ::
    "('s, 'e) environment \<Rightarrow> value_bits \<Rightarrow> method_name list \<Rightarrow> ('s, 'e, value_bits) effect" where
  "call_methods env object [] s = (Inl (Throw (type_error env)), s)"
| "call_methods env object (name # names) s =
     (case get_named env object name s of
        (Inl e, s) \<Rightarrow> (Inl e, s)
      | (Inr method, s) \<Rightarrow>
          if callable env method then
            (case call_object env method object [] s of
               (Inl e, s) \<Rightarrow> (Inl e, s)
             | (Inr result, s) \<Rightarrow>
                 if \<not> is_object env result then (Inr result, s) else call_methods env object names s)
          else call_methods env object names s)"

definition ordinary_to_primitive ::
    "('s, 'e) environment \<Rightarrow> value_bits \<Rightarrow> preferred_type \<Rightarrow> ('s, 'e, value_bits) effect" where
  "ordinary_to_primitive env object preferred =
     call_methods env object
       (if preferred = PreferString then [ToStringMethod, ValueOfMethod] else [ValueOfMethod, ToStringMethod])"

definition to_primitive ::
    "('s, 'e) environment \<Rightarrow> value_bits \<Rightarrow> preferred_type \<Rightarrow> ('s, 'e, value_bits) effect" where
  "to_primitive env v preferred s =
     (if \<not> is_object env v then (Inr v, s)
      else (case get_to_primitive_method env v s of
        (Inl e, s) \<Rightarrow> (Inl e, s)
      | (Inr (Some exotic_prim), s) \<Rightarrow>
          (case call_object env exotic_prim v [hint_string env preferred] s of
             (Inl e, s) \<Rightarrow> (Inl e, s)
           | (Inr result, s) \<Rightarrow>
               if is_object env result then (Inl (Throw (type_error env)), s) else (Inr result, s))
      | (Inr None, s) \<Rightarrow>
          ordinary_to_primitive env v (if preferred = PreferNone then PreferNumber else preferred) s))"

definition to_boolean :: "('s, 'e) environment \<Rightarrow> value_bits \<Rightarrow> bool" where
  "to_boolean env v =
     (let tag = get_tag v in
      if tag = BOOL_TAG then as_bool v
      else if is_pointer v then
        (case contents env v of
           StringItem units \<Rightarrow> units \<noteq> []
         | BigIntItem n \<Rightarrow> n \<noteq> 0
         | _ \<Rightarrow> True)
      else if tag = NULL_TAG then False
      else if tag = UNDEFINED_TAG then False
      else if tag = SMI_TAG then as_smi v \<noteq> 0
      else \<not> f64_is_zero (as_double v) \<and> \<not> is_nan v)"

lemma call_methods_primitive:
  "call_methods env object names s = (Inr v, s') \<Longrightarrow> \<not> is_object env v"
  by (induction names arbitrary: s) (auto split: prod.splits sum.splits if_splits)

lemma to_primitive_primitive: "to_primitive env v preferred s = (Inr p, s') \<Longrightarrow> \<not> is_object env p"
  by (auto simp: to_primitive_def ordinary_to_primitive_def call_methods_primitive
      split: prod.splits sum.splits if_splits option.splits)

section \<open>Numbers\<close>

definition string_to_number :: "('s, 'e) environment \<Rightarrow> u16 list \<Rightarrow> value_bits" where
  "string_to_number env units =
     (case parse_string_to_number env units of None \<Rightarrow> value_nan | Some num \<Rightarrow> value_number num)"

definition string_to_bigint :: "('s, 'e) environment \<Rightarrow> u16 list \<Rightarrow> int option" where
  "string_to_bigint env units = parse_string_to_bigint env units"

function to_number :: "('s, 'e) environment \<Rightarrow> value_bits \<Rightarrow> ('s, 'e, value_bits) effect" where
  "to_number env v s =
     (if is_number v then (Inr v, s)
      else if is_pointer v then
        (if is_object env v then
           (case to_primitive env v PreferNumber s of
              (Inl e, s) \<Rightarrow> (Inl e, s)
            | (Inr primitive, s) \<Rightarrow> to_number env primitive s)
         else
           (case contents env v of
              StringItem units \<Rightarrow> (Inr (string_to_number env units), s)
            | SymbolItem \<Rightarrow> (Inl (Throw (type_error env)), s)
            | BigIntItem _ \<Rightarrow> (Inl (Throw (type_error env)), s)
            | _ \<Rightarrow> (Inl Panic, s)))
      else if get_tag v = NULL_TAG then (Inr (value_smi 0), s)
      else if get_tag v = UNDEFINED_TAG then (Inr value_nan, s)
      else if get_tag v = BOOL_TAG then (Inr (if as_bool v then value_smi 1 else value_smi 0), s)
      else (Inl Panic, s))"
  by pat_completeness auto

termination
  by (relation "measure (\<lambda>(env, v, s). if is_object env v then 1 else 0)")
    (auto dest: to_primitive_primitive [OF sym])

declare to_number.simps [simp del]

definition to_numeric :: "('s, 'e) environment \<Rightarrow> value_bits \<Rightarrow> ('s, 'e, value_bits) effect" where
  "to_numeric env v s =
     (case to_primitive env v PreferNumber s of
        (Inl e, s) \<Rightarrow> (Inl e, s)
      | (Inr prim_value, s) \<Rightarrow>
          if is_bigint env prim_value then (Inr prim_value, s) else to_number env prim_value s)"

text \<open>A conversion of the number \<open>to_number\<close> gives.\<close>

definition of_number :: "('s, 'e) environment \<Rightarrow> (f64 \<Rightarrow> 'a) \<Rightarrow> value_bits \<Rightarrow> ('s, 'e, 'a) effect" where
  "of_number env f v s =
     (case to_number env v s of
        (Inl e, s) \<Rightarrow> (Inl e, s)
      | (Inr number_value, s) \<Rightarrow> (Inr (f (as_number number_value)), s))"

section \<open>Integers of fixed width\<close>

text \<open>\<open>f64_number.abs().floor() as i64\<close>, which saturates, negated for numbers below zero.\<close>

definition MAX_I64 :: int where
  "MAX_I64 = 2 ^ 63 - 1"

definition rounded_i64 :: "f64 \<Rightarrow> int" where
  "rounded_i64 b =
     (let i64_number = min (int (f64_abs_floor b)) MAX_I64 in
      if f64_negative b then - i64_number else i64_number)"

text \<open>\<open>modulo\<close> of \<open>common/math.rs\<close>, on \<open>i64\<close>; Rust's remainder has the sign of the dividend.\<close>

definition rust_rem :: "int \<Rightarrow> int \<Rightarrow> int" where
  "rust_rem a b = sgn a * (\<bar>a\<bar> mod \<bar>b\<bar>)"

definition modulo :: "int \<Rightarrow> int \<Rightarrow> int" where
  "modulo a b = rust_rem (rust_rem a b + b) b"

definition all_map_to_zero :: "f64 \<Rightarrow> bool" where
  "all_map_to_zero b \<longleftrightarrow> f64_is_zero b \<or> \<not> f64_is_finite b"

definition to_int32 :: "('s, 'e) environment \<Rightarrow> value_bits \<Rightarrow> ('s, 'e, u32) effect" where
  "to_int32 env v s =
     (if is_smi v then (Inr (as_smi v), s)
      else of_number env (\<lambda>f64_number.
        if all_map_to_zero f64_number then 0
        else
          (let u32_max = 2 ^ 32; i32_number = modulo (rounded_i64 f64_number) u32_max in
           word_of_int (if i32_number \<ge> u32_max div 2 then i32_number - u32_max else i32_number)))
        v s)"

definition to_uint32 :: "('s, 'e) environment \<Rightarrow> value_bits \<Rightarrow> ('s, 'e, u32) effect" where
  "to_uint32 env v s =
     (if is_smi v \<and> 0 \<le> sint (as_smi v) then (Inr (as_smi v), s)
      else of_number env (\<lambda>f64_number.
        if all_map_to_zero f64_number then 0
        else word_of_int (modulo (rounded_i64 f64_number) (2 ^ 32)))
        v s)"

definition to_int16 :: "('s, 'e) environment \<Rightarrow> value_bits \<Rightarrow> ('s, 'e, u16) effect" where
  "to_int16 env v s =
     (if is_smi v then (Inr (ucast (as_smi v)), s)
      else of_number env (\<lambda>f64_number.
        if all_map_to_zero f64_number then 0
        else
          (let u16_max = 2 ^ 16; i16_number = modulo (rounded_i64 f64_number) u16_max in
           word_of_int (if i16_number > 2 ^ 15 - 1 then i16_number - u16_max else i16_number)))
        v s)"

definition to_uint16 :: "('s, 'e) environment \<Rightarrow> value_bits \<Rightarrow> ('s, 'e, u16) effect" where
  "to_uint16 env v s =
     (if is_smi v \<and> 0 \<le> sint (as_smi v) then (Inr (ucast (as_smi v)), s)
      else of_number env (\<lambda>f64_number.
        if all_map_to_zero f64_number then 0
        else word_of_int (modulo (rounded_i64 f64_number) (2 ^ 16)))
        v s)"

definition to_int8 :: "('s, 'e) environment \<Rightarrow> value_bits \<Rightarrow> ('s, 'e, u8) effect" where
  "to_int8 env v s =
     (if is_smi v then (Inr (ucast (as_smi v)), s)
      else of_number env (\<lambda>f64_number.
        if all_map_to_zero f64_number then 0
        else
          (let u8_max = 2 ^ 8; i8_number = modulo (rounded_i64 f64_number) u8_max in
           word_of_int (if i8_number > 2 ^ 7 - 1 then i8_number - u8_max else i8_number)))
        v s)"

definition to_uint8 :: "('s, 'e) environment \<Rightarrow> value_bits \<Rightarrow> ('s, 'e, u8) effect" where
  "to_uint8 env v s =
     (if is_smi v \<and> 0 \<le> sint (as_smi v) then (Inr (ucast (as_smi v)), s)
      else of_number env (\<lambda>f64_number.
        if all_map_to_zero f64_number then 0
        else
          (let u8_max = 2 ^ 8 in
           word_of_int (rust_rem (rust_rem (rounded_i64 f64_number) u8_max + u8_max) u8_max)))
        v s)"

definition is_integral_number :: "value_bits \<Rightarrow> bool" where
  "is_integral_number v =
     (if is_smi v then True
      else if \<not> is_double v \<or> is_nan v \<or> is_infinity v then False
      else f64_is_integral (as_double v))"

section \<open>Equalities\<close>

definition same_value_non_numeric :: "('s, 'e) environment \<Rightarrow> value_bits \<Rightarrow> value_bits \<Rightarrow> bool" where
  "same_value_non_numeric env v1 v2 \<longleftrightarrow>
     v1 = v2 \<or>
     (is_pointer v1 \<and> is_pointer v2 \<and>
        (case (contents env v1, contents env v2) of
           (StringItem units1, StringItem units2) \<Rightarrow> units1 = units2
         | (BigIntItem n1, BigIntItem n2) \<Rightarrow> n1 = n2
         | _ \<Rightarrow> False))"

definition same_value :: "('s, 'e) environment \<Rightarrow> value_bits \<Rightarrow> value_bits \<Rightarrow> bool" where
  "same_value env v1 v2 =
     (if is_number v1 then
        (if is_number v2 then
           (if is_nan v1 \<and> is_nan v2 then True
            else if is_positive_zero v1 \<and> is_negative_zero v2
                \<or> is_negative_zero v1 \<and> is_positive_zero v2 then False
            else f64_eq (as_number v1) (as_number v2))
         else False)
      else same_value_non_numeric env v1 v2)"

definition same_value_zero :: "('s, 'e) environment \<Rightarrow> value_bits \<Rightarrow> value_bits \<Rightarrow> bool" where
  "same_value_zero env v1 v2 =
     (if is_number v1 then
        (if is_number v2 then
           (if is_nan v1 \<and> is_nan v2 then True else f64_eq (as_number v1) (as_number v2))
         else False)
      else same_value_non_numeric env v1 v2)"

definition is_strictly_equal :: "('s, 'e) environment \<Rightarrow> value_bits \<Rightarrow> value_bits \<Rightarrow> bool" where
  "is_strictly_equal env v1 v2 =
     (if is_number v1 then
        (if is_number v2 then f64_eq (as_number v1) (as_number v2) else False)
      else same_value_non_numeric env v1 v2)"

section \<open>Keys of collections\<close>

text \<open>What is hashed of a collection key that is not a pointer.\<close>

definition collection_key_hash_bits :: "value_bits \<Rightarrow> value_bits" where
  "collection_key_hash_bits v =
     (if is_number v then (if is_negative_zero v then value_smi 0 else v) else v)"

end
