(* ===== verification/Comparison.thy ===== *)
theory Comparison
  imports Value_Correct Number_Conversion
begin

text \<open>
  \<open>is_loosely_equal\<close> and \<open>is_less_than\<close> of \<open>runtime/type_utilities.rs\<close>, the order of strings of
  \<open>runtime/string_value.rs\<close>, and the relational operators of \<open>runtime/eval/expression.rs\<close>.
\<close>

section \<open>What conversions return\<close>

lemma number_tags: "is_number v \<Longrightarrow> \<not> is_pointer v \<and> \<not> is_bool v"
proof -
  assume "is_number v"
  then consider "is_smi v" | "is_double v" by (auto simp: is_number_def)
  then show ?thesis
  proof cases
    case 1
    then show ?thesis by (simp add: check_defs)
  next
    case 2
    from checks_of_double [OF this] show ?thesis by (auto simp: type_checks_def split: if_splits)
  qed
qed

lemma number_values: "is_number (value_smi i)" "is_number value_nan" "is_number (value_number b)"
proof -
  show "is_number (value_smi i)" by (simp add: is_number_def smi_value)
  show nan: "is_number value_nan" by (simp add: is_number_def is_double_def is_nan_def value_nan_def)
  show "is_number (value_number b)"
  proof (cases b rule: value_number_cases)
    case double
    then show ?thesis by (simp add: is_number_def double_is_double)
  qed (use nan in \<open>simp_all add: is_number_def smi_value value_nan_def\<close>)
qed

lemma to_number_number: "to_number env v s = (Inr n, s') \<Longrightarrow> is_number n"
proof (induction env v s rule: to_number.induct)
  case (1 env v s)
  from "1.prems" show ?case
    by (subst (asm) to_number.simps)
      (auto simp: number_values string_to_number_def
        split: if_splits prod.splits sum.splits heap_item_kind.splits option.splits intro: "1.IH" [OF _ _ _ sym])
qed

section \<open>Loose equality\<close>

text \<open>How often an operand can still be converted.\<close>

definition conversion_rank :: "('s, 'e) environment \<Rightarrow> value_bits \<Rightarrow> nat" where
  "conversion_rank env v = (if is_object env v then 2 else if is_bool v then 1 else 0)"

definition number_equals_bigint :: "value_bits \<Rightarrow> int \<Rightarrow> bool" where
  "number_equals_bigint v n =
     (if is_nan v \<or> is_infinity v then False
      else let b = as_number v in
        if \<not> f64_is_integral b then False else f64_truncated b = n)"

text \<open>The comparison of two pointers of the same kind; otherwise conversions are tried.\<close>

definition same_kind_equal :: "('s, 'e) environment \<Rightarrow> value_bits \<Rightarrow> value_bits \<Rightarrow> bool option" where
  "same_kind_equal env v1 v2 =
     (case (contents env v1, contents env v2) of
        (StringItem units1, StringItem units2) \<Rightarrow> Some (units1 = units2)
      | (BigIntItem n1, BigIntItem n2) \<Rightarrow> Some (n1 = n2)
      | (SymbolItem, SymbolItem) \<Rightarrow> Some False
      | (ObjectItem, ObjectItem) \<Rightarrow> Some False
      | _ \<Rightarrow> None)"

lemma rank_of_primitive:
  "to_primitive env v preferred s = (Inr p, s') \<Longrightarrow> is_object env v \<Longrightarrow> conversion_rank env p < conversion_rank env v"
  using to_primitive_primitive [of env v preferred s p s'] by (simp add: conversion_rank_def)

lemma rank_of_number:
  "to_number env v s = (Inr n, s') \<Longrightarrow> is_bool v \<Longrightarrow> conversion_rank env n < conversion_rank env v"
  using to_number_number [of env v s n s'] number_tags [of n] by (simp add: conversion_rank_def is_object_def)

lemmas rank_decreases = rank_of_primitive [OF sym] rank_of_number [OF sym]

function is_loosely_equal ::
    "('s, 'e) environment \<Rightarrow> value_bits \<Rightarrow> value_bits \<Rightarrow> ('s, 'e, bool) effect" where
  "is_loosely_equal env v1 v2 s =
     (if is_number v1 then
        (if is_number v2 then (Inr (f64_eq (as_number v1) (as_number v2)), s)
         else if is_pointer v2 then
           (case contents env v2 of
              StringItem units \<Rightarrow> (Inr (f64_eq (as_number v1) (as_number (string_to_number env units))), s)
            | BigIntItem n \<Rightarrow> (Inr (number_equals_bigint v1 n), s)
            | SymbolItem \<Rightarrow> (Inr False, s)
            | ObjectItem \<Rightarrow>
                (case to_primitive env v2 PreferNone s of
                   (Inl e, s) \<Rightarrow> (Inl e, s)
                 | (Inr primitive_v2, s) \<Rightarrow> is_loosely_equal env v1 primitive_v2 s))
         else if is_bool v2 then
           (case to_number env v2 s of
              (Inl e, s) \<Rightarrow> (Inl e, s)
            | (Inr v2_number, s) \<Rightarrow> is_loosely_equal env v1 v2_number s)
         else (Inr False, s))
      else if v1 = v2 then (Inr True, s)
      else
        (let tag1 = get_tag v1; tag2 = get_tag v2 in
         if tag1 = tag2 \<and> tag1 \<noteq> POINTER_TAG then (Inr False, s)
         else if tag1 = tag2 \<and> same_kind_equal env v1 v2 \<noteq> None then
           (Inr (the (same_kind_equal env v1 v2)), s)
         else if tag1 = NULL_TAG \<and> tag2 = UNDEFINED_TAG \<or> tag1 = UNDEFINED_TAG \<and> tag2 = NULL_TAG then
           (Inr True, s)
         else if tag1 = BOOL_TAG then
           (case to_number env v1 s of
              (Inl e, s) \<Rightarrow> (Inl e, s)
            | (Inr v1_number, s) \<Rightarrow> is_loosely_equal env v1_number v2 s)
         else if tag2 = BOOL_TAG then
           (case to_number env v2 s of
              (Inl e, s) \<Rightarrow> (Inl e, s)
            | (Inr v2_number, s) \<Rightarrow> is_loosely_equal env v1 v2_number s)
         else if tag2 = SMI_TAG \<or> is_double v2 then
           (if tag1 = POINTER_TAG then
              (case contents env v1 of
                 StringItem units \<Rightarrow> (Inr (f64_eq (as_number (string_to_number env units)) (as_number v2)), s)
               | BigIntItem n \<Rightarrow> (Inr (number_equals_bigint v2 n), s)
               | SymbolItem \<Rightarrow> (Inr False, s)
               | ObjectItem \<Rightarrow>
                   (case to_primitive env v1 PreferNone s of
                      (Inl e, s) \<Rightarrow> (Inl e, s)
                    | (Inr v1_primitive, s) \<Rightarrow> is_loosely_equal env v1_primitive v2 s))
            else (Inr False, s))
         else if tag1 = POINTER_TAG \<and> tag2 = POINTER_TAG then
           (case (contents env v1, contents env v2) of
              (StringItem units, BigIntItem n) \<Rightarrow> (Inr (string_to_bigint env units = Some n), s)
            | (BigIntItem n, StringItem units) \<Rightarrow> (Inr (string_to_bigint env units = Some n), s)
            | _ \<Rightarrow>
                if is_object env v1 then
                  (case to_primitive env v1 PreferNone s of
                     (Inl e, s) \<Rightarrow> (Inl e, s)
                   | (Inr v1_primitive, s) \<Rightarrow> is_loosely_equal env v1_primitive v2 s)
                else if is_object env v2 then
                  (case to_primitive env v2 PreferNone s of
                     (Inl e, s) \<Rightarrow> (Inl e, s)
                   | (Inr primitive_v2, s) \<Rightarrow> is_loosely_equal env v1 primitive_v2 s)
                else (Inr False, s))
         else (Inr False, s)))"
  by pat_completeness auto

termination
  apply (relation "measure (\<lambda>(env, v1, v2, s). conversion_rank env v1 + conversion_rank env v2)")
  apply simp
  by (force simp: is_object_def is_pointer_def is_bool_def has_tag_def dest: rank_decreases)+

declare is_loosely_equal.simps [simp del]

section \<open>Order\<close>

datatype ordering = Less | Equal | Greater

fun cmp_units :: "u16 list \<Rightarrow> u16 list \<Rightarrow> ordering" where
  "cmp_units [] [] = Equal"
| "cmp_units [] (_ # _) = Less"
| "cmp_units (_ # _) [] = Greater"
| "cmp_units (code_unit_1 # units1) (code_unit_2 # units2) =
     (if code_unit_1 < code_unit_2 then Less
      else if code_unit_1 > code_unit_2 then Greater
      else cmp_units units1 units2)"

definition cmp_int :: "int \<Rightarrow> int \<Rightarrow> ordering" where
  "cmp_int m n = (if m < n then Less else if m = n then Equal else Greater)"

definition F64_INFINITY :: f64 where "F64_INFINITY = 0x7FF0000000000000"
definition F64_NEG_INFINITY :: f64 where "F64_NEG_INFINITY = 0xFFF0000000000000"

text \<open>A big integer and a number; a fractional part of the number decides when its truncation is equal.\<close>

definition bigint_less_than_number :: "int \<Rightarrow> value_bits \<Rightarrow> value_bits" where
  "bigint_less_than_number x num_y =
     (if is_nan num_y then value_undefined
      else let y_f64 = as_number num_y in
        if f64_eq y_f64 F64_INFINITY then value_bool True
        else if f64_eq y_f64 F64_NEG_INFINITY then value_bool False
        else (let y_has_fract = \<not> f64_is_integral y_f64 in
          case cmp_int x (f64_truncated y_f64) of
            Less \<Rightarrow> value_bool True
          | Equal \<Rightarrow> if y_has_fract then value_bool (f64_lt 0 y_f64) else value_bool False
          | Greater \<Rightarrow> value_bool False))"

definition number_less_than_bigint :: "value_bits \<Rightarrow> int \<Rightarrow> value_bits" where
  "number_less_than_bigint num_x y =
     (if is_nan num_x then value_undefined
      else let x_f64 = as_number num_x in
        if f64_eq x_f64 F64_INFINITY then value_bool False
        else if f64_eq x_f64 F64_NEG_INFINITY then value_bool True
        else (let x_has_fract = \<not> f64_is_integral x_f64 in
          case cmp_int (f64_truncated x_f64) y of
            Less \<Rightarrow> value_bool True
          | Equal \<Rightarrow> if x_has_fract then value_bool (f64_lt x_f64 0) else value_bool False
          | Greater \<Rightarrow> value_bool False))"

definition numeric_less_than ::
    "('s, 'e) environment \<Rightarrow> value_bits \<Rightarrow> value_bits \<Rightarrow> ('s, 'e, value_bits) effect" where
  "numeric_less_than env x y s =
     (case to_numeric env x s of
        (Inl e, s) \<Rightarrow> (Inl e, s)
      | (Inr num_x, s) \<Rightarrow>
          (case to_numeric env y s of
             (Inl e, s) \<Rightarrow> (Inl e, s)
           | (Inr num_y, s) \<Rightarrow>
               let x_is_bigint = is_bigint env num_x; y_is_bigint = is_bigint env num_y in
               if x_is_bigint = y_is_bigint then
                 (if x_is_bigint then (Inr (value_bool (as_bigint env num_x < as_bigint env num_y)), s)
                  else if is_nan num_x \<or> is_nan num_y then (Inr value_undefined, s)
                  else (Inr (value_bool (f64_lt (as_number num_x) (as_number num_y))), s))
               else if x_is_bigint then (Inr (bigint_less_than_number (as_bigint env num_x) num_y), s)
               else (Inr (number_less_than_bigint num_x (as_bigint env num_y)), s)))"

definition is_less_than ::
    "('s, 'e) environment \<Rightarrow> value_bits \<Rightarrow> value_bits \<Rightarrow> ('s, 'e, value_bits) effect" where
  "is_less_than env x y s =
     (if is_pointer x \<and> is_pointer y then
        (case (contents env x, contents env y) of
           (StringItem units1, StringItem units2) \<Rightarrow>
             (Inr (value_bool (cmp_units units1 units2 = Less)), s)
         | (StringItem units, BigIntItem n) \<Rightarrow>
             (case string_to_bigint env units of
                Some x_bigint \<Rightarrow> (Inr (value_bool (x_bigint < n)), s)
              | None \<Rightarrow> (Inr value_undefined, s))
         | (BigIntItem n, StringItem units) \<Rightarrow>
             (case string_to_bigint env units of
                Some y_bigint \<Rightarrow> (Inr (value_bool (n < y_bigint)), s)
              | None \<Rightarrow> (Inr value_undefined, s))
         | _ \<Rightarrow> numeric_less_than env x y s)
      else numeric_less_than env x y s)"

text \<open>The four operators of \<open>runtime/eval/expression.rs\<close>.\<close>

definition with_primitives ::
    "('s, 'e) environment \<Rightarrow> (value_bits \<Rightarrow> value_bits \<Rightarrow> ('s, 'e, value_bits) effect)
      \<Rightarrow> value_bits \<Rightarrow> value_bits \<Rightarrow> ('s, 'e, value_bits) effect" where
  "with_primitives env compare left_value right_value s =
     (case to_primitive env left_value PreferNumber s of
        (Inl e, s) \<Rightarrow> (Inl e, s)
      | (Inr left, s) \<Rightarrow>
          (case to_primitive env right_value PreferNumber s of
             (Inl e, s) \<Rightarrow> (Inl e, s)
           | (Inr right, s) \<Rightarrow> compare left right s))"

definition less_result :: "('s, 'e, value_bits) effect \<Rightarrow> ('s, 'e, value_bits) effect" where
  "less_result comparison s =
     (case comparison s of
        (Inl e, s) \<Rightarrow> (Inl e, s)
      | (Inr result, s) \<Rightarrow>
          (if is_undefined result then (Inr (value_bool False), s) else (Inr (value_bool (as_bool result)), s)))"

definition not_less_result :: "('s, 'e, value_bits) effect \<Rightarrow> ('s, 'e, value_bits) effect" where
  "not_less_result comparison s =
     (case comparison s of
        (Inl e, s) \<Rightarrow> (Inl e, s)
      | (Inr result, s) \<Rightarrow> (Inr (value_bool (is_false result)), s))"

definition eval_less_than where
  "eval_less_than env left_value right_value =
     with_primitives env (\<lambda>left right. less_result (is_less_than env left right)) left_value right_value"

definition eval_greater_than where
  "eval_greater_than env left_value right_value =
     with_primitives env (\<lambda>left right. less_result (is_less_than env right left)) left_value right_value"

definition eval_less_than_or_equal where
  "eval_less_than_or_equal env left_value right_value =
     with_primitives env (\<lambda>left right. not_less_result (is_less_than env right left)) left_value right_value"

definition eval_greater_than_or_equal where
  "eval_greater_than_or_equal env left_value right_value =
     with_primitives env (\<lambda>left right. not_less_result (is_less_than env left right)) left_value right_value"

end
