(* ===== verification/Expression.thy ===== *)
theory Expression
  imports Comparison
begin

text \<open>
  The operators of \<open>runtime/eval/expression.rs\<close> on numbers and big integers.  IEEE arithmetic on doubles
  is the parameter \<open>arithmetic\<close>; the operators on integers and the shifts are computed.
\<close>

datatype arith_operation = Subtract | Multiply | Divide | Remainder | Exponentiate

type_synonym arithmetic = "arith_operation \<Rightarrow> f64 \<Rightarrow> f64 \<Rightarrow> f64"

text \<open>\<open>must!\<close>: an error where none is expected is a panic.\<close>

definition must :: "('s, 'e, 'a) effect \<Rightarrow> ('s, 'e, 'a) effect" where
  "must m s = (case m s of (Inl _, s) \<Rightarrow> (Inl Panic, s) | (Inr a, s) \<Rightarrow> (Inr a, s))"

definition type_of_string :: "('s, 'e) environment \<Rightarrow> value_bits \<Rightarrow> string" where
  "type_of_string env v =
     (if is_pointer v then
        (case contents env v of
           StringItem _ \<Rightarrow> ''string''
         | SymbolItem \<Rightarrow> ''symbol''
         | BigIntItem _ \<Rightarrow> ''bigint''
         | ObjectItem \<Rightarrow> if callable env v then ''function'' else ''object'')
      else
        (let tag = get_tag v in
         if tag = NULL_TAG then ''object''
         else if tag = UNDEFINED_TAG then ''undefined''
         else if tag = BOOL_TAG then ''boolean''
         else ''number''))"

section \<open>Unary operators\<close>

definition f64_negate :: "f64 \<Rightarrow> f64" where
  "f64_negate b = b XOR 0x8000000000000000"

definition eval_negate :: "('s, 'e) environment \<Rightarrow> value_bits \<Rightarrow> ('s, 'e, value_bits) effect" where
  "eval_negate env v s =
     (case to_numeric env v s of
        (Inl e, s) \<Rightarrow> (Inl e, s)
      | (Inr v, s) \<Rightarrow>
          if is_bigint env v then (Inr (new_bigint env (- as_bigint env v)), s)
          else (Inr (value_number (f64_negate (as_number v))), s))"

definition eval_bitwise_not :: "('s, 'e) environment \<Rightarrow> value_bits \<Rightarrow> ('s, 'e, value_bits) effect" where
  "eval_bitwise_not env v s =
     (case to_numeric env v s of
        (Inl e, s) \<Rightarrow> (Inl e, s)
      | (Inr v, s) \<Rightarrow>
          if is_bigint env v then (Inr (new_bigint env (NOT (as_bigint env v))), s)
          else (case must (to_int32 env v) s of
              (Inl e, s) \<Rightarrow> (Inl e, s)
            | (Inr i, s) \<Rightarrow> (Inr (value_smi (NOT i)), s)))"

section \<open>Binary operators\<close>

text \<open>Both operands as numeric values of the same kind.\<close>

definition numeric_operands ::
    "('s, 'e) environment \<Rightarrow> value_bits \<Rightarrow> value_bits
      \<Rightarrow> (value_bits \<Rightarrow> value_bits \<Rightarrow> ('s, 'e, value_bits) effect) \<Rightarrow> ('s, 'e, value_bits) effect" where
  "numeric_operands env left_value right_value f s =
     (case to_numeric env left_value s of
        (Inl e, s) \<Rightarrow> (Inl e, s)
      | (Inr left_num, s) \<Rightarrow>
          (case to_numeric env right_value s of
             (Inl e, s) \<Rightarrow> (Inl e, s)
           | (Inr right_num, s) \<Rightarrow>
               if is_bigint env left_num \<noteq> is_bigint env right_num then (Inl (Throw (type_error env)), s)
               else f left_num right_num s))"

definition eval_subtract where
  "eval_subtract arith env left_value right_value =
     numeric_operands env left_value right_value (\<lambda>left_num right_num s.
       if is_bigint env left_num then
         (Inr (new_bigint env (as_bigint env left_num - as_bigint env right_num)), s)
       else (Inr (value_number (arith Subtract (as_number left_num) (as_number right_num))), s))"

definition eval_multiply where
  "eval_multiply arith env left_value right_value =
     numeric_operands env left_value right_value (\<lambda>left_num right_num s.
       if is_bigint env left_num then
         (Inr (new_bigint env (as_bigint env left_num * as_bigint env right_num)), s)
       else (Inr (value_number (arith Multiply (as_number left_num) (as_number right_num))), s))"

text \<open>Division of big integers truncates towards zero.\<close>

definition bigint_quotient :: "int \<Rightarrow> int \<Rightarrow> int" where
  "bigint_quotient a b = sgn a * sgn b * (\<bar>a\<bar> div \<bar>b\<bar>)"

definition eval_divide where
  "eval_divide arith env left_value right_value =
     numeric_operands env left_value right_value (\<lambda>left_num right_num s.
       if is_bigint env left_num then
         (let bigint_right = as_bigint env right_num in
          if bigint_right = 0 then (Inl (Throw (range_error env)), s)
          else (Inr (new_bigint env (bigint_quotient (as_bigint env left_num) bigint_right)), s))
       else (Inr (value_number (arith Divide (as_number left_num) (as_number right_num))), s))"

definition eval_remainder where
  "eval_remainder arith env left_value right_value =
     numeric_operands env left_value right_value (\<lambda>left_num right_num s.
       if is_bigint env left_num then
         (let bigint_right = as_bigint env right_num; bigint_left = as_bigint env left_num in
          if bigint_right = 0 then (Inl (Throw (range_error env)), s)
          else if bigint_left = 0 then (Inr (new_bigint env 0), s)
          else (Inr (new_bigint env (rust_rem bigint_left bigint_right)), s))
       else (Inr (value_number (arith Remainder (as_number left_num) (as_number right_num))), s))"

definition eval_exponentiation where
  "eval_exponentiation arith env left_value right_value =
     numeric_operands env left_value right_value (\<lambda>left_num right_num s.
       if is_bigint env left_num then
         (let base_bignum = as_bigint env left_num; exponent_bignum = as_bigint env right_num in
          if exponent_bignum < 0 then (Inl (Throw (range_error env)), s)
          else if exponent_bignum = 0 \<and> base_bignum = 0 then (Inr (new_bigint env 1), s)
          else if exponent_bignum < 2 ^ 32 then (Inr (new_bigint env (base_bignum ^ nat exponent_bignum)), s)
          else (Inl (Throw (range_error env)), s))
       else (Inr (value_number (arith Exponentiate (as_number left_num) (as_number right_num))), s))"

section \<open>Operators on integers\<close>

text \<open>The operands are converted to 32 bits from the original operands, not from the numeric values.\<close>

definition int32_operands ::
    "('s, 'e) environment \<Rightarrow> (value_bits \<Rightarrow> ('s, 'e, u32) effect) \<Rightarrow> (value_bits \<Rightarrow> ('s, 'e, u32) effect)
      \<Rightarrow> value_bits \<Rightarrow> value_bits \<Rightarrow> (u32 \<Rightarrow> u32 \<Rightarrow> value_bits) \<Rightarrow> ('s, 'e, value_bits) effect" where
  "int32_operands env convert_left convert_right left_value right_value f s =
     (case must (convert_left left_value) s of
        (Inl e, s) \<Rightarrow> (Inl e, s)
      | (Inr left, s) \<Rightarrow>
          (case must (convert_right right_value) s of
             (Inl e, s) \<Rightarrow> (Inl e, s)
           | (Inr right, s) \<Rightarrow> (Inr (f left right), s)))"

definition eval_bitwise_and where
  "eval_bitwise_and env left_value right_value =
     numeric_operands env left_value right_value (\<lambda>left_num right_num s.
       if is_bigint env left_num then
         (Inr (new_bigint env (as_bigint env left_num AND as_bigint env right_num)), s)
       else int32_operands env (to_int32 env) (to_int32 env) left_value right_value
         (\<lambda>left_smi right_smi. value_smi (left_smi AND right_smi)) s)"

definition eval_bitwise_or where
  "eval_bitwise_or env left_value right_value =
     numeric_operands env left_value right_value (\<lambda>left_num right_num s.
       if is_bigint env left_num then
         (Inr (new_bigint env (as_bigint env left_num OR as_bigint env right_num)), s)
       else int32_operands env (to_int32 env) (to_int32 env) left_value right_value
         (\<lambda>left_smi right_smi. value_smi (left_smi OR right_smi)) s)"

definition eval_bitwise_xor where
  "eval_bitwise_xor env left_value right_value =
     numeric_operands env left_value right_value (\<lambda>left_num right_num s.
       if is_bigint env left_num then
         (Inr (new_bigint env (as_bigint env left_num XOR as_bigint env right_num)), s)
       else int32_operands env (to_int32 env) (to_int32 env) left_value right_value
         (\<lambda>left_smi right_smi. value_smi (left_smi XOR right_smi)) s)"

text \<open>The shift of big integers; \<open>None\<close> is the range error.\<close>

definition eval_bigint_left_shift :: "int \<Rightarrow> int \<Rightarrow> int option" where
  "eval_bigint_left_shift left right =
     (if right < 0 then
        (if - right < 2 ^ 32 then
           (let pow_of_2 = 2 ^ nat (- right) in
            if left < 0 then Some (bigint_quotient (left - pow_of_2 + 1) pow_of_2)
            else Some (bigint_quotient left pow_of_2))
         else Some 0)
      else if right < 2 ^ 32 then Some (left * 2 ^ nat right)
      else None)"

definition bigint_shift :: "('s, 'e) environment \<Rightarrow> int \<Rightarrow> int \<Rightarrow> ('s, 'e, value_bits) effect" where
  "bigint_shift env left right s =
     (case eval_bigint_left_shift left right of
        None \<Rightarrow> (Inl (Throw (range_error env)), s)
      | Some result \<Rightarrow> (Inr (new_bigint env result), s))"

definition eval_shift_left where
  "eval_shift_left env left_value right_value =
     numeric_operands env left_value right_value (\<lambda>left_num right_num s.
       if is_bigint env left_num then
         bigint_shift env (as_bigint env left_num) (as_bigint env right_num) s
       else int32_operands env (to_int32 env) (to_uint32 env) left_value right_value
         (\<lambda>left_smi right_u32. value_smi (push_bit (unat (right_u32 AND 0x1F)) left_smi)) s)"

definition eval_shift_right_arithmetic where
  "eval_shift_right_arithmetic env left_value right_value =
     numeric_operands env left_value right_value (\<lambda>left_num right_num s.
       if is_bigint env left_num then
         bigint_shift env (as_bigint env left_num) (- as_bigint env right_num) s
       else int32_operands env (to_int32 env) (to_uint32 env) left_value right_value
         (\<lambda>left_smi right_u32. value_smi (signed_drop_bit (unat (right_u32 AND 0x1F)) left_smi)) s)"

definition eval_shift_right_logical where
  "eval_shift_right_logical env left_value right_value s =
     (case to_numeric env left_value s of
        (Inl e, s) \<Rightarrow> (Inl e, s)
      | (Inr left_num, s) \<Rightarrow>
          (case to_numeric env right_value s of
             (Inl e, s) \<Rightarrow> (Inl e, s)
           | (Inr right_num, s) \<Rightarrow>
               if is_bigint env left_num \<or> is_bigint env right_num then (Inl (Throw (type_error env)), s)
               else int32_operands env (to_uint32 env) (to_uint32 env) left_value right_value
                 (\<lambda>left_smi right_u32. value_of_u32 (drop_bit (unat (right_u32 AND 0x1F)) left_smi)) s))"

end
