(* ===== verification/Value_Properties.thy ===== *)
theory Value_Properties
  imports Value_Correct Number_Conversion
begin

text \<open>The properties of values and of the conversions of numbers.\<close>

section \<open>Remainders\<close>

lemma rust_rem_bounds: "0 < b \<Longrightarrow> - b < rust_rem a b \<and> rust_rem a b < b"
proof -
  assume "0 < b"
  then have bounds: "0 \<le> a mod b" "a mod b < b" "0 \<le> - a mod b" "- a mod b < b" by simp_all
  then have "- b < a mod b" "- (- a mod b) < b" using \<open>0 < b\<close> by linarith+
  with bounds \<open>0 < b\<close> show ?thesis by (auto simp: rust_rem_def sgn_if abs_if)
qed

lemma rust_rem_mod: "0 < b \<Longrightarrow> rust_rem a b mod b = a mod b"
  by (cases "0 < a"; cases "a = 0") (simp_all add: rust_rem_def mod_minus_eq)

lemma rust_rem_pos: "0 \<le> a \<Longrightarrow> 0 < b \<Longrightarrow> rust_rem a b = a mod b"
  by (cases "a = 0") (simp_all add: rust_rem_def)

lemma modulo_mod: "0 < b \<Longrightarrow> modulo a b = a mod b"
  using rust_rem_bounds [of b a] rust_rem_mod [of b a] by (simp add: modulo_def rust_rem_pos)

lemma word_of_int_mod: "(word_of_int (i mod 2 ^ LENGTH('a)) :: 'a::len word) = word_of_int i"
  by (simp add: take_bit_eq_mod [symmetric] word_of_int_eq_iff)

lemma word_of_int_centered: "(word_of_int (i - 2 ^ LENGTH('a)) :: 'a::len word) = word_of_int i"
  by (simp add: word_of_int_eq_iff take_bit_eq_mod)

lemma scast_narrow: "LENGTH('b) \<le> LENGTH('a) \<Longrightarrow> (scast w :: 'b::len word) = ucast w"
  for w :: "'a::len word"
proof (rule bit_word_eqI)
  fix n
  assume "LENGTH('b) \<le> LENGTH('a)" "n < LENGTH('b)"
  moreover from this have "n = LENGTH('a) - 1" if "\<not> n < LENGTH('a) - 1" using that by linarith
  ultimately show "bit (scast w :: 'b word) n \<longleftrightarrow> bit (ucast w :: 'b word) n"
    by (auto simp: bit_simps min_def)
qed

section \<open>Conversions to integers\<close>

text \<open>What ECMAScript says: the truncated number modulo a power of two; 0 for infinities and NaN.\<close>

definition to_int_spec :: "f64 \<Rightarrow> 'a::len word" where
  "to_int_spec b = (if f64_is_finite b then word_of_int (f64_truncated b) else 0)"

lemma zero_truncated: "f64_is_zero b \<Longrightarrow> f64_truncated b = 0"
  by (simp add: f64_is_zero_def f64_truncated_def f64_abs_floor_def f64_significand_def f64_scale_def)

lemma rounded_exact: "f64_abs_floor b < 2 ^ 63 \<Longrightarrow> rounded_i64 b = f64_truncated b"
  by (simp add: rounded_i64_def f64_truncated_def MAX_I64_def Let_def min_def)

lemma spec_of_smi:
  "(to_int_spec (as_number v) :: 'a::len word) = word_of_int (sint (as_smi v))" if "is_smi v"
proof -
  have "- (2 ^ 31) \<le> sint (as_smi v)" "sint (as_smi v) < 2 ^ 31"
    using sint_range_size [of "as_smi v"] by (simp_all add: word_size)
  then have "\<bar>sint (as_smi v)\<bar> < 2 ^ 53" by (simp add: abs_less_iff)
  from f64_of_int_truncated [OF this] that show ?thesis by (simp add: as_number_def to_int_spec_def)
qed

lemma spec_of_zero: "all_map_to_zero b \<Longrightarrow> (to_int_spec b :: 'a::len word) = 0"
  by (auto simp: all_map_to_zero_def to_int_spec_def zero_truncated)

lemma spec_of_rounded:
  assumes "\<not> all_map_to_zero b" and "f64_is_finite b \<longrightarrow> f64_abs_floor b < 2 ^ 63"
  shows "(to_int_spec b :: 'a::len word) = word_of_int (rounded_i64 b)"
  using assms by (simp add: all_map_to_zero_def to_int_spec_def rounded_exact)

lemma as_number_value_double: "is_double (value_double b) \<Longrightarrow> as_number (value_double b) = b"
  by (simp add: as_number_double) (simp add: value_double_def)

lemma to_number_of_number: "is_number v \<Longrightarrow> to_number env v s = (Inr v, s)"
  by (simp add: to_number.simps)

lemma modulo_word: "(word_of_int (modulo i (2 ^ LENGTH('a))) :: 'a::len word) = word_of_int i"
  by (simp add: modulo_mod word_of_int_mod)

lemma centered_word:
  "(word_of_int (if c then modulo i (2 ^ LENGTH('a)) - 2 ^ LENGTH('a) else modulo i (2 ^ LENGTH('a))) :: 'a::len word)
    = word_of_int i"
  by (simp add: modulo_mod word_of_int_centered word_of_int_mod)

lemma reduced_words:
  "(word_of_int (modulo i (2 ^ 32)) :: u32) = word_of_int i"
  "(word_of_int (modulo i (2 ^ 16)) :: u16) = word_of_int i"
  "(word_of_int (modulo i (2 ^ 8)) :: u8) = word_of_int i"
  "(word_of_int (if c then modulo i (2 ^ 32) - 2 ^ 32 else modulo i (2 ^ 32)) :: u32) = word_of_int i"
  "(word_of_int (if c then modulo i (2 ^ 16) - 2 ^ 16 else modulo i (2 ^ 16)) :: u16) = word_of_int i"
  "(word_of_int (if c then modulo i (2 ^ 8) - 2 ^ 8 else modulo i (2 ^ 8)) :: u8) = word_of_int i"
proof -
  have "LENGTH(32) = 32" "LENGTH(16) = 16" "LENGTH(8) = 8" by simp_all
  note words = modulo_word [where 'a = 32, unfolded this] modulo_word [where 'a = 16, unfolded this]
    modulo_word [where 'a = 8, unfolded this] centered_word [where 'a = 32, unfolded this]
    centered_word [where 'a = 16, unfolded this] centered_word [where 'a = 8, unfolded this]
  show
    "(word_of_int (modulo i (2 ^ 32)) :: u32) = word_of_int i"
    "(word_of_int (modulo i (2 ^ 16)) :: u16) = word_of_int i"
    "(word_of_int (modulo i (2 ^ 8)) :: u8) = word_of_int i"
    "(word_of_int (if c then modulo i (2 ^ 32) - 2 ^ 32 else modulo i (2 ^ 32)) :: u32) = word_of_int i"
    "(word_of_int (if c then modulo i (2 ^ 16) - 2 ^ 16 else modulo i (2 ^ 16)) :: u16) = word_of_int i"
    "(word_of_int (if c then modulo i (2 ^ 8) - 2 ^ 8 else modulo i (2 ^ 8)) :: u8) = word_of_int i"
    by (rule words)+
qed

lemma integer_conversions:
  assumes "to_number env v s = (Inr n, s')"
    and "f64_is_finite (as_number n) \<longrightarrow> f64_abs_floor (as_number n) < 2 ^ 63"
  shows "to_int32 env v s = (Inr (to_int_spec (as_number n)), s')
    \<and> to_uint32 env v s = (Inr (to_int_spec (as_number n)), s')
    \<and> to_int16 env v s = (Inr (to_int_spec (as_number n)), s')
    \<and> to_uint16 env v s = (Inr (to_int_spec (as_number n)), s')
    \<and> to_int8 env v s = (Inr (to_int_spec (as_number n)), s')
    \<and> to_uint8 env v s = (Inr (to_int_spec (as_number n)), s')"
proof -
  have smi: "(to_int_spec (as_number n) :: 'x::len word) = word_of_int (sint (as_smi v))" "s' = s" if "is_smi v"
    using spec_of_smi [OF that] assms(1) that by (simp_all add: to_number_of_number is_number_def)
  have zero: "(to_int_spec (as_number n) :: 'x::len word) = 0" if "all_map_to_zero (as_number n)"
    by (rule spec_of_zero [OF that])
  have rounded: "(to_int_spec (as_number n) :: 'x::len word) = word_of_int (rounded_i64 (as_number n))"
    if "\<not> all_map_to_zero (as_number n)"
    by (rule spec_of_rounded [OF that assms(2)])
  have int32: "to_int32 env v s = (Inr (to_int_spec (as_number n)), s')"
    unfolding to_int32_def Let_def reduced_words by (simp add: of_number_def assms(1) smi zero rounded)
  have uint32: "to_uint32 env v s = (Inr (to_int_spec (as_number n)), s')"
    unfolding to_uint32_def Let_def reduced_words by (simp add: of_number_def assms(1) smi zero rounded)
  have int16: "to_int16 env v s = (Inr (to_int_spec (as_number n)), s')"
    unfolding to_int16_def Let_def reduced_words by (simp add: of_number_def assms(1) smi zero rounded scast_narrow)
  have uint16: "to_uint16 env v s = (Inr (to_int_spec (as_number n)), s')"
    unfolding to_uint16_def Let_def reduced_words by (simp add: of_number_def assms(1) smi zero rounded scast_narrow)
  have int8: "to_int8 env v s = (Inr (to_int_spec (as_number n)), s')"
    unfolding to_int8_def Let_def reduced_words by (simp add: of_number_def assms(1) smi zero rounded scast_narrow)
  have uint8: "to_uint8 env v s = (Inr (to_int_spec (as_number n)), s')"
    unfolding to_uint8_def Let_def modulo_def [symmetric] reduced_words by (simp add: of_number_def assms(1) smi zero rounded scast_narrow)
  show ?thesis using int32 uint32 int16 uint16 int8 uint8 by blast
qed

text \<open>C30: The conversions of numbers to 8, 16 and 32 bit integers are those of ECMAScript, truncation
  and reduction modulo a power of two, for all numbers of absolute value below 2 to the 63, for
  infinities and for NaN, whether the number is stored as a small integer or as a double.\<close>

theorem integer_conversions_exact:
  assumes "to_number env v s = (Inr n, s')"
    and "f64_is_finite (as_number n) \<longrightarrow> f64_abs_floor (as_number n) < 2 ^ 63"
  shows "to_int32 env v s = (Inr (to_int_spec (as_number n)), s')
    \<and> to_uint32 env v s = (Inr (to_int_spec (as_number n)), s')
    \<and> to_int16 env v s = (Inr (to_int_spec (as_number n)), s')
    \<and> to_uint16 env v s = (Inr (to_int_spec (as_number n)), s')
    \<and> to_int8 env v s = (Inr (to_int_spec (as_number n)), s')
    \<and> to_uint8 env v s = (Inr (to_int_spec (as_number n)), s')"
  by (rule integer_conversions [OF assms])

lemma integer_conversions_exact_witness:
  "\<forall>(env :: (unit, unit) environment) s. to_int32 env (value_double 0xC1F0000000600000) s = (Inr (- 6), s)"
proof (intro allI)
  fix env :: "(unit, unit) environment" and s :: unit
  have minus_word: "- 4294967302 = (- 6 :: u32)" by (simp add: word_eq_iff_unsigned)
  have double: "is_double (value_double 0xC1F0000000600000)"
    by (rule double_is_double) (simp add: f64_is_nan_def f64_exponent_def f64_mantissa_def)
  note number = as_number_value_double [OF double]
  have fields: "f64_abs_floor 0xC1F0000000600000 = 4294967302" "f64_negative 0xC1F0000000600000"
    "f64_is_finite 0xC1F0000000600000"
    by (simp_all add: f64_abs_floor_def f64_significand_def f64_scale_def f64_exponent_def f64_mantissa_def
        f64_negative_def f64_is_finite_def)
  show "to_int32 env (value_double 0xC1F0000000600000) s = (Inr (- 6), s)"
    using integer_conversions_exact [of env "value_double 0xC1F0000000600000" s "value_double 0xC1F0000000600000" s, THEN conjunct1]
    by (simp add: number fields to_int_spec_def f64_truncated_def minus_word to_number_of_number is_number_def double)
qed

lemma large_scale:
  assumes "2 ^ 63 \<le> f64_abs_floor b"
  shows "1086 \<le> f64_scale b"
proof (rule ccontr)
  assume small: "\<not> 1086 \<le> f64_scale b"
  have m: "f64_mantissa b < 2 ^ 52" by (simp add: f64_mantissa_def)
  then have sig: "f64_significand b < 2 ^ 53" by (simp add: f64_significand_def)
  show False
  proof (cases "1075 \<le> f64_scale b")
    case True
    then have "(2 :: nat) ^ (f64_scale b - 1075) \<le> 2 ^ 10" using small by (intro power_increasing) simp_all
    then have "f64_significand b * 2 ^ (f64_scale b - 1075) < 2 ^ 53 * 2 ^ 10"
      using sig by (intro mult_less_le_imp_less) simp_all
    then show False using True assms by (simp add: f64_abs_floor_def)
  next
    case False
    have "f64_significand b div 2 ^ (1075 - f64_scale b) \<le> f64_significand b" by (rule div_le_dividend)
    then have "f64_abs_floor b \<le> f64_significand b" using False by (simp only: f64_abs_floor_def if_False)
    with sig assms show False by simp
  qed
qed

lemma large_even: "2 ^ 63 \<le> f64_abs_floor b \<Longrightarrow> even (f64_truncated b)"
  using large_scale [of b] by (simp add: f64_truncated_def f64_abs_floor_def)

lemma large_rounded:
  assumes "2 ^ 63 \<le> f64_abs_floor b"
  shows "(word_of_int (rounded_i64 b) :: u32) = (if f64_negative b then 1 else - 1)"
    and "(word_of_int (rounded_i64 b) :: u16) = (if f64_negative b then 1 else - 1)"
    and "(word_of_int (rounded_i64 b) :: u8) = (if f64_negative b then 1 else - 1)"
proof -
  have "int (2 ^ 63) \<le> int (f64_abs_floor b)" using assms by (simp only: zle_int)
  then have "rounded_i64 b = (if f64_negative b then - MAX_I64 else MAX_I64)"
    by (simp add: rounded_i64_def MAX_I64_def min_def)
  then show "(word_of_int (rounded_i64 b) :: u32) = (if f64_negative b then 1 else - 1)"
    "(word_of_int (rounded_i64 b) :: u16) = (if f64_negative b then 1 else - 1)"
    "(word_of_int (rounded_i64 b) :: u8) = (if f64_negative b then 1 else - 1)"
    by (simp_all add: MAX_I64_def)
qed

lemma even_word: "even (word_of_int i :: 'a::len word) \<longleftrightarrow> even i"
  using bit_word_of_int_iff [where 'a = 'a and k = i and n = 0] by (simp only: bit_0) simp

text \<open>C31: Every finite double of absolute value at least 2 to the 63 is converted to the integer -1, or 1
  when it is negative, by each of the conversions to 8, 16 and 32 bits: the cast to 64 bits saturates.  The
  integer ECMAScript asks for is even, so the conversion of such a number is always wrong.\<close>

theorem large_numbers_saturate:
  assumes "is_double v" and "f64_is_finite (as_number v)"
    and "2 ^ 63 \<le> f64_abs_floor (as_number v)"
  shows "to_int32 env v s = (Inr (if f64_negative (as_number v) then 1 else - 1), s)
    \<and> to_uint32 env v s = (Inr (if f64_negative (as_number v) then 1 else - 1), s)
    \<and> to_int16 env v s = (Inr (if f64_negative (as_number v) then 1 else - 1), s)
    \<and> to_uint16 env v s = (Inr (if f64_negative (as_number v) then 1 else - 1), s)
    \<and> to_int8 env v s = (Inr (if f64_negative (as_number v) then 1 else - 1), s)
    \<and> to_uint8 env v s = (Inr (if f64_negative (as_number v) then 1 else - 1), s)
    \<and> even (to_int_spec (as_number v) :: u32) \<and> even (to_int_spec (as_number v) :: u16)
    \<and> even (to_int_spec (as_number v) :: u8)"
proof -
  have "\<not> f64_is_zero (as_number v)"
    using zero_truncated [of "as_number v"] assms(3) by (auto simp: f64_truncated_def split: if_splits)
  then have "\<not> all_map_to_zero (as_number v)" by (simp add: all_map_to_zero_def assms(2))
  then have conversion: "of_number env (\<lambda>b. if all_map_to_zero b then 0 else f b) v s = (Inr (f (as_number v)), s)" for f :: "f64 \<Rightarrow> 'x::zero"
    by (simp add: of_number_def to_number_of_number is_number_def assms(1))
  have "to_int32 env v s = (Inr (if f64_negative (as_number v) then 1 else - 1), s)"
    "to_uint32 env v s = (Inr (if f64_negative (as_number v) then 1 else - 1), s)"
    "to_int16 env v s = (Inr (if f64_negative (as_number v) then 1 else - 1), s)"
    "to_uint16 env v s = (Inr (if f64_negative (as_number v) then 1 else - 1), s)"
    "to_int8 env v s = (Inr (if f64_negative (as_number v) then 1 else - 1), s)"
    "to_uint8 env v s = (Inr (if f64_negative (as_number v) then 1 else - 1), s)"
    unfolding to_int32_def to_uint32_def to_int16_def to_uint16_def to_int8_def to_uint8_def
      Let_def modulo_def [symmetric] reduced_words conversion large_rounded [OF assms(3)] by (simp_all add: double_not_smi [OF assms(1)])
  moreover have "even (to_int_spec (as_number v) :: u32)" "even (to_int_spec (as_number v) :: u16)"
    "even (to_int_spec (as_number v) :: u8)"
    using large_even [OF assms(3)] by (simp_all add: to_int_spec_def assms(2) even_word)
  ultimately show ?thesis by blast
qed

lemma large_numbers_saturate_witness:
  "\<forall>(env :: (unit, unit) environment) s. to_int32 env (value_double 0x43E0000000000000) s = (Inr (- 1), s)"
proof (intro allI)
  fix env :: "(unit, unit) environment" and s :: unit
  have double: "is_double (value_double 0x43E0000000000000)"
    by (rule double_is_double) (simp add: f64_is_nan_def f64_exponent_def f64_mantissa_def)
  note number = as_number_value_double [OF double]
  have fields: "f64_abs_floor 0x43E0000000000000 = 2 ^ 63" "\<not> f64_negative 0x43E0000000000000"
    "f64_is_finite 0x43E0000000000000"
    by (simp_all add: f64_abs_floor_def f64_significand_def f64_scale_def f64_exponent_def f64_mantissa_def
        f64_negative_def f64_is_finite_def)
  show "to_int32 env (value_double 0x43E0000000000000) s = (Inr (- 1), s)"
    using large_numbers_saturate [of "value_double 0x43E0000000000000" env s, THEN conjunct1, OF double]
    unfolding number by (simp add: fields)
qed

section \<open>Values\<close>

text \<open>C29: A value made from undefined, null, the empty value, a boolean, a small integer, a double
  or a pointer passes the check of its own type, no other, and the cast of that type gives back what it
  was made from.\<close>

theorem value_type_checks: "well_formed_value v \<Longrightarrow> type_checks (encode_value v) = [v]"
  by (rule encoded_checks)

lemma value_type_checks_witness: "type_checks (heap_item 0x7FFF12345678) = [JsPointer 0x7FFF12345678]"
  using value_type_checks [of "JsPointer 0x7FFF12345678"] by simp

lemma value_number_is_number: "is_number (value_number b)"
proof (cases b rule: value_number_cases)
  case double
  then show ?thesis by (simp add: is_number_def double_is_double)
qed (simp_all add: is_number_def smi_value is_double_def is_nan_def)

text \<open>Making a value of a double, which chooses between a small integer, the canonical NaN and a boxed
  double, gives a number, and reading it as a double gives back the same bits, except that every NaN
  becomes the canonical one; an unsigned 32 bit integer keeps its value.\<close>

theorem number_roundtrip:
  "is_number (value_number b) \<and> as_number (value_number b) = (if f64_is_nan b then NOT CANONICAL_NAN else b)
    \<and> as_number (value_of_u32 n) = f64_of_int (int (unat n))"
proof -
  have n: "\<bar>int (unat n)\<bar> < 2 ^ 53"
  proof -
    have "unat n < 2 ^ 32" using unsigned_less [of n, where ?'a = nat] by simp
    then have "int (unat n) < 2 ^ 32" by (simp only: nat_int_comparison(2)) simp
    then show ?thesis by simp
  qed
  have "as_number (value_of_u32 n) = f64_of_int (int (unat n))"
  proof (cases "int (unat n) > SMI_MAX")
    case True
    have "\<not> f64_is_nan (f64_of_int (int (unat n)))"
      using f64_of_int_truncated(2) [OF n] by (simp add: f64_is_finite_def f64_is_nan_def)
    then have "is_double (value_double (f64_of_int (int (unat n))))" by (intro double_is_double) simp
    with True show ?thesis by (simp add: value_of_u32_def as_number_double value_double_def)
  next
    case False
    then have "sint n = int (unat n)"
      using sint_smi [of "int (unat n)"] uint_nonnegative [of n] by (simp add: SMI_MAX_def SMI_MIN_def)
    with False show ?thesis by (simp add: value_of_u32_def as_number_smi)
  qed
  then show ?thesis by (simp add: value_number_is_number as_number_value_number)
qed

section \<open>Keys of collections\<close>

lemma canonical_is_nan: "f64_is_nan (NOT CANONICAL_NAN)"
  by (rule quiet_bits) (simp add: CANONICAL_NAN_def)

lemma value_number_nan: "is_nan (value_number b) \<longleftrightarrow> f64_is_nan b"
proof
  assume "is_nan (value_number b)"
  then have "is_double (value_number b)" by (simp add: is_double_def)
  with \<open>is_nan (value_number b)\<close> have "as_number (value_number b) = NOT CANONICAL_NAN"
    by (simp add: as_number_double is_nan_def)
  then show "f64_is_nan b" using canonical_is_nan by (simp add: as_number_value_number split: if_splits)
next
  assume "f64_is_nan b"
  then show "is_nan (value_number b)"
    by (cases b rule: value_number_cases) (simp_all add: is_nan_def)
qed

lemma value_number_zero: "value_number 0 = value_smi 0"
  by (simp add: value_number_def f64_is_integral_def f64_is_finite_def f64_exponent_def f64_significand_def
      f64_mantissa_def f64_scale_def f64_truncated_def f64_abs_floor_def SMI_MIN_def SMI_MAX_def F64_NEGATIVE_ZERO_def)

lemma zeros_not_nan: "\<not> f64_is_nan 0" "\<not> f64_is_nan F64_NEGATIVE_ZERO"
  by (simp_all add: f64_is_nan_def f64_exponent_def F64_NEGATIVE_ZERO_def)

lemma value_number_eq_iff: "value_number a = value_number b \<longleftrightarrow> a = b \<or> f64_is_nan a \<and> f64_is_nan b"
proof
  assume "value_number a = value_number b"
  then have "as_number (value_number a) = as_number (value_number b)" by simp
  then show "a = b \<or> f64_is_nan a \<and> f64_is_nan b"
    using canonical_is_nan by (auto simp: as_number_value_number split: if_splits)
next
  assume "a = b \<or> f64_is_nan a \<and> f64_is_nan b"
  then show "value_number a = value_number b" using value_number_nan [of a] value_number_nan [of b] by (auto simp: is_nan_def)
qed

lemma value_number_negative_zero: "value_number b = DOUBLE_NEGATIVE_ZERO \<longleftrightarrow> b = F64_NEGATIVE_ZERO"
proof -
  have "value_number F64_NEGATIVE_ZERO = DOUBLE_NEGATIVE_ZERO"
    using zeros_not_nan(2) by (simp add: value_number_def DOUBLE_NEGATIVE_ZERO_def)
  then show ?thesis using zeros_not_nan(2) value_number_eq_iff [of b F64_NEGATIVE_ZERO] by auto
qed

lemma hash_bits_number:
  "collection_key_hash_bits (value_number b) = value_number (if b = F64_NEGATIVE_ZERO then 0 else b)"
  by (simp add: collection_key_hash_bits_def value_number_is_number is_negative_zero_def
      value_number_negative_zero value_number_zero)

text \<open>Two numbers are the same key of a collection exactly when the same bits are hashed for them,
  whether they are stored as small integers or as doubles: all NaNs are one key, and so are the two zeros.\<close>

theorem collection_keys_hash_alike:
  "same_value_zero env (value_number a) (value_number b)
    \<longleftrightarrow> collection_key_hash_bits (value_number a) = collection_key_hash_bits (value_number b)"
  unfolding hash_bits_number value_number_eq_iff
  using canonical_is_nan zeros_not_nan
  by (auto simp: same_value_zero_def value_number_is_number value_number_nan as_number_value_number f64_eq_def
      f64_is_zero_iff)

end
