(* ===== verification/Comparison_Correct.thy ===== *)
theory Comparison_Correct
  imports Comparison "HOL-Library.List_Lexorder"
begin

text \<open>
  The comparisons of values are those of ECMAScript: \<open>IsLooselyEqual\<close> and \<open>IsLessThan\<close> are written down
  as the standard does, by the types of the operands and by mathematical values, and the code is proved
  to agree with them.
\<close>

section \<open>Types of values\<close>

datatype es_type = UndefinedType | NullType | BooleanType | NumberType | StringType | BigIntType
  | SymbolType | ObjectType

definition type_of_value :: "('s, 'e) environment \<Rightarrow> value_bits \<Rightarrow> es_type" where
  "type_of_value env v =
     (if is_number v then NumberType
      else if is_pointer v then
        (case contents env v of
           StringItem _ \<Rightarrow> StringType
         | BigIntItem _ \<Rightarrow> BigIntType
         | SymbolItem \<Rightarrow> SymbolType
         | ObjectItem \<Rightarrow> ObjectType)
      else if is_bool v then BooleanType
      else if is_null v then NullType
      else UndefinedType)"

text \<open>The values of the language, as the constructors make them: the only NaN is the canonical one.\<close>

definition canonical_number :: "value_bits \<Rightarrow> bool" where
  "canonical_number v \<longleftrightarrow> is_number v \<and> (f64_is_nan (as_number v) \<longrightarrow> is_nan v)"

definition language_value :: "value_bits \<Rightarrow> bool" where
  "language_value v \<longleftrightarrow>
     canonical_number v \<or> is_pointer v \<or> v \<in> {value_undefined, value_null, value_bool True, value_bool False}"

lemma not_nan_of_int: "\<not> f64_is_nan (f64_of_int (sint (i :: u32)))"
proof -
  have "- (2 ^ 31) \<le> sint i" "sint i < 2 ^ 31" using sint_range_size [of i] by (simp_all add: word_size)
  then have "\<bar>sint i\<bar> < 2 ^ 53" by (simp add: abs_less_iff)
  from f64_of_int_truncated(2) [OF this] show ?thesis by (simp add: f64_is_nan_def f64_is_finite_def)
qed

lemma canonical_smi [simp]: "canonical_number (value_smi i)"
  by (simp add: canonical_number_def is_number_def smi_value as_number_smi not_nan_of_int)

lemma canonical_double: "f64_is_nan b \<longrightarrow> b = NOT CANONICAL_NAN \<Longrightarrow> canonical_number (value_double b)"
proof -
  assume b: "f64_is_nan b \<longrightarrow> b = NOT CANONICAL_NAN"
  from double_is_double [OF b] have "is_number (value_double b)" "as_number (value_double b) = b"
    by (simp_all add: is_number_def as_number_double) (simp add: value_double_def)
  with b show ?thesis by (auto simp: canonical_number_def is_nan_def value_double_def)
qed

lemma canonical_nan [simp]: "canonical_number value_nan"
  by (simp add: canonical_number_def is_number_def is_double_def is_nan_def value_nan_def)

lemma canonical_value_number [simp]: "canonical_number (value_number b)"
proof (cases b rule: value_number_cases)
  case nan
  then show ?thesis using canonical_nan by (simp add: value_nan_def)
qed (simp_all add: canonical_double)

lemma language_encoded: "well_formed_value x \<Longrightarrow> x \<noteq> JsEmpty \<Longrightarrow> language_value (encode_value x)"
proof -
  assume wf: "well_formed_value x" "x \<noteq> JsEmpty"
  show ?thesis
  proof (cases x)
    case (JsPointer a)
    from encoded_checks [OF wf(1)] JsPointer show ?thesis
      by (auto simp: type_checks_def language_value_def split: if_splits)
  next
    case (JsBool b)
    then show ?thesis by (cases b) (simp_all add: language_value_def)
  qed (use wf in \<open>simp_all add: language_value_def canonical_double\<close>)
qed

lemma constant_values:
  "\<not> is_number value_undefined" "\<not> is_number value_null" "\<not> is_number (value_bool b)"
  "get_tag value_undefined = 0x8006" "get_tag value_null = 0x8004" "get_tag (value_bool b) = 0x8003"
  "as_bool (value_bool b) = b"
proof -
  have "type_checks value_undefined = [JsUndefined]" "type_checks value_null = [JsNull]"
    "type_checks (value_bool b) = [JsBool b]"
    using encoded_checks [of JsUndefined] encoded_checks [of JsNull] encoded_checks [of "JsBool b"] by simp_all
  then show "\<not> is_number value_undefined" "\<not> is_number value_null" "\<not> is_number (value_bool b)"
    "get_tag value_undefined = 0x8006" "get_tag value_null = 0x8004" "get_tag (value_bool b) = 0x8003"
    "as_bool (value_bool b) = b"
    by (simp_all add: type_checks_def is_number_def check_defs split: if_splits)
qed

lemma constant_not_pointer [simp]:
  "\<not> is_pointer value_undefined" "\<not> is_pointer value_null" "\<not> is_pointer (value_bool b)"
  by (simp_all add: is_pointer_def has_tag_def POINTER_TAG_def constant_values)

lemma pointer_not_number: "is_pointer v \<Longrightarrow> \<not> is_number v"
  using number_tags by blast

lemma number_tag_cases:
  assumes "is_number v"
  shows "get_tag v = 0x8001 \<or> is_double v" and "get_tag v \<noteq> 0" and "get_tag v \<noteq> 0x8003"
    and "get_tag v \<noteq> 0x8004" and "get_tag v \<noteq> 0x8006"
proof -
  have "type_checks v = [JsDouble (as_double v)] \<or> get_tag v = 0x8001"
    using assms checks_of_double [of v] by (auto simp: is_number_def is_smi_def has_tag_def tag_values)
  then show "get_tag v = 0x8001 \<or> is_double v" "get_tag v \<noteq> 0" "get_tag v \<noteq> 0x8003"
    "get_tag v \<noteq> 0x8004" "get_tag v \<noteq> 0x8006"
    by (auto simp: type_checks_def check_defs split: if_splits)
qed

section \<open>Loose equality\<close>

text \<open>\<open>IsStrictlyEqual\<close>, for operands of the same type.\<close>

definition strictly_equal_spec :: "('s, 'e) environment \<Rightarrow> value_bits \<Rightarrow> value_bits \<Rightarrow> bool" where
  "strictly_equal_spec env x y =
     (case type_of_value env x of
        NumberType \<Rightarrow> f64_eq (as_number x) (as_number y)
      | StringType \<Rightarrow> as_string env x = as_string env y
      | BigIntType \<Rightarrow> as_bigint env x = as_bigint env y
      | _ \<Rightarrow> x = y)"

definition bigint_equals_number_spec :: "int \<Rightarrow> f64 \<Rightarrow> bool" where
  "bigint_equals_number_spec n b \<longleftrightarrow> f64_is_finite b \<and> f64_real b = real_of_int n"

lemma type_object: "type_of_value env v = ObjectType \<Longrightarrow> is_object env v"
  by (auto simp: type_of_value_def is_object_def split: if_splits heap_item_kind.splits)

lemma type_boolean: "type_of_value env v = BooleanType \<Longrightarrow> is_bool v"
  by (auto simp: type_of_value_def split: if_splits heap_item_kind.splits)

text \<open>The steps of \<open>IsLooselyEqual\<close> in the order of the standard.\<close>

function loosely_equal_spec ::
    "('s, 'e) environment \<Rightarrow> value_bits \<Rightarrow> value_bits \<Rightarrow> ('s, 'e, bool) effect" where
  "loosely_equal_spec env x y s =
     (let tx = type_of_value env x; ty = type_of_value env y in
      if tx = ty then (Inr (strictly_equal_spec env x y), s)
      else if tx = NullType \<and> ty = UndefinedType \<or> tx = UndefinedType \<and> ty = NullType then (Inr True, s)
      else if tx = NumberType \<and> ty = StringType then
        (Inr (f64_eq (as_number x) (as_number (string_to_number env (as_string env y)))), s)
      else if tx = StringType \<and> ty = NumberType then
        (Inr (f64_eq (as_number (string_to_number env (as_string env x))) (as_number y)), s)
      else if tx = BigIntType \<and> ty = StringType then
        (Inr (string_to_bigint env (as_string env y) = Some (as_bigint env x)), s)
      else if tx = StringType \<and> ty = BigIntType then
        (Inr (string_to_bigint env (as_string env x) = Some (as_bigint env y)), s)
      else if tx = BooleanType then
        (case to_number env x s of
           (Inl e, s) \<Rightarrow> (Inl e, s) | (Inr x, s) \<Rightarrow> loosely_equal_spec env x y s)
      else if ty = BooleanType then
        (case to_number env y s of
           (Inl e, s) \<Rightarrow> (Inl e, s) | (Inr y, s) \<Rightarrow> loosely_equal_spec env x y s)
      else if tx \<in> {StringType, NumberType, BigIntType, SymbolType} \<and> ty = ObjectType then
        (case to_primitive env y PreferNone s of
           (Inl e, s) \<Rightarrow> (Inl e, s) | (Inr y, s) \<Rightarrow> loosely_equal_spec env x y s)
      else if tx = ObjectType \<and> ty \<in> {StringType, NumberType, BigIntType, SymbolType} then
        (case to_primitive env x PreferNone s of
           (Inl e, s) \<Rightarrow> (Inl e, s) | (Inr x, s) \<Rightarrow> loosely_equal_spec env x y s)
      else if tx = BigIntType \<and> ty = NumberType then
        (Inr (bigint_equals_number_spec (as_bigint env x) (as_number y)), s)
      else if tx = NumberType \<and> ty = BigIntType then
        (Inr (bigint_equals_number_spec (as_bigint env y) (as_number x)), s)
      else (Inr False, s))"
  by pat_completeness auto

termination
  apply (relation "measure (\<lambda>(env, x, y, s). conversion_rank env x + conversion_rank env y)")
  apply simp
  by (force dest: type_object type_boolean rank_decreases)+

declare loosely_equal_spec.simps [simp del]

text \<open>What the code tests of a value, by its type.\<close>

lemma language_cases:
  assumes "language_value v"
  obtains (number) "type_of_value env v = NumberType" and "is_number v"
        and "f64_is_nan (as_number v) \<longrightarrow> is_nan v"
    | (string) units where "type_of_value env v = StringType" and "is_pointer v" and "contents env v = StringItem units"
    | (bigint) n where "type_of_value env v = BigIntType" and "is_pointer v" and "contents env v = BigIntItem n"
    | (symbol) "type_of_value env v = SymbolType" and "is_pointer v" and "contents env v = SymbolItem"
    | (object) "type_of_value env v = ObjectType" and "is_pointer v" and "contents env v = ObjectItem"
    | (boolean) b where "type_of_value env v = BooleanType" and "v = value_bool b"
    | (null) "type_of_value env v = NullType" and "v = value_null"
    | (undefined) "type_of_value env v = UndefinedType" and "v = value_undefined"
proof -
  consider "canonical_number v" | "is_pointer v" | "v = value_undefined" | "v = value_null" | b where "v = value_bool b"
    using assms by (auto simp: language_value_def)
  then show thesis
  proof cases
    case 2
    then show thesis
      using pointer_not_number [OF 2] string bigint symbol object
      by (cases "contents env v") (simp_all add: type_of_value_def)
  qed (use number boolean null undefined in
      \<open>simp_all add: canonical_number_def type_of_value_def constant_values is_pointer_def is_bool_def is_null_def has_tag_def tag_values
        POINTER_TAG_def\<close>)
qed

lemma infinite_bits: "NOT v = b \<Longrightarrow> is_infinity v \<longleftrightarrow> b AND 0x7FFFFFFFFFFFFFFF = 0x7FF0000000000000"
proof -
  assume b: "NOT v = b"
  have "is_infinity v \<longleftrightarrow> NOT (v OR 0x8000000000000000) = 0x7FF0000000000000"
    by (simp only: is_infinity_def POSITIVE_INFINITY_def value_double_def) (metis bit.double_compl)
  also have "\<dots> \<longleftrightarrow> b AND NOT 0x8000000000000000 = 0x7FF0000000000000"
    by (simp only: bit.de_Morgan_disj b)
  also have "NOT 0x8000000000000000 = (0x7FFFFFFFFFFFFFFF :: value_bits)"
    by (simp add: not_eq_complement word_eq_iff_unsigned)
  finally show ?thesis .
qed

lemma not_finite_bits: "b AND 0x7FFFFFFFFFFFFFFF = 0x7FF0000000000000 \<Longrightarrow> \<not> f64_is_finite b"
proof -
  assume inf: "b AND 0x7FFFFFFFFFFFFFFF = 0x7FF0000000000000"
  have "mask 63 = (0x7FFFFFFFFFFFFFFF :: f64)" by (simp add: mask_eq_exp_minus_1)
  then have "unat (b AND mask 63) = 0x7FF0000000000000" using inf by simp
  then have "unat b mod 2 ^ 63 = 2047 * 2 ^ 52" by (simp add: unat_and_mask)
  then have "(f64_exponent b * 2 ^ 52 + f64_mantissa b) div 2 ^ 52 = 2047 * 2 ^ 52 div 2 ^ 52"
    by (simp only: magnitude_fields)
  then show ?thesis using mantissa_bound [of b] by (simp add: f64_is_finite_def)
qed

lemma special_not_finite:
  assumes "is_number v" and "is_nan v \<or> is_infinity v"
  shows "\<not> f64_is_finite (as_number v)"
proof -
  have "\<not> f64_is_finite (NOT v)"
    using assms(2)
  proof
    assume "is_nan v"
    then have "f64_is_nan (NOT v)" by (simp add: is_nan_def quiet_bits CANONICAL_NAN_def)
    then show ?thesis by (simp add: f64_is_nan_def f64_is_finite_def)
  next
    assume "is_infinity v"
    with infinite_bits [OF refl] not_finite_bits show ?thesis by blast
  qed
  moreover have "\<not> is_smi v"
  proof
    assume "is_smi v"
    then have tag: "get_tag v = 0x8001" by (simp add: check_defs)
    have "get_tag (v OR w) = get_tag v OR get_tag w" for w by (rule bit_word_eqI) (simp add: bit_simps)
    moreover have "get_tag 0x8000000000000000 = 0x8000" by (simp add: get_tag_def TAG_SHIFT_def drop_bit_eq_div)
    ultimately have "get_tag (v OR 0x8000000000000000) = get_tag v OR 0x8000" by simp
    moreover have "get_tag POSITIVE_INFINITY = 0x800F"
      by (simp only: POSITIVE_INFINITY_def value_double_def get_tag_with) (simp add: get_tag_def TAG_SHIFT_def drop_bit_eq_div)
    ultimately show False using tag assms(2)
    (*with tag assms(2) show False*)
      by (auto simp: is_nan_def nan_tag is_infinity_def)
  qed
  ultimately show ?thesis by (simp add: as_number_def as_double_def)
qed

lemma bigint_equals:
  assumes "is_number v"
  shows "number_equals_bigint v n = bigint_equals_number_spec n (as_number v)"
proof (cases "is_nan v \<or> is_infinity v")
  case True
  with special_not_finite [OF assms] show ?thesis
    by (simp add: number_equals_bigint_def bigint_equals_number_spec_def)
next
  case False
  have "\<not> f64_is_finite b \<Longrightarrow> \<not> f64_is_integral b" for b by (simp add: f64_is_integral_def)
  with False f64_is_integral_truncated [of "as_number v"] integer_equal [of "as_number v" n] show ?thesis
    by (auto simp: number_equals_bigint_def bigint_equals_number_spec_def Let_def)
qed

text \<open>Scripts return values of the language.\<close>

definition scripts_return_values :: "('s, 'e) environment \<Rightarrow> bool" where
  "scripts_return_values env \<longleftrightarrow>
     (\<forall>function this arguments s v s'. call_object env function this arguments s = (Inr v, s') \<longrightarrow> language_value v)"

lemma returned_value:
  "scripts_return_values env \<Longrightarrow> call_object env function this arguments s = (Inr v, s') \<Longrightarrow> language_value v"
  unfolding scripts_return_values_def by blast

lemma call_methods_value:
  "scripts_return_values env \<Longrightarrow> call_methods env object names s = (Inr v, s') \<Longrightarrow> language_value v"
  by (induction names arbitrary: s) (auto dest: returned_value split: prod.splits sum.splits if_splits)

lemma to_primitive_value:
  assumes "scripts_return_values env" and "language_value v" and "to_primitive env v preferred s = (Inr p, s')"
  shows "language_value p"
  using assms(2,3) call_methods_value [OF assms(1)] returned_value [OF assms(1)]
  unfolding to_primitive_def ordinary_to_primitive_def
  by (auto split: prod.splits sum.splits if_split_asm option.splits simp del: call_methods.simps)

lemma to_number_primitive:
  assumes "\<not> is_object env v" and "language_value v" and "to_number env v s = (Inr n, s')"
  shows "canonical_number n"
proof -
  have "is_number v \<Longrightarrow> canonical_number v"
    using assms(2) pointer_not_number constant_values by (auto simp: language_value_def)
  with assms(1,3) show ?thesis
    by (subst (asm) to_number.simps)
      (auto simp: string_to_number_def split: if_splits heap_item_kind.splits option.splits)
qed

lemma to_number_canonical:
  assumes "scripts_return_values env" and "language_value v" and "to_number env v s = (Inr n, s')"
  shows "canonical_number n"
proof (cases "is_object env v")
  case True
  then have "\<not> is_number v" "is_pointer v" using pointer_not_number by (auto simp: is_object_def)
  with assms(3) True obtain p s1 where p: "to_primitive env v PreferNumber s = (Inr p, s1)"
    and n: "to_number env p s1 = (Inr n, s')"
    by (subst (asm) to_number.simps) (auto split: prod.splits sum.splits)
  show ?thesis
    using to_number_primitive [OF to_primitive_primitive [OF p] to_primitive_value [OF assms(1,2) p] n] .
qed (rule to_number_primitive [OF _ assms(2,3)])

lemma to_number_value:
  "scripts_return_values env \<Longrightarrow> language_value v \<Longrightarrow> to_number env v s = (Inr n, s') \<Longrightarrow> language_value n"
  by (simp add: language_value_def to_number_canonical)

lemmas operand_simps = constant_values strictly_equal_spec_def same_kind_equal_def is_object_def as_string_def
  as_bigint_def bigint_equals is_bool_def has_tag_def tag_values POINTER_TAG_def

lemma types_differ: "type_of_value env x \<noteq> type_of_value env y \<Longrightarrow> (x = y) = False"
  by auto

lemma pointer_not_double: "is_pointer v \<Longrightarrow> \<not> is_double v"
  using pointer_not_number by (auto simp: is_number_def)

lemma constant_not_double [simp]:
  "\<not> is_double value_undefined" "\<not> is_double value_null" "\<not> is_double (value_bool b)"
  using constant_values by (simp_all add: is_number_def)

lemma pointer_tag: "is_pointer v \<Longrightarrow> get_tag v = 0"
  by (simp add: is_pointer_def has_tag_def POINTER_TAG_def)

text \<open>C32: On values of the language is_loosely_equal is IsLooselyEqual of ECMAScript: the same results,
  errors and effects, whatever the types of the operands, and it never panics where the standard gives a
  result.\<close>

theorem loose_equality_correct:
  assumes "scripts_return_values env" and "language_value x" and "language_value y"
  shows "is_loosely_equal env x y s = loosely_equal_spec env x y s"
  using assms(2,3)
proof (induction "conversion_rank env x + conversion_rank env y" arbitrary: x y s rule: less_induct)
  case less
  have bool_x: "is_loosely_equal env a w s' = loosely_equal_spec env a w s'"
    if "w = y" "is_bool x" "to_number env x s = (Inr a, s')" for a w s'
    using that less rank_of_number [of env x s a s'] to_number_value [OF assms(1), of x s a s'] by simp
  have bool_y: "is_loosely_equal env w a s' = loosely_equal_spec env w a s'"
    if "w = x" "is_bool y" "to_number env y s = (Inr a, s')" for a w s'
    using that less rank_of_number [of env y s a s'] to_number_value [OF assms(1), of y s a s'] by simp
  have object_x: "is_loosely_equal env a w s' = loosely_equal_spec env a w s'"
    if "w = y" "is_object env x" "to_primitive env x PreferNone s = (Inr a, s')" for a w s'
    using that less rank_of_primitive [of env x PreferNone s a s'] to_primitive_value [OF assms(1), of x PreferNone s a s']
    by simp
  have object_y: "is_loosely_equal env w a s' = loosely_equal_spec env w a s'"
    if "w = x" "is_object env y" "to_primitive env y PreferNone s = (Inr a, s')" for a w s'
    using that less rank_of_primitive [of env y PreferNone s a s'] to_primitive_value [OF assms(1), of y PreferNone s a s']
    by simp
  note conversions = bool_x bool_y object_x object_y
  note code = is_loosely_equal.simps [of env x y s] loosely_equal_spec.simps [of env x y s]
  show ?case
    unfolding code
    by (rule language_cases [OF less.prems(1), of env]; rule language_cases [OF less.prems(2), of env];
        simp add: operand_simps pointer_tag pointer_not_number number_tag_cases conversions pointer_not_double
          types_differ [of env] split: prod.split sum.split; auto?)
qed

text \<open>Scripts for the examples: every object converts to 5.\<close>

definition sample_environment :: "(unit, unit) environment" where
  "sample_environment =
     \<lparr>contents = (\<lambda>a. if a = 0x2000 then StringItem [0x35] else if a = 0x3000 then BigIntItem 5 else ObjectItem),
      get_to_primitive_method = (\<lambda>_ s. (Inr None, s)), get_named = (\<lambda>_ _ s. (Inr 0x1000, s)),
      callable = (\<lambda>_. True), call_object = (\<lambda>_ _ _ s. (Inr (value_smi 5), s)), hint_string = (\<lambda>_. 0x2000),
      type_error = (), range_error = (), new_bigint = (\<lambda>_. 0x3000), parse_string_to_number = (\<lambda>_. Some (f64_of_int 5)),
      parse_string_to_bigint = (\<lambda>_. Some 5)\<rparr>"

lemma sample_values: "scripts_return_values sample_environment"
  by (simp add: scripts_return_values_def sample_environment_def language_value_def)

lemma loose_equality_correct_witness:
  "is_loosely_equal sample_environment 0x1000 (value_smi 5) () = (Inr True, ())"
proof -
  have pointer: "is_pointer 0x1000" by (simp add: is_pointer_def has_tag_def get_tag_def TAG_SHIFT_def POINTER_TAG_def drop_bit_eq_div)
  have object: "type_of_value sample_environment 0x1000 = ObjectType"
    using pointer pointer_not_number by (simp add: type_of_value_def sample_environment_def)
  have number: "type_of_value sample_environment (value_smi 5) = NumberType"
    by (simp add: type_of_value_def is_number_def smi_value)
  have primitive: "to_primitive sample_environment 0x1000 PreferNone () = (Inr (value_smi 5), ())"
    using pointer by (simp add: to_primitive_def ordinary_to_primitive_def is_object_def sample_environment_def
        smi_value number_tags is_number_def)
  have "f64_eq (as_number (value_smi 5)) (as_number (value_smi 5))"
    using not_nan_of_int [of 5] by (simp add: f64_eq_def as_number_smi)
  then show ?thesis
    using loose_equality_correct [OF sample_values, of "0x1000" "value_smi 5" "()"] pointer
    by (simp add: language_value_def loosely_equal_spec.simps object number primitive strictly_equal_spec_def)
qed

section \<open>Order\<close>

lemma cmp_units_less: "cmp_units xs ys = Less \<longleftrightarrow> xs < ys"
  by (induction xs ys rule: cmp_units.induct) auto

lemma number_nan: "canonical_number v \<Longrightarrow> is_nan v \<longleftrightarrow> f64_is_nan (as_number v)"
proof
  assume "is_nan v"
  then have "is_double v" by (simp add: is_double_def)
  with \<open>is_nan v\<close> show "f64_is_nan (as_number v)"
    by (simp add: as_number_double is_nan_def quiet_bits CANONICAL_NAN_def)
qed (simp add: canonical_number_def)

lemma infinity_tests:
  assumes "\<not> f64_is_nan b"
  shows "f64_eq b F64_INFINITY \<longleftrightarrow> f64_is_infinite b \<and> \<not> f64_negative b"
    and "f64_eq b F64_NEG_INFINITY \<longleftrightarrow> f64_is_infinite b \<and> f64_negative b"
proof -
  have "\<not> f64_is_nan F64_INFINITY" "\<not> f64_is_nan F64_NEG_INFINITY"
    "\<not> f64_is_zero F64_INFINITY" "\<not> f64_is_zero F64_NEG_INFINITY"
    by (simp_all add: f64_is_nan_def f64_is_zero_def f64_exponent_def f64_mantissa_def F64_INFINITY_def F64_NEG_INFINITY_def)
  with assms f64_infinite_values(1) [of b] f64_infinite_values(2,3)
  show "f64_eq b F64_INFINITY \<longleftrightarrow> f64_is_infinite b \<and> \<not> f64_negative b"
    and "f64_eq b F64_NEG_INFINITY \<longleftrightarrow> f64_is_infinite b \<and> f64_negative b"
    by (auto simp: f64_eq_def F64_INFINITY_def F64_NEG_INFINITY_def)
qed

lemma compare_with_zero:
  assumes "f64_is_finite b"
  shows "f64_lt 0 b \<longleftrightarrow> 0 < f64_real b" and "f64_lt b 0 \<longleftrightarrow> f64_real b < 0"
proof -
  have "f64_is_finite 0" "f64_real 0 = 0"
    by (simp_all add: f64_is_finite_def f64_exponent_def f64_real_def f64_significand_def f64_mantissa_def)
  then show "f64_lt 0 b \<longleftrightarrow> 0 < f64_real b" "f64_lt b 0 \<longleftrightarrow> f64_real b < 0"
    using f64_lt_real [of 0 b] f64_lt_real [of b 0] assms by simp_all
qed

lemma not_infinite_finite: "\<not> f64_is_nan b \<Longrightarrow> f64_is_infinite b \<or> f64_is_finite b"
  by (auto simp: f64_is_nan_def f64_is_infinite_def f64_is_finite_def)

lemma bigint_less_number:
  assumes "canonical_number v"
  shows "bigint_less_than_number n v =
    (if f64_is_nan (as_number v) then value_undefined
     else value_bool (extended_less (0, real_of_int n) (f64_extended (as_number v))))"
proof (cases "f64_is_nan (as_number v) \<or> f64_is_infinite (as_number v)")
  case True
  then show ?thesis
    by (auto simp: bigint_less_than_number_def number_nan [OF assms] Let_def infinity_tests extended_less_def f64_extended_def)
next
  case False
  then have "f64_is_finite (as_number v)" using not_infinite_finite by blast
  with False integer_less [of n "as_number v"] show ?thesis
    by (auto simp: bigint_less_than_number_def number_nan [OF assms] Let_def infinity_tests extended_less_def
        f64_extended_def cmp_int_def f64_is_integral_truncated compare_with_zero)
qed

lemma number_less_bigint:
  assumes "canonical_number v"
  shows "number_less_than_bigint v n =
    (if f64_is_nan (as_number v) then value_undefined
     else value_bool (extended_less (f64_extended (as_number v)) (0, real_of_int n)))"
proof (cases "f64_is_nan (as_number v) \<or> f64_is_infinite (as_number v)")
  case True
  then show ?thesis
    by (auto simp: number_less_than_bigint_def number_nan [OF assms] Let_def infinity_tests extended_less_def f64_extended_def)
next
  case False
  then have "f64_is_finite (as_number v)" using not_infinite_finite by blast
  with False integer_greater [of "as_number v" n] show ?thesis
    by (auto simp: number_less_than_bigint_def number_nan [OF assms] Let_def infinity_tests extended_less_def
        f64_extended_def cmp_int_def f64_is_integral_truncated compare_with_zero)
qed

text \<open>
  \<open>IsLessThan\<close> of two primitive values: strings by their code units, everything else by its mathematical
  value; \<open>None\<close> is the \<open>undefined\<close> of the standard.
\<close>

definition mathematical_value :: "('s, 'e) environment \<Rightarrow> value_bits \<Rightarrow> (int \<times> real) option" where
  "mathematical_value env v =
     (if is_bigint env v then Some (0, real_of_int (as_bigint env v))
      else if f64_is_nan (as_number v) then None
      else Some (f64_extended (as_number v)))"

definition compare_values :: "(int \<times> real) option \<Rightarrow> (int \<times> real) option \<Rightarrow> bool option" where
  "compare_values x y = (case (x, y) of (Some a, Some b) \<Rightarrow> Some (extended_less a b) | _ \<Rightarrow> None)"

definition less_than_spec ::
    "('s, 'e) environment \<Rightarrow> value_bits \<Rightarrow> value_bits \<Rightarrow> ('s, 'e, bool option) effect" where
  "less_than_spec env x y s =
     (let tx = type_of_value env x; ty = type_of_value env y in
      if tx = StringType \<and> ty = StringType then (Inr (Some (as_string env x < as_string env y)), s)
      else if tx = BigIntType \<and> ty = StringType then
        (Inr (map_option (\<lambda>n. as_bigint env x < n) (string_to_bigint env (as_string env y))), s)
      else if tx = StringType \<and> ty = BigIntType then
        (Inr (map_option (\<lambda>n. n < as_bigint env y) (string_to_bigint env (as_string env x))), s)
      else (case to_numeric env x s of
          (Inl e, s) \<Rightarrow> (Inl e, s)
        | (Inr nx, s) \<Rightarrow>
            (case to_numeric env y s of
               (Inl e, s) \<Rightarrow> (Inl e, s)
             | (Inr ny, s) \<Rightarrow>
                 (Inr (compare_values (mathematical_value env nx) (mathematical_value env ny)), s))))"

fun less_than_value :: "bool option \<Rightarrow> value_bits" where
  "less_than_value None = value_undefined"
| "less_than_value (Some b) = value_bool b"

lemma to_numeric_value:
  assumes "scripts_return_values env" and "language_value v" and "to_numeric env v s = (Inr n, s')"
  shows "is_bigint env n \<or> canonical_number n"
proof -
  obtain r s1 where r: "to_primitive env v PreferNumber s = (r, s1)" by fastforce
  then obtain p where p: "to_primitive env v PreferNumber s = (Inr p, s1)"
    using assms(3) by (cases r) (auto simp: to_numeric_def)
  show ?thesis
    using assms(3) p to_number_canonical [OF assms(1) to_primitive_value [OF assms(1,2) p], of s1 n s']
    by (auto simp: to_numeric_def split: if_splits)
qed

lemma number_not_bigint: "canonical_number n \<Longrightarrow> \<not> is_bigint env n"
  using number_tags by (simp add: canonical_number_def is_bigint_def)

text \<open>The comparison once both operands are numeric.\<close>

definition compare_numeric :: "('s, 'e) environment \<Rightarrow> value_bits \<Rightarrow> value_bits \<Rightarrow> value_bits" where
  "compare_numeric env x y =
     less_than_value (compare_values (mathematical_value env x) (mathematical_value env y))"

lemma bigints_compared: "is_bigint env x \<Longrightarrow> is_bigint env y \<Longrightarrow>
    value_bool (as_bigint env x < as_bigint env y) = compare_numeric env x y"
  by (simp add: compare_numeric_def compare_values_def mathematical_value_def extended_less_def)

lemma numbers_compared: "canonical_number x \<Longrightarrow> canonical_number y \<Longrightarrow>
    (if is_nan x \<or> is_nan y then value_undefined else value_bool (f64_lt (as_number x) (as_number y)))
      = compare_numeric env x y"
  by (simp add: number_nan compare_numeric_def compare_values_def mathematical_value_def number_not_bigint f64_lt_extended)

lemma mixed_compared:
  "is_bigint env x \<Longrightarrow> canonical_number y \<Longrightarrow> bigint_less_than_number (as_bigint env x) y = compare_numeric env x y"
  "canonical_number x \<Longrightarrow> is_bigint env y \<Longrightarrow> number_less_than_bigint x (as_bigint env y) = compare_numeric env x y"
  by (simp_all add: bigint_less_number number_less_bigint compare_numeric_def compare_values_def
      mathematical_value_def number_not_bigint)

lemma numeric_less_than_correct:
  assumes "scripts_return_values env" and "language_value x" and "language_value y"
  shows "numeric_less_than env x y s =
    (case to_numeric env x s of
       (Inl e, s) \<Rightarrow> (Inl e, s)
     | (Inr nx, s) \<Rightarrow>
         (case to_numeric env y s of (Inl e, s) \<Rightarrow> (Inl e, s) | (Inr ny, s) \<Rightarrow> (Inr (compare_numeric env nx ny), s)))"
proof (cases "to_numeric env x s")
  case x: (Pair r s1)
  show ?thesis
  proof (cases r)
    case (Inr nx)
    show ?thesis
    proof (cases "to_numeric env y s1")
      case y: (Pair q s2)
      show ?thesis
      proof (cases q)
        case q: (Inr ny)
        note operands = to_numeric_value [OF assms(1,2), of s nx s1] to_numeric_value [OF assms(1,3), of s1 ny s2]
        show ?thesis
          using operands x y q Inr bigints_compared [where env = env and x = nx and y = ny]
            numbers_compared [where env = env and x = nx and y = ny]
            mixed_compared [where env = env and x = nx and y = ny] number_not_bigint [where env = env]
          by (auto simp: numeric_less_than_def Let_def)
      qed (use x y Inr in \<open>simp add: numeric_less_than_def\<close>)
    qed
  qed (use x in \<open>simp add: numeric_less_than_def\<close>)
qed

text \<open>C33: On values of the language is_less_than is IsLessThan of ECMAScript: strings are ordered by
  their code units, and numbers and big integers, also mixed, by their mathematical values, although the
  code compares a big integer with the truncation of a number.\<close>

theorem is_less_than_correct:
  assumes "scripts_return_values env" and "language_value x" and "language_value y"
  shows "is_less_than env x y s = map_prod (map_sum id less_than_value) id (less_than_spec env x y s)"
proof -
  note numeric = numeric_less_than_correct [OF assms, of s]
  show ?thesis
    unfolding is_less_than_def numeric
    by (rule language_cases [OF assms(2), of env]; rule language_cases [OF assms(3), of env];
        simp add: less_than_spec_def number_tags compare_numeric_def cmp_units_less as_string_def as_bigint_def
          split: prod.split sum.split option.split)
qed

lemma is_less_than_correct_witness:
  "is_less_than sample_environment 0x3000 (value_double F64_INFINITY) () = (Inr (value_bool True), ())"
proof -
  define y where "y = value_double F64_INFINITY"
  have inf: "f64_is_infinite F64_INFINITY" "\<not> f64_negative F64_INFINITY" "\<not> f64_is_nan F64_INFINITY"
    by (simp_all add: F64_INFINITY_def f64_is_infinite_def f64_is_nan_def f64_exponent_def f64_mantissa_def
        f64_negative_def)
  have y: "canonical_number y" "as_number y = F64_INFINITY"
    using canonical_double [of F64_INFINITY] as_number_double [OF double_is_double, of F64_INFINITY] inf
    by (simp_all add: y_def value_double_def)
  have pointer: "is_pointer 0x3000"
    by (simp add: is_pointer_def has_tag_def get_tag_def TAG_SHIFT_def POINTER_TAG_def drop_bit_eq_div)
  have contents: "contents sample_environment 0x3000 = BigIntItem 5"
    by (simp add: sample_environment_def)
  have bigint: "is_bigint sample_environment 0x3000" using pointer contents by (simp add: is_bigint_def)
  have numeric: "to_numeric sample_environment 0x3000 () = (Inr 0x3000, ())"
      "to_numeric sample_environment y () = (Inr y, ())"
    using y pointer contents number_tags [of y] number_not_bigint [of y sample_environment]
    by (simp_all add: to_numeric_def to_primitive_def is_object_def is_bigint_def to_number.simps canonical_number_def)
  have "language_value 0x3000" "language_value y" using y pointer by (simp_all add: language_value_def)
  from is_less_than_correct [OF sample_values this, of "()"] y pointer contents numeric
    pointer_not_number [OF pointer] number_not_bigint [of y sample_environment] inf
  have "is_less_than sample_environment 0x3000 y () = (Inr (value_bool True), ())"
    by (simp add: less_than_spec_def type_of_value_def canonical_number_def compare_values_def mathematical_value_def
        bigint extended_less_def f64_extended_def)
  then show ?thesis by (simp only: y_def)
qed

end
