(* ===== verification/Expression_Correct.thy ===== *)
theory Expression_Correct
  imports Expression Value_Properties Comparison_Correct
begin

text \<open>The six binary operators on integers, and the two conversions of their operands.\<close>

section \<open>Shifts of big integers\<close>

definition bigint_shift_spec :: "int \<Rightarrow> int \<Rightarrow> int" where
  "bigint_shift_spec left right =
     (if right < 0 then left div 2 ^ nat (- right) else left * 2 ^ nat right)"

lemma quotient_floor:
  fixes p :: int
  assumes "0 < p"
  shows "0 \<le> a \<Longrightarrow> bigint_quotient a p = a div p" and "a < 0 \<Longrightarrow> bigint_quotient (a - p + 1) p = a div p"
proof -
  show "0 \<le> a \<Longrightarrow> bigint_quotient a p = a div p"
    using assms by (cases "a = 0") (simp_all add: bigint_quotient_def)
  assume a: "a < 0"
  have "bigint_quotient (a - p + 1) p = - ((p - 1 - a) div p)"
    using a assms by (simp add: bigint_quotient_def algebra_simps)
  also have "(p - 1 - a) div p = - (a div p)"
  proof -
    have "a = a div p * p + a mod p" by simp
    then have "p - 1 - a = (p - 1 - a mod p) + (- (a div p)) * p" by (simp add: algebra_simps)
    then have "(p - 1 - a) div p = (p - 1 - a mod p) div p + - (a div p)"
      using assms by (metis div_mult_self1 less_irrefl add.commute)
    moreover have "(p - 1 - a mod p) div p = 0"
      using assms pos_mod_bound [of p a] pos_mod_sign [of p a] by (intro div_pos_pos_trivial) linarith+
    ultimately show ?thesis by simp
  qed
  finally show "bigint_quotient (a - p + 1) p = a div p" by simp
qed

lemma shift_result:
  "eval_bigint_left_shift left right =
    (if 2 ^ 32 \<le> right then None
     else if right \<le> - (2 ^ 32) then Some 0
     else Some (bigint_shift_spec left right))"
  using quotient_floor [of "2 ^ nat (- right)" left]
  by (simp add: eval_bigint_left_shift_def bigint_shift_spec_def Let_def not_less)

text \<open>The left shift of a big integer is the floor of its product with a power of two, also for
  negative numbers and negative shifts, as long as the shift is smaller than 2 to the 32; a larger one to
  the left is an error.  A larger one to the right gives 0, where every negative number has a negative
  result.\<close>

theorem bigint_left_shift_floor:
  "eval_bigint_left_shift left right =
      (if 2 ^ 32 \<le> right then None
       else if right \<le> - (2 ^ 32) then Some 0
       else Some (bigint_shift_spec left right))
    \<and> (left < 0 \<longrightarrow> bigint_shift_spec left right < 0)"
proof
  show "left < 0 \<longrightarrow> bigint_shift_spec left right < 0"
    by (simp add: bigint_shift_spec_def mult_neg_pos pos_imp_zdiv_neg_iff)
qed (rule shift_result)

lemma bigint_left_shift_floor_witness:
  "eval_bigint_left_shift (- 5) (- 1) = Some (- 3)"
  using bigint_left_shift_floor [of "- 5" "- 1"]
  by (simp add: bigint_shift_spec_def)

section \<open>Operators on 32 bit integers\<close>

lemma primitive_number:
  assumes "\<not> is_object env v" and "to_numeric env v s = (Inr n, s')" and "\<not> is_bigint env n"
  shows "s' = s \<and> to_number env v s = (Inr n, s)"
proof -
  have "to_number env v s = (Inr n, s')"
    using assms by (auto simp: to_numeric_def to_primitive_def split: if_splits)
  moreover from this have "s' = s"
    using assms(1) by (subst (asm) to_number.simps) (auto split: if_splits heap_item_kind.splits)
  ultimately show ?thesis by simp
qed

lemma masked: "unat (w AND 0x1F) = unat w mod 32" for w :: u32
proof -
  have "mask 5 = (0x1F :: u32)" by (simp add: mask_eq_exp_minus_1)
  then show ?thesis using unat_and_mask [of w 5] by simp
qed

text \<open>C34: On operands that are not objects and whose numeric values are numbers, not big integers, of
  absolute value below 2 to the 63, infinite or NaN, the operators on integers convert both to 32 bits as
  ECMAScript does and shift by the low five bits.\<close>

theorem integer_operators_correct:
  assumes "\<not> is_object env x" and "\<not> is_object env y"
    and "to_numeric env x s = (Inr m, s1)" and "to_numeric env y s1 = (Inr n, s2)"
    and "\<not> is_bigint env m" and "\<not> is_bigint env n"
    and "f64_is_finite (as_number m) \<longrightarrow> f64_abs_floor (as_number m) < 2 ^ 63"
    and "f64_is_finite (as_number n) \<longrightarrow> f64_abs_floor (as_number n) < 2 ^ 63"
  shows "eval_bitwise_and env x y s = (Inr (value_smi (to_int_spec (as_number m) AND to_int_spec (as_number n))), s)
    \<and> eval_bitwise_or env x y s = (Inr (value_smi (to_int_spec (as_number m) OR to_int_spec (as_number n))), s)
    \<and> eval_bitwise_xor env x y s = (Inr (value_smi (to_int_spec (as_number m) XOR to_int_spec (as_number n))), s)
    \<and> eval_shift_left env x y s =
        (Inr (value_smi (push_bit (unat (to_int_spec (as_number n) :: u32) mod 32) (to_int_spec (as_number m)))), s)
    \<and> eval_shift_right_arithmetic env x y s =
        (Inr (value_smi (signed_drop_bit (unat (to_int_spec (as_number n) :: u32) mod 32) (to_int_spec (as_number m)))), s)
    \<and> eval_shift_right_logical env x y s =
        (Inr (value_of_u32 (drop_bit (unat (to_int_spec (as_number n) :: u32) mod 32) (to_int_spec (as_number m)))), s)"
proof -
  from primitive_number [OF assms(1,3,5)] have x: "s1 = s" "to_number env x s = (Inr m, s)" by simp_all
  from primitive_number [OF assms(2,4,6)] x have y: "s2 = s" "to_number env y s = (Inr n, s)" by simp_all
  note conversions = integer_conversions [OF x(2) assms(7)] integer_conversions [OF y(2) assms(8)]
  note numeric = assms(3,4) [unfolded x(1) y(1)]
  note operators = numeric_operands_def int32_operands_def must_def numeric assms(5,6) conversions masked
  show ?thesis
    by (simp add: eval_bitwise_and_def eval_bitwise_or_def eval_bitwise_xor_def eval_shift_left_def
        eval_shift_right_arithmetic_def eval_shift_right_logical_def operators)
qed

lemma integer_operators_correct_witness:
  "eval_shift_right_logical sample_environment (value_smi (- 1)) (value_smi 33) () =
    (Inr (value_smi 0x7FFFFFFF), ())"
proof -
  have smi: "\<not> is_object sample_environment (value_smi i)" "\<not> is_bigint sample_environment (value_smi i)"
      "to_numeric sample_environment (value_smi i) () = (Inr (value_smi i), ())" for i
    using number_tags [OF number_values(1), of i]
    by (simp_all add: is_object_def is_bigint_def to_numeric_def to_primitive_def to_number.simps number_values)
  have small: "f64_abs_floor (as_number (value_smi i)) < 2 ^ 63" for i
  proof -
    have "- (2 ^ 31) \<le> sint i" "sint i < 2 ^ 31" using sint_range_size [of i] by (simp_all add: word_size)
    then have i: "\<bar>sint i\<bar> < 2 ^ 53" by (simp add: abs_less_iff)
    from f64_of_int_truncated(1) [OF this] i have "int (f64_abs_floor (f64_of_int (sint i))) < 2 ^ 53"
      by (simp add: f64_truncated_def split: if_splits)
    then show ?thesis by (simp add: as_number_smi)
  qed
  have spec: "to_int_spec (as_number (value_smi i)) = i" for i :: u32
    using spec_of_smi [where 'a = 32, of "value_smi i"] by (simp add: smi_value)
  show ?thesis
    using integer_operators_correct [of sample_environment "value_smi (- 1)" "value_smi 33" "()" "value_smi (- 1)" "()"
        "value_smi 33" "()"] smi small spec
    by (simp add: value_of_u32_def SMI_MAX_def drop_bit_eq_div)
qed

section \<open>Converting twice\<close>

definition integer_operators ::
    "('s, 'e) environment \<Rightarrow> (value_bits \<Rightarrow> value_bits \<Rightarrow> ('s, 'e, value_bits) effect) list" where
  "integer_operators env =
     [eval_bitwise_and env, eval_bitwise_or env, eval_bitwise_xor env, eval_shift_left env,
      eval_shift_right_arithmetic env, eval_shift_right_logical env]"

lemma second_conversion:
  "to_number env x s = (Inl e, s') \<Longrightarrow> to_int32 env x s = (Inl e, s') \<and> to_uint32 env x s = (Inl e, s')"
  "to_number env x s = (Inr l, s') \<Longrightarrow> \<exists>i j. to_int32 env x s = (Inr i, s') \<and> to_uint32 env x s = (Inr j, s')"
proof -
  have "to_number env x s = (Inr x, s)" if "is_smi x" using that by (simp add: to_number_of_number is_number_def)
  then show "to_number env x s = (Inl e, s') \<Longrightarrow> to_int32 env x s = (Inl e, s') \<and> to_uint32 env x s = (Inl e, s')"
    "to_number env x s = (Inr l, s') \<Longrightarrow> \<exists>i j. to_int32 env x s = (Inr i, s') \<and> to_uint32 env x s = (Inr j, s')"
    by (auto simp: to_int32_def to_uint32_def of_number_def)
qed

text \<open>C35: The binary operators on integers, the bitwise ones and the shifts, after converting both operands
  to numbers convert each of them a second time, from the original value: the methods of an operand that is an
  object run twice.  If they throw the second time, for the left or the right operand, the engine panics
  instead of throwing; otherwise the operator returns in the state that the second conversions leave.\<close>

theorem operand_converted_twice:
  assumes "to_numeric env x s = (Inr m, s1)" and "to_numeric env y s1 = (Inr n, s2)"
    and "\<not> is_bigint env m" and "\<not> is_bigint env n" and "op \<in> set (integer_operators env)"
  shows "(to_number env x s2 = (Inl e, s3) \<longrightarrow> op x y s = (Inl Panic, s3))
    \<and> (to_number env x s2 = (Inr k, s3) \<and> to_number env y s3 = (Inl e, s4) \<longrightarrow> op x y s = (Inl Panic, s4))
    \<and> (to_number env x s2 = (Inr k, s3) \<and> to_number env y s3 = (Inr l, s4) \<longrightarrow> (\<exists>v. op x y s = (Inr v, s4)))"
proof -
  note simps = eval_bitwise_and_def eval_bitwise_or_def eval_bitwise_xor_def eval_shift_left_def
    eval_shift_right_arithmetic_def eval_shift_right_logical_def numeric_operands_def int32_operands_def must_def assms(1-4)
  have "op x y s = (Inl Panic, s3)" if "to_number env x s2 = (Inl e, s3)"
    using assms(5) second_conversion(1) [OF that] by (auto simp: integer_operators_def simps)
  moreover have "op x y s = (Inl Panic, s4)" if "to_number env x s2 = (Inr k, s3)" "to_number env y s3 = (Inl e, s4)"
    using assms(5) second_conversion(2) [OF that(1)] second_conversion(1) [OF that(2)]
    by (auto simp: integer_operators_def simps)
  moreover have "\<exists>v. op x y s = (Inr v, s4)" if "to_number env x s2 = (Inr k, s3)" "to_number env y s3 = (Inr l, s4)"
    using assms(5) second_conversion(2) [OF that(1)] second_conversion(2) [OF that(2)]
    by (auto simp: integer_operators_def simps)
  ultimately show ?thesis by blast
qed

text \<open>An object whose \<open>valueOf\<close> returns 5 once and throws afterwards.\<close>

definition counting_environment :: "(nat, unit) environment" where
  "counting_environment =
     \<lparr>contents = (\<lambda>_. ObjectItem), get_to_primitive_method = (\<lambda>_ s. (Inr None, s)),
      get_named = (\<lambda>_ _ s. (Inr 0x1000, s)), callable = (\<lambda>_. True),
      call_object = (\<lambda>_ _ _ s. (if s = 0 then Inr (value_smi 5) else Inl (Throw ()), Suc s)),
      hint_string = (\<lambda>_. 0x2000), type_error = (), range_error = (), new_bigint = (\<lambda>_. 0x3000),
      parse_string_to_number = (\<lambda>_. None), parse_string_to_bigint = (\<lambda>_. None)\<rparr>"

lemma operand_converted_twice_witness:
  "eval_bitwise_and counting_environment 0x1000 (value_smi 1) 0 = (Inl Panic, 2)"
proof -
  have pointer: "is_pointer 0x1000"
    by (simp add: is_pointer_def has_tag_def get_tag_def TAG_SHIFT_def POINTER_TAG_def drop_bit_eq_div)
  have object: "is_object counting_environment 0x1000"
    using pointer by (simp add: is_object_def counting_environment_def)
  have smi: "\<not> is_object counting_environment (value_smi i)" "\<not> is_bigint counting_environment (value_smi i)"
      "to_numeric counting_environment (value_smi i) s = (Inr (value_smi i), s)" for i s
    using number_tags [OF number_values(1), of i]
    by (simp_all add: is_object_def is_bigint_def to_numeric_def to_primitive_def to_number.simps number_values)
  have scripts: "get_to_primitive_method counting_environment v n = (Inr None, n)"
    "get_named counting_environment v name n = (Inr 0x1000, n)" "callable counting_environment v"
    "call_object counting_environment v w args n = (if n = 0 then Inr (value_smi 5) else Inl (Throw ()), Suc n)"
    "type_error counting_environment = ()" for v name n w args
    by (simp_all add: counting_environment_def)
  have first: "to_primitive counting_environment 0x1000 PreferNumber 0 = (Inr (value_smi 5), 1)"
    using object smi(1) [of 5] by (simp add: to_primitive_def ordinary_to_primitive_def scripts)
  have second: "to_primitive counting_environment 0x1000 PreferNumber 1 = (Inl (Throw ()), 2)"
    using object by (simp add: to_primitive_def ordinary_to_primitive_def scripts)
  have "to_numeric counting_environment 0x1000 0 = (Inr (value_smi 5), 1)"
    using first smi(2) [of 5] by (simp add: to_numeric_def to_number.simps number_values)
  moreover have "to_number counting_environment 0x1000 1 = (Inl (Throw ()), 2)"
    using pointer pointer_not_number [OF pointer] object second by (subst to_number.simps) simp
  ultimately show ?thesis
    using operand_converted_twice [of counting_environment "0x1000" 0 "value_smi 5" 1 "value_smi 1" "value_smi 1" 1
        "eval_bitwise_and counting_environment" "Throw ()" 2] smi by (simp add: integer_operators_def)
qed

end
