(* ===== verification/Bytecode_Operand.thy ===== *)
theory Bytecode_Operand
  imports Prelude
begin

text \<open>
  \<open>runtime/bytecode/width.rs\<close>, \<open>operand.rs\<close> and \<open>register_allocator.rs\<close>: the three widths of operands,
  the least width an operand needs, registers as signed stack slots, and the allocator of temporary
  registers.  The generator works on operands of the largest width, 32 bit words; \<open>operand_value\<close> is the
  number an operand of a width stands for, signed or unsigned by its type.  Operands are stored in native
  byte order, here little endian.
\<close>

section \<open>Widths\<close>

datatype width = Narrow | Wide | ExtraWide

fun width_index :: "width \<Rightarrow> nat" where
  "width_index Narrow = 0"
| "width_index Wide = 1"
| "width_index ExtraWide = 2"

instantiation width :: linorder
begin

definition less_eq_width :: "width \<Rightarrow> width \<Rightarrow> bool" where
  "less_eq_width v w \<longleftrightarrow> width_index v \<le> width_index w"

definition less_width :: "width \<Rightarrow> width \<Rightarrow> bool" where
  "less_width v w \<longleftrightarrow> width_index v < width_index w"

instance
proof
  fix u v w :: width
  show "v < w \<longleftrightarrow> v \<le> w \<and> \<not> w \<le> v" by (auto simp: less_eq_width_def less_width_def)
  show "v \<le> v" "u \<le> v \<Longrightarrow> v \<le> w \<Longrightarrow> u \<le> w" "v \<le> w \<or> w \<le> v" by (auto simp: less_eq_width_def)
  show "v \<le> w \<Longrightarrow> w \<le> v \<Longrightarrow> v = w" by (cases v; cases w) (simp_all add: less_eq_width_def)
qed

end

fun num_bytes :: "width \<Rightarrow> nat" where
  "num_bytes Narrow = 1"
| "num_bytes Wide = 2"
| "num_bytes ExtraWide = 4"

definition UNSIGNED_MAX :: "width \<Rightarrow> nat" where
  "UNSIGNED_MAX w = 2 ^ (8 * num_bytes w) - 1"

definition SIGNED_MAX :: "width \<Rightarrow> int" where
  "SIGNED_MAX w = 2 ^ (8 * num_bytes w - 1) - 1"

definition SIGNED_MIN :: "width \<Rightarrow> int" where
  "SIGNED_MIN w = - (2 ^ (8 * num_bytes w - 1))"

text \<open>\<open>write_into\<close>.\<close>

definition width_bytes :: "nat \<Rightarrow> nat \<Rightarrow> u8 list" where
  "width_bytes n k = map (\<lambda>i. of_nat (k div 256 ^ i)) [0..<n]"

definition write_into :: "width \<Rightarrow> u8 list \<Rightarrow> nat \<Rightarrow> u8 list" where
  "write_into w bytes k = bytes @ width_bytes (num_bytes w) k"

fun bytes_uint :: "u8 list \<Rightarrow> nat" where
  "bytes_uint [] = 0"
| "bytes_uint (b # bs) = unat b + 256 * bytes_uint bs"

definition min_width_for_signed :: "int \<Rightarrow> width" where
  "min_width_for_signed k =
     (if SIGNED_MIN Narrow \<le> k \<and> k \<le> SIGNED_MAX Narrow then Narrow
      else if SIGNED_MIN Wide \<le> k \<and> k \<le> SIGNED_MAX Wide then Wide
      else ExtraWide)"

definition min_width_for_unsigned :: "nat \<Rightarrow> width" where
  "min_width_for_unsigned k =
     (if k \<le> UNSIGNED_MAX Narrow then Narrow
      else if k \<le> UNSIGNED_MAX Wide then Wide
      else ExtraWide)"

section \<open>Operands\<close>

datatype operand_type = RegisterType | UIntType | SIntType | ConstantIndexType

definition is_signed :: "operand_type \<Rightarrow> bool" where
  "is_signed t \<longleftrightarrow> t = RegisterType \<or> t = SIntType"

text \<open>\<open>as_signed\<close> at a width.\<close>

definition as_signed :: "width \<Rightarrow> nat \<Rightarrow> int" where
  "as_signed w k = (if int k \<le> SIGNED_MAX w then int k else int k - 2 ^ (8 * num_bytes w))"

definition operand_value :: "operand_type \<Rightarrow> width \<Rightarrow> nat \<Rightarrow> int" where
  "operand_value t w k = (if is_signed t then as_signed w k else int k)"

definition min_width :: "operand_type \<Rightarrow> u32 \<Rightarrow> width" where
  "min_width t v =
     (if is_signed t then min_width_for_signed (as_signed ExtraWide (unat v))
      else min_width_for_unsigned (unat v))"

text \<open>\<open>to_narrow\<close> and \<open>to_wide\<close> cast to fewer bits.\<close>

definition to_width :: "width \<Rightarrow> u32 \<Rightarrow> nat" where
  "to_width w v = unat v mod 2 ^ (8 * num_bytes w)"

text \<open>\<open>try_from_signed\<close> and \<open>try_from_unsigned\<close> at the largest width.\<close>

definition try_from_signed :: "int \<Rightarrow> u32 option" where
  "try_from_signed k =
     (if SIGNED_MIN ExtraWide \<le> k \<and> k \<le> SIGNED_MAX ExtraWide then Some (word_of_int k) else None)"

definition try_from_unsigned :: "nat \<Rightarrow> u32 option" where
  "try_from_unsigned k = (if k \<le> UNSIGNED_MAX ExtraWide then Some (word_of_nat k) else None)"

section \<open>Registers\<close>

definition SCOPE_SLOT_INDEX :: nat where "SCOPE_SLOT_INDEX = 3"
definition CLOSURE_SLOT_INDEX :: nat where "CLOSURE_SLOT_INDEX = 5"
definition RECEIVER_SLOT_INDEX :: nat where "RECEIVER_SLOT_INDEX = 7"
definition FIRST_ARGUMENT_SLOT_INDEX :: nat where "FIRST_ARGUMENT_SLOT_INDEX = 8"

definition encode_argument_register :: "nat \<Rightarrow> int" where
  "encode_argument_register argument_index = int (argument_index + FIRST_ARGUMENT_SLOT_INDEX)"

definition decode_argument_register :: "int \<Rightarrow> nat" where
  "decode_argument_register encoded_value = nat encoded_value - FIRST_ARGUMENT_SLOT_INDEX"

definition encode_local_register :: "nat \<Rightarrow> int" where
  "encode_local_register register_index = - 1 - int register_index"

definition decode_local_register :: "int \<Rightarrow> nat" where
  "decode_local_register encoded_value = nat (- 1 - encoded_value)"

definition MAX_ARGUMENT_INDEX :: nat where
  "MAX_ARGUMENT_INDEX = decode_argument_register (SIGNED_MAX ExtraWide)"

definition MAX_LOCAL_INDEX :: nat where
  "MAX_LOCAL_INDEX = decode_local_register (SIGNED_MIN ExtraWide)"

text \<open>The debug assertions on the indices are panics.\<close>

definition argument_register :: "nat \<Rightarrow> u32 option" where
  "argument_register index =
     (if index \<le> MAX_ARGUMENT_INDEX then Some (word_of_int (encode_argument_register index)) else None)"

definition local_register :: "nat \<Rightarrow> u32 option" where
  "local_register index =
     (if index \<le> MAX_LOCAL_INDEX then Some (word_of_int (encode_local_register index)) else None)"

definition this_register :: u32 where "this_register = word_of_nat RECEIVER_SLOT_INDEX"
definition scope_register :: u32 where "scope_register = word_of_nat SCOPE_SLOT_INDEX"
definition closure_register :: u32 where "closure_register = word_of_nat CLOSURE_SLOT_INDEX"

definition is_argument :: "u32 \<Rightarrow> bool" where
  "is_argument r \<longleftrightarrow> int FIRST_ARGUMENT_SLOT_INDEX \<le> as_signed ExtraWide (unat r)"

definition is_local :: "u32 \<Rightarrow> bool" where
  "is_local r \<longleftrightarrow> as_signed ExtraWide (unat r) < 0"

definition is_this :: "u32 \<Rightarrow> bool" where "is_this r \<longleftrightarrow> unat r = RECEIVER_SLOT_INDEX"
definition is_scope :: "u32 \<Rightarrow> bool" where "is_scope r \<longleftrightarrow> unat r = SCOPE_SLOT_INDEX"
definition is_closure :: "u32 \<Rightarrow> bool" where "is_closure r \<longleftrightarrow> unat r = CLOSURE_SLOT_INDEX"

definition argument_index :: "u32 \<Rightarrow> nat" where
  "argument_index r = decode_argument_register (as_signed ExtraWide (unat r))"

definition local_index :: "u32 \<Rightarrow> nat" where
  "local_index r = decode_local_register (as_signed ExtraWide (unat r))"

section \<open>Temporary registers\<close>

record register_allocator =
  num_local_registers :: nat
  num_allocated :: nat
  max_allocated :: nat

definition new_register_allocator :: "nat \<Rightarrow> register_allocator" where
  "new_register_allocator n = \<lparr>num_local_registers = n, num_allocated = n, max_allocated = n\<rparr>"

text \<open>\<open>Inl ()\<close> is the error \<open>TooManyRegisters\<close>.\<close>

definition allocate :: "register_allocator \<Rightarrow> unit + u32 \<times> register_allocator" where
  "allocate a =
     (let register_index = num_allocated a in
      if MAX_LOCAL_INDEX \<le> register_index then Inl ()
      else (let n = num_allocated a + 1 in
        Inr (word_of_int (encode_local_register register_index),
             a\<lparr>num_allocated := n, max_allocated := max (max_allocated a) n\<rparr>)))"

definition is_temporary_register :: "register_allocator \<Rightarrow> u32 \<Rightarrow> bool" where
  "is_temporary_register a r \<longleftrightarrow> is_local r \<and> num_local_registers a \<le> local_index r"

definition release :: "register_allocator \<Rightarrow> u32 \<Rightarrow> register_allocator option" where
  "release a r =
     (if \<not> is_temporary_register a r then Some a
      else if local_index r + 1 = num_allocated a then Some (a\<lparr>num_allocated := num_allocated a - 1\<rparr>)
      else None)"

definition no_temporaries :: "register_allocator \<Rightarrow> bool" where
  "no_temporaries a \<longleftrightarrow> num_allocated a = num_local_registers a"

section \<open>Bytes\<close>

lemma length_width_bytes [simp]: "length (width_bytes n k) = n"
  by (simp add: width_bytes_def)

lemma width_bytes_Suc: "width_bytes (Suc n) k = of_nat k # width_bytes n (k div 256)"
proof -
  have "[0..<Suc n] = 0 # map Suc [0..<n]" by (simp add: map_Suc_upt upt_conv_Cons)
  then show ?thesis by (simp add: width_bytes_def div_mult2_eq)
qed

lemma bytes_uint_width [simp]: "bytes_uint (width_bytes n k) = k mod 256 ^ n"
proof (induction n arbitrary: k)
  case 0
  then show ?case by (simp add: width_bytes_def)
next
  case (Suc n)
  have "unat (of_nat k :: u8) = k mod 256" by (simp add: unsigned_of_nat take_bit_eq_mod)
  with Suc show ?case by (simp add: width_bytes_Suc mod_mult2_eq)
qed

lemma power_bytes: "(256 :: nat) ^ num_bytes w = 2 ^ (8 * num_bytes w)"
  by (cases w) simp_all

section \<open>Values of operands\<close>

lemma width_cases: "w = Narrow \<or> w = Wide \<or> w = ExtraWide"
  by (cases w) simp_all

lemmas width_defs = SIGNED_MIN_def SIGNED_MAX_def UNSIGNED_MAX_def less_eq_width_def less_width_def

lemma word_bound: "unat (v :: u32) < 2 ^ 32"
  using unsigned_less [of v, where ?'a = nat] by simp

lemma to_extra_wide [simp]: "to_width ExtraWide v = unat v"
  using word_bound [of v] by (simp add: to_width_def)

lemma signed_range: "k < 2 ^ (8 * num_bytes w) \<Longrightarrow> SIGNED_MIN w \<le> as_signed w k \<and> as_signed w k \<le> SIGNED_MAX w"
  by (cases w) (auto simp: as_signed_def width_defs)

text \<open>A signed number that fits keeps its value when bits are cut off.\<close>

lemma signed_cut:
  assumes "SIGNED_MIN w \<le> as_signed ExtraWide (unat v)" and "as_signed ExtraWide (unat v) \<le> SIGNED_MAX w"
  shows "as_signed w (to_width w v) = as_signed ExtraWide (unat v)"
proof -
  define k where "k = unat v"
  have k: "k < 4294967296" using word_bound [of v] by (simp add: k_def)
  have "as_signed w (k mod 2 ^ (8 * num_bytes w)) = as_signed ExtraWide k"
  proof (cases "int k \<le> SIGNED_MAX ExtraWide")
    case True
    then have "int k \<le> SIGNED_MAX w" using assms by (simp add: as_signed_def k_def)
    then have "k mod 2 ^ (8 * num_bytes w) = k" by (cases w) (simp_all add: width_defs)
    with True \<open>int k \<le> SIGNED_MAX w\<close> show ?thesis by (simp add: as_signed_def)
  next
    case False
    then obtain d where d: "k + d = 4294967296" "0 < d" using k by (metis less_imp_add_positive)
    have "int d \<le> - SIGNED_MIN w" using assms(1) False d by (simp add: as_signed_def k_def [symmetric])
    then have "k mod 2 ^ (8 * num_bytes w) = 2 ^ (8 * num_bytes w) - d"
    proof -
      define p where "p = (2 :: nat) ^ (8 * num_bytes w)"
      define q :: nat where "q = (case w of Narrow \<Rightarrow> 16777215 | Wide \<Rightarrow> 65535 | ExtraWide \<Rightarrow> 0)"
      have q: "4294967296 = p * Suc q" by (cases w) (simp_all add: p_def q_def)
      have "d \<le> p" using \<open>int d \<le> - SIGNED_MIN w\<close> by (cases w) (simp_all add: p_def width_defs)
      then have "k = p * q + (p - d)" using q d by simp
      moreover have "p - d < p" using d(2) \<open>d \<le> p\<close> by simp
      ultimately have "k mod p = p - d" by simp
      then show ?thesis by (simp add: p_def)
    qed
    then show ?thesis
      using \<open>int d \<le> - SIGNED_MIN w\<close> False d by (cases w) (auto simp: as_signed_def width_defs)
  qed
  then show ?thesis by (simp add: k_def to_width_def)
qed

lemma min_width_signed_le: "min_width_for_signed k \<le> w \<Longrightarrow> SIGNED_MIN ExtraWide \<le> k \<Longrightarrow> k \<le> SIGNED_MAX ExtraWide
    \<Longrightarrow> SIGNED_MIN w \<le> k \<and> k \<le> SIGNED_MAX w"
  by (cases w) (auto simp: min_width_for_signed_def width_defs split: if_splits)

lemma min_width_unsigned_le: "min_width_for_unsigned k \<le> w \<Longrightarrow> k \<le> UNSIGNED_MAX ExtraWide \<Longrightarrow> k \<le> UNSIGNED_MAX w"
  by (cases w) (auto simp: min_width_for_unsigned_def width_defs split: if_splits)

lemma operand_cut:
  assumes "min_width t v \<le> w"
  shows "operand_value t w (to_width w v) = operand_value t ExtraWide (unat v)"
proof (cases "is_signed t")
  case True
  have "unat v < 2 ^ (8 * num_bytes ExtraWide)" using word_bound [of v] by simp
  from signed_range [OF this] min_width_signed_le [of "as_signed ExtraWide (unat v)" w] assms True
  show ?thesis using signed_cut [of w v] by (simp add: min_width_def operand_value_def)
next
  case False
  have "unat v \<le> UNSIGNED_MAX ExtraWide" using word_bound [of v] by (simp add: width_defs)
  then have "unat v \<le> UNSIGNED_MAX w"
    using False assms min_width_unsigned_le by (simp add: min_width_def)
  then have "to_width w v = unat v" by (cases w) (simp_all add: to_width_def width_defs)
  with False show ?thesis by (simp add: operand_value_def)
qed

lemma signed_of_int:
  assumes "SIGNED_MIN ExtraWide \<le> k" and "k \<le> SIGNED_MAX ExtraWide"
  shows "as_signed ExtraWide (unat (word_of_int k :: u32)) = k"
proof -
  have u: "int (unat (word_of_int k :: u32)) = k mod 2 ^ 32"
    by (simp add: unsigned_of_int take_bit_eq_mod)
  show ?thesis
  proof (cases "0 \<le> k")
    case True
    then have "k mod 2 ^ 32 = k" using assms by (simp add: width_defs)
    then show ?thesis using u assms by (simp add: as_signed_def width_defs)
  next
    case False
    have "k mod 2 ^ 32 = (k + 2 ^ 32) mod 2 ^ 32" by simp
    also have "\<dots> = k + 2 ^ 32" using False assms by (intro mod_pos_pos_trivial) (simp_all add: width_defs)
    finally show ?thesis using u False assms by (simp add: as_signed_def width_defs)
  qed
qed

section \<open>Registers\<close>

lemma max_indices: "MAX_LOCAL_INDEX = 2 ^ 31 - 1" "MAX_ARGUMENT_INDEX = 2 ^ 31 - 9"
  by (simp_all add: MAX_LOCAL_INDEX_def MAX_ARGUMENT_INDEX_def decode_local_register_def
      decode_argument_register_def width_defs FIRST_ARGUMENT_SLOT_INDEX_def)

lemma local_register_index:
  "local_register i = Some r \<Longrightarrow> is_local r \<and> local_index r = i"
  using signed_of_int [of "encode_local_register i"]
  by (auto simp: local_register_def is_local_def local_index_def max_indices encode_local_register_def
      decode_local_register_def width_defs split: if_splits)

lemma argument_register_index:
  "argument_register i = Some r \<Longrightarrow> is_argument r \<and> argument_index r = i"
  using signed_of_int [of "encode_argument_register i"]
  by (auto simp: argument_register_def is_argument_def argument_index_def max_indices encode_argument_register_def
      decode_argument_register_def width_defs FIRST_ARGUMENT_SLOT_INDEX_def split: if_splits)

text \<open>The allocator hands out a new register above all others and takes back the last one.\<close>

definition allocator_ok :: "register_allocator \<Rightarrow> bool" where
  "allocator_ok a \<longleftrightarrow> num_local_registers a \<le> num_allocated a \<and> num_allocated a \<le> max_allocated a
     \<and> max_allocated a \<le> MAX_LOCAL_INDEX"

lemma allocate_release:
  assumes "allocator_ok a" and "allocate a = Inr (r, a')"
  shows "allocator_ok a'" and "is_local r" and "local_index r = num_allocated a"
    and "local_index r < max_allocated a'" and "release a' r = Some (a'\<lparr>num_allocated := num_allocated a\<rparr>)"
    and "allocator_ok (a'\<lparr>num_allocated := num_allocated a\<rparr>)"
proof -
  have n: "num_allocated a < MAX_LOCAL_INDEX" and r: "r = word_of_int (encode_local_register (num_allocated a))"
    and a': "a' = a\<lparr>num_allocated := num_allocated a + 1, max_allocated := max (max_allocated a) (num_allocated a + 1)\<rparr>"
    using assms(2) by (auto simp: allocate_def Let_def split: if_splits)
  have "local_register (num_allocated a) = Some r" using n r by (simp add: local_register_def)
  from local_register_index [OF this] show "is_local r" "local_index r = num_allocated a" by simp_all
  then show "allocator_ok a'" "local_index r < max_allocated a'" "release a' r = Some (a'\<lparr>num_allocated := num_allocated a\<rparr>)"
    "allocator_ok (a'\<lparr>num_allocated := num_allocated a\<rparr>)"
    using assms(1) n by (auto simp: a' allocator_ok_def release_def is_temporary_register_def)
qed

end
