(* ===== verification/Bytecode_Instructions.thy ===== *)
theory Bytecode_Instructions
  imports Bytecode_Operand
begin

text \<open>
  The instructions of \<open>runtime/bytecode/instruction.rs\<close>: the name of every instruction with the types of
  its operands and whether it can throw, in the order of the source.  The opcode of an instruction is its
  position, as in the enumeration \<open>OpCode\<close> with representation \<open>u8\<close>.
\<close>

abbreviation (input) "Reg \<equiv> RegisterType"
abbreviation (input) "UI \<equiv> UIntType"
abbreviation (input) "SI \<equiv> SIntType"
abbreviation (input) "Con \<equiv> ConstantIndexType"

type_synonym instruction_entry = "string \<times> operand_type list \<times> bool"

definition instructions_1 :: "instruction_entry list" where
  "instructions_1 = [
     (''WidePrefix'', [], False),
     (''ExtraWidePrefix'', [], False),
     (''Mov'', [Reg, Reg], False),
     (''LoadImmediate'', [Reg, SI], False),
     (''LoadConstant'', [Reg, Con], False),
     (''LoadUndefined'', [Reg], False),
     (''LoadNull'', [Reg], False),
     (''LoadEmpty'', [Reg], False),
     (''LoadTrue'', [Reg], False),
     (''LoadFalse'', [Reg], False),
     (''LoadGlobal'', [Reg, Con], True),
     (''LoadGlobalOrUnresolved'', [Reg, Con], True),
     (''StoreGlobal'', [Reg, Con], True),
     (''LoadDynamic'', [Reg, Con], True)]"

definition instructions_2 :: "instruction_entry list" where
  "instructions_2 = [
     (''LoadDynamicOrUnresolved'', [Reg, Con], True),
     (''StoreDynamic'', [Reg, Con], True),
     (''Call'', [Reg, Reg, Reg, UI], True),
     (''CallWithReceiver'', [Reg, Reg, Reg, Reg, UI], True),
     (''CallVarargs'', [Reg, Reg, Reg, Reg], True),
     (''CallMaybeEval'', [Reg, Reg, Reg, UI, UI], True),
     (''CallMaybeEvalVarargs'', [Reg, Reg, Reg, UI], True),
     (''Construct'', [Reg, Reg, Reg, Reg, UI], True),
     (''ConstructVarargs'', [Reg, Reg, Reg, Reg], True),
     (''DefaultSuperCall'', [], True),
     (''Ret'', [Reg], False)]"

definition instructions_3 :: "instruction_entry list" where
  "instructions_3 = [
     (''Add'', [Reg, Reg, Reg], True),
     (''Sub'', [Reg, Reg, Reg], True),
     (''Mul'', [Reg, Reg, Reg], True),
     (''Div'', [Reg, Reg, Reg], True),
     (''Rem'', [Reg, Reg, Reg], True),
     (''Exp'', [Reg, Reg, Reg], True),
     (''BitAnd'', [Reg, Reg, Reg], True),
     (''BitOr'', [Reg, Reg, Reg], True),
     (''BitXor'', [Reg, Reg, Reg], True),
     (''ShiftLeft'', [Reg, Reg, Reg], True),
     (''ShiftRightArithmetic'', [Reg, Reg, Reg], True),
     (''ShiftRightLogical'', [Reg, Reg, Reg], True)]"

definition instructions_4 :: "instruction_entry list" where
  "instructions_4 = [
     (''LooseEqual'', [Reg, Reg, Reg], True),
     (''LooseNotEqual'', [Reg, Reg, Reg], True),
     (''StrictEqual'', [Reg, Reg, Reg], False),
     (''StrictNotEqual'', [Reg, Reg, Reg], False),
     (''LessThan'', [Reg, Reg, Reg], True),
     (''LessThanOrEqual'', [Reg, Reg, Reg], True),
     (''GreaterThan'', [Reg, Reg, Reg], True),
     (''GreaterThanOrEqual'', [Reg, Reg, Reg], True),
     (''Neg'', [Reg, Reg], True),
     (''Inc'', [Reg], False),
     (''Dec'', [Reg], False),
     (''LogNot'', [Reg, Reg], False)]"

definition instructions_5 :: "instruction_entry list" where
  "instructions_5 = [
     (''BitNot'', [Reg, Reg], True),
     (''TypeOf'', [Reg, Reg], False),
     (''In'', [Reg, Reg, Reg], True),
     (''InstanceOf'', [Reg, Reg, Reg], True),
     (''ToNumber'', [Reg, Reg], True),
     (''ToNumeric'', [Reg, Reg], True),
     (''ToString'', [Reg, Reg], True),
     (''ToPropertyKey'', [Reg, Reg], True),
     (''ToObject'', [Reg, Reg], True),
     (''Jump'', [SI], False),
     (''JumpConstant'', [Con], False),
     (''JumpTrue'', [Reg, SI], False),
     (''JumpTrueConstant'', [Reg, Con], False)]"

definition instructions_6 :: "instruction_entry list" where
  "instructions_6 = [
     (''JumpToBooleanTrue'', [Reg, SI], False),
     (''JumpToBooleanTrueConstant'', [Reg, Con], False),
     (''JumpFalse'', [Reg, SI], False),
     (''JumpFalseConstant'', [Reg, Con], False),
     (''JumpToBooleanFalse'', [Reg, SI], False),
     (''JumpToBooleanFalseConstant'', [Reg, Con], False),
     (''JumpNotUndefined'', [Reg, SI], False),
     (''JumpNotUndefinedConstant'', [Reg, Con], False),
     (''JumpNullish'', [Reg, SI], False),
     (''JumpNullishConstant'', [Reg, Con], False),
     (''JumpNotNullish'', [Reg, SI], False),
     (''JumpNotNullishConstant'', [Reg, Con], False),
     (''NewClosure'', [Reg, Con], False)]"

definition instructions_7 :: "instruction_entry list" where
  "instructions_7 = [
     (''NewAsyncClosure'', [Reg, Con], False),
     (''NewGenerator'', [Reg, Con], False),
     (''NewAsyncGenerator'', [Reg, Con], False),
     (''NewObject'', [Reg], False),
     (''NewArray'', [Reg], False),
     (''NewRegExp'', [Reg, Con], False),
     (''NewMappedArguments'', [Reg], False),
     (''NewUnmappedArguments'', [Reg], False),
     (''NewClass'', [Reg, Con, Con, Reg, Reg], True),
     (''NewAccessor'', [Reg, Reg, Reg], False),
     (''NewPrivateSymbol'', [Reg, Con], False),
     (''GetProperty'', [Reg, Reg, Reg], True),
     (''SetProperty'', [Reg, Reg, Reg], True)]"

definition instructions_8 :: "instruction_entry list" where
  "instructions_8 = [
     (''DefineProperty'', [Reg, Reg, Reg, UI], True),
     (''GetNamedProperty'', [Reg, Reg, Con], True),
     (''SetNamedProperty'', [Reg, Con, Reg], True),
     (''DefineNamedProperty'', [Reg, Con, Reg], True),
     (''GetSuperProperty'', [Reg, Reg, Reg, Reg], True),
     (''GetNamedSuperProperty'', [Reg, Reg, Reg, Con], True),
     (''SetSuperProperty'', [Reg, Reg, Reg, Reg], True),
     (''DeleteProperty'', [Reg, Reg, Reg], True),
     (''DeleteBinding'', [Reg, Con], True),
     (''GetPrivateProperty'', [Reg, Reg, Reg], True),
     (''SetPrivateProperty'', [Reg, Reg, Reg], True)]"

definition instructions_9 :: "instruction_entry list" where
  "instructions_9 = [
     (''DefinePrivateProperty'', [Reg, Reg, Reg, UI], True),
     (''SetArrayProperty'', [Reg, Reg, Reg], False),
     (''SetPrototypeOf'', [Reg, Reg], False),
     (''CopyDataProperties'', [Reg, Reg, Reg, UI], True),
     (''GetMethod'', [Reg, Reg, Con], True),
     (''PushLexicalScope'', [Con], False),
     (''PushFunctionScope'', [Con], False),
     (''PushWithScope'', [Reg, Con], True),
     (''PopScope'', [], False),
     (''DupScope'', [], False),
     (''LoadFromScope'', [Reg, UI, UI], False),
     (''StoreToScope'', [Reg, UI, UI], False)]"

definition instructions_10 :: "instruction_entry list" where
  "instructions_10 = [
     (''LoadFromModule'', [Reg, UI, UI], True),
     (''StoreToModule'', [Reg, UI, UI], False),
     (''Throw'', [Reg], False),
     (''RestParameter'', [Reg], False),
     (''GetSuperConstructor'', [Reg, Reg], False),
     (''CheckTdz'', [Reg, Con], True),
     (''CheckThisInitialized'', [Reg], True),
     (''CheckSuperAlreadyCalled'', [Reg], True),
     (''CheckIteratorResultObject'', [Reg], True),
     (''ErrorConst'', [Con], True),
     (''ErrorDeleteSuperProperty'', [], True),
     (''ErrorIteratorNoThrowMethod'', [], True),
     (''NewForInIterator'', [Reg, Reg], True)]"

definition instructions_11 :: "instruction_entry list" where
  "instructions_11 = [
     (''ForInNext'', [Reg, Reg], True),
     (''GetIterator'', [Reg, Reg, Reg], True),
     (''GetAsyncIterator'', [Reg, Reg, Reg], True),
     (''IteratorNext'', [Reg, Reg, Reg, Reg], True),
     (''IteratorUnpackResult'', [Reg, Reg, Reg], True),
     (''IteratorClose'', [Reg], True),
     (''AsyncIteratorCloseStart'', [Reg, Reg, Reg], True),
     (''AsyncIteratorCloseFinish'', [Reg], True),
     (''GeneratorStart'', [Reg], True),
     (''Yield'', [Reg, Reg, Reg, Reg], False),
     (''NewPromise'', [Reg], False)]"

definition instructions_12 :: "instruction_entry list" where
  "instructions_12 = [
     (''Await'', [Reg, Reg, Reg, Reg], True),
     (''ResolvePromise'', [Reg, Reg], False),
     (''RejectPromise'', [Reg, Reg], False),
     (''ImportMeta'', [Reg], False),
     (''DynamicImport'', [Reg, Reg, Reg], True)]"

definition instruction_table :: "instruction_entry list" where
  "instruction_table = instructions_1 @ instructions_2 @ instructions_3 @ instructions_4 @ instructions_5 @ instructions_6 @ instructions_7 @ instructions_8 @ instructions_9 @ instructions_10 @ instructions_11 @ instructions_12"

definition WIDE_PREFIX :: nat where "WIDE_PREFIX = 0"
definition EXTRA_WIDE_PREFIX :: nat where "EXTRA_WIDE_PREFIX = 1"

definition operand_types :: "nat \<Rightarrow> operand_type list option" where
  "operand_types opcode =
     (if opcode < length instruction_table then Some (fst (snd (instruction_table ! opcode))) else None)"

definition can_throw :: "nat \<Rightarrow> bool" where
  "can_throw opcode \<longleftrightarrow> opcode < length instruction_table \<and> snd (snd (instruction_table ! opcode))"

text \<open>The opcodes of jumps; every constant jump follows its immediate jump.\<close>

definition JUMP :: nat where "JUMP = 58"

lemmas instruction_defs = instructions_1_def instructions_2_def instructions_3_def instructions_4_def instructions_5_def instructions_6_def instructions_7_def instructions_8_def instructions_9_def instructions_10_def instructions_11_def instructions_12_def

lemma length_instruction_table: "length instruction_table = 140"
  by (simp add: instruction_table_def instruction_defs)

lemma jump_operands:
  assumes "opcode \<in> {58, 60, 62, 64, 66, 68, 70, 72}"
  shows "operand_types opcode = Some (if opcode = JUMP then [SI] else [Reg, SI])"
    and "operand_types (opcode + 1) = Some (if opcode = JUMP then [Con] else [Reg, Con])"
  using assms length_instruction_table
  by (auto simp: operand_types_def JUMP_def instruction_table_def instruction_defs)

end
