(* ===== verification/Bytecode_Writer.thy ===== *)
theory Bytecode_Writer
  imports Bytecode_Instructions
begin

text \<open>
  \<open>runtime/bytecode/writer.rs\<close> with the decoders of \<open>instruction.rs\<close>, \<open>source_map.rs\<close> and
  \<open>common/varint.rs\<close>.  An instruction is its opcode with operands of the largest width; it is written at
  the least width that fits all of them, behind a prefix and padding that aligns the operands.  Reading
  outside of the bytes, or a byte that is no opcode, is \<open>None\<close>.
\<close>

section \<open>Variable length integers\<close>

function encode_varint :: "u64 \<Rightarrow> u8 list" where
  "encode_varint v =
     (if 0x80 \<le> v then (ucast v OR 0x80) # encode_varint (drop_bit 7 v) else [ucast v])"
  by pat_completeness auto
termination
  by (relation "measure unat") (auto simp: unat_drop_bit word_le_nat_alt)

declare encode_varint.simps [simp del]

text \<open>A shift by 64 bits or more is a panic, as is a varint that does not end.\<close>

fun decode_varint_from :: "u8 list \<Rightarrow> u64 \<Rightarrow> nat \<Rightarrow> nat \<Rightarrow> (u64 \<times> nat) option" where
  "decode_varint_from [] v shift i = None"
| "decode_varint_from (b # bs) v shift i =
     (if 64 \<le> shift then None
      else (let v = v OR push_bit shift (ucast (b AND 0x7F)) in
        if b AND 0x80 = 0 then Some (v, i + 1) else decode_varint_from bs v (shift + 7) (i + 1)))"

definition decode_varint :: "u8 list \<Rightarrow> (nat \<times> nat) option" where
  "decode_varint buf = map_option (apfst unat) (decode_varint_from buf 0 0 0)"

section \<open>The writer\<close>

definition NO_POS :: nat where "NO_POS = 2 ^ 64 - 1"

record bytecode_writer =
  code_bytes :: "u8 list"
  source_map_bytes :: "u8 list"
  last_pos :: nat

definition new_writer :: bytecode_writer where
  "new_writer = \<lparr>code_bytes = [], source_map_bytes = [], last_pos = NO_POS\<rparr>"

definition current_offset :: "bytecode_writer \<Rightarrow> nat" where
  "current_offset w = length (code_bytes w)"

definition write_u8 :: "u8 \<Rightarrow> bytecode_writer \<Rightarrow> bytecode_writer" where
  "write_u8 b w = w\<lparr>code_bytes := code_bytes w @ [b]\<rparr>"

definition write_opcode :: "nat \<Rightarrow> bytecode_writer \<Rightarrow> bytecode_writer" where
  "write_opcode opcode = write_u8 (of_nat opcode)"

definition write_operand :: "width \<Rightarrow> nat \<Rightarrow> bytecode_writer \<Rightarrow> bytecode_writer" where
  "write_operand wd v w = w\<lparr>code_bytes := write_into wd (code_bytes w) v\<rparr>"

definition set_bytes :: "nat \<Rightarrow> u8 list \<Rightarrow> bytecode_writer \<Rightarrow> bytecode_writer option" where
  "set_bytes index bs w =
     (if index + length bs \<le> length (code_bytes w)
      then Some (w\<lparr>code_bytes := take index (code_bytes w) @ bs @ drop (index + length bs) (code_bytes w)\<rparr>)
      else None)"

definition set_u8 :: "nat \<Rightarrow> nat \<Rightarrow> bytecode_writer \<Rightarrow> bytecode_writer option" where
  "set_u8 index v = set_bytes index (width_bytes 1 v)"

definition set_u16 :: "nat \<Rightarrow> nat \<Rightarrow> bytecode_writer \<Rightarrow> bytecode_writer option" where
  "set_u16 index v = set_bytes index (width_bytes 2 v)"

definition set_u32 :: "nat \<Rightarrow> nat \<Rightarrow> bytecode_writer \<Rightarrow> bytecode_writer option" where
  "set_u32 index v = set_bytes index (width_bytes 4 v)"

definition wide_prefix_index_to_opcode_index :: "nat \<Rightarrow> nat" where
  "wide_prefix_index_to_opcode_index prefix_index = (prefix_index + 1) OR 1"

definition extra_wide_prefix_index_to_opcode_index :: "nat \<Rightarrow> nat" where
  "extra_wide_prefix_index_to_opcode_index prefix_index = (prefix_index + 1) OR 3"

definition pad_to :: "nat \<Rightarrow> bytecode_writer \<Rightarrow> bytecode_writer" where
  "pad_to index w = fold (\<lambda>_. write_u8 0) [length (code_bytes w)..<index] w"

fun write_width_prefix :: "width \<Rightarrow> bytecode_writer \<Rightarrow> bytecode_writer" where
  "write_width_prefix Narrow w = w"
| "write_width_prefix Wide w =
     (let opcode_index = wide_prefix_index_to_opcode_index (length (code_bytes w)) in
      pad_to opcode_index (write_opcode WIDE_PREFIX w))"
| "write_width_prefix ExtraWide w =
     (let opcode_index = extra_wide_prefix_index_to_opcode_index (length (code_bytes w)) in
      pad_to opcode_index (write_opcode EXTRA_WIDE_PREFIX w))"

definition write_source_map_varint :: "nat \<Rightarrow> bytecode_writer \<Rightarrow> bytecode_writer" where
  "write_source_map_varint v w = w\<lparr>source_map_bytes := source_map_bytes w @ encode_varint (of_nat v)\<rparr>"

definition write_source_map_header :: "nat \<Rightarrow> nat \<Rightarrow> bytecode_writer \<Rightarrow> bytecode_writer" where
  "write_source_map_header start_pos end_pos w =
     write_source_map_varint end_pos (write_source_map_varint start_pos w)"

definition write_source_map_entry :: "nat \<Rightarrow> bytecode_writer \<Rightarrow> bytecode_writer" where
  "write_source_map_entry source_position w =
     (if source_position = NO_POS \<or> source_position = last_pos w then w
      else (let w = w\<lparr>last_pos := source_position\<rparr> in
        write_source_map_varint source_position (write_source_map_varint (current_offset w) w)))"

section \<open>Instructions\<close>

record instruction =
  opcode :: nat
  operands :: "u32 list"

definition instruction_width :: "operand_type list \<Rightarrow> u32 list \<Rightarrow> width" where
  "instruction_width types values =
     fold (\<lambda>(t, v) w. max (min_width t v) w) (zip types values) Narrow"

text \<open>The writing function of an instruction, and its \<open>write\<close> at a width.\<close>

definition write_at_width :: "width \<Rightarrow> instruction \<Rightarrow> bytecode_writer \<Rightarrow> bytecode_writer" where
  "write_at_width wd i w =
     fold (write_operand wd) (map (to_width wd) (operands i))
       (write_opcode (opcode i) (write_width_prefix wd w))"

definition write_instruction :: "instruction \<Rightarrow> nat \<Rightarrow> bytecode_writer \<Rightarrow> bytecode_writer" where
  "write_instruction i pos w =
     (let types = (case operand_types (opcode i) of Some ts \<Rightarrow> ts | None \<Rightarrow> []);
          w = write_at_width (instruction_width types (operands i)) i w in
      if can_throw (opcode i) then write_source_map_entry pos w else w)"

section \<open>Decoding\<close>

record decode_info =
  info_width :: width
  info_opcode :: nat
  info_opcode_index :: nat

definition opcode_from_u8 :: "u8 \<Rightarrow> nat option" where
  "opcode_from_u8 b = (if unat b < length instruction_table then Some (unat b) else None)"

definition read_opcode :: "u8 list \<Rightarrow> nat \<Rightarrow> nat option" where
  "read_opcode bytecode index = Option.bind (vec_get bytecode index) opcode_from_u8"

definition decode_width_and_opcode_at_index :: "u8 list \<Rightarrow> nat \<Rightarrow> decode_info option" where
  "decode_width_and_opcode_at_index bytecode index = do {
     first \<leftarrow> read_opcode bytecode index;
     if first = WIDE_PREFIX then do {
       let opcode_index = wide_prefix_index_to_opcode_index index;
       op \<leftarrow> read_opcode bytecode opcode_index;
       Some \<lparr>info_width = Wide, info_opcode = op, info_opcode_index = opcode_index\<rparr>
     } else if first = EXTRA_WIDE_PREFIX then do {
       let opcode_index = extra_wide_prefix_index_to_opcode_index index;
       op \<leftarrow> read_opcode bytecode opcode_index;
       Some \<lparr>info_width = ExtraWide, info_opcode = op, info_opcode_index = opcode_index\<rparr>
     } else Some \<lparr>info_width = Narrow, info_opcode = first, info_opcode_index = index\<rparr>
   }"

text \<open>The operands of an instruction, read where the code overlays the structure of the instruction.\<close>

definition read_operands :: "u8 list \<Rightarrow> nat \<Rightarrow> width \<Rightarrow> nat \<Rightarrow> nat list option" where
  "read_operands bytecode start w n =
     (if start + n * num_bytes w \<le> length bytecode
      then Some (map (\<lambda>k. bytes_uint (take (num_bytes w) (drop (start + k * num_bytes w) bytecode))) [0..<n])
      else None)"

record decoded_instruction =
  decoded_width :: width
  decoded_opcode :: nat
  decoded_operands :: "nat list"

text \<open>\<open>InstructionIterator::next\<close>: the instruction and the position after it.\<close>

definition decode_next :: "u8 list \<Rightarrow> nat \<Rightarrow> (decoded_instruction \<times> nat) option" where
  "decode_next bytecode pos = do {
     info \<leftarrow> decode_width_and_opcode_at_index bytecode pos;
     types \<leftarrow> operand_types (info_opcode info);
     let start = info_opcode_index info + 1;
     values \<leftarrow> read_operands bytecode start (info_width info) (length types);
     Some (\<lparr>decoded_width = info_width info, decoded_opcode = info_opcode info, decoded_operands = values\<rparr>,
       start + length types * num_bytes (info_width info))
   }"

lemma or_low_mask:
  fixes n :: nat
  shows or_1: "n OR 1 = n div 2 * 2 + 1" and or_3: "n OR 3 = n div 4 * 4 + 3"
proof -
  have split: "n = n div 2 ^ k * 2 ^ k OR n mod 2 ^ k" for k
    using nat_push_or [of "n mod 2 ^ k" k "n div 2 ^ k"] div_mult_mod_eq [of n "2 ^ k"] by simp
  have "n mod 2 OR 1 = 1" using mod_less_divisor [of 2 n] by (cases "n mod 2 = 0") simp_all
  moreover have "n mod 4 OR 3 = 3"
  proof -
    have "n mod 4 < 4" by simp
    then consider "n mod 4 = 0" | "n mod 4 = 1" | "n mod 4 = 2" | "n mod 4 = 3" by linarith
    then show ?thesis by cases simp_all
  qed
  ultimately show "n OR 1 = n div 2 * 2 + 1" "n OR 3 = n div 4 * 4 + 3"
    using split [of 1] split [of 2] nat_push_or [of 1 1 "n div 2"] nat_push_or [of 3 2 "n div 4"]
    by (metis or.assoc power_one_right one_less_numeral_iff semiring_norm(76), simp, metis or.assoc)
qed

lemma prefix_indices:
  "wide_prefix_index_to_opcode_index i = (i + 1) div 2 * 2 + 1"
  "extra_wide_prefix_index_to_opcode_index i = (i + 1) div 4 * 4 + 3"
  by (simp_all only: wide_prefix_index_to_opcode_index_def extra_wide_prefix_index_to_opcode_index_def or_1 or_3)

lemma opcode_index_after:
  "decode_width_and_opcode_at_index bytecode index = Some info \<Longrightarrow> index \<le> info_opcode_index info"
  by (auto simp: decode_width_and_opcode_at_index_def prefix_indices Let_def split: Option.bind_splits if_splits)

lemma decode_next_after: "decode_next bytecode pos = Some (d, pos') \<Longrightarrow> pos < pos'"
  by (auto simp: decode_next_def Let_def split: Option.bind_splits dest: opcode_index_after)

function decode_instructions :: "u8 list \<Rightarrow> nat \<Rightarrow> (nat \<times> decoded_instruction) list option" where
  "decode_instructions bytecode pos =
     (if length bytecode \<le> pos then Some []
      else (case decode_next bytecode pos of
          None \<Rightarrow> None
        | Some (d, pos') \<Rightarrow> map_option (Cons (pos, d)) (decode_instructions bytecode pos')))"
  by pat_completeness auto
termination
  by (relation "measure (\<lambda>(bytecode, pos). length bytecode - pos)") (auto dest!: decode_next_after)

declare decode_instructions.simps [simp del]

section \<open>Source maps\<close>

definition get_function_range :: "u8 list \<Rightarrow> (nat \<times> nat) option" where
  "get_function_range source_map = do {
     (start_pos, n) \<leftarrow> decode_varint source_map;
     (end_pos, _) \<leftarrow> decode_varint (drop n source_map);
     Some (start_pos, end_pos)
   }"

text \<open>The iterator over entries; the outer \<open>None\<close> is a panic, the inner one the end.\<close>

definition source_map_next :: "u8 list \<Rightarrow> nat \<Rightarrow> ((nat \<times> nat) option \<times> nat) option" where
  "source_map_next source_map offset =
     (if length source_map \<le> offset then Some (None, offset)
      else do {
        (bytecode_offset, n) \<leftarrow> decode_varint (drop offset source_map);
        (source_position, m) \<leftarrow> decode_varint (drop (offset + n) source_map);
        Some (Some (bytecode_offset, source_position), offset + n + m)
      })"

lemma decode_varint_from_length: "decode_varint_from bs v shift i = Some (r, n) \<Longrightarrow> i < n"
  by (induction bs v shift i rule: decode_varint_from.induct) (auto simp: Let_def split: if_splits)

lemma decode_varint_length: "decode_varint bs = Some (r, n) \<Longrightarrow> 0 < n"
  by (auto simp: decode_varint_def dest: decode_varint_from_length)

lemma source_map_next_after: "source_map_next sm offset = Some (Some e, offset') \<Longrightarrow> offset < offset' \<and> offset < length sm"
  by (auto simp: source_map_next_def split: if_splits Option.bind_splits dest!: decode_varint_length)

text \<open>The loop of \<open>get_source_position\<close>: the last entry that does not lie behind the offset.\<close>

function last_position :: "u8 list \<Rightarrow> nat \<Rightarrow> nat \<Rightarrow> nat \<Rightarrow> nat option" where
  "last_position source_map bytecode_offset offset current =
     (case source_map_next source_map offset of
        None \<Rightarrow> None
      | Some (None, _) \<Rightarrow> Some current
      | Some (Some (entry_offset, entry_position), offset') \<Rightarrow>
          if bytecode_offset < entry_offset then Some current
          else last_position source_map bytecode_offset offset' entry_position)"
  by pat_completeness auto
termination
  by (relation "measure (\<lambda>(sm, b, offset, c). length sm - offset)") (auto dest!: source_map_next_after)

declare last_position.simps [simp del]

definition get_source_position :: "u8 list \<Rightarrow> nat \<Rightarrow> nat option option" where
  "get_source_position source_map bytecode_offset = do {
     (_, offset) \<leftarrow> source_map_next source_map 0;
     (first, offset) \<leftarrow> source_map_next source_map offset;
     (case first of
        None \<Rightarrow> Some None
      | Some (_, position) \<Rightarrow> map_option Some (last_position source_map bytecode_offset offset position))
   }"

end
