(* ===== verification/Bytecode_Correct.thy ===== *)
theory Bytecode_Correct
  imports Bytecode_Writer
begin

text \<open>
  What is written is what is decoded: variable length integers, instructions at the width they need, and
  the source positions of instructions that can throw.
\<close>

section \<open>Variable length integers\<close>

lemma varint_continue: "(ucast v OR 0x80 :: u8) AND 0x80 \<noteq> 0" for v :: u64
proof -
  have "bit ((ucast v OR 0x80 :: u8) AND 0x80) 7" by (simp add: bit_simps)
  then show ?thesis by (metis bit_0_eq bot_apply bot_bool_def)
qed

lemma varint_bits:
  "bit (0x80 :: u8) n \<longleftrightarrow> n = 7" "bit (0x80 :: u64) n \<longleftrightarrow> n = 7"
  "bit (0x7F :: u8) n \<longleftrightarrow> n < 7" "bit (0x7F :: u64) n \<longleftrightarrow> n < 7"
proof -
  have "(0x80 :: u8) = push_bit 7 1" "(0x80 :: u64) = push_bit 7 1"
    "(0x7F :: u8) = mask 7" "(0x7F :: u64) = mask 7"
    by (simp_all add: mask_eq_exp_minus_1)
  then show "bit (0x80 :: u8) n \<longleftrightarrow> n = 7" "bit (0x80 :: u64) n \<longleftrightarrow> n = 7"
    "bit (0x7F :: u8) n \<longleftrightarrow> n < 7" "bit (0x7F :: u64) n \<longleftrightarrow> n < 7"
    by (simp_all only: bit_push_bit_iff bit_mask_iff) (auto simp: bit_1_iff)
qed

lemma payload_bit:
  fixes v :: u64
  shows "bit ((ucast v OR 0x80 :: u8) AND 0x7F) n \<longleftrightarrow> n < 7 \<and> bit v n"
    and "bit ((ucast v :: u8) AND 0x7F) n \<longleftrightarrow> n < 7 \<and> bit v n"
  by (simp_all only: bit_and_iff bit_or_iff varint_bits bit_ucast_iff) auto

lemma shifted_payload:
  fixes v :: u64 and b :: u8
  assumes "\<And>n. bit b n \<longleftrightarrow> n < 7 \<and> bit v n"
  shows "push_bit s (ucast b) OR push_bit (s + 7) (drop_bit 7 v) = push_bit s v"
proof (rule bit_word_eqI)
  fix n
  assume n: "n < LENGTH(64)"
  consider "n < s" | k where "n = s + k" "k < 7" | k where "n = s + (7 + k)"
    by (metis add.assoc le_Suc_ex not_less)
  then show "bit (push_bit s (ucast b) OR push_bit (s + 7) (drop_bit 7 v)) n \<longleftrightarrow> bit (push_bit s v) n"
  proof cases
    case (2 k)
    with n show ?thesis by (simp add: bit_or_iff bit_push_bit_iff bit_ucast_iff assms)
  next
    case (3 k)
    with n show ?thesis by (simp add: bit_or_iff bit_push_bit_iff bit_ucast_iff assms bit_drop_bit_eq)
  qed (simp add: bit_or_iff bit_push_bit_iff)
qed

lemma varint_payload:
  fixes v :: u64
  shows "push_bit s (ucast ((ucast v OR 0x80 :: u8) AND 0x7F)) OR push_bit (s + 7) (drop_bit 7 v) = push_bit s v"
  by (rule shifted_payload [OF payload_bit(1)])

lemma varint_last:
  fixes v :: u64
  assumes "\<not> 0x80 \<le> v"
  shows "push_bit s (ucast ((ucast v :: u8) AND 0x7F)) = push_bit s v" and "(ucast v :: u8) AND 0x80 = 0"
proof -
  have v: "unat v < 2 ^ 7" using assms by (simp add: word_le_nat_alt)
  then have "drop_bit 7 v = 0" by (simp add: unat_eq_zero [symmetric] unat_drop_bit del: unat_eq_zero)
  with shifted_payload [OF payload_bit(2), of s v]
  show "push_bit s (ucast ((ucast v :: u8) AND 0x7F)) = push_bit s v" by (simp only: push_bit_of_0 or.right_neutral)
  have "\<not> bit v 7" using word_less_bit_False [OF v] by simp
  then have "\<not> bit ((ucast v :: u8) AND 0x80) n" for n
    by (auto simp only: bit_and_iff varint_bits bit_ucast_iff)
  then show "(ucast v :: u8) AND 0x80 = 0" by (simp only: bit_eq_iff bit_0_eq bot_apply) simp
qed

lemma decode_encode_from:
  assumes "s < 64" and "unat v * 2 ^ s < 2 ^ 64"
  shows "decode_varint_from (encode_varint v @ rest) acc s i
    = Some (acc OR push_bit s v, i + length (encode_varint v))"
  using assms
proof (induction v arbitrary: acc s i rule: encode_varint.induct)
  case (1 v)
  show ?case
  proof (cases "0x80 \<le> v")
    case True
    then have v: "2 ^ 7 \<le> unat v" by (simp add: word_le_nat_alt)
    have "(2 :: nat) ^ (s + 7) \<le> unat v * 2 ^ s"
      using mult_le_mono1 [OF v, of "2 ^ s"] by (simp add: power_add mult.commute)
    with "1.prems"(2) have "(2 :: nat) ^ (s + 7) < 2 ^ 64" by simp
    then have s: "s + 7 < 64" by (rule power_less_imp_less_exp [rotated]) simp
    have "unat (drop_bit 7 v) * 2 ^ (s + 7) = unat v div 2 ^ 7 * 2 ^ 7 * 2 ^ s"
      by (simp add: unat_drop_bit power_add)
    also have "\<dots> \<le> unat v * 2 ^ s" by (intro mult_le_mono1) simp
    finally have "unat (drop_bit 7 v) * 2 ^ (s + 7) < 2 ^ 64" using "1.prems"(2) by simp
    note IH = "1.IH" [OF True s this]
    show ?thesis
      using True "1.prems"(1) varint_continue [of v] IH
      by (subst (1 2) encode_varint.simps) (simp add: Let_def or.assoc varint_payload)
  next
    case False
    then show ?thesis
      using "1.prems"(1) varint_last [OF False] by (subst (1 2) encode_varint.simps) (simp add: Let_def)
  qed
qed

lemma decode_encode_varint:
  "n < 2 ^ 64 \<Longrightarrow> decode_varint (encode_varint (of_nat n) @ rest) = Some (n, length (encode_varint (of_nat n)))"
  using decode_encode_from [of 0 "of_nat n" rest 0 0] unsigned_less [of "of_nat n :: u64", where ?'a = nat]
  by (simp add: decode_varint_def unat_of_nat_small)

section \<open>The bytes of an instruction\<close>

definition pad_bytes :: "width \<Rightarrow> nat \<Rightarrow> u8 list" where
  "pad_bytes w pos =
     (case w of
        Narrow \<Rightarrow> []
      | Wide \<Rightarrow> of_nat WIDE_PREFIX # replicate (wide_prefix_index_to_opcode_index pos - (pos + 1)) 0
      | ExtraWide \<Rightarrow> of_nat EXTRA_WIDE_PREFIX # replicate (extra_wide_prefix_index_to_opcode_index pos - (pos + 1)) 0)"

definition bytes_at :: "width \<Rightarrow> nat \<Rightarrow> instruction \<Rightarrow> u8 list" where
  "bytes_at w pos i =
     pad_bytes w pos @ of_nat (opcode i) # concat (map (\<lambda>v. width_bytes (num_bytes w) (to_width w v)) (operands i))"

lemma pad_to_bytes: "pad_to n w = w\<lparr>code_bytes := code_bytes w @ replicate (n - length (code_bytes w)) 0\<rparr>"
proof -
  have "fold (\<lambda>_. write_u8 0) xs w = w\<lparr>code_bytes := code_bytes w @ replicate (length xs) 0\<rparr>" for xs :: "nat list" and w
    by (induction xs arbitrary: w) (simp_all add: write_u8_def)
  then show ?thesis by (simp add: pad_to_def)
qed

lemma write_prefix_bytes: "write_width_prefix wd w = w\<lparr>code_bytes := code_bytes w @ pad_bytes wd (length (code_bytes w))\<rparr>"
  by (cases wd) (simp_all add: pad_bytes_def pad_to_bytes write_opcode_def write_u8_def Let_def)

lemma write_operands_bytes:
  "fold (write_operand wd) ks w = w\<lparr>code_bytes := code_bytes w @ concat (map (width_bytes (num_bytes wd)) ks)\<rparr>"
  by (induction ks arbitrary: w) (simp_all add: write_operand_def write_into_def)

lemma write_at_width_bytes:
  "write_at_width wd i w = w\<lparr>code_bytes := code_bytes w @ bytes_at wd (length (code_bytes w)) i\<rparr>"
  by (simp add: write_at_width_def write_operands_bytes write_opcode_def write_u8_def write_prefix_bytes bytes_at_def o_def)

lemma entry_keeps_code [simp]: "code_bytes (write_source_map_entry pos w) = code_bytes w"
  by (simp add: write_source_map_entry_def write_source_map_varint_def Let_def)

text \<open>The width the writer chooses, and the bytes it appends.\<close>

definition chosen_width :: "instruction \<Rightarrow> width" where
  "chosen_width i = instruction_width (case operand_types (opcode i) of Some ts \<Rightarrow> ts | None \<Rightarrow> []) (operands i)"

lemma write_instruction_bytes:
  "code_bytes (write_instruction i pos w) = code_bytes w @ bytes_at (chosen_width i) (length (code_bytes w)) i"
  by (simp add: write_instruction_def Let_def write_at_width_bytes chosen_width_def)

lemma pad_length: "length (pad_bytes Narrow pos) = 0"
  "pos + length (pad_bytes Wide pos) = wide_prefix_index_to_opcode_index pos"
  "pos + length (pad_bytes ExtraWide pos) = extra_wide_prefix_index_to_opcode_index pos"
proof -
  have "(pos + 1) div 2 * 2 + (pos + 1) mod 2 = pos + 1" "(pos + 1) div 4 * 4 + (pos + 1) mod 4 = pos + 1"
    by (simp_all only: div_mult_mod_eq)
  moreover have "(pos + 1) mod 2 < 2" "(pos + 1) mod 4 < 4" by simp_all
  ultimately have "pos + 1 \<le> wide_prefix_index_to_opcode_index pos" "pos + 1 \<le> extra_wide_prefix_index_to_opcode_index pos"
    unfolding prefix_indices by linarith+
  then show "length (pad_bytes Narrow pos) = 0"
    "pos + length (pad_bytes Wide pos) = wide_prefix_index_to_opcode_index pos"
    "pos + length (pad_bytes ExtraWide pos) = extra_wide_prefix_index_to_opcode_index pos"
    by (simp_all add: pad_bytes_def)
qed

text \<open>Where the opcode goes: the operands behind it are aligned to the width.\<close>

definition opcode_position :: "width \<Rightarrow> nat \<Rightarrow> nat" where
  "opcode_position w pos = pos + length (pad_bytes w pos)"

lemma operands_aligned: "(opcode_position w pos + 1) mod num_bytes w = 0"
proof (cases w)
  case Wide
  then show ?thesis by (simp only: opcode_position_def pad_length prefix_indices num_bytes.simps) simp
next
  case ExtraWide
  have "(pos + 1) div 4 * 4 + 3 + 1 = ((pos + 1) div 4 + 1) * 4" by simp
  then show ?thesis by (simp only: ExtraWide opcode_position_def pad_length prefix_indices num_bytes.simps mod_mult_self2_is_0)
qed simp

section \<open>Decoding an instruction\<close>

definition well_formed_instruction :: "instruction \<Rightarrow> bool" where
  "well_formed_instruction i \<longleftrightarrow> opcode i \<noteq> WIDE_PREFIX \<and> opcode i \<noteq> EXTRA_WIDE_PREFIX \<and>
     (case operand_types (opcode i) of Some types \<Rightarrow> length (operands i) = length types | None \<Rightarrow> False)"

lemma opcode_bound: "well_formed_instruction i \<Longrightarrow> opcode i < length instruction_table"
  by (auto simp: well_formed_instruction_def operand_types_def split: option.splits if_splits)

lemma opcode_byte: "n < length instruction_table \<Longrightarrow> opcode_from_u8 (of_nat n) = Some n"
  using length_instruction_table by (simp add: opcode_from_u8_def unat_of_nat_small)

lemma read_opcode_at: "n < length instruction_table \<Longrightarrow> read_opcode (pre @ of_nat n # rest) (length pre) = Some n"
  by (simp add: read_opcode_def vec_get_def opcode_byte)

lemma prefixes_in_table: "WIDE_PREFIX < length instruction_table" "EXTRA_WIDE_PREFIX < length instruction_table"
  "EXTRA_WIDE_PREFIX \<noteq> WIDE_PREFIX"
  using length_instruction_table by (simp_all add: WIDE_PREFIX_def EXTRA_WIDE_PREFIX_def)

lemma decode_info_at:
  assumes "well_formed_instruction i"
  shows "decode_width_and_opcode_at_index (pre @ bytes_at w (length pre) i @ rest) (length pre)
    = Some \<lparr>info_width = w, info_opcode = opcode i, info_opcode_index = opcode_position w (length pre)\<rparr>"
proof -
  note bound = opcode_bound [OF assms]
  have op: "read_opcode (pre @ bytes_at w (length pre) i @ rest) (opcode_position w (length pre)) = Some (opcode i)"
    using read_opcode_at [OF bound, of "pre @ pad_bytes w (length pre)"] by (simp add: bytes_at_def opcode_position_def)
  show ?thesis
  proof (cases w)
    case Narrow
    then show ?thesis
      using op assms
      by (simp add: decode_width_and_opcode_at_index_def opcode_position_def pad_length well_formed_instruction_def)
  next
    case Wide
    have "read_opcode (pre @ bytes_at w (length pre) i @ rest) (length pre) = Some WIDE_PREFIX"
      using read_opcode_at [OF prefixes_in_table(1)] by (simp add: Wide bytes_at_def pad_bytes_def)
    with op show ?thesis
      by (simp add: decode_width_and_opcode_at_index_def Wide opcode_position_def pad_length)
  next
    case ExtraWide
    have "read_opcode (pre @ bytes_at w (length pre) i @ rest) (length pre) = Some EXTRA_WIDE_PREFIX"
      using read_opcode_at [OF prefixes_in_table(2)] by (simp add: ExtraWide bytes_at_def pad_bytes_def)
    with op show ?thesis
      by (simp add: decode_width_and_opcode_at_index_def ExtraWide opcode_position_def pad_length prefixes_in_table(3))
  qed
qed

lemma concat_block:
  assumes "\<And>v. length (f v) = n" and "k < length vs"
  shows "take n (drop (k * n) (concat (map f vs) @ rest)) = f (vs ! k)"
  using assms(2)
proof (induction vs arbitrary: k)
  case (Cons v vs)
  then show ?case by (cases k) (simp_all add: assms(1))
qed simp

lemma length_operand_bytes: "length (concat (map (\<lambda>v. width_bytes n (f v)) vs)) = length vs * n"
  by (induction vs) simp_all

lemma read_operands_at:
  assumes "start = length pre"
  shows "read_operands (pre @ concat (map (\<lambda>v. width_bytes (num_bytes w) (to_width w v)) vs) @ rest) start w (length vs)
    = Some (map (to_width w) vs)"
proof -
  have "bytes_uint (width_bytes (num_bytes w) (to_width w v)) = to_width w v" for v
    by (simp add: power_bytes to_width_def)
  then show ?thesis
    using concat_block [of "\<lambda>v. width_bytes (num_bytes w) (to_width w v)" "num_bytes w"]
    by (auto simp: read_operands_def assms length_operand_bytes intro!: nth_equalityI)
qed

lemma length_bytes_at:
  "length (bytes_at w pos i) = length (pad_bytes w pos) + 1 + length (operands i) * num_bytes w"
  by (simp add: bytes_at_def length_operand_bytes)

definition decoded_at :: "instruction \<Rightarrow> decoded_instruction" where
  "decoded_at i = \<lparr>decoded_width = chosen_width i, decoded_opcode = opcode i,
     decoded_operands = map (to_width (chosen_width i)) (operands i)\<rparr>"

lemma decode_next_at:
  assumes "well_formed_instruction i"
  shows "decode_next (pre @ bytes_at w (length pre) i @ rest) (length pre)
    = Some (\<lparr>decoded_width = w, decoded_opcode = opcode i, decoded_operands = map (to_width w) (operands i)\<rparr>,
        length (pre @ bytes_at w (length pre) i))"
proof -
  obtain types where types: "operand_types (opcode i) = Some types" "length types = length (operands i)"
    using assms by (auto simp: well_formed_instruction_def split: option.splits)
  have "read_operands (pre @ bytes_at w (length pre) i @ rest) (opcode_position w (length pre) + 1) w (length (operands i))
      = Some (map (to_width w) (operands i))"
    using read_operands_at [of "opcode_position w (length pre) + 1" "pre @ pad_bytes w (length pre) @ [of_nat (opcode i)]" w
        "operands i" rest]
    by (simp add: bytes_at_def opcode_position_def)
  then show ?thesis
    by (simp add: decode_next_def decode_info_at [OF assms] types opcode_position_def length_bytes_at)
qed

section \<open>Sequences of instructions\<close>

text \<open>Instructions with the source positions they are written with.\<close>

definition write_instructions :: "(instruction \<times> nat) list \<Rightarrow> bytecode_writer \<Rightarrow> bytecode_writer" where
  "write_instructions is w = fold (\<lambda>(i, pos). write_instruction i pos) is w"

lemma written_prefix: "\<exists>rest. code_bytes (write_instructions is v) = code_bytes v @ rest"
proof (induction "is" arbitrary: v)
  case (Cons x "is")
  obtain rest where "code_bytes (write_instructions is (write_instruction (fst x) (snd x) v))
      = code_bytes (write_instruction (fst x) (snd x) v) @ rest"
    using Cons.IH [of "write_instruction (fst x) (snd x) v"] ..
  then show ?case by (simp add: write_instructions_def case_prod_unfold write_instruction_bytes)
qed (simp add: write_instructions_def)

lemma decode_one_more:
  assumes "well_formed_instruction i"
    and "code_bytes v = pre @ bytes_at (chosen_width i) (length pre) i @ rest"
    and "decode_instructions (code_bytes v) (length pre + length (bytes_at (chosen_width i) (length pre) i)) = Some ds"
  shows "decode_instructions (code_bytes v) (length pre) = Some ((length pre, decoded_at i) # ds)"
  using decode_next_at [OF assms(1), of pre "chosen_width i" rest] assms(2,3)
  by (subst decode_instructions.simps) (simp add: length_bytes_at decoded_at_def)

lemma decode_written:
  assumes "\<forall>(i, pos)\<in>set is. well_formed_instruction i"
  shows "\<exists>positions. length positions = length is \<and>
    decode_instructions (code_bytes (write_instructions is w)) (length (code_bytes w))
      = Some (zip positions (map (\<lambda>(i, pos). decoded_at i) is))"
  using assms
proof (induction "is" arbitrary: w)
  case Nil
  then show ?case by (simp add: write_instructions_def decode_instructions.simps)
next
  case (Cons x "is")
  obtain i pos where x: "x = (i, pos)" by (cases x)
  define w1 where "w1 = write_instruction i pos w"
  have w1: "code_bytes w1 = code_bytes w @ bytes_at (chosen_width i) (length (code_bytes w)) i"
    by (simp add: w1_def write_instruction_bytes)
  have "\<forall>(i, pos)\<in>set is. well_formed_instruction i" using Cons.prems by simp
  from Cons.IH [OF this, of w1] obtain ps where ps: "length ps = length is"
    "decode_instructions (code_bytes (write_instructions is w1)) (length (code_bytes w1))
      = Some (zip ps (map (\<lambda>(i, pos). decoded_at i) is))"
    by (elim exE conjE)
  obtain rest where rest: "code_bytes (write_instructions is w1) = code_bytes w1 @ rest"
    using written_prefix [of "is" w1] ..
  have "well_formed_instruction i" using Cons.prems x by simp
  from decode_one_more [OF this, of "write_instructions is w1" "code_bytes w" rest, OF _ ps(2) [unfolded w1 length_append]]
  have "decode_instructions (code_bytes (write_instructions is w1)) (length (code_bytes w))
      = Some ((length (code_bytes w), decoded_at i) # zip ps (map (\<lambda>(i, pos). decoded_at i) is))"
    by (simp add: rest w1)
  then show ?case
    using ps(1) by (intro exI [of _ "length (code_bytes w) # ps"]) (simp add: x write_instructions_def w1_def)
qed

text \<open>What the operands of an instruction stand for.\<close>

definition types_of :: "nat \<Rightarrow> operand_type list" where
  "types_of op = (case operand_types op of Some types \<Rightarrow> types | None \<Rightarrow> [])"

definition instruction_meaning :: "instruction \<Rightarrow> nat \<times> int list" where
  "instruction_meaning i =
     (opcode i, map2 (\<lambda>t v. operand_value t ExtraWide (unat v)) (types_of (opcode i)) (operands i))"

definition decoded_meaning :: "decoded_instruction \<Rightarrow> nat \<times> int list" where
  "decoded_meaning d =
     (decoded_opcode d, map2 (\<lambda>t k. operand_value t (decoded_width d) k) (types_of (decoded_opcode d)) (decoded_operands d))"

lemma fold_max_start: "(w0 :: width) \<le> fold (\<lambda>(t, v) w. max (min_width t v) w) tvs w0"
proof (induction tvs arbitrary: w0)
  case (Cons x tvs)
  have "w0 \<le> max (min_width (fst x) (snd x)) w0" by simp
  also have "\<dots> \<le> fold (\<lambda>(t, v) w. max (min_width t v) w) tvs (max (min_width (fst x) (snd x)) w0)"
    by (rule Cons.IH)
  finally show ?case by (simp add: case_prod_unfold)
qed simp

lemma fold_max:
  "(t, v) \<in> set tvs \<Longrightarrow> min_width t v \<le> fold (\<lambda>(t, v) w. max (min_width t v) w) tvs w0"
proof (induction tvs arbitrary: w0)
  case (Cons x tvs)
  show ?case
  proof (cases "x = (t, v)")
    case True
    have "min_width t v \<le> max (min_width t v) w0" by simp
    also have "\<dots> \<le> fold (\<lambda>(t, v) w. max (min_width t v) w) tvs (max (min_width t v) w0)"
      by (rule fold_max_start)
    finally show ?thesis by (simp add: True)
  next
    case False
    then have "(t, v) \<in> set tvs" using Cons.prems by auto
    from Cons.IH [OF this] show ?thesis by (simp add: case_prod_unfold)
  qed
qed simp

lemma chosen_width_ge: "(t, v) \<in> set (zip (types_of (opcode i)) (operands i)) \<Longrightarrow> min_width t v \<le> chosen_width i"
  unfolding chosen_width_def instruction_width_def types_of_def by (rule fold_max)

lemma meaning_kept: "decoded_meaning (decoded_at i) = instruction_meaning i"
proof -
  define ts vs w where "ts = types_of (opcode i)" and "vs = operands i" and "w = chosen_width i"
  have "operand_value t w (to_width w v) = operand_value t ExtraWide (unat v)" if "(t, v) \<in> set (zip ts vs)" for t v
    using operand_cut [OF chosen_width_ge] that by (simp add: ts_def vs_def w_def)
  then have "map2 (\<lambda>t k. operand_value t w k) ts (map (to_width w) vs) = map2 (\<lambda>t v. operand_value t ExtraWide (unat v)) ts vs"
    by (auto simp: zip_map2)
  then show ?thesis
    by (simp add: decoded_meaning_def instruction_meaning_def decoded_at_def ts_def vs_def w_def)
qed

text \<open>C36: Whatever instructions are written one after the other, decoding the bytes gives back their
  opcodes and the values of their operands, signed or unsigned by their types, although every instruction
  is written at the least width that fits its operands.\<close>

theorem instructions_roundtrip:
  assumes "\<forall>(i, pos)\<in>set is. well_formed_instruction i"
  shows "map_option (map (decoded_meaning \<circ> snd))
      (decode_instructions (code_bytes (write_instructions is new_writer)) 0)
    = Some (map (instruction_meaning \<circ> fst) is)"
proof -
  obtain ps where "length ps = length is"
    "decode_instructions (code_bytes (write_instructions is new_writer)) 0 = Some (zip ps (map (\<lambda>(i, pos). decoded_at i) is))"
    using decode_written [OF assms, of new_writer] by (elim exE conjE) (simp add: new_writer_def)
  moreover from this have "map (decoded_meaning \<circ> snd) (zip ps (map (\<lambda>(i, pos). decoded_at i) is)) = map (instruction_meaning \<circ> fst) is"
    by (intro nth_equalityI) (simp_all add: meaning_kept case_prod_unfold)
  ultimately show ?thesis by simp
qed

lemma instructions_roundtrip_witness:
  "map_option (map (decoded_meaning \<circ> snd))
      (decode_instructions (code_bytes (write_instructions [(\<lparr>opcode = 3, operands = [- 1, 1000]\<rparr>, 7)] new_writer)) 0)
    = Some [(3, [- 1, 1000])]"
proof -
  have types: "operand_types 3 = Some [RegisterType, SIntType]"
    using length_instruction_table by (simp add: operand_types_def instruction_table_def instructions_1_def)
  have "well_formed_instruction \<lparr>opcode = 3, operands = [- 1, 1000]\<rparr>"
    by (simp add: well_formed_instruction_def types WIDE_PREFIX_def EXTRA_WIDE_PREFIX_def)
  moreover have "instruction_meaning \<lparr>opcode = 3, operands = [- 1, 1000]\<rparr> = (3, [- 1, 1000])"
    by (simp add: instruction_meaning_def types_of_def types operand_value_def is_signed_def as_signed_def width_defs
        unsigned_minus_1_eq_mask mask_eq_exp_minus_1)
  ultimately show ?thesis
    using instructions_roundtrip [of "[(\<lparr>opcode = 3, operands = [- 1, 1000]\<rparr>, 7)]"] by simp
qed

end
