(* ===== verification/Bytecode_Handlers.thy ===== *)
theory Bytecode_Handlers
  imports Bytecode_Correct
begin

text \<open>
  \<open>runtime/bytecode/exception_handlers.rs\<close> and \<open>visit_frame_for_exception_unwinding\<close> of \<open>vm.rs\<close>: the
  handlers of a function, the table they are written to, and the search for the innermost handler.
  Pointers into the table are offsets; reading behind its end, or moving an iterator there, is \<open>None\<close>.
\<close>

section \<open>Builders\<close>

record handler =
  handler_start :: nat
  handler_end :: nat
  handler_offset :: nat
  error_register :: "u32 option"

definition new_handler :: "nat \<Rightarrow> nat \<Rightarrow> handler" where
  "new_handler start end = \<lparr>handler_start = start, handler_end = end, handler_offset = 0, error_register = None\<rparr>"

record handlers_builder =
  builder_handlers :: "handler list"
  builder_width :: width

definition new_handlers_builder :: handlers_builder where
  "new_handlers_builder = \<lparr>builder_handlers = [], builder_width = Narrow\<rparr>"

definition add_handler :: "handler \<Rightarrow> handlers_builder \<Rightarrow> handlers_builder" where
  "add_handler h b =
     (let w = max (max (max (builder_width b) (min_width_for_unsigned (handler_start h)))
                (min_width_for_unsigned (handler_end h))) (min_width_for_unsigned (handler_offset h));
          w = (case error_register h of Some r \<Rightarrow> max w (min_width RegisterType r) | None \<Rightarrow> w) in
      b\<lparr>builder_width := w, builder_handlers := builder_handlers b @ [h]\<rparr>)"

text \<open>\<open>write_operand\<close> of the builder: the largest width has eight bytes here.\<close>

fun handler_bytes :: "width \<Rightarrow> nat" where
  "handler_bytes Narrow = 1"
| "handler_bytes Wide = 2"
| "handler_bytes ExtraWide = 8"

definition write_handler_operand :: "width \<Rightarrow> u8 list \<Rightarrow> nat \<Rightarrow> u8 list" where
  "write_handler_operand w buffer v = buffer @ width_bytes (handler_bytes w) v"

text \<open>\<open>register.signed() as isize as usize\<close>, with \<open>this\<close> for no register.\<close>

definition register_operand :: "u32 option \<Rightarrow> nat" where
  "register_operand r =
     nat (as_signed ExtraWide (unat (case r of Some r \<Rightarrow> r | None \<Rightarrow> this_register)) mod 2 ^ 64)"

definition handler_operands :: "handler \<Rightarrow> nat list" where
  "handler_operands h = [handler_start h, handler_end h, handler_offset h, register_operand (error_register h)]"

record exception_handlers =
  table_width :: width
  table_bytes :: "u8 list"

definition finish_handlers :: "handlers_builder \<Rightarrow> exception_handlers option" where
  "finish_handlers b =
     (if builder_handlers b = [] then None
      else Some \<lparr>table_width = builder_width b,
        table_bytes = fold (\<lambda>h buffer. foldl (write_handler_operand (builder_width b)) buffer (handler_operands h))
          (builder_handlers b) []\<rparr>)"

section \<open>The table\<close>

definition get_value_at :: "exception_handlers \<Rightarrow> nat \<Rightarrow> nat \<Rightarrow> nat option" where
  "get_value_at t ptr index =
     (let n = handler_bytes (table_width t) in
      map_option bytes_uint (vec_slice (table_bytes t) (ptr + index * n) (ptr + index * n + n)))"

text \<open>The raw value of a register is cast to 32 bits.\<close>

definition handler_error_register :: "exception_handlers \<Rightarrow> nat \<Rightarrow> u32 option option" where
  "handler_error_register t ptr = do {
     raw \<leftarrow> get_value_at t ptr 3;
     let register = (case table_width t of
         Narrow \<Rightarrow> word_of_int (as_signed Narrow raw)
       | Wide \<Rightarrow> word_of_int (as_signed Wide raw)
       | ExtraWide \<Rightarrow> word_of_nat raw);
     Some (if is_this register then None else Some register)
   }"

text \<open>The step of the iterator, which uses sizes of its own.\<close>

fun iterator_entry_size :: "width \<Rightarrow> nat" where
  "iterator_entry_size Narrow = 1"
| "iterator_entry_size Wide = 2"
| "iterator_entry_size ExtraWide = 4"

definition handlers_next :: "exception_handlers \<Rightarrow> nat \<Rightarrow> (nat \<times> nat) option option" where
  "handlers_next t current =
     (if current = length (table_bytes t) then Some None
      else if length (table_bytes t) < current then None
      else Some (Some (current, current + iterator_entry_size (table_width t) * 4)))"

lemma handlers_next_after:
  "handlers_next t current = Some (Some (ptr, next)) \<Longrightarrow> current < next \<and> current < length (table_bytes t)"
  by (cases "table_width t") (auto simp: handlers_next_def split: if_splits)

text \<open>The loop of \<open>visit_frame_for_exception_unwinding\<close>: the best handler so far with its width.\<close>

function innermost_matching_handler ::
  "exception_handlers \<Rightarrow> nat \<Rightarrow> nat \<Rightarrow> (nat \<times> nat) option \<Rightarrow> (nat \<times> nat) option option" where
  "innermost_matching_handler t instr_offset current best =
     (case handlers_next t current of
        None \<Rightarrow> None
      | Some None \<Rightarrow> Some best
      | Some (Some (ptr, next)) \<Rightarrow>
          (case (get_value_at t ptr 0, get_value_at t ptr 1) of
             (Some start, Some end) \<Rightarrow>
               innermost_matching_handler t instr_offset next
                 (if start < instr_offset \<and> instr_offset \<le> end then
                    (case best of
                       Some (_, least) \<Rightarrow> if least < end - start then best else Some (ptr, end - start)
                     | None \<Rightarrow> Some (ptr, end - start))
                  else best)
           | _ \<Rightarrow> None))"
  by pat_completeness auto
termination
  by (relation "measure (\<lambda>(t, instr_offset, current, best). length (table_bytes t) - current)")
    (auto dest!: handlers_next_after)

declare innermost_matching_handler.simps [simp del]

text \<open>Where to go on, and the register for the error.\<close>

definition find_exception_handler ::
  "exception_handlers option \<Rightarrow> nat \<Rightarrow> (nat \<times> u32 option) option option" where
  "find_exception_handler handlers instr_offset =
     (case handlers of
        None \<Rightarrow> Some None
      | Some t \<Rightarrow> do {
          best \<leftarrow> innermost_matching_handler t instr_offset 0 None;
          (case best of
             None \<Rightarrow> Some None
           | Some (ptr, _) \<Rightarrow> do {
               handler \<leftarrow> get_value_at t ptr 2;
               register \<leftarrow> handler_error_register t ptr;
               Some (Some (handler, register))
             })
        })"

section \<open>Narrow and wide tables\<close>

definition build_handlers :: "handler list \<Rightarrow> handlers_builder" where
  "build_handlers hs = fold add_handler hs new_handlers_builder"

definition entry_of :: "width \<Rightarrow> handler \<Rightarrow> u8 list" where
  "entry_of w h = concat (map (width_bytes (handler_bytes w)) (handler_operands h))"

lemma table_of_entries:
  "finish_handlers b = (if builder_handlers b = [] then None
     else Some \<lparr>table_width = builder_width b, table_bytes = concat (map (entry_of (builder_width b)) (builder_handlers b))\<rparr>)"
proof -
  have "foldl (write_handler_operand w) buffer vs = buffer @ concat (map (width_bytes (handler_bytes w)) vs)" for w buffer vs
    by (induction vs arbitrary: buffer) (simp_all add: write_handler_operand_def)
  then have "fold (\<lambda>h buffer. foldl (write_handler_operand w) buffer (handler_operands h)) hs buffer
      = buffer @ concat (map (entry_of w) hs)" for w hs buffer
    by (induction hs arbitrary: buffer) (simp_all add: entry_of_def)
  then show ?thesis by (simp add: finish_handlers_def)
qed

lemma built_handlers [simp]: "builder_handlers (build_handlers hs) = hs"
proof -
  have "builder_handlers (fold add_handler hs b) = builder_handlers b @ hs" for b
    by (induction hs arbitrary: b) (simp_all add: add_handler_def Let_def)
  then show ?thesis by (simp add: build_handlers_def new_handlers_builder_def)
qed

definition handler_fits :: "width \<Rightarrow> handler \<Rightarrow> bool" where
  "handler_fits w h \<longleftrightarrow>
     min_width_for_unsigned (handler_start h) \<le> w \<and> min_width_for_unsigned (handler_end h) \<le> w \<and>
     min_width_for_unsigned (handler_offset h) \<le> w \<and>
     (\<forall>r. error_register h = Some r \<longrightarrow> min_width RegisterType r \<le> w)"

lemma built_width: "h \<in> set hs \<Longrightarrow> handler_fits (builder_width (build_handlers hs)) h"
proof -
  have grows: "builder_width b \<le> builder_width (fold add_handler hs b)" for b hs
  proof (induction hs arbitrary: b)
    case (Cons h hs)
    have "builder_width b \<le> builder_width (add_handler h b)"
      by (auto simp: add_handler_def Let_def le_max_iff_disj split: option.splits)
    also have "\<dots> \<le> builder_width (fold add_handler hs (add_handler h b))" by (rule Cons.IH)
    finally show ?case by simp
  qed simp
  have fits: "handler_fits (builder_width (add_handler h b)) h" for h b
    by (auto simp: handler_fits_def add_handler_def Let_def le_max_iff_disj split: option.splits)
  have "h \<in> set hs \<Longrightarrow> handler_fits (builder_width (fold add_handler hs b)) h" for b
  proof (induction hs arbitrary: b)
    case (Cons g hs)
    show ?case
    proof (cases "h \<in> set hs")
      case False
      with Cons.prems have "g = h" by simp
      with fits [of h b] grows [of "add_handler h b" hs] show ?thesis
        by (auto simp: handler_fits_def intro: order_trans)
    qed (simp add: Cons.IH)
  qed simp
  then show "h \<in> set hs \<Longrightarrow> handler_fits (builder_width (build_handlers hs)) h" by (simp add: build_handlers_def)
qed

text \<open>The register that a handler is read back with.\<close>

definition effective_register :: "handler \<Rightarrow> u32 option" where
  "effective_register h =
     (case error_register h of Some r \<Rightarrow> if is_this r then None else Some r | None \<Rightarrow> None)"

lemma length_entry: "length (entry_of w h) = 4 * handler_bytes w"
  by (simp add: entry_of_def handler_operands_def)

lemma take_inside: "b + m \<le> l \<Longrightarrow> take m (drop b (take l (drop a xs))) = take m (drop (a + b) xs)"
  by (simp add: drop_take add.commute)

lemma value_at:
  assumes "table_bytes t = concat (map (entry_of (table_width t)) hs)" and "k < length hs" and "i < 4"
  shows "get_value_at t (k * (4 * handler_bytes (table_width t))) i
    = Some (handler_operands (hs ! k) ! i mod 256 ^ handler_bytes (table_width t))"
proof -
  define n where "n = handler_bytes (table_width t)"
  have entry: "take (4 * n) (drop (k * (4 * n)) (table_bytes t)) = entry_of (table_width t) (hs ! k)"
    using concat_block [of "entry_of (table_width t)" "4 * n" k hs "[]"] assms(1,2)
    by (simp add: length_entry n_def)
  have operand: "take n (drop (i * n) (entry_of (table_width t) (hs ! k))) = width_bytes n (handler_operands (hs ! k) ! i)"
    using concat_block [of "width_bytes n" n i "handler_operands (hs ! k)" "[]"] assms(3)
    by (simp add: entry_of_def n_def handler_operands_def)
  have in_entry: "i * n + n \<le> 4 * n" using mult_le_mono1 [of "i + 1" 4 n] assms(3) by simp
  from take_inside [OF this, of "k * (4 * n)" "table_bytes t"] entry operand
  have "take n (drop (k * (4 * n) + i * n) (table_bytes t)) = width_bytes n (handler_operands (hs ! k) ! i)" by simp
  moreover have "k * (4 * n) + i * n + n \<le> length (table_bytes t)"
  proof -
    have "length (table_bytes t) = length hs * (4 * n)"
      using assms(1) by (simp add: length_concat o_def length_entry n_def sum_list_triv)
    moreover have "k * (4 * n) + 4 * n \<le> length hs * (4 * n)"
      using mult_le_mono1 [of "k + 1" "length hs" "4 * n"] assms(2) by simp
    ultimately show ?thesis using in_entry by linarith
  qed
  ultimately show ?thesis
    by (simp add: get_value_at_def Let_def vec_slice_def n_def [symmetric])
qed

text \<open>Values that fit are read back.\<close>

lemma unsigned_fits: "min_width_for_unsigned k \<le> w \<Longrightarrow> w \<noteq> ExtraWide \<Longrightarrow> k mod 256 ^ handler_bytes w = k"
  by (cases w) (auto simp: min_width_for_unsigned_def width_defs split: if_splits)

lemma this_fits: "min_width RegisterType this_register = Narrow"
  by (simp add: min_width_def is_signed_def this_register_def RECEIVER_SLOT_INDEX_def as_signed_def
      min_width_for_signed_def width_defs)

lemma register_operand_is:
  "register_operand (Some r) = (if is_local r then unat r + 4294967295 * 4294967296 else unat r)"
proof -
  obtain k where k_def: "unat r = k" by simp
  have k: "k < 4294967296" using word_bound [of r] by (simp add: k_def)
  have operand: "register_operand (Some r) = nat (as_signed ExtraWide k mod 18446744073709551616)"
    by (simp add: register_operand_def k_def)
  show ?thesis
  proof (cases "k \<le> 2147483647")
    case True
    then have "as_signed ExtraWide k = int k" by (simp add: as_signed_def width_defs)
    then show ?thesis using k unfolding operand by (simp add: k_def is_local_def)
  next
    case False
    then have signed: "as_signed ExtraWide k = int k - 4294967296" by (simp add: as_signed_def width_defs)
    moreover have "(int k - 4294967296) mod 18446744073709551616 = (int k + 18446744069414584320) mod 18446744073709551616"
      using mod_add_self2 [of "int k - 4294967296" 18446744073709551616] by (simp add: add.commute)
    moreover have "(int k + 18446744069414584320) mod 18446744073709551616 = int k + 18446744069414584320"
      using k by (intro mod_pos_pos_trivial) simp_all
    ultimately have "register_operand (Some r) = k + 4294967295 * 4294967296" by (simp add: operand)
    then show ?thesis using k signed by (simp add: k_def is_local_def)
  qed
qed

lemma register_operand_mod: "register_operand (Some r) mod 4294967296 = unat r"
  using word_bound [of r] by (simp only: register_operand_is mod_mult_self1 split: if_split) simp

lemma register_read:
  assumes "w \<noteq> ExtraWide" and "min_width RegisterType r \<le> w"
  shows "word_of_int (as_signed w (register_operand (Some r) mod 256 ^ handler_bytes w)) = r"
proof -
  have "(256 :: nat) ^ handler_bytes w dvd 4294967296" and bytes: "handler_bytes w = num_bytes w"
    using assms(1) by (cases w; simp)+
  then have "register_operand (Some r) mod 256 ^ handler_bytes w = unat r mod 2 ^ (8 * num_bytes w)"
    using mod_mod_cancel [of "256 ^ handler_bytes w" 4294967296 "register_operand (Some r)"]
    by (simp add: register_operand_mod power_bytes)
  then have "as_signed w (register_operand (Some r) mod 256 ^ handler_bytes w) = as_signed ExtraWide (unat r)"
    using operand_cut [OF assms(2)] by (simp add: operand_value_def is_signed_def to_width_def)
  moreover have "word_of_int (as_signed ExtraWide (unat r)) = r"
    using word_of_int_2p_len [where 'a = 32] by (simp add: as_signed_def)
  ultimately show ?thesis by simp
qed

section \<open>The search\<close>

text \<open>The search on the list of handlers, from the index \<open>k\<close>.\<close>

definition covers :: "handler \<Rightarrow> nat \<Rightarrow> bool" where
  "covers h pc \<longleftrightarrow> handler_start h < pc \<and> pc \<le> handler_end h"

definition handler_extent :: "handler \<Rightarrow> nat" where
  "handler_extent h = handler_end h - handler_start h"

fun pick_handler :: "handler list \<Rightarrow> nat \<Rightarrow> nat \<Rightarrow> (nat \<times> nat) option \<Rightarrow> (nat \<times> nat) option" where
  "pick_handler [] pc k best = best"
| "pick_handler (h # hs) pc k best =
     pick_handler hs pc (Suc k)
       (if covers h pc then
          (case best of
             Some (_, least) \<Rightarrow> if least < handler_extent h then best else Some (k, handler_extent h)
           | None \<Rightarrow> Some (k, handler_extent h))
        else best)"

definition best_so_far :: "handler list \<Rightarrow> nat \<Rightarrow> nat \<Rightarrow> (nat \<times> nat) option \<Rightarrow> bool" where
  "best_so_far hs pc n best \<longleftrightarrow>
     (case best of
        None \<Rightarrow> \<forall>j<n. \<not> covers (hs ! j) pc
      | Some (k, extent) \<Rightarrow> k < n \<and> covers (hs ! k) pc \<and> extent = handler_extent (hs ! k) \<and>
          (\<forall>j<n. covers (hs ! j) pc \<longrightarrow>
             extent < handler_extent (hs ! j) \<or> extent = handler_extent (hs ! j) \<and> j \<le> k))"

lemma pick_best:
  assumes "best_so_far (pre @ hs) pc (length pre) best"
  shows "best_so_far (pre @ hs) pc (length (pre @ hs)) (pick_handler hs pc (length pre) best)"
  using assms
proof (induction hs arbitrary: pre best)
  case (Cons h hs)
  have "best_so_far ((pre @ [h]) @ hs) pc (length (pre @ [h]))
     (if covers h pc then
        (case best of
           Some (_, least) \<Rightarrow> if least < handler_extent h then best else Some (length pre, handler_extent h)
         | None \<Rightarrow> Some (length pre, handler_extent h))
      else best)"
    using Cons.prems
    by (cases best)
      (auto simp: best_so_far_def nth_append less_Suc_eq not_less split: if_splits,
        metis le_neq_implies_less le_less_trans)
  from Cons.IH [OF this] show ?case by simp
qed simp

lemma picked_best: "best_so_far hs pc (length hs) (pick_handler hs pc 0 None)"
  using pick_best [of "[]" hs pc None] by (simp add: best_so_far_def)

lemma search_entries:
  assumes "table_bytes t = concat (map (entry_of (table_width t)) hs)" and "table_width t \<noteq> ExtraWide"
    and "\<forall>h\<in>set hs. handler_fits (table_width t) h" and "k \<le> length hs"
  defines "sz \<equiv> 4 * handler_bytes (table_width t)"
  shows "innermost_matching_handler t pc (k * sz) (map_option (\<lambda>(j, extent). (j * sz, extent)) best)
    = Some (map_option (\<lambda>(j, extent). (j * sz, extent)) (pick_handler (drop k hs) pc k best))"
  using assms(4)
proof (induction "length hs - k" arbitrary: k best)
  case 0
  have "length (table_bytes t) = length hs * sz"
    using assms(1) by (simp add: length_concat o_def length_entry sz_def sum_list_triv)
  with 0 show ?case by (subst innermost_matching_handler.simps) (simp add: handlers_next_def)
next
  case (Suc n)
  then have k: "k < length hs" by simp
  have sizes: "iterator_entry_size (table_width t) * 4 = sz" "0 < sz"
    using assms(2) by (cases "table_width t"; simp add: sz_def)+
  have "length (table_bytes t) = length hs * sz"
    using assms(1) by (simp add: length_concat o_def length_entry sz_def sum_list_triv)
  then have "handlers_next t (k * sz) = Some (Some (k * sz, Suc k * sz))"
    using k sizes by (simp add: handlers_next_def)
  moreover have "get_value_at t (k * sz) 0 = Some (handler_start (hs ! k))"
    "get_value_at t (k * sz) 1 = Some (handler_end (hs ! k))"
    using value_at [OF assms(1) k, of 0] value_at [OF assms(1) k, of 1] assms(2,3) nth_mem [OF k]
    by (simp_all add: sz_def handler_operands_def handler_fits_def unsigned_fits)
  moreover have "drop k hs = hs ! k # drop (Suc k) hs" using k by (rule Cons_nth_drop_Suc [symmetric])
  moreover note Suc.hyps(1) [of "Suc k" "if covers (hs ! k) pc then
          (case best of
             Some (_, least) \<Rightarrow> if least < handler_extent (hs ! k) then best else Some (k, handler_extent (hs ! k))
           | None \<Rightarrow> Some (k, handler_extent (hs ! k)))
        else best"]
  ultimately show ?case
    using Suc.hyps(2) k
    by (subst innermost_matching_handler.simps)
      (cases best; auto simp: covers_def handler_extent_def split: if_splits)
qed

lemma find_in_table:
  assumes "builder_width (build_handlers hs) \<noteq> ExtraWide"
  shows "find_exception_handler (finish_handlers (build_handlers hs)) pc
    = Some (map_option (\<lambda>(k, _). (handler_offset (hs ! k), effective_register (hs ! k))) (pick_handler hs pc 0 None))"
proof (cases "hs = []")
  case True
  then show ?thesis by (simp add: table_of_entries find_exception_handler_def)
next
  case False
  define w where "w = builder_width (build_handlers hs)"
  define t where "t = \<lparr>table_width = w, table_bytes = concat (map (entry_of w) hs)\<rparr>"
  have t: "finish_handlers (build_handlers hs) = Some t" using False by (simp add: table_of_entries t_def w_def)
  have bytes: "table_bytes t = concat (map (entry_of (table_width t)) hs)" and w: "table_width t = w"
    by (simp_all add: t_def)
  have fits: "\<forall>h\<in>set hs. handler_fits (table_width t) h" using built_width by (simp add: w w_def)
  define sz where "sz = 4 * handler_bytes (table_width t)"
  have search: "innermost_matching_handler t pc 0 None = Some (map_option (\<lambda>(j, extent). (j * sz, extent)) (pick_handler hs pc 0 None))"
    using search_entries [OF bytes _ fits, of 0 pc None] assms by (simp add: w w_def sz_def)
  show ?thesis
  proof (cases "pick_handler hs pc 0 None")
    case None
    with search show ?thesis by (simp add: t find_exception_handler_def)
  next
    case (Some best)
    obtain k extent where best: "best = (k, extent)" by (cases best)
    have "best_so_far hs pc (length hs) (pick_handler hs pc 0 None)" by (rule picked_best)
    then have "best_so_far hs pc (length hs) (Some (k, extent))" unfolding Some best .
    then have k: "k < length hs" by (simp add: best_so_far_def)
    have mem: "handler_fits w (hs ! k)" using fits k by (simp add: w)
    have "get_value_at t (k * sz) 2 = Some (handler_offset (hs ! k))"
      using value_at [OF bytes k, of 2] mem assms
      by (simp add: sz_def handler_operands_def handler_fits_def unsigned_fits w w_def)
    moreover have "handler_error_register t (k * sz) = Some (effective_register (hs ! k))"
    proof -
      define r where "r = (case error_register (hs ! k) of Some r \<Rightarrow> r | None \<Rightarrow> this_register)"
      have r: "register_operand (error_register (hs ! k)) = register_operand (Some r)"
        by (simp add: register_operand_def r_def)
      have "min_width RegisterType r \<le> w"
        using mem this_fits by (cases "error_register (hs ! k)"; cases w; simp add: r_def handler_fits_def less_eq_width_def)
      moreover have "w \<noteq> ExtraWide" using assms by (simp add: w_def)
      ultimately have "word_of_int (as_signed w (register_operand (Some r) mod 256 ^ handler_bytes w)) = r"
        by (intro register_read)
      then have "handler_error_register t (k * sz) = Some (if is_this r then None else Some r)"
        using value_at [OF bytes k, of 3] \<open>w \<noteq> ExtraWide\<close>
        by (cases w) (simp_all add: handler_error_register_def sz_def handler_operands_def r w Let_def)
      also have "(if is_this r then None else Some r) = effective_register (hs ! k)"
        by (auto simp: r_def effective_register_def is_this_def this_register_def RECEIVER_SLOT_INDEX_def split: option.splits)
      finally show ?thesis .
    qed
    ultimately show ?thesis using search Some best by (simp add: t find_exception_handler_def)
  qed
qed

text \<open>C39: As long as no number in the table needs more than 16 bits, an exception goes to the innermost
  handler whose range covers the instruction, with its register: the covering handler of least extent,
  and the one added last among those; and to the caller exactly if no handler covers the instruction.\<close>

theorem innermost_handler_found:
  assumes "builder_width (build_handlers hs) \<noteq> ExtraWide"
  shows "\<exists>result. find_exception_handler (finish_handlers (build_handlers hs)) pc = Some result \<and>
    (case result of
       None \<Rightarrow> \<forall>h\<in>set hs. \<not> covers h pc
     | Some (target, register) \<Rightarrow> \<exists>k<length hs.
         covers (hs ! k) pc \<and> target = handler_offset (hs ! k) \<and> register = effective_register (hs ! k) \<and>
         (\<forall>j<length hs. covers (hs ! j) pc \<longrightarrow>
            handler_extent (hs ! k) < handler_extent (hs ! j) \<or>
            handler_extent (hs ! k) = handler_extent (hs ! j) \<and> j \<le> k))"
proof -
  show ?thesis
    using picked_best [of hs pc] find_in_table [OF assms, of pc]
    by (cases "pick_handler hs pc 0 None") (auto simp: best_so_far_def in_set_conv_nth)
qed

lemma innermost_handler_found_witness:
  "\<exists>result. find_exception_handler (finish_handlers (build_handlers
      [new_handler 0 300\<lparr>handler_offset := 310\<rparr>, new_handler 10 20\<lparr>handler_offset := 400\<rparr>])) 15 = Some result \<and>
    result \<noteq> None"
proof -
  have "builder_width (build_handlers [new_handler 0 300\<lparr>handler_offset := 310\<rparr>, new_handler 10 20\<lparr>handler_offset := 400\<rparr>])
      \<noteq> ExtraWide"
    by (simp add: build_handlers_def new_handlers_builder_def add_handler_def new_handler_def Let_def
        min_width_for_unsigned_def width_defs max_def)
  from innermost_handler_found [OF this, of 15] show ?thesis
    by (auto simp: covers_def new_handler_def split: option.splits)
qed

section \<open>Extra wide tables\<close>

text \<open>C40: In an extra wide table, written for functions of more than 64 KiB of bytecode, with a single
  handler whose error goes to a local register, the search for a handler stops in the middle of the entry: for
  an exception behind the handler and outside of its range, which the handler does not cover, it takes the
  second half of the entry, the handler and the register, for the range of another handler that covers the
  exception, and the address to go on at is then read behind the end of the table.\<close>

theorem extra_wide_handlers_misread:
  assumes "builder_width (build_handlers [h]) = ExtraWide"
    and "error_register h = Some r" and "is_local r"
    and "handler_start h < 2 ^ 63" "handler_end h < 2 ^ 63" "handler_offset h < pc" "pc < 2 ^ 63"
    and "\<not> covers h pc"
  shows "\<exists>t. finish_handlers (build_handlers [h]) = Some t \<and> length (table_bytes t) = 32
    \<and> get_value_at t 16 0 = Some (handler_offset h) \<and> get_value_at t 16 1 = Some (register_operand (Some r))
    \<and> innermost_matching_handler t pc 0 None = Some (Some (16, register_operand (Some r) - handler_offset h))
    \<and> find_exception_handler (Some t) pc = None"
proof -
  define t where "t = \<lparr>table_width = ExtraWide, table_bytes = concat (map (entry_of ExtraWide) [h])\<rparr>"
  have t: "finish_handlers (build_handlers [h]) = Some t" by (simp add: table_of_entries t_def assms(1))
  have bytes: "table_bytes t = entry_of ExtraWide h" and w: "table_width t = ExtraWide" by (simp_all add: t_def)
  have length: "length (table_bytes t) = 32" by (simp add: bytes length_entry)
  have operands: "handler_operands h = [handler_start h, handler_end h, handler_offset h, register_operand (Some r)]"
    by (simp add: handler_operands_def assms(2))
  have at: "get_value_at t 0 i = Some (handler_operands h ! i mod 18446744073709551616)" if "i < 4" for i
    using value_at [of t "[h]" 0 i] that by (simp add: bytes w)
  have shifted: "get_value_at t 16 i = get_value_at t 0 (i + 2)" for i
    by (simp add: get_value_at_def Let_def w add.assoc)
  define raw where "raw = register_operand (Some r)"
  have "2147483648 \<le> unat r"
  proof -
    obtain k where k: "unat r = k" by simp
    show ?thesis using assms(3) by (simp add: is_local_def as_signed_def width_defs k split: if_splits)
  qed
  then have raw: "9223372036854775808 \<le> raw" "raw < 18446744073709551616"
    using word_bound [of r] assms(3) by (simp_all add: raw_def register_operand_is)
  have bounds: "handler_start h < 9223372036854775808" "handler_end h < 9223372036854775808"
    "handler_offset h < 9223372036854775808" "pc < 9223372036854775808"
    using assms(4-7) by simp_all
  have small: "n < 9223372036854775808 \<Longrightarrow> n mod 18446744073709551616 = n" for n :: nat by simp
  have "innermost_matching_handler t pc 32 best = Some best" for best
    by (subst innermost_matching_handler.simps) (simp add: handlers_next_def length)
  then have "innermost_matching_handler t pc 16 None = Some (Some (16, raw - handler_offset h))"
    using bounds raw assms(6)
    by (subst innermost_matching_handler.simps)
      (simp add: handlers_next_def length w shifted at operands raw_def [symmetric] small)
  moreover have "innermost_matching_handler t pc 0 None = innermost_matching_handler t pc 16 None"
    using bounds assms(8)
    by (subst innermost_matching_handler.simps)
      (auto simp: handlers_next_def length w at operands small covers_def)
  moreover have "get_value_at t 16 2 = None" by (simp add: get_value_at_def Let_def w length vec_slice_def)
  moreover have "get_value_at t 16 0 = Some (handler_offset h)" "get_value_at t 16 1 = Some raw"
    using bounds raw by (simp_all add: shifted at operands raw_def [symmetric] small)
  ultimately show ?thesis by (simp add: t length raw_def find_exception_handler_def)
qed

lemma extra_wide_handlers_misread_witness:
  defines "h \<equiv> \<lparr>handler_start = 0, handler_end = 69990, handler_offset = 70000, error_register = Some (- 1)\<rparr>"
  shows "find_exception_handler (finish_handlers (build_handlers [h])) 70010 = None"
proof -
  have "builder_width (build_handlers [h]) = ExtraWide"
    by (cases "min_width RegisterType (- 1)")
      (simp_all add: h_def build_handlers_def new_handlers_builder_def add_handler_def Let_def
        min_width_for_unsigned_def width_defs max_def)
  moreover have "is_local (- 1)"
    by (simp add: is_local_def as_signed_def width_defs unsigned_minus_1_eq_mask mask_eq_exp_minus_1)
  ultimately show ?thesis
    using extra_wide_handlers_misread [of h "- 1" 70010] by (auto simp: h_def covers_def)
qed

end
