(* ===== verification/Bytecode_Constants.thy ===== *)
theory Bytecode_Constants
  imports Bytecode_Correct Value "HOL-Library.AList" "HOL-Library.Multiset"
begin

text \<open>
  \<open>runtime/bytecode/constant_table_builder.rs\<close> and \<open>constant_table.rs\<close>: constants are given indices in
  three ranges, one for each width of operands, in which indices can be reserved for jumps whose offset
  is not known yet.  The counters of the ranges are functions of the width.
\<close>

section \<open>Constants\<close>

text \<open>
  A string is its address, as it is interned.  A heap item has a unique key; its handle may dangle, when
  the item is patched in later.  Doubles are the bits of their values.
\<close>

datatype constant_entry =
    StringConstant u64
  | HeapItemConstant "u64 option" nat
  | DoubleConstant value_bits
  | BytecodeOffset int

text \<open>The bits that are stored, if the handle does not dangle, and whether they are a value.\<close>

fun to_value :: "constant_entry \<Rightarrow> bool \<times> value_bits option" where
  "to_value (StringConstant p) = (True, Some (heap_item p))"
| "to_value (HeapItemConstant item key) = (True, map_option heap_item item)"
| "to_value (DoubleConstant v) = (True, Some v)"
| "to_value (BytecodeOffset offset) = (False, Some (word_of_int offset))"

record constant_table_builder =
  constants :: "(constant_entry \<times> nat) list"
  allocated :: "width \<Rightarrow> nat"
  reserved :: "width \<Rightarrow> nat"
  duplicates :: "(constant_entry \<times> nat) list"
  num_heap_items :: nat

definition new_constant_table_builder :: constant_table_builder where
  "new_constant_table_builder =
     \<lparr>constants = [], allocated = \<lambda>_. 0, reserved = \<lambda>_. 0, duplicates = [], num_heap_items = 0\<rparr>"

fun first_index :: "width \<Rightarrow> nat" where
  "first_index Narrow = 0"
| "first_index Wide = UNSIGNED_MAX Narrow + 1"
| "first_index ExtraWide = UNSIGNED_MAX Wide + 1"

definition num_entries :: "width \<Rightarrow> nat" where
  "num_entries w = UNSIGNED_MAX w - first_index w + 1"

datatype emit_error =
    ConstantTableTooLarge
  | TooManyFunctionParameters
  | TooManyCallArguments
  | TooManyRegisters
  | TooManyScopes
  | IndexTooLarge
  | IntegerTooLarge

definition next_index_width :: "constant_table_builder \<Rightarrow> emit_error + width" where
  "next_index_width b =
     (if allocated b Narrow + reserved b Narrow < num_entries Narrow then Inr Narrow
      else if allocated b Wide + reserved b Wide < num_entries Wide then Inr Wide
      else if allocated b ExtraWide + reserved b ExtraWide < num_entries ExtraWide then Inr ExtraWide
      else Inl ConstantTableTooLarge)"

text \<open>The next index of a range, for a key.\<close>

definition allocate_index ::
  "width \<Rightarrow> constant_entry \<Rightarrow> constant_table_builder \<Rightarrow> nat \<times> constant_table_builder" where
  "allocate_index w key b =
     (let next_index = allocated b w + first_index w in
      (next_index, b\<lparr>allocated := (allocated b)(w := allocated b w + 1),
         constants := AList.update key next_index (constants b)\<rparr>))"

definition insert_if_missing ::
  "constant_entry \<Rightarrow> constant_table_builder \<Rightarrow> emit_error + nat \<times> constant_table_builder" where
  "insert_if_missing key b =
     (case map_of (constants b) key of
        Some i \<Rightarrow> Inr (i, b)
      | None \<Rightarrow>
          (case next_index_width b of
             Inl e \<Rightarrow> Inl e
           | Inr w \<Rightarrow> Inr (allocate_index w key b)))"

definition reserve_entry :: "constant_table_builder \<Rightarrow> emit_error + width \<times> constant_table_builder" where
  "reserve_entry b =
     (case next_index_width b of
        Inl e \<Rightarrow> Inl e
      | Inr w \<Rightarrow> Inr (w, b\<lparr>reserved := (reserved b)(w := reserved b w + 1)\<rparr>))"

text \<open>Counting below zero is a panic.\<close>

definition remove_reserved :: "width \<Rightarrow> constant_table_builder \<Rightarrow> constant_table_builder option" where
  "remove_reserved w b =
     map_option (\<lambda>n. b\<lparr>reserved := (reserved b)(w := n)\<rparr>) (checked_sub (reserved b w) 1)"

definition commit_reserved_bytecode_offset ::
  "width \<Rightarrow> int \<Rightarrow> constant_table_builder \<Rightarrow> (nat \<times> constant_table_builder) option" where
  "commit_reserved_bytecode_offset w offset b =
     (let entry_key = BytecodeOffset offset in
      if w = ExtraWide then
        (case map_of (constants b) entry_key of
           Some i \<Rightarrow> Some (i, b)
         | None \<Rightarrow>
             (let next_index = allocated b ExtraWide + first_index ExtraWide in do {
                b \<leftarrow> remove_reserved ExtraWide b;
                Some (next_index, b\<lparr>allocated := (allocated b)(ExtraWide := allocated b ExtraWide + 1)\<rparr>)
              }))
      else do {
        b \<leftarrow> remove_reserved w b;
        (case map_of (constants b) entry_key of
           Some i \<Rightarrow>
             if min_width_for_unsigned i \<le> w then Some (i, b)
             else Some (allocate_index w entry_key (b\<lparr>duplicates := duplicates b @ [(entry_key, i)]\<rparr>))
         | None \<Rightarrow> Some (allocate_index w entry_key b))
      })"

definition add_string :: "u64 \<Rightarrow> constant_table_builder \<Rightarrow> emit_error + nat \<times> constant_table_builder" where
  "add_string string = insert_if_missing (StringConstant string)"

definition add_heap_item ::
  "u64 option \<Rightarrow> constant_table_builder \<Rightarrow> emit_error + nat \<times> constant_table_builder" where
  "add_heap_item item b =
     insert_if_missing (HeapItemConstant item (num_heap_items b)) (b\<lparr>num_heap_items := num_heap_items b + 1\<rparr>)"

definition add_double :: "value_bits \<Rightarrow> constant_table_builder \<Rightarrow> emit_error + nat \<times> constant_table_builder" where
  "add_double double = insert_if_missing (DoubleConstant double)"

definition add_bytecode_offset :: "int \<Rightarrow> constant_table_builder \<Rightarrow> emit_error + nat \<times> constant_table_builder" where
  "add_bytecode_offset offset = insert_if_missing (BytecodeOffset offset)"

section \<open>The finished table\<close>

record constant_table =
  table_constants :: "value_bits list"
  table_metadata :: "u8 list"

definition calculate_metadata_size :: "nat \<Rightarrow> nat" where
  "calculate_metadata_size num_constants = (num_constants + 7) div 8"

definition set_metadata :: "u8 list \<Rightarrow> nat \<Rightarrow> bool \<Rightarrow> u8 list option" where
  "set_metadata metadata index is_value =
     (if is_value then Some metadata
      else do {
        byte \<leftarrow> vec_get metadata (index div 8);
        vec_set metadata (index div 8) (byte OR push_bit (index mod 8) 1)
      })"

text \<open>One constant of the loops of \<open>finish\<close>.\<close>

definition place_constant ::
  "constant_entry \<times> nat \<Rightarrow> value_bits option list \<times> u8 list \<Rightarrow> (value_bits option list \<times> u8 list) option" where
  "place_constant = (\<lambda>(constant, index) (constants, metadata). do {
     let (is_value, bits) = to_value constant;
     constants \<leftarrow> vec_set constants index bits;
     metadata \<leftarrow> set_metadata metadata index is_value;
     Some (constants, metadata)
   })"

fun place_constants ::
  "(constant_entry \<times> nat) list \<Rightarrow> value_bits option list \<times> u8 list \<Rightarrow> (value_bits option list \<times> u8 list) option" where
  "place_constants [] s = Some s"
| "place_constants (c # cs) s = Option.bind (place_constant c s) (place_constants cs)"

definition num_constants :: "constant_table_builder \<Rightarrow> nat" where
  "num_constants b =
     (if 0 < allocated b ExtraWide then first_index ExtraWide + allocated b ExtraWide
      else if 0 < allocated b Wide then first_index Wide + allocated b Wide
      else allocated b Narrow)"

definition finish_constants :: "constant_table_builder \<Rightarrow> constant_table option option" where
  "finish_constants b =
     (if reserved b Narrow \<noteq> 0 \<or> reserved b Wide \<noteq> 0 \<or> reserved b ExtraWide \<noteq> 0 then None
      else
        (let n = num_constants b in
         if n = 0 then Some None
         else do {
           s \<leftarrow> place_constants (constants b) (replicate n None, replicate (calculate_metadata_size n) 0);
           (constants, metadata) \<leftarrow> place_constants (duplicates b) s;
           Some (Some \<lparr>table_constants = map (\<lambda>c. case c of None \<Rightarrow> value_undefined | Some v \<Rightarrow> v) constants,
             table_metadata = metadata\<rparr>)
         }))"

definition get_constant :: "constant_table \<Rightarrow> nat \<Rightarrow> value_bits option" where
  "get_constant t index = vec_get (table_constants t) index"

definition constant_is_value :: "constant_table \<Rightarrow> nat \<Rightarrow> bool option" where
  "constant_is_value t index =
     map_option (\<lambda>byte. byte AND push_bit (index mod 8) 1 = 0) (vec_get (table_metadata t) (index div 8))"

section \<open>The invariant\<close>

text \<open>Indices that were given out lie in the allocated parts of their ranges, and no two are the same.\<close>

definition in_allocated :: "constant_table_builder \<Rightarrow> nat \<Rightarrow> bool" where
  "in_allocated b i \<longleftrightarrow> (\<exists>w. first_index w \<le> i \<and> i < first_index w + allocated b w)"

definition placed :: "constant_table_builder \<Rightarrow> (constant_entry \<times> nat) list" where
  "placed b = constants b @ duplicates b"

definition builder_ok :: "constant_table_builder \<Rightarrow> bool" where
  "builder_ok b \<longleftrightarrow>
     (\<forall>(e, i)\<in>set (placed b). in_allocated b i) \<and> distinct (map snd (placed b)) \<and>
     distinct (map fst (constants b)) \<and> (\<forall>w. allocated b w + reserved b w \<le> num_entries w)"

lemma new_builder_ok: "builder_ok new_constant_table_builder"
  by (simp add: builder_ok_def new_constant_table_builder_def placed_def)

lemma ranges_disjoint:
  assumes "first_index w \<le> i" "i < first_index w + num_entries w"
    and "first_index v \<le> i" "i < first_index v + num_entries v"
  shows "v = w"
  using assms by (cases w; cases v; simp add: num_entries_def UNSIGNED_MAX_def)

lemma next_index_new:
  assumes "builder_ok b" and "allocated b w < num_entries w"
  shows "\<not> in_allocated b (allocated b w + first_index w)"
proof
  assume "in_allocated b (allocated b w + first_index w)"
  then obtain v where v: "first_index v \<le> allocated b w + first_index w"
    "allocated b w + first_index w < first_index v + allocated b v" by (auto simp: in_allocated_def)
  have "allocated b v \<le> num_entries v" using assms(1) by (simp add: builder_ok_def) (metis add_leD1)
  then have "v = w" using ranges_disjoint [of w "allocated b w + first_index w" v] v assms(2) by simp
  with v show False by simp
qed

lemma update_mset:
  "map_of xs k = None \<Longrightarrow> mset (AList.update k v xs) = add_mset (k, v) (mset xs)"
  "map_of xs k = Some i \<Longrightarrow> add_mset (k, i) (mset (AList.update k v xs)) = add_mset (k, v) (mset xs)"
  by (induction xs) (auto split: if_splits)

text \<open>One more entry, with the next index of a range.\<close>

definition grown_by :: "width \<Rightarrow> constant_entry \<times> nat \<Rightarrow> constant_table_builder \<Rightarrow> constant_table_builder \<Rightarrow> bool" where
  "grown_by w e b b' \<longleftrightarrow>
     mset (placed b') = add_mset e (mset (placed b)) \<and> snd e = allocated b w + first_index w \<and>
     allocated b' = (allocated b)(w := allocated b w + 1) \<and> reserved b' = reserved b \<and>
     distinct (map fst (constants b'))"

lemma grown_builder_ok:
  assumes "builder_ok b" and "allocated b w + reserved b w < num_entries w" and grown: "grown_by w e b b'"
  shows "builder_ok b'"
proof -
  have members: "set (placed b') = insert e (set (placed b))"
    using grown by (metis grown_by_def set_mset_add_mset_insert set_mset_mset)
  have new: "\<not> in_allocated b (snd e)"
    using next_index_new [OF assms(1), of w] assms(2) grown by (simp add: grown_by_def)
  have "in_allocated b' i" if "in_allocated b i" for i
    using that grown by (auto simp: in_allocated_def grown_by_def intro: less_SucI)
  moreover have "in_allocated b' (snd e)" using grown by (auto simp: in_allocated_def grown_by_def)
  ultimately have "\<forall>(e, i)\<in>set (placed b'). in_allocated b' i"
    using assms(1) by (auto simp: members builder_ok_def)
  moreover have "distinct (map snd (placed b'))"
  proof -
    have "mset (map snd (placed b')) = add_mset (snd e) (mset (map snd (placed b)))"
      using grown by (simp add: grown_by_def)
    moreover have "snd e \<notin> set (map snd (placed b))" using new assms(1) by (auto simp: builder_ok_def)
    moreover have "distinct (map snd (placed b))" using assms(1) by (simp add: builder_ok_def)
    ultimately show ?thesis by (metis distinct.simps(2) mset.simps(2) mset_eq_imp_distinct_iff)
  qed
  moreover have "allocated b' v + reserved b' v \<le> num_entries v" for v
    using assms(1,2) grown by (auto simp: builder_ok_def grown_by_def Suc_le_eq)
  ultimately show ?thesis using grown by (simp add: builder_ok_def grown_by_def)
qed

lemma allocate_new:
  assumes "builder_ok b" and "map_of (constants b) key = None"
  shows "grown_by w (key, fst (allocate_index w key b)) b (snd (allocate_index w key b))"
  using assms by (simp add: grown_by_def allocate_index_def Let_def placed_def update_mset distinct_update builder_ok_def)

lemma allocate_again:
  assumes "builder_ok b" and "map_of (constants b) key = Some i"
  defines "b' \<equiv> b\<lparr>duplicates := duplicates b @ [(key, i)]\<rparr>"
  shows "grown_by w (key, fst (allocate_index w key b')) b (snd (allocate_index w key b'))"
  using assms(1) update_mset(2) [OF assms(2)]
  by (simp add: grown_by_def allocate_index_def Let_def placed_def distinct_update builder_ok_def b'_def)

lemma next_width_free:
  "next_index_width b = Inr w \<Longrightarrow> allocated b w + reserved b w < num_entries w"
  by (auto simp: next_index_width_def split: if_splits)

text \<open>What the operations do: an entry for the key is there, and the invariant is kept.\<close>

lemma insert_if_missing_ok:
  assumes "builder_ok b" and "insert_if_missing key b = Inr (i, b')"
  shows "builder_ok b' \<and> (key, i) \<in> set (placed b') \<and> set (placed b) \<subseteq> set (placed b') \<and> reserved b' = reserved b"
proof (cases "map_of (constants b) key")
  case None
  then obtain w where w: "next_index_width b = Inr w" "(i, b') = allocate_index w key b"
    using assms(2) by (auto simp: insert_if_missing_def split: sum.splits)
  then have grown: "grown_by w (key, i) b b'" using allocate_new [OF assms(1) None, of w] by (metis fst_conv snd_conv)
  then have "set (placed b') = insert (key, i) (set (placed b))"
    by (metis grown_by_def set_mset_add_mset_insert set_mset_mset)
  then show ?thesis
    using grown_builder_ok [OF assms(1) next_width_free [OF w(1)] grown] grown by (auto simp: grown_by_def)
next
  case (Some j)
  then have "(key, j) \<in> set (constants b)" by (rule map_of_SomeD)
  with Some assms show ?thesis by (auto simp: insert_if_missing_def placed_def)
qed

lemma reserved_frame [simp]:
  "placed (b\<lparr>reserved := r\<rparr>) = placed b" "in_allocated (b\<lparr>reserved := r\<rparr>) = in_allocated b"
  by (auto simp: placed_def in_allocated_def)

lemma reserved_ok: "builder_ok b \<Longrightarrow> (\<And>w. allocated b w + r w \<le> num_entries w) \<Longrightarrow> builder_ok (b\<lparr>reserved := r\<rparr>)"
  by (simp add: builder_ok_def)

lemma reserve_entry_ok:
  assumes "builder_ok b" and "reserve_entry b = Inr (w, b')"
  shows "builder_ok b' \<and> placed b' = placed b \<and> allocated b' = allocated b \<and>
    reserved b' = (reserved b)(w := reserved b w + 1)"
proof -
  have b': "b' = b\<lparr>reserved := (reserved b)(w := reserved b w + 1)\<rparr>" and w: "next_index_width b = Inr w"
    using assms(2) by (auto simp: reserve_entry_def split: sum.splits)
  have "builder_ok b'" unfolding b'
    using next_width_free [OF w] assms(1) by (intro reserved_ok) (auto simp: builder_ok_def)
  then show ?thesis by (simp add: b')
qed

lemma remove_reserved_ok:
  assumes "builder_ok b" and "remove_reserved w b = Some b'"
  shows "builder_ok b' \<and> placed b' = placed b \<and> constants b' = constants b \<and> allocated b' = allocated b \<and>
    reserved b' = (reserved b)(w := reserved b w - 1) \<and> 0 < reserved b w"
proof -
  have b': "b' = b\<lparr>reserved := (reserved b)(w := reserved b w - 1)\<rparr>" and pos: "0 < reserved b w"
    using assms(2) by (auto simp: remove_reserved_def checked_sub_def split: if_splits)
  have "allocated b v + ((reserved b)(w := reserved b w - 1)) v \<le> num_entries v" for v
  proof -
    have "allocated b v + reserved b v \<le> num_entries v" using assms(1) by (simp add: builder_ok_def)
    then show ?thesis by auto
  qed
  then have "builder_ok b'" unfolding b' by (intro reserved_ok [OF assms(1)])
  then show ?thesis using pos by (simp add: b')
qed

lemma commit_ok:
  assumes "builder_ok b" and "w \<noteq> ExtraWide" and "commit_reserved_bytecode_offset w offset b = Some (i, b')"
  shows "builder_ok b' \<and> (BytecodeOffset offset, i) \<in> set (placed b') \<and> set (placed b) \<subseteq> set (placed b') \<and>
    reserved b' = (reserved b)(w := reserved b w - 1) \<and> i \<le> UNSIGNED_MAX w"
proof -
  obtain b1 where b1: "remove_reserved w b = Some b1"
    using assms(2,3) by (auto simp: commit_reserved_bytecode_offset_def Let_def split: Option.bind_splits)
  note removed = remove_reserved_ok [OF assms(1) b1]
  have "allocated b w + reserved b w \<le> num_entries w" using assms(1) by (simp add: builder_ok_def)
  then have free: "allocated b1 w + reserved b1 w < num_entries w" using removed by simp linarith
  have bound: "first_index w + num_entries w = UNSIGNED_MAX w + 1"
    by (cases w) (simp_all add: num_entries_def UNSIGNED_MAX_def)
  have new: ?thesis if "grown_by w (BytecodeOffset offset, i) b1 b'"
  proof -
    have "set (placed b') = insert (BytecodeOffset offset, i) (set (placed b1))"
      using that by (metis grown_by_def set_mset_add_mset_insert set_mset_mset)
    moreover have "i \<le> UNSIGNED_MAX w" using that free bound by (simp add: grown_by_def)
    ultimately show ?thesis
      using grown_builder_ok [OF conjunct1 [OF removed] free that] that removed by (auto simp: grown_by_def)
  qed
  show ?thesis
  proof (cases "map_of (constants b1) (BytecodeOffset offset)")
    case None
    then have "(i, b') = allocate_index w (BytecodeOffset offset) b1"
      using assms(2,3) b1 by (simp add: commit_reserved_bytecode_offset_def)
    with allocate_new [OF conjunct1 [OF removed] None, of w] show ?thesis by (intro new) (metis fst_conv snd_conv)
  next
    case (Some j)
    show ?thesis
    proof (cases "min_width_for_unsigned j \<le> w")
      case True
      then have "i = j" "b' = b1"
        using assms(2,3) b1 Some by (simp_all add: commit_reserved_bytecode_offset_def)
      moreover have "(BytecodeOffset offset, j) \<in> set (constants b1)" using Some by (rule map_of_SomeD)
      moreover have "j \<le> UNSIGNED_MAX w" using True assms(2)
        by (cases w) (auto simp: min_width_for_unsigned_def width_defs split: if_splits)
      ultimately show ?thesis using removed by (auto simp: placed_def)
    next
      case False
      then have "(i, b') = allocate_index w (BytecodeOffset offset)
          (b1\<lparr>duplicates := duplicates b1 @ [(BytecodeOffset offset, j)]\<rparr>)"
        using assms(2,3) b1 Some by (simp add: commit_reserved_bytecode_offset_def Let_def)
      with allocate_again [OF conjunct1 [OF removed] Some, of w] show ?thesis by (intro new) (metis fst_conv snd_conv)
    qed
  qed
qed

section \<open>Placing the constants\<close>

definition metadata_bit :: "u8 list \<Rightarrow> nat \<Rightarrow> bool" where
  "metadata_bit metadata i \<longleftrightarrow> bit (metadata ! (i div 8)) (i mod 8)"

lemma byte_bit: "(byte AND push_bit n 1 = 0) \<longleftrightarrow> \<not> bit byte n" if "n < 8" for byte :: u8
proof
  assume "byte AND push_bit n 1 = 0"
  moreover have "bit (byte AND push_bit n 1) n \<longleftrightarrow> bit byte n" using that by (simp add: bit_simps)
  ultimately show "\<not> bit byte n" by simp
next
  assume "\<not> bit byte n"
  then show "byte AND push_bit n 1 = 0" by (intro bit_word_eqI) (auto simp: bit_simps)
qed

lemma metadata_size: "i < n \<Longrightarrow> i div 8 < calculate_metadata_size n"
  by (simp add: calculate_metadata_size_def)

lemma set_metadata_ok:
  assumes "i div 8 < length metadata"
  shows "\<exists>m. set_metadata metadata i is_value = Some m \<and> length m = length metadata \<and>
    (\<forall>j. j div 8 < length metadata \<longrightarrow>
       metadata_bit m j = (if j = i \<and> \<not> is_value then True else metadata_bit metadata j))"
proof (cases is_value)
  case False
  define m where "m = metadata[i div 8 := metadata ! (i div 8) OR push_bit (i mod 8) 1]"
  have "metadata_bit m j = (if j = i then True else metadata_bit metadata j)" if "j div 8 < length metadata" for j
  proof (cases "j div 8 = i div 8")
    case True
    then have "j = i \<longleftrightarrow> j mod 8 = i mod 8" by (metis div_mult_mod_eq)
    then show ?thesis using True that by (auto simp: metadata_bit_def m_def bit_simps)
  next
    case neq: False
    then show ?thesis by (auto simp: metadata_bit_def m_def)
  qed
  then show ?thesis using False assms by (intro exI [of _ m]) (simp add: set_metadata_def m_def vec_get_def vec_set_def)
qed (simp add: set_metadata_def)

lemma place_constants_ok:
  assumes "\<forall>(e, i)\<in>set cs. i < length values" and "distinct (map snd cs)"
    and "calculate_metadata_size (length values) \<le> length metadata"
  shows "\<exists>values' metadata'. place_constants cs (values, metadata) = Some (values', metadata') \<and>
    length values' = length values \<and> length metadata' = length metadata \<and>
    (\<forall>j < length values. (\<forall>e. (e, j) \<notin> set cs) \<longrightarrow>
       values' ! j = values ! j \<and> metadata_bit metadata' j = metadata_bit metadata j) \<and>
    (\<forall>(e, i)\<in>set cs. values' ! i = snd (to_value e) \<and>
       metadata_bit metadata' i = (metadata_bit metadata i \<or> \<not> fst (to_value e)))"
  using assms
proof (induction cs arbitrary: "values" metadata)
  case (Cons c cs)
  obtain e i where c: "c = (e, i)" by (cases c)
  have i: "i < length values" using Cons.prems(1) by (simp add: c)
  have "i div 8 < length metadata" using metadata_size [OF i] Cons.prems(3) by simp
  from set_metadata_ok [OF this, of "fst (to_value e)"] obtain m where m:
    "set_metadata metadata i (fst (to_value e)) = Some m" "length m = length metadata"
    "\<forall>j. j div 8 < length metadata \<longrightarrow>
       metadata_bit m j = (if j = i \<and> \<not> fst (to_value e) then True else metadata_bit metadata j)"
    by (elim exE conjE)
  define vs where "vs = values[i := snd (to_value e)]"
  have "\<forall>(e, i)\<in>set cs. i < length vs" "distinct (map snd cs)" "calculate_metadata_size (length vs) \<le> length m"
    using Cons.prems m(2) by (auto simp: vs_def)
  from Cons.IH [OF this] obtain values' metadata' where IH:
    "place_constants cs (vs, m) = Some (values', metadata')"
    "length values' = length vs" "length metadata' = length m"
    "\<forall>j < length vs. (\<forall>e. (e, j) \<notin> set cs) \<longrightarrow> values' ! j = vs ! j \<and> metadata_bit metadata' j = metadata_bit m j"
    "\<forall>(e, i)\<in>set cs. values' ! i = snd (to_value e) \<and> metadata_bit metadata' i = (metadata_bit m i \<or> \<not> fst (to_value e))"
    by (elim exE conjE)
  have bits: "metadata_bit m j = (if j = i \<and> \<not> fst (to_value e) then True else metadata_bit metadata j)"
    if "j < length values" for j
    using m(3) metadata_size [OF that] Cons.prems(3) by simp
  have fresh: "(e', i) \<notin> set cs" for e' using Cons.prems(2) by (auto simp: c image_iff)
  have "place_constants (c # cs) (values, metadata) = Some (values', metadata')"
    using i m(1) IH(1) by (simp add: c place_constant_def case_prod_unfold vs_def vec_set_def)
  moreover have "\<forall>j < length values. (\<forall>e. (e, j) \<notin> set (c # cs)) \<longrightarrow>
      values' ! j = values ! j \<and> metadata_bit metadata' j = metadata_bit metadata j"
    using IH(4) bits by (auto simp: c vs_def)
  moreover have "\<forall>(e, i)\<in>set (c # cs). values' ! i = snd (to_value e) \<and>
      metadata_bit metadata' i = (metadata_bit metadata i \<or> \<not> fst (to_value e))"
  proof -
    have "values' ! i = snd (to_value e)" "metadata_bit metadata' i = (metadata_bit metadata i \<or> \<not> fst (to_value e))"
      using IH(4) fresh i bits by (auto simp: vs_def)
    moreover have "metadata_bit m j = metadata_bit metadata j" if "(e', j) \<in> set cs" for e' j
    proof -
      have "j < length values" using Cons.prems(1) that by auto
      moreover have "j \<noteq> i" using that fresh by auto
      ultimately show ?thesis using bits [of j] by simp
    qed
    ultimately show ?thesis using IH(5) by (auto simp: c)
  qed
  ultimately show ?case using IH(2,3) m(2) by (intro exI [of _ values'] exI [of _ metadata']) (simp add: vs_def)
qed simp

lemma index_in_table: "in_allocated b i \<Longrightarrow> builder_ok b \<Longrightarrow> i < num_constants b"
proof -
  assume ok: "builder_ok b" and "in_allocated b i"
  then obtain w where w: "first_index w \<le> i" "i < first_index w + allocated b w" by (auto simp: in_allocated_def)
  have "allocated b v \<le> num_entries v" for v
  proof -
    have "allocated b v + reserved b v \<le> num_entries v" using ok by (simp add: builder_ok_def)
    then show ?thesis by simp
  qed
  from this [of Narrow] this [of Wide] w show ?thesis
    by (cases w) (auto simp: num_constants_def num_entries_def UNSIGNED_MAX_def)
qed

text \<open>The table of a builder in which nothing is reserved any more.\<close>

lemma finish_constants_ok:
  assumes ok: "builder_ok b" and "reserved b = (\<lambda>_. 0)"
  shows "\<exists>result. finish_constants b = Some result \<and>
    (\<forall>(e, i)\<in>set (placed b). \<exists>t. result = Some t \<and>
       get_constant t i = Some (case snd (to_value e) of None \<Rightarrow> value_undefined | Some v \<Rightarrow> v) \<and>
       constant_is_value t i = Some (fst (to_value e)))"
proof (cases "num_constants b = 0")
  case True
  then have "(e, i) \<notin> set (placed b)" for e i
    using index_in_table [of b i] ok by (auto simp: builder_ok_def)
  with True assms(2) show ?thesis by (auto simp: finish_constants_def)
next
  case False
  define n where "n = num_constants b"
  have inside: "i < n" if "(e, i) \<in> set (placed b)" for e i
    using index_in_table [of b i] ok that by (auto simp: builder_ok_def n_def)
  have distinct: "distinct (map snd (constants b))" "distinct (map snd (duplicates b))"
    and disjoint: "snd ` set (constants b) \<inter> snd ` set (duplicates b) = {}"
    using ok by (simp_all add: builder_ok_def placed_def)
  have apart: "(e, i) \<in> set (constants b) \<Longrightarrow> (e', i) \<notin> set (duplicates b)" for e e' i
    using disjoint imageI [of "(e, i)" "set (constants b)" snd] imageI [of "(e', i)" "set (duplicates b)" snd]
    by auto
  have zero: "\<not> metadata_bit (replicate (calculate_metadata_size n) 0) j" if "j < n" for j
    using metadata_size [OF that] by (simp add: metadata_bit_def)
  have "\<forall>(e, i)\<in>set (constants b). i < length (replicate n (None :: value_bits option))"
    using inside by (auto simp: placed_def)
  from place_constants_ok [OF this distinct(1), of "replicate (calculate_metadata_size n) 0",
      unfolded length_replicate, OF order_refl] obtain vs1 m1 where s1:
    "place_constants (constants b) (replicate n None, replicate (calculate_metadata_size n) 0) = Some (vs1, m1)"
    "length vs1 = n" "length m1 = calculate_metadata_size n"
    "\<forall>j < n. (\<forall>e. (e, j) \<notin> set (constants b)) \<longrightarrow> vs1 ! j = replicate n None ! j \<and>
       metadata_bit m1 j = metadata_bit (replicate (calculate_metadata_size n) 0) j"
    "\<forall>(e, i)\<in>set (constants b). vs1 ! i = snd (to_value e) \<and>
       metadata_bit m1 i = (metadata_bit (replicate (calculate_metadata_size n) 0) i \<or> \<not> fst (to_value e))"
    by (elim exE conjE)
  have "\<forall>(e, i)\<in>set (duplicates b). i < length vs1" using inside s1(2) by (auto simp: placed_def)
  from place_constants_ok [OF this distinct(2), of m1, unfolded s1(2,3), OF order_refl] obtain vs2 m2 where s2:
    "place_constants (duplicates b) (vs1, m1) = Some (vs2, m2)"
    "length vs2 = n" "length m2 = calculate_metadata_size n"
    "\<forall>j < n. (\<forall>e. (e, j) \<notin> set (duplicates b)) \<longrightarrow> vs2 ! j = vs1 ! j \<and> metadata_bit m2 j = metadata_bit m1 j"
    "\<forall>(e, i)\<in>set (duplicates b). vs2 ! i = snd (to_value e) \<and>
       metadata_bit m2 i = (metadata_bit m1 i \<or> \<not> fst (to_value e))"
    by (elim exE conjE)
  define t where "t = \<lparr>table_constants = map (\<lambda>c. case c of None \<Rightarrow> value_undefined | Some v \<Rightarrow> v) vs2, table_metadata = m2\<rparr>"
  have finish: "finish_constants b = Some (Some t)"
    using assms(2) False s1(1) s2(1) by (simp add: finish_constants_def Let_def n_def [symmetric] t_def)
  have entry: "vs2 ! i = snd (to_value e) \<and> metadata_bit m2 i = (\<not> fst (to_value e))" if mem: "(e, i) \<in> set (placed b)" for e i
  proof (cases "(e, i) \<in> set (constants b)")
    case True
    with apart s1(5) s2(4) zero [OF inside [OF mem]] inside [OF mem] show ?thesis by fastforce
  next
    case False
    then have dup: "(e, i) \<in> set (duplicates b)" using mem by (simp add: placed_def)
    then have "(e', i) \<notin> set (constants b)" for e' using apart by blast
    with s1(4) zero [OF inside [OF mem]] inside [OF mem] have "\<not> metadata_bit m1 i" by simp
    with s2(5) dup show ?thesis by auto
  qed
  have "get_constant t i = Some (case snd (to_value e) of None \<Rightarrow> value_undefined | Some v \<Rightarrow> v) \<and>
      constant_is_value t i = Some (fst (to_value e))" if mem: "(e, i) \<in> set (placed b)" for e i
  proof -
    have "constant_is_value t i = Some (\<not> metadata_bit m2 i)"
      using metadata_size [OF inside [OF mem]] s2(3) byte_bit [of "i mod 8"]
      by (simp add: constant_is_value_def t_def vec_get_def metadata_bit_def)
    then show ?thesis
      using entry [OF mem] inside [OF mem] s2(2) by (simp add: get_constant_def t_def vec_get_def)
  qed
  then show ?thesis using finish by auto
qed

end
