(* ===== verification/Bytecode_Jumps.thy ===== *)
theory Bytecode_Jumps
  imports Bytecode_Constants Number_Conversion
begin

text \<open>
  Jumps in \<open>runtime/bytecode/generator.rs\<close> and \<open>vm.rs\<close>: the blocks of the function that is generated,
  jumps to blocks that have not started yet and how they are patched, as immediate jumps or as jumps to an
  offset in the constant table, and what the virtual machine does at a jump.
\<close>

section \<open>The generator\<close>

record forward_jump_info =
  jump_offset :: nat
  constant_table_width :: width

datatype jump_operand =
    RelativeOffset u32
  | ConstantIndex nat

record jump_generator =
  writer :: bytecode_writer
  table_builder :: constant_table_builder
  num_blocks :: nat
  block_offsets :: "nat \<rightharpoonup> nat"
  unresolved_forward_jumps :: "nat \<rightharpoonup> forward_jump_info list"

definition new_generator :: "bytecode_writer \<Rightarrow> jump_generator" where
  "new_generator w = \<lparr>writer = w, table_builder = new_constant_table_builder, num_blocks = 0,
     block_offsets = Map.empty, unresolved_forward_jumps = Map.empty\<rparr>"

definition new_jump_block :: "jump_generator \<Rightarrow> nat \<times> jump_generator" where
  "new_jump_block g = (num_blocks g, g\<lparr>num_blocks := num_blocks g + 1\<rparr>)"

definition set_jump_offset_operand :: "decode_info \<Rightarrow> nat \<Rightarrow> bytecode_writer \<Rightarrow> bytecode_writer option" where
  "set_jump_offset_operand info offset w =
     (let operand_index = (if info_opcode info = JUMP then 0 else 1);
          operand_offset = info_opcode_index info + 1 + operand_index * num_bytes (info_width info) in
      (case info_width info of
         Narrow \<Rightarrow> set_u8 operand_offset offset w
       | Wide \<Rightarrow> set_u16 operand_offset offset w
       | ExtraWide \<Rightarrow> set_u32 operand_offset offset w))"

definition patch_forward_jump :: "forward_jump_info \<Rightarrow> nat \<Rightarrow> jump_generator \<Rightarrow> jump_generator option" where
  "patch_forward_jump jump_info target_block g = do {
     target_offset \<leftarrow> block_offsets g target_block;
     relative_offset \<leftarrow> checked_sub target_offset (jump_offset jump_info);
     info \<leftarrow> decode_width_and_opcode_at_index (code_bytes (writer g)) (jump_offset jump_info);
     if min_width_for_signed (int relative_offset) \<le> info_width info \<and> try_from_signed (int relative_offset) \<noteq> None
     then do {
       b \<leftarrow> remove_reserved (constant_table_width jump_info) (table_builder g);
       w \<leftarrow> set_jump_offset_operand info relative_offset (writer g);
       Some (g\<lparr>table_builder := b, writer := w\<rparr>)
     } else do {
       (constant_index, b) \<leftarrow> commit_reserved_bytecode_offset (constant_table_width jump_info) (int relative_offset) (table_builder g);
       w \<leftarrow> set_jump_offset_operand info constant_index (writer g);
       w \<leftarrow> set_u8 (info_opcode_index info) (info_opcode info + 1) w;
       Some (g\<lparr>table_builder := b, writer := w\<rparr>)
     }
   }"

fun patch_forward_jumps :: "forward_jump_info list \<Rightarrow> nat \<Rightarrow> jump_generator \<Rightarrow> jump_generator option" where
  "patch_forward_jumps [] block g = Some g"
| "patch_forward_jumps (info # infos) block g =
     Option.bind (patch_forward_jump info block g) (patch_forward_jumps infos block)"

definition start_block :: "nat \<Rightarrow> jump_generator \<Rightarrow> jump_generator option" where
  "start_block block_id g =
     (let g = g\<lparr>block_offsets := (block_offsets g)(block_id \<mapsto> current_offset (writer g))\<rparr> in
      (case unresolved_forward_jumps g block_id of
         None \<Rightarrow> Some g
       | Some infos \<Rightarrow>
           patch_forward_jumps infos block_id
             (g\<lparr>unresolved_forward_jumps := (unresolved_forward_jumps g)(block_id := None)\<rparr>)))"

definition jump_target_operand :: "nat \<Rightarrow> jump_generator \<Rightarrow> emit_error + jump_operand \<times> jump_generator" where
  "jump_target_operand target_block g =
     (let jump_offset = current_offset (writer g) in
      (case block_offsets g target_block of
         Some target_block_offset \<Rightarrow>
           (let relative_offset = int target_block_offset - int jump_offset in
            (case try_from_signed relative_offset of
               Some operand \<Rightarrow> Inr (RelativeOffset operand, g)
             | None \<Rightarrow>
                 (case add_bytecode_offset relative_offset (table_builder g) of
                    Inl e \<Rightarrow> Inl e
                  | Inr (constant_index, b) \<Rightarrow> Inr (ConstantIndex constant_index, g\<lparr>table_builder := b\<rparr>))))
       | None \<Rightarrow>
           (case reserve_entry (table_builder g) of
              Inl e \<Rightarrow> Inl e
            | Inr (w, b) \<Rightarrow>
                (let info = \<lparr>jump_offset = jump_offset, constant_table_width = w\<rparr>;
                     infos = (case unresolved_forward_jumps g target_block of None \<Rightarrow> [] | Some infos \<Rightarrow> infos) in
                 Inr (RelativeOffset (word_of_int (SIGNED_MIN w)),
                   g\<lparr>table_builder := b,
                     unresolved_forward_jumps := (unresolved_forward_jumps g)(target_block \<mapsto> infos @ [info])\<rparr>)))))"

text \<open>A jump with the opcode of its immediate form and the registers it tests.\<close>

definition write_jump :: "nat \<Rightarrow> u32 list \<Rightarrow> nat \<Rightarrow> jump_generator \<Rightarrow> emit_error + jump_generator" where
  "write_jump op registers target_block g =
     (case jump_target_operand target_block g of
        Inl e \<Rightarrow> Inl e
      | Inr (RelativeOffset offset, g) \<Rightarrow>
          Inr (g\<lparr>writer := write_instruction \<lparr>opcode = op, operands = registers @ [offset]\<rparr> NO_POS (writer g)\<rparr>)
      | Inr (ConstantIndex index, g) \<Rightarrow>
          Inr (g\<lparr>writer := write_instruction \<lparr>opcode = op + 1, operands = registers @ [word_of_nat index]\<rparr> NO_POS (writer g)\<rparr>))"

definition JUMP_TRUE :: nat where "JUMP_TRUE = 60"
definition JUMP_TO_BOOLEAN_TRUE :: nat where "JUMP_TO_BOOLEAN_TRUE = 62"
definition JUMP_FALSE :: nat where "JUMP_FALSE = 64"
definition JUMP_TO_BOOLEAN_FALSE :: nat where "JUMP_TO_BOOLEAN_FALSE = 66"
definition JUMP_NOT_UNDEFINED :: nat where "JUMP_NOT_UNDEFINED = 68"
definition JUMP_NULLISH :: nat where "JUMP_NULLISH = 70"
definition JUMP_NOT_NULLISH :: nat where "JUMP_NOT_NULLISH = 72"

lemmas jump_opcode_defs = JUMP_def JUMP_TRUE_def JUMP_TO_BOOLEAN_TRUE_def JUMP_FALSE_def
  JUMP_TO_BOOLEAN_FALSE_def JUMP_NOT_UNDEFINED_def JUMP_NULLISH_def JUMP_NOT_NULLISH_def

definition write_jump_instruction :: "nat \<Rightarrow> jump_generator \<Rightarrow> emit_error + jump_generator" where
  "write_jump_instruction = write_jump JUMP []"

definition write_jump_true_instruction :: "u32 \<Rightarrow> nat \<Rightarrow> jump_generator \<Rightarrow> emit_error + jump_generator" where
  "write_jump_true_instruction condition = write_jump JUMP_TRUE [condition]"

definition write_jump_to_boolean_true_instruction :: "u32 \<Rightarrow> nat \<Rightarrow> jump_generator \<Rightarrow> emit_error + jump_generator" where
  "write_jump_to_boolean_true_instruction condition = write_jump JUMP_TO_BOOLEAN_TRUE [condition]"

definition write_jump_false_instruction :: "u32 \<Rightarrow> nat \<Rightarrow> jump_generator \<Rightarrow> emit_error + jump_generator" where
  "write_jump_false_instruction condition = write_jump JUMP_FALSE [condition]"

definition write_jump_to_boolean_false_instruction :: "u32 \<Rightarrow> nat \<Rightarrow> jump_generator \<Rightarrow> emit_error + jump_generator" where
  "write_jump_to_boolean_false_instruction condition = write_jump JUMP_TO_BOOLEAN_FALSE [condition]"

definition write_jump_not_undefined_instruction :: "u32 \<Rightarrow> nat \<Rightarrow> jump_generator \<Rightarrow> emit_error + jump_generator" where
  "write_jump_not_undefined_instruction condition = write_jump JUMP_NOT_UNDEFINED [condition]"

definition write_jump_nullish_instruction :: "u32 \<Rightarrow> nat \<Rightarrow> jump_generator \<Rightarrow> emit_error + jump_generator" where
  "write_jump_nullish_instruction condition = write_jump JUMP_NULLISH [condition]"

definition write_jump_not_nullish_instruction :: "u32 \<Rightarrow> nat \<Rightarrow> jump_generator \<Rightarrow> emit_error + jump_generator" where
  "write_jump_not_nullish_instruction condition = write_jump JUMP_NOT_NULLISH [condition]"

text \<open>Which jump is written.\<close>

datatype jump_kind =
    Jump
  | JumpTrue u32
  | JumpToBooleanTrue u32
  | JumpFalse u32
  | JumpToBooleanFalse u32
  | JumpNotUndefined u32
  | JumpNullish u32
  | JumpNotNullish u32

fun emit_jump_kind :: "jump_kind \<Rightarrow> nat \<Rightarrow> jump_generator \<Rightarrow> emit_error + jump_generator" where
  "emit_jump_kind Jump = write_jump_instruction"
| "emit_jump_kind (JumpTrue c) = write_jump_true_instruction c"
| "emit_jump_kind (JumpToBooleanTrue c) = write_jump_to_boolean_true_instruction c"
| "emit_jump_kind (JumpFalse c) = write_jump_false_instruction c"
| "emit_jump_kind (JumpToBooleanFalse c) = write_jump_to_boolean_false_instruction c"
| "emit_jump_kind (JumpNotUndefined c) = write_jump_not_undefined_instruction c"
| "emit_jump_kind (JumpNullish c) = write_jump_nullish_instruction c"
| "emit_jump_kind (JumpNotNullish c) = write_jump_not_nullish_instruction c"

text \<open>The steps of generating a function that matter to jumps.\<close>

datatype emit_action =
    EmitInstruction instruction nat
  | EmitJump jump_kind nat
  | StartBlock nat
  | AddConstant constant_entry

fun emit_step :: "emit_action \<Rightarrow> jump_generator \<Rightarrow> (emit_error + jump_generator) option" where
  "emit_step (EmitInstruction i pos) g = Some (Inr (g\<lparr>writer := write_instruction i pos (writer g)\<rparr>))"
| "emit_step (EmitJump kind block) g = Some (emit_jump_kind kind block g)"
| "emit_step (StartBlock block) g = map_option Inr (start_block block g)"
| "emit_step (AddConstant constant) g =
     Some (map_sum id (\<lambda>(_, b). g\<lparr>table_builder := b\<rparr>) (insert_if_missing constant (table_builder g)))"

fun emit_steps :: "emit_action list \<Rightarrow> jump_generator \<Rightarrow> (emit_error + jump_generator) option" where
  "emit_steps [] g = Some (Inr g)"
| "emit_steps (s # ss) g =
     (case emit_step s g of
        Some (Inr g) \<Rightarrow> emit_steps ss g
      | r \<Rightarrow> r)"

section \<open>The virtual machine at a jump\<close>

definition get_constant_offset :: "constant_table option \<Rightarrow> nat \<Rightarrow> int option" where
  "get_constant_offset table constant_index =
     Option.bind table (\<lambda>t. map_option sint (get_constant t constant_index))"

definition jump_immediate :: "nat \<Rightarrow> width \<Rightarrow> nat \<Rightarrow> int" where
  "jump_immediate pc w offset = int pc + as_signed w offset"

definition jump_constant :: "constant_table option \<Rightarrow> nat \<Rightarrow> nat \<Rightarrow> int option" where
  "jump_constant table pc constant_index = map_option (\<lambda>offset. int pc + offset) (get_constant_offset table constant_index)"

text \<open>
  The condition functions of \<open>instruction_traits.rs\<close>, one for each trait; an immediate jump and its
  constant jump have the same.
\<close>

definition jump_boolean_cond :: "nat \<Rightarrow> value_bits \<Rightarrow> bool" where
  "jump_boolean_cond op v = (if op = JUMP_TRUE then is_true v else is_false v)"

definition jump_to_boolean_cond :: "nat \<Rightarrow> bool \<Rightarrow> bool" where
  "jump_to_boolean_cond op b = (if op = JUMP_TO_BOOLEAN_TRUE then b else \<not> b)"

definition jump_undefined_cond :: "value_bits \<Rightarrow> bool" where
  "jump_undefined_cond v \<longleftrightarrow> \<not> is_undefined v"

definition jump_nullish_cond :: "nat \<Rightarrow> value_bits \<Rightarrow> bool" where
  "jump_nullish_cond op v = (if op = JUMP_NULLISH then is_nullish v else \<not> is_nullish v)"

definition cond_function :: "('s, 'e) environment \<Rightarrow> nat \<Rightarrow> value_bits \<Rightarrow> bool" where
  "cond_function env op v =
     (if op = JUMP_TRUE \<or> op = JUMP_FALSE then jump_boolean_cond op v
      else if op = JUMP_TO_BOOLEAN_TRUE \<or> op = JUMP_TO_BOOLEAN_FALSE then jump_to_boolean_cond op (to_boolean env v)
      else if op = JUMP_NOT_UNDEFINED then jump_undefined_cond v
      else jump_nullish_cond op v)"

definition CONDITIONAL_JUMPS :: "nat list" where
  "CONDITIONAL_JUMPS = [JUMP_TRUE, JUMP_TO_BOOLEAN_TRUE, JUMP_FALSE, JUMP_TO_BOOLEAN_FALSE,
     JUMP_NOT_UNDEFINED, JUMP_NULLISH, JUMP_NOT_NULLISH]"

text \<open>
  The program counter after a jump: registers are read by their signed index, and \<open>None\<close> is an
  instruction that is no jump, or a constant that is not there.
\<close>

definition execute_jump ::
  "('s, 'e) environment \<Rightarrow> (int \<Rightarrow> value_bits) \<Rightarrow> u8 list \<Rightarrow> constant_table option \<Rightarrow> nat \<Rightarrow> int option" where
  "execute_jump env registers bytecode table pc = do {
     (d, pc_after) \<leftarrow> decode_next bytecode pc;
     let op = decoded_opcode d; w = decoded_width d;
         operand = (\<lambda>k. vec_get (decoded_operands d) k) in
     if op = JUMP then map_option (jump_immediate pc w) (operand 0)
     else if op = JUMP + 1 then Option.bind (operand 0) (jump_constant table pc)
     else do {
       condition \<leftarrow> operand 0;
       target \<leftarrow> operand 1;
       let v = registers (as_signed w condition) in
       if op \<in> set CONDITIONAL_JUMPS
       then Some (if cond_function env op v then jump_immediate pc w target else int pc_after)
       else if 0 < op \<and> op - 1 \<in> set CONDITIONAL_JUMPS
       then if cond_function env (op - 1) v then jump_constant table pc target else Some (int pc_after)
       else None
     }
   }"

end
