(* ===== verification/Bytecode_Layout.thy ===== *)
theory Bytecode_Layout
  imports Bytecode_Jumps
begin

text \<open>
  Bytecode as a sequence of instructions, each with the width it is written at.  An instruction can be
  replaced by another one with as many operands at the same width, without moving any other; this is what
  patching a jump does.
\<close>

section \<open>Sequences of instructions\<close>

type_synonym segment = "width \<times> instruction"

fun layout :: "nat \<Rightarrow> segment list \<Rightarrow> u8 list" where
  "layout pos [] = []"
| "layout pos ((w, i) # ss) = bytes_at w pos i @ layout (pos + length (bytes_at w pos i)) ss"

definition segment_position :: "segment list \<Rightarrow> nat \<Rightarrow> nat" where
  "segment_position ss k = length (layout 0 (take k ss))"

lemma layout_append: "layout pos (xs @ ys) = layout pos xs @ layout (pos + length (layout pos xs)) ys"
  by (induction xs arbitrary: pos) (auto simp: add.assoc)

lemma layout_snoc: "layout 0 (ss @ [(w, i)]) = layout 0 ss @ bytes_at w (length (layout 0 ss)) i"
  by (simp add: layout_append)

lemma layout_split:
  assumes "k < length ss" and "ss ! k = (w, i)"
  shows "layout 0 ss = layout 0 (take k ss) @ bytes_at w (segment_position ss k) i
    @ layout (segment_position ss k + length (bytes_at w (segment_position ss k) i)) (drop (Suc k) ss)"
proof -
  have "ss = take k ss @ (w, i) # drop (Suc k) ss" using assms by (metis id_take_nth_drop)
  then have "layout 0 ss = layout 0 (take k ss @ (w, i) # drop (Suc k) ss)" by simp
  then show ?thesis by (simp only: layout_append layout.simps segment_position_def add_0)
qed

lemma bytes_at_length: "length (operands i) = length (operands j) \<Longrightarrow> length (bytes_at w pos i) = length (bytes_at w pos j)"
  by (simp add: length_bytes_at)

text \<open>Replacing an instruction.\<close>

definition same_shape :: "instruction \<Rightarrow> instruction \<Rightarrow> bool" where
  "same_shape i j \<longleftrightarrow> length (operands i) = length (operands j)"

lemma update_layout:
  assumes "k < length ss" and "ss ! k = (w, i)" and "same_shape i j"
  shows "layout 0 (ss[k := (w, j)]) = layout 0 (take k ss) @ bytes_at w (segment_position ss k) j
    @ layout (segment_position ss k + length (bytes_at w (segment_position ss k) i)) (drop (Suc k) ss)"
  using layout_split [of k "ss[k := (w, j)]" w j] assms bytes_at_length [of i j w]
  by (simp add: segment_position_def same_shape_def)

lemma length_layout:
  assumes "length xs = length ys"
    and "\<And>k. k < length xs \<Longrightarrow> fst (xs ! k) = fst (ys ! k) \<and> same_shape (snd (xs ! k)) (snd (ys ! k))"
  shows "length (layout pos xs) = length (layout pos ys)"
  using assms
proof (induction xs ys arbitrary: pos rule: list_induct2)
  case (Cons x xs y ys)
  obtain w i v j where x: "x = (w, i)" and y: "y = (v, j)" by (cases x; cases y)
  have xy: "w = v" "same_shape i j" using Cons.prems [of 0] by (simp_all add: x y)
  have "length (layout p xs) = length (layout p ys)" for p
    using Cons.prems [of "Suc _"] by (intro Cons.IH) auto
  then show ?case using xy bytes_at_length [of i j v] by (simp add: x y same_shape_def)
qed simp

lemma update_positions:
  assumes "k < length ss" and "ss ! k = (w, i)" and "same_shape i j"
  shows "segment_position (ss[k := (w, j)]) m = segment_position ss m"
    and "length (layout 0 (ss[k := (w, j)])) = length (layout 0 ss)"
proof -
  have "fst (ss[k := (w, j)] ! n) = fst (ss ! n) \<and> same_shape (snd (ss[k := (w, j)] ! n)) (snd (ss ! n))"
    if "n < length ss" for n
    using assms that by (cases "n = k") (simp_all add: same_shape_def)
  then show "segment_position (ss[k := (w, j)]) m = segment_position ss m"
    and "length (layout 0 (ss[k := (w, j)])) = length (layout 0 ss)"
    unfolding segment_position_def by (intro length_layout; simp)+
qed

lemma segment_position_Suc:
  assumes "k < length ss"
  shows "segment_position ss k < segment_position ss (Suc k)"
  using assms
  by (cases "ss ! k") (simp add: segment_position_def take_Suc_conv_app_nth layout_append length_bytes_at)

lemma segment_position_less:
  assumes "k < m" and "m \<le> length ss"
  shows "segment_position ss k < segment_position ss m"
  using assms
proof (induction m)
  case (Suc m)
  have "segment_position ss m < segment_position ss (Suc m)" using Suc.prems by (intro segment_position_Suc) simp
  then show ?case using Suc by (cases "k = m") auto
qed simp

lemma segment_position_inj:
  assumes "k < length ss" and "m < length ss" and "segment_position ss k = segment_position ss m"
  shows "k = m"
  using segment_position_less [of k m ss] segment_position_less [of m k ss] assms by (metis less_imp_le less_irrefl nat_neq_iff)

lemma segment_position_end: "segment_position ss (length ss) = length (layout 0 ss)"
  by (simp add: segment_position_def)

lemma segment_position_append: "k \<le> length ss \<Longrightarrow> segment_position (ss @ ts) k = segment_position ss k"
  by (simp add: segment_position_def)

section \<open>Reading and patching an instruction\<close>

lemma decode_segment:
  assumes "k < length ss" and "ss ! k = (w, i)" and "well_formed_instruction i"
  shows "decode_next (layout 0 ss) (segment_position ss k)
      = Some (\<lparr>decoded_width = w, decoded_opcode = opcode i, decoded_operands = map (to_width w) (operands i)\<rparr>,
          segment_position ss (Suc k))"
    and "decode_width_and_opcode_at_index (layout 0 ss) (segment_position ss k)
      = Some \<lparr>info_width = w, info_opcode = opcode i, info_opcode_index = opcode_position w (segment_position ss k)\<rparr>"
proof -
  have pos: "segment_position ss k = length (layout 0 (take k ss))" by (simp add: segment_position_def)
  have "segment_position ss (Suc k) = length (layout 0 (take k ss) @ bytes_at w (segment_position ss k) i)"
    using assms(1,2) by (simp add: segment_position_def take_Suc_conv_app_nth layout_append)
  then show "decode_next (layout 0 ss) (segment_position ss k)
      = Some (\<lparr>decoded_width = w, decoded_opcode = opcode i, decoded_operands = map (to_width w) (operands i)\<rparr>,
          segment_position ss (Suc k))"
    using decode_next_at [OF assms(3), of "layout 0 (take k ss)" w]
    unfolding layout_split [OF assms(1,2)] unfolding pos by simp
  show "decode_width_and_opcode_at_index (layout 0 ss) (segment_position ss k)
      = Some \<lparr>info_width = w, info_opcode = opcode i, info_opcode_index = opcode_position w (segment_position ss k)\<rparr>"
    using decode_info_at [OF assms(3), of "layout 0 (take k ss)" w]
    unfolding layout_split [OF assms(1,2)] unfolding pos by simp
qed

lemma width_bytes_mod: "width_bytes n (k mod 256 ^ n) = width_bytes n k"
proof (induction n arbitrary: k)
  case 0
  then show ?case by (simp add: width_bytes_def)
next
  case (Suc n)
  have "of_nat (k mod 256 ^ Suc n) = (of_nat k :: u8)"
  proof -
    have "(256 :: nat) dvd 256 ^ Suc n" by simp
    then have "k mod 256 ^ Suc n mod 256 = k mod 256" by (rule mod_mod_cancel)
    then have "of_nat (k mod 256 ^ Suc n mod 256) = (of_nat (k mod 256) :: u8)" by simp
    moreover have "of_nat (m mod 256) = (of_nat m :: u8)" for m
      using word_of_nat_eq_iff [where 'a = 8, of "m mod 256" m] by (simp add: take_bit_eq_mod)
    ultimately show ?thesis by simp
  qed
  moreover have "k mod 256 ^ Suc n div 256 = k div 256 mod 256 ^ n"
    by (simp add: mod_mult2_eq)
  ultimately show ?case using Suc by (simp add: width_bytes_Suc)
qed

lemma set_bytes_at:
  "length bs = length old \<Longrightarrow>
   set_bytes (length pre) bs (w\<lparr>code_bytes := pre @ old @ rest\<rparr>) = Some (w\<lparr>code_bytes := pre @ bs @ rest\<rparr>)"
  by (simp add: set_bytes_def)

text \<open>A jump: its opcode and the registers it tests.\<close>

definition jump_shape :: "nat \<Rightarrow> u32 list \<Rightarrow> bool" where
  "jump_shape op cs \<longleftrightarrow> op = JUMP \<and> cs = [] \<or> op \<in> set CONDITIONAL_JUMPS \<and> (\<exists>c. cs = [c])"

lemma conditional_jumps: "set CONDITIONAL_JUMPS = {60, 62, 64, 66, 68, 70, 72}"
  by (simp add: CONDITIONAL_JUMPS_def jump_opcode_defs)

lemma jump_well_formed:
  assumes "jump_shape op cs"
  shows "well_formed_instruction \<lparr>opcode = op, operands = cs @ [v]\<rparr>"
    and "well_formed_instruction \<lparr>opcode = op + 1, operands = cs @ [v]\<rparr>"
    and "operand_types op = Some (map (\<lambda>_. RegisterType) cs @ [SIntType])"
    and "operand_types (op + 1) = Some (map (\<lambda>_. RegisterType) cs @ [ConstantIndexType])"
proof -
  have op: "op \<in> {58, 60, 62, 64, 66, 68, 70, 72}" and jump: "op = JUMP \<longleftrightarrow> cs = []" "length cs \<le> 1"
    using assms by (auto simp: jump_shape_def conditional_jumps JUMP_def)
  show types: "operand_types op = Some (map (\<lambda>_. RegisterType) cs @ [SIntType])"
    "operand_types (op + 1) = Some (map (\<lambda>_. RegisterType) cs @ [ConstantIndexType])"
    using jump_operands [OF op] assms by (auto simp: jump_shape_def conditional_jumps JUMP_def)
  show "well_formed_instruction \<lparr>opcode = op, operands = cs @ [v]\<rparr>"
    "well_formed_instruction \<lparr>opcode = op + 1, operands = cs @ [v]\<rparr>"
    unfolding well_formed_instruction_def instruction.select_convs types using op
    by (simp_all add: WIDE_PREFIX_def EXTRA_WIDE_PREFIX_def, auto)
qed

lemma to_width_of_nat: "to_width w (of_nat n) = n mod 2 ^ (8 * num_bytes w)"
proof -
  have "unat (of_nat n :: u32) = n mod 2 ^ 32" by (simp add: unsigned_of_nat take_bit_eq_mod)
  moreover have "(2 :: nat) ^ (8 * num_bytes w) dvd 2 ^ 32" by (intro le_imp_power_dvd) (cases w; simp)
  ultimately show ?thesis unfolding to_width_def by (simp only: mod_mod_cancel)
qed

lemma set_operand_at:
  assumes "jump_shape op cs"
  shows "set_jump_offset_operand
      \<lparr>info_width = wd, info_opcode = op, info_opcode_index = opcode_position wd (length pre)\<rparr> n
      (w\<lparr>code_bytes := pre @ bytes_at wd (length pre) \<lparr>opcode = op, operands = cs @ [v]\<rparr> @ rest\<rparr>)
    = Some (w\<lparr>code_bytes := pre @ bytes_at wd (length pre) \<lparr>opcode = op, operands = cs @ [of_nat n]\<rparr> @ rest\<rparr>)"
proof -
  define front where "front = pre @ pad_bytes wd (length pre) @ of_nat op #
    concat (map (\<lambda>v. width_bytes (num_bytes wd) (to_width wd v)) cs)"
  have bytes: "pre @ bytes_at wd (length pre) \<lparr>opcode = op, operands = cs @ [u]\<rparr> @ rest
      = front @ width_bytes (num_bytes wd) (to_width wd u) @ rest" for u
    by (simp add: bytes_at_def front_def)
  have "length cs = (if op = JUMP then 0 else 1)"
    using assms by (auto simp: jump_shape_def conditional_jumps JUMP_def)
  then have offset: "opcode_position wd (length pre) + 1 + (if op = JUMP then 0 else 1) * num_bytes wd = length front"
    by (simp add: front_def opcode_position_def length_operand_bytes)
  have cut: "width_bytes (num_bytes wd) (to_width wd (of_nat n)) = width_bytes (num_bytes wd) n"
    unfolding to_width_of_nat power_bytes [symmetric] by (rule width_bytes_mod)
  have "set_bytes (length front) (width_bytes (num_bytes wd) n)
      (w\<lparr>code_bytes := front @ width_bytes (num_bytes wd) (to_width wd v) @ rest\<rparr>)
    = Some (w\<lparr>code_bytes := front @ width_bytes (num_bytes wd) n @ rest\<rparr>)"
    by (rule set_bytes_at) simp
  then show ?thesis
    unfolding bytes cut set_jump_offset_operand_def Let_def decode_info.select_convs offset set_u8_def set_u16_def set_u32_def
    by (cases wd) simp_all
qed

lemma set_opcode_at:
  "set_u8 (opcode_position wd (length pre)) op'
      (w\<lparr>code_bytes := pre @ bytes_at wd (length pre) \<lparr>opcode = op, operands = vs\<rparr> @ rest\<rparr>)
    = Some (w\<lparr>code_bytes := pre @ bytes_at wd (length pre) \<lparr>opcode = op', operands = vs\<rparr> @ rest\<rparr>)"
proof -
  define front where "front = pre @ pad_bytes wd (length pre)"
  define behind where "behind = concat (map (\<lambda>v. width_bytes (num_bytes wd) (to_width wd v)) vs) @ rest"
  have bytes: "pre @ bytes_at wd (length pre) \<lparr>opcode = o1, operands = vs\<rparr> @ rest = front @ [of_nat o1] @ behind" for o1
    by (simp add: bytes_at_def front_def behind_def)
  have "opcode_position wd (length pre) = length front" by (simp add: opcode_position_def front_def)
  then show ?thesis
    unfolding bytes set_u8_def
    using set_bytes_at [of "[of_nat op']" "[of_nat op]" front behind w] by (simp add: width_bytes_def)
qed

end
