(* ===== verification/Bytecode_Source_Map.thy ===== *)
theory Bytecode_Source_Map
  imports Bytecode_Correct
begin

text \<open>
  The source map a writer leaves behind, read as a list of entries: one for each change of the source
  position, with the offset behind the instruction.  Looking up the offset behind an instruction that can
  throw gives the position the instruction was written with.
\<close>

section \<open>Entries\<close>

definition entry_bytes :: "nat \<times> nat \<Rightarrow> u8 list" where
  "entry_bytes = (\<lambda>(offset, pos). encode_varint (of_nat offset) @ encode_varint (of_nat pos))"

definition entry_fits :: "nat \<times> nat \<Rightarrow> bool" where
  "entry_fits = (\<lambda>(offset, pos). offset < 2 ^ 64 \<and> pos < 2 ^ 64)"

lemma source_map_next_entry:
  assumes "entry_fits e"
  shows "source_map_next (pre @ entry_bytes e @ rest) (length pre)
    = Some (Some e, length pre + length (entry_bytes e))"
proof -
  obtain offset pos where e: "e = (offset, pos)" by (cases e)
  have fits: "offset < 2 ^ 64" "pos < 2 ^ 64" using assms by (simp_all only: e entry_fits_def case_prod_conv)
  have "encode_varint v \<noteq> []" for v by (subst encode_varint.simps) simp
  then show ?thesis
    using decode_encode_varint [OF fits(1), of "encode_varint (of_nat pos) @ rest"]
      decode_encode_varint [OF fits(2), of rest]
    by (simp add: source_map_next_def e entry_bytes_def)
qed

lemma source_map_next_end: "source_map_next sm (length sm) = Some (None, length sm)"
  by (simp add: source_map_next_def)

text \<open>The loop over a list of entries.\<close>

fun position_in :: "(nat \<times> nat) list \<Rightarrow> nat \<Rightarrow> nat \<Rightarrow> nat" where
  "position_in [] offset current = current"
| "position_in ((entry_offset, pos) # es) offset current =
     (if offset < entry_offset then current else position_in es offset pos)"

lemma last_position_entries:
  assumes "\<forall>e\<in>set es. entry_fits e"
  shows "last_position (pre @ concat (map entry_bytes es)) offset (length pre) current
    = Some (position_in es offset current)"
  using assms
proof (induction es arbitrary: pre current)
  case Nil
  then show ?case using source_map_next_end [of pre] by (subst last_position.simps) simp
next
  case (Cons e es)
  obtain entry_offset pos where e: "e = (entry_offset, pos)" by (cases e)
  have "entry_fits e" using Cons.prems by simp
  from source_map_next_entry [OF this, of pre "concat (map entry_bytes es)"]
  have "source_map_next (pre @ concat (map entry_bytes (e # es))) (length pre)
      = Some (Some (entry_offset, pos), length (pre @ entry_bytes e))"
    by (simp add: e)
  moreover have "last_position (pre @ concat (map entry_bytes (e # es))) offset (length (pre @ entry_bytes e)) pos
      = Some (position_in es offset pos)"
    using Cons.IH [of "pre @ entry_bytes e" pos] Cons.prems by simp
  ultimately show ?case by (subst last_position.simps) (simp add: e)
qed

lemma position_in_split:
  assumes "\<forall>(o1, p)\<in>set es1. o1 \<le> offset" and "\<forall>(o2, p)\<in>set es2. offset < o2"
  shows "position_in (es1 @ es2) offset current = (if es1 = [] then current else snd (last es1))"
  using assms
proof (induction es1 arbitrary: current)
  case Nil
  then show ?case by (cases es2) auto
qed auto

section \<open>What the writer records\<close>

text \<open>The source map of a writer holds these entries behind the range of the function.\<close>

definition records :: "bytecode_writer \<Rightarrow> nat \<times> nat \<Rightarrow> (nat \<times> nat) list \<Rightarrow> bool" where
  "records w whole es \<longleftrightarrow>
     source_map_bytes w = entry_bytes whole @ concat (map entry_bytes es) \<and>
     last_pos w = (if es = [] then NO_POS else snd (last es)) \<and>
     (\<forall>(offset, pos)\<in>set es. offset \<le> length (code_bytes w))"

lemma entry_recorded:
  assumes "records w whole es"
  shows "\<exists>es'. records (write_source_map_entry pos w) whole (es @ es') \<and>
    (\<forall>(offset, p)\<in>set es'. offset = length (code_bytes w) \<and> p = pos \<and> pos \<noteq> NO_POS) \<and>
    (pos \<noteq> NO_POS \<longrightarrow> last_pos (write_source_map_entry pos w) = pos)"
proof (cases "pos = NO_POS \<or> pos = last_pos w")
  case True
  then show ?thesis
    using assms by (intro exI [of _ "[]"]) (auto simp: write_source_map_entry_def)
next
  case False
  then show ?thesis
    using assms
    by (intro exI [of _ "[(length (code_bytes w), pos)]"])
      (auto simp: write_source_map_entry_def records_def Let_def write_source_map_varint_def current_offset_def
        entry_bytes_def)
qed

lemma records_more_code:
  "records w whole es \<Longrightarrow> records (w\<lparr>code_bytes := code_bytes w @ bs\<rparr>) whole es"
  by (auto simp: records_def)

lemma instruction_recorded:
  assumes "records w whole es"
  shows "\<exists>es'. records (write_instruction i pos w) whole (es @ es') \<and>
    (\<forall>(offset, p)\<in>set es'. length (code_bytes w) < offset \<and> offset \<le> length (code_bytes (write_instruction i pos w))
       \<and> p = pos \<and> pos \<noteq> NO_POS) \<and>
    (can_throw (opcode i) \<longrightarrow> pos \<noteq> NO_POS \<longrightarrow> last_pos (write_instruction i pos w) = pos)"
proof -
  define v where "v = write_at_width (chosen_width i) i w"
  have v: "v = w\<lparr>code_bytes := code_bytes w @ bytes_at (chosen_width i) (length (code_bytes w)) i\<rparr>"
    by (simp add: v_def write_at_width_bytes)
  have length: "length (code_bytes w) < length (code_bytes v)" by (simp add: v length_bytes_at)
  have recorded: "records v whole es" unfolding v by (rule records_more_code [OF assms])
  have written: "write_instruction i pos w = (if can_throw (opcode i) then write_source_map_entry pos v else v)"
    by (simp add: write_instruction_def Let_def v_def chosen_width_def)
  show ?thesis
  proof (cases "can_throw (opcode i)")
    case True
    obtain es' where "records (write_source_map_entry pos v) whole (es @ es')"
      "\<forall>(offset, p)\<in>set es'. offset = length (code_bytes v) \<and> p = pos \<and> pos \<noteq> NO_POS"
      "pos \<noteq> NO_POS \<longrightarrow> last_pos (write_source_map_entry pos v) = pos"
      using entry_recorded [OF recorded, of pos] by (elim exE conjE)
    with length True show ?thesis by (intro exI [of _ es']) (auto simp: written)
  next
    case False
    with recorded show ?thesis by (intro exI [of _ "[]"]) (simp add: written)
  qed
qed

lemma instructions_recorded:
  assumes "records w whole es"
  shows "\<exists>es'. records (write_instructions is w) whole (es @ es') \<and>
    (\<forall>(offset, p)\<in>set es'. length (code_bytes w) < offset \<and> p \<noteq> NO_POS \<and> p \<in> snd ` set is)"
  using assms
proof (induction "is" arbitrary: w es)
  case Nil
  then show ?case by (intro exI [of _ "[]"]) (simp add: write_instructions_def)
next
  case (Cons x "is")
  obtain i pos where x: "x = (i, pos)" by (cases x)
  obtain es1 where es1: "records (write_instruction i pos w) whole (es @ es1)"
    "\<forall>(offset, p)\<in>set es1. length (code_bytes w) < offset \<and> offset \<le> length (code_bytes (write_instruction i pos w))
       \<and> p = pos \<and> pos \<noteq> NO_POS"
    using instruction_recorded [OF Cons.prems, of i pos] by (elim exE conjE)
  obtain es2 where es2: "records (write_instructions is (write_instruction i pos w)) whole ((es @ es1) @ es2)"
    "\<forall>(offset, p)\<in>set es2. length (code_bytes (write_instruction i pos w)) < offset \<and> p \<noteq> NO_POS \<and> p \<in> snd ` set is"
    using Cons.IH [OF es1(1)] by (elim exE conjE)
  have "length (code_bytes w) \<le> length (code_bytes (write_instruction i pos w))"
    by (simp add: write_instruction_bytes)
  with es1(2) es2 show ?case
    by (intro exI [of _ "es1 @ es2"]) (fastforce simp: x write_instructions_def)
qed

lemma header_recorded: "records (write_source_map_header start end new_writer) (start, end) []"
  by (simp add: records_def write_source_map_header_def write_source_map_varint_def new_writer_def entry_bytes_def)

lemma lookup_recorded:
  assumes "records w whole (es1 @ es2)" and "entry_fits whole" "\<forall>e\<in>set (es1 @ es2). entry_fits e" and "es1 \<noteq> []"
    and "\<forall>(o1, p)\<in>set es1. o1 \<le> offset" and "\<forall>(o2, p)\<in>set es2. offset < o2"
  shows "get_source_position (source_map_bytes w) offset = Some (Some (snd (last es1)))"
proof -
  obtain e es where es1: "es1 = e # es" using assms(4) by (cases es1) auto
  define sm where "sm = source_map_bytes w"
  have sm: "sm = entry_bytes whole @ concat (map entry_bytes (e # es @ es2))"
    using assms(1) by (simp add: sm_def records_def es1)
  have "source_map_next sm 0 = Some (Some whole, length (entry_bytes whole))"
    using source_map_next_entry [OF assms(2), of "[]" "concat (map entry_bytes (e # es @ es2))"] by (simp add: sm)
  moreover have "source_map_next sm (length (entry_bytes whole)) = Some (Some e, length (entry_bytes whole @ entry_bytes e))"
    using source_map_next_entry [of e "entry_bytes whole" "concat (map entry_bytes (es @ es2))"] assms(3)
    by (simp add: sm es1)
  moreover have "last_position sm offset (length (entry_bytes whole @ entry_bytes e)) (snd e)
      = Some (position_in (es @ es2) offset (snd e))"
    using last_position_entries [of "es @ es2" "entry_bytes whole @ entry_bytes e"] assms(3) by (simp add: sm es1)
  moreover have "position_in (es @ es2) offset (snd e) = snd (last es1)"
    using position_in_split [of es offset es2] assms(5,6) by (simp add: es1)
  ultimately show ?thesis
    by (simp add: get_source_position_def sm_def [symmetric] case_prod_unfold)
qed

text \<open>C37: Wherever an instruction that can throw stands in the bytecode, looking up the offset right
  behind it, which is the program counter while it runs, in the source map gives the source position it
  was written with.\<close>

theorem source_position_found:
  fixes before :: "(instruction \<times> nat) list" and "after" :: "(instruction \<times> nat) list"
  assumes header: "header = write_source_map_header start end new_writer"
    and "can_throw (opcode i)" and "pos < NO_POS"
    and "start \<le> NO_POS" and "end \<le> NO_POS" and "\<forall>(j, p)\<in>set (before @ after). p \<le> NO_POS"
    and "length (code_bytes (write_instructions (before @ (i, pos) # after) header)) \<le> NO_POS"
  shows "get_source_position
      (source_map_bytes (write_instructions (before @ (i, pos) # after) header))
      (length (code_bytes (write_instructions (before @ [(i, pos)]) header)))
    = Some (Some pos)"
proof -
  define w1 where "w1 = write_instructions before header"
  define w2 where "w2 = write_instruction i pos w1"
  define w3 where "w3 = write_instructions after w2"
  have written: "write_instructions (before @ (i, pos) # after) header = w3"
    "write_instructions (before @ [(i, pos)]) header = w2"
    by (simp_all add: write_instructions_def w1_def w2_def w3_def)
  obtain es1 where es1: "records w1 (start, end) ([] @ es1)"
    "\<forall>(offset, p)\<in>set es1. length (code_bytes header) < offset \<and> p \<noteq> NO_POS \<and> p \<in> snd ` set before"
    using instructions_recorded [OF header_recorded [of start "end"], of before] unfolding w1_def header by (elim exE conjE)
  obtain es2 where es2: "records w2 (start, end) (es1 @ es2)"
    "\<forall>(offset, p)\<in>set es2. length (code_bytes w1) < offset \<and> offset \<le> length (code_bytes w2) \<and> p = pos \<and> pos \<noteq> NO_POS"
    "can_throw (opcode i) \<longrightarrow> pos \<noteq> NO_POS \<longrightarrow> last_pos w2 = pos"
    using instruction_recorded [OF es1(1) [unfolded append_Nil], of i pos] unfolding w2_def by (elim exE conjE)
  have pos: "last_pos w2 = pos" "pos \<noteq> NO_POS" using es2(3) assms(2,3) by simp_all
  obtain es3 where es3: "records w3 (start, end) ((es1 @ es2) @ es3)"
    "\<forall>(offset, p)\<in>set es3. length (code_bytes w2) < offset \<and> p \<noteq> NO_POS \<and> p \<in> snd ` set after"
    using instructions_recorded [OF es2(1), of after] unfolding w3_def by (elim exE conjE)
  have some: "es1 @ es2 \<noteq> []" and last: "snd (last (es1 @ es2)) = pos"
    using es2(1) pos by (auto simp: records_def split: if_splits)
  have positions: "p \<le> NO_POS" if "(offset, p) \<in> set ((es1 @ es2) @ es3)" for offset p
  proof -
    have "p \<in> insert pos (snd ` set (before @ after))" using that es1(2) es2(2) es3(2) by auto
    then show ?thesis using assms(3,6) by auto
  qed
  have offsets: "offset \<le> length (code_bytes w3)" if "(offset, p) \<in> set ((es1 @ es2) @ es3)" for offset p
    using es3(1) that unfolding records_def by blast
  have fits: "entry_fits (offset, p) \<longleftrightarrow> offset \<le> NO_POS \<and> p \<le> NO_POS" for offset p
    by (simp add: entry_fits_def NO_POS_def less_Suc_eq_le [symmetric])
  have "\<forall>e\<in>set ((es1 @ es2) @ es3). entry_fits e"
  proof (intro ballI)
    fix e
    assume "e \<in> set ((es1 @ es2) @ es3)"
    then have "(fst e, snd e) \<in> set ((es1 @ es2) @ es3)" by simp
    from positions [OF this] order_trans [OF offsets [OF this] assms(7) [unfolded written]]
    show "entry_fits e" using fits [of "fst e" "snd e"] by simp
  qed
  moreover have "entry_fits (start, end)" using assms(4,5) by (simp add: fits)
  moreover have "\<forall>(o1, p)\<in>set (es1 @ es2). o1 \<le> length (code_bytes w2)"
    using es2(1) by (simp add: records_def)
  moreover have "\<forall>(o2, p)\<in>set es3. length (code_bytes w2) < o2" using es3(2) by auto
  ultimately show ?thesis
    unfolding written using lookup_recorded [OF es3(1) _ _ some] by (simp add: last)
qed

lemma instruction_length: "length (bytes_at w pos i) \<le> 5 + 4 * length (operands i)"
proof -
  have "pos + length (pad_bytes w pos) \<le> pos + 4" 
    using pad_length [of pos] div_times_less_eq_dividend [of "pos + 1" 2] div_times_less_eq_dividend [of "pos + 1" 4]
    unfolding prefix_indices by (cases w; hypsubst; linarith)
  moreover have "length (operands i) * num_bytes w \<le> length (operands i) * 4" by (cases w) simp_all
  ultimately show ?thesis unfolding length_bytes_at by linarith
qed

lemma source_position_found_witness:
  defines "load \<equiv> \<lambda>r. \<lparr>opcode = 10, operands = [r, 0]\<rparr>"
  shows "get_source_position
      (source_map_bytes (write_instructions [(load 1, 4), (load 2, 9)] (write_source_map_header 0 20 new_writer)))
      (length (code_bytes (write_instructions [(load 1, 4)] (write_source_map_header 0 20 new_writer))))
    = Some (Some 4)"
proof -
  have "can_throw 10" by (simp add: can_throw_def instruction_table_def instructions_1_def)
  moreover have "length (code_bytes (write_instructions [(load 1, 4), (load 2, 9)] (write_source_map_header 0 20 new_writer))) \<le> 26"
    using instruction_length [of "chosen_width (load 1)" 0 "load 1"]
      instruction_length [of "chosen_width (load 2)" "length (bytes_at (chosen_width (load 1)) 0 (load 1))" "load 2"]
    by (simp add: write_instructions_def write_instruction_bytes write_source_map_header_def write_source_map_varint_def
        new_writer_def load_def)
  ultimately show ?thesis
    using source_position_found [of "write_source_map_header 0 20 new_writer" 0 20 "load 1" 4 "[]" "[(load 2, 9)]"]
    by (simp add: load_def NO_POS_def)
qed

end
