(* ===== verification/Bytecode_Jumps_Correct.thy ===== *)
theory Bytecode_Jumps_Correct
  imports Bytecode_Layout Bytecode_Source_Map
begin

text \<open>
  Every jump lands at its block, whether it is written before or after the block starts, whatever width
  its instruction has, and whether its offset is an operand or a constant.
\<close>

section \<open>Tables without extra wide constants\<close>

definition in_use :: "constant_table_builder \<Rightarrow> nat" where
  "in_use b = allocated b Narrow + reserved b Narrow + allocated b Wide + reserved b Wide"

definition no_extra :: "constant_table_builder \<Rightarrow> bool" where
  "no_extra b \<longleftrightarrow> allocated b ExtraWide = 0 \<and> reserved b ExtraWide = 0"

lemma num_entries_simps: "num_entries Narrow = 256" "num_entries Wide = 65280"
  by (simp_all add: num_entries_def UNSIGNED_MAX_def)

lemma next_width_total:
  assumes "in_use b < 65536"
  shows "\<exists>w. next_index_width b = Inr w \<and> w \<noteq> ExtraWide"
proof (cases "allocated b Narrow + reserved b Narrow < 256")
  case False
  then have "allocated b Wide + reserved b Wide < 65280" using assms by (simp add: in_use_def)
  with False show ?thesis by (simp add: next_index_width_def num_entries_simps)
qed (simp add: next_index_width_def num_entries_simps)

lemma grown_total:
  assumes "grown_by w e b b'" and "w \<noteq> ExtraWide" and "no_extra b"
  shows "no_extra b' \<and> in_use b' = in_use b + 1"
  using assms by (cases w) (auto simp: grown_by_def no_extra_def in_use_def)

lemma insert_if_missing_total:
  assumes ok: "builder_ok b" "no_extra b" and "in_use b < 65536"
  shows "\<exists>i b'. insert_if_missing key b = Inr (i, b') \<and> no_extra b' \<and> in_use b' \<le> in_use b + 1"
proof (cases "map_of (constants b) key")
  case None
  obtain w where w: "next_index_width b = Inr w" "w \<noteq> ExtraWide" using next_width_total [OF assms(3)] by (elim exE conjE)
  have "insert_if_missing key b = Inr (allocate_index w key b)" using None w by (simp add: insert_if_missing_def)
  with grown_total [OF allocate_new [OF ok(1) None] w(2) ok(2)] show ?thesis
    by (intro exI [of _ "fst (allocate_index w key b)"] exI [of _ "snd (allocate_index w key b)"]) simp
qed (use ok in \<open>simp add: insert_if_missing_def\<close>)

lemma reserve_entry_total:
  assumes "no_extra b" and "in_use b < 65536"
  shows "\<exists>w b'. reserve_entry b = Inr (w, b') \<and> w \<noteq> ExtraWide \<and> no_extra b' \<and> in_use b' = in_use b + 1"
proof -
  obtain w where "next_index_width b = Inr w" "w \<noteq> ExtraWide" using next_width_total [OF assms(2)] by (elim exE conjE)
  with assms(1) show ?thesis by (cases w) (simp_all add: reserve_entry_def no_extra_def in_use_def)
qed

lemma remove_reserved_total:
  assumes "0 < reserved b w" and "w \<noteq> ExtraWide" and "no_extra b"
  shows "\<exists>b'. remove_reserved w b = Some b' \<and> no_extra b' \<and> in_use b' + 1 = in_use b"
  using assms by (cases w) (simp_all add: remove_reserved_def checked_sub_def no_extra_def in_use_def)

lemma commit_total:
  assumes ok: "builder_ok b" "no_extra b" and w: "w \<noteq> ExtraWide" and "0 < reserved b w"
  shows "\<exists>i b'. commit_reserved_bytecode_offset w offset b = Some (i, b') \<and> no_extra b' \<and> in_use b' \<le> in_use b"
proof -
  obtain b1 where b1: "remove_reserved w b = Some b1" "no_extra b1" "in_use b1 + 1 = in_use b"
    using remove_reserved_total [OF assms(4) w ok(2)] by (elim exE conjE)
  have ok1: "builder_ok b1" using remove_reserved_ok [OF ok(1) b1(1)] by simp
  show ?thesis
  proof (cases "map_of (constants b1) (BytecodeOffset offset)")
    case None
    have "commit_reserved_bytecode_offset w offset b = Some (allocate_index w (BytecodeOffset offset) b1)"
      using w b1(1) None by (simp add: commit_reserved_bytecode_offset_def)
    with grown_total [OF allocate_new [OF ok1 None] w b1(2)] b1(3) show ?thesis
      by (intro exI [of _ "fst (allocate_index w (BytecodeOffset offset) b1)"]
          exI [of _ "snd (allocate_index w (BytecodeOffset offset) b1)"]) simp
  next
    case (Some j)
    define b2 where "b2 = b1\<lparr>duplicates := duplicates b1 @ [(BytecodeOffset offset, j)]\<rparr>"
    have "commit_reserved_bytecode_offset w offset b = Some (if min_width_for_unsigned j \<le> w then (j, b1)
        else allocate_index w (BytecodeOffset offset) b2)"
      using w b1(1) Some by (simp add: commit_reserved_bytecode_offset_def b2_def Let_def)
    with grown_total [OF allocate_again [OF ok1 Some, of w, folded b2_def] w b1(2)] b1(2,3) show ?thesis
      by (cases "min_width_for_unsigned j \<le> w"; cases "allocate_index w (BytecodeOffset offset) b2") auto
  qed
qed

text \<open>Indices of constants fit 16 bits.\<close>

lemma placed_index:
  assumes "builder_ok b" and "no_extra b" and "(e, i) \<in> set (placed b)"
  shows "i < 65536"
proof -
  have "in_allocated b i" using assms(1,3) by (auto simp: builder_ok_def)
  then obtain w where w: "first_index w \<le> i" "i < first_index w + allocated b w" by (auto simp: in_allocated_def)
  have "allocated b w + reserved b w \<le> num_entries w" using assms(1) by (simp add: builder_ok_def)
  with w assms(2) show ?thesis by (cases w) (auto simp: num_entries_simps UNSIGNED_MAX_def no_extra_def)
qed

section \<open>The invariant\<close>

text \<open>A jump that was written: where, its opcode, the registers it tests, and its block.\<close>

type_synonym written_jump = "nat \<times> nat \<times> u32 list \<times> nat"

text \<open>The instruction of a jump that lands at a position: an offset that fits, or a constant.\<close>

definition lands_at :: "constant_table_builder \<Rightarrow> segment \<Rightarrow> nat \<Rightarrow> nat \<Rightarrow> u32 list \<Rightarrow> nat \<Rightarrow> bool" where
  "lands_at b s p op cs target \<longleftrightarrow>
     (\<exists>w v. s = (w, \<lparr>opcode = op, operands = cs @ [v]\<rparr>) \<and> as_signed w (to_width w v) = int target - int p) \<or>
     (\<exists>w v. s = (w, \<lparr>opcode = op + 1, operands = cs @ [v]\<rparr>) \<and>
        (BytecodeOffset (int target - int p), to_width w v) \<in> set (placed b))"

text \<open>A jump that waits for its block: its instruction has room for a constant of the reserved width.\<close>

definition waits_at :: "segment list \<Rightarrow> nat \<Rightarrow> u32 list \<Rightarrow> forward_jump_info \<Rightarrow> bool" where
  "waits_at ss op cs info \<longleftrightarrow>
     (\<exists>k w v. k < length ss \<and> segment_position ss k = jump_offset info \<and>
        ss ! k = (w, \<lparr>opcode = op, operands = cs @ [v]\<rparr>) \<and> constant_table_width info \<le> w)"

definition jump_ok ::
  "jump_generator \<Rightarrow> segment list \<Rightarrow> (nat \<times> forward_jump_info) list \<Rightarrow> written_jump \<Rightarrow> bool" where
  "jump_ok g ss us = (\<lambda>(p, op, cs, block).
     jump_shape op cs \<and>
     (\<exists>k<length ss. segment_position ss k = p \<and> (\<forall>c\<in>set cs. min_width RegisterType c \<le> fst (ss ! k))) \<and>
     ((\<exists>info. (block, info) \<in> set us \<and> jump_offset info = p \<and> waits_at ss op cs info) \<or>
      p \<notin> (jump_offset \<circ> snd) ` set us \<and>
      (\<exists>k target. k < length ss \<and> segment_position ss k = p \<and> block_offsets g block = Some target \<and>
         lands_at (table_builder g) (ss ! k) p op cs target)))"

definition jumps_core ::
  "jump_generator \<Rightarrow> segment list \<Rightarrow> written_jump list \<Rightarrow> (nat \<times> forward_jump_info) list \<Rightarrow> nat \<Rightarrow> bool" where
  "jumps_core g ss js us n \<longleftrightarrow>
     code_bytes (writer g) = layout 0 ss \<and> (\<forall>(w, i)\<in>set ss. well_formed_instruction i) \<and>
     builder_ok (table_builder g) \<and> no_extra (table_builder g) \<and> in_use (table_builder g) \<le> n \<and>
     (\<forall>w. reserved (table_builder g) w = length (filter (\<lambda>(_, info). constant_table_width info = w) us)) \<and>
     distinct (map (jump_offset \<circ> snd) us) \<and>
     (\<forall>(block, info)\<in>set us. \<exists>op cs. (jump_offset info, op, cs, block) \<in> set js \<and> waits_at ss op cs info) \<and>
     (\<forall>j\<in>set js. jump_ok g ss us j)"

section \<open>Patching\<close>

lemma lands_mono: "lands_at b s p op cs target \<Longrightarrow> set (placed b) \<subseteq> set (placed b') \<Longrightarrow> lands_at b' s p op cs target"
  by (auto simp: lands_at_def)

lemma waits_elsewhere:
  assumes "waits_at ss op cs info" and "k < length ss" and "ss ! k = (w, i)" and "same_shape i i1"
    and "segment_position ss k \<noteq> jump_offset info"
  shows "waits_at (ss[k := (w, i1)]) op cs info"
proof -
  obtain m wd v where m: "m < length ss" "segment_position ss m = jump_offset info"
    "ss ! m = (wd, \<lparr>opcode = op, operands = cs @ [v]\<rparr>)" "constant_table_width info \<le> wd"
    using assms(1) unfolding waits_at_def by (elim exE conjE)
  moreover have "m \<noteq> k" using m(2) assms(5) by auto
  ultimately show ?thesis
    unfolding waits_at_def update_positions(1) [OF assms(2-4)] by (intro exI [of _ m]) simp
qed

lemma core_patched:
  assumes core: "jumps_core g ss js (us1 @ (block, info) # us2) n"
    and k: "k < length ss" "ss ! k = (w, \<lparr>opcode = op, operands = cs @ [v]\<rparr>)" "segment_position ss k = jump_offset info"
    and shape: "same_shape \<lparr>opcode = op, operands = cs @ [v]\<rparr> i1" and wf: "well_formed_instruction i1"
    and target: "block_offsets g block = Some target"
    and lands: "lands_at b' (w, i1) (jump_offset info) op cs target"
    and b': "builder_ok b'" "no_extra b'" "in_use b' \<le> n" "set (placed (table_builder g)) \<subseteq> set (placed b')"
      "reserved b' = (reserved (table_builder g))(constant_table_width info :=
         reserved (table_builder g) (constant_table_width info) - 1)"
  shows "jumps_core (g\<lparr>table_builder := b', writer := (writer g)\<lparr>code_bytes := layout 0 (ss[k := (w, i1)])\<rparr>\<rparr>)
    (ss[k := (w, i1)]) js (us1 @ us2) n"
proof -
  define us where "us = us1 @ (block, info) # us2"
  define ss' where "ss' = ss[k := (w, i1)]"
  define g' where "g' = g\<lparr>table_builder := b', writer := (writer g)\<lparr>code_bytes := layout 0 ss'\<rparr>\<rparr>"
  note positions = update_positions [OF k(1,2) shape, folded ss'_def]
  have "distinct (map (jump_offset \<circ> snd) us)" using core by (simp add: jumps_core_def us_def)
  then have apart: "jump_offset info \<notin> (jump_offset \<circ> snd) ` set (us1 @ us2)"
    and distinct: "distinct (map (jump_offset \<circ> snd) (us1 @ us2))"
    by (auto simp: us_def)
  have waits: "waits_at ss' op' cs' info'"
    if "waits_at ss op' cs' info'" and "(block', info') \<in> set (us1 @ us2)" for op' cs' block' info'
  proof -
    have "jump_offset info' \<in> (jump_offset \<circ> snd) ` set (us1 @ us2)" using that(2) by force
    then have "segment_position ss k \<noteq> jump_offset info'" using apart k(3) by metis
    with that(1) show ?thesis unfolding ss'_def by (intro waits_elsewhere [OF _ k(1,2) shape])
  qed
  have jump: "jump_ok g' ss' (us1 @ us2) j" if j: "j \<in> set js" for j
  proof -
    obtain p op' cs' block' where j_is: "j = (p, op', cs', block')" by (cases j)
    have old: "jump_ok g ss us (p, op', cs', block')" using core j by (auto simp: jumps_core_def us_def j_is)
    then obtain m where m: "m < length ss" "segment_position ss m = p" "\<forall>c\<in>set cs'. min_width RegisterType c \<le> fst (ss ! m)"
      by (auto simp: jump_ok_def)
    have widths: "fst (ss' ! m) = fst (ss ! m)" using k by (cases "m = k") (simp_all add: ss'_def)
    have place: "jump_shape op' cs' \<and>
        (\<exists>m<length ss'. segment_position ss' m = p \<and> (\<forall>c\<in>set cs'. min_width RegisterType c \<le> fst (ss' ! m)))"
    proof
      show "jump_shape op' cs'" using old by (simp add: jump_ok_def)
      have "m < length ss'" using m(1) by (simp add: ss'_def)
      then show "\<exists>m<length ss'. segment_position ss' m = p \<and> (\<forall>c\<in>set cs'. min_width RegisterType c \<le> fst (ss' ! m))"
        using m(2,3) by (intro exI [of _ m]) (simp add: positions(1) widths)
    qed
    have "(\<exists>info'. (block', info') \<in> set (us1 @ us2) \<and> jump_offset info' = p \<and> waits_at ss' op' cs' info') \<or>
      p \<notin> (jump_offset \<circ> snd) ` set (us1 @ us2) \<and>
      (\<exists>m target. m < length ss' \<and> segment_position ss' m = p \<and> block_offsets g' block' = Some target \<and>
         lands_at (table_builder g') (ss' ! m) p op' cs' target)"
    proof (cases "p = jump_offset info")
      case True
      have "p \<in> (jump_offset \<circ> snd) ` set us" by (simp add: True us_def)
      with old obtain info' where info': "(block', info') \<in> set us" "jump_offset info' = p" "waits_at ss op' cs' info'"
        by (auto simp: jump_ok_def)
      have "(block', info') \<notin> set (us1 @ us2)" using apart info'(2) True by force
      then have same: "block' = block" "info' = info" using info'(1) by (auto simp: us_def)
      obtain m' w' v' where m': "m' < length ss" "segment_position ss m' = p" "ss ! m' = (w', \<lparr>opcode = op', operands = cs' @ [v']\<rparr>)"
        using info'(3) by (auto simp: waits_at_def same True)
      have "m' = k" using segment_position_inj [OF m'(1) k(1)] m'(2) k(3) True by simp
      then have "op' = op" "cs' = cs" using m'(3) k(2) by simp_all
      moreover have "segment_position ss' k = jump_offset info" "ss' ! k = (w, i1)" "k < length ss'"
        using k by (simp_all only: positions(1)) (simp_all add: ss'_def)
      ultimately show ?thesis
        using lands target apart same
        by (intro disjI2 conjI exI [of _ k] exI [of _ target]) (simp_all add: True g'_def)
    next
      case False
      show ?thesis
      proof (cases "\<exists>info'. (block', info') \<in> set us \<and> jump_offset info' = p \<and> waits_at ss op' cs' info'")
        case True
        then obtain info' where info': "(block', info') \<in> set us" "jump_offset info' = p" "waits_at ss op' cs' info'"
          by (elim exE conjE)
        then have "(block', info') \<in> set (us1 @ us2)" using False by (auto simp: us_def)
        with info' waits show ?thesis by blast
      next
        case no: False
        with old obtain m' target' where m': "p \<notin> (jump_offset \<circ> snd) ` set us" "m' < length ss"
          "segment_position ss m' = p" "block_offsets g block' = Some target'"
          "lands_at (table_builder g) (ss ! m') p op' cs' target'"
          unfolding jump_ok_def case_prod_conv by (elim conjE disjE) auto
        have "m' \<noteq> k" using m'(3) k(3) False by auto
        then have "lands_at b' (ss' ! m') p op' cs' target'"
          using lands_mono [OF m'(5) b'(4)] by (simp add: ss'_def)
        moreover have "p \<notin> (jump_offset \<circ> snd) ` set (us1 @ us2)" using m'(1) by (auto simp: us_def)
        ultimately show ?thesis using m'(2-4)
          by (intro disjI2 conjI exI [of _ m'] exI [of _ target']) (simp_all add: g'_def positions(1), simp_all add: ss'_def)
      qed
    qed
    with place show ?thesis by (simp add: jump_ok_def j_is)
  qed
  have "\<forall>(w, i)\<in>set ss'. well_formed_instruction i"
    using core wf set_update_subset_insert [of ss k "(w, i1)"] by (auto simp: jumps_core_def ss'_def)
  moreover have "\<forall>(block, info)\<in>set (us1 @ us2). \<exists>op cs. (jump_offset info, op, cs, block) \<in> set js \<and> waits_at ss' op cs info"
  proof (clarify)
    fix block' info'
    assume mem: "(block', info') \<in> set (us1 @ us2)"
    then have "(block', info') \<in> set us" by (auto simp: us_def)
    moreover have "\<forall>(block, info)\<in>set us. \<exists>op cs. (jump_offset info, op, cs, block) \<in> set js \<and> waits_at ss op cs info"
      using core unfolding jumps_core_def us_def by (elim conjE)
    ultimately obtain op' cs' where "(jump_offset info', op', cs', block') \<in> set js" "waits_at ss op' cs' info'"
      by blast
    with waits mem show "\<exists>op cs. (jump_offset info', op, cs, block') \<in> set js \<and> waits_at ss' op cs info'" by blast
  qed
  moreover have "reserved b' wd = length (filter (\<lambda>(_, info). constant_table_width info = wd) (us1 @ us2))" for wd
    using core by (auto simp: jumps_core_def b'(5))
  ultimately have "jumps_core g' ss' js (us1 @ us2) n"
    using b'(1-3) distinct jump by (simp add: jumps_core_def g'_def)
  then show ?thesis by (simp add: g'_def ss'_def)
qed

text \<open>An offset that fits an operand, and an index that fits one.\<close>

lemma offset_operand:
  assumes "min_width_for_signed (int r) \<le> w" and "try_from_signed (int r) \<noteq> None"
  shows "as_signed w (to_width w (of_nat r)) = int r"
proof -
  have "int r \<le> SIGNED_MAX w"
    using min_width_signed_le [OF assms(1)] assms(2) by (simp add: try_from_signed_def split: if_splits)
  then show ?thesis by (cases w) (simp_all add: to_width_of_nat as_signed_def width_defs)
qed

lemma index_operand: "i \<le> UNSIGNED_MAX cw \<Longrightarrow> cw \<le> w \<Longrightarrow> to_width w (of_nat i) = i"
  by (cases cw; cases w) (simp_all add: to_width_of_nat width_defs)

lemma patch_forward_jump_ok:
  assumes core: "jumps_core g ss js (us1 @ (block, info) # us2) n"
    and target: "block_offsets g block = Some target" "jump_offset info \<le> target"
    and cw: "constant_table_width info \<noteq> ExtraWide"
  shows "\<exists>b' c' ss'. patch_forward_jump info block g
      = Some (g\<lparr>table_builder := b', writer := (writer g)\<lparr>code_bytes := c'\<rparr>\<rparr>) \<and>
    jumps_core (g\<lparr>table_builder := b', writer := (writer g)\<lparr>code_bytes := c'\<rparr>\<rparr>) ss' js (us1 @ us2) n \<and>
    length c' = length (code_bytes (writer g))"
proof -
  define us where "us = us1 @ (block, info) # us2"
  have facts: "code_bytes (writer g) = layout 0 ss" "\<forall>(w, i)\<in>set ss. well_formed_instruction i"
    "builder_ok (table_builder g)" "no_extra (table_builder g)" "in_use (table_builder g) \<le> n"
    "reserved (table_builder g) (constant_table_width info) = length (filter (\<lambda>(_, i). constant_table_width i = constant_table_width info) us)"
    "\<forall>(block, info)\<in>set us. \<exists>op cs. (jump_offset info, op, cs, block) \<in> set js \<and> waits_at ss op cs info"
    "\<forall>j\<in>set js. jump_ok g ss us j"
    using core unfolding jumps_core_def us_def by (elim conjE, simp)+
  have "(block, info) \<in> set us" by (simp add: us_def)
  with facts(7) obtain op cs where j: "(jump_offset info, op, cs, block) \<in> set js" "waits_at ss op cs info" by blast
  obtain k w v where k: "k < length ss" "segment_position ss k = jump_offset info"
    "ss ! k = (w, \<lparr>opcode = op, operands = cs @ [v]\<rparr>)" "constant_table_width info \<le> w"
    using j(2) unfolding waits_at_def by (elim exE conjE)
  have jump: "jump_shape op cs" using facts(8) j(1) by (auto simp: jump_ok_def)
  note wf = jump_well_formed [OF jump]
  have positive: "0 < reserved (table_builder g) (constant_table_width info)" by (simp add: facts(6) us_def)
  define r where "r = target - jump_offset info"
  have relative: "checked_sub target (jump_offset info) = Some r" "int r = int target - int (jump_offset info)"
    using target(2) by (simp_all add: checked_sub_def r_def)
  define pre where "pre = layout 0 (take k ss)"
  have pre: "segment_position ss k = length pre" by (simp add: pre_def segment_position_def)
  define rest where "rest = layout (segment_position ss k + length (bytes_at w (segment_position ss k)
      \<lparr>opcode = op, operands = cs @ [v]\<rparr>)) (drop (Suc k) ss)"
  have bytes: "code_bytes (writer g) = pre @ bytes_at w (length pre) \<lparr>opcode = op, operands = cs @ [v]\<rparr> @ rest"
    unfolding facts(1) rest_def pre [symmetric] unfolding pre_def by (rule layout_split [OF k(1,3)])
  have split: "writer g = (writer g)\<lparr>code_bytes := pre @ bytes_at w (length pre) \<lparr>opcode = op, operands = cs @ [v]\<rparr> @ rest\<rparr>"
    unfolding bytes [symmetric] by simp
  have patched: "pre @ bytes_at w (length pre) i1 @ rest = layout 0 (ss[k := (w, i1)])"
    if "same_shape \<lparr>opcode = op, operands = cs @ [v]\<rparr> i1" for i1
    unfolding rest_def pre [symmetric] unfolding pre_def by (rule update_layout [OF k(1,3) that, symmetric])
  have info: "decode_width_and_opcode_at_index (code_bytes (writer g)) (jump_offset info)
      = Some \<lparr>info_width = w, info_opcode = op, info_opcode_index = opcode_position w (length pre)\<rparr>"
    using decode_segment(2) [OF k(1,3) wf(1)] by (simp add: facts(1) k(2) [symmetric] pre)
  have operand: "set_jump_offset_operand
      \<lparr>info_width = w, info_opcode = op, info_opcode_index = opcode_position w (length pre)\<rparr> m (writer g)
      = Some ((writer g)\<lparr>code_bytes := pre @ bytes_at w (length pre) \<lparr>opcode = op, operands = cs @ [of_nat m]\<rparr> @ rest\<rparr>)" for m
    by (subst split) (rule set_operand_at [OF jump])
  have shape: "same_shape \<lparr>opcode = op, operands = cs @ [v]\<rparr> \<lparr>opcode = o1, operands = cs @ [u]\<rparr>" for o1 u
    by (simp add: same_shape_def)
  have length: "length (layout 0 (ss[k := (w, \<lparr>opcode = o1, operands = cs @ [u]\<rparr>)])) = length (code_bytes (writer g))" for o1 u
    unfolding facts(1) by (rule update_positions(2) [OF k(1,3) shape])
  show ?thesis
  proof (cases "min_width_for_signed (int r) \<le> w \<and> try_from_signed (int r) \<noteq> None")
    case True
    define i1 where "i1 = \<lparr>opcode = op, operands = cs @ [of_nat r :: u32]\<rparr>"
    obtain b' where b': "remove_reserved (constant_table_width info) (table_builder g) = Some b'" "no_extra b'"
      "in_use b' + 1 = in_use (table_builder g)"
      using remove_reserved_total [OF positive cw facts(4)] by (elim exE conjE)
    note removed = remove_reserved_ok [OF facts(3) b'(1)]
    have "lands_at b' (w, i1) (jump_offset info) op cs target"
      using offset_operand True relative(2) by (auto simp: lands_at_def i1_def)
    from core_patched [OF core k(1,3,2) _ _ target(1) this] have
      "jumps_core (g\<lparr>table_builder := b', writer := (writer g)\<lparr>code_bytes := layout 0 (ss[k := (w, i1)])\<rparr>\<rparr>)
        (ss[k := (w, i1)]) js (us1 @ us2) n"
      using shape wf(1) removed b' facts(5) by (simp add: i1_def)
    moreover have "patch_forward_jump info block g
        = Some (g\<lparr>table_builder := b', writer := (writer g)\<lparr>code_bytes := layout 0 (ss[k := (w, i1)])\<rparr>\<rparr>)"
      using True patched [of i1] shape
      by (simp add: patch_forward_jump_def target(1) relative(1) info operand b'(1) i1_def)
    ultimately show ?thesis using length by (auto simp: i1_def)
  next
    case False
    obtain i b' where b': "commit_reserved_bytecode_offset (constant_table_width info) (int r) (table_builder g) = Some (i, b')"
      "no_extra b'" "in_use b' \<le> in_use (table_builder g)"
      using commit_total [OF facts(3,4) cw positive, of "int r"] by (elim exE conjE)
    note committed = commit_ok [OF facts(3) cw b'(1)]
    define i1 where "i1 = \<lparr>opcode = op + 1, operands = cs @ [of_nat i :: u32]\<rparr>"
    have "to_width w (of_nat i) = i" using index_operand [OF _ k(4)] committed by simp
    then have "lands_at b' (w, i1) (jump_offset info) op cs target"
      using committed relative(2) by (simp add: lands_at_def i1_def)
    from core_patched [OF core k(1,3,2) _ _ target(1) this] have
      "jumps_core (g\<lparr>table_builder := b', writer := (writer g)\<lparr>code_bytes := layout 0 (ss[k := (w, i1)])\<rparr>\<rparr>)
        (ss[k := (w, i1)]) js (us1 @ us2) n"
      using shape wf(2) committed b' facts(5) by (simp add: i1_def)
    moreover have "patch_forward_jump info block g
        = Some (g\<lparr>table_builder := b', writer := (writer g)\<lparr>code_bytes := layout 0 (ss[k := (w, i1)])\<rparr>\<rparr>)"
      using False patched [of i1] shape set_opcode_at [where wd = w and pre = pre and op' = "op + 1" and w = "writer g" and op = op
          and vs = "cs @ [of_nat i]" and rest = rest]
      by (auto simp: patch_forward_jump_def target(1) relative(1) info operand b'(1) i1_def)
    ultimately show ?thesis using length by (auto simp: i1_def)
  qed
qed

definition waiting :: "(nat \<times> forward_jump_info) list \<Rightarrow> nat \<Rightarrow> forward_jump_info list" where
  "waiting us block = map snd (filter (\<lambda>(b, _). b = block) us)"

lemma waits_before_end: "waits_at ss op cs info \<Longrightarrow> jump_offset info \<le> length (layout 0 ss)"
  using segment_position_less [of _ "length ss" ss]
  by (force simp: waits_at_def segment_position_end [symmetric])

lemma core_waiting:
  assumes "jumps_core g ss js us n" and "(block, info) \<in> set us"
  shows "constant_table_width info \<noteq> ExtraWide" and "jump_offset info \<le> length (code_bytes (writer g))"
proof -
  have "reserved (table_builder g) ExtraWide = length (filter (\<lambda>(_, info). constant_table_width info = ExtraWide) us)"
    and "no_extra (table_builder g)"
    using assms(1) unfolding jumps_core_def by (elim conjE, simp)+
  then have "filter (\<lambda>(_, info). constant_table_width info = ExtraWide) us = []" by (simp add: no_extra_def)
  with assms(2) show "constant_table_width info \<noteq> ExtraWide" by (auto simp: filter_empty_conv)
  have "\<forall>(block, info)\<in>set us. \<exists>op cs. (jump_offset info, op, cs, block) \<in> set js \<and> waits_at ss op cs info"
    and code: "code_bytes (writer g) = layout 0 ss"
    using assms(1) unfolding jumps_core_def by (elim conjE, simp)+
  with assms(2) obtain op cs where "waits_at ss op cs info" by blast
  from waits_before_end [OF this] show "jump_offset info \<le> length (code_bytes (writer g))" by (simp add: code)
qed

lemma patch_forward_jumps_ok:
  assumes "jumps_core g ss js (us1 @ us2) n"
    and "block_offsets g block = Some target" and "length (code_bytes (writer g)) \<le> target"
  shows "\<exists>b' c' ss'. patch_forward_jumps (waiting us2 block) block g
      = Some (g\<lparr>table_builder := b', writer := (writer g)\<lparr>code_bytes := c'\<rparr>\<rparr>) \<and>
    jumps_core (g\<lparr>table_builder := b', writer := (writer g)\<lparr>code_bytes := c'\<rparr>\<rparr>) ss' js
      (us1 @ filter (\<lambda>(b, _). b \<noteq> block) us2) n \<and>
    length c' = length (code_bytes (writer g))"
  using assms
proof (induction us2 arbitrary: g ss us1)
  case Nil
  then show ?case
    by (intro exI [of _ "table_builder g"] exI [of _ "code_bytes (writer g)"] exI [of _ ss]) (simp add: waiting_def)
next
  case (Cons u us2)
  obtain b info where u: "u = (b, info)" by (cases u)
  show ?case
  proof (cases "b = block")
    case False
    have "jumps_core g ss js ((us1 @ [u]) @ us2) n" using Cons.prems(1) by simp
    from Cons.IH [OF this Cons.prems(2,3)] False show ?thesis by (simp add: u waiting_def)
  next
    case True
    have core: "jumps_core g ss js (us1 @ (block, info) # us2) n" using Cons.prems(1) by (simp add: u True)
    have mem: "(block, info) \<in> set (us1 @ (block, info) # us2)" by simp
    have "jump_offset info \<le> target" using core_waiting(2) [OF core mem] Cons.prems(3) by simp
    from patch_forward_jump_ok [OF core Cons.prems(2) this core_waiting(1) [OF core mem]] obtain b1 c1 ss1 where
      patched: "patch_forward_jump info block g
          = Some (g\<lparr>table_builder := b1, writer := (writer g)\<lparr>code_bytes := c1\<rparr>\<rparr>)"
        "jumps_core (g\<lparr>table_builder := b1, writer := (writer g)\<lparr>code_bytes := c1\<rparr>\<rparr>) ss1 js (us1 @ us2) n"
        "length c1 = length (code_bytes (writer g))"
      by (elim exE conjE)
    have "\<exists>b' c' ss'. patch_forward_jumps (waiting us2 block) block
          (g\<lparr>table_builder := b1, writer := (writer g)\<lparr>code_bytes := c1\<rparr>\<rparr>)
        = Some (g\<lparr>table_builder := b', writer := (writer g)\<lparr>code_bytes := c'\<rparr>\<rparr>) \<and>
      jumps_core (g\<lparr>table_builder := b', writer := (writer g)\<lparr>code_bytes := c'\<rparr>\<rparr>) ss' js
        (us1 @ filter (\<lambda>(b, _). b \<noteq> block) us2) n \<and>
      length c' = length (code_bytes (writer g))"
      using Cons.IH [OF patched(2)] Cons.prems(2,3) patched(3) by simp
    with patched(1) show ?thesis by (simp add: u True waiting_def)
  qed
qed

section \<open>The steps of the generator\<close>

definition jumps_ok ::
  "jump_generator \<Rightarrow> segment list \<Rightarrow> written_jump list \<Rightarrow> (nat \<times> forward_jump_info) list \<Rightarrow> nat \<Rightarrow> bool" where
  "jumps_ok g ss js us n \<longleftrightarrow> jumps_core g ss js us n \<and>
     (\<forall>block. unresolved_forward_jumps g block = (if waiting us block = [] then None else Some (waiting us block))) \<and>
     (\<forall>(block, info)\<in>set us. block_offsets g block = None) \<and>
     length (code_bytes (writer g)) \<le> 37 * n \<and>
     (\<forall>block target. block_offsets g block = Some target \<longrightarrow> target \<le> length (code_bytes (writer g)))"

lemma jump_ok_mono:
  assumes j: "jump_ok g ss us j"
    and offsets: "\<And>b t. block_offsets g b = Some t \<Longrightarrow> block_offsets g' b = Some t"
    and placed: "set (placed (table_builder g)) \<subseteq> set (placed (table_builder g'))"
  shows "jump_ok g' ss us j"
proof -
  obtain p op cs block where j_is: "j = (p, op, cs, block)" by (cases j)
  show ?thesis
    using j unfolding j_is jump_ok_def case_prod_conv
    by (elim conjE disjE) (simp, blast intro: lands_mono [OF _ placed] offsets)
qed

lemma core_started:
  assumes core: "jumps_core g ss js us n" and "block_offsets g block = None"
  shows "jumps_core (g\<lparr>block_offsets := (block_offsets g)(block \<mapsto> target)\<rparr>) ss js us n"
proof -
  have "jump_ok (g\<lparr>block_offsets := (block_offsets g)(block \<mapsto> target)\<rparr>) ss us j" if "jump_ok g ss us j" for j
    by (rule jump_ok_mono [OF that]) (use assms(2) in auto)
  then show ?thesis using core unfolding jumps_core_def by simp
qed

lemma core_unresolved: "jumps_core g ss js us n \<Longrightarrow> jumps_core (g\<lparr>unresolved_forward_jumps := u\<rparr>) ss js us n"
  by (simp add: jumps_core_def jump_ok_def)

lemma start_block_ok:
  assumes ok: "jumps_ok g ss js us n" and new: "block_offsets g block = None"
  shows "\<exists>g' ss' us'. start_block block g = Some g' \<and> jumps_ok g' ss' js us' n \<and>
    block_offsets g' = (block_offsets g)(block \<mapsto> length (code_bytes (writer g)))"
proof -
  define g1 where "g1 = g\<lparr>block_offsets := (block_offsets g)(block \<mapsto> length (code_bytes (writer g)))\<rparr>"
  define us' where "us' = filter (\<lambda>(b, _). b \<noteq> block) us"
  have core: "jumps_core g ss js us n" using ok by (simp add: jumps_ok_def)
  have core1: "jumps_core g1 ss js us n" unfolding g1_def by (rule core_started [OF core new])
  have unresolved: "unresolved_forward_jumps g b = (if waiting us b = [] then None else Some (waiting us b))" for b
    using ok by (simp add: jumps_ok_def)
  have rest: "waiting us' b = (if b = block then [] else waiting us b)" for b
    by (auto simp: waiting_def us'_def filter_empty_conv intro!: arg_cong [of _ _ "map snd"] filter_cong)
  have bounds: "length (code_bytes (writer g)) \<le> 37 * n"
    "\<forall>b target. block_offsets g b = Some target \<longrightarrow> target \<le> length (code_bytes (writer g))"
    using ok by (simp_all add: jumps_ok_def)
  have none: "\<forall>(b, info)\<in>set us'. ((block_offsets g)(block \<mapsto> t)) b = None" for t
    using ok by (auto simp: jumps_ok_def us'_def)
  show ?thesis
  proof (cases "waiting us block = []")
    case True
    then have "us' = us" by (auto simp: waiting_def us'_def filter_id_conv filter_empty_conv)
    then have "jumps_ok g1 ss js us n"
      using core1 unresolved none bounds by (simp add: jumps_ok_def g1_def)
    moreover have "start_block block g = Some g1"
      using True by (simp add: start_block_def Let_def g1_def current_offset_def unresolved)
    ultimately show ?thesis by (intro exI [of _ g1] exI [of _ ss] exI [of _ us]) (simp add: g1_def)
  next
    case False
    define g2 where "g2 = g1\<lparr>unresolved_forward_jumps := (unresolved_forward_jumps g)(block := None)\<rparr>"
    have "jumps_core g2 ss js ([] @ us) n" unfolding g2_def using core_unresolved [OF core1] by simp
    from patch_forward_jumps_ok [OF this, of block "length (code_bytes (writer g))"] obtain b' c' ss' where
      patched: "patch_forward_jumps (waiting us block) block g2
          = Some (g2\<lparr>table_builder := b', writer := (writer g2)\<lparr>code_bytes := c'\<rparr>\<rparr>)"
        "jumps_core (g2\<lparr>table_builder := b', writer := (writer g2)\<lparr>code_bytes := c'\<rparr>\<rparr>) ss' js us' n"
        "length c' = length (code_bytes (writer g))"
      by (auto simp: g2_def g1_def us'_def)
    then have "jumps_ok (g2\<lparr>table_builder := b', writer := (writer g2)\<lparr>code_bytes := c'\<rparr>\<rparr>) ss' js us' n"
      using none bounds by (simp add: jumps_ok_def rest g2_def g1_def unresolved)
    moreover have "start_block block g = Some (g2\<lparr>table_builder := b', writer := (writer g2)\<lparr>code_bytes := c'\<rparr>\<rparr>)"
      using False patched(1) by (simp add: start_block_def Let_def current_offset_def unresolved g2_def g1_def)
    ultimately show ?thesis
      by (intro exI [of _ "g2\<lparr>table_builder := b', writer := (writer g2)\<lparr>code_bytes := c'\<rparr>\<rparr>"] exI [of _ ss'] exI [of _ us'])
        (simp add: g2_def g1_def)
  qed
qed

text \<open>One more instruction.\<close>

lemma segment_append:
  "k < length ss \<Longrightarrow> k < length (ss @ ts) \<and> segment_position (ss @ ts) k = segment_position ss k \<and>
     (ss @ ts) ! k = ss ! k"
  by (simp add: segment_position_append nth_append)

lemma waits_append: "waits_at ss op cs info \<Longrightarrow> waits_at (ss @ ts) op cs info"
  unfolding waits_at_def using segment_append by metis

lemma jump_ok_append:
  assumes "jump_ok g ss us j"
  shows "jump_ok g (ss @ ts) us j"
proof -
  obtain p op cs block where j: "j = (p, op, cs, block)" by (cases j)
  note all = assms [unfolded j jump_ok_def case_prod_conv]
  note shape = conjunct1 [OF all] conjunct1 [OF conjunct2 [OF all]] and state = conjunct2 [OF conjunct2 [OF all]]
  have "\<exists>k<length (ss @ ts). segment_position (ss @ ts) k = p \<and>
      (\<forall>c\<in>set cs. min_width RegisterType c \<le> fst ((ss @ ts) ! k))"
    using shape(2) segment_append by metis
  moreover have "(\<exists>info. (block, info) \<in> set us \<and> jump_offset info = p \<and> waits_at (ss @ ts) op cs info) \<or>
      p \<notin> (jump_offset \<circ> snd) ` set us \<and>
      (\<exists>k target. k < length (ss @ ts) \<and> segment_position (ss @ ts) k = p \<and> block_offsets g block = Some target \<and>
         lands_at (table_builder g) ((ss @ ts) ! k) p op cs target)"
    using state waits_append [of ss op cs _ ts] segment_append [of _ ss ts] by metis
  ultimately show ?thesis using shape(1) unfolding j jump_ok_def case_prod_conv by (intro conjI)
qed

lemma core_append:
  assumes core: "jumps_core g ss js us n" and "well_formed_instruction i"
    and "code_bytes w' = layout 0 (ss @ [(wd, i)])"
  shows "jumps_core (g\<lparr>writer := w'\<rparr>) (ss @ [(wd, i)]) js us n"
proof -
  have "jump_ok (g\<lparr>writer := w'\<rparr>) (ss @ [(wd, i)]) us j" if "jump_ok g ss us j" for j
    by (rule jump_ok_mono [OF jump_ok_append [OF that]]) simp_all
  then show ?thesis using core assms(2,3) waits_append unfolding jumps_core_def by (auto, blast)
qed

lemma write_instruction_layout:
  assumes "code_bytes w = layout 0 ss"
  shows "code_bytes (write_instruction i pos w) = layout 0 (ss @ [(chosen_width i, i)])"
  unfolding write_instruction_bytes layout_snoc assms ..

text \<open>Another table with the same reservations.\<close>

lemma core_table:
  assumes core: "jumps_core g ss js us n" and "builder_ok b'" "no_extra b'" "in_use b' \<le> n'"
    and "set (placed (table_builder g)) \<subseteq> set (placed b')" and "reserved b' = reserved (table_builder g)"
  shows "jumps_core (g\<lparr>table_builder := b'\<rparr>) ss js us n'"
proof -
  have "jump_ok (g\<lparr>table_builder := b'\<rparr>) ss us j" if "jump_ok g ss us j" for j
    by (rule jump_ok_mono [OF that]) (use assms(5) in simp_all)
  then show ?thesis using core assms(2-4,6) unfolding jumps_core_def by simp
qed

text \<open>One more jump, landed or waiting; its position is behind all others.\<close>

lemma jump_before_end:
  assumes "jumps_core g ss js us n" and "(p, op, cs, block) \<in> set js"
  shows "p < length (code_bytes (writer g))"
proof -
  have "jump_ok g ss us (p, op, cs, block)" and code: "code_bytes (writer g) = layout 0 ss"
    using assms by (auto simp: jumps_core_def)
  then obtain k where "k < length ss" "segment_position ss k = p" by (auto simp: jump_ok_def)
  then show ?thesis using segment_position_less [of k "length ss" ss] by (simp add: code segment_position_end)
qed

lemma core_landed:
  "jumps_core g ss js us n \<Longrightarrow> jump_ok g ss us j \<Longrightarrow> jumps_core g ss (js @ [j]) us n"
  unfolding jumps_core_def by (elim conjE, intro conjI, simp_all) blast

lemma core_new_waiting:
  assumes core: "jumps_core g ss js us n" and "builder_ok b'" "no_extra b'" "in_use b' \<le> n'"
    and b': "placed b' = placed (table_builder g)"
      "reserved b' = (reserved (table_builder g))(w := reserved (table_builder g) w + 1)"
    and info: "constant_table_width info = w" "jump_offset info = p"
    and jump: "jump_shape op cs" "waits_at ss op cs info" "k < length ss" "segment_position ss k = p"
      "\<forall>c\<in>set cs. min_width RegisterType c \<le> fst (ss ! k)"
    and new: "\<forall>(p', op, cs, block)\<in>set js. p' \<noteq> p"
  shows "jumps_core (g\<lparr>table_builder := b'\<rparr>) ss (js @ [(p, op, cs, block)]) (us @ [(block, info)]) n'"
proof -
  define g' where "g' = g\<lparr>table_builder := b'\<rparr>"
  have facts: "code_bytes (writer g) = layout 0 ss" "\<forall>(w, i)\<in>set ss. well_formed_instruction i"
    "\<forall>w. reserved (table_builder g) w = length (filter (\<lambda>(_, info). constant_table_width info = w) us)"
    "distinct (map (jump_offset \<circ> snd) us)"
    "\<forall>(block, info)\<in>set us. \<exists>op cs. (jump_offset info, op, cs, block) \<in> set js \<and> waits_at ss op cs info"
    "\<forall>j\<in>set js. jump_ok g ss us j"
    using core unfolding jumps_core_def by (elim conjE, simp)+
  have fresh: "p \<notin> (jump_offset \<circ> snd) ` set us" using facts(5) new by fastforce
  have old: "jump_ok g' ss (us @ [(block, info)]) j" if j: "j \<in> set js" for j
  proof -
    obtain p' op' cs' block' where j_is: "j = (p', op', cs', block')" by (cases j)
    have "jump_ok g' ss us j"
      by (rule jump_ok_mono [of g]) (use facts(6) j b'(1) in \<open>simp_all add: g'_def\<close>)
    moreover have "p' \<noteq> p" using new j by (auto simp: j_is)
    ultimately show ?thesis using info(2) unfolding j_is jump_ok_def case_prod_conv by (elim conjE disjE) auto
  qed
  have "jump_ok g' ss (us @ [(block, info)]) (p, op, cs, block)"
    using jump info by (auto simp: jump_ok_def)
  with old have "\<forall>j\<in>set (js @ [(p, op, cs, block)]). jump_ok g' ss (us @ [(block, info)]) j" by auto
  moreover have "\<forall>(block', info')\<in>set (us @ [(block, info)]).
      \<exists>op' cs'. (jump_offset info', op', cs', block') \<in> set (js @ [(p, op, cs, block)]) \<and> waits_at ss op' cs' info'"
    using facts(5) jump(2) info(2) by fastforce
  ultimately show ?thesis
    using facts fresh assms(2-4) b' info unfolding jumps_core_def g'_def by (simp add: image_comp)
qed

section \<open>Writing jumps\<close>

lemma jump_widths:
  assumes "jump_shape op cs"
  shows "c \<in> set cs \<Longrightarrow> min_width RegisterType c \<le> chosen_width \<lparr>opcode = op, operands = cs @ [v]\<rparr>"
    and "min_width SIntType v \<le> chosen_width \<lparr>opcode = op, operands = cs @ [v]\<rparr>"
    and "c \<in> set cs \<Longrightarrow> min_width RegisterType c \<le> chosen_width \<lparr>opcode = op + 1, operands = cs @ [v]\<rparr>"
    and "min_width ConstantIndexType v \<le> chosen_width \<lparr>opcode = op + 1, operands = cs @ [v]\<rparr>"
proof -
  note types = jump_well_formed(3,4) [OF assms]
  have types': "types_of op = map (\<lambda>_. RegisterType) cs @ [SIntType]"
    "types_of (op + 1) = map (\<lambda>_. RegisterType) cs @ [ConstantIndexType]"
    by (simp_all only: types_of_def types option.case)
  have register: "c \<in> set cs \<Longrightarrow> (RegisterType, c) \<in> set (zip (map (\<lambda>_. RegisterType) cs) cs)"
  proof -
    have "zip (map (\<lambda>_. RegisterType) cs) cs = map (Pair RegisterType) cs" by (induction cs) simp_all
    then show "c \<in> set cs \<Longrightarrow> (RegisterType, c) \<in> set (zip (map (\<lambda>_. RegisterType) cs) cs)" by simp
  qed
  show "c \<in> set cs \<Longrightarrow> min_width RegisterType c \<le> chosen_width \<lparr>opcode = op, operands = cs @ [v]\<rparr>"
    "min_width SIntType v \<le> chosen_width \<lparr>opcode = op, operands = cs @ [v]\<rparr>"
    "c \<in> set cs \<Longrightarrow> min_width RegisterType c \<le> chosen_width \<lparr>opcode = op + 1, operands = cs @ [v]\<rparr>"
    "min_width ConstantIndexType v \<le> chosen_width \<lparr>opcode = op + 1, operands = cs @ [v]\<rparr>"
    by (rule chosen_width_ge; use register in \<open>simp only: instruction.select_convs types'; simp\<close>)+
qed

lemma signed_operand:
  assumes "try_from_signed k = Some v" and "min_width SIntType v \<le> w"
  shows "as_signed w (to_width w v) = k"
proof -
  have "SIGNED_MIN ExtraWide \<le> k" "k \<le> SIGNED_MAX ExtraWide" "v = word_of_int k"
    using assms(1) by (auto simp: try_from_signed_def split: if_splits)
  with operand_cut [OF assms(2)] signed_of_int [of k] show ?thesis by (simp add: operand_value_def is_signed_def)
qed

lemma constant_operand:
  assumes "i < 65536" and "min_width ConstantIndexType (word_of_nat i) \<le> w"
  shows "to_width w (word_of_nat i) = i"
proof -
  have "unat (word_of_nat i :: u32) = i" using assms(1) by (simp add: unat_of_nat_small)
  with operand_cut [OF assms(2)] show ?thesis by (simp add: operand_value_def is_signed_def)
qed

lemma operands_bound:
  assumes "well_formed_instruction i"
  shows "length (operands i) \<le> 8"
proof -
  have "list_all (\<lambda>(name, types, throws). length types \<le> 8) instruction_table"
    by (simp add: instruction_table_def instruction_defs)
  then have "length types \<le> 8" if "operand_types op = Some types" for op types
    using that by (auto simp: operand_types_def list_all_length split: if_splits prod.splits) (metis prod.collapse)+
  then show ?thesis using assms by (auto simp: well_formed_instruction_def split: option.splits)
qed

lemma write_bound:
  assumes "well_formed_instruction i"
  shows "length (code_bytes (write_instruction i pos w)) \<le> length (code_bytes w) + 37"
  using operands_bound [OF assms] instruction_length [of "chosen_width i" "length (code_bytes w)" i]
  by (simp add: write_instruction_bytes)

lemma core_mono: "jumps_core g ss js us n \<Longrightarrow> n \<le> n' \<Longrightarrow> jumps_core g ss js us n'"
  by (auto simp: jumps_core_def)

text \<open>An instruction that is appended, whatever it is.\<close>

lemma emit_instruction_ok:
  assumes ok: "jumps_ok g ss js us n" and wf: "well_formed_instruction i"
  shows "jumps_ok (g\<lparr>writer := write_instruction i pos (writer g)\<rparr>) (ss @ [(chosen_width i, i)]) js us (n + 1)"
proof -
  have core: "jumps_core g ss js us n" using ok by (simp add: jumps_ok_def)
  then have "code_bytes (writer g) = layout 0 ss" by (simp add: jumps_core_def)
  from core_append [OF core wf write_instruction_layout [OF this, of i pos]]
  have "jumps_core (g\<lparr>writer := write_instruction i pos (writer g)\<rparr>) (ss @ [(chosen_width i, i)]) js us (n + 1)"
    by (rule core_mono) simp
  moreover have "length (code_bytes (writer g)) \<le> length (code_bytes (write_instruction i pos (writer g)))"
    by (simp add: write_instruction_bytes)
  ultimately show ?thesis
    using ok write_bound [OF wf, of pos "writer g"] unfolding jumps_ok_def by (auto, meson order_trans)
qed

lemma emit_landed:
  assumes ok: "jumps_ok g ss js us n" and shape: "jump_shape op cs" and target: "block_offsets g block = Some target"
    and b': "builder_ok b'" "no_extra b'" "in_use b' \<le> n + 1" "set (placed (table_builder g)) \<subseteq> set (placed b')"
      "reserved b' = reserved (table_builder g)"
    and i: "well_formed_instruction i" "\<forall>c\<in>set cs. min_width RegisterType c \<le> chosen_width i"
    and lands: "lands_at b' (chosen_width i, i) (length (code_bytes (writer g))) op cs target"
  shows "jumps_ok (g\<lparr>table_builder := b', writer := write_instruction i NO_POS (writer g)\<rparr>) (ss @ [(chosen_width i, i)])
    (js @ [(length (code_bytes (writer g)), op, cs, block)]) us (n + 1)"
proof -
  define p where "p = length (code_bytes (writer g))"
  define g1 where "g1 = g\<lparr>writer := write_instruction i NO_POS (writer g)\<rparr>"
  define g2 where "g2 = g1\<lparr>table_builder := b'\<rparr>"
  have core: "jumps_core g ss js us n" using ok by (simp add: jumps_ok_def)
  have ok1: "jumps_ok g1 (ss @ [(chosen_width i, i)]) js us (n + 1)" unfolding g1_def by (rule emit_instruction_ok [OF ok i(1)])
  then have core1: "jumps_core g1 (ss @ [(chosen_width i, i)]) js us (n + 1)" by (simp add: jumps_ok_def)
  have core2: "jumps_core g2 (ss @ [(chosen_width i, i)]) js us (n + 1)"
    unfolding g2_def by (rule core_table [OF core1]) (use b' in \<open>simp_all add: g1_def\<close>)
  have position: "segment_position (ss @ [(chosen_width i, i)]) (length ss) = p"
    using core by (simp add: segment_position_def p_def jumps_core_def)
  have "p \<notin> (jump_offset \<circ> snd) ` set us"
  proof
    assume "p \<in> (jump_offset \<circ> snd) ` set us"
    then obtain block' info where "(block', info) \<in> set us" "jump_offset info = p" by auto
    moreover have "\<forall>(block, info)\<in>set us. \<exists>op cs. (jump_offset info, op, cs, block) \<in> set js \<and> waits_at ss op cs info"
      using core unfolding jumps_core_def by (elim conjE)
    ultimately obtain op' cs' where "(p, op', cs', block') \<in> set js" by fastforce
    from jump_before_end [OF core this] show False by (simp add: p_def)
  qed
  then have "jump_ok g2 (ss @ [(chosen_width i, i)]) us (p, op, cs, block)"
    using shape position lands target i(2) unfolding jump_ok_def case_prod_conv p_def [symmetric]
    by (intro conjI disjI2 exI [of _ "length ss"] exI [of _ target]) (simp_all add: g2_def g1_def)
  from core_landed [OF core2 this]
  have "jumps_ok g2 (ss @ [(chosen_width i, i)]) (js @ [(p, op, cs, block)]) us (n + 1)"
    using ok1 by (simp add: jumps_ok_def) (simp add: g2_def)
  moreover have "g2 = g\<lparr>table_builder := b', writer := write_instruction i NO_POS (writer g)\<rparr>"
    by (simp add: g2_def g1_def)
  ultimately show ?thesis by (simp add: p_def)
qed

lemma emit_waiting:
  assumes ok: "jumps_ok g ss js us n" and shape: "jump_shape op cs" and target: "block_offsets g block = None"
    and b': "builder_ok b'" "no_extra b'" "in_use b' \<le> n + 1" "placed b' = placed (table_builder g)"
      "reserved b' = (reserved (table_builder g))(w := reserved (table_builder g) w + 1)"
    and i: "i = \<lparr>opcode = op, operands = cs @ [v]\<rparr>" "w \<le> chosen_width i"
    and info: "info = \<lparr>jump_offset = length (code_bytes (writer g)), constant_table_width = w\<rparr>"
  shows "jumps_ok (g\<lparr>table_builder := b', writer := write_instruction i NO_POS (writer g),
      unresolved_forward_jumps := (unresolved_forward_jumps g)(block \<mapsto> waiting us block @ [info])\<rparr>)
    (ss @ [(chosen_width i, i)]) (js @ [(length (code_bytes (writer g)), op, cs, block)]) (us @ [(block, info)]) (n + 1)"
proof -
  define p where "p = length (code_bytes (writer g))"
  define ss' where "ss' = ss @ [(chosen_width i, i)]"
  define g1 where "g1 = g\<lparr>writer := write_instruction i NO_POS (writer g)\<rparr>"
  define g2 where "g2 = g1\<lparr>table_builder := b'\<rparr>"
  define g3 where "g3 = g2\<lparr>unresolved_forward_jumps := (unresolved_forward_jumps g)(block \<mapsto> waiting us block @ [info])\<rparr>"
  have core: "jumps_core g ss js us n" using ok by (simp add: jumps_ok_def)
  have "well_formed_instruction i" unfolding i(1) by (rule jump_well_formed(1) [OF shape])
  from emit_instruction_ok [OF ok this] have ok1: "jumps_ok g1 ss' js us (n + 1)" unfolding g1_def ss'_def .
  then have core1: "jumps_core g1 ss' js us (n + 1)" by (simp add: jumps_ok_def)
  have k: "length ss < length ss'" "segment_position ss' (length ss) = p" "ss' ! length ss = (chosen_width i, i)"
    using core by (simp_all add: segment_position_def p_def jumps_core_def ss'_def)
  have "waits_at ss' op cs info"
    unfolding waits_at_def using k i by (intro exI [of _ "length ss"]) (simp add: info p_def)
  moreover have "\<forall>c\<in>set cs. min_width RegisterType c \<le> fst (ss' ! length ss)"
    using jump_widths(1) [OF shape] k(3) by (simp add: i(1))
  moreover have "\<forall>(p', op, cs, block)\<in>set js. p' \<noteq> p" using jump_before_end [OF core] by (force simp: p_def)
  ultimately have "jumps_core g2 ss' (js @ [(p, op, cs, block)]) (us @ [(block, info)]) (n + 1)"
    unfolding g2_def using b' k shape
    by (intro core_new_waiting [OF core1 b'(1-3), where w = w and k = "length ss"]) (simp_all add: g1_def info p_def)
  then have core3: "jumps_core g3 ss' (js @ [(p, op, cs, block)]) (us @ [(block, info)]) (n + 1)"
    unfolding g3_def by (rule core_unresolved)
  have "waiting (us @ [(block, info)]) b = waiting us b @ (if b = block then [info] else [])" for b
    by (simp add: waiting_def)
  then have "jumps_ok g3 ss' (js @ [(p, op, cs, block)]) (us @ [(block, info)]) (n + 1)"
    using ok1 core3 target by (auto simp: jumps_ok_def g3_def g2_def g1_def)
  moreover have "g3 = g\<lparr>table_builder := b', writer := write_instruction i NO_POS (writer g),
      unresolved_forward_jumps := (unresolved_forward_jumps g)(block \<mapsto> waiting us block @ [info])\<rparr>"
    by (simp add: g3_def g2_def g1_def)
  ultimately show ?thesis by (simp add: ss'_def p_def)
qed

lemma write_jump_ok:
  assumes ok: "jumps_ok g ss js us n" and shape: "jump_shape op cs" and n: "n < 65536"
  shows "\<exists>g' ss' us'. write_jump op cs block g = Inr g' \<and>
    jumps_ok g' ss' (js @ [(length (code_bytes (writer g)), op, cs, block)]) us' (n + 1) \<and> block_offsets g' = block_offsets g"
proof -
  define p where "p = length (code_bytes (writer g))"
  have facts: "builder_ok (table_builder g)" "no_extra (table_builder g)" "in_use (table_builder g) \<le> n"
    using ok by (simp_all add: jumps_ok_def jumps_core_def)
  then have room: "in_use (table_builder g) < 65536" using n by simp
  note wf = jump_well_formed(1,2) [OF shape]
  note widths = jump_widths [OF shape]
  show ?thesis
  proof (cases "block_offsets g block")
    case (Some target)
    define r where "r = int target - int p"
    show ?thesis
    proof (cases "try_from_signed r")
      case (Some v)
      define i where "i = \<lparr>opcode = op, operands = cs @ [v]\<rparr>"
      have "lands_at (table_builder g) (chosen_width i, i) p op cs target"
        using signed_operand [OF Some widths(2)] by (simp add: lands_at_def i_def r_def)
      from emit_landed [OF ok shape \<open>block_offsets g block = Some target\<close> facts(1,2) _ _ _ wf(1) [of v] _ this [unfolded p_def i_def]]
      have "jumps_ok (g\<lparr>writer := write_instruction i NO_POS (writer g)\<rparr>) (ss @ [(chosen_width i, i)])
          (js @ [(p, op, cs, block)]) us (n + 1)"
        using facts(3) widths(1) by (simp add: p_def i_def)
      moreover have "write_jump op cs block g = Inr (g\<lparr>writer := write_instruction i NO_POS (writer g)\<rparr>)"
        using Some \<open>block_offsets g block = Some target\<close>
        by (simp add: write_jump_def jump_target_operand_def Let_def current_offset_def p_def r_def i_def)
      ultimately show ?thesis by (auto simp: p_def)
    next
      case None
      obtain index b' where b': "insert_if_missing (BytecodeOffset r) (table_builder g) = Inr (index, b')" "no_extra b'"
        "in_use b' \<le> in_use (table_builder g) + 1"
        using insert_if_missing_total [OF facts(1,2) room, of "BytecodeOffset r"] by (elim exE conjE)
      note inserted = insert_if_missing_ok [OF facts(1) b'(1)]
      define i where "i = \<lparr>opcode = op + 1, operands = cs @ [word_of_nat index]\<rparr>"
      have "index < 65536" using placed_index [of b'] inserted b'(2) by blast
      from constant_operand [OF this widths(4)] have "lands_at b' (chosen_width i, i) p op cs target"
        using inserted by (simp add: lands_at_def i_def r_def)
      from emit_landed [OF ok shape \<open>block_offsets g block = Some target\<close> _ b'(2) _ _ _ wf(2) [of "word_of_nat index"] _
          this [unfolded p_def i_def]]
      have "jumps_ok (g\<lparr>table_builder := b', writer := write_instruction i NO_POS (writer g)\<rparr>) (ss @ [(chosen_width i, i)])
          (js @ [(p, op, cs, block)]) us (n + 1)"
        using facts(3) inserted b'(3) widths(3) by (simp add: p_def i_def)
      moreover have "write_jump op cs block g = Inr (g\<lparr>table_builder := b', writer := write_instruction i NO_POS (writer g)\<rparr>)"
        using None \<open>block_offsets g block = Some target\<close> b'(1)
        by (simp add: write_jump_def jump_target_operand_def Let_def current_offset_def p_def [symmetric] r_def [symmetric] i_def
            add_bytecode_offset_def)
      ultimately show ?thesis by (auto simp: p_def)
    qed
  next
    case None
    obtain w b' where b': "reserve_entry (table_builder g) = Inr (w, b')" "w \<noteq> ExtraWide" "no_extra b'"
      "in_use b' = in_use (table_builder g) + 1"
      using reserve_entry_total [OF facts(2) room] by (elim exE conjE)
    note entry = reserve_entry_ok [OF facts(1) b'(1)]
    define v :: u32 where "v = word_of_int (SIGNED_MIN w)"
    define i where "i = \<lparr>opcode = op, operands = cs @ [v]\<rparr>"
    define info where "info = \<lparr>jump_offset = p, constant_table_width = w\<rparr>"
    have "min_width SIntType v = w"
      using signed_of_int [of "SIGNED_MIN w"]
      by (cases w) (simp_all add: v_def min_width_def is_signed_def min_width_for_signed_def width_defs)
    then have "w \<le> chosen_width i" using widths(2) [of v] by (simp add: i_def)
    from emit_waiting [OF ok shape None _ b'(3) _ _ _ i_def this info_def [unfolded p_def]]
    have "jumps_ok (g\<lparr>table_builder := b', writer := write_instruction i NO_POS (writer g),
        unresolved_forward_jumps := (unresolved_forward_jumps g)(block \<mapsto> waiting us block @ [info])\<rparr>)
      (ss @ [(chosen_width i, i)]) (js @ [(p, op, cs, block)]) (us @ [(block, info)]) (n + 1)"
      using entry b'(4) facts(3) by (simp add: p_def)
    moreover have "(case unresolved_forward_jumps g block of None \<Rightarrow> [] | Some infos \<Rightarrow> infos) = waiting us block"
      using ok by (simp add: jumps_ok_def)
    then have "write_jump op cs block g = Inr (g\<lparr>table_builder := b', writer := write_instruction i NO_POS (writer g),
        unresolved_forward_jumps := (unresolved_forward_jumps g)(block \<mapsto> waiting us block @ [info])\<rparr>)"
      using None b'(1)
      by (simp add: write_jump_def jump_target_operand_def Let_def current_offset_def p_def i_def v_def info_def)
    ultimately show ?thesis by (auto simp: p_def)
  qed
qed

section \<open>Generating a function\<close>

fun jump_opcode :: "jump_kind \<Rightarrow> nat" where
  "jump_opcode Jump = JUMP"
| "jump_opcode (JumpTrue c) = JUMP_TRUE"
| "jump_opcode (JumpToBooleanTrue c) = JUMP_TO_BOOLEAN_TRUE"
| "jump_opcode (JumpFalse c) = JUMP_FALSE"
| "jump_opcode (JumpToBooleanFalse c) = JUMP_TO_BOOLEAN_FALSE"
| "jump_opcode (JumpNotUndefined c) = JUMP_NOT_UNDEFINED"
| "jump_opcode (JumpNullish c) = JUMP_NULLISH"
| "jump_opcode (JumpNotNullish c) = JUMP_NOT_NULLISH"

fun jump_registers :: "jump_kind \<Rightarrow> u32 list" where
  "jump_registers Jump = []"
| "jump_registers (JumpTrue c) = [c]"
| "jump_registers (JumpToBooleanTrue c) = [c]"
| "jump_registers (JumpFalse c) = [c]"
| "jump_registers (JumpToBooleanFalse c) = [c]"
| "jump_registers (JumpNotUndefined c) = [c]"
| "jump_registers (JumpNullish c) = [c]"
| "jump_registers (JumpNotNullish c) = [c]"

lemma emit_jump_kind_is: "emit_jump_kind kind = write_jump (jump_opcode kind) (jump_registers kind)"
  by (cases kind) (simp_all add: write_jump_instruction_def write_jump_true_instruction_def
      write_jump_to_boolean_true_instruction_def write_jump_false_instruction_def
      write_jump_to_boolean_false_instruction_def write_jump_not_undefined_instruction_def
      write_jump_nullish_instruction_def write_jump_not_nullish_instruction_def)

lemma kind_shape: "jump_shape (jump_opcode kind) (jump_registers kind)"
  by (cases kind) (simp_all add: jump_shape_def CONDITIONAL_JUMPS_def)

text \<open>What an action may be, and what it does to the jumps and the blocks.\<close>

fun action_ok :: "(nat \<rightharpoonup> nat) \<Rightarrow> emit_action \<Rightarrow> bool" where
  "action_ok offsets (EmitInstruction i pos) = well_formed_instruction i"
| "action_ok offsets (StartBlock block) = (offsets block = None)"
| "action_ok offsets a = True"

fun written_by :: "emit_action \<Rightarrow> nat \<Rightarrow> written_jump list" where
  "written_by (EmitJump kind block) p = [(p, jump_opcode kind, jump_registers kind, block)]"
| "written_by a p = []"

fun offsets_after :: "emit_action \<Rightarrow> nat \<Rightarrow> (nat \<rightharpoonup> nat) \<Rightarrow> nat \<rightharpoonup> nat" where
  "offsets_after (StartBlock block) p offsets = offsets(block \<mapsto> p)"
| "offsets_after a p offsets = offsets"

abbreviation code_length :: "jump_generator \<Rightarrow> nat" where
  "code_length g \<equiv> length (code_bytes (writer g))"

lemma jumps_ok_mono: "jumps_ok g ss js us n \<Longrightarrow> n \<le> n' \<Longrightarrow> jumps_ok g ss js us n'"
  using core_mono [of g ss js us n n'] by (auto simp: jumps_ok_def)

lemma emit_step_ok:
  assumes ok: "jumps_ok g ss js us n" and n: "n < 65536" and a: "action_ok (block_offsets g) a"
  shows "\<exists>g' ss' us'. emit_step a g = Some (Inr g') \<and> jumps_ok g' ss' (js @ written_by a (code_length g)) us' (n + 1) \<and>
    block_offsets g' = offsets_after a (code_length g) (block_offsets g)"
proof (cases a)
  case (EmitInstruction i pos)
  with emit_instruction_ok [OF ok, of i pos] a show ?thesis by auto
next
  case (EmitJump kind block)
  with write_jump_ok [OF ok kind_shape n, of kind block] show ?thesis by (auto simp: emit_jump_kind_is)
next
  case (StartBlock block)
  have "block_offsets g block = None" using a by (simp add: StartBlock)
  from start_block_ok [OF ok this] obtain g' ss' us' where "start_block block g = Some g'" "jumps_ok g' ss' js us' n"
    "block_offsets g' = (block_offsets g)(block \<mapsto> code_length g)"
    by (elim exE conjE)
  with jumps_ok_mono [of g' ss' js us' n "n + 1"] StartBlock show ?thesis by auto
next
  case (AddConstant e)
  have facts: "builder_ok (table_builder g)" "no_extra (table_builder g)" "in_use (table_builder g) \<le> n"
    and core: "jumps_core g ss js us n"
    using ok by (simp_all add: jumps_ok_def jumps_core_def)
  then have room: "in_use (table_builder g) < 65536" using n by simp
  obtain i b' where b': "insert_if_missing e (table_builder g) = Inr (i, b')" "no_extra b'"
    "in_use b' \<le> in_use (table_builder g) + 1"
    using insert_if_missing_total [OF facts(1,2) room, of e] by (elim exE conjE)
  have "jumps_core (g\<lparr>table_builder := b'\<rparr>) ss js us (n + 1)"
    by (rule core_table [OF core]) (use insert_if_missing_ok [OF facts(1) b'(1)] b' facts(3) in auto)
  then have "jumps_ok (g\<lparr>table_builder := b'\<rparr>) ss js us (n + 1)" using ok by (auto simp: jumps_ok_def)
  with AddConstant b'(1) show ?thesis by auto
qed

text \<open>The blocks that a list of actions starts, and the blocks it jumps to.\<close>

fun started_blocks :: "emit_action list \<Rightarrow> nat list" where
  "started_blocks [] = []"
| "started_blocks (StartBlock block # as) = block # started_blocks as"
| "started_blocks (a # as) = started_blocks as"

definition instructions_ok :: "emit_action list \<Rightarrow> bool" where
  "instructions_ok as \<longleftrightarrow> (\<forall>i pos. EmitInstruction i pos \<in> set as \<longrightarrow> well_formed_instruction i)"

definition code_length_after :: "emit_action list \<Rightarrow> jump_generator \<Rightarrow> nat" where
  "code_length_after as g = (case emit_steps as g of Some (Inr g') \<Rightarrow> code_length g' | _ \<Rightarrow> 0)"

lemma started_blocks_append: "started_blocks (as @ bs) = started_blocks as @ started_blocks bs"
  by (induction as rule: started_blocks.induct) simp_all

lemma emit_steps_ok:
  assumes "jumps_ok g ss js us n" and "n + length as \<le> 65536" and "instructions_ok as"
    and "distinct (started_blocks as)" and "\<forall>block\<in>set (started_blocks as). block_offsets g block = None"
  shows "\<exists>g' ss' us' js'. emit_steps as g = Some (Inr g') \<and> jumps_ok g' ss' (js @ js') us' (n + length as) \<and>
    (\<forall>block. block \<notin> set (started_blocks as) \<longrightarrow> block_offsets g' block = block_offsets g block) \<and>
    (\<forall>block\<in>set (started_blocks as). block_offsets g' block \<noteq> None) \<and>
    (\<forall>j\<in>set js'. \<exists>kind. EmitJump kind (snd (snd (snd j))) \<in> set as) \<and>
    (\<forall>pre kind block post. as = pre @ EmitJump kind block # post \<longrightarrow>
       (code_length_after pre g, jump_opcode kind, jump_registers kind, block) \<in> set js') \<and>
    (\<forall>pre block post. as = pre @ StartBlock block # post \<longrightarrow> block_offsets g' block = Some (code_length_after pre g))"
  using assms
proof (induction as arbitrary: g ss js us n)
  case Nil
  then show ?case by (intro exI [of _ g] exI [of _ ss] exI [of _ us] exI [of _ "[]"]) simp
next
  case (Cons a as)
  have "action_ok (block_offsets g) a" using Cons.prems(3,5) by (cases a) (auto simp: instructions_ok_def)
  from emit_step_ok [OF Cons.prems(1) _ this] Cons.prems(2) obtain g1 ss1 us1 where
    step: "emit_step a g = Some (Inr g1)" "jumps_ok g1 ss1 (js @ written_by a (code_length g)) us1 (n + 1)"
      "block_offsets g1 = offsets_after a (code_length g) (block_offsets g)"
    by auto
  have more: "distinct (started_blocks as)" "\<forall>block\<in>set (started_blocks as). block_offsets g1 block = None"
    using Cons.prems(4,5) step(3) by (cases a; auto)+
  have "instructions_ok as" using Cons.prems(3) by (auto simp: instructions_ok_def)
  from Cons.IH [OF step(2) _ this more] Cons.prems(2) obtain g' ss' us' js' where
    steps: "emit_steps as g1 = Some (Inr g')"
      "jumps_ok g' ss' ((js @ written_by a (code_length g)) @ js') us' (n + 1 + length as)"
      "\<forall>block. block \<notin> set (started_blocks as) \<longrightarrow> block_offsets g' block = block_offsets g1 block"
      "\<forall>block\<in>set (started_blocks as). block_offsets g' block \<noteq> None"
      "\<forall>j\<in>set js'. \<exists>kind. EmitJump kind (snd (snd (snd j))) \<in> set as"
      "\<forall>pre kind block post. as = pre @ EmitJump kind block # post \<longrightarrow>
         (code_length_after pre g1, jump_opcode kind, jump_registers kind, block) \<in> set js'"
      "\<forall>pre block post. as = pre @ StartBlock block # post \<longrightarrow> block_offsets g' block = Some (code_length_after pre g1)"
    by auto
  define js1 where "js1 = written_by a (code_length g) @ js'"
  have start: "code_length_after [] g = code_length g" by (simp add: code_length_after_def)
  have later: "code_length_after (a # pre) g = code_length_after pre g1" for pre
    by (simp add: code_length_after_def step(1))
  have "emit_steps (a # as) g = Some (Inr g')" using step(1) steps(1) by simp
  moreover have "jumps_ok g' ss' (js @ js1) us' (n + length (a # as))" using steps(2) by (simp add: js1_def)
  moreover have "\<forall>block. block \<notin> set (started_blocks (a # as)) \<longrightarrow> block_offsets g' block = block_offsets g block"
    using steps(3) step(3) by (cases a) auto
  moreover have "\<forall>block\<in>set (started_blocks (a # as)). block_offsets g' block \<noteq> None"
    using steps(3,4) step(3) Cons.prems(4) by (cases a) auto
  moreover have "\<forall>j\<in>set js1. \<exists>kind. EmitJump kind (snd (snd (snd j))) \<in> set (a # as)"
    using steps(5) by (cases a) (auto simp: js1_def)
  moreover have "(code_length_after pre g, jump_opcode kind, jump_registers kind, block) \<in> set js1"
    if "a # as = pre @ EmitJump kind block # post" for pre kind block post
    using that steps(6) start later by (cases pre) (auto simp: js1_def)
  moreover have "block_offsets g' block = Some (code_length_after pre g)"
    if "a # as = pre @ StartBlock block # post" for pre block post
    using that steps(3,7) start later step(3) Cons.prems(4) by (cases pre) auto
  ultimately show ?case by (intro exI [of _ g'] exI [of _ ss'] exI [of _ us'] exI [of _ js1]) blast
qed

section \<open>Where jumps land\<close>

lemma opcode_cases:
  assumes "jump_shape op cs"
  shows "op + 1 \<noteq> JUMP" and "op + 1 \<notin> set CONDITIONAL_JUMPS" and "op \<noteq> JUMP \<Longrightarrow> op \<noteq> JUMP + 1"
    and "op \<noteq> JUMP \<Longrightarrow> op + 1 \<noteq> JUMP + 1"
  using assms by (auto simp: jump_shape_def conditional_jumps JUMP_def)

lemma sint_small: "- (2 ^ 63) \<le> k \<Longrightarrow> k < 2 ^ 63 \<Longrightarrow> sint (word_of_int k :: 64 word) = k"
  by (simp add: Word.signed_of_int signed_take_bit_int_eq_self)

lemma execute_landed:
  assumes k: "k < length ss" "segment_position ss k = p" "\<forall>c\<in>set cs. min_width RegisterType c \<le> fst (ss ! k)"
    and shape: "jump_shape op cs" and lands: "lands_at b (ss ! k) p op cs target"
    and table: "\<forall>(e, i)\<in>set (placed b). \<exists>t. table = Some t \<and>
       get_constant t i = Some (case snd (to_value e) of None \<Rightarrow> value_undefined | Some v \<Rightarrow> v)"
    and bounds: "p < 2 ^ 63" "target < 2 ^ 63"
  shows "execute_jump env registers (layout 0 ss) table p
    = Some (if op = JUMP \<or> cond_function env op (registers (as_signed ExtraWide (unat (hd cs)))) then int target
        else int (snd (the (decode_next (layout 0 ss) p))))"
proof -
  note wf = jump_well_formed(1,2) [OF shape]
  note codes = opcode_cases [OF shape]
  have register: "as_signed (fst (ss ! k)) (to_width (fst (ss ! k)) c) = as_signed ExtraWide (unat c)" if "c \<in> set cs" for c
    using operand_cut [of RegisterType c "fst (ss ! k)"] k(3) that by (simp add: operand_value_def is_signed_def)
  consider (inline) w v where "ss ! k = (w, \<lparr>opcode = op, operands = cs @ [v]\<rparr>)"
      "as_signed w (to_width w v) = int target - int p"
    | (indirect) w v where "ss ! k = (w, \<lparr>opcode = op + 1, operands = cs @ [v]\<rparr>)"
      "(BytecodeOffset (int target - int p), to_width w v) \<in> set (placed b)"
    using lands unfolding lands_at_def by (elim disjE exE conjE)
  then show ?thesis
  proof cases
    case inline
    have decoded: "decode_next (layout 0 ss) p = Some (\<lparr>decoded_width = w, decoded_opcode = op,
        decoded_operands = map (to_width w) (cs @ [v])\<rparr>, segment_position ss (Suc k))"
      using decode_segment(1) [OF k(1) inline(1) wf(1)] k(2) by simp
    show ?thesis
    proof (cases "op = JUMP")
      case True
      then have "cs = []" using shape by (auto simp: jump_shape_def conditional_jumps JUMP_def)
      with True inline(2) show ?thesis by (simp add: execute_jump_def decoded jump_immediate_def vec_get_def)
    next
      case False
      then obtain c where c: "cs = [c]" "op \<in> set CONDITIONAL_JUMPS" using shape by (auto simp: jump_shape_def)
      have "as_signed w (to_width w c) = as_signed ExtraWide (unat c)" using register [of c] by (simp add: c inline(1))
      with False inline(2) codes(3) [OF False] show ?thesis
        by (simp add: execute_jump_def decoded jump_immediate_def vec_get_def c Let_def)
    qed
  next
    case indirect
    have decoded: "decode_next (layout 0 ss) p = Some (\<lparr>decoded_width = w, decoded_opcode = op + 1,
        decoded_operands = map (to_width w) (cs @ [v])\<rparr>, segment_position ss (Suc k))"
      using decode_segment(1) [OF k(1) indirect(1) wf(2)] k(2) by simp
    have "sint (word_of_int (int target - int p) :: 64 word) = int target - int p"
      using bounds by (intro sint_small) simp_all
    with table indirect(2) have target: "jump_constant table p (to_width w v) = Some (int target)"
      by (fastforce simp: jump_constant_def get_constant_offset_def)
    show ?thesis
    proof (cases "op = JUMP")
      case True
      then have "cs = []" using shape by (auto simp: jump_shape_def conditional_jumps JUMP_def)
      with True target show ?thesis by (simp add: execute_jump_def decoded vec_get_def)
    next
      case False
      then obtain c where c: "cs = [c]" "op \<in> set CONDITIONAL_JUMPS" using shape by (auto simp: jump_shape_def)
      have "as_signed w (to_width w c) = as_signed ExtraWide (unat c)" using register [of c] by (simp add: c indirect(1))
      with False target codes show ?thesis
        by (simp add: execute_jump_def decoded vec_get_def c Let_def)
    qed
  qed
qed

text \<open>Whether a jump is taken: its condition on the value of the register it tests.\<close>

definition jump_taken :: "('s, 'e) environment \<Rightarrow> (int \<Rightarrow> value_bits) \<Rightarrow> jump_kind \<Rightarrow> bool" where
  "jump_taken env registers kind =
     (let v = (\<lambda>c. registers (as_signed ExtraWide (unat c))) in
      (case kind of
         Jump \<Rightarrow> True
       | JumpTrue c \<Rightarrow> is_true (v c)
       | JumpToBooleanTrue c \<Rightarrow> to_boolean env (v c)
       | JumpFalse c \<Rightarrow> is_false (v c)
       | JumpToBooleanFalse c \<Rightarrow> \<not> to_boolean env (v c)
       | JumpNotUndefined c \<Rightarrow> \<not> is_undefined (v c)
       | JumpNullish c \<Rightarrow> is_nullish (v c)
       | JumpNotNullish c \<Rightarrow> \<not> is_nullish (v c)))"

lemma jump_taken_is: "jump_taken env registers kind \<longleftrightarrow>
  jump_opcode kind = JUMP \<or> cond_function env (jump_opcode kind) (registers (as_signed ExtraWide (unat (hd (jump_registers kind)))))"
  by (cases kind) (simp_all add: jump_taken_def Let_def cond_function_def jump_opcode_defs
      jump_boolean_cond_def jump_to_boolean_cond_def jump_undefined_cond_def jump_nullish_cond_def)

lemma new_jumps_ok: "jumps_ok (new_generator new_writer) [] [] [] 0"
  using new_builder_ok
  by (simp add: jumps_ok_def jumps_core_def new_generator_def new_writer_def waiting_def new_constant_table_builder_def
      no_extra_def in_use_def)

text \<open>C38: Every jump lands.  Generating a function in at most 65536 steps (instructions, jumps, constants
  and block starts in any order), in which every block starts once and every block that is jumped to
  starts, succeeds and leaves no jump unresolved; executing any of the jumps then continues at the offset
  at which its block has started if the condition holds, and behind the jump otherwise.  Jumps forwards
  are patched, at the width they were written with, to an offset or to an index of the constant table.\<close>

theorem jumps_land:
  assumes "length as \<le> 65536" and "instructions_ok as" and "distinct (started_blocks as)"
    and "\<forall>kind block. EmitJump kind block \<in> set as \<longrightarrow> block \<in> set (started_blocks as)"
  shows "\<exists>g table. emit_steps as (new_generator new_writer) = Some (Inr g) \<and>
    unresolved_forward_jumps g = Map.empty \<and> finish_constants (table_builder g) = Some table \<and>
    (\<forall>pre kind block post pre' post'.
       as = pre @ EmitJump kind block # post \<longrightarrow> as = pre' @ StartBlock block # post' \<longrightarrow>
       (let code = code_bytes (writer g); p = code_length_after pre (new_generator new_writer) in
        execute_jump env registers code table p
        = Some (if jump_taken env registers kind then int (code_length_after pre' (new_generator new_writer))
            else int (snd (the (decode_next code p))))))"
proof -
  define g0 where "g0 = new_generator new_writer"
  have "\<forall>block\<in>set (started_blocks as). block_offsets g0 block = None" by (simp add: g0_def new_generator_def)
  from emit_steps_ok [OF new_jumps_ok [folded g0_def] _ assms(2,3) this] assms(1) obtain g ss us js where
    steps: "emit_steps as g0 = Some (Inr g)" and ok: "jumps_ok g ss js us (length as)"
    and started: "\<forall>block\<in>set (started_blocks as). block_offsets g block \<noteq> None"
    and targets: "\<forall>j\<in>set js. \<exists>kind. EmitJump kind (snd (snd (snd j))) \<in> set as"
    and jumps: "\<And>pre kind block post. as = pre @ EmitJump kind block # post \<Longrightarrow>
       (code_length_after pre g0, jump_opcode kind, jump_registers kind, block) \<in> set js"
    and blocks: "\<And>pre block post. as = pre @ StartBlock block # post \<Longrightarrow> block_offsets g block = Some (code_length_after pre g0)"
    by auto
  have core: "jumps_core g ss js us (length as)" using ok by (simp add: jumps_ok_def)
  then have code: "code_bytes (writer g) = layout 0 ss" and builder: "builder_ok (table_builder g)"
    and reserved: "\<forall>w. reserved (table_builder g) w = length (filter (\<lambda>(_, info). constant_table_width info = w) us)"
    and written: "\<forall>(block, info)\<in>set us. \<exists>op cs. (jump_offset info, op, cs, block) \<in> set js \<and> waits_at ss op cs info"
    and landed: "\<forall>j\<in>set js. jump_ok g ss us j"
    unfolding jumps_core_def by simp_all
  have us: "us = []"
  proof (rule ccontr)
    assume "us \<noteq> []"
    then obtain block info where mem: "(block, info) \<in> set us" by (cases us) auto
    with written obtain op cs where "(jump_offset info, op, cs, block) \<in> set js" by blast
    with targets assms(4) started have "block_offsets g block \<noteq> None" by fastforce
    then show False using ok mem by (auto simp: jumps_ok_def)
  qed
  have "unresolved_forward_jumps g = Map.empty" using ok by (auto simp: jumps_ok_def us waiting_def)
  moreover obtain table where table: "finish_constants (table_builder g) = Some table"
    "\<forall>(e, i)\<in>set (placed (table_builder g)). \<exists>t. table = Some t \<and>
       get_constant t i = Some (case snd (to_value e) of None \<Rightarrow> value_undefined | Some v \<Rightarrow> v)"
    using finish_constants_ok [OF builder] reserved by (fastforce simp: us)
  moreover have "execute_jump env registers (code_bytes (writer g)) table (code_length_after pre g0)
      = Some (if jump_taken env registers kind then int (code_length_after pre' g0)
          else int (snd (the (decode_next (code_bytes (writer g)) (code_length_after pre g0)))))"
    if split: "as = pre @ EmitJump kind block # post" "as = pre' @ StartBlock block # post'" for pre kind block post pre' post'
  proof -
    define p target where "p = code_length_after pre g0" and "target = code_length_after pre' g0"
    have j: "jump_ok g ss [] (p, jump_opcode kind, jump_registers kind, block)"
      using landed jumps [OF split(1)] by (auto simp: us p_def)
    have block: "block_offsets g block = Some target" using blocks [OF split(2)] by (simp add: target_def)
    obtain k where k: "k < length ss" "segment_position ss k = p"
      "\<forall>c\<in>set (jump_registers kind). min_width RegisterType c \<le> fst (ss ! k)"
      using j by (auto simp: jump_ok_def)
    obtain k' where "k' < length ss" "segment_position ss k' = p"
      "lands_at (table_builder g) (ss ! k') p (jump_opcode kind) (jump_registers kind) target"
      using j by (auto simp: jump_ok_def block)
    then have lands: "lands_at (table_builder g) (ss ! k) p (jump_opcode kind) (jump_registers kind) target"
      using segment_position_inj [of k' ss k] k(1,2) by simp
    have small: "code_length g < 2 ^ 63" and "p < code_length g" "target \<le> code_length g"
      using ok assms(1) block jump_before_end [OF core jumps [OF split(1), folded p_def]] by (auto simp: jumps_ok_def)
    then have "p < 2 ^ 63" "target < 2 ^ 63" by linarith+
    from execute_landed [OF k kind_shape lands table(2) this, of env registers] show ?thesis
      unfolding code jump_taken_is p_def [symmetric] target_def [symmetric] .
  qed
  ultimately show ?thesis using steps unfolding g0_def Let_def by blast
qed

lemma jumps_land_witness:
  "\<forall>env :: (unit, unit) environment. \<exists>g table.
     emit_steps [EmitJump Jump 1, EmitJump (JumpTrue 5) 1, StartBlock 1] (new_generator new_writer) = Some (Inr g) \<and>
     finish_constants (table_builder g) = Some table \<and>
     execute_jump env (\<lambda>_. value_bool True) (code_bytes (writer g)) table
         (code_length_after [EmitJump Jump 1] (new_generator new_writer))
       = Some (int (code_length_after [EmitJump Jump 1, EmitJump (JumpTrue 5) 1] (new_generator new_writer)))"
proof
  fix env :: "(unit, unit) environment"
  define as where "as = [EmitJump Jump 1, EmitJump (JumpTrue 5) 1, StartBlock 1]"
  have "length as \<le> 65536" "instructions_ok as" "distinct (started_blocks as)"
    "\<forall>kind block. EmitJump kind block \<in> set as \<longrightarrow> block \<in> set (started_blocks as)"
    by (simp_all add: as_def instructions_ok_def)
  from jumps_land [OF this, of env "\<lambda>_. value_bool True"] obtain g table where
    g: "emit_steps as (new_generator new_writer) = Some (Inr g)" "finish_constants (table_builder g) = Some table"
    and lands: "\<forall>pre kind block post pre' post'.
       as = pre @ EmitJump kind block # post \<longrightarrow> as = pre' @ StartBlock block # post' \<longrightarrow>
       (let code = code_bytes (writer g); p = code_length_after pre (new_generator new_writer) in
        execute_jump env (\<lambda>_. value_bool True) code table p
        = Some (if jump_taken env (\<lambda>_. value_bool True) kind then int (code_length_after pre' (new_generator new_writer))
            else int (snd (the (decode_next code p)))))"
    by blast
  have "as = [EmitJump Jump 1] @ EmitJump (JumpTrue 5) 1 # [StartBlock 1]"
    "as = [EmitJump Jump 1, EmitJump (JumpTrue 5) 1] @ StartBlock 1 # []"
    by (simp_all add: as_def)
  with lands have "execute_jump env (\<lambda>_. value_bool True) (code_bytes (writer g)) table
      (code_length_after [EmitJump Jump 1] (new_generator new_writer))
    = Some (if jump_taken env (\<lambda>_. value_bool True) (JumpTrue 5)
        then int (code_length_after [EmitJump Jump 1, EmitJump (JumpTrue 5) 1] (new_generator new_writer))
        else int (snd (the (decode_next (code_bytes (writer g)) (code_length_after [EmitJump Jump 1] (new_generator new_writer))))))"
    unfolding Let_def by blast
  then have "execute_jump env (\<lambda>_. value_bool True) (code_bytes (writer g)) table
      (code_length_after [EmitJump Jump 1] (new_generator new_writer))
    = Some (int (code_length_after [EmitJump Jump 1, EmitJump (JumpTrue 5) 1] (new_generator new_writer)))"
    by (simp add: jump_taken_def is_true_def)
  with g show "\<exists>g table. emit_steps [EmitJump Jump 1, EmitJump (JumpTrue 5) 1, StartBlock 1] (new_generator new_writer) = Some (Inr g) \<and>
     finish_constants (table_builder g) = Some table \<and>
     execute_jump env (\<lambda>_. value_bool True) (code_bytes (writer g)) table
         (code_length_after [EmitJump Jump 1] (new_generator new_writer))
       = Some (int (code_length_after [EmitJump Jump 1, EmitJump (JumpTrue 5) 1] (new_generator new_writer)))"
    unfolding as_def by blast
qed

text \<open>
  What the range of extra wide constants does instead, beyond 65536 constants: a committed offset is given
  an index, but it is not recorded, so the table has no offset there; and when the offset is already in
  the table its reservation stays, which \<open>finish\<close> asserts against.
\<close>

lemma extra_wide_offset_lost:
  assumes "commit_reserved_bytecode_offset ExtraWide offset b = Some (i, b')"
    and "map_of (constants b) (BytecodeOffset offset) = None"
  shows "placed b' = placed b \<and> i = allocated b ExtraWide + first_index ExtraWide"
  using assms by (auto simp: commit_reserved_bytecode_offset_def Let_def placed_def remove_reserved_def split: Option.bind_splits)

lemma extra_wide_reservation_stays:
  assumes "map_of (constants b) (BytecodeOffset offset) = Some i"
  shows "commit_reserved_bytecode_offset ExtraWide offset b = Some (i, b)"
    and "0 < reserved b ExtraWide \<Longrightarrow> finish_constants b = None"
  using assms by (simp_all add: commit_reserved_bytecode_offset_def finish_constants_def Let_def)

end
