(* ===== verification/Object_Model.thy ===== *)
theory Object_Model
  imports Array_Properties Index_Map Expression
begin

text \<open>
  Objects and what their internal methods work on: property keys (\<open>runtime/property_key.rs\<close>), property
  descriptors (\<open>runtime/property_descriptor.rs\<close>), objects with their named and array properties
  (\<open>runtime/object_value.rs\<close>) and accessors (\<open>runtime/accessor.rs\<close>).

  An object lives at an address, which is also the value that refers to it.  The state of an effect is a
  \<open>world\<close>: the objects, the accessors, and the part \<open>'s\<close> that only scripts change.  An accessor is named
  by its position in a list.  A property holds a value or an accessor, which the code tells apart by
  the kind of the heap item it points to.  The internal methods are called through a table of functions, as
  the code does.
\<close>

section \<open>Effects\<close>

definition effect_return :: "'a \<Rightarrow> ('s, 'e, 'a) effect" where
  "effect_return a s = (Inr a, s)"

definition effect_bind ::
    "('s, 'e, 'a) effect \<Rightarrow> ('a \<Rightarrow> ('s, 'e, 'b) effect) \<Rightarrow> ('s, 'e, 'b) effect" where
  "effect_bind m f s = (case m s of (Inl e, s) \<Rightarrow> (Inl e, s) | (Inr a, s) \<Rightarrow> f a s)"

definition effect_panic :: "('s, 'e, 'a) effect" where
  "effect_panic s = (Inl Panic, s)"

definition effect_option :: "'a option \<Rightarrow> ('s, 'e, 'a) effect" where
  "effect_option x = (case x of None \<Rightarrow> effect_panic | Some a \<Rightarrow> effect_return a)"

section \<open>Property keys\<close>

text \<open>
  A string key is interned, so keys are equal exactly when their strings are.  A symbol is its address.
\<close>

datatype property_key = IndexKey nat | StringKey "u16 list" | SymbolKey u64

definition u32_max :: nat where
  "u32_max = 4294967295"

definition current_decimal_value :: "u16 \<Rightarrow> nat option" where
  "current_decimal_value c = (if 48 \<le> unat c \<and> unat c \<le> 57 then Some (unat c - 48) else None)"

text \<open>The loop of \<open>parse_string_to_u32\<close>, with checked arithmetic.\<close>

fun parse_remaining_digits :: "nat \<Rightarrow> u16 list \<Rightarrow> nat option" where
  "parse_remaining_digits result [] = Some result"
| "parse_remaining_digits result (c # cs) =
     (case current_decimal_value c of
        None \<Rightarrow> None
      | Some digit \<Rightarrow>
          if result * 10 > u32_max then None
          else if result * 10 + digit > u32_max then None
          else parse_remaining_digits (result * 10 + digit) cs)"

definition parse_string_to_u32 :: "u16 list \<Rightarrow> nat option" where
  "parse_string_to_u32 units =
     (case units of
        [] \<Rightarrow> None
      | c # cs \<Rightarrow>
          (case current_decimal_value c of
             None \<Rightarrow> None
           | Some digit \<Rightarrow> if digit = 0 \<and> cs \<noteq> [] then None else parse_remaining_digits digit cs))"

definition property_key_string :: "u16 list \<Rightarrow> property_key" where
  "property_key_string units =
     (case parse_string_to_u32 units of
        None \<Rightarrow> StringKey units
      | Some array_index \<Rightarrow> if array_index = u32_max then StringKey units else IndexKey array_index)"

text \<open>The decimal digits of an integer, as \<open>to_string\<close> of \<open>u32\<close> and \<open>u64\<close> writes them.\<close>

fun decimal_digits :: "nat \<Rightarrow> u16 list" where
  "decimal_digits n = (if n < 10 then [of_nat (48 + n)] else decimal_digits (n div 10) @ [of_nat (48 + n mod 10)])"

declare decimal_digits.simps [simp del]

definition decimal_int :: "int \<Rightarrow> u16 list" where
  "decimal_int i = (if i < 0 then 45 # decimal_digits (nat (- i)) else decimal_digits (nat i))"

definition property_key_array_index :: "nat \<Rightarrow> property_key" where
  "property_key_array_index n = (if n = u32_max then StringKey (decimal_digits n) else IndexKey n)"

definition property_key_from_u64 :: "nat \<Rightarrow> property_key" where
  "property_key_from_u64 n = (if n \<ge> u32_max then StringKey (decimal_digits n) else IndexKey n)"

definition is_array_index :: "property_key \<Rightarrow> bool" where
  "is_array_index key = (case key of IndexKey _ \<Rightarrow> True | _ \<Rightarrow> False)"

definition ascii_units :: "string \<Rightarrow> u16 list" where
  "ascii_units cs = map (\<lambda>c. of_nat (of_char c)) cs"

definition string_key :: "string \<Rightarrow> property_key" where
  "string_key cs = StringKey (ascii_units cs)"

section \<open>Property descriptors\<close>

record property_descriptor =
  desc_value :: "value_bits option"
  desc_writable :: "bool option"
  desc_enumerable :: "bool option"
  desc_configurable :: "bool option"
  desc_has_get :: bool
  desc_has_set :: bool
  desc_get :: "u64 option"
  desc_set :: "u64 option"

definition empty_descriptor :: property_descriptor where
  "empty_descriptor = \<lparr>desc_value = None, desc_writable = None, desc_enumerable = None,
     desc_configurable = None, desc_has_get = False, desc_has_set = False, desc_get = None, desc_set = None\<rparr>"

definition data_descriptor :: "value_bits \<Rightarrow> bool \<Rightarrow> bool \<Rightarrow> bool \<Rightarrow> property_descriptor" where
  "data_descriptor v writable enumerable configurable =
     \<lparr>desc_value = Some v, desc_writable = Some writable, desc_enumerable = Some enumerable,
      desc_configurable = Some configurable, desc_has_get = False, desc_has_set = False,
      desc_get = None, desc_set = None\<rparr>"

definition data_value_only_descriptor :: "value_bits \<Rightarrow> property_descriptor" where
  "data_value_only_descriptor v =
     \<lparr>desc_value = Some v, desc_writable = None, desc_enumerable = None, desc_configurable = None,
      desc_has_get = False, desc_has_set = False, desc_get = None, desc_set = None\<rparr>"

definition accessor_descriptor :: "u64 option \<Rightarrow> u64 option \<Rightarrow> bool \<Rightarrow> bool \<Rightarrow> property_descriptor" where
  "accessor_descriptor getter setter enumerable configurable =
     \<lparr>desc_value = None, desc_writable = None, desc_enumerable = Some enumerable,
      desc_configurable = Some configurable, desc_has_get = True, desc_has_set = True,
      desc_get = getter, desc_set = setter\<rparr>"

definition get_only_descriptor :: "u64 option \<Rightarrow> bool \<Rightarrow> bool \<Rightarrow> property_descriptor" where
  "get_only_descriptor getter enumerable configurable =
     \<lparr>desc_value = None, desc_writable = None, desc_enumerable = Some enumerable,
      desc_configurable = Some configurable, desc_has_get = True, desc_has_set = False,
      desc_get = getter, desc_set = None\<rparr>"

definition set_only_descriptor :: "u64 option \<Rightarrow> bool \<Rightarrow> bool \<Rightarrow> property_descriptor" where
  "set_only_descriptor setter enumerable configurable =
     \<lparr>desc_value = None, desc_writable = None, desc_enumerable = Some enumerable,
      desc_configurable = Some configurable, desc_has_get = False, desc_has_set = True,
      desc_get = None, desc_set = setter\<rparr>"

definition attributes_descriptor :: "bool option \<Rightarrow> bool option \<Rightarrow> bool option \<Rightarrow> property_descriptor" where
  "attributes_descriptor writable enumerable configurable =
     \<lparr>desc_value = None, desc_writable = writable, desc_enumerable = enumerable,
      desc_configurable = configurable, desc_has_get = False, desc_has_set = False,
      desc_get = None, desc_set = None\<rparr>"

definition desc_is_writable :: "property_descriptor \<Rightarrow> bool" where
  "desc_is_writable desc = (case desc_writable desc of None \<Rightarrow> False | Some b \<Rightarrow> b)"

definition desc_is_enumerable :: "property_descriptor \<Rightarrow> bool" where
  "desc_is_enumerable desc = (case desc_enumerable desc of None \<Rightarrow> False | Some b \<Rightarrow> b)"

definition desc_is_configurable :: "property_descriptor \<Rightarrow> bool" where
  "desc_is_configurable desc = (case desc_configurable desc of None \<Rightarrow> False | Some b \<Rightarrow> b)"

definition has_no_fields :: "property_descriptor \<Rightarrow> bool" where
  "has_no_fields desc \<longleftrightarrow> desc_value desc = None \<and> \<not> desc_has_get desc \<and> \<not> desc_has_set desc
     \<and> desc_writable desc = None \<and> desc_enumerable desc = None \<and> desc_configurable desc = None"

definition is_accessor_descriptor :: "property_descriptor \<Rightarrow> bool" where
  "is_accessor_descriptor desc \<longleftrightarrow> desc_has_get desc \<or> desc_has_set desc"

definition is_data_descriptor :: "property_descriptor \<Rightarrow> bool" where
  "is_data_descriptor desc \<longleftrightarrow> desc_value desc \<noteq> None \<or> desc_writable desc \<noteq> None"

definition is_generic_descriptor :: "property_descriptor \<Rightarrow> bool" where
  "is_generic_descriptor desc \<longleftrightarrow> \<not> is_data_descriptor desc \<and> \<not> is_accessor_descriptor desc"

definition or_default :: "'a \<Rightarrow> 'a option \<Rightarrow> 'a option" where
  "or_default a x = (case x of None \<Rightarrow> Some a | Some b \<Rightarrow> Some b)"

definition complete_property_descriptor :: "property_descriptor \<Rightarrow> property_descriptor" where
  "complete_property_descriptor desc =
     (let desc = (if is_generic_descriptor desc \<or> is_data_descriptor desc
                  then desc\<lparr>desc_value := or_default value_undefined (desc_value desc),
                            desc_writable := or_default False (desc_writable desc)\<rparr>
                  else desc) in
      desc\<lparr>desc_enumerable := or_default False (desc_enumerable desc),
           desc_configurable := or_default False (desc_configurable desc)\<rparr>)"

section \<open>Objects\<close>

datatype slot = DataSlot value_bits | AccessorSlot nat

record accessor =
  accessor_get :: "u64 option"
  accessor_set :: "u64 option"

text \<open>
  The kinds of objects that the model tells apart, with their own fields.  Functions have the ordinary
  internal methods.
\<close>

datatype object_kind =
    OrdinaryKind
  | ObjectPrototypeKind
  | ArrayKind (kind_length_writable: bool)
  | ProxyKind (kind_handler: "u64 option") (kind_target: "u64 option")
      (kind_callable: bool) (kind_constructor: bool)

record js_object =
  object_kind :: object_kind
  object_prototype :: "u64 option"
  named_properties :: "(property_key, slot property) index_map"
  array_properties :: "slot array_properties"
  is_extensible_field :: bool

record 's world =
  objects :: "u64 \<Rightarrow> js_object option"
  accessors :: "accessor list"
  next_object :: nat
  script_state :: 's

text \<open>
  What the operations take from elsewhere: the environment of the conversions, the hash functions, the
  strings that are allocated, the text of a double, what calling a constructor does, the prototypes of new
  objects and arrays, the size of the largest allocation, and the wrapper objects of primitive values.
\<close>

record ('s, 'e) object_env =
  base_env :: "('s world, 'e) environment"
  key_hash :: "property_key \<Rightarrow> nat"
  index_hash :: "nat \<Rightarrow> nat"
  new_string :: "u16 list \<Rightarrow> value_bits"
  number_to_string :: "f64 \<Rightarrow> u16 list"
  construct_object :: "u64 \<Rightarrow> value_bits list \<Rightarrow> u64 \<Rightarrow> ('s world, 'e, u64) effect"
  constructor_value :: "value_bits \<Rightarrow> bool"
  intrinsic_object_prototype :: u64
  intrinsic_array_prototype :: u64
  max_allocation :: nat
  wrap_primitive :: "value_bits \<Rightarrow> ('s world, 'e, u64) effect"

type_synonym ('s, 'e, 'a) obj_effect = "('s world, 'e, 'a) effect"

definition throw_type_error :: "('s, 'e) object_env \<Rightarrow> ('s, 'e, 'a) obj_effect" where
  "throw_type_error env w = (Inl (Throw (type_error (base_env env))), w)"

definition throw_range_error :: "('s, 'e) object_env \<Rightarrow> ('s, 'e, 'a) obj_effect" where
  "throw_range_error env w = (Inl (Throw (range_error (base_env env))), w)"

text \<open>The object at an address; a pointer to nothing is undefined behaviour.\<close>

definition read_object :: "u64 \<Rightarrow> ('s, 'e, js_object) obj_effect" where
  "read_object a w = (case objects w a of None \<Rightarrow> (Inl Panic, w) | Some obj \<Rightarrow> (Inr obj, w))"

definition write_object :: "u64 \<Rightarrow> js_object \<Rightarrow> ('s, 'e, unit) obj_effect" where
  "write_object a obj w = (Inr (), w\<lparr>objects := (objects w)(a \<mapsto> obj)\<rparr>)"

definition new_accessor :: "u64 option \<Rightarrow> u64 option \<Rightarrow> ('s, 'e, slot) obj_effect" where
  "new_accessor getter setter w =
     (Inr (AccessorSlot (length (accessors w))),
      w\<lparr>accessors := accessors w @ [\<lparr>accessor_get = getter, accessor_set = setter\<rparr>]\<rparr>)"

text \<open>\<open>Accessor::from_value\<close>: a cast, wrong for any other value.\<close>

definition read_accessor :: "slot \<Rightarrow> ('s, 'e, accessor) obj_effect" where
  "read_accessor v w =
     (case v of
        DataSlot _ \<Rightarrow> (Inl Panic, w)
      | AccessorSlot i \<Rightarrow> if i < length (accessors w) then (Inr (accessors w ! i), w) else (Inl Panic, w))"

definition update_accessor :: "(accessor \<Rightarrow> accessor) \<Rightarrow> slot \<Rightarrow> ('s, 'e, unit) obj_effect" where
  "update_accessor f v w =
     (case v of
        DataSlot _ \<Rightarrow> (Inl Panic, w)
      | AccessorSlot i \<Rightarrow>
          if i < length (accessors w)
          then (Inr (), w\<lparr>accessors := (accessors w)[i := f (accessors w ! i)]\<rparr>) else (Inl Panic, w))"

section \<open>Properties of an object\<close>

definition object_get_property ::
    "('s, 'e) object_env \<Rightarrow> js_object \<Rightarrow> property_key \<Rightarrow> slot property option option" where
  "object_get_property env obj key =
     (case key of
        IndexKey array_index \<Rightarrow> get_property (index_hash env) (array_properties obj) array_index
      | _ \<Rightarrow> index_map_get (key_hash env) (named_properties obj) key)"

text \<open>
  \<open>maybe_grow_for_insertion\<close> of the named properties and \<open>insert_without_growing\<close>.  No iterator outlives
  a change of the named properties, so the map that is left behind is garbage.
\<close>

definition named_properties_insert ::
    "(property_key \<Rightarrow> nat) \<Rightarrow> property_key \<Rightarrow> 'v \<Rightarrow> (property_key, 'v) index_map \<Rightarrow> (property_key, 'v) index_map option" where
  "named_properties_insert hash key v m = do {
     m \<leftarrow> (if num_entries_used m < index_map_capacity m then Some m
           else do {
             old_entries \<leftarrow> index_map_iter m;
             insert_all (index_map_insert_without_growing hash) old_entries
               (new_index_map (index_map_new_capacity m))
           });
     (_, m) \<leftarrow> index_map_insert_without_growing hash key v m;
     Some m
   }"

definition object_set_property ::
    "('s, 'e) object_env \<Rightarrow> property_key \<Rightarrow> slot property \<Rightarrow> js_object \<Rightarrow> js_object option" where
  "object_set_property env key property obj =
     (case key of
        IndexKey array_index \<Rightarrow>
          map_option (\<lambda>a. obj\<lparr>array_properties := a\<rparr>)
            (set_property (index_hash env) array_index property (array_properties obj))
      | _ \<Rightarrow>
          map_option (\<lambda>m. obj\<lparr>named_properties := m\<rparr>)
            (named_properties_insert (key_hash env) key property (named_properties obj)))"

definition object_remove_property ::
    "('s, 'e) object_env \<Rightarrow> property_key \<Rightarrow> js_object \<Rightarrow> js_object option" where
  "object_remove_property env key obj =
     (case key of
        IndexKey array_index \<Rightarrow>
          map_option (\<lambda>a. obj\<lparr>array_properties := a\<rparr>)
            (remove_property (index_hash env) array_index (array_properties obj))
      | _ \<Rightarrow>
          map_option (\<lambda>(_, m). obj\<lparr>named_properties := m\<rparr>)
            (index_map_remove (key_hash env) key (named_properties obj)))"

text \<open>The same for the object at an address.\<close>

definition get_property_at ::
    "('s, 'e) object_env \<Rightarrow> u64 \<Rightarrow> property_key \<Rightarrow> ('s, 'e, slot property option) obj_effect" where
  "get_property_at env a key =
     effect_bind (read_object a) (\<lambda>obj. effect_option (object_get_property env obj key))"

definition set_property_at ::
    "('s, 'e) object_env \<Rightarrow> u64 \<Rightarrow> property_key \<Rightarrow> slot property \<Rightarrow> ('s, 'e, unit) obj_effect" where
  "set_property_at env a key property =
     effect_bind (read_object a) (\<lambda>obj.
     effect_bind (effect_option (object_set_property env key property obj)) (\<lambda>obj. write_object a obj))"

definition remove_property_at ::
    "('s, 'e) object_env \<Rightarrow> u64 \<Rightarrow> property_key \<Rightarrow> ('s, 'e, unit) obj_effect" where
  "remove_property_at env a key =
     effect_bind (read_object a) (\<lambda>obj.
     effect_bind (effect_option (object_remove_property env key obj)) (\<lambda>obj. write_object a obj))"

section \<open>Private elements\<close>

text \<open>Private names are symbols that no script can get hold of; their properties are named ones.\<close>

definition private_element_find ::
    "('s, 'e) object_env \<Rightarrow> u64 \<Rightarrow> u64 \<Rightarrow> ('s, 'e, slot property option) obj_effect" where
  "private_element_find env a private_name = get_property_at env a (SymbolKey private_name)"

definition has_private_element :: "('s, 'e) object_env \<Rightarrow> u64 \<Rightarrow> u64 \<Rightarrow> ('s, 'e, bool) obj_effect" where
  "has_private_element env a private_name =
     effect_bind (read_object a) (\<lambda>obj.
       effect_option (index_map_contains_key (key_hash env) (named_properties obj) (SymbolKey private_name)))"

definition private_element_set ::
    "('s, 'e) object_env \<Rightarrow> u64 \<Rightarrow> u64 \<Rightarrow> value_bits \<Rightarrow> ('s, 'e, unit) obj_effect" where
  "private_element_set env a private_name v =
     set_property_at env a (SymbolKey private_name) (private_field (DataSlot v))"

definition private_property_add ::
    "('s, 'e) object_env \<Rightarrow> u64 \<Rightarrow> u64 \<Rightarrow> slot property \<Rightarrow> ('s, 'e, unit) obj_effect" where
  "private_property_add env a private_name private_property =
     effect_bind (has_private_element env a private_name) (\<lambda>present.
       if present then throw_type_error env
       else set_property_at env a (SymbolKey private_name) private_property)"

section \<open>Strings, keys and lengths\<close>

function to_string :: "('s, 'e) object_env \<Rightarrow> value_bits \<Rightarrow> ('s, 'e, u16 list) obj_effect" where
  "to_string env v w =
     (if is_string (base_env env) v then (Inr (as_string (base_env env) v), w)
      else if is_pointer v then
        (if is_object (base_env env) v then
           (case to_primitive (base_env env) v PreferString w of
              (Inl e, w) \<Rightarrow> (Inl e, w)
            | (Inr primitive_value, w) \<Rightarrow> to_string env primitive_value w)
         else if is_bigint (base_env env) v then (Inr (decimal_int (as_bigint (base_env env) v)), w)
         else throw_type_error env w)
      else if get_tag v = NULL_TAG then (Inr (ascii_units ''null''), w)
      else if get_tag v = UNDEFINED_TAG then (Inr (ascii_units ''undefined''), w)
      else if get_tag v = BOOL_TAG then (Inr (ascii_units (if as_bool v then ''true'' else ''false'')), w)
      else if get_tag v = SMI_TAG then (Inr (decimal_int (sint (as_smi v))), w)
      else (Inr (number_to_string env (as_double v)), w))"
  by pat_completeness auto

termination
  by (relation "measure (\<lambda>(env, v, w). if is_object (base_env env) v then 1 else 0)")
    (auto dest: to_primitive_primitive [OF sym])

declare to_string.simps [simp del]

definition property_key_from_value :: "('s, 'e) object_env \<Rightarrow> value_bits \<Rightarrow> ('s, 'e, property_key) obj_effect" where
  "property_key_from_value env v =
     (let number = as_double v in
      if is_integral_number v \<and> \<not> f64_is_nan number
          \<and> 0 \<le> f64_truncated number \<and> f64_truncated number < int u32_max
      then effect_return (property_key_array_index (nat (f64_truncated number)))
      else if is_symbol (base_env env) v then effect_return (SymbolKey v)
      else effect_bind (to_string env v) (\<lambda>units. effect_return (property_key_string units)))"

definition to_property_key :: "('s, 'e) object_env \<Rightarrow> value_bits \<Rightarrow> ('s, 'e, property_key) obj_effect" where
  "to_property_key env v =
     (if is_smi v \<and> 0 \<le> sint (as_smi v) then effect_return (property_key_array_index (unat (as_smi v)))
      else effect_bind (to_primitive (base_env env) v PreferString) (\<lambda>key.
        if is_string (base_env env) key then effect_return (property_key_string (as_string (base_env env) key))
        else if is_symbol (base_env env) key then effect_return (SymbolKey key)
        else effect_bind (to_string env key) (\<lambda>units. effect_return (property_key_string units))))"

definition property_key_to_value :: "('s, 'e) object_env \<Rightarrow> property_key \<Rightarrow> value_bits" where
  "property_key_to_value env key =
     (case key of
        IndexKey array_index \<Rightarrow> new_string env (decimal_digits array_index)
      | StringKey units \<Rightarrow> new_string env units
      | SymbolKey address \<Rightarrow> address)"

definition MAX_SAFE_INTEGER :: nat where
  "MAX_SAFE_INTEGER = 9007199254740991"

definition to_length :: "('s, 'e) object_env \<Rightarrow> value_bits \<Rightarrow> ('s, 'e, nat) obj_effect" where
  "to_length env v =
     of_number (base_env env) (\<lambda>len.
       if f64_is_nan len \<or> f64_negative len then 0
       else if f64_is_infinite len then MAX_SAFE_INTEGER
       else min (f64_abs_floor len) MAX_SAFE_INTEGER) v"

text \<open>\<open>Vec::with_capacity\<close> of handles; an allocation that is too large ends the program.\<close>

definition vec_with_capacity :: "('s, 'e) object_env \<Rightarrow> nat \<Rightarrow> ('s, 'e, unit) obj_effect" where
  "vec_with_capacity env n = (if 8 * n \<le> max_allocation env then effect_return () else effect_panic)"

section \<open>The table of internal methods\<close>

record ('s, 'e) methods =
  vm_get_own_property :: "u64 \<Rightarrow> property_key \<Rightarrow> ('s, 'e, property_descriptor option) obj_effect"
  vm_define_own_property :: "u64 \<Rightarrow> property_key \<Rightarrow> property_descriptor \<Rightarrow> ('s, 'e, bool) obj_effect"
  vm_has_property :: "u64 \<Rightarrow> property_key \<Rightarrow> ('s, 'e, bool) obj_effect"
  vm_get :: "u64 \<Rightarrow> property_key \<Rightarrow> value_bits \<Rightarrow> ('s, 'e, value_bits) obj_effect"
  vm_set :: "u64 \<Rightarrow> property_key \<Rightarrow> value_bits \<Rightarrow> value_bits \<Rightarrow> ('s, 'e, bool) obj_effect"
  vm_delete :: "u64 \<Rightarrow> property_key \<Rightarrow> ('s, 'e, bool) obj_effect"
  vm_own_property_keys :: "u64 \<Rightarrow> ('s, 'e, value_bits list) obj_effect"
  vm_get_prototype_of :: "u64 \<Rightarrow> ('s, 'e, u64 option) obj_effect"
  vm_set_prototype_of :: "u64 \<Rightarrow> u64 option \<Rightarrow> ('s, 'e, bool) obj_effect"
  vm_is_extensible :: "u64 \<Rightarrow> ('s, 'e, bool) obj_effect"
  vm_prevent_extensions :: "u64 \<Rightarrow> ('s, 'e, bool) obj_effect"

end
