(* ===== verification/Object_Operations.thy ===== *)
theory Object_Operations
  imports Object_Model
begin

text \<open>
  The operations of \<open>runtime/abstract_operations.rs\<close> that only call internal methods, the allocation of
  objects, and the conversions of \<open>runtime/property_descriptor.rs\<close> between descriptors and objects.
\<close>

section \<open>Access\<close>

definition operation_get ::
    "('s, 'e) methods \<Rightarrow> u64 \<Rightarrow> property_key \<Rightarrow> ('s, 'e, value_bits) obj_effect" where
  "operation_get ms object key = vm_get ms object key object"

definition to_object :: "('s, 'e) object_env \<Rightarrow> value_bits \<Rightarrow> ('s, 'e, u64) obj_effect" where
  "to_object env v =
     (if is_object (base_env env) v then effect_return v
      else if is_null v \<or> is_undefined v then throw_type_error env
      else wrap_primitive env v)"

definition get_v ::
    "('s, 'e) object_env \<Rightarrow> ('s, 'e) methods \<Rightarrow> value_bits \<Rightarrow> property_key \<Rightarrow> ('s, 'e, value_bits) obj_effect" where
  "get_v env ms v key = effect_bind (to_object env v) (\<lambda>object. vm_get ms object key v)"

definition operation_set ::
    "('s, 'e) object_env \<Rightarrow> ('s, 'e) methods \<Rightarrow> u64 \<Rightarrow> property_key \<Rightarrow> value_bits \<Rightarrow> bool \<Rightarrow> ('s, 'e, unit) obj_effect" where
  "operation_set env ms object key v should_throw =
     effect_bind (vm_set ms object key v object) (\<lambda>success.
       if \<not> success \<and> should_throw then throw_type_error env else effect_return ())"

definition create_data_property ::
    "('s, 'e) methods \<Rightarrow> u64 \<Rightarrow> property_key \<Rightarrow> value_bits \<Rightarrow> ('s, 'e, bool) obj_effect" where
  "create_data_property ms object key v =
     vm_define_own_property ms object key (data_descriptor v True True True)"

definition create_data_property_or_throw ::
    "('s, 'e) object_env \<Rightarrow> ('s, 'e) methods \<Rightarrow> u64 \<Rightarrow> property_key \<Rightarrow> value_bits \<Rightarrow> ('s, 'e, unit) obj_effect" where
  "create_data_property_or_throw env ms object key v =
     effect_bind (create_data_property ms object key v) (\<lambda>success.
       if \<not> success then throw_type_error env else effect_return ())"

definition define_property_or_throw ::
    "('s, 'e) object_env \<Rightarrow> ('s, 'e) methods \<Rightarrow> u64 \<Rightarrow> property_key \<Rightarrow> property_descriptor \<Rightarrow> ('s, 'e, unit) obj_effect" where
  "define_property_or_throw env ms object key prop_desc =
     effect_bind (vm_define_own_property ms object key prop_desc) (\<lambda>success.
       if \<not> success then throw_type_error env else effect_return ())"

definition create_non_enumerable_data_property_or_throw ::
    "('s, 'e) object_env \<Rightarrow> ('s, 'e) methods \<Rightarrow> u64 \<Rightarrow> property_key \<Rightarrow> value_bits \<Rightarrow> ('s, 'e, unit) obj_effect" where
  "create_non_enumerable_data_property_or_throw env ms object key v =
     must (define_property_or_throw env ms object key (data_descriptor v True False True))"

definition delete_property_or_throw ::
    "('s, 'e) object_env \<Rightarrow> ('s, 'e) methods \<Rightarrow> u64 \<Rightarrow> property_key \<Rightarrow> ('s, 'e, unit) obj_effect" where
  "delete_property_or_throw env ms object key =
     effect_bind (vm_delete ms object key) (\<lambda>success.
       if \<not> success then throw_type_error env else effect_return ())"

definition get_method ::
    "('s, 'e) object_env \<Rightarrow> ('s, 'e) methods \<Rightarrow> value_bits \<Rightarrow> property_key \<Rightarrow> ('s, 'e, u64 option) obj_effect" where
  "get_method env ms v key =
     effect_bind (get_v env ms v key) (\<lambda>func.
       if is_nullish func then effect_return None
       else if \<not> callable (base_env env) func then throw_type_error env
       else effect_return (Some func))"

definition has_own_property ::
    "('s, 'e) methods \<Rightarrow> u64 \<Rightarrow> property_key \<Rightarrow> ('s, 'e, bool) obj_effect" where
  "has_own_property ms object key =
     effect_bind (vm_get_own_property ms object key) (\<lambda>desc. effect_return (desc \<noteq> None))"

text \<open>Calls are made by the virtual machine, a parameter.\<close>

definition call_function ::
    "('s, 'e) object_env \<Rightarrow> u64 \<Rightarrow> value_bits \<Rightarrow> value_bits list \<Rightarrow> ('s, 'e, value_bits) obj_effect" where
  "call_function env func receiver arguments = call_object (base_env env) func receiver arguments"

definition invoke ::
    "('s, 'e) object_env \<Rightarrow> ('s, 'e) methods \<Rightarrow> value_bits \<Rightarrow> property_key \<Rightarrow> value_bits list
      \<Rightarrow> ('s, 'e, value_bits) obj_effect" where
  "invoke env ms v key arguments =
     effect_bind (get_v env ms v key) (\<lambda>func. call_function env func v arguments)"

definition length_of_array_like ::
    "('s, 'e) object_env \<Rightarrow> ('s, 'e) methods \<Rightarrow> u64 \<Rightarrow> ('s, 'e, nat) obj_effect" where
  "length_of_array_like env ms object =
     effect_bind (operation_get ms object (string_key ''length'')) (\<lambda>length_value. to_length env length_value)"

text \<open>The loop of \<open>create_list_from_array_like\<close>; the index is cast to \<open>u32\<close>.\<close>

definition truncate_u32 :: "nat \<Rightarrow> nat" where
  "truncate_u32 n = n mod (u32_max + 1)"

fun list_from_array_like ::
    "('s, 'e) methods \<Rightarrow> u64 \<Rightarrow> nat \<Rightarrow> nat \<Rightarrow> ('s, 'e, value_bits list) obj_effect" where
  "list_from_array_like ms object i 0 w = (Inr [], w)"
| "list_from_array_like ms object i (Suc n) w =
     effect_bind (operation_get ms object (property_key_array_index (truncate_u32 i))) (\<lambda>v.
     effect_bind (list_from_array_like ms object (Suc i) n) (\<lambda>vs. effect_return (v # vs))) w"

definition create_list_from_array_like ::
    "('s, 'e) object_env \<Rightarrow> ('s, 'e) methods \<Rightarrow> value_bits \<Rightarrow> ('s, 'e, value_bits list) obj_effect" where
  "create_list_from_array_like env ms object =
     (if \<not> is_object (base_env env) object then throw_type_error env
      else
        effect_bind (length_of_array_like env ms object) (\<lambda>len.
        effect_bind (vec_with_capacity env len) (\<lambda>_.
        list_from_array_like ms object 0 len)))"

definition setter_that_ignores_prototype_properties ::
    "('s, 'e) object_env \<Rightarrow> ('s, 'e) methods \<Rightarrow> value_bits \<Rightarrow> u64 \<Rightarrow> property_key \<Rightarrow> value_bits
      \<Rightarrow> ('s, 'e, unit) obj_effect" where
  "setter_that_ignores_prototype_properties env ms this_value home_object key v =
     (if \<not> is_object (base_env env) this_value then throw_type_error env
      else if this_value = home_object then throw_type_error env
      else effect_bind (vm_get_own_property ms this_value key) (\<lambda>descriptor.
        if descriptor = None then create_data_property_or_throw env ms this_value key v
        else operation_set env ms this_value key v True))"

section \<open>Private names\<close>

definition is_private_field :: "'v property \<Rightarrow> bool" where
  "is_private_field p = flags_contain (property_flags p) IS_PRIVATE_FIELD"

definition is_private_method :: "'v property \<Rightarrow> bool" where
  "is_private_method p = flags_contain (property_flags p) IS_PRIVATE_METHOD"

definition is_private_accessor :: "'v property \<Rightarrow> bool" where
  "is_private_accessor p = flags_contain (property_flags p) IS_PRIVATE_ACCESSOR"

text \<open>The value of a field or a method.\<close>

definition slot_value :: "slot \<Rightarrow> ('s, 'e, value_bits) obj_effect" where
  "slot_value v = (case v of DataSlot bits \<Rightarrow> effect_return bits | AccessorSlot _ \<Rightarrow> effect_panic)"

definition private_get :: "('s, 'e) object_env \<Rightarrow> u64 \<Rightarrow> u64 \<Rightarrow> ('s, 'e, value_bits) obj_effect" where
  "private_get env object private_name =
     effect_bind (private_element_find env object private_name) (\<lambda>found.
       case found of
         None \<Rightarrow> throw_type_error env
       | Some property \<Rightarrow>
           if \<not> is_private_accessor property then slot_value (property_value property)
           else effect_bind (read_accessor (property_value property)) (\<lambda>accessor.
             case accessor_get accessor of
               None \<Rightarrow> throw_type_error env
             | Some getter \<Rightarrow> call_function env getter object []))"

definition private_set ::
    "('s, 'e) object_env \<Rightarrow> u64 \<Rightarrow> u64 \<Rightarrow> value_bits \<Rightarrow> ('s, 'e, unit) obj_effect" where
  "private_set env object private_name v =
     effect_bind (private_element_find env object private_name) (\<lambda>found.
       case found of
         None \<Rightarrow> throw_type_error env
       | Some property \<Rightarrow>
           if is_private_field property then private_element_set env object private_name v
           else if is_private_method property then throw_type_error env
           else effect_bind (read_accessor (property_value property)) (\<lambda>accessor.
             case accessor_set accessor of
               None \<Rightarrow> throw_type_error env
             | Some setter \<Rightarrow> effect_bind (call_function env setter object [v]) (\<lambda>_. effect_return ())))"

section \<open>New objects\<close>

text \<open>Objects are allocated one after the other; \<open>object_ordinary_init\<close> gives them no properties.\<close>

definition object_address :: "nat \<Rightarrow> u64" where
  "object_address n = of_nat (8 * n)"

definition initial_object :: "object_kind \<Rightarrow> u64 option \<Rightarrow> js_object" where
  "initial_object kind proto =
     \<lparr>object_kind = kind, object_prototype = proto, named_properties = new_index_map 0,
      array_properties = DenseArray 0 [], is_extensible_field = True\<rparr>"

definition object_create_with_optional_proto ::
    "object_kind \<Rightarrow> u64 option \<Rightarrow> ('s, 'e, u64) obj_effect" where
  "object_create_with_optional_proto kind proto w =
     (let a = object_address (next_object w) in
      (Inr a, w\<lparr>objects := (objects w)(a \<mapsto> initial_object kind proto), next_object := Suc (next_object w)\<rparr>))"

definition ordinary_object_create :: "('s, 'e) object_env \<Rightarrow> ('s, 'e, u64) obj_effect" where
  "ordinary_object_create env =
     object_create_with_optional_proto OrdinaryKind (Some (intrinsic_object_prototype env))"

section \<open>Descriptors and objects\<close>

definition when_present :: "'a option \<Rightarrow> ('a \<Rightarrow> ('s, 'e, unit) obj_effect) \<Rightarrow> ('s, 'e, unit) obj_effect" where
  "when_present x f = (case x of None \<Rightarrow> effect_return () | Some a \<Rightarrow> f a)"

definition function_or_undefined :: "u64 option \<Rightarrow> value_bits" where
  "function_or_undefined f = (case f of None \<Rightarrow> value_undefined | Some a \<Rightarrow> a)"

definition from_property_descriptor ::
    "('s, 'e) object_env \<Rightarrow> ('s, 'e) methods \<Rightarrow> property_descriptor \<Rightarrow> ('s, 'e, u64) obj_effect" where
  "from_property_descriptor env ms desc =
     effect_bind (ordinary_object_create env) (\<lambda>object.
     let create = (\<lambda>name v. must (create_data_property_or_throw env ms object (string_key name) v)) in
     effect_bind (when_present (desc_value desc) (create ''value'')) (\<lambda>_.
     effect_bind (when_present (desc_writable desc) (\<lambda>b. create ''writable'' (value_bool b))) (\<lambda>_.
     effect_bind (if desc_has_get desc then create ''get'' (function_or_undefined (desc_get desc))
                  else effect_return ()) (\<lambda>_.
     effect_bind (if desc_has_set desc then create ''set'' (function_or_undefined (desc_set desc))
                  else effect_return ()) (\<lambda>_.
     effect_bind (when_present (desc_enumerable desc) (\<lambda>b. create ''enumerable'' (value_bool b))) (\<lambda>_.
     effect_bind (when_present (desc_configurable desc) (\<lambda>b. create ''configurable'' (value_bool b))) (\<lambda>_.
     effect_return object)))))))"

text \<open>A field of the object, if it has it.\<close>

definition descriptor_field ::
    "('s, 'e) methods \<Rightarrow> u64 \<Rightarrow> string \<Rightarrow> ('s, 'e, value_bits option) obj_effect" where
  "descriptor_field ms object name =
     effect_bind (vm_has_property ms object (string_key name)) (\<lambda>present.
       if present then effect_bind (operation_get ms object (string_key name)) (\<lambda>v. effect_return (Some v))
       else effect_return None)"

definition function_field ::
    "('s, 'e) object_env \<Rightarrow> value_bits option \<Rightarrow> ('s, 'e, u64 option) obj_effect" where
  "function_field env field =
     (case field of
        None \<Rightarrow> effect_return None
      | Some v \<Rightarrow>
          if \<not> callable (base_env env) v \<and> \<not> is_undefined v then throw_type_error env
          else effect_return (if callable (base_env env) v then Some v else None))"

definition to_property_descriptor ::
    "('s, 'e) object_env \<Rightarrow> ('s, 'e) methods \<Rightarrow> value_bits \<Rightarrow> ('s, 'e, property_descriptor) obj_effect" where
  "to_property_descriptor env ms object =
     (if \<not> is_object (base_env env) object then throw_type_error env
      else
        effect_bind (descriptor_field ms object ''enumerable'') (\<lambda>enumerable.
        effect_bind (descriptor_field ms object ''configurable'') (\<lambda>configurable.
        effect_bind (descriptor_field ms object ''value'') (\<lambda>v.
        effect_bind (descriptor_field ms object ''writable'') (\<lambda>writable.
        effect_bind (descriptor_field ms object ''get'') (\<lambda>get_field.
        effect_bind (function_field env get_field) (\<lambda>getter.
        effect_bind (descriptor_field ms object ''set'') (\<lambda>set_field.
        effect_bind (function_field env set_field) (\<lambda>setter.
        let desc = \<lparr>desc_value = v, desc_writable = map_option (to_boolean (base_env env)) writable,
              desc_enumerable = map_option (to_boolean (base_env env)) enumerable,
              desc_configurable = map_option (to_boolean (base_env env)) configurable,
              desc_has_get = (get_field \<noteq> None), desc_has_set = (set_field \<noteq> None),
              desc_get = getter, desc_set = setter\<rparr> in
        if (desc_has_get desc \<or> desc_has_set desc) \<and> (desc_value desc \<noteq> None \<or> desc_writable desc \<noteq> None)
        then throw_type_error env else effect_return desc)))))))))"

end
