(* ===== verification/Ordinary_Object.thy ===== *)
theory Ordinary_Object
  imports Object_Operations
begin

text \<open>
  \<open>runtime/ordinary_object.rs\<close>: the internal methods of ordinary objects, on which those of arrays and of
  most other objects fall back.
\<close>

section \<open>Own properties\<close>

definition ordinary_get_own_property ::
    "('s, 'e) object_env \<Rightarrow> u64 \<Rightarrow> property_key \<Rightarrow> ('s, 'e, property_descriptor option) obj_effect" where
  "ordinary_get_own_property env object key =
     effect_bind (get_property_at env object key) (\<lambda>found.
       case found of
         None \<Rightarrow> effect_return None
       | Some property \<Rightarrow>
           (case property_value property of
              AccessorSlot i \<Rightarrow>
                effect_bind (read_accessor (AccessorSlot i)) (\<lambda>accessor.
                  effect_return (Some (accessor_descriptor (accessor_get accessor) (accessor_set accessor)
                    (is_enumerable property) (is_configurable property))))
            | DataSlot v \<Rightarrow>
                effect_return (Some (data_descriptor v (is_writable property) (is_enumerable property)
                  (is_configurable property)))))"

text \<open>The property of a descriptor for a key that has none yet.\<close>

definition property_of_descriptor ::
    "property_descriptor \<Rightarrow> ('s, 'e, slot property) obj_effect" where
  "property_of_descriptor desc =
     (let enumerable = desc_is_enumerable desc; configurable = desc_is_configurable desc in
      if is_accessor_descriptor desc then
        effect_bind (new_accessor (desc_get desc) (desc_set desc)) (\<lambda>accessor_value.
          effect_return (accessor_property accessor_value enumerable configurable))
      else
        effect_return (data_property
          (DataSlot (case desc_value desc of None \<Rightarrow> value_undefined | Some v \<Rightarrow> v))
          (desc_is_writable desc) enumerable configurable))"

text \<open>A getter or setter that is given but is not the present one.\<close>

definition other_function :: "bool \<Rightarrow> u64 option \<Rightarrow> u64 option \<Rightarrow> bool" where
  "other_function given f current \<longleftrightarrow> given \<and> f \<noteq> current"

text \<open>The conversion of a data property to an accessor property or back, before its fields are set.\<close>

definition convert_property ::
    "('s, 'e) object_env \<Rightarrow> u64 \<Rightarrow> property_key \<Rightarrow> property_descriptor \<Rightarrow> ('s, 'e, unit) obj_effect" where
  "convert_property env object key desc =
     effect_bind (get_property_at env object key) (\<lambda>found.
       case found of
         None \<Rightarrow> effect_panic
       | Some property \<Rightarrow>
           effect_bind
             (if is_data_descriptor desc
              then effect_return (set_is_writable False (property\<lparr>property_value := DataSlot value_undefined\<rparr>))
              else effect_bind (new_accessor None None) (\<lambda>accessor_value.
                effect_return (property\<lparr>property_value := accessor_value\<rparr>)))
             (\<lambda>property. set_property_at env object key property))"

text \<open>The fields of the descriptor are set in the property; those of its accessor in place.\<close>

definition set_given :: "'a option \<Rightarrow> ('a \<Rightarrow> 'p \<Rightarrow> 'p) \<Rightarrow> 'p \<Rightarrow> 'p" where
  "set_given x f p = (case x of None \<Rightarrow> p | Some a \<Rightarrow> f a p)"

definition apply_descriptor ::
    "('s, 'e) object_env \<Rightarrow> u64 \<Rightarrow> property_key \<Rightarrow> property_descriptor \<Rightarrow> ('s, 'e, unit) obj_effect" where
  "apply_descriptor env object key desc =
     effect_bind (get_property_at env object key) (\<lambda>found.
       case found of
         None \<Rightarrow> effect_panic
       | Some property \<Rightarrow>
           (let property = set_given (desc_configurable desc) set_is_configurable
                  (set_given (desc_enumerable desc) set_is_enumerable property) in
            if is_data_descriptor desc then
              set_property_at env object key
                (set_given (desc_value desc) (\<lambda>v p. p\<lparr>property_value := DataSlot v\<rparr>)
                  (set_given (desc_writable desc) set_is_writable property))
            else
              effect_bind (if desc_has_get desc
                then update_accessor (\<lambda>a. a\<lparr>accessor_get := desc_get desc\<rparr>) (property_value property)
                else effect_return ()) (\<lambda>_.
              effect_bind (if desc_has_set desc
                then update_accessor (\<lambda>a. a\<lparr>accessor_set := desc_set desc\<rparr>) (property_value property)
                else effect_return ()) (\<lambda>_.
              set_property_at env object key property))))"

text \<open>What a property that is not configurable does not allow.\<close>

definition value_differs ::
    "('s, 'e) object_env \<Rightarrow> value_bits option \<Rightarrow> value_bits option \<Rightarrow> ('s, 'e, bool) obj_effect" where
  "value_differs env given current =
     (case given of
        None \<Rightarrow> effect_return False
      | Some v \<Rightarrow>
          (case current of
             None \<Rightarrow> effect_panic
           | Some c \<Rightarrow> effect_return (\<not> same_value (base_env env) v c)))"

definition validate_and_apply_property_descriptor ::
    "('s, 'e) object_env \<Rightarrow> u64 option \<Rightarrow> property_key \<Rightarrow> bool \<Rightarrow> property_descriptor
      \<Rightarrow> property_descriptor option \<Rightarrow> ('s, 'e, bool) obj_effect" where
  "validate_and_apply_property_descriptor env object key is_extensible desc current_desc =
     (case current_desc of
        None \<Rightarrow>
          if \<not> is_extensible then effect_return False
          else (case object of
            None \<Rightarrow> effect_return True
          | Some object \<Rightarrow>
              effect_bind (property_of_descriptor desc) (\<lambda>property.
              effect_bind (set_property_at env object key property) (\<lambda>_. effect_return True)))
      | Some current \<Rightarrow>
          (let fixed = \<not> desc_is_configurable current;
               apply_it = (case object of
                 None \<Rightarrow> effect_return True
               | Some object \<Rightarrow> effect_bind (apply_descriptor env object key desc) (\<lambda>_. effect_return True)) in
           if has_no_fields desc then effect_return True
           else if fixed \<and> desc_configurable desc = Some True then effect_return False
           else if fixed \<and> (\<exists>b. desc_enumerable desc = Some b \<and> b \<noteq> desc_is_enumerable current)
           then effect_return False
           else if is_generic_descriptor desc then apply_it
           else if is_data_descriptor current \<noteq> is_data_descriptor desc then
             (if fixed then effect_return False
              else (case object of
                None \<Rightarrow> effect_return True
              | Some object \<Rightarrow>
                  effect_bind (convert_property env object key desc) (\<lambda>_. apply_it)))
           else if is_data_descriptor current \<and> is_data_descriptor desc then
             (if fixed \<and> \<not> desc_is_writable current then
                (if desc_writable desc = Some True then effect_return False
                 else effect_bind (value_differs env (desc_value desc) (desc_value current)) (\<lambda>differs.
                   effect_return (\<not> differs)))
              else apply_it)
           else
             (if fixed then
                effect_return (\<not> other_function (desc_has_get desc) (desc_get desc) (desc_get current)
                  \<and> \<not> other_function (desc_has_set desc) (desc_set desc) (desc_set current))
              else apply_it)))"

definition ordinary_define_own_property ::
    "('s, 'e) object_env \<Rightarrow> ('s, 'e) methods \<Rightarrow> u64 \<Rightarrow> property_key \<Rightarrow> property_descriptor \<Rightarrow> ('s, 'e, bool) obj_effect" where
  "ordinary_define_own_property env ms object key desc =
     effect_bind (vm_get_own_property ms object key) (\<lambda>current_desc.
     effect_bind (vm_is_extensible ms object) (\<lambda>is_extensible.
     validate_and_apply_property_descriptor env (Some object) key is_extensible desc current_desc))"

definition is_compatible_property_descriptor ::
    "('s, 'e) object_env \<Rightarrow> bool \<Rightarrow> property_descriptor \<Rightarrow> property_descriptor option \<Rightarrow> ('s, 'e, bool) obj_effect" where
  "is_compatible_property_descriptor env is_extensible desc current_desc =
     validate_and_apply_property_descriptor env None (StringKey []) is_extensible desc current_desc"

definition ordinary_delete ::
    "('s, 'e) object_env \<Rightarrow> ('s, 'e) methods \<Rightarrow> u64 \<Rightarrow> property_key \<Rightarrow> ('s, 'e, bool) obj_effect" where
  "ordinary_delete env ms object key =
     effect_bind (vm_get_own_property ms object key) (\<lambda>desc.
       case desc of
         None \<Rightarrow> effect_return True
       | Some desc \<Rightarrow>
           if desc_is_configurable desc
           then effect_bind (remove_property_at env object key) (\<lambda>_. effect_return True)
           else effect_return False)"

section \<open>Access along the prototype chain\<close>

definition ordinary_has_property ::
    "('s, 'e) object_env \<Rightarrow> ('s, 'e) methods \<Rightarrow> u64 \<Rightarrow> property_key \<Rightarrow> ('s, 'e, bool) obj_effect" where
  "ordinary_has_property env ms object key =
     effect_bind (vm_get_own_property ms object key) (\<lambda>own_property.
       if own_property \<noteq> None then effect_return True
       else effect_bind (vm_get_prototype_of ms object) (\<lambda>parent.
         case parent of
           Some parent \<Rightarrow> vm_has_property ms parent key
         | None \<Rightarrow> effect_return False))"

definition ordinary_get ::
    "('s, 'e) object_env \<Rightarrow> ('s, 'e) methods \<Rightarrow> u64 \<Rightarrow> property_key \<Rightarrow> value_bits \<Rightarrow> ('s, 'e, value_bits) obj_effect" where
  "ordinary_get env ms object key receiver =
     effect_bind (vm_get_own_property ms object key) (\<lambda>desc.
       case desc of
         None \<Rightarrow>
           effect_bind (vm_get_prototype_of ms object) (\<lambda>parent.
             case parent of
               None \<Rightarrow> effect_return value_undefined
             | Some parent \<Rightarrow> vm_get ms parent key receiver)
       | Some desc \<Rightarrow>
           if is_data_descriptor desc then effect_option (desc_value desc)
           else (case desc_get desc of
             None \<Rightarrow> effect_return value_undefined
           | Some getter \<Rightarrow> call_function env getter receiver []))"

text \<open>A value is set in a data property that the receiver has, or in a new one.\<close>

definition set_on_receiver ::
    "('s, 'e) object_env \<Rightarrow> ('s, 'e) methods \<Rightarrow> property_key \<Rightarrow> value_bits \<Rightarrow> value_bits \<Rightarrow> ('s, 'e, bool) obj_effect" where
  "set_on_receiver env ms key v receiver =
     (if \<not> is_object (base_env env) receiver then effect_return False
      else effect_bind (vm_get_own_property ms receiver key) (\<lambda>existing_descriptor.
        case existing_descriptor of
          None \<Rightarrow> create_data_property ms receiver key v
        | Some existing_descriptor \<Rightarrow>
            if is_accessor_descriptor existing_descriptor then effect_return False
            else if desc_writable existing_descriptor = Some False then effect_return False
            else vm_define_own_property ms receiver key (data_value_only_descriptor v)))"

definition set_with_own_descriptor ::
    "('s, 'e) object_env \<Rightarrow> ('s, 'e) methods \<Rightarrow> property_key \<Rightarrow> value_bits \<Rightarrow> value_bits \<Rightarrow> property_descriptor
      \<Rightarrow> ('s, 'e, bool) obj_effect" where
  "set_with_own_descriptor env ms key v receiver own_desc =
     (if is_data_descriptor own_desc then
        (if desc_writable own_desc = Some False then effect_return False
         else set_on_receiver env ms key v receiver)
      else (case desc_set own_desc of
        None \<Rightarrow> effect_return False
      | Some setter \<Rightarrow> effect_bind (call_function env setter receiver [v]) (\<lambda>_. effect_return True)))"

definition ordinary_set ::
    "('s, 'e) object_env \<Rightarrow> ('s, 'e) methods \<Rightarrow> u64 \<Rightarrow> property_key \<Rightarrow> value_bits \<Rightarrow> value_bits \<Rightarrow> ('s, 'e, bool) obj_effect" where
  "ordinary_set env ms object key v receiver =
     effect_bind (vm_get_own_property ms object key) (\<lambda>own_desc.
       case own_desc of
         None \<Rightarrow>
           effect_bind (vm_get_prototype_of ms object) (\<lambda>parent.
             case parent of
               None \<Rightarrow> set_with_own_descriptor env ms key v receiver
                 (data_descriptor value_undefined True True True)
             | Some parent \<Rightarrow> vm_set ms parent key v receiver)
       | Some own_desc \<Rightarrow> set_with_own_descriptor env ms key v receiver own_desc)"

section \<open>Keys\<close>

text \<open>
  The indices of the array properties, in order, as strings; a cell that was never written is read
  as it is.
\<close>

definition own_indices :: "slot array_properties \<Rightarrow> nat list option" where
  "own_indices a =
     (case a of
        DenseArray len cells \<Rightarrow> do {
          cells \<leftarrow> vec_slice cells 0 len;
          if Uninit \<in> set cells then None
          else Some (map fst (filter (\<lambda>(i, c). c \<noteq> Hole) (enumerate 0 cells)))
        }
      | SparseArray len m \<Rightarrow> Some (ordered_keys m))"

definition ordinary_filtered_own_indexed_property_keys ::
    "('s, 'e) object_env \<Rightarrow> (nat \<Rightarrow> bool) \<Rightarrow> js_object \<Rightarrow> value_bits list option" where
  "ordinary_filtered_own_indexed_property_keys env filter_index obj = do {
     indices \<leftarrow> own_indices (array_properties obj);
     Some (map (\<lambda>i. new_string env (decimal_digits i)) (filter filter_index indices))
   }"

definition ordinary_own_string_symbol_property_keys ::
    "('s, 'e) object_env \<Rightarrow> js_object \<Rightarrow> value_bits list option" where
  "ordinary_own_string_symbol_property_keys env obj = do {
     entries \<leftarrow> index_map_iter (named_properties obj);
     Some (concat (map (\<lambda>(key, _). case key of StringKey units \<Rightarrow> [new_string env units] | _ \<Rightarrow> []) entries)
       @ concat (map (\<lambda>(key, property). case key of
           SymbolKey a \<Rightarrow> if is_private property then [] else [a] | _ \<Rightarrow> []) entries))
   }"

definition ordinary_own_property_keys ::
    "('s, 'e) object_env \<Rightarrow> u64 \<Rightarrow> ('s, 'e, value_bits list) obj_effect" where
  "ordinary_own_property_keys env object =
     effect_bind (read_object object) (\<lambda>obj.
     effect_bind (effect_option (ordinary_filtered_own_indexed_property_keys env (\<lambda>_. True) obj)) (\<lambda>indices.
     effect_bind (effect_option (ordinary_own_string_symbol_property_keys env obj)) (\<lambda>names.
     effect_return (indices @ names))))"

section \<open>Prototypes and extensibility\<close>

definition ordinary_get_prototype_of :: "u64 \<Rightarrow> ('s, 'e, u64 option) obj_effect" where
  "ordinary_get_prototype_of object =
     effect_bind (read_object object) (\<lambda>obj. effect_return (object_prototype obj))"

definition ordinary_is_extensible :: "u64 \<Rightarrow> ('s, 'e, bool) obj_effect" where
  "ordinary_is_extensible object =
     effect_bind (read_object object) (\<lambda>obj. effect_return (is_extensible_field obj))"

definition ordinary_prevent_extensions :: "u64 \<Rightarrow> ('s, 'e, bool) obj_effect" where
  "ordinary_prevent_extensions object =
     effect_bind (read_object object) (\<lambda>obj.
     effect_bind (write_object object (obj\<lparr>is_extensible_field := False\<rparr>)) (\<lambda>_. effect_return True))"

definition is_proxy :: "js_object \<Rightarrow> bool" where
  "is_proxy obj = (case object_kind obj of ProxyKind _ _ _ _ \<Rightarrow> True | _ \<Rightarrow> False)"

text \<open>
  The loop that looks for the object in the chain of its new prototype, up to the first proxy: \<open>None\<close>
  when it never ends.
\<close>

partial_function (option) chain_reaches ::
    "(u64 \<Rightarrow> js_object option) \<Rightarrow> u64 \<Rightarrow> u64 option \<Rightarrow> bool option" where
  "chain_reaches objs object current_prototype =
     (case current_prototype of
        None \<Rightarrow> Some False
      | Some current_proto \<Rightarrow>
          if current_proto = object then Some True
          else (case objs current_proto of
            None \<Rightarrow> None
          | Some obj \<Rightarrow> if is_proxy obj then Some False else chain_reaches objs object (object_prototype obj)))"

definition ordinary_set_prototype_of ::
    "u64 \<Rightarrow> u64 option \<Rightarrow> ('s, 'e, bool) obj_effect" where
  "ordinary_set_prototype_of object new_prototype w =
     effect_bind (read_object object) (\<lambda>obj.
       if object_prototype obj = new_prototype then effect_return True
       else if object_kind obj = ObjectPrototypeKind then effect_return False
       else if \<not> is_extensible_field obj then effect_return False
       else effect_bind (effect_option (chain_reaches (objects w) object new_prototype)) (\<lambda>reached.
         if reached then effect_return False
         else effect_bind (write_object object (obj\<lparr>object_prototype := new_prototype\<rparr>)) (\<lambda>_.
           effect_return True))) w"

end
