(* ===== verification/Array_Object.thy ===== *)
theory Array_Object
  imports Ordinary_Object
begin

text \<open>
  \<open>runtime/array_object.rs\<close>: arrays, whose length is that of their array properties and whose other
  properties are ordinary ones, and their creation.
\<close>

section \<open>Internal methods\<close>

definition length_key :: property_key where
  "length_key = string_key ''length''"

definition is_length_writable :: "js_object \<Rightarrow> bool" where
  "is_length_writable obj = (case object_kind obj of ArrayKind writable \<Rightarrow> writable | _ \<Rightarrow> False)"

definition array_properties_length :: "js_object \<Rightarrow> nat" where
  "array_properties_length obj = array_length (array_properties obj)"

text \<open>\<open>set_array_properties_length\<close>: whether all properties above the new length were deleted.\<close>

definition set_array_properties_length ::
    "('s, 'e) object_env \<Rightarrow> u64 \<Rightarrow> nat \<Rightarrow> ('s, 'e, bool) obj_effect" where
  "set_array_properties_length env array new_length =
     effect_bind (read_object array) (\<lambda>obj.
     effect_bind (effect_option (set_len (index_hash env) new_length (array_properties obj))) (\<lambda>(success, a).
     effect_bind (write_object array (obj\<lparr>array_properties := a\<rparr>)) (\<lambda>_. effect_return success)))"

definition requested_length ::
    "('s, 'e) object_env \<Rightarrow> u64 \<Rightarrow> property_descriptor \<Rightarrow> ('s, 'e, nat) obj_effect" where
  "requested_length env array desc =
     effect_bind (read_object array) (\<lambda>obj.
       case desc_value desc of
         None \<Rightarrow> effect_return (array_properties_length obj)
       | Some v \<Rightarrow>
           effect_bind (to_uint32 (base_env env) v) (\<lambda>new_len.
           effect_bind (to_number (base_env env) v) (\<lambda>number_len.
             if \<not> f64_eq (f64_of_int (int (unat new_len))) (as_number number_len)
             then throw_range_error env else effect_return (unat new_len))))"

definition array_set_length ::
    "('s, 'e) object_env \<Rightarrow> u64 \<Rightarrow> property_descriptor \<Rightarrow> ('s, 'e, bool) obj_effect" where
  "array_set_length env array desc =
     effect_bind (requested_length env array desc) (\<lambda>new_len.
       if desc_configurable desc = Some True then effect_return False
       else if desc_enumerable desc = Some True then effect_return False
       else if is_accessor_descriptor desc then effect_return False
       else effect_bind (read_object array) (\<lambda>obj.
         if \<not> is_length_writable obj \<and> desc_writable desc = Some True then effect_return False
         else if \<not> is_length_writable obj \<and> new_len \<noteq> array_properties_length obj then effect_return False
         else
           effect_bind (set_array_properties_length env array new_len) (\<lambda>has_delete_succeeded.
           effect_bind (if desc_writable desc = Some False
             then effect_bind (read_object array) (\<lambda>obj.
               write_object array (obj\<lparr>object_kind := ArrayKind False\<rparr>))
             else effect_return ()) (\<lambda>_.
           effect_return has_delete_succeeded))))"

definition array_define_own_property ::
    "('s, 'e) object_env \<Rightarrow> ('s, 'e) methods \<Rightarrow> u64 \<Rightarrow> property_key \<Rightarrow> property_descriptor \<Rightarrow> ('s, 'e, bool) obj_effect" where
  "array_define_own_property env ms array key desc =
     (case key of
        IndexKey array_index \<Rightarrow>
          effect_bind (read_object array) (\<lambda>obj.
            if array_properties_length obj \<le> array_index \<and> \<not> is_length_writable obj then effect_return False
            else must (ordinary_define_own_property env ms array key desc))
      | _ \<Rightarrow>
          if key = length_key then array_set_length env array desc
          else ordinary_define_own_property env ms array key desc)"

definition array_get_own_property ::
    "('s, 'e) object_env \<Rightarrow> u64 \<Rightarrow> property_key \<Rightarrow> ('s, 'e, property_descriptor option) obj_effect" where
  "array_get_own_property env array key =
     (if key = length_key then
        effect_bind (read_object array) (\<lambda>obj.
          effect_return (Some (data_descriptor (value_of_u32 (of_nat (array_properties_length obj)))
            (is_length_writable obj) False False)))
      else ordinary_get_own_property env array key)"

definition array_delete ::
    "('s, 'e) object_env \<Rightarrow> ('s, 'e) methods \<Rightarrow> u64 \<Rightarrow> property_key \<Rightarrow> ('s, 'e, bool) obj_effect" where
  "array_delete env ms array key =
     (if key = length_key then effect_return False else ordinary_delete env ms array key)"

definition array_own_property_keys ::
    "('s, 'e) object_env \<Rightarrow> u64 \<Rightarrow> ('s, 'e, value_bits list) obj_effect" where
  "array_own_property_keys env array =
     effect_bind (read_object array) (\<lambda>obj.
     effect_bind (effect_option (ordinary_filtered_own_indexed_property_keys env (\<lambda>_. True) obj)) (\<lambda>indices.
     effect_bind (effect_option (ordinary_own_string_symbol_property_keys env obj)) (\<lambda>names.
     effect_return (indices @ [new_string env (ascii_units ''length'')] @ names))))"

section \<open>Creation\<close>

definition array_create ::
    "('s, 'e) object_env \<Rightarrow> ('s, 'e) methods \<Rightarrow> nat \<Rightarrow> u64 option \<Rightarrow> ('s, 'e, u64) obj_effect" where
  "array_create env ms len proto =
     (if len > u32_max then throw_range_error env
      else
        effect_bind (object_create_with_optional_proto (ArrayKind True)
          (Some (case proto of None \<Rightarrow> intrinsic_array_prototype env | Some p \<Rightarrow> p))) (\<lambda>array.
        effect_bind (must (array_define_own_property env ms array length_key
          (data_descriptor (value_of_u32 (of_nat len)) True False False))) (\<lambda>_.
        effect_return array)))"

fun append_elements ::
    "('s, 'e) object_env \<Rightarrow> ('s, 'e) methods \<Rightarrow> u64 \<Rightarrow> nat \<Rightarrow> value_bits list \<Rightarrow> ('s, 'e, unit) obj_effect" where
  "append_elements env ms array index [] w = (Inr (), w)"
| "append_elements env ms array index (element # elements) w =
     effect_bind (must (create_data_property_or_throw env ms array
       (property_key_array_index (truncate_u32 index)) element)) (\<lambda>_.
     append_elements env ms array (Suc index) elements) w"

definition create_array_from_list ::
    "('s, 'e) object_env \<Rightarrow> ('s, 'e) methods \<Rightarrow> value_bits list \<Rightarrow> ('s, 'e, u64) obj_effect" where
  "create_array_from_list env ms elements =
     effect_bind (must (array_create env ms 0 None)) (\<lambda>array.
     effect_bind (append_elements env ms array 0 elements) (\<lambda>_. effect_return array))"

text \<open>
  \<open>is_array\<close>, through proxies: \<open>Some None\<close> is the TypeError for a revoked proxy, \<open>None\<close> a recursion that
  never ends or a missing target.
\<close>

partial_function (option) is_array ::
    "('s, 'e) object_env \<Rightarrow> (u64 \<Rightarrow> js_object option) \<Rightarrow> value_bits \<Rightarrow> bool option option" where
  "is_array env objs v =
     (if \<not> is_object (base_env env) v then Some (Some False)
      else (case objs v of
        None \<Rightarrow> None
      | Some obj \<Rightarrow>
          (case object_kind obj of
             ArrayKind _ \<Rightarrow> Some (Some True)
           | ProxyKind handler target _ _ \<Rightarrow>
               if handler = None then Some None
               else (case target of None \<Rightarrow> None | Some target \<Rightarrow> is_array env objs target)
           | _ \<Rightarrow> Some (Some False))))"

end
