(* ===== verification/Proxy_Object.thy ===== *)
theory Proxy_Object
  imports Array_Object
begin

text \<open>
  \<open>runtime/proxy_object.rs\<close>: the internal methods of proxies, which call traps of a handler and check what
  they return against the target.
\<close>

section \<open>Traps\<close>

text \<open>
  The beginning of every method: a revoked proxy throws; the operation is passed on to the target if the
  handler has no trap for it.
\<close>

definition with_trap ::
    "('s, 'e) object_env \<Rightarrow> ('s, 'e) methods \<Rightarrow> u64 \<Rightarrow> string \<Rightarrow> (u64 \<Rightarrow> ('s, 'e, 'a) obj_effect)
      \<Rightarrow> (u64 \<Rightarrow> u64 \<Rightarrow> u64 \<Rightarrow> ('s, 'e, 'a) obj_effect) \<Rightarrow> ('s, 'e, 'a) obj_effect" where
  "with_trap env ms proxy name on_target on_trap =
     effect_bind (read_object proxy) (\<lambda>obj.
       case object_kind obj of
         ProxyKind handler target _ _ \<Rightarrow>
           (case handler of
              None \<Rightarrow> throw_type_error env
            | Some handler \<Rightarrow>
                (case target of
                   None \<Rightarrow> effect_panic
                 | Some target \<Rightarrow>
                     effect_bind (get_method env ms handler (string_key name)) (\<lambda>trap.
                       case trap of None \<Rightarrow> on_target target | Some trap \<Rightarrow> on_trap handler target trap)))
       | _ \<Rightarrow> effect_panic)"

definition boolean_trap ::
    "('s, 'e) object_env \<Rightarrow> u64 \<Rightarrow> u64 \<Rightarrow> value_bits list \<Rightarrow> ('s, 'e, bool) obj_effect" where
  "boolean_trap env trap handler arguments =
     effect_bind (call_function env trap handler arguments) (\<lambda>trap_result.
       effect_return (to_boolean (base_env env) trap_result))"

definition revoke :: "u64 \<Rightarrow> ('s, 'e, unit) obj_effect" where
  "revoke proxy =
     effect_bind (read_object proxy) (\<lambda>obj.
       case object_kind obj of
         ProxyKind handler target is_callable is_constructor \<Rightarrow>
           write_object proxy (obj\<lparr>object_kind := ProxyKind None None is_callable is_constructor\<rparr>)
       | _ \<Rightarrow> effect_panic)"

section \<open>Own properties\<close>

definition check_reported_property ::
    "('s, 'e) object_env \<Rightarrow> bool \<Rightarrow> property_descriptor \<Rightarrow> property_descriptor option
      \<Rightarrow> ('s, 'e, property_descriptor option) obj_effect" where
  "check_reported_property env is_target_extensible result_desc target_desc =
     effect_bind (is_compatible_property_descriptor env is_target_extensible result_desc target_desc) (\<lambda>compatible.
       if \<not> compatible then throw_type_error env
       else if desc_configurable result_desc = Some False then
         (case target_desc of
            None \<Rightarrow> throw_type_error env
          | Some target_desc \<Rightarrow>
              if desc_configurable target_desc = Some True then throw_type_error env
              else if desc_writable result_desc = Some False \<and> desc_writable target_desc = Some True
              then throw_type_error env
              else effect_return (Some result_desc))
       else effect_return (Some result_desc))"

definition proxy_get_own_property ::
    "('s, 'e) object_env \<Rightarrow> ('s, 'e) methods \<Rightarrow> u64 \<Rightarrow> property_key \<Rightarrow> ('s, 'e, property_descriptor option) obj_effect" where
  "proxy_get_own_property env ms proxy key =
     with_trap env ms proxy ''getOwnPropertyDescriptor'' (\<lambda>target. vm_get_own_property ms target key)
       (\<lambda>handler target trap.
         effect_bind (call_function env trap handler [target, property_key_to_value env key]) (\<lambda>trap_result.
           if is_undefined trap_result then
             effect_bind (vm_get_own_property ms target key) (\<lambda>target_desc.
               case target_desc of
                 None \<Rightarrow> effect_return None
               | Some target_desc \<Rightarrow>
                   if desc_configurable target_desc = Some False then throw_type_error env
                   else effect_bind (vm_is_extensible ms target) (\<lambda>is_extensible.
                     if \<not> is_extensible then throw_type_error env else effect_return None))
           else if \<not> is_object (base_env env) trap_result then throw_type_error env
           else
             effect_bind (vm_get_own_property ms target key) (\<lambda>target_desc.
             effect_bind (vm_is_extensible ms target) (\<lambda>is_target_extensible.
             effect_bind (to_property_descriptor env ms trap_result) (\<lambda>result_desc.
             check_reported_property env is_target_extensible (complete_property_descriptor result_desc)
               target_desc)))))"

definition check_defined_property ::
    "('s, 'e) object_env \<Rightarrow> bool \<Rightarrow> property_descriptor \<Rightarrow> property_descriptor option \<Rightarrow> ('s, 'e, bool) obj_effect" where
  "check_defined_property env is_target_extensible desc target_desc =
     (let is_setting_non_configurable = (desc_configurable desc = Some False) in
      case target_desc of
        None \<Rightarrow>
          if \<not> is_target_extensible then throw_type_error env
          else if is_setting_non_configurable then throw_type_error env
          else effect_return True
      | Some target \<Rightarrow>
          effect_bind (is_compatible_property_descriptor env is_target_extensible desc (Some target)) (\<lambda>compatible.
            if \<not> compatible then throw_type_error env
            else if is_setting_non_configurable \<and> desc_configurable target = Some True then throw_type_error env
            else if is_data_descriptor target \<and> desc_configurable target = Some False
                \<and> desc_writable target = Some True \<and> desc_writable desc = Some False
            then throw_type_error env
            else effect_return True))"

definition proxy_define_own_property ::
    "('s, 'e) object_env \<Rightarrow> ('s, 'e) methods \<Rightarrow> u64 \<Rightarrow> property_key \<Rightarrow> property_descriptor \<Rightarrow> ('s, 'e, bool) obj_effect" where
  "proxy_define_own_property env ms proxy key desc =
     with_trap env ms proxy ''defineProperty'' (\<lambda>target. vm_define_own_property ms target key desc)
       (\<lambda>handler target trap.
         effect_bind (from_property_descriptor env ms desc) (\<lambda>desc_value.
         effect_bind (boolean_trap env trap handler [target, property_key_to_value env key, desc_value]) (\<lambda>trap_result.
           if \<not> trap_result then effect_return False
           else
             effect_bind (vm_get_own_property ms target key) (\<lambda>target_desc.
             effect_bind (vm_is_extensible ms target) (\<lambda>is_target_extensible.
             check_defined_property env is_target_extensible desc target_desc)))))"

definition proxy_has_property ::
    "('s, 'e) object_env \<Rightarrow> ('s, 'e) methods \<Rightarrow> u64 \<Rightarrow> property_key \<Rightarrow> ('s, 'e, bool) obj_effect" where
  "proxy_has_property env ms proxy key =
     with_trap env ms proxy ''has'' (\<lambda>target. vm_has_property ms target key)
       (\<lambda>handler target trap.
         effect_bind (boolean_trap env trap handler [target, property_key_to_value env key]) (\<lambda>trap_result.
           if trap_result then effect_return True
           else effect_bind (vm_get_own_property ms target key) (\<lambda>target_desc.
             case target_desc of
               None \<Rightarrow> effect_return False
             | Some desc \<Rightarrow>
                 if desc_configurable desc = Some False then throw_type_error env
                 else effect_bind (vm_is_extensible ms target) (\<lambda>is_extensible.
                   if \<not> is_extensible then throw_type_error env else effect_return False))))"

definition proxy_delete ::
    "('s, 'e) object_env \<Rightarrow> ('s, 'e) methods \<Rightarrow> u64 \<Rightarrow> property_key \<Rightarrow> ('s, 'e, bool) obj_effect" where
  "proxy_delete env ms proxy key =
     with_trap env ms proxy ''deleteProperty'' (\<lambda>target. vm_delete ms target key)
       (\<lambda>handler target trap.
         effect_bind (boolean_trap env trap handler [target, property_key_to_value env key]) (\<lambda>trap_result.
           if \<not> trap_result then effect_return False
           else effect_bind (vm_get_own_property ms target key) (\<lambda>target_desc.
             case target_desc of
               None \<Rightarrow> effect_return True
             | Some desc \<Rightarrow>
                 if desc_configurable desc = Some False then throw_type_error env
                 else effect_bind (vm_is_extensible ms target) (\<lambda>is_extensible.
                   if \<not> is_extensible then throw_type_error env else effect_return True))))"

section \<open>Values\<close>

text \<open>A property of the target whose value cannot change any more, and the value to compare with it.\<close>

definition check_fixed_value ::
    "('s, 'e) object_env \<Rightarrow> property_descriptor \<Rightarrow> value_bits \<Rightarrow> bool \<Rightarrow> 'a \<Rightarrow> ('s, 'e, 'a) obj_effect" where
  "check_fixed_value env target_desc v bad_accessor result =
     (if desc_configurable target_desc = Some False then
        (if is_data_descriptor target_desc then
           (if desc_writable target_desc = Some False then
              (case desc_value target_desc of
                 None \<Rightarrow> effect_panic
               | Some target_value \<Rightarrow>
                   if \<not> same_value (base_env env) v target_value then throw_type_error env
                   else effect_return result)
            else effect_return result)
         else if is_accessor_descriptor target_desc \<and> bad_accessor then throw_type_error env
         else effect_return result)
      else effect_return result)"

definition proxy_get ::
    "('s, 'e) object_env \<Rightarrow> ('s, 'e) methods \<Rightarrow> u64 \<Rightarrow> property_key \<Rightarrow> value_bits \<Rightarrow> ('s, 'e, value_bits) obj_effect" where
  "proxy_get env ms proxy key receiver =
     with_trap env ms proxy ''get'' (\<lambda>target. vm_get ms target key receiver)
       (\<lambda>handler target trap.
         effect_bind (call_function env trap handler [target, property_key_to_value env key, receiver]) (\<lambda>trap_result.
         effect_bind (vm_get_own_property ms target key) (\<lambda>target_desc.
           case target_desc of
             None \<Rightarrow> effect_return trap_result
           | Some target_desc \<Rightarrow>
               check_fixed_value env target_desc trap_result
                 (desc_get target_desc = None \<and> \<not> is_undefined trap_result) trap_result)))"

definition proxy_set ::
    "('s, 'e) object_env \<Rightarrow> ('s, 'e) methods \<Rightarrow> u64 \<Rightarrow> property_key \<Rightarrow> value_bits \<Rightarrow> value_bits \<Rightarrow> ('s, 'e, bool) obj_effect" where
  "proxy_set env ms proxy key v receiver =
     with_trap env ms proxy ''set'' (\<lambda>target. vm_set ms target key v receiver)
       (\<lambda>handler target trap.
         effect_bind (boolean_trap env trap handler [target, property_key_to_value env key, v, receiver]) (\<lambda>trap_result.
           if \<not> trap_result then effect_return False
           else effect_bind (vm_get_own_property ms target key) (\<lambda>target_desc.
             case target_desc of
               None \<Rightarrow> effect_return True
             | Some target_desc \<Rightarrow>
                 check_fixed_value env target_desc v (desc_set target_desc = None) True)))"

section \<open>Keys\<close>

text \<open>
  The loop over the array-like result of the trap: the values, and the set of their keys, which must
  differ.
\<close>

fun collect_trap_keys ::
    "('s, 'e) object_env \<Rightarrow> ('s, 'e) methods \<Rightarrow> u64 \<Rightarrow> nat \<Rightarrow> nat \<Rightarrow> value_bits list \<Rightarrow> property_key list
      \<Rightarrow> ('s, 'e, value_bits list \<times> property_key list) obj_effect" where
  "collect_trap_keys env ms object i 0 collected seen w = (Inr (collected, seen), w)"
| "collect_trap_keys env ms object i (Suc n) collected seen w =
     effect_bind (operation_get ms object (property_key_array_index (truncate_u32 i))) (\<lambda>next_value.
       if \<not> is_string (base_env env) next_value \<and> \<not> is_symbol (base_env env) next_value
       then throw_type_error env
       else effect_bind (must (property_key_from_value env next_value)) (\<lambda>next_key.
         if next_key \<in> set seen then throw_type_error env
         else collect_trap_keys env ms object (Suc i) n (collected @ [next_value]) (next_key # seen))) w"

text \<open>The keys of the target, those that are configurable and the others.\<close>

fun split_target_keys ::
    "('s, 'e) object_env \<Rightarrow> ('s, 'e) methods \<Rightarrow> u64 \<Rightarrow> value_bits list \<Rightarrow> property_key list \<Rightarrow> property_key list
      \<Rightarrow> ('s, 'e, property_key list \<times> property_key list) obj_effect" where
  "split_target_keys env ms target [] configurable non_configurable w = (Inr (configurable, non_configurable), w)"
| "split_target_keys env ms target (key # keys) configurable non_configurable w =
     effect_bind (must (property_key_from_value env key)) (\<lambda>property_key.
     effect_bind (vm_get_own_property ms target property_key) (\<lambda>desc.
       if (case desc of None \<Rightarrow> False | Some d \<Rightarrow> desc_configurable d = Some False)
       then split_target_keys env ms target keys configurable (non_configurable @ [property_key])
       else split_target_keys env ms target keys (configurable @ [property_key]) non_configurable)) w"

text \<open>Every key of a list is removed from the set of reported keys, and must be there: what is left of it.\<close>

fun remove_reported ::
    "('s, 'e) object_env \<Rightarrow> property_key list \<Rightarrow> property_key list \<Rightarrow> ('s, 'e, property_key list) obj_effect" where
  "remove_reported env [] unchecked w = (Inr unchecked, w)"
| "remove_reported env (key # keys) unchecked w =
     (if key \<in> set unchecked then remove_reported env keys (removeAll key unchecked) w
      else throw_type_error env w)"

definition check_reported_keys ::
    "('s, 'e) object_env \<Rightarrow> bool \<Rightarrow> property_key list \<Rightarrow> property_key list \<Rightarrow> property_key list
      \<Rightarrow> ('s, 'e, unit) obj_effect" where
  "check_reported_keys env is_extensible_target configurable non_configurable reported =
     (if is_extensible_target \<and> non_configurable = [] then effect_return ()
      else effect_bind (remove_reported env non_configurable reported) (\<lambda>unchecked.
        if is_extensible_target then effect_return ()
        else effect_bind (remove_reported env configurable unchecked) (\<lambda>unchecked.
          if unchecked \<noteq> [] then throw_type_error env else effect_return ())))"

definition proxy_own_property_keys ::
    "('s, 'e) object_env \<Rightarrow> ('s, 'e) methods \<Rightarrow> u64 \<Rightarrow> ('s, 'e, value_bits list) obj_effect" where
  "proxy_own_property_keys env ms proxy =
     with_trap env ms proxy ''ownKeys'' (\<lambda>target. vm_own_property_keys ms target)
       (\<lambda>handler target trap.
         effect_bind (call_function env trap handler [target]) (\<lambda>trap_result.
           if \<not> is_object (base_env env) trap_result then throw_type_error env
           else
             effect_bind (length_of_array_like env ms trap_result) (\<lambda>len.
             effect_bind (vec_with_capacity env len) (\<lambda>_.
             effect_bind (collect_trap_keys env ms trap_result 0 len [] []) (\<lambda>(trap_result_keys, reported).
             effect_bind (vm_is_extensible ms target) (\<lambda>is_extensible_target.
             effect_bind (vm_own_property_keys ms target) (\<lambda>target_keys.
             effect_bind (split_target_keys env ms target target_keys [] []) (\<lambda>(configurable, non_configurable).
             effect_bind (check_reported_keys env is_extensible_target configurable non_configurable reported) (\<lambda>_.
             effect_return trap_result_keys)))))))))"

section \<open>Prototypes and extensibility\<close>

definition proxy_get_prototype_of ::
    "('s, 'e) object_env \<Rightarrow> ('s, 'e) methods \<Rightarrow> u64 \<Rightarrow> ('s, 'e, u64 option) obj_effect" where
  "proxy_get_prototype_of env ms proxy =
     with_trap env ms proxy ''getPrototypeOf'' (\<lambda>target. vm_get_prototype_of ms target)
       (\<lambda>handler target trap.
         effect_bind (call_function env trap handler [target]) (\<lambda>handler_proto.
         effect_bind (if is_object (base_env env) handler_proto then effect_return (Some handler_proto)
           else if is_null handler_proto then effect_return None else throw_type_error env) (\<lambda>handler_proto.
         effect_bind (vm_is_extensible ms target) (\<lambda>is_extensible.
           if is_extensible then effect_return handler_proto
           else effect_bind (vm_get_prototype_of ms target) (\<lambda>target_proto.
             if handler_proto \<noteq> target_proto then throw_type_error env else effect_return handler_proto)))))"

definition proxy_set_prototype_of ::
    "('s, 'e) object_env \<Rightarrow> ('s, 'e) methods \<Rightarrow> u64 \<Rightarrow> u64 option \<Rightarrow> ('s, 'e, bool) obj_effect" where
  "proxy_set_prototype_of env ms proxy proto =
     with_trap env ms proxy ''setPrototypeOf'' (\<lambda>target. vm_set_prototype_of ms target proto)
       (\<lambda>handler target trap.
         effect_bind (boolean_trap env trap handler
           [target, case proto of None \<Rightarrow> value_null | Some object_value \<Rightarrow> object_value]) (\<lambda>trap_result.
           if \<not> trap_result then effect_return False
           else effect_bind (vm_is_extensible ms target) (\<lambda>is_extensible.
             if is_extensible then effect_return True
             else effect_bind (vm_get_prototype_of ms target) (\<lambda>target_proto.
               if proto \<noteq> target_proto then throw_type_error env else effect_return True))))"

definition proxy_is_extensible ::
    "('s, 'e) object_env \<Rightarrow> ('s, 'e) methods \<Rightarrow> u64 \<Rightarrow> ('s, 'e, bool) obj_effect" where
  "proxy_is_extensible env ms proxy =
     with_trap env ms proxy ''isExtensible'' (\<lambda>target. vm_is_extensible ms target)
       (\<lambda>handler target trap.
         effect_bind (boolean_trap env trap handler [target]) (\<lambda>trap_result.
         effect_bind (vm_is_extensible ms target) (\<lambda>target_result.
           if trap_result \<noteq> target_result then throw_type_error env else effect_return trap_result)))"

definition proxy_prevent_extensions ::
    "('s, 'e) object_env \<Rightarrow> ('s, 'e) methods \<Rightarrow> u64 \<Rightarrow> ('s, 'e, bool) obj_effect" where
  "proxy_prevent_extensions env ms proxy =
     with_trap env ms proxy ''preventExtensions'' (\<lambda>target. vm_prevent_extensions ms target)
       (\<lambda>handler target trap.
         effect_bind (boolean_trap env trap handler [target]) (\<lambda>trap_result.
           if \<not> trap_result then effect_return False
           else effect_bind (vm_is_extensible ms target) (\<lambda>is_extensible.
             if is_extensible then throw_type_error env else effect_return True)))"

section \<open>Calls and creation\<close>

definition proxy_call ::
    "('s, 'e) object_env \<Rightarrow> ('s, 'e) methods \<Rightarrow> u64 \<Rightarrow> value_bits \<Rightarrow> value_bits list \<Rightarrow> ('s, 'e, value_bits) obj_effect" where
  "proxy_call env ms proxy this_argument arguments =
     with_trap env ms proxy ''apply'' (\<lambda>target. call_function env target this_argument arguments)
       (\<lambda>handler target trap.
         effect_bind (create_array_from_list env ms arguments) (\<lambda>arguments_array.
         call_function env trap handler [target, this_argument, arguments_array]))"

definition proxy_construct ::
    "('s, 'e) object_env \<Rightarrow> ('s, 'e) methods \<Rightarrow> u64 \<Rightarrow> value_bits list \<Rightarrow> u64 \<Rightarrow> ('s, 'e, u64) obj_effect" where
  "proxy_construct env ms proxy arguments new_target =
     with_trap env ms proxy ''construct'' (\<lambda>target. construct_object env target arguments new_target)
       (\<lambda>handler target trap.
         effect_bind (create_array_from_list env ms arguments) (\<lambda>arguments_array.
         effect_bind (call_function env trap handler [target, arguments_array, new_target]) (\<lambda>new_object.
           if \<not> is_object (base_env env) new_object then throw_type_error env
           else effect_return new_object)))"

definition proxy_create ::
    "('s, 'e) object_env \<Rightarrow> value_bits \<Rightarrow> value_bits \<Rightarrow> ('s, 'e, u64) obj_effect" where
  "proxy_create env target handler =
     (if \<not> is_object (base_env env) target then throw_type_error env
      else if \<not> is_object (base_env env) handler then throw_type_error env
      else object_create_with_optional_proto
        (ProxyKind (Some handler) (Some target) (callable (base_env env) target) (constructor_value env target))
        (Some (intrinsic_object_prototype env)))"

end
