(* ===== verification/Object_Methods.thy ===== *)
theory Object_Methods
  imports Proxy_Object
begin

text \<open>
  The dispatch of internal methods to the kinds of objects (\<open>runtime/object_value.rs\<close> and the macro
  \<open>wrap_ordinary_object\<close>), and the operations of \<open>runtime/abstract_operations.rs\<close> on all properties of an
  object.

  Internal methods call each other through the table, on the native stack.  The number is how many such
  calls the stack has room for; beyond it the program ends.
\<close>

section \<open>Dispatch\<close>

definition of_kind :: "u64 \<Rightarrow> 'm \<Rightarrow> 'm \<Rightarrow> 'm \<Rightarrow> ('m \<Rightarrow> ('s, 'e, 'a) obj_effect) \<Rightarrow> ('s, 'e, 'a) obj_effect" where
  "of_kind object on_ordinary on_array on_proxy call =
     effect_bind (read_object object) (\<lambda>obj.
       case object_kind obj of
         ArrayKind _ \<Rightarrow> call on_array
       | ProxyKind _ _ _ _ \<Rightarrow> call on_proxy
       | _ \<Rightarrow> call on_ordinary)"

text \<open>The methods, which call \<open>ms\<close>.\<close>

definition dispatch_methods :: "('s, 'e) object_env \<Rightarrow> ('s, 'e) methods \<Rightarrow> ('s, 'e) methods" where
  "dispatch_methods env ms =
     \<lparr>vm_get_own_property = (\<lambda>object key.
        of_kind object (ordinary_get_own_property env) (array_get_own_property env)
          (proxy_get_own_property env ms) (\<lambda>m. m object key)),
      vm_define_own_property = (\<lambda>object key desc.
        of_kind object (ordinary_define_own_property env ms) (array_define_own_property env ms)
          (proxy_define_own_property env ms) (\<lambda>m. m object key desc)),
      vm_has_property = (\<lambda>object key.
        of_kind object (ordinary_has_property env ms) (ordinary_has_property env ms)
          (proxy_has_property env ms) (\<lambda>m. m object key)),
      vm_get = (\<lambda>object key receiver.
        of_kind object (ordinary_get env ms) (ordinary_get env ms) (proxy_get env ms)
          (\<lambda>m. m object key receiver)),
      vm_set = (\<lambda>object key v receiver.
        of_kind object (ordinary_set env ms) (ordinary_set env ms) (proxy_set env ms)
          (\<lambda>m. m object key v receiver)),
      vm_delete = (\<lambda>object key.
        of_kind object (ordinary_delete env ms) (array_delete env ms) (proxy_delete env ms)
          (\<lambda>m. m object key)),
      vm_own_property_keys = (\<lambda>object.
        of_kind object (ordinary_own_property_keys env) (array_own_property_keys env)
          (proxy_own_property_keys env ms) (\<lambda>m. m object)),
      vm_get_prototype_of = (\<lambda>object.
        of_kind object ordinary_get_prototype_of ordinary_get_prototype_of
          (proxy_get_prototype_of env ms) (\<lambda>m. m object)),
      vm_set_prototype_of = (\<lambda>object proto.
        of_kind object ordinary_set_prototype_of ordinary_set_prototype_of
          (proxy_set_prototype_of env ms) (\<lambda>m. m object proto)),
      vm_is_extensible = (\<lambda>object.
        of_kind object ordinary_is_extensible ordinary_is_extensible (proxy_is_extensible env ms)
          (\<lambda>m. m object)),
      vm_prevent_extensions = (\<lambda>object.
        of_kind object ordinary_prevent_extensions ordinary_prevent_extensions
          (proxy_prevent_extensions env ms) (\<lambda>m. m object))\<rparr>"

definition stack_overflow_methods :: "('s, 'e) methods" where
  "stack_overflow_methods =
     \<lparr>vm_get_own_property = (\<lambda>_ _. effect_panic), vm_define_own_property = (\<lambda>_ _ _. effect_panic),
      vm_has_property = (\<lambda>_ _. effect_panic), vm_get = (\<lambda>_ _ _. effect_panic),
      vm_set = (\<lambda>_ _ _ _. effect_panic), vm_delete = (\<lambda>_ _. effect_panic),
      vm_own_property_keys = (\<lambda>_. effect_panic), vm_get_prototype_of = (\<lambda>_. effect_panic),
      vm_set_prototype_of = (\<lambda>_ _. effect_panic), vm_is_extensible = (\<lambda>_. effect_panic),
      vm_prevent_extensions = (\<lambda>_. effect_panic)\<rparr>"

fun object_methods :: "('s, 'e) object_env \<Rightarrow> nat \<Rightarrow> ('s, 'e) methods" where
  "object_methods env 0 = stack_overflow_methods"
| "object_methods env (Suc depth) = dispatch_methods env (object_methods env depth)"

section \<open>Operations on all properties\<close>

datatype integrity_level = Sealed | Frozen

fun effect_for_each :: "('a \<Rightarrow> ('s, 'e, unit) obj_effect) \<Rightarrow> 'a list \<Rightarrow> ('s, 'e, unit) obj_effect" where
  "effect_for_each f [] w = (Inr (), w)"
| "effect_for_each f (x # xs) w = effect_bind (f x) (\<lambda>_. effect_for_each f xs) w"

definition set_integrity_level ::
    "('s, 'e) object_env \<Rightarrow> ('s, 'e) methods \<Rightarrow> u64 \<Rightarrow> integrity_level \<Rightarrow> ('s, 'e, bool) obj_effect" where
  "set_integrity_level env ms object level =
     effect_bind (vm_prevent_extensions ms object) (\<lambda>prevented.
       if \<not> prevented then effect_return False
       else effect_bind (vm_own_property_keys ms object) (\<lambda>keys.
       effect_bind (effect_for_each (\<lambda>key_value.
         effect_bind (must (property_key_from_value env key_value)) (\<lambda>key.
           case level of
             Sealed \<Rightarrow>
               define_property_or_throw env ms object key (attributes_descriptor None None (Some False))
           | Frozen \<Rightarrow>
               effect_bind (vm_get_own_property ms object key) (\<lambda>current_desc.
                 case current_desc of
                   None \<Rightarrow> effect_return ()
                 | Some current_desc \<Rightarrow>
                     define_property_or_throw env ms object key
                       (if is_accessor_descriptor current_desc
                        then attributes_descriptor None None (Some False)
                        else attributes_descriptor (Some False) None (Some False))))) keys) (\<lambda>_.
       effect_return True)))"

text \<open>The loop of \<open>test_integrity_level\<close>.\<close>

fun properties_have_level ::
    "('s, 'e) object_env \<Rightarrow> ('s, 'e) methods \<Rightarrow> u64 \<Rightarrow> integrity_level \<Rightarrow> value_bits list \<Rightarrow> ('s, 'e, bool) obj_effect" where
  "properties_have_level env ms object level [] w = (Inr True, w)"
| "properties_have_level env ms object level (key_value # keys) w =
     effect_bind (must (property_key_from_value env key_value)) (\<lambda>key.
     effect_bind (vm_get_own_property ms object key) (\<lambda>current_desc.
       case current_desc of
         None \<Rightarrow> properties_have_level env ms object level keys
       | Some current_desc \<Rightarrow>
           if desc_configurable current_desc = Some True then effect_return False
           else if level = Frozen \<and> is_data_descriptor current_desc \<and> desc_writable current_desc = Some True
           then effect_return False
           else properties_have_level env ms object level keys)) w"

definition test_integrity_level ::
    "('s, 'e) object_env \<Rightarrow> ('s, 'e) methods \<Rightarrow> u64 \<Rightarrow> integrity_level \<Rightarrow> ('s, 'e, bool) obj_effect" where
  "test_integrity_level env ms object level =
     effect_bind (vm_is_extensible ms object) (\<lambda>is_extensible.
       if is_extensible then effect_return False
       else effect_bind (vm_own_property_keys ms object) (\<lambda>keys.
         properties_have_level env ms object level keys))"

datatype key_or_value = KeyOnly | ValueOnly | KeyAndValue

fun enumerable_properties ::
    "('s, 'e) object_env \<Rightarrow> ('s, 'e) methods \<Rightarrow> u64 \<Rightarrow> key_or_value \<Rightarrow> value_bits list \<Rightarrow> value_bits list
      \<Rightarrow> ('s, 'e, value_bits list) obj_effect" where
  "enumerable_properties env ms object kind [] properties w = (Inr properties, w)"
| "enumerable_properties env ms object kind (key_value # keys) properties w =
     (if is_symbol (base_env env) key_value then enumerable_properties env ms object kind keys properties w
      else
        effect_bind (must (property_key_from_value env key_value)) (\<lambda>key.
        effect_bind (vm_get_own_property ms object key) (\<lambda>desc.
          if (case desc of None \<Rightarrow> False | Some d \<Rightarrow> desc_enumerable d = Some True) then
            (case kind of
               KeyOnly \<Rightarrow> enumerable_properties env ms object kind keys (properties @ [key_value])
             | ValueOnly \<Rightarrow>
                 effect_bind (operation_get ms object key) (\<lambda>v.
                 enumerable_properties env ms object kind keys (properties @ [v]))
             | KeyAndValue \<Rightarrow>
                 effect_bind (operation_get ms object key) (\<lambda>v.
                 effect_bind (create_array_from_list env ms [key_value, v]) (\<lambda>entry.
                 enumerable_properties env ms object kind keys (properties @ [entry]))))
          else enumerable_properties env ms object kind keys properties)) w)"

definition enumerable_own_property_names ::
    "('s, 'e) object_env \<Rightarrow> ('s, 'e) methods \<Rightarrow> u64 \<Rightarrow> key_or_value \<Rightarrow> ('s, 'e, value_bits list) obj_effect" where
  "enumerable_own_property_names env ms object kind =
     effect_bind (vm_own_property_keys ms object) (\<lambda>keys. enumerable_properties env ms object kind keys [])"

definition copy_data_properties ::
    "('s, 'e) object_env \<Rightarrow> ('s, 'e) methods \<Rightarrow> u64 \<Rightarrow> value_bits \<Rightarrow> property_key set \<Rightarrow> ('s, 'e, unit) obj_effect" where
  "copy_data_properties env ms target source excluded_items =
     (if is_nullish source then effect_return ()
      else effect_bind (must (to_object env source)) (\<lambda>from_object.
        effect_bind (vm_own_property_keys ms from_object) (\<lambda>keys.
        effect_for_each (\<lambda>next_key_value.
          effect_bind (must (property_key_from_value env next_key_value)) (\<lambda>next_key.
            if next_key \<in> excluded_items then effect_return ()
            else effect_bind (vm_get_own_property ms from_object next_key) (\<lambda>desc.
              if (case desc of None \<Rightarrow> False | Some d \<Rightarrow> desc_is_enumerable d) then
                effect_bind (operation_get ms from_object next_key) (\<lambda>prop_value.
                must (create_data_property_or_throw env ms target next_key prop_value))
              else effect_return ()))) keys)))"

text \<open>The constructor that a method uses for new objects, with the intrinsic one as default.\<close>

definition species_constructor ::
    "('s, 'e) object_env \<Rightarrow> ('s, 'e) methods \<Rightarrow> property_key \<Rightarrow> u64 \<Rightarrow> u64 \<Rightarrow> ('s, 'e, u64) obj_effect" where
  "species_constructor env ms species_key object default_constructor =
     effect_bind (operation_get ms object (string_key ''constructor'')) (\<lambda>constructor.
       if is_undefined constructor then effect_return default_constructor
       else if \<not> is_object (base_env env) constructor then throw_type_error env
       else effect_bind (operation_get ms constructor species_key) (\<lambda>species.
         if is_nullish species then effect_return default_constructor
         else if constructor_value env species then effect_return species
         else throw_type_error env))"

end
