(* ===== verification/Object_Store.thy ===== *)
theory Object_Store
  imports Object_Methods Array_Correct Map_Objects
begin

text \<open>
  The properties of an object as a finite map from keys to properties: the named ones and those with an
  index keep the same contract, and so does the object that is made of both.
\<close>

section \<open>The contract of a property store\<close>

text \<open>
  \<open>props\<close> is what a lookup returns and \<open>stores\<close> everything that is stored, of which there can be more than
  one property for a key that is not \<open>stable\<close>.  Storing a property does not affect the other stable keys.
\<close>

locale property_store =
  fixes find :: "'m \<Rightarrow> 'k \<Rightarrow> 'p option option"
    and store :: "'k \<Rightarrow> 'p \<Rightarrow> 'm \<Rightarrow> 'm option"
    and ok :: "'m \<Rightarrow> bool"
    and fits :: "'m \<Rightarrow> 'k \<Rightarrow> 'p \<Rightarrow> bool"
    and props :: "'m \<Rightarrow> 'k \<Rightarrow> 'p option"
    and stable :: "'m \<Rightarrow> 'k \<Rightarrow> bool"
    and stores :: "'m \<Rightarrow> 'k \<Rightarrow> 'p \<Rightarrow> bool"
  assumes find_props: "ok m \<Longrightarrow> find m k = Some (props m k)"
    and props_stored: "ok m \<Longrightarrow> props m k = Some p \<Longrightarrow> stores m k p"
    and store_props: "ok m \<Longrightarrow> fits m k p \<Longrightarrow>
      \<exists>m'. store k p m = Some m' \<and> ok m' \<and> props m' k = Some p
        \<and> (\<forall>j. j \<noteq> k \<longrightarrow> stable m j \<longrightarrow> props m' j = props m j \<and> stable m' j)
        \<and> (\<forall>j q. stores m' j q \<longrightarrow> j = k \<and> q = p \<or> stores m j q)"
begin

lemma find_stored:
  assumes "ok m" and "fits m k p"
  shows "\<exists>m'. store k p m = Some m' \<and> find m' k = Some (Some p)
    \<and> (\<forall>j. j \<noteq> k \<longrightarrow> stable m j \<longrightarrow> find m' j = find m j)"
  using store_props [OF assms] find_props assms(1) by auto

end

section \<open>Flags\<close>

text \<open>Properties that are not private have no other flags than the three attributes.\<close>

definition public_property :: "'v property \<Rightarrow> bool" where
  "public_property p \<longleftrightarrow> property_flags p \<le> DENSE_ARRAY_PROPERTY_FLAGS"

lemma and_exp_eq_iff: "f AND 2 ^ n = 2 ^ n \<longleftrightarrow> bit f n" if "n < 8" for f :: u8
proof
  assume "f AND 2 ^ n = 2 ^ n"
  then have "bit (f AND 2 ^ n) n" using that by (simp add: bit_exp_iff)
  then show "bit f n" by (simp add: bit_and_iff)
next
  assume "bit f n"
  then show "f AND 2 ^ n = 2 ^ n" by (intro bit_word_eqI) (auto simp: bit_simps)
qed

lemma attribute_bits:
  "is_writable p \<longleftrightarrow> bit (property_flags p) 0"
  "is_enumerable p \<longleftrightarrow> bit (property_flags p) 1"
  "is_configurable p \<longleftrightarrow> bit (property_flags p) 2"
  using and_exp_eq_iff [of 0 "property_flags p"] and_exp_eq_iff [of 1 "property_flags p"]
    and_exp_eq_iff [of 2 "property_flags p"]
  by (simp_all add: is_writable_def is_enumerable_def is_configurable_def flags_contain_def
      IS_WRITABLE_def IS_ENUMERABLE_def IS_CONFIGURABLE_def)

lemma public_bits: "public_property p \<longleftrightarrow> (\<forall>n. bit (property_flags p) n \<longrightarrow> n < 3)"
proof -
  have d: "bit (drop_bit 3 (property_flags p)) n \<longleftrightarrow> bit (property_flags p) (3 + n)" for n
    by (simp add: bit_drop_bit_eq)
  have split: "\<exists>m. n = 3 + m" if "\<not> n < 3" for n :: nat using that by presburger
  have "public_property p \<longleftrightarrow> unat (property_flags p) < 8"
    by (simp add: public_property_def DENSE_ARRAY_PROPERTY_FLAGS_def IS_WRITABLE_def IS_ENUMERABLE_def
        IS_CONFIGURABLE_def word_le_nat_alt less_Suc_eq_le [symmetric])
  also have "\<dots> \<longleftrightarrow> unat (drop_bit 3 (property_flags p)) = 0" by (auto simp: unat_drop_bit)
  also have "\<dots> \<longleftrightarrow> drop_bit 3 (property_flags p) = 0" by (simp only: unsigned_eq_0_iff)
  also have "\<dots> \<longleftrightarrow> (\<forall>n. \<not> bit (property_flags p) (3 + n))"
  proof
    assume "drop_bit 3 (property_flags p) = 0"
    then show "\<forall>n. \<not> bit (property_flags p) (3 + n)"
      using d by simp
  next
    assume "\<forall>n. \<not> bit (property_flags p) (3 + n)"
    then show "drop_bit 3 (property_flags p) = 0" by (intro bit_word_eqI) (simp add: bit_drop_bit_eq)
  qed
  also have "\<dots> \<longleftrightarrow> (\<forall>n. bit (property_flags p) n \<longrightarrow> n < 3)"
    using split by (metis not_add_less1)
  finally show ?thesis .
qed

lemma bit_set_flag:
  "k < 8 \<Longrightarrow> bit (set_flag (2 ^ k) b f) n \<longleftrightarrow> (if n = k then b else bit f n)"
  by (auto simp: set_flag_def bit_simps dest: bit_imp_le_length)

lemma bit_set_attributes:
  "bit (property_flags (set_is_writable b p)) n \<longleftrightarrow> (if n = 0 then b else bit (property_flags p) n)"
  "bit (property_flags (set_is_enumerable b p)) n \<longleftrightarrow> (if n = 1 then b else bit (property_flags p) n)"
  "bit (property_flags (set_is_configurable b p)) n \<longleftrightarrow> (if n = 2 then b else bit (property_flags p) n)"
  using bit_set_flag [of 0 b "property_flags p" n] bit_set_flag [of 1 b "property_flags p" n]
    bit_set_flag [of 2 b "property_flags p" n]
  by (simp_all add: set_is_writable_def set_is_enumerable_def set_is_configurable_def
      IS_WRITABLE_def IS_ENUMERABLE_def IS_CONFIGURABLE_def)

lemma set_attributes [simp]:
  "is_writable (set_is_writable b p) = b" "is_writable (set_is_enumerable b p) = is_writable p"
  "is_writable (set_is_configurable b p) = is_writable p"
  "is_enumerable (set_is_writable b p) = is_enumerable p" "is_enumerable (set_is_enumerable b p) = b"
  "is_enumerable (set_is_configurable b p) = is_enumerable p"
  "is_configurable (set_is_writable b p) = is_configurable p"
  "is_configurable (set_is_enumerable b p) = is_configurable p"
  "is_configurable (set_is_configurable b p) = b"
  "property_value (set_is_writable b p) = property_value p"
  "property_value (set_is_enumerable b p) = property_value p"
  "property_value (set_is_configurable b p) = property_value p"
  by (simp_all add: attribute_bits bit_set_attributes)
    (simp_all add: set_is_writable_def set_is_enumerable_def set_is_configurable_def)

lemma public_set_attributes [simp]:
  "public_property p \<Longrightarrow> public_property (set_is_writable b p)"
  "public_property p \<Longrightarrow> public_property (set_is_enumerable b p)"
  "public_property p \<Longrightarrow> public_property (set_is_configurable b p)"
  by (simp_all add: public_bits bit_set_attributes)

lemma update_value [simp]:
  "is_writable (p\<lparr>property_value := v\<rparr>) = is_writable p"
  "is_enumerable (p\<lparr>property_value := v\<rparr>) = is_enumerable p"
  "is_configurable (p\<lparr>property_value := v\<rparr>) = is_configurable p"
  "public_property (p\<lparr>property_value := v\<rparr>) = public_property p"
  by (simp_all add: is_writable_def is_enumerable_def is_configurable_def public_property_def)

lemma new_property_attributes [simp]:
  "is_writable (data_property v w e c) = w" "is_enumerable (data_property v w e c) = e"
  "is_configurable (data_property v w e c) = c" "property_value (data_property v w e c) = v"
  "is_enumerable (accessor_property v e c) = e" "is_configurable (accessor_property v e c) = c"
  "property_value (accessor_property v e c) = v"
  "public_property (data_property v w e c)" "public_property (accessor_property v e c)"
  by (auto simp: data_property_def accessor_property_def is_writable_def is_enumerable_def
      is_configurable_def flags_contain_def public_property_def DENSE_ARRAY_PROPERTY_FLAGS_def
      IS_WRITABLE_def IS_ENUMERABLE_def IS_CONFIGURABLE_def)

section \<open>The stores\<close>

text \<open>Named properties: the map grows when it is full.\<close>

lemma named_insert_law:
  assumes ok: "index_map_ok hash m"
  shows "\<exists>m'. named_properties_insert hash k v m = Some m' \<and> index_map_ok hash m'
    \<and> index_map_al m' = put k v (index_map_al m)"
proof -
  obtain m1 where m1: "index_map_ok hash m1" "0 < index_map_space m1" "index_map_al m1 = index_map_al m"
    "named_properties_insert hash k v m = map_option snd (index_map_insert_without_growing hash k v m1)"
  proof (cases "num_entries_used m < index_map_capacity m")
    case True
    then show ?thesis
      using ok by (intro that [of m]) (auto simp: named_properties_insert_def index_map_space_def
          map_option_case split: option.splits)
  next
    case False
    obtain m1 where m1: "insert_all (index_map_insert_without_growing hash) (index_map_al m)
        (new_index_map (index_map_new_capacity m)) = Some m1" "index_map_ok hash m1"
      "index_map_shape m1 = map (\<lambda>kv. [kv]) (index_map_al m)" "0 < index_map_space m1"
      using copied_map [OF ok False] by (elim exE conjE)
    show ?thesis
    proof (rule that [OF m1(2,4)])
      show "index_map_al m1 = index_map_al m" by (simp add: index_map_al_shape [of m1] m1(3))
      show "named_properties_insert hash k v m = map_option snd (index_map_insert_without_growing hash k v m1)"
        using False m1(1) by (auto simp: named_properties_insert_def index_map_iter_ok [OF ok]
            map_option_case split: option.splits)
    qed
  qed
  obtain m' where "index_map_insert_without_growing hash k v m1 = Some (has_key k (index_map_al m1), m')"
    "index_map_ok hash m'" "index_map_al m' = put k v (index_map_al m1)"
    using index_map_insert_law [OF m1(1,2), of k v] by (elim exE conjE)
  with m1(3,4) show ?thesis by auto
qed

interpretation named: property_store "index_map_get hash" "named_properties_insert hash" "index_map_ok hash"
    "\<lambda>_ _ _. True" "\<lambda>m. map_of (index_map_al m)" "\<lambda>_ _. True" "\<lambda>m k p. map_of (index_map_al m) k = Some p"
  for hash :: "property_key \<Rightarrow> nat"
proof
  fix m :: "(property_key, 'v) index_map" and k
  assume ok: "index_map_ok hash m"
  show "index_map_get hash m k = Some (map_of (index_map_al m) k)" using ok by (rule index_map_get_ok)
  show "\<exists>m'. named_properties_insert hash k p m = Some m' \<and> index_map_ok hash m'
      \<and> map_of (index_map_al m') k = Some p
      \<and> (\<forall>j. j \<noteq> k \<longrightarrow> True \<longrightarrow> map_of (index_map_al m') j = map_of (index_map_al m) j \<and> True)
      \<and> (\<forall>j q. map_of (index_map_al m') j = Some q \<longrightarrow> j = k \<and> q = p \<or> map_of (index_map_al m) j = Some q)" for p
    using named_insert_law [OF ok, of k p] by auto
qed

definition index_fits :: "'v array_properties \<Rightarrow> nat \<Rightarrow> 'v property \<Rightarrow> bool" where
  "index_fits a i p \<longleftrightarrow> i < MAX_U32 \<and> length_fits a \<and> public_property p"

interpretation indexed: property_store "get_property hash" "set_property hash" "array_ok hash" index_fits
    "array_map hash" index_stable array_stores
  for hash :: "nat \<Rightarrow> nat"
proof
  fix a :: "'v array_properties" and i
  assume ok: "array_ok hash a"
  show "get_property hash a i = Some (array_map hash a i)" using ok by (rule get_property_ok)
  show "array_stores a i p" if "array_map hash a i = Some p" for p using ok that by (rule array_map_stored)
  show "\<exists>a'. set_property hash i p a = Some a' \<and> array_ok hash a' \<and> array_map hash a' i = Some p
      \<and> (\<forall>j. j \<noteq> i \<longrightarrow> index_stable a j \<longrightarrow> array_map hash a' j = array_map hash a j \<and> index_stable a' j)
      \<and> (\<forall>j q. array_stores a' j q \<longrightarrow> j = i \<and> q = p \<or> array_stores a j q)"
    if "index_fits a i p" for p
    using set_property_ok [OF ok, of i p] that by (auto simp: index_fits_def public_property_def index_written_def)
qed

section \<open>Objects\<close>

definition object_map :: "('s, 'e) object_env \<Rightarrow> js_object \<Rightarrow> property_key \<Rightarrow> slot property option" where
  "object_map env obj key =
     (case key of
        IndexKey i \<Rightarrow> array_map (index_hash env) (array_properties obj) i
      | _ \<Rightarrow> map_of (index_map_al (named_properties obj)) key)"

text \<open>Everything that is stored, and the keys for which only one property is.\<close>

definition object_stores :: "js_object \<Rightarrow> property_key \<Rightarrow> slot property \<Rightarrow> bool" where
  "object_stores obj key p \<longleftrightarrow>
     (case key of
        IndexKey i \<Rightarrow> array_stores (array_properties obj) i p
      | _ \<Rightarrow> map_of (index_map_al (named_properties obj)) key = Some p)"

definition object_stable :: "js_object \<Rightarrow> property_key \<Rightarrow> bool" where
  "object_stable obj key \<longleftrightarrow> (case key of IndexKey i \<Rightarrow> index_stable (array_properties obj) i | _ \<Rightarrow> True)"

lemma object_stable_simps [simp]:
  "object_stable obj (StringKey s)" "object_stable obj (SymbolKey a)"
  "object_stable obj (IndexKey i) \<longleftrightarrow> index_stable (array_properties obj) i"
  by (simp_all add: object_stable_def)

definition object_ok :: "('s, 'e) object_env \<Rightarrow> js_object \<Rightarrow> bool" where
  "object_ok env obj \<longleftrightarrow> index_map_ok (key_hash env) (named_properties obj)
     \<and> array_ok (index_hash env) (array_properties obj)"

definition key_fits :: "js_object \<Rightarrow> property_key \<Rightarrow> slot property \<Rightarrow> bool" where
  "key_fits obj key p = (case key of IndexKey i \<Rightarrow> index_fits (array_properties obj) i p | _ \<Rightarrow> True)"

text \<open>What a change of properties does not touch.\<close>

definition same_shell :: "js_object \<Rightarrow> js_object \<Rightarrow> bool" where
  "same_shell obj obj' \<longleftrightarrow> object_kind obj' = object_kind obj \<and> object_prototype obj' = object_prototype obj
     \<and> is_extensible_field obj' = is_extensible_field obj"

lemma array_map_in_length: "array_ok hash a \<Longrightarrow> array_map hash a i \<noteq> None \<Longrightarrow> i < array_length a"
  using array_map_stored [of hash a i] array_stores_length [of hash a i] by auto

lemma overwritten_fits:
  assumes ok: "array_ok hash a" and fits: "index_fits a i p" and present: "array_map hash a i \<noteq> None"
    and set: "set_property hash i p a = Some a'"
  shows "length_fits a'"
proof -
  have len: "array_length a' = array_length a"
    using set_property_ok [OF ok, of i p] fits set array_map_in_length [OF ok present]
    by (auto simp: index_fits_def public_property_def)
  show ?thesis
  proof (cases a)
    case (DenseArray n cells)
    then show ?thesis using len fits by (cases a') (auto simp: length_fits_def index_fits_def array_length_def)
  next
    case (SparseArray n m)
    then show ?thesis
      using set by (cases a')
        (auto simp: length_fits_def set_property.simps split: bind_splits prod.splits)
  qed
qed

text \<open>What a property that is stored leaves of the others.\<close>

definition key_written ::
    "('s, 'e) object_env \<Rightarrow> property_key \<Rightarrow> slot property \<Rightarrow> js_object \<Rightarrow> js_object \<Rightarrow> bool" where
  "key_written env key p obj obj' \<longleftrightarrow>
     object_map env obj' key = Some p
     \<and> (\<forall>j. j \<noteq> key \<longrightarrow> object_stable obj j \<longrightarrow>
          object_map env obj' j = object_map env obj j \<and> object_stable obj' j)
     \<and> (\<forall>j q. object_stores obj' j q \<longrightarrow> j = key \<and> q = p \<or> object_stores obj j q)"

lemma object_set_property_law:
  assumes ok: "object_ok env obj" and fits: "key_fits obj key p"
  shows "\<exists>obj'. object_set_property env key p obj = Some obj' \<and> object_ok env obj'
    \<and> key_written env key p obj obj' \<and> same_shell obj obj'
    \<and> (object_map env obj key \<noteq> None \<longrightarrow> public_property q \<longrightarrow> key_fits obj' key q)"
proof (cases "\<exists>i. key = IndexKey i")
  case True
  then obtain i where key: "key = IndexKey i" ..
  obtain a where a: "set_property (index_hash env) i p (array_properties obj) = Some a" "array_ok (index_hash env) a"
    "array_map (index_hash env) a i = Some p"
    "\<And>j. j \<noteq> i \<Longrightarrow> index_stable (array_properties obj) j \<Longrightarrow>
       array_map (index_hash env) a j = array_map (index_hash env) (array_properties obj) j \<and> index_stable a j"
    "\<And>j q. array_stores a j q \<Longrightarrow> j = i \<and> q = p \<or> array_stores (array_properties obj) j q"
    using indexed.store_props [of "index_hash env" "array_properties obj" i p] ok fits
    by (auto simp: object_ok_def key_fits_def key)
  have "length_fits a" if "array_map (index_hash env) (array_properties obj) i \<noteq> None"
    using overwritten_fits [of "index_hash env" "array_properties obj" i p a] that ok fits a(1)
    by (simp add: object_ok_def key_fits_def key)
  moreover have "key_written env key p obj (obj\<lparr>array_properties := a\<rparr>)"
    using a(3-5) by (auto simp: key_written_def object_map_def object_stores_def key split: property_key.splits)
  ultimately show ?thesis
    using ok fits a(1,2) by (auto simp: key_fits_def index_fits_def object_set_property_def key object_ok_def
        object_map_def same_shell_def)
next
  case False
  obtain m where m: "named_properties_insert (key_hash env) key p (named_properties obj) = Some m"
    "index_map_ok (key_hash env) m"
    "\<And>j. map_of (index_map_al m) j = (if j = key then Some p else map_of (index_map_al (named_properties obj)) j)"
    using named.store_props [of "key_hash env" "named_properties obj" key p] ok
    by (auto simp: object_ok_def)
  have "object_set_property env key p obj = Some (obj\<lparr>named_properties := m\<rparr>)"
    using False m(1) by (cases key) (auto simp: object_set_property_def)
  moreover have "key_written env key p obj (obj\<lparr>named_properties := m\<rparr>)"
    using False m(3) by (auto simp: key_written_def object_map_def object_stores_def object_stable_def
        split: property_key.splits)
  moreover have "key_fits obj' key q" for obj' q using False by (auto simp: key_fits_def split: property_key.splits)
  ultimately show ?thesis
    using ok m(2) by (auto simp: object_ok_def same_shell_def)
qed

interpretation object: property_store "object_get_property env" "object_set_property env" "object_ok env"
    key_fits "object_map env" object_stable object_stores
  for env :: "('s, 'e) object_env"
proof
  fix obj :: js_object and key
  assume ok: "object_ok env obj"
  show "object_get_property env obj key = Some (object_map env obj key)"
    using ok by (cases key)
      (simp_all add: object_get_property_def object_map_def object_ok_def named.find_props indexed.find_props)
  show "object_stores obj key p" if "object_map env obj key = Some p" for p
    using that ok indexed.props_stored [of "index_hash env" "array_properties obj"]
    by (auto simp: object_map_def object_stores_def object_ok_def split: property_key.splits)
  show "\<exists>obj'. object_set_property env key p obj = Some obj' \<and> object_ok env obj' \<and> object_map env obj' key = Some p
      \<and> (\<forall>j. j \<noteq> key \<longrightarrow> object_stable obj j \<longrightarrow> object_map env obj' j = object_map env obj j \<and> object_stable obj' j)
      \<and> (\<forall>j q. object_stores obj' j q \<longrightarrow> j = key \<and> q = p \<or> object_stores obj j q)" if "key_fits obj key p" for p
    using object_set_property_law [OF ok that, of p] unfolding key_written_def by blast
qed

end
