(* ===== verification/Object_Correct.thy ===== *)
theory Object_Correct
  imports Object_Store
begin

text \<open>
  Worlds of objects refine a map from addresses and keys to abstract properties; defining a property is
  \<open>ValidateAndApplyPropertyDescriptor\<close> of ECMAScript on it.
\<close>

section \<open>Abstract properties\<close>

datatype abs_property =
    AbsData value_bits bool bool bool
  | AbsAccessor "u64 option" "u64 option" bool bool

definition abs_of :: "accessor list \<Rightarrow> slot property \<Rightarrow> abs_property" where
  "abs_of accs p =
     (case property_value p of
        DataSlot v \<Rightarrow> AbsData v (is_writable p) (is_enumerable p) (is_configurable p)
      | AccessorSlot i \<Rightarrow>
          AbsAccessor (accessor_get (accs ! i)) (accessor_set (accs ! i)) (is_enumerable p) (is_configurable p))"

definition object_slot ::
    "('s, 'e) object_env \<Rightarrow> 's world \<Rightarrow> u64 \<Rightarrow> property_key \<Rightarrow> slot property option" where
  "object_slot env w a key = (case objects w a of None \<Rightarrow> None | Some obj \<Rightarrow> object_map env obj key)"

definition own_property ::
    "('s, 'e) object_env \<Rightarrow> 's world \<Rightarrow> u64 \<Rightarrow> property_key \<Rightarrow> abs_property option" where
  "own_property env w a key = map_option (abs_of (accessors w)) (object_slot env w a key)"

text \<open>Everything that is stored in an object, and the keys for which only one property is.\<close>

definition stored_slot :: "'s world \<Rightarrow> u64 \<Rightarrow> property_key \<Rightarrow> slot property \<Rightarrow> bool" where
  "stored_slot w a key p \<longleftrightarrow> (\<exists>obj. objects w a = Some obj \<and> object_stores obj key p)"

definition key_stable :: "'s world \<Rightarrow> u64 \<Rightarrow> property_key \<Rightarrow> bool" where
  "key_stable w a key \<longleftrightarrow> (case objects w a of None \<Rightarrow> True | Some obj \<Rightarrow> object_stable obj key)"

lemma key_stable_named [simp]: "key_stable w a (StringKey s)" "key_stable w a (SymbolKey b)"
  by (simp_all add: key_stable_def split: option.split)

fun descriptor_of :: "abs_property \<Rightarrow> property_descriptor" where
  "descriptor_of (AbsData v writable enumerable configurable) = data_descriptor v writable enumerable configurable"
| "descriptor_of (AbsAccessor getter setter enumerable configurable) =
     accessor_descriptor getter setter enumerable configurable"

text \<open>The invariant: every accessor exists, and one that is not private belongs to one property only.\<close>

definition accessors_ok :: "accessor list \<Rightarrow> (u64 \<Rightarrow> property_key \<Rightarrow> slot property \<Rightarrow> bool) \<Rightarrow> bool" where
  "accessors_ok accs stored \<longleftrightarrow>
     (\<forall>a k p i. stored a k p \<longrightarrow> property_value p = AccessorSlot i \<longrightarrow>
        i < length accs \<and> (public_property p \<longrightarrow>
          (\<forall>b j q. stored b j q \<longrightarrow> property_value q = AccessorSlot i \<longrightarrow> b = a \<and> j = k)))"

definition world_ok :: "('s, 'e) object_env \<Rightarrow> 's world \<Rightarrow> bool" where
  "world_ok env w \<longleftrightarrow> (\<forall>a obj. objects w a = Some obj \<longrightarrow> object_ok env obj)
     \<and> accessors_ok (accessors w) (stored_slot w)"

lemma slot_stored: "world_ok env w \<Longrightarrow> object_slot env w a k = Some p \<Longrightarrow> stored_slot w a k p"
  by (auto simp: world_ok_def object_slot_def stored_slot_def intro: object.props_stored split: option.splits)

lemma stored_accessor_exists:
  "world_ok env w \<Longrightarrow> stored_slot w a k p \<Longrightarrow> property_value p = AccessorSlot i \<Longrightarrow> i < length (accessors w)"
  by (auto simp: world_ok_def accessors_ok_def)

lemma accessor_exists:
  "world_ok env w \<Longrightarrow> object_slot env w a k = Some p \<Longrightarrow> property_value p = AccessorSlot i \<Longrightarrow> i < length (accessors w)"
  using slot_stored [of env w a k p] stored_accessor_exists [of env w a k p i] by blast

lemma accessor_unshared:
  "world_ok env w \<Longrightarrow> stored_slot w a k p \<Longrightarrow> property_value p = AccessorSlot i \<Longrightarrow> public_property p \<Longrightarrow>
     stored_slot w b j q \<Longrightarrow> property_value q = AccessorSlot i \<Longrightarrow> b = a \<and> j = k"
  by (auto simp: world_ok_def accessors_ok_def)

definition same_shells :: "'s world \<Rightarrow> 's world \<Rightarrow> bool" where
  "same_shells w w' \<longleftrightarrow> (\<forall>b. rel_option same_shell (objects w b) (objects w' b))
     \<and> script_state w' = script_state w \<and> next_object w' = next_object w"

lemma same_shell_refl [simp]: "same_shell obj obj"
  by (simp add: same_shell_def)

lemma same_shell_trans: "same_shell x y \<Longrightarrow> same_shell y z \<Longrightarrow> same_shell x z"
  by (simp add: same_shell_def)

lemma same_shells_refl [simp]: "same_shells w w"
  by (simp add: same_shells_def option.rel_refl)

lemma same_shells_trans: "same_shells u v \<Longrightarrow> same_shells v w \<Longrightarrow> same_shells u w"
  unfolding same_shells_def by (auto elim!: option.rel_cases intro: same_shell_trans)
    (smt (verit) option.rel_sel same_shell_trans)

section \<open>Reading and writing properties\<close>

lemmas effect_simps = effect_bind_def effect_return_def effect_option_def effect_panic_def

lemma slot_of_object: "objects w a = Some obj \<Longrightarrow> object_slot env w a key = object_map env obj key"
  by (simp add: object_slot_def)

lemma get_property_at_ok:
  assumes "world_ok env w" and "objects w a = Some obj"
  shows "get_property_at env a key w = (Inr (object_slot env w a key), w)"
  using assms by (simp add: get_property_at_def read_object_def effect_simps object_slot_def
      world_ok_def object.find_props)

lemma read_accessor_ok:
  "i < length (accessors w) \<Longrightarrow> read_accessor (AccessorSlot i) w = (Inr (accessors w ! i), w)"
  by (simp add: read_accessor_def)

lemma ordinary_get_own_property_ok:
  assumes ok: "world_ok env w" and a: "objects w a = Some obj"
  shows "ordinary_get_own_property env a key w = (Inr (map_option descriptor_of (own_property env w a key)), w)"
proof (cases "object_slot env w a key")
  case None
  then show ?thesis
    by (simp add: ordinary_get_own_property_def own_property_def effect_simps get_property_at_ok [OF ok a])
next
  case (Some p)
  then show ?thesis
    using accessor_exists [OF ok Some]
    by (cases "property_value p")
      (simp_all add: ordinary_get_own_property_def own_property_def abs_of_def effect_simps
        get_property_at_ok [OF ok a] read_accessor_ok)
qed

text \<open>Writing a property: an accessor in it is new, or the one it had.\<close>

definition accessor_free :: "'s world \<Rightarrow> u64 \<Rightarrow> property_key \<Rightarrow> slot property \<Rightarrow> bool" where
  "accessor_free w a key p \<longleftrightarrow>
     (\<forall>i. property_value p = AccessorSlot i \<longrightarrow> i < length (accessors w) \<and>
        (\<forall>b j q. stored_slot w b j q \<longrightarrow> property_value q = AccessorSlot i \<longrightarrow> b = a \<and> j = key))"

lemma accessors_ok_written:
  assumes ok: "accessors_ok accs old" and sub: "\<And>b j q. new b j q \<Longrightarrow> b = a \<and> j = key \<and> q = p \<or> old b j q"
    and free: "\<And>i. property_value p = AccessorSlot i \<Longrightarrow> i < length accs \<and>
        (\<forall>b j q. old b j q \<longrightarrow> property_value q = AccessorSlot i \<longrightarrow> b = a \<and> j = key)"
  shows "accessors_ok accs new"
  unfolding accessors_ok_def
proof (intro allI impI conjI)
  fix b j q i
  assume q: "new b j q" "property_value q = AccessorSlot i"
  show "i < length accs" using sub [OF q(1)] q(2) free ok by (auto simp: accessors_ok_def)
  fix c l r
  assume "public_property q" and r: "new c l r" "property_value r = AccessorSlot i"
  then show "c = b" "l = j"
    using sub [OF q(1)] sub [OF r(1)] q(2) free [of i] ok by (auto simp: accessors_ok_def)
qed

text \<open>
  The effect on the world: the property is read back, other objects and the other stable keys of the object
  are as they were.
\<close>

definition slot_written ::
    "('s, 'e) object_env \<Rightarrow> 's world \<Rightarrow> 's world \<Rightarrow> u64 \<Rightarrow> property_key \<Rightarrow> slot property \<Rightarrow> bool" where
  "slot_written env w w' a key p \<longleftrightarrow>
     object_slot env w' a key = Some p
     \<and> (\<forall>b j. (b = a \<longrightarrow> j \<noteq> key \<and> key_stable w a j) \<longrightarrow> object_slot env w' b j = object_slot env w b j)
     \<and> (\<forall>j. j \<noteq> key \<longrightarrow> key_stable w a j \<longrightarrow> key_stable w' a j)"

lemma set_property_at_ok:
  assumes ok: "world_ok env w" and a: "objects w a = Some obj" and fits: "key_fits obj key p"
    and free: "accessor_free w a key p"
  shows "\<exists>w' obj'. set_property_at env a key p w = (Inr (), w') \<and> world_ok env w' \<and> objects w' a = Some obj'
    \<and> slot_written env w w' a key p \<and> accessors w' = accessors w \<and> same_shells w w'
    \<and> (object_map env obj key \<noteq> None \<longrightarrow> public_property q \<longrightarrow> key_fits obj' key q)"
proof -
  have obj: "object_ok env obj" using ok a by (simp add: world_ok_def)
  obtain obj' where obj': "object_set_property env key p obj = Some obj'" "object_ok env obj'"
    "key_written env key p obj obj'" "same_shell obj obj'"
    "object_map env obj key \<noteq> None \<longrightarrow> public_property q \<longrightarrow> key_fits obj' key q"
    using object_set_property_law [OF obj fits, of q] by (elim exE conjE)
  define w' where "w' = w\<lparr>objects := (objects w)(a \<mapsto> obj')\<rparr>"
  have slots: "slot_written env w w' a key p"
    using a obj'(3) by (auto simp: slot_written_def key_written_def w'_def object_slot_def key_stable_def)
  have stored: "b = a \<and> j = key \<and> q = p \<or> stored_slot w b j q" if "stored_slot w' b j q" for b j q
    using that a obj'(3) by (auto simp: stored_slot_def w'_def key_written_def split: if_splits)
  have set: "set_property_at env a key p w = (Inr (), w')"
    using a obj'(1) by (simp add: set_property_at_def read_object_def write_object_def effect_simps w'_def)
  have "accessors_ok (accessors w) (stored_slot w')"
  proof (rule accessors_ok_written)
    show "accessors_ok (accessors w) (stored_slot w)" using ok by (simp add: world_ok_def)
    show "b = a \<and> j = key \<and> q = p \<or> stored_slot w b j q" if "stored_slot w' b j q" for b j q
      using that by (rule stored)
  qed (use free in \<open>simp add: accessor_free_def\<close>)
  moreover have "\<forall>b obj. objects w' b = Some obj \<longrightarrow> object_ok env obj"
    using ok obj'(2) by (auto simp: w'_def world_ok_def)
  ultimately have "world_ok env w'" by (simp add: world_ok_def w'_def)
  moreover have "same_shells w w'"
    using a obj'(4) by (auto simp: same_shells_def w'_def option.rel_refl)
  moreover have "objects w' a = Some obj'" "accessors w' = accessors w" by (simp_all add: w'_def)
  ultimately show ?thesis using set slots obj'(5) by blast
qed

text \<open>A new accessor.\<close>

lemma abs_of_append:
  "world_ok env w \<Longrightarrow> object_slot env w a k = Some p \<Longrightarrow> abs_of (accessors w @ xs) p = abs_of (accessors w) p"
  using accessor_exists [of env w a k p] by (auto simp: abs_of_def nth_append split: slot.splits)

definition with_accessor :: "accessor \<Rightarrow> 's world \<Rightarrow> 's world" where
  "with_accessor acc w = w\<lparr>accessors := accessors w @ [acc]\<rparr>"

lemma with_accessor_slots [simp]:
  "object_slot env (with_accessor acc w) = object_slot env w" "stored_slot (with_accessor acc w) = stored_slot w"
  "key_stable (with_accessor acc w) = key_stable w"
  by (simp_all add: with_accessor_def object_slot_def stored_slot_def key_stable_def fun_eq_iff)

lemma with_accessor_fields [simp]:
  "objects (with_accessor acc w) = objects w" "accessors (with_accessor acc w) = accessors w @ [acc]"
  by (simp_all add: with_accessor_def)

lemma with_accessor_ok:
  assumes "world_ok env w"
  shows "world_ok env (with_accessor acc w)" and "same_shells w (with_accessor acc w)"
    and "own_property env (with_accessor acc w) = own_property env w"
proof -
  show "world_ok env (with_accessor acc w)"
    using assms by (fastforce simp: world_ok_def accessors_ok_def)
  show "same_shells w (with_accessor acc w)"
    by (simp add: same_shells_def with_accessor_def option.rel_refl)
  show "own_property env (with_accessor acc w) = own_property env w"
    using abs_of_append [OF assms] by (auto simp: own_property_def fun_eq_iff option.map_comp intro!: option.map_cong0)
qed

lemma new_accessor_eq:
  "new_accessor g s w = (Inr (AccessorSlot (length (accessors w))), with_accessor \<lparr>accessor_get = g, accessor_set = s\<rparr> w)"
  by (simp add: new_accessor_def with_accessor_def)

lemma new_accessor_free:
  assumes "world_ok env w" and "property_value p = AccessorSlot (length (accessors w))"
  shows "accessor_free (with_accessor acc w) a key p"
  using assms stored_accessor_exists [OF assms(1)] by (fastforce simp: accessor_free_def)

text \<open>An accessor that is changed in place.\<close>

definition set_accessor :: "nat \<Rightarrow> accessor \<Rightarrow> 's world \<Rightarrow> 's world" where
  "set_accessor i acc w = w\<lparr>accessors := (accessors w)[i := acc]\<rparr>"

lemma set_accessor_fields [simp]:
  "object_slot env (set_accessor i acc w) = object_slot env w" "stored_slot (set_accessor i acc w) = stored_slot w"
  "key_stable (set_accessor i acc w) = key_stable w" "objects (set_accessor i acc w) = objects w"
  "accessors (set_accessor i acc w) = (accessors w)[i := acc]"
  by (simp_all add: set_accessor_def object_slot_def stored_slot_def key_stable_def fun_eq_iff)

lemma set_accessor_twice [simp]: "set_accessor i y (set_accessor i x w) = set_accessor i y w"
  by (simp add: set_accessor_def)

lemma set_accessor_same [simp]: "set_accessor i (accessors w ! i) w = w"
  by (simp add: set_accessor_def)

lemma set_accessor_ok:
  assumes ok: "world_ok env w" and slot: "object_slot env w a key = Some p" and p: "property_value p = AccessorSlot i"
    and public: "public_property p"
  shows "world_ok env (set_accessor i acc w)" and "same_shells w (set_accessor i acc w)"
    and "own_property env (set_accessor i acc w) b j =
      (if b = a \<and> j = key then Some (abs_of ((accessors w)[i := acc]) p) else own_property env w b j)"
proof -
  show "world_ok env (set_accessor i acc w)"
    using ok by (simp add: world_ok_def accessors_ok_def)
  show "same_shells w (set_accessor i acc w)"
    by (simp add: same_shells_def set_accessor_def option.rel_refl)
  have "abs_of ((accessors w)[i := acc]) q = abs_of (accessors w) q"
    if "object_slot env w b j = Some q" "\<not> (b = a \<and> j = key)" for q
  proof -
    have "property_value q \<noteq> AccessorSlot i"
      using accessor_unshared [OF ok slot_stored [OF ok slot] p public slot_stored [OF ok that(1)]] that(2) by blast
    then have "(accessors w)[i := acc] ! n = accessors w ! n" if "property_value q = AccessorSlot n" for n
      using that by (metis nth_list_update_neq)
    then show ?thesis by (simp add: abs_of_def split: slot.split)
  qed
  then show "own_property env (set_accessor i acc w) b j =
      (if b = a \<and> j = key then Some (abs_of ((accessors w)[i := acc]) p) else own_property env w b j)"
    using slot by (auto simp: own_property_def intro!: option.map_cong0)
qed

lemma update_accessor_eq:
  "i < length (accessors w) \<Longrightarrow>
     update_accessor f (AccessorSlot i) w = (Inr (), set_accessor i (f (accessors w ! i)) w)"
  by (simp add: update_accessor_def set_accessor_def)

section \<open>The specification\<close>

text \<open>\<open>ValidateAndApplyPropertyDescriptor\<close>, on the present property.\<close>

fun abs_configurable :: "abs_property \<Rightarrow> bool" where
  "abs_configurable (AbsData _ _ _ configurable) = configurable"
| "abs_configurable (AbsAccessor _ _ _ configurable) = configurable"

fun abs_enumerable :: "abs_property \<Rightarrow> bool" where
  "abs_enumerable (AbsData _ _ enumerable _) = enumerable"
| "abs_enumerable (AbsAccessor _ _ enumerable _) = enumerable"

fun abs_is_accessor :: "abs_property \<Rightarrow> bool" where
  "abs_is_accessor (AbsData _ _ _ _) = False"
| "abs_is_accessor (AbsAccessor _ _ _ _) = True"

fun fields_allowed :: "(value_bits \<Rightarrow> value_bits \<Rightarrow> bool) \<Rightarrow> property_descriptor \<Rightarrow> abs_property \<Rightarrow> bool" where
  "fields_allowed same desc (AbsAccessor getter setter _ _) \<longleftrightarrow>
     (desc_has_get desc \<longrightarrow> desc_get desc = getter) \<and> (desc_has_set desc \<longrightarrow> desc_set desc = setter)"
| "fields_allowed same desc (AbsData v writable _ _) \<longleftrightarrow>
     writable \<or> desc_writable desc \<noteq> Some True \<and> (\<forall>u. desc_value desc = Some u \<longrightarrow> same u v)"

definition change_allowed :: "(value_bits \<Rightarrow> value_bits \<Rightarrow> bool) \<Rightarrow> property_descriptor \<Rightarrow> abs_property \<Rightarrow> bool" where
  "change_allowed same desc current \<longleftrightarrow>
     has_no_fields desc \<or> abs_configurable current \<or>
     (desc_configurable desc \<noteq> Some True
      \<and> (desc_enumerable desc = None \<or> desc_enumerable desc = Some (abs_enumerable current))
      \<and> (is_generic_descriptor desc \<or> is_accessor_descriptor desc = abs_is_accessor current)
      \<and> fields_allowed same desc current)"

definition given_or :: "'a option \<Rightarrow> 'a \<Rightarrow> 'a" where
  "given_or x d = (case x of None \<Rightarrow> d | Some a \<Rightarrow> a)"

lemma given_or_simps [simp]: "given_or None d = d" "given_or (Some a) d = a"
  by (simp_all add: given_or_def)

definition merged :: "property_descriptor \<Rightarrow> abs_property \<Rightarrow> abs_property" where
  "merged desc current =
     (let e = given_or (desc_enumerable desc) (abs_enumerable current);
          c = given_or (desc_configurable desc) (abs_configurable current) in
      case current of
        AbsData v writable _ _ \<Rightarrow>
          if is_accessor_descriptor desc then AbsAccessor (desc_get desc) (desc_set desc) e c
          else AbsData (given_or (desc_value desc) v) (given_or (desc_writable desc) writable) e c
      | AbsAccessor getter setter _ _ \<Rightarrow>
          if is_data_descriptor desc
          then AbsData (given_or (desc_value desc) value_undefined) (given_or (desc_writable desc) False) e c
          else AbsAccessor (if desc_has_get desc then desc_get desc else getter)
            (if desc_has_set desc then desc_set desc else setter) e c)"

definition created :: "property_descriptor \<Rightarrow> abs_property" where
  "created desc =
     (let e = given_or (desc_enumerable desc) False; c = given_or (desc_configurable desc) False in
      if is_accessor_descriptor desc then AbsAccessor (desc_get desc) (desc_set desc) e c
      else AbsData (given_or (desc_value desc) value_undefined) (given_or (desc_writable desc) False) e c)"

definition validate_and_apply ::
    "(value_bits \<Rightarrow> value_bits \<Rightarrow> bool) \<Rightarrow> bool \<Rightarrow> property_descriptor \<Rightarrow> abs_property option
      \<Rightarrow> bool \<times> abs_property option" where
  "validate_and_apply same extensible desc current =
     (case current of
        None \<Rightarrow> if extensible then (True, Some (created desc)) else (False, None)
      | Some p \<Rightarrow> if change_allowed same desc p then (True, Some (merged desc p)) else (False, Some p))"

text \<open>The fields of a descriptor without getter are \<open>None\<close>.\<close>

definition descriptor_ok :: "property_descriptor \<Rightarrow> bool" where
  "descriptor_ok desc \<longleftrightarrow> \<not> (is_accessor_descriptor desc \<and> is_data_descriptor desc)
     \<and> (\<not> desc_has_get desc \<longrightarrow> desc_get desc = None) \<and> (\<not> desc_has_set desc \<longrightarrow> desc_set desc = None)"

end
