(* ===== verification/Object_Define.thy ===== *)
theory Object_Define
  imports Object_Correct
begin

text \<open>
  \<open>validate_and_apply_property_descriptor\<close> implements its specification: the steps that change a
  property, the decisions, and the method of ordinary objects.
\<close>

section \<open>Changing a property\<close>

definition key_room :: "js_object \<Rightarrow> property_key \<Rightarrow> bool" where
  "key_room obj key \<longleftrightarrow> (\<forall>p. public_property p \<longrightarrow> key_fits obj key p)"

text \<open>
  A property of an object has changed: nothing else has, in other objects and for the other stable keys of
  this one.
\<close>

definition own_updated ::
    "('s, 'e) object_env \<Rightarrow> 's world \<Rightarrow> 's world \<Rightarrow> u64 \<Rightarrow> property_key \<Rightarrow> abs_property option \<Rightarrow> bool" where
  "own_updated env w w' a key x \<longleftrightarrow>
     own_property env w' a key = x
     \<and> (\<forall>b j. (b = a \<longrightarrow> j \<noteq> key \<and> key_stable w a j) \<longrightarrow> own_property env w' b j = own_property env w b j)
     \<and> (\<forall>j. j \<noteq> key \<longrightarrow> key_stable w a j \<longrightarrow> key_stable w' a j)"

lemma own_updated_refl: "own_property env w a key = x \<Longrightarrow> own_updated env w w a key x"
  by (simp add: own_updated_def)

lemma own_updated_trans:
  "own_updated env u v a key x \<Longrightarrow> own_updated env v w a key y \<Longrightarrow> own_updated env u w a key y"
  by (auto simp: own_updated_def)

lemma key_room_other: "key_room obj key \<longleftrightarrow>
    (case key of IndexKey i \<Rightarrow> i < MAX_U32 \<and> length_fits (array_properties obj) | _ \<Rightarrow> True)"
proof -
  have "\<exists>p :: slot property. public_property p"
    by (rule exI [of _ "data_property (DataSlot 0) True True True"]) simp
  then show ?thesis
    by (auto simp: key_room_def key_fits_def index_fits_def split: property_key.split)
qed

text \<open>A property that is written, with what it says in the abstract world.\<close>

lemma write_property_ok:
  assumes ok: "world_ok env w" and a: "objects w a = Some obj" and room: "key_room obj key"
    and p: "public_property p" "accessor_free w a key p"
  shows "\<exists>w'. set_property_at env a key p w = (Inr (), w') \<and> world_ok env w' \<and> same_shells w w'
    \<and> own_updated env w w' a key (Some (abs_of (accessors w) p)) \<and> object_slot env w' a key = Some p
    \<and> (\<exists>obj'. objects w' a = Some obj' \<and> (object_slot env w a key \<noteq> None \<longrightarrow> key_room obj' key))"
proof -
  have fits: "key_fits obj key p" using room p(1) by (simp add: key_room_def)
  obtain w' obj' where w': "set_property_at env a key p w = (Inr (), w')" "world_ok env w'" "objects w' a = Some obj'"
    "slot_written env w w' a key p"
    "accessors w' = accessors w" "same_shells w w'"
    "object_map env obj key \<noteq> None \<longrightarrow> public_property (data_property (DataSlot 0) True True True)
       \<longrightarrow> key_fits obj' key (data_property (DataSlot 0) True True True)"
    using set_property_at_ok [OF ok a fits p(2), of "data_property (DataSlot 0) True True True"]
    by (elim exE conjE)
  have "own_updated env w w' a key (Some (abs_of (accessors w) p))"
    using w'(4) by (auto simp: own_updated_def own_property_def slot_written_def w'(5))
  moreover have "object_slot env w a key \<noteq> None \<longrightarrow> key_room obj' key"
    using w'(7) by (auto simp: slot_of_object [OF a] key_room_other key_fits_def index_fits_def
        split: property_key.splits)
  moreover have "object_slot env w' a key = Some p" using w'(4) by (simp add: slot_written_def)
  ultimately show ?thesis using w'(1,2,3,6) by blast
qed

lemma data_accessor_free: "property_value p = DataSlot v \<Longrightarrow> accessor_free w a key p"
  by (simp add: accessor_free_def)

lemma own_accessor_free:
  "world_ok env w \<Longrightarrow> object_slot env w a key = Some p \<Longrightarrow> public_property p \<Longrightarrow> property_value q = property_value p \<Longrightarrow>
     accessor_free w a key q"
  using accessor_exists [of env w a key p] accessor_unshared [of env w a key p] slot_stored [of env w a key p]
  by (auto simp: accessor_free_def)

lemma set_given_value [simp]:
  "property_value (set_given x set_is_enumerable p) = property_value p"
  "property_value (set_given x set_is_configurable p) = property_value p"
  "property_value (set_given x set_is_writable p) = property_value p"
  by (simp_all add: set_given_def split: option.split)

lemma set_given_attributes [simp]:
  "is_enumerable (set_given x set_is_enumerable p) = given_or x (is_enumerable p)"
  "is_enumerable (set_given x set_is_configurable p) = is_enumerable p"
  "is_enumerable (set_given x set_is_writable p) = is_enumerable p"
  "is_configurable (set_given x set_is_enumerable p) = is_configurable p"
  "is_configurable (set_given x set_is_configurable p) = given_or x (is_configurable p)"
  "is_configurable (set_given x set_is_writable p) = is_configurable p"
  "is_writable (set_given x set_is_enumerable p) = is_writable p"
  "is_writable (set_given x set_is_configurable p) = is_writable p"
  "is_writable (set_given x set_is_writable p) = given_or x (is_writable p)"
  by (simp_all add: set_given_def split: option.split)

lemma set_given_public [simp]:
  "public_property p \<Longrightarrow> public_property (set_given x set_is_enumerable p)"
  "public_property p \<Longrightarrow> public_property (set_given x set_is_configurable p)"
  "public_property p \<Longrightarrow> public_property (set_given x set_is_writable p)"
  by (simp_all add: set_given_def split: option.split)

text \<open>The fields of a descriptor of the same kind are set.\<close>

lemma apply_data_ok:
  assumes ok: "world_ok env w" and a: "objects w a = Some obj" and room: "key_room obj key"
    and slot: "object_slot env w a key = Some p" and public: "public_property p"
    and v: "property_value p = DataSlot v" and desc: "is_data_descriptor desc" "descriptor_ok desc"
  shows "\<exists>w'. apply_descriptor env a key desc w = (Inr (), w') \<and> world_ok env w' \<and> same_shells w w'
    \<and> own_updated env w w' a key (Some (merged desc (abs_of (accessors w) p)))"
proof -
  define r where "r = set_given (desc_writable desc) set_is_writable
    (set_given (desc_configurable desc) set_is_configurable (set_given (desc_enumerable desc) set_is_enumerable p))"
  define q where "q = set_given (desc_value desc) (\<lambda>v p. p\<lparr>property_value := DataSlot v\<rparr>) r"
  have r: "property_value r = DataSlot v" "is_writable r = given_or (desc_writable desc) (is_writable p)"
    "is_enumerable r = given_or (desc_enumerable desc) (is_enumerable p)"
    "is_configurable r = given_or (desc_configurable desc) (is_configurable p)" "public_property r"
    using v public by (simp_all add: r_def)
  have q_value: "property_value q = DataSlot (given_or (desc_value desc) v)"
    using r(1) by (simp add: q_def set_given_def split: option.split)
  have attributes: "is_writable q = is_writable r" "is_enumerable q = is_enumerable r"
    "is_configurable q = is_configurable r" "public_property q"
    using r(5) by (simp_all add: q_def set_given_def split: option.split)
  obtain w' where w': "set_property_at env a key q w = (Inr (), w')" "world_ok env w'" "same_shells w w'"
    "own_updated env w w' a key (Some (abs_of (accessors w) q))"
    using write_property_ok [OF ok a room attributes(4) data_accessor_free [OF q_value]] by (elim exE conjE)
  have "apply_descriptor env a key desc w = (Inr (), w')"
    using desc(1) w'(1) slot
    by (simp add: apply_descriptor_def effect_simps get_property_at_ok [OF ok a] q_def r_def)
  moreover have "abs_of (accessors w) q = merged desc (abs_of (accessors w) p)"
    using desc by (simp add: abs_of_def q_value v attributes r(2-4) merged_def descriptor_ok_def Let_def)
  ultimately show ?thesis using w' by auto
qed

text \<open>The accessor is changed in place, then the attributes are written.\<close>

definition updated_accessor :: "property_descriptor \<Rightarrow> accessor \<Rightarrow> accessor" where
  "updated_accessor desc acc =
     \<lparr>accessor_get = (if desc_has_get desc then desc_get desc else accessor_get acc),
      accessor_set = (if desc_has_set desc then desc_set desc else accessor_set acc)\<rparr>"

lemma update_accessors_ok:
  assumes i: "i < length (accessors w)" and v: "v = AccessorSlot i"
  shows "effect_bind (if desc_has_get desc then update_accessor (\<lambda>a. a\<lparr>accessor_get := desc_get desc\<rparr>) v
       else effect_return ()) (\<lambda>_.
     effect_bind (if desc_has_set desc then update_accessor (\<lambda>a. a\<lparr>accessor_set := desc_set desc\<rparr>) v
       else effect_return ()) (\<lambda>_. m)) w
     = m (set_accessor i (updated_accessor desc (accessors w ! i)) w)"
proof -
  have same: "set_accessor i \<lparr>accessor_get = g, accessor_set = s\<rparr> w = w"
    if "accessors w ! i = \<lparr>accessor_get = g, accessor_set = s\<rparr>" for g s
    using set_accessor_same [of i w] that by simp
  show ?thesis
    unfolding v using i by (cases "desc_has_get desc"; cases "desc_has_set desc"; cases "accessors w ! i")
      (simp_all add: effect_simps update_accessor_eq updated_accessor_def same)
qed

lemma apply_other_ok:
  assumes ok: "world_ok env w" and a: "objects w a = Some obj" and room: "key_room obj key"
    and slot: "object_slot env w a key = Some p" and public: "public_property p"
    and desc: "\<not> is_data_descriptor desc" and kind: "is_accessor_descriptor desc \<longrightarrow> abs_is_accessor (abs_of (accessors w) p)"
  shows "\<exists>w'. apply_descriptor env a key desc w = (Inr (), w') \<and> world_ok env w' \<and> same_shells w w'
    \<and> own_updated env w w' a key (Some (merged desc (abs_of (accessors w) p)))"
proof -
  define q where "q = set_given (desc_configurable desc) set_is_configurable
      (set_given (desc_enumerable desc) set_is_enumerable p)"
  have q: "property_value q = property_value p" "public_property q"
    using public by (simp_all add: q_def)
  show ?thesis
  proof (cases "property_value p")
    case (DataSlot v)
    obtain w' where w': "set_property_at env a key q w = (Inr (), w')" "world_ok env w'" "same_shells w w'"
      "own_updated env w w' a key (Some (abs_of (accessors w) q))"
      using write_property_ok [OF ok a room q(2) data_accessor_free] DataSlot q(1) by (metis (no_types, lifting))
    have "\<not> desc_has_get desc" "\<not> desc_has_set desc"
      using kind DataSlot by (auto simp: abs_of_def is_accessor_descriptor_def)
    then have "apply_descriptor env a key desc w = (Inr (), w')"
      using desc w'(1) slot
      by (simp add: apply_descriptor_def effect_simps get_property_at_ok [OF ok a] q_def)
    moreover have "abs_of (accessors w) q = merged desc (abs_of (accessors w) p)"
      using desc kind by (auto simp: abs_of_def DataSlot q_def merged_def Let_def is_data_descriptor_def)
    ultimately show ?thesis using w' by auto
  next
    case (AccessorSlot i)
    have i: "i < length (accessors w)" by (rule accessor_exists [OF ok slot AccessorSlot])
    define acc where "acc = updated_accessor desc (accessors w ! i)"
    define w1 where "w1 = set_accessor i acc w"
    note w1 = set_accessor_ok [OF ok slot AccessorSlot public, of acc, folded w1_def]
    have free: "accessor_free w1 a key q"
      using own_accessor_free [OF w1(1) _ public q(1)] slot by (simp add: w1_def)
    obtain w' where w': "set_property_at env a key q w1 = (Inr (), w')" "world_ok env w'" "same_shells w1 w'"
      "own_updated env w1 w' a key (Some (abs_of (accessors w1) q))"
      using write_property_ok [OF w1(1) _ room q(2) free] a by (auto simp: w1_def)
    have "apply_descriptor env a key desc w = (Inr (), w')"
      using desc w'(1) slot q(1) AccessorSlot update_accessors_ok [OF i, of "property_value q" desc "set_property_at env a key q"]
      by (simp add: apply_descriptor_def effect_bind_def [of "get_property_at env a key"]
          get_property_at_ok [OF ok a] q_def [symmetric] w1_def acc_def Let_def split del: if_split)
    moreover have "abs_of (accessors w1) q = merged desc (abs_of (accessors w) p)"
      using desc i by (simp add: abs_of_def AccessorSlot q_def merged_def Let_def w1_def acc_def updated_accessor_def)
    moreover have "own_updated env w w1 a key (own_property env w1 a key)"
      using w1(3) by (auto simp: own_updated_def w1_def)
    ultimately show ?thesis
      using w' same_shells_trans [OF w1(2) w'(3)] own_updated_trans by metis
  qed
qed

lemma apply_descriptor_ok:
  assumes "world_ok env w" and "objects w a = Some obj" and "key_room obj key"
    and "object_slot env w a key = Some p" and "public_property p" and "descriptor_ok desc"
    and "is_accessor_descriptor desc \<Longrightarrow> abs_is_accessor (abs_of (accessors w) p)"
    and "is_data_descriptor desc \<Longrightarrow> \<not> abs_is_accessor (abs_of (accessors w) p)"
  shows "\<exists>w'. apply_descriptor env a key desc w = (Inr (), w') \<and> world_ok env w' \<and> same_shells w w'
    \<and> own_updated env w w' a key (Some (merged desc (abs_of (accessors w) p)))"
proof (cases "is_data_descriptor desc")
  case True
  then obtain v where "property_value p = DataSlot v"
    using assms(8) by (auto simp: abs_of_def split: slot.splits)
  then show ?thesis using apply_data_ok [OF assms(1-5) _ True assms(6)] by blast
next
  case False
  then show ?thesis using apply_other_ok [OF assms(1-5)] assms(7) by blast
qed

text \<open>The conversion between data and accessor properties.\<close>

definition converted :: "property_descriptor \<Rightarrow> abs_property \<Rightarrow> abs_property" where
  "converted desc current =
     (if is_data_descriptor desc
      then AbsData value_undefined False (abs_enumerable current) (abs_configurable current)
      else AbsAccessor None None (abs_enumerable current) (abs_configurable current))"

lemma convert_property_ok:
  assumes ok: "world_ok env w" and a: "objects w a = Some obj" and room: "key_room obj key"
    and slot: "object_slot env w a key = Some p" and public: "public_property p"
  shows "\<exists>w' obj' q. convert_property env a key desc w = (Inr (), w') \<and> world_ok env w' \<and> same_shells w w'
    \<and> own_updated env w w' a key (Some (converted desc (abs_of (accessors w) p)))
    \<and> objects w' a = Some obj' \<and> key_room obj' key \<and> object_slot env w' a key = Some q \<and> public_property q"
proof -
  have attributes: "abs_enumerable (abs_of (accessors w) p) = is_enumerable p"
    "abs_configurable (abs_of (accessors w) p) = is_configurable p"
    by (simp_all add: abs_of_def split: slot.split)
  show ?thesis
  proof (cases "is_data_descriptor desc")
    case True
    define q where "q = set_is_writable False (p\<lparr>property_value := DataSlot value_undefined\<rparr>)"
    have q: "property_value q = DataSlot value_undefined" "public_property q"
      using public by (simp_all add: q_def)
    have "convert_property env a key desc w = set_property_at env a key q w"
      using True slot by (simp add: convert_property_def effect_simps get_property_at_ok [OF ok a] q_def)
    moreover have "abs_of (accessors w) q = converted desc (abs_of (accessors w) p)"
      using True by (simp add: converted_def attributes) (simp add: abs_of_def q_def)
    ultimately show ?thesis
      using write_property_ok [OF ok a room q(2) data_accessor_free [OF q(1)]] slot q(2) by auto
  next
    case False
    define w1 where "w1 = with_accessor \<lparr>accessor_get = None, accessor_set = None\<rparr> w"
    define q where "q = p\<lparr>property_value := AccessorSlot (length (accessors w))\<rparr>"
    have q: "property_value q = AccessorSlot (length (accessors w))" "public_property q"
      using public by (simp_all add: q_def)
    note w1 = with_accessor_ok [OF ok, where acc = "\<lparr>accessor_get = None, accessor_set = None\<rparr>", folded w1_def]
    have "convert_property env a key desc w = set_property_at env a key q w1"
      using False slot
      by (simp add: convert_property_def effect_simps get_property_at_ok [OF ok a] q_def new_accessor_eq w1_def)
    moreover have "abs_of (accessors w1) q = converted desc (abs_of (accessors w) p)"
      using False by (simp add: converted_def attributes) (simp add: abs_of_def q_def w1_def)
    moreover have a1: "objects w1 a = Some obj" and "object_slot env w1 = object_slot env w" using a by (simp_all add: w1_def)
    moreover have "accessor_free w1 a key q" unfolding w1_def by (rule new_accessor_free [OF ok q(1)])
    moreover from calculation obtain w' obj' where w': "set_property_at env a key q w1 = (Inr (), w')" "world_ok env w'"
      "same_shells w1 w'" "own_updated env w1 w' a key (Some (abs_of (accessors w1) q))" "object_slot env w' a key = Some q"
      "objects w' a = Some obj'" "object_slot env w1 a key \<noteq> None \<longrightarrow> key_room obj' key"
      using write_property_ok [OF w1(1) a1 room q(2)] by blast
    moreover have "own_updated env w w' a key (Some (abs_of (accessors w1) q))"
      using w'(4) unfolding own_updated_def w1(3) by (simp add: w1_def)
    ultimately show ?thesis
      using same_shells_trans [OF w1(2) w'(3)] slot q(2) by auto
  qed
qed

lemma merged_converted:
  assumes "descriptor_ok desc" and "\<not> is_generic_descriptor desc" and "abs_is_accessor p \<noteq> is_accessor_descriptor desc"
  shows "merged desc (converted desc p) = merged desc p"
  using assms by (cases p) (auto simp: merged_def converted_def Let_def descriptor_ok_def is_generic_descriptor_def)

section \<open>The decisions\<close>

text \<open>
  A property that cannot change is left alone even if the descriptor has another value that is the same
  for \<open>SameValue\<close>.
\<close>

definition same_property :: "(value_bits \<Rightarrow> value_bits \<Rightarrow> bool) \<Rightarrow> abs_property \<Rightarrow> abs_property \<Rightarrow> bool" where
  "same_property same p q \<longleftrightarrow> p = q \<or>
     (\<exists>v u writable enumerable configurable. p = AbsData v writable enumerable configurable
        \<and> q = AbsData u writable enumerable configurable \<and> same u v)"

lemma same_property_refl [simp]: "same_property same p p"
  by (simp add: same_property_def)

lemma descriptor_of_fields [simp]:
  "desc_is_configurable (descriptor_of p) = abs_configurable p"
  "desc_is_enumerable (descriptor_of p) = abs_enumerable p"
  "is_data_descriptor (descriptor_of p) \<longleftrightarrow> \<not> abs_is_accessor p"
  "is_accessor_descriptor (descriptor_of p) = abs_is_accessor p"
  by (cases p; simp add: desc_is_configurable_def desc_is_enumerable_def is_data_descriptor_def
      is_accessor_descriptor_def data_descriptor_def accessor_descriptor_def)+

lemma no_fields:
  "has_no_fields desc \<Longrightarrow> merged desc p = p" "has_no_fields desc \<Longrightarrow> is_generic_descriptor desc"
  by (cases p; auto simp: has_no_fields_def merged_def is_accessor_descriptor_def is_data_descriptor_def
      is_generic_descriptor_def)+

lemma generic_fields_allowed: "is_generic_descriptor desc \<Longrightarrow> fields_allowed same desc p"
  by (cases p) (auto simp: is_generic_descriptor_def is_accessor_descriptor_def is_data_descriptor_def)

text \<open>What the code decides to do with a property it found.\<close>

datatype outcome = Reject | Keep | Apply | Convert

definition decide :: "(value_bits \<Rightarrow> value_bits \<Rightarrow> bool) \<Rightarrow> property_descriptor \<Rightarrow> abs_property \<Rightarrow> outcome" where
  "decide same desc p =
     (if has_no_fields desc then Keep
      else if \<not> abs_configurable p \<and> desc_configurable desc = Some True then Reject
      else if \<not> abs_configurable p \<and> desc_enumerable desc \<noteq> None
          \<and> desc_enumerable desc \<noteq> Some (abs_enumerable p) then Reject
      else if is_generic_descriptor desc then Apply
      else if abs_is_accessor p \<noteq> is_accessor_descriptor desc then
        (if abs_configurable p then Convert else Reject)
      else if fields_allowed same desc p then
        (if abs_configurable p \<or> (\<exists>v e c. p = AbsData v True e c) then Apply else Keep)
      else if abs_configurable p then Apply else Reject)"

lemma decide_allowed:
  "decide same desc p = Reject \<longleftrightarrow> \<not> change_allowed same desc p"
  using generic_fields_allowed [of desc same p]
  by (auto simp: decide_def change_allowed_def)

lemma decide_keep:
  assumes "decide same desc p = Keep" and "descriptor_ok desc"
  shows "same_property same p (merged desc p)"
proof (cases "has_no_fields desc")
  case True
  then show ?thesis by (simp add: no_fields)
next
  case False
  then show ?thesis
    using assms by (cases p)
      (auto simp: decide_def merged_def same_property_def descriptor_ok_def Let_def is_data_descriptor_def
        is_accessor_descriptor_def is_generic_descriptor_def given_or_def split: if_splits option.splits)
qed

lemma validate_decides:
  assumes desc: "descriptor_ok desc"
  shows "validate_and_apply_property_descriptor env (Some a) key extensible desc (Some (descriptor_of p)) w =
    (case decide (same_value (base_env env)) desc p of
       Reject \<Rightarrow> (Inr False, w)
     | Keep \<Rightarrow> (Inr True, w)
     | Apply \<Rightarrow> effect_bind (apply_descriptor env a key desc) (\<lambda>_. effect_return True) w
     | Convert \<Rightarrow> effect_bind (convert_property env a key desc) (\<lambda>_.
         effect_bind (apply_descriptor env a key desc) (\<lambda>_. effect_return True)) w)"
proof -
  have kinds: "is_generic_descriptor desc \<or> is_data_descriptor desc = (\<not> is_accessor_descriptor desc)"
    using desc by (auto simp: descriptor_ok_def is_generic_descriptor_def)
  show ?thesis
  proof (cases p)
    case (AbsData v writable e c)
    then show ?thesis
      using kinds
      by (cases "desc_enumerable desc"; cases "desc_value desc")
        (auto simp: validate_and_apply_property_descriptor_def decide_def effect_return_def effect_bind_def
          value_differs_def data_descriptor_def desc_is_writable_def desc_is_configurable_def
          desc_is_enumerable_def is_data_descriptor_def [of "\<lparr>desc_value = _, desc_writable = _,
            desc_enumerable = _, desc_configurable = _, desc_has_get = _, desc_has_set = _, desc_get = _,
            desc_set = _\<rparr>"] Let_def split: if_splits)
  next
    case (AbsAccessor g s e c)
    then show ?thesis
      using kinds
      by (cases "desc_enumerable desc")
        (auto simp: validate_and_apply_property_descriptor_def decide_def effect_return_def
          accessor_descriptor_def desc_is_configurable_def desc_is_enumerable_def other_function_def
          is_data_descriptor_def [of "\<lparr>desc_value = _, desc_writable = _,
            desc_enumerable = _, desc_configurable = _, desc_has_get = _, desc_has_set = _, desc_get = _,
            desc_set = _\<rparr>"] Let_def split: if_splits)
  qed
qed

section \<open>Defining a property\<close>

lemma create_property_ok:
  assumes ok: "world_ok env w" and a: "objects w a = Some obj" and room: "key_room obj key"
    and desc: "descriptor_ok desc"
  shows "\<exists>w'. effect_bind (property_of_descriptor desc) (\<lambda>property.
       effect_bind (set_property_at env a key property) (\<lambda>_. effect_return True)) w = (Inr True, w')
    \<and> world_ok env w' \<and> same_shells w w' \<and> own_updated env w w' a key (Some (created desc))"
proof (cases "is_accessor_descriptor desc")
  case True
  define w1 where "w1 = with_accessor \<lparr>accessor_get = desc_get desc, accessor_set = desc_set desc\<rparr> w"
  define q where "q = accessor_property (AccessorSlot (length (accessors w)))
    (desc_is_enumerable desc) (desc_is_configurable desc)"
  have q: "property_value q = AccessorSlot (length (accessors w))" "public_property q"
    by (simp_all add: q_def)
  note w1 = with_accessor_ok [OF ok, where acc = "\<lparr>accessor_get = desc_get desc, accessor_set = desc_set desc\<rparr>",
      folded w1_def]
  have "accessor_free w1 a key q" unfolding w1_def by (rule new_accessor_free [OF ok q(1)])
  moreover have "objects w1 a = Some obj" using a by (simp add: w1_def)
  ultimately obtain w' where w': "set_property_at env a key q w1 = (Inr (), w')" "world_ok env w'"
    "same_shells w1 w'" "own_updated env w1 w' a key (Some (abs_of (accessors w1) q))"
    using write_property_ok [OF w1(1) _ room q(2)] by blast
  have "abs_of (accessors w1) q = created desc"
    using True by (simp add: abs_of_def w1_def q_def created_def desc_is_enumerable_def
        desc_is_configurable_def given_or_def)
  moreover have "own_updated env w w' a key (Some (abs_of (accessors w1) q))"
    using w'(4) unfolding own_updated_def w1(3) by (simp add: w1_def)
  ultimately show ?thesis
    using True w'(1,2) same_shells_trans [OF w1(2) w'(3)]
    by (simp add: property_of_descriptor_def effect_simps new_accessor_eq Let_def q_def w1_def)
next
  case False
  define v where "v = given_or (desc_value desc) value_undefined"
  define q where "q = data_property (DataSlot v) (desc_is_writable desc) (desc_is_enumerable desc)
    (desc_is_configurable desc)"
  have q: "property_value q = DataSlot v" "public_property q"
    by (simp_all add: q_def)
  obtain w' where w': "set_property_at env a key q w = (Inr (), w')" "world_ok env w'"
    "same_shells w w'" "own_updated env w w' a key (Some (abs_of (accessors w) q))"
    using write_property_ok [OF ok a room q(2) data_accessor_free [OF q(1)]] by blast
  have "abs_of (accessors w) q = created desc"
    using False by (simp add: abs_of_def q_def created_def desc_is_writable_def desc_is_enumerable_def
        desc_is_configurable_def given_or_def v_def)
  then show ?thesis
    using False w' by (simp add: property_of_descriptor_def effect_simps Let_def q_def v_def given_or_def)
qed

text \<open>The properties and the accessors of the world, given a public key.\<close>

definition public_key :: "('s, 'e) object_env \<Rightarrow> 's world \<Rightarrow> u64 \<Rightarrow> property_key \<Rightarrow> bool" where
  "public_key env w a key \<longleftrightarrow> (\<forall>p. object_slot env w a key = Some p \<longrightarrow> public_property p)"

lemma validate_and_apply_ok:
  fixes extensible :: bool
  assumes ok: "world_ok env w" and a: "objects w a = Some obj" and room: "key_room obj key"
    and public: "public_key env w a key" and desc: "descriptor_ok desc"
  defines "R \<equiv> validate_and_apply (same_value (base_env env)) extensible desc (own_property env w a key)"
  shows "\<exists>w' x. validate_and_apply_property_descriptor env (Some a) key extensible desc
        (map_option descriptor_of (own_property env w a key)) w = (Inr (fst R), w')
    \<and> world_ok env w' \<and> same_shells w w' \<and> own_updated env w w' a key x
    \<and> rel_option (same_property (same_value (base_env env))) x (snd R)"
proof (cases "object_slot env w a key")
  case None
  then have none: "own_property env w a key = None" by (simp add: own_property_def)
  show ?thesis
  proof (cases extensible)
    case True
    then have "validate_and_apply_property_descriptor env (Some a) key extensible desc
        (map_option descriptor_of (own_property env w a key)) w
      = effect_bind (property_of_descriptor desc) (\<lambda>property.
          effect_bind (set_property_at env a key property) (\<lambda>_. effect_return True)) w"
      by (simp add: validate_and_apply_property_descriptor_def none)
    with create_property_ok [OF ok a room desc] True show ?thesis
      by (fastforce simp: R_def validate_and_apply_def none)
  next
    case False
    then show ?thesis
      using ok own_updated_refl [OF none]
      by (auto simp: validate_and_apply_property_descriptor_def none R_def validate_and_apply_def
          effect_return_def)
  qed
next
  case (Some p)
  define P where "P = abs_of (accessors w) p"
  define same where "same = same_value (base_env env)"
  have own: "own_property env w a key = Some P" by (simp add: own_property_def Some P_def)
  have p: "public_property p" using public Some by (simp add: public_key_def)
  note code = validate_decides [OF desc, of env a key extensible P w, folded same_def]
  have R_eq: "R = (if change_allowed same desc P then (True, Some (merged desc P)) else (False, Some P))"
    by (simp add: R_def validate_and_apply_def own same_def)
  note unchanged = own_updated_refl [OF own]
  show ?thesis
  proof (cases "decide same desc P")
    case Reject
    then have "R = (False, Some P)" using decide_allowed [of same desc P] by (simp add: R_eq)
    then show ?thesis using Reject ok unchanged by (auto simp: code own)
  next
    case Keep
    then have "R = (True, Some (merged desc P))" using decide_allowed [of same desc P] by (simp add: R_eq)
    then show ?thesis
      using Keep ok unchanged decide_keep [OF Keep desc] by (auto simp: code own same_def)
  next
    case Apply
    then have "R = (True, Some (merged desc P))" using decide_allowed [of same desc P] by (simp add: R_eq)
    moreover have "is_accessor_descriptor desc \<Longrightarrow> abs_is_accessor P"
      "is_data_descriptor desc \<Longrightarrow> \<not> abs_is_accessor P"
      using Apply desc by (auto simp: decide_def descriptor_ok_def is_generic_descriptor_def split: if_splits)
    ultimately show ?thesis
      using Apply apply_descriptor_ok [OF ok a room Some p desc, folded P_def]
      by (fastforce simp: code own effect_simps)
  next
    case Convert
    then have R_merged: "R = (True, Some (merged desc P))" using decide_allowed [of same desc P] by (simp add: R_eq)
    have kinds: "\<not> is_generic_descriptor desc" "abs_is_accessor P \<noteq> is_accessor_descriptor desc"
      using Convert by (auto simp: decide_def split: if_splits)
    obtain w1 obj1 q where w1: "convert_property env a key desc w = (Inr (), w1)" "world_ok env w1"
      "same_shells w w1" "own_updated env w w1 a key (Some (converted desc P))" "objects w1 a = Some obj1"
      "key_room obj1 key" "object_slot env w1 a key = Some q" "public_property q"
      using convert_property_ok [OF ok a room Some p, of desc, folded P_def] by (elim exE conjE)
    have q: "abs_of (accessors w1) q = converted desc P"
    proof -
      have "own_property env w1 a key = Some (converted desc P)" using w1(4) by (simp add: own_updated_def)
      then show ?thesis by (simp add: own_property_def w1(7))
    qed
    have "is_accessor_descriptor desc \<Longrightarrow> abs_is_accessor (abs_of (accessors w1) q)"
      "is_data_descriptor desc \<Longrightarrow> \<not> abs_is_accessor (abs_of (accessors w1) q)"
      using desc by (auto simp: q converted_def descriptor_ok_def)
    then obtain w' where w': "apply_descriptor env a key desc w1 = (Inr (), w')" "world_ok env w'"
      "same_shells w1 w'" "own_updated env w1 w' a key (Some (merged desc (converted desc P)))"
      using apply_descriptor_ok [OF w1(2,5,6,7,8) desc] by (auto simp: q)
    have "own_updated env w w' a key (Some (merged desc P))"
      using own_updated_trans [OF w1(4) w'(4)] merged_converted [OF desc kinds] by simp
    then show ?thesis
      using Convert w1(1) w'(1,2) same_shells_trans [OF w1(3) w'(3)]
      by (auto simp: code own effect_simps R_merged)
  qed
qed

lemma ordinary_define_own_property_ok:
  assumes ok: "world_ok env w" and a: "objects w a = Some obj" and room: "key_room obj key"
    and public: "public_key env w a key" and desc: "descriptor_ok desc"
    and kind: "object_kind obj = OrdinaryKind \<or> object_kind obj = ObjectPrototypeKind"
  defines "R \<equiv> validate_and_apply (same_value (base_env env)) (is_extensible_field obj) desc (own_property env w a key)"
  shows "\<exists>w' x. vm_define_own_property (object_methods env (Suc (Suc n))) a key desc w = (Inr (fst R), w')
    \<and> world_ok env w' \<and> same_shells w w' \<and> own_updated env w w' a key x
    \<and> rel_option (same_property (same_value (base_env env))) x (snd R)"
proof -
  have "vm_define_own_property (object_methods env (Suc (Suc n))) a key desc w
    = validate_and_apply_property_descriptor env (Some a) key (is_extensible_field obj) desc
        (map_option descriptor_of (own_property env w a key)) w"
    using kind a by (auto simp: dispatch_methods_def of_kind_def read_object_def effect_bind_def
        ordinary_define_own_property_def ordinary_get_own_property_ok [OF ok a] ordinary_is_extensible_def
        effect_return_def)
  then show ?thesis
    unfolding R_def using validate_and_apply_ok [OF ok a room public desc] by simp
qed

end
