(* ===== verification/Object_Prototypes.thy ===== *)
theory Object_Prototypes
  imports Object_Define
begin

text \<open>
  Prototype chains: setting a prototype keeps them free of cycles, so the walk along a chain ends, and
  reading a property finds the first object that has it.
\<close>

section \<open>Chains without cycles\<close>

text \<open>The pairs of a prototype and an object that has it and is not a proxy.\<close>

definition prototype_links :: "(u64 \<Rightarrow> js_object option) \<Rightarrow> (u64 \<times> u64) set" where
  "prototype_links objs = {(p, a). \<exists>obj. objs a = Some obj \<and> \<not> is_proxy obj \<and> object_prototype obj = Some p}"

definition prototypes_ok :: "'s world \<Rightarrow> bool" where
  "prototypes_ok w \<longleftrightarrow> acyclic (prototype_links (objects w))
     \<and> (\<forall>a obj p. objects w a = Some obj \<longrightarrow> object_prototype obj = Some p \<longrightarrow> objects w p \<noteq> None)"

lemma wf_prototype_links: "acyclic (prototype_links objs) \<Longrightarrow> wf (prototype_links objs)"
  by (rule finite_acyclic_wf) (auto intro: finite_subset [OF subset_UNIV])

lemma links_to:
  assumes "objs q = Some obj"
  shows "(a, q) \<in> (prototype_links objs)\<^sup>* \<longleftrightarrow> a = q \<or>
    \<not> is_proxy obj \<and> (\<exists>r. object_prototype obj = Some r \<and> (a, r) \<in> (prototype_links objs)\<^sup>*)"
proof
  assume "(a, q) \<in> (prototype_links objs)\<^sup>*"
  then show "a = q \<or> \<not> is_proxy obj \<and> (\<exists>r. object_prototype obj = Some r \<and> (a, r) \<in> (prototype_links objs)\<^sup>*)"
    using assms by (cases rule: rtranclE) (auto simp: prototype_links_def)
next
  assume "a = q \<or> \<not> is_proxy obj \<and> (\<exists>r. object_prototype obj = Some r \<and> (a, r) \<in> (prototype_links objs)\<^sup>*)"
  then show "(a, q) \<in> (prototype_links objs)\<^sup>*"
    using assms by (auto simp: prototype_links_def intro: rtrancl_into_rtrancl)
qed

text \<open>The loop of \<open>ordinary_set_prototype_of\<close> ends, and finds out whether the object is in the chain.\<close>

lemma chain_reaches_object:
  assumes ok: "prototypes_ok w"
  shows "objects w q \<noteq> None \<Longrightarrow>
    chain_reaches (objects w) a (Some q) = Some ((a, q) \<in> (prototype_links (objects w))\<^sup>*)"
proof (induction q rule: wf_induct [OF wf_prototype_links [of "objects w"]])
  case 1
  then show ?case using ok by (simp add: prototypes_ok_def)
next
  case (2 q)
  then obtain obj where obj: "objects w q = Some obj" by blast
  note step = links_to [of "objects w" q obj a, OF obj]
  have next_reaches: "chain_reaches (objects w) a (Some r) = Some ((a, r) \<in> (prototype_links (objects w))\<^sup>*)"
    if "object_prototype obj = Some r" "\<not> is_proxy obj" for r
  proof -
    have "(r, q) \<in> prototype_links (objects w)" using obj that by (auto simp: prototype_links_def)
    moreover have "objects w r \<noteq> None" using ok obj that(1) by (auto simp: prototypes_ok_def)
    ultimately show ?thesis using "2.IH" by blast
  qed
  show ?case
    using obj step next_reaches
    by (subst chain_reaches.simps, cases "object_prototype obj") (auto simp: chain_reaches.simps [of _ _ None])
qed

lemma chain_reaches_ok:
  assumes ok: "prototypes_ok w" and p: "\<And>q. p = Some q \<Longrightarrow> objects w q \<noteq> None"
  shows "chain_reaches (objects w) a p = Some (\<exists>q. p = Some q \<and> (a, q) \<in> (prototype_links (objects w))\<^sup>*)"
  using chain_reaches_object [OF ok p] by (cases p) (simp_all add: chain_reaches.simps [of _ _ None])

definition set_prototype_allowed :: "'s world \<Rightarrow> u64 \<Rightarrow> js_object \<Rightarrow> u64 option \<Rightarrow> bool" where
  "set_prototype_allowed w a obj p \<longleftrightarrow> object_prototype obj = p
     \<or> object_kind obj \<noteq> ObjectPrototypeKind \<and> is_extensible_field obj
       \<and> \<not> (\<exists>q. p = Some q \<and> (a, q) \<in> (prototype_links (objects w))\<^sup>*)"

definition with_prototype :: "'s world \<Rightarrow> u64 \<Rightarrow> js_object \<Rightarrow> u64 option \<Rightarrow> 's world" where
  "with_prototype w a obj p = w\<lparr>objects := (objects w)(a \<mapsto> obj\<lparr>object_prototype := p\<rparr>)\<rparr>"

lemma same_prototype: "objects w a = Some obj \<Longrightarrow> object_prototype obj = p \<Longrightarrow> with_prototype w a obj p = w"
proof -
  assume a: "objects w a = Some obj" and "object_prototype obj = p"
  then have "obj\<lparr>object_prototype := p\<rparr> = obj" by (cases obj) simp
  then show ?thesis using a by (cases w) (simp add: with_prototype_def fun_upd_idem)
qed

lemma with_prototype_ok:
  assumes ok: "prototypes_ok w" and a: "objects w a = Some obj" and p: "\<And>q. p = Some q \<Longrightarrow> objects w q \<noteq> None"
    and allowed: "set_prototype_allowed w a obj p"
  shows "prototypes_ok (with_prototype w a obj p)"
proof (cases "object_prototype obj = p")
  case True
  then show ?thesis using ok same_prototype [OF a] by simp
next
  case False
  let ?objs = "(objects w)(a \<mapsto> obj\<lparr>object_prototype := p\<rparr>)"
  have "acyclic (prototype_links ?objs)"
  proof (cases p)
    case None
    have "prototype_links ?objs \<subseteq> prototype_links (objects w)"
      using a by (auto simp: prototype_links_def None split: if_splits)
    then show ?thesis using ok by (auto simp: prototypes_ok_def intro: acyclic_subset)
  next
    case (Some q)
    have "(a, q) \<notin> (prototype_links (objects w))\<^sup>*"
      using False allowed Some by (auto simp: set_prototype_allowed_def)
    then have "acyclic (insert (q, a) (prototype_links (objects w)))"
      using ok by (simp add: acyclic_insert prototypes_ok_def)
    moreover have "prototype_links ?objs \<subseteq> insert (q, a) (prototype_links (objects w))"
      by (auto simp: prototype_links_def Some split: if_splits)
    ultimately show ?thesis by (rule acyclic_subset)
  qed
  then show ?thesis using ok p by (auto simp: with_prototype_def prototypes_ok_def)
qed

lemma ordinary_set_prototype_of_ok:
  assumes ok: "prototypes_ok w" and a: "objects w a = Some obj"
    and p: "\<And>q. p = Some q \<Longrightarrow> objects w q \<noteq> None"
  shows "ordinary_set_prototype_of a p w =
    (Inr (set_prototype_allowed w a obj p),
     if set_prototype_allowed w a obj p then with_prototype w a obj p else w)"
proof (cases "object_prototype obj = p")
  case True
  then show ?thesis
    using a same_prototype [OF a True] by (simp add: ordinary_set_prototype_of_def read_object_def effect_simps
        set_prototype_allowed_def)
next
  case False
  then show ?thesis
    using a chain_reaches_ok [OF ok p, where a = a]
    by (auto simp: ordinary_set_prototype_of_def read_object_def effect_simps write_object_def
        set_prototype_allowed_def with_prototype_def)
qed

section \<open>Reading a property\<close>

text \<open>The own property that an object that is not a proxy reports.\<close>

definition reported_property ::
    "('s, 'e) object_env \<Rightarrow> 's world \<Rightarrow> u64 \<Rightarrow> property_key \<Rightarrow> property_descriptor option" where
  "reported_property env w a key =
     (case objects w a of
        None \<Rightarrow> None
      | Some obj \<Rightarrow>
          (case object_kind obj of
             ArrayKind writable \<Rightarrow>
               if key = length_key then Some (data_descriptor
                 (value_of_u32 (of_nat (array_properties_length obj))) writable False False)
               else map_option descriptor_of (own_property env w a key)
           | _ \<Rightarrow> map_option descriptor_of (own_property env w a key)))"

lemmas dispatch_simps = dispatch_methods_def of_kind_def read_object_def effect_bind_def effect_return_def is_proxy_def

lemma vm_get_own_property_ok:
  assumes ok: "world_ok env w" and a: "objects w a = Some obj" and plain: "\<not> is_proxy obj"
  shows "vm_get_own_property (object_methods env (Suc n)) a key w = (Inr (reported_property env w a key), w)"
  using plain a by (cases "object_kind obj")
    (auto simp: dispatch_simps ordinary_get_own_property_ok [OF ok a] array_get_own_property_def
      reported_property_def is_length_writable_def)

lemma vm_get_prototype_of_ok:
  assumes a: "objects w a = Some obj" and plain: "\<not> is_proxy obj"
  shows "vm_get_prototype_of (object_methods env (Suc n)) a w = (Inr (object_prototype obj), w)"
  using plain a by (cases "object_kind obj") (auto simp: dispatch_simps ordinary_get_prototype_of_def)

lemma vm_get_plain:
  "objects w a = Some obj \<Longrightarrow> \<not> is_proxy obj \<Longrightarrow>
     vm_get (object_methods env (Suc n)) a key receiver w = ordinary_get env (object_methods env n) a key receiver w"
  by (cases "object_kind obj") (auto simp: dispatch_simps)

text \<open>A chain: objects that are no proxies, each the prototype of the one before it, the last without one.\<close>

fun prototype_chain :: "(u64 \<Rightarrow> js_object option) \<Rightarrow> u64 \<Rightarrow> u64 list \<Rightarrow> bool" where
  "prototype_chain objs a [] = False"
| "prototype_chain objs a (b # bs) \<longleftrightarrow> a = b \<and>
     (\<exists>obj. objs a = Some obj \<and> \<not> is_proxy obj \<and>
        (case object_prototype obj of None \<Rightarrow> bs = [] | Some p \<Rightarrow> prototype_chain objs p bs))"

definition read_descriptor ::
    "('s, 'e) object_env \<Rightarrow> value_bits \<Rightarrow> property_descriptor \<Rightarrow> ('s, 'e, value_bits) obj_effect" where
  "read_descriptor env receiver desc =
     (if is_data_descriptor desc then effect_return (given_or (desc_value desc) value_undefined)
      else (case desc_get desc of
        None \<Rightarrow> effect_return value_undefined
      | Some getter \<Rightarrow> call_function env getter receiver []))"

fun chain_lookup :: "('s, 'e) object_env \<Rightarrow> 's world \<Rightarrow> property_key \<Rightarrow> u64 list \<Rightarrow> property_descriptor option" where
  "chain_lookup env w key [] = None"
| "chain_lookup env w key (b # bs) =
     (case reported_property env w b key of None \<Rightarrow> chain_lookup env w key bs | Some desc \<Rightarrow> Some desc)"

lemma descriptor_of_value: "\<not> abs_is_accessor P \<Longrightarrow> \<exists>v. desc_value (descriptor_of P) = Some v"
  by (cases P) (simp_all add: data_descriptor_def)

lemma reported_value:
  "reported_property env w a key = Some desc \<Longrightarrow> is_data_descriptor desc \<Longrightarrow> \<exists>v. desc_value desc = Some v"
  using descriptor_of_value
  by (auto simp: reported_property_def data_descriptor_def
      split: option.splits object_kind.splits if_splits)

lemma ordinary_get_step:
  assumes ok: "world_ok env w" and a: "objects w a = Some obj" and plain: "\<not> is_proxy obj"
  shows "ordinary_get env (object_methods env (Suc n)) a key receiver w =
    (case reported_property env w a key of
       Some desc \<Rightarrow> read_descriptor env receiver desc w
     | None \<Rightarrow>
         (case object_prototype obj of
            None \<Rightarrow> (Inr value_undefined, w)
          | Some p \<Rightarrow> vm_get (object_methods env (Suc n)) p key receiver w))"
  using reported_value [of env w a key]
  by (auto simp: ordinary_get_def effect_bind_def effect_return_def vm_get_own_property_ok [OF assms]
      vm_get_prototype_of_ok [OF a plain] read_descriptor_def effect_option_def split: option.split
      simp del: object_methods.simps)

lemma get_along_chain:
  assumes ok: "world_ok env w"
  shows "prototype_chain (objects w) a chain \<Longrightarrow> length chain \<le> n \<Longrightarrow>
    vm_get (object_methods env (Suc n)) a key receiver w =
      (case chain_lookup env w key chain of
         None \<Rightarrow> (Inr value_undefined, w)
       | Some desc \<Rightarrow> read_descriptor env receiver desc w)"
proof (induction chain arbitrary: a n)
  case (Cons b bs)
  then obtain n' where n: "n = Suc n'" by (cases n) auto
  obtain obj where a: "objects w a = Some obj" "\<not> is_proxy obj" "a = b"
    and parent: "case object_prototype obj of None \<Rightarrow> bs = [] | Some p \<Rightarrow> prototype_chain (objects w) p bs"
    using Cons.prems(1) by auto
  have get: "vm_get (object_methods env (Suc n)) a key receiver w =
      ordinary_get env (object_methods env (Suc n')) a key receiver w"
    unfolding n by (rule vm_get_plain [OF a(1,2)])
  show ?case
  proof (cases "object_prototype obj")
    case None
    then have "bs = []" using parent by simp
    then show ?thesis
      unfolding get ordinary_get_step [OF ok a(1,2)] using None a(3) by (simp split: option.split)
  next
    case (Some p)
    have "prototype_chain (objects w) p bs" "length bs \<le> n'" using parent Some Cons.prems(2) n by simp_all
    note IH = Cons.IH [OF this]
    show ?thesis
      unfolding get ordinary_get_step [OF ok a(1,2)] Some option.case(2) IH
      using a(3) by (simp split: option.split)
  qed
qed simp

text \<open>Without cycles there is a chain, not longer than there are objects.\<close>

definition no_proxy_above :: "(u64 \<Rightarrow> js_object option) \<Rightarrow> u64 \<Rightarrow> bool" where
  "no_proxy_above objs a \<longleftrightarrow> (\<forall>b obj. (b, a) \<in> (prototype_links objs)\<^sup>* \<longrightarrow> objs b = Some obj \<longrightarrow> \<not> is_proxy obj)"

lemma prototype_chain_exists:
  assumes ok: "prototypes_ok w"
  shows "objects w a \<noteq> None \<Longrightarrow> no_proxy_above (objects w) a \<Longrightarrow>
    \<exists>chain. prototype_chain (objects w) a chain \<and> distinct chain
      \<and> (\<forall>b \<in> set chain. objects w b \<noteq> None \<and> (b, a) \<in> (prototype_links (objects w))\<^sup>*)"
proof (induction a rule: wf_induct [OF wf_prototype_links [of "objects w"]])
  case 1
  then show ?case using ok by (simp add: prototypes_ok_def)
next
  case (2 a)
  then obtain obj where obj: "objects w a = Some obj" by blast
  have proxy: "\<not> is_proxy obj" using 2 obj by (auto simp: no_proxy_above_def)
  show ?case
  proof (cases "object_prototype obj")
    case None
    then show ?thesis using obj proxy by (intro exI [of _ "[a]"]) auto
  next
    case (Some p)
    have link: "(p, a) \<in> prototype_links (objects w)" using obj Some proxy by (auto simp: prototype_links_def)
    moreover have "objects w p \<noteq> None" using ok obj Some by (auto simp: prototypes_ok_def)
    moreover have "no_proxy_above (objects w) p"
      using 2 link by (auto simp: no_proxy_above_def intro: rtrancl_into_rtrancl)
    ultimately obtain chain where chain: "prototype_chain (objects w) p chain" "distinct chain"
      "\<forall>b \<in> set chain. objects w b \<noteq> None \<and> (b, p) \<in> (prototype_links (objects w))\<^sup>*"
      using "2.IH" by blast
    have "a \<notin> set chain"
    proof
      assume "a \<in> set chain"
      then have "(a, a) \<in> (prototype_links (objects w))\<^sup>+" using chain(3) link by (auto intro: rtrancl_into_trancl1)
      then show False using ok by (auto simp: prototypes_ok_def acyclic_def)
    qed
    then show ?thesis
      using obj Some proxy chain link
      by (intro exI [of _ "a # chain"]) (auto intro: rtrancl_into_rtrancl)
  qed
qed

end
