(* ===== verification/Object_Keys.thy ===== *)
theory Object_Keys
  imports Object_Prototypes
begin

text \<open>
  Property keys and their strings: an index is written and read back, different strings are different
  keys, and the keys of an object are listed in the order of ECMAScript.
\<close>

section \<open>Decimal digits\<close>

lemma digit_value: "d < 10 \<Longrightarrow> current_decimal_value (of_nat (48 + d)) = Some d"
proof -
  assume "d < 10"
  then have "unat (of_nat (48 + d) :: u16) = 48 + d" by (intro unat_of_nat_small) simp
  with \<open>d < 10\<close> show ?thesis by (simp add: current_decimal_value_def del: of_nat_add)
qed

lemma digit_unique: "current_decimal_value c = Some d \<Longrightarrow> c = of_nat (48 + d) \<and> d < 10"
proof -
  assume "current_decimal_value c = Some d"
  then have "unat c = 48 + d" "d < 10" by (auto simp: current_decimal_value_def split: if_splits)
  then show ?thesis by (metis of_nat_unat)
qed

lemma parse_remaining_append:
  "parse_remaining_digits r (xs @ ys) =
     (case parse_remaining_digits r xs of None \<Rightarrow> None | Some r' \<Rightarrow> parse_remaining_digits r' ys)"
  by (induction r xs rule: parse_remaining_digits.induct) (auto split: option.split)

lemma parse_digits:
  "0 < n \<Longrightarrow> n \<le> u32_max \<Longrightarrow> \<exists>c cs d. decimal_digits n = c # cs \<and> current_decimal_value c = Some d \<and> d \<noteq> 0
     \<and> parse_remaining_digits d cs = Some n"
proof (induction n rule: decimal_digits.induct)
  case (1 n)
  show ?case
  proof (cases "n < 10")
    case True
    then show ?thesis using 1 digit_value [OF True] by (simp add: decimal_digits.simps [of n])
  next
    case False
    then have "0 < n div 10" "n div 10 \<le> u32_max" using 1(3) by (simp_all add: div_greater_zero_iff le_trans [OF div_le_dividend])
    then obtain c cs d where ih: "decimal_digits (n div 10) = c # cs" "current_decimal_value c = Some d" "d \<noteq> 0"
      "parse_remaining_digits d cs = Some (n div 10)"
      using 1(1) False by blast
    have "n div 10 * 10 + n mod 10 = n" by simp
    then show ?thesis
      using ih False 1(3) digit_value [of "n mod 10"]
      by (simp add: decimal_digits.simps [of n] parse_remaining_append)
  qed
qed

lemma parse_decimal_digits_u32: "n \<le> u32_max \<Longrightarrow> parse_string_to_u32 (decimal_digits n) = Some n"
proof (cases "n = 0")
  case True
  then show ?thesis
    using digit_value [of 0] by (simp add: decimal_digits.simps [of 0] parse_string_to_u32_def)
next
  case False
  assume "n \<le> u32_max"
  then show ?thesis using parse_digits [of n] False by (auto simp: parse_string_to_u32_def)
qed

lemma parsed_remaining:
  "parse_remaining_digits d cs = Some n \<Longrightarrow> 0 < d \<Longrightarrow> decimal_digits n = decimal_digits d @ cs"
proof (induction d cs rule: parse_remaining_digits.induct)
  case (2 r c cs)
  then obtain e where e: "current_decimal_value c = Some e"
    "parse_remaining_digits (r * 10 + e) cs = Some n"
    by (auto split: option.splits if_splits)
  note c = digit_unique [OF e(1)]
  have "decimal_digits n = decimal_digits (r * 10 + e) @ cs"
    using 2 e by (auto split: if_splits)
  moreover have "decimal_digits (r * 10 + e) = decimal_digits r @ [c]"
    using c 2(3) by (subst decimal_digits.simps) simp
  ultimately show ?case by simp
qed simp

lemma parsed_string: "parse_string_to_u32 units = Some n \<Longrightarrow> units = decimal_digits n"
proof -
  assume parsed: "parse_string_to_u32 units = Some n"
  then obtain c cs d where units: "units = c # cs" "current_decimal_value c = Some d"
    by (auto simp: parse_string_to_u32_def split: list.splits option.splits)
  note c = digit_unique [OF units(2)]
  have first: "decimal_digits d = [c]" using c by (simp add: decimal_digits.simps [of d])
  show ?thesis
  proof (cases "d = 0")
    case True
    then show ?thesis using parsed units first by (auto simp: parse_string_to_u32_def split: if_splits)
  next
    case False
    then show ?thesis
      using parsed units first parsed_remaining [of d cs n] by (simp add: parse_string_to_u32_def)
  qed
qed

section \<open>Keys and values\<close>

text \<open>An allocated string has the given code units.\<close>

definition string_allocated :: "('s, 'e) object_env \<Rightarrow> u16 list \<Rightarrow> bool" where
  "string_allocated env units \<longleftrightarrow> is_pointer (new_string env units)
     \<and> environment.contents (base_env env) (new_string env units) = StringItem units"

definition canonical_key :: "('s, 'e) object_env \<Rightarrow> property_key \<Rightarrow> bool" where
  "canonical_key env key =
     (case key of
        IndexKey i \<Rightarrow> i < u32_max \<and> string_allocated env (decimal_digits i)
      | StringKey units \<Rightarrow> property_key_string units = StringKey units \<and> string_allocated env units
      | SymbolKey a \<Rightarrow> is_symbol (base_env env) a)"

lemma property_key_string_inject: "property_key_string xs = property_key_string ys \<longleftrightarrow> xs = ys"
  using parsed_string [of xs] parsed_string [of ys]
  by (auto simp: property_key_string_def split: option.splits if_splits)

lemma parsed_remaining_le: "parse_remaining_digits r cs = Some n \<Longrightarrow> r \<le> u32_max \<Longrightarrow> n \<le> u32_max"
  by (induction r cs rule: parse_remaining_digits.induct) (auto split: option.splits if_splits)

lemma parsed_string_le:
  assumes "parse_string_to_u32 units = Some n"
  shows "n \<le> u32_max"
proof (cases units)
  case (Cons c cs)
  show ?thesis
  proof (cases "current_decimal_value c")
    case (Some d)
    then have "d \<le> u32_max" using digit_unique [OF Some] by (simp add: u32_max_def)
    then show ?thesis
      using assms Cons Some parsed_remaining_le [of d cs n]
      by (simp add: parse_string_to_u32_def split: if_splits)
  qed (use assms Cons in \<open>simp add: parse_string_to_u32_def\<close>)
qed (use assms in \<open>simp add: parse_string_to_u32_def\<close>)

lemma pointer_not_integral: "is_pointer v \<Longrightarrow> \<not> is_integral_number v"
  using number_tags [of v] by (auto simp: is_integral_number_def is_number_def)

lemma property_key_from_value_of_key:
  assumes key: "canonical_key env key"
  shows "property_key_from_value env (property_key_to_value env key) w = (Inr key, w)"
proof -
  have string: "property_key_from_value env (new_string env units) w = (Inr (property_key_string units), w)"
    if "string_allocated env units" for units
    using that pointer_not_integral [of "new_string env units"]
    by (simp add: property_key_from_value_def Let_def string_allocated_def is_symbol_def to_string.simps
        is_string_def as_string_def effect_simps)
  show ?thesis
  proof (cases key)
    case (IndexKey i)
    then have "i \<le> u32_max" "i \<noteq> u32_max" "string_allocated env (decimal_digits i)"
      using key by (simp_all add: canonical_key_def)
    then show ?thesis
      using IndexKey by (simp add: property_key_to_value_def string property_key_string_def parse_decimal_digits_u32)
  next
    case (StringKey units)
    then show ?thesis using key by (simp add: property_key_to_value_def string canonical_key_def)
  next
    case (SymbolKey a)
    then show ?thesis
      using key pointer_not_integral [of a]
      by (simp add: property_key_to_value_def canonical_key_def property_key_from_value_def is_symbol_def
          effect_simps)
  qed
qed

section \<open>The keys of an object\<close>

definition listed_property :: "property_key \<Rightarrow> slot property \<Rightarrow> bool" where
  "listed_property key p \<longleftrightarrow> (case key of SymbolKey _ \<Rightarrow> \<not> is_private p | _ \<Rightarrow> True)"

lemma dense_indices:
  "map fst (filter (\<lambda>(i, c). c \<noteq> Hole) (enumerate n cells)) =
     filter (\<lambda>i. cells ! (i - n) \<noteq> Hole) [n..<n + length cells]"
proof (induction cells arbitrary: n)
  case (Cons c cells)
  have "filter (\<lambda>i. (c # cells) ! (i - n) \<noteq> Hole) [Suc n..<Suc n + length cells]
      = filter (\<lambda>i. cells ! (i - Suc n) \<noteq> Hole) [Suc n..<Suc n + length cells]"
    by (intro filter_cong) (auto simp: nth_Cons')
  then show ?case using Cons by (cases "c = Hole") (simp_all add: upt_conv_Cons del: upt_Suc)
qed simp

lemma own_indices_ok:
  assumes ok: "array_ok hash a"
  shows "\<exists>indices. own_indices a = Some indices \<and> sorted indices
    \<and> (distinct indices \<longleftrightarrow> (\<forall>i. index_stable a i)) \<and> set indices = {i. array_map hash a i \<noteq> None}"
proof (cases a)
  case (DenseArray len cells)
  define indices where "indices = filter (\<lambda>i. take len cells ! i \<noteq> Hole) [0..<len]"
  have len: "len \<le> length cells" and init: "Uninit \<notin> set (take len cells)"
    using ok by (simp_all add: DenseArray array_okD)
  have "own_indices a = Some indices"
    using init len dense_indices [of 0 "take len cells"]
    by (simp add: own_indices_def DenseArray vec_slice_def indices_def)
  moreover have "set indices = {i. array_map hash a i \<noteq> None}"
  proof -
    have "cells ! i \<noteq> Uninit" if "i < len" for i
      using init len that by (metis in_set_conv_nth length_take min.absorb2 nth_take)
    moreover have "c \<noteq> Hole \<longleftrightarrow> cell_property c \<noteq> None" if "c \<noteq> Uninit" for c :: "slot cell"
      using that by (cases c) (simp_all add: cell_property_def)
    moreover have "cell_property (Hole :: slot cell) = None" by (simp add: cell_property_def)
    ultimately show ?thesis by (auto simp: indices_def array_map_def DenseArray)
  qed
  moreover have "sorted indices" "distinct indices" by (simp_all add: indices_def sorted_wrt_filter)
  ultimately show ?thesis using DenseArray by auto
next
  case (SparseArray len m)
  then have wf: "hash_map_wf hash m" using ok by (simp add: array_okD)
  have "{i. array_map hash a i \<noteq> None} = set (map fst (hash_map_iter m))"
    using value_None [OF wf] by (auto simp: array_map_def SparseArray has_key_def)
  moreover have "distinct (map fst (hash_map_iter m)) \<longleftrightarrow> (\<forall>i. index_stable a i)"
    by (simp add: distinct_copies SparseArray)
  ultimately show ?thesis
    by (simp add: own_indices_def SparseArray ordered_keys_def hash_map_keys_def)
qed

text \<open>The strings and then the symbols, both in the order in which they were added.\<close>

definition string_names :: "(property_key \<times> slot property) list \<Rightarrow> property_key list" where
  "string_names entries = filter (\<lambda>key. case key of StringKey _ \<Rightarrow> True | _ \<Rightarrow> False) (map fst entries)"

definition symbol_names :: "(property_key \<times> slot property) list \<Rightarrow> property_key list" where
  "symbol_names entries =
     map fst (filter (\<lambda>(key, p). (case key of SymbolKey _ \<Rightarrow> True | _ \<Rightarrow> False) \<and> \<not> is_private p) entries)"

lemma named_keys_ok:
  assumes ok: "index_map_ok (key_hash env) (named_properties obj)"
  defines "entries \<equiv> index_map_al (named_properties obj)"
  shows "ordinary_own_string_symbol_property_keys env obj =
    Some (map (property_key_to_value env) (string_names entries @ symbol_names entries))"
proof -
  have "concat (map (\<lambda>(key, _). case key of StringKey units \<Rightarrow> [new_string env units] | _ \<Rightarrow> []) es)
      = map (property_key_to_value env) (string_names es)" for es
    by (induction es) (auto simp: string_names_def property_key_to_value_def split: property_key.split)
  moreover have "concat (map (\<lambda>(key, property). case key of SymbolKey a \<Rightarrow> if is_private property then [] else [a] | _ \<Rightarrow> []) es)
      = map (property_key_to_value env) (symbol_names es)" for es
    by (induction es) (auto simp: symbol_names_def property_key_to_value_def split: property_key.split)
  ultimately show ?thesis
    by (simp add: ordinary_own_string_symbol_property_keys_def index_map_iter_ok [OF ok] entries_def)
qed

lemma names_distinct:
  assumes "distinct (map fst entries)"
  shows "distinct (string_names entries @ symbol_names entries)"
proof -
  have "distinct (symbol_names entries)" using assms
    by (auto simp: symbol_names_def intro: distinct_map_filter)
  then show ?thesis using assms by (auto simp: string_names_def symbol_names_def split: property_key.splits)
qed

lemma named_set:
  assumes distinct: "distinct (map fst (index_map_al (named_properties obj)))"
  shows "set (string_names (index_map_al (named_properties obj)) @ symbol_names (index_map_al (named_properties obj)))
    = {key. \<not> is_array_index key \<and> (\<exists>p. object_map env obj key = Some p \<and> listed_property key p)}"
proof (rule set_eqI)
  fix key
  show "key \<in> set (string_names (index_map_al (named_properties obj)) @ symbol_names (index_map_al (named_properties obj)))
    \<longleftrightarrow> key \<in> {key. \<not> is_array_index key \<and> (\<exists>p. object_map env obj key = Some p \<and> listed_property key p)}"
  proof (cases key)
    case (SymbolKey a)
    then show ?thesis
      using map_of_eq_Some_iff [OF distinct, of key]
      by (force simp: string_names_def symbol_names_def is_array_index_def object_map_def listed_property_def)
  next
    case (StringKey units)
    then show ?thesis
      using map_of_eq_Some_iff [OF distinct, of key]
      by (force simp: string_names_def symbol_names_def is_array_index_def object_map_def listed_property_def)
  qed (auto simp: string_names_def symbol_names_def is_array_index_def)
qed

text \<open>An array also has its length, before the other strings.\<close>

definition own_length :: "js_object \<Rightarrow> property_key list" where
  "own_length obj = (case object_kind obj of ArrayKind _ \<Rightarrow> [length_key] | _ \<Rightarrow> [])"

definition listed_keys :: "js_object \<Rightarrow> nat list \<Rightarrow> property_key list" where
  "listed_keys obj indices = map IndexKey indices @ own_length obj
     @ string_names (index_map_al (named_properties obj)) @ symbol_names (index_map_al (named_properties obj))"

text \<open>Each key is listed once if no index is stored twice and no property has the name of the length.\<close>

definition keys_once :: "js_object \<Rightarrow> bool" where
  "keys_once obj \<longleftrightarrow> (\<forall>i. index_stable (array_properties obj) i)
     \<and> (own_length obj \<noteq> [] \<longrightarrow> map_of (index_map_al (named_properties obj)) length_key = None)"

lemma length_key_listed:
  fixes obj :: js_object
  assumes "distinct (map fst (index_map_al (named_properties obj)))"
  shows "length_key \<in> set (string_names (index_map_al (named_properties obj)) @ symbol_names (index_map_al (named_properties obj)))
    \<longleftrightarrow> map_of (index_map_al (named_properties obj)) length_key \<noteq> None"
proof -
  have "length_key \<in> set (string_names (index_map_al (named_properties obj)) @ symbol_names (index_map_al (named_properties obj)))
      \<longleftrightarrow> \<not> is_array_index length_key
        \<and> (\<exists>p. object_map (undefined :: (unit, unit) object_env) obj length_key = Some p \<and> listed_property length_key p)"
    by (simp only: named_set [OF assms, where env = "undefined :: (unit, unit) object_env"] mem_Collect_eq)
  then show ?thesis
    by (simp add: length_key_def string_key_def is_array_index_def object_map_def listed_property_def)
qed

lemma listed_keys_ok:
  assumes ok: "object_ok env obj"
  shows "\<exists>indices. ordinary_filtered_own_indexed_property_keys env (\<lambda>_. True) obj
        = Some (map (property_key_to_value env) (map IndexKey indices))
    \<and> sorted indices \<and> (distinct (listed_keys obj indices) \<longleftrightarrow> keys_once obj)
    \<and> set (listed_keys obj indices)
      = {key. \<exists>p. object_map env obj key = Some p \<and> listed_property key p} \<union> set (own_length obj)"
proof -
  have named: "index_map_ok (key_hash env) (named_properties obj)" and arr: "array_ok (index_hash env) (array_properties obj)"
    using ok by (simp_all add: object_ok_def)
  note distinct = index_map_okD(7) [OF named]
  define names where "names = string_names (index_map_al (named_properties obj)) @ symbol_names (index_map_al (named_properties obj))"
  obtain indices where indices: "own_indices (array_properties obj) = Some indices" "sorted indices"
    "distinct indices \<longleftrightarrow> (\<forall>i. index_stable (array_properties obj) i)"
    "set indices = {i. array_map (index_hash env) (array_properties obj) i \<noteq> None}"
    using own_indices_ok [OF arr] by (elim exE conjE)
  have "ordinary_filtered_own_indexed_property_keys env (\<lambda>_. True) obj
      = Some (map (property_key_to_value env) (map IndexKey indices))"
    by (simp add: ordinary_filtered_own_indexed_property_keys_def indices(1) property_key_to_value_def comp_def)
  moreover have "distinct (listed_keys obj indices) \<longleftrightarrow> keys_once obj"
  proof -
    have "set (map IndexKey indices) \<inter> (set (own_length obj) \<union> set names) = {}"
      by (auto simp: names_def own_length_def length_key_def string_key_def string_names_def symbol_names_def
          split: object_kind.splits)
    moreover have "distinct (own_length obj @ names) \<longleftrightarrow>
        (own_length obj \<noteq> [] \<longrightarrow> map_of (index_map_al (named_properties obj)) length_key = None)"
      using names_distinct [OF distinct] length_key_listed [OF distinct]
      by (auto simp: names_def own_length_def split: object_kind.splits)
    moreover have "distinct (map IndexKey indices) \<longleftrightarrow> distinct indices" by (simp add: distinct_map inj_on_def)
    ultimately show ?thesis
      unfolding listed_keys_def names_def [symmetric] keys_once_def distinct_append [of "map IndexKey indices"]
      by (auto simp: indices(3))
  qed
  moreover have "set (listed_keys obj indices)
      = {key. \<exists>p. object_map env obj key = Some p \<and> listed_property key p} \<union> set (own_length obj)"
  proof -
    have "IndexKey ` set indices = {key. is_array_index key \<and> (\<exists>p. object_map env obj key = Some p \<and> listed_property key p)}"
    proof (rule set_eqI)
      fix key
      show "key \<in> IndexKey ` set indices \<longleftrightarrow>
          key \<in> {key. is_array_index key \<and> (\<exists>p. object_map env obj key = Some p \<and> listed_property key p)}"
        by (cases key) (auto simp: indices(4) is_array_index_def object_map_def listed_property_def)
    qed
    moreover have "set names = {key. \<not> is_array_index key \<and> (\<exists>p. object_map env obj key = Some p \<and> listed_property key p)}"
      unfolding names_def by (rule named_set [OF distinct])
    ultimately show ?thesis unfolding listed_keys_def names_def [symmetric] by auto
  qed
  ultimately show ?thesis using indices(2) by blast
qed

end
