(* ===== verification/Proxy_Correct.thy ===== *)
theory Proxy_Correct
  imports Object_Keys
begin

text \<open>
  Proxies: what a trap returns is checked against the target, so a proxy cannot report what contradicts a
  property that is fixed or the keys of an object that is not extensible.
\<close>

section \<open>The get trap\<close>

definition value_permitted :: "('s, 'e) object_env \<Rightarrow> property_descriptor \<Rightarrow> value_bits \<Rightarrow> bool" where
  "value_permitted env desc v \<longleftrightarrow>
     (desc_configurable desc = Some False \<longrightarrow>
        (if is_data_descriptor desc
         then desc_writable desc = Some False \<longrightarrow> (\<exists>u. desc_value desc = Some u \<and> same_value (base_env env) v u)
         else is_accessor_descriptor desc \<and> desc_get desc = None \<longrightarrow> is_undefined v))"

lemma vm_of_proxy:
  assumes "objects w a = Some p" "object_kind p = ProxyKind handler target c k"
  shows "vm_get (object_methods env (Suc n)) a key receiver w = proxy_get env (object_methods env n) a key receiver w"
    and "vm_own_property_keys (object_methods env (Suc n)) a w = proxy_own_property_keys env (object_methods env n) a w"
  using assms by (simp_all add: dispatch_simps)

lemma check_fixed_value_ok:
  assumes "is_data_descriptor desc \<Longrightarrow> \<exists>u. desc_value desc = Some u"
  shows "check_fixed_value env desc v (desc_get desc = None \<and> \<not> is_undefined v) v w =
    (if value_permitted env desc v then (Inr v, w) else (Inl (Throw (type_error (base_env env))), w))"
  using assms by (auto simp: check_fixed_value_def value_permitted_def effect_simps throw_type_error_def
      split: option.split)

lemma proxy_get_ok:
  assumes proxy: "objects w a = Some p" "object_kind p = ProxyKind (Some h) (Some t) c k"
    and trap: "get_method env (object_methods env (Suc n)) h (string_key ''get'') w = (Inr (Some f), w0)"
    and call: "call_function env f h [t, property_key_to_value env key, receiver] w0 = (Inr v, w1)"
    and target: "world_ok env w1" "objects w1 t = Some obj" "\<not> is_proxy obj"
  shows "vm_get (object_methods env (Suc (Suc n))) a key receiver w =
    (case reported_property env w1 t key of
       None \<Rightarrow> (Inr v, w1)
     | Some desc \<Rightarrow>
         if value_permitted env desc v then (Inr v, w1) else (Inl (Throw (type_error (base_env env))), w1))"
proof -
  have "vm_get (object_methods env (Suc (Suc n))) a key receiver w
      = proxy_get env (object_methods env (Suc n)) a key receiver w"
    by (rule vm_of_proxy [OF proxy])
  moreover have "check_fixed_value env desc v (desc_get desc = None \<and> \<not> is_undefined v) v w1 =
      (if value_permitted env desc v then (Inr v, w1) else (Inl (Throw (type_error (base_env env))), w1))"
    if "reported_property env w1 t key = Some desc" for desc
    by (rule check_fixed_value_ok) (rule reported_value [OF that])
  ultimately show ?thesis
    using proxy trap call vm_get_own_property_ok [OF target, of n key]
    by (auto simp: proxy_get_def with_trap_def effect_bind_def read_object_def effect_return_def
        split: option.split simp del: object_methods.simps)
qed

section \<open>The keys\<close>

lemma remove_reported_ok:
  "remove_reported env keys rest w =
     (if set keys \<subseteq> set rest \<and> distinct keys
      then (Inr (filter (\<lambda>k. k \<notin> set keys) rest), w)
      else (Inl (Throw (type_error (base_env env))), w))"
proof (induction keys arbitrary: rest)
  case (Cons key keys)
  have "removeAll key rest = filter (\<lambda>k. k \<noteq> key) rest" by (simp add: removeAll_filter_not_eq eq_commute)
  then show ?case
    using Cons by (auto simp: throw_type_error_def intro: filter_cong)
qed simp

definition keys_permitted ::
    "bool \<Rightarrow> property_key list \<Rightarrow> property_key list \<Rightarrow> property_key list \<Rightarrow> bool" where
  "keys_permitted extensible configurable non_configurable reported \<longleftrightarrow>
     set non_configurable \<subseteq> set reported
     \<and> (extensible \<or> set reported = set configurable \<union> set non_configurable)"

lemma check_reported_keys_ok:
  assumes "distinct (configurable @ non_configurable)"
  shows "check_reported_keys env extensible configurable non_configurable reported w =
    (if keys_permitted extensible configurable non_configurable reported then (Inr (), w)
     else (Inl (Throw (type_error (base_env env))), w))"
proof (cases "set non_configurable \<subseteq> set reported")
  case False
  then show ?thesis
    by (auto simp: check_reported_keys_def effect_simps remove_reported_ok keys_permitted_def)
next
  case True
  define rest where "rest = filter (\<lambda>k. k \<notin> set non_configurable) reported"
  have "set configurable \<subseteq> set rest \<and> filter (\<lambda>k. k \<notin> set configurable) rest = []
      \<longleftrightarrow> set reported = set configurable \<union> set non_configurable"
    using True assms by (auto simp: rest_def filter_empty_conv)
  then show ?thesis
    using True assms
    by (auto simp: check_reported_keys_def effect_simps remove_reported_ok keys_permitted_def
        throw_type_error_def rest_def [symmetric])
qed

text \<open>The keys of the target are taken apart.\<close>

definition fixed_key :: "('s, 'e) object_env \<Rightarrow> 's world \<Rightarrow> u64 \<Rightarrow> property_key \<Rightarrow> bool" where
  "fixed_key env w t key \<longleftrightarrow> (\<exists>desc. reported_property env w t key = Some desc \<and> desc_configurable desc = Some False)"

lemma split_target_keys_ok:
  assumes target: "world_ok env w" "objects w t = Some obj" "\<not> is_proxy obj"
  shows "(\<And>key. key \<in> set keys \<Longrightarrow> canonical_key env key) \<Longrightarrow>
    split_target_keys env (object_methods env (Suc n)) t (map (property_key_to_value env) keys) cs ns w =
      (Inr (cs @ filter (\<lambda>key. \<not> fixed_key env w t key) keys, ns @ filter (fixed_key env w t) keys), w)"
proof (induction keys arbitrary: cs ns)
  case (Cons key keys)
  have "property_key_from_value env (property_key_to_value env key) w = (Inr key, w)"
    using Cons.prems by (intro property_key_from_value_of_key) simp
  moreover have "(case reported_property env w t key of None \<Rightarrow> False | Some d \<Rightarrow> desc_configurable d = Some False)
      \<longleftrightarrow> fixed_key env w t key"
    by (simp add: fixed_key_def split: option.split)
  ultimately show ?case
    using Cons by (simp add: effect_bind_def must_def vm_get_own_property_ok [OF target] del: object_methods.simps)
qed simp

text \<open>The keys that an object that is not a proxy reports.\<close>

definition target_keys :: "('s, 'e) object_env \<Rightarrow> 's world \<Rightarrow> u64 \<Rightarrow> property_key set" where
  "target_keys env w t = {key. \<exists>p. object_slot env w t key = Some p \<and> listed_property key p}
     \<union> (case objects w t of None \<Rightarrow> {} | Some obj \<Rightarrow> set (own_length obj))"

lemma vm_own_property_keys_ok:
  assumes ok: "world_ok env w" and a: "objects w a = Some obj" and plain: "\<not> is_proxy obj"
  shows "\<exists>indices. vm_own_property_keys (object_methods env (Suc n)) a w
        = (Inr (map (property_key_to_value env) (listed_keys obj indices)), w)
    \<and> sorted indices \<and> (distinct (listed_keys obj indices) \<longleftrightarrow> keys_once obj)
    \<and> set (listed_keys obj indices) = target_keys env w a"
proof -
  have obj: "object_ok env obj" using ok a by (simp add: world_ok_def)
  then have named: "index_map_ok (key_hash env) (named_properties obj)" by (simp add: object_ok_def)
  obtain indices where indices: "ordinary_filtered_own_indexed_property_keys env (\<lambda>_. True) obj
        = Some (map (property_key_to_value env) (map IndexKey indices))" "sorted indices"
    "distinct (listed_keys obj indices) \<longleftrightarrow> keys_once obj"
    "set (listed_keys obj indices)
      = {key. \<exists>p. object_map env obj key = Some p \<and> listed_property key p} \<union> set (own_length obj)"
    using listed_keys_ok [OF obj] by (elim exE conjE)
  have length: "new_string env (ascii_units ''length'') = property_key_to_value env length_key"
    by (simp add: length_key_def string_key_def property_key_to_value_def)
  have "vm_own_property_keys (object_methods env (Suc n)) a w
      = (Inr (map (property_key_to_value env) (listed_keys obj indices)), w)"
    using plain a by (cases "object_kind obj") (auto simp: dispatch_simps ordinary_own_property_keys_def
        array_own_property_keys_def effect_option_def indices(1) named_keys_ok [OF named] listed_keys_def own_length_def length)
  then show ?thesis using indices(2-4) by (auto simp: target_keys_def slot_of_object [OF a] a)
qed

lemma vm_is_extensible_ok:
  "objects w a = Some obj \<Longrightarrow> \<not> is_proxy obj \<Longrightarrow>
     vm_is_extensible (object_methods env (Suc n)) a w = (Inr (is_extensible_field obj), w)"
  by (cases "object_kind obj") (auto simp: dispatch_simps ordinary_is_extensible_def)

text \<open>What the trap reports: an array-like object with these elements.\<close>

definition reports_keys ::
    "('s, 'e) object_env \<Rightarrow> ('s, 'e) methods \<Rightarrow> value_bits \<Rightarrow> 's world \<Rightarrow> value_bits list \<Rightarrow> property_key list
      \<Rightarrow> 's world \<Rightarrow> bool" where
  "reports_keys env ms r w vs keys w' \<longleftrightarrow> is_object (base_env env) r \<and>
     effect_bind (length_of_array_like env ms r) (\<lambda>len.
     effect_bind (vec_with_capacity env len) (\<lambda>_. collect_trap_keys env ms r 0 len [] [])) w = (Inr (vs, keys), w')"

lemma proxy_own_property_keys_ok:
  assumes proxy: "objects w a = Some p" "object_kind p = ProxyKind (Some h) (Some t) c k"
    and trap: "get_method env (object_methods env (Suc n)) h (string_key ''ownKeys'') w = (Inr (Some f), w0)"
    and call: "call_function env f h [t] w0 = (Inr r, w1)"
    and reports: "reports_keys env (object_methods env (Suc n)) r w1 vs keys w2"
    and target: "world_ok env w2" "objects w2 t = Some obj" "\<not> is_proxy obj" and once: "keys_once obj"
    and canonical: "\<And>key. key \<in> target_keys env w2 t \<Longrightarrow> canonical_key env key"
  shows "vm_own_property_keys (object_methods env (Suc (Suc n))) a w =
    (if {key \<in> target_keys env w2 t. fixed_key env w2 t key} \<subseteq> set keys
        \<and> (is_extensible_field obj \<or> set keys = target_keys env w2 t)
     then (Inr vs, w2) else (Inl (Throw (type_error (base_env env))), w2))"
proof -
  obtain indices where own: "vm_own_property_keys (object_methods env (Suc n)) t w2
        = (Inr (map (property_key_to_value env) (listed_keys obj indices)), w2)"
    "distinct (listed_keys obj indices)" "set (listed_keys obj indices) = target_keys env w2 t"
    using vm_own_property_keys_ok [OF target, of n] once by (elim exE conjE) blast
  define cs where "cs = filter (\<lambda>key. \<not> fixed_key env w2 t key) (listed_keys obj indices)"
  define ns where "ns = filter (fixed_key env w2 t) (listed_keys obj indices)"
  have split: "split_target_keys env (object_methods env (Suc n)) t
      (map (property_key_to_value env) (listed_keys obj indices)) [] [] w2 = (Inr (cs, ns), w2)"
    using split_target_keys_ok [OF target, of "listed_keys obj indices" n "[]" "[]"]
      canonical by (simp add: own(3) cs_def ns_def)
  have sets: "set ns = {key \<in> target_keys env w2 t. fixed_key env w2 t key}" "set cs \<union> set ns = target_keys env w2 t"
    "distinct (cs @ ns)"
    using own(2,3) by (auto simp: cs_def ns_def)
  have "vm_own_property_keys (object_methods env (Suc (Suc n))) a w
      = proxy_own_property_keys env (object_methods env (Suc n)) a w"
    by (rule vm_of_proxy [OF proxy])
  also have "\<dots> = effect_bind (check_reported_keys env (is_extensible_field obj) cs ns keys) (\<lambda>_. effect_return vs) w2"
    using reports
    by (auto simp: proxy_own_property_keys_def with_trap_def effect_bind_def read_object_def proxy trap call
        reports_keys_def own(1) split vm_is_extensible_ok [OF target(2,3)]
        simp del: object_methods.simps split: prod.splits sum.splits)
  finally show ?thesis
    by (simp add: effect_simps check_reported_keys_ok [OF sets(3)] keys_permitted_def sets(1) sets(2) [unfolded sets(1)])
qed

section \<open>Lengths that scripts choose\<close>

text \<open>
  A list is allocated for the whole length that an array-like object claims, up to \<open>2 ^ 53 - 1\<close> elements:
  an object with a large length and no elements ends the program.
\<close>

lemma large_array_like_aborts:
  assumes "is_object (base_env env) object"
    and "length_of_array_like env ms object w = (Inr len, w')" and "max_allocation env < 8 * len"
  shows "create_list_from_array_like env ms object w = (Inl Panic, w')"
  using assms by (simp add: create_list_from_array_like_def vec_with_capacity_def effect_simps)

lemma large_trap_result_aborts:
  assumes "objects w a = Some p" and "object_kind p = ProxyKind (Some h) (Some t) c k"
    and "get_method env (object_methods env (Suc n)) h (string_key ''ownKeys'') w = (Inr (Some f), w0)"
    and "call_function env f h [t] w0 = (Inr r, w1)" and "is_object (base_env env) r"
    and "length_of_array_like env (object_methods env (Suc n)) r w1 = (Inr len, w2)"
    and "max_allocation env < 8 * len"
  shows "vm_own_property_keys (object_methods env (Suc (Suc n))) a w = (Inl Panic, w2)"
  unfolding vm_of_proxy(2) [OF assms(1,2)]
  using assms by (simp add: proxy_own_property_keys_def with_trap_def vec_with_capacity_def effect_simps
      read_object_def del: object_methods.simps)

end
