(* ===== verification/Object_Delete.thy ===== *)
theory Object_Delete
  imports Object_Prototypes
begin

text \<open>
  Deleting a property, and what keeps a world consistent: removals and changes of the length of an array,
  after which an index can be stored twice, keep the invariant on which the properties of objects rest.
\<close>

section \<open>Removing a property of an object\<close>

lemma object_remove_law:
  assumes ok: "object_ok env obj" and present: "object_map env obj key \<noteq> None"
  shows "\<exists>obj'. object_remove_property env key obj = Some obj' \<and> object_ok env obj' \<and> same_shell obj obj'
    \<and> (object_stable obj key \<longrightarrow> object_map env obj' key = None)
    \<and> (\<forall>j. j \<noteq> key \<longrightarrow> object_map env obj' j = object_map env obj j)
    \<and> (\<forall>j q. object_stores obj' j q \<longrightarrow> object_stores obj j q)"
proof (cases "\<exists>i. key = IndexKey i")
  case True
  then obtain i where key: "key = IndexKey i" ..
  obtain a where a: "remove_property (index_hash env) i (array_properties obj) = Some a" "array_ok (index_hash env) a"
    "\<And>j. j \<noteq> i \<Longrightarrow> array_map (index_hash env) a j = array_map (index_hash env) (array_properties obj) j"
    "index_stable (array_properties obj) i \<Longrightarrow> array_map (index_hash env) a i = None"
    "\<And>j q. array_stores a j q \<Longrightarrow> array_stores (array_properties obj) j q"
    using remove_property_ok [of "index_hash env" "array_properties obj" i] ok present
    by (auto simp: object_ok_def object_map_def key)
  have "object_remove_property env key obj = Some (obj\<lparr>array_properties := a\<rparr>)"
    using a(1) by (simp add: object_remove_property_def key)
  then show ?thesis
    using ok a(2-5) by (auto simp: object_ok_def same_shell_def object_map_def object_stores_def key
        split: property_key.splits)
next
  case False
  obtain b m where m: "index_map_remove (key_hash env) key (named_properties obj) = Some (b, m)"
    "index_map_ok (key_hash env) m" "index_map_al m = del key (index_map_al (named_properties obj))"
    using index_map_remove_law [of "key_hash env" "named_properties obj" key] ok by (auto simp: object_ok_def)
  have "object_remove_property env key obj = Some (obj\<lparr>named_properties := m\<rparr>)"
    using m(1) False by (cases key) (auto simp: object_remove_property_def)
  then show ?thesis
    using ok m(2,3) False by (auto simp: object_ok_def same_shell_def object_map_def object_stores_def
        split: property_key.splits if_splits)
qed

lemma accessors_ok_subset:
  "accessors_ok accs old \<Longrightarrow> (\<And>b j q. new b j q \<Longrightarrow> old b j q) \<Longrightarrow> accessors_ok accs new"
  unfolding accessors_ok_def by meson

text \<open>An object whose properties are some of those it had.\<close>

lemma shrunk_world_ok:
  assumes ok: "world_ok env w" and a: "objects w a = Some obj" and obj': "object_ok env obj'" "same_shell obj obj'"
    and stores: "\<And>j q. object_stores obj' j q \<Longrightarrow> object_stores obj j q"
  shows "world_ok env (w\<lparr>objects := (objects w)(a \<mapsto> obj')\<rparr>)" and "same_shells w (w\<lparr>objects := (objects w)(a \<mapsto> obj')\<rparr>)"
proof -
  let ?w = "w\<lparr>objects := (objects w)(a \<mapsto> obj')\<rparr>"
  have "stored_slot w b j q" if "stored_slot ?w b j q" for b j q
    using that a stores by (auto simp: stored_slot_def split: if_splits)
  then have "accessors_ok (accessors w) (stored_slot ?w)"
    using ok by (auto simp: world_ok_def intro: accessors_ok_subset)
  then show "world_ok env ?w" using ok obj'(1) by (auto simp: world_ok_def)
  show "same_shells w ?w" using a obj'(2) by (auto simp: same_shells_def option.rel_refl)
qed

lemma remove_property_at_ok:
  assumes ok: "world_ok env w" and a: "objects w a = Some obj" and present: "object_slot env w a key \<noteq> None"
  shows "\<exists>w'. remove_property_at env a key w = (Inr (), w') \<and> world_ok env w' \<and> same_shells w w'
    \<and> (key_stable w a key \<longrightarrow> own_property env w' a key = None)
    \<and> (\<forall>b j. b \<noteq> a \<or> j \<noteq> key \<longrightarrow> own_property env w' b j = own_property env w b j)"
proof -
  have "object_ok env obj" using ok a by (simp add: world_ok_def)
  then obtain obj' where obj': "object_remove_property env key obj = Some obj'" "object_ok env obj'" "same_shell obj obj'"
    "object_stable obj key \<Longrightarrow> object_map env obj' key = None"
    "\<And>j. j \<noteq> key \<Longrightarrow> object_map env obj' j = object_map env obj j"
    "\<And>j q. object_stores obj' j q \<Longrightarrow> object_stores obj j q"
    using object_remove_law [of env obj key] present by (auto simp: slot_of_object [OF a])
  define w' where "w' = w\<lparr>objects := (objects w)(a \<mapsto> obj')\<rparr>"
  note kept = shrunk_world_ok [OF ok a obj'(2,3,6), folded w'_def]
  have "remove_property_at env a key w = (Inr (), w')"
    using a obj'(1) by (simp add: remove_property_at_def read_object_def write_object_def effect_simps w'_def)
  moreover have "own_property env w' b j = own_property env w b j" if "b \<noteq> a \<or> j \<noteq> key" for b j
    using that a obj'(5) by (auto simp: own_property_def object_slot_def w'_def)
  moreover have "own_property env w' a key = None" if "key_stable w a key"
    using that a obj'(4) by (simp add: own_property_def object_slot_def w'_def key_stable_def)
  ultimately show ?thesis using kept by blast
qed

section \<open>The method\<close>

definition delete_allowed :: "('s, 'e) object_env \<Rightarrow> 's world \<Rightarrow> u64 \<Rightarrow> property_key \<Rightarrow> bool" where
  "delete_allowed env w a key \<longleftrightarrow>
     (case reported_property env w a key of None \<Rightarrow> True | Some desc \<Rightarrow> desc_configurable desc = Some True)"

lemma ordinary_delete_ok:
  assumes ok: "world_ok env w" and a: "objects w a = Some obj" and plain: "\<not> is_proxy obj"
    and own: "reported_property env w a key = map_option descriptor_of (own_property env w a key)"
  shows "\<exists>w'. ordinary_delete env (object_methods env (Suc n)) a key w = (Inr (delete_allowed env w a key), w')
    \<and> world_ok env w' \<and> same_shells w w'
    \<and> (delete_allowed env w a key \<longrightarrow> key_stable w a key \<longrightarrow> own_property env w' a key = None)
    \<and> (\<forall>b j. b \<noteq> a \<or> j \<noteq> key \<longrightarrow> own_property env w' b j = own_property env w b j)
    \<and> (\<not> delete_allowed env w a key \<longrightarrow> w' = w)"
proof (cases "own_property env w a key")
  case None
  then show ?thesis
    using ok own by (simp add: ordinary_delete_def effect_simps vm_get_own_property_ok [OF ok a plain] delete_allowed_def
        del: object_methods.simps)
next
  case (Some p)
  have configurable: "desc_configurable (descriptor_of p) = Some (abs_configurable p)"
    by (cases p) (simp_all add: data_descriptor_def accessor_descriptor_def)
  have present: "object_slot env w a key \<noteq> None" using Some by (auto simp: own_property_def)
  show ?thesis
  proof (cases "abs_configurable p")
    case True
    then show ?thesis
      using remove_property_at_ok [OF ok a present] own Some configurable
      by (auto simp: ordinary_delete_def effect_simps vm_get_own_property_ok [OF ok a plain] delete_allowed_def
          desc_is_configurable_def simp del: object_methods.simps)
  next
    case False
    then show ?thesis
      using ok own Some configurable
      by (simp add: ordinary_delete_def effect_simps vm_get_own_property_ok [OF ok a plain] delete_allowed_def
          desc_is_configurable_def del: object_methods.simps)
  qed
qed

lemma vm_delete_ok:
  assumes ok: "world_ok env w" and a: "objects w a = Some obj" and plain: "\<not> is_proxy obj"
  shows "\<exists>w'. vm_delete (object_methods env (Suc (Suc n))) a key w = (Inr (delete_allowed env w a key), w')
    \<and> world_ok env w' \<and> same_shells w w'
    \<and> (delete_allowed env w a key \<longrightarrow> key_stable w a key \<longrightarrow> own_property env w' a key = None)
    \<and> (\<forall>b j. b \<noteq> a \<or> j \<noteq> key \<longrightarrow> own_property env w' b j = own_property env w b j)
    \<and> (\<not> delete_allowed env w a key \<longrightarrow> w' = w)"
proof (cases "(\<exists>b. object_kind obj = ArrayKind b) \<and> key = length_key")
  case True
  then obtain b where kind: "object_kind obj = ArrayKind b" by blast
  have "vm_delete (object_methods env (Suc (Suc n))) a key w = (Inr False, w)"
    using a True kind by (simp add: object_methods.simps(2) [of env "Suc n"] dispatch_simps array_delete_def
        del: object_methods.simps)
  moreover have "\<not> delete_allowed env w a key"
    using a True kind by (simp add: delete_allowed_def reported_property_def data_descriptor_def)
  ultimately show ?thesis using ok by auto
next
  case False
  have "vm_delete (object_methods env (Suc (Suc n))) a key w = ordinary_delete env (object_methods env (Suc n)) a key w"
    using a plain False by (cases "object_kind obj")
      (auto simp: object_methods.simps(2) [of env "Suc n"] dispatch_simps array_delete_def simp del: object_methods.simps)
  moreover have "reported_property env w a key = map_option descriptor_of (own_property env w a key)"
    using a False by (auto simp: reported_property_def split: object_kind.split)
  ultimately show ?thesis using ordinary_delete_ok [OF ok a plain, of key n] by simp
qed

section \<open>The length of an array\<close>

lemma set_array_properties_length_ok:
  assumes ok: "world_ok env w" and a: "objects w a = Some obj" and n: "n \<le> MAX_U32"
    and fits: "length_fits (array_properties obj)"
  shows "\<exists>b w'. set_array_properties_length env a n w = (Inr b, w') \<and> world_ok env w' \<and> same_shells w w'"
proof -
  have arr: "array_ok (index_hash env) (array_properties obj)" using ok a by (simp add: world_ok_def object_ok_def)
  obtain b arr' where arr': "set_len (index_hash env) n (array_properties obj) = Some (b, arr')"
    "array_ok (index_hash env) arr'" "\<And>i p. array_stores arr' i p \<Longrightarrow> array_stores (array_properties obj) i p"
    using set_len_ok [OF arr n fits] by (auto simp: array_cut_def)
  define obj' where "obj' = obj\<lparr>array_properties := arr'\<rparr>"
  have "object_ok env obj'" using ok a arr'(2) by (auto simp: world_ok_def object_ok_def obj'_def)
  moreover have "same_shell obj obj'" by (simp add: same_shell_def obj'_def)
  moreover have "object_stores obj j q" if "object_stores obj' j q" for j q
    using that arr'(3) by (auto simp: object_stores_def obj'_def split: property_key.splits)
  ultimately show ?thesis
    using shrunk_world_ok [OF ok a, of obj'] a arr'(1)
    by (auto simp: set_array_properties_length_def read_object_def write_object_def effect_simps obj'_def)
qed

end
