(* ===== verification/Object_Properties.thy ===== *)
theory Object_Properties
  imports Proxy_Correct Object_Delete
begin

text \<open>
  The properties of objects: definition of properties, prototype chains, keys and proxies; with a small
  world for which they are evaluated.
\<close>

section \<open>A small world\<close>

text \<open>A named property map with one entry.\<close>

definition single_map :: "property_key \<Rightarrow> 'v \<Rightarrow> (property_key, 'v) index_map" where
  "single_map key v = \<lparr>is_tombstone = False, num_occupied = 1, num_deleted = 0,
     map_indices = [EntryIndex 0], map_entries = [Some (OccupiedEntry key v EMPTY_INDEX)]\<rparr>"

lemma single_map_ok: "index_map_ok hash (single_map key v)" "index_map_al (single_map key v) = [(key, v)]"
proof -
  show al: "index_map_al (single_map key v) = [(key, v)]"
    by (simp add: index_map_al_def single_map_def num_entries_used_def)
  have "chains_ok hash (single_map key v) (\<lambda>_. 0)"
    by (auto simp: chains_ok_def single_map_def num_entries_used_def index_map_capacity_def hash_index_def
        index_map_mask_def linked.simps get_entry_unchecked_def)
  then show "index_map_ok hash (single_map key v)"
    using al exI [of "\<lambda>n. 2 ^ n = Suc 0" 0]
    by (auto simp: index_map_ok_def single_map_def num_entries_used_def index_map_capacity_def eq_commute [of "Suc 0"])
qed

definition demo_object :: "object_kind \<Rightarrow> u64 option \<Rightarrow> property_key \<Rightarrow> value_bits \<Rightarrow> js_object" where
  "demo_object k proto key v =
     \<lparr>object_kind = k, object_prototype = proto,
      named_properties = single_map key (data_property (DataSlot v) False True False),
      array_properties = DenseArray 0 [], is_extensible_field = False\<rparr>"

text \<open>
  A fixed property \<open>x\<close> at 8, handlers with a trap at 16 and 24, proxies for 8 with them at 32 and 40, an
  array with the string \<open>x\<close> at 48, and an object at 56 with the prototype 8.
\<close>

definition demo_world :: "unit world" where
  "demo_world =
     \<lparr>objects = [8 \<mapsto> demo_object OrdinaryKind None (string_key ''x'') value_null,
        16 \<mapsto> demo_object OrdinaryKind None (string_key ''get'') 64,
        24 \<mapsto> demo_object OrdinaryKind None (string_key ''ownKeys'') 72,
        32 \<mapsto> initial_object (ProxyKind (Some 16) (Some 8) False False) None,
        40 \<mapsto> initial_object (ProxyKind (Some 24) (Some 8) False False) None,
        48 \<mapsto> (initial_object (ArrayKind True) None)\<lparr>array_properties := DenseArray (Suc 0) [Cell (DataSlot 80)]\<rparr>,
        56 \<mapsto> demo_object OrdinaryKind (Some 8) (string_key ''y'') value_undefined],
      accessors = [], next_object = 100, script_state = ()\<rparr>"

definition demo_base :: "(unit world, unit) environment" where
  "demo_base =
     \<lparr>environment.contents = (\<lambda>a. if a = 80 then StringItem (ascii_units ''x'') else ObjectItem),
      get_to_primitive_method = (\<lambda>_. effect_return None), get_named = (\<lambda>_ _. effect_return value_undefined),
      callable = (\<lambda>v. v = 64 \<or> v = 72),
      call_object = (\<lambda>func _ _. effect_return (if func = 64 then value_null else 48)),
      hint_string = (\<lambda>_. value_undefined), type_error = (), range_error = (), new_bigint = (\<lambda>_. 0),
      parse_string_to_number = (\<lambda>_. None), parse_string_to_bigint = (\<lambda>_. None)\<rparr>"

definition demo_env :: "(unit, unit) object_env" where
  "demo_env =
     \<lparr>base_env = demo_base, key_hash = (\<lambda>_. 0), index_hash = id, new_string = (\<lambda>_. 80),
      number_to_string = (\<lambda>_. []), construct_object = (\<lambda>_ _ _. effect_return 8),
      constructor_value = (\<lambda>_. False), intrinsic_object_prototype = 8, intrinsic_array_prototype = 8,
      max_allocation = 1000, wrap_primitive = (\<lambda>_. effect_return 8)\<rparr>"

lemma demo_stable: "index_stable (DenseArray len cells) = (\<lambda>_. True)"
  by (simp add: fun_eq_iff)

lemma demo_base_env: "base_env demo_env = demo_base"
  by (simp add: demo_env_def)

lemma demo_keys:
  "string_key ''x'' = StringKey [120]" "string_key ''y'' = StringKey [121]" "string_key ''get'' = StringKey [103, 101, 116]"
  "string_key ''ownKeys'' = StringKey [111, 119, 110, 75, 101, 121, 115]" "length_key = StringKey [108, 101, 110, 103, 116, 104]"
  by (simp_all add: string_key_def ascii_units_def length_key_def)

lemma demo_object_map:
  "object_map demo_env (demo_object k proto (StringKey units) v) key =
     (if key = StringKey units then Some (data_property (DataSlot v) False True False) else None)"
  by (auto simp: object_map_def demo_object_def single_map_ok(2) array_map_def split: property_key.splits)

lemma demo_initial_map: "object_map demo_env (initial_object k proto) key = None"
  by (auto simp: object_map_def initial_object_def new_index_map_ok array_map_def split: property_key.splits)

lemma demo_array_map:
  "object_map demo_env ((initial_object k proto)\<lparr>array_properties := DenseArray (Suc 0) [Cell (DataSlot v)]\<rparr>) key =
     (if key = IndexKey 0 then Some (data_property (DataSlot v) True True True) else None)"
  by (auto simp: object_map_def initial_object_def new_index_map_ok array_map_def cell_property_def
      split: property_key.splits)

lemma demo_stores:
  "object_stores obj key p \<longleftrightarrow> object_map demo_env obj key = Some p" if "array_properties obj = DenseArray len cells"
  by (auto simp: object_stores_def object_map_def that array_stores_simps(1) split: property_key.split)

lemma demo_no_accessors: "stored_slot demo_world a key p \<Longrightarrow> property_value p \<noteq> AccessorSlot i"
proof -
  have "\<exists>len cells. array_properties obj = DenseArray len cells" if "objects demo_world a = Some obj" for obj
    using that by (auto simp: demo_world_def demo_object_def initial_object_def split: if_splits)
  then show "stored_slot demo_world a key p \<Longrightarrow> property_value p \<noteq> AccessorSlot i"
    by (auto simp: stored_slot_def demo_stores) (auto simp: demo_world_def demo_keys demo_object_map demo_initial_map
        demo_array_map split: if_splits)
qed

lemma demo_world_ok: "world_ok demo_env demo_world"
proof -
  have "object_ok demo_env (demo_object k proto key v)" for k proto key v
    by (simp add: object_ok_def demo_object_def single_map_ok(1) array_okD)
  moreover have "object_ok demo_env (initial_object k proto)" for k proto
    by (simp add: object_ok_def initial_object_def new_index_map_ok array_okD)
  moreover have "object_ok demo_env ((initial_object k proto)\<lparr>array_properties := DenseArray (Suc 0) [Cell (DataSlot v)]\<rparr>)"
    for k proto v
    by (simp add: object_ok_def initial_object_def new_index_map_ok array_okD MAX_U32_def)
  moreover have "accessors_ok (accessors demo_world) (stored_slot demo_world)"
    using demo_no_accessors by (auto simp: accessors_ok_def)
  ultimately show ?thesis by (auto simp: world_ok_def demo_world_def split: if_splits)
qed

lemma demo_x:
  "object_slot demo_env demo_world 8 key = (if key = StringKey [120] then Some (data_property (DataSlot value_null) False True False) else None)"
  "own_property demo_env demo_world 8 key = (if key = StringKey [120] then Some (AbsData value_null False True False) else None)"
  by (simp_all add: own_property_def object_slot_def demo_world_def demo_keys demo_object_map abs_of_def)

lemma demo_links: "prototype_links (objects demo_world) \<subseteq> {(8, 56)}"
  by (auto simp: prototype_links_def demo_world_def demo_object_def initial_object_def split: if_splits)

lemma demo_prototypes_ok: "prototypes_ok demo_world"
proof -
  have "acyclic {(8 :: u64, 56)}" by (simp add: acyclic_insert) (simp add: acyclic_def)
  then have "acyclic (prototype_links (objects demo_world))" using demo_links by (rule acyclic_subset)
  moreover have "objects demo_world p \<noteq> None" if "objects demo_world a = Some obj" "object_prototype obj = Some p" for a obj p
    using that by (auto simp: demo_world_def demo_object_def initial_object_def split: if_splits)
  ultimately show ?thesis by (auto simp: prototypes_ok_def)
qed

lemma demo_objects:
  "objects demo_world 8 = Some (demo_object OrdinaryKind None (StringKey [120]) value_null)"
  "objects demo_world 16 = Some (demo_object OrdinaryKind None (StringKey [103, 101, 116]) 64)"
  "objects demo_world 24 = Some (demo_object OrdinaryKind None (StringKey [111, 119, 110, 75, 101, 121, 115]) 72)"
  "objects demo_world 32 = Some (initial_object (ProxyKind (Some 16) (Some 8) False False) None)"
  "objects demo_world 40 = Some (initial_object (ProxyKind (Some 24) (Some 8) False False) None)"
  "objects demo_world 48 = Some ((initial_object (ArrayKind True) None)\<lparr>array_properties := DenseArray (Suc 0) [Cell (DataSlot 80)]\<rparr>)"
  "objects demo_world 56 = Some (demo_object OrdinaryKind (Some 8) (StringKey [121]) value_undefined)"
  by (simp_all add: demo_world_def demo_keys)

lemmas demo_reachable = links_to [of "objects demo_world" 56, OF demo_objects(7)]
  links_to [of "objects demo_world" 8, OF demo_objects(1)]

lemma demo_shell [simp]:
  "object_kind (demo_object k proto key v) = k" "object_prototype (demo_object k proto key v) = proto"
  "is_extensible_field (demo_object k proto key v) = False"
  "object_kind (initial_object k proto) = k" "object_prototype (initial_object k proto) = proto"
  "is_extensible_field (initial_object k proto) = True"
  by (simp_all add: demo_object_def initial_object_def)

lemma demo_reported:
  "reported_property demo_env demo_world 8 key =
     (if key = StringKey [120] then Some (data_descriptor value_null False True False) else None)"
  "reported_property demo_env demo_world 16 key =
     (if key = StringKey [103, 101, 116] then Some (data_descriptor 64 False True False) else None)"
  "reported_property demo_env demo_world 24 key =
     (if key = StringKey [111, 119, 110, 75, 101, 121, 115] then Some (data_descriptor 72 False True False) else None)"
  "reported_property demo_env demo_world 56 key =
     (if key = StringKey [121] then Some (data_descriptor value_undefined False True False) else None)"
  "reported_property demo_env demo_world 48 key =
     (if key = length_key then Some (data_descriptor (value_of_u32 1) True False False)
      else if key = IndexKey 0 then Some (data_descriptor 80 True True True) else None)"
  by (auto simp: reported_property_def demo_objects own_property_def object_slot_def demo_object_map abs_of_def
      demo_array_map array_properties_length_def array_length_def)

lemma demo_get:
  assumes "objects demo_world a = Some obj" "\<not> is_proxy obj" "object_prototype obj = None"
    and "reported_property demo_env demo_world a key = Some (data_descriptor v writable enumerable configurable)"
  shows "vm_get (object_methods demo_env (Suc (Suc n))) a key receiver demo_world = (Inr v, demo_world)"
proof -
  have "prototype_chain (objects demo_world) a [a]" using assms by simp
  then show ?thesis
    using get_along_chain [OF demo_world_ok, of a "[a]" "Suc n" key receiver] assms(4)
    by (simp add: read_descriptor_def effect_return_def data_descriptor_def is_data_descriptor_def
        del: object_methods.simps)
qed

lemma demo_values:
  "value_undefined \<noteq> value_null" "\<not> is_number value_undefined" "\<not> is_number value_null" "\<not> is_pointer value_undefined"
  "\<not> is_pointer value_null"
  by (simp_all add: value_undefined_def value_null_def with_tag_def TAG_SHIFT_def tag_values is_number_def
      is_smi_def is_double_def is_pointer_def is_nan_def has_tag_def get_tag_def POINTER_TAG_def
      CANONICAL_NAN_def NAN_TAG_def)

lemma demo_pointers: "is_pointer 8" "is_pointer 16" "is_pointer 24" "is_pointer 48" "is_pointer 64" "is_pointer 72" "is_pointer 80"
  by (simp_all add: is_pointer_def has_tag_def get_tag_def TAG_SHIFT_def POINTER_TAG_def)

lemma demo_is_object: "is_pointer a \<Longrightarrow> is_object demo_base a \<longleftrightarrow> a \<noteq> 80" "is_string demo_base 80"
  by (auto simp: is_object_def is_string_def demo_base_def demo_pointers)

lemma demo_traps:
  "get_method demo_env (object_methods demo_env (Suc (Suc n))) 16 (string_key ''get'') demo_world = (Inr (Some 64), demo_world)"
  "get_method demo_env (object_methods demo_env (Suc (Suc n))) 24 (string_key ''ownKeys'') demo_world = (Inr (Some 72), demo_world)"
proof -
  have get: "vm_get (object_methods demo_env (Suc (Suc n))) 16 (StringKey [103, 101, 116]) 16 demo_world = (Inr 64, demo_world)"
    "vm_get (object_methods demo_env (Suc (Suc n))) 24 (StringKey [111, 119, 110, 75, 101, 121, 115]) 24 demo_world = (Inr 72, demo_world)"
    by (rule demo_get, rule demo_objects, simp add: is_proxy_def, simp, simp add: demo_reported)+
  have base: "base_env demo_env = demo_base" by (simp add: demo_env_def)
  have callable: "callable demo_base 64" "callable demo_base 72" "\<not> is_nullish 64" "\<not> is_nullish 72"
    by (simp_all add: demo_base_def is_nullish_def get_tag_def TAG_SHIFT_def NULL_TAG_def NULLISH_TAG_MASK_def NAN_TAG_def)
  show "get_method demo_env (object_methods demo_env (Suc (Suc n))) 16 (string_key ''get'') demo_world = (Inr (Some 64), demo_world)"
    "get_method demo_env (object_methods demo_env (Suc (Suc n))) 24 (string_key ''ownKeys'') demo_world = (Inr (Some 72), demo_world)"
    using get callable by (simp_all add: get_method_def get_v_def to_object_def base demo_is_object demo_pointers
        effect_simps demo_keys del: object_methods.simps)
qed

lemma demo_canonical: "canonical_key demo_env (StringKey [120])"
  by (simp add: canonical_key_def string_allocated_def demo_env_def demo_base_def demo_pointers ascii_units_def
      property_key_string_def parse_string_to_u32_def current_decimal_value_def)

lemma demo_reports: "reports_keys demo_env (object_methods demo_env (Suc (Suc n))) 48 demo_world [80] [StringKey [120]] demo_world"
proof -
  have base: "base_env demo_env = demo_base" by (simp add: demo_env_def)
  have get: "vm_get (object_methods demo_env (Suc (Suc n))) 48 length_key 48 demo_world = (Inr (value_of_u32 1), demo_world)"
    "vm_get (object_methods demo_env (Suc (Suc n))) 48 (IndexKey 0) 48 demo_world = (Inr 80, demo_world)"
    by (rule demo_get, rule demo_objects, simp add: is_proxy_def, simp, simp add: demo_reported demo_keys)+
  have log: "log2_floor (Suc 0) = 0" by (simp add: log2_floor.simps)
  have "f64_of_int 1 = 0x3FF0000000000000" by (simp add: f64_of_int_def f64_bits_def log)
  then have one: "as_number (value_of_u32 1) = 0x3FF0000000000000" "is_number (value_of_u32 1)"
    by (simp_all add: value_of_u32_def SMI_MAX_def as_number_smi smi_value is_number_def)
  have "to_length demo_env (value_of_u32 1) demo_world = (Inr 1, demo_world)"
    by (simp add: to_length_def of_number_def to_number.simps one f64_is_nan_def f64_is_infinite_def f64_negative_def
        f64_abs_floor_def f64_scale_def f64_significand_def f64_exponent_def f64_mantissa_def MAX_SAFE_INTEGER_def)
  moreover have "property_key_from_value demo_env 80 demo_world = (Inr (StringKey [120]), demo_world)"
    using property_key_from_value_of_key [OF demo_canonical, of demo_world]
    by (simp add: property_key_to_value_def demo_env_def)
  moreover have "property_key_array_index (truncate_u32 0) = IndexKey 0"
    by (simp add: property_key_array_index_def truncate_u32_def u32_max_def)
  moreover have "string_key ''length'' = length_key" by (simp add: length_key_def)
  ultimately show ?thesis
    using get by (simp add: reports_keys_def base demo_is_object demo_pointers effect_simps length_of_array_like_def
        operation_get_def vec_with_capacity_def must_def demo_env_def [THEN arg_cong, of max_allocation]
        del: object_methods.simps)
qed

section \<open>Defining a property\<close>

text \<open>C4: In a consistent world, defining a property of an ordinary object (neither an array nor a proxy)
  gives the answer that ValidateAndApplyPropertyDescriptor of ECMAScript gives, and the property that it
  prescribes: on every branch, for new properties, for changes of value and attributes, and for conversions
  between data and accessor properties, in the named properties and in dense or sparse arrays.  Where the
  property is fixed, its value may be left as it is if it is the same for SameValue.  No other object changes
  and no object changes its kind, its prototype or its extensibility; no other property of the object changes
  either, except possibly one with an index that the sparse array of the object stores twice, which only an
  index that was set again after a removal is.  A consistent world is one in which every object meets the
  invariant of its hash tables, removals included, and accessors are not shared; the key is not the name of a
  private property, an index leaves room for the length of the array, and the descriptor is not both a data
  and an accessor descriptor.\<close>

theorem define_own_property_correct:
  assumes "world_ok env w" and "objects w a = Some obj"
    and "object_kind obj = OrdinaryKind \<or> object_kind obj = ObjectPrototypeKind"
    and "key_room obj key" and "public_key env w a key" and "descriptor_ok desc"
  shows "\<exists>w' x. vm_define_own_property (object_methods env (Suc (Suc n))) a key desc w =
      (Inr (fst (validate_and_apply (same_value (base_env env)) (is_extensible_field obj) desc (own_property env w a key))), w')
    \<and> world_ok env w' \<and> same_shells w w'
    \<and> own_property env w' a key = x
    \<and> rel_option (same_property (same_value (base_env env))) x
        (snd (validate_and_apply (same_value (base_env env)) (is_extensible_field obj) desc (own_property env w a key)))
    \<and> (\<forall>b j. (b = a \<longrightarrow> j \<noteq> key \<and> key_stable w a j) \<longrightarrow> own_property env w' b j = own_property env w b j)"
proof -
  obtain w' x where "vm_define_own_property (object_methods env (Suc (Suc n))) a key desc w =
      (Inr (fst (validate_and_apply (same_value (base_env env)) (is_extensible_field obj) desc (own_property env w a key))), w')"
    "world_ok env w'" "same_shells w w'" "own_updated env w w' a key x"
    "rel_option (same_property (same_value (base_env env))) x
      (snd (validate_and_apply (same_value (base_env env)) (is_extensible_field obj) desc (own_property env w a key)))"
    using ordinary_define_own_property_ok [OF assms(1,2,4,5,6,3), of n] by (elim exE conjE)
  then show ?thesis by (intro exI [of _ w'] exI [of _ x]) (simp add: own_updated_def)
qed

lemma define_own_property_correct_witness:
  "\<exists>w' x. vm_define_own_property (object_methods demo_env (Suc (Suc 0))) 8 (StringKey [120])
        (data_value_only_descriptor value_undefined) demo_world = (Inr False, w')
    \<and> own_property demo_env w' 8 (StringKey [120]) = Some x \<and> same_property (same_value demo_base) x (AbsData value_null False True False)"
proof -
  define desc where "desc = data_value_only_descriptor value_undefined"
  have desc: "descriptor_ok desc" "\<not> has_no_fields desc" "\<not> is_generic_descriptor desc" "\<not> is_accessor_descriptor desc"
    by (simp_all add: desc_def data_value_only_descriptor_def descriptor_ok_def is_accessor_descriptor_def
        has_no_fields_def is_generic_descriptor_def is_data_descriptor_def)
  have "\<not> same_value demo_base value_undefined value_null"
    by (simp add: demo_values same_value_def same_value_non_numeric_def)
  then have spec: "validate_and_apply (same_value (base_env demo_env)) ext desc (own_property demo_env demo_world 8 (StringKey [120]))
      = (False, Some (AbsData value_null False True False))" for ext
    using desc by (simp add: demo_x validate_and_apply_def change_allowed_def demo_base_env)
      (simp add: desc_def data_value_only_descriptor_def)
  have hyps: "objects demo_world 8 = Some (demo_object OrdinaryKind None (string_key ''x'') value_null)"
    "key_room (demo_object OrdinaryKind None (string_key ''x'') value_null) (StringKey [120])"
    "public_key demo_env demo_world 8 (StringKey [120])"
    by (simp add: demo_world_def, simp add: key_room_other, simp add: public_key_def demo_x)
  obtain w' x where "vm_define_own_property (object_methods demo_env (Suc (Suc 0))) 8 (StringKey [120]) desc demo_world
      = (Inr False, w')" "own_property demo_env w' 8 (StringKey [120]) = x"
    "rel_option (same_property (same_value (base_env demo_env))) x (Some (AbsData value_null False True False))"
    using define_own_property_correct [OF demo_world_ok hyps(1) _ hyps(2,3) desc(1), of 0]
    by (auto simp: spec demo_object_def)
  then show ?thesis
    unfolding desc_def by (auto simp: demo_env_def option_rel_Some2)
qed

text \<open>C8: In a consistent world, deleting a property of an object that is not a proxy succeeds exactly if
  the object does not report it or reports it as configurable; the length of an array is never deleted.  Then
  the object no longer has the property, unless its sparse array stored the index twice, which only an index
  that was set again after a removal is.  No other property of any object changes, no object changes its kind,
  its prototype or its extensibility, and the world stays consistent; if the deletion is refused nothing
  changes.\<close>

theorem delete_correct:
  assumes "world_ok env w" and "objects w a = Some obj" and "\<not> is_proxy obj"
  shows "\<exists>w'. vm_delete (object_methods env (Suc (Suc n))) a key w = (Inr (delete_allowed env w a key), w')
    \<and> world_ok env w' \<and> same_shells w w'
    \<and> (delete_allowed env w a key \<longrightarrow> key_stable w a key \<longrightarrow> own_property env w' a key = None)
    \<and> (\<forall>b j. b \<noteq> a \<or> j \<noteq> key \<longrightarrow> own_property env w' b j = own_property env w b j)
    \<and> (\<not> delete_allowed env w a key \<longrightarrow> w' = w)"
  using assms by (rule vm_delete_ok)

lemma delete_correct_witness:
  "\<exists>w'. vm_delete (object_methods demo_env (Suc (Suc 0))) 48 (IndexKey 0) demo_world = (Inr True, w')
    \<and> own_property demo_env w' 48 (IndexKey 0) = None
    \<and> own_property demo_env w' 8 (StringKey [120]) = Some (AbsData value_null False True False)"
proof -
  have plain: "\<not> is_proxy ((initial_object (ArrayKind True) None)\<lparr>array_properties := DenseArray (Suc 0) [Cell (DataSlot 80)]\<rparr>)"
    by (simp add: is_proxy_def)
  have allowed: "delete_allowed demo_env demo_world 48 (IndexKey 0)"
    by (simp add: delete_allowed_def demo_reported demo_keys data_descriptor_def)
  have stable: "key_stable demo_world 48 (IndexKey 0)" by (simp add: key_stable_def demo_objects)
  obtain w' where w': "vm_delete (object_methods demo_env (Suc (Suc 0))) 48 (IndexKey 0) demo_world
      = (Inr (delete_allowed demo_env demo_world 48 (IndexKey 0)), w')"
    "delete_allowed demo_env demo_world 48 (IndexKey 0) \<longrightarrow> key_stable demo_world 48 (IndexKey 0) \<longrightarrow>
      own_property demo_env w' 48 (IndexKey 0) = None"
    "\<forall>b j. b \<noteq> 48 \<or> j \<noteq> IndexKey 0 \<longrightarrow> own_property demo_env w' b j = own_property demo_env demo_world b j"
    using delete_correct [OF demo_world_ok demo_objects(6) plain, of 0 "IndexKey 0"] by (elim exE conjE)
  have "own_property demo_env w' 8 (StringKey [120]) = Some (AbsData value_null False True False)"
    using w'(3) by (simp add: demo_x(2))
  then show ?thesis using w'(1,2) allowed stable by (intro exI [of _ w']) (simp only: simp_thms)
qed

section \<open>Prototypes\<close>

text \<open>C5: In a world whose chains of prototypes are free of cycles, setting the prototype of an object that is
  not a proxy succeeds exactly when it has that prototype
  already, or is extensible, is not the immutable prototype object, and the object is not reachable from the
  new prototype without passing through a proxy; then only its prototype changes.  The search for the cycle
  ends, and no chain of prototypes, which ends at an object without prototype or at a proxy, ever becomes a
  cycle.\<close>

theorem set_prototype_of_correct:
  assumes "prototypes_ok w" and "objects w a = Some obj" and "\<not> is_proxy obj"
    and "\<And>q. p = Some q \<Longrightarrow> objects w q \<noteq> None"
  shows "let allowed = set_prototype_allowed w a obj p; w' = (if allowed then with_prototype w a obj p else w) in
    vm_set_prototype_of (object_methods env (Suc n)) a p w = (Inr allowed, w') \<and> prototypes_ok w'"
proof -
  have "vm_set_prototype_of (object_methods env (Suc n)) a p w = ordinary_set_prototype_of a p w"
    using assms(2,3) by (cases "object_kind obj") (auto simp: dispatch_simps)
  then show ?thesis
    using ordinary_set_prototype_of_ok [where p = p, OF assms(1,2,4)] with_prototype_ok [where p = p, OF assms(1,2,4)] assms(1)
    by (cases "set_prototype_allowed w a obj p") (simp_all add: Let_def)
qed

lemma set_prototype_of_correct_witness:
  "fst (vm_set_prototype_of (object_methods demo_env 1) 48 (Some 56) demo_world) = Inr True
    \<and> prototypes_ok (snd (vm_set_prototype_of (object_methods demo_env 1) 48 (Some 56) demo_world))"
proof -
  define obj where "obj = (initial_object (ArrayKind True) None)\<lparr>array_properties := DenseArray (Suc 0) [Cell (DataSlot 80)]\<rparr>"
  have obj: "objects demo_world 48 = Some obj" "\<not> is_proxy obj"
    by (simp_all add: obj_def demo_objects is_proxy_def)
  have "(48, 56) \<notin> (prototype_links (objects demo_world))\<^sup>*"
    by (simp add: demo_reachable)
  then have allowed: "set_prototype_allowed demo_world 48 obj (Some 56)"
    by (simp add: set_prototype_allowed_def obj_def)
  show ?thesis
    using set_prototype_of_correct [OF demo_prototypes_ok obj, of "Some 56" demo_env 0] allowed
    by (simp add: demo_objects Let_def del: object_methods.simps)
qed

text \<open>C11: In a consistent world whose chains of prototypes are free of cycles, reading a property of an
  object with no proxy on its chain, itself included, ends: the chain has no more objects than there are, and
  with native stack for at least as many calls as the chain has objects the result is that of the first object
  on the chain that has the property, its value or what its getter returns for the receiver, or undefined if
  none has it.\<close>

theorem get_correct:
  assumes "world_ok env w" and "prototypes_ok w" and "objects w a \<noteq> None" and "no_proxy_above (objects w) a"
  shows "\<exists>chain. prototype_chain (objects w) a chain \<and> distinct chain \<and> length chain \<le> card (dom (objects w))
    \<and> (\<forall>key receiver n. length chain \<le> n \<longrightarrow>
        vm_get (object_methods env (Suc n)) a key receiver w =
          (case chain_lookup env w key chain of
             None \<Rightarrow> (Inr value_undefined, w)
           | Some desc \<Rightarrow> read_descriptor env receiver desc w))"
proof -
  obtain chain where chain: "prototype_chain (objects w) a chain" "distinct chain" "\<forall>b \<in> set chain. objects w b \<noteq> None"
    using prototype_chain_exists [OF assms(2-4)] by blast
  have "length chain = card (set chain)" using chain(2) by (simp add: distinct_card)
  also have "\<dots> \<le> card (dom (objects w))"
    using chain(3) by (intro card_mono) (auto intro: finite_subset [OF subset_UNIV])
  finally show ?thesis using chain(1,2) get_along_chain [OF assms(1) chain(1)] by blast
qed

lemma get_correct_witness:
  "vm_get (object_methods demo_env (Suc 2)) 56 (StringKey [120]) 56 demo_world = (Inr value_null, demo_world)"
proof -
  have "(b, 56) \<in> (prototype_links (objects demo_world))\<^sup>* \<Longrightarrow> b = 56 \<or> b = 8" for b
    by (auto simp: demo_reachable)
  then have "no_proxy_above (objects demo_world) 56"
    by (fastforce simp: no_proxy_above_def demo_objects is_proxy_def)
  then obtain chain where chain: "prototype_chain (objects demo_world) 56 chain"
    "\<forall>key receiver n. length chain \<le> n \<longrightarrow>
        vm_get (object_methods demo_env (Suc n)) 56 key receiver demo_world =
          (case chain_lookup demo_env demo_world key chain of
             None \<Rightarrow> (Inr value_undefined, demo_world)
           | Some desc \<Rightarrow> read_descriptor demo_env receiver desc demo_world)"
    using get_correct [OF demo_world_ok demo_prototypes_ok, of 56] by (auto simp: demo_objects)
  have "chain = [56, 8]"
    using chain(1) by (cases chain; cases "tl chain") (auto simp: demo_objects)
  then show ?thesis
    using chain(2) [rule_format, of 2 "StringKey [120]" 56] by (simp add: demo_reported read_descriptor_def is_data_descriptor_def data_descriptor_def
        effect_return_def del: object_methods.simps)
qed

section \<open>Keys\<close>

text \<open>C12: In a consistent world, the own keys of an object that is not a proxy are listed completely, private
  names apart: first the indices in ascending order, then the length if it is an array, then the strings and
  then the symbols, each in the order in which they were added.  Each key is listed once exactly if the sparse
  array of the object stores no index twice, which only an index that was set again after a removal is, and an
  array has no other property with the name of the length.\<close>

theorem own_property_keys_correct:
  assumes "world_ok env w" and "objects w a = Some obj" and "\<not> is_proxy obj"
  shows "let entries = index_map_al (named_properties obj) in
    \<exists>indices keys. keys = map IndexKey indices @ own_length obj @ string_names entries @ symbol_names entries
      \<and> vm_own_property_keys (object_methods env (Suc n)) a w = (Inr (map (property_key_to_value env) keys), w)
      \<and> sorted indices
      \<and> set keys = {key. \<exists>p. object_slot env w a key = Some p \<and> listed_property key p} \<union> set (own_length obj)
      \<and> (distinct keys \<longleftrightarrow> keys_once obj)"
proof -
  obtain indices where "vm_own_property_keys (object_methods env (Suc n)) a w
      = (Inr (map (property_key_to_value env) (listed_keys obj indices)), w)" "sorted indices"
    "distinct (listed_keys obj indices) \<longleftrightarrow> keys_once obj" "set (listed_keys obj indices) = target_keys env w a"
    using vm_own_property_keys_ok [OF assms, of n] by (elim exE conjE)
  then show ?thesis
    unfolding Let_def using assms(2)
    by (intro exI [of _ indices] exI [of _ "listed_keys obj indices"] conjI)
      (simp_all only: listed_keys_def target_keys_def option.case)
qed

lemma own_property_keys_correct_witness:
  "vm_own_property_keys (object_methods demo_env 1) 8 demo_world = (Inr [80], demo_world)"
proof -
  have own: "{key. \<exists>p. object_slot demo_env demo_world 8 key = Some p \<and> listed_property key p} = {StringKey [120]}"
    by (auto simp: demo_x listed_property_def)
  have plain: "\<not> is_proxy (demo_object OrdinaryKind None (StringKey [120]) value_null)" by (simp add: is_proxy_def)
  have len: "own_length (demo_object OrdinaryKind None (StringKey [120]) value_null) = []" by (simp add: own_length_def)
  have once: "keys_once (demo_object OrdinaryKind None (StringKey [120]) value_null)"
    by (simp add: keys_once_def len) (simp add: demo_object_def demo_stable)
  obtain keys where keys: "vm_own_property_keys (object_methods demo_env (Suc 0)) 8 demo_world
      = (Inr (map (property_key_to_value demo_env) keys), demo_world)" "set keys = {StringKey [120]} \<union> set []"
    "distinct keys \<longleftrightarrow> keys_once (demo_object OrdinaryKind None (StringKey [120]) value_null)"
    using own_property_keys_correct [OF demo_world_ok demo_objects(1) plain, of 0, unfolded Let_def own len]
    by (elim exE conjE) blast+
  have "keys = [StringKey [120]]" using keys(2,3) once by (cases keys; cases "tl keys") auto
  then show ?thesis using keys(1) by (simp add: property_key_to_value_def demo_env_def del: object_methods.simps)
qed

text \<open>C13: The value that stands for a property key, a new string or the symbol, is turned back into the same
  key, and different strings are different keys, whether they are written as an array index or not.\<close>

theorem property_key_roundtrip:
  assumes "canonical_key env key"
  shows "property_key_from_value env (property_key_to_value env key) w = (Inr key, w)
    \<and> (property_key_string xs = property_key_string ys \<longleftrightarrow> xs = ys)"
  using property_key_from_value_of_key [OF assms] property_key_string_inject by simp

lemma property_key_roundtrip_witness:
  "property_key_from_value demo_env 80 demo_world = (Inr (StringKey [120]), demo_world)"
  using property_key_roundtrip [OF demo_canonical, of demo_world "[]" "[]"]
  by (simp add: property_key_to_value_def demo_env_def)

section \<open>Proxies\<close>

text \<open>C14: What the get trap of a proxy returns is passed on if the target, an object that is not itself a
  proxy in a world that is consistent after the trap, permits it: for a data property that is neither
  configurable nor writable only its value, for an accessor property without getter that is not configurable
  only undefined; otherwise a TypeError is thrown.\<close>

theorem proxy_get_checked:
  assumes "objects w a = Some p" and "object_kind p = ProxyKind (Some h) (Some t) c k"
    and "get_method env (object_methods env (Suc n)) h (string_key ''get'') w = (Inr (Some f), w0)"
    and "call_function env f h [t, property_key_to_value env key, receiver] w0 = (Inr v, w1)"
    and "world_ok env w1" and "objects w1 t = Some obj" and "\<not> is_proxy obj"
  shows "vm_get (object_methods env (Suc (Suc n))) a key receiver w =
    (case reported_property env w1 t key of
       None \<Rightarrow> (Inr v, w1)
     | Some desc \<Rightarrow>
         if value_permitted env desc v then (Inr v, w1) else (Inl (Throw (type_error (base_env env))), w1))"
  using assms by (rule proxy_get_ok)

lemma proxy_get_checked_witness:
  "vm_get (object_methods demo_env (Suc (Suc 1))) 32 (StringKey [120]) 32 demo_world = (Inr value_null, demo_world)"
proof -
  have proxy: "object_kind (initial_object (ProxyKind (Some 16) (Some 8) False False) None) = ProxyKind (Some 16) (Some 8) False False"
    by simp
  have trap: "get_method demo_env (object_methods demo_env (Suc 1)) 16 (string_key ''get'') demo_world = (Inr (Some 64), demo_world)"
    using demo_traps(1) [of 0] by (simp del: object_methods.simps)
  have call: "call_function demo_env 64 16 [8, property_key_to_value demo_env (StringKey [120]), 32] demo_world = (Inr value_null, demo_world)"
    by (simp add: call_function_def demo_env_def demo_base_def effect_return_def)
  have target: "\<not> is_proxy (demo_object OrdinaryKind None (StringKey [120]) value_null)" by (simp add: is_proxy_def)
  have "value_permitted demo_env (data_descriptor value_null False True False) value_null"
    by (simp add: value_permitted_def data_descriptor_def is_data_descriptor_def same_value_def
        same_value_non_numeric_def demo_values)
  then show ?thesis
    using proxy_get_checked [OF demo_objects(4) proxy trap call demo_world_ok demo_objects(1) target]
    by (simp add: demo_reported)
qed

text \<open>C15: The keys that the ownKeys trap of a proxy reports, in an array-like object of strings and symbols
  without duplicates, are passed on exactly if they contain every key of the target that is not configurable
  and, where the target is not extensible, are exactly its keys; otherwise a TypeError is thrown.  The target is an object or an array but not itself a proxy, in a world that
  is consistent after the trap; it stores no index twice, which only an index that was set again after a
  removal is, an array has no other property with the name of the length, and the values of its keys are turned
  back into the same keys.\<close>

theorem proxy_own_property_keys_checked:
  assumes "objects w a = Some p" and "object_kind p = ProxyKind (Some h) (Some t) c k"
    and "get_method env (object_methods env (Suc n)) h (string_key ''ownKeys'') w = (Inr (Some f), w0)"
    and "call_function env f h [t] w0 = (Inr r, w1)"
    and "reports_keys env (object_methods env (Suc n)) r w1 vs keys w2"
    and "world_ok env w2" and "objects w2 t = Some obj" and "\<not> is_proxy obj" and "keys_once obj"
    and "\<And>key. key \<in> target_keys env w2 t \<Longrightarrow> canonical_key env key"
  shows "vm_own_property_keys (object_methods env (Suc (Suc n))) a w =
    (if {key \<in> target_keys env w2 t. fixed_key env w2 t key} \<subseteq> set keys
        \<and> (is_extensible_field obj \<or> set keys = target_keys env w2 t)
     then (Inr vs, w2) else (Inl (Throw (type_error (base_env env))), w2))"
  using assms by (rule proxy_own_property_keys_ok)

lemma proxy_own_property_keys_checked_witness:
  "vm_own_property_keys (object_methods demo_env (Suc (Suc 1))) 40 demo_world = (Inr [80], demo_world)"
proof -
  have keys: "target_keys demo_env demo_world 8 = {StringKey [120]}"
    by (auto simp: target_keys_def demo_x listed_property_def demo_objects own_length_def)
  have plain: "\<not> is_proxy (demo_object OrdinaryKind None (StringKey [120]) value_null)" by (simp add: is_proxy_def)
  have once: "keys_once (demo_object OrdinaryKind None (StringKey [120]) value_null)"
    by (simp add: keys_once_def own_length_def) (simp add: demo_object_def demo_stable)
  have proxy: "object_kind (initial_object (ProxyKind (Some 24) (Some 8) False False) None) = ProxyKind (Some 24) (Some 8) False False"
    by simp
  have trap: "get_method demo_env (object_methods demo_env (Suc 1)) 24 (string_key ''ownKeys'') demo_world = (Inr (Some 72), demo_world)"
    using demo_traps(2) [of 0] by (simp del: object_methods.simps)
  have call: "call_function demo_env 72 24 [8] demo_world = (Inr 48, demo_world)"
    by (simp add: call_function_def demo_env_def demo_base_def effect_return_def)
  have reports: "reports_keys demo_env (object_methods demo_env (Suc 1)) 48 demo_world [80] [StringKey [120]] demo_world"
    using demo_reports [of 0] by (simp del: object_methods.simps)
  have "canonical_key demo_env key" if "key \<in> target_keys demo_env demo_world 8" for key
    using that demo_canonical by (simp add: keys)
  then show ?thesis
    using proxy_own_property_keys_checked [OF demo_objects(5) proxy trap call reports demo_world_ok demo_objects(1) plain once]
    by (auto simp: keys)
qed

end
