(* ===== verification/Spec2Isabelle.thy ===== *)
theory Spec2Isabelle
  imports Regexp_Findings String_Properties Regexp_Pattern_Properties Map_Properties Array_Correct
    Expression_Correct Bytecode_Handlers Bytecode_Jumps_Correct Object_Properties
begin

text \<open>
  A model of the core of the Brimstone JavaScript engine (\<open>src/src/js\<close>), with the theorems that make it
  correct and the places where the code does something else than it means to.

  \<^bold>\<open>The program.\<close>  Brimstone parses JavaScript to a syntax tree, compiles it to bytecode and runs the
  bytecode in a virtual machine over a garbage collected heap.  Regular expressions have a parser, a
  compiler and a bytecode engine of their own.  Modelled are the parts that decide what a program computes
  and that can be stated without the layout of the heap: strings and text streams, the whole of regular expressions,
  values with their conversions, comparisons and operators, the hash tables behind objects, maps and
  sets, objects with their properties, prototypes and internal methods, proxies among them, and the
  bytecode format with everything that writes, patches, encodes and reads
  it.

  \<^bold>\<open>Theories and sources.\<close>
  \<^item> \<open>Prelude\<close>: options and sums as error monads, vectors with checked indexing, checked arithmetic.
  \<^item> \<open>Unicode\<close>, \<open>Icu_Ranges\<close>, \<open>Unicode_Property\<close>, \<open>Wtf8\<close>, \<open>String_Iterators\<close>: \<open>common/unicode.rs\<close>,
    \<open>unicode_property.rs\<close>, \<open>wtf_8.rs\<close>, \<open>string_iterators.rs\<close>.  \<open>Lexer_Stream\<close>: the four streams of
    \<open>parser/lexer_stream.rs\<close>, as a record of operations over a state.  \<open>String_Properties\<close> proves that
    coding and decoding, iteration and the streams agree.
  \<^item> \<open>Regexp_Ast\<close>, \<open>Regexp_Parser_State\<close>, \<open>Regexp_Parser_Lexing\<close>, \<open>Regexp_Class_Parser\<close>,
    \<open>Regexp_Parser\<close>, \<open>Regexp_Pattern\<close>: \<open>parser/regexp.rs\<close>, \<open>parser/regexp_parser.rs\<close> and the callers in
    \<open>regexp_constructor.rs\<close> and \<open>parser.rs\<close>.  \<open>Regexp_Parser_Rules\<close> is the calculus by which the methods
    are verified, \<open>Regexp_Parser_Safety\<close>, \<open>Regexp_Parser_Groups\<close>, \<open>Regexp_Parser_Correct\<close> and
    \<open>Regexp_Parser_Text\<close> verify them, \<open>Regexp_Pattern_Properties\<close> states the results.
  \<^item> \<open>Regexp_Instr\<close>, \<open>Regexp_Matcher\<close>: \<open>runtime/regexp/instruction.rs\<close>, \<open>matcher.rs\<close>, with
    \<open>Regexp_Safety\<close> and \<open>Regexp_Matcher_Properties\<close>; \<open>Regexp_Compiler\<close>: \<open>runtime/regexp/compiler.rs\<close>, with
    \<open>Regexp_Compiler_Safety\<close>, \<open>Regexp_Compiler_Properties\<close> and \<open>Regexp_Findings\<close>.
  \<^item> \<open>Index_Map\<close>, \<open>Hash_Map\<close>: \<open>runtime/collections/index_map.rs\<close> and \<open>hash_map.rs\<close> (and their sets), with
    \<open>Index_Map_Correct\<close>, \<open>Hash_Map_Correct\<close> (without removals, a finite map) and \<open>Hash_Map_Reachable\<close> (with
    removals, after which a key can be stored twice); \<open>Map_Interface\<close> holds the locale of a finite map that both
    provide and \<open>Map_Objects\<close> the \<open>Map\<close> objects and iterators on top; \<open>Map_Properties\<close> states the results.
  \<^item> \<open>Array_Properties\<close>, \<open>Array_Correct\<close>: \<open>runtime/property.rs\<close> and \<open>array_properties.rs\<close>.
  \<^item> \<open>Object_Model\<close>: \<open>runtime/property_key.rs\<close>, \<open>property_descriptor.rs\<close>, \<open>object_value.rs\<close> and
    \<open>accessor.rs\<close>; \<open>Object_Operations\<close> and \<open>Object_Methods\<close>: \<open>abstract_operations.rs\<close> and the dispatch to
    the kinds of objects; \<open>Ordinary_Object\<close>, \<open>Array_Object\<close>, \<open>Proxy_Object\<close>: the files of these names.
    \<open>Object_Store\<close> gives the named and the indexed properties one contract, \<open>Object_Correct\<close> and
    \<open>Object_Define\<close> relate objects to abstract properties and definitions to the standard,
    \<open>Object_Prototypes\<close>, \<open>Object_Delete\<close>, \<open>Object_Keys\<close> and \<open>Proxy_Correct\<close> treat chains, deletion, keys
    and traps, and \<open>Object_Properties\<close> states the results.
  \<^item> \<open>Float64\<close>, \<open>Value\<close>, \<open>Number_Conversion\<close>, \<open>Comparison\<close>, \<open>Expression\<close>: doubles as bits,
    \<open>runtime/value.rs\<close>, \<open>type_utilities.rs\<close> and \<open>eval/expression.rs\<close>, with \<open>Value_Correct\<close>,
    \<open>Value_Properties\<close>, \<open>Comparison_Correct\<close> and \<open>Expression_Correct\<close>.
  \<^item> \<open>Bytecode_Operand\<close>, \<open>Bytecode_Instructions\<close>, \<open>Bytecode_Writer\<close>, \<open>Bytecode_Handlers\<close>,
    \<open>Bytecode_Constants\<close>, \<open>Bytecode_Jumps\<close>: \<open>runtime/bytecode/width.rs\<close>, \<open>operand.rs\<close>,
    \<open>register_allocator.rs\<close>, \<open>instruction.rs\<close>, \<open>writer.rs\<close>, \<open>source_map.rs\<close>, \<open>exception_handlers.rs\<close>,
    \<open>constant_table_builder.rs\<close>, \<open>constant_table.rs\<close>, the blocks and jumps of \<open>generator.rs\<close> and the jumps
    and the search for handlers of \<open>vm.rs\<close>.  \<open>Bytecode_Correct\<close>, \<open>Bytecode_Source_Map\<close>,
    \<open>Bytecode_Layout\<close> and \<open>Bytecode_Jumps_Correct\<close> prove what is written to be what is read.

  \<^bold>\<open>How the code is translated.\<close>  Structs are records, enums are datatypes, machine integers are words
  where their width matters and naturals or integers with explicit checks elsewhere; \<open>usize\<close> has 64 bits.
  Bytes are little endian, as on the machines the engine runs on.  A panic (a failed \<open>debug_assert!\<close>, an
  index out of range, an overflow of checked arithmetic) and a read outside of a buffer are \<open>None\<close> or the
  error \<open>Panic\<close> of the type at hand, so that theorems about safety are about results.  Errors of the
  language are the other side of a sum.  Mutation is state that is returned; where objects are shared, as
  the tables that iterators point to and objects, there is a store of addresses.

  \<^bold>\<open>Loops.\<close>  Loops over an index or a list are recursive functions with a measure.  The matcher of regular
  expressions and its parser run on a step budget.  Matching can take exponentially many steps, and what is
  proved of the matcher holds for every budget; for the parser the length of the text plus one is enough
  (\<open>parse_pattern_total\<close>).  The iteration over equal prefixes of strings is a partial function.
  Internal methods of objects call each other on the native stack; the model has a number of such calls
  that the stack has room for, and along a chain of prototypes its length is enough (\<open>get_correct\<close>).

  \<^bold>\<open>Parameters.\<close>  What is not under \<open>src/\<close> is an argument: the tables of ICU (identifier characters,
  scripts, case mapping), hash functions, and, for operators, IEEE arithmetic and the parsing of numbers
  from strings.  The conversions see objects through an environment that answers what a pointer points
  to and runs user code, with its effects on a state; for the operations on objects the state is the world
  of all objects, and calls into the virtual machine, wrapper objects of primitive values, the text of a
  double and the size of the largest allocation are parameters.

  \<^bold>\<open>What is proved.\<close>  Safety: compiled regular expressions never cause undefined behaviour, on any string;
  the parser neither panics nor loops on any pattern, and the trees it returns meet the hypothesis under
  which compiled bytecode is well-formed (the compiler itself can panic, see \<open>Regexp_Findings\<close>).  Invariants
  and refinement: backtracking restores the state on each of the streams of the matcher, flattening resolves
  blocks, maps and array properties behave like their mathematical counterparts while they grow, move and are
  iterated over.  Equivalence: loose equality, the order of values and the conversions to integers are those of
  ECMAScript, and so is the definition and deletion of properties.  Prototype chains never become cycles, and
  proxies cannot report what contradicts their target.  Bytecode: decoding inverts writing at every width,
  source positions are found, every jump of a function of at most 65536 steps lands at its block, the
  innermost handler is chosen in tables that are not extra wide.

  \<^bold>\<open>Removals.\<close>  \<open>BsHashMap\<close> stores a key twice when it is set again after another key of its probe sequence
  was removed, and growth can then bring back its old value (\<open>growth_restores_old_value\<close>).  Sparse arrays are
  such tables.  The invariants allow them: \<open>hash_map_wf\<close> and \<open>array_ok\<close> hold in every state that the
  operations of a hash map or an array lead to (\<open>reachable_wf\<close>, \<open>array_reachable_ok\<close>), and \<open>world_ok\<close> is
  kept by the definition and the deletion of properties.  What an operation keeps of another index is stated
  for those that are stored once (\<open>key_copies\<close>, \<open>index_stable\<close>, \<open>key_stable\<close>).  A number of theorems show by a concrete input that the code differs from
  the standard or from its own comments; the findings of the manifest list these.

  \<^bold>\<open>Interfaces.\<close>  Locales state what the parts rely on: \<open>lexer_stream\<close> (what a parser may expect of a
  stream, interpreted by the streams of the code), \<open>parser_run\<close> and \<open>parser_text\<close> (a parser over any such
  stream, interpreted for the three streams that regular expressions are parsed from), \<open>finite_map\<close> and
  \<open>ordered_map\<close> (what a table provides, interpreted by the hash map and the index map), \<open>property_store\<close>
  (finding and storing properties, interpreted by named properties, array properties and objects).

  \<^bold>\<open>Not modelled.\<close>  The garbage collector and the layout of heap items, which are pointer arithmetic on
  raw memory and depend on the whole object graph; the parser, the analyzer and the scope tree of
  JavaScript, and the part of the generator that walks the syntax tree, which are large and need the
  arena-allocated tree first; the virtual machine beyond jumps and handlers, and the intrinsics, which
  call each other through the heap; modules, promises, generators, and the internal methods of typed arrays, string
  objects, arguments objects and module namespaces; printing, tracing, file and
  terminal access, the bindings for other languages, and the generated or vendored data.
\<close>

end
